(* ===== verification/JS_Prelude.thy ===== *)
theory JS_Prelude
  imports Complex_Main "HOL-Library.AList"
begin

text \<open>
  Vocabulary shared by the components: the JavaScript values and containers the SDK is written
  with, and the generic facts about them.
  \<^item> Strings are lists of characters; a character stands for the code unit of the same number,
    so the model covers the Latin-1 range. Case conversion is the ASCII one.
  \<^item> \<open>BigInt\<close> is \<open>int\<close>, with \<open>bdiv\<close> and \<open>brem\<close> for the truncating \<open>/\<close> and \<open>%\<close>.
  \<^item> A JavaScript \<open>Map\<close> iterates in insertion order and \<open>set\<close> on a present key keeps its place:
    that is an association list with \<open>AList.update\<close> and \<open>AList.delete\<close>. The contract is the
    locale \<open>ordered_map\<close>, interpreted here on these operations as \<open>jm\<close>.
  \<^item> A capped buffer (push, then drop the oldest while over the cap) is the locale
    \<open>capped_buffer\<close>; each component that keeps one interprets it on its own push.
  \<^item> A component driven by a sequence of operations is the locale \<open>invariant_machine\<close>.
\<close>

named_theorems js_defs \<open>unfoldings of the small helper functions\<close>
named_theorems map_laws \<open>lookup and key laws of insertion-ordered maps\<close>

section \<open>Results that may be an exception\<close>

text \<open>A thrown error is \<open>Inl\<close>; sequencing stops at the first one.\<close>

definition bindR :: "'e + 'a \<Rightarrow> ('a \<Rightarrow> 'e + 'b) \<Rightarrow> 'e + 'b" where
  "bindR r f = (case r of Inl e \<Rightarrow> Inl e | Inr x \<Rightarrow> f x)"

definition mapR :: "('a \<Rightarrow> 'b) \<Rightarrow> 'e + 'a \<Rightarrow> 'e + 'b" where
  "mapR f r = (case r of Inl e \<Rightarrow> Inl e | Inr x \<Rightarrow> Inr (f x))"

definition okR :: "'e + 'a \<Rightarrow> 'a option" where
  "okR r = (case r of Inl e \<Rightarrow> None | Inr x \<Rightarrow> Some x)"

lemma bindR_simps [simp]: "bindR (Inl e) f = Inl e" "bindR (Inr x) f = f x"
  by (simp_all add: bindR_def)

lemma mapR_simps [simp]: "mapR g (Inl e) = Inl e" "mapR g (Inr x) = Inr (g x)"
  by (simp_all add: mapR_def)

lemma okR_simps [simp]: "okR (Inl e) = None" "okR (Inr x) = Some x"
  by (simp_all add: okR_def)

lemma bindR_Inr_iff: "bindR r f = Inr y \<longleftrightarrow> (\<exists>x. r = Inr x \<and> f x = Inr y)"
  by (cases r) simp_all

lemma mapR_Inr_iff: "mapR f r = Inr y \<longleftrightarrow> (\<exists>x. r = Inr x \<and> y = f x)"
  by (cases r) auto

section \<open>BigInt division\<close>

definition bdiv :: "int \<Rightarrow> int \<Rightarrow> int" where
  "bdiv a b = (if (a < 0) \<noteq> (b < 0) then - (\<bar>a\<bar> div \<bar>b\<bar>) else \<bar>a\<bar> div \<bar>b\<bar>)"

definition brem :: "int \<Rightarrow> int \<Rightarrow> int" where
  "brem a b = (if a < 0 then - (\<bar>a\<bar> mod \<bar>b\<bar>) else \<bar>a\<bar> mod \<bar>b\<bar>)"

lemma bdiv_brem: "b * bdiv a b + brem a b = a"
proof -
  define q r where "q = \<bar>a\<bar> div \<bar>b\<bar>" and "r = \<bar>a\<bar> mod \<bar>b\<bar>"
  have "\<bar>b\<bar> * q + r = \<bar>a\<bar>" by (simp add: q_def r_def)
  then show ?thesis
    unfolding bdiv_def brem_def q_def [symmetric] r_def [symmetric]
    by (cases "a < 0"; cases "b < 0") (simp_all add: algebra_simps)
qed

lemma abs_brem: "\<bar>brem a b\<bar> = \<bar>a\<bar> mod \<bar>b\<bar>" if "b \<noteq> 0"
  using that by (simp add: brem_def)

lemma abs_brem_less: "\<bar>brem a b\<bar> < \<bar>b\<bar>" if "b \<noteq> 0"
  using that by (simp add: abs_brem)

lemma abs_bdiv: "\<bar>bdiv a b\<bar> = \<bar>a\<bar> div \<bar>b\<bar>"
proof -
  have "0 \<le> \<bar>a\<bar> div \<bar>b\<bar>"
    by (cases "b = 0") (simp_all add: pos_imp_zdiv_nonneg_iff)
  then show ?thesis by (simp add: bdiv_def)
qed

lemma bdiv_nonneg: "0 \<le> a \<Longrightarrow> 0 < b \<Longrightarrow> bdiv a b = a div b"
  by (simp add: bdiv_def)

section \<open>Strings\<close>

definition is_digit :: "char \<Rightarrow> bool" where
  "is_digit c \<longleftrightarrow> 48 \<le> (of_char c :: nat) \<and> (of_char c :: nat) \<le> 57"

definition digit_val :: "char \<Rightarrow> nat" where
  "digit_val c = of_char c - 48"

definition digit_char :: "nat \<Rightarrow> char" where
  "digit_char d = char_of (48 + d)"

definition is_space :: "char \<Rightarrow> bool" where
  "is_space c \<longleftrightarrow> (of_char c :: nat) \<in> {9, 10, 11, 12, 13, 32, 160}"

definition trim :: "string \<Rightarrow> string" where
  "trim s = rev (dropWhile is_space (rev (dropWhile is_space s)))"

definition upper_char :: "char \<Rightarrow> char" where
  "upper_char c = (let n = of_char c :: nat in if 97 \<le> n \<and> n \<le> 122 then char_of (n - 32) else c)"

definition lower_char :: "char \<Rightarrow> char" where
  "lower_char c = (let n = of_char c :: nat in if 65 \<le> n \<and> n \<le> 90 then char_of (n + 32) else c)"

definition to_upper :: "string \<Rightarrow> string" where
  "to_upper s = map upper_char s"

lemma to_upper_idem [simp]: "to_upper (to_upper s) = to_upper s"
proof -
  have "upper_char (upper_char c) = upper_char c" for c
  proof (cases "97 \<le> (of_char c :: nat) \<and> (of_char c :: nat) \<le> 122")
    case True
    then have "(of_char c - 32 :: nat) mod 256 = of_char c - 32"
      by (intro mod_less) linarith
    moreover have "of_char c - 32 < (97 :: nat)" using True by linarith
    ultimately show ?thesis using True by (simp add: upper_char_def Let_def)
  next
    case False
    then show ?thesis by (auto simp add: upper_char_def Let_def)
  qed
  then show ?thesis by (simp add: to_upper_def)
qed

definition to_lower :: "string \<Rightarrow> string" where
  "to_lower s = map lower_char s"

fun starts_with :: "string \<Rightarrow> string \<Rightarrow> bool" where
  "starts_with s [] = True"
| "starts_with [] (p # ps) = False"
| "starts_with (c # s) (p # ps) = (c = p \<and> starts_with s ps)"

fun has_substr :: "string \<Rightarrow> string \<Rightarrow> bool" where
  "has_substr [] p = starts_with [] p"
| "has_substr (c # s) p = (starts_with (c # s) p \<or> has_substr s p)"

definition pad_end :: "string \<Rightarrow> nat \<Rightarrow> char \<Rightarrow> string" where
  "pad_end s n c = s @ replicate (n - length s) c"

definition pad_start :: "string \<Rightarrow> nat \<Rightarrow> char \<Rightarrow> string" where
  "pad_start s n c = replicate (n - length s) c @ s"

lemma is_digit_digit_char [simp]: "d < 10 \<Longrightarrow> is_digit (digit_char d)"
  by (simp add: is_digit_def digit_char_def of_char_of)

lemma digit_val_digit_char [simp]: "d < 10 \<Longrightarrow> digit_val (digit_char d) = d"
  by (simp add: digit_val_def digit_char_def of_char_of)

lemma digit_val_less: "is_digit c \<Longrightarrow> digit_val c < 10"
  unfolding is_digit_def digit_val_def by linarith

lemma digit_char_digit_val [simp]: "is_digit c \<Longrightarrow> digit_char (digit_val c) = c"
  by (simp add: is_digit_def digit_val_def digit_char_def char_of_char)

lemma digit_not_space: "is_digit c \<Longrightarrow> \<not> is_space c"
  by (auto simp: is_digit_def is_space_def)

lemma starts_with_append [simp]: "starts_with (p @ s) p"
  by (induction p) auto

lemma starts_with_iff: "starts_with s p \<longleftrightarrow> (\<exists>r. s = p @ r)"
  by (induction s p rule: starts_with.induct) auto

lemma has_substr_iff: "has_substr s p \<longleftrightarrow> (\<exists>a b. s = a @ p @ b)"
proof (induction s)
  case Nil
  then show ?case by (cases p) auto
next
  case (Cons c s)
  show ?case
  proof
    assume "has_substr (c # s) p"
    then consider "starts_with (c # s) p" | "has_substr s p" by auto
    then show "\<exists>a b. c # s = a @ p @ b"
    proof cases
      case 1
      then obtain r where "c # s = p @ r" by (auto simp: starts_with_iff)
      then show ?thesis by (intro exI [of _ "[]"] exI [of _ r]) simp
    next
      case 2
      then obtain a b where "s = a @ p @ b" using Cons.IH by blast
      then show ?thesis by (intro exI [of _ "c # a"] exI [of _ b]) simp
    qed
  next
    assume "\<exists>a b. c # s = a @ p @ b"
    then obtain a b where ab: "c # s = a @ p @ b" by blast
    show "has_substr (c # s) p"
    proof (cases a)
      case Nil
      with ab have "starts_with (c # s) p" by (auto simp: starts_with_iff)
      then show ?thesis by simp
    next
      case (Cons x a')
      with ab have "s = a' @ p @ b" by simp
      then have "has_substr s p" using Cons.IH by blast
      then show ?thesis by simp
    qed
  qed
qed

lemma set_map_filter: "x \<in> set (List.map_filter f xs) \<longleftrightarrow> (\<exists>y \<in> set xs. f y = Some x)"
  by (induction xs) (auto simp: List.map_filter_simps split: option.splits)

lemma map_filter_append: "List.map_filter f (xs @ ys) = List.map_filter f xs @ List.map_filter f ys"
  by (induction xs) (auto simp: List.map_filter_simps split: option.splits)

lemma length_map_filter: "length (List.map_filter f xs) \<le> length xs"
  by (induction xs) (auto simp: List.map_filter_simps split: option.splits)

lemma trim_id: "(\<And>c. c \<in> set s \<Longrightarrow> \<not> is_space c) \<Longrightarrow> trim s = s"
proof -
  assume ns: "\<And>c. c \<in> set s \<Longrightarrow> \<not> is_space c"
  have dw: "dropWhile is_space t = t" if "set t \<subseteq> set s" for t
    using that ns by (cases t) auto
  show ?thesis by (simp add: trim_def dw)
qed

section \<open>Decimal digits\<close>

text \<open>The value of a digit string, most significant digit first, and the digits of a number.\<close>

definition digits_val :: "string \<Rightarrow> nat" where
  "digits_val ds = foldl (\<lambda>n c. 10 * n + digit_val c) 0 ds"

fun nat_digits :: "nat \<Rightarrow> string" where
  "nat_digits n = (if n < 10 then [digit_char n] else nat_digits (n div 10) @ [digit_char (n mod 10)])"

declare nat_digits.simps [simp del]

lemma foldl_digits: "foldl (\<lambda>n c. 10 * n + digit_val c) k ds = k * 10 ^ length ds + digits_val ds"
proof (induction ds arbitrary: k)
  case Nil
  then show ?case by (simp add: digits_val_def)
next
  case (Cons c ds)
  have "digits_val (c # ds) = digit_val c * 10 ^ length ds + digits_val ds"
    using Cons.IH [of "digit_val c"] by (simp add: digits_val_def)
  then show ?case using Cons.IH [of "10 * k + digit_val c"] by (simp add: algebra_simps)
qed

lemma digits_val_Nil [simp]: "digits_val [] = 0"
  by (simp add: digits_val_def)

lemma digits_val_Cons [simp]: "digits_val (c # ds) = digit_val c * 10 ^ length ds + digits_val ds"
  using foldl_digits [of "digit_val c" ds] by (simp add: digits_val_def)

lemma digits_val_append: "digits_val (xs @ ys) = digits_val xs * 10 ^ length ys + digits_val ys"
  by (induction xs) (simp_all add: power_add algebra_simps)

lemma digits_val_zeros [simp]: "digits_val (replicate n (CHR ''0'')) = 0"
  by (induction n) (simp_all add: digit_val_def)

lemma digits_val_less: "\<forall>c \<in> set ds. is_digit c \<Longrightarrow> digits_val ds < 10 ^ length ds"
proof (induction ds)
  case Nil
  then show ?case by simp
next
  case (Cons c ds)
  then have "digits_val ds < 10 ^ length ds" and "digit_val c \<le> 9"
    using digit_val_less [of c] by auto
  then have "digit_val c * 10 ^ length ds + digits_val ds < 9 * 10 ^ length ds + 10 ^ length ds"
    by (meson add_le_less_mono mult_le_mono1)
  then show ?case by simp
qed

lemma nat_digits_val [simp]: "digits_val (nat_digits n) = n"
proof (induction n rule: nat_digits.induct)
  case (1 n)
  show ?case
  proof (cases "n < 10")
    case True
    then show ?thesis by (subst nat_digits.simps) simp
  next
    case False
    with 1 show ?thesis
      by (subst nat_digits.simps) (simp add: digits_val_append)
  qed
qed

lemma nat_digits_digit: "c \<in> set (nat_digits n) \<Longrightarrow> is_digit c"
proof (induction n rule: nat_digits.induct)
  case (1 n)
  then show ?case
    by (cases "n < 10") (auto simp: nat_digits.simps [of n])
qed

lemma nat_digits_nonempty [simp]: "nat_digits n \<noteq> []"
  by (subst nat_digits.simps) simp

lemma take_digits_val:
  assumes "k \<le> length ds" and "\<forall>c \<in> set ds. is_digit c"
  shows "digits_val (take k ds) = digits_val ds div 10 ^ (length ds - k)"
proof -
  have eq: "digits_val ds = digits_val (take k ds) * 10 ^ (length ds - k) + digits_val (drop k ds)"
    using digits_val_append [of "take k ds" "drop k ds"] assms(1) by simp
  have "digits_val (drop k ds) < 10 ^ (length ds - k)"
    using digits_val_less [of "drop k ds"] assms by (auto dest: in_set_dropD)
  then show ?thesis by (simp add: eq)
qed

section \<open>Insertion-ordered maps\<close>

type_synonym ('k, 'v) jsmap = "('k \<times> 'v) list"

definition jm_get :: "'k \<Rightarrow> ('k, 'v) jsmap \<Rightarrow> 'v option" where
  "jm_get k m = map_of m k"

definition jm_set :: "'k \<Rightarrow> 'v \<Rightarrow> ('k, 'v) jsmap \<Rightarrow> ('k, 'v) jsmap" where
  "jm_set k v m = AList.update k v m"

definition jm_del :: "'k \<Rightarrow> ('k, 'v) jsmap \<Rightarrow> ('k, 'v) jsmap" where
  "jm_del k m = AList.delete k m"

definition jm_keys :: "('k, 'v) jsmap \<Rightarrow> 'k list" where
  "jm_keys m = map fst m"

definition jm_ok :: "('k, 'v) jsmap \<Rightarrow> bool" where
  "jm_ok m \<longleftrightarrow> distinct (map fst m)"

locale ordered_map =
  fixes get :: "'k \<Rightarrow> 'm \<Rightarrow> 'v option"
    and put :: "'k \<Rightarrow> 'v \<Rightarrow> 'm \<Rightarrow> 'm"
    and del :: "'k \<Rightarrow> 'm \<Rightarrow> 'm"
    and keys :: "'m \<Rightarrow> 'k list"
    and ok :: "'m \<Rightarrow> bool"
  assumes get_put: "get k (put k' v m) = (if k = k' then Some v else get k m)"
    and get_del: "get k (del k' m) = (if k = k' then None else get k m)"
    and keys_get: "k \<in> set (keys m) \<longleftrightarrow> get k m \<noteq> None"
    and keys_put: "keys (put k v m) = (if k \<in> set (keys m) then keys m else keys m @ [k])"
    and keys_del: "keys (del k m) = filter (\<lambda>x. x \<noteq> k) (keys m)"
    and ok_keys: "ok m \<longleftrightarrow> distinct (keys m)"
begin

lemma ok_put: "ok m \<Longrightarrow> ok (put k v m)"
  by (simp add: ok_keys keys_put)

lemma ok_del: "ok m \<Longrightarrow> ok (del k m)"
  by (simp add: ok_keys keys_del)

lemma length_put: "length (keys (put k v m)) \<le> Suc (length (keys m))"
  by (simp add: keys_put)

lemma length_put_present: "get k m \<noteq> None \<Longrightarrow> length (keys (put k v m)) = length (keys m)"
  by (simp add: keys_put keys_get)

lemma length_del: "ok m \<Longrightarrow> get k m \<noteq> None \<Longrightarrow> length (keys m) = Suc (length (keys (del k m)))"
proof -
  assume "ok m" and "get k m \<noteq> None"
  then have d: "distinct (keys m)" and k: "k \<in> set (keys m)" by (simp_all add: ok_keys keys_get)
  have "filter (\<lambda>x. x \<noteq> k) (keys m) = remove1 k (keys m)"
    using d by (simp add: distinct_remove1_removeAll removeAll_filter_not_eq) (metis (full_types))
  moreover have "0 < length (keys m)" using k by (cases "keys m") auto
  ultimately show ?thesis
    using k by (simp add: keys_del length_remove1)
qed

lemma del_oldest: "ok m \<Longrightarrow> keys m = k # ks \<Longrightarrow> keys (del k m) = ks"
  by (auto simp: ok_keys keys_del intro: filter_True)

end

lemma filter_neq_removeAll: "removeAll k xs = filter (\<lambda>x. x \<noteq> k) xs"
  by (induction xs) auto

interpretation jm: ordered_map jm_get jm_set jm_del jm_keys jm_ok
proof unfold_locales
  fix k k' :: 'a and v :: 'b and m :: "('a, 'b) jsmap"
  show "jm_get k (jm_set k' v m) = (if k = k' then Some v else jm_get k m)"
    by (simp add: jm_get_def jm_set_def update_conv')
  show "jm_get k (jm_del k' m) = (if k = k' then None else jm_get k m)"
    by (simp add: jm_get_def jm_del_def delete_conv')
  show "k \<in> set (jm_keys m) \<longleftrightarrow> jm_get k m \<noteq> None"
    by (simp add: jm_keys_def jm_get_def map_of_eq_None_iff)
  show "jm_keys (jm_set k v m) = (if k \<in> set (jm_keys m) then jm_keys m else jm_keys m @ [k])"
    by (simp add: jm_keys_def jm_set_def update_keys)
  show "jm_keys (jm_del k m) = filter (\<lambda>x. x \<noteq> k) (jm_keys m)"
    by (simp add: jm_keys_def jm_del_def delete_keys filter_neq_removeAll)
  show "jm_ok m \<longleftrightarrow> distinct (jm_keys m)"
    by (simp add: jm_ok_def jm_keys_def)
qed

lemma jm_get_in: "jm_ok m \<Longrightarrow> (k, v) \<in> set m \<Longrightarrow> jm_get k m = Some v"
  by (simp add: jm_ok_def jm_get_def)

lemma jm_del_Nil [simp]: "jm_del k [] = []"
  by (simp add: jm_del_def)

lemma jm_keys_iff: "k \<in> set (jm_keys m) \<longleftrightarrow> jm_get k m \<noteq> None"
  using jm.keys_get by metis

lemma jm_set_fresh: "k \<notin> set (jm_keys m) \<Longrightarrow> jm_set k v m = m @ [(k, v)]"
  by (induction m) (auto simp: jm_keys_def jm_set_def)

lemmas jm_laws [map_laws] = jm.get_put jm.get_del jm.keys_put jm.keys_del

section \<open>Array.prototype.sort\<close>

text \<open>Stable sort by a comparator, as the language standard requires.\<close>

fun insert_by :: "('a \<Rightarrow> 'a \<Rightarrow> int) \<Rightarrow> 'a \<Rightarrow> 'a list \<Rightarrow> 'a list" where
  "insert_by cmp x [] = [x]"
| "insert_by cmp x (y # ys) = (if cmp x y \<le> 0 then x # y # ys else y # insert_by cmp x ys)"

definition js_sort :: "('a \<Rightarrow> 'a \<Rightarrow> int) \<Rightarrow> 'a list \<Rightarrow> 'a list" where
  "js_sort cmp xs = foldr (insert_by cmp) xs []"

lemma set_insert_by [simp]: "set (insert_by cmp x xs) = insert x (set xs)"
  by (induction xs) auto

lemma set_js_sort [simp]: "set (js_sort cmp xs) = set xs"
  by (induction xs) (simp_all add: js_sort_def)

lemma distinct_insert_by: "distinct (map f (insert_by cmp x xs)) = distinct (map f (x # xs))"
  by (induction xs) auto

lemma distinct_js_sort: "distinct (map f (js_sort cmp xs)) = distinct (map f xs)"
proof (induction xs)
  case (Cons x xs)
  then show ?case
    using set_js_sort [of cmp xs] by (simp add: js_sort_def distinct_insert_by)
qed (simp add: js_sort_def)

text \<open>When the keys are distinct the result is strictly ordered.\<close>

lemma insert_by_strict:
  assumes "\<And>a b. cmp a b \<le> 0 \<and> f a \<noteq> f b \<Longrightarrow> R (f a) (f b)"
    and "\<And>a b. \<not> cmp a b \<le> 0 \<Longrightarrow> R (f b) (f a)"
    and "transp R" "f x \<notin> f ` set xs" "sorted_wrt R (map f xs)"
  shows "sorted_wrt R (map f (insert_by cmp x xs))"
  using assms(4,5)
proof (induction xs)
  case Nil
  then show ?case by simp
next
  case (Cons y ys)
  show ?case
  proof (cases "cmp x y \<le> 0")
    case True
    then have "R (f x) (f y)" using assms(1) Cons.prems by auto
    with True Cons.prems transpD [OF assms(3)] show ?thesis by auto
  next
    case False
    with Cons assms(2) show ?thesis by auto
  qed
qed

lemma js_sort_strict:
  assumes "\<And>a b. cmp a b \<le> 0 \<and> f a \<noteq> f b \<Longrightarrow> R (f a) (f b)"
    and "\<And>a b. \<not> cmp a b \<le> 0 \<Longrightarrow> R (f b) (f a)"
    and "transp R" "distinct (map f xs)"
  shows "sorted_wrt R (map f (js_sort cmp xs))"
  using assms(4)
proof (induction xs)
  case Nil
  then show ?case by (simp add: js_sort_def)
next
  case (Cons x xs)
  have "f x \<notin> f ` set (js_sort cmp xs)" using Cons.prems by simp
  with Cons show ?case
    using insert_by_strict [of cmp f R x "js_sort cmp xs", OF assms(1,2,3)] by (simp add: js_sort_def)
qed

section \<open>Capped buffers\<close>

locale capped_buffer =
  fixes cap :: nat
    and push :: "'b list \<Rightarrow> 'b \<Rightarrow> 'b list"
  assumes push_law: "length xs \<le> cap \<Longrightarrow>
    push xs x = drop (length xs + 1 - cap) (xs @ [x])"
begin

lemma push_bounded: "length xs \<le> cap \<Longrightarrow> length (push xs x) \<le> cap"
  by (simp add: push_law)

lemma push_all_bounded: "length xs \<le> cap \<Longrightarrow> length (foldl push xs ys) \<le> cap"
  by (induction ys arbitrary: xs) (simp_all add: push_bounded)

lemma push_all: "length xs \<le> cap \<Longrightarrow>
  foldl push xs ys = drop (length (xs @ ys) - cap) (xs @ ys)"
proof (induction ys arbitrary: xs)
  case Nil
  then show ?case by simp
next
  case (Cons y ys)
  let ?n = "length xs + 1 - cap" and ?zs = "xs @ y # ys"
  have p: "push xs y @ ys = drop ?n ?zs"
    using Cons.prems drop_append [of ?n "xs @ [y]" ys] by (simp add: push_law del: drop_append)
  have "foldl push xs (y # ys) = drop (length (push xs y @ ys) - cap) (push xs y @ ys)"
    using Cons.IH [of "push xs y"] push_bounded [OF Cons.prems] by simp
  also have "\<dots> = drop (length ?zs - ?n - cap + ?n) ?zs"
    unfolding p by (simp only: length_drop drop_drop)
  also have "length ?zs - ?n - cap + ?n = length ?zs - cap"
    using Cons.prems by (simp; linarith)
  finally show ?case .
qed

end

section \<open>Machines that keep an invariant\<close>

locale invariant_machine =
  fixes step :: "'s \<Rightarrow> 'e \<Rightarrow> 's"
    and inv :: "'s \<Rightarrow> bool"
    and guard :: "'e \<Rightarrow> bool"
  assumes step_inv: "inv s \<Longrightarrow> guard e \<Longrightarrow> inv (step s e)"
begin

lemma run_inv: "inv s \<Longrightarrow> list_all guard es \<Longrightarrow> inv (foldl step s es)"
  by (induction es arbitrary: s) (simp_all add: step_inv)

end

end
