(* ===== verification/JS_Number.thy ===== *)
theory JS_Number
  imports JS_Prelude
begin

text \<open>
  JavaScript numbers as IEEE-754 binary64 values: NaN, the infinities, and finite values as the
  rational they stand for. Every arithmetic operation is the exact rational result rounded to the
  nearest double, ties to even (\<open>js_round\<close>), gradual underflow and overflow included; negative
  zero is identified with zero (no modelled code divides by a computed zero or prints one).
  \<open>toExponential(20)\<close> follows the rules of the language standard.
\<close>

section \<open>Values and rounding\<close>

datatype js_number = NaN | PosInf | NegInf | Fin rat

definition rpow :: "nat \<Rightarrow> int \<Rightarrow> rat" where
  "rpow b e = (if 0 \<le> e then of_nat b ^ nat e else 1 / of_nat b ^ nat (- e))"

fun ilog :: "nat \<Rightarrow> nat \<Rightarrow> nat" where
  "ilog b n = (if b < 2 \<or> n < b then 0 else Suc (ilog b (n div b)))"

declare ilog.simps [simp del]

text \<open>The largest \<open>e\<close> with \<open>b ^ e \<le> x\<close>, for positive \<open>x\<close>.\<close>

definition rlog :: "nat \<Rightarrow> rat \<Rightarrow> int" where
  "rlog b x = (let (p, q) = quotient_of x;
                   e = int (ilog b (nat p)) - int (ilog b (nat q))
               in if rpow b e \<le> x then e else e - 1)"

text \<open>The same on integers, which evaluate in binary.\<close>

function ilog_int :: "int \<Rightarrow> int \<Rightarrow> int" where
  "ilog_int b n = (if b < 2 \<or> n < b then 0 else 1 + ilog_int b (n div b))"
  by auto
termination
  by (relation "measure (\<lambda>(b, n). nat n)") (auto simp: int_div_less_self)

declare ilog_int.simps [simp del]

lemma ilog_int_nat: "ilog_int (int b) (int n) = int (ilog b n)"
proof (induction b n rule: ilog.induct)
  case (1 b n)
  show ?case
  proof (cases "b < 2 \<or> n < b")
    case True
    then show ?thesis by (subst ilog.simps, subst ilog_int.simps) auto
  next
    case False
    then have "ilog_int (int b) (int n div int b) = int (ilog b (n div b))" using 1 by (simp flip: of_nat_div)
    with False show ?thesis by (simp add: ilog.simps [of b n] ilog_int.simps [of "int b" "int n"])
  qed
qed

lemma rlog_code [code]:
  "rlog b x = (let (p, q) = quotient_of x;
                   e = (if p < 0 then 0 else ilog_int (int b) p) - ilog_int (int b) q
               in if rpow b e \<le> x then e else e - 1)"
proof -
  obtain p q where pq: "quotient_of x = (p, q)" by fastforce
  have q: "0 < q" using quotient_of_denom_pos [OF pq] .
  have "ilog_int (int b) q = int (ilog b (nat q))" using ilog_int_nat [of b "nat q"] q by simp
  moreover have "(if p < 0 then 0 else ilog_int (int b) p) = int (ilog b (nat p))"
    using ilog_int_nat [of b "nat p"] ilog.simps [of b 0] by auto
  ultimately show ?thesis by (simp add: rlog_def pq Let_def)
qed

text \<open>Nearest integer, ties to even.\<close>

definition rne :: "rat \<Rightarrow> int" where
  "rne y = (let f = \<lfloor>y\<rfloor>; d = y - of_int f
            in if d < 1 / 2 then f else if 1 / 2 < d then f + 1 else if even f then f else f + 1)"

definition js_round :: "rat \<Rightarrow> js_number" where
  "js_round x = (if x = 0 then Fin 0
     else let u = rpow 2 (max (rlog 2 \<bar>x\<bar> - 52) (- 1074));
              r = of_int (rne (x / u)) * u
          in if \<bar>r\<bar> \<ge> 2 ^ 1024 then (if 0 < r then PosInf else NegInf) else Fin r)"

section \<open>Arithmetic and comparison\<close>

fun jn_neg :: "js_number \<Rightarrow> js_number" where
  "jn_neg NaN = NaN"
| "jn_neg PosInf = NegInf"
| "jn_neg NegInf = PosInf"
| "jn_neg (Fin x) = Fin (- x)"

fun jn_add :: "js_number \<Rightarrow> js_number \<Rightarrow> js_number" where
  "jn_add (Fin x) (Fin y) = js_round (x + y)"
| "jn_add (Fin x) y = y"
| "jn_add x (Fin y) = x"
| "jn_add PosInf PosInf = PosInf"
| "jn_add NegInf NegInf = NegInf"
| "jn_add _ _ = NaN"

definition jn_sub :: "js_number \<Rightarrow> js_number \<Rightarrow> js_number" where
  "jn_sub x y = jn_add x (jn_neg y)"

definition jn_inf :: "bool \<Rightarrow> js_number" where
  "jn_inf pos = (if pos then PosInf else NegInf)"

fun jn_mul :: "js_number \<Rightarrow> js_number \<Rightarrow> js_number" where
  "jn_mul (Fin x) (Fin y) = js_round (x * y)"
| "jn_mul (Fin x) PosInf = (if x = 0 then NaN else jn_inf (0 < x))"
| "jn_mul (Fin x) NegInf = (if x = 0 then NaN else jn_inf (x < 0))"
| "jn_mul PosInf (Fin y) = (if y = 0 then NaN else jn_inf (0 < y))"
| "jn_mul NegInf (Fin y) = (if y = 0 then NaN else jn_inf (y < 0))"
| "jn_mul PosInf PosInf = PosInf"
| "jn_mul NegInf NegInf = PosInf"
| "jn_mul PosInf NegInf = NegInf"
| "jn_mul NegInf PosInf = NegInf"
| "jn_mul _ _ = NaN"

text \<open>Division by a non-zero finite number, the only division the modelled code performs.\<close>

fun jn_div_fin :: "js_number \<Rightarrow> rat \<Rightarrow> js_number" where
  "jn_div_fin (Fin x) y = js_round (x / y)"
| "jn_div_fin PosInf y = jn_inf (0 < y)"
| "jn_div_fin NegInf y = jn_inf (y < 0)"
| "jn_div_fin NaN y = NaN"

fun jn_less :: "js_number \<Rightarrow> js_number \<Rightarrow> bool" where
  "jn_less NaN _ = False"
| "jn_less _ NaN = False"
| "jn_less (Fin x) (Fin y) = (x < y)"
| "jn_less NegInf y = (y \<noteq> NegInf)"
| "jn_less x PosInf = (x \<noteq> PosInf)"
| "jn_less _ _ = False"

definition jn_finite :: "js_number \<Rightarrow> bool" where
  "jn_finite n = (case n of Fin _ \<Rightarrow> True | _ \<Rightarrow> False)"

definition jn_is_integer :: "js_number \<Rightarrow> bool" where
  "jn_is_integer n = (case n of Fin x \<Rightarrow> of_int \<lfloor>x\<rfloor> = x | _ \<Rightarrow> False)"

section \<open>Numbers and strings\<close>

definition int_str :: "int \<Rightarrow> string" where
  "int_str i = (if i < 0 then CHR ''-'' # nat_digits (nat (- i)) else nat_digits (nat i))"

text \<open>
  \<open>x.toExponential(20)\<close> of a finite \<open>x\<close>: 21 significant digits, the nearer of the two
  candidates, the larger one on a tie.
\<close>

definition exp_parts :: "rat \<Rightarrow> nat \<times> int" where
  "exp_parts x = (if x = 0 then (0, 0)
     else let e = rlog 10 x; n = nat \<lfloor>x * rpow 10 (20 - e) + 1 / 2\<rfloor>
          in if 10 ^ 21 \<le> n then (10 ^ 20, e + 1) else (n, e))"

definition to_exponential20 :: "rat \<Rightarrow> string" where
  "to_exponential20 x =
     (let (n, e) = exp_parts \<bar>x\<bar>; ds = pad_start (nat_digits n) 21 (CHR ''0'')
      in (if x < 0 then ''-'' else '''') @ take 1 ds @ ''.'' @ drop 1 ds @
         (if e < 0 then ''e-'' @ nat_digits (nat (- e)) else ''e+'' @ nat_digits (nat e)))"

end
