(* ===== verification/Decimal_Arith.thy ===== *)
theory Decimal_Arith
  imports JS_Number
begin

text \<open>
  \<open>src/core/decimal.ts\<close>: the fixed-point \<open>Decimal\<close> over \<open>BigInt\<close> with 18 fractional digits.
  The state of a value is its scaled integer. Operands of type \<open>DecimalInput\<close> go through
  \<open>dec_from\<close>, which is where every exception of the arithmetic but division by zero and
  \<open>round(-1)\<close> comes from; the operations themselves take values.
  Lemmas: what parsing computes (\<open>parse_core_value\<close>, \<open>dec_from_literal\<close>), printing and parsing
  back, rounding errors of \<open>mul\<close>, \<open>div\<close> and \<open>round\<close>, and the order.
\<close>

section \<open>Values\<close>

datatype decimal = Decimal (scaled: int)

abbreviation SCALE :: nat where "SCALE \<equiv> 18"

definition SCALE_FACTOR :: int where
  "SCALE_FACTOR = 10 ^ 18"

definition dec_ZERO :: decimal where
  "dec_ZERO = Decimal 0"

definition dec_ONE :: decimal where
  "dec_ONE = Decimal SCALE_FACTOR"

datatype decimal_input = DIn decimal | SIn string | NIn js_number | BIn int

datatype dec_error =
    NonFinite js_number
  | InvalidDecimal string
  | DivisionByZero
  | NegativePlaces int

lemma SCALE_FACTOR_pos [simp]: "0 < SCALE_FACTOR"
  by (simp add: SCALE_FACTOR_def)

lemma abs_SCALE_FACTOR [simp]: "\<bar>SCALE_FACTOR\<bar> = SCALE_FACTOR"
  by (simp add: SCALE_FACTOR_def)

lemma SCALE_FACTOR_neq [simp]: "SCALE_FACTOR \<noteq> 0"
  by (simp add: SCALE_FACTOR_def)

lemma SCALE_FACTOR_eq: "SCALE_FACTOR = 1000000000000000000"
  by (simp add: SCALE_FACTOR_def)

instantiation decimal :: linorder
begin

definition less_eq_decimal :: "decimal \<Rightarrow> decimal \<Rightarrow> bool" where
  "less_eq_decimal a b \<longleftrightarrow> scaled a \<le> scaled b"

definition less_decimal :: "decimal \<Rightarrow> decimal \<Rightarrow> bool" where
  "less_decimal a b \<longleftrightarrow> scaled a < scaled b"

instance
  by standard (auto simp: less_eq_decimal_def less_decimal_def intro: decimal.expand)

end

section \<open>Parsing\<close>

definition is_exp_mark :: "char \<Rightarrow> bool" where
  "is_exp_mark c \<longleftrightarrow> c = CHR ''e'' \<or> c = CHR ''E''"

definition strip_sign :: "string \<Rightarrow> string" where
  "strip_sign s = (case s of [] \<Rightarrow> [] | c # r \<Rightarrow> if c = CHR ''+'' \<or> c = CHR ''-'' then r else s)"

text \<open>\<open>([eE][+-]?\d+)?$\<close>\<close>

definition exp_suffix_ok :: "string \<Rightarrow> bool" where
  "exp_suffix_ok s = (case s of [] \<Rightarrow> True
     | c # r \<Rightarrow> is_exp_mark c \<and> strip_sign r \<noteq> [] \<and> list_all is_digit (strip_sign r))"

text \<open>\<open>^[+-]?(\d+(\.\d*)?|\.\d+)([eE][+-]?\d+)?$\<close>\<close>

definition decimal_regex :: "string \<Rightarrow> bool" where
  "decimal_regex s =
     (let b = strip_sign s; i = takeWhile is_digit b; r = dropWhile is_digit b
      in case r of
           [] \<Rightarrow> i \<noteq> []
         | c # r' \<Rightarrow>
             if c = CHR ''.''
             then (i \<noteq> [] \<or> takeWhile is_digit r' \<noteq> []) \<and> exp_suffix_ok (dropWhile is_digit r')
             else i \<noteq> [] \<and> exp_suffix_ok r)"

definition index_where :: "(char \<Rightarrow> bool) \<Rightarrow> string \<Rightarrow> nat option" where
  "index_where P s = (if list_ex P s then Some (length (takeWhile (\<lambda>c. \<not> P c) s)) else None)"

text \<open>\<open>Number.parseInt(text, 10)\<close> of an optionally signed digit string.\<close>

definition parse_int :: "string \<Rightarrow> int" where
  "parse_int s = (let n = int (digits_val (takeWhile is_digit (strip_sign s)))
     in if starts_with s ''-'' then - n else n)"

text \<open>Placing the decimal point: digits, padding, truncation to 18 places.\<close>

definition parse_core :: "string \<Rightarrow> string \<Rightarrow> int \<Rightarrow> nat" where
  "parse_core intPart fracPart exponent =
     (let digits0 = (if intPart = [] then ''0'' else intPart) @ fracPart;
          point0 = int (length intPart) + exponent;
          digits1 = pad_end digits0 (nat (point0 + int SCALE)) (CHR ''0'');
          digits2 = (if point0 < 0 then replicate (nat (- point0)) (CHR ''0'') @ digits1 else digits1);
          point = (if point0 < 0 then 0 else point0);
          keep = nat (point + int SCALE);
          digits = (if keep < length digits2 then take keep digits2 else digits2)
      in digits_val (if digits = [] then ''0'' else digits))"

definition dec_parse :: "string \<Rightarrow> dec_error + decimal" where
  "dec_parse text =
     (let trimmed = trim text
      in if \<not> decimal_regex trimmed then Inl (InvalidDecimal text)
         else
           let negative = starts_with trimmed ''-'';
               body0 = strip_sign trimmed;
               (exponent, body) = (case index_where is_exp_mark body0 of
                   None \<Rightarrow> (0, body0)
                 | Some k \<Rightarrow> (parse_int (drop (k + 1) body0), take k body0));
               (intPart, fracPart) = (case index_where (\<lambda>c. c = CHR ''.'') body of
                   None \<Rightarrow> (body, [])
                 | Some k \<Rightarrow> (take k body, drop (k + 1) body))
           in Inr (Decimal ((if negative then - 1 else 1) * int (parse_core intPart fracPart exponent))))"

fun dec_from :: "decimal_input \<Rightarrow> dec_error + decimal" where
  "dec_from (DIn d) = Inr d"
| "dec_from (BIn n) = Inr (Decimal (n * SCALE_FACTOR))"
| "dec_from (NIn n) =
     (case n of
        Fin x \<Rightarrow> if jn_is_integer n then Inr (Decimal (\<lfloor>x\<rfloor> * SCALE_FACTOR))
                  else dec_parse (to_exponential20 x)
      | _ \<Rightarrow> Inl (NonFinite n))"
| "dec_from (SIn s) = dec_parse s"

section \<open>Arithmetic\<close>

definition dec_add :: "decimal \<Rightarrow> decimal \<Rightarrow> decimal" where
  "dec_add a b = Decimal (scaled a + scaled b)"

definition dec_sub :: "decimal \<Rightarrow> decimal \<Rightarrow> decimal" where
  "dec_sub a b = Decimal (scaled a - scaled b)"

definition dec_mul :: "decimal \<Rightarrow> decimal \<Rightarrow> decimal" where
  "dec_mul a b = Decimal (bdiv (scaled a * scaled b) SCALE_FACTOR)"

definition dec_div :: "decimal \<Rightarrow> decimal \<Rightarrow> dec_error + decimal" where
  "dec_div a d =
     (if scaled d = 0 then Inl DivisionByZero
      else
        let numerator = scaled a * SCALE_FACTOR;
            quotient = bdiv numerator (scaled d);
            remainder = brem numerator (scaled d);
            halfRemainderAbs = (if remainder < 0 then - remainder else remainder) * 2;
            absDivisor = (if scaled d < 0 then - scaled d else scaled d)
        in if halfRemainderAbs > absDivisor
           then let correction = (if (scaled a < 0) \<noteq> (scaled d < 0) then - 1 else 1)
                in Inr (Decimal (quotient + correction))
           else Inr (Decimal quotient))"

definition dec_neg :: "decimal \<Rightarrow> decimal" where
  "dec_neg a = Decimal (- scaled a)"

definition dec_abs :: "decimal \<Rightarrow> decimal" where
  "dec_abs a = Decimal (if scaled a < 0 then - scaled a else scaled a)"

definition dec_cmp :: "decimal \<Rightarrow> decimal \<Rightarrow> int" where
  "dec_cmp a b = (if scaled a < scaled b then - 1 else if scaled a > scaled b then 1 else 0)"

definition dec_eq :: "decimal \<Rightarrow> decimal \<Rightarrow> bool" where "dec_eq a b \<longleftrightarrow> dec_cmp a b = 0"
definition dec_gt :: "decimal \<Rightarrow> decimal \<Rightarrow> bool" where "dec_gt a b \<longleftrightarrow> dec_cmp a b > 0"
definition dec_gte :: "decimal \<Rightarrow> decimal \<Rightarrow> bool" where "dec_gte a b \<longleftrightarrow> dec_cmp a b \<ge> 0"
definition dec_lt :: "decimal \<Rightarrow> decimal \<Rightarrow> bool" where "dec_lt a b \<longleftrightarrow> dec_cmp a b < 0"
definition dec_lte :: "decimal \<Rightarrow> decimal \<Rightarrow> bool" where "dec_lte a b \<longleftrightarrow> dec_cmp a b \<le> 0"

definition dec_isZero :: "decimal \<Rightarrow> bool" where "dec_isZero a \<longleftrightarrow> scaled a = 0"
definition dec_isNegative :: "decimal \<Rightarrow> bool" where "dec_isNegative a \<longleftrightarrow> scaled a < 0"
definition dec_isPositive :: "decimal \<Rightarrow> bool" where "dec_isPositive a \<longleftrightarrow> scaled a > 0"

definition dec_min :: "decimal \<Rightarrow> decimal \<Rightarrow> decimal" where
  "dec_min a b = (if dec_lte a b then a else b)"

definition dec_max :: "decimal \<Rightarrow> decimal \<Rightarrow> decimal" where
  "dec_max a b = (if dec_gte a b then a else b)"

definition dec_round :: "decimal \<Rightarrow> int \<Rightarrow> dec_error + decimal" where
  "dec_round a dp =
     (if 18 \<le> dp then Inr a
      else if dp < 0 then Inl (NegativePlaces dp)
      else
        let drop = nat (18 - dp);
            divisor = 10 ^ drop;
            quotient = bdiv (scaled a) divisor;
            remainder = brem (scaled a) divisor;
            half = bdiv divisor 2;
            absRemainder = (if remainder < 0 then - remainder else remainder)
        in if absRemainder * 2 > half * 2 \<or> (absRemainder * 2 = half * 2 \<and> brem quotient 2 \<noteq> 0)
           then let sign = (if scaled a < 0 then - 1 else 1)
                in Inr (Decimal ((quotient + sign) * divisor))
           else Inr (Decimal (quotient * divisor)))"

section \<open>Printing\<close>

definition strip_zeros :: "string \<Rightarrow> string" where
  "strip_zeros s = rev (dropWhile (\<lambda>c. c = CHR ''0'') (rev s))"

definition abs_digits :: "decimal \<Rightarrow> string" where
  "abs_digits a = pad_start (nat_digits (nat (if scaled a < 0 then - scaled a else scaled a))) (SCALE + 1) (CHR ''0'')"

definition dec_to_string :: "decimal \<Rightarrow> string" where
  "dec_to_string a =
     (let negative = scaled a < 0; digits = abs_digits a;
          intPart = take (length digits - SCALE) digits;
          fracPart = strip_zeros (drop (length digits - SCALE) digits);
          body = (if fracPart \<noteq> [] then intPart @ ''.'' @ fracPart else intPart)
      in if negative then ''-'' @ body else body)"

definition dec_to_fixed :: "decimal \<Rightarrow> int \<Rightarrow> dec_error + string" where
  "dec_to_fixed a dp =
     mapR (\<lambda>rounded.
       let negative = scaled rounded < 0; digits = abs_digits rounded;
           intPart = take (length digits - SCALE) digits;
           fracPart = drop (length digits - SCALE) digits
       in if dp = 0 then (if negative then ''-'' @ intPart else intPart)
          else let body = intPart @ ''.'' @ pad_end (take (nat dp) fracPart) (nat dp) (CHR ''0'')
               in if negative then ''-'' @ body else body)
       (dec_round a dp)"

text \<open>\<open>Number(this.toString())\<close>: the double nearest to the printed value.\<close>

definition dec_to_number :: "decimal \<Rightarrow> js_number" where
  "dec_to_number a = js_round (of_int (scaled a) / of_int SCALE_FACTOR)"

section \<open>Sums and weighted averages\<close>

fun dec_sum_from :: "decimal \<Rightarrow> decimal_input list \<Rightarrow> dec_error + decimal" where
  "dec_sum_from acc [] = Inr acc"
| "dec_sum_from acc (v # vs) = bindR (dec_from v) (\<lambda>d. dec_sum_from (dec_add acc d) vs)"

definition dec_sum :: "decimal_input list \<Rightarrow> dec_error + decimal" where
  "dec_sum values = dec_sum_from dec_ZERO values"

fun vwap_from :: "decimal \<Rightarrow> decimal \<Rightarrow> (decimal_input \<times> decimal_input) list
    \<Rightarrow> dec_error + (decimal \<times> decimal)" where
  "vwap_from notional qty [] = Inr (notional, qty)"
| "vwap_from notional qty ((price, quantity) # fills) =
     bindR (dec_from price) (\<lambda>p. bindR (dec_from quantity) (\<lambda>q.
       vwap_from (dec_add notional (dec_mul p q)) (dec_add qty q) fills))"

definition dec_vwap :: "(decimal_input \<times> decimal_input) list \<Rightarrow> dec_error + decimal option" where
  "dec_vwap fills = bindR (vwap_from dec_ZERO dec_ZERO fills) (\<lambda>(totalNotional, totalQty).
     if dec_isZero totalQty then Inr None else mapR Some (dec_div totalNotional totalQty))"

section \<open>What parsing computes\<close>

lemma digits_all_append: "\<forall>c \<in> set (xs @ ys). is_digit c" if "list_all is_digit xs" "list_all is_digit ys"
  using that by (auto simp: list_all_iff)

text \<open>
  The digits \<open>N\<close> of the integer and fraction part, moved by \<open>18 + exponent - |fraction|\<close> places:
  exact when the shift is to the left, truncated when it is to the right.
\<close>

definition shift10 :: "nat \<Rightarrow> int \<Rightarrow> nat" where
  "shift10 n k = (if 0 \<le> k then n * 10 ^ nat k else n div 10 ^ nat (- k))"

lemma truncated_digits_val:
  assumes "list_all is_digit ds"
  shows "digits_val (if k < length ds then take k ds else ds) =
    (if k < length ds then digits_val ds div 10 ^ (length ds - k) else digits_val ds)"
  using take_digits_val [of k ds] assms by (simp add: list_all_iff)

lemma list_all_zeros: "list_all is_digit (replicate n (CHR ''0''))"
  by (simp add: list_all_iff is_digit_def)

lemma parse_core_value:
  assumes I: "I \<noteq> []" "list_all is_digit I" and F: "list_all is_digit F"
  shows "parse_core I F e = shift10 (digits_val (I @ F)) (18 + e - int (length F))"
proof -
  define p where "p = int (length I) + e"
  define d1 where "d1 = pad_end (I @ F) (nat (p + 18)) (CHR ''0'')"
  define d2 where "d2 = (if p < 0 then replicate (nat (- p)) (CHR ''0'') @ d1 else d1)"
  define keep where "keep = nat ((if p < 0 then 0 else p) + 18)"
  define pad where "pad = nat (p + 18) - length (I @ F)"
  have all: "list_all is_digit d2"
    using I(2) F by (simp add: d2_def d1_def pad_end_def list_all_zeros)
  have val: "digits_val d2 = digits_val (I @ F) * 10 ^ pad"
    by (simp add: d2_def d1_def pad_end_def digits_val_append pad_def power_add algebra_simps)
  have len: "int (length d2) = (if p < 0 then - p else 0) + max (int (length (I @ F))) (p + 18)"
    by (simp add: d2_def d1_def pad_end_def)
  have core: "parse_core I F e = digits_val (if keep < length d2 then take keep d2 else d2)"
    using I(1) unfolding parse_core_def d2_def d1_def keep_def p_def Let_def by (auto simp: digit_val_def)
  show ?thesis
  proof (cases "int (length (I @ F)) \<le> p + 18")
    case True
    then have "keep = length d2" and "pad = nat (18 + e - int (length F))"
      and "0 \<le> 18 + e - int (length F)"
      using len I(1) by (auto simp: keep_def pad_def p_def)
    then show ?thesis using core val by (simp add: shift10_def)
  next
    case False
    then have "keep < length d2" and "pad = 0" and k: "length d2 - keep = nat (int (length F) - 18 - e)"
      and neg: "18 + e - int (length F) < 0"
      using len by (auto simp: keep_def pad_def p_def split: if_splits)
    then show ?thesis
      using core truncated_digits_val [OF all, of keep] val by (simp add: shift10_def diff_diff_add add.commute)
  qed
qed

text \<open>Literals as the exchange writes them: sign, digits, optional fraction, optional exponent.\<close>

definition literal :: "bool \<Rightarrow> string \<Rightarrow> string \<Rightarrow> int \<Rightarrow> string" where
  "literal neg I F e = (if neg then ''-'' else []) @ I @ (if F = [] then [] else CHR ''.'' # F) @
     (if e = 0 then [] else CHR ''e'' # int_str e)"

lemma digit_facts:
  assumes "is_digit c"
  shows "c \<noteq> CHR ''+''" "c \<noteq> CHR ''-''" "c \<noteq> CHR ''.''" "\<not> is_exp_mark c" "\<not> is_space c"
  using assms digit_not_space [OF assms] by (auto simp: is_digit_def is_exp_mark_def)

lemma takeWhile_digits: "list_all is_digit I \<Longrightarrow> takeWhile is_digit (I @ r) = I @ takeWhile is_digit r"
  by (induction I) auto

lemma dropWhile_digits: "list_all is_digit I \<Longrightarrow> dropWhile is_digit (I @ r) = dropWhile is_digit r"
  by (induction I) auto

lemma strip_sign_digits: "I \<noteq> [] \<Longrightarrow> list_all is_digit I \<Longrightarrow> strip_sign (I @ r) = I @ r"
  by (cases I) (auto simp: strip_sign_def dest: digit_facts)

lemma list_all_nat_digits [simp]: "list_all is_digit (nat_digits n)"
  by (simp add: list_all_iff nat_digits_digit)

lemma takeWhile_digits_id: "list_all is_digit I \<Longrightarrow> takeWhile is_digit I = I"
  by (induction I) auto

lemma dropWhile_digits_id: "list_all is_digit I \<Longrightarrow> dropWhile is_digit I = []"
  by (induction I) auto

lemma strip_sign_int_str: "strip_sign (int_str e) = nat_digits (nat \<bar>e\<bar>)"
  using strip_sign_digits [of "nat_digits (nat e)" "[]"]
  by (auto simp: int_str_def strip_sign_def)

lemma starts_minus_digits: "I \<noteq> [] \<Longrightarrow> list_all is_digit I \<Longrightarrow> \<not> starts_with (I @ r) ''-''"
  by (cases I) (auto dest: digit_facts)

lemma parse_int_int_str: "parse_int (int_str e) = e"
  using starts_minus_digits [of "nat_digits (nat e)" "[]"]
  by (auto simp: parse_int_def strip_sign_int_str takeWhile_digits_id) (simp_all add: int_str_def split: if_splits)

lemma index_where_prefix:
  "(\<And>c. c \<in> set xs \<Longrightarrow> \<not> P c) \<Longrightarrow> P y \<Longrightarrow> index_where P (xs @ y # ys) = Some (length xs)"
  by (induction xs) (auto simp: index_where_def)

lemma index_where_none: "(\<And>c. c \<in> set xs \<Longrightarrow> \<not> P c) \<Longrightarrow> index_where P xs = None"
  by (auto simp: index_where_def list_ex_iff)

abbreviation frac_text :: "string \<Rightarrow> string" where
  "frac_text F \<equiv> (if F = [] then [] else CHR ''.'' # F)"

abbreviation exp_text :: "int \<Rightarrow> string" where
  "exp_text e \<equiv> (if e = 0 then [] else CHR ''e'' # int_str e)"

lemma exp_text_ok: "exp_suffix_ok (exp_text e)"
  by (simp add: exp_suffix_ok_def is_exp_mark_def strip_sign_int_str)

lemma strip_sign_literal:
  assumes "I \<noteq> []" "list_all is_digit I"
  shows "strip_sign (literal neg I F e) = I @ frac_text F @ exp_text e"
  using assms by (simp add: literal_def strip_sign_def split: list.splits) (auto dest: digit_facts)

lemma digit_e_not: "\<not> is_digit (CHR ''e'')" "\<not> is_digit (CHR ''.'')"
  by (simp_all add: is_digit_def)

lemma literal_regex:
  assumes "I \<noteq> []" "list_all is_digit I" "list_all is_digit F"
  shows "decimal_regex (literal neg I F e)"
proof -
  have d: "dropWhile is_digit (exp_text e) = exp_text e" by (simp add: digit_e_not)
  have t: "takeWhile is_digit (frac_text F @ exp_text e) = []"
    by (simp add: digit_e_not)
  have dd: "dropWhile is_digit (frac_text F @ exp_text e) = frac_text F @ exp_text e"
    by (simp add: digit_e_not)
  show ?thesis
    unfolding decimal_regex_def Let_def strip_sign_literal [OF assms(1,2)]
      takeWhile_digits [OF assms(2)] dropWhile_digits [OF assms(2)] t dd
    using assms exp_text_ok [of e]
    by (cases "F = []"; cases "e = 0") (simp_all add: dropWhile_digits dropWhile_digits_id digit_e_not)
qed

lemma literal_trim:
  assumes "list_all is_digit I" "list_all is_digit F"
  shows "trim (literal neg I F e) = literal neg I F e"
proof (rule trim_id)
  fix c assume "c \<in> set (literal neg I F e)"
  then have "is_digit c \<or> c = CHR ''-'' \<or> c = CHR ''.'' \<or> c = CHR ''e''"
    using assms by (auto simp: literal_def list_all_iff int_str_def dest: nat_digits_digit split: if_splits)
  then show "\<not> is_space c"
    by (elim disjE) (simp add: digit_not_space, simp_all add: is_space_def)
qed

lemma literal_negative:
  assumes "I \<noteq> []" "list_all is_digit I"
  shows "starts_with (literal neg I F e) ''-'' = neg"
  using starts_minus_digits [OF assms] by (simp add: literal_def)

lemma literal_exponent:
  assumes "list_all is_digit I" "list_all is_digit F"
  shows "(case index_where is_exp_mark (I @ frac_text F @ exp_text e) of
      None \<Rightarrow> (0, I @ frac_text F @ exp_text e)
    | Some k \<Rightarrow> (parse_int (drop (k + 1) (I @ frac_text F @ exp_text e)),
                 take k (I @ frac_text F @ exp_text e))) = (e, I @ frac_text F)"
proof -
  have noe: "\<not> is_exp_mark c" if "c \<in> set (I @ frac_text F)" for c
    using that assms digit_facts(4) by (auto simp: list_all_iff is_exp_mark_def split: if_splits)
  show ?thesis
  proof (cases "e = 0")
    case True
    then show ?thesis using index_where_none [of "I @ frac_text F" is_exp_mark] noe by simp
  next
    case False
    have "index_where is_exp_mark ((I @ frac_text F) @ CHR ''e'' # int_str e) = Some (length (I @ frac_text F))"
      by (rule index_where_prefix) (use noe in \<open>auto simp: is_exp_mark_def\<close>)
    with False show ?thesis by (auto simp: parse_int_int_str)
  qed
qed

lemma literal_point:
  assumes "list_all is_digit I" "list_all is_digit F"
  shows "(case index_where (\<lambda>c. c = CHR ''.'') (I @ frac_text F) of
      None \<Rightarrow> (I @ frac_text F, [])
    | Some k \<Rightarrow> (take k (I @ frac_text F), drop (k + 1) (I @ frac_text F))) = (I, F)"
proof -
  have nod: "c \<noteq> CHR ''.''" if "c \<in> set I" for c
    using that assms(1) digit_facts(3) by (auto simp: list_all_iff)
  show ?thesis
    using index_where_prefix [of I "\<lambda>c. c = CHR ''.''" "CHR ''.''" F] nod
      index_where_none [of I "\<lambda>c. c = CHR ''.''"] by auto
qed

text \<open>Parsing a literal gives its value truncated to 18 places, whatever its exponent.\<close>

lemma dec_parse_literal:
  assumes "I \<noteq> []" "list_all is_digit I" "list_all is_digit F"
  shows "dec_parse (literal neg I F e) =
    Inr (Decimal ((if neg then - 1 else 1) * int (shift10 (digits_val (I @ F)) (18 + e - int (length F)))))"
  unfolding dec_parse_def Let_def literal_trim [OF assms(2,3)] literal_negative [OF assms(1,2)]
    strip_sign_literal [OF assms(1,2)] literal_exponent [OF assms(2,3)]
  by (simp add: literal_regex assms literal_point parse_core_value)

text \<open>Without an integer part the leading zero is inserted but not counted.\<close>

lemma parse_core_no_int:
  assumes F: "list_all is_digit F"
  shows "parse_core [] F 0 = shift10 (digits_val F) (17 - int (length F))"
proof -
  define d where "d = pad_end (CHR ''0'' # F) 18 (CHR ''0'')"
  have "d \<noteq> []" by (simp add: d_def pad_end_def)
  then have core: "parse_core [] F 0 = digits_val (if 18 < length d then take 18 d else d)"
    by (simp add: parse_core_def Let_def flip: d_def)
  have dig: "list_all is_digit d"
    using F by (simp add: d_def pad_end_def list_all_zeros is_digit_def)
  have val: "digits_val d = digits_val F * 10 ^ (17 - length F)"
    by (simp add: d_def pad_end_def digits_val_append digit_val_def)
  have len: "length d = max 18 (Suc (length F))" by (simp add: d_def pad_end_def)
  show ?thesis
    unfolding core truncated_digits_val [OF dig] val
    using len by (auto simp: shift10_def nat_diff_distrib' max_def)
qed

section \<open>Printing\<close>

lemma strip_zeros_decomp: "\<exists>k. s = strip_zeros s @ replicate k (CHR ''0'')"
proof -
  let ?P = "\<lambda>c. c = CHR ''0''"
  have "takeWhile ?P (rev s) = replicate (length (takeWhile ?P (rev s))) (CHR ''0'')"
    by (rule replicate_eqI) (auto dest: set_takeWhileD)
  then have "rev s = replicate (length (takeWhile ?P (rev s))) (CHR ''0'') @ dropWhile ?P (rev s)"
    by (metis takeWhile_dropWhile_id)
  then have "s = rev (dropWhile ?P (rev s)) @ replicate (length (takeWhile ?P (rev s))) (CHR ''0'')"
    by (metis rev_append rev_replicate rev_rev_ident)
  then show ?thesis unfolding strip_zeros_def by blast
qed

lemma digits_abs_digits: "list_all is_digit (abs_digits a)"
  by (simp add: abs_digits_def pad_start_def list_all_zeros)

lemma length_abs_digits: "19 \<le> length (abs_digits a)"
  by (simp add: abs_digits_def pad_start_def)

lemma abs_digits_val: "digits_val (abs_digits a) = nat \<bar>scaled a\<bar>"
  by (simp add: abs_digits_def pad_start_def digits_val_append)

lemma dec_to_string_literal:
  "dec_to_string a = literal (scaled a < 0) (take (length (abs_digits a) - 18) (abs_digits a))
     (strip_zeros (drop (length (abs_digits a) - 18) (abs_digits a))) 0"
  by (simp add: dec_to_string_def literal_def Let_def)

lemma dec_from_to_string: "dec_parse (dec_to_string a) = Inr a"
proof -
  define I F where "I = take (length (abs_digits a) - 18) (abs_digits a)"
    and "F = drop (length (abs_digits a) - 18) (abs_digits a)"
  obtain k where k: "F = strip_zeros F @ replicate k (CHR ''0'')"
    using strip_zeros_decomp by blast
  have IF: "I @ F = abs_digits a" by (simp add: I_def F_def)
  have len: "length F = 18" using length_abs_digits [of a] by (simp add: F_def)
  have I: "I \<noteq> []" using length_abs_digits [of a] by (auto simp: I_def)
  have dig: "list_all is_digit I" "list_all is_digit F"
    using digits_abs_digits [of a] unfolding IF [symmetric] by simp_all
  then have digs: "list_all is_digit (strip_zeros F)" by (subst (asm) k) simp
  have k18: "length (strip_zeros F) + k = 18" using len by (subst (asm) k) simp
  have "digits_val (I @ F) = digits_val (I @ strip_zeros F) * 10 ^ k"
    by (subst k) (simp add: digits_val_append power_add algebra_simps)
  then have "shift10 (digits_val (I @ strip_zeros F)) (18 + 0 - int (length (strip_zeros F))) = nat \<bar>scaled a\<bar>"
    using k18 IF abs_digits_val [of a] by (simp add: shift10_def nat_diff_distrib' flip: k18)
  then have "dec_parse (dec_to_string a) = Inr (Decimal ((if scaled a < 0 then - 1 else 1) * \<bar>scaled a\<bar>))"
    unfolding dec_to_string_literal using dec_parse_literal [OF I dig(1) digs, of "scaled a < 0" 0]
    by (simp add: I_def F_def)
  then show ?thesis by (cases a) auto
qed

lemma dec_round_dvd: "dec_round a dp = Inr r \<Longrightarrow> 10 ^ nat (18 - dp) dvd scaled r"
  by (cases "18 \<le> dp") (auto simp: dec_round_def Let_def split: if_splits)

lemma dec_to_fixed_literal:
  assumes "dec_round a dp = Inr r" and "0 \<le> dp"
  shows "dec_to_fixed a dp = Inr (literal (scaled r < 0) (take (length (abs_digits r) - 18) (abs_digits r))
    (pad_end (take (nat dp) (drop (length (abs_digits r) - 18) (abs_digits r))) (nat dp) (CHR ''0'')) 0)"
proof -
  have "pad_end xs (nat dp) c \<noteq> []" if "dp \<noteq> 0" for xs c
    using that assms(2) by (cases xs) (simp_all add: pad_end_def)
  then show ?thesis
    using assms by (auto simp: dec_to_fixed_def Let_def literal_def pad_end_def)
qed

lemma fixed_digits_shift:
  assumes "list_all is_digit I" "list_all is_digit F" "length F = 18" "0 \<le> dp"
    and dvd: "10 ^ nat (18 - dp) dvd digits_val (I @ F)"
  shows "shift10 (digits_val (I @ pad_end (take (nat dp) F) (nat dp) (CHR ''0''))) (18 - dp) = digits_val (I @ F)"
proof (cases "dp \<le> 18")
  case True
  define m where "m = nat (18 - dp)"
  have len: "length (drop (nat dp) F) = m" using assms(3,4) True by (simp add: m_def)
  have pad: "pad_end (take (nat dp) F) (nat dp) (CHR ''0'') = take (nat dp) F"
    using assms(3) True by (simp add: pad_end_def)
  have eq: "digits_val (I @ F) = digits_val (I @ take (nat dp) F) * 10 ^ m + digits_val (drop (nat dp) F)"
    using digits_val_append [of "I @ take (nat dp) F" "drop (nat dp) F"] len by simp
  have "digits_val (drop (nat dp) F) < 10 ^ m"
    using digits_val_less [of "drop (nat dp) F"] assms(2) len by (auto simp: list_all_iff dest: in_set_dropD)
  moreover have "10 ^ m dvd digits_val (drop (nat dp) F)"
    using dvd unfolding eq m_def [symmetric] by (simp add: dvd_add_right_iff)
  ultimately have "digits_val (drop (nat dp) F) = 0"
    by (meson dvd_imp_le gr0I leD)
  with eq True pad show ?thesis by (simp add: shift10_def m_def)
next
  case False
  define k where "k = nat (dp - 18)"
  have pad: "pad_end (take (nat dp) F) (nat dp) (CHR ''0'') = F @ replicate k (CHR ''0'')"
    using assms(3) False by (simp add: pad_end_def k_def nat_diff_distrib')
  show ?thesis using False
    unfolding pad append_assoc [symmetric] digits_val_append [of "I @ F"]
    by (simp add: shift10_def k_def)
qed

lemma dec_to_fixed_parse:
  assumes r: "dec_round a dp = Inr r" and dp: "0 \<le> dp"
  shows "bindR (dec_to_fixed a dp) dec_parse = Inr r"
proof -
  define I F where "I = take (length (abs_digits r) - 18) (abs_digits r)"
    and "F = drop (length (abs_digits r) - 18) (abs_digits r)"
  define G where "G = pad_end (take (nat dp) F) (nat dp) (CHR ''0'')"
  have IF: "I @ F = abs_digits r" by (simp add: I_def F_def)
  have len: "length F = 18" using length_abs_digits [of r] by (simp add: F_def)
  have I: "I \<noteq> []" using length_abs_digits [of r] by (auto simp: I_def)
  have dig: "list_all is_digit I" "list_all is_digit F"
    using digits_abs_digits [of r] unfolding IF [symmetric] by simp_all
  then have digG: "list_all is_digit G"
    by (auto simp: G_def pad_end_def list_all_iff is_digit_def dest!: in_set_takeD)
  have lenG: "int (length G) = dp"
    using len dp by (simp add: G_def pad_end_def)
  have "10 ^ nat (18 - dp) dvd digits_val (I @ F)"
    using dec_round_dvd [OF r] unfolding IF abs_digits_val
    by (metis dvd_abs_iff int_dvd_int_iff nat_0_le abs_ge_zero of_nat_numeral of_nat_power)
  from fixed_digits_shift [OF dig len dp this]
  have "shift10 (digits_val (I @ G)) (18 + 0 - int (length G)) = nat \<bar>scaled r\<bar>"
    by (simp add: IF abs_digits_val lenG G_def [symmetric])
  then have "dec_parse (literal (scaled r < 0) I G 0) = Inr (Decimal ((if scaled r < 0 then - 1 else 1) * \<bar>scaled r\<bar>))"
    using dec_parse_literal [OF I dig(1) digG, of "scaled r < 0" 0] by simp
  then show ?thesis
    unfolding dec_to_fixed_literal [OF r dp] I_def [symmetric] F_def [symmetric] G_def [symmetric]
    by (cases r) auto
qed

section \<open>Rounding\<close>

text \<open>The quotient is the nearest one; on a tie it is the one nearer to zero.\<close>

lemma dec_div_value: "scaled d \<noteq> 0 \<Longrightarrow> dec_div a d =
  Inr (Decimal (bdiv (scaled a * SCALE_FACTOR) (scaled d) +
    (if \<bar>scaled d\<bar> < 2 * \<bar>brem (scaled a * SCALE_FACTOR) (scaled d)\<bar>
     then (if (scaled a < 0) \<noteq> (scaled d < 0) then - 1 else 1) else 0)))"
  by (simp add: dec_div_def Let_def abs_if mult.commute)

lemma dec_div_Inr: "dec_div a d = Inr q \<Longrightarrow> scaled d \<noteq> 0"
  by (auto simp: dec_div_def)

lemma sign_scaled: "(scaled a * SCALE_FACTOR < 0) = (scaled a < 0)"
  by (simp add: mult_less_0_iff order_less_not_sym)

lemma dec_div_abs:
  assumes "dec_div a d = Inr q"
  defines "N \<equiv> \<bar>scaled a * SCALE_FACTOR\<bar>" and "D \<equiv> \<bar>scaled d\<bar>"
  shows "scaled q = (if (scaled a < 0) \<noteq> (scaled d < 0) then - 1 else 1) *
    (if 2 * (N mod D) > D then N div D + 1 else N div D)"
proof -
  note d0 = dec_div_Inr [OF assms(1)]
  have rem: "\<bar>brem (scaled a * SCALE_FACTOR) (scaled d)\<bar> = N mod D"
    unfolding N_def D_def by (rule abs_brem [OF d0])
  have quo: "bdiv (scaled a * SCALE_FACTOR) (scaled d) =
      (if (scaled a < 0) \<noteq> (scaled d < 0) then - 1 else 1) * (N div D)"
    unfolding bdiv_def N_def D_def sign_scaled by simp
  from assms(1) show ?thesis
    unfolding dec_div_value [OF d0] rem quo D_def [symmetric] by auto
qed

lemma nearest_quotient:
  fixes N D :: int
  assumes "0 < D" "0 \<le> N"
  shows "2 * \<bar>N - (if 2 * (N mod D) > D then N div D + 1 else N div D) * D\<bar> \<le> D"
proof -
  define r where "r = N mod D"
  have low: "N - N div D * D = r" by (simp add: r_def minus_div_mult_eq_mod)
  have high: "N - (N div D + 1) * D = r - D" using low by (simp add: algebra_simps)
  have "0 \<le> r" "r < D" using assms by (simp_all add: r_def)
  then show ?thesis unfolding r_def [symmetric] using low high by (cases "D < 2 * r") simp_all
qed

lemma abs_signed_diff:
  fixes m k d :: int
  shows "\<bar>m - (if (m < 0) \<noteq> (d < 0) then - 1 else 1) * k * d\<bar> = \<bar>\<bar>m\<bar> - k * \<bar>d\<bar>\<bar>"
  by (cases "m < 0"; cases "d < 0") (simp_all add: abs_minus_commute)

lemma dec_div_nearest:
  assumes "dec_div a d = Inr q"
  shows "2 * \<bar>scaled a * SCALE_FACTOR - scaled q * scaled d\<bar> \<le> \<bar>scaled d\<bar>"
  unfolding dec_div_abs [OF assms] sign_scaled [of a, symmetric] abs_signed_diff
  by (rule nearest_quotient) (use dec_div_Inr [OF assms] in simp_all)

lemma tie_below:
  fixes N D k :: int
  assumes "2 * \<bar>N - k * D\<bar> = D" "0 < D" "k = (if 2 * (N mod D) > D then N div D + 1 else N div D)"
  shows "k * D < N"
proof -
  define r where "r = N mod D"
  have low: "N - N div D * D = r" by (simp add: r_def minus_div_mult_eq_mod)
  have high: "N - (N div D + 1) * D = r - D" using low by (simp add: algebra_simps)
  have "0 \<le> r" "r < D" using assms(2) by (simp_all add: r_def)
  then show ?thesis using assms low high unfolding r_def [symmetric]
    by (cases "D < 2 * r") simp_all
qed

lemma dec_div_tie:
  assumes "dec_div a d = Inr q"
    and "2 * \<bar>scaled a * SCALE_FACTOR - scaled q * scaled d\<bar> = \<bar>scaled d\<bar>"
  shows "\<bar>scaled q * scaled d\<bar> < \<bar>scaled a * SCALE_FACTOR\<bar>"
proof -
  define N D where "N = \<bar>scaled a * SCALE_FACTOR\<bar>" and "D = \<bar>scaled d\<bar>"
  define k where "k = (if 2 * (N mod D) > D then N div D + 1 else N div D)"
  have D0: "0 < D" using dec_div_Inr [OF assms(1)] by (simp add: D_def)
  have k0: "0 \<le> k"
    using D0 by (simp add: k_def pos_imp_zdiv_nonneg_iff N_def add_increasing2)
  have q: "scaled q = (if (scaled a * SCALE_FACTOR < 0) \<noteq> (scaled d < 0) then - 1 else 1) * k"
    unfolding sign_scaled k_def N_def D_def by (rule dec_div_abs [OF assms(1)])
  have "2 * \<bar>N - k * D\<bar> = D"
    using assms(2) unfolding q abs_signed_diff N_def D_def .
  then have less: "k * D < N" using D0 by (rule tie_below) (simp_all add: k_def)
  have "\<bar>scaled q * scaled d\<bar> = k * D"
    unfolding q using k0 by (simp add: abs_mult D_def)
  with less show ?thesis by (simp add: N_def)
qed

lemma dec_mul_abs: "\<bar>scaled (dec_mul a b)\<bar> = \<bar>scaled a * scaled b\<bar> div SCALE_FACTOR"
  by (simp add: dec_mul_def abs_bdiv)

lemma dec_mul_sign: "scaled (dec_mul a b) = sgn (scaled a * scaled b) * \<bar>scaled (dec_mul a b)\<bar>"
proof -
  let ?m = "scaled a * scaled b"
  have "0 \<le> \<bar>?m\<bar> div SCALE_FACTOR" by (simp add: pos_imp_zdiv_nonneg_iff)
  then show ?thesis
    unfolding dec_mul_abs
    by (simp add: dec_mul_def bdiv_def sgn_if order_less_not_sym)
qed

lemma brem_2_odd: "brem x 2 \<noteq> 0 \<longleftrightarrow> odd x"
proof -
  have "\<bar>x\<bar> mod 2 = 0 \<longleftrightarrow> even x"
    by (metis dvd_abs_iff even_iff_mod_2_eq_zero)
  then show ?thesis by (cases "x < 0") (simp_all add: brem_def)
qed

text \<open>\<open>round(dp)\<close>: nearest multiple, ties to an even multiple.\<close>

lemma dec_round_value:
  fixes a :: decimal
  assumes "0 \<le> dp" "dp < 18"
  defines "m \<equiv> 10 ^ nat (18 - dp) :: int"
  defines "Q \<equiv> \<bar>scaled a\<bar> div m" and "R \<equiv> \<bar>scaled a\<bar> mod m"
  shows "dec_round a dp = Inr (Decimal ((if scaled a < 0 then - 1 else 1) *
    (if m < 2 * R \<or> (2 * R = m \<and> odd Q) then Q + 1 else Q) * m))"
proof -
  obtain k where k: "nat (18 - dp) = Suc k" using assms(2) by (cases "nat (18 - dp)") simp_all
  have m0: "0 < m" by (simp add: m_def)
  have half: "bdiv m 2 * 2 = m" by (simp add: bdiv_nonneg m_def k)
  have rem: "\<bar>brem (scaled a) m\<bar> = R" using m0 by (simp add: abs_brem R_def)
  have quo: "bdiv (scaled a) m = (if scaled a < 0 then - 1 else 1) * Q"
    using m0 by (simp add: bdiv_def Q_def)
  have odd: "brem ((if scaled a < 0 then - 1 else 1) * Q) 2 \<noteq> 0 \<longleftrightarrow> odd Q"
    by (simp add: brem_2_odd)
  show ?thesis
    using assms(1,2) unfolding dec_round_def Let_def m_def [symmetric] half
      abs_if [symmetric] rem quo odd
    by (auto simp: mult.commute algebra_simps)
qed

lemma round_nearest_multiple:
  fixes A m :: int
  assumes "0 < m" "0 \<le> A"
  defines "k \<equiv> if m < 2 * (A mod m) \<or> (2 * (A mod m) = m \<and> odd (A div m)) then A div m + 1 else A div m"
  shows "2 * \<bar>A - k * m\<bar> \<le> m" "2 * \<bar>A - k * m\<bar> = m \<Longrightarrow> even k"
proof -
  define q r where "q = A div m" and "r = A mod m"
  have low: "A - q * m = r" by (simp add: q_def r_def minus_div_mult_eq_mod)
  have high: "A - (q + 1) * m = r - m" using low by (simp add: algebra_simps)
  have r: "0 \<le> r" "r < m" using assms by (simp_all add: r_def)
  have k: "k = (if m < 2 * r \<or> (2 * r = m \<and> odd q) then q + 1 else q)"
    by (simp add: k_def q_def r_def)
  have *: "A - k * m = r - m \<and> m \<le> 2 * r \<and> (m = 2 * r \<longrightarrow> odd q \<and> k = q + 1) \<or>
      A - k * m = r \<and> 2 * r \<le> m \<and> (m = 2 * r \<longrightarrow> even q \<and> k = q)"
    unfolding k using low high by (cases "m < 2 * r"; cases "2 * r = m"; cases "odd q") auto
  then have **: "A - k * m = r - m \<and> m \<le> 2 * r \<or> A - k * m = r \<and> 2 * r \<le> m" by blast
  then show "2 * \<bar>A - k * m\<bar> \<le> m" using r by (elim disjE conjE) simp_all
  show "even k" if "2 * \<bar>A - k * m\<bar> = m"
  proof -
    have "m = 2 * r" using ** r that by (elim disjE conjE) simp_all
    then show ?thesis using * by auto
  qed
qed

lemma abs_signed_mult:
  fixes x k m :: int
  shows "\<bar>x - (if x < 0 then - 1 else 1) * k * m\<bar> = \<bar>\<bar>x\<bar> - k * m\<bar>"
  by (cases "x < 0") (simp_all add: abs_if)

lemma dec_round_shape:
  assumes "0 \<le> dp" "dp < 18" "dec_round a dp = Inr r"
  obtains k where "scaled r = (if scaled a < 0 then - 1 else 1) * k * 10 ^ nat (18 - dp)"
    and "2 * \<bar>\<bar>scaled a\<bar> - k * 10 ^ nat (18 - dp)\<bar> \<le> 10 ^ nat (18 - dp)"
    and "2 * \<bar>\<bar>scaled a\<bar> - k * 10 ^ nat (18 - dp)\<bar> = 10 ^ nat (18 - dp) \<Longrightarrow> even k"
proof -
  define m where "m = (10 :: int) ^ nat (18 - dp)"
  define k where "k = (if m < 2 * (\<bar>scaled a\<bar> mod m) \<or> (2 * (\<bar>scaled a\<bar> mod m) = m \<and> odd (\<bar>scaled a\<bar> div m))
    then \<bar>scaled a\<bar> div m + 1 else \<bar>scaled a\<bar> div m)"
  have m0: "0 < m" by (simp add: m_def)
  have "r = Decimal ((if scaled a < 0 then - 1 else 1) * k * m)"
    using dec_round_value [OF assms(1,2), of a] assms(3) unfolding m_def [symmetric] k_def by simp
  then have "scaled r = (if scaled a < 0 then - 1 else 1) * k * m" by simp
  then show thesis
    using that [of k] round_nearest_multiple [OF m0 abs_ge_zero [of "scaled a"], folded k_def]
    by (simp add: m_def)
qed

lemma dec_round_nearest:
  assumes "0 \<le> dp" "dp < 18" "dec_round a dp = Inr r"
  shows "2 * \<bar>scaled a - scaled r\<bar> \<le> 10 ^ nat (18 - dp)"
  by (rule dec_round_shape [OF assms]) (simp only: abs_signed_mult)

lemma dec_round_tie:
  assumes "0 \<le> dp" "dp < 18" "dec_round a dp = Inr r"
    and tie: "2 * \<bar>scaled a - scaled r\<bar> = 10 ^ nat (18 - dp)"
  shows "even (scaled r div 10 ^ nat (18 - dp))"
proof (rule dec_round_shape [OF assms(1-3)])
  fix k :: int
  assume k: "scaled r = (if scaled a < 0 then - 1 else 1) * k * 10 ^ nat (18 - dp)"
    and even: "2 * \<bar>\<bar>scaled a\<bar> - k * 10 ^ nat (18 - dp)\<bar> = 10 ^ nat (18 - dp) \<Longrightarrow> even k"
  have "even k" using tie unfolding k abs_signed_mult by (rule even)
  moreover have "scaled r div 10 ^ nat (18 - dp) = (if scaled a < 0 then - 1 else 1) * k"
    unfolding k by (rule nonzero_mult_div_cancel_right) simp
  ultimately show ?thesis by simp
qed

section \<open>The order\<close>

lemma dec_compare [simp]:
  "dec_eq a b \<longleftrightarrow> a = b" "dec_gt a b \<longleftrightarrow> b < a" "dec_gte a b \<longleftrightarrow> b \<le> a"
  "dec_lt a b \<longleftrightarrow> a < b" "dec_lte a b \<longleftrightarrow> a \<le> b"
  by (auto simp: dec_eq_def dec_gt_def dec_gte_def dec_lt_def dec_lte_def dec_cmp_def
      less_eq_decimal_def less_decimal_def intro: decimal.expand)

lemma dec_cmp_cases:
  "dec_cmp a b = 0 \<longleftrightarrow> a = b" "dec_cmp a b < 0 \<longleftrightarrow> a < b" "0 < dec_cmp a b \<longleftrightarrow> b < a"
  by (auto simp: dec_cmp_def less_decimal_def intro: decimal.expand)

lemma dec_sum_from_value:
  "dec_sum_from acc (map DIn ds) = Inr (Decimal (scaled acc + sum_list (map scaled ds)))"
  by (induction ds arbitrary: acc) (simp_all add: dec_add_def algebra_simps)

section \<open>Properties\<close>

text \<open>\<open>Decimal.from\<close> of a decimal literal with at least one digit before the point is its
  value in units of \<open>10 ^ (-18)\<close>, truncated towards zero, for every exponent and any number of
  fraction digits; the sign applies after truncation.\<close>
theorem dec_from_literal:
  assumes "I \<noteq> []" "list_all is_digit I" "list_all is_digit F"
  shows "dec_from (SIn (literal neg I F e)) =
    Inr (Decimal ((if neg then - 1 else 1) * int (shift10 (digits_val (I @ F)) (18 + e - int (length F)))))"
  using dec_parse_literal [OF assms] by simp

theorem dec_from_literal_witness:
  "dec_from (SIn (literal True ''12'' ''50'' (- 17))) = Inr (Decimal (- 125))"
  using dec_from_literal [of "''12''" "''50''" True "- 17"]
  by (simp add: is_digit_def digit_val_def shift10_def)

text \<open>C1: printing a \<open>Decimal\<close> with \<open>toString\<close> and reading the text back with
  \<open>Decimal.from\<close> gives the same value, so values survive the SDK's decimal-string records.\<close>
theorem dec_roundtrip: "dec_from (SIn (dec_to_string d)) = Inr d"
  by (simp add: dec_from_to_string)

text \<open>\<open>Decimal.from('.' + F)\<close>: a literal without digits before the point passes the
  validating pattern but is read one place too far right, as \<open>0.0F\<close> instead of \<open>0.F\<close>.\<close>
theorem dec_from_leading_point:
  assumes "F \<noteq> []" "list_all is_digit F"
  shows "dec_from (SIn (CHR ''.'' # F)) = dec_from (SIn (''0.0'' @ F))"
proof -
  have zero: "is_digit (CHR ''0'')" by (simp add: is_digit_def)
  have trim: "trim (CHR ''.'' # F) = CHR ''.'' # F"
    using literal_trim [of "[]" F False 0] assms by (simp add: literal_def)
  have re: "decimal_regex (CHR ''.'' # F)"
    using assms by (simp add: decimal_regex_def strip_sign_def digit_e_not takeWhile_digits_id
        dropWhile_digits_id exp_suffix_ok_def)
  have idx: "index_where is_exp_mark (CHR ''.'' # F) = None"
    using index_where_none [of "CHR ''.'' # F" is_exp_mark] assms digit_facts(4)
    by (auto simp: list_all_iff is_exp_mark_def)
  have point: "index_where (\<lambda>c. c = CHR ''.'') (CHR ''.'' # F) = Some 0"
    using index_where_prefix [of "[]" "\<lambda>c. c = CHR ''.''" "CHR ''.''" F] by simp
  have zeros: "digits_val (''0'' @ CHR ''0'' # F) = digits_val F"
    by (simp add: digit_val_def)
  have core: "parse_core [] F 0 = shift10 (digits_val (''0'' @ CHR ''0'' # F)) (18 + 0 - int (length (CHR ''0'' # F)))"
    unfolding parse_core_no_int [OF assms(2)] zeros by simp
  have "dec_parse (CHR ''.'' # F) = Inr (Decimal (int (parse_core [] F 0)))"
    unfolding dec_parse_def Let_def trim using re idx point
    by (simp add: strip_sign_def)
  moreover have "dec_parse (literal False ''0'' (CHR ''0'' # F) 0) = Inr (Decimal (int (parse_core [] F 0)))"
    unfolding core by (subst dec_parse_literal) (use assms zero in simp_all)
  ultimately show ?thesis by (simp add: literal_def)
qed

theorem dec_from_leading_point_witness:
  "dec_from (SIn ''.5'') = dec_from (SIn ''0.05'')"
  using dec_from_leading_point [of "''5''"] by (simp add: is_digit_def)

text \<open>C37: \<open>div\<close> by a non-zero divisor returns the quotient whose error is at most half a unit
  of the last place; when the exact quotient lies half-way between two units it returns the
  one nearer to zero, whichever of the two is even.\<close>
theorem dec_div_rounding:
  assumes "dec_div a d = Inr q"
  shows "2 * \<bar>scaled a * SCALE_FACTOR - scaled q * scaled d\<bar> \<le> \<bar>scaled d\<bar> \<and>
    (2 * \<bar>scaled a * SCALE_FACTOR - scaled q * scaled d\<bar> = \<bar>scaled d\<bar> \<longrightarrow>
      \<bar>scaled q * scaled d\<bar> < \<bar>scaled a * SCALE_FACTOR\<bar>)"
proof (intro conjI impI)
  show "2 * \<bar>scaled a * SCALE_FACTOR - scaled q * scaled d\<bar> \<le> \<bar>scaled d\<bar>"
    by (rule dec_div_nearest [OF assms])
next
  assume tie: "2 * \<bar>scaled a * SCALE_FACTOR - scaled q * scaled d\<bar> = \<bar>scaled d\<bar>"
  show "\<bar>scaled q * scaled d\<bar> < \<bar>scaled a * SCALE_FACTOR\<bar>"
    by (rule dec_div_tie [OF assms tie])
qed

theorem dec_div_rounding_witness:
  "dec_div (Decimal 3) (Decimal (2 * SCALE_FACTOR)) = Inr (Decimal 1) \<and>
   2 * \<bar>3 * SCALE_FACTOR - 1 * (2 * SCALE_FACTOR)\<bar> = \<bar>2 * SCALE_FACTOR\<bar>"
proof -
  have d: "dec_div (Decimal 3) (Decimal (2 * SCALE_FACTOR)) = Inr (Decimal 1)"
    by (simp add: dec_div_def SCALE_FACTOR_eq bdiv_def brem_def)
  show ?thesis using d dec_div_rounding [OF d] by (simp add: SCALE_FACTOR_eq)
qed

text \<open>\<open>mul\<close> is the exact product truncated towards zero: it keeps the sign, loses less
  than one unit of the last place, and is exact when the product has at most 18 decimals.\<close>
theorem dec_mul_truncates:
  "\<bar>scaled (dec_mul a b)\<bar> * SCALE_FACTOR \<le> \<bar>scaled a * scaled b\<bar> \<and>
   \<bar>scaled a * scaled b\<bar> < (\<bar>scaled (dec_mul a b)\<bar> + 1) * SCALE_FACTOR \<and>
   scaled (dec_mul a b) = sgn (scaled a * scaled b) * \<bar>scaled (dec_mul a b)\<bar>"
proof -
  let ?m = "\<bar>scaled a * scaled b\<bar>"
  have m: "?m = ?m div SCALE_FACTOR * SCALE_FACTOR + ?m mod SCALE_FACTOR" by simp
  have "0 \<le> ?m mod SCALE_FACTOR" "?m mod SCALE_FACTOR < SCALE_FACTOR" by simp_all
  then have "?m div SCALE_FACTOR * SCALE_FACTOR \<le> ?m" "?m < (?m div SCALE_FACTOR + 1) * SCALE_FACTOR"
    using m unfolding distrib_right by linarith+
  then show ?thesis using dec_mul_sign [of a b] unfolding dec_mul_abs by blast
qed

text \<open>\<open>round(dp)\<close> for \<open>0 \<le> dp < 18\<close> returns the nearest multiple of
  \<open>10 ^ (-dp)\<close>, and on a tie the multiple with an even quotient (half-even).\<close>
theorem dec_round_half_even:
  assumes "0 \<le> dp" "dp < 18" "dec_round a dp = Inr r"
  shows "10 ^ nat (18 - dp) dvd scaled r \<and>
    2 * \<bar>scaled a - scaled r\<bar> \<le> 10 ^ nat (18 - dp) \<and>
    (2 * \<bar>scaled a - scaled r\<bar> = 10 ^ nat (18 - dp) \<longrightarrow> even (scaled r div 10 ^ nat (18 - dp)))"
  using dec_round_dvd [OF assms(3)] dec_round_nearest [OF assms] dec_round_tie [OF assms] by blast

theorem dec_round_half_even_witness:
  "dec_round (Decimal 2500000000000000000) 0 = Inr (Decimal 2000000000000000000) \<and>
   even ((2000000000000000000 :: int) div 10 ^ nat 18)"
proof -
  have r: "dec_round (Decimal 2500000000000000000) 0 = Inr (Decimal 2000000000000000000)"
    by (simp add: dec_round_def bdiv_def brem_def)
  show ?thesis using r dec_round_half_even [OF _ _ r] by simp
qed

text \<open>\<open>toFixed(dp)\<close> prints the rounded value: reading the text back gives exactly
  \<open>round(dp)\<close>, for every non-negative number of places, also beyond 18.\<close>
theorem dec_to_fixed_reads_back:
  assumes "dec_round a dp = Inr r" "0 \<le> dp"
  shows "bindR (dec_to_fixed a dp) (\<lambda>s. dec_from (SIn s)) = Inr r"
  using dec_to_fixed_parse [OF assms] by simp

theorem dec_to_fixed_reads_back_witness:
  "bindR (dec_to_fixed (Decimal (- 1250000000000000000)) 1) (\<lambda>s. dec_from (SIn s)) =
   Inr (Decimal (- 1200000000000000000))"
proof -
  have r: "dec_round (Decimal (- 1250000000000000000)) 1 = Inr (Decimal (- 1200000000000000000))"
    by (simp add: dec_round_def bdiv_def brem_def)
  show ?thesis by (rule dec_to_fixed_reads_back [OF r]) simp
qed

end
