(* ===== verification/JS_Value.thy ===== *)
theory JS_Value
  imports JS_Number
begin

text \<open>
  The JSON-like values that frames, responses and errors are made of, with the language's own
  conversions on them: property lookup, truthiness, and \<open>Number(x)\<close> with its string grammar
  (decimal, hexadecimal, octal and binary literals, \<open>Infinity\<close>, blanks around, the empty string as
  zero). The sign of zero is not represented.
\<close>

datatype js_value =
    JUndef
  | JNull
  | JBool bool
  | JNum js_number
  | JStr string
  | JBig int
  | JArr "js_value list"
  | JObj "(string \<times> js_value) list"

fun js_field :: "string \<Rightarrow> js_value \<Rightarrow> js_value" where
  "js_field k (JObj fs) = (case map_of fs k of None \<Rightarrow> JUndef | Some v \<Rightarrow> v)"
| "js_field k v = JUndef"

text \<open>\<open>typeof v === 'object' && v !== null\<close>\<close>

fun js_is_object :: "js_value \<Rightarrow> bool" where
  "js_is_object (JArr vs) = True"
| "js_is_object (JObj fs) = True"
| "js_is_object v = False"

fun js_truthy :: "js_value \<Rightarrow> bool" where
  "js_truthy JUndef = False"
| "js_truthy JNull = False"
| "js_truthy (JBool b) = b"
| "js_truthy (JNum n) = (n \<noteq> NaN \<and> n \<noteq> Fin 0)"
| "js_truthy (JStr s) = (s \<noteq> [])"
| "js_truthy (JBig n) = (n \<noteq> 0)"
| "js_truthy (JArr vs) = True"
| "js_truthy (JObj fs) = True"

section \<open>Number of a string\<close>

definition str_exponent :: "string \<Rightarrow> int option" where
  "str_exponent s = (case s of
     [] \<Rightarrow> Some 0
   | c # t \<Rightarrow>
       if c = CHR ''e'' \<or> c = CHR ''E''
       then (let neg = starts_with t ''-''; ds = (if neg \<or> starts_with t ''+'' then tl t else t)
             in if ds \<noteq> [] \<and> list_all is_digit ds
                then Some (if neg then - int (digits_val ds) else int (digits_val ds)) else None)
       else None)"

definition str_unsigned :: "string \<Rightarrow> rat option" where
  "str_unsigned s =
     (let i = takeWhile is_digit s; r = dropWhile is_digit s;
          f = (if starts_with r ''.'' then takeWhile is_digit (tl r) else []);
          e = (if starts_with r ''.'' then dropWhile is_digit (tl r) else r)
      in if i = [] \<and> f = [] then None
         else map_option (\<lambda>x. of_nat (digits_val (i @ f)) * rpow 10 (x - int (length f))) (str_exponent e))"

definition radix_digit :: "char \<Rightarrow> nat option" where
  "radix_digit c = (let n = of_char c :: nat in
     if is_digit c then Some (digit_val c)
     else if 97 \<le> n \<and> n \<le> 102 then Some (n - 87)
     else if 65 \<le> n \<and> n \<le> 70 then Some (n - 55) else None)"

fun radix_val :: "nat \<Rightarrow> string \<Rightarrow> nat \<Rightarrow> nat option" where
  "radix_val b [] acc = Some acc"
| "radix_val b (c # cs) acc = (case radix_digit c of
     Some d \<Rightarrow> if d < b then radix_val b cs (acc * b + d) else None
   | None \<Rightarrow> None)"

definition str_radix :: "string \<Rightarrow> nat option" where
  "str_radix s =
     (if length s \<le> 2 \<or> hd s \<noteq> CHR ''0'' then None
      else case to_lower [s ! 1] of
             ''x'' \<Rightarrow> radix_val 16 (drop 2 s) 0
           | ''o'' \<Rightarrow> radix_val 8 (drop 2 s) 0
           | ''b'' \<Rightarrow> radix_val 2 (drop 2 s) 0
           | _ \<Rightarrow> None)"

definition string_to_number :: "string \<Rightarrow> js_number" where
  "string_to_number str =
     (let s = trim str; neg = starts_with s ''-''; u = (if neg \<or> starts_with s ''+'' then tl s else s)
      in if s = [] then Fin 0
         else case str_radix s of
                Some n \<Rightarrow> js_round (of_nat n)
              | None \<Rightarrow>
                  if u = ''Infinity'' then (if neg then NegInf else PosInf)
                  else case str_unsigned u of
                         Some x \<Rightarrow> js_round (if neg then - x else x)
                       | None \<Rightarrow> NaN)"

text \<open>\<open>Number(v)\<close>. An array converts through the comma-joined string of its elements, so only an
  empty array or one element can give a number.\<close>

fun js_to_number :: "js_value \<Rightarrow> js_number" where
  "js_to_number JUndef = NaN"
| "js_to_number JNull = Fin 0"
| "js_to_number (JBool b) = Fin (if b then 1 else 0)"
| "js_to_number (JNum n) = n"
| "js_to_number (JStr s) = string_to_number s"
| "js_to_number (JBig n) = js_round (of_int n)"
| "js_to_number (JObj fs) = NaN"
| "js_to_number (JArr []) = Fin 0"
| "js_to_number (JArr [v]) = (case v of
     JUndef \<Rightarrow> Fin 0 | JNull \<Rightarrow> Fin 0 | JBool _ \<Rightarrow> NaN | _ \<Rightarrow> js_to_number v)"
| "js_to_number (JArr (v # w # vs)) = NaN"

definition js_str :: "js_value \<Rightarrow> string" where
  "js_str v = (case v of JStr s \<Rightarrow> s | _ \<Rightarrow> [])"

definition js_numOr :: "js_value \<Rightarrow> js_number option" where
  "js_numOr v = (let n = js_to_number v in if jn_finite n then Some n else None)"

section \<open>Strings of values\<close>

text \<open>The digits of a positive double: the fewest that read back as it, nearest to it.\<close>

definition digits_candidate :: "rat \<Rightarrow> nat \<Rightarrow> nat \<times> int" where
  "digits_candidate x k =
     (let e = rlog 10 x; n = nat (rne (x * rpow 10 (int k - 1 - e)))
      in if n = 10 ^ k then (n div 10, e + 1) else (n, e))"

fun shortest_from :: "nat \<Rightarrow> rat \<Rightarrow> nat \<Rightarrow> nat \<times> nat \<times> int" where
  "shortest_from 0 x k = (case digits_candidate x k of (n, e) \<Rightarrow> (k, n, e))"
| "shortest_from (Suc fuel) x k =
     (case digits_candidate x k of (n, e) \<Rightarrow>
        if js_round (of_nat n * rpow 10 (e - int k + 1)) = Fin x then (k, n, e)
        else shortest_from fuel x (Suc k))"

definition positive_str :: "rat \<Rightarrow> string" where
  "positive_str x =
     (case shortest_from 16 x 1 of (k, m, e) \<Rightarrow>
        let s = nat_digits m; n = e + 1
        in if int k \<le> n \<and> n \<le> 21 then s @ replicate (nat n - k) (CHR ''0'')
           else if 0 < n \<and> n \<le> 21 then take (nat n) s @ ''.'' @ drop (nat n) s
           else if - 6 < n \<and> n \<le> 0 then ''0.'' @ replicate (nat (- n)) (CHR ''0'') @ s
           else (if k = 1 then s else take 1 s @ ''.'' @ drop 1 s) @
                (if e < 0 then ''e-'' @ nat_digits (nat (- e)) else ''e+'' @ nat_digits (nat e)))"

fun js_num_str :: "js_number \<Rightarrow> string" where
  "js_num_str NaN = ''NaN''"
| "js_num_str PosInf = ''Infinity''"
| "js_num_str NegInf = ''-Infinity''"
| "js_num_str (Fin x) = (if x = 0 then ''0'' else if x < 0 then CHR ''-'' # positive_str (- x) else positive_str x)"

fun join_with :: "string \<Rightarrow> string list \<Rightarrow> string" where
  "join_with sep [] = []"
| "join_with sep [s] = s"
| "join_with sep (s # t # ss) = s @ sep @ join_with sep (t # ss)"

text \<open>\<open>String(v)\<close>\<close>

fun js_string :: "js_value \<Rightarrow> string" where
  "js_string JUndef = ''undefined''"
| "js_string JNull = ''null''"
| "js_string (JBool b) = (if b then ''true'' else ''false'')"
| "js_string (JNum n) = js_num_str n"
| "js_string (JStr s) = s"
| "js_string (JBig i) = int_str i"
| "js_string (JObj fs) = ''[object Object]''"
| "js_string (JArr vs) = join_with '','' (map (\<lambda>v. if v = JUndef \<or> v = JNull then [] else js_string v) vs)"

text \<open>\<open>encodeURIComponent\<close> of a string given as its UTF-8 bytes.\<close>

definition hex_digit :: "nat \<Rightarrow> char" where
  "hex_digit n = (if n < 10 then char_of (48 + n) else char_of (55 + n))"

definition uri_unreserved :: "char \<Rightarrow> bool" where
  "uri_unreserved c = (let n = of_char c :: nat in
     (48 \<le> n \<and> n \<le> 57) \<or> (65 \<le> n \<and> n \<le> 90) \<or> (97 \<le> n \<and> n \<le> 122) \<or> c \<in> set ''-_.!~*()'' \<or> n = 39)"

definition encodeURIComponent :: "string \<Rightarrow> string" where
  "encodeURIComponent s = concat (map (\<lambda>c. if uri_unreserved c then [c]
     else [CHR ''%'', hex_digit (of_char c div 16), hex_digit (of_char c mod 16)]) s)"

lemma encodeURIComponent_no_sep:
  assumes "sep = CHR ''&'' \<or> sep = CHR ''=''"
  shows "sep \<notin> set (encodeURIComponent s)"
proof -
  have "sep \<noteq> hex_digit n" if "n < 16" for n
  proof -
    have "of_char sep = (38 :: nat) \<or> of_char sep = (61 :: nat)" using assms by auto
    moreover have "(of_char (hex_digit n) :: nat) \<noteq> 38 \<and> (of_char (hex_digit n) :: nat) \<noteq> 61"
      using that by (simp add: hex_digit_def)
    ultimately show ?thesis by auto
  qed
  then have hex: "sep \<noteq> hex_digit (of_char c div 16) \<and> sep \<noteq> hex_digit (of_char c mod 16)" for c :: char
    using nat_of_char_less_256 [of c] by (simp add: less_mult_imp_div_less)
  have "\<not> uri_unreserved sep" "sep \<noteq> CHR ''%''" using assms by (auto simp: uri_unreserved_def)
  then show ?thesis using hex by (auto simp: encodeURIComponent_def)
qed

end
