(* ===== verification/Decimal_Value.thy ===== *)
theory Decimal_Value
  imports Decimal_Arith JS_Value
begin

text \<open>
  Decimals out of untyped values: the pattern shared by the normalizers and the risk gateway of
  \<open>Decimal.from\<close> on a string, number or bigint, with absent, empty and unparsable values as
  undefined.
\<close>

fun value_decimal :: "js_value \<Rightarrow> decimal_input option" where
  "value_decimal (JStr s) = (if s = [] then None else Some (SIn s))"
| "value_decimal (JNum n) = Some (NIn n)"
| "value_decimal (JBig n) = Some (BIn n)"
| "value_decimal _ = None"

definition toDecimal :: "js_value \<Rightarrow> decimal option" where
  "toDecimal v = (case value_decimal v of None \<Rightarrow> None | Some x \<Rightarrow> okR (dec_from x))"

lemma dec_to_string_nonempty: "dec_to_string d \<noteq> []"
proof
  assume "dec_to_string d = []"
  then have "dec_parse [] = Inr d" using dec_from_to_string [of d] by simp
  moreover have "dec_parse [] = Inl (InvalidDecimal [])" by code_simp
  ultimately show False by simp
qed

lemma toDecimal_string: "toDecimal (JStr (dec_to_string d)) = Some d"
  by (simp add: toDecimal_def dec_from_to_string dec_to_string_nonempty)

end
