(* ===== verification/Order_Book.thy ===== *)
theory Order_Book
  imports Decimal_Arith
begin

text \<open>
  \<open>src/state/OrderBook.ts\<close>: one symbol's L2 book. The state keeps the two sides as price-sorted
  lists of levels (bids descending, asks ascending), the last applied update id and the two sync
  flags. An operation that throws part-way leaves what it has written so far: the state is
  returned next to the error.
  Abstraction: a side stands for the map from price to resting quantity (\<open>side_map\<close>). The
  lemmas show that the binary search finds a price or its insertion point, that applying a diff
  is the pointwise update of the map and keeps the side strictly sorted, and that a book in sync
  has seen every update id since its snapshot.
\<close>

section \<open>Data\<close>

record level =
  price :: decimal
  quantity :: decimal

datatype raw_level = RTuple string string | RObj decimal_input decimal_input

record diff_input =
  d_U :: int
  d_u :: int
  d_pu :: "int option"
  d_bids :: "raw_level list"
  d_asks :: "raw_level list"

record snapshot_input =
  sn_lastUpdateId :: int
  sn_bids :: "raw_level list"
  sn_asks :: "raw_level list"

record book_level =
  bl_price :: string
  bl_quantity :: string

record order_book =
  ob_symbol :: string
  ob_bids :: "level list"
  ob_asks :: "level list"
  ob_last :: "int option"
  ob_synced :: bool
  ob_desynced :: bool

definition new_OrderBook :: "string \<Rightarrow> order_book" where
  "new_OrderBook symbol = \<lparr>ob_symbol = symbol, ob_bids = [], ob_asks = [], ob_last = None,
     ob_synced = False, ob_desynced = False\<rparr>"

definition to_level :: "raw_level \<Rightarrow> dec_error + level" where
  "to_level raw = (case raw of
     RObj p q \<Rightarrow> bindR (dec_from p) (\<lambda>p'. bindR (dec_from q) (\<lambda>q'. Inr \<lparr>price = p', quantity = q'\<rparr>))
   | RTuple p q \<Rightarrow> bindR (dec_from (SIn p)) (\<lambda>p'. bindR (dec_from (SIn q)) (\<lambda>q'. Inr \<lparr>price = p', quantity = q'\<rparr>)))"

fun to_levels :: "raw_level list \<Rightarrow> dec_error + level list" where
  "to_levels [] = Inr []"
| "to_levels (r # rs) = bindR (to_level r) (\<lambda>l. bindR (to_levels rs) (\<lambda>ls. Inr (l # ls)))"

section \<open>Binary search\<close>

function find_loop :: "level list \<Rightarrow> decimal \<Rightarrow> bool \<Rightarrow> int \<Rightarrow> int \<Rightarrow> int" where
  "find_loop levels p descending low high =
     (if low \<le> high
      then
        let mid = (low + high) div 2;
            comparison = dec_cmp (price (levels ! nat mid)) p;
            adjusted = (if descending then - comparison else comparison)
        in if adjusted = 0 then mid
           else if adjusted < 0 then find_loop levels p descending (mid + 1) high
           else find_loop levels p descending low (mid - 1)
      else - low - 1)"
  by pat_completeness auto
termination
  by (relation "measure (\<lambda>(levels, p, descending, low, high). nat (high - low + 1))") auto

declare find_loop.simps [simp del]

definition find_index :: "level list \<Rightarrow> decimal \<Rightarrow> bool \<Rightarrow> int" where
  "find_index levels p descending = find_loop levels p descending 0 (int (length levels) - 1)"

section \<open>Updates\<close>

definition apply_level :: "bool \<Rightarrow> level list \<Rightarrow> level \<Rightarrow> level list" where
  "apply_level descending levels l =
     (let index = find_index levels (price l) descending
      in if dec_isZero (quantity l)
         then if index \<ge> 0 then take (nat index) levels @ drop (nat index + 1) levels else levels
         else if index \<ge> 0 then levels[nat index := l]
         else let insertionPoint = nat (- index - 1)
              in take insertionPoint levels @ l # drop insertionPoint levels)"

fun apply_side :: "level list \<Rightarrow> raw_level list \<Rightarrow> bool \<Rightarrow> dec_error option \<times> level list" where
  "apply_side levels [] descending = (None, levels)"
| "apply_side levels (raw # updates) descending =
     (case to_level raw of
        Inl e \<Rightarrow> (Some e, levels)
      | Inr l \<Rightarrow> apply_side (apply_level descending levels l) updates descending)"

definition isSynced :: "order_book \<Rightarrow> bool" where
  "isSynced b \<longleftrightarrow> ob_synced b \<and> \<not> ob_desynced b"

definition getLastUpdateId :: "order_book \<Rightarrow> int option" where
  "getLastUpdateId b = ob_last b"

definition applySnapshot :: "order_book \<Rightarrow> snapshot_input \<Rightarrow> dec_error option \<times> order_book" where
  "applySnapshot b snapshot =
     (case to_levels (sn_bids snapshot) of
        Inl e \<Rightarrow> (Some e, b)
      | Inr bs \<Rightarrow>
          let b1 = b\<lparr>ob_bids := js_sort (\<lambda>x y. dec_cmp (price y) (price x))
                      (filter (\<lambda>l. dec_isPositive (quantity l)) bs)\<rparr>
          in case to_levels (sn_asks snapshot) of
               Inl e \<Rightarrow> (Some e, b1)
             | Inr as \<Rightarrow> (None, b1\<lparr>ob_asks := js_sort (\<lambda>x y. dec_cmp (price x) (price y))
                          (filter (\<lambda>l. dec_isPositive (quantity l)) as),
                        ob_last := Some (sn_lastUpdateId snapshot),
                        ob_desynced := False, ob_synced := True\<rparr>))"

definition applyDiff :: "order_book \<Rightarrow> diff_input \<Rightarrow> (dec_error + bool) \<times> order_book" where
  "applyDiff b diff =
     (if \<not> ob_synced b then (Inr False, b)
      else if d_pu diff \<noteq> None \<and> ob_last b \<noteq> None \<and> d_pu diff \<noteq> ob_last b
      then (Inr False, b\<lparr>ob_desynced := True\<rparr>)
      else if ob_last b \<noteq> None \<and> d_u diff \<le> the (ob_last b) then (Inr True, b)
      else if ob_last b \<noteq> None \<and> d_U diff > the (ob_last b) + 1
      then (Inr False, b\<lparr>ob_desynced := True\<rparr>)
      else
        let (e1, bids) = apply_side (ob_bids b) (d_bids diff) True
        in case e1 of
             Some e \<Rightarrow> (Inl e, b\<lparr>ob_bids := bids\<rparr>)
           | None \<Rightarrow>
               let (e2, asks) = apply_side (ob_asks b) (d_asks diff) False
               in case e2 of
                    Some e \<Rightarrow> (Inl e, b\<lparr>ob_bids := bids, ob_asks := asks\<rparr>)
                  | None \<Rightarrow> (Inr True, b\<lparr>ob_bids := bids, ob_asks := asks, ob_last := Some (d_u diff)\<rparr>))"

section \<open>Queries\<close>

definition show_level :: "level \<Rightarrow> book_level" where
  "show_level l = \<lparr>bl_price = dec_to_string (price l), bl_quantity = dec_to_string (quantity l)\<rparr>"

definition bestBid :: "order_book \<Rightarrow> book_level option" where
  "bestBid b = (case ob_bids b of [] \<Rightarrow> None | l # _ \<Rightarrow> Some (show_level l))"

definition bestAsk :: "order_book \<Rightarrow> book_level option" where
  "bestAsk b = (case ob_asks b of [] \<Rightarrow> None | l # _ \<Rightarrow> Some (show_level l))"

definition midPrice :: "order_book \<Rightarrow> dec_error + string option" where
  "midPrice b = (case (bestBid b, bestAsk b) of
     (Some bid, Some ask) \<Rightarrow>
       bindR (dec_from (SIn (bl_price bid))) (\<lambda>bp. bindR (dec_from (SIn (bl_price ask))) (\<lambda>ap.
         bindR (dec_from (NIn (Fin 2))) (\<lambda>two. mapR (Some \<circ> dec_to_string) (dec_div (dec_add bp ap) two))))
   | _ \<Rightarrow> Inr None)"

definition microprice :: "order_book \<Rightarrow> dec_error + string option" where
  "microprice b = (case (bestBid b, bestAsk b) of
     (Some bid, Some ask) \<Rightarrow>
       bindR (dec_from (SIn (bl_quantity bid))) (\<lambda>bidQty.
       bindR (dec_from (SIn (bl_quantity ask))) (\<lambda>askQty.
       let totalQty = dec_add bidQty askQty
       in if dec_isZero totalQty then midPrice b
          else bindR (dec_from (SIn (bl_price bid))) (\<lambda>bidPrice.
               bindR (dec_from (SIn (bl_price ask))) (\<lambda>askPrice.
                 mapR (Some \<circ> dec_to_string)
                   (dec_div (dec_add (dec_mul bidPrice askQty) (dec_mul askPrice bidQty)) totalQty)))))
   | _ \<Rightarrow> Inr None)"

definition getBids :: "order_book \<Rightarrow> nat \<Rightarrow> book_level list" where
  "getBids b limit = map show_level (take limit (ob_bids b))"

definition getAsks :: "order_book \<Rightarrow> nat \<Rightarrow> book_level list" where
  "getAsks b limit = map show_level (take limit (ob_asks b))"

datatype book_side = Bids | Asks

definition side_levels :: "order_book \<Rightarrow> book_side \<Rightarrow> level list" where
  "side_levels b s = (case s of Bids \<Rightarrow> ob_bids b | Asks \<Rightarrow> ob_asks b)"

fun depth_loop :: "(level \<Rightarrow> bool) \<Rightarrow> level list \<Rightarrow> decimal \<Rightarrow> decimal" where
  "depth_loop inRange [] acc = acc"
| "depth_loop inRange (l # ls) acc =
     (if inRange l then depth_loop inRange ls (dec_add acc (quantity l)) else acc)"

definition depthWithinPct :: "order_book \<Rightarrow> book_side \<Rightarrow> js_number \<Rightarrow> dec_error + string" where
  "depthWithinPct b s withinPct = bindR (midPrice b) (\<lambda>mid0. case mid0 of
     None \<Rightarrow> Inr ''0''
   | Some mid \<Rightarrow>
       bindR (dec_from (SIn mid)) (\<lambda>m.
       bindR (dec_from (NIn (jn_sub (Fin 1) (jn_div_fin withinPct 100)))) (\<lambda>f.
       let threshold = dec_mul m f
       in case s of
            Bids \<Rightarrow> Inr (dec_to_string (depth_loop (\<lambda>l. dec_gte (price l) threshold) (side_levels b s) dec_ZERO))
          | Asks \<Rightarrow>
              if side_levels b s = [] then Inr (dec_to_string dec_ZERO)
              else bindR (dec_from (NIn (jn_add (Fin 1) (jn_div_fin withinPct 100)))) (\<lambda>g.
                     Inr (dec_to_string (depth_loop (\<lambda>l. dec_lte (price l) (dec_mul m g)) (side_levels b s) dec_ZERO))))))"

fun notional_loop :: "level list \<Rightarrow> decimal \<Rightarrow> decimal \<Rightarrow> decimal \<times> decimal" where
  "notional_loop [] notional qty = (notional, qty)"
| "notional_loop (l # ls) notional qty =
     notional_loop ls (dec_add notional (dec_mul (price l) (quantity l))) (dec_add qty (quantity l))"

definition book_vwap :: "order_book \<Rightarrow> book_side \<Rightarrow> nat \<Rightarrow> dec_error + string option" where
  "book_vwap b s levels =
     (let book = take levels (side_levels b s)
      in if book = [] then Inr None
         else let (notional, qty) = notional_loop book dec_ZERO dec_ZERO
              in if dec_isZero qty then Inr None
                 else mapR (Some \<circ> dec_to_string) (dec_div notional qty))"

record book_metrics =
  m_bestBid :: "string option"
  m_bestAsk :: "string option"
  m_midPrice :: "string option"
  m_spread :: "string option"
  m_spreadBps :: "js_number option"
  m_microprice :: "string option"
  m_bidDepth :: string
  m_askDepth :: string
  m_imbalance :: "js_number option"
  m_levelCount :: "nat \<times> nat"
  m_lastUpdateId :: "int option"
  m_synced :: bool

definition spread_of :: "book_level option \<Rightarrow> book_level option \<Rightarrow> dec_error + string option" where
  "spread_of bid ask = (case (bid, ask) of
     (Some b, Some a) \<Rightarrow> bindR (dec_from (SIn (bl_price a))) (\<lambda>ap. bindR (dec_from (SIn (bl_price b))) (\<lambda>bp.
       Inr (Some (dec_to_string (dec_sub ap bp)))))
   | _ \<Rightarrow> Inr None)"

definition spread_bps :: "string option \<Rightarrow> string option \<Rightarrow> dec_error + js_number option" where
  "spread_bps spread mid = (case (spread, mid) of
     (Some s, Some m) \<Rightarrow> bindR (dec_from (SIn m)) (\<lambda>md.
       if \<not> dec_isPositive md then Inr None
       else bindR (dec_from (SIn s)) (\<lambda>sd. bindR (dec_div sd md) (\<lambda>q.
              Inr (Some (jn_mul (dec_to_number q) (Fin 10000))))))
   | _ \<Rightarrow> Inr None)"

definition imbalance_of :: "string \<Rightarrow> string \<Rightarrow> dec_error + js_number option" where
  "imbalance_of bidDepth askDepth =
     bindR (dec_from (SIn bidDepth)) (\<lambda>bd. bindR (dec_from (SIn askDepth)) (\<lambda>ad.
       let totalQty = dec_add bd ad
       in if dec_isZero totalQty then Inr None
          else bindR (dec_div (dec_sub bd ad) totalQty) (\<lambda>q. Inr (Some (dec_to_number q)))))"

definition metrics :: "order_book \<Rightarrow> js_number \<Rightarrow> dec_error + book_metrics" where
  "metrics b depthPct =
     (let bid = bestBid b; ask = bestAsk b
      in bindR (midPrice b) (\<lambda>mid.
         bindR (spread_of bid ask) (\<lambda>spread.
         bindR (spread_bps spread mid) (\<lambda>spreadBps.
         bindR (depthWithinPct b Bids depthPct) (\<lambda>bidDepth.
         bindR (depthWithinPct b Asks depthPct) (\<lambda>askDepth.
         bindR (imbalance_of bidDepth askDepth) (\<lambda>imbalance.
         bindR (microprice b) (\<lambda>micro.
           Inr \<lparr>m_bestBid = map_option bl_price bid, m_bestAsk = map_option bl_price ask,
                m_midPrice = mid, m_spread = spread, m_spreadBps = spreadBps, m_microprice = micro,
                m_bidDepth = bidDepth, m_askDepth = askDepth, m_imbalance = imbalance,
                m_levelCount = (length (ob_bids b), length (ob_asks b)),
                m_lastUpdateId = ob_last b, m_synced = isSynced b\<rparr>))))))))"

section \<open>The binary search\<close>

text \<open>\<open>ahead desc p q\<close>: a level of price \<open>p\<close> stands before one of price \<open>q\<close>.\<close>

definition ahead :: "bool \<Rightarrow> decimal \<Rightarrow> decimal \<Rightarrow> bool" where
  "ahead descending p q \<longleftrightarrow> (if descending then q < p else p < q)"

definition ordered_side :: "bool \<Rightarrow> level list \<Rightarrow> bool" where
  "ordered_side descending levels \<longleftrightarrow> sorted_wrt (ahead descending) (map price levels)"

lemma ahead_linear: "ahead d p q \<or> p = q \<or> ahead d q p"
  by (auto simp: ahead_def)

lemma ahead_irrefl [simp]: "\<not> ahead d p p"
  by (simp add: ahead_def)

lemma ahead_trans: "ahead d p q \<Longrightarrow> ahead d q r \<Longrightarrow> ahead d p r"
  by (auto simp: ahead_def split: if_splits)

lemma ahead_asym: "ahead d p q \<Longrightarrow> \<not> ahead d q p"
  by (auto simp: ahead_def split: if_splits)

lemma adjusted_cmp:
  defines "adj d p q \<equiv> (if d then - dec_cmp p q else dec_cmp p q)"
  shows "adj d p q = 0 \<longleftrightarrow> p = q" "adj d p q < 0 \<longleftrightarrow> ahead d p q"
  by (auto simp: adj_def ahead_def dec_cmp_cases)

definition search_spec :: "bool \<Rightarrow> level list \<Rightarrow> decimal \<Rightarrow> int \<Rightarrow> bool" where
  "search_spec d levels p r \<longleftrightarrow>
     (if 0 \<le> r then nat r < length levels \<and> price (levels ! nat r) = p
      else nat (- r - 1) \<le> length levels \<and>
        (\<forall>i < nat (- r - 1). ahead d (price (levels ! i)) p) \<and>
        (\<forall>i < length levels. nat (- r - 1) \<le> i \<longrightarrow> ahead d p (price (levels ! i))))"

lemma find_loop_spec:
  assumes "ordered_side d levels" "0 \<le> low" "low \<le> high + 1" "high < int (length levels)"
    and "\<forall>i. i < low \<and> 0 \<le> i \<longrightarrow> ahead d (price (levels ! nat i)) p"
    and "\<forall>i. high < i \<and> i < int (length levels) \<longrightarrow> ahead d p (price (levels ! nat i))"
  shows "search_spec d levels p (find_loop levels p d low high)"
  using assms
proof (induction levels p d low high rule: find_loop.induct)
  case (1 levels p d low high)
  show ?case
  proof (cases "low \<le> high")
    case False
    then have "low = high + 1" using "1.prems" by simp
    then have r: "find_loop levels p d low high = - low - 1"
      by (subst find_loop.simps) simp
    have "\<forall>i < nat low. ahead d (price (levels ! i)) p"
      using "1.prems"(5) by (metis nat_int of_nat_0_le_iff zless_nat_conj nat_less_iff of_nat_less_iff int_nat_eq)
    moreover have "ahead d p (price (levels ! i))" if "i < length levels" "nat low \<le> i" for i
      using "1.prems"(6) [rule_format, of "int i"] that \<open>low = high + 1\<close> by simp
    ultimately show ?thesis
      unfolding search_spec_def r using "1.prems"(2,4) \<open>low = high + 1\<close> by auto
  next
    case True
    define mid where "mid = (low + high) div 2"
    have mid: "low \<le> mid" "mid \<le> high" using True by (simp_all add: mid_def)
    then have inb: "nat mid < length levels" using "1.prems" by linarith
    have sorted: "ahead d (price (levels ! i)) (price (levels ! j))" if "i < j" "j < length levels" for i j
      using "1.prems"(1) that by (simp add: ordered_side_def sorted_wrt_iff_nth_less)
    let ?q = "price (levels ! nat mid)"
    let ?adj = "if d then - dec_cmp ?q p else dec_cmp ?q p"
    have unf: "find_loop levels p d low high =
        (if ?adj = 0 then mid else if ?adj < 0 then find_loop levels p d (mid + 1) high
         else find_loop levels p d low (mid - 1))"
      using True by (subst find_loop.simps) (simp add: Let_def mid_def)
    consider "?q = p" | "ahead d ?q p" | "ahead d p ?q" using ahead_linear by blast
    then show ?thesis
    proof cases
      case 1
      then show ?thesis using inb mid "1.prems"(2) by (simp add: unf adjusted_cmp search_spec_def)
    next
      case 2
      have "ahead d (price (levels ! nat i)) p" if "i < mid + 1" "0 \<le> i" for i
      proof (cases "i = mid")
        case False
        then have "nat i < nat mid" using that by linarith
        then show ?thesis using sorted [OF _ inb] 2 ahead_trans by blast
      qed (use 2 in simp)
      then have "search_spec d levels p (find_loop levels p d (mid + 1) high)"
        using "1.IH"(1) [OF True mid_def refl refl] 2 adjusted_cmp(1) [of d ?q p] adjusted_cmp(2) [of d ?q p]
          "1.prems" mid ahead_irrefl by (smt (verit))
      then show ?thesis using 2 adjusted_cmp [of d ?q p] unf by (smt (verit) ahead_irrefl)
    next
      case 3
      have "ahead d p (price (levels ! nat i))" if "mid - 1 < i" "i < int (length levels)" for i
      proof (cases "i = mid")
        case False
        then have "nat mid < nat i" "nat i < length levels" using that mid "1.prems"(2) by linarith+
        then show ?thesis using sorted 3 ahead_trans by blast
      qed (use 3 in simp)
      then have "search_spec d levels p (find_loop levels p d low (mid - 1))"
        using "1.IH"(2) [OF True mid_def refl refl] 3 adjusted_cmp(1) [of d ?q p] adjusted_cmp(2) [of d ?q p]
          "1.prems" mid ahead_irrefl ahead_asym by (smt (verit))
      then show ?thesis using 3 adjusted_cmp [of d ?q p] unf ahead_asym by (smt (verit) ahead_irrefl)
    qed
  qed
qed

lemma find_index_spec: "ordered_side d levels \<Longrightarrow> search_spec d levels p (find_index levels p d)"
  unfolding find_index_def by (rule find_loop_spec) auto

section \<open>A side as a price map\<close>

definition side_map :: "level list \<Rightarrow> decimal \<rightharpoonup> decimal" where
  "side_map levels = map_of (map (\<lambda>l. (price l, quantity l)) levels)"

definition side_upd :: "(decimal \<rightharpoonup> decimal) \<Rightarrow> level \<Rightarrow> (decimal \<rightharpoonup> decimal)" where
  "side_upd m l = m(price l := (if dec_isZero (quantity l) then None else Some (quantity l)))"

lemma side_map_Nil [simp]: "side_map [] = Map.empty"
  by (simp add: side_map_def)

lemma side_map_Cons [simp]: "side_map (l # ls) = (side_map ls)(price l \<mapsto> quantity l)"
  by (simp add: side_map_def)

lemma side_map_None [simp]: "side_map ls p = None \<longleftrightarrow> p \<notin> price ` set ls"
  by (simp add: side_map_def map_of_eq_None_iff image_image)

lemma side_map_append: "side_map (xs @ ys) = side_map ys ++ side_map xs"
  by (simp add: side_map_def)

lemma ordered_distinct: "ordered_side d levels \<Longrightarrow> distinct (map price levels)"
  unfolding ordered_side_def by (auto simp: distinct_conv_nth sorted_wrt_iff_nth_less nat_neq_iff) (metis ahead_irrefl)+

lemma ordered_side_append:
  "ordered_side d (xs @ ys) \<longleftrightarrow> ordered_side d xs \<and> ordered_side d ys \<and>
    (\<forall>x \<in> set xs. \<forall>y \<in> set ys. ahead d (price x) (price y))"
  by (auto simp: ordered_side_def sorted_wrt_append)

lemma ordered_side_Cons:
  "ordered_side d (x # ys) \<longleftrightarrow> ordered_side d ys \<and> (\<forall>y \<in> set ys. ahead d (price x) (price y))"
  by (auto simp: ordered_side_def)

lemma side_map_replace:
  assumes "distinct (map price (xs @ l # ys))" "price l' = price l"
  shows "side_map (xs @ l' # ys) = (side_map (xs @ l # ys))(price l \<mapsto> quantity l')"
    and "side_map (xs @ ys) = (side_map (xs @ l # ys))(price l := None)"
proof -
  show "side_map (xs @ l' # ys) = (side_map (xs @ l # ys))(price l \<mapsto> quantity l')"
    using assms by (induction xs) (auto simp: fun_upd_twist)
  show "side_map (xs @ ys) = (side_map (xs @ l # ys))(price l := None)"
    using assms(1)
  proof (induction xs)
    case Nil
    then have "side_map ys (price l) = None" by auto
    then show ?case by (auto simp: fun_eq_iff)
  next
    case (Cons x xs)
    then show ?case by (auto simp: fun_upd_twist)
  qed
qed

lemma side_map_insert:
  "price l \<notin> price ` set (xs @ ys) \<Longrightarrow> side_map (xs @ l # ys) = (side_map (xs @ ys))(price l \<mapsto> quantity l)"
  by (induction xs) (auto simp: fun_upd_twist)

lemma apply_level_cases:
  assumes "ordered_side d levels"
  obtains (found) xs l0 ys where "levels = xs @ l0 # ys" "price l0 = price l"
      "apply_level d levels l = (if dec_isZero (quantity l) then xs @ ys else xs @ l # ys)"
    | (absent) xs ys where "levels = xs @ ys"
      "\<forall>x \<in> set xs. ahead d (price x) (price l)" "\<forall>y \<in> set ys. ahead d (price l) (price y)"
      "apply_level d levels l = (if dec_isZero (quantity l) then levels else xs @ l # ys)"
proof -
  define r where "r = find_index levels (price l) d"
  have spec: "search_spec d levels (price l) r" unfolding r_def by (rule find_index_spec [OF assms])
  show thesis
  proof (cases "0 \<le> r")
    case True
    define i where "i = nat r"
    have i: "i < length levels" "price (levels ! i) = price l"
      using spec True by (simp_all add: search_spec_def i_def)
    have "apply_level d levels l = (if dec_isZero (quantity l) then take i levels @ drop (Suc i) levels
        else take i levels @ l # drop (Suc i) levels)"
      using True i(1) by (simp add: apply_level_def r_def [symmetric] Let_def i_def upd_conv_take_nth_drop)
    then show thesis by (rule found [OF id_take_nth_drop [OF i(1)] i(2)])
  next
    case False
    define i where "i = nat (- r - 1)"
    have i: "\<forall>j < i. ahead d (price (levels ! j)) (price l)"
      "\<forall>j < length levels. i \<le> j \<longrightarrow> ahead d (price l) (price (levels ! j))"
      using spec False by (simp_all add: search_spec_def i_def)
    show thesis
    proof (rule absent [of "take i levels" "drop i levels"])
      show "\<forall>x \<in> set (take i levels). ahead d (price x) (price l)"
        using i(1) by (auto simp: in_set_conv_nth)
      show "\<forall>y \<in> set (drop i levels). ahead d (price l) (price y)"
        using i(2) by (auto simp: in_set_conv_nth)
      show "apply_level d levels l = (if dec_isZero (quantity l) then levels
          else take i levels @ l # drop i levels)"
        using False by (simp add: apply_level_def r_def [symmetric] Let_def i_def)
    qed simp
  qed
qed

lemma apply_level_refines:
  assumes ord: "ordered_side d levels"
  shows "side_map (apply_level d levels l) = side_upd (side_map levels) l"
    and "ordered_side d (apply_level d levels l)"
proof -
  have "side_map (apply_level d levels l) = side_upd (side_map levels) l \<and> ordered_side d (apply_level d levels l)"
    using ord
  proof (cases rule: apply_level_cases [where l = l])
    case (found xs l0 ys)
    have dist: "distinct (map price (xs @ l0 # ys))" using ordered_distinct [OF ord] found(1) by simp
    have "ordered_side d (xs @ l # ys)" "ordered_side d (xs @ ys)"
      using ord found(1,2) by (auto simp: ordered_side_append ordered_side_Cons)
    then show ?thesis
      using side_map_replace [OF dist, of l] found by (simp add: side_upd_def)
  next
    case (absent xs ys)
    have new: "price l \<notin> price ` set (xs @ ys)"
      using absent(2,3) by (auto dest!: bspec)
    have "ordered_side d (xs @ l # ys)"
      using ord absent(1-3) by (auto simp: ordered_side_append ordered_side_Cons)
    then show ?thesis
      using side_map_insert [OF new] absent ord new by (auto simp: side_upd_def fun_eq_iff)
  qed
  then show "side_map (apply_level d levels l) = side_upd (side_map levels) l"
    and "ordered_side d (apply_level d levels l)" by simp_all
qed

text \<open>Whole sides: the update is the fold of the pointwise updates, for every prefix applied.\<close>

lemma apply_side_refines:
  assumes "ordered_side d levels" "to_levels raws = Inr ls"
  shows "\<exists>levels'. apply_side levels raws d = (None, levels') \<and> ordered_side d levels' \<and>
    side_map levels' = foldl side_upd (side_map levels) ls"
  using assms
proof (induction raws arbitrary: levels ls)
  case Nil
  then show ?case by simp
next
  case (Cons r raws)
  then obtain l ls' where l: "to_level r = Inr l" "to_levels raws = Inr ls'" "ls = l # ls'"
    by (auto simp: bindR_Inr_iff)
  show ?case
    using Cons.IH [OF apply_level_refines(2) [OF Cons.prems(1), of l] l(2)]
    by (simp add: l apply_level_refines(1) [OF Cons.prems(1)])
qed

lemma apply_side_ordered: "ordered_side d levels \<Longrightarrow> ordered_side d (snd (apply_side levels raws d))"
  by (induction raws arbitrary: levels) (auto split: sum.splits simp: apply_level_refines(2))

lemma apply_side_None: "apply_side levels raws d = (None, levels') \<Longrightarrow> \<exists>ls. to_levels raws = Inr ls"
  by (induction raws arbitrary: levels) (fastforce split: sum.splits)+

section \<open>Books\<close>

definition ordered_book :: "order_book \<Rightarrow> bool" where
  "ordered_book b \<longleftrightarrow> ordered_side True (ob_bids b) \<and> ordered_side False (ob_asks b)"

text \<open>A synced book knows its last id: every reachable book satisfies it.\<close>

definition book_ok :: "order_book \<Rightarrow> bool" where
  "book_ok b \<longleftrightarrow> (ob_synced b \<longrightarrow> ob_last b \<noteq> None)"

text \<open>The sequence check a diff passes when it is neither rejected nor stale.\<close>

definition in_sequence :: "int \<Rightarrow> diff_input \<Rightarrow> bool" where
  "in_sequence s d \<longleftrightarrow> (d_pu d = None \<or> d_pu d = Some s) \<and> s < d_u d \<and> d_U d \<le> s + 1"

definition is_gap :: "int \<Rightarrow> diff_input \<Rightarrow> bool" where
  "is_gap s d \<longleftrightarrow> (d_pu d \<noteq> None \<and> d_pu d \<noteq> Some s) \<or> (s < d_u d \<and> s + 1 < d_U d)"

lemma applySnapshot_None:
  assumes "applySnapshot b sn = (None, b')"
  obtains bs as where "to_levels (sn_bids sn) = Inr bs" "to_levels (sn_asks sn) = Inr as"
    "b' = b\<lparr>ob_bids := js_sort (\<lambda>x y. dec_cmp (price y) (price x)) (filter (\<lambda>l. dec_isPositive (quantity l)) bs),
      ob_asks := js_sort (\<lambda>x y. dec_cmp (price x) (price y)) (filter (\<lambda>l. dec_isPositive (quantity l)) as),
      ob_last := Some (sn_lastUpdateId sn), ob_desynced := False, ob_synced := True\<rparr>"
  using assms by (auto simp: applySnapshot_def Let_def split: sum.splits)

lemma applySnapshot_seed: "applySnapshot b sn = (None, b') \<Longrightarrow>
  ob_last b' = Some (sn_lastUpdateId sn) \<and> ob_synced b' \<and> \<not> ob_desynced b'"
  by (erule applySnapshot_None) simp

lemma applySnapshot_Some: "applySnapshot b sn = (Some e, b') \<Longrightarrow>
  ob_last b' = ob_last b \<and> ob_synced b' = ob_synced b \<and> ob_desynced b' = ob_desynced b"
  by (auto simp: applySnapshot_def Let_def split: sum.splits)

lemma applyDiff_unsynced: "\<not> ob_synced b \<Longrightarrow> applyDiff b d = (Inr False, b)"
  by (simp add: applyDiff_def)

lemma applyDiff_gap: "ob_synced b \<Longrightarrow> ob_last b = Some s \<Longrightarrow> is_gap s d \<Longrightarrow>
  applyDiff b d = (Inr False, b\<lparr>ob_desynced := True\<rparr>)"
  by (auto simp: applyDiff_def is_gap_def)

lemma applyDiff_stale: "ob_synced b \<Longrightarrow> ob_last b = Some s \<Longrightarrow> \<not> is_gap s d \<Longrightarrow> d_u d \<le> s \<Longrightarrow>
  applyDiff b d = (Inr True, b)"
  by (auto simp: applyDiff_def is_gap_def)

lemma in_sequence_iff: "\<not> is_gap s d \<and> s < d_u d \<longleftrightarrow> in_sequence s d"
  by (auto simp: is_gap_def in_sequence_def)

lemma applyDiff_applied:
  assumes "ob_synced b" "ob_last b = Some s" "in_sequence s d"
  shows "applyDiff b d =
     (let (e1, bids) = apply_side (ob_bids b) (d_bids d) True
        in case e1 of
             Some e \<Rightarrow> (Inl e, b\<lparr>ob_bids := bids\<rparr>)
           | None \<Rightarrow>
               let (e2, asks) = apply_side (ob_asks b) (d_asks d) False
               in case e2 of
                    Some e \<Rightarrow> (Inl e, b\<lparr>ob_bids := bids, ob_asks := asks\<rparr>)
                  | None \<Rightarrow> (Inr True, b\<lparr>ob_bids := bids, ob_asks := asks, ob_last := Some (d_u d)\<rparr>))"
  using assms by (auto simp: applyDiff_def in_sequence_def)

lemma applyDiff_cases:
  assumes "ob_synced b" "ob_last b = Some s"
  obtains "is_gap s d" | "\<not> is_gap s d" "d_u d \<le> s" | "in_sequence s d"
  using in_sequence_iff [of s d] by linarith

text \<open>The interface the lifecycle component relies on.\<close>

locale sequenced_book =
  fixes snap :: "'b \<Rightarrow> snapshot_input \<Rightarrow> dec_error option \<times> 'b"
    and diff :: "'b \<Rightarrow> diff_input \<Rightarrow> (dec_error + bool) \<times> 'b"
    and insync :: "'b \<Rightarrow> bool"
    and lastid :: "'b \<Rightarrow> int option"
    and ok :: "'b \<Rightarrow> bool"
  assumes snap_ok: "ok b \<Longrightarrow> ok (snd (snap b s))"
    and diff_ok: "ok b \<Longrightarrow> ok (snd (diff b d))"
    and insync_lastid: "ok b \<Longrightarrow> insync b \<Longrightarrow> lastid b \<noteq> None"
    and snap_insync: "fst (snap b s) = None \<Longrightarrow> insync (snd (snap b s)) \<and> lastid (snd (snap b s)) = Some (sn_lastUpdateId s)"
    and snap_failed: "fst (snap b s) \<noteq> None \<Longrightarrow> insync (snd (snap b s)) = insync b \<and> lastid (snd (snap b s)) = lastid b"
    and diff_false: "ok b \<Longrightarrow> fst (diff b d) = Inr False \<Longrightarrow> \<not> insync (snd (diff b d))"
    and diff_insync: "insync (snd (diff b d)) \<Longrightarrow> insync b"
    and diff_true: "fst (diff b d) = Inr True \<Longrightarrow> insync (snd (diff b d)) = insync b"
    and diff_lastid: "lastid b = Some n \<Longrightarrow> \<exists>n'. lastid (snd (diff b d)) = Some n' \<and> n \<le> n' \<and>
      (\<forall>i. n < i \<and> i \<le> n' \<longrightarrow> d_U d \<le> i \<and> i \<le> d_u d)"
begin

lemma run_ok: "ok b \<Longrightarrow> ok (foldl (\<lambda>b d. snd (diff b d)) b ds)"
  by (induction ds arbitrary: b) (simp_all add: diff_ok)

lemma run_insync: "insync (foldl (\<lambda>b d. snd (diff b d)) b ds) \<Longrightarrow> insync b"
  by (induction ds arbitrary: b) (auto dest: diff_insync)

lemma run_covered:
  assumes "lastid b = Some s"
  shows "\<exists>s'. lastid (foldl (\<lambda>b d. snd (diff b d)) b ds) = Some s' \<and> s \<le> s' \<and>
    (\<forall>i. s < i \<and> i \<le> s' \<longrightarrow> (\<exists>d \<in> set ds. d_U d \<le> i \<and> i \<le> d_u d))"
  using assms
proof (induction ds arbitrary: b s)
  case Nil
  then show ?case by auto
next
  case (Cons d ds)
  obtain s1 where s1: "lastid (snd (diff b d)) = Some s1" "s \<le> s1"
    and c1: "\<forall>i. s < i \<and> i \<le> s1 \<longrightarrow> d_U d \<le> i \<and> i \<le> d_u d"
    using diff_lastid [OF Cons.prems] by blast
  obtain s2 where s2: "lastid (foldl (\<lambda>b d. snd (diff b d)) (snd (diff b d)) ds) = Some s2" "s1 \<le> s2"
    and c2: "\<forall>i. s1 < i \<and> i \<le> s2 \<longrightarrow> (\<exists>d \<in> set ds. d_U d \<le> i \<and> i \<le> d_u d)"
    using Cons.IH [OF s1(1)] by blast
  have "\<exists>d' \<in> set (d # ds). d_U d' \<le> i \<and> i \<le> d_u d'" if "s < i" "i \<le> s2" for i
    using c1 c2 that by (cases "i \<le> s1") auto
  then show ?case using s1 s2 by auto
qed

end

lemma applyDiff_lastid:
  assumes "ob_last b = Some s"
  shows "\<exists>s'. ob_last (snd (applyDiff b d)) = Some s' \<and> s \<le> s' \<and>
      (\<forall>i. s < i \<and> i \<le> s' \<longrightarrow> d_U d \<le> i \<and> i \<le> d_u d)"
proof (cases "ob_synced b")
  case True
  then show ?thesis
    using assms
  proof (cases rule: applyDiff_cases [where d = d])
    case 3
    then show ?thesis
      using True assms by (auto simp: applyDiff_applied in_sequence_def Let_def split: prod.splits option.splits)
  qed (use True assms in \<open>simp_all add: applyDiff_gap applyDiff_stale\<close>)
qed (use assms in \<open>simp add: applyDiff_unsynced\<close>)

lemma applyDiff_flags:
  "ob_synced (snd (applyDiff b d)) = ob_synced b"
  "ob_desynced b \<Longrightarrow> ob_desynced (snd (applyDiff b d))"
  "fst (applyDiff b d) = Inr True \<Longrightarrow> ob_desynced (snd (applyDiff b d)) = ob_desynced b"
  "fst (applyDiff b d) = Inr False \<Longrightarrow> \<not> isSynced (snd (applyDiff b d))"
  by (auto simp: applyDiff_def Let_def isSynced_def split: prod.splits option.splits)

interpretation ob: sequenced_book applySnapshot applyDiff isSynced getLastUpdateId book_ok
proof unfold_locales
  fix b :: order_book and s :: snapshot_input and d :: diff_input
  show "book_ok (snd (applySnapshot b s))" if "book_ok b"
    using that applySnapshot_Some [of b s] by (cases "applySnapshot b s"; cases "fst (applySnapshot b s)")
       (auto simp: book_ok_def elim: applySnapshot_None)
  show "book_ok (snd (applyDiff b d))" if "book_ok b"
    using that applyDiff_lastid [of b _ d] by (auto simp: book_ok_def applyDiff_flags)
  show "isSynced (snd (applySnapshot b s)) \<and> getLastUpdateId (snd (applySnapshot b s)) = Some (sn_lastUpdateId s)"
    if "fst (applySnapshot b s) = None"
    using that by (cases "applySnapshot b s") (auto simp: isSynced_def getLastUpdateId_def elim: applySnapshot_None)
  show "isSynced (snd (applySnapshot b s)) = isSynced b \<and> getLastUpdateId (snd (applySnapshot b s)) = getLastUpdateId b"
    if "fst (applySnapshot b s) \<noteq> None"
    using that applySnapshot_Some [of b s] by (cases "applySnapshot b s") (auto simp: isSynced_def getLastUpdateId_def)
qed (use applyDiff_lastid applyDiff_flags in \<open>auto simp: isSynced_def book_ok_def getLastUpdateId_def\<close>)

section \<open>Snapshots and queries\<close>

lemma ordered_js_sort:
  assumes "distinct (map price ls)"
  shows "ordered_side True (js_sort (\<lambda>x y. dec_cmp (price y) (price x)) ls)"
    and "ordered_side False (js_sort (\<lambda>x y. dec_cmp (price x) (price y)) ls)"
  unfolding ordered_side_def
  by (rule js_sort_strict [OF _ _ _ assms];
      auto simp: ahead_def dec_cmp_cases transp_def not_less [symmetric] intro: antisym)+

lemma distinct_filter_map: "distinct (map f xs) \<Longrightarrow> distinct (map f (filter P xs))"
  by (induction xs) auto

lemma snapshot_ordered:
  assumes "applySnapshot b sn = (None, b')" "to_levels (sn_bids sn) = Inr bs" "to_levels (sn_asks sn) = Inr as"
    "distinct (map price bs)" "distinct (map price as)"
  shows "ordered_book b'"
  by (rule applySnapshot_None [OF assms(1)])
     (use assms in \<open>simp add: ordered_book_def ordered_js_sort distinct_filter_map\<close>)

lemma half_sum_between:
  fixes a b q :: int
  assumes "2 * \<bar>(a + b) * n - q * (2 * n)\<bar> \<le> 2 * n" "0 < n" "a \<le> b"
  shows "a \<le> q \<and> q \<le> b"
proof -
  have "(a + b) * n - q * (2 * n) = (a + b - 2 * q) * n" by (simp add: algebra_simps)
  then have "\<bar>a + b - 2 * q\<bar> * n \<le> 1 * n" using assms by (simp add: abs_mult)
  then have "\<bar>a + b - 2 * q\<bar> \<le> 1" using assms(2) mult_le_cancel_right_pos by blast
  then show ?thesis using assms(3) by linarith
qed

lemma midPrice_value:
  assumes "ob_bids b = l # bs" "ob_asks b = r # as"
  shows "\<exists>m. midPrice b = Inr (Some (dec_to_string m)) \<and>
    dec_div (dec_add (price l) (price r)) (Decimal (2 * SCALE_FACTOR)) = Inr m"
  using assms
  by (auto simp: midPrice_def bestBid_def bestAsk_def show_level_def dec_from_to_string
      jn_is_integer_def dec_div_value)

section \<open>Properties\<close>

text \<open>The binary search on a strictly sorted side. A price that is on the side is found at its
  index; for one that is not, the complement of the result is the unique place where a level of
  that price keeps the side sorted.\<close>
theorem find_index_correct:
  assumes "ordered_side d levels"
  shows "if p \<in> price ` set levels
    then 0 \<le> find_index levels p d \<and> nat (find_index levels p d) < length levels \<and>
      price (levels ! nat (find_index levels p d)) = p
    else find_index levels p d < 0 \<and> nat (- find_index levels p d - 1) \<le> length levels \<and>
      (\<forall>l \<in> set (take (nat (- find_index levels p d - 1)) levels). ahead d (price l) p) \<and>
      (\<forall>l \<in> set (drop (nat (- find_index levels p d - 1)) levels). ahead d p (price l))"
proof -
  define r where "r = find_index levels p d"
  have spec: "search_spec d levels p r" unfolding r_def by (rule find_index_spec [OF assms])
  show ?thesis
  proof (cases "0 \<le> r")
    case True
    with spec show ?thesis by (auto simp: search_spec_def r_def [symmetric])
  next
    case False
    define k where "k = nat (- r - 1)"
    have k: "k \<le> length levels" "\<forall>l \<in> set (take k levels). ahead d (price l) p"
      "\<forall>l \<in> set (drop k levels). ahead d p (price l)"
      using spec False by (auto simp: search_spec_def k_def in_set_conv_nth)
    have "set levels = set (take k levels) \<union> set (drop k levels)"
      by (metis append_take_drop_id set_append)
    then have "p \<notin> price ` set levels" using k(2,3) by (auto dest: bspec)
    then show ?thesis using False k by (simp add: r_def [symmetric] k_def)
  qed
qed

theorem find_index_correct_witness:
  "find_index [\<lparr>price = Decimal 3, quantity = Decimal 1\<rparr>, \<lparr>price = Decimal 1, quantity = Decimal 1\<rparr>]
     (Decimal 2) True = - 2 \<and>
   ordered_side True [\<lparr>price = Decimal 3, quantity = Decimal 1\<rparr>, \<lparr>price = Decimal 1, quantity = Decimal 1\<rparr>]"
proof -
  let ?ls = "[\<lparr>price = Decimal 3, quantity = Decimal 1\<rparr>, \<lparr>price = Decimal 1, quantity = Decimal 1\<rparr>]"
  have o: "ordered_side True ?ls" by (simp add: ordered_side_def ahead_def less_decimal_def)
  have "find_index ?ls (Decimal 2) True = - 2"
    by (simp add: find_index_def find_loop.simps dec_cmp_def Let_def)
  then show ?thesis using o find_index_correct [OF o, of "Decimal 2"] by simp
qed

text \<open>C2: applying a diff that is in sequence, to a sorted and synced book, updates exactly the
  prices the diff names, in its order: each becomes the quantity given, or disappears when the
  quantity is zero. The book stays sorted and its last id becomes the diff's final id.\<close>
theorem applyDiff_refines:
  assumes "ordered_book b" "ob_synced b" "ob_last b = Some s" "in_sequence s d"
    and "to_levels (d_bids d) = Inr bs" "to_levels (d_asks d) = Inr as"
  shows "\<exists>b'. applyDiff b d = (Inr True, b') \<and> ordered_book b' \<and> ob_last b' = Some (d_u d) \<and>
    side_map (ob_bids b') = foldl side_upd (side_map (ob_bids b)) bs \<and>
    side_map (ob_asks b') = foldl side_upd (side_map (ob_asks b)) as \<and> isSynced b' = isSynced b"
proof -
  obtain bids where bids: "apply_side (ob_bids b) (d_bids d) True = (None, bids)" "ordered_side True bids"
      "side_map bids = foldl side_upd (side_map (ob_bids b)) bs"
    using apply_side_refines [of True "ob_bids b"] assms by (auto simp: ordered_book_def)
  obtain asks where asks: "apply_side (ob_asks b) (d_asks d) False = (None, asks)" "ordered_side False asks"
      "side_map asks = foldl side_upd (side_map (ob_asks b)) as"
    using apply_side_refines [of False "ob_asks b"] assms by (auto simp: ordered_book_def)
  show ?thesis
    using bids asks by (simp add: applyDiff_applied [OF assms(2-4)] ordered_book_def isSynced_def)
qed

definition wit_level :: level where
  "wit_level = \<lparr>price = Decimal (100 * SCALE_FACTOR), quantity = Decimal SCALE_FACTOR\<rparr>"

definition wit_book :: order_book where
  "wit_book = (new_OrderBook ''BTCUSDT'')\<lparr>ob_bids := [wit_level], ob_last := Some 7, ob_synced := True\<rparr>"

definition wit_diff :: diff_input where
  "wit_diff = \<lparr>d_U = 8, d_u = 9, d_pu = Some 7,
     d_bids = [RObj (DIn (Decimal (100 * SCALE_FACTOR))) (DIn (Decimal 0))], d_asks = []\<rparr>"

lemma wit_book_facts:
  "ordered_book wit_book" "ob_synced wit_book" "ob_last wit_book = Some 7" "in_sequence 7 wit_diff"
  "to_levels (d_bids wit_diff) = Inr [\<lparr>price = Decimal (100 * SCALE_FACTOR), quantity = Decimal 0\<rparr>]"
  "to_levels (d_asks wit_diff) = Inr []"
  by (simp_all add: wit_book_def wit_diff_def wit_level_def new_OrderBook_def ordered_book_def
      ordered_side_def in_sequence_def to_level_def)

theorem applyDiff_refines_witness:
  "\<exists>b'. applyDiff wit_book wit_diff = (Inr True, b') \<and> ob_last b' = Some 9 \<and> side_map (ob_bids b') = Map.empty"
proof -
  have "foldl side_upd (side_map (ob_bids wit_book))
      [\<lparr>price = Decimal (100 * SCALE_FACTOR), quantity = Decimal 0\<rparr>] = Map.empty"
    by (simp add: wit_book_def wit_level_def side_upd_def dec_isZero_def)
  then show ?thesis
    using applyDiff_refines [OF wit_book_facts] by (auto simp: wit_diff_def)
qed

text \<open>C3: no update id is skipped. Whatever diffs are fed to a book, applied, stale, rejected or
  unparsable, every id between the starting and the final last id lies in one of them.\<close>
theorem no_update_skipped:
  assumes "ob_last b = Some s"
    and "ob_last (foldl (\<lambda>b d. snd (applyDiff b d)) b ds) = Some s'" "s < i" "i \<le> s'"
  shows "\<exists>d \<in> set ds. d_U d \<le> i \<and> i \<le> d_u d"
  using ob.run_covered [of b s ds] assms by (auto simp: getLastUpdateId_def)

theorem no_update_skipped_witness:
  "ob_last (foldl (\<lambda>b d. snd (applyDiff b d)) wit_book [wit_diff]) = Some 9 \<and> d_U wit_diff \<le> 8"
proof -
  have l: "ob_last (foldl (\<lambda>b d. snd (applyDiff b d)) wit_book [wit_diff]) = Some 9"
    unfolding foldl.simps applyDiff_applied [OF wit_book_facts(2-4)]
    by (simp add: wit_book_def wit_diff_def wit_level_def
        new_OrderBook_def to_level_def apply_level_def find_index_def find_loop.simps dec_cmp_def
        dec_isZero_def Let_def)
  show ?thesis using l no_update_skipped [OF wit_book_facts(3) l, of 8] by simp
qed

text \<open>Gap detection. A synced book refuses a diff exactly when its previous-id field differs
  from the last id or its first id leaves a hole; it then keeps every level and its last id, and is
  out of sync.\<close>
theorem gap_desyncs:
  assumes "ob_synced b" "ob_last b = Some s"
  shows "(fst (applyDiff b d) = Inr False \<longleftrightarrow> is_gap s d) \<and>
    (is_gap s d \<longrightarrow> snd (applyDiff b d) = b\<lparr>ob_desynced := True\<rparr> \<and> \<not> isSynced (snd (applyDiff b d)))"
  using assms
proof (cases rule: applyDiff_cases [where d = d])
  case 3
  then have "\<not> is_gap s d" by (auto simp: is_gap_def in_sequence_def)
  moreover have "fst (applyDiff b d) \<noteq> Inr False"
    using 3 by (auto simp: applyDiff_applied [OF assms] Let_def split: prod.splits option.splits)
  ultimately show ?thesis by simp
qed (simp_all add: applyDiff_gap [OF assms] applyDiff_stale [OF assms] isSynced_def)

theorem gap_desyncs_witness:
  "\<not> isSynced (snd (applyDiff wit_book (wit_diff\<lparr>d_U := 9\<rparr>)))"
proof -
  have "is_gap 7 (wit_diff\<lparr>d_U := 9\<rparr>)" by (simp add: is_gap_def wit_diff_def)
  then show ?thesis using gap_desyncs [OF wit_book_facts(2,3)] by blast
qed

text \<open>Seeding. After a REST snapshot that parses, the book is in sync at the snapshot's id, its
  sides are the snapshot's levels of positive quantity, and both are strictly sorted when the
  snapshot names each price once.\<close>
theorem snapshot_seeds:
  assumes "applySnapshot b sn = (None, b')"
    and "to_levels (sn_bids sn) = Inr bs" "to_levels (sn_asks sn) = Inr as"
    and "distinct (map price bs)" "distinct (map price as)"
  shows "isSynced b' \<and> ob_last b' = Some (sn_lastUpdateId sn) \<and> ordered_book b' \<and>
    set (ob_bids b') = {l \<in> set bs. 0 < scaled (quantity l)} \<and>
    set (ob_asks b') = {l \<in> set as. 0 < scaled (quantity l)}"
proof -
  note ord = snapshot_ordered [OF assms]
  show ?thesis
    by (rule applySnapshot_None [OF assms(1)])
       (use assms ord in \<open>auto simp: isSynced_def dec_isPositive_def\<close>)
qed

definition wit_snapshot :: snapshot_input where
  "wit_snapshot = \<lparr>sn_lastUpdateId = 5,
     sn_bids = [RTuple ''99'' ''1'', RTuple ''100'' ''2''], sn_asks = [RTuple ''101'' ''0.5'']\<rparr>"

lemma wit_snapshot_parse:
  "to_levels (sn_bids wit_snapshot) = Inr [\<lparr>price = Decimal (99 * SCALE_FACTOR), quantity = Decimal SCALE_FACTOR\<rparr>,
     \<lparr>price = Decimal (100 * SCALE_FACTOR), quantity = Decimal (2 * SCALE_FACTOR)\<rparr>]"
  "to_levels (sn_asks wit_snapshot) = Inr [\<lparr>price = Decimal (101 * SCALE_FACTOR), quantity = Decimal 500000000000000000\<rparr>]"
  using dec_parse_literal [of "''99''" "[]" False 0] dec_parse_literal [of "''100''" "[]" False 0]
    dec_parse_literal [of "''101''" "[]" False 0] dec_parse_literal [of "''1''" "[]" False 0]
    dec_parse_literal [of "''2''" "[]" False 0] dec_parse_literal [of "''0''" "''5''" False 0]
  by (simp_all add: wit_snapshot_def to_level_def literal_def is_digit_def digit_val_def shift10_def SCALE_FACTOR_eq)

theorem snapshot_seeds_witness:
  "\<exists>b'. applySnapshot (new_OrderBook ''BTCUSDT'') wit_snapshot = (None, b') \<and> isSynced b' \<and> ob_last b' = Some 5"
proof -
  obtain b' where b': "applySnapshot (new_OrderBook ''BTCUSDT'') wit_snapshot = (None, b')"
    by (simp add: applySnapshot_def wit_snapshot_parse Let_def)
  show ?thesis
    using snapshot_seeds [OF b' wit_snapshot_parse] b'
    by (simp add: wit_snapshot_def SCALE_FACTOR_eq)
qed

text \<open>The top of a sorted book is its best price on each side, and the printed mid price of
  a book that is not crossed lies between the two.\<close>
theorem top_of_book:
  assumes "ordered_book b" "ob_bids b = l # bs" "ob_asks b = r # as" "price l \<le> price r"
  shows "(\<forall>x \<in> set (ob_bids b). price x \<le> price l) \<and> (\<forall>x \<in> set (ob_asks b). price r \<le> price x) \<and>
    (\<exists>s m. midPrice b = Inr (Some s) \<and> dec_from (SIn s) = Inr m \<and> price l \<le> m \<and> m \<le> price r)"
proof -
  have best: "\<forall>x \<in> set (ob_bids b). price x \<le> price l" "\<forall>x \<in> set (ob_asks b). price r \<le> price x"
    using assms(1-3) by (auto simp: ordered_book_def ordered_side_Cons ahead_def)
  obtain m where m: "midPrice b = Inr (Some (dec_to_string m))"
      "dec_div (dec_add (price l) (price r)) (Decimal (2 * SCALE_FACTOR)) = Inr m"
    using midPrice_value [OF assms(2,3)] by blast
  have "\<bar>2 * SCALE_FACTOR\<bar> = 2 * SCALE_FACTOR" by (simp add: SCALE_FACTOR_eq)
  then have "scaled (price l) \<le> scaled m \<and> scaled m \<le> scaled (price r)"
    using dec_div_nearest [OF m(2)] assms(4)
    by (intro half_sum_between [where n = SCALE_FACTOR]) (simp_all add: dec_add_def less_eq_decimal_def)
  then show ?thesis
    using best m(1) dec_from_to_string [of m] by (auto simp: less_eq_decimal_def)
qed

definition wit_two_sided :: order_book where
  "wit_two_sided = wit_book\<lparr>ob_asks := [\<lparr>price = Decimal (101 * SCALE_FACTOR), quantity = Decimal 1\<rparr>]\<rparr>"

theorem top_of_book_witness:
  "\<exists>s m. midPrice wit_two_sided = Inr (Some s) \<and> dec_from (SIn s) = Inr m \<and>
    Decimal (100 * SCALE_FACTOR) \<le> m \<and> m \<le> Decimal (101 * SCALE_FACTOR)"
  using top_of_book [of wit_two_sided wit_level "[]" "\<lparr>price = Decimal (101 * SCALE_FACTOR), quantity = Decimal 1\<rparr>" "[]"]
  by (simp add: wit_two_sided_def wit_book_def wit_level_def ordered_book_def ordered_side_def
      less_eq_decimal_def SCALE_FACTOR_eq)

text \<open>On a futures stream, the first diff after a snapshot normally starts at or before the
  snapshot's id and ends after it, its previous-id field naming an older event. The book refuses
  that diff, although it brackets the snapshot, and falls out of sync.\<close>
theorem bracketing_diff_refused:
  assumes "applySnapshot b sn = (None, b')"
    and "d_U d \<le> sn_lastUpdateId sn" "sn_lastUpdateId sn \<le> d_u d"
    and "d_pu d = Some p" "p < sn_lastUpdateId sn"
  shows "fst (applyDiff b' d) = Inr False \<and> \<not> isSynced (snd (applyDiff b' d))"
proof -
  have "ob_synced b'" "ob_last b' = Some (sn_lastUpdateId sn)"
    by (rule applySnapshot_None [OF assms(1)], simp)+
  then show ?thesis
    using assms(4,5) by (simp add: applyDiff_gap is_gap_def isSynced_def)
qed

theorem bracketing_diff_refused_witness:
  "\<exists>b'. applySnapshot (new_OrderBook ''BTCUSDT'') wit_snapshot = (None, b') \<and>
    \<not> isSynced (snd (applyDiff b' (wit_diff\<lparr>d_U := 4, d_pu := Some 3\<rparr>)))"
proof -
  obtain b' where b': "applySnapshot (new_OrderBook ''BTCUSDT'') wit_snapshot = (None, b')"
    by (simp add: applySnapshot_def wit_snapshot_parse Let_def)
  show ?thesis
    using bracketing_diff_refused [OF b', of "wit_diff\<lparr>d_U := 4, d_pu := Some 3\<rparr>" 3] b'
    by (simp add: wit_snapshot_def wit_diff_def)
qed

end
