(* ===== verification/Managed_Book.thy ===== *)
theory Managed_Book
  imports Order_Book
begin

text \<open>
  \<open>src/state/platform/ManagedBook.ts\<close>: the sync lifecycle around one order book. The state is the
  book, the lifecycle state, and the diffs buffered while no usable snapshot is there. Every
  operation returns the error it throws, if any, the state it leaves and the events it emits, in
  order.
  Lemmas: the lifecycle invariant (a live book is in sync and buffers nothing, the buffer is
  capped, the sides are sorted), the legal state transitions and their events, and what a
  snapshot does with the buffered tail, the latter through the facts of the locale
  \<open>sequenced_book\<close>.
\<close>

section \<open>State\<close>

datatype mb_lifecycle = Syncing | Live | Desynced | Closed

record managed_book =
  mb_symbol :: string
  mb_book :: order_book
  mb_state :: mb_lifecycle
  mb_buffer :: "diff_input list"
  mb_max :: nat

datatype mb_event =
    EvSynced "int option" nat
  | EvResynced "int option" nat "string option"
  | EvDesync "int option" string
  | EvUpdate "int option" "string option" "string option"
  | EvClose

type_synonym mb_result = "dec_error option \<times> managed_book \<times> mb_event list"

definition new_ManagedBook :: "string \<Rightarrow> nat option \<Rightarrow> managed_book" where
  "new_ManagedBook symbol maxBufferedDiffs =
     (let sym = to_upper symbol
      in \<lparr>mb_symbol = sym, mb_book = new_OrderBook sym, mb_state = Syncing, mb_buffer = [],
          mb_max = (case maxBufferedDiffs of None \<Rightarrow> 2000 | Some n \<Rightarrow> n)\<rparr>)"

definition mb_isSynced :: "managed_book \<Rightarrow> bool" where
  "mb_isSynced mb \<longleftrightarrow> mb_state mb = Live"

section \<open>Operations\<close>

definition emitUpdate :: "managed_book \<Rightarrow> mb_event" where
  "emitUpdate mb = EvUpdate (getLastUpdateId (mb_book mb))
     (map_option bl_price (bestBid (mb_book mb))) (map_option bl_price (bestAsk (mb_book mb)))"

definition mb_close :: "managed_book \<Rightarrow> mb_result" where
  "mb_close mb = (if mb_state mb = Closed then (None, mb, [])
     else (None, mb\<lparr>mb_state := Closed, mb_buffer := []\<rparr>, [EvClose]))"

text \<open>The \<open>while\<close> loop that drops the oldest diffs over the cap.\<close>

fun shift_over :: "nat \<Rightarrow> 'a list \<Rightarrow> 'a list" where
  "shift_over n [] = []"
| "shift_over n (x # xs) = (if length (x # xs) > n then shift_over n xs else x # xs)"

definition buffer_push :: "nat \<Rightarrow> 'a list \<Rightarrow> 'a \<Rightarrow> 'a list" where
  "buffer_push n xs x = shift_over n (xs @ [x])"

definition applyLiveDiff :: "managed_book \<Rightarrow> diff_input \<Rightarrow> mb_result" where
  "applyLiveDiff mb diff =
     (let (r, book) = applyDiff (mb_book mb) diff; mb1 = mb\<lparr>mb_book := book\<rparr>
      in case r of
           Inl e \<Rightarrow> (Some e, mb1, [])
         | Inr applied \<Rightarrow>
             if \<not> applied
             then (None, mb1\<lparr>mb_state := Desynced\<rparr>, [EvDesync (getLastUpdateId book) ''sequence-gap''])
             else if mb_state mb1 = Desynced
             then let mb2 = mb1\<lparr>mb_state := Live\<rparr>
                  in (None, mb2, [EvResynced (getLastUpdateId book) 0 (Some ''sequence-restored''), emitUpdate mb2])
             else (None, mb1, [emitUpdate mb1]))"

definition receiveDiff :: "managed_book \<Rightarrow> diff_input \<Rightarrow> mb_result" where
  "receiveDiff mb diff =
     (if mb_state mb = Closed then (None, mb, [])
      else if \<not> isSynced (mb_book mb)
      then (None, mb\<lparr>mb_buffer := buffer_push (mb_max mb) (mb_buffer mb) diff\<rparr>, [])
      else applyLiveDiff mb diff)"

fun apply_buffered :: "order_book \<Rightarrow> int \<Rightarrow> diff_input list \<Rightarrow> nat \<Rightarrow> dec_error option \<times> order_book \<times> nat" where
  "apply_buffered b lastId [] n = (None, b, n)"
| "apply_buffered b lastId (d # ds) n =
     (if d_u d > lastId
      then case applyDiff b d of
             (Inl e, b') \<Rightarrow> (Some e, b', n)
           | (Inr _, b') \<Rightarrow> apply_buffered b' lastId ds (n + 1)
      else apply_buffered b lastId ds n)"

definition mb_applySnapshot :: "managed_book \<Rightarrow> snapshot_input \<Rightarrow> mb_result" where
  "mb_applySnapshot mb snapshot =
     (if mb_state mb = Closed then (None, mb, [])
      else
        let firstSnapshot = (mb_state mb = Syncing);
            (e, book) = applySnapshot (mb_book mb) snapshot
        in case e of
             Some err \<Rightarrow> (Some err, mb\<lparr>mb_book := book\<rparr>, [])
           | None \<Rightarrow>
               let (e2, book2, applied) = apply_buffered book (sn_lastUpdateId snapshot) (mb_buffer mb) 0;
                   mb1 = mb\<lparr>mb_book := book2, mb_buffer := []\<rparr>
               in case e2 of
                    Some err \<Rightarrow> (Some err, mb1, [])
                  | None \<Rightarrow>
                      if isSynced book2
                      then let mb2 = mb1\<lparr>mb_state := Live\<rparr>
                           in (None, mb2,
                               [if firstSnapshot then EvSynced (getLastUpdateId book2) applied
                                else EvResynced (getLastUpdateId book2) applied None, emitUpdate mb2])
                      else (None, mb1\<lparr>mb_state := Desynced\<rparr>,
                            [EvDesync (getLastUpdateId book2) ''snapshot-stream-race'']))"

definition markInterrupted :: "managed_book \<Rightarrow> string \<Rightarrow> mb_result" where
  "markInterrupted mb reason =
     (if mb_state mb \<noteq> Live then (None, mb, [])
      else (None, mb\<lparr>mb_state := Desynced\<rparr>, [EvDesync (getLastUpdateId (mb_book mb)) reason]))"

text \<open>\<open>waitForSync\<close>: what the promise does at once, and on each event while it is pending.\<close>

datatype sync_wait = WPending | WResolved | WRejected

definition waitForSync_start :: "managed_book \<Rightarrow> sync_wait" where
  "waitForSync_start mb = (if mb_state mb = Live then WResolved
     else if mb_state mb = Closed then WRejected else WPending)"

definition waitForSync_event :: "mb_lifecycle \<Rightarrow> mb_event \<Rightarrow> sync_wait \<Rightarrow> sync_wait" where
  "waitForSync_event st ev w = (case w of
     WPending \<Rightarrow>
       (case ev of
          EvSynced _ _ \<Rightarrow> if st = Live then WResolved else if st = Closed then WRejected else WPending
        | EvResynced _ _ _ \<Rightarrow> if st = Live then WResolved else if st = Closed then WRejected else WPending
        | EvClose \<Rightarrow> if st = Live then WResolved else if st = Closed then WRejected else WPending
        | _ \<Rightarrow> WPending)
   | _ \<Rightarrow> w)"

section \<open>Sequences of operations\<close>

datatype mb_op = ODiff diff_input | OSnapshot snapshot_input | OInterrupted string | OClose

fun mb_do :: "managed_book \<Rightarrow> mb_op \<Rightarrow> mb_result" where
  "mb_do mb (ODiff d) = receiveDiff mb d"
| "mb_do mb (OSnapshot s) = mb_applySnapshot mb s"
| "mb_do mb (OInterrupted r) = markInterrupted mb r"
| "mb_do mb OClose = mb_close mb"

definition mb_step :: "managed_book \<Rightarrow> mb_op \<Rightarrow> managed_book" where
  "mb_step mb oper = fst (snd (mb_do mb oper))"

lemmas mb_defs = receiveDiff_def applyLiveDiff_def mb_applySnapshot_def markInterrupted_def mb_close_def

section \<open>The buffer\<close>

lemma shift_over_drop: "shift_over n xs = drop (length xs - n) xs"
  by (induction xs) (auto simp: Suc_diff_le)

interpretation mbuf: capped_buffer n "buffer_push n"
  by unfold_locales (simp add: buffer_push_def shift_over_drop)

section \<open>The buffered tail\<close>

lemma apply_buffered_None:
  "apply_buffered b n ds k = (None, b', k') \<Longrightarrow>
    b' = foldl (\<lambda>b d. snd (applyDiff b d)) b (filter (\<lambda>d. n < d_u d) ds) \<and>
    k' = k + length (filter (\<lambda>d. n < d_u d) ds)"
proof (induction ds arbitrary: b k)
  case Nil
  then show ?case by simp
next
  case (Cons d ds)
  obtain r b1 where rb: "applyDiff b d = (r, b1)" by (cases "applyDiff b d")
  show ?case
    using Cons.prems Cons.IH [of b k] Cons.IH [of b1 "Suc k"] rb
    by (cases r) (auto split: if_splits)
qed

lemma apply_buffered_book:
  "\<exists>ds'. fst (snd (apply_buffered b n ds k)) = foldl (\<lambda>b d. snd (applyDiff b d)) b ds'"
proof (induction ds arbitrary: b k)
  case Nil
  then show ?case by (intro exI [of _ "[]"]) simp
next
  case (Cons d ds)
  show ?case
  proof (cases "d_u d > n")
    case False
    then show ?thesis using Cons by simp
  next
    case True
    obtain r b1 where rb: "applyDiff b d = (r, b1)" by (cases "applyDiff b d")
    show ?thesis
    proof (cases r)
      case (Inl e)
      with True rb show ?thesis by (intro exI [of _ "[d]"]) simp
    next
      case (Inr a)
      obtain ds' where "fst (snd (apply_buffered b1 n ds (k + 1))) = foldl (\<lambda>b d. snd (applyDiff b d)) b1 ds'"
        using Cons by blast
      with True rb Inr show ?thesis by (intro exI [of _ "d # ds'"]) simp
    qed
  qed
qed

section \<open>The lifecycle invariant\<close>

definition mb_inv :: "managed_book \<Rightarrow> bool" where
  "mb_inv mb \<longleftrightarrow> book_ok (mb_book mb) \<and> ordered_book (mb_book mb) \<and>
     (mb_state mb = Live \<longrightarrow> isSynced (mb_book mb)) \<and>
     (isSynced (mb_book mb) \<longrightarrow> mb_buffer mb = []) \<and>
     (mb_state mb = Closed \<longrightarrow> mb_buffer mb = []) \<and>
     length (mb_buffer mb) \<le> mb_max mb"

definition distinct_prices :: "raw_level list \<Rightarrow> bool" where
  "distinct_prices raws = (case to_levels raws of Inl _ \<Rightarrow> True | Inr ls \<Rightarrow> distinct (map price ls))"

fun op_ok :: "mb_op \<Rightarrow> bool" where
  "op_ok (OSnapshot s) = (distinct_prices (sn_bids s) \<and> distinct_prices (sn_asks s))"
| "op_ok _ = True"

lemma applyDiff_ordered: "ordered_book b \<Longrightarrow> ordered_book (snd (applyDiff b d))"
  using apply_side_ordered [of True "ob_bids b" "d_bids d"] apply_side_ordered [of False "ob_asks b" "d_asks d"]
  by (auto simp: applyDiff_def ordered_book_def Let_def split: prod.splits option.splits)

lemma run_ordered: "ordered_book b \<Longrightarrow> ordered_book (foldl (\<lambda>b d. snd (applyDiff b d)) b ds)"
  by (induction ds arbitrary: b) (simp_all add: applyDiff_ordered)

lemma applySnapshot_ordered:
  assumes "ordered_book b" "distinct_prices (sn_bids s)" "distinct_prices (sn_asks s)"
  shows "ordered_book (snd (applySnapshot b s))"
  using assms
  by (auto simp: applySnapshot_def distinct_prices_def ordered_book_def Let_def ordered_js_sort
      distinct_filter_map split: sum.splits)

lemma new_ManagedBook_inv: "mb_inv (new_ManagedBook nm m)"
  by (simp add: mb_inv_def new_ManagedBook_def new_OrderBook_def book_ok_def ordered_book_def
      ordered_side_def isSynced_def Let_def)

lemma applyLiveDiff_inv:
  assumes "mb_inv mb" "isSynced (mb_book mb)" "mb_state mb \<noteq> Closed"
  shows "mb_inv (fst (snd (applyLiveDiff mb d)))"
proof -
  obtain r b where rb: "applyDiff (mb_book mb) d = (r, b)" by (cases "applyDiff (mb_book mb) d")
  have b: "book_ok b" "ordered_book b"
    using assms(1) ob.diff_ok [of "mb_book mb" d] applyDiff_ordered [of "mb_book mb" d] rb
    by (simp_all add: mb_inv_def)
  have buf: "mb_buffer mb = []" using assms by (simp add: mb_inv_def)
  consider e where "r = Inl e" | "r = Inr False" | "r = Inr True"
    by (cases r) auto
  then show ?thesis
  proof cases
    case 1
    have "isSynced b"
      using assms(2) rb 1 applyDiff_flags(1) [of "mb_book mb" d]
      by (auto simp: applyDiff_def isSynced_def Let_def split: if_splits prod.splits option.splits)
    then show ?thesis using 1 b buf rb by (simp add: applyLiveDiff_def mb_inv_def)
  next
    case 2
    have "\<not> isSynced b" using ob.diff_false [of "mb_book mb" d] assms(1) rb 2 by (simp add: mb_inv_def)
    then show ?thesis using 2 b buf rb by (simp add: applyLiveDiff_def mb_inv_def)
  next
    case 3
    have "isSynced b" using ob.diff_true [of "mb_book mb" d] assms(2) rb 3 by simp
    then show ?thesis using 3 b buf rb assms(3) by (simp add: applyLiveDiff_def mb_inv_def Let_def)
  qed
qed

lemma receiveDiff_inv: "mb_inv mb \<Longrightarrow> mb_inv (fst (snd (receiveDiff mb d)))"
  by (cases "mb_state mb = Closed"; cases "isSynced (mb_book mb)")
     (simp_all add: receiveDiff_def applyLiveDiff_inv, auto simp: mb_inv_def mbuf.push_bounded)

lemma applySnapshot_inv:
  assumes "mb_inv mb" "distinct_prices (sn_bids s)" "distinct_prices (sn_asks s)"
  shows "mb_inv (fst (snd (mb_applySnapshot mb s)))"
proof (cases "mb_state mb = Closed")
  case True
  then show ?thesis using assms by (simp add: mb_applySnapshot_def)
next
  case False
  obtain e b where eb: "applySnapshot (mb_book mb) s = (e, b)" by (cases "applySnapshot (mb_book mb) s")
  have b: "book_ok b" "ordered_book b"
    using assms ob.snap_ok [of "mb_book mb" s] applySnapshot_ordered [of "mb_book mb" s] eb
    by (simp_all add: mb_inv_def)
  show ?thesis
  proof (cases e)
    case (Some err)
    then show ?thesis
      using assms(1) False eb b ob.snap_failed [of "mb_book mb" s]
      by (simp add: mb_applySnapshot_def mb_inv_def)
  next
    case None
    obtain e2 b2 k where ab: "apply_buffered b (sn_lastUpdateId s) (mb_buffer mb) 0 = (e2, b2, k)"
      by (cases "apply_buffered b (sn_lastUpdateId s) (mb_buffer mb) 0") auto
    have b2: "book_ok b2" "ordered_book b2"
      using apply_buffered_book [of b "sn_lastUpdateId s" "mb_buffer mb" 0] ab b ob.run_ok run_ordered by auto
    have live: "isSynced b2" if "mb_state mb = Live"
    proof -
      have "mb_buffer mb = []" using assms(1) that by (simp add: mb_inv_def)
      then have "b2 = b" using ab by simp
      then show ?thesis using ob.snap_insync [of "mb_book mb" s] eb None by simp
    qed
    show ?thesis
      using False eb ab None b2 live by (auto simp: mb_applySnapshot_def mb_inv_def Let_def split: option.splits)
  qed
qed

interpretation mbm: invariant_machine mb_step mb_inv op_ok
proof unfold_locales
  fix mb e
  assume "mb_inv mb" "op_ok e"
  then show "mb_inv (mb_step mb e)"
    by (cases e) (simp_all add: mb_step_def receiveDiff_inv applySnapshot_inv,
        auto simp: markInterrupted_def mb_close_def mb_inv_def)
qed

section \<open>Transitions\<close>

text \<open>The legal changes of lifecycle state: nothing returns to \<open>Syncing\<close>, nothing leaves \<open>Closed\<close>.\<close>

inductive mb_trans :: "mb_lifecycle \<Rightarrow> mb_lifecycle \<Rightarrow> bool" where
  trans_stay: "mb_trans s s"
| trans_seed: "mb_trans Syncing Live"
| trans_race: "mb_trans Syncing Desynced"
| trans_lose: "mb_trans Live Desynced"
| trans_recover: "mb_trans Desynced Live"
| trans_close: "mb_trans s Closed"

inductive_simps mb_trans_simps: "mb_trans s s'"
inductive_cases mb_trans_closedE: "mb_trans Closed s"
inductive_cases mb_trans_syncingE: "mb_trans s Syncing"

lemma mb_trans_closed: "mb_trans\<^sup>*\<^sup>* Closed s \<Longrightarrow> s = Closed"
  by (induction rule: rtranclp_induct) (auto elim: mb_trans_closedE)

lemma mb_trans_syncing: "mb_trans\<^sup>*\<^sup>* s Syncing \<Longrightarrow> s = Syncing"
  by (induction rule: converse_rtranclp_induct) (auto elim: mb_trans_syncingE)

definition announces :: "mb_lifecycle \<Rightarrow> mb_lifecycle \<Rightarrow> mb_event list \<Rightarrow> bool" where
  "announces s s' evs \<longleftrightarrow>
     (s \<noteq> s' \<longrightarrow> (case s' of
        Live \<Rightarrow> (\<exists>n k r. hd evs = EvSynced n k \<or> hd evs = EvResynced n k r) \<and> evs \<noteq> []
      | Desynced \<Rightarrow> (\<exists>n r. evs = [EvDesync n r])
      | Closed \<Rightarrow> evs = [EvClose]
      | Syncing \<Rightarrow> False))"

lemma applyLiveDiff_trans:
  assumes "applyLiveDiff mb d = (e, mb', evs)" "mb_state mb \<noteq> Closed"
  shows "mb_trans (mb_state mb) (mb_state mb') \<and> announces (mb_state mb) (mb_state mb') evs"
  using assms
  by (cases "mb_state mb")
     (auto simp: applyLiveDiff_def announces_def mb_trans_simps Let_def split: prod.splits sum.splits if_splits)

lemma receiveDiff_trans:
  assumes "receiveDiff mb d = (e, mb', evs)"
  shows "mb_trans (mb_state mb) (mb_state mb') \<and> announces (mb_state mb) (mb_state mb') evs"
  using assms applyLiveDiff_trans [of mb d e mb' evs]
  by (auto simp: receiveDiff_def announces_def mb_trans_simps split: if_splits)

lemma applySnapshot_trans:
  assumes "mb_applySnapshot mb s = (e, mb', evs)"
  shows "mb_trans (mb_state mb) (mb_state mb') \<and> announces (mb_state mb) (mb_state mb') evs"
  using assms
  by (cases "mb_state mb")
     (auto simp: mb_applySnapshot_def announces_def mb_trans_simps Let_def
       split: prod.splits option.splits if_splits)

lemma mb_do_trans:
  assumes "mb_do mb oper = (e, mb', evs)"
  shows "mb_trans (mb_state mb) (mb_state mb') \<and> announces (mb_state mb) (mb_state mb') evs"
proof (cases oper)
  case (ODiff d)
  then show ?thesis using assms receiveDiff_trans by simp
next
  case (OSnapshot s)
  then show ?thesis using assms applySnapshot_trans by simp
next
  case (OInterrupted r)
  then show ?thesis using assms by (auto simp: markInterrupted_def announces_def mb_trans_simps split: if_splits)
next
  case OClose
  then show ?thesis using assms by (auto simp: mb_close_def announces_def mb_trans_simps split: if_splits)
qed

lemma mb_step_trans: "mb_trans (mb_state mb) (mb_state (mb_step mb oper))"
  using mb_do_trans [of mb oper] by (cases "mb_do mb oper") (simp add: mb_step_def)

lemma run_trans: "mb_trans\<^sup>*\<^sup>* (mb_state mb) (mb_state (foldl mb_step mb ops))"
  by (induction ops arbitrary: mb) (auto intro: converse_rtranclp_into_rtranclp mb_step_trans)

lemma mb_step_closed: "mb_state mb = Closed \<Longrightarrow> mb_do mb oper = (None, mb, [])"
  by (cases oper) (simp_all add: mb_defs)

lemma run_closed: "mb_state mb = Closed \<Longrightarrow> foldl mb_step mb ops = mb"
  by (induction ops) (simp_all add: mb_step_def mb_step_closed)

lemma snapshot_replay:
  assumes "mb_state mb \<noteq> Closed" "mb_applySnapshot mb s = (None, mb', evs)"
  defines "tail \<equiv> filter (\<lambda>d. sn_lastUpdateId s < d_u d) (mb_buffer mb)"
  shows "mb_book mb' = foldl (\<lambda>b d. snd (applyDiff b d)) (snd (applySnapshot (mb_book mb) s)) tail \<and>
    mb_buffer mb' = [] \<and>
    mb_state mb' = (if isSynced (mb_book mb') then Live else Desynced) \<and>
    (\<exists>n. getLastUpdateId (mb_book mb') = Some n \<and> sn_lastUpdateId s \<le> n \<and>
      (\<forall>i. sn_lastUpdateId s < i \<and> i \<le> n \<longrightarrow> (\<exists>d \<in> set tail. d_U d \<le> i \<and> i \<le> d_u d)))"
proof -
  obtain b where b: "applySnapshot (mb_book mb) s = (None, b)"
    using assms(1,2) by (cases "applySnapshot (mb_book mb) s") (auto simp: mb_applySnapshot_def split: option.splits)
  obtain b2 k where b2: "apply_buffered b (sn_lastUpdateId s) (mb_buffer mb) 0 = (None, b2, k)"
    using assms(1,2) b
    by (cases "apply_buffered b (sn_lastUpdateId s) (mb_buffer mb) 0")
       (auto simp: mb_applySnapshot_def Let_def split: option.splits)
  have run: "b2 = foldl (\<lambda>b d. snd (applyDiff b d)) b tail"
    using apply_buffered_None [OF b2] tail_def by simp
  have "getLastUpdateId b = Some (sn_lastUpdateId s)"
    using applySnapshot_seed [OF b] by (simp add: getLastUpdateId_def)
  from ob.run_covered [OF this, of tail] show ?thesis
    using assms(1,2) b b2 run by (auto simp: mb_applySnapshot_def Let_def split: if_splits)
qed

section \<open>Properties\<close>

text \<open>C38: the lifecycle invariant. After any sequence of diffs, snapshots (without a repeated
  price on a side), interruptions and closes, a live managed book is in sync and buffers nothing,
  both sides are sorted by price, each price once, and the buffer is within its cap. (Nothing is stated of the quantities: the book stores what the exchange sends,
  except that zero removes the price.)\<close>

theorem managed_book_invariant:
  assumes "list_all op_ok ops" "mb = foldl mb_step (new_ManagedBook nm m) ops"
  shows "(mb_state mb = Live \<longrightarrow> isSynced (mb_book mb) \<and> mb_buffer mb = []) \<and>
    ordered_book (mb_book mb) \<and> length (mb_buffer mb) \<le> mb_max mb"
  using mbm.run_inv [OF new_ManagedBook_inv assms(1)] assms(2) by (auto simp: mb_inv_def)

text \<open>Recovery from a snapshot. A snapshot that goes through leaves the snapshot's book with
  exactly the buffered diffs that end after it replayed in order, empties the buffer, goes live if
  and only if that book is in sync, and no update id between the snapshot's and the last one is
  missing from the replayed diffs.\<close>
theorem snapshot_replays_buffer:
  assumes "mb_state mb \<noteq> Closed" "mb_applySnapshot mb s = (None, mb', evs)"
    and "tail = filter (\<lambda>d. sn_lastUpdateId s < d_u d) (mb_buffer mb)"
  shows "mb_book mb' = foldl (\<lambda>b d. snd (applyDiff b d)) (snd (applySnapshot (mb_book mb) s)) tail \<and>
    mb_buffer mb' = [] \<and>
    mb_state mb' = (if isSynced (mb_book mb') then Live else Desynced) \<and>
    (\<exists>n. getLastUpdateId (mb_book mb') = Some n \<and> sn_lastUpdateId s \<le> n \<and>
      (\<forall>i. sn_lastUpdateId s < i \<and> i \<le> n \<longrightarrow> (\<exists>d \<in> set tail. d_U d \<le> i \<and> i \<le> d_u d)))"
  using snapshot_replay [OF assms(1,2)] assms(3) by auto

text \<open>The state machine. Every operation makes a legal transition and announces a change of
  state as its first event; over any run a book never returns to \<open>Syncing\<close>, and a closed book
  stays as it is, silently.\<close>
theorem lifecycle_transitions:
  assumes "mb_do mb oper = (e, mb', evs)"
  shows "mb_trans (mb_state mb) (mb_state mb') \<and> announces (mb_state mb) (mb_state mb') evs \<and>
    (mb_state mb = Closed \<longrightarrow> mb' = mb \<and> evs = [] \<and> foldl mb_step mb ops = mb) \<and>
    (mb_state (foldl mb_step mb ops) = Syncing \<longrightarrow> mb_state mb = Syncing)"
  using mb_do_trans [OF assms] assms mb_step_closed [of mb oper] run_closed [of mb ops]
    mb_trans_syncing run_trans [of mb ops] by auto

theorem lifecycle_transitions_witness:
  "mb_trans Syncing Closed \<and> mb_do (new_ManagedBook ''BTCUSDT'' None) OClose
     = (None, (new_ManagedBook ''BTCUSDT'' None)\<lparr>mb_state := Closed\<rparr>, [EvClose])"
proof -
  have d: "mb_do (new_ManagedBook ''BTCUSDT'' None) OClose
     = (None, (new_ManagedBook ''BTCUSDT'' None)\<lparr>mb_state := Closed\<rparr>, [EvClose])"
    by (simp add: mb_close_def new_ManagedBook_def Let_def)
  show ?thesis using lifecycle_transitions [OF d, of "[]"] d by (simp add: new_ManagedBook_def Let_def)
qed

text \<open>An interrupted book is taken back to live by a spot diff that is merely stale. Such a
  diff, whose ids the book has all seen already, changes nothing and says nothing about the
  updates missed meanwhile; the book nevertheless announces its sequence restored.\<close>
theorem stale_diff_restores:
  assumes "mb_state mb = Live" "isSynced (mb_book mb)" "ob_last (mb_book mb) = Some n"
    and "d_pu d = None" "d_U d \<le> d_u d" "d_u d \<le> n"
  shows "mb_state (mb_step mb (OInterrupted r)) = Desynced \<and>
    mb_do (mb_step mb (OInterrupted r)) (ODiff d)
      = (None, mb, [EvResynced (Some n) 0 (Some ''sequence-restored''), emitUpdate mb])"
proof -
  have i: "mb_step mb (OInterrupted r) = mb\<lparr>mb_state := Desynced\<rparr>"
    using assms(1) by (simp add: mb_step_def markInterrupted_def)
  have a: "applyDiff (mb_book mb) d = (Inr True, mb_book mb)"
    using assms by (intro applyDiff_stale) (auto simp: isSynced_def is_gap_def)
  have "mb\<lparr>mb_state := Live\<rparr> = mb" using assms(1) by (metis managed_book.surjective managed_book.update_convs(3) managed_book.select_convs(3))
  then show ?thesis
    using i a assms(2,3) by (simp add: receiveDiff_def applyLiveDiff_def getLastUpdateId_def)
qed

definition wit_managed :: managed_book where
  "wit_managed = (new_ManagedBook ''BTCUSDT'' None)\<lparr>mb_book := wit_book, mb_state := Live\<rparr>"

definition wit_stale :: diff_input where
  "wit_stale = wit_diff\<lparr>d_U := 3, d_u := 4, d_pu := None\<rparr>"

theorem stale_diff_restores_witness:
  "mb_state (mb_step wit_managed (OInterrupted [])) = Desynced \<and>
    mb_state (foldl mb_step wit_managed [OInterrupted [], ODiff wit_stale]) = Live"
proof -
  have h: "mb_state wit_managed = Live" "isSynced (mb_book wit_managed)" "ob_last (mb_book wit_managed) = Some 7"
    "d_pu wit_stale = None" "d_U wit_stale \<le> d_u wit_stale" "d_u wit_stale \<le> 7"
    by (simp_all add: wit_managed_def wit_stale_def wit_diff_def wit_book_def new_OrderBook_def isSynced_def)
  show ?thesis
    using stale_diff_restores [OF h, of "[]"] h(1) by (simp add: mb_step_def)
qed

definition wit_buffered :: managed_book where
  "wit_buffered = (new_ManagedBook ''BTCUSDT'' None)\<lparr>mb_buffer := [wit_diff\<lparr>d_U := 4, d_u := 5, d_pu := None\<rparr>]\<rparr>"

theorem snapshot_replays_buffer_witness:
  "\<exists>mb' evs. mb_applySnapshot wit_buffered wit_snapshot = (None, mb', evs) \<and> mb_state mb' = Live \<and>
    getLastUpdateId (mb_book mb') = Some 5"
proof -
  obtain b where b: "applySnapshot (mb_book wit_buffered) wit_snapshot = (None, b)"
    by (simp add: applySnapshot_def wit_snapshot_parse Let_def)
  have s: "ob_synced b" "ob_last b = Some 5" "\<not> ob_desynced b"
    using applySnapshot_seed [OF b] by (simp_all add: wit_snapshot_def)
  obtain mb' evs where m: "mb_applySnapshot wit_buffered wit_snapshot = (None, mb', evs)"
    using b s by (simp add: mb_applySnapshot_def wit_buffered_def wit_snapshot_def wit_diff_def
        new_ManagedBook_def isSynced_def Let_def)
  have st: "mb_state wit_buffered \<noteq> Closed" by (simp add: wit_buffered_def new_ManagedBook_def Let_def)
  from snapshot_replays_buffer [OF st m refl] b m s
  show ?thesis by (simp add: wit_buffered_def wit_snapshot_def wit_diff_def isSynced_def getLastUpdateId_def)
qed

theorem managed_book_invariant_witness:
  "ordered_book (mb_book (foldl mb_step (new_ManagedBook ''BTCUSDT'' (Some 1)) [ODiff wit_diff, OSnapshot wit_snapshot]))"
proof -
  have "list_all op_ok [ODiff wit_diff, OSnapshot wit_snapshot]"
    by (simp add: distinct_prices_def wit_snapshot_parse SCALE_FACTOR_eq)
  from managed_book_invariant [OF this refl] show ?thesis by blast
qed

end
