(* ===== verification/Book_Engine.thy ===== *)
theory Book_Engine
  imports Managed_Book
begin

text \<open>
  \<open>src/state/platform/BookEngine.ts\<close>: the manager of the books of one product. The books are
  objects that pending promises and listeners hold on to, so they live in a store and the engine's
  map holds their addresses. What an \<open>await\<close> leaves behind is a pending task; an event of the
  environment (a call, a subscription that settles, a REST reply, a timer, a frame, an
  interruption) runs the code up to the next \<open>await\<close>. Promises that are already settled when
  they are awaited are continued at once.
  Lemmas: the engine invariant (one resync in flight per symbol, addresses valid, every book in
  its lifecycle invariant, by the facts of the \<open>invariant_machine\<close> interpretation \<open>mbm\<close>), frame
  routing, and the runs in which a book is never repaired or a subscription never released.
\<close>

section \<open>State\<close>

datatype be_product = Usdm | Spot

datatype be_task = TSubscribe string nat | TSnapshot string nat bool | TTimer string

datatype be_output =
    OutSubscribe be_product string
  | OutGet string string nat
  | OutBookSynced string "int option"
  | OutBookResynced string
  | OutResyncFailed string
  | OutEngineClosed
  | OutWatchReturned nat
  | OutWatchThrew
  | OutSubClosed nat

record book_engine =
  be_product :: be_product
  be_speed :: string
  be_limit :: nat
  be_maxDiffs :: "nat option"
  be_store :: "managed_book list"
  be_books :: "(string, nat) jsmap"
  be_subs :: "(string, nat) jsmap"
  be_resyncing :: "string set"
  be_closed :: bool
  be_tasks :: "be_task list"
  be_trace :: "be_output list"

record depth_frame =
  fr_e :: string
  fr_s :: "string option"
  fr_diff :: diff_input

definition new_BookEngine :: "be_product \<Rightarrow> string option \<Rightarrow> nat option \<Rightarrow> nat option \<Rightarrow> book_engine" where
  "new_BookEngine product speed limit maxDiffs =
     \<lparr>be_product = product, be_speed = (case speed of None \<Rightarrow> ''100ms'' | Some v \<Rightarrow> v),
      be_limit = (case limit of None \<Rightarrow> 1000 | Some n \<Rightarrow> n), be_maxDiffs = maxDiffs,
      be_store = [], be_books = [], be_subs = [], be_resyncing = {}, be_closed = False,
      be_tasks = [], be_trace = []\<rparr>"

definition out :: "be_output \<Rightarrow> book_engine \<Rightarrow> book_engine" where
  "out ev st = st\<lparr>be_trace := be_trace st @ [ev]\<rparr>"

definition spawn :: "be_task \<Rightarrow> book_engine \<Rightarrow> book_engine" where
  "spawn t st = st\<lparr>be_tasks := be_tasks st @ [t]\<rparr>"

section \<open>Operations\<close>

text \<open>\<open>scheduleResync\<close> up to its timer.\<close>

definition scheduleResync :: "string \<Rightarrow> book_engine \<Rightarrow> book_engine" where
  "scheduleResync symbol st =
     (if be_closed st \<or> symbol \<in> be_resyncing st then st
      else case jm_get symbol (be_books st) of
             None \<Rightarrow> st
           | Some i \<Rightarrow>
               if mb_state (be_store st ! i) = Closed \<or> mb_isSynced (be_store st ! i) then st
               else spawn (TTimer symbol) (st\<lparr>be_resyncing := insert symbol (be_resyncing st)\<rparr>))"

text \<open>An operation on a book, with the engine's listener on its \<open>desync\<close> event.\<close>

definition book_call :: "nat \<Rightarrow> mb_op \<Rightarrow> book_engine \<Rightarrow> dec_error option \<times> book_engine" where
  "book_call i oper st =
     (let (e, mb, evs) = mb_do (be_store st ! i) oper;
          st1 = st\<lparr>be_store := (be_store st)[i := mb]\<rparr>
      in (e, if \<exists>ev \<in> set evs. (case ev of EvDesync _ _ \<Rightarrow> True | _ \<Rightarrow> False)
             then scheduleResync (mb_symbol mb) st1 else st1))"

definition unwatch :: "string \<Rightarrow> book_engine \<Rightarrow> book_engine" where
  "unwatch symbol st =
     (let upper = to_upper symbol;
          st1 = (case jm_get upper (be_books st) of None \<Rightarrow> st | Some i \<Rightarrow> snd (book_call i OClose st));
          st2 = st1\<lparr>be_books := jm_del upper (be_books st1)\<rparr>;
          sub = jm_get upper (be_subs st2);
          st3 = st2\<lparr>be_subs := jm_del upper (be_subs st2)\<rparr>
      in case sub of None \<Rightarrow> st3 | Some s \<Rightarrow> out (OutSubClosed s) st3)"

definition getBook :: "string \<Rightarrow> book_engine \<Rightarrow> nat option" where
  "getBook symbol st = jm_get (to_upper symbol) (be_books st)"

definition symbols :: "book_engine \<Rightarrow> string list" where
  "symbols st = jm_keys (be_books st)"

definition snapshotHost :: "be_product \<Rightarrow> string" where
  "snapshotHost p = (case p of Usdm \<Rightarrow> ''fapi'' | Spot \<Rightarrow> ''spot'')"

definition stream_of :: "string \<Rightarrow> string \<Rightarrow> string" where
  "stream_of upper speed = to_lower upper @ ''@depth@'' @ speed"

text \<open>\<open>snapshot\<close> up to the request; \<open>False\<close> when it returns at once.\<close>

definition snapshot_start :: "string \<Rightarrow> bool \<Rightarrow> book_engine \<Rightarrow> bool \<times> book_engine" where
  "snapshot_start symbol resync st =
     (case jm_get symbol (be_books st) of
        None \<Rightarrow> (False, st)
      | Some i \<Rightarrow>
          if mb_state (be_store st ! i) = Closed then (False, st)
          else (True, spawn (TSnapshot symbol i resync)
                        (out (OutGet (snapshotHost (be_product st)) symbol (be_limit st)) st)))"

definition watch :: "string \<Rightarrow> book_engine \<Rightarrow> book_engine" where
  "watch symbol st =
     (let upper = to_upper symbol; existing = jm_get upper (be_books st)
      in if existing \<noteq> None \<and> mb_state (be_store st ! the existing) \<noteq> Closed
         then out (OutWatchReturned (the existing)) st
         else if be_closed st then out OutWatchThrew st
         else let i = length (be_store st)
              in spawn (TSubscribe upper i)
                   (out (OutSubscribe (be_product st) (stream_of upper (be_speed st)))
                     (st\<lparr>be_store := be_store st @ [new_ManagedBook upper (be_maxDiffs st)],
                         be_books := jm_set upper i (be_books st)\<rparr>)))"

definition watch_failed :: "string \<Rightarrow> book_engine \<Rightarrow> book_engine" where
  "watch_failed symbol st = out OutWatchThrew (unwatch symbol st)"

text \<open>\<open>watch\<close> from the answer of \<open>subscribe\<close> to its snapshot request.\<close>

definition watch_subscribed :: "string \<Rightarrow> nat \<Rightarrow> nat option \<Rightarrow> book_engine \<Rightarrow> book_engine" where
  "watch_subscribed symbol i answer st =
     (case answer of
        None \<Rightarrow> watch_failed symbol st
      | Some sub \<Rightarrow>
          let (waits, st1) = snapshot_start symbol False (st\<lparr>be_subs := jm_set symbol sub (be_subs st)\<rparr>)
          in if waits then st1 else out (OutWatchReturned i) st1)"

definition resync_done :: "string \<Rightarrow> book_engine \<Rightarrow> book_engine" where
  "resync_done symbol st = st\<lparr>be_resyncing := be_resyncing st - {symbol}\<rparr>"

text \<open>\<open>scheduleResync\<close> from its timer to its snapshot request.\<close>

definition resync_timer :: "string \<Rightarrow> book_engine \<Rightarrow> book_engine" where
  "resync_timer symbol st =
     (if be_closed st then resync_done symbol st
      else case jm_get symbol (be_books st) of
             None \<Rightarrow> resync_done symbol st
           | Some i \<Rightarrow>
               if mb_state (be_store st ! i) = Closed \<or> mb_isSynced (be_store st ! i)
               then resync_done symbol st
               else snd (snapshot_start symbol True st))"

text \<open>The reply to a snapshot request: \<open>snapshot\<close>, then the end of \<open>watch\<close> or of \<open>scheduleResync\<close>.\<close>

definition snapshot_reply :: "string \<Rightarrow> nat \<Rightarrow> bool \<Rightarrow> snapshot_input option \<Rightarrow> book_engine \<Rightarrow> book_engine" where
  "snapshot_reply symbol i resync reply st =
     (let failed = (\<lambda>s. if resync then resync_done symbol (out (OutResyncFailed symbol) s)
                        else watch_failed symbol s)
      in case reply of
           None \<Rightarrow> failed st
         | Some sn \<Rightarrow>
             let (e, st1) = book_call i (OSnapshot sn) st
             in case e of
                  Some _ \<Rightarrow> failed st1
                | None \<Rightarrow>
                    let st2 = out (OutBookSynced symbol (getLastUpdateId (mb_book (be_store st1 ! i)))) st1
                    in if resync then resync_done symbol (out (OutBookResynced symbol) st2)
                       else out (OutWatchReturned i) st2)"

definition onDepthFrame :: "depth_frame \<Rightarrow> book_engine \<Rightarrow> book_engine" where
  "onDepthFrame frame st =
     (if be_closed st \<or> fr_e frame \<noteq> ''depthUpdate'' then st
      else case jm_get (case fr_s frame of Some s \<Rightarrow> to_upper s | None \<Rightarrow> []) (be_books st) of
             None \<Rightarrow> st
           | Some i \<Rightarrow>
               if mb_state (be_store st ! i) = Closed then st
               else snd (book_call i (ODiff (fr_diff frame)) st))"

definition be_close :: "book_engine \<Rightarrow> book_engine" where
  "be_close st =
     (if be_closed st then st
      else let st1 = st\<lparr>be_closed := True\<rparr>;
               st2 = foldl (\<lambda>s i. snd (book_call i OClose s)) st1 (map snd (be_books st1));
               st3 = foldl (\<lambda>s sub. out (OutSubClosed sub) s) (st2\<lparr>be_books := []\<rparr>) (map snd (be_subs st2))
           in out OutEngineClosed (st3\<lparr>be_subs := []\<rparr>))"

section \<open>Events\<close>

datatype be_event =
    EWatch string
  | EUnwatch string
  | ECloseEngine
  | ESubscribed string nat "nat option"
  | EReply string nat bool "snapshot_input option"
  | ETimer string
  | EFrame depth_frame
  | EInterrupted nat string

definition finish :: "be_task \<Rightarrow> (book_engine \<Rightarrow> book_engine) \<Rightarrow> book_engine \<Rightarrow> book_engine" where
  "finish t f st = (if t \<in> set (be_tasks st) then f (st\<lparr>be_tasks := remove1 t (be_tasks st)\<rparr>) else st)"

fun be_step :: "book_engine \<Rightarrow> be_event \<Rightarrow> book_engine" where
  "be_step st (EWatch s) = watch s st"
| "be_step st (EUnwatch s) = unwatch s st"
| "be_step st ECloseEngine = be_close st"
| "be_step st (ESubscribed s i a) = finish (TSubscribe s i) (watch_subscribed s i a) st"
| "be_step st (EReply s i r a) = finish (TSnapshot s i r) (snapshot_reply s i r a) st"
| "be_step st (ETimer s) = finish (TTimer s) (resync_timer s) st"
| "be_step st (EFrame f) = onDepthFrame f st"
| "be_step st (EInterrupted i r) =
     (if i < length (be_store st) then snd (book_call i (OInterrupted r) st) else st)"

section \<open>Book operations inside the engine\<close>

lemma mb_do_symbol: "mb_do mb oper = (e, mb', evs) \<Longrightarrow> mb_symbol mb' = mb_symbol mb"
  by (cases oper)
     (auto simp: mb_defs Let_def split: if_splits prod.splits option.splits sum.splits)

lemma scheduleResync_frame [simp]:
  "be_store (scheduleResync s st) = be_store st"
  "be_books (scheduleResync s st) = be_books st"
  "be_subs (scheduleResync s st) = be_subs st"
  "be_closed (scheduleResync s st) = be_closed st"
  "be_trace (scheduleResync s st) = be_trace st"
  by (auto simp: scheduleResync_def spawn_def split: option.splits)

lemma book_call_frame [simp]:
  "be_store (snd (book_call i oper st)) = (be_store st)[i := mb_step (be_store st ! i) oper]"
  "be_books (snd (book_call i oper st)) = be_books st"
  "be_subs (snd (book_call i oper st)) = be_subs st"
  "be_closed (snd (book_call i oper st)) = be_closed st"
  "be_trace (snd (book_call i oper st)) = be_trace st"
  by (auto simp: book_call_def mb_step_def Let_def split: prod.splits)

section \<open>The engine invariant\<close>

definition resync_task :: "string \<Rightarrow> be_task \<Rightarrow> bool" where
  "resync_task s t = (case t of TTimer s' \<Rightarrow> s' = s | TSnapshot s' _ r \<Rightarrow> s' = s \<and> r | TSubscribe _ _ \<Rightarrow> False)"

definition resync_count :: "string \<Rightarrow> be_task list \<Rightarrow> nat" where
  "resync_count s ts = length (filter (resync_task s) ts)"

fun task_ok :: "managed_book list \<Rightarrow> be_task \<Rightarrow> bool" where
  "task_ok store (TSubscribe s i) = (i < length store \<and> mb_symbol (store ! i) = s)"
| "task_ok store (TSnapshot s i _) = (i < length store \<and> mb_symbol (store ! i) = s)"
| "task_ok store (TTimer s) = True"

definition store_ok :: "managed_book list \<Rightarrow> bool" where
  "store_ok store \<longleftrightarrow> (\<forall>mb \<in> set store. mb_inv mb \<and> to_upper (mb_symbol mb) = mb_symbol mb)"

text \<open>The map names existing books by their symbol, and every book that is not closed.\<close>

definition books_ok :: "managed_book list \<Rightarrow> (string, nat) jsmap \<Rightarrow> bool" where
  "books_ok store books \<longleftrightarrow> jm_ok books \<and>
     (\<forall>s i. jm_get s books = Some i \<longrightarrow> i < length store \<and> mb_symbol (store ! i) = s) \<and>
     (\<forall>j < length store. mb_state (store ! j) = Closed \<or> jm_get (mb_symbol (store ! j)) books = Some j)"

text \<open>The symbols in \<open>busy\<close> are those whose resync has just been taken from the pending tasks.\<close>

definition be_inv_busy :: "string set \<Rightarrow> book_engine \<Rightarrow> bool" where
  "be_inv_busy busy st \<longleftrightarrow>
     store_ok (be_store st) \<and> books_ok (be_store st) (be_books st) \<and>
     (\<forall>t \<in> set (be_tasks st). task_ok (be_store st) t) \<and>
     busy \<subseteq> be_resyncing st \<and>
     (\<forall>s. resync_count s (be_tasks st) = (if s \<in> be_resyncing st - busy then 1 else 0)) \<and>
     (be_closed st \<longrightarrow> be_books st = [])"

abbreviation be_inv :: "book_engine \<Rightarrow> bool" where
  "be_inv \<equiv> be_inv_busy {}"

fun event_ok :: "be_event \<Rightarrow> bool" where
  "event_ok (EReply _ _ _ (Some sn)) = op_ok (OSnapshot sn)"
| "event_ok _ = True"

lemma task_ok_append: "task_ok store t \<Longrightarrow> task_ok (store @ store') t"
  by (cases t) (auto simp: nth_append)

lemma resync_count_simps [simp]:
  "resync_count s [] = 0"
  "resync_count s (ts @ [t]) = resync_count s ts + (if resync_task s t then 1 else 0)"
  by (simp_all add: resync_count_def)

lemma resync_count_remove1:
  "t \<in> set ts \<Longrightarrow> resync_count s (remove1 t ts) = resync_count s ts - (if resync_task s t then 1 else 0)"
  by (simp add: resync_count_def filter_remove1 length_remove1)

lemma resync_task_simps [simp]:
  "resync_task s (TTimer s') = (s' = s)"
  "resync_task s (TSnapshot s' i r) = (s' = s \<and> r)"
  "resync_task s (TSubscribe s' i) = False"
  by (simp_all add: resync_task_def)

lemma store_ok_update:
  assumes "store_ok store" "i < length store" "op_ok oper"
  shows "store_ok (store[i := mb_step (store ! i) oper])"
proof -
  have o: "mb_inv (store ! i)" "to_upper (mb_symbol (store ! i)) = mb_symbol (store ! i)"
    using assms(1,2) by (auto simp: store_ok_def)
  have "mb_symbol (mb_step (store ! i) oper) = mb_symbol (store ! i)"
    using mb_do_symbol [of "store ! i" oper] by (cases "mb_do (store ! i) oper") (simp add: mb_step_def)
  then show ?thesis
    using assms o mbm.step_inv [OF o(1) assms(3)] set_update_subset_insert [of store i]
    by (fastforce simp: store_ok_def)
qed

lemma mb_symbol_update [simp]:
  "mb_symbol (store[i := mb_step (store ! i) oper] ! j) = mb_symbol (store ! j)"
proof (cases "i < length store \<and> i = j")
  case True
  then show ?thesis
    using mb_do_symbol [of "store ! i" oper] by (cases "mb_do (store ! i) oper") (simp add: mb_step_def)
next
  case False
  then show ?thesis by (cases "i < length store") (auto simp: list_update_beyond)
qed

lemma task_ok_update [simp]:
  "task_ok (store[i := mb_step (store ! i) oper]) t = task_ok store t"
  by (cases t) auto

lemma mb_state_update:
  "mb_state (store[i := mb_step (store ! i) oper] ! j) \<noteq> Closed \<Longrightarrow> mb_state (store ! j) \<noteq> Closed"
  using mb_step_closed [of "store ! i" oper]
  by (cases "i < length store"; cases "i = j") (auto simp: mb_step_def list_update_beyond)

lemma mb_step_close: "mb_state (mb_step mb OClose) = Closed"
  by (simp add: mb_step_def mb_close_def)

lemma books_ok_get: "books_ok store books \<Longrightarrow> jm_get s books = Some i \<Longrightarrow> i < length store \<and> mb_symbol (store ! i) = s"
  by (simp add: books_ok_def)

lemma books_ok_update: "books_ok store books \<Longrightarrow> books_ok (store[i := mb_step (store ! i) oper]) books"
  unfolding books_ok_def using mb_state_update [of store i oper] by (simp, blast)

lemma books_ok_del:
  assumes "books_ok store books" "\<And>i. jm_get s books = Some i \<Longrightarrow> mb_state (store ! i) = Closed"
  shows "books_ok store (jm_del s books)"
  using assms unfolding books_ok_def jm.get_del by (simp add: jm.ok_del, blast)

lemma books_ok_new:
  assumes "books_ok store books" "\<And>i. jm_get s books = Some i \<Longrightarrow> mb_state (store ! i) = Closed" "mb_symbol mb = s"
  shows "books_ok (store @ [mb]) (jm_set s (length store) books)"
proof -
  have "(if s' = s then Some (length store) else jm_get s' books) = Some i \<Longrightarrow>
      i < length (store @ [mb]) \<and> mb_symbol ((store @ [mb]) ! i) = s'" for s' i
    using books_ok_get [OF assms(1), of s' i] assms(3) by (auto simp: nth_append split: if_splits)
  moreover have "mb_state ((store @ [mb]) ! j) = Closed \<or>
      (if mb_symbol ((store @ [mb]) ! j) = s then Some (length store)
       else jm_get (mb_symbol ((store @ [mb]) ! j)) books) = Some j"
    if "j < length (store @ [mb])" for j
  proof (cases "j = length store")
    case True
    then show ?thesis using assms(3) by simp
  next
    case False
    then have j: "j < length store" "(store @ [mb]) ! j = store ! j" using that by (simp_all add: nth_append)
    then have "mb_state (store ! j) = Closed \<or> jm_get (mb_symbol (store ! j)) books = Some j"
      using assms(1) unfolding books_ok_def by blast
    then show ?thesis using assms(2) j(2) by auto
  qed
  moreover have "jm_ok (jm_set s (length store) books)" using assms(1) by (simp add: books_ok_def jm.ok_put)
  ultimately show ?thesis unfolding books_ok_def jm.get_put by blast
qed

lemma books_ok_empty: "(\<And>j. j < length store \<Longrightarrow> mb_state (store ! j) = Closed) \<Longrightarrow> books_ok store []"
  by (simp add: books_ok_def jm_get_def jm_ok_def)

lemma books_ok_open: "books_ok store books \<Longrightarrow> j < length store \<Longrightarrow> mb_state (store ! j) \<noteq> Closed \<Longrightarrow>
  jm_get (mb_symbol (store ! j)) books = Some j"
  unfolding books_ok_def by blast

lemma scheduleResync_inv: "be_inv_busy busy st \<Longrightarrow> be_inv_busy busy (scheduleResync s st)"
  by (auto simp: be_inv_busy_def scheduleResync_def spawn_def split: option.splits)

lemma book_call_inv:
  assumes "be_inv_busy busy st" "i < length (be_store st)" "op_ok oper"
  shows "be_inv_busy busy (snd (book_call i oper st))"
proof -
  obtain e mb evs where d: "mb_do (be_store st ! i) oper = (e, mb, evs)" by (cases "mb_do (be_store st ! i) oper")
  have mb: "mb = mb_step (be_store st ! i) oper" using d by (simp add: mb_step_def)
  have "be_inv_busy busy (st\<lparr>be_store := (be_store st)[i := mb]\<rparr>)"
    using assms store_ok_update [of "be_store st" i oper] unfolding mb
    by (auto simp: be_inv_busy_def books_ok_update)
  then show ?thesis using d by (simp add: book_call_def Let_def scheduleResync_inv)
qed

lemma trace_inv [simp]: "be_inv_busy busy (out x st) = be_inv_busy busy st"
  by (simp add: out_def be_inv_busy_def)

lemma subs_inv [simp]: "be_inv_busy busy (st\<lparr>be_subs := m\<rparr>) = be_inv_busy busy st"
  by (simp add: be_inv_busy_def)

lemma inv_book: "be_inv_busy busy st \<Longrightarrow> jm_get s (be_books st) = Some i \<Longrightarrow>
  i < length (be_store st) \<and> mb_symbol (be_store st ! i) = s"
  using books_ok_get by (auto simp: be_inv_busy_def)

lemma unwatch_inv: "be_inv_busy busy st \<Longrightarrow> be_inv_busy busy (unwatch s st)"
proof -
  assume inv: "be_inv_busy busy st"
  define st1 where "st1 = (case jm_get (to_upper s) (be_books st) of None \<Rightarrow> st
    | Some i \<Rightarrow> snd (book_call i OClose st))"
  have st1: "be_inv_busy busy st1"
    using inv book_call_inv [OF inv _, of _ OClose] inv_book [OF inv, of "to_upper s"]
    by (cases "jm_get (to_upper s) (be_books st)") (simp_all add: st1_def)
  have "be_books st1 = be_books st" by (simp add: st1_def split: option.splits)
  moreover have "mb_state (be_store st1 ! i) = Closed" if "jm_get (to_upper s) (be_books st) = Some i" for i
    using that inv_book [OF inv that] by (simp add: st1_def mb_step_close)
  ultimately have "be_inv_busy busy (st1\<lparr>be_books := jm_del (to_upper s) (be_books st1)\<rparr>)"
    using st1 by (auto simp: be_inv_busy_def intro!: books_ok_del)
  then show ?thesis
    by (auto simp: unwatch_def st1_def [symmetric] Let_def split: option.splits)
qed

lemma snapshot_start_inv:
  assumes inv: "be_inv_busy busy st" and "resync \<longrightarrow> s \<in> busy"
  shows "be_inv_busy (if resync \<and> fst (snapshot_start s resync st) then busy - {s} else busy)
           (snd (snapshot_start s resync st))"
proof (cases "jm_get s (be_books st)")
  case None
  then show ?thesis using inv by (simp add: snapshot_start_def)
next
  case (Some i)
  then show ?thesis
    using assms inv_book [OF inv Some]
    by (simp add: snapshot_start_def spawn_def out_def be_inv_busy_def) auto
qed

lemma resync_done_inv: "be_inv_busy busy st \<Longrightarrow> s \<in> busy \<Longrightarrow> be_inv_busy (busy - {s}) (resync_done s st)"
  by (auto simp: be_inv_busy_def resync_done_def)

lemma watch_inv:
  assumes inv: "be_inv_busy busy st"
  shows "be_inv_busy busy (watch s st)"
proof -
  let ?mb = "new_ManagedBook (to_upper s) (be_maxDiffs st)"
  have new: "mb_inv ?mb" "mb_symbol ?mb = to_upper s"
    by (rule new_ManagedBook_inv) (simp add: new_ManagedBook_def Let_def)
  have "be_inv_busy busy (spawn (TSubscribe (to_upper s) (length (be_store st)))
     (st\<lparr>be_store := be_store st @ [?mb], be_books := jm_set (to_upper s) (length (be_store st)) (be_books st)\<rparr>))"
    if "\<not> be_closed st" "\<And>i. jm_get (to_upper s) (be_books st) = Some i \<Longrightarrow> mb_state (be_store st ! i) = Closed"
    using that(1) inv new books_ok_new [where store = "be_store st" and books = "be_books st", OF _ that(2) new(2)]
    by (auto simp: spawn_def be_inv_busy_def store_ok_def nth_append task_ok_append)
  moreover have "spawn t (out x (st'::book_engine)) = out x (spawn t st')" for t x st'
    by (simp add: spawn_def out_def)
  ultimately show ?thesis
    using inv by (cases "jm_get (to_upper s) (be_books st)") (auto simp: watch_def Let_def)
qed

lemma snapshot_start_watch_inv:
  "be_inv_busy busy st \<Longrightarrow> be_inv_busy busy (snd (snapshot_start s False st))"
  using snapshot_start_inv [of busy st False s] by simp

lemma snapshot_reply_inv:
  assumes inv: "be_inv_busy (if r then {s} else {}) st" and i: "i < length (be_store st)"
    and ok: "\<And>sn. a = Some sn \<Longrightarrow> op_ok (OSnapshot sn)"
  shows "be_inv (snapshot_reply s i r a st)"
proof -
  have failed: "be_inv (if r then resync_done s (out (OutResyncFailed s) st') else watch_failed s st')"
    if "be_inv_busy (if r then {s} else {}) st'" for st'
    using that resync_done_inv [of "{s}" "out (OutResyncFailed s) st'" s] unwatch_inv
    by (auto simp: watch_failed_def split: if_splits)
  show ?thesis
  proof (cases a)
    case None
    then show ?thesis using failed [OF inv] by (simp add: snapshot_reply_def Let_def)
  next
    case (Some sn)
    obtain e st1 where c: "book_call i (OSnapshot sn) st = (e, st1)" by (cases "book_call i (OSnapshot sn) st")
    have "be_inv_busy (if r then {s} else {}) st1"
      using book_call_inv [OF inv i ok [OF Some]] c by simp
    then show ?thesis
      using Some c failed [of st1] resync_done_inv [of "{s}" _ s]
      by (cases e) (auto simp: snapshot_reply_def Let_def split: if_splits)
  qed
qed

lemma onDepthFrame_inv: "be_inv st \<Longrightarrow> be_inv (onDepthFrame f st)"
  using book_call_inv [of "{}" st _ "ODiff (fr_diff f)"] inv_book [of "{}" st]
  by (auto simp: onDepthFrame_def split: option.splits)

lemma close_books:
  assumes "be_inv (st\<lparr>be_closed := False\<rparr>)" "\<forall>i \<in> set is. i < length (be_store st)"
  shows "let st' = foldl (\<lambda>s i. snd (book_call i OClose s)) st is
    in be_inv (st'\<lparr>be_closed := False\<rparr>) \<and> be_books st' = be_books st \<and>
      length (be_store st') = length (be_store st) \<and>
      (\<forall>j. j \<in> set is \<or> mb_state (be_store st ! j) = Closed \<longrightarrow> mb_state (be_store st' ! j) = Closed)"
  using assms
proof (induction "is" arbitrary: st)
  case (Cons i "is")
  let ?st1 = "snd (book_call i OClose st)"
  have "book_call i OClose (st\<lparr>be_closed := False\<rparr>) = (fst (book_call i OClose st), ?st1\<lparr>be_closed := False\<rparr>)"
    by (auto simp: book_call_def mb_close_def Let_def)
  then have "be_inv (?st1\<lparr>be_closed := False\<rparr>)"
    using book_call_inv [OF Cons.prems(1), of i OClose] Cons.prems(2) by simp
  moreover have "mb_state (be_store ?st1 ! j) = Closed" if "j = i \<or> mb_state (be_store st ! j) = Closed" for j
    using that Cons.prems(2) mb_state_update [of "be_store st" i OClose j] by (auto simp: mb_step_close)
  ultimately show ?case using Cons.IH [of ?st1] Cons.prems by (auto simp: Let_def)
qed simp

lemma out_foldl: "foldl (\<lambda>s x. out (f x) s) st xs = st\<lparr>be_trace := be_trace st @ map f xs\<rparr>"
  by (induction xs arbitrary: st) (simp_all add: out_def)

lemma be_close_inv:
  assumes "be_inv st"
  shows "be_inv (be_close st)"
proof (cases "be_closed st")
  case True
  then show ?thesis using assms by (simp add: be_close_def)
next
  case False
  define st2 where "st2 = foldl (\<lambda>s i. snd (book_call i OClose s)) (st\<lparr>be_closed := True\<rparr>) (map snd (be_books st))"
  have lt: "\<forall>i \<in> set (map snd (be_books st)). i < length (be_store st)"
    using assms inv_book [OF assms] by (auto simp: be_inv_busy_def books_ok_def dest: jm_get_in)
  have inv': "be_inv (st\<lparr>be_closed := False\<rparr>)" using assms False by (simp add: be_inv_busy_def)
  have all2: "be_inv (st2\<lparr>be_closed := False\<rparr>) \<and> be_books st2 = be_books st \<and>
      length (be_store st2) = length (be_store st) \<and>
      (\<forall>j. j \<in> set (map snd (be_books st)) \<or> mb_state (be_store st ! j) = Closed \<longrightarrow> mb_state (be_store st2 ! j) = Closed)"
    using close_books [of "st\<lparr>be_closed := True\<rparr>" "map snd (be_books st)"] inv' lt
    by (simp add: Let_def st2_def del: set_map)
  then have st2: "be_inv (st2\<lparr>be_closed := False\<rparr>)" "length (be_store st2) = length (be_store st)"
    and closed: "\<And>j. j \<in> set (map snd (be_books st)) \<or> mb_state (be_store st ! j) = Closed \<Longrightarrow>
      mb_state (be_store st2 ! j) = Closed"
    by blast+
  have all: "mb_state (be_store st2 ! j) = Closed" if "j < length (be_store st2)" for j
  proof (cases "mb_state (be_store st ! j) = Closed")
    case False
    then have "jm_get (mb_symbol (be_store st ! j)) (be_books st) = Some j"
      using assms that st2(2) by (simp add: be_inv_busy_def books_ok_open)
    then have "j \<in> set (map snd (be_books st))" by (force simp: jm_get_def dest: map_of_SomeD)
    then show ?thesis using closed by blast
  qed (use closed in blast)
  have "be_inv (st2\<lparr>be_books := []\<rparr>)"
    using st2(1) all by (auto simp: be_inv_busy_def books_ok_empty)
  then show ?thesis
    using False by (simp add: be_close_def Let_def out_foldl st2_def [symmetric]) (simp add: be_inv_busy_def)
qed

lemma take_task:
  assumes "be_inv st" "t \<in> set (be_tasks st)"
  shows "be_inv_busy {s. resync_task s t} (st\<lparr>be_tasks := remove1 t (be_tasks st)\<rparr>) \<and> task_ok (be_store st) t"
proof -
  have one: "resync_task s t \<Longrightarrow> 0 < resync_count s (be_tasks st)" for s
    using assms(2) by (auto simp: resync_count_def length_greater_0_conv filter_empty_conv)
  then have "resync_task s t \<Longrightarrow> s \<in> be_resyncing st \<and> resync_count s (be_tasks st) = 1" for s
    using assms(1) by (fastforce simp: be_inv_busy_def split: if_splits)
  then show ?thesis
    using assms
    by (auto simp: be_inv_busy_def resync_count_remove1 dest: notin_set_remove1 set_remove1_subset [THEN subsetD])
qed

lemma finish_inv:
  assumes "be_inv st"
    and "\<And>st'. t \<in> set (be_tasks st) \<Longrightarrow> task_ok (be_store st') t \<Longrightarrow>
      be_inv_busy {s. resync_task s t} st' \<Longrightarrow> be_inv (f st')"
  shows "be_inv (finish t f st)"
  using take_task [OF assms(1), of t] assms by (simp add: finish_def)

lemma resync_timer_inv:
  assumes "be_inv_busy {s} st"
  shows "be_inv (resync_timer s st)"
  using assms resync_done_inv [OF assms, of s] snapshot_start_inv [OF assms, of True s]
  by (auto simp: resync_timer_def snapshot_start_def split: option.splits if_splits)

lemma watch_subscribed_inv: "be_inv st \<Longrightarrow> be_inv (watch_subscribed s i a st)"
  using snapshot_start_watch_inv [of "{}" "st\<lparr>be_subs := jm_set s (the a) (be_subs st)\<rparr>" s]
  by (auto simp: watch_subscribed_def watch_failed_def unwatch_inv split: option.splits prod.splits)

lemma be_step_inv: "be_inv st \<Longrightarrow> event_ok ev \<Longrightarrow> be_inv (be_step st ev)"
proof (cases ev)
  case (EReply s i r a)
  assume "be_inv st" "event_ok ev"
  then show ?thesis
    using EReply
    by (auto intro!: finish_inv snapshot_reply_inv split: option.splits if_splits)
qed (auto intro!: watch_inv unwatch_inv be_close_inv finish_inv watch_subscribed_inv resync_timer_inv
      onDepthFrame_inv book_call_inv)

interpretation bem: invariant_machine be_step be_inv event_ok
  by unfold_locales (rule be_step_inv)

lemma new_BookEngine_inv: "be_inv (new_BookEngine p v l m)"
  by (simp add: new_BookEngine_def be_inv_busy_def store_ok_def books_ok_def jm_ok_def jm_get_def)

section \<open>Books that nothing repairs\<close>

fun task_symbol :: "be_task \<Rightarrow> string" where
  "task_symbol (TSubscribe s _) = s"
| "task_symbol (TSnapshot s _ _) = s"
| "task_symbol (TTimer s) = s"

definition stuck :: "string \<Rightarrow> nat \<Rightarrow> book_engine \<Rightarrow> bool" where
  "stuck s i st \<longleftrightarrow> jm_get s (be_books st) = Some i \<and> mb_state (be_store st ! i) = Desynced \<and>
     \<not> isSynced (mb_book (be_store st ! i)) \<and> s \<notin> be_resyncing st \<and> s \<notin> task_symbol ` set (be_tasks st)"

definition leaves_open :: "string \<Rightarrow> be_event \<Rightarrow> bool" where
  "leaves_open s ev \<longleftrightarrow> event_ok ev \<and> ev \<noteq> ECloseEngine \<and> (\<forall>s'. ev = EUnwatch s' \<longrightarrow> to_upper s' \<noteq> s)"

lemma scheduleResync_stuck: "s' \<noteq> s \<Longrightarrow> stuck s i st \<Longrightarrow> stuck s i (scheduleResync s' st)"
  by (auto simp: stuck_def scheduleResync_def spawn_def split: option.splits)

lemma book_call_other_stuck:
  assumes "be_inv_busy busy st" "stuck s i st" "j < length (be_store st)" "mb_symbol (be_store st ! j) \<noteq> s"
  shows "stuck s i (snd (book_call j oper st))"
proof -
  have i: "mb_symbol (be_store st ! i) = s"
    using assms(2) inv_book [OF assms(1), of s i] by (simp add: stuck_def)
  then have ne: "i \<noteq> j" using assms(4) by auto
  obtain e mb evs where d: "mb_do (be_store st ! j) oper = (e, mb, evs)" by (cases "mb_do (be_store st ! j) oper")
  have "stuck s i (st\<lparr>be_store := (be_store st)[j := mb]\<rparr>)" using assms(2) ne by (simp add: stuck_def)
  then show ?thesis
    using d mb_do_symbol [OF d] assms(4) by (simp add: book_call_def Let_def scheduleResync_stuck)
qed

lemma book_call_stuck:
  assumes "stuck s i st" "i < length (be_store st)" "(\<exists>d. oper = ODiff d) \<or> (\<exists>r. oper = OInterrupted r)"
  shows "stuck s i (snd (book_call i oper st))"
  using assms
  by (auto simp: stuck_def book_call_def receiveDiff_def markInterrupted_def Let_def)

lemma out_stuck [simp]: "stuck s i (out x st) = stuck s i st"
  by (simp add: stuck_def out_def)

lemma subs_stuck [simp]: "stuck s i (st\<lparr>be_subs := m\<rparr>) = stuck s i st"
  by (simp add: stuck_def)

lemma resync_done_stuck: "stuck s i st \<Longrightarrow> stuck s i (resync_done s' st)"
  by (simp add: stuck_def resync_done_def)

lemma snapshot_start_stuck: "stuck s i st \<Longrightarrow> s' \<noteq> s \<Longrightarrow> stuck s i (snd (snapshot_start s' r st))"
  by (auto simp: stuck_def snapshot_start_def spawn_def out_def split: option.splits)

lemma unwatch_stuck:
  assumes "be_inv_busy busy st" "stuck s i st" "to_upper s' \<noteq> s"
  shows "stuck s i (unwatch s' st)"
proof -
  define st1 where "st1 = (case jm_get (to_upper s') (be_books st) of None \<Rightarrow> st
    | Some j \<Rightarrow> snd (book_call j OClose st))"
  have "stuck s i st1"
    using assms inv_book [OF assms(1), of "to_upper s'"] book_call_other_stuck [OF assms(1,2), of _ OClose]
    by (cases "jm_get (to_upper s') (be_books st)") (simp_all add: st1_def)
  then have "stuck s i (st1\<lparr>be_books := jm_del (to_upper s') (be_books st1)\<rparr>)"
    using assms(3) by (simp add: stuck_def jm.get_del)
  then show ?thesis
    by (auto simp: unwatch_def st1_def [symmetric] Let_def split: option.splits)
qed

lemma watch_stuck: "be_inv st \<Longrightarrow> stuck s i st \<Longrightarrow> stuck s i (watch s' st)"
  using inv_book [of "{}" st s i]
  by (auto simp: watch_def stuck_def Let_def out_def spawn_def jm.get_put nth_append)

lemma finish_stuck:
  assumes "be_inv st" "stuck s i st"
    and "\<And>st'. task_symbol t \<noteq> s \<Longrightarrow> be_inv_busy {x. resync_task x t} st' \<Longrightarrow> task_ok (be_store st') t \<Longrightarrow>
      stuck s i st' \<Longrightarrow> stuck s i (f st')"
  shows "stuck s i (finish t f st)"
proof (cases "t \<in> set (be_tasks st)")
  case True
  let ?st = "st\<lparr>be_tasks := remove1 t (be_tasks st)\<rparr>"
  have "stuck s i ?st" using assms(2) set_remove1_subset [of t "be_tasks st"] by (auto simp: stuck_def)
  moreover have "task_symbol t \<noteq> s" using assms(2) True by (auto simp: stuck_def)
  ultimately show ?thesis using True take_task [OF assms(1) True] assms(3) [of ?st] by (simp add: finish_def)
qed (simp add: finish_def assms(2))

lemma task_upper: "be_inv_busy busy st \<Longrightarrow> i < length (be_store st) \<Longrightarrow> mb_symbol (be_store st ! i) = s \<Longrightarrow> to_upper s = s"
  by (auto simp: be_inv_busy_def store_ok_def)

lemma watch_subscribed_stuck:
  assumes "be_inv_busy busy st" "stuck s i st" "s' \<noteq> s" "to_upper s' = s'"
  shows "stuck s i (watch_subscribed s' j a st)"
  using assms unwatch_stuck [OF assms(1,2), of s'] snapshot_start_stuck [of s i "st\<lparr>be_subs := jm_set s' (the a) (be_subs st)\<rparr>" s' False]
  by (auto simp: watch_subscribed_def watch_failed_def split: option.splits prod.splits)

lemma snapshot_reply_stuck:
  assumes inv: "be_inv_busy busy st" and st: "stuck s i st" and s: "s' \<noteq> s"
    and j: "j < length (be_store st)" "mb_symbol (be_store st ! j) = s'"
    and ok: "\<And>sn. a = Some sn \<Longrightarrow> op_ok (OSnapshot sn)"
  shows "stuck s i (snapshot_reply s' j r a st)"
proof -
  have up: "to_upper s' = s'" using task_upper [OF inv j] .
  have failed: "stuck s i (if r then resync_done s' (out (OutResyncFailed s') st') else watch_failed s' st')"
    if "be_inv_busy busy st'" "stuck s i st'" for st'
    using that s up unwatch_stuck [of busy st' s i s'] by (simp add: watch_failed_def resync_done_stuck)
  show ?thesis
  proof (cases a)
    case None
    then show ?thesis using failed [OF inv st] by (simp add: snapshot_reply_def Let_def)
  next
    case (Some sn)
    obtain e st1 where c: "book_call j (OSnapshot sn) st = (e, st1)" by (cases "book_call j (OSnapshot sn) st")
    have "be_inv_busy busy st1" "stuck s i st1"
      using book_call_inv [OF inv j(1) ok [OF Some]] book_call_other_stuck [OF inv st j(1), of "OSnapshot sn"] j(2) s c
      by simp_all
    then show ?thesis
      using Some c failed [of st1]
      by (cases e) (auto simp: snapshot_reply_def Let_def resync_done_stuck)
  qed
qed

lemma book_op_stuck:
  assumes "be_inv st" "stuck s i st" "j < length (be_store st)" "mb_state (be_store st ! j) \<noteq> Closed"
    and "(\<exists>d. oper = ODiff d) \<or> (\<exists>r. oper = OInterrupted r)"
  shows "stuck s i (snd (book_call j oper st))"
proof (cases "mb_symbol (be_store st ! j) = s")
  case True
  then have "i = j"
    using assms(1-4) books_ok_open [of "be_store st" "be_books st" j] by (simp add: be_inv_busy_def stuck_def)
  then show ?thesis using book_call_stuck assms by blast
qed (use assms book_call_other_stuck in blast)

lemma book_call_closed: "j < length (be_store st) \<Longrightarrow> mb_state (be_store st ! j) = Closed \<Longrightarrow> snd (book_call j oper st) = st"
  by (simp add: book_call_def mb_step_closed)

lemma be_step_stuck:
  assumes inv: "be_inv st" and st: "stuck s i st" and ok: "leaves_open s ev"
  shows "stuck s i (be_step st ev)"
proof (cases ev)
  case (ESubscribed s' j a)
  then show ?thesis
    using watch_subscribed_stuck task_upper by (auto intro!: finish_stuck [OF inv st])
next
  case (EReply s' j r a)
  then have "a = Some sn \<Longrightarrow> op_ok (OSnapshot sn)" for sn using ok by (simp add: leaves_open_def)
  then show ?thesis
    using EReply snapshot_reply_stuck by (auto intro!: finish_stuck [OF inv st])
next
  case (ETimer s')
  then show ?thesis
    using resync_done_stuck snapshot_start_stuck
    by (auto simp: resync_timer_def intro!: finish_stuck [OF inv st] split: option.splits)
next
  case (EFrame f)
  then show ?thesis
    using st inv_book [OF inv] book_op_stuck [OF inv st]
    by (auto simp: onDepthFrame_def split: option.splits)
next
  case (EInterrupted j r)
  then show ?thesis
    using st book_op_stuck [OF inv st, of j "OInterrupted r"] book_call_closed [of j st "OInterrupted r"]
    by (cases "mb_state (be_store st ! j) = Closed") auto
qed (use ok inv st in \<open>auto simp: leaves_open_def intro: watch_stuck unwatch_stuck\<close>)

interpretation stuckm: invariant_machine be_step "\<lambda>st. be_inv st \<and> stuck s i st" "leaves_open s" for s i
  by unfold_locales (auto simp: be_step_stuck leaves_open_def intro: be_step_inv)

section \<open>Properties\<close>

text \<open>At any point of any run, the engine has at most one resync of a symbol in flight,
  pending exactly while the symbol is marked; the map's entries are books of their symbol that
  satisfy the lifecycle invariant; every book that is not in the map is closed; and a closed
  engine has no books.\<close>
theorem engine_invariant:
  assumes "list_all event_ok es" "st = foldl be_step (new_BookEngine p v l m) es"
  shows "resync_count s (be_tasks st) = (if s \<in> be_resyncing st then 1 else 0) \<and>
    (jm_get s (be_books st) = Some i \<longrightarrow>
       i < length (be_store st) \<and> mb_symbol (be_store st ! i) = s \<and> mb_inv (be_store st ! i)) \<and>
    (i < length (be_store st) \<and> i \<notin> snd ` set (be_books st) \<longrightarrow> mb_state (be_store st ! i) = Closed) \<and>
    (be_closed st \<longrightarrow> symbols st = [])"
proof -
  have inv: "be_inv st" using bem.run_inv [OF new_BookEngine_inv assms(1)] assms(2) by simp
  have "i \<in> snd ` set (be_books st)" if "i < length (be_store st)" "mb_state (be_store st ! i) \<noteq> Closed"
    using books_ok_open [of "be_store st" "be_books st" i] that inv
    by (force simp: be_inv_busy_def jm_get_def dest: map_of_SomeD)
  then show ?thesis
    using inv inv_book [OF inv, of s i] by (auto simp: be_inv_busy_def store_ok_def symbols_def jm_keys_def)
qed

lemma onDepthFrame_call: "onDepthFrame f st = st \<or> (\<exists>j oper. onDepthFrame f st = snd (book_call j oper st))"
  unfolding onDepthFrame_def by (simp split: option.split) blast

lemma reply_failed_stuck:
  assumes "jm_get s (be_books st) = Some i" "mb_state (be_store st ! i) = Desynced"
    "\<not> isSynced (mb_book (be_store st ! i))" "s \<notin> task_symbol ` set (be_tasks st)"
  shows "stuck s i (snapshot_reply s i True None st)"
  using assms by (simp add: snapshot_reply_def stuck_def resync_done_def out_def)

lemma reply_raced_stuck:
  assumes "jm_get s (be_books st) = Some i" "i < length (be_store st)" "mb_symbol (be_store st ! i) = s"
    "s \<notin> task_symbol ` set (be_tasks st)" "s \<in> be_resyncing st" "mb_state (be_store st ! i) \<noteq> Closed"
    "mb_applySnapshot (be_store st ! i) sn = (None, mb, evs)" "mb_state mb = Desynced"
  shows "stuck s i (snapshot_reply s i True (Some sn) st)"
proof -
  have "\<not> isSynced (mb_book mb)"
    using snapshot_replay [OF assms(6,7)] assms(8) by (auto split: if_splits)
  moreover have "mb_symbol mb = s" using mb_do_symbol [of "be_store st ! i" "OSnapshot sn"] assms(3,7) by simp
  ultimately show ?thesis
    using assms(1,2,4,5,7,8)
    by (simp add: snapshot_reply_def book_call_def stuck_def resync_done_def out_def scheduleResync_def Let_def)
qed

text \<open>Repair is scheduled. When a frame or an interruption takes a live book out of sync, its
  symbol has exactly one resync in flight afterwards.\<close>
theorem gap_schedules_resync:
  assumes "be_inv st" "jm_get s (be_books st) = Some i" "mb_state (be_store st ! i) = Live"
    and "ev = EFrame f \<or> ev = EInterrupted i r"
    and "mb_state (be_store (be_step st ev) ! i) = Desynced"
  shows "s \<in> be_resyncing (be_step st ev) \<and> resync_count s (be_tasks (be_step st ev)) = 1"
proof -
  have inv': "be_inv (be_step st ev)" using assms(4) by (intro be_step_inv [OF assms(1)]) auto
  have i: "i < length (be_store st)" "mb_symbol (be_store st ! i) = s" using inv_book [OF assms(1,2)] by simp_all
  have open': "\<not> be_closed st" using assms(1,2) by (auto simp: be_inv_busy_def jm_get_def)
  have "be_step st (EInterrupted i r) = snd (book_call i (OInterrupted r) st)" using i by simp
  moreover have "be_step st (EFrame f) = onDepthFrame f st" by simp
  ultimately obtain j oper where j: "be_step st ev = snd (book_call j oper st) \<or> be_step st ev = st"
    using assms(4) onDepthFrame_call [of f st] by metis
  then have call: "be_step st ev = snd (book_call j oper st)" using assms(3,5) by auto
  then have ji: "j = i" using assms(3,5) by (cases "i = j") auto
  obtain e mb evs where d: "mb_do (be_store st ! i) oper = (e, mb, evs)" by (cases "mb_do (be_store st ! i) oper")
  have mb: "mb_state mb = Desynced" using assms(5) call ji d i by (simp add: mb_step_def)
  then obtain n q where "evs = [EvDesync n q]"
    using mb_do_trans [OF d] assms(3) by (auto simp: announces_def)
  then have "be_step st ev = scheduleResync s (st\<lparr>be_store := (be_store st)[i := mb]\<rparr>)"
    using call ji d mb_do_symbol [OF d] i by (simp add: book_call_def)
  then have "s \<in> be_resyncing (be_step st ev)"
    using open' assms(2) mb i by (simp add: scheduleResync_def spawn_def mb_isSynced_def)
  then show ?thesis using inv' by (simp add: be_inv_busy_def)
qed

text \<open>A resync that fails, or whose snapshot leaves the book out of step with the stream, is
  the last one. The desync the book then reports meets its own resync still in flight and is
  dropped; afterwards diffs are only buffered, so no run of frames, interruptions, replies, timers
  or further \<open>watch\<close> calls brings the book back, until it is unwatched or the engine closed.\<close>
theorem failed_resync_is_final:
  assumes "be_inv st" "TSnapshot s i True \<in> set (be_tasks st)" "jm_get s (be_books st) = Some i"
    and "mb_state (be_store st ! i) = Desynced" "\<not> isSynced (mb_book (be_store st ! i))"
    and "\<forall>t \<in> set (remove1 (TSnapshot s i True) (be_tasks st)). task_symbol t \<noteq> s"
    and "a = None \<or> (\<exists>sn mb evs. a = Some sn \<and> mb_applySnapshot (be_store st ! i) sn = (None, mb, evs) \<and> mb_state mb = Desynced)"
    and "list_all (leaves_open s) (EReply s i True a # es)"
    and "st' = foldl be_step st (EReply s i True a # es)"
  shows "getBook s st' = Some i \<and> mb_state (be_store st' ! i) = Desynced \<and>
    s \<notin> be_resyncing st' \<and> s \<notin> task_symbol ` set (be_tasks st')"
proof -
  let ?st0 = "st\<lparr>be_tasks := remove1 (TSnapshot s i True) (be_tasks st)\<rparr>"
  let ?st1 = "be_step st (EReply s i True a)"
  have i: "i < length (be_store st)" "mb_symbol (be_store st ! i) = s" using inv_book [OF assms(1,3)] by simp_all
  have busy: "s \<in> be_resyncing st" using take_task [OF assms(1,2)] by (auto simp: be_inv_busy_def)
  have step: "?st1 = snapshot_reply s i True a ?st0" using assms(2) by (simp add: finish_def)
  have quiet: "s \<notin> task_symbol ` set (be_tasks ?st0)" using assms(6) by auto
  have inv1: "be_inv ?st1"
    using assms(8) by (intro be_step_inv [OF assms(1)]) (simp add: leaves_open_def)
  have "stuck s i ?st1"
  proof (cases a)
    case None
    then show ?thesis using assms(3-5) quiet step reply_failed_stuck [of s ?st0 i] by auto
  next
    case (Some sn)
    obtain mb evs where "mb_applySnapshot (be_store st ! i) sn = (None, mb, evs)" "mb_state mb = Desynced"
      using assms(7) Some by auto
    then show ?thesis
      using Some assms(3,4) quiet i busy step reply_raced_stuck [of s ?st0 i sn mb evs] by auto
  qed
  then have "be_inv st' \<and> stuck s i st'"
    using stuckm.run_inv [of ?st1 s i es] inv1 assms(8,9) by simp
  then show ?thesis
    using task_upper inv_book [of "{}" st' s i] by (auto simp: stuck_def getBook_def)
qed

lemma close_books_frame:
  "let st' = foldl (\<lambda>s i. snd (book_call i OClose s)) st is
   in be_tasks st' = be_tasks st \<and> be_trace st' = be_trace st \<and> be_subs st' = be_subs st \<and>
      be_closed st' = be_closed st"
proof (induction "is" arbitrary: st)
  case (Cons i "is")
  have "be_tasks (snd (book_call i OClose st)) = be_tasks st"
    by (simp add: book_call_def mb_close_def Let_def)
  then show ?case using Cons.IH [of "snd (book_call i OClose st)"] by (simp add: Let_def)
qed (simp add: Let_def)

lemma be_close_frame:
  assumes "\<not> be_closed st"
  shows "be_closed (be_close st) \<and> be_books (be_close st) = [] \<and> be_subs (be_close st) = [] \<and>
    be_tasks (be_close st) = be_tasks st \<and>
    be_trace (be_close st) = be_trace st @ map (\<lambda>x. OutSubClosed (snd x)) (be_subs st) @ [OutEngineClosed]"
  using assms close_books_frame [of "st\<lparr>be_closed := True\<rparr>" "map snd (be_books st)"]
  by (simp add: be_close_def Let_def out_foldl) (simp add: out_def)

lemma be_close_again: "be_closed st \<Longrightarrow> foldl be_step st (replicate n ECloseEngine) = st"
  by (induction n) (simp_all add: be_close_def)

text \<open>A subscription that outlives its engine. When the engine is closed while the subscribe
  call of a \<open>watch\<close> is pending, the subscription that then arrives is registered, although the
  book is gone, and no further close releases it.\<close>
theorem late_subscription_leaks:
  assumes "be_inv st" "\<not> be_closed st" "TSubscribe s i \<in> set (be_tasks st)"
    and "st' = foldl be_step st ([ECloseEngine, ESubscribed s i (Some sub)] @ replicate n ECloseEngine)"
    and "OutSubClosed sub \<notin> set (be_trace st)" "sub \<notin> snd ` set (be_subs st)"
  shows "be_closed st' \<and> symbols st' = [] \<and> jm_get s (be_subs st') = Some sub \<and>
    OutSubClosed sub \<notin> set (be_trace st')"
proof -
  let ?st1 = "be_close st"
  let ?st2 = "be_step ?st1 (ESubscribed s i (Some sub))"
  have st1: "be_closed ?st1" "be_books ?st1 = []" "be_subs ?st1 = []" "TSubscribe s i \<in> set (be_tasks ?st1)"
    "be_trace ?st1 = be_trace st @ map (\<lambda>x. OutSubClosed (snd x)) (be_subs st) @ [OutEngineClosed]"
    using be_close_frame [OF assms(2)] assms(3) by simp_all
  have st2: "be_closed ?st2" "be_books ?st2 = []" "be_subs ?st2 = jm_set s sub []"
      "be_trace ?st2 = be_trace ?st1 @ [OutWatchReturned i]"
    using st1 by (simp_all add: finish_def watch_subscribed_def snapshot_start_def jm_get_def out_def)
  moreover have "st' = ?st2" using assms(4) be_close_again [OF st2(1), of n] by simp
  ultimately show ?thesis
    using assms(5,6) st1(5) by (auto simp: symbols_def jm_keys_def jm.get_put)
qed

definition wit_snap :: "int \<Rightarrow> snapshot_input" where
  "wit_snap n = \<lparr>sn_lastUpdateId = n, sn_bids = [], sn_asks = []\<rparr>"

definition wit_frame :: "int \<Rightarrow> int \<Rightarrow> depth_frame" where
  "wit_frame U u = \<lparr>fr_e = ''depthUpdate'', fr_s = Some ''BTCUSDT'',
     fr_diff = \<lparr>d_U = U, d_u = u, d_pu = None, d_bids = [], d_asks = []\<rparr>\<rparr>"

definition wit_events :: "be_event list" where
  "wit_events = [EWatch ''btcusdt'', ESubscribed ''BTCUSDT'' 0 (Some 1),
     EReply ''BTCUSDT'' 0 False (Some (wit_snap 5)), EFrame (wit_frame 10 11), ETimer ''BTCUSDT'']"

definition wit_engine :: book_engine where
  "wit_engine = foldl be_step (new_BookEngine Usdm None None None) wit_events"

lemma wit_engine_value:
  "jm_get ''BTCUSDT'' (be_books wit_engine) = Some 0 \<and> be_tasks wit_engine = [TSnapshot ''BTCUSDT'' 0 True] \<and>
    mb_state (be_store wit_engine ! 0) = Desynced \<and> \<not> isSynced (mb_book (be_store wit_engine ! 0)) \<and>
    length (be_store wit_engine) = 1 \<and> \<not> be_closed wit_engine"
  by code_simp

lemma wit_events_ok: "list_all event_ok wit_events"
  by (simp add: wit_events_def wit_snap_def distinct_prices_def)

lemma wit_engine_inv: "be_inv wit_engine"
  using bem.run_inv [OF new_BookEngine_inv wit_events_ok] by (simp add: wit_engine_def)

theorem engine_invariant_witness:
  "resync_count ''BTCUSDT'' (be_tasks wit_engine) = 1 \<and> ''BTCUSDT'' \<in> be_resyncing wit_engine"
  using engine_invariant [OF wit_events_ok refl, of "''BTCUSDT''" Usdm None None None 0]
  by (simp add: wit_engine_def [symmetric] wit_engine_value resync_count_def split: if_splits)

theorem failed_resync_is_final_witness:
  "mb_state (be_store (foldl be_step wit_engine
     [EReply ''BTCUSDT'' 0 True None, EWatch ''BTCUSDT'', EFrame (wit_frame 12 13)]) ! 0) = Desynced"
proof -
  have ok: "list_all (leaves_open ''BTCUSDT'') [EReply ''BTCUSDT'' 0 True None, EWatch ''BTCUSDT'', EFrame (wit_frame 12 13)]"
    by (simp add: leaves_open_def)
  show ?thesis
    using failed_resync_is_final [OF wit_engine_inv _ _ _ _ _ _ ok refl] by (simp add: wit_engine_value)
qed

definition wit_live :: book_engine where
  "wit_live = foldl be_step (new_BookEngine Usdm None None None) (take 3 wit_events)"

lemma wit_live_value:
  "jm_get ''BTCUSDT'' (be_books wit_live) = Some 0 \<and> mb_state (be_store wit_live ! 0) = Live \<and>
    mb_state (be_store (be_step wit_live (EFrame (wit_frame 10 11))) ! 0) = Desynced"
  by code_simp

theorem gap_schedules_resync_witness:
  "''BTCUSDT'' \<in> be_resyncing (be_step wit_live (EFrame (wit_frame 10 11)))"
proof -
  have "list_all event_ok (take 3 wit_events)" using wit_events_ok by (simp add: wit_events_def)
  then have inv: "be_inv wit_live" using bem.run_inv [OF new_BookEngine_inv] by (simp add: wit_live_def)
  show ?thesis
    using gap_schedules_resync [OF inv _ _ disjI1 [OF refl], of "''BTCUSDT''" 0 "wit_frame 10 11"] wit_live_value
    by blast
qed

theorem late_subscription_leaks_witness:
  "jm_get ''BTCUSDT'' (be_subs (foldl be_step (be_step (new_BookEngine Usdm None None None) (EWatch ''btcusdt''))
     [ECloseEngine, ESubscribed ''BTCUSDT'' 0 (Some 1)])) = Some 1"
proof -
  let ?st = "be_step (new_BookEngine Usdm None None None) (EWatch ''btcusdt'')"
  have inv: "be_inv ?st" by (rule be_step_inv [OF new_BookEngine_inv]) simp
  have "\<not> be_closed ?st \<and> be_tasks ?st = [TSubscribe ''BTCUSDT'' 0] \<and> be_subs ?st = [] \<and>
      be_trace ?st = [OutSubscribe Usdm ''btcusdt@depth@100ms'']"
    by code_simp
  then show ?thesis
    using late_subscription_leaks [OF inv, of "''BTCUSDT''" 0 _ 1 0] by simp
qed

end
