(* ===== verification/Order_Tracker.thy ===== *)
theory Order_Tracker
  imports Decimal_Value
begin

text \<open>
  The order and position feeds of \<open>src/execution/platform\<close>: the normalization of raw user-stream
  frames and REST order views (\<open>normalize.ts\<close>), the fold of an observation into an order record,
  the order tracker (\<open>OrderTracker.ts\<close>) and the position tracker (\<open>PositionTracker.ts\<close>), with
  the vocabulary of \<open>types.ts\<close>. The clock (\<open>Date.now()\<close>) is an argument. The trackers' maps are
  the insertion-ordered maps of the prelude and are reasoned about only through the interface
  \<open>ordered_map\<close>.
  Lemmas: what a fold does to each field over any run of observations, the tracker invariant (the
  cap, one entry per id, fills without a repeated trade id), the immutability of terminal
  records, and the two places where the fold loses information.
\<close>

section \<open>Vocabulary\<close>

definition isTerminalOrderStatus :: "string \<Rightarrow> bool" where
  "isTerminalOrderStatus status \<longleftrightarrow>
     status = ''FILLED'' \<or> status = ''CANCELED'' \<or> status = ''EXPIRED'' \<or> status = ''EXPIRED_IN_MATCH'' \<or>
     status = ''REJECTED'' \<or> status = ''PARTIALLY_CANCELED'' \<or> status = ''LIQUIDATED''"

record execution_fill =
  fill_price :: string
  fill_quantity :: string
  fill_commission :: "string option"
  fill_commissionAsset :: "string option"
  fill_tradeId :: "js_number option"

record order_record =
  or_clientOrderId :: string
  or_exchangeOrderId :: "js_number option"
  or_symbol :: string
  or_side :: string
  or_type :: string
  or_status :: string
  or_originalQuantity :: "string option"
  or_executedQuantity :: "string option"
  or_cumulativeQuote :: "string option"
  or_averagePrice :: "string option"
  or_fills :: "execution_fill list"
  or_positionSide :: "string option"
  or_reduceOnly :: "bool option"
  or_timeInForce :: "string option"
  or_firstSeenAt :: js_number
  or_updatedAt :: js_number

datatype update_source = UserStream | Rest

record order_update =
  ou_clientOrderId :: string
  ou_exchangeOrderId :: "js_number option"
  ou_symbol :: string
  ou_side :: string
  ou_type :: string
  ou_status :: string
  ou_originalQuantity :: "string option"
  ou_executedQuantity :: "string option"
  ou_cumulativeQuote :: "string option"
  ou_averagePrice :: "string option"
  ou_lastFill :: "execution_fill option"
  ou_positionSide :: "string option"
  ou_reduceOnly :: "bool option"
  ou_timeInForce :: "string option"
  ou_updateTime :: js_number
  ou_source :: update_source

record order_shape =
  os_orderId :: "js_number option"
  os_clientOrderId :: string
  os_symbol :: string
  os_side :: string
  os_type :: string
  os_status :: string
  os_executedQty :: "string option"
  os_cumQuote :: "string option"
  os_avgPrice :: "string option"
  os_updateTime :: js_number
  os_fills :: "execution_fill list"

record position_record =
  pr_symbol :: string
  pr_positionSide :: string
  pr_positionAmount :: string
  pr_entryPrice :: string
  pr_unrealizedPnl :: "string option"
  pr_marginType :: "string option"
  pr_isolatedWallet :: "string option"
  pr_breakEvenPrice :: "string option"
  pr_updatedAt :: js_number

section \<open>Normalization\<close>

text \<open>\<open>x || undefined\<close> on a string.\<close>

definition or_undef :: "string \<Rightarrow> string option" where
  "or_undef s = (if s = [] then None else Some s)"

text \<open>\<open>a ?? b\<close>\<close>

fun coalesce :: "'a option \<Rightarrow> 'a option \<Rightarrow> 'a option" where
  "coalesce (Some x) _ = Some x"
| "coalesce None y = y"

definition decOf :: "js_value \<Rightarrow> string option" where
  "decOf v = (case value_decimal v of None \<Rightarrow> None | Some x \<Rightarrow> map_option dec_to_string (okR (dec_from x)))"

definition dec_zero_str :: "string \<Rightarrow> bool" where
  "dec_zero_str s = (case dec_from (SIn s) of Inr d \<Rightarrow> dec_isZero d | Inl _ \<Rightarrow> False)"

definition nonZero :: "string option \<Rightarrow> string option" where
  "nonZero v = (case v of None \<Rightarrow> None
     | Some s \<Rightarrow> (case dec_from (SIn s) of Inr d \<Rightarrow> if dec_isZero d then None else Some s | Inl _ \<Rightarrow> None))"

definition nonempty_string :: "js_value \<Rightarrow> string option" where
  "nonempty_string v = (case v of JStr s \<Rightarrow> or_undef s | _ \<Rightarrow> None)"

definition js_bool_field :: "js_value \<Rightarrow> bool option" where
  "js_bool_field v = (case v of JBool b \<Rightarrow> Some b | _ \<Rightarrow> None)"

definition time_or :: "js_number \<Rightarrow> js_value \<Rightarrow> js_number" where
  "time_or now v = (case js_numOr v of Some t \<Rightarrow> t | None \<Rightarrow> now)"

text \<open>The fill a report carries: its last quantity is there and not zero.\<close>

definition last_fill :: "js_value \<Rightarrow> execution_fill option" where
  "last_fill o' =
     (case decOf (js_field ''l'' o') of
        None \<Rightarrow> None
      | Some q \<Rightarrow>
          if dec_zero_str q then None
          else Some \<lparr>fill_price = (case decOf (js_field ''L'' o') of Some p \<Rightarrow> p | None \<Rightarrow> ''0''),
                     fill_quantity = q,
                     fill_commission = nonZero (decOf (js_field ''n'' o')),
                     fill_commissionAsset = or_undef (js_str (js_field ''N'' o')),
                     fill_tradeId = js_numOr (js_field ''t'' o')\<rparr>)"

definition orderUpdateFromOrderTradeUpdate :: "js_number \<Rightarrow> js_value \<Rightarrow> order_update option" where
  "orderUpdateFromOrderTradeUpdate now raw =
     (let ord = js_field ''o'' raw
      in if \<not> js_is_object ord then None
         else case nonempty_string (js_field ''c'' ord) of
                None \<Rightarrow> None
              | Some clientOrderId \<Rightarrow> Some
                  \<lparr>ou_clientOrderId = clientOrderId,
                   ou_exchangeOrderId = js_numOr (js_field ''i'' ord),
                   ou_symbol = js_str (js_field ''s'' ord),
                   ou_side = js_str (js_field ''S'' ord),
                   ou_type = (if js_str (js_field ''ot'' ord) \<noteq> [] then js_str (js_field ''ot'' ord)
                              else js_str (js_field ''o'' ord)),
                   ou_status = js_str (js_field ''X'' ord),
                   ou_originalQuantity = decOf (js_field ''q'' ord),
                   ou_executedQuantity = decOf (js_field ''z'' ord),
                   ou_cumulativeQuote = None,
                   ou_averagePrice = nonZero (decOf (js_field ''ap'' ord)),
                   ou_lastFill = last_fill ord,
                   ou_positionSide = or_undef (js_str (js_field ''ps'' ord)),
                   ou_reduceOnly = js_bool_field (js_field ''R'' ord),
                   ou_timeInForce = or_undef (js_str (js_field ''f'' ord)),
                   ou_updateTime = time_or now (js_field ''T'' ord),
                   ou_source = UserStream\<rparr>)"

text \<open>Both arguments come from \<open>decOf\<close>, so parsing them again cannot fail.\<close>

definition spot_average :: "string option \<Rightarrow> string option \<Rightarrow> string option" where
  "spot_average executedQty cumQuote =
     (case (executedQty, cumQuote) of
        (Some q, Some c) \<Rightarrow>
          if dec_zero_str q then None
          else okR (bindR (dec_from (SIn c)) (\<lambda>cd. bindR (dec_from (SIn q)) (\<lambda>qd.
                 mapR dec_to_string (dec_div cd qd))))
      | _ \<Rightarrow> None)"

definition orderUpdateFromSpotExecutionReport :: "js_number \<Rightarrow> js_value \<Rightarrow> order_update option" where
  "orderUpdateFromSpotExecutionReport now raw =
     (case nonempty_string (js_field ''c'' raw) of
        None \<Rightarrow> None
      | Some clientOrderId \<Rightarrow>
          let executedQty = decOf (js_field ''z'' raw); cumQuote = decOf (js_field ''Z'' raw)
          in Some
            \<lparr>ou_clientOrderId = clientOrderId,
             ou_exchangeOrderId = js_numOr (js_field ''i'' raw),
             ou_symbol = js_str (js_field ''s'' raw),
             ou_side = js_str (js_field ''S'' raw),
             ou_type = js_str (js_field ''o'' raw),
             ou_status = js_str (js_field ''X'' raw),
             ou_originalQuantity = decOf (js_field ''q'' raw),
             ou_executedQuantity = executedQty,
             ou_cumulativeQuote = nonZero cumQuote,
             ou_averagePrice = coalesce (nonZero (decOf (js_field ''ap'' raw))) (spot_average executedQty cumQuote),
             ou_lastFill = last_fill raw,
             ou_positionSide = None,
             ou_reduceOnly = None,
             ou_timeInForce = or_undef (js_str (js_field ''f'' raw)),
             ou_updateTime = time_or now (js_field ''T'' raw),
             ou_source = UserStream\<rparr>)"

definition estimateQuote :: "decimal option \<Rightarrow> decimal option \<Rightarrow> string option \<Rightarrow> dec_error + string option" where
  "estimateQuote executedQty cumQuote avgPrice =
     (if (case cumQuote of Some c \<Rightarrow> \<not> dec_isZero c | None \<Rightarrow> False)
      then Inr (map_option dec_to_string cumQuote)
      else case (executedQty, avgPrice) of
             (Some q, Some p) \<Rightarrow>
               if \<not> dec_isZero q \<and> p \<noteq> []
               then bindR (dec_from (SIn p)) (\<lambda>pd.
                      if dec_isZero pd then Inr None else Inr (Some (dec_to_string (dec_mul q pd))))
               else Inr None
           | _ \<Rightarrow> Inr None)"

definition parse_opt :: "string option \<Rightarrow> dec_error + decimal option" where
  "parse_opt v = (case v of None \<Rightarrow> Inr None | Some s \<Rightarrow> mapR Some (dec_from (SIn s)))"

definition orderUpdateFromOrderShape :: "order_shape \<Rightarrow> dec_error + order_update" where
  "orderUpdateFromOrderShape shape =
     bindR (parse_opt (os_executedQty shape)) (\<lambda>executedQty.
     bindR (parse_opt (os_cumQuote shape)) (\<lambda>cumQuote.
     bindR (case nonZero (os_cumQuote shape) of
              Some c \<Rightarrow> Inr (Some c)
            | None \<Rightarrow> estimateQuote executedQty cumQuote (os_avgPrice shape)) (\<lambda>quote.
     Inr \<lparr>ou_clientOrderId = os_clientOrderId shape,
          ou_exchangeOrderId = os_orderId shape,
          ou_symbol = os_symbol shape,
          ou_side = os_side shape,
          ou_type = os_type shape,
          ou_status = os_status shape,
          ou_originalQuantity = None,
          ou_executedQuantity = os_executedQty shape,
          ou_cumulativeQuote = quote,
          ou_averagePrice = nonZero (case os_avgPrice shape of Some p \<Rightarrow> decOf (JStr p) | None \<Rightarrow> None),
          ou_lastFill = None,
          ou_positionSide = None,
          ou_reduceOnly = None,
          ou_timeInForce = None,
          ou_updateTime = os_updateTime shape,
          ou_source = Rest\<rparr>)))"

section \<open>The fold\<close>

definition appendFill :: "execution_fill list \<Rightarrow> execution_fill \<Rightarrow> execution_fill list" where
  "appendFill fills fill =
     (if fill_tradeId fill \<noteq> None \<and> (\<exists>f \<in> set fills. fill_tradeId f = fill_tradeId fill) then fills
      else fills @ [fill])"

text \<open>The new cumulative quote of a record whose other quantities are already updated.\<close>

definition fold_quote :: "order_record \<Rightarrow> order_update \<Rightarrow> dec_error + string option" where
  "fold_quote r u =
     (case ou_cumulativeQuote u of
        Some q \<Rightarrow> Inr (Some q)
      | None \<Rightarrow>
          (case (or_cumulativeQuote r, ou_executedQuantity u) of
             (None, Some ex) \<Rightarrow>
               bindR (dec_from (SIn ex)) (\<lambda>qty.
                 case coalesce (ou_averagePrice u) (or_averagePrice r) of
                   Some avg \<Rightarrow> if dec_isZero qty then Inr None
                               else mapR (\<lambda>a. Some (dec_to_string (dec_mul qty a))) (dec_from (SIn avg))
                 | None \<Rightarrow> Inr None)
           | (q, _) \<Rightarrow> Inr q))"

definition fold_fields :: "order_record \<Rightarrow> order_update \<Rightarrow> order_record" where
  "fold_fields r u = r\<lparr>
     or_status := ou_status u,
     or_exchangeOrderId := coalesce (ou_exchangeOrderId u) (or_exchangeOrderId r),
     or_side := (if or_side r = [] \<and> ou_side u \<noteq> [] then ou_side u else or_side r),
     or_type := (if or_type r = [] \<and> ou_type u \<noteq> [] then ou_type u else or_type r),
     or_positionSide := (if or_positionSide r = None \<and> ou_positionSide u \<notin> {None, Some []}
                         then ou_positionSide u else or_positionSide r),
     or_reduceOnly := coalesce (or_reduceOnly r) (ou_reduceOnly u),
     or_timeInForce := (if or_timeInForce r = None \<and> ou_timeInForce u \<notin> {None, Some []}
                        then ou_timeInForce u else or_timeInForce r),
     or_originalQuantity := coalesce (ou_originalQuantity u) (or_originalQuantity r),
     or_executedQuantity := coalesce (ou_executedQuantity u) (or_executedQuantity r),
     or_averagePrice := coalesce (ou_averagePrice u) (or_averagePrice r)\<rparr>"

definition foldOrderUpdate :: "order_record \<Rightarrow> order_update \<Rightarrow> dec_error option \<times> order_record" where
  "foldOrderUpdate r u =
     (let r1 = fold_fields r u
      in case fold_quote r1 u of
           Inl e \<Rightarrow> (Some e, r1)
         | Inr q \<Rightarrow> (None, r1\<lparr>
             or_cumulativeQuote := q,
             or_fills := (case ou_lastFill u of Some f \<Rightarrow> appendFill (or_fills r1) f | None \<Rightarrow> or_fills r1),
             or_updatedAt := (if jn_less (or_updatedAt r1) (ou_updateTime u) then ou_updateTime u
                              else or_updatedAt r1)\<rparr>))"

definition orderRecordFromUpdate :: "order_update \<Rightarrow> dec_error option \<times> order_record" where
  "orderRecordFromUpdate u =
     foldOrderUpdate
       \<lparr>or_clientOrderId = ou_clientOrderId u, or_exchangeOrderId = None, or_symbol = ou_symbol u,
        or_side = ou_side u, or_type = ou_type u, or_status = ou_status u,
        or_originalQuantity = ou_originalQuantity u, or_executedQuantity = ou_executedQuantity u,
        or_cumulativeQuote = ou_cumulativeQuote u, or_averagePrice = ou_averagePrice u,
        or_fills = [], or_positionSide = ou_positionSide u, or_reduceOnly = ou_reduceOnly u,
        or_timeInForce = ou_timeInForce u, or_firstSeenAt = ou_updateTime u,
        or_updatedAt = ou_updateTime u\<rparr> u"

section \<open>The order tracker\<close>

record order_tracker =
  ot_records :: "(string, order_record) jsmap"
  ot_byExchangeId :: "(js_number, string) jsmap"
  ot_maxRecords :: nat

definition new_OrderTracker :: "nat option \<Rightarrow> order_tracker" where
  "new_OrderTracker maxRecords =
     \<lparr>ot_records = [], ot_byExchangeId = [], ot_maxRecords = (case maxRecords of None \<Rightarrow> 5000 | Some n \<Rightarrow> n)\<rparr>"

definition ot_size :: "order_tracker \<Rightarrow> nat" where
  "ot_size t = length (jm_keys (ot_records t))"

definition evict :: "string \<Rightarrow> order_tracker \<Rightarrow> order_tracker" where
  "evict k t =
     (let t1 = (case jm_get k (ot_records t) of
                  Some r \<Rightarrow> (case or_exchangeOrderId r of
                              Some x \<Rightarrow> t\<lparr>ot_byExchangeId := jm_del x (ot_byExchangeId t)\<rparr>
                            | None \<Rightarrow> t)
                | None \<Rightarrow> t)
      in t1\<lparr>ot_records := jm_del k (ot_records t1)\<rparr>)"

text \<open>The \<open>while\<close> loop; each round removes one record, so the number of records is enough fuel.\<close>

fun evict_loop :: "nat \<Rightarrow> order_tracker \<Rightarrow> order_tracker" where
  "evict_loop 0 t = t"
| "evict_loop (Suc n) t =
     (if ot_size t > ot_maxRecords t
      then case jm_keys (ot_records t) of [] \<Rightarrow> t | k # _ \<Rightarrow> evict_loop n (evict k t)
      else t)"

definition evictOverflow :: "order_tracker \<Rightarrow> order_tracker" where
  "evictOverflow t = evict_loop (ot_size t) t"

text \<open>The record of an observation: a new one, or the existing one with the observation folded in.\<close>

definition observe :: "order_update \<Rightarrow> order_record option \<Rightarrow> dec_error option \<times> order_record" where
  "observe u existing = (case existing of Some r \<Rightarrow> foldOrderUpdate r u | None \<Rightarrow> orderRecordFromUpdate u)"

definition ignored :: "order_update \<Rightarrow> order_record option \<Rightarrow> bool" where
  "ignored u existing \<longleftrightarrow> ou_clientOrderId u = [] \<or>
     (case existing of Some r \<Rightarrow> isTerminalOrderStatus (or_status r) | None \<Rightarrow> False)"

definition index_exchange :: "string \<Rightarrow> order_record \<Rightarrow> order_tracker \<Rightarrow> order_tracker" where
  "index_exchange k r t = (case or_exchangeOrderId r of
     Some x \<Rightarrow> t\<lparr>ot_byExchangeId := jm_set x k (ot_byExchangeId t)\<rparr> | None \<Rightarrow> t)"

text \<open>The thrown error, the tracker, and the record emitted. A fold that throws has already changed
  the existing record.\<close>

definition ot_applyUpdate :: "order_update \<Rightarrow> order_tracker \<Rightarrow> dec_error option \<times> order_tracker \<times> order_record option" where
  "ot_applyUpdate u t =
     (let k = ou_clientOrderId u; existing = jm_get k (ot_records t)
      in if ignored u existing then (None, t, None)
         else case observe u existing of
                (Some err, r) \<Rightarrow> (Some err,
                   if existing = None then t else t\<lparr>ot_records := jm_set k r (ot_records t)\<rparr>, None)
              | (None, r) \<Rightarrow>
                   (None, evictOverflow (index_exchange k r (t\<lparr>ot_records := jm_set k r (ot_records t)\<rparr>)), Some r))"

definition ot_applyUserEvent :: "js_number \<Rightarrow> js_value \<Rightarrow> order_tracker \<Rightarrow> dec_error option \<times> order_tracker \<times> order_record option" where
  "ot_applyUserEvent now event t =
     (if \<not> js_is_object event then (None, t, None)
      else if js_field ''e'' event = JStr ''ORDER_TRADE_UPDATE''
      then (case orderUpdateFromOrderTradeUpdate now event of Some u \<Rightarrow> ot_applyUpdate u t | None \<Rightarrow> (None, t, None))
      else if js_field ''e'' event = JStr ''executionReport''
      then (case orderUpdateFromSpotExecutionReport now event of Some u \<Rightarrow> ot_applyUpdate u t | None \<Rightarrow> (None, t, None))
      else (None, t, None))"

definition ot_applyOrderShape :: "order_shape \<Rightarrow> order_tracker \<Rightarrow> dec_error option \<times> order_tracker \<times> order_record option" where
  "ot_applyOrderShape shape t =
     (case orderUpdateFromOrderShape shape of Inl e \<Rightarrow> (Some e, t, None) | Inr u \<Rightarrow> ot_applyUpdate u t)"

definition ot_get :: "string \<Rightarrow> order_tracker \<Rightarrow> order_record option" where
  "ot_get k t = jm_get k (ot_records t)"

definition ot_getByExchangeId :: "js_number \<Rightarrow> order_tracker \<Rightarrow> order_record option" where
  "ot_getByExchangeId x t =
     (case jm_get x (ot_byExchangeId t) of None \<Rightarrow> None | Some k \<Rightarrow> if k = [] then None else ot_get k t)"

definition ot_all :: "order_tracker \<Rightarrow> order_record list" where
  "ot_all t = map snd (ot_records t)"

definition ot_open :: "order_tracker \<Rightarrow> order_record list" where
  "ot_open t = filter (\<lambda>r. \<not> isTerminalOrderStatus (or_status r)) (ot_all t)"

text \<open>\<open>waitForTerminal\<close>: what the promise does at once, and on an \<open>update\<close> while it is pending.\<close>

datatype terminal_wait = TWPending | TWResolved order_record | TWRejected

definition waitForTerminal_start :: "string \<Rightarrow> order_tracker \<Rightarrow> terminal_wait" where
  "waitForTerminal_start k t = (case jm_get k (ot_records t) of
     Some r \<Rightarrow> if isTerminalOrderStatus (or_status r) then TWResolved r else TWPending
   | None \<Rightarrow> TWRejected)"

definition waitForTerminal_update :: "string \<Rightarrow> order_record \<Rightarrow> terminal_wait \<Rightarrow> terminal_wait" where
  "waitForTerminal_update k r w = (case w of
     TWPending \<Rightarrow> if or_clientOrderId r = k \<and> isTerminalOrderStatus (or_status r) then TWResolved r else TWPending
   | _ \<Rightarrow> w)"

section \<open>The position tracker\<close>

record position_update =
  pu_symbol :: string
  pu_positionSide :: string
  pu_positionAmount :: string
  pu_entryPrice :: string
  pu_unrealizedPnl :: "string option"
  pu_marginType :: "string option"
  pu_isolatedWallet :: "string option"
  pu_breakEvenPrice :: "string option"
  pu_updateTime :: js_number

definition position_entry :: "js_number \<Rightarrow> js_value \<Rightarrow> position_update option" where
  "position_entry updateTime p =
     (if \<not> js_is_object p then None
      else case nonempty_string (js_field ''s'' p) of
             None \<Rightarrow> None
           | Some sy \<Rightarrow> Some
               \<lparr>pu_symbol = sy,
                pu_positionSide = (if js_str (js_field ''ps'' p) = [] then ''BOTH'' else js_str (js_field ''ps'' p)),
                pu_positionAmount = (case decOf (js_field ''pa'' p) of Some v \<Rightarrow> v | None \<Rightarrow> ''0''),
                pu_entryPrice = (case decOf (js_field ''ep'' p) of Some v \<Rightarrow> v | None \<Rightarrow> ''0''),
                pu_unrealizedPnl = nonZero (decOf (js_field ''up'' p)),
                pu_marginType = or_undef (js_str (js_field ''mt'' p)),
                pu_isolatedWallet = decOf (js_field ''iw'' p),
                pu_breakEvenPrice = decOf (js_field ''bep'' p),
                pu_updateTime = updateTime\<rparr>)"

definition positionUpdatesFromAccountUpdate :: "js_number \<Rightarrow> js_value \<Rightarrow> position_update list" where
  "positionUpdatesFromAccountUpdate now raw =
     (let a = js_field ''a'' raw
      in if \<not> js_is_object a then []
         else case js_field ''P'' a of
                JArr entries \<Rightarrow> List.map_filter (position_entry (time_or now (js_field ''T'' raw))) entries
              | _ \<Rightarrow> [])"

definition positionKey :: "string \<Rightarrow> string \<Rightarrow> string" where
  "positionKey sy side = sy @ '':'' @ side"

type_synonym position_tracker = "(string, position_record) jsmap"

definition position_record_of :: "position_update \<Rightarrow> position_record" where
  "position_record_of u =
     \<lparr>pr_symbol = pu_symbol u, pr_positionSide = pu_positionSide u, pr_positionAmount = pu_positionAmount u,
      pr_entryPrice = pu_entryPrice u, pr_unrealizedPnl = pu_unrealizedPnl u, pr_marginType = pu_marginType u,
      pr_isolatedWallet = pu_isolatedWallet u, pr_breakEvenPrice = pu_breakEvenPrice u,
      pr_updatedAt = pu_updateTime u\<rparr>"

definition pt_applyUpdate :: "position_update \<Rightarrow> position_tracker \<Rightarrow> position_tracker" where
  "pt_applyUpdate u t = jm_set (positionKey (pu_symbol u) (pu_positionSide u)) (position_record_of u) t"

definition pt_applyUserEvent :: "js_number \<Rightarrow> js_value \<Rightarrow> position_tracker \<Rightarrow> position_tracker" where
  "pt_applyUserEvent now event t =
     (if \<not> js_is_object event \<or> js_field ''e'' event \<noteq> JStr ''ACCOUNT_UPDATE'' then t
      else foldl (\<lambda>t u. pt_applyUpdate u t) t (positionUpdatesFromAccountUpdate now event))"

definition pt_get :: "string \<Rightarrow> string option \<Rightarrow> position_tracker \<Rightarrow> position_record option" where
  "pt_get sy side t = jm_get (positionKey sy (case side of None \<Rightarrow> ''BOTH'' | Some s \<Rightarrow> s)) t"

definition pt_all :: "position_tracker \<Rightarrow> position_record list" where
  "pt_all t = map snd t"

definition pt_nonZero :: "position_tracker \<Rightarrow> position_record list" where
  "pt_nonZero t = filter (\<lambda>r. \<not> dec_zero_str (pr_positionAmount r)) (pt_all t)"

section \<open>Folding a run of observations\<close>

definition fold_run :: "order_record \<Rightarrow> order_update list \<Rightarrow> order_record" where
  "fold_run r us = foldl (\<lambda>r u. snd (foldOrderUpdate r u)) r us"

lemma fold_run_simps [simp]:
  "fold_run r [] = r" "fold_run r (u # us) = fold_run (snd (foldOrderUpdate r u)) us"
  by (simp_all add: fold_run_def)

lemma fold_fields_select [simp]:
  "or_executedQuantity (fold_fields r u) = coalesce (ou_executedQuantity u) (or_executedQuantity r)"
  "or_averagePrice (fold_fields r u) = coalesce (ou_averagePrice u) (or_averagePrice r)"
  "or_status (fold_fields r u) = ou_status u"
  "or_exchangeOrderId (fold_fields r u) = coalesce (ou_exchangeOrderId u) (or_exchangeOrderId r)"
  "or_clientOrderId (fold_fields r u) = or_clientOrderId r"
  "or_cumulativeQuote (fold_fields r u) = or_cumulativeQuote r"
  "or_fills (fold_fields r u) = or_fills r"
  "or_updatedAt (fold_fields r u) = or_updatedAt r"
  by (simp_all add: fold_fields_def)

lemma foldOrderUpdate_fields [simp]:
  "or_executedQuantity (snd (foldOrderUpdate r u)) = coalesce (ou_executedQuantity u) (or_executedQuantity r)"
  "or_averagePrice (snd (foldOrderUpdate r u)) = coalesce (ou_averagePrice u) (or_averagePrice r)"
  "or_status (snd (foldOrderUpdate r u)) = ou_status u"
  "or_exchangeOrderId (snd (foldOrderUpdate r u)) = coalesce (ou_exchangeOrderId u) (or_exchangeOrderId r)"
  "or_clientOrderId (snd (foldOrderUpdate r u)) = or_clientOrderId r"
  by (simp_all add: foldOrderUpdate_def Let_def split: sum.split)

lemma coalesce_neq_None [simp]: "coalesce a b \<noteq> None \<longleftrightarrow> a \<noteq> None \<or> b \<noteq> None"
  by (cases a) auto

definition latest :: "('a \<Rightarrow> 'b option) \<Rightarrow> 'a list \<Rightarrow> 'b option \<Rightarrow> 'b option" where
  "latest f us old = (case List.map_filter f us of [] \<Rightarrow> old | qs \<Rightarrow> Some (last qs))"

lemma latest_simps [simp]:
  "latest f [] old = old"
  "latest f (u # us) old = latest f us (coalesce (f u) old)"
  by (auto simp: latest_def List.map_filter_simps split: option.splits list.splits)

lemma fold_run_latest:
  "or_executedQuantity (fold_run r us) = latest ou_executedQuantity us (or_executedQuantity r)"
  "or_averagePrice (fold_run r us) = latest ou_averagePrice us (or_averagePrice r)"
  by (induction us arbitrary: r) simp_all

lemma fold_run_quote:
  assumes "\<forall>u \<in> set us. ou_cumulativeQuote u = None" "or_cumulativeQuote r = Some q"
  shows "or_cumulativeQuote (fold_run r us) = Some q"
  using assms
proof (induction us arbitrary: r)
  case (Cons u us)
  have "or_cumulativeQuote (snd (foldOrderUpdate r u)) = Some q"
    using Cons.prems by (simp add: foldOrderUpdate_def fold_quote_def Let_def)
  then show ?case using Cons by simp
qed simp

section \<open>Fills\<close>

definition fills_ok :: "order_record \<Rightarrow> bool" where
  "fills_ok r \<longleftrightarrow> distinct (List.map_filter fill_tradeId (or_fills r))"

lemma appendFill_ok:
  "distinct (List.map_filter fill_tradeId fs) \<Longrightarrow> distinct (List.map_filter fill_tradeId (appendFill fs f))"
  by (cases "fill_tradeId f")
     (auto simp: appendFill_def map_filter_append set_map_filter List.map_filter_simps)

lemma foldOrderUpdate_fills: "fills_ok r \<Longrightarrow> fills_ok (snd (foldOrderUpdate r u))"
  by (simp add: fills_ok_def foldOrderUpdate_def Let_def appendFill_ok split: sum.split option.split)

lemma orderRecordFromUpdate_facts:
  "fills_ok (snd (orderRecordFromUpdate u))" "or_clientOrderId (snd (orderRecordFromUpdate u)) = ou_clientOrderId u"
  unfolding orderRecordFromUpdate_def
  by (rule foldOrderUpdate_fills) (simp_all add: fills_ok_def List.map_filter_simps)

section \<open>Eviction\<close>

lemma evict_records [simp]: "ot_records (evict k t) = jm_del k (ot_records t)"
  "ot_maxRecords (evict k t) = ot_maxRecords t"
  by (simp_all add: evict_def Let_def split: option.split)

lemma evict_loop_max [simp]: "ot_maxRecords (evict_loop n t) = ot_maxRecords t"
  by (induction n arbitrary: t) (auto split: list.split)

lemma evict_loop_keys:
  assumes "jm_ok (ot_records t)" "ot_size t \<le> n"
  shows "jm_keys (ot_records (evict_loop n t)) = drop (ot_size t - ot_maxRecords t) (jm_keys (ot_records t))"
  using assms
proof (induction n arbitrary: t)
  case 0
  then show ?case by (simp add: ot_size_def)
next
  case (Suc n)
  show ?case
  proof (cases "jm_keys (ot_records t)")
    case Nil
    then show ?thesis by (simp add: ot_size_def)
  next
    case (Cons k ks)
    have keys: "jm_keys (jm_del k (ot_records t)) = ks" using jm.del_oldest [OF Suc.prems(1) Cons] .
    show ?thesis
    proof (cases "ot_size t > ot_maxRecords t")
      case True
      have "jm_keys (ot_records (evict_loop n (evict k t)))
          = drop (ot_size (evict k t) - ot_maxRecords t) ks"
        using Suc.IH [of "evict k t"] Suc.prems keys Cons by (simp add: jm.ok_del ot_size_def)
      moreover have "ot_size t - ot_maxRecords t = Suc (ot_size (evict k t) - ot_maxRecords t)"
        using True keys Cons by (simp add: ot_size_def Suc_diff_le)
      ultimately show ?thesis using True Cons by simp
    qed (use Cons in simp)
  qed
qed

lemma evict_loop_get:
  "jm_get k (ot_records (evict_loop n t)) = jm_get k (ot_records t) \<or> jm_get k (ot_records (evict_loop n t)) = None"
proof (induction n arbitrary: t)
  case (Suc n)
  show ?case
  proof (cases "jm_keys (ot_records t)")
    case (Cons k' ks)
    then show ?thesis using Suc [of "evict k' t"] by (auto simp: jm.get_del split: if_splits)
  qed simp
qed simp

lemma evict_loop_ok: "jm_ok (ot_records t) \<Longrightarrow> jm_ok (ot_records (evict_loop n t))"
  by (induction n arbitrary: t) (auto simp: jm.ok_del split: list.split)

lemma evictOverflow_keys:
  "jm_ok (ot_records t) \<Longrightarrow> jm_keys (ot_records (evictOverflow t)) = drop (ot_size t - ot_maxRecords t) (jm_keys (ot_records t))"
  by (simp add: evictOverflow_def evict_loop_keys)

lemma evictOverflow_get:
  "jm_get k (ot_records (evictOverflow t)) =
    (if k \<in> set (jm_keys (ot_records (evictOverflow t))) then jm_get k (ot_records t) else None)"
  using evict_loop_get [of k "ot_size t" t] by (auto simp: evictOverflow_def jm.keys_get)

section \<open>The tracker invariant\<close>

definition ot_inv :: "order_tracker \<Rightarrow> bool" where
  "ot_inv t \<longleftrightarrow> jm_ok (ot_records t) \<and> ot_size t \<le> ot_maxRecords t \<and>
     (\<forall>k r. jm_get k (ot_records t) = Some r \<longrightarrow> or_clientOrderId r = k \<and> fills_ok r)"

datatype ot_op = OpUpdate order_update | OpEvent js_number js_value | OpShape order_shape

definition ot_step :: "order_tracker \<Rightarrow> ot_op \<Rightarrow> order_tracker" where
  "ot_step t oper = fst (snd (case oper of
     OpUpdate u \<Rightarrow> ot_applyUpdate u t
   | OpEvent now ev \<Rightarrow> ot_applyUserEvent now ev t
   | OpShape sh \<Rightarrow> ot_applyOrderShape sh t))"

lemma index_exchange_frame [simp]:
  "ot_records (index_exchange k r t) = ot_records t" "ot_maxRecords (index_exchange k r t) = ot_maxRecords t"
  "ot_size (index_exchange k r t) = ot_size t"
  by (simp_all add: index_exchange_def ot_size_def split: option.split)

lemma observe_facts:
  assumes "observe u existing = (e, r)"
    and "\<And>r0. existing = Some r0 \<Longrightarrow> or_clientOrderId r0 = ou_clientOrderId u \<and> fills_ok r0"
  shows "or_clientOrderId r = ou_clientOrderId u \<and> fills_ok r"
proof -
  have r: "r = snd (observe u existing)" using assms(1) by simp
  show ?thesis
  proof (cases existing)
    case None
    then show ?thesis using r orderRecordFromUpdate_facts [of u] by (simp add: observe_def)
  next
    case (Some r0)
    then show ?thesis using r assms(2) [OF Some] foldOrderUpdate_fills [of r0 u] by (simp add: observe_def)
  qed
qed

lemma evictOverflow_inv:
  assumes "jm_ok (ot_records t)"
    and "\<And>k r. jm_get k (ot_records t) = Some r \<Longrightarrow> or_clientOrderId r = k \<and> fills_ok r"
  shows "ot_inv (evictOverflow t)"
proof -
  have "ot_size (evictOverflow t) \<le> ot_maxRecords t"
    using evictOverflow_keys [OF assms(1)] by (simp add: ot_size_def)
  then show ?thesis
    using assms evict_loop_ok [OF assms(1)] evictOverflow_get [of _ t]
    by (simp add: ot_inv_def evictOverflow_def split: if_splits)
qed

lemma applyUpdate_inv:
  assumes inv: "ot_inv t"
  shows "ot_inv (fst (snd (ot_applyUpdate u t)))"
proof (cases "ignored u (jm_get (ou_clientOrderId u) (ot_records t))")
  case True
  then show ?thesis using inv by (simp add: ot_applyUpdate_def)
next
  case False
  let ?k = "ou_clientOrderId u"
  obtain e r where o: "observe u (jm_get ?k (ot_records t)) = (e, r)"
    by (cases "observe u (jm_get ?k (ot_records t))")
  have r: "or_clientOrderId r = ?k \<and> fills_ok r"
    using observe_facts [OF o] inv by (simp add: ot_inv_def)
  have ok: "jm_ok (jm_set ?k r (ot_records t))" using inv by (simp add: ot_inv_def jm.ok_put)
  have put: "or_clientOrderId r' = k' \<and> fills_ok r'" if "jm_get k' (jm_set ?k r (ot_records t)) = Some r'" for k' r'
    using that inv r by (auto simp: ot_inv_def jm.get_put split: if_splits)
  show ?thesis
  proof (cases e)
    case None
    have "ot_inv (evictOverflow (index_exchange ?k r (t\<lparr>ot_records := jm_set ?k r (ot_records t)\<rparr>)))"
      by (rule evictOverflow_inv) (simp_all add: ok put)
    then show ?thesis using None False o by (simp add: ot_applyUpdate_def Let_def)
  next
    case (Some err)
    have "jm_get ?k (ot_records t) \<noteq> None \<Longrightarrow> length (jm_keys (jm_set ?k r (ot_records t))) \<le> ot_maxRecords t"
      using inv by (simp add: jm.length_put_present ot_inv_def ot_size_def)
    then show ?thesis
      using False o Some ok put inv by (auto simp: ot_applyUpdate_def Let_def ot_inv_def ot_size_def)
  qed
qed

lemma ot_step_inv: "ot_inv t \<Longrightarrow> ot_inv (ot_step t oper)"
  by (cases oper)
     (auto simp: ot_step_def ot_applyUserEvent_def ot_applyOrderShape_def applyUpdate_inv split: option.split sum.split)

interpretation otm: invariant_machine ot_step ot_inv "\<lambda>_. True"
  by unfold_locales (rule ot_step_inv)

lemma new_OrderTracker_inv: "ot_inv (new_OrderTracker m)"
  by (simp add: new_OrderTracker_def ot_inv_def jm_ok_def ot_size_def jm_keys_def jm_get_def)

section \<open>Exact normalization\<close>

lemma decOf_exact: "s \<noteq> [] \<Longrightarrow> dec_from (SIn s) = Inr d \<Longrightarrow> decOf (JStr s) = Some (dec_to_string d)"
  by (simp add: decOf_def)

lemma decOf_parses: "decOf v = Some s \<Longrightarrow> \<exists>d. dec_from (SIn s) = Inr d \<and> s = dec_to_string d"
  using dec_from_to_string
  by (auto simp: decOf_def okR_def split: option.splits sum.splits)

lemma applyUpdate_result:
  assumes "ot_inv t" "existing = ot_get (ou_clientOrderId u) t"
    and "ot_applyUpdate u t = (None, t', emitted)"
  shows "if ignored u existing then t' = t \<and> emitted = None
    else let keys = (if existing = None then jm_keys (ot_records t) @ [ou_clientOrderId u] else jm_keys (ot_records t))
         in emitted = Some (snd (observe u existing)) \<and>
            jm_keys (ot_records t') = drop (length keys - ot_maxRecords t) keys \<and>
            (\<forall>k \<in> set (jm_keys (ot_records t')).
               ot_get k t' = (if k = ou_clientOrderId u then Some (snd (observe u existing)) else ot_get k t))"
proof (cases "ignored u existing")
  case True
  then show ?thesis using assms by (simp add: ot_applyUpdate_def ot_get_def)
next
  case False
  let ?k = "ou_clientOrderId u"
  obtain e r where o: "observe u existing = (e, r)" by (cases "observe u existing")
  let ?t1 = "index_exchange ?k r (t\<lparr>ot_records := jm_set ?k r (ot_records t)\<rparr>)"
  have t': "e = None" "t' = evictOverflow ?t1" "emitted = Some r"
    using assms False o by (auto simp: ot_applyUpdate_def ot_get_def Let_def split: option.splits)
  have ok: "jm_ok (ot_records ?t1)" using assms(1) by (simp add: ot_inv_def jm.ok_put)
  let ?ks = "if existing = None then jm_keys (ot_records t) @ [?k] else jm_keys (ot_records t)"
  have "jm_keys (jm_set ?k r (ot_records t)) = ?ks"
    using assms(2) by (simp add: jm.keys_put jm.keys_get ot_get_def)
  then have keys: "jm_keys (ot_records t') = drop (length ?ks - ot_maxRecords t) ?ks"
    using evictOverflow_keys [OF ok] t'(2) by (simp add: ot_size_def)
  have "ot_get k t' = (if k = ?k then Some r else ot_get k t)" if "k \<in> set (jm_keys (ot_records t'))" for k
    using that evictOverflow_get [of k ?t1] t'(2) by (simp add: ot_get_def jm.get_put)
  moreover have r: "snd (observe u existing) = r" using o by simp
  ultimately show ?thesis
    using t'(3) keys unfolding if_not_P [OF False] Let_def r by blast
qed

lemma drop_oldest:
  assumes "k \<in> set ks" "k \<notin> set (drop (Suc (length ks) - m) (ks @ [x]))" "length ks \<le> m"
  shows "length ks = m \<and> hd ks = k"
proof -
  have "length ks = m"
  proof (rule ccontr)
    assume "length ks \<noteq> m"
    then have "Suc (length ks) - m = 0" using assms(3) by simp
    then show False using assms(1,2) by simp
  qed
  then show ?thesis using assms(1,2) by (cases ks) auto
qed

lemma applyUpdate_terminal:
  assumes inv: "ot_inv t" and k: "ot_get k t = Some r" and r: "isTerminalOrderStatus (or_status r)"
    and t': "t' = fst (snd (ot_applyUpdate u t))"
  shows "ot_get k t' = Some r \<or> (ot_get k t' = None \<and> ot_size t = ot_maxRecords t \<and> hd (jm_keys (ot_records t)) = k)"
proof (cases "ignored u (ot_get (ou_clientOrderId u) t)")
  case True
  then show ?thesis using t' k by (simp add: ot_applyUpdate_def ot_get_def)
next
  case False
  let ?k = "ou_clientOrderId u"
  have ne: "?k \<noteq> k" using False k r by (auto simp: ignored_def ot_get_def)
  obtain e em where a: "ot_applyUpdate u t = (e, t', em)" using t' by (cases "ot_applyUpdate u t") auto
  show ?thesis
  proof (cases e)
    case (Some err)
    then have "ot_records t' = ot_records t \<or> (\<exists>r'. ot_records t' = jm_set ?k r' (ot_records t))"
      using a by (auto simp: ot_applyUpdate_def Let_def split: if_splits prod.splits option.splits)
    then show ?thesis using k ne by (auto simp: ot_get_def jm.get_put)
  next
    case None
    define ks where "ks = (if ot_get ?k t = None then jm_keys (ot_records t) @ [?k] else jm_keys (ot_records t))"
    have res: "jm_keys (ot_records t') = drop (length ks - ot_maxRecords t) ks"
      "k \<in> set (jm_keys (ot_records t')) \<longrightarrow> ot_get k t' = ot_get k t"
      using applyUpdate_result [OF inv refl a [unfolded None]] False ne by (auto simp: ks_def Let_def)
    have k_in: "k \<in> set (jm_keys (ot_records t))" using k by (simp add: jm.keys_get ot_get_def)
    have le: "length (jm_keys (ot_records t)) \<le> ot_maxRecords t" using inv by (simp add: ot_inv_def ot_size_def)
    show ?thesis
    proof (cases "k \<in> set (jm_keys (ot_records t'))")
      case True
      then show ?thesis using res k by simp
    next
      case False
      then have "ot_get k t' = None" by (simp add: jm.keys_get ot_get_def)
      moreover have "ot_get ?k t = None" 
      proof (rule ccontr)
        assume "ot_get ?k t \<noteq> None"
        then have "ks = jm_keys (ot_records t)" unfolding ks_def by (rule if_not_P)
        then show False using False res(1) k_in le by simp
      qed
      ultimately show ?thesis
        using drop_oldest [OF k_in _ le, of ?k] False res(1) by (simp add: ks_def ot_size_def)
    qed
  qed
qed

lemma futures_update_fields:
  assumes "orderUpdateFromOrderTradeUpdate now raw = Some u"
  shows "ou_cumulativeQuote u = None"
    "ou_executedQuantity u = decOf (js_field ''z'' (js_field ''o'' raw))"
  using assms by (auto simp: orderUpdateFromOrderTradeUpdate_def Let_def split: if_split_asm option.split_asm)

section \<open>Properties\<close>

text \<open>C23: the tracker invariant. After any run of updates, user-stream frames and REST views, the
  tracker holds at most \<open>maxRecords\<close> orders, one per client order id and each under its own id, and
  no order has two fills with one trade id.\<close>
theorem order_tracker_invariant:
  assumes "t = foldl ot_step (new_OrderTracker m) ops"
  shows "ot_size t \<le> ot_maxRecords t \<and> distinct (jm_keys (ot_records t)) \<and>
    (ot_get k t = Some r \<longrightarrow> or_clientOrderId r = k \<and> distinct (List.map_filter fill_tradeId (or_fills r)))"
  using otm.run_inv [OF new_OrderTracker_inv, of ops m] assms
  by (auto simp: ot_inv_def jm_ok_def jm_keys_def ot_get_def fills_ok_def list_all_iff)

text \<open>What an observation does to the tracker. One for a terminal order, or without an id, is
  ignored; otherwise, unless the fold throws, the order's record is the fold of the observation
  into the record there was, every other record is kept as it is, and the oldest records in excess
  of the cap are dropped.\<close>
theorem applyUpdate_effect:
  assumes "ot_inv t" "existing = ot_get (ou_clientOrderId u) t"
    and "ot_applyUpdate u t = (None, t', emitted)"
  shows "if ignored u existing then t' = t \<and> emitted = None
    else let keys = (if existing = None then jm_keys (ot_records t) @ [ou_clientOrderId u] else jm_keys (ot_records t))
         in emitted = Some (snd (observe u existing)) \<and>
            jm_keys (ot_records t') = drop (length keys - ot_maxRecords t) keys \<and>
            (\<forall>k \<in> set (jm_keys (ot_records t')).
               ot_get k t' = (if k = ou_clientOrderId u then Some (snd (observe u existing)) else ot_get k t))"
  using applyUpdate_result [OF assms] .

text \<open>C22: terminal orders are immutable. No observation, of any order and from any source, changes
  the record of a terminal order; it stays until it is evicted as the oldest of a full tracker.\<close>
theorem terminal_immutable:
  assumes "ot_inv t" "ot_get k t = Some r" "isTerminalOrderStatus (or_status r)"
    and "t' = ot_step t oper"
  shows "ot_get k t' = Some r \<or> (ot_get k t' = None \<and> ot_size t = ot_maxRecords t \<and> hd (jm_keys (ot_records t)) = k)"
  using assms(4) applyUpdate_terminal [OF assms(1-3)] assms(2)
  by (cases oper)
     (auto simp: ot_step_def ot_applyUserEvent_def ot_applyOrderShape_def split: option.split sum.split)

text \<open>Unknown never overwrites known. Over any run of observations of an order, its executed
  quantity and its average price are the last ones any observation supplied, or the initial ones
  if none did.\<close>
theorem fold_keeps_known:
  "or_executedQuantity (fold_run r us) = latest ou_executedQuantity us (or_executedQuantity r) \<and>
   or_averagePrice (fold_run r us) = latest ou_averagePrice us (or_averagePrice r)"
  by (simp add: fold_run_latest)

text \<open>The quote estimate of a futures order is frozen. Futures frames carry no cumulative quote;
  once the fold has estimated one, from the first partial fill, no later frame changes it, however
  much is filled afterwards.\<close>
theorem futures_quote_frozen:
  assumes "\<forall>u \<in> set us. \<exists>now frame. orderUpdateFromOrderTradeUpdate now frame = Some u"
    and "or_cumulativeQuote r = Some q"
  shows "or_cumulativeQuote (fold_run r us) = Some q"
proof (rule fold_run_quote [OF _ assms(2)])
  show "\<forall>u \<in> set us. ou_cumulativeQuote u = None"
    using assms(1) futures_update_fields(1) by blast
qed

text \<open>A stale view takes an order back. An observation older than the last one applied still
  replaces the status and the executed quantity of an open order, while the order keeps its later
  update time.\<close>
theorem stale_view_regresses:
  assumes "foldOrderUpdate r u = (None, r')" "jn_less (ou_updateTime u) (or_updatedAt r)"
    and "ou_executedQuantity u = Some q"
  shows "or_status r' = ou_status u \<and> or_executedQuantity r' = Some q \<and> or_updatedAt r' = or_updatedAt r"
proof -
  have r': "r' = snd (foldOrderUpdate r u)" using assms(1) by simp
  have "\<not> jn_less (or_updatedAt r) (ou_updateTime u)"
    using assms(2) by (cases "ou_updateTime u"; cases "or_updatedAt r") auto
  then have "or_updatedAt r' = or_updatedAt r"
    using assms(1) by (auto simp: foldOrderUpdate_def Let_def split: sum.splits)
  then show ?thesis using r' assms(3) by simp
qed

text \<open>Normalization is exact. The executed quantity of the update a futures frame gives, when
  the frame sends it as a parsable string, denotes exactly the decimal of that string; an
  unparsable one is unknown, and no quantity is ever made up.\<close>
theorem normalization_exact:
  assumes "orderUpdateFromOrderTradeUpdate now raw = Some u"
    and "js_field ''z'' (js_field ''o'' raw) = JStr s" "s \<noteq> []"
  shows "case dec_from (SIn s) of
      Inr d \<Rightarrow> (\<exists>q. ou_executedQuantity u = Some q \<and> dec_from (SIn q) = Inr d)
    | Inl _ \<Rightarrow> ou_executedQuantity u = None"
proof -
  have "ou_executedQuantity u = decOf (JStr s)"
    using futures_update_fields(2) [OF assms(1)] assms(2) by simp
  then show ?thesis
    using assms(3) by (auto simp: decOf_def okR_def dec_from_to_string split: sum.split)
qed

text \<open>The position feed. After a user-data frame, the record under a symbol and side is the
  one of the last entry the frame has for them, and the one there was before when it has none or is
  not an \<open>ACCOUNT_UPDATE\<close>.\<close>
theorem position_latest:
  "pt_get sy (Some side) (pt_applyUserEvent now event t) =
   latest (\<lambda>u. if positionKey (pu_symbol u) (pu_positionSide u) = positionKey sy side
               then Some (position_record_of u) else None)
     (if js_is_object event \<and> js_field ''e'' event = JStr ''ACCOUNT_UPDATE''
      then positionUpdatesFromAccountUpdate now event else [])
     (pt_get sy (Some side) t)"
proof -
  have "pt_get sy (Some side) (foldl (\<lambda>t u. pt_applyUpdate u t) t us) =
     latest (\<lambda>u. if positionKey (pu_symbol u) (pu_positionSide u) = positionKey sy side
               then Some (position_record_of u) else None) us (pt_get sy (Some side) t)" for us
    by (induction us arbitrary: t) (simp_all add: pt_get_def pt_applyUpdate_def jm.get_put)
  then show ?thesis by (simp add: pt_applyUserEvent_def)
qed

definition wit_order :: "string \<Rightarrow> string \<Rightarrow> string option \<Rightarrow> int \<Rightarrow> order_update" where
  "wit_order k status executed time =
     \<lparr>ou_clientOrderId = k, ou_exchangeOrderId = None, ou_symbol = ''BTCUSDT'', ou_side = ''BUY'',
      ou_type = ''LIMIT'', ou_status = status, ou_originalQuantity = None, ou_executedQuantity = executed,
      ou_cumulativeQuote = None, ou_averagePrice = None, ou_lastFill = None, ou_positionSide = None,
      ou_reduceOnly = None, ou_timeInForce = None, ou_updateTime = Fin (of_int time), ou_source = Rest\<rparr>"

definition wit_tracker :: order_tracker where
  "wit_tracker = foldl ot_step (new_OrderTracker (Some 2))
     [OpUpdate (wit_order ''a'' ''NEW'' None 1), OpUpdate (wit_order ''b'' ''FILLED'' None 2)]"

lemma wit_tracker_inv: "ot_inv wit_tracker"
  unfolding wit_tracker_def by (rule otm.run_inv [OF new_OrderTracker_inv]) simp

lemma wit_tracker_value:
  "jm_keys (ot_records wit_tracker) = [''a'', ''b''] \<and> ot_maxRecords wit_tracker = 2 \<and>
   map_option or_status (ot_get ''b'' wit_tracker) = Some ''FILLED'' \<and> ot_size wit_tracker = 2"
  by code_simp

theorem order_tracker_invariant_witness:
  "ot_size wit_tracker \<le> 2 \<and> or_clientOrderId (the (ot_get ''b'' wit_tracker)) = ''b''"
proof -
  obtain r where r: "ot_get ''b'' wit_tracker = Some r" using wit_tracker_value by auto
  show ?thesis
    using order_tracker_invariant [OF wit_tracker_def, of "''b''" r] r wit_tracker_value by simp
qed

theorem applyUpdate_effect_witness:
  "\<exists>t'. ot_applyUpdate (wit_order ''c'' ''NEW'' None 3) wit_tracker = (None, t', Some (snd (observe (wit_order ''c'' ''NEW'' None 3) None))) \<and>
    jm_keys (ot_records t') = [''b'', ''c'']"
proof -
  let ?u = "wit_order ''c'' ''NEW'' None 3"
  have "fst (ot_applyUpdate ?u wit_tracker) = None" by code_simp
  then obtain t' em where a: "ot_applyUpdate ?u wit_tracker = (None, t', em)"
    by (cases "ot_applyUpdate ?u wit_tracker") auto
  have n: "ot_get (ou_clientOrderId ?u) wit_tracker = None" by code_simp
  have "\<not> ignored ?u None" by (simp add: ignored_def wit_order_def)
  then show ?thesis
    using applyUpdate_effect [OF wit_tracker_inv n [symmetric] a] a wit_tracker_value
    by (simp add: Let_def wit_order_def)
qed

theorem terminal_immutable_witness:
  "\<exists>r. ot_get ''b'' wit_tracker = Some r \<and> isTerminalOrderStatus (or_status r) \<and>
    ot_get ''b'' (ot_step wit_tracker (OpUpdate (wit_order ''b'' ''NEW'' (Some ''1'') 9))) = Some r"
proof -
  obtain r where r: "ot_get ''b'' wit_tracker = Some r" "isTerminalOrderStatus (or_status r)"
    using wit_tracker_value by (auto simp: isTerminalOrderStatus_def)
  show ?thesis
    using terminal_immutable [OF wit_tracker_inv r refl, of "OpUpdate (wit_order ''b'' ''NEW'' (Some ''1'') 9)"]
      wit_tracker_value r by simp
qed

definition wit_futures_frame :: "string \<Rightarrow> string \<Rightarrow> js_value" where
  "wit_futures_frame z ap = JObj [(''e'', JStr ''ORDER_TRADE_UPDATE''), (''o'', JObj
     [(''c'', JStr ''a''), (''X'', JStr ''PARTIALLY_FILLED''), (''z'', JStr z), (''ap'', JStr ap)])]"

definition wit_futures_update :: "string \<Rightarrow> string \<Rightarrow> order_update" where
  "wit_futures_update z ap = the (orderUpdateFromOrderTradeUpdate (Fin 0) (wit_futures_frame z ap))"

lemma wit_futures_update_ok:
  "orderUpdateFromOrderTradeUpdate (Fin 0) (wit_futures_frame z ap) = Some (wit_futures_update z ap)"
  by (simp add: wit_futures_update_def orderUpdateFromOrderTradeUpdate_def wit_futures_frame_def
      nonempty_string_def or_undef_def Let_def)

lemma wit_parse:
  "dec_parse ''0'' = Inr (Decimal 0)" "dec_parse ''1'' = Inr (Decimal SCALE_FACTOR)"
  "dec_parse ''2'' = Inr (Decimal (2 * SCALE_FACTOR))" "dec_parse ''100'' = Inr (Decimal (100 * SCALE_FACTOR))"
  "dec_parse ''123.456'' = Inr (Decimal 123456000000000000000)"
  using dec_parse_literal [of "''0''" "[]" False 0] dec_parse_literal [of "''1''" "[]" False 0]
    dec_parse_literal [of "''2''" "[]" False 0] dec_parse_literal [of "''100''" "[]" False 0]
    dec_parse_literal [of "''123''" "''456''" False 0]
  by (simp_all add: literal_def is_digit_def digit_val_def shift10_def SCALE_FACTOR_eq)

definition wit_partial :: order_record where
  "wit_partial = snd (orderRecordFromUpdate (wit_futures_update ''1'' ''100''))"

lemma wit_partial_quote: "or_cumulativeQuote wit_partial = Some (dec_to_string (Decimal (100 * SCALE_FACTOR)))"
  by (simp add: wit_partial_def wit_futures_update_def wit_futures_frame_def orderUpdateFromOrderTradeUpdate_def
      nonempty_string_def or_undef_def Let_def orderRecordFromUpdate_def foldOrderUpdate_def fold_quote_def
      decOf_def okR_def nonZero_def wit_parse dec_from_to_string dec_isZero_def dec_mul_def SCALE_FACTOR_eq
      bdiv_def)

theorem futures_quote_frozen_witness:
  "or_cumulativeQuote (fold_run wit_partial [wit_futures_update ''2'' ''100'']) = or_cumulativeQuote wit_partial"
  using futures_quote_frozen [of "[wit_futures_update ''2'' ''100'']", OF _ wit_partial_quote]
    wit_futures_update_ok [of "''2''" "''100''"] wit_partial_quote by auto

theorem stale_view_regresses_witness:
  "\<exists>r'. foldOrderUpdate (snd (orderRecordFromUpdate (wit_order ''a'' ''PARTIALLY_FILLED'' (Some ''2'') 9)))
      (wit_order ''a'' ''NEW'' (Some ''0'') 5) = (None, r') \<and>
    or_status r' = ''NEW'' \<and> or_executedQuantity r' = Some ''0'' \<and> or_updatedAt r' = Fin 9"
proof -
  let ?r = "snd (orderRecordFromUpdate (wit_order ''a'' ''PARTIALLY_FILLED'' (Some ''2'') 9))"
  let ?u = "wit_order ''a'' ''NEW'' (Some ''0'') 5"
  have r: "or_updatedAt ?r = Fin 9 \<and> or_cumulativeQuote ?r = None \<and> or_averagePrice ?r = None"
    by (simp add: wit_order_def orderRecordFromUpdate_def foldOrderUpdate_def fold_quote_def wit_parse Let_def)
  then have "fst (foldOrderUpdate ?r ?u) = None"
    by (simp add: foldOrderUpdate_def fold_quote_def wit_order_def wit_parse Let_def)
  then obtain r' where r': "foldOrderUpdate ?r ?u = (None, r')" by (cases "foldOrderUpdate ?r ?u") auto
  show ?thesis using stale_view_regresses [OF r', of "''0''"] r r' by (simp add: wit_order_def)
qed

theorem normalization_exact_witness:
  "\<exists>q. ou_executedQuantity (wit_futures_update ''123.456'' []) = Some q \<and>
    dec_from (SIn q) = Inr (Decimal 123456000000000000000)"
  using normalization_exact [OF wit_futures_update_ok, of "''123.456''" "[]" "''123.456''"]
  by (simp add: wit_futures_frame_def wit_parse)

end
