(* ===== verification/Rate_Limit.thy ===== *)
theory Rate_Limit
  imports JS_Value
begin

text \<open>
  Client-side pacing: the weight tracker fed by response headers
  (\<open>src/client/RateLimitTracker.ts\<close>) and the reconnect backoff policies
  (\<open>src/ws/platform/ReconnectPolicy.ts\<close>). The clock is an argument, in integer milliseconds;
  the randomness of a backoff is an argument in \<open>[0, 1)\<close>. Delays are exact rationals.
  Lemmas: the throttle never waits longer than to the next full minute, when it waits at all and
  when it does not, and the bounds of every backoff.
\<close>

section \<open>The weight tracker\<close>

record rate_usage =
  ru_usedWeight :: js_number
  ru_weightBy :: "(string, js_number) jsmap"
  ru_ordersBy :: "(string, js_number) jsmap"
  ru_lastUpdated :: int

record rate_tracker =
  rt_limit :: js_number
  rt_margin :: js_number
  rt_usage :: rate_usage

definition new_RateLimitTracker :: "js_number option \<Rightarrow> js_number option \<Rightarrow> rate_tracker" where
  "new_RateLimitTracker limit margin =
     \<lparr>rt_limit = (case limit of None \<Rightarrow> Fin 6000 | Some n \<Rightarrow> n),
      rt_margin = (case margin of None \<Rightarrow> js_round (8 / 10) | Some m \<Rightarrow> m),
      rt_usage = \<lparr>ru_usedWeight = Fin 0, ru_weightBy = [], ru_ordersBy = [], ru_lastUpdated = 0\<rparr>\<rparr>"

text \<open>The rest of a header name after a case-insensitive prefix, when it is not empty; \<open>.\<close> does not
  match a line break.\<close>

definition header_suffix :: "string \<Rightarrow> string \<Rightarrow> string option" where
  "header_suffix prefix key =
     (let rest = drop (length prefix) key
      in if to_lower (take (length prefix) key) = prefix \<and> rest \<noteq> [] \<and> char_of (10 :: nat) \<notin> set rest
         then Some rest else None)"

fun scan_headers :: "(string \<times> string) list \<Rightarrow> (string, js_number) jsmap \<Rightarrow> (string, js_number) jsmap
    \<Rightarrow> (string, js_number) jsmap \<times> (string, js_number) jsmap" where
  "scan_headers [] ws os = (ws, os)"
| "scan_headers ((key, value) # hs) ws os =
     (case header_suffix ''x-mbx-used-weight-'' key of
        Some i \<Rightarrow> scan_headers hs (jm_set i (string_to_number value) ws) os
      | None \<Rightarrow>
          (case header_suffix ''x-mbx-order-count-'' key of
             Some i \<Rightarrow> scan_headers hs ws (jm_set i (string_to_number value) os)
           | None \<Rightarrow> scan_headers hs ws os))"

text \<open>\<open>Math.max\<close>: NaN as soon as one argument is.\<close>

fun jn_max :: "js_number \<Rightarrow> js_number \<Rightarrow> js_number" where
  "jn_max NaN y = NaN"
| "jn_max x NaN = NaN"
| "jn_max x y = (if jn_less x y then y else x)"

definition rt_update :: "int \<Rightarrow> (string \<times> string) list option \<Rightarrow> rate_tracker \<Rightarrow> rate_tracker" where
  "rt_update now headers t =
     (case headers of
        None \<Rightarrow> t
      | Some hs \<Rightarrow>
          let (ws, os) = scan_headers hs [] []
          in if ws = [] \<and> os = [] then t
             else t\<lparr>rt_usage := \<lparr>ru_usedWeight = foldl jn_max (Fin 0) (map snd ws),
                                 ru_weightBy = ws, ru_ordersBy = os, ru_lastUpdated = now\<rparr>\<rparr>)"

definition getThrottleDelayMs :: "int \<Rightarrow> rate_tracker \<Rightarrow> int" where
  "getThrottleDelayMs now t =
     (if rt_margin t \<noteq> NaN \<and> \<not> jn_less (rt_margin t) (Fin 1) then 0
      else let w = (case jm_get ''1m'' (ru_weightBy (rt_usage t)) of
                      Some v \<Rightarrow> v | None \<Rightarrow> ru_usedWeight (rt_usage t))
           in if w = NaN \<or> w = Fin 0 then 0
              else if now - ru_lastUpdated (rt_usage t) > 60000 then 0
              else if jn_less w (jn_mul (rt_limit t) (rt_margin t)) then 0
              else 60000 - brem now 60000)"

section \<open>Backoff policies\<close>

record backoff_options =
  bo_baseMs :: "rat option"
  bo_maxMs :: "rat option"
  bo_jitter :: "bool option"

definition exponentialBackoff :: "backoff_options \<Rightarrow> rat \<Rightarrow> int \<Rightarrow> rat" where
  "exponentialBackoff opts random attempt =
     (let base = (case bo_baseMs opts of None \<Rightarrow> 1000 | Some b \<Rightarrow> b);
          mx = (case bo_maxMs opts of None \<Rightarrow> 30000 | Some m \<Rightarrow> m);
          raw = min (base * 2 ^ nat (max 0 attempt)) mx
      in if bo_jitter opts = Some False then raw
         else of_int \<lfloor>raw / 2 + random * (raw / 2)\<rfloor>)"

definition fixedBackoff :: "rat \<Rightarrow> int \<Rightarrow> rat" where
  "fixedBackoff delayMs attempt = max 0 delayMs"

definition linearBackoff :: "rat option \<Rightarrow> rat option \<Rightarrow> int \<Rightarrow> rat" where
  "linearBackoff baseMs maxMs attempt =
     min ((case baseMs of None \<Rightarrow> 1000 | Some b \<Rightarrow> b) * (of_int (max 0 attempt) + 1))
         (case maxMs of None \<Rightarrow> 30000 | Some m \<Rightarrow> m)"

section \<open>Properties\<close>

lemma brem_nonneg: "0 \<le> a \<Longrightarrow> 0 < b \<Longrightarrow> brem a b = a mod b"
  by (simp add: brem_def bdiv_def minus_div_mult_eq_mod)

text \<open>The throttle. A tracker never asks for more than a minute, and a wait it asks for ends
  exactly at a full minute, where the exchange's window starts anew; it asks for one only on a
  report at most a minute old whose weight is at or above the safety threshold.\<close>
theorem throttle_to_minute:
  assumes "0 \<le> now" "d = getThrottleDelayMs now t" "d \<noteq> 0"
  shows "0 < d \<and> d \<le> 60000 \<and> (now + d) mod 60000 = 0 \<and>
    now - ru_lastUpdated (rt_usage t) \<le> 60000 \<and>
    (\<exists>w. w = (case jm_get ''1m'' (ru_weightBy (rt_usage t)) of Some v \<Rightarrow> v | None \<Rightarrow> ru_usedWeight (rt_usage t)) \<and>
      \<not> jn_less w (jn_mul (rt_limit t) (rt_margin t)))"
proof -
  have d: "d = 60000 - now mod 60000"
    using assms by (auto simp: getThrottleDelayMs_def brem_nonneg Let_def split: if_splits)
  have "(now + d) mod 60000 = 0"
    unfolding d by (simp add: algebra_simps mod_simps)
  moreover have "0 < d" "d \<le> 60000" unfolding d by simp_all
  moreover have "now - ru_lastUpdated (rt_usage t) \<le> 60000 \<and>
    \<not> jn_less (case jm_get ''1m'' (ru_weightBy (rt_usage t)) of Some v \<Rightarrow> v | None \<Rightarrow> ru_usedWeight (rt_usage t))
       (jn_mul (rt_limit t) (rt_margin t))"
    using assms(2,3) by (auto simp: getThrottleDelayMs_def Let_def split: if_splits)
  ultimately show ?thesis by blast
qed

text \<open>The jittered backoff. With \<open>raw\<close> the capped exponential, the delay is never above \<open>raw\<close>
  and never a whole millisecond or more below half of it; half of \<open>raw\<close> itself is guaranteed only
  when it is a whole number, because the delay is rounded down.\<close>
theorem exponential_backoff_bounds:
  assumes "0 \<le> random" "random < 1" "0 \<le> base" "0 \<le> mx"
    and "raw = min (base * 2 ^ nat (max 0 attempt)) mx"
    and "d = exponentialBackoff \<lparr>bo_baseMs = Some base, bo_maxMs = Some mx, bo_jitter = j\<rparr> random attempt"
  shows "0 \<le> d \<and> d \<le> raw \<and> raw / 2 - 1 < d \<and> (raw / 2 \<in> \<int> \<longrightarrow> raw / 2 \<le> d) \<and> (j = Some False \<longrightarrow> d = raw)"
proof (cases "j = Some False")
  case True
  then have "d = raw" using assms(5,6) by (simp add: exponentialBackoff_def Let_def)
  moreover have "0 \<le> raw" using assms(3-5) by simp
  ultimately show ?thesis by simp
next
  case False
  define x where "x = raw / 2 + random * (raw / 2)"
  have raw: "0 \<le> raw" using assms(3-5) by simp
  have d: "d = of_int \<lfloor>x\<rfloor>" using assms(5,6) False by (simp add: x_def exponentialBackoff_def Let_def)
  have lo: "raw / 2 \<le> x" using assms(1) raw by (simp add: x_def)
  have hi: "x \<le> raw"
    using mult_right_mono [of random 1 "raw / 2"] assms(2) raw by (simp add: x_def)
  have "of_int \<lfloor>x\<rfloor> \<le> raw" using order_trans [OF of_int_floor_le hi] .
  moreover have "x < of_int \<lfloor>x\<rfloor> + 1" by linarith
  moreover have "0 \<le> \<lfloor>x\<rfloor>" using lo raw by simp
  moreover have "raw / 2 \<le> of_int \<lfloor>x\<rfloor>" if whole: "raw / 2 \<in> \<int>"
  proof -
    obtain k where k: "raw / 2 = of_int k" using Ints_cases [OF whole] by blast
    then have "k \<le> \<lfloor>x\<rfloor>" using lo by (simp only: le_floor_iff)
    then show ?thesis unfolding k by simp
  qed
  ultimately show ?thesis using d lo hi False by auto
qed

theorem exponential_backoff_bounds_witness:
  "\<exists>d. d = exponentialBackoff \<lparr>bo_baseMs = Some 1, bo_maxMs = Some 30000, bo_jitter = None\<rparr> 0 0 \<and>
    0 \<le> d \<and> d < 1 / 2"
proof -
  have "\<lfloor>1 / 2 :: rat\<rfloor> = 0" by (simp add: floor_eq_iff)
  then show ?thesis
    using exponential_backoff_bounds [of 0 1 30000 1 0, OF _ _ _ _ _ refl, of None]
    by (simp add: exponentialBackoff_def)
qed

theorem throttle_to_minute_witness:
  "\<exists>t d. t = \<lparr>rt_limit = Fin 6000, rt_margin = Fin 0, rt_usage = \<lparr>ru_usedWeight = Fin 10,
      ru_weightBy = [(''1m'', Fin 10)], ru_ordersBy = [], ru_lastUpdated = 60000\<rparr>\<rparr> \<and>
    d = getThrottleDelayMs 61000 t \<and> d = 59000 \<and> (61000 + d) mod 60000 = 0"
proof -
  let ?t = "\<lparr>rt_limit = Fin 6000, rt_margin = Fin 0, rt_usage = \<lparr>ru_usedWeight = Fin 10,
      ru_weightBy = [(''1m'', Fin 10)], ru_ordersBy = [], ru_lastUpdated = 60000\<rparr>\<rparr>"
  have d: "getThrottleDelayMs 61000 ?t = 59000"
    by (simp add: getThrottleDelayMs_def jm_get_def js_round_def brem_def)
  show ?thesis using throttle_to_minute [of 61000 59000 ?t] d by simp
qed

end
