(* ===== verification/Retry_Safety.thy ===== *)
theory Retry_Safety
  imports JS_Value
begin

text \<open>
  What a failure means for a retry. The SDK's error classes (\<open>src/errors\<close>), the classifier of
  retry semantics (\<open>src/execution/platform/RetrySafety.ts\<close>), the recogniser of unknown outcomes
  (\<open>src/errors/BinanceUnknownExecutionError.ts\<close>) and the categories of WebSocket API methods
  (\<open>src/errors/RpcOutcomeUnknownError.ts\<close>). An error is a value of \<open>sdk_error\<close>, one
  constructor per class the classifiers test with \<open>instanceof\<close>; any other thrown value is
  \<open>OtherError\<close> with the \<open>name\<close>, \<open>code\<close> and \<open>status\<close> fields it may carry. The prose of a
  classification's reason is represented by a constructor with the values it mentions.
  Lemmas: which errors are safe, which need reconciliation, and how the two classifiers relate.
\<close>

section \<open>Errors\<close>

record api_error =
  ae_message :: string
  ae_code :: int
  ae_status :: int
  ae_endpoint :: string
  ae_method :: string

datatype rpc_category = WriteOrder | WriteCancel | WriteModify | AccountWrite | Session | Read

datatype rpc_cause = ConnectionDrop | RpcTimeout

record rpc_metadata =
  rm_requestId :: string
  rm_method :: string
  rm_category :: rpc_category
  rm_clientOrderId :: "string option"
  rm_symbol :: "string option"
  rm_connectionGeneration :: nat
  rm_submittedAt :: int
  rm_sentAt :: "int option"
  rm_cause :: rpc_cause

datatype sdk_error =
    ApiError api_error
  | RateLimitError api_error "js_number option"
  | NetworkError string
  | AuthError string
  | UnknownExecutionError string string
  | RpcOutcomeUnknownError rpc_metadata
  | ExecutionUnknownError nat string
  | OtherError string string "int option"

definition isRateLimitError :: "api_error \<Rightarrow> bool" where
  "isRateLimitError e \<longleftrightarrow> ae_code e = -1003 \<or> ae_status e = 429 \<or> ae_status e = 418"

definition isTimestampError :: "api_error \<Rightarrow> bool" where
  "isTimestampError e \<longleftrightarrow> ae_code e = -1021"

definition isInsufficientBalance :: "api_error \<Rightarrow> bool" where
  "isInsufficientBalance e \<longleftrightarrow> ae_code e = -2010"

section \<open>Retry semantics\<close>

datatype retry_safety = Safe | Idempotent | ReconciliationRequired | NeverRetry

datatype retry_reason =
    NoError
  | Undetermined nat string
  | TransportUnknown string string
  | RpcUnknown string string "string option" rpc_cause
  | TransportFailure
  | Unrecognized
  | ServerError int
  | OrderAbsent
  | CancelTargetGone
  | Throttled
  | ClockSkew
  | ExchangeUnknown
  | ExchangeDisconnected
  | ExchangeTimeout
  | DefinitiveRejection int string

definition classifyApiError :: "api_error \<Rightarrow> retry_safety \<times> retry_reason" where
  "classifyApiError e =
     (if ae_status e \<ge> 500 \<and> ae_status e < 600 then (ReconciliationRequired, ServerError (ae_status e))
      else if ae_code e = -2013 then (Safe, OrderAbsent)
      else if ae_code e = -2011 then (Safe, CancelTargetGone)
      else if isRateLimitError e then (Safe, Throttled)
      else if ae_code e = -1021 then (Safe, ClockSkew)
      else if ae_code e = -1000 then (ReconciliationRequired, ExchangeUnknown)
      else if ae_code e = -1001 then (ReconciliationRequired, ExchangeDisconnected)
      else if ae_code e = -1007 then (ReconciliationRequired, ExchangeTimeout)
      else (NeverRetry, DefinitiveRejection (ae_code e) (ae_message e)))"

fun classifyRetrySafety :: "sdk_error option \<Rightarrow> retry_safety \<times> retry_reason" where
  "classifyRetrySafety None = (NeverRetry, NoError)"
| "classifyRetrySafety (Some (ExecutionUnknownError attempts cid)) = (ReconciliationRequired, Undetermined attempts cid)"
| "classifyRetrySafety (Some (UnknownExecutionError cid sy)) = (ReconciliationRequired, TransportUnknown sy cid)"
| "classifyRetrySafety (Some (RpcOutcomeUnknownError m)) =
     (ReconciliationRequired, RpcUnknown (rm_method m) (rm_requestId m) (rm_clientOrderId m) (rm_cause m))"
| "classifyRetrySafety (Some (NetworkError msg)) = (ReconciliationRequired, TransportFailure)"
| "classifyRetrySafety (Some (ApiError e)) = classifyApiError e"
| "classifyRetrySafety (Some (RateLimitError e after)) = classifyApiError e"
| "classifyRetrySafety (Some (AuthError missing)) = (NeverRetry, Unrecognized)"
| "classifyRetrySafety (Some (OtherError name code status)) = (NeverRetry, Unrecognized)"

definition isRetrySafety :: "js_value \<Rightarrow> bool" where
  "isRetrySafety v \<longleftrightarrow> v = JStr ''safe'' \<or> v = JStr ''idempotent'' \<or>
     v = JStr ''reconciliation-required'' \<or> v = JStr ''never-retry''"

section \<open>Unknown outcomes\<close>

text \<open>The \<open>status\<close>, \<open>name\<close> and \<open>code\<close> properties an error value carries; the codes of API errors
  are numbers, never one of the socket codes.\<close>

fun err_status :: "sdk_error \<Rightarrow> int option" where
  "err_status (ApiError e) = Some (ae_status e)"
| "err_status (RateLimitError e _) = Some (ae_status e)"
| "err_status (OtherError _ _ st) = st"
| "err_status _ = None"

fun err_name :: "sdk_error \<Rightarrow> string" where
  "err_name (ApiError _) = ''BinanceApiError''"
| "err_name (RateLimitError _ _) = ''RateLimitError''"
| "err_name (NetworkError _) = ''NetworkError''"
| "err_name (AuthError _) = ''BinanceAuthError''"
| "err_name (UnknownExecutionError _ _) = ''BinanceUnknownExecutionError''"
| "err_name (RpcOutcomeUnknownError _) = ''RpcOutcomeUnknownError''"
| "err_name (ExecutionUnknownError _ _) = ''ExecutionUnknownError''"
| "err_name (OtherError n _ _) = n"

fun err_code :: "sdk_error \<Rightarrow> string" where
  "err_code (OtherError _ c _) = c"
| "err_code _ = []"

definition is_unknown_execution :: "sdk_error \<Rightarrow> bool" where
  "is_unknown_execution e = (case e of UnknownExecutionError _ _ \<Rightarrow> True | _ \<Rightarrow> False)"

definition classifyUnknownExecution :: "sdk_error option \<Rightarrow> string \<Rightarrow> string \<Rightarrow> sdk_error option" where
  "classifyUnknownExecution err clientOrderId symbol =
     (case err of
        None \<Rightarrow> None
      | Some e \<Rightarrow>
          if is_unknown_execution e then Some e
          else (case err_status e of
             Some status \<Rightarrow> if status \<ge> 500 \<and> status < 600 then Some (UnknownExecutionError clientOrderId symbol) else None
           | None \<Rightarrow>
               if err_name e = ''TimeoutError'' \<or> err_code e = ''ECONNRESET'' \<or> err_code e = ''ETIMEDOUT'' \<or>
                  err_code e = ''EPIPE'' \<or> err_name e = ''NetworkError''
               then Some (UnknownExecutionError clientOrderId symbol) else None))"

section \<open>Categories of WebSocket API methods\<close>

definition classifyRpcMethod :: "string \<Rightarrow> rpc_category" where
  "classifyRpcMethod method =
     (if starts_with method ''session.'' then Session
      else if method \<in> {''order.place'', ''orderList.place'', ''algoOrder.place'', ''order.batch'', ''order.cancelReplace''}
      then WriteOrder
      else if method \<in> {''order.cancel'', ''orderList.cancel'', ''openOrders.cancelAll'', ''algoOrder.cancel'',
                        ''algoOpenOrders.cancelAll'', ''orderList.cancelAll''}
      then WriteCancel
      else if method \<in> {''order.modify'', ''orderList.modify'', ''algoOrder.modify''} then WriteModify
      else if method \<in> {''userDataStream.start'', ''userDataStream.ping'', ''userDataStream.stop''} then AccountWrite
      else Read)"

definition isOrderWriteCategory :: "rpc_category \<Rightarrow> bool" where
  "isOrderWriteCategory c \<longleftrightarrow> c = WriteOrder \<or> c = WriteCancel \<or> c = WriteModify"

section \<open>Properties\<close>

lemma classifyApiError_safe:
  "fst (classifyApiError e) = Safe \<longleftrightarrow>
     \<not> (500 \<le> ae_status e \<and> ae_status e < 600) \<and> (ae_code e \<in> {-2013, -2011, -1021, -1003} \<or> ae_status e \<in> {429, 418})"
  by (auto simp: classifyApiError_def isRateLimitError_def)

lemma classifyApiError_server: "500 \<le> ae_status e \<Longrightarrow> ae_status e < 600 \<Longrightarrow>
  fst (classifyApiError e) = ReconciliationRequired"
  by (simp add: classifyApiError_def)

text \<open>A failure is only called safe on proof. Exactly the API errors outside the 5xx range that
  name an absent order, a throttled request or a clock skew are safe to retry; no transport
  failure, unknown outcome or unrecognized value is, and the live exchange never earns
  \<open>Idempotent\<close>.\<close>
theorem safe_only_on_proof:
  "(fst (classifyRetrySafety err) = Safe \<longleftrightarrow>
      (\<exists>e r. (err = Some (ApiError e) \<or> err = Some (RateLimitError e r)) \<and>
         \<not> (500 \<le> ae_status e \<and> ae_status e < 600) \<and>
         (ae_code e \<in> {-2013, -2011, -1021, -1003} \<or> ae_status e \<in> {429, 418}))) \<and>
   fst (classifyRetrySafety err) \<noteq> Idempotent"
proof (cases err rule: classifyRetrySafety.cases)
  case (6 e)
  then show ?thesis using classifyApiError_safe [of e] by (auto simp: classifyApiError_def)
next
  case (7 e r)
  then show ?thesis using classifyApiError_safe [of e] by (auto simp: classifyApiError_def)
qed simp_all

text \<open>The two classifiers agree on outcomes recognised as unknown. Whatever SDK error the
  recogniser wraps as unknown is classified as needing reconciliation. The converse fails: an
  unknown outcome of the WebSocket API and the exchange's own UNKNOWN, DISCONNECTED and TIMEOUT
  codes outside 5xx need reconciliation, and the recogniser lets them through.\<close>
theorem unknown_needs_reconciliation:
  assumes "\<forall>n c st. err \<noteq> Some (OtherError n c st)"
  shows "(classifyUnknownExecution err cid sy \<noteq> None \<longrightarrow> fst (classifyRetrySafety err) = ReconciliationRequired) \<and>
    (fst (classifyRetrySafety err) = ReconciliationRequired \<and> classifyUnknownExecution err cid sy = None \<longleftrightarrow>
       (\<exists>m. err = Some (RpcOutcomeUnknownError m)) \<or> (\<exists>n c. err = Some (ExecutionUnknownError n c)) \<or>
       (\<exists>e r. (err = Some (ApiError e) \<or> err = Some (RateLimitError e r)) \<and>
          \<not> (500 \<le> ae_status e \<and> ae_status e < 600) \<and> ae_code e \<in> {-1000, -1001, -1007} \<and> ae_status e \<notin> {429, 418}))"
  using assms
  by (cases err rule: classifyRetrySafety.cases)
     (auto simp: classifyUnknownExecution_def is_unknown_execution_def classifyApiError_def isRateLimitError_def)

theorem unknown_needs_reconciliation_witness:
  "classifyUnknownExecution (Some (RpcOutcomeUnknownError \<lparr>rm_requestId = ''1'', rm_method = ''order.place'',
     rm_category = WriteOrder, rm_clientOrderId = None, rm_symbol = None, rm_connectionGeneration = 1, rm_submittedAt = 0,
     rm_sentAt = Some 0, rm_cause = RpcTimeout\<rparr>)) ''a'' ''BTCUSDT'' = None"
  using unknown_needs_reconciliation [of "Some (RpcOutcomeUnknownError \<lparr>rm_requestId = ''1'',
     rm_method = ''order.place'', rm_category = WriteOrder, rm_clientOrderId = None, rm_symbol = None,
     rm_connectionGeneration = 1, rm_submittedAt = 0, rm_sentAt = Some 0, rm_cause = RpcTimeout\<rparr>)" "''a''" "''BTCUSDT''"]
  by blast

end
