(* ===== verification/Trading_Policy.thy ===== *)
theory Trading_Policy
  imports JS_Value
begin

text \<open>
  \<open>src/client/TradingPolicy.ts\<close>: the guardrails evaluated before a request leaves the process. The
  state is the options, the symbol fence and the registered reference prices; a check returns the
  error it throws, if any, and the policy, since looking up a stale reference price removes it. The
  prose of a violation is represented by its rule. The clock is an argument.
  Lemmas: what a request that passes satisfies (no mutating request escapes the fences it names),
  that reads are never touched, and where an order's notional is not seen.
\<close>

section \<open>State\<close>

datatype http_method = GET | POST | PUT | DELETE

datatype policy_rule =
    BlockedPath | ReadOnly | WithdrawalsBlocked | TransfersBlocked | SymbolNotAllowed
  | NotionalUndeterminable | MaxNotionalPerOrder
  | CircuitBreaker | MaxLeverage | MaxOpenNotional | MaxPositionNotional | MaxDailyLoss

datatype policy_error = PolicyViolation policy_rule http_method string | DryRun http_method string

record policy_options =
  po_dryRun :: bool
  po_readOnly :: bool
  po_allowedSymbols :: "string list option"
  po_maxNotional :: "js_number option"
  po_referenceTtl :: "int option"
  po_allowWithdrawals :: "bool option"
  po_allowTransfers :: "bool option"
  po_blockedPaths :: "string list"

record trading_policy =
  tp_options :: policy_options
  tp_allowed :: "string set option"
  tp_references :: "(string, js_number \<times> int) jsmap"

definition new_TradingPolicy :: "policy_options \<Rightarrow> trading_policy" where
  "new_TradingPolicy opts =
     \<lparr>tp_options = opts, tp_allowed = map_option (\<lambda>ss. set (map to_upper ss)) (po_allowedSymbols opts),
      tp_references = []\<rparr>"

definition WITHDRAW_FRAGMENTS :: "string list" where
  "WITHDRAW_FRAGMENTS = [''/capital/withdraw/apply'']"

definition TRANSFER_FRAGMENTS :: "string list" where
  "TRANSFER_FRAGMENTS = [''/asset/transfer'', ''/margin/transfer'', ''/margin/isolated/transfer'',
     ''/universaltransfer'', ''/futures/transfer'']"

definition toNumber :: "js_value \<Rightarrow> js_number option" where
  "toNumber v = (if v = JUndef \<or> v = JNull \<or> v = JStr [] then None else js_numOr v)"

definition includesFragment :: "string \<Rightarrow> string list \<Rightarrow> bool" where
  "includesFragment path fragments \<longleftrightarrow> (\<exists>f \<in> set fragments. has_substr (to_lower path) (to_lower f))"

section \<open>Operations\<close>

definition setAllowedSymbols :: "string list \<Rightarrow> trading_policy \<Rightarrow> trading_policy" where
  "setAllowedSymbols symbols p = p\<lparr>tp_allowed := Some (set (map to_upper symbols))\<rparr>"

definition usable_price :: "js_number \<Rightarrow> bool" where
  "usable_price x \<longleftrightarrow> jn_less (Fin 0) x \<and> jn_finite x"

definition setReferencePrice :: "string \<Rightarrow> js_number \<Rightarrow> int \<Rightarrow> trading_policy \<Rightarrow> trading_policy" where
  "setReferencePrice symbol price seen p =
     (if \<not> usable_price price then p
      else p\<lparr>tp_references := jm_set (to_upper symbol) (price, seen) (tp_references p)\<rparr>)"

definition freshReferencePrice :: "int \<Rightarrow> js_value \<Rightarrow> trading_policy \<Rightarrow> js_number option \<times> trading_policy" where
  "freshReferencePrice now symbol p =
     (case symbol of
        JStr s \<Rightarrow>
          if s = [] then (None, p)
          else (case jm_get (to_upper s) (tp_references p) of
                  None \<Rightarrow> (None, p)
                | Some (price, seen) \<Rightarrow>
                    if now - seen > (case po_referenceTtl (tp_options p) of None \<Rightarrow> 30000 | Some t \<Rightarrow> t)
                    then (None, p\<lparr>tp_references := jm_del (to_upper s) (tp_references p)\<rparr>)
                    else (Some price, p))
      | _ \<Rightarrow> (None, p))"

definition jn_greater :: "js_number \<Rightarrow> js_number \<Rightarrow> bool" where
  "jn_greater x y \<longleftrightarrow> jn_less y x"

definition assertOrderNotional :: "int \<Rightarrow> string \<Rightarrow> js_value \<Rightarrow> js_value \<Rightarrow> js_number \<Rightarrow> trading_policy
    \<Rightarrow> policy_error option \<times> trading_policy" where
  "assertOrderNotional now symbol quantity quoteOrderQty referencePrice p =
     (if \<not> usable_price referencePrice
      then (Some (PolicyViolation NotionalUndeterminable POST ''order''), p)
      else
        let p1 = setReferencePrice symbol referencePrice now p
        in case po_maxNotional (tp_options p) of
             None \<Rightarrow> (None, p1)
           | Some mx \<Rightarrow>
               (case (case toNumber quoteOrderQty of
                        Some q \<Rightarrow> Some q
                      | None \<Rightarrow> map_option (\<lambda>q. jn_mul q referencePrice) (toNumber quantity)) of
                  None \<Rightarrow> (Some (PolicyViolation NotionalUndeterminable POST ''order''), p1)
                | Some notional \<Rightarrow>
                    (if jn_greater notional mx then Some (PolicyViolation MaxNotionalPerOrder POST ''order'') else None, p1)))"

definition checkSymbol :: "js_value \<Rightarrow> trading_policy \<Rightarrow> policy_rule option" where
  "checkSymbol params p =
     (case tp_allowed p of
        None \<Rightarrow> None
      | Some allowed \<Rightarrow>
          (case js_field ''symbol'' params of
             JStr s \<Rightarrow> if s = [] \<or> to_upper s \<in> allowed then None else Some SymbolNotAllowed
           | _ \<Rightarrow> None))"

text \<open>\<open>a ?? b ?? c\<close> over the quote quantity, the price and the reference price.\<close>

definition order_notional :: "js_value \<Rightarrow> js_number option \<Rightarrow> js_number option" where
  "order_notional params reference =
     (case toNumber (js_field ''quoteOrderQty'' params) of
        Some q \<Rightarrow> Some q
      | None \<Rightarrow>
          (case toNumber (js_field ''quantity'' params) of
             None \<Rightarrow> None
           | Some q \<Rightarrow>
               (case toNumber (js_field ''price'' params) of
                  Some pr \<Rightarrow> Some (jn_mul pr q)
                | None \<Rightarrow> map_option (\<lambda>r. jn_mul r q) reference)))"

definition checkNotional :: "int \<Rightarrow> string \<Rightarrow> js_value \<Rightarrow> trading_policy \<Rightarrow> policy_rule option \<times> trading_policy" where
  "checkNotional now path params p =
     (case po_maxNotional (tp_options p) of
        None \<Rightarrow> (None, p)
      | Some mx \<Rightarrow>
          if \<not> has_substr (to_lower path) ''order'' then (None, p)
          else if toNumber (js_field ''quantity'' params) = None \<and> toNumber (js_field ''quoteOrderQty'' params) = None
          then (None, p)
          else let (reference, p1) = freshReferencePrice now (js_field ''symbol'' params) p
               in case order_notional params reference of
                    None \<Rightarrow> (Some NotionalUndeterminable, p1)
                  | Some notional \<Rightarrow> (if jn_greater notional mx then Some MaxNotionalPerOrder else None, p1))"

definition path_rule :: "string \<Rightarrow> policy_options \<Rightarrow> policy_rule option" where
  "path_rule path opts =
     (if po_blockedPaths opts \<noteq> [] \<and> includesFragment path (po_blockedPaths opts) then Some BlockedPath
      else if po_readOnly opts then Some ReadOnly
      else if includesFragment path WITHDRAW_FRAGMENTS \<and> po_allowWithdrawals opts \<noteq> Some True
      then Some WithdrawalsBlocked
      else if includesFragment path TRANSFER_FRAGMENTS \<and> po_allowTransfers opts = Some False
      then Some TransfersBlocked
      else None)"

definition tp_check :: "int \<Rightarrow> http_method \<Rightarrow> string \<Rightarrow> js_value \<Rightarrow> trading_policy \<Rightarrow> policy_error option \<times> trading_policy" where
  "tp_check now method path params p =
     (if method = GET then (None, p)
      else case path_rule path (tp_options p) of
             Some r \<Rightarrow> (Some (PolicyViolation r method path), p)
           | None \<Rightarrow>
               (case checkSymbol params p of
                  Some r \<Rightarrow> (Some (PolicyViolation r method path), p)
                | None \<Rightarrow>
                    let (r, p1) = checkNotional now path params p
                    in case r of
                         Some r \<Rightarrow> (Some (PolicyViolation r method path), p1)
                       | None \<Rightarrow> (if po_dryRun (tp_options p) then Some (DryRun method path) else None, p1)))"

section \<open>Properties\<close>

lemma freshReferencePrice_frame [simp]:
  "tp_options (snd (freshReferencePrice now sy p)) = tp_options p"
  "tp_allowed (snd (freshReferencePrice now sy p)) = tp_allowed p"
  by (simp_all add: freshReferencePrice_def split: js_value.split option.split prod.split)

lemma checkNotional_policy:
  "snd (checkNotional now path params p) = p \<or>
   snd (checkNotional now path params p) = snd (freshReferencePrice now (js_field ''symbol'' params) p)"
  by (simp add: checkNotional_def Let_def split: option.split prod.split)

lemma checkNotional_frame [simp]:
  "tp_options (snd (checkNotional now path params p)) = tp_options p"
  "tp_allowed (snd (checkNotional now path params p)) = tp_allowed p"
  using checkNotional_policy [of now path params p] by auto

lemma checkNotional_ok:
  assumes "fst (checkNotional now path params p) = None" "po_maxNotional (tp_options p) = Some mx"
    and "has_substr (to_lower path) ''order''"
    and "toNumber (js_field ''quantity'' params) \<noteq> None \<or> toNumber (js_field ''quoteOrderQty'' params) \<noteq> None"
  shows "\<exists>n. order_notional params (fst (freshReferencePrice now (js_field ''symbol'' params) p)) = Some n \<and> \<not> jn_less mx n"
  using assms
  by (auto simp: checkNotional_def jn_greater_def Let_def split: option.splits prod.splits if_splits)

text \<open>C10: a mutating request that passes the policy is inside every fence. Its path is on no list
  that refuses it, the symbol it names is on the allowlist, and when it is an order that names a
  size under a notional cap, its notional is determined and not above the cap; a dry-run or
  read-only policy lets no mutating request through, and a read is never touched.\<close>
theorem passed_inside_fences:
  "if method = GET then tp_check now method path params p = (None, p)
   else fst (tp_check now method path params p) = None \<longrightarrow>
     path_rule path (tp_options p) = None \<and> \<not> po_dryRun (tp_options p) \<and> \<not> po_readOnly (tp_options p) \<and>
     (\<forall>allowed s. tp_allowed p = Some allowed \<and> js_field ''symbol'' params = JStr s \<and> s \<noteq> [] \<longrightarrow> to_upper s \<in> allowed) \<and>
     (\<forall>mx. po_maxNotional (tp_options p) = Some mx \<and> has_substr (to_lower path) ''order'' \<and>
        (toNumber (js_field ''quantity'' params) \<noteq> None \<or> toNumber (js_field ''quoteOrderQty'' params) \<noteq> None) \<longrightarrow>
        (\<exists>n. order_notional params (fst (freshReferencePrice now (js_field ''symbol'' params) p)) = Some n \<and> \<not> jn_less mx n))"
proof (cases "method = GET")
  case True
  then show ?thesis by (simp add: tp_check_def)
next
  case False
  show ?thesis
  proof (cases "fst (tp_check now method path params p) = None")
    case True
    then have pass: "path_rule path (tp_options p) = None" "checkSymbol params p = None"
        "fst (checkNotional now path params p) = None" "\<not> po_dryRun (tp_options p)"
      using False by (auto simp: tp_check_def Let_def split: option.splits prod.splits if_splits)
    moreover have "\<not> po_readOnly (tp_options p)"
      using pass(1) by (auto simp: path_rule_def split: if_splits)
    moreover have "to_upper s \<in> allowed" if "tp_allowed p = Some allowed" "js_field ''symbol'' params = JStr s" "s \<noteq> []" for allowed s
      using pass(2) that by (simp add: checkSymbol_def split: if_splits)
    ultimately show ?thesis using False checkNotional_ok [of now path params p] by simp
  next
    case refused: False
    then show ?thesis using False by (metis (full_types))
  qed
qed

text \<open>Batch orders are not seen. A batch carries its orders in one JSON parameter; a request
  without a symbol, quantity or quote quantity of its own passes the allowlist and the notional
  cap, whatever orders it contains.\<close>
theorem batch_orders_unfenced:
  assumes "params = JObj [(''batchOrders'', orders)]"
    and "path_rule path (tp_options p) = None" "\<not> po_dryRun (tp_options p)"
  shows "tp_check now method path params p = (None, p)"
proof -
  have "checkSymbol params p = None" using assms(1) by (simp add: checkSymbol_def split: option.split)
  moreover have "checkNotional now path params p = (None, p)"
    using assms(1) by (simp add: checkNotional_def toNumber_def split: option.split)
  ultimately show ?thesis using assms(2,3) by (simp add: tp_check_def)
qed

definition wit_policy :: trading_policy where
  "wit_policy = new_TradingPolicy \<lparr>po_dryRun = False, po_readOnly = False, po_allowedSymbols = Some [''btcusdt''],
     po_maxNotional = Some (Fin 100), po_referenceTtl = None, po_allowWithdrawals = None,
     po_allowTransfers = None, po_blockedPaths = []\<rparr>"

lemma wit_policy_path: "path_rule ''/fapi/v1/batchOrders'' (tp_options wit_policy) = None \<and> path_rule ''/fapi/v1/order'' (tp_options wit_policy) = None"
  by code_simp

theorem batch_orders_unfenced_witness:
  "tp_check 0 POST ''/fapi/v1/batchOrders'' (JObj [(''batchOrders'', JStr ''[...]'')]) wit_policy = (None, wit_policy)"
  using batch_orders_unfenced [OF refl, of "''/fapi/v1/batchOrders''" wit_policy] wit_policy_path
  by (simp add: wit_policy_def new_TradingPolicy_def)

definition wit_order_params :: "string \<Rightarrow> js_value" where
  "wit_order_params q = JObj [(''symbol'', JStr ''BTCUSDT''), (''quoteOrderQty'', JNum (Fin 50)), (''side'', JStr q)]"

theorem passed_inside_fences_witness:
  "fst (tp_check 0 POST ''/fapi/v1/order'' (wit_order_params ''BUY'') wit_policy) = None \<and>
    order_notional (wit_order_params ''BUY'') (fst (freshReferencePrice 0 (JStr ''BTCUSDT'') wit_policy)) = Some (Fin 50)"
proof -
  have ok: "fst (tp_check 0 POST ''/fapi/v1/order'' (wit_order_params ''BUY'') wit_policy) = None"
    by code_simp
  moreover have "js_field ''symbol'' (wit_order_params ''BUY'') = JStr ''BTCUSDT''" by (simp add: wit_order_params_def)
  ultimately show ?thesis
    using passed_inside_fences [of POST 0 "''/fapi/v1/order''" "wit_order_params ''BUY''" wit_policy]
    by (simp add: order_notional_def wit_order_params_def toNumber_def js_numOr_def jn_finite_def)
qed

end
