(* ===== verification/Http_Client.thy ===== *)
theory Http_Client
  imports Rate_Limit Retry_Safety Trading_Policy
begin

text \<open>
  The request pipeline of \<open>src/client/HttpClient.ts\<close>: the policy gate, the throttle, the signed
  URL of every attempt, the exchange's answer, and the retries. The exchange (axios and the
  network), the clock, the randomness and the cryptographic signature are arguments, gathered in
  \<open>http_env\<close>; the exchange answers per attempt. The rate limiter (bottleneck) runs what it is
  given and is left out, as is the contract metadata attached to events. What happens is returned
  as a list of events, \<open>HSent\<close> for every request that leaves the process among them. Delays are
  exact rationals.
  Lemmas: which requests are ever sent twice, how many attempts there are, what the final error
  means for a retry (through \<open>Retry_Safety\<close>), and that a refused request sends nothing.
\<close>

section \<open>State\<close>

datatype auth_mode = Public | ApiKeyMode | Signed
datatype retry_policy = Strict | Legacy
datatype signature_algorithm = HMAC | ED25519 | RSA

record signer =
  sg_algorithm :: signature_algorithm
  sg_apiSecret :: "string option"
  sg_hasPrivateKey :: bool

record http_client =
  hc_apiKey :: "string option"
  hc_signer :: signer
  hc_recvWindow :: int
  hc_maxRetries :: nat
  hc_minTimeMs :: int
  hc_baseDelay :: rat
  hc_maxDelay :: rat
  hc_factor :: rat
  hc_retryPolicy :: retry_policy
  hc_idempotentPaths :: "string list"
  hc_trading :: "trading_policy option"
  hc_tracker :: rate_tracker
  hc_pending :: int
  hc_offset :: int
  hc_counter :: nat

record http_request =
  rq_method :: http_method
  rq_url :: string
  rq_headers :: "(string \<times> string) list"

record error_body =
  eb_code :: "int option"
  eb_msg :: "string option"

type_synonym header_list = "(string \<times> string) list"

datatype http_outcome =
    HttpOk int js_value header_list
  | HttpFailed "int option" "error_body option" header_list string
  | HttpOdd

record http_env =
  he_now :: "nat \<Rightarrow> int"
  he_random :: "nat \<Rightarrow> rat"
  he_sign :: "string \<Rightarrow> string"
  he_send :: "nat \<Rightarrow> http_request \<Rightarrow> http_outcome"

datatype http_event =
    HStart nat
  | HSlept rat
  | HSent nat http_request
  | HEnd nat int nat
  | HRetry nat nat rat "int option"
  | HError nat "int option" nat bool
  | HUnexpected nat

definition RETRYABLE_STATUS :: "int set" where
  "RETRYABLE_STATUS = {429, 418, 500, 502, 503, 504}"

definition UNPROCESSED_STATUS :: "int set" where
  "UNPROCESSED_STATUS = {429, 418}"

definition IDEMPOTENT_POST_PREFIXES :: "string list" where
  "IDEMPOTENT_POST_PREFIXES = [''/fapi/v1/order/test'', ''/api/v3/order/test'', ''/sapi/v1/capital/deposit/hisrec'']"

definition canSign :: "signer \<Rightarrow> bool" where
  "canSign s = (if sg_algorithm s = HMAC then sg_apiSecret s \<noteq> None \<and> sg_apiSecret s \<noteq> Some [] else sg_hasPrivateKey s)"

record retry_options =
  ro_maxRetries :: "nat option"
  ro_baseDelayMs :: "rat option"
  ro_maxDelayMs :: "rat option"
  ro_factor :: "rat option"
  ro_policy :: "retry_policy option"

definition configureRetry :: "retry_options \<Rightarrow> http_client \<Rightarrow> http_client" where
  "configureRetry opts c = c\<lparr>
     hc_maxRetries := (case ro_maxRetries opts of Some n \<Rightarrow> n | None \<Rightarrow> hc_maxRetries c),
     hc_baseDelay := (case ro_baseDelayMs opts of Some n \<Rightarrow> n | None \<Rightarrow> hc_baseDelay c),
     hc_maxDelay := (case ro_maxDelayMs opts of Some n \<Rightarrow> n | None \<Rightarrow> hc_maxDelay c),
     hc_factor := (case ro_factor opts of Some n \<Rightarrow> n | None \<Rightarrow> hc_factor c),
     hc_retryPolicy := (case ro_policy opts of Some n \<Rightarrow> n | None \<Rightarrow> hc_retryPolicy c)\<rparr>"

definition new_HttpClient :: "string option \<Rightarrow> signer \<Rightarrow> int option \<Rightarrow> retry_options \<Rightarrow> string list
    \<Rightarrow> trading_policy option \<Rightarrow> js_number option \<Rightarrow> js_number option \<Rightarrow> http_client" where
  "new_HttpClient apiKey signer recvWindow opts idempotentPaths policy weightLimit margin =
     configureRetry opts
       \<lparr>hc_apiKey = apiKey, hc_signer = signer,
        hc_recvWindow = (case recvWindow of None \<Rightarrow> 5000 | Some w \<Rightarrow> w),
        hc_maxRetries = 3, hc_minTimeMs = 50, hc_baseDelay = 1000, hc_maxDelay = 30000, hc_factor = 2,
        hc_retryPolicy = Strict, hc_idempotentPaths = IDEMPOTENT_POST_PREFIXES @ idempotentPaths,
        hc_trading = policy, hc_tracker = new_RateLimitTracker weightLimit margin,
        hc_pending = 0, hc_offset = 0, hc_counter = 0\<rparr>"

section \<open>URLs and headers\<close>

definition query_entry :: "string \<times> js_value \<Rightarrow> string list" where
  "query_entry kv = (case kv of (key, val) \<Rightarrow>
     if val = JUndef \<or> val = JNull then []
     else case val of
            JArr items \<Rightarrow> map (\<lambda>item. key @ ''='' @ encodeURIComponent (js_string item)) items
          | _ \<Rightarrow> [key @ ''='' @ encodeURIComponent (js_string val)])"

definition buildQueryString :: "(string \<times> js_value) list \<Rightarrow> string" where
  "buildQueryString params = join_with ''&'' (concat (map query_entry params))"

definition appendQuery :: "string \<Rightarrow> (string \<times> js_value) list \<Rightarrow> string" where
  "appendQuery path params =
     (let q = buildQueryString params in if q = [] then path else path @ ''?'' @ q)"

text \<open>\<open>{ ...params, timestamp, recvWindow }\<close>\<close>

definition signed_params :: "int \<Rightarrow> http_client \<Rightarrow> (string \<times> js_value) list \<Rightarrow> (string \<times> js_value) list" where
  "signed_params now c params =
     jm_set ''recvWindow'' (JBig (hc_recvWindow c))
       (jm_set ''timestamp'' (JBig (now + hc_offset c)) params)"

definition buildUrl :: "(string \<Rightarrow> string) \<Rightarrow> int \<Rightarrow> http_client \<Rightarrow> string \<Rightarrow> (string \<times> js_value) list
    \<Rightarrow> auth_mode \<Rightarrow> sdk_error + string" where
  "buildUrl sign now c path params mode =
     (if mode \<noteq> Signed then Inr (appendQuery path params)
      else let q = buildQueryString (signed_params now c params)
           in if \<not> canSign (hc_signer c)
              then Inl (AuthError (if sg_algorithm (hc_signer c) = HMAC then ''apiSecret'' else ''privateKey''))
              else Inr (path @ ''?'' @ q @ ''&signature='' @ sign q))"

definition buildHeaders :: "http_client \<Rightarrow> auth_mode \<Rightarrow> sdk_error + header_list" where
  "buildHeaders c mode =
     (let hs = [(''Content-Type'', ''application/x-www-form-urlencoded''), (''User-Agent'', ''binance-sdk'')]
      in if mode = Public then Inr hs
         else case hc_apiKey c of
                Some k \<Rightarrow> if k = [] then Inl (AuthError ''apiKey'') else Inr (hs @ [(''X-MBX-APIKEY'', k)])
              | None \<Rightarrow> Inl (AuthError ''apiKey''))"

definition buildRequest :: "(string \<Rightarrow> string) \<Rightarrow> int \<Rightarrow> http_client \<Rightarrow> http_method \<Rightarrow> string
    \<Rightarrow> (string \<times> js_value) list \<Rightarrow> auth_mode \<Rightarrow> sdk_error + http_request" where
  "buildRequest sign now c method path params mode =
     bindR (buildUrl sign now c path params mode) (\<lambda>url.
     mapR (\<lambda>hs. \<lparr>rq_method = method, rq_url = url, rq_headers = hs\<rparr>) (buildHeaders c mode))"

definition normalizeHeaders :: "header_list \<Rightarrow> header_list" where
  "normalizeHeaders hs = foldl (\<lambda>m (k, v). jm_set (to_lower k) v m) [] hs"

definition parseRetryAfterMs :: "header_list \<Rightarrow> js_number option" where
  "parseRetryAfterMs headers =
     (case jm_get ''retry-after'' headers of
        None \<Rightarrow> None
      | Some raw \<Rightarrow>
          if raw = [] then None
          else let seconds = string_to_number raw
               in if jn_finite seconds then Some (jn_mul seconds (Fin 1000)) else None)"

section \<open>Retries\<close>

definition shouldRetry :: "int option \<Rightarrow> bool" where
  "shouldRetry status = (case status of Some s \<Rightarrow> s \<in> RETRYABLE_STATUS | None \<Rightarrow> True)"

definition isRetrySafe :: "http_client \<Rightarrow> http_method \<Rightarrow> string \<Rightarrow> bool" where
  "isRetrySafe c method path =
     (if method = GET \<or> method = DELETE then True
      else \<exists>prefix \<in> set (hc_idempotentPaths c). starts_with (to_lower path) (to_lower prefix))"

definition canRetry :: "http_client \<Rightarrow> http_method \<Rightarrow> string \<Rightarrow> int option \<Rightarrow> bool" where
  "canRetry c method path status =
     (if hc_retryPolicy c = Legacy then True
      else if (case status of Some s \<Rightarrow> s \<in> UNPROCESSED_STATUS | None \<Rightarrow> False) then True
      else isRetrySafe c method path)"

definition calculateDelay :: "http_client \<Rightarrow> rat \<Rightarrow> nat \<Rightarrow> rat" where
  "calculateDelay c random attempt =
     (let delay = min (hc_baseDelay c * hc_factor c ^ attempt) (hc_maxDelay c);
          jitter = delay * (1 / 10) * (random * 2 - 1)
      in max 0 (delay + jitter))"

definition api_error_of :: "string \<Rightarrow> http_method \<Rightarrow> error_body option \<Rightarrow> int \<Rightarrow> string \<Rightarrow> api_error" where
  "api_error_of fallback method body status path =
     \<lparr>ae_message = (case body of Some b \<Rightarrow> (case eb_msg b of Some m \<Rightarrow> m | None \<Rightarrow> fallback) | None \<Rightarrow> fallback),
      ae_code = (case body of Some b \<Rightarrow> (case eb_code b of Some k \<Rightarrow> k | None \<Rightarrow> - 1) | None \<Rightarrow> - 1),
      ae_status = status, ae_endpoint = path,
      ae_method = (case method of GET \<Rightarrow> ''GET'' | POST \<Rightarrow> ''POST'' | PUT \<Rightarrow> ''PUT'' | DELETE \<Rightarrow> ''DELETE'')\<rparr>"

definition final_error :: "string \<Rightarrow> http_method \<Rightarrow> int option \<Rightarrow> error_body option \<Rightarrow> header_list \<Rightarrow> string \<Rightarrow> sdk_error" where
  "final_error path method status body headers message =
     (case status of
        Some s \<Rightarrow>
          if s = 429 \<or> s = 418
          then RateLimitError (api_error_of ''Binance rate limit exceeded'' method body s path) (parseRetryAfterMs headers)
          else if s \<noteq> 0 \<and> body \<noteq> None then ApiError (api_error_of ''Binance API error'' method body s path)
          else NetworkError message
      | None \<Rightarrow> NetworkError message)"

definition track :: "int \<Rightarrow> header_list \<Rightarrow> http_client \<Rightarrow> http_client" where
  "track now headers c = c\<lparr>hc_tracker := rt_update now (Some headers) (hc_tracker c)\<rparr>"

function requestWithRetry :: "http_env \<Rightarrow> http_client \<Rightarrow> http_method \<Rightarrow> string \<Rightarrow> (string \<times> js_value) list
    \<Rightarrow> auth_mode \<Rightarrow> nat \<Rightarrow> nat \<Rightarrow> (sdk_error + js_value) \<times> http_client \<times> http_event list" where
  "requestWithRetry env c method path params mode attempt requestId =
     (case buildRequest (he_sign env) (he_now env attempt) c method path params mode of
        Inl e \<Rightarrow> (Inl e, c, [])
      | Inr rq \<Rightarrow>
          let sent = HSent attempt rq
          in case he_send env attempt rq of
               HttpOk status value headers \<Rightarrow>
                 (Inr value, track (he_now env attempt) (normalizeHeaders headers) c, [sent, HEnd requestId status attempt])
             | HttpOdd \<Rightarrow> (Inl (NetworkError ''Unexpected error calling Binance API''), c, [sent, HUnexpected requestId])
             | HttpFailed status body rawHeaders message \<Rightarrow>
                 let headers = normalizeHeaders rawHeaders;
                     c1 = track (he_now env attempt) headers c
                 in if attempt < hc_maxRetries c \<and> shouldRetry status \<and> canRetry c method path status
                    then let delay = calculateDelay c (he_random env attempt) attempt;
                             (result, c2, evs) = requestWithRetry env (c1\<lparr>hc_pending := hc_pending c1 + 1\<rparr>)
                                                   method path params mode (attempt + 1) requestId
                         in (result, c2\<lparr>hc_pending := hc_pending c2 - 1\<rparr>,
                             [sent, HRetry requestId (attempt + 1) delay status, HSlept delay] @ evs)
                    else (Inl (final_error path method status body headers message), c1,
                          [sent, HError requestId status (attempt + 1)
                             (shouldRetry status \<and> \<not> canRetry c method path status)]))"
  by pat_completeness auto

termination
  by (relation "measure (\<lambda>(env, c, method, path, params, mode, attempt, requestId). hc_maxRetries c - attempt)")
     (auto simp: track_def)

declare requestWithRetry.simps [simp del]

text \<open>\<open>request\<close>: the gate, then the throttle, then the attempts.\<close>

datatype request_error = Refused policy_error | Failed sdk_error

definition policy_gate :: "int \<Rightarrow> http_client \<Rightarrow> http_method \<Rightarrow> string \<Rightarrow> (string \<times> js_value) list
    \<Rightarrow> policy_error option \<times> http_client" where
  "policy_gate now c method path params =
     (case hc_trading c of
        None \<Rightarrow> (None, c)
      | Some p \<Rightarrow> (case tp_check now method path (JObj params) p of (e, p1) \<Rightarrow> (e, c\<lparr>hc_trading := Some p1\<rparr>)))"

definition request :: "http_env \<Rightarrow> int \<Rightarrow> http_client \<Rightarrow> http_method \<Rightarrow> string \<Rightarrow> (string \<times> js_value) list
    \<Rightarrow> auth_mode \<Rightarrow> (request_error + js_value) \<times> http_client \<times> http_event list" where
  "request env now c method path params mode =
     (case policy_gate now c method path params of
        (Some e, c0) \<Rightarrow> (Inl (Refused e), c0, [])
      | (None, c0) \<Rightarrow>
             let requestId = hc_counter c0 + 1;
                 c1 = c0\<lparr>hc_counter := requestId\<rparr>;
                 throttle = getThrottleDelayMs now (hc_tracker c1);
                 (result, c2, evs) = requestWithRetry env c1 method path params mode 0 requestId
             in (case result of Inl e \<Rightarrow> Inl (Failed e) | Inr v \<Rightarrow> Inr v, c2,
                 [HStart requestId] @ (if throttle > 0 then [HSlept (of_int throttle)] else []) @ evs))"

text \<open>\<open>syncTime\<close>: the offset of the server's clock.\<close>

definition syncTime :: "int \<Rightarrow> int \<Rightarrow> http_client \<Rightarrow> http_client" where
  "syncTime serverTime now c = c\<lparr>hc_offset := serverTime - now\<rparr>"

section \<open>Attempts\<close>

fun sent_of :: "http_event \<Rightarrow> (nat \<times> http_request) list" where
  "sent_of (HSent a rq) = [(a, rq)]"
| "sent_of _ = []"

definition sends :: "http_event list \<Rightarrow> (nat \<times> http_request) list" where
  "sends evs = concat (map sent_of evs)"

lemma sends_simps [simp]: "sends [] = []" "sends (e # evs) = sent_of e @ sends evs" "sends (xs @ ys) = sends xs @ sends ys"
  by (simp_all add: sends_def)

text \<open>Why a failed attempt was followed by another.\<close>

definition retried_on :: "http_env \<Rightarrow> http_client \<Rightarrow> http_method \<Rightarrow> string \<Rightarrow> nat \<times> http_request \<Rightarrow> bool" where
  "retried_on env c method path ar = (case ar of (a, rq) \<Rightarrow>
     (\<exists>status body headers message. he_send env a rq = HttpFailed status body headers message \<and>
        shouldRetry status \<and> canRetry c method path status))"

lemma canRetry_frame: "hc_retryPolicy c' = hc_retryPolicy c \<Longrightarrow> hc_idempotentPaths c' = hc_idempotentPaths c \<Longrightarrow>
  canRetry c' method path status = canRetry c method path status"
  by (simp add: canRetry_def isRetrySafe_def)

lemma requestWithRetry_sends:
  "requestWithRetry env c method path params mode attempt requestId = (result, c', evs) \<Longrightarrow>
    attempt \<le> hc_maxRetries c \<Longrightarrow>
    (\<exists>n. map fst (sends evs) = [attempt ..< attempt + n] \<and> attempt + n \<le> hc_maxRetries c + 1) \<and>
    (\<forall>ar \<in> set (butlast (sends evs)). retried_on env c method path ar) \<and>
    hc_pending c' = hc_pending c"
proof (induction env c "method" path params mode attempt requestId arbitrary: result c' evs rule: requestWithRetry.induct)
  case (1 env c meth path params mode attempt requestId)
  note unf = requestWithRetry.simps [of env c meth path params mode attempt requestId]
  show ?case
  proof (cases "buildRequest (he_sign env) (he_now env attempt) c meth path params mode")
    case (Inl e)
    then show ?thesis using 1(2,3) unf by (auto intro: exI [of _ 0])
  next
    case (Inr rq)
    have one: "\<exists>n. [attempt] = [attempt ..< attempt + n] \<and> attempt + n \<le> hc_maxRetries c + 1"
      using 1(3) by (intro exI [of _ 1]) (simp add: upt_rec)
    show ?thesis
    proof (cases "he_send env attempt rq")
      case (HttpOk status v headers)
      then show ?thesis using 1(2) unf Inr one by (auto simp: track_def)
    next
      case HttpOdd
      then show ?thesis using 1(2) unf Inr one by auto
    next
      case (HttpFailed status body raw message)
      let ?c1 = "track (he_now env attempt) (normalizeHeaders raw) c"
      show ?thesis
      proof (cases "attempt < hc_maxRetries c \<and> shouldRetry status \<and> canRetry c meth path status")
        case False
        then have "sends evs = [(attempt, rq)]" "hc_pending c' = hc_pending c"
          using 1(2) unf Inr HttpFailed by (auto simp: Let_def track_def)
        then show ?thesis using one by simp
      next
        case True
        obtain r2 c2 evs2 where rec: "requestWithRetry env (?c1\<lparr>hc_pending := hc_pending ?c1 + 1\<rparr>)
            meth path params mode (attempt + 1) requestId = (r2, c2, evs2)"
          by (metis prod_cases3)
        have res: "c' = c2\<lparr>hc_pending := hc_pending c2 - 1\<rparr>" "sends evs = (attempt, rq) # sends evs2"
          using 1(2) unf Inr HttpFailed True rec by (auto simp: Let_def)
        have IH: "\<exists>n. map fst (sends evs2) = [attempt + 1 ..< attempt + 1 + n] \<and> attempt + 1 + n \<le> hc_maxRetries c + 1"
          "\<forall>ar \<in> set (butlast (sends evs2)). retried_on env c meth path ar" "hc_pending c2 = hc_pending c + 1"
          using "1.IH" [OF Inr refl HttpFailed refl refl True refl rec] True
            canRetry_frame [of "?c1\<lparr>hc_pending := hc_pending ?c1 + 1\<rparr>" c]
          by (simp_all add: track_def retried_on_def)
        obtain n where n: "map fst (sends evs2) = [attempt + 1 ..< attempt + 1 + n]" "attempt + 1 + n \<le> hc_maxRetries c + 1"
          using IH(1) by blast
        have "map fst (sends evs) = [attempt ..< attempt + Suc n]"
          using res(2) n(1) by (simp add: upt_conv_Cons)
        moreover have "retried_on env c meth path (attempt, rq)"
          using HttpFailed True by (auto simp: retried_on_def)
        ultimately show ?thesis
          using res IH(2,3) n(2) by (auto intro!: exI [of _ "Suc n"] split: if_splits)
      qed
    qed
  qed
qed

section \<open>The final error\<close>

lemma buildRequest_again:
  assumes "buildRequest sign now c method path params mode = Inr rq"
    and "hc_signer c' = hc_signer c" "hc_apiKey c' = hc_apiKey c"
  shows "\<exists>rq'. buildRequest sign now' c' method path params mode = Inr rq'"
proof -
  have "\<exists>url. buildUrl sign now c path params mode = Inr url" "\<exists>hs. buildHeaders c mode = Inr hs"
    using assms(1) by (auto simp: buildRequest_def bindR_def mapR_def split: sum.splits)
  moreover have "buildHeaders c' mode = buildHeaders c mode" unfolding buildHeaders_def assms(3) ..
  moreover have "(\<exists>url. buildUrl sign now' c' path params mode = Inr url) = (\<exists>url. buildUrl sign now c path params mode = Inr url)"
    using assms(2) by (simp add: buildUrl_def Let_def)
  ultimately show ?thesis by (auto simp: buildRequest_def)
qed

lemma requestWithRetry_sent:
  "buildRequest (he_sign env) (he_now env attempt) c method path params mode = Inr rq \<Longrightarrow>
    requestWithRetry env c method path params mode attempt requestId = (result, c', evs) \<Longrightarrow>
    \<exists>evs'. evs = HSent attempt rq # evs'"
  by (auto simp: requestWithRetry.simps [of env c] Let_def split: http_outcome.splits if_splits prod.splits)

definition error_after :: "http_env \<Rightarrow> http_method \<Rightarrow> string \<Rightarrow> nat \<times> http_request \<Rightarrow> sdk_error \<Rightarrow> bool" where
  "error_after env method path ar e = (case he_send env (fst ar) (snd ar) of
     HttpOk _ _ _ \<Rightarrow> False
   | HttpOdd \<Rightarrow> e = NetworkError ''Unexpected error calling Binance API''
   | HttpFailed status body headers message \<Rightarrow>
       e = final_error path method status body (normalizeHeaders headers) message)"

lemma requestWithRetry_error:
  "requestWithRetry env c method path params mode attempt requestId = (Inl e, c', evs) \<Longrightarrow>
    sends evs \<noteq> [] \<Longrightarrow> error_after env method path (last (sends evs)) e"
proof (induction env c "method" path params mode attempt requestId arbitrary: c' evs rule: requestWithRetry.induct)
  case (1 env c meth path params mode attempt requestId)
  note unf = requestWithRetry.simps [of env c meth path params mode attempt requestId]
  show ?case
  proof (cases "buildRequest (he_sign env) (he_now env attempt) c meth path params mode")
    case (Inl e')
    then show ?thesis using 1(2,3) unf by auto
  next
    case (Inr rq)
    show ?thesis
    proof (cases "he_send env attempt rq")
      case (HttpOk status v headers)
      then show ?thesis using 1(2) unf Inr by auto
    next
      case HttpOdd
      then show ?thesis using 1(2) unf Inr by (auto simp: error_after_def)
    next
      case (HttpFailed status body raw message)
      let ?c1 = "track (he_now env attempt) (normalizeHeaders raw) c"
      show ?thesis
      proof (cases "attempt < hc_maxRetries c \<and> shouldRetry status \<and> canRetry c meth path status")
        case False
        then show ?thesis using 1(2) unf Inr HttpFailed by (auto simp: Let_def error_after_def)
      next
        case True
        obtain r2 c2 evs2 where rec: "requestWithRetry env (?c1\<lparr>hc_pending := hc_pending ?c1 + 1\<rparr>)
            meth path params mode (attempt + 1) requestId = (r2, c2, evs2)"
          by (metis prod_cases3)
        have res: "r2 = Inl e" "sends evs = (attempt, rq) # sends evs2"
          using 1(2) unf Inr HttpFailed True rec by (auto simp: Let_def)
        obtain rq' where "buildRequest (he_sign env) (he_now env (attempt + 1)) (?c1\<lparr>hc_pending := hc_pending ?c1 + 1\<rparr>)
            meth path params mode = Inr rq'"
          using buildRequest_again [OF Inr, of "?c1\<lparr>hc_pending := hc_pending ?c1 + 1\<rparr>"] by (auto simp: track_def)
        then have "sends evs2 \<noteq> []" using requestWithRetry_sent rec by fastforce
        then show ?thesis
          using "1.IH" [OF Inr refl HttpFailed refl refl True refl rec [unfolded res(1)]] res(2) by simp
      qed
    qed
  qed
qed

lemma final_error_ambiguous:
  assumes "\<forall>s. status = Some s \<longrightarrow> 500 \<le> s \<and> s < 600"
  shows "fst (classifyRetrySafety (Some (final_error path method status body headers message))) = ReconciliationRequired"
  using assms
  by (cases status) (auto simp: final_error_def api_error_of_def classifyApiError_server)

section \<open>Properties\<close>

lemma request_passed:
  assumes "request env now c method path params mode = (result, c', evs)" "sends evs \<noteq> []"
  obtains c1 r c2 evs1 where "requestWithRetry env c1 method path params mode 0 (hc_counter c + 1) = (r, c2, evs1)"
    "sends evs = sends evs1" "hc_maxRetries c1 = hc_maxRetries c" "hc_retryPolicy c1 = hc_retryPolicy c"
    "hc_idempotentPaths c1 = hc_idempotentPaths c" "hc_pending c1 = hc_pending c" "c' = c2"
    "result = (case r of Inl e \<Rightarrow> Inl (Failed e) | Inr v \<Rightarrow> Inr v)"
proof -
  obtain refused c0 where c0: "policy_gate now c method path params = (refused, c0)" by fastforce
  have frame: "hc_maxRetries c0 = hc_maxRetries c" "hc_retryPolicy c0 = hc_retryPolicy c"
    "hc_idempotentPaths c0 = hc_idempotentPaths c" "hc_pending c0 = hc_pending c" "hc_counter c0 = hc_counter c"
    using c0 by (auto simp: policy_gate_def split: option.splits prod.splits)
  have refused: "refused = None"
  proof (cases refused)
    case (Some e)
    then show ?thesis using assms c0 by (simp add: request_def)
  qed simp
  obtain r c2 evs1 where r: "requestWithRetry env (c0\<lparr>hc_counter := hc_counter c0 + 1\<rparr>) method path params mode 0 (hc_counter c + 1)
      = (r, c2, evs1)" by (metis prod_cases3)
  have "request env now c method path params mode =
      (case r of Inl e \<Rightarrow> Inl (Failed e) | Inr v \<Rightarrow> Inr v, c2,
       [HStart (hc_counter c + 1)] @
       (if getThrottleDelayMs now (hc_tracker c0) > 0 then [HSlept (of_int (getThrottleDelayMs now (hc_tracker c0)))] else []) @ evs1)"
    using c0 r frame(5) by (simp add: request_def refused Let_def)
  then have eq: "c' = c2" "sends evs = sends evs1" "result = (case r of Inl e \<Rightarrow> Inl (Failed e) | Inr v \<Rightarrow> Inr v)"
    using assms(1) by (simp_all split: if_splits)
  show ?thesis by (rule that [OF r]) (simp_all add: eq frame)
qed

text \<open>C6: no order is submitted twice blindly. Under the strict policy, a POST or PUT on a path that
  is not whitelisted is sent again only after an attempt the exchange rejected unprocessed, with
  429 or 418; there are at most \<open>maxRetries + 1\<close> attempts, in order, and the number of pending
  requests is what it was.\<close>
theorem no_blind_resubmission:
  assumes "request env now c method path params mode = (result, c', evs)" "sends evs \<noteq> []"
    and "hc_retryPolicy c = Strict" "method = POST \<or> method = PUT" "\<not> isRetrySafe c method path"
  shows "(\<forall>(a, rq) \<in> set (butlast (sends evs)). \<exists>s body headers message.
      he_send env a rq = HttpFailed (Some s) body headers message \<and> (s = 429 \<or> s = 418)) \<and>
    map fst (sends evs) = [0 ..< length (sends evs)] \<and> length (sends evs) \<le> hc_maxRetries c + 1 \<and>
    hc_pending c' = hc_pending c"
proof -
  obtain c1 r c2 evs1 where r: "requestWithRetry env c1 method path params mode 0 (hc_counter c + 1) = (r, c2, evs1)"
    "sends evs = sends evs1" "hc_maxRetries c1 = hc_maxRetries c" "hc_retryPolicy c1 = hc_retryPolicy c"
    "hc_idempotentPaths c1 = hc_idempotentPaths c" "hc_pending c1 = hc_pending c" "c' = c2"
    by (rule request_passed [OF assms(1,2)])
  note res = requestWithRetry_sends [OF r(1)]
  obtain n where n: "map fst (sends evs) = [0 ..< n]" "n \<le> hc_maxRetries c + 1"
    using res r(2,3) by auto
  have "length (sends evs) = n" using n(1) by (metis diff_zero length_map length_upt)
  moreover have "canRetry c1 method path status \<Longrightarrow> \<exists>s. status = Some s \<and> (s = 429 \<or> s = 418)" for status
    using assms(3,5) canRetry_frame [of c1 c "method" path status] r(4,5)
    by (auto simp: canRetry_def UNPROCESSED_STATUS_def split: option.splits if_splits)
  then have only: "retried_on env c1 method path (a, rq) \<Longrightarrow> \<exists>s body headers message.
      he_send env a rq = HttpFailed (Some s) body headers message \<and> (s = 429 \<or> s = 418)" for a rq
    unfolding retried_on_def by fast
  have "\<forall>(a, rq) \<in> set (butlast (sends evs)). \<exists>s body headers message.
      he_send env a rq = HttpFailed (Some s) body headers message \<and> (s = 429 \<or> s = 418)"
    using res r(2) only by auto
  ultimately show ?thesis using n res r(6,7) by simp
qed

text \<open>An ambiguous failure is reported as one. When the last attempt of any request got no
  answer, or a 5xx, the error the caller receives is classified as needing reconciliation, never as
  safe to retry.\<close>
theorem ambiguous_failure_reported:
  assumes "request env now c method path params mode = (Inl (Failed e), c', evs)" "sends evs \<noteq> []"
    and "he_send env (fst (last (sends evs))) (snd (last (sends evs))) = HttpFailed status body headers message"
    and "status = None \<or> (\<exists>s. status = Some s \<and> 500 \<le> s \<and> s < 600)"
  shows "fst (classifyRetrySafety (Some e)) = ReconciliationRequired"
proof -
  obtain c1 r c2 evs1 where r: "requestWithRetry env c1 method path params mode 0 (hc_counter c + 1) = (r, c2, evs1)"
    "sends evs = sends evs1" "Inl (Failed e) = (case r of Inl e \<Rightarrow> Inl (Failed e) | Inr v \<Rightarrow> Inr v)"
    by (rule request_passed [OF assms(1,2)])
  have "r = Inl e" using r(3) by (cases r) auto
  then have "error_after env method path (last (sends evs)) e"
    using requestWithRetry_error r(1,2) assms(2) by metis
  then have "e = final_error path method status body (normalizeHeaders headers) message"
    using assms(3) by (simp add: error_after_def)
  then show ?thesis using final_error_ambiguous [of status] assms(4) by auto
qed

text \<open>A refused request costs nothing. When the policy refuses a request, nothing is sent, no
  request id is used up and no event is emitted; the caller gets the policy's error.\<close>
theorem refused_sends_nothing:
  assumes "hc_trading c = Some p" "tp_check now method path (JObj params) p = (Some e, p')"
  shows "request env now c method path params mode = (Inl (Refused e), c\<lparr>hc_trading := Some p'\<rparr>, [])"
  using assms by (simp add: request_def policy_gate_def)

definition wit_client :: http_client where
  "wit_client = new_HttpClient (Some ''key'') \<lparr>sg_algorithm = HMAC, sg_apiSecret = Some ''secret'', sg_hasPrivateKey = False\<rparr>
     None \<lparr>ro_maxRetries = None, ro_baseDelayMs = None, ro_maxDelayMs = None, ro_factor = None, ro_policy = None\<rparr>
     [] None None (Some (Fin 1))"

definition wit_env :: http_env where
  "wit_env = \<lparr>he_now = (\<lambda>a. 1000 * int a), he_random = (\<lambda>a. 1 / 2), he_sign = (\<lambda>q. ''sig''),
     he_send = (\<lambda>a rq. HttpFailed (Some (if a = 0 then 429 else 503)) None [] ''down'')\<rparr>"

definition wit_request :: "(request_error + js_value) \<times> http_client \<times> http_event list" where
  "wit_request = request wit_env 0 wit_client POST ''/fapi/v1/order'' [] Public"

lemma wit_request_value:
  "map fst (sends (snd (snd wit_request))) = [0, 1] \<and> fst wit_request = Inl (Failed (NetworkError ''down'')) \<and>
   hc_retryPolicy wit_client = Strict"
  by code_simp

lemma wit_client_unsafe: "\<not> isRetrySafe wit_client POST ''/fapi/v1/order''"
  by (simp add: wit_client_def new_HttpClient_def configureRetry_def isRetrySafe_def
      IDEMPOTENT_POST_PREFIXES_def to_lower_def lower_char_def)

lemma wit_request_split:
  obtains c' evs where "request wit_env 0 wit_client POST ''/fapi/v1/order'' [] Public
      = (Inl (Failed (NetworkError ''down'')), c', evs)" "map fst (sends evs) = [0, 1]"
  using wit_request_value by (cases wit_request) (auto simp: wit_request_def)

theorem no_blind_resubmission_witness:
  "\<exists>c' evs. request wit_env 0 wit_client POST ''/fapi/v1/order'' [] Public
      = (Inl (Failed (NetworkError ''down'')), c', evs) \<and> length (sends evs) = 2 \<and> hc_pending c' = 0"
proof -
  obtain c' evs where r: "request wit_env 0 wit_client POST ''/fapi/v1/order'' [] Public
      = (Inl (Failed (NetworkError ''down'')), c', evs)" "map fst (sends evs) = [0, 1]"
    by (rule wit_request_split)
  have "sends evs \<noteq> []" using r(2) by auto
  moreover have "length (sends evs) = 2" using r(2) by (metis length_map length_Cons list.size(3) numeral_2_eq_2)
  moreover have "hc_pending wit_client = 0" by (simp add: wit_client_def new_HttpClient_def configureRetry_def)
  ultimately show ?thesis
    using no_blind_resubmission [OF r(1)] wit_request_value wit_client_unsafe r(1) by auto
qed

theorem ambiguous_failure_reported_witness:
  "fst (classifyRetrySafety (Some (NetworkError ''down''))) = ReconciliationRequired"
proof -
  obtain c' evs where r: "request wit_env 0 wit_client POST ''/fapi/v1/order'' [] Public
      = (Inl (Failed (NetworkError ''down'')), c', evs)" "map fst (sends evs) = [0, 1]"
    by (rule wit_request_split)
  have "sends evs \<noteq> []" using r(2) by auto
  moreover have "fst (last (sends evs)) = 1" using r(2) by (metis calculation last_map last.simps list.distinct(1))
  ultimately show ?thesis
    using ambiguous_failure_reported [OF r(1), of "Some 503" None "[]" "''down''"] by (simp add: wit_env_def)
qed

theorem refused_sends_nothing_witness:
  "request wit_env 0 (wit_client\<lparr>hc_trading := Some (wit_policy\<lparr>tp_options := (tp_options wit_policy)\<lparr>po_readOnly := True\<rparr>\<rparr>)\<rparr>)
     POST ''/x'' [] Public
   = (Inl (Refused (PolicyViolation ReadOnly POST ''/x'')),
      wit_client\<lparr>hc_trading := Some (wit_policy\<lparr>tp_options := (tp_options wit_policy)\<lparr>po_readOnly := True\<rparr>\<rparr>)\<rparr>, [])"
proof -
  let ?p = "wit_policy\<lparr>tp_options := (tp_options wit_policy)\<lparr>po_readOnly := True\<rparr>\<rparr>"
  have "po_blockedPaths (tp_options wit_policy) = []" by (simp add: wit_policy_def new_TradingPolicy_def)
  then have "tp_check 0 POST ''/x'' (JObj []) ?p = (Some (PolicyViolation ReadOnly POST ''/x''), ?p)"
    by (simp add: tp_check_def path_rule_def)
  from refused_sends_nothing [OF _ this, of "wit_client\<lparr>hc_trading := Some ?p\<rparr>" wit_env Public] show ?thesis by simp
qed

end
