(* ===== verification/Risk_Gateway.thy ===== *)
theory Risk_Gateway
  imports Trading_Policy Decimal_Value
begin

text \<open>
  \<open>src/risk/RiskGateway.ts\<close>: the trading policy with account state on top, namely a leverage cap,
  budgets of open-order and open-position notional, a daily realized-loss limit and a circuit
  breaker. The UTC day of a time is its day number, the prose of a trip or violation its reason;
  the events published are left out. The clock is an argument of every operation that reads it.
  Lemmas: the breaker latches and refuses every mutating request of its day, a loss at the limit
  has always tripped it, an order that passes fits its budgets, the persisted state restores, and
  the laws of the exposure budget the execution layer relies on (locale \<open>exposure_budget\<close>).
\<close>

section \<open>State\<close>

datatype breaker_reason = MaxDailyLossReason | MaxConsecutiveFailures

record circuit_breaker =
  br_tripped :: bool
  br_reason :: "breaker_reason option"
  br_trippedAt :: "int option"

record risk_options =
  ko_maxLeverage :: "js_number option"
  ko_maxOpenNotional :: "js_number option"
  ko_maxPositionNotional :: "js_number option"
  ko_maxDailyLoss :: "js_number option"
  ko_maxConsecutiveFailures :: "js_number option"

record risk_gateway =
  rg_policy :: trading_policy
  rg_options :: risk_options
  rg_openNotional :: decimal
  rg_dailyPnl :: decimal
  rg_failures :: js_number
  rg_day :: int
  rg_breaker :: circuit_breaker
  rg_positions :: "(string, decimal) jsmap"

record persisted_risk =
  ps_day :: int
  ps_dailyPnl :: js_value
  ps_breaker :: "circuit_breaker option"
  ps_failures :: js_value

definition utcDay :: "int \<Rightarrow> int" where
  "utcDay now = now div 86400000"

definition untripped :: circuit_breaker where
  "untripped = \<lparr>br_tripped = False, br_reason = None, br_trippedAt = None\<rparr>"

definition new_RiskGateway :: "int \<Rightarrow> policy_options \<Rightarrow> risk_options \<Rightarrow> risk_gateway" where
  "new_RiskGateway now popts opts =
     \<lparr>rg_policy = new_TradingPolicy popts, rg_options = opts, rg_openNotional = dec_ZERO,
      rg_dailyPnl = dec_ZERO, rg_failures = Fin 0, rg_day = utcDay now, rg_breaker = untripped,
      rg_positions = []\<rparr>"

definition cap_of :: "js_number option \<Rightarrow> decimal option" where
  "cap_of n = (case n of None \<Rightarrow> None | Some x \<Rightarrow> toDecimal (JNum x))"

section \<open>State feeds\<close>

definition trip :: "int \<Rightarrow> breaker_reason \<Rightarrow> risk_gateway \<Rightarrow> risk_gateway" where
  "trip now reason g =
     (if br_tripped (rg_breaker g) then g
      else g\<lparr>rg_breaker := \<lparr>br_tripped = True, br_reason = Some reason, br_trippedAt = Some now\<rparr>\<rparr>)"

definition resetBreaker :: "risk_gateway \<Rightarrow> risk_gateway" where
  "resetBreaker g =
     (if \<not> br_tripped (rg_breaker g) then g else g\<lparr>rg_breaker := untripped, rg_failures := Fin 0\<rparr>)"

definition resetDaily :: "int \<Rightarrow> risk_gateway \<Rightarrow> risk_gateway" where
  "resetDaily now g =
     (let g1 = g\<lparr>rg_day := utcDay now, rg_dailyPnl := dec_ZERO\<rparr>
      in if br_reason (rg_breaker g1) = Some MaxDailyLossReason then resetBreaker g1 else g1)"

definition rollDayIfNeeded :: "int \<Rightarrow> risk_gateway \<Rightarrow> risk_gateway" where
  "rollDayIfNeeded now g = (if utcDay now \<noteq> rg_day g then resetDaily now g else g)"

definition registerOpenOrder :: "js_value \<Rightarrow> risk_gateway \<Rightarrow> risk_gateway" where
  "registerOpenOrder notional g = (case toDecimal notional of
     None \<Rightarrow> g | Some v \<Rightarrow> g\<lparr>rg_openNotional := dec_add (rg_openNotional g) v\<rparr>)"

definition releaseOpenOrder :: "js_value \<Rightarrow> risk_gateway \<Rightarrow> risk_gateway" where
  "releaseOpenOrder notional g = (case toDecimal notional of
     None \<Rightarrow> g | Some v \<Rightarrow> g\<lparr>rg_openNotional := dec_sub (rg_openNotional g) v\<rparr>)"

definition loss_at_limit :: "decimal option \<Rightarrow> decimal \<Rightarrow> bool" where
  "loss_at_limit limit pnl = (case limit of None \<Rightarrow> False | Some m \<Rightarrow> dec_gte (dec_neg pnl) m)"

definition loss_limit_hit :: "risk_gateway \<Rightarrow> bool" where
  "loss_limit_hit g = loss_at_limit (cap_of (ko_maxDailyLoss (rg_options g))) (rg_dailyPnl g)"

definition recordRealizedPnl :: "int \<Rightarrow> js_value \<Rightarrow> risk_gateway \<Rightarrow> risk_gateway" where
  "recordRealizedPnl now delta g =
     (let g1 = rollDayIfNeeded now g
      in case toDecimal delta of
           None \<Rightarrow> g1
         | Some v \<Rightarrow>
             let g2 = g1\<lparr>rg_dailyPnl := dec_add (rg_dailyPnl g1) v\<rparr>
             in if loss_limit_hit g2 then trip now MaxDailyLossReason g2 else g2)"

definition restoreDailyState :: "int \<Rightarrow> persisted_risk \<Rightarrow> risk_gateway \<Rightarrow> risk_gateway" where
  "restoreDailyState now st g =
     (if ps_day st \<noteq> utcDay now then g
      else
        let failures = js_to_number (ps_failures st);
            g1 = g\<lparr>rg_day := utcDay now,
                   rg_dailyPnl := (case toDecimal (ps_dailyPnl st) of Some d \<Rightarrow> d | None \<Rightarrow> dec_ZERO),
                   rg_failures := (if jn_finite failures \<and> jn_less (Fin 0) failures then failures else Fin 0)\<rparr>;
            g2 = (case ps_breaker st of
                    Some b \<Rightarrow> if br_tripped b then g1\<lparr>rg_breaker := b\<rparr> else g1
                  | None \<Rightarrow> g1)
        in if loss_limit_hit g2
           then g2\<lparr>rg_breaker := \<lparr>br_tripped = True, br_reason = Some MaxDailyLossReason, br_trippedAt = Some now\<rparr>\<rparr>
           else g2)"

definition recordFailure :: "int \<Rightarrow> risk_gateway \<Rightarrow> risk_gateway" where
  "recordFailure now g =
     (let g1 = g\<lparr>rg_failures := jn_add (rg_failures g) (Fin 1)\<rparr>;
          cap = (case ko_maxConsecutiveFailures (rg_options g) of None \<Rightarrow> PosInf | Some c \<Rightarrow> c)
      in if rg_failures g1 \<noteq> NaN \<and> cap \<noteq> NaN \<and> \<not> jn_less (rg_failures g1) cap
         then trip now MaxConsecutiveFailures g1 else g1)"

definition recordSuccess :: "risk_gateway \<Rightarrow> risk_gateway" where
  "recordSuccess g = (if rg_failures g \<noteq> Fin 0 then g\<lparr>rg_failures := Fin 0\<rparr> else g)"

definition persistedState :: "int \<Rightarrow> risk_gateway \<Rightarrow> persisted_risk \<times> risk_gateway" where
  "persistedState now g =
     (let g1 = rollDayIfNeeded now g
      in (\<lparr>ps_day = rg_day g1, ps_dailyPnl = JStr (dec_to_string (rg_dailyPnl g1)),
           ps_breaker = Some (rg_breaker g1), ps_failures = JNum (rg_failures g1)\<rparr>, g1))"

record risk_status =
  rs_breaker :: circuit_breaker
  rs_openNotional :: string
  rs_dailyPnl :: string
  rs_failures :: js_number
  rs_day :: int

definition riskStatus :: "int \<Rightarrow> risk_gateway \<Rightarrow> risk_status \<times> risk_gateway" where
  "riskStatus now g =
     (let g1 = rollDayIfNeeded now g
      in (\<lparr>rs_breaker = rg_breaker g1, rs_openNotional = dec_to_string (rg_openNotional g1),
           rs_dailyPnl = dec_to_string (rg_dailyPnl g1), rs_failures = rg_failures g1, rs_day = rg_day g1\<rparr>, g1))"

definition recordPositionNotional :: "(string \<times> js_value) list \<Rightarrow> risk_gateway \<Rightarrow> risk_gateway" where
  "recordPositionNotional positions g =
     g\<lparr>rg_positions := foldl (\<lambda>m (symbol, v). case toDecimal v of
          Some d \<Rightarrow> if dec_isZero d then m else jm_set (to_upper symbol) (dec_abs d) m
        | None \<Rightarrow> m) [] positions\<rparr>"

definition positionNotionalTotal :: "risk_gateway \<Rightarrow> string" where
  "positionNotionalTotal g = dec_to_string (foldl dec_add dec_ZERO (map snd (rg_positions g)))"

section \<open>The pre-trade gate\<close>

datatype risk_error = RPolicy policy_error | RDecimal dec_error

definition checkLeverageCap :: "string \<Rightarrow> js_value \<Rightarrow> risk_gateway \<Rightarrow> dec_error + bool" where
  "checkLeverageCap path params g =
     (case ko_maxLeverage (rg_options g) of
        None \<Rightarrow> Inr True
      | Some mx \<Rightarrow>
          if \<not> has_substr (to_lower path) ''leverage'' then Inr True
          else (case toDecimal (js_field ''leverage'' params) of
                  None \<Rightarrow> Inr True
                | Some l \<Rightarrow> mapR (\<lambda>m. \<not> dec_gt l m) (dec_from (NIn mx))))"

definition risk_notional :: "js_value \<Rightarrow> decimal option \<Rightarrow> decimal option" where
  "risk_notional params reference =
     (case toDecimal (js_field ''quoteOrderQty'' params) of
        Some q \<Rightarrow> Some q
      | None \<Rightarrow>
          (case toDecimal (js_field ''quantity'' params) of
             None \<Rightarrow> None
           | Some q \<Rightarrow>
               (case toDecimal (js_field ''price'' params) of
                  Some pr \<Rightarrow> Some (dec_mul pr q)
                | None \<Rightarrow> map_option (\<lambda>r. dec_mul r q) reference)))"

definition reference_decimal :: "int \<Rightarrow> js_value \<Rightarrow> risk_gateway \<Rightarrow> decimal option \<times> risk_gateway" where
  "reference_decimal now params g =
     (case freshReferencePrice now (js_field ''symbol'' params) (rg_policy g) of
        (r, p) \<Rightarrow> (cap_of r, g\<lparr>rg_policy := p\<rparr>))"

text \<open>What the two budgets have in common: whether the request counts as new exposure.\<close>

definition extends_exposure :: "http_method \<Rightarrow> string \<Rightarrow> bool" where
  "extends_exposure method path \<longleftrightarrow>
     \<not> (method = DELETE \<or> has_substr (to_lower path) ''cancel'') \<and> has_substr (to_lower path) ''order''"

definition checkOpenNotionalBudget :: "int \<Rightarrow> http_method \<Rightarrow> string \<Rightarrow> js_value \<Rightarrow> risk_gateway \<Rightarrow> bool \<times> risk_gateway" where
  "checkOpenNotionalBudget now method path params g =
     (case cap_of (ko_maxOpenNotional (rg_options g)) of
        None \<Rightarrow> (True, g)
      | Some mx \<Rightarrow>
          if \<not> extends_exposure method path then (True, g)
          else if toDecimal (js_field ''quantity'' params) = None \<and> toDecimal (js_field ''quoteOrderQty'' params) = None
          then (True, g)
          else case reference_decimal now params g of
                 (reference, g1) \<Rightarrow>
                   (case risk_notional params reference of
                      None \<Rightarrow> (True, g1)
                    | Some n \<Rightarrow> (\<not> dec_gt (dec_add (rg_openNotional g1) n) mx, g1)))"

definition flag_set :: "js_value \<Rightarrow> bool" where
  "flag_set v \<longleftrightarrow> v = JBool True \<or> v = JStr ''true''"

definition checkPositionNotionalBudget :: "int \<Rightarrow> http_method \<Rightarrow> string \<Rightarrow> js_value \<Rightarrow> risk_gateway
    \<Rightarrow> (dec_error + bool) \<times> risk_gateway" where
  "checkPositionNotionalBudget now method path params g =
     (case cap_of (ko_maxPositionNotional (rg_options g)) of
        None \<Rightarrow> (Inr True, g)
      | Some mx \<Rightarrow>
          if \<not> extends_exposure method path then (Inr True, g)
          else if flag_set (js_field ''reduceOnly'' params) \<or> flag_set (js_field ''closePosition'' params) then (Inr True, g)
          else if toDecimal (js_field ''quantity'' params) = None \<and> toDecimal (js_field ''quoteOrderQty'' params) = None
          then (Inr True, g)
          else case reference_decimal now params g of
                 (reference, g1) \<Rightarrow>
                   (case risk_notional params reference of
                      None \<Rightarrow> (Inr True, g1)
                    | Some n \<Rightarrow> (mapR (\<lambda>t. \<not> dec_gt (dec_add t n) mx) (dec_from (SIn (positionNotionalTotal g1))), g1)))"

definition rg_check :: "int \<Rightarrow> http_method \<Rightarrow> string \<Rightarrow> js_value \<Rightarrow> risk_gateway \<Rightarrow> risk_error option \<times> risk_gateway" where
  "rg_check now method path params g =
     (if method = GET then (None, g)
      else
        let g0 = rollDayIfNeeded now g;
            denied = (\<lambda>r. Some (RPolicy (PolicyViolation r method path)))
        in if br_tripped (rg_breaker g0) then (denied CircuitBreaker, g0)
           else case tp_check now method path params (rg_policy g0) of
             (Some e, p) \<Rightarrow> (Some (RPolicy e), g0\<lparr>rg_policy := p\<rparr>)
           | (None, p) \<Rightarrow>
               let g1 = g0\<lparr>rg_policy := p\<rparr>
               in case checkLeverageCap path params g1 of
                    Inl e \<Rightarrow> (Some (RDecimal e), g1)
                  | Inr False \<Rightarrow> (denied MaxLeverage, g1)
                  | Inr True \<Rightarrow>
                      (case checkOpenNotionalBudget now method path params g1 of
                         (False, g2) \<Rightarrow> (denied MaxOpenNotional, g2)
                       | (True, g2) \<Rightarrow>
                           (case checkPositionNotionalBudget now method path params g2 of
                              (Inl e, g3) \<Rightarrow> (Some (RDecimal e), g3)
                            | (Inr False, g3) \<Rightarrow> (denied MaxPositionNotional, g3)
                            | (Inr True, g3) \<Rightarrow> (None, g3))))"

section \<open>The exposure budget\<close>

text \<open>What the execution layer relies on: registering and releasing move the budget by the amount of
  the value given, and by nothing else.\<close>

locale exposure_budget =
  fixes budget :: "'g \<Rightarrow> int"
    and reg :: "'v \<Rightarrow> 'g \<Rightarrow> 'g"
    and rel :: "'v \<Rightarrow> 'g \<Rightarrow> 'g"
    and amount :: "'v \<Rightarrow> int"
  assumes budget_reg: "budget (reg v g) = budget g + amount v"
    and budget_rel: "budget (rel v g) = budget g - amount v"
begin

definition move :: "'g \<Rightarrow> bool \<times> 'v \<Rightarrow> 'g" where
  "move g m = (if fst m then reg (snd m) g else rel (snd m) g)"

lemma run_budget:
  "budget (foldl move g ms) = budget g + (\<Sum>m\<leftarrow>ms. if fst m then amount (snd m) else - amount (snd m))"
  by (induction ms arbitrary: g) (auto simp: move_def budget_reg budget_rel)

lemma unmatched_release: "amount v > 0 \<Longrightarrow> budget g = 0 \<Longrightarrow> budget (rel v g) < 0"
  by (simp add: budget_rel)

end

definition amount_of :: "js_value \<Rightarrow> int" where
  "amount_of v = (case toDecimal v of Some d \<Rightarrow> scaled d | None \<Rightarrow> 0)"

interpretation eb: exposure_budget "\<lambda>g. scaled (rg_openNotional g)" registerOpenOrder releaseOpenOrder amount_of
  by unfold_locales
     (simp_all add: registerOpenOrder_def releaseOpenOrder_def amount_of_def dec_add_def dec_sub_def split: option.split)

section \<open>Runs\<close>

datatype risk_op =
    KCheck int http_method string js_value
  | KRegister js_value
  | KRelease js_value
  | KPnl int js_value
  | KFailure int
  | KSuccess
  | KRestore int persisted_risk
  | KPositions "(string \<times> js_value) list"
  | KStatus int
  | KReset

fun rg_step :: "risk_gateway \<Rightarrow> risk_op \<Rightarrow> risk_gateway" where
  "rg_step g (KCheck now m path params) = snd (rg_check now m path params g)"
| "rg_step g (KRegister v) = registerOpenOrder v g"
| "rg_step g (KRelease v) = releaseOpenOrder v g"
| "rg_step g (KPnl now v) = recordRealizedPnl now v g"
| "rg_step g (KFailure now) = recordFailure now g"
| "rg_step g KSuccess = recordSuccess g"
| "rg_step g (KRestore now st) = restoreDailyState now st g"
| "rg_step g (KPositions ps) = recordPositionNotional ps g"
| "rg_step g (KStatus now) = snd (riskStatus now g)"
| "rg_step g KReset = resetBreaker g"

fun op_time :: "risk_op \<Rightarrow> int option" where
  "op_time (KCheck now _ _ _) = Some now"
| "op_time (KPnl now _) = Some now"
| "op_time (KFailure now) = Some now"
| "op_time (KRestore now _) = Some now"
| "op_time (KStatus now) = Some now"
| "op_time _ = None"

definition within_day :: "int \<Rightarrow> risk_op \<Rightarrow> bool" where
  "within_day d oper \<longleftrightarrow> oper \<noteq> KReset \<and> (case op_time oper of Some t \<Rightarrow> utcDay t = d | None \<Rightarrow> True)"

lemma reference_decimal_frame:
  "reference_decimal now params g = (r, g') \<Longrightarrow>
    rg_breaker g' = rg_breaker g \<and> rg_day g' = rg_day g \<and> rg_options g' = rg_options g \<and>
    rg_dailyPnl g' = rg_dailyPnl g \<and> rg_openNotional g' = rg_openNotional g"
  by (auto simp: reference_decimal_def split: prod.splits)

lemma checkOpen_frame:
  "checkOpenNotionalBudget now m path params g = (ok, g') \<Longrightarrow>
    rg_breaker g' = rg_breaker g \<and> rg_day g' = rg_day g \<and> rg_options g' = rg_options g \<and>
    rg_dailyPnl g' = rg_dailyPnl g \<and> rg_openNotional g' = rg_openNotional g"
  by (auto simp: checkOpenNotionalBudget_def dest: reference_decimal_frame split: option.splits if_splits prod.splits)

lemma checkPosition_frame:
  "checkPositionNotionalBudget now m path params g = (ok, g') \<Longrightarrow>
    rg_breaker g' = rg_breaker g \<and> rg_day g' = rg_day g \<and> rg_options g' = rg_options g \<and>
    rg_dailyPnl g' = rg_dailyPnl g \<and> rg_openNotional g' = rg_openNotional g"
  by (auto simp: checkPositionNotionalBudget_def dest: reference_decimal_frame split: option.splits if_splits prod.splits)

lemma rg_check_frame:
  assumes "rg_check now m path params g = (e, g')"
  shows "let g0 = (if m = GET then g else rollDayIfNeeded now g) in
    rg_breaker g' = rg_breaker g0 \<and> rg_day g' = rg_day g0 \<and> rg_options g' = rg_options g0 \<and>
    rg_dailyPnl g' = rg_dailyPnl g0 \<and> rg_openNotional g' = rg_openNotional g0"
proof (cases "m = GET \<or> br_tripped (rg_breaker (rollDayIfNeeded now g))")
  case True
  then show ?thesis using assms by (auto simp: rg_check_def Let_def)
next
  case False
  define g0 where "g0 = rollDayIfNeeded now g"
  obtain pe p where tp: "tp_check now m path params (rg_policy g0) = (pe, p)" by fastforce
  define g1 where "g1 = g0\<lparr>rg_policy := p\<rparr>"
  obtain ok2 g2 where o: "checkOpenNotionalBudget now m path params g1 = (ok2, g2)" by fastforce
  obtain ok3 g3 where q: "checkPositionNotionalBudget now m path params g2 = (ok3, g3)" by fastforce
  have "g' = g1 \<or> g' = g2 \<or> g' = g3"
    using assms False tp o q
    by (auto simp: rg_check_def g0_def [symmetric] g1_def [symmetric] Let_def
        split: option.splits sum.splits bool.splits)
  then show ?thesis
    using checkOpen_frame [OF o] checkPosition_frame [OF q] False
    by (auto simp: g1_def g0_def [symmetric] Let_def)
qed

section \<open>The breaker\<close>

definition loss_ok :: "risk_gateway \<Rightarrow> bool" where
  "loss_ok g \<longleftrightarrow> (\<forall>m. cap_of (ko_maxDailyLoss (rg_options g)) = Some m \<longrightarrow> 0 < scaled m) \<and>
     (loss_limit_hit g \<longrightarrow> br_tripped (rg_breaker g))"

definition latched :: "int \<Rightarrow> risk_gateway \<Rightarrow> bool" where
  "latched d g \<longleftrightarrow> br_tripped (rg_breaker g) \<and> rg_day g = d"

lemma roll_same: "rg_day g = utcDay now \<Longrightarrow> rollDayIfNeeded now g = g"
  by (simp add: rollDayIfNeeded_def)

lemma latched_step: "latched d g \<Longrightarrow> within_day d oper \<Longrightarrow> latched d (rg_step g oper)"
proof (cases oper)
  case (KCheck now m path params)
  assume "latched d g" "within_day d oper"
  then show ?thesis
    using KCheck rg_check_frame [of now m path params g "fst (rg_check now m path params g)" "snd (rg_check now m path params g)"]
    by (auto simp: latched_def within_day_def roll_same Let_def split: if_splits)
qed (auto simp: latched_def within_day_def registerOpenOrder_def releaseOpenOrder_def recordRealizedPnl_def
      roll_same trip_def recordFailure_def recordSuccess_def restoreDailyState_def recordPositionNotional_def
      riskStatus_def Let_def split: option.splits)

lemma loss_limit_cong:
  "rg_options g' = rg_options g \<Longrightarrow> rg_dailyPnl g' = rg_dailyPnl g \<Longrightarrow> loss_limit_hit g' = loss_limit_hit g"
  by (simp add: loss_limit_hit_def)

lemma loss_ok_cong:
  "rg_options g' = rg_options g \<Longrightarrow> rg_dailyPnl g' = rg_dailyPnl g \<Longrightarrow>
    br_tripped (rg_breaker g') = br_tripped (rg_breaker g) \<Longrightarrow> loss_ok g' = loss_ok g"
  by (simp add: loss_ok_def loss_limit_hit_def)

lemma roll_loss_ok: "loss_ok g \<Longrightarrow> loss_ok (rollDayIfNeeded now g)"
proof -
  assume ok: "loss_ok g"
  have "\<not> loss_limit_hit (resetDaily now g)"
    using ok by (auto simp: loss_ok_def loss_limit_hit_def loss_at_limit_def resetDaily_def resetBreaker_def Let_def
        dec_neg_def dec_ZERO_def dec_gte_def less_decimal_def less_eq_decimal_def split: option.splits)
  then show ?thesis
    using ok by (auto simp: rollDayIfNeeded_def loss_ok_def resetDaily_def resetBreaker_def Let_def)
qed

lemma loss_ok_step: "loss_ok g \<Longrightarrow> oper \<noteq> KReset \<Longrightarrow> loss_ok (rg_step g oper)"
proof (cases oper)
  case (KCheck now m path params)
  assume ok: "loss_ok g"
  let ?g0 = "if m = GET then g else rollDayIfNeeded now g"
  have "loss_ok ?g0" using ok roll_loss_ok by simp
  then show ?thesis
    using KCheck rg_check_frame [of now m path params g "fst (rg_check now m path params g)" "snd (rg_check now m path params g)"]
      loss_ok_cong [of "snd (rg_check now m path params g)" ?g0]
    by (simp add: Let_def split: if_splits)
next
  case (KPnl now v)
  assume ok: "loss_ok g"
  then have "loss_ok (rollDayIfNeeded now g)" by (rule roll_loss_ok)
  then show ?thesis
    using KPnl by (auto simp: recordRealizedPnl_def loss_ok_def trip_def Let_def loss_limit_hit_def split: option.split)
next
  case (KRestore now st)
  assume ok: "loss_ok g"
  then show ?thesis
    using KRestore by (auto simp: restoreDailyState_def loss_ok_def Let_def loss_limit_hit_def split: option.splits)
next
  case (KStatus now)
  assume "loss_ok g"
  then show ?thesis using KStatus by (simp add: riskStatus_def roll_loss_ok Let_def)
next
  case (KFailure now)
  assume "loss_ok g"
  then show ?thesis using KFailure by (auto simp: recordFailure_def loss_ok_def trip_def loss_limit_hit_def Let_def)
qed (auto simp: registerOpenOrder_def releaseOpenOrder_def recordSuccess_def recordPositionNotional_def
      loss_ok_def loss_limit_hit_def split: option.split)

interpretation latch: invariant_machine rg_step "latched d" "within_day d" for d
  by unfold_locales (rule latched_step)

interpretation loss: invariant_machine rg_step loss_ok "\<lambda>oper. oper \<noteq> KReset"
  by unfold_locales (rule loss_ok_step)

section \<open>Properties\<close>

lemma tripped_denies:
  assumes "br_tripped (rg_breaker g)" "utcDay now = rg_day g" "method \<noteq> GET"
  shows "rg_check now method path params g = (Some (RPolicy (PolicyViolation CircuitBreaker method path)), g)"
  using assms by (simp add: rg_check_def roll_same Let_def)

text \<open>C7: the breaker latches. Once it has tripped, every mutating request of that UTC day is
  refused with the breaker's rule, without any effect, whatever is checked, registered, released,
  recorded or restored in between, as long as nobody resets it by hand.\<close>
theorem breaker_latches:
  assumes "br_tripped (rg_breaker g)" "list_all (within_day (rg_day g)) ops" "g' = foldl rg_step g ops"
    and "utcDay now = rg_day g" "method \<noteq> GET"
  shows "rg_check now method path params g' = (Some (RPolicy (PolicyViolation CircuitBreaker method path)), g')"
proof -
  have "latched (rg_day g) g'"
    using latch.run_inv [of "rg_day g" g ops] assms(1-3) by (simp add: latched_def)
  then show ?thesis using tripped_denies assms(4,5) by (simp add: latched_def)
qed

text \<open>C8: the daily loss limit stops trading. With a positive limit, after any run without a manual
  reset, as soon as the day's realized loss is at the limit every further mutating request of the
  day is refused by the breaker.\<close>
theorem loss_limit_stops_trading:
  assumes "cap_of (ko_maxDailyLoss opts) = Some m" "0 < scaled m"
    and "g = foldl rg_step (new_RiskGateway t0 popts opts) ops" "KReset \<notin> set ops"
    and "loss_limit_hit g" "utcDay now = rg_day g" "method \<noteq> GET"
  shows "rg_check now method path params g = (Some (RPolicy (PolicyViolation CircuitBreaker method path)), g)"
proof -
  have "loss_ok (new_RiskGateway t0 popts opts)"
    using assms(1,2) by (simp add: loss_ok_def new_RiskGateway_def loss_limit_hit_def loss_at_limit_def
        dec_gte_def dec_cmp_def dec_neg_def dec_ZERO_def less_decimal_def less_eq_decimal_def)
  then have "loss_ok g"
    using loss.run_inv [of _ ops] assms(3,4) by (auto simp: list_all_iff)
  then show ?thesis using tripped_denies assms(5-7) by (simp add: loss_ok_def)
qed

text \<open>The reference price a check sees is the one the gateway holds when the request comes: the checks
  before it only look it up, and looking up drops at most the price that has expired.\<close>

lemma reference_looked_up:
  "fst (freshReferencePrice now sy (snd (freshReferencePrice now sy p))) = fst (freshReferencePrice now sy p)"
  by (auto simp: freshReferencePrice_def jm.get_del split: js_value.split option.split prod.split)

lemma tp_check_policy:
  "snd (tp_check now method path params p) = p \<or>
   snd (tp_check now method path params p) = snd (freshReferencePrice now (js_field ''symbol'' params) p)"
  using checkNotional_policy [of now path params p]
  by (auto simp: tp_check_def Let_def split: option.split prod.split)

lemma tp_check_reference:
  "fst (freshReferencePrice now (js_field ''symbol'' params) (snd (tp_check now method path params p)))
    = fst (freshReferencePrice now (js_field ''symbol'' params) p)"
  using tp_check_policy [of now "method" path params p] reference_looked_up by auto

lemma gate_passed:
  assumes "rg_check now method path params g = (None, g')" "method \<noteq> GET"
  obtains g1 g2 where "checkOpenNotionalBudget now method path params g1 = (True, g2)"
    "checkPositionNotionalBudget now method path params g2 = (Inr True, g')"
    "rg_options g1 = rg_options g" "\<not> br_tripped (rg_breaker g')"
    "fst (reference_decimal now params g1) = fst (reference_decimal now params g)"
proof -
  define g0 where "g0 = rollDayIfNeeded now g"
  obtain pe p where tp: "tp_check now method path params (rg_policy g0) = (pe, p)" by fastforce
  define g1 where "g1 = g0\<lparr>rg_policy := p\<rparr>"
  obtain ok2 g2 where o: "checkOpenNotionalBudget now method path params g1 = (ok2, g2)" by fastforce
  obtain ok3 g3 where q: "checkPositionNotionalBudget now method path params g2 = (ok3, g3)" by fastforce
  have ok: "ok2" "ok3 = Inr True" "g' = g3" "\<not> br_tripped (rg_breaker g0)"
    using assms tp o q
    by (auto simp: rg_check_def g0_def [symmetric] g1_def [symmetric] Let_def
        split: option.splits sum.splits bool.splits if_splits)
  have same: "rg_options g0 = rg_options g" "rg_policy g0 = rg_policy g"
    by (simp_all add: g0_def rollDayIfNeeded_def resetDaily_def resetBreaker_def Let_def)
  have "fst (reference_decimal now params g1) = fst (reference_decimal now params g)"
    using tp_check_reference [of now params "method" path "rg_policy g"] tp
    by (simp add: reference_decimal_def g1_def same(2) split_beta)
  then show ?thesis
    using that [of g1 g2] o q ok same checkOpen_frame [OF o] checkPosition_frame [OF q] by (simp add: g1_def)
qed

text \<open>C9: an order that passes fits the open-notional budget. When a request that extends exposure
  passes the gateway and its notional can be determined (from its quote quantity, from its quantity
  and price, or from its quantity and the reference price the gateway holds for its symbol, unless
  that is older than the policy allows), the tracked open notional plus its notional is within the
  cap, and registering that notional keeps the tracked total within it.\<close>
theorem passed_fits_budget:
  assumes "rg_check now method path params g = (None, g')" "method \<noteq> GET" "extends_exposure method path"
    and "cap_of (ko_maxOpenNotional (rg_options g)) = Some mx"
    and "risk_notional params (fst (reference_decimal now params g)) = Some n"
  shows "scaled (rg_openNotional g') + scaled n \<le> scaled mx \<and>
    scaled (rg_openNotional (registerOpenOrder (JStr (dec_to_string n)) g')) \<le> scaled mx"
proof -
  obtain g1 g2 where g: "checkOpenNotionalBudget now method path params g1 = (True, g2)"
    "checkPositionNotionalBudget now method path params g2 = (Inr True, g')" "rg_options g1 = rg_options g"
    "fst (reference_decimal now params g1) = fst (reference_decimal now params g)"
    using gate_passed [OF assms(1,2)] by metis
  have sized: "\<not> (toDecimal (js_field ''quantity'' params) = None \<and> toDecimal (js_field ''quoteOrderQty'' params) = None)"
    using assms(5) by (auto simp: risk_notional_def split: option.splits)
  obtain r g1' where r: "reference_decimal now params g1 = (r, g1')" by fastforce
  then have n: "risk_notional params r = Some n" using assms(5) g(4) by simp
  have "\<not> dec_gt (dec_add (rg_openNotional g2) n) mx"
    using g(1,3) assms(3,4) sized n r
    by (auto simp: checkOpenNotionalBudget_def split: if_splits option.splits)
  then have "scaled (rg_openNotional g') + scaled n \<le> scaled mx"
    using checkPosition_frame [OF g(2)] by (simp add: dec_gt_def dec_cmp_def dec_add_def less_decimal_def split: if_splits)
  then show ?thesis
    using eb.budget_reg [of "JStr (dec_to_string n)" g'] by (simp add: amount_of_def toDecimal_string)
qed

text \<open>Replacing an order escapes the budgets. The path of a cancel-and-replace, which places a
  new order, counts as a cancel: it passes both exposure budgets with any quantity and price, even
  when they are exhausted.\<close>
theorem cancel_replace_escapes:
  assumes "\<not> br_tripped (rg_breaker g)" "utcDay now = rg_day g"
    and "tp_check now POST ''/api/v3/order/cancelReplace'' params (rg_policy g) = (None, p)"
  shows "rg_check now POST ''/api/v3/order/cancelReplace'' params g = (None, g\<lparr>rg_policy := p\<rparr>)"
proof -
  have path: "has_substr (to_lower ''/api/v3/order/cancelReplace'') ''cancel''"
    "\<not> has_substr (to_lower ''/api/v3/order/cancelReplace'') ''leverage''"
    by (simp_all add: to_lower_def lower_char_def)
  then have "\<not> extends_exposure POST ''/api/v3/order/cancelReplace''" by (simp add: extends_exposure_def)
  then show ?thesis
    using assms path(2)
    by (simp add: rg_check_def roll_same checkLeverageCap_def checkOpenNotionalBudget_def
        checkPositionNotionalBudget_def Let_def split: option.split)
qed

text \<open>A breaker tripped by failures outlives the day. The refusal it gives promises an end at the
  next UTC day; unlike one tripped by the loss limit, it still refuses then, and on every day
  after.\<close>
theorem failure_trip_outlives_day:
  assumes "br_tripped (rg_breaker g)" "br_reason (rg_breaker g) = Some MaxConsecutiveFailures"
    and "method \<noteq> GET" "rg_day g \<le> utcDay now"
  shows "fst (rg_check now method path params g) = Some (RPolicy (PolicyViolation CircuitBreaker method path))"
  using assms by (simp add: rg_check_def rollDayIfNeeded_def resetDaily_def Let_def)

text \<open>The persisted state restores. Persisting a gateway and restoring the state in a fresh one
  with the same options on the same day gives back the day's PnL, the failure streak, the day and
  whether the breaker is tripped.\<close>
theorem persisted_restores:
  assumes "loss_ok g" "rg_failures g = Fin f" "0 \<le> f" "utcDay now = rg_day g"
    and "g' = restoreDailyState now (fst (persistedState now g)) (new_RiskGateway now popts (rg_options g))"
  shows "rg_dailyPnl g' = rg_dailyPnl g \<and> rg_failures g' = rg_failures g \<and> rg_day g' = rg_day g \<and>
    br_tripped (rg_breaker g') = br_tripped (rg_breaker g)"
  using assms
  by (auto simp: restoreDailyState_def persistedState_def roll_same toDecimal_string jn_finite_def Let_def
      new_RiskGateway_def untripped_def loss_ok_def loss_limit_hit_def)

definition wit_risk_options :: risk_options where
  "wit_risk_options = \<lparr>ko_maxLeverage = None, ko_maxOpenNotional = Some (Fin 1000), ko_maxPositionNotional = None,
     ko_maxDailyLoss = Some (Fin 10), ko_maxConsecutiveFailures = Some (Fin 2)\<rparr>"

definition wit_policy_options :: policy_options where
  "wit_policy_options = \<lparr>po_dryRun = False, po_readOnly = False, po_allowedSymbols = None, po_maxNotional = None,
     po_referenceTtl = None, po_allowWithdrawals = None, po_allowTransfers = None, po_blockedPaths = []\<rparr>"

definition wit_gateway :: risk_gateway where
  "wit_gateway = new_RiskGateway 0 wit_policy_options wit_risk_options"

definition wit_tripped :: risk_gateway where
  "wit_tripped = wit_gateway\<lparr>rg_breaker := \<lparr>br_tripped = True, br_reason = Some MaxConsecutiveFailures, br_trippedAt = Some 5\<rparr>\<rparr>"

lemma wit_cap: "cap_of (Some (Fin 10)) = Some (Decimal (10 * SCALE_FACTOR))"
  "cap_of (Some (Fin 1000)) = Some (Decimal (1000 * SCALE_FACTOR))"
  by (simp_all add: cap_of_def toDecimal_def okR_def jn_is_integer_def)

theorem breaker_latches_witness:
  "fst (rg_check 7 POST ''/fapi/v1/order'' (JObj []) (foldl rg_step wit_tripped [KSuccess, KPnl 6 (JNum (Fin 3))]))
    = Some (RPolicy (PolicyViolation CircuitBreaker POST ''/fapi/v1/order''))"
proof -
  have "br_tripped (rg_breaker wit_tripped)" "rg_day wit_tripped = 0"
    "list_all (within_day (rg_day wit_tripped)) [KSuccess, KPnl 6 (JNum (Fin 3))]"
    by (simp_all add: wit_tripped_def wit_gateway_def new_RiskGateway_def within_day_def utcDay_def)
  then show ?thesis
    using breaker_latches [of wit_tripped "[KSuccess, KPnl 6 (JNum (Fin 3))]", OF _ _ refl, of 7 POST]
    by (simp add: utcDay_def)
qed

theorem loss_limit_stops_trading_witness:
  "fst (rg_check 7 POST ''/x'' (JObj []) (foldl rg_step wit_gateway [KPnl 6 (JBig (- 11))]))
    = Some (RPolicy (PolicyViolation CircuitBreaker POST ''/x''))"
proof -
  let ?g = "foldl rg_step (new_RiskGateway 0 wit_policy_options wit_risk_options) [KPnl 6 (JBig (- 11))]"
  have g: "rg_dailyPnl ?g = Decimal (- 11 * SCALE_FACTOR) \<and> rg_day ?g = 0 \<and> rg_options ?g = wit_risk_options"
    by (simp add: new_RiskGateway_def recordRealizedPnl_def rollDayIfNeeded_def utcDay_def toDecimal_def okR_def
        trip_def dec_add_def dec_ZERO_def Let_def)
  have "loss_limit_hit ?g"
    unfolding loss_limit_hit_def using g
    by (simp add: wit_risk_options_def wit_cap loss_at_limit_def dec_gte_def dec_cmp_def dec_neg_def SCALE_FACTOR_eq
        less_decimal_def less_eq_decimal_def)
  moreover have "cap_of (ko_maxDailyLoss wit_risk_options) = Some (Decimal (10 * SCALE_FACTOR))"
    by (simp add: wit_risk_options_def wit_cap)
  moreover have "0 < scaled (Decimal (10 * SCALE_FACTOR))" by (simp add: SCALE_FACTOR_eq)
  ultimately have "rg_check 7 POST ''/x'' (JObj []) ?g = (Some (RPolicy (PolicyViolation CircuitBreaker POST ''/x'')), ?g)"
    using g loss_limit_stops_trading [of wit_risk_options "Decimal (10 * SCALE_FACTOR)" ?g 0
        wit_policy_options "[KPnl 6 (JBig (- 11))]" 7 POST "''/x''" "JObj []"] by (simp add: utcDay_def)
  then show ?thesis by (simp add: wit_gateway_def)
qed

text \<open>A market order names no price; the gateway has seen one of 100 two milliseconds before.\<close>

definition wit_order :: js_value where
  "wit_order = JObj [(''symbol'', JStr ''btcusdt''), (''quantity'', JBig 2)]"

definition wit_priced :: risk_gateway where
  "wit_priced = wit_gateway\<lparr>rg_policy := setReferencePrice ''BTCUSDT'' (Fin 100) 5 (rg_policy wit_gateway)\<rparr>"

lemma wit_upper: "to_upper ''btcusdt'' = ''BTCUSDT'' \<and> to_upper ''BTCUSDT'' = ''BTCUSDT''"
  by code_simp

lemma wit_priced_reference: "reference_decimal 7 wit_order wit_priced = (Some (Decimal (100 * SCALE_FACTOR)), wit_priced)"
  by (simp add: reference_decimal_def wit_order_def wit_priced_def wit_gateway_def new_RiskGateway_def
      new_TradingPolicy_def freshReferencePrice_def setReferencePrice_def usable_price_def jm_get_def jm_set_def
      wit_upper jn_finite_def cap_of_def toDecimal_def okR_def jn_is_integer_def wit_policy_options_def)

lemma wit_order_notional:
  "risk_notional wit_order (Some (Decimal (100 * SCALE_FACTOR))) = Some (Decimal (200 * SCALE_FACTOR))"
  by (simp add: wit_order_def risk_notional_def toDecimal_def okR_def dec_mul_def bdiv_def SCALE_FACTOR_eq)

theorem passed_fits_budget_witness:
  "\<exists>g'. rg_check 7 POST ''/fapi/v1/order'' wit_order wit_priced = (None, g') \<and>
    scaled (rg_openNotional g') + 200 * SCALE_FACTOR \<le> 1000 * SCALE_FACTOR"
proof -
  have e: "extends_exposure POST ''/fapi/v1/order''"
    by (simp add: extends_exposure_def to_lower_def lower_char_def)
  have tp: "tp_check 7 POST ''/fapi/v1/order'' wit_order (rg_policy wit_priced) = (None, rg_policy wit_priced)"
    by (simp add: tp_check_def path_rule_def checkSymbol_def checkNotional_def wit_priced_def wit_gateway_def
        new_RiskGateway_def setReferencePrice_def
        new_TradingPolicy_def wit_policy_options_def includesFragment_def WITHDRAW_FRAGMENTS_def TRANSFER_FRAGMENTS_def
        to_lower_def lower_char_def)
  have gw: "rg_options wit_priced = wit_risk_options" "rg_openNotional wit_priced = Decimal 0"
    "rg_day wit_priced = 0" "rg_breaker wit_priced = untripped"
    by (simp_all add: wit_priced_def wit_gateway_def new_RiskGateway_def dec_ZERO_def utcDay_def)
  have cap: "cap_of (ko_maxOpenNotional (rg_options wit_priced)) = Some (Decimal (1000 * SCALE_FACTOR))"
    by (simp add: gw wit_risk_options_def wit_cap)
  have "toDecimal (js_field ''quantity'' wit_order) \<noteq> None"
    by (simp add: wit_order_def toDecimal_def okR_def)
  then have o: "checkOpenNotionalBudget 7 POST ''/fapi/v1/order'' wit_order wit_priced = (True, wit_priced)"
    using e wit_priced_reference wit_order_notional cap
    by (simp add: checkOpenNotionalBudget_def gw dec_gt_def dec_cmp_def dec_add_def SCALE_FACTOR_eq less_decimal_def)
  have "fst (rg_check 7 POST ''/fapi/v1/order'' wit_order wit_priced) = None"
    using tp o
    by (simp add: rg_check_def roll_same gw utcDay_def untripped_def checkLeverageCap_def checkPositionNotionalBudget_def
        Let_def wit_risk_options_def cap_of_def [of None])
  then obtain g' where g': "rg_check 7 POST ''/fapi/v1/order'' wit_order wit_priced = (None, g')"
    by (cases "rg_check 7 POST ''/fapi/v1/order'' wit_order wit_priced") auto
  show ?thesis
    using passed_fits_budget [OF g' _ e cap, of "Decimal (200 * SCALE_FACTOR)"] wit_priced_reference wit_order_notional g'
    by simp
qed

theorem cancel_replace_escapes_witness:
  "fst (rg_check 7 POST ''/api/v3/order/cancelReplace'' (JObj [(''quantity'', JBig 1000000), (''price'', JBig 100)]) wit_gateway) = None"
proof -
  have "tp_check 7 POST ''/api/v3/order/cancelReplace'' (JObj [(''quantity'', JBig 1000000), (''price'', JBig 100)]) (rg_policy wit_gateway)
      = (None, rg_policy wit_gateway)"
    by (simp add: tp_check_def path_rule_def checkSymbol_def checkNotional_def wit_gateway_def new_RiskGateway_def
        new_TradingPolicy_def wit_policy_options_def includesFragment_def WITHDRAW_FRAGMENTS_def TRANSFER_FRAGMENTS_def
        to_lower_def lower_char_def)
  from cancel_replace_escapes [OF _ _ this] show ?thesis
    by (simp add: wit_gateway_def new_RiskGateway_def untripped_def utcDay_def)
qed

theorem failure_trip_outlives_day_witness:
  "fst (rg_check (3 * 86400000) POST ''/x'' (JObj []) wit_tripped) = Some (RPolicy (PolicyViolation CircuitBreaker POST ''/x''))"
  using failure_trip_outlives_day [of wit_tripped POST "3 * 86400000"]
  by (simp add: wit_tripped_def wit_gateway_def new_RiskGateway_def utcDay_def)

theorem persisted_restores_witness:
  "br_tripped (rg_breaker (restoreDailyState 7 (fst (persistedState 7 wit_tripped)) wit_gateway))"
proof -
  have "\<not> loss_limit_hit wit_gateway"
    by (simp add: loss_limit_hit_def loss_at_limit_def wit_gateway_def new_RiskGateway_def wit_risk_options_def wit_cap
        dec_gte_def dec_cmp_def dec_neg_def dec_ZERO_def SCALE_FACTOR_eq less_decimal_def less_eq_decimal_def)
  then have "loss_ok wit_tripped"
    by (simp add: loss_ok_def wit_tripped_def loss_limit_hit_def wit_gateway_def new_RiskGateway_def
        wit_risk_options_def wit_cap SCALE_FACTOR_eq)
  then show ?thesis
    using persisted_restores [of wit_tripped 0 7 _ wit_policy_options, OF _ _ _ _ refl]
    by (simp add: wit_tripped_def wit_gateway_def new_RiskGateway_def utcDay_def)
qed

end
