(* ===== verification/Execution_Manager.thy ===== *)
theory Execution_Manager
  imports Order_Tracker Risk_Gateway Retry_Safety
begin

text \<open>
  \<open>src/execution/ExecutionManager.ts\<close>: idempotent order placement with reconciliation. The state
  is the ledger, the index by client order id, the placements in flight with the point each has
  reached, the cancels and reconciliations in flight, and the risk gateway. An event is a call, an
  answer of the product adapter (which is an interface, hence an argument of the events) or a
  timer; a step runs the code from that event up to the next \<open>await\<close>, and logs what leaves the
  manager: requests sent, promises settled. The normalization of a raw response, the adapter's
  \<open>toOrderShape\<close>, is a parameter; so is the clock. Every \<open>Execution\<close> object is recorded exactly
  once, when it is made, so the two \<open>WeakSet\<close>s of recorded objects never hold the one at hand
  and are left out. Observability events are left out.
  Lemmas: when an order is sent to the exchange, that every placement settles, the size of the
  ledger, the fold of execution reports, and what the recorded executions do to the risk gateway,
  through the laws of its \<open>exposure_budget\<close> interpretation.
\<close>

section \<open>Executions\<close>

datatype recon_state = Acked | Reconciled | Rejected | Unknown

datatype em_error = ESdk sdk_error | EDec dec_error | ENoExecution string

record execution =
  ex_intent :: string
  ex_client :: string
  ex_exchangeId :: "js_number option"
  ex_symbol :: string
  ex_side :: string
  ex_type :: string
  ex_status :: string
  ex_requestedQuantity :: "string option"
  ex_requestedPrice :: "string option"
  ex_executed :: "string option"
  ex_quote :: "string option"
  ex_average :: "string option"
  ex_fills :: "execution_fill list"
  ex_state :: recon_state
  ex_submittedAt :: js_number
  ex_updatedAt :: js_number

record submission =
  su_symbol :: string
  su_side :: string
  su_type :: string
  su_quantity :: js_value
  su_price :: js_value
  su_client :: string

definition decimalOrNull :: "js_value \<Rightarrow> dec_error + string option" where
  "decimalOrNull v = (case v of
     JUndef \<Rightarrow> Inr None
   | JStr s \<Rightarrow> mapR (\<lambda>d. Some (dec_to_string d)) (dec_from (SIn s))
   | JNum n \<Rightarrow> mapR (\<lambda>d. Some (dec_to_string d)) (dec_from (NIn n))
   | _ \<Rightarrow> Inl (InvalidDecimal []))"

definition averagePrice :: "decimal option \<Rightarrow> decimal option \<Rightarrow> string option \<Rightarrow> dec_error + string option" where
  "averagePrice executedQty cumQuote fallback =
     (let computed = (case (executedQty, cumQuote) of
             (Some q, Some c) \<Rightarrow> if dec_isZero q then None else okR (dec_div c q)
           | _ \<Rightarrow> None)
      in if (case computed of Some c \<Rightarrow> \<not> dec_isZero c | None \<Rightarrow> False)
         then Inr (map_option dec_to_string computed)
         else case fallback of
                None \<Rightarrow> Inr None
              | Some f \<Rightarrow>
                  if f = [] then Inr None
                  else mapR (\<lambda>p. if dec_isZero p then None else Some (dec_to_string p)) (dec_from (SIn f)))"

fun fill_sums :: "execution_fill list \<Rightarrow> decimal \<Rightarrow> decimal \<Rightarrow> dec_error + decimal \<times> decimal" where
  "fill_sums [] notional qty = Inr (notional, qty)"
| "fill_sums (f # fs) notional qty =
     bindR (dec_from (SIn (fill_price f))) (\<lambda>p.
     bindR (dec_from (SIn (fill_quantity f))) (\<lambda>q.
       fill_sums fs (dec_add notional (dec_mul p q)) (dec_add qty q)))"

definition weightedAverage :: "execution_fill list \<Rightarrow> dec_error + string option" where
  "weightedAverage fills =
     bindR (fill_sums fills dec_ZERO dec_ZERO) (\<lambda>(notional, qty).
       if dec_isZero qty then Inr None else mapR (\<lambda>a. Some (dec_to_string a)) (dec_div notional qty))"

definition isTerminalCanceled :: "string \<Rightarrow> bool" where
  "isTerminalCanceled status \<longleftrightarrow> status = ''CANCELED'' \<or> status = ''EXPIRED'' \<or> status = ''CANCELED_EXPIRED''"

definition isTerminal :: "string \<Rightarrow> bool" where
  "isTerminal status \<longleftrightarrow> status = ''FILLED'' \<or> status = ''CANCELED'' \<or> status = ''EXPIRED'' \<or>
     status = ''REJECTED'' \<or> status = ''PARTIALLY_CANCELED''"

text \<open>The quantities of an execution are strings made by the decimal printer, so parsing them again
  succeeds; a string that did not parse would count as zero here.\<close>

definition str_decimal :: "string \<Rightarrow> decimal" where
  "str_decimal s = (case dec_from (SIn s) of Inr d \<Rightarrow> d | Inl _ \<Rightarrow> dec_ZERO)"

definition notionalOf :: "execution \<Rightarrow> string option" where
  "notionalOf ex =
     (if (case ex_quote ex of Some q \<Rightarrow> \<not> dec_isZero (str_decimal q) | None \<Rightarrow> False)
      then map_option (\<lambda>q. dec_to_string (str_decimal q)) (ex_quote ex)
      else case (ex_requestedPrice ex, ex_requestedQuantity ex) of
             (Some p, Some q) \<Rightarrow> Some (dec_to_string (dec_mul (str_decimal p) (str_decimal q)))
           | _ \<Rightarrow> None)"

section \<open>The manager\<close>

datatype place_stage = SCreating nat | SWaiting nat nat | SFetching nat nat

record placement =
  pl_intent :: string
  pl_submission :: submission
  pl_submittedAt :: js_number
  pl_stage :: place_stage

record cancel_call =
  cc_intent :: string
  cc_symbol :: string
  cc_orderId :: "js_number option"
  cc_client :: "string option"
  cc_error :: "sdk_error option"

datatype em_output =
    OCreate string submission
  | OFetch string string
  | OCancel string "js_number option" "string option"
  | OReturned string execution
  | OJoined string
  | OThrew string em_error

record exec_manager =
  em_prefix :: string
  em_maxAttempts :: nat
  em_maxLedger :: nat
  em_risk :: "risk_gateway option"
  em_ledger :: "(string, execution) jsmap"
  em_byClient :: "(string, string) jsmap"
  em_inFlight :: "(string, placement) jsmap"
  em_cancels :: "(nat, cancel_call) jsmap"
  em_reconciles :: "(nat, string \<times> string option \<times> string option) jsmap"
  em_trace :: "em_output list"

definition new_ExecutionManager :: "string option \<Rightarrow> nat option \<Rightarrow> nat option \<Rightarrow> risk_gateway option \<Rightarrow> exec_manager" where
  "new_ExecutionManager prefix attempts maxLedger risk =
     \<lparr>em_prefix = (case prefix of None \<Rightarrow> ''nbsdk'' | Some p \<Rightarrow> p),
      em_maxAttempts = (case attempts of None \<Rightarrow> 3 | Some n \<Rightarrow> n),
      em_maxLedger = (case maxLedger of None \<Rightarrow> 1000 | Some n \<Rightarrow> n),
      em_risk = risk, em_ledger = [], em_byClient = [], em_inFlight = [], em_cancels = [],
      em_reconciles = [], em_trace = []\<rparr>"

definition emit :: "em_output \<Rightarrow> exec_manager \<Rightarrow> exec_manager" where
  "emit x st = st\<lparr>em_trace := em_trace st @ [x]\<rparr>"

definition deriveClientOrderId :: "string \<Rightarrow> string \<Rightarrow> string" where
  "deriveClientOrderId prefix intentId =
     take 36 (prefix @ ''-'' @ take 24 (filter (\<lambda>c. c \<noteq> CHR ''-'') intentId))"

definition updateRiskGateway :: "js_number \<Rightarrow> execution \<Rightarrow> risk_gateway \<Rightarrow> risk_gateway" where
  "updateRiskGateway now ex risk =
     (if ex_state ex = Rejected \<or> ex_status ex = ''REJECTED''
      then recordFailure (case now of Fin t \<Rightarrow> \<lfloor>t\<rfloor> | _ \<Rightarrow> 0) risk
      else
        let risk1 = recordSuccess risk
        in case notionalOf ex of
             None \<Rightarrow> risk1
           | Some notional \<Rightarrow>
               if isTerminal (ex_status ex) then releaseOpenOrder (JStr notional) risk1
               else registerOpenOrder (JStr notional) risk1)"

definition em_record :: "js_number \<Rightarrow> execution \<Rightarrow> exec_manager \<Rightarrow> exec_manager" where
  "em_record now ex st =
     (let l = jm_set (ex_intent ex) ex (em_ledger st);
          l1 = (if length (jm_keys l) > em_maxLedger st
                then (case jm_keys l of [] \<Rightarrow> l | k # _ \<Rightarrow> jm_del k l) else l)
      in st\<lparr>em_ledger := l1, em_byClient := jm_set (ex_client ex) (ex_intent ex) (em_byClient st),
            em_risk := map_option (updateRiskGateway now ex) (em_risk st)\<rparr>)"

text \<open>\<open>executionFromResponse\<close> and the first half of \<open>recordFromOrder\<close>.\<close>

definition shape_execution :: "order_shape \<Rightarrow> string \<Rightarrow> string \<Rightarrow> dec_error + string option \<times> string option
    \<Rightarrow> recon_state \<Rightarrow> js_number \<Rightarrow> dec_error + execution" where
  "shape_execution shape intentId clientOrderId requested state submittedAt =
     bindR (parse_opt (os_executedQty shape)) (\<lambda>executedQty.
     bindR (parse_opt (os_cumQuote shape)) (\<lambda>cumQuote.
     bindR requested (\<lambda>rq.
     mapR (\<lambda>avg.
       \<lparr>ex_intent = intentId, ex_client = clientOrderId, ex_exchangeId = os_orderId shape,
        ex_symbol = os_symbol shape, ex_side = os_side shape, ex_type = os_type shape,
        ex_status = os_status shape, ex_requestedQuantity = fst rq, ex_requestedPrice = snd rq,
        ex_executed = map_option dec_to_string executedQty, ex_quote = map_option dec_to_string cumQuote,
        ex_average = avg, ex_fills = os_fills shape, ex_state = state, ex_submittedAt = submittedAt,
        ex_updatedAt = os_updateTime shape\<rparr>)
       (averagePrice executedQty cumQuote (os_avgPrice shape)))))"

definition requested_of :: "submission \<Rightarrow> dec_error + string option \<times> string option" where
  "requested_of su = bindR (decimalOrNull (su_quantity su)) (\<lambda>q. mapR (\<lambda>p. (q, p)) (decimalOrNull (su_price su)))"

type_synonym shape_fun = "js_value \<Rightarrow> em_error + order_shape"

definition order_execution :: "shape_fun \<Rightarrow> js_value \<Rightarrow> string \<Rightarrow> (order_shape \<Rightarrow> string) \<Rightarrow> (dec_error + string option \<times> string option)
    \<Rightarrow> recon_state \<Rightarrow> js_number \<Rightarrow> em_error + execution" where
  "order_execution toShape raw intentId client requested state submittedAt =
     bindR (toShape raw) (\<lambda>shape.
       case shape_execution shape intentId (client shape) requested state submittedAt of
         Inl e \<Rightarrow> Inl (EDec e)
       | Inr ex \<Rightarrow> Inr ex)"

text \<open>An execution that no response describes: a rejection or an unknown outcome.\<close>

definition local_execution :: "string \<Rightarrow> submission \<Rightarrow> string option \<times> string option \<Rightarrow> string \<Rightarrow> string option
    \<Rightarrow> recon_state \<Rightarrow> js_number \<Rightarrow> js_number \<Rightarrow> execution" where
  "local_execution intentId su requested status quantity state submittedAt now =
     \<lparr>ex_intent = intentId, ex_client = su_client su, ex_exchangeId = None, ex_symbol = su_symbol su,
      ex_side = su_side su, ex_type = su_type su, ex_status = status,
      ex_requestedQuantity = fst requested, ex_requestedPrice = snd requested,
      ex_executed = quantity, ex_quote = quantity, ex_average = None, ex_fills = [], ex_state = state,
      ex_submittedAt = submittedAt, ex_updatedAt = now\<rparr>"

definition api_code :: "sdk_error \<Rightarrow> int option" where
  "api_code e = (case e of ApiError a \<Rightarrow> Some (ae_code a) | RateLimitError a _ \<Rightarrow> Some (ae_code a) | _ \<Rightarrow> None)"

definition is_network :: "sdk_error \<Rightarrow> bool" where
  "is_network e = (case e of NetworkError _ \<Rightarrow> True | _ \<Rightarrow> False)"

section \<open>Placement\<close>

text \<open>The \<open>finally\<close> of a placement and the settling of its promise.\<close>

definition settle :: "string \<Rightarrow> em_output \<Rightarrow> exec_manager \<Rightarrow> exec_manager" where
  "settle cid x st = emit x (st\<lparr>em_inFlight := jm_del cid (em_inFlight st)\<rparr>)"

definition set_stage :: "string \<Rightarrow> placement \<Rightarrow> place_stage \<Rightarrow> exec_manager \<Rightarrow> exec_manager" where
  "set_stage cid pl stage st = st\<lparr>em_inFlight := jm_set cid (pl\<lparr>pl_stage := stage\<rparr>) (em_inFlight st)\<rparr>"

definition place_returned :: "string \<Rightarrow> js_number \<Rightarrow> execution \<Rightarrow> exec_manager \<Rightarrow> exec_manager" where
  "place_returned cid now ex st = settle cid (OReturned (ex_intent ex) ex) (em_record now ex st)"

definition place_threw :: "string \<Rightarrow> string \<Rightarrow> em_error \<Rightarrow> exec_manager \<Rightarrow> exec_manager" where
  "place_threw cid intentId e st = settle cid (OThrew intentId e) st"

text \<open>The two exits with an undetermined outcome record it and throw.\<close>

definition place_unknown :: "string \<Rightarrow> placement \<Rightarrow> js_number \<Rightarrow> exec_manager \<Rightarrow> exec_manager" where
  "place_unknown cid pl now st =
     (case requested_of (pl_submission pl) of
        Inl e \<Rightarrow> place_threw cid (pl_intent pl) (EDec e) st
      | Inr rq \<Rightarrow>
          place_threw cid (pl_intent pl) (ESdk (ExecutionUnknownError (em_maxAttempts st) cid))
            (em_record now (local_execution (pl_intent pl) (pl_submission pl) rq ''UNKNOWN'' None Unknown
               (pl_submittedAt pl) now) st))"

definition create :: "string \<Rightarrow> placement \<Rightarrow> nat \<Rightarrow> exec_manager \<Rightarrow> exec_manager" where
  "create cid pl k st = emit (OCreate cid (pl_submission pl)) (set_stage cid pl (SCreating k) st)"

definition poll :: "string \<Rightarrow> placement \<Rightarrow> nat \<Rightarrow> nat \<Rightarrow> js_number \<Rightarrow> exec_manager \<Rightarrow> exec_manager" where
  "poll cid pl k attempt now st =
     (if attempt \<le> em_maxAttempts st then set_stage cid pl (SWaiting k attempt) st
      else place_unknown cid pl now st)"

definition placeOrder :: "string option \<Rightarrow> string \<Rightarrow> string option \<Rightarrow> submission \<Rightarrow> js_number \<Rightarrow> exec_manager \<Rightarrow> exec_manager" where
  "placeOrder intent uuid client su now st =
     (let intentId = (case intent of Some i \<Rightarrow> i | None \<Rightarrow> uuid);
          cid = (case client of Some c \<Rightarrow> c | None \<Rightarrow> deriveClientOrderId (em_prefix st) intentId)
      in case jm_get intentId (em_ledger st) of
           Some ex \<Rightarrow> emit (OReturned intentId ex) st
         | None \<Rightarrow>
             if jm_get cid (em_inFlight st) \<noteq> None then emit (OJoined cid) st
             else create cid \<lparr>pl_intent = intentId, pl_submission = su\<lparr>su_client := cid\<rparr>,
                               pl_submittedAt = now, pl_stage = SCreating 0\<rparr> 0 st)"

definition on_created :: "shape_fun \<Rightarrow> string \<Rightarrow> sdk_error + js_value \<Rightarrow> js_number \<Rightarrow> exec_manager \<Rightarrow> exec_manager" where
  "on_created toShape cid reply now st =
     (case jm_get cid (em_inFlight st) of
        None \<Rightarrow> st
      | Some pl \<Rightarrow>
          (case pl_stage pl of
             SCreating k \<Rightarrow>
               (case reply of
                  Inr response \<Rightarrow>
                    (case order_execution toShape response (pl_intent pl)
                            (\<lambda>sh. if os_clientOrderId sh = [] then cid else os_clientOrderId sh)
                            (requested_of (pl_submission pl)) Acked (pl_submittedAt pl) of
                       Inl e \<Rightarrow> place_threw cid (pl_intent pl) e st
                     | Inr ex \<Rightarrow> place_returned cid now ex st)
                | Inl e \<Rightarrow>
                    if api_code e \<noteq> None
                    then (case requested_of (pl_submission pl) of
                            Inl de \<Rightarrow> place_threw cid (pl_intent pl) (EDec de) st
                          | Inr rq \<Rightarrow>
                              place_threw cid (pl_intent pl) (ESdk e)
                                (em_record now (local_execution (pl_intent pl) (pl_submission pl) rq ''REJECTED''
                                   (Some ''0'') Rejected (pl_submittedAt pl) now) st))
                    else if \<not> is_network e then place_threw cid (pl_intent pl) (ESdk e) st
                    else poll cid pl k 1 now st)
           | _ \<Rightarrow> st))"

definition on_delay :: "string \<Rightarrow> exec_manager \<Rightarrow> exec_manager" where
  "on_delay cid st =
     (case jm_get cid (em_inFlight st) of
        None \<Rightarrow> st
      | Some pl \<Rightarrow>
          (case pl_stage pl of
             SWaiting k attempt \<Rightarrow>
               emit (OFetch (su_symbol (pl_submission pl)) cid) (set_stage cid pl (SFetching k attempt) st)
           | _ \<Rightarrow> st))"

text \<open>An answer that does not normalize is caught like a failed query.\<close>

definition on_fetched :: "shape_fun \<Rightarrow> string \<Rightarrow> sdk_error + js_value \<Rightarrow> js_number \<Rightarrow> exec_manager \<Rightarrow> exec_manager" where
  "on_fetched toShape cid reply now st =
     (case jm_get cid (em_inFlight st) of
        None \<Rightarrow> st
      | Some pl \<Rightarrow>
          (case pl_stage pl of
             SFetching k attempt \<Rightarrow>
               (case reply of
                  Inr raw \<Rightarrow>
                    (case order_execution toShape raw (pl_intent pl) os_clientOrderId
                            (requested_of (pl_submission pl)) Reconciled (pl_submittedAt pl) of
                       Inl _ \<Rightarrow> poll cid pl k (attempt + 1) now st
                     | Inr ex \<Rightarrow> place_returned cid now ex st)
                | Inl e \<Rightarrow>
                    if api_code e = Some (- 2013)
                    then (if k = 0 then create cid pl 1 st else place_unknown cid pl now st)
                    else poll cid pl k (attempt + 1) now st)
           | _ \<Rightarrow> st))"

section \<open>Cancelling and reconciling\<close>

definition cancelOrder :: "nat \<Rightarrow> string \<Rightarrow> js_number option \<Rightarrow> string option \<Rightarrow> string option \<Rightarrow> string \<Rightarrow> exec_manager \<Rightarrow> exec_manager" where
  "cancelOrder n symbol orderId client intent uuid st =
     (let intentId = (case intent of Some i \<Rightarrow> i | None \<Rightarrow> uuid)
      in case jm_get intentId (em_ledger st) of
           Some ex \<Rightarrow> emit (OReturned intentId ex) st
         | None \<Rightarrow>
             emit (OCancel symbol orderId client)
               (st\<lparr>em_cancels := jm_set n \<lparr>cc_intent = intentId, cc_symbol = symbol, cc_orderId = orderId,
                      cc_client = client, cc_error = None\<rparr> (em_cancels st)\<rparr>))"

definition cancel_done :: "nat \<Rightarrow> em_output \<Rightarrow> exec_manager \<Rightarrow> exec_manager" where
  "cancel_done n x st = emit x (st\<lparr>em_cancels := jm_del n (em_cancels st)\<rparr>)"

definition on_cancelled :: "shape_fun \<Rightarrow> nat \<Rightarrow> sdk_error + js_value \<Rightarrow> js_number \<Rightarrow> exec_manager \<Rightarrow> exec_manager" where
  "on_cancelled toShape n reply now st =
     (case jm_get n (em_cancels st) of
        None \<Rightarrow> st
      | Some cc \<Rightarrow>
          if cc_error cc \<noteq> None then st
          else
            let failed = (\<lambda>e. if api_code e = Some (- 2011) \<or> api_code e = Some (- 2013)
                 then let ex = \<lparr>ex_intent = cc_intent cc, ex_client = (case cc_client cc of Some c \<Rightarrow> c | None \<Rightarrow> []),
                                ex_exchangeId = None, ex_symbol = cc_symbol cc, ex_side = [], ex_type = ''CANCEL'',
                                ex_status = ''CANCELED'', ex_requestedQuantity = None, ex_requestedPrice = None,
                                ex_executed = Some ''0'', ex_quote = Some ''0'', ex_average = None, ex_fills = [],
                                ex_state = Reconciled, ex_submittedAt = now, ex_updatedAt = now\<rparr>
                      in cancel_done n (OReturned (cc_intent cc) ex) (em_record now ex st)
                 else if \<not> is_network e then cancel_done n (OThrew (cc_intent cc) (ESdk e)) st
                 else emit (OFetch (cc_symbol cc) (case cc_client cc of Some c \<Rightarrow> c | None \<Rightarrow> []))
                        (st\<lparr>em_cancels := jm_set n (cc\<lparr>cc_error := Some e\<rparr>) (em_cancels st)\<rparr>))
            in case reply of
                 Inl e \<Rightarrow> failed e
               | Inr raw \<Rightarrow>
                   (case order_execution toShape raw (cc_intent cc) os_clientOrderId (Inr (None, None)) Acked now of
                      Inr ex \<Rightarrow> cancel_done n (OReturned (cc_intent cc) ex) (em_record now ex st)
                    | Inl (ESdk e) \<Rightarrow> failed e
                    | Inl e \<Rightarrow> cancel_done n (OThrew (cc_intent cc) e) st))"

definition on_cancel_fetched :: "shape_fun \<Rightarrow> nat \<Rightarrow> sdk_error + js_value \<Rightarrow> js_number \<Rightarrow> exec_manager \<Rightarrow> exec_manager" where
  "on_cancel_fetched toShape n reply now st =
     (case jm_get n (em_cancels st) of
        None \<Rightarrow> st
      | Some cc \<Rightarrow>
          (case cc_error cc of
             None \<Rightarrow> st
           | Some err \<Rightarrow>
               let gave_up = cancel_done n (OThrew (cc_intent cc) (ESdk err)) st
               in case reply of
                    Inl _ \<Rightarrow> gave_up
                  | Inr raw \<Rightarrow>
                      (case order_execution toShape raw (cc_intent cc) os_clientOrderId (Inr (None, None))
                              (case toShape raw of Inr sh \<Rightarrow> if isTerminalCanceled (os_status sh) then Reconciled else Unknown
                               | Inl _ \<Rightarrow> Unknown) now of
                         Inl _ \<Rightarrow> gave_up
                       | Inr ex \<Rightarrow> cancel_done n (OReturned (cc_intent cc) ex) (em_record now ex st))))"

definition reconcile :: "nat \<Rightarrow> string \<Rightarrow> exec_manager \<Rightarrow> exec_manager" where
  "reconcile n intentId st =
     (case jm_get intentId (em_ledger st) of
        None \<Rightarrow> emit (OThrew intentId (ENoExecution intentId)) st
      | Some ex \<Rightarrow>
          emit (OFetch (ex_symbol ex) (ex_client ex))
            (st\<lparr>em_reconciles := jm_set n (intentId, ex_requestedQuantity ex, ex_requestedPrice ex) (em_reconciles st)\<rparr>))"

definition on_reconciled :: "shape_fun \<Rightarrow> nat \<Rightarrow> sdk_error + js_value \<Rightarrow> js_number \<Rightarrow> exec_manager \<Rightarrow> exec_manager" where
  "on_reconciled toShape n reply now st =
     (case jm_get n (em_reconciles st) of
        None \<Rightarrow> st
      | Some (intentId, requested) \<Rightarrow>
          let st1 = st\<lparr>em_reconciles := jm_del n (em_reconciles st)\<rparr>
          in case reply of
               Inl e \<Rightarrow> emit (OThrew intentId (ESdk e)) st1
             | Inr raw \<Rightarrow>
                 (case order_execution toShape raw intentId os_clientOrderId (Inr requested) Reconciled now of
                    Inl e \<Rightarrow> emit (OThrew intentId e) st1
                  | Inr ex \<Rightarrow> emit (OReturned intentId ex) (em_record now ex st1)))"

definition getExecution :: "string \<Rightarrow> exec_manager \<Rightarrow> execution option" where
  "getExecution intentId st = jm_get intentId (em_ledger st)"

definition getExecutionByClientOrderId :: "string \<Rightarrow> exec_manager \<Rightarrow> execution option" where
  "getExecutionByClientOrderId cid st =
     (case jm_get cid (em_byClient st) of
        None \<Rightarrow> None
      | Some intentId \<Rightarrow> if intentId = [] then None else getExecution intentId st)"

definition listExecutions :: "exec_manager \<Rightarrow> execution list" where
  "listExecutions st = map snd (em_ledger st)"

section \<open>Execution reports\<close>

record report_shape =
  rp_client :: string
  rp_orderId :: "js_number option"
  rp_status :: string
  rp_lastPrice :: "string option"
  rp_lastQty :: "string option"
  rp_commission :: "string option"
  rp_commissionAsset :: "string option"
  rp_executedQty :: "string option"
  rp_cumQuote :: "string option"
  rp_avgPrice :: "string option"
  rp_tradeId :: "js_number option"

definition report_status :: "report_shape \<Rightarrow> execution \<Rightarrow> execution" where
  "report_status rp ex =
     ex\<lparr>ex_status := (if rp_status rp \<noteq> [] then rp_status rp else ex_status ex),
        ex_exchangeId := (case ex_exchangeId ex of None \<Rightarrow> rp_orderId rp | Some i \<Rightarrow> Some i)\<rparr>"

definition seen_trade :: "js_number option \<Rightarrow> execution_fill list \<Rightarrow> bool" where
  "seen_trade t fills =
     (case t of None \<Rightarrow> False
      | Some i \<Rightarrow> jn_less (Fin 0) i \<and> list_ex (\<lambda>f. fill_tradeId f = Some i) fills)"

definition report_fills :: "report_shape \<Rightarrow> execution \<Rightarrow> execution" where
  "report_fills rp ex =
     (case rp_lastQty rp of
        None \<Rightarrow> ex
      | Some q \<Rightarrow>
          if q = ''0'' \<or> q = [] \<or> seen_trade (rp_tradeId rp) (ex_fills ex) then ex
          else ex\<lparr>ex_fills := ex_fills ex @
                 [\<lparr>fill_price = (case rp_lastPrice rp of Some p \<Rightarrow> p | None \<Rightarrow> ''0''), fill_quantity = q,
                   fill_commission = (if rp_commission rp = Some ''0'' then None else rp_commission rp),
                   fill_commissionAsset = (if rp_commissionAsset rp = Some [] then None else rp_commissionAsset rp),
                   fill_tradeId = rp_tradeId rp\<rparr>]\<rparr>)"

definition report_executed :: "report_shape \<Rightarrow> execution \<Rightarrow> dec_error + execution" where
  "report_executed rp ex =
     (case rp_executedQty rp of
        None \<Rightarrow> Inr ex
      | Some q \<Rightarrow> mapR (\<lambda>d. ex\<lparr>ex_executed := Some (dec_to_string d)\<rparr>) (dec_from (SIn q)))"

definition report_quote :: "report_shape \<Rightarrow> execution \<Rightarrow> dec_error + execution" where
  "report_quote rp ex =
     (case rp_cumQuote rp of
        Some c \<Rightarrow> mapR (\<lambda>d. ex\<lparr>ex_quote := Some (dec_to_string d)\<rparr>) (dec_from (SIn c))
      | None \<Rightarrow>
          (case (ex_quote ex, ex_executed ex) of
             (None, Some q) \<Rightarrow>
               bindR (dec_from (SIn q)) (\<lambda>qty.
                 case coalesce (rp_avgPrice rp) (ex_average ex) of
                   None \<Rightarrow> Inr ex
                 | Some a \<Rightarrow> mapR (\<lambda>p. ex\<lparr>ex_quote := Some (dec_to_string (dec_mul qty p))\<rparr>) (dec_from (SIn a)))
           | _ \<Rightarrow> Inr ex))"

definition report_average :: "report_shape \<Rightarrow> execution \<Rightarrow> dec_error + execution" where
  "report_average rp ex =
     (if ex_fills ex = []
      then bindR (parse_opt (ex_executed ex)) (\<lambda>qty.
           bindR (parse_opt (ex_quote ex)) (\<lambda>quote.
           mapR (\<lambda>a. ex\<lparr>ex_average := coalesce a (ex_average ex)\<rparr>)
             (averagePrice qty quote (coalesce (rp_avgPrice rp) (ex_average ex)))))
      else mapR (\<lambda>a. ex\<lparr>ex_average := a\<rparr>) (weightedAverage (ex_fills ex)))"

text \<open>A quantity that does not parse throws out of the handler; what was assigned before it stays.\<close>

definition apply_report :: "report_shape \<Rightarrow> js_number \<Rightarrow> execution \<Rightarrow> execution \<times> dec_error option" where
  "apply_report rp now ex =
     (let ex1 = report_fills rp (report_status rp ex)
      in case report_executed rp ex1 of
           Inl e \<Rightarrow> (ex1, Some e)
         | Inr ex2 \<Rightarrow>
             (case report_quote rp ex2 of
                Inl e \<Rightarrow> (ex2, Some e)
              | Inr ex3 \<Rightarrow>
                  (case report_average rp ex3 of
                     Inl e \<Rightarrow> (ex3, Some e)
                   | Inr ex4 \<Rightarrow> (ex4\<lparr>ex_updatedAt := now\<rparr>, None))))"

definition onExecutionReport :: "report_shape \<Rightarrow> js_number \<Rightarrow> exec_manager \<Rightarrow> exec_manager" where
  "onExecutionReport rp now st =
     (if rp_client rp = [] then st
      else case jm_get (rp_client rp) (em_byClient st) of
             None \<Rightarrow> st
           | Some intentId \<Rightarrow>
               if intentId = [] then st
               else case jm_get intentId (em_ledger st) of
                      None \<Rightarrow> st
                    | Some ex \<Rightarrow>
                        st\<lparr>em_ledger := jm_set intentId (fst (apply_report rp now ex)) (em_ledger st)\<rparr>)"

section \<open>Events\<close>

datatype em_event =
    EPlace "string option" string "string option" submission js_number
  | ECreated string "sdk_error + js_value" js_number
  | EDelay string
  | EFetched string "sdk_error + js_value" js_number
  | ECancel nat string "js_number option" "string option" "string option" string
  | ECancelled nat "sdk_error + js_value" js_number
  | ECancelFetched nat "sdk_error + js_value" js_number
  | EReconcile nat string
  | EReconciled nat "sdk_error + js_value" js_number
  | EReport report_shape js_number

fun em_step :: "shape_fun \<Rightarrow> exec_manager \<Rightarrow> em_event \<Rightarrow> exec_manager" where
  "em_step ts st (EPlace intent uuid client su now) = placeOrder intent uuid client su now st"
| "em_step ts st (ECreated cid reply now) = on_created ts cid reply now st"
| "em_step ts st (EDelay cid) = on_delay cid st"
| "em_step ts st (EFetched cid reply now) = on_fetched ts cid reply now st"
| "em_step ts st (ECancel n symbol orderId client intent uuid) = cancelOrder n symbol orderId client intent uuid st"
| "em_step ts st (ECancelled n reply now) = on_cancelled ts n reply now st"
| "em_step ts st (ECancelFetched n reply now) = on_cancel_fetched ts n reply now st"
| "em_step ts st (EReconcile n intentId) = reconcile n intentId st"
| "em_step ts st (EReconciled n reply now) = on_reconciled ts n reply now st"
| "em_step ts st (EReport rp now) = onExecutionReport rp now st"

section \<open>What leaves the manager\<close>

fun is_create :: "string \<Rightarrow> em_output \<Rightarrow> bool" where
  "is_create cid (OCreate c _) = (c = cid)"
| "is_create cid _ = False"

definition order_sends :: "string \<Rightarrow> exec_manager \<Rightarrow> nat" where
  "order_sends cid st = length (filter (is_create cid) (em_trace st))"

fun stage_sends_left :: "place_stage \<Rightarrow> nat" where
  "stage_sends_left (SCreating k) = 1 - k"
| "stage_sends_left (SWaiting k _) = 1 - k"
| "stage_sends_left (SFetching k _) = 1 - k"

definition sends_left :: "string \<Rightarrow> exec_manager \<Rightarrow> nat" where
  "sends_left cid st = (case jm_get cid (em_inFlight st) of None \<Rightarrow> 0 | Some pl \<Rightarrow> stage_sends_left (pl_stage pl))"

text \<open>The client order id an event places an order under.\<close>

fun place_cid :: "string \<Rightarrow> em_event \<Rightarrow> string option" where
  "place_cid prefix (EPlace intent uuid client su now) =
     Some (case client of Some c \<Rightarrow> c
           | None \<Rightarrow> deriveClientOrderId prefix (case intent of Some i \<Rightarrow> i | None \<Rightarrow> uuid))"
| "place_cid prefix _ = None"

lemma emit_sel [simp]:
  "em_trace (emit x st) = em_trace st @ [x]" "em_inFlight (emit x st) = em_inFlight st"
  "em_prefix (emit x st) = em_prefix st" "em_maxAttempts (emit x st) = em_maxAttempts st"
  "em_maxLedger (emit x st) = em_maxLedger st" "em_ledger (emit x st) = em_ledger st"
  "em_byClient (emit x st) = em_byClient st" "em_risk (emit x st) = em_risk st"
  "em_reconciles (emit x st) = em_reconciles st" "em_cancels (emit x st) = em_cancels st"
  by (simp_all add: emit_def)

lemma record_sel [simp]:
  "em_trace (em_record now ex st) = em_trace st" "em_inFlight (em_record now ex st) = em_inFlight st"
  "em_prefix (em_record now ex st) = em_prefix st" "em_maxAttempts (em_record now ex st) = em_maxAttempts st"
  "em_maxLedger (em_record now ex st) = em_maxLedger st" "em_cancels (em_record now ex st) = em_cancels st"
  "em_risk (em_record now ex st) = map_option (updateRiskGateway now ex) (em_risk st)"
  by (simp_all add: em_record_def Let_def)

lemma settle_sel [simp]:
  "em_trace (settle cid x st) = em_trace st @ [x]" "em_inFlight (settle cid x st) = jm_del cid (em_inFlight st)"
  "em_prefix (settle cid x st) = em_prefix st" "em_maxAttempts (settle cid x st) = em_maxAttempts st"
  "em_maxLedger (settle cid x st) = em_maxLedger st" "em_ledger (settle cid x st) = em_ledger st"
  "em_byClient (settle cid x st) = em_byClient st" "em_risk (settle cid x st) = em_risk st"
  by (simp_all add: settle_def)

lemma set_stage_sel [simp]:
  "em_trace (set_stage cid pl s st) = em_trace st"
  "em_inFlight (set_stage cid pl s st) = jm_set cid (pl\<lparr>pl_stage := s\<rparr>) (em_inFlight st)"
  "em_prefix (set_stage cid pl s st) = em_prefix st" "em_maxAttempts (set_stage cid pl s st) = em_maxAttempts st"
  "em_maxLedger (set_stage cid pl s st) = em_maxLedger st" "em_ledger (set_stage cid pl s st) = em_ledger st"
  "em_byClient (set_stage cid pl s st) = em_byClient st" "em_risk (set_stage cid pl s st) = em_risk st"
  by (simp_all add: set_stage_def)

lemma cancel_done_sel [simp]:
  "em_trace (cancel_done n x st) = em_trace st @ [x]" "em_inFlight (cancel_done n x st) = em_inFlight st"
  "em_prefix (cancel_done n x st) = em_prefix st" "em_maxAttempts (cancel_done n x st) = em_maxAttempts st"
  "em_maxLedger (cancel_done n x st) = em_maxLedger st" "em_ledger (cancel_done n x st) = em_ledger st"
  "em_byClient (cancel_done n x st) = em_byClient st" "em_risk (cancel_done n x st) = em_risk st"
  by (simp_all add: cancel_done_def)

text \<open>What an operation can do to a placement, to the orders sent and to the settings.\<close>

lemmas em_exits = place_returned_def place_threw_def create_def

definition quiet :: "exec_manager \<Rightarrow> exec_manager \<Rightarrow> bool" where
  "quiet st st' \<longleftrightarrow> (\<forall>cid. order_sends cid st' = order_sends cid st) \<and> em_prefix st' = em_prefix st \<and>
     em_maxAttempts st' = em_maxAttempts st \<and> em_maxLedger st' = em_maxLedger st"

lemma order_sends_emit [simp]: "order_sends cid (emit x st) = order_sends cid st + (if is_create cid x then 1 else 0)"
  by (simp add: order_sends_def)

lemma order_sends_settle [simp]:
  "order_sends cid (settle c x st) = order_sends cid st + (if is_create cid x then 1 else 0)"
  by (simp add: order_sends_def)

lemma order_sends_quiet [simp]:
  "order_sends cid (em_record now ex st) = order_sends cid st"
  "order_sends cid (set_stage c pl s st) = order_sends cid st"
  by (simp_all add: order_sends_def)

lemma order_sends_cancel_done [simp]:
  "order_sends cid (cancel_done n x st) = order_sends cid st + (if is_create cid x then 1 else 0)"
  by (simp add: order_sends_def)

lemma order_sends_update [simp]:
  "order_sends cid (em_cancels_update f st) = order_sends cid st"
  "order_sends cid (em_reconciles_update g st) = order_sends cid st"
  "order_sends cid (em_ledger_update h st) = order_sends cid st"
  by (simp_all add: order_sends_def)

lemma cancel_side_quiet:
  "quiet st (cancelOrder n symbol orderId client intent uuid st) \<and>
   em_inFlight (cancelOrder n symbol orderId client intent uuid st) = em_inFlight st"
  "quiet st (on_cancelled ts n reply now st) \<and> em_inFlight (on_cancelled ts n reply now st) = em_inFlight st"
  "quiet st (on_cancel_fetched ts n reply now st) \<and> em_inFlight (on_cancel_fetched ts n reply now st) = em_inFlight st"
  "quiet st (reconcile n i st) \<and> em_inFlight (reconcile n i st) = em_inFlight st"
  "quiet st (on_reconciled ts n reply now st) \<and> em_inFlight (on_reconciled ts n reply now st) = em_inFlight st"
  "quiet st (onExecutionReport rp now st) \<and> em_inFlight (onExecutionReport rp now st) = em_inFlight st"
  by (simp_all add: quiet_def cancelOrder_def on_cancelled_def on_cancel_fetched_def reconcile_def on_reconciled_def
      onExecutionReport_def Let_def split: option.split sum.split em_error.split prod.split)

definition absent_reply :: "string \<Rightarrow> em_event \<Rightarrow> bool" where
  "absent_reply cid e \<longleftrightarrow> (\<exists>err now. e = EFetched cid (Inl err) now \<and> api_code err = Some (- 2013))"

lemma place_unknown_effect:
  "order_sends cid (place_unknown c pl now st) = order_sends cid st"
  "em_inFlight (place_unknown c pl now st) = jm_del c (em_inFlight st)"
  "em_prefix (place_unknown c pl now st) = em_prefix st"
  "em_maxAttempts (place_unknown c pl now st) = em_maxAttempts st"
  by (simp_all add: place_unknown_def em_exits split: sum.split)

lemma poll_effect:
  "order_sends cid (poll c pl k a now st) = order_sends cid st"
  "em_inFlight (poll c pl k a now st) =
     (if a \<le> em_maxAttempts st then jm_set c (pl\<lparr>pl_stage := SWaiting k a\<rparr>) (em_inFlight st)
      else jm_del c (em_inFlight st))"
  "em_prefix (poll c pl k a now st) = em_prefix st"
  "em_maxAttempts (poll c pl k a now st) = em_maxAttempts st"
  by (simp_all add: poll_def place_unknown_effect)

lemmas place_effects = place_unknown_effect poll_effect

lemma on_created_sends:
  "order_sends cid (on_created ts c reply now st) = order_sends cid st \<and>
   sends_left cid (on_created ts c reply now st) \<le> sends_left cid st \<and>
   em_prefix (on_created ts c reply now st) = em_prefix st"
proof (cases "jm_get c (em_inFlight st)")
  case None
  then show ?thesis by (simp add: on_created_def)
next
  case (Some pl)
  then show ?thesis
    by (cases "pl_stage pl")
       (simp_all add: on_created_def em_exits place_effects sends_left_def jm.get_put jm.get_del split: sum.split option.split)
qed

lemma on_delay_sends:
  "order_sends cid (on_delay c st) = order_sends cid st \<and> sends_left cid (on_delay c st) = sends_left cid st \<and>
   em_prefix (on_delay c st) = em_prefix st"
proof (cases "jm_get c (em_inFlight st)")
  case None
  then show ?thesis by (simp add: on_delay_def)
next
  case (Some pl)
  then show ?thesis
    by (cases "pl_stage pl") (simp_all add: on_delay_def sends_left_def jm.get_put)
qed

lemma on_fetched_sends:
  "order_sends cid (on_fetched ts c reply now st) + sends_left cid (on_fetched ts c reply now st)
      \<le> order_sends cid st + sends_left cid st \<and>
   (order_sends cid (on_fetched ts c reply now st) \<noteq> order_sends cid st \<longrightarrow> absent_reply cid (EFetched c reply now)) \<and>
   em_prefix (on_fetched ts c reply now st) = em_prefix st"
proof (cases "jm_get c (em_inFlight st)")
  case None
  then show ?thesis by (simp add: on_fetched_def)
next
  case (Some pl)
  show ?thesis
  proof (cases "pl_stage pl")
    case (SFetching k a)
    with Some show ?thesis
      by (auto simp: on_fetched_def em_exits place_effects sends_left_def absent_reply_def jm.get_put jm.get_del
          split: sum.split option.split)
  qed (use Some in \<open>simp_all add: on_fetched_def\<close>)
qed

lemma placeOrder_sends:
  "place_cid (em_prefix st) (EPlace intent uuid client su now) \<noteq> Some cid \<Longrightarrow>
   order_sends cid (placeOrder intent uuid client su now st) = order_sends cid st \<and>
   sends_left cid (placeOrder intent uuid client su now st) = sends_left cid st \<and>
   em_prefix (placeOrder intent uuid client su now st) = em_prefix st"
  by (cases client; cases intent)
     (auto simp: placeOrder_def em_exits sends_left_def jm.get_put Let_def split: option.split)

lemma step_sends:
  assumes "place_cid (em_prefix st) e \<noteq> Some cid"
  shows "order_sends cid (em_step ts st e) + sends_left cid (em_step ts st e) \<le> order_sends cid st + sends_left cid st \<and>
    (order_sends cid (em_step ts st e) \<noteq> order_sends cid st \<longrightarrow> absent_reply cid e) \<and>
    em_prefix (em_step ts st e) = em_prefix st"
proof (cases e)
  case (EPlace intent uuid client su now)
  with assms placeOrder_sends show ?thesis by simp
next
  case (ECreated c reply now)
  with on_created_sends [of cid ts c reply now st] show ?thesis by simp
next
  case (EDelay c)
  with on_delay_sends show ?thesis by simp
next
  case (EFetched c reply now)
  with on_fetched_sends show ?thesis by simp
qed (use cancel_side_quiet in \<open>simp_all add: quiet_def sends_left_def\<close>)

lemma run_sends:
  assumes "\<forall>e \<in> set es. place_cid (em_prefix st) e \<noteq> Some cid"
  shows "order_sends cid (foldl (em_step ts) st es) + sends_left cid (foldl (em_step ts) st es)
      \<le> order_sends cid st + sends_left cid st \<and>
    (order_sends cid st \<noteq> order_sends cid (foldl (em_step ts) st es) \<longrightarrow> (\<exists>e \<in> set es. absent_reply cid e))"
  using assms
proof (induction es arbitrary: st)
  case Nil
  then show ?case by simp
next
  case (Cons e es)
  then show ?case
    using Cons.IH [of "em_step ts st e"] step_sends [of st e cid ts] by fastforce
qed

lemma place_first_send:
  assumes "place_cid (em_prefix st) e = Some cid"
  shows "order_sends cid (em_step ts st e) \<le> order_sends cid st + 1 \<and> sends_left cid (em_step ts st e) \<le> 1 \<and>
    em_prefix (em_step ts st e) = em_prefix st"
proof (cases e)
  case (EPlace intent uuid client su now)
  have l: "sends_left cid s \<le> 1" for s
  proof (cases "jm_get cid (em_inFlight s)")
    case (Some pl)
    then show ?thesis by (cases "pl_stage pl") (simp_all add: sends_left_def)
  qed (simp add: sends_left_def)
  show ?thesis
    using l EPlace by (auto simp: placeOrder_def em_exits Let_def split: option.split)
qed (use assms in simp_all)

text \<open>C4: an order is never sent a third time, and a second time only on proof. From a call of
  \<open>placeOrder\<close> to the next one with the same client order id, whatever the exchange answers and
  however cancels, reconciliations and reports interleave, at most two orders with that id leave
  the manager, and the second only after the exchange has answered that no such order exists.\<close>
theorem at_most_one_resend:
  assumes "place_cid (em_prefix st) e = Some cid" "\<forall>e' \<in> set es. place_cid (em_prefix st) e' \<noteq> Some cid"
  shows "order_sends cid (foldl (em_step ts) st (e # es)) \<le> order_sends cid st + 2 \<and>
    (order_sends cid st + 1 < order_sends cid (foldl (em_step ts) st (e # es)) \<longrightarrow> (\<exists>e' \<in> set es. absent_reply cid e'))"
  using place_first_send [OF assms(1), of ts] run_sends [of es "em_step ts st e" cid ts] assms(2) by fastforce

section \<open>Every placement settles\<close>

fun stage_rank :: "nat \<Rightarrow> place_stage \<Rightarrow> nat" where
  "stage_rank n (SCreating k) = (1 - k) * (2 * n + 1) + 2 * n + 1"
| "stage_rank n (SWaiting k a) = (1 - k) * (2 * n + 1) + 2 * (n + 1 - a)"
| "stage_rank n (SFetching k a) = (1 - k) * (2 * n + 1) + 2 * (n - a) + 1"

definition place_rank :: "string \<Rightarrow> exec_manager \<Rightarrow> nat" where
  "place_rank cid st = (case jm_get cid (em_inFlight st) of None \<Rightarrow> 0 | Some pl \<Rightarrow> stage_rank (em_maxAttempts st) (pl_stage pl))"

text \<open>The event a placement is waiting for.\<close>

definition awaited :: "string \<Rightarrow> exec_manager \<Rightarrow> em_event \<Rightarrow> bool" where
  "awaited cid st e = (case jm_get cid (em_inFlight st) of
     None \<Rightarrow> False
   | Some pl \<Rightarrow> (case (pl_stage pl, e) of
         (SCreating _, ECreated c _ _) \<Rightarrow> c = cid
       | (SWaiting _ _, EDelay c) \<Rightarrow> c = cid
       | (SFetching _ _, EFetched c _ _) \<Rightarrow> c = cid
       | _ \<Rightarrow> False))"

fun awaited_count :: "shape_fun \<Rightarrow> string \<Rightarrow> exec_manager \<Rightarrow> em_event list \<Rightarrow> nat" where
  "awaited_count ts cid st [] = 0"
| "awaited_count ts cid st (e # es) = (if awaited cid st e then 1 else 0) + awaited_count ts cid (em_step ts st e) es"

definition stage_ok :: "nat \<Rightarrow> place_stage \<Rightarrow> bool" where
  "stage_ok n s = (case s of SCreating k \<Rightarrow> k \<le> 1 | SWaiting k a \<Rightarrow> k \<le> 1 \<and> 1 \<le> a \<and> a \<le> n
    | SFetching k a \<Rightarrow> k \<le> 1 \<and> 1 \<le> a \<and> a \<le> n)"

definition place_ok :: "string \<Rightarrow> exec_manager \<Rightarrow> bool" where
  "place_ok cid st = (case jm_get cid (em_inFlight st) of None \<Rightarrow> True | Some pl \<Rightarrow> stage_ok (em_maxAttempts st) (pl_stage pl))"

lemma on_created_rank:
  "place_ok cid st \<Longrightarrow>
   place_ok cid (on_created ts c reply now st) \<and> em_maxAttempts (on_created ts c reply now st) = em_maxAttempts st \<and>
   (if awaited cid st (ECreated c reply now) then place_rank cid (on_created ts c reply now st) < place_rank cid st
    else place_rank cid (on_created ts c reply now st) = place_rank cid st)"
proof (cases "jm_get c (em_inFlight st)")
  case None
  then show "place_ok cid st \<Longrightarrow> ?thesis" by (auto simp: on_created_def awaited_def split: option.split place_stage.split)
next
  case (Some pl)
  assume "place_ok cid st"
  with Some show ?thesis
    by (cases "pl_stage pl")
       (auto simp: on_created_def em_exits place_effects place_ok_def stage_ok_def place_rank_def awaited_def
         jm.get_put jm.get_del split: sum.split option.split place_stage.split)
qed

lemma on_delay_rank:
  "place_ok cid st \<Longrightarrow>
   place_ok cid (on_delay c st) \<and> em_maxAttempts (on_delay c st) = em_maxAttempts st \<and>
   (if awaited cid st (EDelay c) then place_rank cid (on_delay c st) < place_rank cid st
    else place_rank cid (on_delay c st) = place_rank cid st)"
proof (cases "jm_get c (em_inFlight st)")
  case None
  then show "place_ok cid st \<Longrightarrow> ?thesis" by (auto simp: on_delay_def awaited_def split: option.split place_stage.split)
next
  case (Some pl)
  assume "place_ok cid st"
  with Some show ?thesis
    by (cases "pl_stage pl")
       (auto simp: on_delay_def place_ok_def stage_ok_def place_rank_def awaited_def jm.get_put
         split: option.split place_stage.split)
qed

lemma on_fetched_rank:
  "place_ok cid st \<Longrightarrow>
   place_ok cid (on_fetched ts c reply now st) \<and> em_maxAttempts (on_fetched ts c reply now st) = em_maxAttempts st \<and>
   (if awaited cid st (EFetched c reply now) then place_rank cid (on_fetched ts c reply now st) < place_rank cid st
    else place_rank cid (on_fetched ts c reply now st) = place_rank cid st)"
proof (cases "jm_get c (em_inFlight st)")
  case None
  then show "place_ok cid st \<Longrightarrow> ?thesis" by (auto simp: on_fetched_def awaited_def split: option.split place_stage.split)
next
  case (Some pl)
  assume "place_ok cid st"
  with Some show ?thesis
    by (cases "pl_stage pl")
       (auto simp: on_fetched_def em_exits place_effects place_ok_def stage_ok_def place_rank_def awaited_def
         jm.get_put jm.get_del split: sum.split option.split place_stage.split)
qed

lemma placeOrder_rank:
  "place_cid (em_prefix st) (EPlace intent uuid client su now) \<noteq> Some cid \<Longrightarrow>
   jm_get cid (em_inFlight (placeOrder intent uuid client su now st)) = jm_get cid (em_inFlight st)"
  by (cases client; cases intent) (auto simp: placeOrder_def em_exits jm.get_put Let_def split: option.split)

lemma placeOrder_keeps: "em_maxAttempts (placeOrder intent uuid client su now st) = em_maxAttempts st"
  "em_maxLedger (placeOrder intent uuid client su now st) = em_maxLedger st"
  "em_ledger (placeOrder intent uuid client su now st) = em_ledger st"
  by (simp_all add: placeOrder_def em_exits Let_def split: option.split)

lemma step_rank:
  assumes "place_ok cid st" "place_cid (em_prefix st) e \<noteq> Some cid"
  shows "place_ok cid (em_step ts st e) \<and> em_maxAttempts (em_step ts st e) = em_maxAttempts st \<and>
   (if awaited cid st e then place_rank cid (em_step ts st e) < place_rank cid st
    else place_rank cid (em_step ts st e) = place_rank cid st)"
proof (cases e)
  case (EPlace intent uuid client su now)
  then show ?thesis
    using assms placeOrder_rank [of st intent uuid client su now cid]
    by (auto simp: placeOrder_keeps place_ok_def place_rank_def awaited_def split: option.split place_stage.split)
next
  case (ECreated c reply now)
  with on_created_rank [OF assms(1)] show ?thesis by simp
next
  case (EDelay c)
  with on_delay_rank [OF assms(1)] show ?thesis by simp
next
  case (EFetched c reply now)
  with on_fetched_rank [OF assms(1)] show ?thesis by simp
qed (use assms cancel_side_quiet in
     \<open>auto simp: quiet_def place_ok_def place_rank_def awaited_def split: option.split place_stage.split\<close>)

lemma run_rank:
  assumes "place_ok cid st" "\<forall>e \<in> set es. place_cid (em_prefix st) e \<noteq> Some cid"
  shows "awaited_count ts cid st es + place_rank cid (foldl (em_step ts) st es) \<le> place_rank cid st"
  using assms
proof (induction es arbitrary: st)
  case Nil
  then show ?case by simp
next
  case (Cons e es)
  have s: "place_ok cid (em_step ts st e)" "em_prefix (em_step ts st e) = em_prefix st"
    "(if awaited cid st e then 1 else 0) + place_rank cid (em_step ts st e) \<le> place_rank cid st"
    using step_rank [of cid st e ts] step_sends [of st e cid ts] Cons.prems by (auto split: if_splits)
  then show ?case using Cons.IH [of "em_step ts st e"] Cons.prems by fastforce
qed

lemma stage_rank_bound: "stage_ok n s \<Longrightarrow> stage_rank n s \<le> 4 * n + 2"
  by (cases s) (auto simp: stage_ok_def le_Suc_eq)

lemma place_rank_bound: "place_ok cid st \<Longrightarrow> place_rank cid st \<le> 4 * em_maxAttempts st + 2"
  by (auto simp: place_ok_def place_rank_def dest!: stage_rank_bound split: option.splits)

lemma place_rank_pos: "place_ok cid st \<Longrightarrow> jm_get cid (em_inFlight st) \<noteq> None \<Longrightarrow> 0 < place_rank cid st"
  by (auto simp: place_ok_def stage_ok_def place_rank_def split: place_stage.splits)

lemma run_place_ok:
  assumes "place_ok cid st" "\<forall>e \<in> set es. place_cid (em_prefix st) e \<noteq> Some cid"
  shows "place_ok cid (foldl (em_step ts) st es)"
  using assms
proof (induction es arbitrary: st)
  case (Cons e es)
  then show ?case
    using step_rank [of cid st e ts] step_sends [of st e cid ts] by simp
qed simp

section \<open>The ledger\<close>

definition ledger_ok :: "exec_manager \<Rightarrow> bool" where
  "ledger_ok st \<longleftrightarrow> jm_ok (em_ledger st) \<and> length (jm_keys (em_ledger st)) \<le> em_maxLedger st \<and>
     (\<forall>i ex. jm_get i (em_ledger st) = Some ex \<longrightarrow> ex_intent ex = i)"

lemma length_del_head: "jm_ok m \<Longrightarrow> jm_keys m = k # ks \<Longrightarrow> length (jm_keys (jm_del k m)) = length ks"
  by (simp add: jm.del_oldest)

lemma record_ledger:
  assumes "ledger_ok st"
  shows "ledger_ok (em_record now ex st)"
proof -
  let ?l = "jm_set (ex_intent ex) ex (em_ledger st)"
  have ok: "jm_ok ?l" using assms by (simp add: ledger_ok_def jm.ok_put)
  have len: "length (jm_keys ?l) \<le> Suc (em_maxLedger st)"
    using assms jm.length_put [of "ex_intent ex" ex "em_ledger st"] by (simp add: ledger_ok_def)
  show ?thesis
  proof (cases "jm_keys ?l")
    case Nil
    then show ?thesis
      using assms ok by (auto simp: ledger_ok_def em_record_def Let_def jm.get_put)
  next
    case (Cons k ks)
    then show ?thesis
      using assms ok len length_del_head [OF ok Cons]
      by (auto simp: ledger_ok_def em_record_def Let_def jm.get_put jm.get_del jm.ok_del split: if_splits)
  qed
qed

lemma ledger_ok_cong:
  "em_ledger st' = em_ledger st \<Longrightarrow> em_maxLedger st' = em_maxLedger st \<Longrightarrow> ledger_ok st' = ledger_ok st"
  by (simp add: ledger_ok_def)

lemma ledger_ok_frame [simp]:
  "ledger_ok (emit x st) = ledger_ok st" "ledger_ok (settle cid x st) = ledger_ok st"
  "ledger_ok (set_stage cid pl s st) = ledger_ok st" "ledger_ok (cancel_done n x st) = ledger_ok st"
  "ledger_ok (em_cancels_update f st) = ledger_ok st" "ledger_ok (em_reconciles_update g st) = ledger_ok st"
  by (simp_all add: ledger_ok_def)

lemma apply_report_intent: "ex_intent (fst (apply_report rp now ex)) = ex_intent ex"
proof -
  have "ex_intent (report_fills rp (report_status rp ex)) = ex_intent ex"
    by (simp add: report_fills_def report_status_def split: option.split)
  moreover have "report_executed rp x = Inr y \<Longrightarrow> ex_intent y = ex_intent x" for x y
    by (auto simp: report_executed_def mapR_def split: option.splits sum.splits)
  moreover have "report_quote rp x = Inr y \<Longrightarrow> ex_intent y = ex_intent x" for x y
    by (auto simp: report_quote_def mapR_def bindR_def split: option.splits sum.splits)
  moreover have "report_average rp x = Inr y \<Longrightarrow> ex_intent y = ex_intent x" for x y
    by (auto simp: report_average_def mapR_def bindR_def split: option.splits sum.splits if_splits)
  ultimately show ?thesis
    by (auto simp: apply_report_def Let_def split: sum.split)
qed

lemma report_ledger: "ledger_ok st \<Longrightarrow> ledger_ok (onExecutionReport rp now st)"
  by (auto simp: ledger_ok_def onExecutionReport_def jm.ok_put jm.get_put apply_report_intent jm.length_put_present
      split: option.split)

lemma place_unknown_ledger: "ledger_ok st \<Longrightarrow> ledger_ok (place_unknown c pl now st)"
  by (simp add: place_unknown_def em_exits record_ledger split: sum.split)

lemma step_ledger: "ledger_ok st \<Longrightarrow> ledger_ok (em_step ts st e)"
  by (cases e)
     (simp_all add: placeOrder_def em_exits on_created_def on_delay_def on_fetched_def poll_def cancelOrder_def
        on_cancelled_def on_cancel_fetched_def reconcile_def on_reconciled_def record_ledger report_ledger
        place_unknown_ledger Let_def split: option.split sum.split place_stage.split em_error.split prod.split)

interpretation ledger: invariant_machine "em_step ts" ledger_ok "\<lambda>_. True" for ts
  by unfold_locales (rule step_ledger)

lemma ledger_bounded_run:
  "ledger_ok (foldl (em_step ts) (new_ExecutionManager prefix attempts maxLedger risk) es)"
  by (rule ledger.run_inv) (simp_all add: ledger_ok_def new_ExecutionManager_def jm_ok_def jm_keys_def jm_get_def list_all_iff)

text \<open>The ledger is bounded and filed correctly. From a new manager on, after any events, it
  holds at most the configured number of executions, one per intent, each under its own intent.\<close>
theorem ledger_bounded:
  assumes "st = foldl (em_step ts) (new_ExecutionManager prefix attempts maxLedger risk) es"
  shows "length (listExecutions st) \<le> em_maxLedger st \<and>
    (getExecution i st = Some ex \<longrightarrow> ex_intent ex = i \<and> ex \<in> set (listExecutions st))"
  using ledger_bounded_run [of ts prefix attempts maxLedger risk es] assms
  by (auto simp: ledger_ok_def listExecutions_def getExecution_def jm_keys_def jm_get_def dest!: map_of_SomeD
      intro: rev_image_eqI)

section \<open>Reachable placements\<close>

lemma placeOrder_flight:
  "jm_get cid (em_inFlight (placeOrder intent uuid client su now st)) = jm_get cid (em_inFlight st) \<or>
   (\<exists>pl. jm_get cid (em_inFlight (placeOrder intent uuid client su now st)) = Some pl \<and> pl_stage pl = SCreating 0)"
  by (simp add: placeOrder_def em_exits jm.get_put Let_def split: option.split)

lemma place_ok_placeOrder: "place_ok cid st \<Longrightarrow> place_ok cid (placeOrder intent uuid client su now st)"
  using placeOrder_flight [of cid intent uuid client su now st]
  by (auto simp: place_ok_def placeOrder_keeps stage_ok_def [of _ "SCreating 0"] split: option.splits)

lemma step_place_ok: "\<forall>cid. place_ok cid st \<Longrightarrow> \<forall>cid. place_ok cid (em_step ts st e)"
proof (cases "\<exists>intent uuid client su now. e = EPlace intent uuid client su now")
  case True
  then show "\<forall>cid. place_ok cid st \<Longrightarrow> ?thesis" by (auto simp: place_ok_placeOrder)
next
  case False
  then have "place_cid (em_prefix st) e = None" by (cases e) auto
  then show "\<forall>cid. place_ok cid st \<Longrightarrow> ?thesis" using step_rank [of _ st e ts] by simp
qed

interpretation placed: invariant_machine "em_step ts" "\<lambda>st. \<forall>cid. place_ok cid st" "\<lambda>_. True" for ts
  by unfold_locales (rule step_place_ok)

lemma reachable_place_ok:
  "place_ok cid (foldl (em_step ts) (new_ExecutionManager prefix attempts maxLedger risk) es)"
  using placed.run_inv [of "new_ExecutionManager prefix attempts maxLedger risk" es ts]
  by (simp add: place_ok_def new_ExecutionManager_def jm_get_def list_all_iff)

text \<open>C5: every placement settles. In any reachable state of a manager with \<open>n\<close> reconciliation
  attempts, in any interleaving with other events, a placement consumes at most \<open>4 * n + 2\<close> of the
  answers and timers it waits for before its promise settles and its entry leaves the in-flight
  map; as long as it is there, it waits for one that brings it closer to the end.\<close>
theorem placement_settles:
  assumes "st = foldl (em_step ts) (new_ExecutionManager prefix attempts maxLedger risk) es0"
    and "\<forall>e \<in> set es. place_cid (em_prefix st) e \<noteq> Some cid"
  shows "awaited_count ts cid st es \<le> 4 * em_maxAttempts st + 2 \<and>
    (jm_get cid (em_inFlight (foldl (em_step ts) st es)) \<noteq> None \<longrightarrow>
       awaited_count ts cid st es < 4 * em_maxAttempts st + 2 \<and>
       (\<exists>e. awaited cid (foldl (em_step ts) st es) e))"
proof -
  have ok: "place_ok cid st" using reachable_place_ok assms(1) by simp
  note run = run_rank [OF ok assms(2), of ts] place_rank_bound [OF ok]
    place_rank_pos [OF run_place_ok [OF ok assms(2)], of ts]
  have "\<exists>e. awaited cid s e" if "jm_get cid (em_inFlight s) = Some pl" for s pl
    using that by (cases "pl_stage pl") (auto simp: awaited_def intro: exI [of _ "ECreated cid r t" for r t]
        exI [of _ "EDelay cid"] exI [of _ "EFetched cid r t" for r t])
  then show ?thesis using run by auto
qed

section \<open>Reports delivered again\<close>

definition guarded_fill :: "report_shape \<Rightarrow> bool" where
  "guarded_fill rp \<longleftrightarrow> (case rp_lastQty rp of None \<Rightarrow> True
     | Some q \<Rightarrow> q = ''0'' \<or> q = [] \<or> (\<exists>t. rp_tradeId rp = Some t \<and> jn_less (Fin 0) t))"

lemma seen_trade_append: "jn_less (Fin 0) t \<Longrightarrow> fill_tradeId f = Some t \<Longrightarrow> seen_trade (Some t) (fs @ [f])"
  by (simp add: seen_trade_def)

lemma report_fills_again:
  assumes g: "guarded_fill rp" and f: "ex_fills z = ex_fills (report_fills rp x)"
  shows "report_fills rp z = z"
proof (cases "rp_lastQty rp")
  case None
  then show ?thesis by (simp add: report_fills_def)
next
  case (Some q)
  consider "q = ''0'' \<or> q = []" | t where "q \<noteq> ''0''" "q \<noteq> []" "rp_tradeId rp = Some t" "jn_less (Fin 0) t"
    using g Some by (auto simp: guarded_fill_def)
  then show ?thesis
  proof cases
    case 1
    with Some show ?thesis by (auto simp: report_fills_def)
  next
    case 2
    then have "seen_trade (rp_tradeId rp) (ex_fills z)"
      using Some f seen_trade_append [OF 2(4)]
      by (cases "seen_trade (Some t) (ex_fills x)") (simp_all add: report_fills_def)
    with Some show ?thesis by (simp add: report_fills_def)
  qed
qed

lemma averagePrice_again:
  assumes "averagePrice q c (coalesce p a) = Inr r"
  shows "\<exists>r'. averagePrice q c (coalesce p (coalesce r a)) = Inr r' \<and> coalesce r' (coalesce r a) = coalesce r a"
proof (cases p)
  case (Some x)
  with assms show ?thesis by (cases r) auto
next
  case None
  then show ?thesis
    using assms dec_from_to_string dec_to_string_nonempty
    by (cases a; cases r)
       (auto simp: averagePrice_def Let_def mapR_def split: if_splits option.splits sum.splits)
qed

lemma ex_update_same:
  "ex_quote z = q \<Longrightarrow> z\<lparr>ex_quote := q\<rparr> = z" "ex_executed z = q \<Longrightarrow> z\<lparr>ex_executed := q\<rparr> = z"
  "ex_average z = q \<Longrightarrow> z\<lparr>ex_average := q\<rparr> = z" "ex_updatedAt z = now \<Longrightarrow> z\<lparr>ex_updatedAt := now\<rparr> = z"
  "ex_status z = s \<Longrightarrow> ex_exchangeId z = i \<Longrightarrow> z\<lparr>ex_status := s, ex_exchangeId := i\<rparr> = z"
  by (cases z, simp)+

lemma report_quote_again:
  assumes r: "report_quote rp x = Inr y" and q: "rp_cumQuote rp \<noteq> None \<or> rp_avgPrice rp \<noteq> None"
    and z: "ex_quote z = ex_quote y" "ex_executed z = ex_executed x"
  shows "report_quote rp z = Inr z"
proof (cases "rp_cumQuote rp")
  case (Some c)
  obtain d where d: "dec_from (SIn c) = Inr d" "ex_quote y = Some (dec_to_string d)"
    using r Some by (cases "dec_from (SIn c)") (auto simp: report_quote_def)
  have "z\<lparr>ex_quote := Some (dec_to_string d)\<rparr> = z" using z(1) d(2) by (intro ex_update_same) simp
  with Some d(1) show ?thesis by (simp add: report_quote_def)
next
  case None
  then obtain a where a: "rp_avgPrice rp = Some a" using q by auto
  show ?thesis
  proof (cases "ex_quote x")
    case (Some c)
    then have "y = x" using None r by (simp add: report_quote_def)
    then show ?thesis using None Some z by (simp add: report_quote_def)
  next
    case nq: None
    show ?thesis
    proof (cases "ex_executed x")
      case None
      then show ?thesis using z(2) \<open>rp_cumQuote rp = None\<close> by (simp add: report_quote_def split: option.split)
    next
      case (Some e)
      then have "ex_quote y \<noteq> None"
        using r nq None a by (cases "dec_from (SIn e)"; cases "dec_from (SIn a)") (auto simp: report_quote_def)
      then show ?thesis using z(1) None by (auto simp: report_quote_def)
    qed
  qed
qed

lemma report_quote_frame: "report_quote rp x = Inr y \<Longrightarrow> y = x\<lparr>ex_quote := ex_quote y\<rparr>"
  by (auto simp: report_quote_def bindR_Inr_iff mapR_Inr_iff ex_update_same split: option.splits)

lemma report_executed_frame: "report_executed rp x = Inr y \<Longrightarrow> y = x\<lparr>ex_executed := ex_executed y\<rparr>"
  by (auto simp: report_executed_def mapR_Inr_iff ex_update_same split: option.splits)

lemma report_average_frame: "report_average rp x = Inr y \<Longrightarrow> y = x\<lparr>ex_average := ex_average y\<rparr>"
  by (auto simp: report_average_def bindR_Inr_iff mapR_Inr_iff split: if_splits)

lemma report_executed_again:
  "report_executed rp x = Inr y \<Longrightarrow> ex_executed z = ex_executed y \<Longrightarrow> report_executed rp z = Inr z"
  by (auto simp: report_executed_def mapR_Inr_iff ex_update_same split: option.splits)

lemma report_average_again:
  assumes r: "report_average rp x = Inr y" and z: "ex_fills z = ex_fills x" "ex_executed z = ex_executed x"
    "ex_quote z = ex_quote x" "ex_average z = ex_average y"
  shows "report_average rp z = Inr z"
proof (cases "ex_fills x = []")
  case False
  then obtain a where "weightedAverage (ex_fills x) = Inr a" "ex_average y = a"
    using r by (auto simp: report_average_def mapR_Inr_iff)
  then show ?thesis using False z by (simp add: report_average_def ex_update_same)
next
  case True
  then obtain q c a where a: "parse_opt (ex_executed x) = Inr q" "parse_opt (ex_quote x) = Inr c"
    "averagePrice q c (coalesce (rp_avgPrice rp) (ex_average x)) = Inr a" "ex_average y = coalesce a (ex_average x)"
    using r by (auto simp: report_average_def bindR_Inr_iff mapR_Inr_iff)
  then obtain r' where "averagePrice q c (coalesce (rp_avgPrice rp) (ex_average z)) = Inr r'"
    "coalesce r' (ex_average z) = ex_average z"
    using averagePrice_again z(4) by metis
  then show ?thesis using a z True by (simp add: report_average_def ex_update_same)
qed

text \<open>A report delivered twice changes nothing the second time. When a report applied without
  an error, carries a cumulative quote or an average price, and names its trade, delivering it
  again leaves the execution as it is: no fill is counted twice, no quantity drifts.\<close>
theorem report_redelivered:
  assumes a: "apply_report rp now ex = (ex', None)" and g: "guarded_fill rp"
    and q: "rp_cumQuote rp \<noteq> None \<or> rp_avgPrice rp \<noteq> None"
  shows "apply_report rp now ex' = (ex', None)"
proof -
  define e1 where "e1 = report_fills rp (report_status rp ex)"
  obtain e2 e3 e4 where e: "report_executed rp e1 = Inr e2" "report_quote rp e2 = Inr e3" "report_average rp e3 = Inr e4"
    "ex' = e4\<lparr>ex_updatedAt := now\<rparr>"
    using a by (auto simp: apply_report_def Let_def e1_def split: sum.splits)
  note fr = report_executed_frame [OF e(1)] report_quote_frame [OF e(2)] report_average_frame [OF e(3)] e(4)
  have s: "ex_status ex' = ex_status e1" "ex_exchangeId ex' = ex_exchangeId e1" "ex_fills ex' = ex_fills e1"
    "ex_executed ex' = ex_executed e2" "ex_quote ex' = ex_quote e3" "ex_average ex' = ex_average e4"
    "ex_executed e3 = ex_executed e2" "ex_fills e3 = ex_fills e1"
    by (subst fr(4), subst fr(3), subst fr(2), subst fr(1), simp)+ (subst fr(2), subst fr(1), simp)+
  have "report_status rp ex' = ex'"
    unfolding report_status_def
    by (rule ex_update_same)
       (auto simp: s e1_def report_fills_def report_status_def split: option.split)
  moreover have "report_fills rp ex' = ex'"
    by (rule report_fills_again [OF g, of _ "report_status rp ex"]) (simp add: s e1_def)
  moreover have "report_executed rp ex' = Inr ex'" by (rule report_executed_again [OF e(1)]) (simp add: s)
  moreover have "report_quote rp ex' = Inr ex'" by (rule report_quote_again [OF e(2) q]) (simp_all add: s)
  moreover have "report_average rp ex' = Inr ex'" by (rule report_average_again [OF e(3)]) (simp_all add: s)
  ultimately show ?thesis using e(4) by (simp add: apply_report_def)
qed

section \<open>What the risk gateway is told\<close>

lemma exposure_frame [simp]:
  "rg_openNotional (recordFailure now g) = rg_openNotional g" "rg_openNotional (recordSuccess g) = rg_openNotional g"
  by (simp_all add: recordFailure_def recordSuccess_def trip_def Let_def)

definition exposure_change :: "execution \<Rightarrow> int" where
  "exposure_change ex =
     (if ex_state ex = Rejected \<or> ex_status ex = ''REJECTED'' then 0
      else case notionalOf ex of None \<Rightarrow> 0
        | Some n \<Rightarrow> (if isTerminal (ex_status ex) then - amount_of (JStr n) else amount_of (JStr n)))"

lemma update_exposure:
  "scaled (rg_openNotional (updateRiskGateway now ex g)) = scaled (rg_openNotional g) + exposure_change ex"
  by (simp add: updateRiskGateway_def exposure_change_def eb.budget_reg eb.budget_rel Let_def split: option.split)

lemma order_execution_Inr:
  "order_execution ts raw i client rq s t = Inr ex \<longleftrightarrow>
   (\<exists>sh. ts raw = Inr sh \<and> shape_execution sh i (client sh) rq s t = Inr ex)"
  by (cases "ts raw") (auto simp: order_execution_def split: sum.split)

lemma order_execution_fields:
  "order_execution ts raw i client rq s t = Inr ex \<Longrightarrow> ex_state ex = s \<and> ex_intent ex = i"
  by (auto simp: order_execution_Inr shape_execution_def bindR_Inr_iff mapR_Inr_iff)

lemma notionalOf_cong:
  "ex_quote a = ex_quote b \<Longrightarrow> ex_requestedPrice a = ex_requestedPrice b \<Longrightarrow>
   ex_requestedQuantity a = ex_requestedQuantity b \<Longrightarrow> notionalOf a = notionalOf b"
  by (simp add: notionalOf_def)

text \<open>The same response normalized again, for the quantities already known, differs in the client
  order id, the state and the time at most.\<close>

lemma order_execution_again:
  "order_execution ts raw i client rq s t = Inr ex \<Longrightarrow>
   \<exists>ex'. order_execution ts raw i client' (Inr (ex_requestedQuantity ex, ex_requestedPrice ex)) s' t' = Inr ex' \<and>
     ex_status ex' = ex_status ex \<and> notionalOf ex' = notionalOf ex"
  by (auto simp: order_execution_Inr shape_execution_def bindR_Inr_iff mapR_Inr_iff intro!: notionalOf_cong)

definition open_exposure :: "exec_manager \<Rightarrow> int option" where
  "open_exposure st = map_option (\<lambda>g. scaled (rg_openNotional g)) (em_risk st)"

lemma record_exposure: "open_exposure (em_record now ex st) = map_option (\<lambda>n. n + exposure_change ex) (open_exposure st)"
  by (cases "em_risk st") (simp_all add: open_exposure_def update_exposure)

lemma exposure_quiet [simp]:
  "open_exposure (emit x st) = open_exposure st" "open_exposure (settle cid x st) = open_exposure st"
  "open_exposure (em_reconciles_update f st) = open_exposure st"
  by (simp_all add: open_exposure_def)

lemma acked_exposure:
  assumes "jm_get cid (em_inFlight st) = Some pl" "pl_stage pl = SCreating k"
    and "order_execution ts raw (pl_intent pl) (\<lambda>sh. if os_clientOrderId sh = [] then cid else os_clientOrderId sh)
           (requested_of (pl_submission pl)) Acked (pl_submittedAt pl) = Inr ex"
  shows "open_exposure (em_step ts st (ECreated cid (Inr raw) now)) =
    map_option (\<lambda>n. n + exposure_change ex) (open_exposure st)"
  using assms by (simp add: on_created_def place_returned_def record_exposure)

text \<open>An order acknowledged as already filled drives the open exposure below zero. It was never
  registered, yet its notional is released, so a gateway with no open exposure ends with a negative
  one and the budget admits that much more.\<close>
theorem immediate_fill_goes_negative:
  assumes "jm_get cid (em_inFlight st) = Some pl" "pl_stage pl = SCreating k"
    and "order_execution ts raw (pl_intent pl) (\<lambda>sh. if os_clientOrderId sh = [] then cid else os_clientOrderId sh)
           (requested_of (pl_submission pl)) Acked (pl_submittedAt pl) = Inr ex"
    and "ex_status ex = ''FILLED''" "notionalOf ex = Some n" "0 < amount_of (JStr n)"
    and "open_exposure st = Some 0"
  shows "open_exposure (em_step ts st (ECreated cid (Inr raw) now)) = Some (- amount_of (JStr n)) \<and>
    - amount_of (JStr n) < 0"
  using acked_exposure [OF assms(1-3)] order_execution_fields [OF assms(3)] assms(4-7)
  by (simp add: exposure_change_def isTerminal_def)

lemma record_get:
  assumes "ledger_ok st" "0 < em_maxLedger st"
  shows "jm_get (ex_intent ex) (em_ledger (em_record now ex st)) = Some ex"
proof -
  let ?l = "jm_set (ex_intent ex) ex (em_ledger st)"
  show ?thesis
  proof (cases "length (jm_keys ?l) > em_maxLedger st")
    case False
    then show ?thesis by (simp add: em_record_def Let_def jm.get_put)
  next
    case True
    then have new: "ex_intent ex \<notin> set (jm_keys (em_ledger st))"
      using assms by (auto simp: jm.keys_put ledger_ok_def split: if_splits)
    then obtain k ks where k: "jm_keys (em_ledger st) = k # ks"
      using True assms(2) by (cases "jm_keys (em_ledger st)") (auto simp: jm.keys_put)
    then have "jm_keys ?l = k # (ks @ [ex_intent ex])" "k \<noteq> ex_intent ex" using new by (auto simp: jm.keys_put)
    then show ?thesis using True by (simp add: em_record_def Let_def jm.get_put jm.get_del)
  qed
qed

text \<open>Reconciling an open order counts its exposure again. The answer makes a new execution
  object, which no set of registered executions holds: an order acknowledged as new and then
  reconciled with the same response is in the budget twice.\<close>
theorem reconcile_counts_again:
  assumes "jm_get cid (em_inFlight st) = Some pl" "pl_stage pl = SCreating k"
    and o: "order_execution ts raw (pl_intent pl) (\<lambda>sh. if os_clientOrderId sh = [] then cid else os_clientOrderId sh)
           (requested_of (pl_submission pl)) Acked (pl_submittedAt pl) = Inr ex"
    and "ex_status ex = ''NEW''" "notionalOf ex = Some n" "ledger_ok st" "0 < em_maxLedger st"
    and "open_exposure st = Some b"
  shows "open_exposure (foldl (em_step ts) st
      [ECreated cid (Inr raw) t1, EReconcile m (pl_intent pl), EReconciled m (Inr raw) t2]) =
    Some (b + 2 * amount_of (JStr n))"
proof -
  let ?st1 = "em_step ts st (ECreated cid (Inr raw) t1)"
  have i: "ex_intent ex = pl_intent pl" "ex_state ex = Acked" using order_execution_fields [OF o] by simp_all
  obtain ex' where ex': "order_execution ts raw (pl_intent pl) os_clientOrderId
      (Inr (ex_requestedQuantity ex, ex_requestedPrice ex)) Reconciled t2 = Inr ex'"
    "ex_status ex' = ''NEW''" "notionalOf ex' = Some n"
    using order_execution_again [OF o] assms(4,5) by metis
  have s': "ex_state ex' = Reconciled" using order_execution_fields [OF ex'(1)] by simp
  have l: "jm_get (pl_intent pl) (em_ledger ?st1) = Some ex"
    using assms(1,2) o record_get [OF assms(6,7), of ex t1] i by (simp add: on_created_def place_returned_def)
  have b: "open_exposure ?st1 = Some (b + amount_of (JStr n))"
    using acked_exposure [OF assms(1,2) o] assms(4,5,8) i by (simp add: exposure_change_def isTerminal_def)
  show ?thesis
    using l b ex' s'
    by (simp add: reconcile_def on_reconciled_def jm.get_put record_exposure exposure_change_def isTerminal_def Let_def
        del: em_step.simps(2))
qed

section \<open>Server errors\<close>

text \<open>A server error on placement is recorded as a rejection. An API error with a 5xx status
  leaves the outcome unknown, and the retry classifier says so; the manager records the order as
  rejected with nothing executed, throws, and asks the exchange nothing.\<close>
theorem server_error_recorded_rejected:
  assumes "jm_get cid (em_inFlight st) = Some pl" "pl_stage pl = SCreating k"
    and "500 \<le> ae_status e" "ae_status e < 600" "requested_of (pl_submission pl) = Inr rq"
    and "ledger_ok st" "0 < em_maxLedger st"
  shows "fst (classifyRetrySafety (Some (ApiError e))) = ReconciliationRequired \<and>
    (\<exists>ex. jm_get (pl_intent pl) (em_ledger (em_step ts st (ECreated cid (Inl (ApiError e)) now))) = Some ex \<and>
       ex_state ex = Rejected \<and> ex_executed ex = Some ''0'') \<and>
    em_trace (em_step ts st (ECreated cid (Inl (ApiError e)) now)) =
      em_trace st @ [OThrew (pl_intent pl) (ESdk (ApiError e))]"
proof -
  let ?ex = "local_execution (pl_intent pl) (pl_submission pl) rq ''REJECTED'' (Some ''0'') Rejected (pl_submittedAt pl) now"
  have "ex_intent ?ex = pl_intent pl" by (simp add: local_execution_def)
  then have "jm_get (pl_intent pl) (em_ledger (em_record now ?ex st)) = Some ?ex"
    using record_get [OF assms(6,7), of ?ex now] by simp
  then show ?thesis
    using assms classifyApiError_server [of e]
    by (simp add: on_created_def place_threw_def api_code_def) (simp add: local_execution_def)
qed

section \<open>Concrete cases\<close>

definition wit_submission :: submission where
  "wit_submission = \<lparr>su_symbol = ''BTCUSDT'', su_side = ''BUY'', su_type = ''LIMIT'', su_quantity = JStr ''2'',
     su_price = JStr ''100'', su_client = []\<rparr>"

definition wit_shape :: "string \<Rightarrow> order_shape" where
  "wit_shape status = \<lparr>os_orderId = Some (Fin 9), os_clientOrderId = ''c'', os_symbol = ''BTCUSDT'', os_side = ''BUY'',
     os_type = ''LIMIT'', os_status = status, os_executedQty = None, os_cumQuote = None, os_avgPrice = None,
     os_updateTime = Fin 1, os_fills = []\<rparr>"

definition wit_new :: exec_manager where
  "wit_new = new_ExecutionManager None None None (Some wit_gateway)"

definition wit_place :: em_event where
  "wit_place = EPlace (Some ''i'') ''u'' (Some ''c'') wit_submission (Fin 0)"

definition wit_placement :: placement where
  "wit_placement = \<lparr>pl_intent = ''i'', pl_submission = wit_submission\<lparr>su_client := ''c''\<rparr>, pl_submittedAt = Fin 0,
     pl_stage = SCreating 0\<rparr>"

lemma wit_placed: "jm_get ''c'' (em_inFlight (em_step ts wit_new wit_place)) = Some wit_placement"
  by (simp add: wit_new_def wit_place_def placeOrder_def new_ExecutionManager_def create_def wit_placement_def
      jm.get_put Let_def) (simp add: jm_get_def create_def jm_set_def)

lemma wit_ledger: "ledger_ok (em_step ts wit_new wit_place)" "0 < em_maxLedger (em_step ts wit_new wit_place)"
  using ledger_bounded_run [of ts None None None "Some wit_gateway" "[wit_place]"]
  by (simp_all add: wit_new_def wit_place_def placeOrder_keeps new_ExecutionManager_def)

lemma wit_exposure: "open_exposure (em_step ts wit_new wit_place) = Some 0"
  by (simp add: wit_new_def wit_place_def open_exposure_def placeOrder_def new_ExecutionManager_def create_def
      wit_gateway_def new_RiskGateway_def dec_ZERO_def Let_def split: option.split)

lemma str_decimal_printed [simp]: "str_decimal (dec_to_string d) = d"
  by (simp add: str_decimal_def dec_from_to_string)

lemma amount_of_printed [simp]: "amount_of (JStr (dec_to_string d)) = scaled d"
  by (simp add: amount_of_def toDecimal_string)

lemma wit_requested: "requested_of (pl_submission wit_placement) =
    Inr (Some (dec_to_string (Decimal (2 * SCALE_FACTOR))), Some (dec_to_string (Decimal (100 * SCALE_FACTOR))))"
  by (simp add: wit_placement_def wit_submission_def requested_of_def decimalOrNull_def wit_parse)

lemma wit_acked:
  "\<exists>ex. order_execution (\<lambda>_. Inr (wit_shape status)) raw (pl_intent wit_placement)
      (\<lambda>sh. if os_clientOrderId sh = [] then ''c'' else os_clientOrderId sh)
      (requested_of (pl_submission wit_placement)) Acked (pl_submittedAt wit_placement) = Inr ex \<and>
    ex_status ex = status \<and> notionalOf ex = Some (dec_to_string (Decimal (200 * SCALE_FACTOR)))"
  unfolding wit_requested
  by (simp add: order_execution_def shape_execution_def wit_shape_def parse_opt_def averagePrice_def notionalOf_def
      dec_mul_def bdiv_def SCALE_FACTOR_eq Let_def)

theorem at_most_one_resend_witness:
  "order_sends ''c'' (foldl (em_step (\<lambda>_. Inr (wit_shape ''NEW''))) wit_new [wit_place, ECreated ''c'' (Inl (NetworkError [])) (Fin 1),
     EDelay ''c'']) \<le> 2"
proof -
  have "place_cid (em_prefix wit_new) wit_place = Some ''c''"
    "\<forall>e' \<in> set [ECreated ''c'' (Inl (NetworkError [])) (Fin 1), EDelay ''c'']. place_cid (em_prefix wit_new) e' \<noteq> Some ''c''"
    by (simp_all add: wit_place_def)
  moreover have "order_sends ''c'' wit_new = 0" by (simp add: order_sends_def wit_new_def new_ExecutionManager_def)
  ultimately show ?thesis
    using at_most_one_resend [of wit_new wit_place "''c''" "[ECreated ''c'' (Inl (NetworkError [])) (Fin 1), EDelay ''c'']"
        "\<lambda>_. Inr (wit_shape ''NEW'')"]
    by (simp add: numeral_2_eq_2)
qed

theorem placement_settles_witness:
  "awaited_count (\<lambda>_. Inr (wit_shape ''NEW'')) ''c'' (em_step (\<lambda>_. Inr (wit_shape ''NEW'')) wit_new wit_place) [EDelay ''c''] \<le> 14"
proof -
  have "em_maxAttempts (em_step ts wit_new wit_place) = 3" for ts
    by (simp add: wit_place_def placeOrder_keeps wit_new_def new_ExecutionManager_def)
  then show ?thesis
    using placement_settles [of "em_step (\<lambda>_. Inr (wit_shape ''NEW'')) wit_new wit_place" "\<lambda>_. Inr (wit_shape ''NEW'')"
        None None None "Some wit_gateway" "[wit_place]" "[EDelay ''c'']" "''c''"]
    by (simp add: wit_new_def)
qed

theorem immediate_fill_goes_negative_witness:
  "open_exposure (em_step (\<lambda>_. Inr (wit_shape ''FILLED'')) (em_step (\<lambda>_. Inr (wit_shape ''FILLED'')) wit_new wit_place)
     (ECreated ''c'' (Inr JNull) (Fin 1))) = Some (- (200 * SCALE_FACTOR))"
proof -
  obtain ex where "order_execution (\<lambda>_. Inr (wit_shape ''FILLED'')) JNull (pl_intent wit_placement)
      (\<lambda>sh. if os_clientOrderId sh = [] then ''c'' else os_clientOrderId sh)
      (requested_of (pl_submission wit_placement)) Acked (pl_submittedAt wit_placement) = Inr ex"
    "ex_status ex = ''FILLED''" "notionalOf ex = Some (dec_to_string (Decimal (200 * SCALE_FACTOR)))"
    using wit_acked [of "''FILLED''" JNull] by blast
  then show ?thesis
    using immediate_fill_goes_negative [OF wit_placed, of 0 "\<lambda>_. Inr (wit_shape ''FILLED'')" JNull ex
        "dec_to_string (Decimal (200 * SCALE_FACTOR))" "\<lambda>_. Inr (wit_shape ''FILLED'')" "Fin 1"]
    by (simp add: wit_exposure SCALE_FACTOR_eq wit_placement_def)
qed

theorem reconcile_counts_again_witness:
  "open_exposure (foldl (em_step (\<lambda>_. Inr (wit_shape ''NEW''))) (em_step (\<lambda>_. Inr (wit_shape ''NEW'')) wit_new wit_place)
     [ECreated ''c'' (Inr JNull) (Fin 1), EReconcile 0 ''i'', EReconciled 0 (Inr JNull) (Fin 2)]) = Some (400 * SCALE_FACTOR)"
proof -
  obtain ex where "order_execution (\<lambda>_. Inr (wit_shape ''NEW'')) JNull (pl_intent wit_placement)
      (\<lambda>sh. if os_clientOrderId sh = [] then ''c'' else os_clientOrderId sh)
      (requested_of (pl_submission wit_placement)) Acked (pl_submittedAt wit_placement) = Inr ex"
    "ex_status ex = ''NEW''" "notionalOf ex = Some (dec_to_string (Decimal (200 * SCALE_FACTOR)))"
    using wit_acked [of "''NEW''" JNull] by blast
  then have "open_exposure (foldl (em_step (\<lambda>_. Inr (wit_shape ''NEW''))) (em_step (\<lambda>_. Inr (wit_shape ''NEW'')) wit_new wit_place)
     [ECreated ''c'' (Inr JNull) (Fin 1), EReconcile 0 (pl_intent wit_placement), EReconciled 0 (Inr JNull) (Fin 2)]) =
     Some (0 + 2 * amount_of (JStr (dec_to_string (Decimal (200 * SCALE_FACTOR)))))"
    by (intro reconcile_counts_again [OF wit_placed _ _ _ _ wit_ledger wit_exposure]) (simp_all add: wit_placement_def)
  then show ?thesis by (simp add: wit_placement_def)
qed

theorem server_error_recorded_rejected_witness:
  "em_trace (em_step (\<lambda>_. Inr (wit_shape ''NEW'')) (em_step (\<lambda>_. Inr (wit_shape ''NEW'')) wit_new wit_place)
     (ECreated ''c'' (Inl (ApiError \<lparr>ae_message = [], ae_code = -1, ae_status = 503, ae_endpoint = [], ae_method = []\<rparr>)) (Fin 1))) =
   em_trace (em_step (\<lambda>_. Inr (wit_shape ''NEW'')) wit_new wit_place) @
     [OThrew ''i'' (ESdk (ApiError \<lparr>ae_message = [], ae_code = -1, ae_status = 503, ae_endpoint = [], ae_method = []\<rparr>))]"
  using server_error_recorded_rejected [OF wit_placed, of 0
      "\<lparr>ae_message = [], ae_code = -1, ae_status = 503, ae_endpoint = [], ae_method = []\<rparr>" _ "\<lambda>_. Inr (wit_shape ''NEW'')"
      "\<lambda>_. Inr (wit_shape ''NEW'')" "Fin 1", OF _ _ _ wit_requested wit_ledger]
  by (simp add: wit_placement_def)

definition wit_report :: report_shape where
  "wit_report = \<lparr>rp_client = ''c'', rp_orderId = Some (Fin 9), rp_status = ''FILLED'', rp_lastPrice = Some ''100'',
     rp_lastQty = Some ''2'', rp_commission = None, rp_commissionAsset = None, rp_executedQty = Some ''2'',
     rp_cumQuote = Some ''100'', rp_avgPrice = None, rp_tradeId = Some (Fin 7)\<rparr>"

definition wit_execution :: execution where
  "wit_execution = local_execution ''i'' wit_submission (None, None) ''NEW'' None Acked (Fin 0) (Fin 0)"

theorem report_redelivered_witness:
  "\<exists>ex'. apply_report wit_report (Fin 1) wit_execution = (ex', None) \<and> apply_report wit_report (Fin 1) ex' = (ex', None)"
proof -
  have "snd (apply_report wit_report (Fin 1) wit_execution) = None"
    by (simp add: apply_report_def report_status_def report_fills_def seen_trade_def report_executed_def report_quote_def
        report_average_def weightedAverage_def wit_report_def wit_execution_def local_execution_def wit_parse
        dec_isZero_def dec_add_def dec_ZERO_def dec_div_def SCALE_FACTOR_eq Let_def)
  then obtain ex' where a: "apply_report wit_report (Fin 1) wit_execution = (ex', None)" by (metis prod.collapse)
  moreover have "guarded_fill wit_report" "rp_cumQuote wit_report \<noteq> None"
    by (simp_all add: guarded_fill_def wit_report_def)
  ultimately show ?thesis using report_redelivered [OF a] by blast
qed

theorem ledger_bounded_witness:
  "length (listExecutions (foldl (em_step (\<lambda>_. Inr (wit_shape ''NEW''))) (new_ExecutionManager None None (Some 1) None)
     [wit_place, ECreated ''c'' (Inr JNull) (Fin 1)])) \<le>
   em_maxLedger (foldl (em_step (\<lambda>_. Inr (wit_shape ''NEW''))) (new_ExecutionManager None None (Some 1) None)
     [wit_place, ECreated ''c'' (Inr JNull) (Fin 1)])"
  by (rule ledger_bounded [OF refl, THEN conjunct1])

end
