(* ===== verification/Execution_Adapter.thy ===== *)
theory Execution_Adapter
  imports Execution_Manager
begin

text \<open>
  \<open>src/execution/adapter.ts\<close>: the product adapters of the execution manager. What an adapter adds to
  the trading client is the normalization of responses (\<open>toOrderShape\<close>), the normalization of
  user-stream frames (\<open>reportFrom\<close> and the listeners), and the wiring of its listener to at most one
  user stream. The forwarding of \<open>createOrder\<close>, \<open>fetchOrder\<close> and \<open>cancelOrder\<close> to the client is the
  manager's output. A value \<open>Decimal.from\<close> cannot read throws.
  Lemmas: absent data stays absent through normalization and the manager, what a fill of a response
  keeps, the fills of an acknowledgement and of the user stream, and the wiring.
\<close>

section \<open>Coercions\<close>

definition nullish :: "js_value \<Rightarrow> bool" where
  "nullish v \<longleftrightarrow> v = JUndef \<or> v = JNull"

definition nullableStr :: "js_value \<Rightarrow> string option" where
  "nullableStr v = (if nullish v \<or> v = JStr [] then None else Some (js_string v))"

definition numOr :: "js_value \<Rightarrow> js_number \<Rightarrow> js_number" where
  "numOr v fallback = (let parsed = js_to_number v in if jn_finite parsed then parsed else fallback)"

definition str_or_empty :: "js_value \<Rightarrow> string" where
  "str_or_empty v = (if nullish v then [] else js_string v)"

definition given :: "(js_value \<Rightarrow> 'a) \<Rightarrow> js_value \<Rightarrow> 'a option" where
  "given f v = (if v = JUndef then None else Some (f v))"

fun decimal_text :: "js_value \<Rightarrow> em_error + string" where
  "decimal_text (JStr s) = (case dec_from (SIn s) of Inl e \<Rightarrow> Inl (EDec e) | Inr d \<Rightarrow> Inr (dec_to_string d))"
| "decimal_text (JNum n) = (case dec_from (NIn n) of Inl e \<Rightarrow> Inl (EDec e) | Inr d \<Rightarrow> Inr (dec_to_string d))"
| "decimal_text (JBig n) = (case dec_from (BIn n) of Inl e \<Rightarrow> Inl (EDec e) | Inr d \<Rightarrow> Inr (dec_to_string d))"
| "decimal_text _ = Inl (EDec (InvalidDecimal []))"

section \<open>Responses\<close>

definition raw_fill :: "js_value \<Rightarrow> em_error + execution_fill" where
  "raw_fill record' =
     bindR (decimal_text (js_field ''price'' record')) (\<lambda>price.
     bindR (decimal_text (js_field ''qty'' record')) (\<lambda>quantity.
     mapR (\<lambda>commission.
       \<lparr>fill_price = price, fill_quantity = quantity, fill_commission = commission,
        fill_commissionAsset = (case js_field ''commissionAsset'' record' of JStr s \<Rightarrow> Some s | _ \<Rightarrow> None),
        fill_tradeId = None\<rparr>)
       (if js_field ''commission'' record' = JUndef then Inr None
        else mapR Some (decimal_text (js_field ''commission'' record')))))"

fun raw_fill_list :: "js_value list \<Rightarrow> em_error + execution_fill list" where
  "raw_fill_list [] = Inr []"
| "raw_fill_list (fill # fills) =
     (if \<not> js_is_object fill \<or> js_field ''price'' fill = JUndef \<or> js_field ''qty'' fill = JUndef
      then raw_fill_list fills
      else bindR (raw_fill fill) (\<lambda>f. mapR ((#) f) (raw_fill_list fills)))"

definition rawFills :: "js_value \<Rightarrow> em_error + execution_fill list" where
  "rawFills raw = (case js_field ''fills'' raw of JArr fills \<Rightarrow> raw_fill_list fills | _ \<Rightarrow> Inr [])"

definition futures_shape :: "js_number \<Rightarrow> shape_fun" where
  "futures_shape now raw =
     mapR (\<lambda>fills.
       \<lparr>os_orderId = given (\<lambda>v. numOr v (Fin 0)) (js_field ''orderId'' raw),
        os_clientOrderId = str_or_empty (js_field ''clientOrderId'' raw),
        os_symbol = str_or_empty (js_field ''symbol'' raw),
        os_side = str_or_empty (js_field ''side'' raw),
        os_type = str_or_empty (js_field ''type'' raw),
        os_status = str_or_empty (js_field ''status'' raw),
        os_executedQty = nullableStr (js_field ''executedQty'' raw),
        os_cumQuote = nullableStr (js_field ''cumQuote'' raw),
        os_avgPrice = nullableStr (js_field ''avgPrice'' raw),
        os_updateTime = (case given (\<lambda>v. numOr v now) (js_field ''updateTime'' raw) of Some t \<Rightarrow> t | None \<Rightarrow> now),
        os_fills = fills\<rparr>)
       (rawFills raw)"

definition spot_quote :: "js_value \<Rightarrow> string option" where
  "spot_quote raw = (if js_field ''cummulativeQuoteQty'' raw \<noteq> JUndef
     then nullableStr (js_field ''cummulativeQuoteQty'' raw) else nullableStr (js_field ''cumQuote'' raw))"

definition spot_avg_price :: "js_value \<Rightarrow> em_error + string option" where
  "spot_avg_price raw =
     (case (nullableStr (js_field ''avgPrice'' raw), nullableStr (js_field ''executedQty'' raw), spot_quote raw) of
        (None, Some q, Some c) \<Rightarrow>
          (case dec_from (SIn q) of
             Inl e \<Rightarrow> Inl (EDec e)
           | Inr qty \<Rightarrow>
               if dec_isZero qty then Inr None
               else (case bindR (dec_from (SIn c)) (\<lambda>d. dec_div d qty) of
                       Inl e \<Rightarrow> Inl (EDec e) | Inr a \<Rightarrow> Inr (Some (dec_to_string a))))
      | (avg, _, _) \<Rightarrow> Inr avg)"

definition spot_update_time :: "js_number \<Rightarrow> js_value \<Rightarrow> js_number" where
  "spot_update_time now raw =
     (if js_field ''transactTime'' raw \<noteq> JUndef then numOr (js_field ''transactTime'' raw) now
      else if js_field ''workingTime'' raw \<noteq> JUndef then numOr (js_field ''workingTime'' raw) now
      else if js_field ''updateTime'' raw \<noteq> JUndef then numOr (js_field ''updateTime'' raw) now
      else now)"

definition spot_shape :: "js_number \<Rightarrow> shape_fun" where
  "spot_shape now raw =
     bindR (spot_avg_price raw) (\<lambda>avgPrice.
     mapR (\<lambda>fills.
       \<lparr>os_orderId = given (\<lambda>v. numOr v (Fin 0)) (js_field ''orderId'' raw),
        os_clientOrderId = str_or_empty (js_field ''clientOrderId'' raw),
        os_symbol = str_or_empty (js_field ''symbol'' raw),
        os_side = str_or_empty (js_field ''side'' raw),
        os_type = str_or_empty (js_field ''type'' raw),
        os_status = str_or_empty (js_field ''status'' raw),
        os_executedQty = nullableStr (js_field ''executedQty'' raw),
        os_cumQuote = spot_quote raw,
        os_avgPrice = avgPrice,
        os_updateTime = spot_update_time now raw,
        os_fills = fills\<rparr>)
       (rawFills raw))"

section \<open>User-stream frames\<close>

text \<open>The two callers name the same fields; only the cumulative quote is the spot stream's alone.\<close>

definition reportFrom :: "string option \<Rightarrow> js_value \<Rightarrow> report_shape option" where
  "reportFrom cumQuote raw =
     (if nullish (js_field ''c'' raw) \<or> js_field ''c'' raw = JStr [] then None
      else Some
        \<lparr>rp_client = js_string (js_field ''c'' raw),
         rp_orderId = given (\<lambda>v. numOr v (Fin 0)) (js_field ''i'' raw),
         rp_status = str_or_empty (js_field ''X'' raw),
         rp_lastPrice = given js_string (js_field ''L'' raw),
         rp_lastQty = given js_string (js_field ''l'' raw),
         rp_commission = given js_string (js_field ''n'' raw),
         rp_commissionAsset = given js_string (js_field ''N'' raw),
         rp_executedQty = given js_string (js_field ''z'' raw),
         rp_cumQuote = (case cumQuote of None \<Rightarrow> None | Some k \<Rightarrow> given js_string (js_field k raw)),
         rp_avgPrice = (case given js_string (js_field ''ap'' raw) of Some [] \<Rightarrow> None | x \<Rightarrow> x),
         rp_tradeId = given (\<lambda>v. numOr v (Fin 0)) (js_field ''t'' raw)\<rparr>)"

definition futures_report :: "js_value \<Rightarrow> report_shape option" where
  "futures_report event =
     (if \<not> js_is_object event \<or> js_field ''e'' event \<noteq> JStr ''ORDER_TRADE_UPDATE'' then None
      else if \<not> js_is_object (js_field ''o'' event) then None
      else reportFrom None (js_field ''o'' event))"

definition spot_report :: "js_value \<Rightarrow> report_shape option" where
  "spot_report event =
     (if \<not> js_is_object event \<or> js_field ''e'' event \<noteq> JStr ''executionReport'' then None
      else reportFrom (Some ''Z'') event)"

section \<open>Wiring\<close>

text \<open>The stream an adapter follows, its current listener, and every listener attached anywhere, as
  pairs of stream and listener. \<open>off\<close> removes one attachment.\<close>

record adapter_wiring =
  aw_stream :: "nat option"
  aw_listener :: "nat option"
  aw_attached :: "(nat \<times> nat) list"

definition new_wiring :: adapter_wiring where
  "new_wiring = \<lparr>aw_stream = None, aw_listener = None, aw_attached = []\<rparr>"

definition setUserStream :: "nat option \<Rightarrow> adapter_wiring \<Rightarrow> adapter_wiring" where
  "setUserStream ws a =
     (let detached = (case (aw_stream a, aw_listener a) of
                        (Some s, Some l) \<Rightarrow> remove1 (s, l) (aw_attached a) | _ \<Rightarrow> aw_attached a)
      in a\<lparr>aw_stream := ws,
           aw_attached := (case (ws, aw_listener a) of
                             (Some s, Some l) \<Rightarrow> detached @ [(s, l)] | _ \<Rightarrow> detached)\<rparr>)"

definition onReport :: "nat \<Rightarrow> adapter_wiring \<Rightarrow> adapter_wiring" where
  "onReport l a =
     a\<lparr>aw_listener := Some l,
       aw_attached := (case aw_stream a of Some s \<Rightarrow> aw_attached a @ [(s, l)] | None \<Rightarrow> aw_attached a)\<rparr>"

definition wired :: "adapter_wiring \<Rightarrow> bool" where
  "wired a \<longleftrightarrow> aw_attached a = (case (aw_stream a, aw_listener a) of (Some s, Some l) \<Rightarrow> [(s, l)] | _ \<Rightarrow> [])"

interpretation wiring: invariant_machine "\<lambda>a ws. setUserStream ws a" wired "\<lambda>_. True"
  by unfold_locales (auto simp: wired_def setUserStream_def split: option.splits)

lemma onReport_wired: "wired a \<Longrightarrow> aw_listener a = None \<Longrightarrow> wired (onReport l a)"
  by (auto simp: wired_def onReport_def split: option.splits)

text \<open>One listener, on the current stream. An adapter with its one report handler registered,
  whatever streams are attached, replaced or detached before and after, listens exactly once to
  the stream it follows and to no other.\<close>
theorem adapter_wired_once:
  "aw_attached (foldl (\<lambda>a ws. setUserStream ws a) (onReport l (foldl (\<lambda>a ws. setUserStream ws a) new_wiring before)) after) =
   (case aw_stream (foldl (\<lambda>a ws. setUserStream ws a) (onReport l (foldl (\<lambda>a ws. setUserStream ws a) new_wiring before)) after)
    of Some s \<Rightarrow> [(s, l)] | None \<Rightarrow> [])"
proof -
  let ?run = "foldl (\<lambda>a ws. setUserStream ws a)"
  have keep: "aw_listener (?run a ws) = aw_listener a" for a ws
    by (induction ws arbitrary: a) (simp_all add: setUserStream_def Let_def)
  have "wired (?run new_wiring before)"
    by (rule wiring.run_inv) (simp_all add: wired_def new_wiring_def list_all_iff)
  moreover have "aw_listener (?run new_wiring before) = None" by (simp add: keep new_wiring_def)
  ultimately have "wired (?run (onReport l (?run new_wiring before)) after)"
    by (intro wiring.run_inv [OF onReport_wired]) (simp_all add: list_all_iff)
  moreover have "aw_listener (?run (onReport l (?run new_wiring before)) after) = Some l"
    by (simp add: keep) (simp add: onReport_def)
  ultimately show ?thesis by (simp add: wired_def split: option.split)
qed

section \<open>Absent data\<close>

lemma raw_fill_list_ids: "raw_fill_list fs = Inr out \<Longrightarrow> \<forall>f \<in> set out. fill_tradeId f = None"
  by (induction fs arbitrary: out) (auto simp: bindR_Inr_iff mapR_Inr_iff raw_fill_def split: if_splits)

lemma rawFills_ids: "rawFills raw = Inr out \<Longrightarrow> f \<in> set out \<Longrightarrow> fill_tradeId f = None"
  by (auto simp: rawFills_def dest: raw_fill_list_ids split: js_value.splits)

lemma futures_shape_Inr:
  "futures_shape now raw = Inr sh \<Longrightarrow> os_executedQty sh = nullableStr (js_field ''executedQty'' raw) \<and>
     os_cumQuote sh = nullableStr (js_field ''cumQuote'' raw) \<and> rawFills raw = Inr (os_fills sh)"
  by (auto simp: futures_shape_def mapR_Inr_iff)

lemma spot_shape_Inr:
  "spot_shape now raw = Inr sh \<Longrightarrow> os_executedQty sh = nullableStr (js_field ''executedQty'' raw) \<and>
     os_cumQuote sh = spot_quote raw \<and> rawFills raw = Inr (os_fills sh)"
  by (auto simp: spot_shape_def mapR_Inr_iff bindR_Inr_iff)

lemma shape_execution_known:
  "shape_execution sh i c rq s t = Inr ex \<Longrightarrow>
     (ex_executed ex = None \<longleftrightarrow> os_executedQty sh = None) \<and> (ex_quote ex = None \<longleftrightarrow> os_cumQuote sh = None) \<and>
     ex_fills ex = os_fills sh"
  by (auto simp: shape_execution_def bindR_Inr_iff mapR_Inr_iff parse_opt_def split: option.splits)

text \<open>Absent data stays absent. However an order's response is normalized, as a futures or a spot
  order, the execution the manager records has an executed quantity or a cumulative quote exactly
  when the response carries one that is not empty: an acknowledgement without execution data is
  recorded as unknown, never as zero.\<close>
theorem absent_stays_absent:
  assumes "(ts = futures_shape now \<and> q = nullableStr (js_field ''cumQuote'' raw)) \<or> (ts = spot_shape now \<and> q = spot_quote raw)"
    and "order_execution ts raw i client rq s t = Inr ex"
  shows "(ex_executed ex = None \<longleftrightarrow> nullableStr (js_field ''executedQty'' raw) = None) \<and>
    (ex_quote ex = None \<longleftrightarrow> q = None) \<and> rawFills raw = Inr (ex_fills ex)"
  using assms shape_execution_known
  by (auto simp: order_execution_Inr dest!: futures_shape_Inr spot_shape_Inr)

text \<open>A fill of the acknowledgement is counted again from the user stream. The fills of a response
  are recorded without their trade id, so a report of a trade the response already listed is not
  recognised and its fill is added a second time.\<close>
theorem ack_fill_counted_twice:
  assumes "ts = futures_shape now \<or> ts = spot_shape now" "order_execution ts raw i client rq s t = Inr ex"
    and "rp_lastQty rp = Some q" "q \<noteq> ''0''" "q \<noteq> []"
  shows "length (ex_fills (report_fills rp ex)) = Suc (length (ex_fills ex))"
proof -
  have "rawFills raw = Inr (ex_fills ex)"
    using assms(1,2) shape_execution_known
    by (auto simp: order_execution_Inr dest!: futures_shape_Inr spot_shape_Inr)
  then have "\<not> seen_trade (rp_tradeId rp) (ex_fills ex)"
    by (auto simp: seen_trade_def list_ex_iff dest: rawFills_ids split: option.split)
  then show ?thesis using assms(3-5) by (simp add: report_fills_def)
qed

definition wit_ack :: js_value where
  "wit_ack = JObj [(''orderId'', JNum (Fin 9)), (''clientOrderId'', JStr ''c''), (''status'', JStr ''FILLED''),
     (''executedQty'', JStr []), (''fills'', JArr [JObj [(''price'', JStr ''100''), (''qty'', JStr ''2''),
     (''tradeId'', JNum (Fin 7))]])]"

lemma wit_ack_execution:
  "\<exists>ex. order_execution (futures_shape (Fin 1)) wit_ack ''i'' os_clientOrderId (Inr (None, None)) Acked (Fin 0) = Inr ex"
  by (simp add: order_execution_Inr futures_shape_def rawFills_def raw_fill_def wit_ack_def wit_parse shape_execution_def
      nullableStr_def nullish_def parse_opt_def averagePrice_def Let_def)

theorem absent_stays_absent_witness:
  "\<exists>ex. order_execution (futures_shape (Fin 1)) wit_ack ''i'' os_clientOrderId (Inr (None, None)) Acked (Fin 0) = Inr ex \<and>
     ex_executed ex = None"
proof -
  obtain ex where o: "order_execution (futures_shape (Fin 1)) wit_ack ''i'' os_clientOrderId (Inr (None, None)) Acked (Fin 0) = Inr ex"
    using wit_ack_execution by blast
  then show ?thesis
    using absent_stays_absent [OF disjI1 [OF conjI [OF refl refl]] o] by (simp add: wit_ack_def nullableStr_def)
qed

theorem ack_fill_counted_twice_witness:
  "\<exists>ex. order_execution (futures_shape (Fin 1)) wit_ack ''i'' os_clientOrderId (Inr (None, None)) Acked (Fin 0) = Inr ex \<and>
     length (ex_fills (report_fills wit_report ex)) = Suc (length (ex_fills ex))"
proof -
  obtain ex where o: "order_execution (futures_shape (Fin 1)) wit_ack ''i'' os_clientOrderId (Inr (None, None)) Acked (Fin 0) = Inr ex"
    using wit_ack_execution by blast
  have "rp_lastQty wit_report = Some ''2''" by (simp add: wit_report_def)
  then show ?thesis using ack_fill_counted_twice [OF disjI1 [OF refl] o] o by simp
qed

end
