(* ===== verification/Ws_Connection.thy ===== *)
theory Ws_Connection
  imports JS_Value
begin

text \<open>
  \<open>src/ws/WsConnection.ts\<close>: the lifecycle of one WebSocket, with reconnects, zero-gap rotation to a
  replacement socket, the liveness watchdog and the acknowledgements of control requests. Sockets
  are the tokens the code gives them; the \<open>ws\<close> library is the events that reach a socket's
  listeners, and what the code does to a socket object is its entry in \<open>wc_sockets\<close>. Timers live
  in \<open>wc_timers\<close> under a handle until they fire or are cleared, so a handle that is overwritten is
  a timer nobody can clear. \<open>buildUrl\<close> is called afresh every time, so its result comes with the
  event. What is emitted or settled is logged; listeners are taken not to call back.
  Lemmas: the tokens, what a retired socket can do, the terminal close, the acknowledgements, and
  the timers.
\<close>

section \<open>State\<close>

datatype ws_state = IDLE | CONNECTING | OPEN | RECONNECTING | CLOSING | CLOSED

datatype ready_state = ReadyConnecting | ReadyOpen | ReadyClosing | ReadyClosed

datatype socket_purpose = ForConnect | ForReconnect | ForRotation

record ws_socket =
  so_ready :: ready_state
  so_attached :: bool
  so_purpose :: socket_purpose

datatype timer_kind = TReconnect | TRotation | TLiveness | TAck nat

record ws_options =
  wo_reconnectDelay :: int
  wo_maxReconnectDelay :: int
  wo_rotation :: int
  wo_stale :: int
  wo_requestTimeout :: int
  wo_computeDelay :: "(nat \<Rightarrow> int) option"

datatype ws_output =
    WState ws_state ws_state
  | WNoUrl
  | WOpen
  | WRotated
  | WRotationFailed
  | WMessage string
  | WError
  | WClose bool
  | WReconnecting nat int
  | WStale
  | WSent nat string
  | WResolved nat js_value
  | WRejected nat

record ws_conn =
  wc_state :: ws_state
  wc_activeSocket :: "nat option"
  wc_pendingSocket :: "nat option"
  wc_tokenCounter :: nat
  wc_activeToken :: nat
  wc_pendingToken :: nat
  wc_reconnectAttempt :: nat
  wc_reconnectTimer :: "nat option"
  wc_rotationTimer :: "nat option"
  wc_livenessTimer :: "nat option"
  wc_lastActivity :: int
  wc_closedByUser :: bool
  wc_acks :: "(nat, nat) jsmap"
  wc_nextRequestId :: nat
  wc_sockets :: "(nat, ws_socket) jsmap"
  wc_timers :: "(nat, timer_kind \<times> int) jsmap"
  wc_timerCounter :: nat
  wc_trace :: "ws_output list"

definition new_WsConnection :: ws_conn where
  "new_WsConnection =
     \<lparr>wc_state = IDLE, wc_activeSocket = None, wc_pendingSocket = None, wc_tokenCounter = 0,
      wc_activeToken = 0, wc_pendingToken = 0, wc_reconnectAttempt = 0, wc_reconnectTimer = None,
      wc_rotationTimer = None, wc_livenessTimer = None, wc_lastActivity = 0, wc_closedByUser = False,
      wc_acks = [], wc_nextRequestId = 1, wc_sockets = [], wc_timers = [], wc_timerCounter = 0, wc_trace = []\<rparr>"

definition put :: "ws_output \<Rightarrow> ws_conn \<Rightarrow> ws_conn" where
  "put x c = c\<lparr>wc_trace := wc_trace c @ [x]\<rparr>"

definition start_timer :: "timer_kind \<Rightarrow> int \<Rightarrow> ws_conn \<Rightarrow> ws_conn" where
  "start_timer k ms c =
     c\<lparr>wc_timers := jm_set (wc_timerCounter c) (k, ms) (wc_timers c), wc_timerCounter := Suc (wc_timerCounter c)\<rparr>"

definition stop_timer :: "nat option \<Rightarrow> ws_conn \<Rightarrow> ws_conn" where
  "stop_timer h c = (case h of None \<Rightarrow> c | Some n \<Rightarrow> c\<lparr>wc_timers := jm_del n (wc_timers c)\<rparr>)"

definition transition :: "ws_state \<Rightarrow> ws_conn \<Rightarrow> ws_conn" where
  "transition to c = (if wc_state c = to then c else put (WState (wc_state c) to) (c\<lparr>wc_state := to\<rparr>))"

definition socket_open :: "ws_conn \<Rightarrow> bool" where
  "socket_open c = (case wc_activeSocket c of None \<Rightarrow> False
     | Some t \<Rightarrow> (case jm_get t (wc_sockets c) of None \<Rightarrow> False | Some s \<Rightarrow> so_ready s = ReadyOpen))"

definition isOpen :: "ws_conn \<Rightarrow> bool" where
  "isOpen c \<longleftrightarrow> wc_state c = OPEN \<and> socket_open c"

definition authorized :: "nat \<Rightarrow> ws_conn \<Rightarrow> bool" where
  "authorized token c \<longleftrightarrow> token = wc_activeToken c \<or> token = wc_pendingToken c"

section \<open>Sockets and timers\<close>

definition createSocket :: "nat \<Rightarrow> socket_purpose \<Rightarrow> ws_conn \<Rightarrow> ws_conn" where
  "createSocket token purpose c =
     c\<lparr>wc_sockets := jm_set token \<lparr>so_ready = ReadyConnecting, so_attached = True, so_purpose = purpose\<rparr> (wc_sockets c)\<rparr>"

definition openPrimarySocket :: "socket_purpose \<Rightarrow> string option \<Rightarrow> ws_conn \<Rightarrow> ws_conn" where
  "openPrimarySocket reason url c =
     (case url of
        None \<Rightarrow> put WNoUrl c
      | Some u \<Rightarrow>
          let token = Suc (wc_tokenCounter c);
              c1 = createSocket token reason (c\<lparr>wc_tokenCounter := token, wc_activeToken := token, wc_pendingToken := 0\<rparr>)
          in transition CONNECTING (c1\<lparr>wc_activeSocket := Some token\<rparr>))"

definition retireSocket :: "nat option \<Rightarrow> ws_conn \<Rightarrow> ws_conn" where
  "retireSocket socket c =
     (case socket of
        None \<Rightarrow> c
      | Some t \<Rightarrow>
          (case jm_get t (wc_sockets c) of
             None \<Rightarrow> c
           | Some s \<Rightarrow>
               c\<lparr>wc_sockets := jm_set t (s\<lparr>so_attached := False,
                    so_ready := (if so_ready s = ReadyClosed then ReadyClosed else ReadyClosing)\<rparr>) (wc_sockets c)\<rparr>))"

definition rotate :: "string option \<Rightarrow> ws_conn \<Rightarrow> ws_conn" where
  "rotate url c =
     (case url of
        None \<Rightarrow> c
      | Some u \<Rightarrow>
          let token = Suc (wc_tokenCounter c);
              c1 = createSocket token ForRotation (c\<lparr>wc_tokenCounter := token, wc_pendingToken := token\<rparr>)
          in c1\<lparr>wc_pendingSocket := Some token\<rparr>)"

definition startRotationTimer :: "ws_options \<Rightarrow> ws_conn \<Rightarrow> ws_conn" where
  "startRotationTimer opts c =
     (if wo_rotation opts \<le> 0 then c
      else start_timer TRotation (wo_rotation opts) (c\<lparr>wc_rotationTimer := Some (wc_timerCounter c)\<rparr>))"

definition startLivenessTimer :: "ws_options \<Rightarrow> ws_conn \<Rightarrow> ws_conn" where
  "startLivenessTimer opts c =
     (if wo_stale opts \<le> 0 then c
      else start_timer TLiveness (max (min (wo_stale opts div 2) 30000) 1000)
             (c\<lparr>wc_livenessTimer := Some (wc_timerCounter c)\<rparr>))"

definition clearTimers :: "ws_conn \<Rightarrow> ws_conn" where
  "clearTimers c =
     (stop_timer (wc_livenessTimer c) (stop_timer (wc_rotationTimer c) (stop_timer (wc_reconnectTimer c) c)))
       \<lparr>wc_reconnectTimer := None, wc_rotationTimer := None, wc_livenessTimer := None\<rparr>"

definition reconnect_delay :: "ws_options \<Rightarrow> nat \<Rightarrow> int" where
  "reconnect_delay opts attempt =
     (case wo_computeDelay opts of
        Some f \<Rightarrow> max 0 (f attempt)
      | None \<Rightarrow> min (wo_reconnectDelay opts * 2 ^ attempt) (wo_maxReconnectDelay opts))"

definition scheduleReconnect :: "ws_options \<Rightarrow> ws_conn \<Rightarrow> ws_conn" where
  "scheduleReconnect opts c =
     (if wc_state c = CLOSED \<or> wc_closedByUser c \<or> wc_reconnectTimer c \<noteq> None then c
      else
        let c1 = clearTimers c;
            delay = reconnect_delay opts (wc_reconnectAttempt c1);
            c2 = transition RECONNECTING (c1\<lparr>wc_reconnectAttempt := Suc (wc_reconnectAttempt c1)\<rparr>);
            c3 = put (WReconnecting (wc_reconnectAttempt c2) delay) c2
        in start_timer TReconnect delay (c3\<lparr>wc_reconnectTimer := Some (wc_timerCounter c3)\<rparr>))"

section \<open>Calls\<close>

definition ws_connect :: "string option \<Rightarrow> ws_conn \<Rightarrow> ws_conn" where
  "ws_connect url c =
     (if wc_state c = IDLE \<or> wc_state c = CLOSED
      then openPrimarySocket ForConnect url (c\<lparr>wc_closedByUser := False, wc_reconnectAttempt := 0\<rparr>)
      else c)"

definition failAllAcks :: "ws_conn \<Rightarrow> ws_conn" where
  "failAllAcks c =
     (foldl (\<lambda>c (rid, timer). put (WRejected rid) (stop_timer (Some timer) c)) c (wc_acks c))\<lparr>wc_acks := []\<rparr>"

definition ws_close :: "ws_conn \<Rightarrow> ws_conn" where
  "ws_close c =
     (if wc_state c = CLOSED then c
      else
        let c1 = failAllAcks (clearTimers (transition CLOSING (c\<lparr>wc_closedByUser := True\<rparr>)));
            c2 = retireSocket (wc_pendingSocket c1) (retireSocket (wc_activeSocket c1) c1)
        in put (WClose True) (transition CLOSED
             (c2\<lparr>wc_activeSocket := None, wc_pendingSocket := None, wc_activeToken := 0, wc_pendingToken := 0\<rparr>)))"

definition rotateNow :: "string option \<Rightarrow> ws_conn \<Rightarrow> bool \<times> ws_conn" where
  "rotateNow url c =
     (if wc_state c \<noteq> OPEN \<or> wc_closedByUser c \<or> wc_pendingSocket c \<noteq> None then (False, c)
      else (True, rotate url c))"

definition ws_reconnect :: "string option \<Rightarrow> ws_conn \<Rightarrow> ws_conn" where
  "ws_reconnect url c =
     (if wc_state c = CLOSED then ws_connect url c
      else if wc_closedByUser c then c
      else
        let c1 = (clearTimers c)\<lparr>wc_reconnectAttempt := 0\<rparr>;
            c2 = (retireSocket (wc_pendingSocket c1) c1)\<lparr>wc_pendingSocket := None, wc_pendingToken := 0\<rparr>;
            c3 = (retireSocket (wc_activeSocket c2) c2)\<lparr>wc_activeSocket := None, wc_activeToken := 0\<rparr>
        in openPrimarySocket ForReconnect url c3)"

definition ws_request :: "ws_options \<Rightarrow> string \<Rightarrow> ws_conn \<Rightarrow> bool \<times> ws_conn" where
  "ws_request opts method c =
     (if \<not> isOpen c then (False, c)
      else
        let rid = wc_nextRequestId c;
            c1 = start_timer (TAck rid) (wo_requestTimeout opts)
                   (c\<lparr>wc_nextRequestId := Suc rid, wc_acks := jm_set rid (wc_timerCounter c) (wc_acks c)\<rparr>)
        in (True, put (WSent rid method) c1))"

definition msSinceLastActivity :: "int \<Rightarrow> ws_conn \<Rightarrow> int option" where
  "msSinceLastActivity now c = (if wc_lastActivity c = 0 then None else Some (now - wc_lastActivity c))"

section \<open>Events of a socket\<close>

definition set_ready :: "nat \<Rightarrow> ready_state \<Rightarrow> ws_conn \<Rightarrow> ws_conn" where
  "set_ready t r c = (case jm_get t (wc_sockets c) of None \<Rightarrow> c
     | Some s \<Rightarrow> c\<lparr>wc_sockets := jm_set t (s\<lparr>so_ready := r\<rparr>) (wc_sockets c)\<rparr>)"

definition socket_opened :: "ws_options \<Rightarrow> nat \<Rightarrow> socket_purpose \<Rightarrow> int \<Rightarrow> ws_conn \<Rightarrow> ws_conn" where
  "socket_opened opts token purpose now c =
     (if \<not> authorized token c then c
      else
        let c1 = (if purpose = ForRotation then retireSocket (wc_activeSocket c) c else c);
            c2 = transition OPEN (c1\<lparr>wc_activeSocket := Some token, wc_activeToken := token, wc_pendingToken := 0,
                   wc_pendingSocket := None, wc_reconnectAttempt := 0, wc_lastActivity := now\<rparr>);
            c3 = put (if purpose = ForRotation then WRotated else WOpen) c2
        in startLivenessTimer opts (startRotationTimer opts c3))"

definition note_activity :: "nat \<Rightarrow> int \<Rightarrow> ws_conn \<Rightarrow> ws_conn" where
  "note_activity token now c = (if authorized token c then c\<lparr>wc_lastActivity := now\<rparr> else c)"

definition socket_message :: "nat \<Rightarrow> int \<Rightarrow> string \<Rightarrow> ws_conn \<Rightarrow> ws_conn" where
  "socket_message token now text c =
     (if authorized token c then put (WMessage text) (note_activity token now c) else c)"

definition socket_error :: "nat \<Rightarrow> ws_conn \<Rightarrow> ws_conn" where
  "socket_error token c = (if authorized token c then put WError c else c)"

definition socket_closed :: "ws_options \<Rightarrow> nat \<Rightarrow> ws_conn \<Rightarrow> ws_conn" where
  "socket_closed opts token c =
     (if token = wc_pendingToken c
      then startRotationTimer opts (put WRotationFailed (c\<lparr>wc_pendingToken := 0, wc_pendingSocket := None\<rparr>))
      else if token \<noteq> wc_activeToken c then c
      else if wc_closedByUser c then put (WClose True) (transition CLOSED c)
      else scheduleReconnect opts (put (WClose False) c))"

text \<open>A frame that is an acknowledgement of a pending request settles it.\<close>

definition dispatchAck :: "js_value \<Rightarrow> ws_conn \<Rightarrow> bool \<times> ws_conn" where
  "dispatchAck parsed c =
     (case parsed of
        JObj fs \<Rightarrow>
          if map_of fs ''stream'' = None \<and> map_of fs ''id'' \<noteq> None \<and>
             (map_of fs ''result'' \<noteq> None \<or> map_of fs ''error'' \<noteq> None)
          then (case js_field ''id'' parsed of
                  JNum (Fin q) \<Rightarrow>
                    (case (if 0 \<le> q \<and> of_int \<lfloor>q\<rfloor> = q then jm_get (nat \<lfloor>q\<rfloor>) (wc_acks c) else None) of
                       None \<Rightarrow> (False, c)
                     | Some timer \<Rightarrow>
                         let rid = nat \<lfloor>q\<rfloor>;
                             c1 = stop_timer (Some timer) (c\<lparr>wc_acks := jm_del rid (wc_acks c)\<rparr>)
                         in (True, put (if js_truthy (js_field ''error'' parsed) then WRejected rid
                                        else WResolved rid (js_field ''result'' parsed)) c1))
                | _ \<Rightarrow> (False, c))
          else (False, c)
      | _ \<Rightarrow> (False, c))"

section \<open>Timers\<close>

definition timer_fired :: "ws_options \<Rightarrow> nat \<Rightarrow> string option \<Rightarrow> int \<Rightarrow> ws_conn \<Rightarrow> ws_conn" where
  "timer_fired opts h url now c =
     (case jm_get h (wc_timers c) of
        None \<Rightarrow> c
      | Some (kind, ms) \<Rightarrow>
          let c0 = c\<lparr>wc_timers := jm_del h (wc_timers c)\<rparr>
          in case kind of
               TReconnect \<Rightarrow>
                 let c1 = c0\<lparr>wc_reconnectTimer := None\<rparr>
                 in if \<not> wc_closedByUser c1 \<and> wc_state c1 \<noteq> CLOSED then openPrimarySocket ForReconnect url c1 else c1
             | TRotation \<Rightarrow>
                 let c1 = c0\<lparr>wc_rotationTimer := None\<rparr>
                 in if wc_state c1 \<noteq> OPEN \<or> wc_closedByUser c1 \<or> wc_pendingSocket c1 \<noteq> None then c1 else rotate url c1
             | TLiveness \<Rightarrow>
                 if wc_state c \<noteq> OPEN then c
                 else if now - wc_lastActivity c > wo_stale opts then ws_reconnect url (put WStale c) else c
             | TAck rid \<Rightarrow> put (WRejected rid) (c0\<lparr>wc_acks := jm_del rid (wc_acks c0)\<rparr>))"

section \<open>Steps\<close>

datatype ws_event =
    CallConnect "string option"
  | CallClose
  | CallReconnect "string option"
  | CallRotate "string option"
  | CallRequest string
  | SockOpen nat int
  | SockMessage nat int string
  | SockPing nat int
  | SockError nat
  | SockClose nat
  | AckFrame js_value
  | TimerFired nat "string option" int

text \<open>The library delivers a socket's events to its listeners only, opens a socket once and closes it
  once.\<close>

fun ws_step :: "ws_options \<Rightarrow> ws_conn \<Rightarrow> ws_event \<Rightarrow> ws_conn" where
  "ws_step opts c (CallConnect url) = ws_connect url c"
| "ws_step opts c CallClose = ws_close c"
| "ws_step opts c (CallReconnect url) = ws_reconnect url c"
| "ws_step opts c (CallRotate url) = snd (rotateNow url c)"
| "ws_step opts c (CallRequest method) = snd (ws_request opts method c)"
| "ws_step opts c (SockOpen t now) =
     (case jm_get t (wc_sockets c) of
        None \<Rightarrow> c
      | Some s \<Rightarrow> if so_attached s \<and> so_ready s = ReadyConnecting
                  then socket_opened opts t (so_purpose s) now (set_ready t ReadyOpen c) else c)"
| "ws_step opts c (SockMessage t now text) =
     (case jm_get t (wc_sockets c) of
        None \<Rightarrow> c | Some s \<Rightarrow> if so_attached s \<and> so_ready s = ReadyOpen then socket_message t now text c else c)"
| "ws_step opts c (SockPing t now) =
     (case jm_get t (wc_sockets c) of
        None \<Rightarrow> c | Some s \<Rightarrow> if so_attached s then note_activity t now c else c)"
| "ws_step opts c (SockError t) =
     (case jm_get t (wc_sockets c) of
        None \<Rightarrow> c | Some s \<Rightarrow> if so_attached s then socket_error t c else c)"
| "ws_step opts c (SockClose t) =
     (case jm_get t (wc_sockets c) of
        None \<Rightarrow> c
      | Some s \<Rightarrow> if so_attached s \<and> so_ready s \<noteq> ReadyClosed
                  then socket_closed opts t (set_ready t ReadyClosed c) else c)"
| "ws_step opts c (AckFrame v) = snd (dispatchAck v c)"
| "ws_step opts c (TimerFired h url now) = timer_fired opts h url now c"

section \<open>Frames of the operations\<close>

named_theorems ws_frame \<open>what the small operations leave alone\<close>

lemma put_sel [ws_frame]:
  "wc_state (put x c) = wc_state c" "wc_activeSocket (put x c) = wc_activeSocket c"
  "wc_pendingSocket (put x c) = wc_pendingSocket c" "wc_tokenCounter (put x c) = wc_tokenCounter c"
  "wc_activeToken (put x c) = wc_activeToken c" "wc_pendingToken (put x c) = wc_pendingToken c"
  "wc_reconnectTimer (put x c) = wc_reconnectTimer c" "wc_closedByUser (put x c) = wc_closedByUser c"
  "wc_acks (put x c) = wc_acks c" "wc_nextRequestId (put x c) = wc_nextRequestId c"
  "wc_sockets (put x c) = wc_sockets c" "wc_timers (put x c) = wc_timers c"
  "wc_timerCounter (put x c) = wc_timerCounter c" "wc_trace (put x c) = wc_trace c @ [x]"
  "wc_rotationTimer (put x c) = wc_rotationTimer c" "wc_livenessTimer (put x c) = wc_livenessTimer c"
  "wc_reconnectAttempt (put x c) = wc_reconnectAttempt c" "wc_lastActivity (put x c) = wc_lastActivity c"
  by (simp_all add: put_def)

lemma start_timer_sel [ws_frame]:
  "wc_state (start_timer k ms c) = wc_state c" "wc_activeSocket (start_timer k ms c) = wc_activeSocket c"
  "wc_pendingSocket (start_timer k ms c) = wc_pendingSocket c" "wc_tokenCounter (start_timer k ms c) = wc_tokenCounter c"
  "wc_activeToken (start_timer k ms c) = wc_activeToken c" "wc_pendingToken (start_timer k ms c) = wc_pendingToken c"
  "wc_closedByUser (start_timer k ms c) = wc_closedByUser c" "wc_acks (start_timer k ms c) = wc_acks c"
  "wc_nextRequestId (start_timer k ms c) = wc_nextRequestId c" "wc_sockets (start_timer k ms c) = wc_sockets c"
  "wc_timerCounter (start_timer k ms c) = Suc (wc_timerCounter c)" "wc_trace (start_timer k ms c) = wc_trace c"
  "wc_timers (start_timer k ms c) = jm_set (wc_timerCounter c) (k, ms) (wc_timers c)"
  "wc_livenessTimer (start_timer k ms c) = wc_livenessTimer c" "wc_rotationTimer (start_timer k ms c) = wc_rotationTimer c"
  "wc_reconnectTimer (start_timer k ms c) = wc_reconnectTimer c"
  by (simp_all add: start_timer_def)

lemma stop_timer_sel [ws_frame]:
  "wc_state (stop_timer h c) = wc_state c" "wc_activeSocket (stop_timer h c) = wc_activeSocket c"
  "wc_pendingSocket (stop_timer h c) = wc_pendingSocket c" "wc_tokenCounter (stop_timer h c) = wc_tokenCounter c"
  "wc_activeToken (stop_timer h c) = wc_activeToken c" "wc_pendingToken (stop_timer h c) = wc_pendingToken c"
  "wc_closedByUser (stop_timer h c) = wc_closedByUser c" "wc_acks (stop_timer h c) = wc_acks c"
  "wc_nextRequestId (stop_timer h c) = wc_nextRequestId c" "wc_sockets (stop_timer h c) = wc_sockets c"
  "wc_timerCounter (stop_timer h c) = wc_timerCounter c" "wc_trace (stop_timer h c) = wc_trace c"
  "wc_livenessTimer (stop_timer h c) = wc_livenessTimer c" "wc_rotationTimer (stop_timer h c) = wc_rotationTimer c"
  "wc_reconnectTimer (stop_timer h c) = wc_reconnectTimer c"
  "jm_get i (wc_timers (stop_timer h c)) = (if h = Some i then None else jm_get i (wc_timers c))"
  by (simp_all add: stop_timer_def jm.get_del split: option.split)

lemma clearTimers_sel [ws_frame]:
  "wc_state (clearTimers c) = wc_state c" "wc_activeSocket (clearTimers c) = wc_activeSocket c"
  "wc_pendingSocket (clearTimers c) = wc_pendingSocket c" "wc_tokenCounter (clearTimers c) = wc_tokenCounter c"
  "wc_activeToken (clearTimers c) = wc_activeToken c" "wc_pendingToken (clearTimers c) = wc_pendingToken c"
  "wc_closedByUser (clearTimers c) = wc_closedByUser c" "wc_acks (clearTimers c) = wc_acks c"
  "wc_nextRequestId (clearTimers c) = wc_nextRequestId c" "wc_sockets (clearTimers c) = wc_sockets c"
  "wc_timerCounter (clearTimers c) = wc_timerCounter c" "wc_trace (clearTimers c) = wc_trace c"
  "jm_get i (wc_timers (clearTimers c)) =
     (if Some i \<in> {wc_reconnectTimer c, wc_rotationTimer c, wc_livenessTimer c} then None else jm_get i (wc_timers c))"
  by (simp_all add: clearTimers_def ws_frame)

lemma transition_sel [ws_frame]:
  "wc_state (transition s c) = s" "wc_activeSocket (transition s c) = wc_activeSocket c"
  "wc_pendingSocket (transition s c) = wc_pendingSocket c" "wc_tokenCounter (transition s c) = wc_tokenCounter c"
  "wc_activeToken (transition s c) = wc_activeToken c" "wc_pendingToken (transition s c) = wc_pendingToken c"
  "wc_closedByUser (transition s c) = wc_closedByUser c" "wc_acks (transition s c) = wc_acks c"
  "wc_nextRequestId (transition s c) = wc_nextRequestId c" "wc_sockets (transition s c) = wc_sockets c"
  "wc_timerCounter (transition s c) = wc_timerCounter c" "wc_timers (transition s c) = wc_timers c"
  "wc_reconnectTimer (transition s c) = wc_reconnectTimer c" "wc_rotationTimer (transition s c) = wc_rotationTimer c"
  "wc_livenessTimer (transition s c) = wc_livenessTimer c"
  by (auto simp add: transition_def ws_frame)

lemma retireSocket_sel [ws_frame]:
  "wc_state (retireSocket s c) = wc_state c" "wc_activeSocket (retireSocket s c) = wc_activeSocket c"
  "wc_pendingSocket (retireSocket s c) = wc_pendingSocket c" "wc_tokenCounter (retireSocket s c) = wc_tokenCounter c"
  "wc_activeToken (retireSocket s c) = wc_activeToken c" "wc_pendingToken (retireSocket s c) = wc_pendingToken c"
  "wc_closedByUser (retireSocket s c) = wc_closedByUser c" "wc_acks (retireSocket s c) = wc_acks c"
  "wc_nextRequestId (retireSocket s c) = wc_nextRequestId c" "wc_timers (retireSocket s c) = wc_timers c"
  "wc_timerCounter (retireSocket s c) = wc_timerCounter c" "wc_trace (retireSocket s c) = wc_trace c"
  "wc_reconnectTimer (retireSocket s c) = wc_reconnectTimer c" "wc_rotationTimer (retireSocket s c) = wc_rotationTimer c"
  "wc_livenessTimer (retireSocket s c) = wc_livenessTimer c"
  "jm_get t (wc_sockets (retireSocket s c)) = None \<longleftrightarrow> jm_get t (wc_sockets c) = None"
  by (auto simp: retireSocket_def jm.get_put split: option.split)

lemma set_ready_sel [ws_frame]:
  "wc_state (set_ready t r c) = wc_state c" "wc_activeSocket (set_ready t r c) = wc_activeSocket c"
  "wc_pendingSocket (set_ready t r c) = wc_pendingSocket c" "wc_tokenCounter (set_ready t r c) = wc_tokenCounter c"
  "wc_activeToken (set_ready t r c) = wc_activeToken c" "wc_pendingToken (set_ready t r c) = wc_pendingToken c"
  "wc_closedByUser (set_ready t r c) = wc_closedByUser c" "wc_acks (set_ready t r c) = wc_acks c"
  "wc_nextRequestId (set_ready t r c) = wc_nextRequestId c" "wc_timers (set_ready t r c) = wc_timers c"
  "wc_timerCounter (set_ready t r c) = wc_timerCounter c" "wc_trace (set_ready t r c) = wc_trace c"
  "wc_reconnectTimer (set_ready t r c) = wc_reconnectTimer c" "wc_rotationTimer (set_ready t r c) = wc_rotationTimer c"
  "wc_livenessTimer (set_ready t r c) = wc_livenessTimer c"
  "jm_get u (wc_sockets (set_ready t r c)) = None \<longleftrightarrow> jm_get u (wc_sockets c) = None"
  by (auto simp: set_ready_def jm.get_put split: option.split)

lemma ack_loop [ws_frame]:
  "wc_state (foldl (\<lambda>c (rid, timer). put (WRejected rid) (stop_timer (Some timer) c)) c as) = wc_state c"
  "wc_activeSocket (foldl (\<lambda>c (rid, timer). put (WRejected rid) (stop_timer (Some timer) c)) c as) = wc_activeSocket c"
  "wc_pendingSocket (foldl (\<lambda>c (rid, timer). put (WRejected rid) (stop_timer (Some timer) c)) c as) = wc_pendingSocket c"
  "wc_tokenCounter (foldl (\<lambda>c (rid, timer). put (WRejected rid) (stop_timer (Some timer) c)) c as) = wc_tokenCounter c"
  "wc_activeToken (foldl (\<lambda>c (rid, timer). put (WRejected rid) (stop_timer (Some timer) c)) c as) = wc_activeToken c"
  "wc_pendingToken (foldl (\<lambda>c (rid, timer). put (WRejected rid) (stop_timer (Some timer) c)) c as) = wc_pendingToken c"
  "wc_closedByUser (foldl (\<lambda>c (rid, timer). put (WRejected rid) (stop_timer (Some timer) c)) c as) = wc_closedByUser c"
  "wc_nextRequestId (foldl (\<lambda>c (rid, timer). put (WRejected rid) (stop_timer (Some timer) c)) c as) = wc_nextRequestId c"
  "wc_sockets (foldl (\<lambda>c (rid, timer). put (WRejected rid) (stop_timer (Some timer) c)) c as) = wc_sockets c"
  "wc_timerCounter (foldl (\<lambda>c (rid, timer). put (WRejected rid) (stop_timer (Some timer) c)) c as) = wc_timerCounter c"
  "wc_reconnectTimer (foldl (\<lambda>c (rid, timer). put (WRejected rid) (stop_timer (Some timer) c)) c as) = wc_reconnectTimer c"
  "wc_rotationTimer (foldl (\<lambda>c (rid, timer). put (WRejected rid) (stop_timer (Some timer) c)) c as) = wc_rotationTimer c"
  "wc_livenessTimer (foldl (\<lambda>c (rid, timer). put (WRejected rid) (stop_timer (Some timer) c)) c as) = wc_livenessTimer c"
  "jm_get h (wc_timers (foldl (\<lambda>c (rid, timer). put (WRejected rid) (stop_timer (Some timer) c)) c as)) =
     (if h \<in> snd ` set as then None else jm_get h (wc_timers c))"
  "wc_trace (foldl (\<lambda>c (rid, timer). put (WRejected rid) (stop_timer (Some timer) c)) c as) =
     wc_trace c @ map (WRejected \<circ> fst) as"
  by (induction as arbitrary: c) (auto simp: ws_frame)

lemma failAllAcks_sel [ws_frame]:
  "wc_state (failAllAcks c) = wc_state c" "wc_activeSocket (failAllAcks c) = wc_activeSocket c"
  "wc_pendingSocket (failAllAcks c) = wc_pendingSocket c" "wc_tokenCounter (failAllAcks c) = wc_tokenCounter c"
  "wc_activeToken (failAllAcks c) = wc_activeToken c" "wc_pendingToken (failAllAcks c) = wc_pendingToken c"
  "wc_closedByUser (failAllAcks c) = wc_closedByUser c" "wc_acks (failAllAcks c) = []"
  "wc_nextRequestId (failAllAcks c) = wc_nextRequestId c" "wc_sockets (failAllAcks c) = wc_sockets c"
  "wc_timerCounter (failAllAcks c) = wc_timerCounter c"
  "wc_reconnectTimer (failAllAcks c) = wc_reconnectTimer c"
  "wc_rotationTimer (failAllAcks c) = wc_rotationTimer c"
  "wc_livenessTimer (failAllAcks c) = wc_livenessTimer c"
  "jm_get h (wc_timers (failAllAcks c)) = (if h \<in> snd ` set (wc_acks c) then None else jm_get h (wc_timers c))"
  "wc_trace (failAllAcks c) = wc_trace c @ map (WRejected \<circ> fst) (wc_acks c)"
  by (simp_all add: failAllAcks_def ws_frame)

lemmas ws_ops = ws_connect_def ws_close_def rotateNow_def ws_reconnect_def ws_request_def
  openPrimarySocket_def createSocket_def rotate_def startRotationTimer_def startLivenessTimer_def
  scheduleReconnect_def socket_opened_def note_activity_def socket_message_def socket_error_def
  socket_closed_def Let_def

lemma openPrimarySocket_sel [ws_frame]:
  "wc_state (openPrimarySocket reason url c) = (if url = None then wc_state c else CONNECTING)"
  "wc_activeSocket (openPrimarySocket reason url c) = (if url = None then wc_activeSocket c else Some (Suc (wc_tokenCounter c)))"
  "wc_pendingSocket (openPrimarySocket reason url c) = wc_pendingSocket c"
  "wc_tokenCounter (openPrimarySocket reason url c) = (if url = None then wc_tokenCounter c else Suc (wc_tokenCounter c))"
  "wc_activeToken (openPrimarySocket reason url c) = (if url = None then wc_activeToken c else Suc (wc_tokenCounter c))"
  "wc_pendingToken (openPrimarySocket reason url c) = (if url = None then wc_pendingToken c else 0)"
  "wc_reconnectTimer (openPrimarySocket reason url c) = wc_reconnectTimer c"
  "wc_rotationTimer (openPrimarySocket reason url c) = wc_rotationTimer c"
  "wc_livenessTimer (openPrimarySocket reason url c) = wc_livenessTimer c"
  "wc_closedByUser (openPrimarySocket reason url c) = wc_closedByUser c"
  "wc_acks (openPrimarySocket reason url c) = wc_acks c"
  "wc_nextRequestId (openPrimarySocket reason url c) = wc_nextRequestId c"
  "wc_timers (openPrimarySocket reason url c) = wc_timers c"
  "wc_timerCounter (openPrimarySocket reason url c) = wc_timerCounter c"
  "jm_get t (wc_sockets (openPrimarySocket reason url c)) = (if url \<noteq> None \<and> t = Suc (wc_tokenCounter c) then Some \<lparr>so_ready = ReadyConnecting, so_attached = True, so_purpose = reason\<rparr> else jm_get t (wc_sockets c))"
  by (cases url; simp add: openPrimarySocket_def createSocket_def Let_def ws_frame jm.get_put)+

lemma rotate_sel [ws_frame]:
  "wc_state (rotate url c) = wc_state c"
  "wc_activeSocket (rotate url c) = wc_activeSocket c"
  "wc_pendingSocket (rotate url c) = (if url = None then wc_pendingSocket c else Some (Suc (wc_tokenCounter c)))"
  "wc_tokenCounter (rotate url c) = (if url = None then wc_tokenCounter c else Suc (wc_tokenCounter c))"
  "wc_activeToken (rotate url c) = wc_activeToken c"
  "wc_pendingToken (rotate url c) = (if url = None then wc_pendingToken c else Suc (wc_tokenCounter c))"
  "wc_reconnectTimer (rotate url c) = wc_reconnectTimer c"
  "wc_rotationTimer (rotate url c) = wc_rotationTimer c"
  "wc_livenessTimer (rotate url c) = wc_livenessTimer c"
  "wc_closedByUser (rotate url c) = wc_closedByUser c"
  "wc_acks (rotate url c) = wc_acks c"
  "wc_nextRequestId (rotate url c) = wc_nextRequestId c"
  "wc_timers (rotate url c) = wc_timers c"
  "wc_timerCounter (rotate url c) = wc_timerCounter c"
  "wc_trace (rotate url c) = wc_trace c"
  "jm_get t (wc_sockets (rotate url c)) = (if url \<noteq> None \<and> t = Suc (wc_tokenCounter c) then Some \<lparr>so_ready = ReadyConnecting, so_attached = True, so_purpose = ForRotation\<rparr> else jm_get t (wc_sockets c))"
  by (cases url; simp add: rotate_def createSocket_def Let_def jm.get_put)+

lemma startRotationTimer_sel [ws_frame]:
  "wc_state (startRotationTimer opts c) = wc_state c"
  "wc_activeSocket (startRotationTimer opts c) = wc_activeSocket c"
  "wc_pendingSocket (startRotationTimer opts c) = wc_pendingSocket c"
  "wc_tokenCounter (startRotationTimer opts c) = wc_tokenCounter c"
  "wc_activeToken (startRotationTimer opts c) = wc_activeToken c"
  "wc_pendingToken (startRotationTimer opts c) = wc_pendingToken c"
  "wc_reconnectTimer (startRotationTimer opts c) = wc_reconnectTimer c"
  "wc_rotationTimer (startRotationTimer opts c) = (if 0 < wo_rotation opts then Some (wc_timerCounter c) else wc_rotationTimer c)"
  "wc_livenessTimer (startRotationTimer opts c) = wc_livenessTimer c"
  "wc_closedByUser (startRotationTimer opts c) = wc_closedByUser c"
  "wc_acks (startRotationTimer opts c) = wc_acks c"
  "wc_nextRequestId (startRotationTimer opts c) = wc_nextRequestId c"
  "wc_sockets (startRotationTimer opts c) = wc_sockets c"
  "wc_timerCounter (startRotationTimer opts c) = (if 0 < wo_rotation opts then Suc (wc_timerCounter c) else wc_timerCounter c)"
  "wc_trace (startRotationTimer opts c) = wc_trace c"
  "jm_get h (wc_timers (startRotationTimer opts c)) = (if 0 < wo_rotation opts \<and> h = wc_timerCounter c then Some (TRotation, wo_rotation opts) else jm_get h (wc_timers c))"
  by (simp_all add: startRotationTimer_def ws_frame jm.get_put)

lemma startLivenessTimer_sel [ws_frame]:
  "wc_state (startLivenessTimer opts c) = wc_state c"
  "wc_activeSocket (startLivenessTimer opts c) = wc_activeSocket c"
  "wc_pendingSocket (startLivenessTimer opts c) = wc_pendingSocket c"
  "wc_tokenCounter (startLivenessTimer opts c) = wc_tokenCounter c"
  "wc_activeToken (startLivenessTimer opts c) = wc_activeToken c"
  "wc_pendingToken (startLivenessTimer opts c) = wc_pendingToken c"
  "wc_reconnectTimer (startLivenessTimer opts c) = wc_reconnectTimer c"
  "wc_rotationTimer (startLivenessTimer opts c) = wc_rotationTimer c"
  "wc_livenessTimer (startLivenessTimer opts c) = (if 0 < wo_stale opts then Some (wc_timerCounter c) else wc_livenessTimer c)"
  "wc_closedByUser (startLivenessTimer opts c) = wc_closedByUser c"
  "wc_acks (startLivenessTimer opts c) = wc_acks c"
  "wc_nextRequestId (startLivenessTimer opts c) = wc_nextRequestId c"
  "wc_sockets (startLivenessTimer opts c) = wc_sockets c"
  "wc_timerCounter (startLivenessTimer opts c) = (if 0 < wo_stale opts then Suc (wc_timerCounter c) else wc_timerCounter c)"
  "wc_trace (startLivenessTimer opts c) = wc_trace c"
  "jm_get h (wc_timers (startLivenessTimer opts c)) = (if 0 < wo_stale opts \<and> h = wc_timerCounter c then Some (TLiveness, max (min (wo_stale opts div 2) 30000) 1000) else jm_get h (wc_timers c))"
  by (simp_all add: startLivenessTimer_def ws_frame jm.get_put)

lemma scheduleReconnect_sel [ws_frame]:
  "wc_activeSocket (scheduleReconnect opts c) = wc_activeSocket c" "wc_pendingSocket (scheduleReconnect opts c) = wc_pendingSocket c"
  "wc_tokenCounter (scheduleReconnect opts c) = wc_tokenCounter c" "wc_activeToken (scheduleReconnect opts c) = wc_activeToken c"
  "wc_pendingToken (scheduleReconnect opts c) = wc_pendingToken c" "wc_closedByUser (scheduleReconnect opts c) = wc_closedByUser c"
  "wc_acks (scheduleReconnect opts c) = wc_acks c" "wc_nextRequestId (scheduleReconnect opts c) = wc_nextRequestId c"
  "wc_sockets (scheduleReconnect opts c) = wc_sockets c"
  by (simp_all add: scheduleReconnect_def Let_def ws_frame)

section \<open>Retired sockets\<close>

definition retired :: "nat \<Rightarrow> ws_conn \<Rightarrow> bool" where
  "retired t c \<longleftrightarrow> 0 < t \<and> t \<le> wc_tokenCounter c \<and> \<not> authorized t c"

fun socket_event :: "ws_event \<Rightarrow> nat option" where
  "socket_event (SockOpen t now) = Some t"
| "socket_event (SockMessage t now text) = Some t"
| "socket_event (SockPing t now) = Some t"
| "socket_event (SockError t) = Some t"
| "socket_event (SockClose t) = Some t"
| "socket_event _ = None"

lemma retired_connect: "retired t c \<Longrightarrow> retired t (ws_connect url c)"
  by (auto simp: retired_def authorized_def ws_connect_def ws_frame)

lemma retired_reconnect: "retired t c \<Longrightarrow> retired t (ws_reconnect url c)"
  by (auto simp: ws_reconnect_def Let_def retired_connect) (auto simp: retired_def authorized_def ws_frame)

lemma dispatchAck_keeps:
  "wc_activeToken (snd (dispatchAck v c)) = wc_activeToken c" "wc_pendingToken (snd (dispatchAck v c)) = wc_pendingToken c"
  "wc_tokenCounter (snd (dispatchAck v c)) = wc_tokenCounter c" "wc_state (snd (dispatchAck v c)) = wc_state c"
  "wc_sockets (snd (dispatchAck v c)) = wc_sockets c" "wc_nextRequestId (snd (dispatchAck v c)) = wc_nextRequestId c"
  "wc_timerCounter (snd (dispatchAck v c)) = wc_timerCounter c" "wc_reconnectTimer (snd (dispatchAck v c)) = wc_reconnectTimer c"
  "wc_rotationTimer (snd (dispatchAck v c)) = wc_rotationTimer c" "wc_livenessTimer (snd (dispatchAck v c)) = wc_livenessTimer c"
  by (auto simp: dispatchAck_def Let_def ws_frame split: js_value.split js_number.split option.split)

lemma retired_timer: "retired t c \<Longrightarrow> retired t (timer_fired opts h url now c)"
proof -
  assume r: "retired t c"
  then have "retired t (put WStale c)" by (simp add: retired_def authorized_def ws_frame)
  from retired_reconnect [OF this] r show ?thesis
    by (auto simp: timer_fired_def Let_def split: option.split timer_kind.split)
      (auto simp: retired_def authorized_def ws_frame)
qed

lemma retired_sockets:
  "retired t c \<Longrightarrow> retired t (socket_opened opts u p now (set_ready u r c))"
  "retired t c \<Longrightarrow> retired t (socket_closed opts u (set_ready u r c))"
  by (auto simp: retired_def authorized_def socket_opened_def socket_closed_def Let_def ws_frame)

lemma retired_step: "retired t c \<Longrightarrow> retired t (ws_step opts c e)"
proof (cases e)
  case CallClose
  then show "retired t c \<Longrightarrow> ?thesis"
    by (auto simp: retired_def authorized_def ws_close_def Let_def ws_frame)
next
  case (CallRotate url)
  then show "retired t c \<Longrightarrow> ?thesis"
    by (auto simp: retired_def authorized_def rotateNow_def ws_frame)
next
  case (CallRequest m)
  then show "retired t c \<Longrightarrow> ?thesis"
    by (auto simp: retired_def authorized_def ws_request_def Let_def ws_frame)
qed (auto simp: retired_connect retired_reconnect retired_timer retired_sockets split: option.split,
    auto simp: retired_def authorized_def ws_frame dispatchAck_keeps note_activity_def socket_message_def socket_error_def)

interpretation retire: invariant_machine "ws_step opts" "retired t" "\<lambda>_. True" for opts t
  by unfold_locales (rule retired_step)

text \<open>All a socket that has been retired can still do is to become open or closed itself.\<close>

definition only_ready_changed :: "nat \<Rightarrow> ws_conn \<Rightarrow> ws_conn \<Rightarrow> bool" where
  "only_ready_changed t c c' \<longleftrightarrow>
     c' = c \<or> (\<exists>s r. jm_get t (wc_sockets c) = Some s \<and> c' = c\<lparr>wc_sockets := jm_set t (s\<lparr>so_ready := r\<rparr>) (wc_sockets c)\<rparr>)"

lemma retired_event:
  assumes "retired t c" "socket_event e = Some t"
  shows "only_ready_changed t c (ws_step opts c e)"
proof -
  from assms(1) have n: "\<not> authorized t c" "t \<noteq> wc_activeToken c" "t \<noteq> wc_pendingToken c"
    by (auto simp: retired_def authorized_def)
  then have u: "\<not> authorized t (set_ready t r c)" for r by (simp add: authorized_def ws_frame)
  have "ws_step opts c e = c \<or> (\<exists>r. ws_step opts c e = set_ready t r c)"
    using assms(2) n u
    by (cases e) (auto simp: socket_opened_def socket_message_def note_activity_def socket_error_def
        socket_closed_def ws_frame split: option.split)
  moreover have "only_ready_changed t c (set_ready t r c)" for r
    by (auto simp: only_ready_changed_def set_ready_def split: option.split)
  moreover have "only_ready_changed t c c" by (simp add: only_ready_changed_def)
  ultimately show ?thesis by metis
qed

section \<open>Requests and their acknowledgements\<close>

fun sends :: "nat \<Rightarrow> ws_output \<Rightarrow> bool" where
  "sends r (WSent r' m) \<longleftrightarrow> r' = r"
| "sends r _ \<longleftrightarrow> False"

fun settles :: "nat \<Rightarrow> ws_output \<Rightarrow> bool" where
  "settles r (WResolved r' v) \<longleftrightarrow> r' = r"
| "settles r (WRejected r') \<longleftrightarrow> r' = r"
| "settles r _ \<longleftrightarrow> False"

definition times_sent :: "nat \<Rightarrow> ws_conn \<Rightarrow> nat" where
  "times_sent r c = length (filter (sends r) (wc_trace c))"

definition times_settled :: "nat \<Rightarrow> ws_conn \<Rightarrow> nat" where
  "times_settled r c = length (filter (settles r) (wc_trace c))"

definition pending_request :: "nat \<Rightarrow> ws_conn \<Rightarrow> nat" where
  "pending_request r c = (if jm_get r (wc_acks c) = None then 0 else 1)"

definition counts_ok :: "nat \<Rightarrow> ws_conn \<Rightarrow> bool" where
  "counts_ok r c \<longleftrightarrow> times_sent r c = times_settled r c + pending_request r c \<and>
     times_sent r c \<le> (if r < wc_nextRequestId c then 1 else 0)"

text \<open>Every pending request has its own timer, and no other field holds that timer's handle.\<close>

definition other_timer :: "nat option \<Rightarrow> ws_conn \<Rightarrow> bool" where
  "other_timer f c \<longleftrightarrow> (\<forall>h. f = Some h \<longrightarrow> h < wc_timerCounter c \<and>
     (\<forall>r ms. jm_get h (wc_timers c) \<noteq> Some (TAck r, ms)))"

definition acks_timed :: "ws_conn \<Rightarrow> bool" where
  "acks_timed c \<longleftrightarrow> jm_ok (wc_acks c) \<and>
     (\<forall>r h. jm_get r (wc_acks c) = Some h \<longleftrightarrow> (\<exists>ms. jm_get h (wc_timers c) = Some (TAck r, ms))) \<and>
     (\<forall>r. jm_get r (wc_acks c) \<noteq> None \<longrightarrow> r < wc_nextRequestId c) \<and>
     (\<forall>h. jm_get h (wc_timers c) \<noteq> None \<longrightarrow> h < wc_timerCounter c) \<and>
     other_timer (wc_reconnectTimer c) c \<and> other_timer (wc_rotationTimer c) c \<and> other_timer (wc_livenessTimer c) c"

definition closed_ok :: "ws_conn \<Rightarrow> bool" where
  "closed_ok c \<longleftrightarrow> jm_get 0 (wc_sockets c) = None \<and>
     (wc_closedByUser c \<longrightarrow> wc_state c = CLOSED) \<and>
     (wc_state c = CLOSED \<longrightarrow> wc_activeToken c = 0 \<and> wc_pendingToken c = 0 \<and> wc_acks c = [])"

definition ws_inv :: "ws_conn \<Rightarrow> bool" where
  "ws_inv c \<longleftrightarrow> acks_timed c \<and> closed_ok c \<and> (\<forall>r. counts_ok r c)"

lemma acks_timed_cong:
  "wc_acks c' = wc_acks c \<Longrightarrow> wc_timers c' = wc_timers c \<Longrightarrow> wc_nextRequestId c' = wc_nextRequestId c \<Longrightarrow>
   wc_timerCounter c' = wc_timerCounter c \<Longrightarrow> wc_reconnectTimer c' = wc_reconnectTimer c \<Longrightarrow>
   wc_rotationTimer c' = wc_rotationTimer c \<Longrightarrow> wc_livenessTimer c' = wc_livenessTimer c \<Longrightarrow>
   acks_timed c' = acks_timed c"
  by (simp add: acks_timed_def other_timer_def)

lemma timed_fields:
  assumes "acks_timed c" "wc_acks c' = wc_acks c" "wc_nextRequestId c' = wc_nextRequestId c"
    and "wc_timerCounter c \<le> wc_timerCounter c'"
    and "\<And>h. jm_get h (wc_timers c') \<noteq> jm_get h (wc_timers c) \<Longrightarrow>
      (\<forall>r ms. jm_get h (wc_timers c) \<noteq> Some (TAck r, ms)) \<and> (\<forall>r ms. jm_get h (wc_timers c') \<noteq> Some (TAck r, ms)) \<and>
      h < wc_timerCounter c'"
    and "\<And>f. f \<in> {wc_reconnectTimer c', wc_rotationTimer c', wc_livenessTimer c'} \<Longrightarrow>
      f \<in> {None, wc_reconnectTimer c, wc_rotationTimer c, wc_livenessTimer c} \<or> other_timer f c'"
  shows "acks_timed c'"
proof -
  have iff: "jm_get h (wc_timers c') = Some (TAck r, ms) \<longleftrightarrow> jm_get h (wc_timers c) = Some (TAck r, ms)" for h r ms
    using assms(5) [of h] by metis
  have bound: "h < wc_timerCounter c'" if "jm_get h (wc_timers c') \<noteq> None" for h
  proof (cases "jm_get h (wc_timers c') = jm_get h (wc_timers c)")
    case True
    with that assms(1) have "h < wc_timerCounter c" by (simp add: acks_timed_def)
    with assms(4) show ?thesis by simp
  qed (use assms(5) in blast)
  have keep: "other_timer f c \<Longrightarrow> other_timer f c'" for f
    using assms(4) by (auto simp: other_timer_def iff)
  have none: "other_timer None c'" by (simp add: other_timer_def)
  have "other_timer f c'" if "f \<in> {wc_reconnectTimer c', wc_rotationTimer c', wc_livenessTimer c'}" for f
    using assms(6) [OF that] keep none assms(1) by (auto simp: acks_timed_def)
  then show ?thesis
    using assms(1-3) iff bound by (auto simp: acks_timed_def)
qed

lemma timed_facts:
  assumes "acks_timed c"
  shows "jm_ok (wc_acks c)" "jm_get (wc_timerCounter c) (wc_timers c) = None"
    "f \<in> {wc_reconnectTimer c, wc_rotationTimer c, wc_livenessTimer c} \<Longrightarrow> f = Some h \<Longrightarrow>
       h < wc_timerCounter c \<and> (\<forall>r ms. jm_get h (wc_timers c) \<noteq> Some (TAck r, ms))"
    "jm_get (wc_nextRequestId c) (wc_acks c) = None"
proof -
  show "jm_get (wc_timerCounter c) (wc_timers c) = None" "jm_get (wc_nextRequestId c) (wc_acks c) = None"
    using assms unfolding acks_timed_def by blast+
qed (use assms in \<open>auto simp: acks_timed_def other_timer_def\<close>)

lemma timed_put: "acks_timed (put x c) = acks_timed c"
  by (rule acks_timed_cong) (simp_all add: ws_frame)

lemma timed_transition: "acks_timed (transition s c) = acks_timed c"
  by (rule acks_timed_cong) (simp_all add: ws_frame)

lemma timed_retireSocket: "acks_timed (retireSocket s c) = acks_timed c"
  by (rule acks_timed_cong) (simp_all add: ws_frame)

lemma timed_set_ready: "acks_timed (set_ready t r c) = acks_timed c"
  by (rule acks_timed_cong) (simp_all add: ws_frame)

lemma timed_openPrimary: "acks_timed (openPrimarySocket reason url c) = acks_timed c"
  by (rule acks_timed_cong) (simp_all add: ws_frame)

lemma timed_rotate: "acks_timed (rotate url c) = acks_timed c"
  by (rule acks_timed_cong) (simp_all add: ws_frame)

lemma timed_rotationTimer: "acks_timed c \<Longrightarrow> acks_timed (startRotationTimer opts c)"
  by (rule timed_fields [of c]) (use timed_facts(2) [of c] in \<open>auto simp: ws_frame other_timer_def split: if_splits\<close>)

lemma timed_livenessTimer: "acks_timed c \<Longrightarrow> acks_timed (startLivenessTimer opts c)"
  by (rule timed_fields [of c]) (use timed_facts(2) [of c] in \<open>auto simp: ws_frame other_timer_def split: if_splits\<close>)

lemma timed_clearTimers: "acks_timed c \<Longrightarrow> acks_timed (clearTimers c)"
  by (rule timed_fields [of c]) (use timed_facts(3) [of c] in \<open>auto simp: ws_frame clearTimers_def split: if_splits\<close>)

lemma timed_reconnectTimer:
  "acks_timed c \<Longrightarrow> acks_timed (start_timer TReconnect ms (c\<lparr>wc_reconnectTimer := Some (wc_timerCounter c)\<rparr>))"
  by (rule timed_fields [of c])
    (use timed_facts(2) [of c] in \<open>auto simp: ws_frame other_timer_def jm.get_put split: if_splits\<close>)

lemma timed_update:
  "acks_timed (c\<lparr>wc_activeSocket := a\<rparr>) = acks_timed c" "acks_timed (c\<lparr>wc_pendingSocket := a\<rparr>) = acks_timed c"
  "acks_timed (c\<lparr>wc_activeToken := n\<rparr>) = acks_timed c" "acks_timed (c\<lparr>wc_pendingToken := n\<rparr>) = acks_timed c"
  "acks_timed (c\<lparr>wc_reconnectAttempt := n\<rparr>) = acks_timed c" "acks_timed (c\<lparr>wc_lastActivity := i\<rparr>) = acks_timed c"
  "acks_timed (c\<lparr>wc_closedByUser := b\<rparr>) = acks_timed c"
  by (rule acks_timed_cong; simp)+

lemmas timed_ops = timed_put timed_transition timed_retireSocket timed_set_ready timed_openPrimary timed_rotate
  timed_rotationTimer timed_livenessTimer timed_clearTimers timed_reconnectTimer timed_update

lemma timed_schedule: "acks_timed c \<Longrightarrow> acks_timed (scheduleReconnect opts c)"
  by (simp add: scheduleReconnect_def Let_def timed_ops)

lemma timed_failAllAcks:
  assumes "acks_timed c"
  shows "acks_timed (failAllAcks c)"
proof -
  have gone: "h \<in> snd ` set (wc_acks c)" if "jm_get h (wc_timers c) = Some (TAck r, ms)" for h r ms
  proof -
    from that assms have "jm_get r (wc_acks c) = Some h" by (auto simp: acks_timed_def)
    then have "(r, h) \<in> set (wc_acks c)" by (simp add: jm_get_def map_of_SomeD)
    then show ?thesis by force
  qed
  have "\<not> (\<exists>ms. jm_get h (wc_timers (failAllAcks c)) = Some (TAck r, ms))" for h r
    using gone [of h r] by (auto simp: ws_frame)
  moreover have "jm_get h (wc_timers (failAllAcks c)) \<noteq> None \<Longrightarrow> h < wc_timerCounter c" for h
    using assms by (auto simp: ws_frame acks_timed_def split: if_splits)
  ultimately show ?thesis
    using assms by (simp add: acks_timed_def other_timer_def failAllAcks_sel(8,9,11,12,13,14) jm_ok_def jm_get_def)
qed

lemma timed_settle:
  assumes "acks_timed c" "jm_get r (wc_acks c) = Some h"
  shows "acks_timed (stop_timer (Some h) (c\<lparr>wc_acks := jm_del r (wc_acks c)\<rparr>))"
proof -
  let ?c = "stop_timer (Some h) (c\<lparr>wc_acks := jm_del r (wc_acks c)\<rparr>)"
  have iff: "jm_get r' (wc_acks c) = Some h' \<longleftrightarrow> (\<exists>ms. jm_get h' (wc_timers c) = Some (TAck r', ms))" for r' h'
    using assms(1) by (simp add: acks_timed_def)
  have "jm_get r' (wc_acks ?c) = Some h' \<longleftrightarrow> (\<exists>ms. jm_get h' (wc_timers ?c) = Some (TAck r', ms))" for r' h'
    using iff [of r' h'] iff [of r' h] assms(2) iff [of r h] by (auto simp: ws_frame jm.get_del)
  moreover have "jm_ok (wc_acks ?c)"
    using assms(1) by (simp add: ws_frame acks_timed_def jm.ok_del)
  moreover have "jm_get r' (wc_acks ?c) \<noteq> None \<Longrightarrow> r' < wc_nextRequestId ?c" for r'
    using assms(1) by (auto simp: ws_frame acks_timed_def jm.get_del split: if_splits)
  moreover have "jm_get h' (wc_timers ?c) \<noteq> None \<Longrightarrow> h' < wc_timerCounter ?c" for h'
    using assms(1) by (auto simp: ws_frame acks_timed_def split: if_splits)
  moreover have "other_timer f c \<Longrightarrow> other_timer f ?c" for f
    by (simp add: other_timer_def ws_frame)
  ultimately show ?thesis
    using assms(1) unfolding acks_timed_def stop_timer_sel by simp
qed

lemma timed_request:
  assumes "acks_timed c" "r = wc_nextRequestId c"
  shows "acks_timed (start_timer (TAck r) ms (c\<lparr>wc_nextRequestId := Suc r, wc_acks := jm_set r (wc_timerCounter c) (wc_acks c)\<rparr>))"
    (is "acks_timed ?c")
proof -
  note free = timed_facts(2,4) [OF assms(1)]
  have iff: "jm_get r' (wc_acks c) = Some h' \<longleftrightarrow> (\<exists>ms. jm_get h' (wc_timers c) = Some (TAck r', ms))" for r' h'
    using assms(1) by (simp add: acks_timed_def)
  have "jm_get r' (wc_acks ?c) = Some h' \<longleftrightarrow> (\<exists>ms. jm_get h' (wc_timers ?c) = Some (TAck r', ms))" for r' h'
    using iff [of r' h'] free iff [of r h'] iff [of r' "wc_timerCounter c"] assms(2) by (auto simp: ws_frame jm.get_put)
  moreover have "jm_ok (wc_acks ?c)"
    using assms(1) by (simp add: ws_frame acks_timed_def jm.ok_put)
  moreover have "jm_get r' (wc_acks ?c) \<noteq> None \<Longrightarrow> r' < wc_nextRequestId ?c" for r'
    using assms by (auto simp: ws_frame acks_timed_def jm.get_put less_Suc_eq split: if_splits)
  moreover have "jm_get h' (wc_timers ?c) \<noteq> None \<Longrightarrow> h' < wc_timerCounter ?c" for h'
    using assms(1) by (auto simp: ws_frame acks_timed_def jm.get_put less_Suc_eq split: if_splits)
  moreover have "other_timer f c \<Longrightarrow> other_timer f ?c" for f
    by (auto simp: other_timer_def ws_frame jm.get_put)
  ultimately show ?thesis
    using assms(1) unfolding acks_timed_def start_timer_sel by simp
qed

lemma timed_fired:
  assumes "acks_timed c" "jm_get h (wc_timers c) = Some (k, ms)" "\<And>r. k \<noteq> TAck r"
  shows "acks_timed (c\<lparr>wc_timers := jm_del h (wc_timers c)\<rparr>)"
    "acks_timed (c\<lparr>wc_timers := jm_del h (wc_timers c), wc_reconnectTimer := None\<rparr>)"
    "acks_timed (c\<lparr>wc_timers := jm_del h (wc_timers c), wc_rotationTimer := None\<rparr>)"
  by (rule timed_fields [OF assms(1)];
      use assms(2,3) timed_facts(3) [OF assms(1)] assms(1) in \<open>auto simp: jm.get_del acks_timed_def split: if_splits\<close>)+

lemma timed_expired:
  assumes "acks_timed c" "jm_get h (wc_timers c) = Some (TAck r, ms)"
  shows "acks_timed (c\<lparr>wc_timers := jm_del h (wc_timers c), wc_acks := jm_del r (wc_acks c)\<rparr>)"
    "jm_get r (wc_acks c) = Some h"
proof -
  show "jm_get r (wc_acks c) = Some h"
    using assms by (auto simp: acks_timed_def)
  have "c\<lparr>wc_timers := jm_del h (wc_timers c), wc_acks := jm_del r (wc_acks c)\<rparr> =
      stop_timer (Some h) (c\<lparr>wc_acks := jm_del r (wc_acks c)\<rparr>)"
    by (simp add: stop_timer_def)
  with timed_settle [OF assms(1) \<open>jm_get r (wc_acks c) = Some h\<close>]
  show "acks_timed (c\<lparr>wc_timers := jm_del h (wc_timers c), wc_acks := jm_del r (wc_acks c)\<rparr>)"
    by (simp only:)
qed

lemma timed_connect: "acks_timed c \<Longrightarrow> acks_timed (ws_connect url c)"
  by (simp add: ws_connect_def timed_ops)

lemma timed_reconnect: "acks_timed c \<Longrightarrow> acks_timed (ws_reconnect url c)"
  by (simp add: ws_reconnect_def Let_def timed_ops timed_connect)

lemma timed_close: "acks_timed c \<Longrightarrow> acks_timed (ws_close c)"
  by (simp add: ws_close_def Let_def timed_ops timed_failAllAcks)

lemma timed_dispatch: "acks_timed c \<Longrightarrow> acks_timed (snd (dispatchAck v c))"
  by (auto simp: dispatchAck_def Let_def timed_put timed_settle
      split: js_value.split js_number.split option.split)

lemma timed_timer: "acks_timed c \<Longrightarrow> acks_timed (timer_fired opts h url now c)"
  by (auto simp: timer_fired_def Let_def timed_put timed_openPrimary timed_rotate timed_fired timed_expired
      intro!: timed_reconnect split: option.split timer_kind.split)

lemma timed_sockets:
  "acks_timed c \<Longrightarrow> acks_timed (socket_opened opts t p now c)"
  "acks_timed c \<Longrightarrow> acks_timed (socket_closed opts t c)"
  "acks_timed c \<Longrightarrow> acks_timed (socket_message t now text c)"
  "acks_timed c \<Longrightarrow> acks_timed (note_activity t now c)"
  "acks_timed c \<Longrightarrow> acks_timed (socket_error t c)"
  by (simp_all add: socket_opened_def socket_closed_def socket_message_def note_activity_def socket_error_def
      Let_def timed_ops timed_schedule)

lemma timed_step: "acks_timed c \<Longrightarrow> acks_timed (ws_step opts c e)"
  by (cases e)
    (auto simp: timed_connect timed_reconnect timed_close timed_dispatch timed_timer timed_sockets timed_set_ready
      timed_rotate rotateNow_def ws_request_def Let_def timed_put timed_request split: option.split)

section \<open>Closing\<close>

lemma transition_trace: "wc_trace (transition s c) = (if wc_state c = s then wc_trace c else wc_trace c @ [WState (wc_state c) s])"
  by (simp add: transition_def ws_frame)

lemma openPrimary_trace:
  "wc_trace (openPrimarySocket reason url c) =
     (if url = None then wc_trace c @ [WNoUrl]
      else if wc_state c = CONNECTING then wc_trace c else wc_trace c @ [WState (wc_state c) CONNECTING])"
  by (cases url) (simp_all add: openPrimarySocket_def createSocket_def Let_def transition_trace ws_frame)

lemma closed_connect: "closed_ok c \<Longrightarrow> closed_ok (ws_connect url c)"
  by (auto simp: closed_ok_def ws_connect_def ws_frame)

lemma closed_reconnect: "closed_ok c \<Longrightarrow> closed_ok (ws_reconnect url c)"
  by (auto simp: ws_reconnect_def Let_def closed_connect) (auto simp: closed_ok_def ws_frame)

lemma closed_schedule: "closed_ok c \<Longrightarrow> closed_ok (scheduleReconnect opts c)"
  by (auto simp: scheduleReconnect_def Let_def closed_ok_def ws_frame)

lemma closed_timer:
  assumes "closed_ok c" "acks_timed c"
  shows "closed_ok (timer_fired opts h url now c)"
proof -
  have "closed_ok (put WStale c)" using assms(1) by (simp add: closed_ok_def ws_frame)
  from closed_reconnect [OF this] assms show ?thesis
    by (auto simp: timer_fired_def Let_def split: option.split timer_kind.split)
      (auto simp: closed_ok_def ws_frame)
qed

lemma closed_dispatch: "closed_ok c \<Longrightarrow> closed_ok (snd (dispatchAck v c))"
  by (auto simp: dispatchAck_def Let_def closed_ok_def ws_frame split: js_value.split js_number.split option.split)

lemma closed_set_ready: "closed_ok (set_ready t r c) = closed_ok c"
  by (simp add: closed_ok_def ws_frame)

lemma closed_sockets:
  assumes "closed_ok c" "jm_get t (wc_sockets c) = Some s"
  shows "closed_ok (socket_opened opts t p now (set_ready t r c))"
    "closed_ok (socket_closed opts t (set_ready t r c))"
proof -
  let ?c = "set_ready t r c"
  have c: "closed_ok ?c" using assms(1) by (simp add: closed_set_ready)
  from assms have t: "t \<noteq> 0" unfolding closed_ok_def by (metis option.distinct(1))
  with c show "closed_ok (socket_opened opts t p now ?c)"
    by (auto simp: socket_opened_def authorized_def Let_def closed_ok_def ws_frame)
  have "closed_ok (put (WClose False) ?c)" using c by (simp add: closed_ok_def put_sel)
  from closed_schedule [OF this] show "closed_ok (socket_closed opts t ?c)"
    using c t by (auto simp: socket_closed_def) (auto simp: closed_ok_def ws_frame)
qed

lemma closed_step:
  assumes "closed_ok c" "acks_timed c"
  shows "closed_ok (ws_step opts c e)"
proof (cases e)
  case CallClose
  then show ?thesis
    using assms by (auto simp: closed_ok_def ws_close_def Let_def ws_frame)
next
  case (CallRotate url)
  then show ?thesis
    using assms by (auto simp: closed_ok_def rotateNow_def ws_frame)
next
  case (CallRequest m)
  then show ?thesis
    using assms by (auto simp: closed_ok_def ws_request_def isOpen_def Let_def ws_frame)
qed (use assms in \<open>auto simp: closed_connect closed_reconnect closed_timer closed_dispatch closed_set_ready
      closed_sockets split: option.split\<close>,
    auto simp: closed_ok_def ws_frame note_activity_def socket_message_def socket_error_def)

section \<open>Accounting\<close>

lemmas counts_defs = counts_ok_def times_sent_def times_settled_def pending_request_def

lemma counts_put: "\<not> sends r x \<Longrightarrow> \<not> settles r x \<Longrightarrow> counts_ok r (put x c) = counts_ok r c"
  by (simp add: counts_defs ws_frame)

lemma counts_cong:
  "wc_acks c' = wc_acks c \<Longrightarrow> wc_nextRequestId c' = wc_nextRequestId c \<Longrightarrow> wc_trace c' = wc_trace c \<Longrightarrow>
   counts_ok r c' = counts_ok r c"
  by (simp add: counts_defs)

lemma counts_frame:
  "counts_ok r (transition s c) = counts_ok r c" "counts_ok r (retireSocket t c) = counts_ok r c"
  "counts_ok r (clearTimers c) = counts_ok r c" "counts_ok r (startRotationTimer opts c) = counts_ok r c"
  "counts_ok r (startLivenessTimer opts c) = counts_ok r c" "counts_ok r (rotate url c) = counts_ok r c"
  "counts_ok r (openPrimarySocket reason url c) = counts_ok r c" "counts_ok r (start_timer k ms c) = counts_ok r c"
  "counts_ok r (stop_timer h c) = counts_ok r c"
  by (simp_all add: counts_defs ws_frame transition_trace openPrimary_trace)

lemma counts_set_ready: "counts_ok r (set_ready t x c) = counts_ok r c"
  by (simp add: counts_defs ws_frame)

lemma counts_update:
  "counts_ok r (c\<lparr>wc_activeSocket := a\<rparr>) = counts_ok r c" "counts_ok r (c\<lparr>wc_pendingSocket := a\<rparr>) = counts_ok r c"
  "counts_ok r (c\<lparr>wc_activeToken := n\<rparr>) = counts_ok r c" "counts_ok r (c\<lparr>wc_pendingToken := n\<rparr>) = counts_ok r c"
  "counts_ok r (c\<lparr>wc_reconnectAttempt := n\<rparr>) = counts_ok r c" "counts_ok r (c\<lparr>wc_lastActivity := i\<rparr>) = counts_ok r c"
  "counts_ok r (c\<lparr>wc_closedByUser := b\<rparr>) = counts_ok r c" "counts_ok r (c\<lparr>wc_timers := m\<rparr>) = counts_ok r c"
  "counts_ok r (c\<lparr>wc_reconnectTimer := f\<rparr>) = counts_ok r c" "counts_ok r (c\<lparr>wc_rotationTimer := f\<rparr>) = counts_ok r c"
  by (simp_all add: counts_defs)

lemmas counts_ops = counts_put counts_frame counts_set_ready counts_update

lemma counts_settle:
  assumes "counts_ok r c" "jm_get q (wc_acks c) = Some h" "settles q x" "\<And>r. \<not> sends r x"
    and "wc_acks c' = jm_del q (wc_acks c)" "wc_nextRequestId c' = wc_nextRequestId c" "wc_trace c' = wc_trace c"
  shows "counts_ok r (put x c')"
proof -
  have "settles r x \<longleftrightarrow> r = q"
    using assms(3,4) by (cases x) auto
  with assms show ?thesis by (simp add: counts_defs ws_frame jm.get_del split: if_splits)
qed

lemma counts_failAllAcks:
  assumes "counts_ok r c" "jm_ok (wc_acks c)"
  shows "counts_ok r (failAllAcks c)"
proof -
  have none: "filter (sends r) (map (WRejected \<circ> fst) as) = []" for as :: "(nat \<times> nat) list"
    by (induction as) auto
  have "distinct (map fst as) \<Longrightarrow>
      length (filter (settles r) (map (WRejected \<circ> fst) as)) = (if map_of as r = None then 0 else 1)"
    for as :: "(nat \<times> nat) list"
    by (induction as) (auto simp: map_of_eq_None_iff filter_map rev_image_eqI)
  from this [of "wc_acks c"] none assms show ?thesis
    by (simp add: counts_defs ws_frame jm_ok_def jm_get_def)
qed

lemma counts_reconnect: "counts_ok r (ws_connect url c) = counts_ok r c" "counts_ok r (ws_reconnect url c) = counts_ok r c"
  by (simp_all add: ws_connect_def ws_reconnect_def Let_def counts_ops)

lemma counts_sockets:
  "counts_ok r (socket_opened opts t p now c) = counts_ok r c"
  "counts_ok r (socket_closed opts t c) = counts_ok r c"
  "counts_ok r (socket_message t now text c) = counts_ok r c"
  "counts_ok r (note_activity t now c) = counts_ok r c"
  "counts_ok r (socket_error t c) = counts_ok r c"
  by (simp_all add: socket_opened_def socket_closed_def socket_message_def note_activity_def socket_error_def
      scheduleReconnect_def Let_def counts_ops)

lemma counts_close: "counts_ok r c \<Longrightarrow> acks_timed c \<Longrightarrow> counts_ok r (ws_close c)"
  by (simp add: ws_close_def Let_def counts_ops counts_failAllAcks clearTimers_sel transition_sel timed_facts)

lemma counts_dispatch: "counts_ok r c \<Longrightarrow> counts_ok r (snd (dispatchAck v c))"
  by (auto simp: dispatchAck_def Let_def stop_timer_sel intro!: counts_settle
      split: js_value.split js_number.split option.split)

lemma counts_timer: "counts_ok r c \<Longrightarrow> acks_timed c \<Longrightarrow> counts_ok r (timer_fired opts h url now c)"
  by (auto simp: timer_fired_def Let_def counts_ops counts_reconnect
      intro!: counts_settle dest: timed_expired(2) split: option.split timer_kind.split)

lemma counts_request:
  assumes "counts_ok r c" "acks_timed c"
  shows "counts_ok r (snd (ws_request opts m c))"
  using assms timed_facts(4) [OF assms(2)]
  by (auto simp: ws_request_def Let_def counts_defs ws_frame jm.get_put less_Suc_eq split: if_splits)

lemma counts_step: "counts_ok r c \<Longrightarrow> acks_timed c \<Longrightarrow> counts_ok r (ws_step opts c e)"
  by (cases e) (auto simp: counts_reconnect counts_sockets counts_set_ready counts_close counts_dispatch counts_timer
      counts_request rotateNow_def counts_frame split: option.split)

lemma ws_inv_step: "ws_inv c \<Longrightarrow> ws_inv (ws_step opts c e)"
  by (simp add: ws_inv_def timed_step closed_step counts_step)

lemma ws_inv_new: "ws_inv new_WsConnection"
  by (simp add: ws_inv_def acks_timed_def closed_ok_def counts_defs other_timer_def new_WsConnection_def jm_ok_def jm_get_def)

interpretation wsm: invariant_machine "ws_step opts" ws_inv "\<lambda>_. True" for opts
  by unfold_locales (rule ws_inv_step)

lemma ws_reach: "ws_inv (foldl (ws_step opts) new_WsConnection evs)"
  by (rule wsm.run_inv [OF ws_inv_new]) (simp add: list_all_iff)

fun reopens :: "ws_event \<Rightarrow> bool" where
  "reopens (CallConnect url) = True"
| "reopens (CallReconnect url) = True"
| "reopens _ = False"

definition shut :: "ws_output list \<Rightarrow> nat \<Rightarrow> ws_conn \<Rightarrow> bool" where
  "shut tr n c \<longleftrightarrow> ws_inv c \<and> wc_state c = CLOSED \<and> wc_trace c = tr \<and> wc_tokenCounter c = n"

lemma shut_facts:
  assumes "shut tr n c"
  shows "wc_activeToken c = 0" "wc_pendingToken c = 0" "wc_acks c = []" "jm_get 0 (wc_sockets c) = None"
    "jm_get h (wc_timers c) \<noteq> Some (TAck r, ms)"
proof -
  from assms show "wc_activeToken c = 0" "wc_pendingToken c = 0" "wc_acks c = []" "jm_get 0 (wc_sockets c) = None"
    by (simp_all add: shut_def ws_inv_def closed_ok_def)
  with assms have "jm_get r (wc_acks c) \<noteq> Some h" by (simp add: jm_get_def)
  with assms show "jm_get h (wc_timers c) \<noteq> Some (TAck r, ms)"
    by (auto simp: shut_def ws_inv_def acks_timed_def)
qed

lemma shut_step:
  assumes "shut tr n c" "\<not> reopens e"
  shows "shut tr n (ws_step opts c e)"
proof -
  note f = shut_facts [OF assms(1)]
  have c: "wc_state c = CLOSED" "wc_trace c = tr" "wc_tokenCounter c = n" using assms(1) by (simp_all add: shut_def)
  let ?ok = "\<lambda>c'. wc_state c' = CLOSED \<and> wc_trace c' = tr \<and> wc_tokenCounter c' = n"
  have sock: "t \<noteq> 0" if "jm_get t (wc_sockets c) = Some s" for t s using that f(4) by (metis option.distinct(1))
  have "?ok (ws_step opts c e)"
  proof (cases e)
    case (TimerFired h url now)
    with c f(5) [of h] show ?thesis
      by (auto simp: timer_fired_def Let_def split: option.split timer_kind.split)
  next
    case (AckFrame v)
    with c f(3) show ?thesis
      by (auto simp: dispatchAck_def jm_get_def split: js_value.split js_number.split)
  qed (use assms(2) c f sock in \<open>auto simp: ws_close_def rotateNow_def ws_request_def isOpen_def socket_opened_def
      socket_closed_def socket_message_def note_activity_def socket_error_def authorized_def ws_frame split: option.split\<close>)
  with assms(1) ws_inv_step show ?thesis by (simp add: shut_def)
qed

interpretation shutm: invariant_machine "ws_step opts" "shut tr n" "\<lambda>e. \<not> reopens e" for opts tr n
  by unfold_locales (rule shut_step)

lemma ws_close_closed: "wc_state (ws_close c) = CLOSED"
  by (simp add: ws_close_def Let_def ws_frame)

section \<open>Properties\<close>

text \<open>C14: A socket is heard only while it is the active one or the replacement being opened: once its
  token has lost that, no sequence of calls, frames and timers gives it back, and every later event of
  that socket changes at most the ready state of that socket: no other socket, no connection state, no
  timer, no emitted event, no reconnect.\<close>

theorem retired_socket_silent:
  assumes "0 < t" "t \<le> wc_tokenCounter c" "\<not> authorized t c" "socket_event e = Some t"
  shows "let c' = foldl (ws_step opts) c evs in \<not> authorized t c' \<and>
    (ws_step opts c' e = c' \<or>
     (\<exists>s r. jm_get t (wc_sockets c') = Some s \<and>
        ws_step opts c' e = c'\<lparr>wc_sockets := jm_set t (s\<lparr>so_ready := r\<rparr>) (wc_sockets c')\<rparr>))"
proof -
  have "retired t (foldl (ws_step opts) c evs)"
    by (rule retire.run_inv) (use assms in \<open>simp_all add: retired_def list_all_iff\<close>)
  from retired_event [OF this assms(4), of opts] this show ?thesis by (simp add: retired_def only_ready_changed_def Let_def)
qed

text \<open>C15: Whatever happens to a connection, a control request is sent at most once and is settled at most
  once, by an acknowledgement, its timeout or the close; it stays in the pending table exactly until
  then, and while it does its timeout timer is armed.\<close>

theorem request_settles_once:
  "let c = foldl (ws_step opts) new_WsConnection evs in
     times_sent r c = times_settled r c + pending_request r c \<and> times_sent r c \<le> 1 \<and>
     (case jm_get r (wc_acks c) of None \<Rightarrow> True
      | Some h \<Rightarrow> \<exists>ms. jm_get h (wc_timers c) = Some (TAck r, ms))"
proof -
  let ?c = "foldl (ws_step opts) new_WsConnection evs"
  have "ws_inv ?c" by (rule ws_reach)
  then have "counts_ok r ?c" "acks_timed ?c" by (simp_all add: ws_inv_def)
  then show ?thesis
    by (auto simp: Let_def counts_ok_def acks_timed_def split: option.split if_splits)
qed

text \<open>C16: Closing is final: after \<open>close()\<close> in any state a connection can reach, nothing but a new
  \<open>connect()\<close> or \<open>reconnect()\<close> call changes its state, emits anything, opens a socket or leaves a request
  pending; late socket events, acknowledgements and left-over timers are all without effect.\<close>

theorem closed_is_final:
  assumes "\<And>e. e \<in> set evs2 \<Longrightarrow> \<not> reopens e"
  shows "let c = ws_close (foldl (ws_step opts) new_WsConnection evs); c' = foldl (ws_step opts) c evs2 in
     wc_state c' = CLOSED \<and> wc_trace c' = wc_trace c \<and> wc_tokenCounter c' = wc_tokenCounter c \<and> wc_acks c' = []"
proof -
  let ?c = "ws_close (foldl (ws_step opts) new_WsConnection evs)"
  have "ws_inv ?c" using ws_inv_step [OF ws_reach [of opts evs], of opts CallClose] by simp
  then have "shut (wc_trace ?c) (wc_tokenCounter ?c) ?c" by (simp add: shut_def ws_close_closed)
  then have s: "shut (wc_trace ?c) (wc_tokenCounter ?c) (foldl (ws_step opts) ?c evs2)"
    by (rule shutm.run_inv) (use assms in \<open>simp add: list_all_iff\<close>)
  from s shut_facts(3) [OF s] show ?thesis by (simp add: shut_def Let_def)
qed

lemma close_keeps_timer:
  assumes "wc_state c \<noteq> CLOSED" "h \<notin> snd ` set (wc_acks c)"
    "Some h \<notin> {wc_reconnectTimer c, wc_rotationTimer c, wc_livenessTimer c}"
  shows "jm_get h (wc_timers (ws_close c)) = jm_get h (wc_timers c)"
  using assms by (auto simp: ws_close_def Let_def ws_frame)

lemma other_timer_not_ack:
  assumes "acks_timed c" "jm_get h (wc_timers c) = Some (k, ms)" "\<And>r. k \<noteq> TAck r"
  shows "h \<notin> snd ` set (wc_acks c)" "h < wc_timerCounter c"
  using assms by (auto simp: acks_timed_def dest: jm_get_in)

text \<open>A rotation that succeeds starts a liveness interval (and a rotation timer) without clearing the
  one the replaced socket had: the old interval's handle is overwritten, so it keeps firing for the
  process's life, and even \<open>close()\<close>, documented to clean up every timer, leaves it running.\<close>

theorem rotation_leaks_timer:
  assumes c: "c = foldl (ws_step opts) new_WsConnection evs"
    and live: "wc_livenessTimer c = Some h" "jm_get h (wc_timers c) = Some (TLiveness, ms)"
    and other: "wc_reconnectTimer c \<noteq> Some h" "wc_rotationTimer c \<noteq> Some h"
    and sock: "jm_get t (wc_sockets c) = Some s" "so_attached s" "so_ready s = ReadyConnecting"
      "so_purpose s = ForRotation" "t = wc_pendingToken c"
    and stale: "0 < wo_stale opts"
  shows "let c1 = ws_step opts c (SockOpen t now) in
    wc_state c1 = OPEN \<and> wc_livenessTimer c1 \<noteq> Some h \<and>
    jm_get h (wc_timers c1) = Some (TLiveness, ms) \<and>
    wc_state (ws_close c1) = CLOSED \<and> jm_get h (wc_timers (ws_close c1)) = Some (TLiveness, ms)"
proof -
  let ?c1 = "ws_step opts c (SockOpen t now)"
  have inv: "acks_timed c" using ws_reach [of opts evs] c by (simp add: ws_inv_def)
  note fresh = other_timer_not_ack [OF inv live(2)]
  have c1: "wc_state ?c1 = OPEN" "wc_acks ?c1 = wc_acks c" "wc_reconnectTimer ?c1 = wc_reconnectTimer c"
    "jm_get h (wc_timers ?c1) = Some (TLiveness, ms)"
    "wc_livenessTimer ?c1 \<noteq> Some h" "wc_rotationTimer ?c1 \<noteq> Some h"
    using sock stale live other fresh(2)
    by (auto simp: socket_opened_def authorized_def Let_def ws_frame)
  with close_keeps_timer [of ?c1 h] fresh(1) other show ?thesis
    by (simp add: Let_def ws_close_closed)
qed

lemma scheduleReconnect_active:
  assumes "wc_state c \<noteq> CLOSED" "\<not> wc_closedByUser c" "wc_reconnectTimer c = None"
  shows "wc_state (scheduleReconnect opts c) = RECONNECTING"
    "wc_reconnectTimer (scheduleReconnect opts c) = Some (wc_timerCounter c)"
    "wc_timerCounter (scheduleReconnect opts c) = Suc (wc_timerCounter c)"
    "\<exists>d. jm_get (wc_timerCounter c) (wc_timers (scheduleReconnect opts c)) = Some (TReconnect, d)"
  using assms by (simp_all add: scheduleReconnect_def Let_def ws_frame jm.get_put)

lemma set_ready_other: "t \<noteq> u \<Longrightarrow> jm_get u (wc_sockets (set_ready t r c)) = jm_get u (wc_sockets c)"
  by (simp add: set_ready_def jm.get_put split: option.split)

lemma set_ready_same:
  "jm_get t (wc_sockets c) = Some s \<Longrightarrow> jm_get t (wc_sockets (set_ready t r c)) = Some (s\<lparr>so_ready := r\<rparr>)"
  by (simp add: set_ready_def jm.get_put)

lemma retireSocket_other: "t \<noteq> u \<Longrightarrow> jm_get u (wc_sockets (retireSocket (Some t) c)) = jm_get u (wc_sockets c)"
  by (simp add: retireSocket_def jm.get_put split: option.split)

lemma retireSocket_None: "retireSocket None c = c"
  by (simp add: retireSocket_def)

text \<open>If the active socket drops while its replacement is being opened, the reconnect scheduled for the
  drop is not cancelled when the replacement opens: the connection is OPEN and carrying traffic, and
  when the timer fires a second socket replaces it. The healthy one is never retired: it stays open
  with its listeners attached, ignored, and \<open>close()\<close> does not close it either.\<close>

theorem rotation_reconnect_race:
  assumes st: "wc_state c = OPEN" "\<not> wc_closedByUser c" "wc_reconnectTimer c = None"
    and tok: "wc_activeToken c = a" "wc_activeSocket c = Some a" "wc_pendingToken c = p" "a \<noteq> p" "0 < p" "p \<le> wc_tokenCounter c"
    and sa: "jm_get a (wc_sockets c) = Some sa" "so_attached sa" "so_ready sa = ReadyOpen"
    and sp: "jm_get p (wc_sockets c) = Some sp" "so_attached sp" "so_ready sp = ReadyConnecting"
      "so_purpose sp = ForRotation"
  shows "\<exists>h. let c1 = ws_step opts c (SockClose a); c2 = ws_step opts c1 (SockOpen p now);
        c3 = ws_step opts c2 (TimerFired h (Some url) later) in
      wc_reconnectTimer c2 = Some h \<and> isOpen c2 \<and> wc_activeSocket c2 = Some p \<and>
      wc_state c3 = CONNECTING \<and> \<not> authorized p c3 \<and>
      jm_get p (wc_sockets (ws_close c3)) = Some (sp\<lparr>so_ready := ReadyOpen\<rparr>)"
proof -
  let ?h = "wc_timerCounter c"
  define c1 where "c1 = ws_step opts c (SockClose a)"
  define c2 where "c2 = ws_step opts c1 (SockOpen p now)"
  define c3 where "c3 = ws_step opts c2 (TimerFired ?h (Some url) later)"
  let ?x = "put (WClose False) (set_ready a ReadyClosed c)"
  have "c1 = scheduleReconnect opts ?x"
    using sa st tok by (simp add: c1_def socket_closed_def ws_frame)
  then have 1: "wc_state c1 = RECONNECTING" "wc_reconnectTimer c1 = Some ?h" "\<not> wc_closedByUser c1"
    "wc_timerCounter c1 = Suc ?h" "\<exists>d. jm_get ?h (wc_timers c1) = Some (TReconnect, d)"
    "wc_activeSocket c1 = Some a" "wc_pendingToken c1 = p" "jm_get p (wc_sockets c1) = Some sp"
    "wc_tokenCounter c1 = wc_tokenCounter c"
    using scheduleReconnect_active [of ?x opts] st tok sp by (simp_all add: ws_frame set_ready_other)
  have 2: "wc_state c2 = OPEN" "wc_reconnectTimer c2 = Some ?h" "\<not> wc_closedByUser c2"
    "\<exists>d. jm_get ?h (wc_timers c2) = Some (TReconnect, d)" "wc_activeSocket c2 = Some p" "wc_pendingSocket c2 = None"
    "jm_get p (wc_sockets c2) = Some (sp\<lparr>so_ready := ReadyOpen\<rparr>)" "wc_tokenCounter c2 = wc_tokenCounter c"
    using 1 sp tok(4)
    by (auto simp: c2_def socket_opened_def authorized_def Let_def ws_frame retireSocket_other set_ready_same)
  have 3: "wc_state c3 = CONNECTING" "wc_activeToken c3 = Suc (wc_tokenCounter c)" "wc_pendingToken c3 = 0"
    "wc_activeSocket c3 = Some (Suc (wc_tokenCounter c))" "wc_pendingSocket c3 = None"
    "jm_get p (wc_sockets c3) = Some (sp\<lparr>so_ready := ReadyOpen\<rparr>)"
    using 2 tok(6) by (auto simp: c3_def timer_fired_def Let_def ws_frame)
  have "jm_get p (wc_sockets (ws_close c3)) = jm_get p (wc_sockets c3)"
    using 3 tok(6) by (simp add: ws_close_def Let_def ws_frame retireSocket_other retireSocket_None)
  moreover have "isOpen c2" using 2 by (simp add: isOpen_def socket_open_def)
  ultimately show ?thesis
    unfolding Let_def
    by (intro exI [of _ ?h], fold c1_def, fold c2_def, fold c3_def) (use 2 3 tok(5,6) in \<open>simp add: authorized_def\<close>)
qed

section \<open>Witnesses\<close>

definition wit_opts :: ws_options where
  "wit_opts = \<lparr>wo_reconnectDelay = 1000, wo_maxReconnectDelay = 30000, wo_rotation = 82800000, wo_stale = 60000,
     wo_requestTimeout = 10000, wo_computeDelay = None\<rparr>"

definition wit_rotating :: "ws_event list" where
  "wit_rotating = [CallConnect (Some ''wss''), SockOpen 1 10, CallRotate (Some ''wss'')]"

lemma wit_rotating_state:
  "foldl (ws_step wit_opts) new_WsConnection wit_rotating =
   \<lparr>wc_state = OPEN, wc_activeSocket = Some 1, wc_pendingSocket = Some 2, wc_tokenCounter = 2,
    wc_activeToken = 1, wc_pendingToken = 2, wc_reconnectAttempt = 0, wc_reconnectTimer = None,
    wc_rotationTimer = Some 0, wc_livenessTimer = Some 1, wc_lastActivity = 10, wc_closedByUser = False,
    wc_acks = [], wc_nextRequestId = 1,
    wc_sockets = [(1, \<lparr>so_ready = ReadyOpen, so_attached = True, so_purpose = ForConnect\<rparr>),
                  (2, \<lparr>so_ready = ReadyConnecting, so_attached = True, so_purpose = ForRotation\<rparr>)],
    wc_timers = [(0, (TRotation, 82800000)), (1, (TLiveness, 30000))], wc_timerCounter = 2,
    wc_trace = [WState IDLE CONNECTING, WState CONNECTING OPEN, WOpen]\<rparr>"
  by code_simp

definition wit_reopened :: ws_conn where
  "wit_reopened = ws_step wit_opts (ws_close (foldl (ws_step wit_opts) new_WsConnection wit_rotating)) (CallConnect (Some ''wss''))"

theorem retired_socket_silent_witness:
  "\<not> authorized 1 wit_reopened \<and>
   (ws_step wit_opts wit_reopened (SockClose 1) = wit_reopened \<or>
    (\<exists>s r. jm_get 1 (wc_sockets wit_reopened) = Some s \<and>
       ws_step wit_opts wit_reopened (SockClose 1) =
         wit_reopened\<lparr>wc_sockets := jm_set 1 (s\<lparr>so_ready := r\<rparr>) (wc_sockets wit_reopened)\<rparr>))"
proof -
  have "1 \<le> wc_tokenCounter (ws_close (foldl (ws_step wit_opts) new_WsConnection wit_rotating)) \<and>
    \<not> authorized 1 (ws_close (foldl (ws_step wit_opts) new_WsConnection wit_rotating))"
    by code_simp
  then show ?thesis
    using retired_socket_silent [of 1 "ws_close (foldl (ws_step wit_opts) new_WsConnection wit_rotating)" "SockClose 1"
        wit_opts "[CallConnect (Some ''wss'')]"]
    by (simp add: wit_reopened_def Let_def)
qed

theorem closed_is_final_witness:
  "wc_state (foldl (ws_step wit_opts) (ws_close (foldl (ws_step wit_opts) new_WsConnection wit_rotating)) [SockOpen 2 20, SockClose 1]) = CLOSED"
proof -
  have "\<not> reopens e" if "e \<in> set [SockOpen 2 20, SockClose 1]" for e using that by auto
  from closed_is_final [of "[SockOpen 2 20, SockClose 1]" wit_opts wit_rotating, OF this]
  show ?thesis unfolding Let_def by blast
qed

theorem rotation_leaks_timer_witness:
  "jm_get 1 (wc_timers (ws_close (ws_step wit_opts (foldl (ws_step wit_opts) new_WsConnection wit_rotating) (SockOpen 2 20))))
     = Some (TLiveness, 30000)"
proof -
  let ?c = "foldl (ws_step wit_opts) new_WsConnection wit_rotating"
  have "let c1 = ws_step wit_opts ?c (SockOpen 2 20) in
    wc_state c1 = OPEN \<and> wc_livenessTimer c1 \<noteq> Some 1 \<and> jm_get 1 (wc_timers c1) = Some (TLiveness, 30000) \<and>
    wc_state (ws_close c1) = CLOSED \<and> jm_get 1 (wc_timers (ws_close c1)) = Some (TLiveness, 30000)"
    by (rule rotation_leaks_timer [OF refl, where s = "\<lparr>so_ready = ReadyConnecting, so_attached = True, so_purpose = ForRotation\<rparr>"])
      (simp_all add: wit_rotating_state jm_get_def, simp add: wit_opts_def)
  then show ?thesis by (simp add: Let_def)
qed

theorem rotation_reconnect_race_witness:
  "\<exists>h. wc_state (ws_step wit_opts (ws_step wit_opts (ws_step wit_opts (foldl (ws_step wit_opts) new_WsConnection wit_rotating)
       (SockClose 1)) (SockOpen 2 20)) (TimerFired h (Some ''wss'') 1020)) = CONNECTING"
proof -
  let ?c = "foldl (ws_step wit_opts) new_WsConnection wit_rotating"
  have "\<exists>h. let c1 = ws_step wit_opts ?c (SockClose 1); c2 = ws_step wit_opts c1 (SockOpen 2 20);
        c3 = ws_step wit_opts c2 (TimerFired h (Some ''wss'') 1020) in
      wc_reconnectTimer c2 = Some h \<and> isOpen c2 \<and> wc_activeSocket c2 = Some 2 \<and>
      wc_state c3 = CONNECTING \<and> \<not> authorized 2 c3 \<and>
      jm_get 2 (wc_sockets (ws_close c3)) =
        Some (\<lparr>so_ready = ReadyConnecting, so_attached = True, so_purpose = ForRotation\<rparr>\<lparr>so_ready := ReadyOpen\<rparr>)"
    by (rule rotation_reconnect_race [where sa = "\<lparr>so_ready = ReadyOpen, so_attached = True, so_purpose = ForConnect\<rparr>"])
      (simp_all add: wit_rotating_state jm_get_def)
  then show ?thesis by (auto simp: Let_def)
qed

end
