(* ===== verification/Ws_Streams.thy ===== *)
theory Ws_Streams
  imports JS_Value
begin

text \<open>
  The combined-stream socket, \<open>src/ws/BaseWS.ts\<close>, and the stream routing of
  \<open>src/ws/FuturesMarketWS.ts\<close>: the desired and the confirmed stream sets, the confirmation waiters,
  and the resynchronisation after every open. A request on the socket is logged when it is sent and
  its reply is an event; a request on a socket that is not open is rejected, which is its reply. Calls
  carry a number, and their promise's outcome is logged under it. Whether the socket is open comes
  with the event, from \<open>Ws_Connection\<close>.
  The exchange's side is a parameter, with what the code relies on of it as a hypothesis.
  Lemmas: what a resynchronisation leaves at the exchange, what is settled, the sets.
\<close>

section \<open>Insertion-ordered sets\<close>

definition sadd :: "'a \<Rightarrow> 'a list \<Rightarrow> 'a list" where
  "sadd x xs = (if x \<in> set xs then xs else xs @ [x])"

definition sadds :: "'a list \<Rightarrow> 'a list \<Rightarrow> 'a list" where
  "sadds ys xs = foldl (\<lambda>xs y. sadd y xs) xs ys"

definition sdel :: "'a \<Rightarrow> 'a list \<Rightarrow> 'a list" where
  "sdel x xs = removeAll x xs"

definition sdels :: "'a list \<Rightarrow> 'a list \<Rightarrow> 'a list" where
  "sdels ys xs = filter (\<lambda>x. x \<notin> set ys) xs"

lemma set_sadd [simp]: "set (sadd x xs) = insert x (set xs)"
  by (auto simp: sadd_def)

lemma distinct_sadd [simp]: "distinct (sadd x xs) = distinct xs"
  by (simp add: sadd_def)

lemma set_sadds [simp]: "set (sadds ys xs) = set ys \<union> set xs"
  unfolding sadds_def by (induction ys arbitrary: xs) auto

lemma distinct_sadds [simp]: "distinct (sadds ys xs) = distinct xs"
  unfolding sadds_def by (induction ys arbitrary: xs) auto

lemma set_sdels [simp]: "set (sdels ys xs) = set xs - set ys"
  by (auto simp: sdels_def)

lemma sadds_single: "sadds [x] xs = sadd x xs"
  by (simp add: sadds_def)

section \<open>Routing of futures streams\<close>

datatype stream_route = Public | Market

definition ends_with :: "string \<Rightarrow> string \<Rightarrow> bool" where
  "ends_with s suf \<longleftrightarrow> starts_with (rev s) (rev suf)"

definition book_ticker :: "string \<Rightarrow> bool" where
  "book_ticker s \<longleftrightarrow> s = ''bookTicker'' \<or> ends_with s ''@bookTicker'' \<or> ends_with s ''!bookTicker''"

definition speed_suffix :: "string \<Rightarrow> bool" where
  "speed_suffix r \<longleftrightarrow> r = [] \<or>
     (hd r = CHR ''@'' \<and> takeWhile is_digit (tl r) \<noteq> [] \<and> dropWhile is_digit (tl r) = ''ms'')"

fun depth_from :: "string \<Rightarrow> bool" where
  "depth_from s \<longleftrightarrow>
     (starts_with s ''@depth'' \<and> speed_suffix (dropWhile is_digit (drop 6 s))) \<or>
     (starts_with s ''@rpiDepth'' \<and> speed_suffix (drop 9 s))"

fun depth_stream :: "string \<Rightarrow> bool" where
  "depth_stream [] = False"
| "depth_stream (c # cs) \<longleftrightarrow> depth_from (c # cs) \<or> depth_stream cs"

definition futuresStreamRoute :: "string \<Rightarrow> stream_route" where
  "futuresStreamRoute s = (if book_ticker s then Public else if depth_stream s then Public else Market)"

fun url_names :: "string \<Rightarrow> string \<Rightarrow> bool" where
  "url_names seg [] = False"
| "url_names seg (c # cs) \<longleftrightarrow>
     (starts_with (c # cs) seg \<and> (drop (length seg) (c # cs) = [] \<or> hd (drop (length seg) (c # cs)) = CHR ''/'')) \<or>
     url_names seg cs"

definition routeOfUrl :: "string \<Rightarrow> stream_route option" where
  "routeOfUrl url = (if url_names ''/public'' url then Some Public
     else if url_names ''/market'' url then Some Market else None)"

section \<open>State\<close>

datatype resync_phase =
    Listing
  | Subscribing "string list" "string list" "string list"
  | Unsubscribing "string list" "string list"

datatype base_output =
    BwConnect string
  | BwSent string "string list"
  | BwResolved nat
  | BwRejected nat
  | BwResynced nat nat

record base_ws =
  bw_baseStreamUrl :: string
  bw_desired :: "string list"
  bw_confirmed :: "string list"
  bw_resyncPromise :: "resync_phase option"
  bw_confirmationWaiters :: "(nat \<times> string list) list"
  bw_calls :: "(nat, string list) jsmap"
  bw_log :: "base_output list"

definition new_BaseWS :: "string \<Rightarrow> string list \<Rightarrow> base_ws" where
  "new_BaseWS url streams =
     \<lparr>bw_baseStreamUrl = url, bw_desired = sadds streams [], bw_confirmed = [], bw_resyncPromise = None,
      bw_confirmationWaiters = [], bw_calls = [], bw_log = []\<rparr>"

definition say :: "base_output list \<Rightarrow> base_ws \<Rightarrow> base_ws" where
  "say xs b = b\<lparr>bw_log := bw_log b @ xs\<rparr>"

definition bw_send :: "bool \<Rightarrow> string \<Rightarrow> string list \<Rightarrow> base_ws \<Rightarrow> base_ws" where
  "bw_send opened method streams b = (if opened then say [BwSent method streams] b else b)"

definition buildStreamUrl :: "base_ws \<Rightarrow> string" where
  "buildStreamUrl b = (if bw_desired b = [] then bw_baseStreamUrl b
     else bw_baseStreamUrl b @ ''?streams='' @ join_with ''/'' (bw_desired b))"

section \<open>Subscribing\<close>

definition satisfied :: "base_ws \<Rightarrow> nat \<times> string list \<Rightarrow> bool" where
  "satisfied b w = list_all (\<lambda>s. s \<in> set (bw_confirmed b) \<or> s \<notin> set (bw_desired b)) (snd w)"

definition settleConfirmationWaiters :: "base_ws \<Rightarrow> base_ws" where
  "settleConfirmationWaiters b =
     say (map (BwResolved \<circ> fst) (filter (satisfied b) (bw_confirmationWaiters b)))
       (b\<lparr>bw_confirmationWaiters := filter (\<lambda>w. \<not> satisfied b w) (bw_confirmationWaiters b)\<rparr>)"

definition subscribeConfirmed :: "nat \<Rightarrow> string list \<Rightarrow> bool \<Rightarrow> bool \<Rightarrow> base_ws \<Rightarrow> base_ws" where
  "subscribeConfirmed cid streams idle opened b =
     (if streams = [] then say [BwResolved cid] b
      else
        let wanted = filter (\<lambda>s. s \<notin> set (bw_desired b)) streams;
            b1 = b\<lparr>bw_desired := sadds streams (bw_desired b)\<rparr>;
            b2 = (if idle then say [BwConnect (buildStreamUrl b1)] b1 else b1)
        in if opened
           then let pending = filter (\<lambda>s. s \<notin> set (bw_confirmed b2)) wanted
                in if pending \<noteq> []
                   then bw_send True ''SUBSCRIBE'' pending (b2\<lparr>bw_calls := jm_set cid pending (bw_calls b2)\<rparr>)
                   else say [BwResolved cid] (settleConfirmationWaiters b2)
           else b2\<lparr>bw_confirmationWaiters := bw_confirmationWaiters b2 @ [(cid, streams)]\<rparr>)"

definition sendSubscribe_done :: "nat \<Rightarrow> bool \<Rightarrow> base_ws \<Rightarrow> base_ws" where
  "sendSubscribe_done cid ok b =
     (case jm_get cid (bw_calls b) of
        None \<Rightarrow> b
      | Some pending \<Rightarrow>
          let b1 = b\<lparr>bw_calls := jm_del cid (bw_calls b)\<rparr>
          in if ok
             then say [BwResolved cid] (settleConfirmationWaiters (settleConfirmationWaiters
                    (b1\<lparr>bw_confirmed := sadds pending (bw_confirmed b1)\<rparr>)))
             else say [BwRejected cid] b1)"

definition waiter_timeout :: "nat \<Rightarrow> base_ws \<Rightarrow> base_ws" where
  "waiter_timeout cid b =
     (if cid \<in> set (map fst (bw_confirmationWaiters b))
      then say [BwRejected cid] (b\<lparr>bw_confirmationWaiters := filter (\<lambda>w. fst w \<noteq> cid) (bw_confirmationWaiters b)\<rparr>)
      else b)"

text \<open>The futures class refuses streams of the other path before anything is recorded.\<close>

definition futures_subscribe :: "stream_route option \<Rightarrow> nat \<Rightarrow> string list \<Rightarrow> bool \<Rightarrow> bool \<Rightarrow> base_ws \<Rightarrow> base_ws" where
  "futures_subscribe route cid streams idle opened b =
     (case route of
        Some r \<Rightarrow> if filter (\<lambda>s. futuresStreamRoute s \<noteq> r) streams \<noteq> [] then say [BwRejected cid] b
                  else subscribeConfirmed cid streams idle opened b
      | None \<Rightarrow> subscribeConfirmed cid streams idle opened b)"

definition unsubscribeConfirmed :: "string list \<Rightarrow> bool \<Rightarrow> base_ws \<Rightarrow> base_ws" where
  "unsubscribeConfirmed streams opened b =
     (if streams = [] then b
      else bw_send opened ''UNSUBSCRIBE'' streams
             (b\<lparr>bw_desired := sdels streams (bw_desired b), bw_confirmed := sdels streams (bw_confirmed b)\<rparr>))"

section \<open>Resynchronisation\<close>

definition resynchronize :: "bool \<Rightarrow> base_ws \<Rightarrow> base_ws" where
  "resynchronize opened b =
     (if \<not> opened \<or> bw_resyncPromise b \<noteq> None then b
      else bw_send opened ''LIST_SUBSCRIPTIONS'' [] (b\<lparr>bw_resyncPromise := Some Listing\<rparr>))"

definition reestablish :: "bool \<Rightarrow> base_ws \<Rightarrow> base_ws" where
  "reestablish opened b = resynchronize opened (b\<lparr>bw_confirmed := []\<rparr>)"

definition resync_finish :: "string list \<Rightarrow> string list \<Rightarrow> base_ws \<Rightarrow> base_ws" where
  "resync_finish serverSet missing b =
     (let b1 = settleConfirmationWaiters
                 (b\<lparr>bw_confirmed := filter (\<lambda>s. s \<in> set serverSet \<or> s \<in> set missing) (bw_desired b)\<rparr>)
      in say [BwResynced (length (bw_desired b1)) (length missing)] (b1\<lparr>bw_resyncPromise := None\<rparr>))"

definition resync_drop_extra :: "bool \<Rightarrow> string list \<Rightarrow> string list \<Rightarrow> string list \<Rightarrow> base_ws \<Rightarrow> base_ws" where
  "resync_drop_extra opened serverSet missing extra b =
     (if extra \<noteq> [] then bw_send opened ''UNSUBSCRIBE'' extra (b\<lparr>bw_resyncPromise := Some (Unsubscribing serverSet missing)\<rparr>)
      else resync_finish serverSet missing b)"

text \<open>The reply to the request the resynchronisation is waiting for: the listed streams, or \<open>None\<close> when
  it was rejected or timed out. A failed request goes the same way as an acknowledged one.\<close>

definition resync_reply :: "bool \<Rightarrow> string list option \<Rightarrow> base_ws \<Rightarrow> base_ws" where
  "resync_reply opened reply b =
     (case bw_resyncPromise b of
        None \<Rightarrow> b
      | Some Listing \<Rightarrow>
          let serverSet = sadds (case reply of None \<Rightarrow> [] | Some ss \<Rightarrow> ss) [];
              missing = filter (\<lambda>s. s \<notin> set serverSet) (bw_desired b);
              extra = filter (\<lambda>s. s \<notin> set (bw_desired b)) serverSet
          in if missing \<noteq> []
             then bw_send opened ''SUBSCRIBE'' missing (b\<lparr>bw_resyncPromise := Some (Subscribing serverSet missing extra)\<rparr>)
             else resync_drop_extra opened serverSet missing extra b
      | Some (Subscribing serverSet missing extra) \<Rightarrow> resync_drop_extra opened serverSet missing extra b
      | Some (Unsubscribing serverSet missing) \<Rightarrow> resync_finish serverSet missing b)"

definition onClosedByUser :: "base_ws \<Rightarrow> base_ws" where
  "onClosedByUser b =
     say (map (BwRejected \<circ> fst) (bw_confirmationWaiters b)) (b\<lparr>bw_confirmationWaiters := []\<rparr>)"

section \<open>Steps\<close>

datatype base_event =
    Subscribe nat "string list" bool bool
  | SubscribeReply nat bool
  | WaiterTimeout nat
  | Unsubscribe "string list" bool
  | SocketOpen bool
  | Resync bool
  | ResyncReply bool "string list option"
  | UserClosed

fun bw_step :: "base_ws \<Rightarrow> base_event \<Rightarrow> base_ws" where
  "bw_step b (Subscribe cid streams idle opened) = subscribeConfirmed cid streams idle opened b"
| "bw_step b (SubscribeReply cid ok) = sendSubscribe_done cid ok b"
| "bw_step b (WaiterTimeout cid) = waiter_timeout cid b"
| "bw_step b (Unsubscribe streams opened) = unsubscribeConfirmed streams opened b"
| "bw_step b (SocketOpen opened) = reestablish opened b"
| "bw_step b (Resync opened) = resynchronize opened b"
| "bw_step b (ResyncReply opened reply) = resync_reply opened reply b"
| "bw_step b UserClosed = onClosedByUser b"

section \<open>What the exchange ends up with\<close>

text \<open>The exchange is not part of the source. It is a parameter \<open>serve\<close> that takes a request and the
  subscriptions of the connection to the reply, \<open>None\<close> when the request is refused or no reply comes in
  time, and to the subscriptions after it. What the code relies on: a request is carried out or not
  according to \<open>applied\<close>, one that was answered was carried out, the listing answers with the
  subscriptions, and no request changes them otherwise.\<close>

type_synonym exchange_server = "string \<Rightarrow> string list \<Rightarrow> string list \<Rightarrow> string list option \<times> string list"

definition exchange_behaves :: "(string \<Rightarrow> bool) \<Rightarrow> (string \<Rightarrow> bool) \<Rightarrow> exchange_server \<Rightarrow> bool" where
  "exchange_behaves applied answered serve \<longleftrightarrow> (\<forall>m ss S.
     (answered m \<longrightarrow> applied m) \<and> (fst (serve m ss S) \<noteq> None \<longleftrightarrow> answered m) \<and>
     (answered m \<and> m = ''LIST_SUBSCRIPTIONS'' \<longrightarrow> fst (serve m ss S) = Some S) \<and>
     set (snd (serve m ss S)) =
       (if applied m \<and> m = ''SUBSCRIBE'' then set S \<union> set ss
        else if applied m \<and> m = ''UNSUBSCRIBE'' then set S - set ss else set S))"

text \<open>The exchange deals with the request the resynchronisation waits for, and its reply comes in.\<close>

definition resync_round :: "exchange_server \<Rightarrow> base_ws \<times> string list \<Rightarrow> base_ws \<times> string list" where
  "resync_round serve bs =
     (case bs of (b, S) \<Rightarrow>
        if bw_resyncPromise b = None \<or> bw_log b = [] then (b, S)
        else (case last (bw_log b) of
                BwSent m ss \<Rightarrow> (case serve m ss S of (reply, S') \<Rightarrow> (bw_step b (ResyncReply True reply), S'))
              | _ \<Rightarrow> (b, S)))"

lemma round_done: "bw_resyncPromise b = None \<Longrightarrow> resync_round serve (b, S) = (b, S)"
  by (simp add: resync_round_def)

lemma round_waiting:
  "bw_resyncPromise b \<noteq> None \<Longrightarrow> bw_log b = xs @ [BwSent m ss] \<Longrightarrow>
    resync_round serve (b, S) = (resync_reply True (fst (serve m ss S)) b, snd (serve m ss S))"
  by (auto simp add: resync_round_def split: prod.split)

lemma settle_waiters_sel:
  "bw_desired (settleConfirmationWaiters b) = bw_desired b" "bw_confirmed (settleConfirmationWaiters b) = bw_confirmed b"
  "bw_resyncPromise (settleConfirmationWaiters b) = bw_resyncPromise b" "bw_calls (settleConfirmationWaiters b) = bw_calls b"
  "bw_confirmationWaiters (settleConfirmationWaiters b) = filter (\<lambda>w. \<not> satisfied b w) (bw_confirmationWaiters b)"
  "bw_log (settleConfirmationWaiters b) = bw_log b @ map (BwResolved \<circ> fst) (filter (satisfied b) (bw_confirmationWaiters b))"
  by (simp_all add: settleConfirmationWaiters_def say_def)

lemma satisfied_all:
  assumes "set (bw_desired b) \<subseteq> set (bw_confirmed b)"
  shows "satisfied b w"
  using assms by (auto simp: satisfied_def list_all_iff)

lemma finish_all:
  assumes "set (bw_desired b) \<subseteq> set serverSet \<union> set missing"
  shows "resync_finish serverSet missing b =
    say (map (BwResolved \<circ> fst) (bw_confirmationWaiters b) @ [BwResynced (length (bw_desired b)) (length missing)])
      (b\<lparr>bw_confirmed := bw_desired b, bw_confirmationWaiters := [], bw_resyncPromise := None\<rparr>)"
proof -
  have d: "filter (\<lambda>s. s \<in> set serverSet \<or> s \<in> set missing) (bw_desired b) = bw_desired b"
    using assms by (auto intro: filter_True)
  let ?b = "b\<lparr>bw_confirmed := bw_desired b\<rparr>"
  have "\<And>w. satisfied ?b w" by (rule satisfied_all) simp
  then show ?thesis by (simp add: resync_finish_def settleConfirmationWaiters_def say_def d Let_def)
qed

text \<open>The end of a resynchronisation that began on \<open>b\<close>: nothing waits, everything desired is confirmed, and
  the waiters of \<open>b\<close> were resolved on the way.\<close>

definition resynced :: "base_ws \<Rightarrow> base_ws \<Rightarrow> bool" where
  "resynced b b' \<longleftrightarrow> bw_resyncPromise b' = None \<and> bw_desired b' = bw_desired b \<and> bw_confirmed b' = bw_desired b \<and>
     bw_confirmationWaiters b' = [] \<and>
     (\<exists>xs ys. bw_log b' = bw_log b @ xs @ map (BwResolved \<circ> fst) (bw_confirmationWaiters b) @ ys)"

lemma finish_resynced:
  assumes "set (bw_desired b) \<subseteq> set serverSet \<union> set missing" "bw_desired c = bw_desired b"
    "bw_confirmationWaiters c = bw_confirmationWaiters b" "bw_log c = bw_log b @ xs"
  shows "resynced b (resync_finish serverSet missing c)"
proof -
  have "set (bw_desired c) \<subseteq> set serverSet \<union> set missing" using assms(1,2) by simp
  from finish_all [OF this] show ?thesis using assms(2-4) by (auto simp: resynced_def say_def)
qed

lemma exchange_changes:
  assumes "exchange_behaves applied answered serve"
  shows "set (snd (serve ''SUBSCRIBE'' ss T)) = set T \<union> (if applied ''SUBSCRIBE'' then set ss else {})"
    "set (snd (serve ''UNSUBSCRIBE'' ss T)) = set T - (if applied ''UNSUBSCRIBE'' then set ss else {})"
  using assms by (simp_all add: exchange_behaves_def)

text \<open>Dropping what nobody wants is one more round, or none; and then nothing more happens.\<close>

lemma drop_extra_round:
  assumes "set (bw_desired b) \<subseteq> set serverSet \<union> set missing" "bw_desired c = bw_desired b"
    "bw_confirmationWaiters c = bw_confirmationWaiters b" "bw_log c = bw_log b @ xs" "exchange_behaves applied answered serve"
    and "(b', S') = resync_round serve (resync_drop_extra True serverSet missing extra c, S)"
  shows "resynced b b' \<and> set S' = set S - (if applied ''UNSUBSCRIBE'' then set extra else {})"
proof (cases "extra = []")
  case True
  have r: "resynced b (resync_finish serverSet missing c)" by (rule finish_resynced [OF assms(1-4)])
  then have "(b', S') = (resync_finish serverSet missing c, S)"
    using assms(6) True by (simp add: resync_drop_extra_def round_done resynced_def)
  with r True show ?thesis by simp
next
  case False
  let ?c = "c\<lparr>bw_resyncPromise := Some (Unsubscribing serverSet missing), bw_log := bw_log c @ [BwSent ''UNSUBSCRIBE'' extra]\<rparr>"
  have "resync_drop_extra True serverSet missing extra c = ?c"
    using False by (simp add: resync_drop_extra_def bw_send_def say_def)
  then have "(b', S') = (resync_finish serverSet missing ?c, snd (serve ''UNSUBSCRIBE'' extra S))"
    using assms(6) round_waiting [of ?c "bw_log c" "''UNSUBSCRIBE''" extra serve S] by (simp add: resync_reply_def)
  moreover have "resynced b (resync_finish serverSet missing ?c)"
    by (rule finish_resynced [OF assms(1), of _ "xs @ [BwSent ''UNSUBSCRIBE'' extra]"]) (use assms(2-4) in simp_all)
  ultimately show ?thesis using exchange_changes(2) [OF assms(5)] by simp
qed

lemma resync_from_listing:
  assumes "bw_resyncPromise b = Some Listing" "exchange_behaves applied answered serve"
    and "(b', S') = resync_round serve (resync_round serve (resync_reply True reply b, S))"
    and "listed = (case reply of None \<Rightarrow> [] | Some ss \<Rightarrow> ss)"
  shows "resynced b b' \<and> set S' = (set S \<union> (if applied ''SUBSCRIBE'' then set (bw_desired b) - set listed else {})) -
      (if applied ''UNSUBSCRIBE'' then set listed - set (bw_desired b) else {})"
proof -
  let ?D = "bw_desired b" and ?L = "sadds listed []"
  define m where "m = filter (\<lambda>s. s \<notin> set listed) ?D"
  define x where "x = filter (\<lambda>s. s \<notin> set ?D) ?L"
  have sets: "set m = set ?D - set listed" "set x = set listed - set ?D" by (auto simp: m_def x_def)
  have cover: "set ?D \<subseteq> set ?L \<union> set m" using sets by auto
  have first: "resync_reply True reply b = (if m \<noteq> []
      then b\<lparr>bw_resyncPromise := Some (Subscribing ?L m x), bw_log := bw_log b @ [BwSent ''SUBSCRIBE'' m]\<rparr>
      else resync_drop_extra True ?L m x b)"
    using assms(1) by (simp add: resync_reply_def m_def x_def assms(4) Let_def bw_send_def say_def)
  show ?thesis
  proof (cases "m = []")
    case True
    obtain b1 S1 where one: "(b1, S1) = resync_round serve (resync_drop_extra True ?L m x b, S)" by (metis surj_pair)
    have "resynced b b1 \<and> set S1 = set S - (if applied ''UNSUBSCRIBE'' then set x else {})"
      by (rule drop_extra_round [OF cover _ _ _ assms(2) one, of "[]"]) simp_all
    moreover have "(b', S') = resync_round serve (b1, S1)" using assms(3) True unfolding one first by simp
    ultimately have "(b', S') = (b1, S1)" by (simp add: round_done resynced_def)
    with \<open>resynced b b1 \<and> set S1 = _\<close> have "resynced b b' \<and> set S' = set S - (if applied ''UNSUBSCRIBE'' then set x else {})"
      by simp
    then show ?thesis using True sets by auto
  next
    case False
    let ?b = "b\<lparr>bw_resyncPromise := Some (Subscribing ?L m x), bw_log := bw_log b @ [BwSent ''SUBSCRIBE'' m]\<rparr>"
    let ?S = "snd (serve ''SUBSCRIBE'' m S)"
    have two: "(b', S') = resync_round serve (resync_drop_extra True ?L m x ?b, ?S)"
      using assms(3) unfolding first using False round_waiting [of ?b "bw_log b" "''SUBSCRIBE''" m serve S]
      by (simp add: resync_reply_def)
    have "resynced b b' \<and> set S' = set ?S - (if applied ''UNSUBSCRIBE'' then set x else {})"
      by (rule drop_extra_round [OF cover _ _ _ assms(2) two, of "[BwSent ''SUBSCRIBE'' m]"]) simp_all
    then show ?thesis using exchange_changes(1) [OF assms(2)] sets by simp
  qed
qed

text \<open>C21: After a socket opens, three replies later (one to each request; no other call in between) the
  resynchronisation is over, and when the exchange carries out the requests, its subscriptions are
  exactly the desired ones. In general, whatever the exchange refuses or leaves unanswered: it gains the
  desired streams it did not list if it carries out the subscribe request, and loses the listed ones
  nobody wants if it carries out the unsubscribe request, and nothing else changes there. On this side
  every desired stream is then marked confirmed and every waiting subscriber is resolved even if its
  subscribe request was refused, where a comment in the code says the waiters time out.\<close>

theorem resync_repairs:
  assumes "bw_resyncPromise b = None" "exchange_behaves applied answered serve"
    and "(b', S') = (resync_round serve ^^ 3) (bw_step b (SocketOpen True), S)"
    and "listed = (if answered ''LIST_SUBSCRIPTIONS'' then set S else {})"
  shows "bw_resyncPromise b' = None \<and> bw_desired b' = bw_desired b \<and> bw_confirmed b' = bw_desired b \<and>
    bw_confirmationWaiters b' = [] \<and>
    (\<forall>w \<in> set (bw_confirmationWaiters b). BwResolved (fst w) \<in> set (drop (length (bw_log b)) (bw_log b'))) \<and>
    set S' = (set S \<union> (if applied ''SUBSCRIBE'' then set (bw_desired b) - listed else {})) -
      (if applied ''UNSUBSCRIBE'' then listed - set (bw_desired b) else {}) \<and>
    (answered ''LIST_SUBSCRIPTIONS'' \<and> applied ''SUBSCRIBE'' \<and> applied ''UNSUBSCRIBE'' \<longrightarrow> set S' = set (bw_desired b))"
proof -
  let ?b = "bw_step b (SocketOpen True)" and ?r = "serve ''LIST_SUBSCRIPTIONS'' [] S"
  have b: "bw_resyncPromise ?b = Some Listing" "bw_log ?b = bw_log b @ [BwSent ''LIST_SUBSCRIPTIONS'' []]"
    "bw_desired ?b = bw_desired b" "bw_confirmationWaiters ?b = bw_confirmationWaiters b"
    using assms(1) by (simp_all add: reestablish_def resynchronize_def bw_send_def say_def)
  define names where "names = (case fst ?r of None \<Rightarrow> [] | Some ss \<Rightarrow> ss)"
  have l: "set names = listed" "set (snd ?r) = set S"
  proof -
    have known: "fst ?r \<noteq> None \<longleftrightarrow> answered ''LIST_SUBSCRIPTIONS''" "answered ''LIST_SUBSCRIPTIONS'' \<longrightarrow> fst ?r = Some S"
      "set (snd ?r) = set S"
      using assms(2) by (simp_all add: exchange_behaves_def)
    then show "set names = listed" "set (snd ?r) = set S"
      using assms(4) by (auto simp: names_def split: option.splits)
  qed
  have run: "(b', S') = resync_round serve (resync_round serve (resync_reply True (fst ?r) ?b, snd ?r))"
    using assms(3) round_waiting [of ?b "bw_log b" "''LIST_SUBSCRIPTIONS''" "[]" serve S] b(1,2)
    by (simp add: numeral_3_eq_3)
  from resync_from_listing [OF b(1) assms(2) run names_def]
  have end_: "resynced ?b b'" and S': "set S' = (set S \<union> (if applied ''SUBSCRIBE'' then set (bw_desired b) - listed else {})) -
      (if applied ''UNSUBSCRIBE'' then listed - set (bw_desired b) else {})"
    unfolding b l by blast+
  from end_ obtain xs ys where log: "bw_log b' = bw_log b @ xs @ map (BwResolved \<circ> fst) (bw_confirmationWaiters b) @ ys"
    unfolding resynced_def b by (metis append.assoc)
  have "BwResolved (fst w) \<in> set (drop (length (bw_log b)) (bw_log b'))" if "w \<in> set (bw_confirmationWaiters b)" for w
    using imageI [OF that, of "BwResolved \<circ> fst"] by (simp add: log)
  moreover have "set S' = set (bw_desired b)"
    if "answered ''LIST_SUBSCRIPTIONS''" "applied ''SUBSCRIBE''" "applied ''UNSUBSCRIBE''"
    unfolding S' assms(4) using that by auto
  ultimately show ?thesis using end_ S' unfolding resynced_def b by blast
qed

text \<open>When the listing and the subscribe request of a resynchronisation both fail, for instance because
  the socket dropped again, the streams are marked confirmed all the same and every waiting subscriber
  is told its streams are live, although no subscribe request was ever sent to the server.\<close>

theorem failed_resync_confirms:
  assumes "bw_resyncPromise b = None" "bw_desired b \<noteq> []"
  shows "let b' = foldl bw_step b [SocketOpen True, ResyncReply False None, ResyncReply False None] in
    bw_confirmed b' = bw_desired b \<and> bw_confirmationWaiters b' = [] \<and>
    (\<forall>w\<in>set (bw_confirmationWaiters b). BwResolved (fst w) \<in> set (drop (length (bw_log b)) (bw_log b'))) \<and>
    (\<forall>ss. BwSent ''SUBSCRIBE'' ss \<notin> set (drop (length (bw_log b)) (bw_log b')))"
proof -
  have "filter (\<lambda>s. s \<notin> set []) (bw_desired b) = bw_desired b" by simp
  then show ?thesis
    using assms by (auto simp: reestablish_def resynchronize_def resync_reply_def resync_drop_extra_def bw_send_def
        say_def Let_def finish_all sadds_def)
qed

text \<open>Unsubscribing while a subscribe request is in flight loses the next subscription: the late
  acknowledgement records the stream as confirmed, so subscribing again sends nothing and resolves at
  once, although the last request the exchange was sent for the stream was to unsubscribe it.\<close>

theorem resubscribe_not_sent:
  assumes "s \<notin> set (bw_desired b)" "s \<notin> set (bw_confirmed b)" "bw_confirmationWaiters b = []"
  shows "let b' = foldl bw_step b [Subscribe i [s] False True, Unsubscribe [s] True, SubscribeReply i True,
        Subscribe j [s] False True] in
    drop (length (bw_log b)) (bw_log b') =
      [BwSent ''SUBSCRIBE'' [s], BwSent ''UNSUBSCRIBE'' [s], BwResolved i, BwResolved j] \<and>
    s \<in> set (bw_desired b') \<and> s \<in> set (bw_confirmed b')"
  using assms
  by (simp add: subscribeConfirmed_def unsubscribeConfirmed_def sendSubscribe_done_def settleConfirmationWaiters_def
      bw_send_def say_def Let_def sadds_single sadd_def sdels_def jm.get_put)

lemma ends_with_iff: "ends_with s suf \<longleftrightarrow> (\<exists>p. s = p @ suf)"
proof
  assume "ends_with s suf"
  then obtain r where "rev s = rev suf @ r" by (auto simp: ends_with_def starts_with_iff)
  then have "s = rev r @ suf" by (metis rev_append rev_rev_ident)
  then show "\<exists>p. s = p @ suf" by blast
qed (auto simp: ends_with_def)

lemma digits_stop:
  assumes "list_all is_digit ds" "r = [] \<or> \<not> is_digit (hd r)"
  shows "takeWhile is_digit (ds @ r) = ds" "dropWhile is_digit (ds @ r) = r"
  using assms by (induction ds) (cases r; auto)+

lemma speed_suffix_iff:
  "speed_suffix r \<longleftrightarrow> r = [] \<or> (\<exists>es. r = CHR ''@'' # es @ ''ms'' \<and> es \<noteq> [] \<and> list_all is_digit es)"
proof (cases r)
  case (Cons c cs)
  have "(takeWhile is_digit cs \<noteq> [] \<and> dropWhile is_digit cs = ''ms'') \<longleftrightarrow>
      (\<exists>es. cs = es @ ''ms'' \<and> es \<noteq> [] \<and> list_all is_digit es)"
  proof
    assume a: "takeWhile is_digit cs \<noteq> [] \<and> dropWhile is_digit cs = ''ms''"
    then have "cs = takeWhile is_digit cs @ ''ms''" by (metis takeWhile_dropWhile_id)
    moreover have "list_all is_digit (takeWhile is_digit cs)" by (auto simp: list_all_iff dest: set_takeWhileD)
    ultimately show "\<exists>es. cs = es @ ''ms'' \<and> es \<noteq> [] \<and> list_all is_digit es" using a by blast
  next
    assume "\<exists>es. cs = es @ ''ms'' \<and> es \<noteq> [] \<and> list_all is_digit es"
    then obtain es where "cs = es @ ''ms''" "es \<noteq> []" "list_all is_digit es" by blast
    then show "takeWhile is_digit cs \<noteq> [] \<and> dropWhile is_digit cs = ''ms''"
      using digits_stop [of es "''ms''"] by (simp add: is_digit_def)
  qed
  with Cons show ?thesis by (auto simp: speed_suffix_def)
qed (simp add: speed_suffix_def)

lemma speed_suffix_stop: "speed_suffix r \<Longrightarrow> r = [] \<or> \<not> is_digit (hd r)"
  by (auto simp: speed_suffix_iff is_digit_def)

lemma depth_from_iff:
  "depth_from s \<longleftrightarrow> (\<exists>ds r. (s = ''@depth'' @ ds @ r \<and> list_all is_digit ds \<or> s = ''@rpiDepth'' @ r) \<and> speed_suffix r)"
proof
  assume "depth_from s"
  then consider q where "s = ''@depth'' @ q" "speed_suffix (dropWhile is_digit q)"
    | q where "s = ''@rpiDepth'' @ q" "speed_suffix q"
    by (auto simp: starts_with_iff)
  then show "\<exists>ds r. (s = ''@depth'' @ ds @ r \<and> list_all is_digit ds \<or> s = ''@rpiDepth'' @ r) \<and> speed_suffix r"
  proof cases
    case 1
    have "q = takeWhile is_digit q @ dropWhile is_digit q" "list_all is_digit (takeWhile is_digit q)"
      by (auto simp: list_all_iff dest: set_takeWhileD)
    with 1 show ?thesis by metis
  qed blast
next
  assume "\<exists>ds r. (s = ''@depth'' @ ds @ r \<and> list_all is_digit ds \<or> s = ''@rpiDepth'' @ r) \<and> speed_suffix r"
  then obtain ds r where r: "speed_suffix r" and "s = ''@depth'' @ ds @ r \<and> list_all is_digit ds \<or> s = ''@rpiDepth'' @ r"
    by blast
  moreover have "speed_suffix (dropWhile is_digit (ds @ r))" if "list_all is_digit ds"
    using digits_stop(2) [OF that speed_suffix_stop [OF r]] r by simp
  ultimately show "depth_from s"
    using r by (auto simp: starts_with_iff)
qed

lemma depth_stream_iff: "depth_stream s \<longleftrightarrow> (\<exists>p q. s = p @ q \<and> depth_from q)"
proof (induction s)
  case Nil
  then show ?case by (simp add: depth_from_iff)
next
  case (Cons c cs)
  then show ?case by (auto simp: Cons_eq_append_conv simp del: depth_from.simps)
qed

text \<open>A stream goes to the futures path that serves it: book tickers, diff and partial depth and RPI
  depth, at any speed, on the public path, and everything else on the market path.\<close>

theorem futures_route_spec:
  "futuresStreamRoute s = Public \<longleftrightarrow>
     (s = ''bookTicker'' \<or> (\<exists>p c. s = p @ c # ''bookTicker'' \<and> (c = CHR ''@'' \<or> c = CHR ''!''))) \<or>
     (\<exists>p ds r. (s = p @ ''@depth'' @ ds @ r \<and> list_all is_digit ds \<or> s = p @ ''@rpiDepth'' @ r) \<and>
        (r = [] \<or> (\<exists>es. r = CHR ''@'' # es @ ''ms'' \<and> es \<noteq> [] \<and> list_all is_digit es)))"
proof -
  have "futuresStreamRoute s = Public \<longleftrightarrow> book_ticker s \<or> depth_stream s" by (simp add: futuresStreamRoute_def)
  moreover have "book_ticker s \<longleftrightarrow>
      s = ''bookTicker'' \<or> (\<exists>p c. s = p @ c # ''bookTicker'' \<and> (c = CHR ''@'' \<or> c = CHR ''!''))"
    by (auto simp: book_ticker_def ends_with_iff)
  moreover have "depth_stream s \<longleftrightarrow>
      (\<exists>p ds r. (s = p @ ''@depth'' @ ds @ r \<and> list_all is_digit ds \<or> s = p @ ''@rpiDepth'' @ r) \<and> speed_suffix r)"
    unfolding depth_stream_iff depth_from_iff by blast
  ultimately show ?thesis by (simp only: speed_suffix_iff)
qed

section \<open>Witnesses\<close>

definition wit_waiting :: base_ws where
  "wit_waiting = subscribeConfirmed 1 [''btcusdt@trade''] True False (new_BaseWS ''wss'' [])"

text \<open>An exchange that refuses to subscribe and answers everything else.\<close>

definition wit_serve :: exchange_server where
  "wit_serve m ss S =
     (if m = ''SUBSCRIBE'' then (None, S) else if m = ''UNSUBSCRIBE'' then (Some [], sdels ss S) else (Some S, S))"

theorem resync_repairs_witness:
  "case (resync_round wit_serve ^^ 3) (bw_step wit_waiting (SocketOpen True), [''ethusdt@trade'']) of (b', S') \<Rightarrow>
     bw_resyncPromise b' = None \<and> bw_confirmed b' = [''btcusdt@trade''] \<and> BwResolved 1 \<in> set (bw_log b') \<and> set S' = {}"
proof -
  let ?ok = "\<lambda>m. m \<noteq> ''SUBSCRIBE''"
  obtain b' S' where run: "(b', S') = (resync_round wit_serve ^^ 3) (bw_step wit_waiting (SocketOpen True), [''ethusdt@trade''])"
    by (metis surj_pair)
  have w: "bw_resyncPromise wit_waiting = None" "bw_desired wit_waiting = [''btcusdt@trade'']"
    "bw_confirmationWaiters wit_waiting = [(1, [''btcusdt@trade''])]" by code_simp+
  have "exchange_behaves ?ok ?ok wit_serve" by (auto simp: exchange_behaves_def wit_serve_def)
  from resync_repairs [OF w(1) this run refl] show ?thesis
    unfolding run [symmetric] w by (auto dest: in_set_dropD)
qed

theorem failed_resync_confirms_witness:
  "BwResolved 1 \<in> set (bw_log (foldl bw_step wit_waiting [SocketOpen True, ResyncReply False None, ResyncReply False None]))"
proof -
  have w: "bw_resyncPromise wit_waiting = None" "bw_desired wit_waiting \<noteq> []"
    "bw_confirmationWaiters wit_waiting = [(1, [''btcusdt@trade''])]" by code_simp+
  from failed_resync_confirms [OF w(1,2)] w(3) show ?thesis
    unfolding Let_def by (auto dest: in_set_dropD)
qed

theorem resubscribe_not_sent_witness:
  "drop 0 (bw_log (foldl bw_step (new_BaseWS ''wss'' [])
     [Subscribe 1 [''btcusdt@trade''] False True, Unsubscribe [''btcusdt@trade''] True, SubscribeReply 1 True,
      Subscribe 2 [''btcusdt@trade''] False True])) =
   [BwSent ''SUBSCRIBE'' [''btcusdt@trade''], BwSent ''UNSUBSCRIBE'' [''btcusdt@trade''], BwResolved 1, BwResolved 2]"
proof -
  have w: "bw_desired (new_BaseWS ''wss'' []) = []" "bw_confirmed (new_BaseWS ''wss'' []) = []"
    "bw_confirmationWaiters (new_BaseWS ''wss'' []) = []" "bw_log (new_BaseWS ''wss'' []) = []"
    by (simp_all add: new_BaseWS_def sadds_def)
  from resubscribe_not_sent [of "''btcusdt@trade''" "new_BaseWS ''wss'' []" 1 2] show ?thesis
    unfolding w Let_def by simp
qed

end
