(* ===== verification/Ws_Pool.thy ===== *)
theory Ws_Pool
  imports Ws_Streams Ws_Connection
begin

text \<open>
  The stream platform of one family: \<open>src/ws/platform/ConnectionPool.ts\<close> (which connection carries a
  stream), \<open>Subscription.ts\<close> (the consumer's object) and \<open>SubscriptionRegistry.ts\<close> (one server
  subscription per stream, shared by its subscribers), over the sockets of \<open>Ws_Streams\<close>. A connection is
  known by the number it was created under, a subscription by its own. What happens on a connection,
  and its state, come as events of \<open>Ws_Connection\<close>; subscribers' listeners are taken not to call back.
  Lemmas: the registry invariant (stream caps, one connection per stream, reference counts), what
  a subscription is told.
\<close>

section \<open>Subscriptions\<close>

datatype sub_state = SubPending | SubLive | SubClosed

datatype sub_output = SubState sub_state | SubInterrupted string | SubMessage string | SubClose

record subscription =
  su_stream :: string
  su_connection :: string
  su_state :: sub_state
  su_closed :: bool
  su_out :: "sub_output list"

definition new_Subscription :: "string \<Rightarrow> string \<Rightarrow> subscription" where
  "new_Subscription stream conn =
     \<lparr>su_stream = stream, su_connection = conn, su_state = SubPending, su_closed = False, su_out = []\<rparr>"

definition isLive :: "subscription \<Rightarrow> bool" where
  "isLive s \<longleftrightarrow> su_state s = SubLive"

definition markLive :: "subscription \<Rightarrow> subscription" where
  "markLive s =
     (if su_closed s then s
      else if su_state s \<noteq> SubLive then s\<lparr>su_state := SubLive, su_out := su_out s @ [SubState SubLive]\<rparr> else s)"

definition markPending :: "string \<Rightarrow> subscription \<Rightarrow> subscription" where
  "markPending reason s =
     (if su_closed s then s
      else if su_state s \<noteq> SubPending
      then s\<lparr>su_state := SubPending, su_out := su_out s @ [SubState SubPending, SubInterrupted reason]\<rparr> else s)"

definition dispatch :: "string \<Rightarrow> subscription \<Rightarrow> subscription" where
  "dispatch payload s = (if su_closed s then s else s\<lparr>su_out := su_out s @ [SubMessage payload]\<rparr>)"

definition sub_close :: "subscription \<Rightarrow> subscription" where
  "sub_close s =
     (if su_closed s then s
      else s\<lparr>su_closed := True, su_state := SubClosed, su_out := su_out s @ [SubState SubClosed, SubClose]\<rparr>)"

section \<open>The pool\<close>

datatype family = Usdm | Spot | Coinm

fun family_name :: "family \<Rightarrow> string" where
  "family_name Usdm = ''usdm''" | "family_name Spot = ''spot''" | "family_name Coinm = ''coinm''"

fun maxStreamsPerConnection :: "family \<Rightarrow> nat" where
  "maxStreamsPerConnection Usdm = 200" | "maxStreamsPerConnection Spot = 1024" | "maxStreamsPerConnection Coinm = 200"

fun defaultMaxConnections :: "family \<Rightarrow> nat" where
  "defaultMaxConnections Usdm = 10" | "defaultMaxConnections Spot = 4" | "defaultMaxConnections Coinm = 10"

record pool_options =
  fo_family :: family
  fo_baseStreamUrl :: string
  fo_publicStreamUrl :: "string option"
  fo_maxConnections :: nat

definition pool_options_of :: "family \<Rightarrow> string \<Rightarrow> string option \<Rightarrow> nat option \<Rightarrow> pool_options" where
  "pool_options_of family base public most =
     \<lparr>fo_family = family, fo_baseStreamUrl = base, fo_publicStreamUrl = (if family = Usdm then public else None),
      fo_maxConnections = (case most of None \<Rightarrow> defaultMaxConnections family | Some n \<Rightarrow> n)\<rparr>"

record pooled =
  pc_name :: string
  pc_route :: stream_route
  pc_ownRoute :: "stream_route option"
  pc_state :: ws_state
  pc_ws :: base_ws

type_synonym pool = "(nat, pooled) jsmap"

definition nextName :: "pool_options \<Rightarrow> pool \<Rightarrow> string" where
  "nextName opts p = family_name (fo_family opts) @ ''Market['' @ nat_digits (length p) @ '']''"

definition public_url :: "pool_options \<Rightarrow> string option" where
  "public_url opts = (case fo_publicStreamUrl opts of Some u \<Rightarrow> if u = [] then None else Some u | None \<Rightarrow> None)"

definition routeFor :: "pool_options \<Rightarrow> string list \<Rightarrow> stream_route" where
  "routeFor opts streams =
     (if fo_family opts \<noteq> Usdm \<or> public_url opts = None \<or> streams = [] then Market
      else futuresStreamRoute (hd streams))"

definition createConnection :: "pool_options \<Rightarrow> stream_route \<Rightarrow> pool \<Rightarrow> pooled" where
  "createConnection opts route p =
     (let url = (case public_url opts of Some u \<Rightarrow> if route = Public then u else fo_baseStreamUrl opts
                 | None \<Rightarrow> fo_baseStreamUrl opts)
      in \<lparr>pc_name = nextName opts p, pc_route = route,
          pc_ownRoute = (if fo_family opts = Usdm then routeOfUrl url else None),
          pc_state = IDLE, pc_ws = new_BaseWS url []\<rparr>)"

definition pc_load :: "pooled \<Rightarrow> nat" where
  "pc_load c = length (bw_desired (pc_ws c))"

fun least_loaded :: "stream_route \<Rightarrow> nat \<Rightarrow> nat \<Rightarrow> (nat \<times> nat) option \<Rightarrow> pool \<Rightarrow> (nat \<times> nat) option" where
  "least_loaded route k cap best [] = best"
| "least_loaded route k cap best ((u, c) # cs) =
     least_loaded route k cap
       (if pc_route c \<noteq> route then best
        else if pc_load c + k \<le> cap \<and> (case best of None \<Rightarrow> True | Some (_, l) \<Rightarrow> pc_load c < l)
        then Some (u, pc_load c) else best) cs"

text \<open>The chosen connection and the pool; \<open>None\<close> when the pool is exhausted. A new connection takes the
  number given.\<close>

definition selectOrCreate :: "pool_options \<Rightarrow> string list \<Rightarrow> nat \<Rightarrow> pool \<Rightarrow> (nat \<times> pool) option" where
  "selectOrCreate opts streams new p =
     (let route = routeFor opts streams;
          candidate = (if streams \<noteq> [] then least_loaded route (length streams) (maxStreamsPerConnection (fo_family opts)) None p
                       else None)
      in case candidate of
           Some (u, l) \<Rightarrow> Some (u, p)
         | None \<Rightarrow> if fo_maxConnections opts \<le> length p then None
                   else Some (new, jm_set new (createConnection opts route p) p))"

section \<open>The registry\<close>

datatype registry_output =
    SubscribeRejected string string
  | SubscriptionReleased string string
  | PoolCreated string nat

datatype acquire_result = Acquired | AcquireFailed

record registry =
  fr_pool :: pool
  fr_mappings :: "(string, nat \<times> nat list) jsmap"
  fr_subs :: "(nat, subscription) jsmap"
  fr_attached :: "nat list"
  fr_awaiting :: "nat list"
  fr_results :: "(nat \<times> acquire_result) list"
  fr_next :: nat
  fr_nextConn :: nat
  fr_out :: "registry_output list"

definition new_registry :: registry where
  "new_registry = \<lparr>fr_pool = [], fr_mappings = [], fr_subs = [], fr_attached = [], fr_awaiting = [], fr_results = [],
     fr_next = 1, fr_nextConn = 1, fr_out = []\<rparr>"

definition set_ws :: "nat \<Rightarrow> base_ws \<Rightarrow> registry \<Rightarrow> registry" where
  "set_ws u b r = (case jm_get u (fr_pool r) of None \<Rightarrow> r
     | Some c \<Rightarrow> r\<lparr>fr_pool := jm_set u (c\<lparr>pc_ws := b\<rparr>) (fr_pool r)\<rparr>)"

definition on_sub :: "(subscription \<Rightarrow> subscription) \<Rightarrow> nat \<Rightarrow> registry \<Rightarrow> registry" where
  "on_sub f i r = (case jm_get i (fr_subs r) of None \<Rightarrow> r
     | Some s \<Rightarrow> r\<lparr>fr_subs := jm_set i (f s) (fr_subs r)\<rparr>)"

definition on_subs :: "(subscription \<Rightarrow> subscription) \<Rightarrow> nat list \<Rightarrow> registry \<Rightarrow> registry" where
  "on_subs f is r = foldl (\<lambda>r i. on_sub f i r) r is"

text \<open>The outcome of \<open>conn.subscribe\<close> reaches the acquire that awaits it, unless it timed out before.\<close>

definition conn_name :: "nat \<Rightarrow> registry \<Rightarrow> string" where
  "conn_name u r = (case jm_get u (fr_pool r) of None \<Rightarrow> [] | Some c \<Rightarrow> pc_name c)"

definition acquire_done :: "nat \<Rightarrow> bool \<Rightarrow> registry \<Rightarrow> registry" where
  "acquire_done i ok r =
     (if i \<notin> set (fr_awaiting r) then r
      else
        let r1 = r\<lparr>fr_awaiting := removeAll i (fr_awaiting r)\<rparr>
        in if ok then (on_sub markLive i r1)\<lparr>fr_results := fr_results r @ [(i, Acquired)]\<rparr>
           else r1\<lparr>fr_results := fr_results r @ [(i, AcquireFailed)],
                  fr_out := fr_out r @ (case jm_get i (fr_subs r) of None \<Rightarrow> []
                    | Some s \<Rightarrow> [SubscribeRejected (su_stream s) (su_connection s)])\<rparr>)"

fun react :: "registry \<Rightarrow> base_output \<Rightarrow> registry" where
  "react r (BwResolved i) = acquire_done i True r"
| "react r (BwRejected i) = acquire_done i False r"
| "react r _ = r"

definition refreshConfirmed :: "nat \<Rightarrow> registry \<Rightarrow> registry" where
  "refreshConfirmed u r =
     (case jm_get u (fr_pool r) of
        None \<Rightarrow> r
      | Some c \<Rightarrow>
          foldl (\<lambda>r (stream, u', is). if u' = u \<and> stream \<in> set (bw_confirmed (pc_ws c)) then on_subs markLive is r else r)
            r (fr_mappings r))"

text \<open>A connection's socket does something; when that ends its repair, the registry refreshes.\<close>

definition conn_do :: "nat \<Rightarrow> (base_ws \<Rightarrow> base_ws) \<Rightarrow> registry \<Rightarrow> registry" where
  "conn_do u f r =
     (case jm_get u (fr_pool r) of
        None \<Rightarrow> r
      | Some c \<Rightarrow>
          let b = f (pc_ws c);
              r1 = foldl react (set_ws u b r) (drop (length (bw_log (pc_ws c))) (bw_log b))
          in if bw_resyncPromise (pc_ws c) \<noteq> None \<and> bw_resyncPromise b = None then refreshConfirmed u r1 else r1)"

definition desired_on :: "nat \<Rightarrow> registry \<Rightarrow> string list" where
  "desired_on u r = (case jm_get u (fr_pool r) of None \<Rightarrow> [] | Some c \<Rightarrow> bw_desired (pc_ws c))"

definition conn_open :: "pooled \<Rightarrow> bool" where
  "conn_open c \<longleftrightarrow> pc_state c = OPEN"

definition markConnectionPending :: "nat \<Rightarrow> string \<Rightarrow> registry \<Rightarrow> registry" where
  "markConnectionPending u reason r =
     foldl (\<lambda>r (stream, u', is). if u' = u then on_subs (markPending reason) is r else r) r (fr_mappings r)"

definition conn_state :: "nat \<Rightarrow> ws_state \<Rightarrow> registry \<Rightarrow> registry" where
  "conn_state u to r =
     (case jm_get u (fr_pool r) of
        None \<Rightarrow> r
      | Some c \<Rightarrow>
          let r1 = r\<lparr>fr_pool := jm_set u (c\<lparr>pc_state := to\<rparr>) (fr_pool r)\<rparr>
          in if to = RECONNECTING then markConnectionPending u ''RECONNECTING'' r1
             else if to = CONNECTING then markConnectionPending u ''CONNECTING'' r1 else r1)"

definition attach :: "nat \<Rightarrow> registry \<Rightarrow> registry" where
  "attach u r = r\<lparr>fr_attached := sadd u (fr_attached r)\<rparr>"

definition join_stream :: "string \<Rightarrow> nat \<Rightarrow> nat list \<Rightarrow> registry \<Rightarrow> registry" where
  "join_stream stream u is r =
     (let i = fr_next r;
          r1 = r\<lparr>fr_next := Suc i,
                fr_subs := jm_set i (new_Subscription stream (conn_name u r)) (fr_subs r),
                fr_mappings := jm_set stream (u, is @ [i]) (fr_mappings r)\<rparr>;
          r2 = (case jm_get u (fr_pool r1) of None \<Rightarrow> r1
                | Some c \<Rightarrow> if stream \<in> set (bw_confirmed (pc_ws c)) then on_sub markLive i r1 else r1)
      in r2\<lparr>fr_results := fr_results r2 @ [(i, Acquired)]\<rparr>)"

definition register_stream :: "string \<Rightarrow> nat \<Rightarrow> pool \<Rightarrow> registry \<Rightarrow> registry" where
  "register_stream stream u p r =
     (let i = fr_next r;
          made = u = fr_nextConn r;
          r1 = attach u (r\<lparr>fr_next := Suc i, fr_pool := p,
                 fr_nextConn := (if made then Suc (fr_nextConn r) else fr_nextConn r)\<rparr>)
      in r1\<lparr>fr_mappings := jm_set stream (u, [i]) (fr_mappings r1),
            fr_subs := jm_set i (new_Subscription stream (conn_name u r1)) (fr_subs r1),
            fr_awaiting := fr_awaiting r1 @ [i],
            fr_out := fr_out r1 @ (if made then [PoolCreated (conn_name u r1) (length p)] else [])\<rparr>)"

definition conn_subscribe :: "nat \<Rightarrow> pooled \<Rightarrow> nat \<Rightarrow> string \<Rightarrow> registry \<Rightarrow> registry" where
  "conn_subscribe u c i stream r =
     (let idle = pc_state c = IDLE \<or> pc_state c = CLOSED;
          r1 = conn_do u (futures_subscribe (pc_ownRoute c) i [stream] idle (conn_open c)) r
      in if idle \<and> stream \<in> set (desired_on u r1) then conn_state u CONNECTING r1 else r1)"

definition acquire :: "pool_options \<Rightarrow> string \<Rightarrow> registry \<Rightarrow> registry" where
  "acquire opts stream r =
     (case jm_get stream (fr_mappings r) of
        Some (u, is) \<Rightarrow> join_stream stream u is r
      | None \<Rightarrow>
          (case selectOrCreate opts [stream] (fr_nextConn r) (fr_pool r) of
             None \<Rightarrow> r\<lparr>fr_next := Suc (fr_next r), fr_results := fr_results r @ [(fr_next r, AcquireFailed)]\<rparr>
           | Some (u, p) \<Rightarrow>
               (case jm_get u p of
                  None \<Rightarrow> register_stream stream u p r
                | Some c \<Rightarrow> conn_subscribe u c (fr_next r) stream (register_stream stream u p r))))"

text \<open>The confirmation timeout of an acquire: the registration stays.\<close>

definition acquire_timeout :: "nat \<Rightarrow> registry \<Rightarrow> registry" where
  "acquire_timeout i r = acquire_done i False r"

definition release :: "nat \<Rightarrow> string \<Rightarrow> registry \<Rightarrow> registry" where
  "release i stream r =
     (case jm_get stream (fr_mappings r) of
        None \<Rightarrow> r
      | Some (u, is) \<Rightarrow>
          let is' = removeAll i is
          in if is' \<noteq> [] then r\<lparr>fr_mappings := jm_set stream (u, is') (fr_mappings r)\<rparr>
             else
               let r1 = r\<lparr>fr_mappings := jm_del stream (fr_mappings r),
                         fr_out := fr_out r @ [SubscriptionReleased stream (conn_name u r)]\<rparr>
               in case jm_get u (fr_pool r) of None \<Rightarrow> r1
                  | Some c \<Rightarrow> conn_do u (unsubscribeConfirmed [stream] (conn_open c)) r1)"

definition close_sub :: "nat \<Rightarrow> registry \<Rightarrow> registry" where
  "close_sub i r =
     (case jm_get i (fr_subs r) of
        None \<Rightarrow> r
      | Some s \<Rightarrow> if su_closed s then r else release i (su_stream s) (on_sub sub_close i r))"

definition getSubscription :: "string \<Rightarrow> registry \<Rightarrow> nat option" where
  "getSubscription stream r =
     (case jm_get stream (fr_mappings r) of Some (u, i # is) \<Rightarrow> Some i | _ \<Rightarrow> None)"

definition registry_closeAll :: "registry \<Rightarrow> registry" where
  "registry_closeAll r =
     foldl (\<lambda>r (stream, u, is). let r1 = foldl (\<lambda>r i. close_sub i r) r is
                               in r1\<lparr>fr_mappings := jm_del stream (fr_mappings r1)\<rparr>) r (fr_mappings r)"

definition deliver :: "nat \<Rightarrow> string \<Rightarrow> string \<Rightarrow> registry \<Rightarrow> registry" where
  "deliver u stream payload r =
     (case jm_get stream (fr_mappings r) of
        None \<Rightarrow> r
      | Some (u', is) \<Rightarrow> if u' \<noteq> u then r else on_subs (dispatch payload) is r)"

section \<open>Events\<close>

definition conn_opened :: "nat \<Rightarrow> registry \<Rightarrow> registry" where
  "conn_opened u r =
     (case jm_get u (fr_pool r) of None \<Rightarrow> r | Some c \<Rightarrow> conn_do u (reestablish (conn_open c)) r)"

definition conn_resync_reply :: "nat \<Rightarrow> string list option \<Rightarrow> registry \<Rightarrow> registry" where
  "conn_resync_reply u reply r =
     (case jm_get u (fr_pool r) of None \<Rightarrow> r | Some c \<Rightarrow> conn_do u (resync_reply (conn_open c) reply) r)"

datatype registry_event =
    Acquire string
  | CloseSub nat
  | AcquireTimeout nat
  | CloseAll
  | ConnState nat ws_state
  | ConnOpened nat
  | ConnResyncReply nat "string list option"
  | ConnSubscribeReply nat nat bool
  | ConnWaiterTimeout nat nat
  | ConnMessage nat string string

fun fr_step :: "pool_options \<Rightarrow> registry \<Rightarrow> registry_event \<Rightarrow> registry" where
  "fr_step opts r (Acquire stream) = acquire opts stream r"
| "fr_step opts r (CloseSub i) = close_sub i r"
| "fr_step opts r (AcquireTimeout i) = acquire_timeout i r"
| "fr_step opts r CloseAll = registry_closeAll r"
| "fr_step opts r (ConnState u to) = conn_state u to r"
| "fr_step opts r (ConnOpened u) = conn_opened u r"
| "fr_step opts r (ConnResyncReply u reply) = conn_resync_reply u reply r"
| "fr_step opts r (ConnSubscribeReply u i ok) = conn_do u (sendSubscribe_done i ok) r"
| "fr_step opts r (ConnWaiterTimeout u i) = conn_do u (waiter_timeout i) r"
| "fr_step opts r (ConnMessage u stream payload) = deliver u stream payload r"

section \<open>The shape of a registry\<close>

definition mapv :: "('a \<Rightarrow> 'b) \<Rightarrow> ('k, 'a) jsmap \<Rightarrow> ('k, 'b) jsmap" where
  "mapv f m = map (\<lambda>(k, v). (k, f v)) m"

lemma get_mapv: "jm_get k (mapv f m) = map_option f (jm_get k m)"
  by (induction m) (auto simp: mapv_def jm_get_def)

lemma mapv_set: "mapv f (jm_set k v m) = jm_set k (f v) (mapv f m)"
  by (induction m) (auto simp: mapv_def jm_set_def)

lemma length_mapv [simp]: "length (mapv f m) = length m"
  by (simp add: mapv_def)

lemma jm_ok_mapv [simp]: "jm_ok (mapv f m) = jm_ok m"
  by (simp add: mapv_def jm_ok_def case_prod_unfold comp_def)

lemma jm_set_same: "jm_get k m = Some v \<Longrightarrow> jm_set k v m = m"
  by (simp add: jm_get_def jm_set_def update_triv)

lemma jm_del_absent: "jm_get k m = None \<Longrightarrow> jm_del k m = m"
  by (simp add: jm_get_def jm_del_def map_of_eq_None_iff delete_idem)

definition desired_of :: "registry \<Rightarrow> (nat, string list) jsmap" where
  "desired_of r = mapv (\<lambda>c. bw_desired (pc_ws c)) (fr_pool r)"

definition subs_of :: "registry \<Rightarrow> (nat, string \<times> bool) jsmap" where
  "subs_of r = mapv (\<lambda>s. (su_stream s, su_closed s)) (fr_subs r)"

definition same_shape :: "registry \<Rightarrow> registry \<Rightarrow> bool" where
  "same_shape r r' \<longleftrightarrow> fr_mappings r' = fr_mappings r \<and> fr_next r' = fr_next r \<and> fr_nextConn r' = fr_nextConn r \<and>
     desired_of r' = desired_of r \<and> subs_of r' = subs_of r"

definition keeps_identity :: "(subscription \<Rightarrow> subscription) \<Rightarrow> bool" where
  "keeps_identity f \<longleftrightarrow> (\<forall>s. su_stream (f s) = su_stream s \<and> su_closed (f s) = su_closed s)"

lemma keeps [simp]: "keeps_identity markLive" "keeps_identity (markPending reason)" "keeps_identity (dispatch payload)"
  by (simp_all add: keeps_identity_def markLive_def markPending_def dispatch_def)

lemma shape_refl [simp]: "same_shape r r"
  by (simp add: same_shape_def)

lemma shape_trans: "same_shape r r' \<Longrightarrow> same_shape r' r'' \<Longrightarrow> same_shape r r''"
  by (simp add: same_shape_def)

lemma shape_on_sub: "keeps_identity f \<Longrightarrow> same_shape r (on_sub f i r)"
  by (auto simp: same_shape_def on_sub_def desired_of_def subs_of_def mapv_set keeps_identity_def get_mapv jm_set_same
      split: option.split)

lemma shape_foldl: "(\<And>r x. same_shape r (g r x)) \<Longrightarrow> same_shape r (foldl g r xs)"
  by (induction xs arbitrary: r) (auto intro: shape_trans)

lemma shape_on_subs: "keeps_identity f \<Longrightarrow> same_shape r (on_subs f is r)"
  unfolding on_subs_def by (rule shape_foldl) (rule shape_on_sub)

lemma shape_update:
  "same_shape r (r'\<lparr>fr_awaiting := a\<rparr>) = same_shape r r'" "same_shape r (r'\<lparr>fr_results := b\<rparr>) = same_shape r r'"
  "same_shape r (r'\<lparr>fr_out := o'\<rparr>) = same_shape r r'" "same_shape r (r'\<lparr>fr_attached := n\<rparr>) = same_shape r r'"
  by (simp_all add: same_shape_def desired_of_def subs_of_def)

lemma shape_acquire_done: "same_shape r (acquire_done i ok r)"
  using shape_on_sub [of markLive "r\<lparr>fr_awaiting := removeAll i (fr_awaiting r)\<rparr>" i]
  by (auto simp: acquire_done_def Let_def shape_update same_shape_def desired_of_def subs_of_def)

lemma shape_react: "same_shape r (react r x)"
  by (cases x) (simp_all add: shape_acquire_done)

lemma shape_refresh: "same_shape r (refreshConfirmed u r)"
  by (auto simp: refreshConfirmed_def intro!: shape_foldl shape_on_subs split: option.split prod.split)

lemma shape_markPending: "same_shape r (markConnectionPending u reason r)"
  by (auto simp: markConnectionPending_def intro!: shape_foldl shape_on_subs split: prod.split)

lemma shape_deliver: "same_shape r (deliver u stream payload r)"
  by (auto simp: deliver_def intro!: shape_on_subs split: option.split prod.split)

lemma shape_conn_state: "same_shape r (conn_state u to r)"
proof (cases "jm_get u (fr_pool r)")
  case (Some c)
  have "same_shape r (r\<lparr>fr_pool := jm_set u (c\<lparr>pc_state := to\<rparr>) (fr_pool r)\<rparr>)"
    using Some by (simp add: same_shape_def desired_of_def subs_of_def mapv_set get_mapv jm_set_same)
  from shape_trans [OF this shape_markPending] this Some show ?thesis
    by (cases to) (simp_all add: conn_state_def Let_def)
qed (simp add: conn_state_def)

text \<open>What a socket's operation does to the desired streams is all that a registry's shape sees of it.\<close>

lemma shape_conn_do:
  assumes "jm_get u (fr_pool r) = Some c"
  shows "same_shape (r\<lparr>fr_pool := jm_set u (c\<lparr>pc_ws := f (pc_ws c)\<rparr>) (fr_pool r)\<rparr>) (conn_do u f r)"
proof -
  let ?r = "r\<lparr>fr_pool := jm_set u (c\<lparr>pc_ws := f (pc_ws c)\<rparr>) (fr_pool r)\<rparr>"
  have ws: "set_ws u (f (pc_ws c)) r = ?r" using assms by (simp add: set_ws_def)
  have "same_shape ?r (foldl react ?r xs)" for xs by (rule shape_foldl) (rule shape_react)
  from this shape_trans [OF this shape_refresh] show ?thesis
    using assms by (simp add: conn_do_def ws Let_def)
qed

lemma desired_conn_do:
  assumes "jm_get u (fr_pool r) = Some c"
  shows "desired_of (conn_do u f r) = jm_set u (bw_desired (f (pc_ws c))) (desired_of r)"
    "fr_mappings (conn_do u f r) = fr_mappings r" "fr_next (conn_do u f r) = fr_next r"
    "fr_nextConn (conn_do u f r) = fr_nextConn r" "subs_of (conn_do u f r) = subs_of r"
  using shape_conn_do [OF assms, of f] by (simp_all add: same_shape_def desired_of_def subs_of_def mapv_set)

lemma shape_conn_keep:
  assumes "\<And>b. bw_desired (f b) = bw_desired b"
  shows "same_shape r (conn_do u f r)"
proof (cases "jm_get u (fr_pool r)")
  case (Some c)
  then show ?thesis
    using desired_conn_do [OF Some, of f] assms by (simp add: same_shape_def desired_of_def get_mapv jm_set_same)
qed (simp add: conn_do_def)

lemma desired_keeps:
  "bw_desired (say xs b) = bw_desired b" "bw_desired (bw_send opened m ss b) = bw_desired b"
  "bw_desired (sendSubscribe_done i ok b) = bw_desired b" "bw_desired (waiter_timeout i b) = bw_desired b"
  "bw_desired (reestablish opened b) = bw_desired b" "bw_desired (resync_reply opened reply b) = bw_desired b"
  by (auto simp: say_def bw_send_def sendSubscribe_done_def waiter_timeout_def reestablish_def resynchronize_def
      resync_reply_def resync_drop_extra_def resync_finish_def settle_waiters_sel Let_def split: option.split resync_phase.split)

section \<open>The invariant\<close>

definition registry_ok :: "pool_options \<Rightarrow> registry \<Rightarrow> bool" where
  "registry_ok opts r \<longleftrightarrow>
     jm_ok (desired_of r) \<and> jm_ok (fr_mappings r) \<and> length (desired_of r) \<le> fo_maxConnections opts \<and>
     (\<forall>u ds. jm_get u (desired_of r) = Some ds \<longrightarrow>
        u < fr_nextConn r \<and> length ds \<le> maxStreamsPerConnection (fo_family opts) \<and> distinct ds \<and>
        (\<forall>s\<in>set ds. \<exists>is. jm_get s (fr_mappings r) = Some (u, is))) \<and>
     (\<forall>s u is. jm_get s (fr_mappings r) = Some (u, is) \<longrightarrow>
        is \<noteq> [] \<and> distinct is \<and> jm_get u (desired_of r) \<noteq> None \<and> (\<forall>i\<in>set is. jm_get i (subs_of r) = Some (s, False))) \<and>
     (\<forall>i s. jm_get i (subs_of r) = Some (s, False) \<longrightarrow>
        (\<exists>u is. jm_get s (fr_mappings r) = Some (u, is) \<and> i \<in> set is)) \<and>
     (\<forall>i. jm_get i (subs_of r) \<noteq> None \<longrightarrow> i < fr_next r)"

lemma ok_shape: "same_shape r r' \<Longrightarrow> registry_ok opts r \<Longrightarrow> registry_ok opts r'"
  by (simp add: registry_ok_def same_shape_def)

lemma least_loaded_fits:
  assumes "least_loaded route k cap best p = Some (u, l)" "jm_ok p"
    and "\<And>u l. best = Some (u, l) \<Longrightarrow> \<exists>c. jm_get u q = Some c \<and> pc_load c + k \<le> cap"
    and "\<And>u c. jm_get u p = Some c \<Longrightarrow> jm_get u q = Some c"
  shows "\<exists>c. jm_get u q = Some c \<and> pc_load c + k \<le> cap"
  using assms
proof (induction route k cap best p rule: least_loaded.induct)
  case (2 route k cap best u' c' cs)
  have ok: "jm_ok cs" and new: "\<And>u c. jm_get u cs = Some c \<Longrightarrow> u \<noteq> u'"
    using "2.prems"(2) by (auto simp: jm_ok_def jm_get_def dest: map_of_SomeD intro: rev_image_eqI)
  have u': "jm_get u' q = Some c'" using "2.prems"(4) [of u' c'] by (simp add: jm_get_def)
  have cs: "\<And>u c. jm_get u cs = Some c \<Longrightarrow> jm_get u q = Some c"
    using "2.prems"(4) new by (simp add: jm_get_def)
  show ?case
    by (rule "2.IH") (use "2.prems"(1,3) ok u' cs in \<open>auto split: if_splits option.splits\<close>)
qed auto

lemma select_cases:
  assumes "selectOrCreate opts [s] new p = Some (u, p')" "jm_ok p"
  shows "(p' = p \<and> (\<exists>c. jm_get u p = Some c \<and> pc_load c + 1 \<le> maxStreamsPerConnection (fo_family opts))) \<or>
    (u = new \<and> length p < fo_maxConnections opts \<and>
       (\<exists>c. p' = jm_set new c p \<and> bw_desired (pc_ws c) = []))"
  using assms least_loaded_fits [of "routeFor opts [s]" 1 "maxStreamsPerConnection (fo_family opts)" None p _ _ p]
  by (auto simp: selectOrCreate_def Let_def createConnection_def new_BaseWS_def sadds_def
      split: option.splits if_splits)

lemma cap_pos: "0 < maxStreamsPerConnection f"
  by (cases f) simp_all

lemma ok_desired:
  assumes "registry_ok opts r" "jm_get u (desired_of r) = Some ds"
  shows "u < fr_nextConn r" "length ds \<le> maxStreamsPerConnection (fo_family opts)" "distinct ds"
    "s \<in> set ds \<Longrightarrow> \<exists>is. jm_get s (fr_mappings r) = Some (u, is)"
  using assms by (auto simp: registry_ok_def)

lemma ok_mapped:
  assumes "registry_ok opts r" "jm_get s (fr_mappings r) = Some (u, is)"
  shows "is \<noteq> []" "distinct is" "jm_get u (desired_of r) \<noteq> None" "i \<in> set is \<Longrightarrow> jm_get i (subs_of r) = Some (s, False)"
  using assms by (auto simp: registry_ok_def)

lemma ok_subs:
  assumes "registry_ok opts r" "jm_get i (subs_of r) = Some (s, False)"
  shows "\<exists>u is. jm_get s (fr_mappings r) = Some (u, is) \<and> i \<in> set is"
  using assms by (auto simp: registry_ok_def)

lemma ok_next:
  assumes "registry_ok opts r" "jm_get i (subs_of r) \<noteq> None"
  shows "i < fr_next r"
  using assms by (auto simp: registry_ok_def)

text \<open>Joining a stream that has subscribers.\<close>

lemma ok_join:
  assumes ok: "registry_ok opts r" and m: "jm_get s (fr_mappings r) = Some (u, is)" and i: "i = fr_next r"
    and r': "fr_mappings r' = jm_set s (u, is @ [i]) (fr_mappings r)" "fr_next r' = Suc i" "fr_nextConn r' = fr_nextConn r"
      "desired_of r' = desired_of r" "subs_of r' = jm_set i (s, False) (subs_of r)"
  shows "registry_ok opts r'"
proof -
  have fresh: "jm_get i (subs_of r) = None" using ok i unfolding registry_ok_def by blast
  have new: "i \<notin> set is" using ok m fresh unfolding registry_ok_def by (metis option.distinct(1))
  show ?thesis
    unfolding registry_ok_def r'
  proof (intro conjI allI impI)
    fix i' s' assume "jm_get i' (jm_set i (s, False) (subs_of r)) = Some (s', False)"
    with m ok_subs [OF ok, of i' s'] ok_mapped [OF ok m]
    show "\<exists>u' is'. jm_get s' (jm_set s (u, is @ [i]) (fr_mappings r)) = Some (u', is') \<and> i' \<in> set is'"
      by (auto simp: jm.get_put split: if_splits)
  next
    fix u' ds assume d: "jm_get u' (desired_of r) = Some ds"
    show "\<forall>s'\<in>set ds. \<exists>is'. jm_get s' (jm_set s (u, is @ [i]) (fr_mappings r)) = Some (u', is')"
      using ok_desired(4) [OF ok d] ok_desired(4) [OF ok d, of s] m by (auto simp: jm.get_put)
    show "u' < fr_nextConn r" "length ds \<le> maxStreamsPerConnection (fo_family opts)" "distinct ds"
      using ok_desired [OF ok d] by auto
  next
    fix s' u' is' assume a: "jm_get s' (jm_set s (u, is @ [i]) (fr_mappings r)) = Some (u', is')"
    show "is' \<noteq> []" "distinct is'" "jm_get u' (desired_of r) \<noteq> None"
      "\<forall>j\<in>set is'. jm_get j (jm_set i (s, False) (subs_of r)) = Some (s', False)"
      using a ok_mapped [OF ok m] ok_mapped [OF ok, of s' u' is'] new fresh by (auto simp: jm.get_put split: if_splits)
  next
    fix j assume "jm_get j (jm_set i (s, False) (subs_of r)) \<noteq> None"
    then show "j < Suc i" using ok_next [OF ok, of j] i by (auto simp: jm.get_put split: if_splits)
  qed (use ok in \<open>simp_all add: registry_ok_def jm.ok_put\<close>)
qed

lemma length_jm_set_new: "jm_get k m = None \<Longrightarrow> length (jm_set k v m) = Suc (length m)"
  using jm.keys_put [of k v m] jm.keys_get [of k m] by (metis jm_keys_def length_append_singleton length_map)

lemma length_jm_set_same: "jm_get k m \<noteq> None \<Longrightarrow> length (jm_set k v m) = length m"
  using jm.length_put_present [of k m v] by (simp add: jm_keys_def)

lemma ok_new_conn:
  assumes ok: "registry_ok opts r" and few: "length (desired_of r) < fo_maxConnections opts" and u: "u = fr_nextConn r"
    and r': "fr_mappings r' = fr_mappings r" "fr_next r' = fr_next r" "fr_nextConn r' = Suc u"
      "desired_of r' = jm_set u [] (desired_of r)" "subs_of r' = subs_of r"
  shows "registry_ok opts r'"
proof -
  have fresh: "jm_get u (desired_of r) = None"
  proof (rule ccontr)
    assume "jm_get u (desired_of r) \<noteq> None"
    then obtain ds where "jm_get u (desired_of r) = Some ds" by blast
    from ok_desired(1) [OF ok this] u show False by simp
  qed
  show ?thesis
    unfolding registry_ok_def r'
  proof (intro conjI allI impI)
    show "length (jm_set u [] (desired_of r)) \<le> fo_maxConnections opts"
      using few fresh by (simp add: length_jm_set_new)
  next
    fix u' ds assume d: "jm_get u' (jm_set u [] (desired_of r)) = Some ds"
    show "u' < Suc u" "length ds \<le> maxStreamsPerConnection (fo_family opts)" "distinct ds"
      "\<forall>s\<in>set ds. \<exists>is. jm_get s (fr_mappings r) = Some (u', is)"
      using d ok_desired [OF ok, of u' ds] u by (auto simp: jm.get_put split: if_splits)
  next
    fix s u' js assume a: "jm_get s (fr_mappings r) = Some (u', js)"
    show "js \<noteq> []" "distinct js" "jm_get u' (jm_set u [] (desired_of r)) \<noteq> None"
      "\<forall>j\<in>set js. jm_get j (subs_of r) = Some (s, False)"
      using ok_mapped [OF ok a] by (auto simp: jm.get_put)
  qed (use ok in \<open>auto simp: registry_ok_def jm.ok_put\<close>)
qed

text \<open>Opening a stream on a connection with room.\<close>

lemma ok_open:
  assumes ok: "registry_ok opts r" and m: "jm_get s (fr_mappings r) = None" and i: "i = fr_next r"
    and u: "jm_get u (desired_of r) = Some ds" "length ds < maxStreamsPerConnection (fo_family opts)"
    and r': "fr_mappings r' = jm_set s (u, [i]) (fr_mappings r)" "fr_next r' = Suc i" "fr_nextConn r' = fr_nextConn r"
      "desired_of r' = jm_set u ds' (desired_of r)" "ds' = ds \<or> ds' = sadd s ds" "subs_of r' = jm_set i (s, False) (subs_of r)"
  shows "registry_ok opts r'"
proof -
  have fresh: "jm_get i (subs_of r) = None"
  proof (rule ccontr)
    assume "jm_get i (subs_of r) \<noteq> None"
    from ok_next [OF ok this] i show False by simp
  qed
  have none: "s \<notin> set es" if "jm_get v (desired_of r) = Some es" for v es
    using ok_desired(4) [OF ok that, of s] m by auto
  have ds': "set ds' \<subseteq> insert s (set ds)" "distinct ds'" "length ds' \<le> maxStreamsPerConnection (fo_family opts)"
    using r'(5) u(2) ok_desired(3) [OF ok u(1)] by (auto, auto simp: sadd_def)
  show ?thesis
    unfolding registry_ok_def r'(1-4,6)
  proof (intro conjI allI impI)
    show "length (jm_set u ds' (desired_of r)) \<le> fo_maxConnections opts"
      using u(1) ok by (simp add: length_jm_set_same registry_ok_def)
  next
    fix u' es assume d: "jm_get u' (jm_set u ds' (desired_of r)) = Some es"
    show "u' < fr_nextConn r" "length es \<le> maxStreamsPerConnection (fo_family opts)" "distinct es"
      using d ds' ok_desired(1-3) [OF ok, of u' es] ok_desired(1) [OF ok u(1)] by (auto simp: jm.get_put split: if_splits)
    show "\<forall>s'\<in>set es. \<exists>is. jm_get s' (jm_set s (u, [i]) (fr_mappings r)) = Some (u', is)"
    proof
      fix s' assume s': "s' \<in> set es"
      show "\<exists>is. jm_get s' (jm_set s (u, [i]) (fr_mappings r)) = Some (u', is)"
        using d s' ds'(1) ok_desired(4) [OF ok u(1), of s'] ok_desired(4) [OF ok, of u' es s'] none [of u' es]
        by (auto simp: jm.get_put split: if_splits)
    qed
  next
    fix s' u' js assume a: "jm_get s' (jm_set s (u, [i]) (fr_mappings r)) = Some (u', js)"
    show "js \<noteq> []" "distinct js" "jm_get u' (jm_set u ds' (desired_of r)) \<noteq> None"
      "\<forall>j\<in>set js. jm_get j (jm_set i (s, False) (subs_of r)) = Some (s', False)"
      using a ok_mapped [OF ok, of s' u' js] u fresh by (auto simp: jm.get_put split: if_splits)
  next
    fix j t assume "jm_get j (jm_set i (s, False) (subs_of r)) = Some (t, False)"
    with m ok_subs [OF ok, of j t]
    show "\<exists>u' is'. jm_get t (jm_set s (u, [i]) (fr_mappings r)) = Some (u', is') \<and> j \<in> set is'"
      by (auto simp: jm.get_put split: if_splits)
  next
    fix j assume "jm_get j (jm_set i (s, False) (subs_of r)) \<noteq> None"
    then show "j < Suc i" using ok_next [OF ok, of j] i by (auto simp: jm.get_put split: if_splits)
  qed (use ok in \<open>simp_all add: registry_ok_def jm.ok_put\<close>)
qed

text \<open>Closing a subscription: its identifier leaves the stream's list, and with the last one the stream
  leaves the mapping and the connection's desired set.\<close>

lemma ok_close:
  assumes ok: "registry_ok opts r" and i: "jm_get i (subs_of r) = Some (s, False)"
    and m: "jm_get s (fr_mappings r) = Some (u, is)" and u: "jm_get u (desired_of r) = Some ds"
    and r': "fr_mappings r' = (if removeAll i is = [] then jm_del s (fr_mappings r) else jm_set s (u, removeAll i is) (fr_mappings r))"
      "fr_next r' = fr_next r" "fr_nextConn r' = fr_nextConn r"
      "desired_of r' = (if removeAll i is = [] then jm_set u (sdels [s] ds) (desired_of r) else desired_of r)"
      "subs_of r' = jm_set i (s, True) (subs_of r)"
  shows "registry_ok opts r'"
proof -
  have only: "s' = s" if "jm_get s' (fr_mappings r) = Some (v, js)" "i \<in> set js" for s' v js
    using ok_mapped(4) [OF ok that] i by simp
  have other: "s \<notin> set es" if "jm_get v (desired_of r) = Some es" "v \<noteq> u" for v es
    using ok_desired(4) [OF ok that(1), of s] m that(2) by auto
  have get: "jm_get s' (fr_mappings r') =
      (if s' = s then if removeAll i is = [] then None else Some (u, removeAll i is) else jm_get s' (fr_mappings r))" for s'
    by (simp add: r'(1) jm.get_put jm.get_del)
  show ?thesis
    unfolding registry_ok_def r'(2,3,5)
  proof (intro conjI allI impI)
    show "jm_ok (desired_of r')" "jm_ok (fr_mappings r')"
      using ok by (simp_all add: r'(1,4) registry_ok_def jm.ok_put jm.ok_del)
    show "length (desired_of r') \<le> fo_maxConnections opts"
      using ok u by (simp add: r'(4) registry_ok_def length_jm_set_same)
  next
    fix v es assume d: "jm_get v (desired_of r') = Some es"
    have "length (sdels [s] ds) \<le> maxStreamsPerConnection (fo_family opts)"
      by (rule order_trans [OF _ ok_desired(2) [OF ok u]]) (simp add: sdels_def)
    then show "v < fr_nextConn r" "length es \<le> maxStreamsPerConnection (fo_family opts)" "distinct es"
      using d ok_desired(1-3) [OF ok, of v es] ok_desired(1-3) [OF ok u]
      by (auto simp: r'(4) jm.get_put sdels_def split: if_splits)
    show "\<forall>s'\<in>set es. \<exists>is. jm_get s' (fr_mappings r') = Some (v, is)"
    proof
      fix s' assume s': "s' \<in> set es"
      show "\<exists>is. jm_get s' (fr_mappings r') = Some (v, is)"
      proof (cases "removeAll i is = []")
        case True
        with d s' other [of v es] ok_desired(4) [OF ok u, of s'] ok_desired(4) [OF ok, of v es s'] show ?thesis
          by (auto simp: get r'(4) jm.get_put split: if_splits)
      next
        case False
        with d s' ok_desired(4) [OF ok, of v es s'] m show ?thesis by (auto simp: get r'(4))
      qed
    qed
  next
    fix s' v js assume a: "jm_get s' (fr_mappings r') = Some (v, js)"
    show "js \<noteq> []" "distinct js" "jm_get v (desired_of r') \<noteq> None"
      using a ok_mapped(1-3) [OF ok, of s' v js] ok_mapped(1-3) [OF ok m]
      by (auto simp: get r'(4) jm.get_put distinct_removeAll split: if_splits)
    show "\<forall>j\<in>set js. jm_get j (jm_set i (s, True) (subs_of r)) = Some (s', False)"
      using a ok_mapped(4) [OF ok, of s' v js] ok_mapped(4) [OF ok m] only [of s' v js]
      by (auto simp: get jm.get_put split: if_splits)
  next
    fix j t assume "jm_get j (jm_set i (s, True) (subs_of r)) = Some (t, False)"
    then have j: "j \<noteq> i" "jm_get j (subs_of r) = Some (t, False)" by (auto simp: jm.get_put split: if_splits)
    then obtain v js where v: "jm_get t (fr_mappings r) = Some (v, js)" "j \<in> set js" using ok_subs [OF ok] by blast
    then have "t = s \<Longrightarrow> j \<in> set (removeAll i is)" using j(1) m by simp
    with v m show "\<exists>v js. jm_get t (fr_mappings r') = Some (v, js) \<and> j \<in> set js"
      by (cases "removeAll i is = []") (auto simp: get)
  next
    fix j assume "jm_get j (jm_set i (s, True) (subs_of r)) \<noteq> None"
    then show "j < fr_next r" using ok_next [OF ok, of j] ok_next [OF ok, of i] i by (auto simp: jm.get_put split: if_splits)
  qed
qed

section \<open>Every event keeps it\<close>

lemma futures_desired:
  "bw_desired (futures_subscribe route i [s] idle opened b) = bw_desired b \<or>
   bw_desired (futures_subscribe route i [s] idle opened b) = sadd s (bw_desired b)"
  by (auto simp: futures_subscribe_def subscribeConfirmed_def Let_def bw_send_def say_def settle_waiters_sel sadds_single
      split: option.split)

lemma subs_of_set: "subs_of (r\<lparr>fr_subs := jm_set i s (fr_subs r)\<rparr>) = jm_set i (su_stream s, su_closed s) (subs_of r)"
  by (simp add: subs_of_def mapv_set)

lemma ok_conn_state: "registry_ok opts r \<Longrightarrow> registry_ok opts (conn_state u to r)"
  using ok_shape shape_conn_state by blast

lemma ok_joined:
  assumes ok: "registry_ok opts r" and m: "jm_get s (fr_mappings r) = Some (u, is)"
  shows "registry_ok opts (acquire opts s r)"
proof -
  let ?i = "fr_next r"
  let ?r = "r\<lparr>fr_next := Suc ?i, fr_subs := jm_set ?i (new_Subscription s (conn_name u r)) (fr_subs r),
      fr_mappings := jm_set s (u, is @ [?i]) (fr_mappings r)\<rparr>"
  have "registry_ok opts ?r"
    by (rule ok_join [OF ok m refl]) (simp_all add: subs_of_def desired_of_def mapv_set new_Subscription_def)
  moreover have "same_shape ?r (acquire opts s r)"
    using m shape_on_sub [OF keeps(1), of ?r ?i]
    by (auto simp: acquire_def join_stream_def Let_def shape_update split: option.split)
  ultimately show ?thesis using ok_shape by blast
qed

lemma ok_opened:
  assumes ok: "registry_ok opts a" and m: "jm_get s (fr_mappings a) = None"
    and c: "jm_get u (fr_pool a) = Some c" "pc_load c < maxStreamsPerConnection (fo_family opts)"
    and r2: "fr_mappings r2 = jm_set s (u, [fr_next a]) (fr_mappings a)" "fr_next r2 = Suc (fr_next a)"
      "fr_nextConn r2 = fr_nextConn a" "fr_pool r2 = fr_pool a" "subs_of r2 = jm_set (fr_next a) (s, False) (subs_of a)"
  shows "registry_ok opts (conn_do u (futures_subscribe route i [s] idle opened) r2)"
proof -
  have "jm_get u (fr_pool r2) = Some c" using c r2(4) by simp
  note do = desired_conn_do [OF this, of "futures_subscribe route i [s] idle opened"]
  have "desired_of r2 = desired_of a" using r2(4) by (simp add: desired_of_def)
  show ?thesis
    by (rule ok_open [OF ok m refl, where u = u and ds = "bw_desired (pc_ws c)"
          and ds' = "bw_desired (futures_subscribe route i [s] idle opened (pc_ws c))"])
      (use c do r2 \<open>desired_of r2 = desired_of a\<close> futures_desired in \<open>simp_all add: pc_load_def desired_of_def get_mapv\<close>)
qed

lemma ok_selected:
  assumes ok: "registry_ok opts r" and sel: "selectOrCreate opts [s] (fr_nextConn r) (fr_pool r) = Some (u, p)"
  shows "registry_ok opts (r\<lparr>fr_pool := p, fr_nextConn := (if u = fr_nextConn r then Suc (fr_nextConn r) else fr_nextConn r)\<rparr>)"
    (is "registry_ok opts ?a")
    and "\<exists>c. jm_get u p = Some c \<and> pc_load c < maxStreamsPerConnection (fo_family opts)"
proof -
  have "jm_ok (fr_pool r)" using ok by (simp add: registry_ok_def desired_of_def)
  from select_cases [OF sel this] show "\<exists>c. jm_get u p = Some c \<and> pc_load c < maxStreamsPerConnection (fo_family opts)"
    by (auto simp: jm.get_put pc_load_def cap_pos)
  from select_cases [OF sel \<open>jm_ok (fr_pool r)\<close>] show "registry_ok opts ?a"
  proof (elim disjE)
    assume a: "p = fr_pool r \<and> (\<exists>c. jm_get u (fr_pool r) = Some c \<and> pc_load c + 1 \<le> maxStreamsPerConnection (fo_family opts))"
    then obtain c where "jm_get u (fr_pool r) = Some c" by blast
    then have "u < fr_nextConn r" using ok_desired(1) [OF ok, of u "bw_desired (pc_ws c)"] by (simp add: desired_of_def get_mapv)
    with a have "same_shape r ?a" by (simp add: same_shape_def desired_of_def subs_of_def)
    then show ?thesis using ok_shape ok by blast
  next
    assume "u = fr_nextConn r \<and> length (fr_pool r) < fo_maxConnections opts \<and>
      (\<exists>c. p = jm_set (fr_nextConn r) c (fr_pool r) \<and> bw_desired (pc_ws c) = [])"
    then show ?thesis
      by (intro ok_new_conn [OF ok _ refl]) (auto simp: desired_of_def subs_of_def mapv_set)
  qed
qed

lemma ok_acquire:
  assumes ok: "registry_ok opts r"
  shows "registry_ok opts (acquire opts s r)"
proof (cases "jm_get s (fr_mappings r)")
  case (Some m)
  then show ?thesis using ok_joined [OF ok, of s "fst m" "snd m"] by simp
next
  case None
  show ?thesis
  proof (cases "selectOrCreate opts [s] (fr_nextConn r) (fr_pool r)")
    case no: None
    have "registry_ok opts (r\<lparr>fr_next := Suc (fr_next r)\<rparr>)"
      using ok by (auto simp: registry_ok_def desired_of_def subs_of_def less_Suc_eq)
    then have "registry_ok opts (r\<lparr>fr_next := Suc (fr_next r), fr_results := x\<rparr>)" for x
      by (rule ok_shape [rotated]) (simp add: shape_update)
    with None no show ?thesis by (simp add: acquire_def)
  next
    case (Some up)
    obtain u p where up: "up = (u, p)" by (cases up)
    note sel = ok_selected [OF ok Some [unfolded up]]
    let ?a = "r\<lparr>fr_pool := p, fr_nextConn := (if u = fr_nextConn r then Suc (fr_nextConn r) else fr_nextConn r)\<rparr>"
    from sel(2) obtain c where c: "jm_get u p = Some c" "pc_load c < maxStreamsPerConnection (fo_family opts)" by blast
    have "registry_ok opts (conn_do u (futures_subscribe route i [s] idle opened) (register_stream s u p r))"
      for route i idle opened
      by (rule ok_opened [OF sel(1)])
        (use None c in \<open>simp_all add: register_stream_def attach_def Let_def subs_of_def mapv_set new_Subscription_def\<close>)
    then have "registry_ok opts (conn_subscribe u c (fr_next r) s (register_stream s u p r))"
      by (simp add: conn_subscribe_def Let_def ok_conn_state)
    with None Some up c(1) show ?thesis by (simp add: acquire_def)
  qed
qed

definition still_open :: "registry \<Rightarrow> nat \<Rightarrow> bool" where
  "still_open r i \<longleftrightarrow> (\<exists>s. jm_get i (subs_of r) = Some (s, False))"

lemma close_sub_case:
  assumes "registry_ok opts r"
  obtains "close_sub i r = r" "\<not> still_open r i"
  | s u js ds where "jm_get i (subs_of r) = Some (s, False)" "jm_get s (fr_mappings r) = Some (u, js)"
      "jm_get u (desired_of r) = Some ds"
      "fr_mappings (close_sub i r) =
         (if removeAll i js = [] then jm_del s (fr_mappings r) else jm_set s (u, removeAll i js) (fr_mappings r))"
      "fr_next (close_sub i r) = fr_next r" "fr_nextConn (close_sub i r) = fr_nextConn r"
      "desired_of (close_sub i r) = (if removeAll i js = [] then jm_set u (sdels [s] ds) (desired_of r) else desired_of r)"
      "subs_of (close_sub i r) = jm_set i (s, True) (subs_of r)"
proof (cases "\<exists>sub. jm_get i (fr_subs r) = Some sub \<and> \<not> su_closed sub")
  case False
  then have "close_sub i r = r" "\<not> still_open r i"
    by (auto simp: close_sub_def still_open_def subs_of_def get_mapv split: option.split)
  then show ?thesis using that by blast
next
  case True
  then obtain sub where sub: "jm_get i (fr_subs r) = Some sub" "\<not> su_closed sub" by blast
  let ?s = "su_stream sub"
  have g: "jm_get i (subs_of r) = Some (?s, False)" using sub by (simp add: subs_of_def get_mapv)
  obtain u js where m: "jm_get ?s (fr_mappings r) = Some (u, js)" using ok_subs [OF assms g] by blast
  obtain ds where d: "jm_get u (desired_of r) = Some ds" using ok_mapped(3) [OF assms m] by blast
  then obtain c where c: "jm_get u (fr_pool r) = Some c" "bw_desired (pc_ws c) = ds"
    by (auto simp: desired_of_def get_mapv)
  let ?r = "r\<lparr>fr_subs := jm_set i (sub_close sub) (fr_subs r)\<rparr>"
  let ?r1 = "?r\<lparr>fr_mappings := jm_del ?s (fr_mappings r),
      fr_out := fr_out r @ [SubscriptionReleased ?s (conn_name u ?r)]\<rparr>"
  have cl: "close_sub i r = (if removeAll i js = [] then conn_do u (unsubscribeConfirmed [?s] (conn_open c)) ?r1
      else ?r\<lparr>fr_mappings := jm_set ?s (u, removeAll i js) (fr_mappings r)\<rparr>)"
    using sub m c by (simp add: close_sub_def on_sub_def release_def Let_def)
  have u1: "jm_get u (fr_pool ?r1) = Some c" using c by simp
  have sc: "su_stream (sub_close sub) = ?s" "su_closed (sub_close sub)" using sub(2) by (simp_all add: sub_close_def)
  show ?thesis
    using that(2) [OF g m d] cl desired_conn_do [OF u1, of "unsubscribeConfirmed [?s] (conn_open c)"] c(2) sc
    by (cases "removeAll i js = []")
      (simp_all add: desired_of_def subs_of_def mapv_set unsubscribeConfirmed_def desired_keeps)
qed

lemma ok_close_sub:
  assumes "registry_ok opts r"
  shows "registry_ok opts (close_sub i r)"
  by (rule close_sub_case [OF assms, of i]) (simp add: assms, rule ok_close [OF assms], assumption+)



lemma close_sub_open:
  assumes "registry_ok opts r"
  shows "still_open (close_sub i r) j \<Longrightarrow> j \<noteq> i \<and> still_open r j"
  by (rule close_sub_case [OF assms, of i])
    (auto simp: still_open_def jm.get_put split: if_splits)

lemma close_sub_shrinks:
  assumes "registry_ok opts r" "jm_get s (fr_mappings (close_sub i r)) = Some (u, js)"
  shows "\<exists>ks. jm_get s (fr_mappings r) = Some (u, ks) \<and> set js \<subseteq> set ks"
  by (rule close_sub_case [OF assms(1), of i])
    (use assms(2) in \<open>auto simp: jm.get_put jm.get_del split: if_splits\<close>)

lemma close_all_of:
  assumes "registry_ok opts r"
  shows "registry_ok opts (foldl (\<lambda>r i. close_sub i r) r js) \<and>
    (\<forall>j. still_open (foldl (\<lambda>r i. close_sub i r) r js) j \<longrightarrow> j \<notin> set js \<and> still_open r j) \<and>
    (\<forall>s u ks. jm_get s (fr_mappings (foldl (\<lambda>r i. close_sub i r) r js)) = Some (u, ks) \<longrightarrow>
       (\<exists>ls. jm_get s (fr_mappings r) = Some (u, ls) \<and> set ks \<subseteq> set ls))"
  using assms
proof (induction js arbitrary: r)
  case (Cons i js)
  from Cons.IH [OF ok_close_sub [OF Cons.prems, of i]] show ?case
    using close_sub_open [OF Cons.prems] close_sub_shrinks [OF Cons.prems] by simp (meson subset_trans)
qed auto

text \<open>In a stream's turn every subscription of it is closed, and the mapping is already gone.\<close>

definition inside_of :: "registry \<Rightarrow> (string \<times> nat \<times> nat list) list \<Rightarrow> bool" where
  "inside_of r ms \<longleftrightarrow> (\<forall>s u js v ks. (s, u, js) \<in> set ms \<longrightarrow>
     jm_get s (fr_mappings r) = Some (v, ks) \<longrightarrow> set ks \<subseteq> set js)"

lemma ok_closeAll_loop:
  assumes "registry_ok opts r" "inside_of r ms"
  shows "registry_ok opts (foldl (\<lambda>r (stream, u, js). let r1 = foldl (\<lambda>r i. close_sub i r) r js
      in r1\<lparr>fr_mappings := jm_del stream (fr_mappings r1)\<rparr>) r ms)"
  using assms
proof (induction ms arbitrary: r)
  case (Cons m ms)
  obtain s u js where m: "m = (s, u, js)" by (cases m)
  let ?r = "foldl (\<lambda>r i. close_sub i r) r js"
  note all = close_all_of [OF Cons.prems(1), of js]
  have "jm_get s (fr_mappings ?r) = None"
  proof (rule ccontr)
    assume "jm_get s (fr_mappings ?r) \<noteq> None"
    then obtain v ks where k: "jm_get s (fr_mappings ?r) = Some (v, ks)" by auto
    then obtain ls where "jm_get s (fr_mappings r) = Some (v, ls)" "set ks \<subseteq> set ls" using all by blast
    moreover have "jm_get s (fr_mappings r) = Some (v, ls) \<Longrightarrow> set ls \<subseteq> set js" for v ls
      using Cons.prems(2) m unfolding inside_of_def by (meson list.set_intros(1))
    ultimately have "set ks \<subseteq> set js" by blast
    moreover obtain j where "j \<in> set ks" using ok_mapped(1) [OF _ k] all by (cases ks) auto
    moreover have "still_open ?r j" using ok_mapped(4) [OF _ k \<open>j \<in> set ks\<close>] all by (auto simp: still_open_def)
    ultimately show False using all by blast
  qed
  then have same: "?r\<lparr>fr_mappings := jm_del s (fr_mappings ?r)\<rparr> = ?r" by (simp add: jm_del_absent)
  have tail: "jm_get s' (fr_mappings r) = Some (v, ls) \<Longrightarrow> set ls \<subseteq> set js'"
    if "(s', u', js') \<in> set ms" for s' u' js' v ls
    using Cons.prems(2) that unfolding inside_of_def by (meson list.set_intros(2))
  have "set ks \<subseteq> set js'" if "(s', u', js') \<in> set ms" "jm_get s' (fr_mappings ?r) = Some (v, ks)" for s' u' js' v ks
  proof -
    from all that(2) obtain ls where "jm_get s' (fr_mappings r) = Some (v, ls)" "set ks \<subseteq> set ls" by blast
    with tail [OF that(1)] show ?thesis by blast
  qed
  then have "inside_of ?r ms" unfolding inside_of_def by blast
  with Cons.IH [of ?r] all m same show ?case by (simp add: Let_def)
qed simp

lemma ok_closeAll: "registry_ok opts r \<Longrightarrow> registry_ok opts (registry_closeAll r)"
  unfolding registry_closeAll_def
  by (rule ok_closeAll_loop) (auto simp: inside_of_def registry_ok_def dest: jm_get_in)

lemma ok_conn_keep:
  "registry_ok opts r \<Longrightarrow> (\<And>b. bw_desired (f b) = bw_desired b) \<Longrightarrow> registry_ok opts (conn_do u f r)"
  using ok_shape shape_conn_keep by blast

lemma ok_step: "registry_ok opts r \<Longrightarrow> registry_ok opts (fr_step opts r e)"
  by (cases e)
    (auto simp: ok_acquire ok_close_sub ok_closeAll ok_conn_state acquire_timeout_def desired_keeps ok_conn_keep
      conn_opened_def conn_resync_reply_def intro: ok_shape shape_acquire_done shape_deliver split: option.split)

lemma ok_new: "registry_ok opts new_registry"
  by (simp add: registry_ok_def new_registry_def desired_of_def subs_of_def mapv_def jm_ok_def jm_get_def)

interpretation frm: invariant_machine "fr_step opts" "registry_ok opts" "\<lambda>_. True" for opts
  by unfold_locales (rule ok_step)

lemma registry_reach: "registry_ok opts (foldl (fr_step opts) new_registry evs)"
  by (rule frm.run_inv [OF ok_new]) (simp add: list_all_iff)

section \<open>What a subscription is told\<close>

lemma on_sub_get: "jm_get j (fr_subs (on_sub f i r)) = (if j = i then map_option f (jm_get j (fr_subs r)) else jm_get j (fr_subs r))"
  by (simp add: on_sub_def jm.get_put split: option.split)

lemma on_subs_get:
  "distinct js \<Longrightarrow> jm_get j (fr_subs (on_subs f js r)) =
     (if j \<in> set js then map_option f (jm_get j (fr_subs r)) else jm_get j (fr_subs r))"
  by (induction js arbitrary: r) (auto simp: on_subs_def on_sub_get)

definition frozen :: "nat \<Rightarrow> subscription \<Rightarrow> registry \<Rightarrow> bool" where
  "frozen i s r \<longleftrightarrow> su_closed s \<and> jm_get i (fr_subs r) = Some s \<and> i < fr_next r"

definition spares_closed :: "(subscription \<Rightarrow> subscription) \<Rightarrow> bool" where
  "spares_closed f \<longleftrightarrow> (\<forall>s. su_closed s \<longrightarrow> f s = s)"

lemma spares [simp]:
  "spares_closed markLive" "spares_closed (markPending reason)" "spares_closed (dispatch payload)" "spares_closed sub_close"
  by (simp_all add: spares_closed_def markLive_def markPending_def dispatch_def sub_close_def)

lemma on_sub_next [simp]: "fr_next (on_sub f j r) = fr_next r"
  by (simp add: on_sub_def split: option.split)

lemma frozen_on_sub: "frozen i s r \<Longrightarrow> spares_closed f \<Longrightarrow> frozen i s (on_sub f j r)"
  by (auto simp: frozen_def on_sub_get spares_closed_def)

lemma frozen_foldl: "frozen i s r \<Longrightarrow> (\<And>r x. frozen i s r \<Longrightarrow> frozen i s (g r x)) \<Longrightarrow> frozen i s (foldl g r xs)"
  by (induction xs arbitrary: r) auto

lemma frozen_on_subs: "frozen i s r \<Longrightarrow> spares_closed f \<Longrightarrow> frozen i s (on_subs f js r)"
  unfolding on_subs_def by (rule frozen_foldl) (auto intro: frozen_on_sub)

lemma frozen_update:
  "frozen i s (r\<lparr>fr_awaiting := a\<rparr>) = frozen i s r" "frozen i s (r\<lparr>fr_results := b\<rparr>) = frozen i s r"
  "frozen i s (r\<lparr>fr_out := o'\<rparr>) = frozen i s r" "frozen i s (r\<lparr>fr_attached := n\<rparr>) = frozen i s r"
  "frozen i s (r\<lparr>fr_pool := p\<rparr>) = frozen i s r" "frozen i s (r\<lparr>fr_mappings := m\<rparr>) = frozen i s r"
  "frozen i s (r\<lparr>fr_nextConn := k\<rparr>) = frozen i s r"
  by (simp_all add: frozen_def)

lemma frozen_react: "frozen i s r \<Longrightarrow> frozen i s (react r x)"
  by (cases x) (simp_all add: acquire_done_def Let_def frozen_update frozen_on_sub)

lemma frozen_refresh: "frozen i s r \<Longrightarrow> frozen i s (refreshConfirmed u r)"
  by (auto simp: refreshConfirmed_def intro!: frozen_foldl frozen_on_subs split: option.split prod.split)

lemma frozen_set_ws: "frozen i s r \<Longrightarrow> frozen i s (set_ws u b r)"
  by (simp add: set_ws_def frozen_update split: option.split)

lemma frozen_conn_do: "frozen i s r \<Longrightarrow> frozen i s (conn_do u f r)"
  by (auto simp: conn_do_def Let_def intro!: frozen_refresh frozen_foldl frozen_react frozen_set_ws split: option.split)

lemma frozen_conn_state: "frozen i s r \<Longrightarrow> frozen i s (conn_state u to r)"
  by (auto simp: conn_state_def markConnectionPending_def Let_def frozen_update
      intro!: frozen_foldl frozen_on_subs split: option.split prod.split)

lemma frozen_acquire: "frozen i s r \<Longrightarrow> frozen i s (acquire opts stream r)"
proof -
  assume fr: "frozen i s r"
  then have new: "frozen i s (r\<lparr>fr_next := Suc (fr_next r), fr_subs := jm_set (fr_next r) x (fr_subs r)\<rparr>)" for x
    by (simp add: frozen_def jm.get_put)
  have "frozen i s (join_stream stream u js r)" for u js
    using frozen_on_sub [OF _ spares(1)] new fr
    by (auto simp: join_stream_def Let_def frozen_update split: option.split)
  moreover have "frozen i s (register_stream stream u p r)" for u p
    using fr by (simp add: register_stream_def attach_def Let_def frozen_def jm.get_put)
  moreover have "frozen i s (r\<lparr>fr_next := Suc (fr_next r), fr_results := x\<rparr>)" for x
    using fr by (simp add: frozen_def)
  ultimately show ?thesis
    by (auto simp: acquire_def conn_subscribe_def Let_def intro!: frozen_conn_state frozen_conn_do split: option.split prod.split)
qed

lemma frozen_close_sub: "frozen i s r \<Longrightarrow> frozen i s (close_sub j r)"
  by (auto simp: close_sub_def release_def Let_def frozen_update intro!: frozen_conn_do frozen_on_sub
      split: option.split prod.split)

lemma frozen_step: "frozen i s r \<Longrightarrow> frozen i s (fr_step opts r e)"
proof (cases e)
  case CloseAll
  then show "frozen i s r \<Longrightarrow> ?thesis"
    by (auto simp: registry_closeAll_def Let_def frozen_update intro!: frozen_foldl frozen_close_sub split: prod.split)
qed (auto simp: acquire_timeout_def acquire_done_def deliver_def conn_opened_def conn_resync_reply_def Let_def frozen_update
    intro!: frozen_acquire frozen_close_sub frozen_conn_state frozen_conn_do frozen_on_subs split: option.split prod.split)

interpretation closedm: invariant_machine "fr_step opts" "frozen i s" "\<lambda>_. True" for opts i s
  by unfold_locales (rule frozen_step)

lemma frame_on_subs: "fr_pool (on_subs f js r) = fr_pool r" "fr_mappings (on_subs f js r) = fr_mappings r"
  unfolding on_subs_def by (induction js arbitrary: r) (auto simp: on_sub_def split: option.split)

lemma pool_react: "fr_pool (react r x) = fr_pool r"
  by (cases x) (simp_all add: acquire_done_def on_sub_def Let_def split: option.split)

lemma pool_foldl: "(\<And>r x. fr_pool (g r x) = fr_pool r) \<Longrightarrow> fr_pool (foldl g r xs) = fr_pool r"
  by (induction xs arbitrary: r) auto

lemma pool_conn_do:
  assumes "jm_get u (fr_pool r) = Some c"
  shows "fr_pool (conn_do u f r) = jm_set u (c\<lparr>pc_ws := f (pc_ws c)\<rparr>) (fr_pool r)"
proof -
  have "fr_pool (refreshConfirmed u r) = fr_pool r" for r
    unfolding refreshConfirmed_def
    by (auto simp: frame_on_subs intro!: pool_foldl split: option.split prod.split)
  with assms show ?thesis
    by (simp add: conn_do_def set_ws_def Let_def pool_foldl pool_react)
qed

lemma desired_on_of: "desired_on u r = (case jm_get u (desired_of r) of None \<Rightarrow> [] | Some ds \<Rightarrow> ds)"
  by (simp add: desired_on_def desired_of_def get_mapv split: option.split)

lemma desired_on_mapped:
  assumes "registry_ok opts r" "s \<in> set (desired_on u r)"
  shows "\<exists>js. jm_get s (fr_mappings r) = Some (u, js)"
proof -
  show ?thesis
  proof (cases "jm_get u (desired_of r)")
    case None
    with assms(2) show ?thesis by (simp add: desired_on_of)
  next
    case (Some ds)
    with assms(2) ok_desired(4) [OF assms(1) Some] show ?thesis by (simp add: desired_on_of)
  qed
qed

lemma mapped_open:
  assumes "registry_ok opts r" "jm_get s (fr_mappings r) = Some (u, js)" "i \<in> set js"
  shows "\<exists>sub. jm_get i (fr_subs r) = Some sub \<and> su_stream sub = s \<and> \<not> su_closed sub"
  using ok_mapped(4) [OF assms] by (auto simp: subs_of_def get_mapv)

lemma open_mapped:
  assumes "registry_ok opts r" "jm_get i (fr_subs r) = Some sub" "\<not> su_closed sub"
  shows "\<exists>u js. jm_get (su_stream sub) (fr_mappings r) = Some (u, js) \<and> i \<in> set js"
  using ok_subs [OF assms(1), of i "su_stream sub"] assms(2,3) by (simp add: subs_of_def get_mapv)

lemma close_sub_pool:
  assumes ok: "registry_ok opts r" and i: "jm_get i (fr_subs r) = Some sub" "\<not> su_closed sub"
    and m: "jm_get (su_stream sub) (fr_mappings r) = Some (u, js)"
  shows "removeAll i js \<noteq> [] \<Longrightarrow> fr_pool (close_sub i r) = fr_pool r"
    "removeAll i js = [] \<Longrightarrow> \<exists>c. jm_get u (fr_pool r) = Some c \<and>
      fr_pool (close_sub i r) = jm_set u (c\<lparr>pc_ws := unsubscribeConfirmed [su_stream sub] (conn_open c) (pc_ws c)\<rparr>) (fr_pool r) \<and>
      fr_mappings (close_sub i r) = jm_del (su_stream sub) (fr_mappings r)"
proof -
  let ?r = "r\<lparr>fr_subs := jm_set i (sub_close sub) (fr_subs r)\<rparr>"
  show "removeAll i js \<noteq> [] \<Longrightarrow> fr_pool (close_sub i r) = fr_pool r"
    using i m by (simp add: close_sub_def on_sub_def release_def Let_def)
  obtain c where c: "jm_get u (fr_pool r) = Some c"
    using ok_mapped(3) [OF ok m] by (auto simp: desired_of_def get_mapv)
  let ?r1 = "?r\<lparr>fr_mappings := jm_del (su_stream sub) (fr_mappings r),
      fr_out := fr_out r @ [SubscriptionReleased (su_stream sub) (conn_name u ?r)]\<rparr>"
  have u1: "jm_get u (fr_pool ?r1) = Some c" using c by simp
  assume e: "removeAll i js = []"
  have "close_sub i r = conn_do u (unsubscribeConfirmed [su_stream sub] (conn_open c)) ?r1"
    using i m c e by (simp add: close_sub_def on_sub_def release_def Let_def)
  with pool_conn_do [OF u1] desired_conn_do(2) [OF u1] c show "\<exists>c. jm_get u (fr_pool r) = Some c \<and>
      fr_pool (close_sub i r) = jm_set u (c\<lparr>pc_ws := unsubscribeConfirmed [su_stream sub] (conn_open c) (pc_ws c)\<rparr>) (fr_pool r) \<and>
      fr_mappings (close_sub i r) = jm_del (su_stream sub) (fr_mappings r)"
    by simp
qed

lemma registry_facts:
  assumes ok: "registry_ok opts r"
  shows "length (fr_pool r) \<le> fo_maxConnections opts"
    "length (desired_on u r) \<le> maxStreamsPerConnection (fo_family opts)" "distinct (desired_on u r)"
    "u \<noteq> v \<Longrightarrow> set (desired_on u r) \<inter> set (desired_on v r) = {}"
    "s \<in> set (desired_on u r) \<Longrightarrow> \<exists>i sub. jm_get i (fr_subs r) = Some sub \<and> su_stream sub = s \<and> \<not> su_closed sub"
proof -
  show "length (fr_pool r) \<le> fo_maxConnections opts" using ok by (simp add: registry_ok_def desired_of_def)
  show "length (desired_on u r) \<le> maxStreamsPerConnection (fo_family opts)" "distinct (desired_on u r)"
    using ok_desired(2,3) [OF ok] by (simp_all add: desired_on_of split: option.split)
  show "set (desired_on u r) \<inter> set (desired_on v r) = {}" if "u \<noteq> v"
  proof (rule ccontr)
    assume "set (desired_on u r) \<inter> set (desired_on v r) \<noteq> {}"
    then obtain s where s: "s \<in> set (desired_on u r)" "s \<in> set (desired_on v r)" by blast
    from desired_on_mapped [OF ok s(1)] desired_on_mapped [OF ok s(2)] that show False by auto
  qed
  assume "s \<in> set (desired_on u r)"
  then obtain js where js: "jm_get s (fr_mappings r) = Some (u, js)" using desired_on_mapped [OF ok] by blast
  then obtain i where "i \<in> set js" using ok_mapped(1) [OF ok js] by (cases js) auto
  with mapped_open [OF ok js] show "\<exists>i sub. jm_get i (fr_subs r) = Some sub \<and> su_stream sub = s \<and> \<not> su_closed sub"
    by blast
qed

section \<open>Properties\<close>

text \<open>C20: Whatever is subscribed, closed, delivered, dropped or repaired, a family never has more connections
  than its cap, no connection carries more streams than the exchange allows it, a stream is desired on
  at most one connection, and it is desired only while some subscription to it is open.\<close>

theorem stream_platform_invariant:
  "let r = foldl (fr_step opts) new_registry evs in
    length (fr_pool r) \<le> fo_maxConnections opts \<and>
    (\<forall>u. length (desired_on u r) \<le> maxStreamsPerConnection (fo_family opts) \<and> distinct (desired_on u r)) \<and>
    (\<forall>u v. u \<noteq> v \<longrightarrow> set (desired_on u r) \<inter> set (desired_on v r) = {}) \<and>
    (\<forall>u. \<forall>s\<in>set (desired_on u r). \<exists>i sub. jm_get i (fr_subs r) = Some sub \<and> su_stream sub = s \<and> \<not> su_closed sub)"
  using registry_facts [OF registry_reach [of opts evs]] by (simp add: Let_def)

text \<open>A subscription that has been closed is never told anything again: no event of any connection,
  no later subscription to the same stream and no repair changes its record.\<close>

theorem closed_subscription_silent:
  assumes "jm_get i (fr_subs r) = Some s" "su_closed s" "i < fr_next r"
  shows "jm_get i (fr_subs (foldl (fr_step opts) r evs)) = Some s"
proof -
  have "frozen i s (foldl (fr_step opts) r evs)"
    by (rule closedm.run_inv) (use assms in \<open>simp_all add: frozen_def list_all_iff\<close>)
  then show ?thesis by (simp add: frozen_def)
qed

text \<open>Subscriptions of one stream share one server subscription: closing one while another is open sends
  nothing on any connection, and closing the last one drops the stream from the connection's desired
  set and, if the connection is open, sends exactly one unsubscribe request for it.\<close>

theorem last_close_unsubscribes:
  assumes r: "r = foldl (fr_step opts) new_registry evs"
    and i: "jm_get i (fr_subs r) = Some sub" "\<not> su_closed sub" "su_stream sub = s"
  shows "if \<exists>j sub'. j \<noteq> i \<and> jm_get j (fr_subs r) = Some sub' \<and> \<not> su_closed sub' \<and> su_stream sub' = s
    then fr_pool (close_sub i r) = fr_pool r
    else \<exists>u c. jm_get u (fr_pool r) = Some c \<and>
      fr_pool (close_sub i r) = jm_set u (c\<lparr>pc_ws := unsubscribeConfirmed [s] (conn_open c) (pc_ws c)\<rparr>) (fr_pool r) \<and>
      (\<forall>v. s \<notin> set (desired_on v (close_sub i r)))"
proof -
  have ok: "registry_ok opts r" unfolding r by (rule registry_reach)
  obtain u js where m: "jm_get s (fr_mappings r) = Some (u, js)" "i \<in> set js"
    using open_mapped [OF ok i(1,2)] i(3) by blast
  note pool = close_sub_pool [OF ok i(1,2), unfolded i(3), OF m(1)]
  show ?thesis
  proof (cases "\<exists>j sub'. j \<noteq> i \<and> jm_get j (fr_subs r) = Some sub' \<and> \<not> su_closed sub' \<and> su_stream sub' = s")
    case True
    then obtain j where "j \<noteq> i" "j \<in> set js" using open_mapped [OF ok] m(1) by fastforce
    then have "removeAll i js \<noteq> []" by (metis empty_iff list.set(1) set_removeAll Diff_iff singletonD)
    with pool(1) True show ?thesis by simp
  next
    case False
    with mapped_open [OF ok m(1)] have "set js \<subseteq> {i}" by blast
    then have "removeAll i js = []" by (metis set_empty set_removeAll Diff_eq_empty_iff)
    from pool(2) [OF this] obtain c where c: "jm_get u (fr_pool r) = Some c"
      "fr_pool (close_sub i r) = jm_set u (c\<lparr>pc_ws := unsubscribeConfirmed [s] (conn_open c) (pc_ws c)\<rparr>) (fr_pool r)"
      "fr_mappings (close_sub i r) = jm_del s (fr_mappings r)" by blast
    have "s \<notin> set (desired_on v (close_sub i r))" for v
      using desired_on_mapped [OF ok_close_sub [OF ok, of i], of s v] c(3) by (auto simp: jm.get_del)
    with False c show ?thesis by auto
  qed
qed

text \<open>A frame for a stream reaches every open subscription of that stream, once, when it comes from the
  connection that carries it, and no other subscription.\<close>

theorem frames_fan_out:
  assumes r: "r = foldl (fr_step opts) new_registry evs" and i: "jm_get i (fr_subs r) = Some sub"
  shows "jm_get i (fr_subs (fr_step opts r (ConnMessage u stream payload))) =
    Some (if \<not> su_closed sub \<and> su_stream sub = stream \<and> (\<exists>js. jm_get stream (fr_mappings r) = Some (u, js))
          then sub\<lparr>su_out := su_out sub @ [SubMessage payload]\<rparr> else sub)"
proof -
  have ok: "registry_ok opts r" unfolding r by (rule registry_reach)
  show ?thesis
  proof (cases "jm_get stream (fr_mappings r)")
    case None
    then show ?thesis using i by (simp add: deliver_def)
  next
    case (Some m)
    obtain v js where m: "m = (v, js)" by (cases m)
    have d: "distinct js" using ok_mapped(2) [OF ok] Some m by blast
    have "i \<in> set js \<longleftrightarrow> \<not> su_closed sub \<and> su_stream sub = stream"
      using mapped_open [OF ok, of stream v js i] open_mapped [OF ok i] Some m i by auto
    with Some m d i show ?thesis by (auto simp: deliver_def on_subs_get dispatch_def)
  qed
qed

section \<open>Witnesses\<close>

definition wit_pool :: pool_options where
  "wit_pool = pool_options_of Spot ''wss'' None None"

definition wit_sub :: subscription where
  "wit_sub = \<lparr>su_stream = ''btcusdt@trade'', su_connection = ''spotMarket[0]'', su_state = SubPending,
     su_closed = False, su_out = []\<rparr>"

lemma wit_acquired: "jm_get 1 (fr_subs (foldl (fr_step wit_pool) new_registry [Acquire ''btcusdt@trade''])) = Some wit_sub"
  by code_simp

theorem closed_subscription_silent_witness:
  "jm_get 1 (fr_subs (foldl (fr_step wit_pool) (foldl (fr_step wit_pool) new_registry [Acquire ''btcusdt@trade'', CloseSub 1])
     [Acquire ''btcusdt@trade'', ConnMessage 1 ''btcusdt@trade'' ''x''])) = Some (sub_close wit_sub)"
proof -
  let ?r = "foldl (fr_step wit_pool) new_registry [Acquire ''btcusdt@trade'', CloseSub 1]"
  have "jm_get 1 (fr_subs ?r) = Some (sub_close wit_sub) \<and> su_closed (sub_close wit_sub) \<and> 1 < fr_next ?r"
    by code_simp
  then have "jm_get 1 (fr_subs ?r) = Some (sub_close wit_sub)" "su_closed (sub_close wit_sub)" "1 < fr_next ?r" by blast+
  then show ?thesis by (rule closed_subscription_silent)
qed

theorem last_close_unsubscribes_witness:
  "''btcusdt@trade'' \<notin> set (desired_on 1 (close_sub 1 (foldl (fr_step wit_pool) new_registry [Acquire ''btcusdt@trade''])))"
proof -
  let ?r = "foldl (fr_step wit_pool) new_registry [Acquire ''btcusdt@trade'']"
  have s: "\<not> su_closed wit_sub" "su_stream wit_sub = ''btcusdt@trade''" by (simp_all add: wit_sub_def)
  have "fr_subs ?r = [(1, wit_sub)]" by code_simp
  then have "\<not> (\<exists>j sub'. j \<noteq> 1 \<and> jm_get j (fr_subs ?r) = Some sub' \<and> \<not> su_closed sub' \<and> su_stream sub' = ''btcusdt@trade'')"
    by (simp add: jm_get_def)
  with last_close_unsubscribes [OF refl wit_acquired s] show ?thesis by (simp only: if_False) blast
qed

theorem frames_fan_out_witness:
  "jm_get 1 (fr_subs (fr_step wit_pool (foldl (fr_step wit_pool) new_registry [Acquire ''btcusdt@trade''])
     (ConnMessage 1 ''btcusdt@trade'' ''x''))) = Some (wit_sub\<lparr>su_out := [SubMessage ''x'']\<rparr>)"
proof -
  have "fr_mappings (foldl (fr_step wit_pool) new_registry [Acquire ''btcusdt@trade'']) = [(''btcusdt@trade'', 1, [1])]"
    by code_simp
  then show ?thesis
    using frames_fan_out [OF refl wit_acquired, of 1 "''btcusdt@trade''" "''x''"]
    by (simp add: jm_get_def wit_sub_def)
qed

theorem stream_platform_invariant_witness:
  "length (desired_on 1 (foldl (fr_step wit_pool) new_registry [Acquire ''btcusdt@trade''])) \<le> 1024 \<and>
   (\<exists>i sub. jm_get i (fr_subs (foldl (fr_step wit_pool) new_registry [Acquire ''btcusdt@trade''])) = Some sub \<and>
     su_stream sub = ''btcusdt@trade'')"
proof -
  have "''btcusdt@trade'' \<in> set (desired_on 1 (foldl (fr_step wit_pool) new_registry [Acquire ''btcusdt@trade'']))"
    by code_simp
  moreover have "maxStreamsPerConnection (fo_family wit_pool) = 1024" by code_simp
  ultimately show ?thesis
    using stream_platform_invariant [of wit_pool "[Acquire ''btcusdt@trade'']"] unfolding Let_def by metis
qed

end
