(* ===== verification/Ws_Renewal.thy ===== *)
theory Ws_Renewal
  imports Ws_Connection JS_Number
begin

text \<open>
  Keeping pooled connections alive: \<open>src/ws/platform/RenewalController.ts\<close> (staggered rotation before
  the server's 24 hour limit, with a cap on how many rotate at once) and \<open>Heartbeat.ts\<close> (one watchdog
  for all connections). A connection is its name; the state it reports is \<open>rn_states\<close>, kept by its
  events, and what \<open>rotateNow\<close> answers and the random draw come with the event that asks.
  Lemmas: the cap, that an open connection's renewal is never forgotten, what blocks it, what a check does.
\<close>

section \<open>Renewal\<close>

record renewal_options =
  ro_rotationMs :: int
  ro_jitterMs :: int
  ro_maxConcurrent :: nat
  ro_retryMs :: int

definition renewal_options_of :: "int option \<Rightarrow> int option \<Rightarrow> nat option \<Rightarrow> int option \<Rightarrow> renewal_options" where
  "renewal_options_of rotation jitter most retry =
     \<lparr>ro_rotationMs = (case rotation of None \<Rightarrow> 82800000 | Some x \<Rightarrow> x),
      ro_jitterMs = (case jitter of None \<Rightarrow> 600000 | Some x \<Rightarrow> x),
      ro_maxConcurrent = max 1 (case most of None \<Rightarrow> 1 | Some x \<Rightarrow> x),
      ro_retryMs = (case retry of None \<Rightarrow> 30000 | Some x \<Rightarrow> x)\<rparr>"

record tracked =
  tk_nextRenewalAt :: "int option"
  tk_timer :: "nat option"
  tk_rotating :: bool

datatype renewal_output = RenewalPostponed string | RenewalStarted string bool

record renewal =
  rn_tracked :: "(string, tracked) jsmap"
  rn_states :: "(string, ws_state) jsmap"
  rn_timers :: "(nat, string \<times> int) jsmap"
  rn_counter :: nat
  rn_out :: "renewal_output list"

definition new_renewal :: renewal where
  "new_renewal = \<lparr>rn_tracked = [], rn_states = [], rn_timers = [], rn_counter = 0, rn_out = []\<rparr>"

definition conn_is_open :: "string \<Rightarrow> renewal \<Rightarrow> bool" where
  "conn_is_open name r \<longleftrightarrow> jm_get name (rn_states r) = Some OPEN"

definition clear_timer :: "string \<Rightarrow> tracked \<Rightarrow> renewal \<Rightarrow> renewal" where
  "clear_timer name t r =
     (case tk_timer t of
        None \<Rightarrow> r
      | Some h \<Rightarrow> r\<lparr>rn_timers := jm_del h (rn_timers r), rn_tracked := jm_set name (t\<lparr>tk_timer := None\<rparr>) (rn_tracked r)\<rparr>)"

text \<open>Arms the timer of a tracked connection and stores its new record.\<close>

definition arm :: "string \<Rightarrow> tracked \<Rightarrow> int \<Rightarrow> renewal \<Rightarrow> renewal" where
  "arm name t ms r =
     r\<lparr>rn_timers := jm_set (rn_counter r) (name, ms) (rn_timers r), rn_counter := Suc (rn_counter r),
       rn_tracked := jm_set name (t\<lparr>tk_timer := Some (rn_counter r)\<rparr>) (rn_tracked r)\<rparr>"

definition renewal_jitter :: "renewal_options \<Rightarrow> rat \<Rightarrow> int" where
  "renewal_jitter opts random = (if 0 < ro_jitterMs opts then \<lfloor>random * of_int (ro_jitterMs opts)\<rfloor> else 0)"

definition scheduleRenewal :: "renewal_options \<Rightarrow> string \<Rightarrow> int \<Rightarrow> rat \<Rightarrow> renewal \<Rightarrow> renewal" where
  "scheduleRenewal opts name now random r =
     (case jm_get name (rn_tracked r) of
        None \<Rightarrow> r
      | Some t \<Rightarrow>
          let delay = ro_rotationMs opts + renewal_jitter opts random
          in arm name \<lparr>tk_nextRenewalAt = Some (now + delay), tk_timer = None, tk_rotating = False\<rparr> delay (clear_timer name t r))"

definition countInFlight :: "renewal \<Rightarrow> nat" where
  "countInFlight r = length (filter (\<lambda>(k, t). tk_rotating t) (rn_tracked r))"

definition fireRenewal :: "renewal_options \<Rightarrow> string \<Rightarrow> bool \<Rightarrow> int \<Rightarrow> rat \<Rightarrow> renewal \<Rightarrow> renewal" where
  "fireRenewal opts name started now random r =
     (case jm_get name (rn_tracked r) of
        None \<Rightarrow> r
      | Some t \<Rightarrow>
          let t1 = t\<lparr>tk_nextRenewalAt := None\<rparr>
          in if \<not> conn_is_open name r
             then r\<lparr>rn_tracked := jm_set name (t1\<lparr>tk_rotating := False\<rparr>) (rn_tracked r)\<rparr>
             else if ro_maxConcurrent opts \<le> countInFlight r
             then arm name t1 (ro_retryMs opts) (r\<lparr>rn_out := rn_out r @ [RenewalPostponed name]\<rparr>)
             else
               let r1 = r\<lparr>rn_tracked := jm_set name (t1\<lparr>tk_rotating := True\<rparr>) (rn_tracked r),
                         rn_out := rn_out r @ [RenewalStarted name started]\<rparr>
               in if \<not> started then scheduleRenewal opts name now random r1 else r1)"

definition renewal_timer :: "renewal_options \<Rightarrow> nat \<Rightarrow> bool \<Rightarrow> int \<Rightarrow> rat \<Rightarrow> renewal \<Rightarrow> renewal" where
  "renewal_timer opts h started now random r =
     (case jm_get h (rn_timers r) of
        None \<Rightarrow> r
      | Some (name, ms) \<Rightarrow>
          let r1 = r\<lparr>rn_timers := jm_del h (rn_timers r)\<rparr>
          in case jm_get name (rn_tracked r1) of
               None \<Rightarrow> r1
             | Some t \<Rightarrow> fireRenewal opts name started now random
                 (r1\<lparr>rn_tracked := jm_set name (t\<lparr>tk_timer := None\<rparr>) (rn_tracked r1)\<rparr>))"

definition on_rotated :: "renewal_options \<Rightarrow> string \<Rightarrow> int \<Rightarrow> rat \<Rightarrow> renewal \<Rightarrow> renewal" where
  "on_rotated opts name now random r = scheduleRenewal opts name now random r"

definition on_rotation_failed :: "renewal_options \<Rightarrow> string \<Rightarrow> int \<Rightarrow> renewal \<Rightarrow> renewal" where
  "on_rotation_failed opts name now r =
     (case jm_get name (rn_tracked r) of
        None \<Rightarrow> r
      | Some t \<Rightarrow> arm name \<lparr>tk_nextRenewalAt = Some (now + ro_retryMs opts), tk_timer = None, tk_rotating = False\<rparr>
                   (ro_retryMs opts) (clear_timer name t r))"

definition on_state :: "renewal_options \<Rightarrow> string \<Rightarrow> ws_state \<Rightarrow> int \<Rightarrow> rat \<Rightarrow> renewal \<Rightarrow> renewal" where
  "on_state opts name to now random r =
     (let r1 = r\<lparr>rn_states := jm_set name to (rn_states r)\<rparr>
      in if to = OPEN then scheduleRenewal opts name now random r1 else r1)"

definition track :: "renewal_options \<Rightarrow> string \<Rightarrow> int \<Rightarrow> rat \<Rightarrow> renewal \<Rightarrow> renewal" where
  "track opts name now random r =
     (if jm_get name (rn_tracked r) \<noteq> None then r
      else
        let r1 = r\<lparr>rn_tracked := jm_set name \<lparr>tk_nextRenewalAt = None, tk_timer = None, tk_rotating = False\<rparr> (rn_tracked r)\<rparr>
        in if conn_is_open name r1 then scheduleRenewal opts name now random r1 else r1)"

definition untrack :: "string \<Rightarrow> renewal \<Rightarrow> renewal" where
  "untrack name r =
     (case jm_get name (rn_tracked r) of
        None \<Rightarrow> r
      | Some t \<Rightarrow> let r1 = clear_timer name t r in r1\<lparr>rn_tracked := jm_del name (rn_tracked r1)\<rparr>)"

definition renewal_close :: "renewal \<Rightarrow> renewal" where
  "renewal_close r = foldl (\<lambda>r name. untrack name r) r (jm_keys (rn_tracked r))"

definition nextRenewalAt :: "string \<Rightarrow> renewal \<Rightarrow> int option" where
  "nextRenewalAt name r = Option.bind (jm_get name (rn_tracked r)) tk_nextRenewalAt"

definition isRenewing :: "string \<Rightarrow> renewal \<Rightarrow> bool" where
  "isRenewing name r = (case jm_get name (rn_tracked r) of None \<Rightarrow> False | Some t \<Rightarrow> tk_rotating t)"

datatype renewal_event =
    Track string int rat
  | Untrack string
  | StateChanged string ws_state int rat
  | RotatedEvent string int rat
  | RotationFailedEvent string int
  | RenewalTimer nat bool int rat
  | RenewalClose

fun rn_step :: "renewal_options \<Rightarrow> renewal \<Rightarrow> renewal_event \<Rightarrow> renewal" where
  "rn_step opts r (Track name now random) = track opts name now random r"
| "rn_step opts r (Untrack name) = untrack name r"
| "rn_step opts r (StateChanged name to now random) = on_state opts name to now random r"
| "rn_step opts r (RotatedEvent name now random) = on_rotated opts name now random r"
| "rn_step opts r (RotationFailedEvent name now) = on_rotation_failed opts name now r"
| "rn_step opts r (RenewalTimer h started now random) = renewal_timer opts h started now random r"
| "rn_step opts r RenewalClose = renewal_close r"

section \<open>The watchdog\<close>

record heartbeat =
  hb_staleMs :: int
  hb_watched :: "(string, string) jsmap"
  hb_ticking :: bool

definition ensureTicking :: "heartbeat \<Rightarrow> heartbeat" where
  "ensureTicking h = (if hb_ticking h \<or> hb_watched h = [] then h else h\<lparr>hb_ticking := True\<rparr>)"

definition hb_stop :: "heartbeat \<Rightarrow> heartbeat" where
  "hb_stop h = h\<lparr>hb_ticking := False\<rparr>"

definition hb_watch :: "string \<Rightarrow> string option \<Rightarrow> heartbeat \<Rightarrow> heartbeat" where
  "hb_watch key name h =
     ensureTicking (h\<lparr>hb_watched := jm_set key (case name of None \<Rightarrow> key | Some n \<Rightarrow> n) (hb_watched h)\<rparr>)"

definition hb_unwatch :: "string \<Rightarrow> heartbeat \<Rightarrow> heartbeat" where
  "hb_unwatch key h =
     (let h1 = h\<lparr>hb_watched := jm_del key (hb_watched h)\<rparr> in if hb_watched h1 = [] then hb_stop h1 else h1)"

text \<open>The connection under a key answers its state and its quiet time (\<open>None\<close> for infinity).\<close>

definition hb_check :: "(string \<Rightarrow> ws_state \<times> int option) \<Rightarrow> heartbeat \<Rightarrow> (string \<times> string) list" where
  "hb_check conn h =
     filter (\<lambda>(key, name). fst (conn key) = OPEN \<and>
       (case snd (conn key) of None \<Rightarrow> True | Some quiet \<Rightarrow> quiet > hb_staleMs h)) (hb_watched h)"

section \<open>Invariant\<close>

definition timers_ok :: "renewal \<Rightarrow> bool" where
  "timers_ok r \<longleftrightarrow> jm_ok (rn_tracked r) \<and>
     (\<forall>name h. (\<exists>t. jm_get name (rn_tracked r) = Some t \<and> tk_timer t = Some h) \<longleftrightarrow> (\<exists>ms. jm_get h (rn_timers r) = Some (name, ms))) \<and>
     (\<forall>h. jm_get h (rn_timers r) \<noteq> None \<longrightarrow> h < rn_counter r) \<and>
     (\<forall>name t. jm_get name (rn_tracked r) = Some t \<longrightarrow> tk_rotating t \<longrightarrow> tk_timer t = None)"

definition armed_ok :: "string set \<Rightarrow> renewal \<Rightarrow> bool" where
  "armed_ok X r \<longleftrightarrow> (\<forall>name t. name \<notin> X \<longrightarrow> conn_is_open name r \<longrightarrow> jm_get name (rn_tracked r) = Some t \<longrightarrow>
     tk_timer t \<noteq> None \<or> tk_rotating t)"

definition rn_inv :: "renewal_options \<Rightarrow> renewal \<Rightarrow> bool" where
  "rn_inv opts r \<longleftrightarrow> timers_ok r \<and> armed_ok {} r \<and> countInFlight r \<le> ro_maxConcurrent opts"

definition in_flight :: "(string, tracked) jsmap \<Rightarrow> nat" where
  "in_flight m = length (filter (\<lambda>(k, t). tk_rotating t) m)"

lemma in_flight_set:
  "jm_ok m \<Longrightarrow> in_flight (jm_set k v m) + (case jm_get k m of None \<Rightarrow> 0 | Some t \<Rightarrow> of_bool (tk_rotating t)) =
     in_flight m + of_bool (tk_rotating v)"
proof (induction m)
  case Nil
  then show ?case by (simp add: in_flight_def jm_set_def jm_get_def)
next
  case (Cons p m)
  obtain a b where p: "p = (a, b)" by (cases p)
  have "jm_ok m" using Cons.prems by (simp add: jm_ok_def)
  note IH = Cons.IH [OF this]
  show ?case
  proof (cases "k = a")
    case True
    then show ?thesis by (simp add: p in_flight_def jm_set_def jm_get_def)
  next
    case False
    then have "in_flight (jm_set k v (p # m)) = of_bool (tk_rotating b) + in_flight (jm_set k v m)"
      "in_flight (p # m) = of_bool (tk_rotating b) + in_flight m"
      by (simp_all add: p in_flight_def jm_set_def)
    with IH False show ?thesis by (simp add: p jm_get_def)
  qed
qed

lemma in_flight_del: "in_flight (jm_del k m) \<le> in_flight m"
  unfolding in_flight_def jm_del_def by (induction m) auto

lemma countInFlight_in: "countInFlight r = in_flight (rn_tracked r)"
  by (simp add: countInFlight_def in_flight_def)

lemma timers_fresh: "timers_ok r \<Longrightarrow> jm_get (rn_counter r) (rn_timers r) = None"
  unfolding timers_ok_def by blast

lemma timers_iff:
  "timers_ok r \<Longrightarrow> (\<exists>t. jm_get name (rn_tracked r) = Some t \<and> tk_timer t = Some h) \<longleftrightarrow> (\<exists>ms. jm_get h (rn_timers r) = Some (name, ms))"
  by (simp add: timers_ok_def)

lemma clear_timer_ok:
  assumes "timers_ok r" "jm_get name (rn_tracked r) = Some t"
  shows "timers_ok (clear_timer name t r)" "countInFlight (clear_timer name t r) = countInFlight r"
    "jm_get n (rn_tracked (clear_timer name t r)) =
       (if n = name then Some (t\<lparr>tk_timer := None\<rparr>) else jm_get n (rn_tracked r))"
    "rn_states (clear_timer name t r) = rn_states r" "rn_out (clear_timer name t r) = rn_out r"
proof -
  show g: "jm_get n (rn_tracked (clear_timer name t r)) = (if n = name then Some (t\<lparr>tk_timer := None\<rparr>) else jm_get n (rn_tracked r))" for n
    using assms(2) by (cases t) (simp add: clear_timer_def jm.get_put split: option.split)
  show "rn_states (clear_timer name t r) = rn_states r" "rn_out (clear_timer name t r) = rn_out r"
    by (simp_all add: clear_timer_def split: option.split)
  have ok: "jm_ok (rn_tracked r)" using assms(1) by (simp add: timers_ok_def)
  show "countInFlight (clear_timer name t r) = countInFlight r"
    using in_flight_set [OF ok, of name "t\<lparr>tk_timer := None\<rparr>"] assms(2)
    by (simp add: clear_timer_def countInFlight_in split: option.split)
  show "timers_ok (clear_timer name t r)"
  proof (cases "tk_timer t")
    case None
    then show ?thesis using assms(1) by (simp add: clear_timer_def)
  next
    case (Some h)
    have tm: "jm_get k (rn_timers (clear_timer name t r)) = (if k = h then None else jm_get k (rn_timers r))" for k
      using Some by (simp add: clear_timer_def jm.get_del)
    have c: "rn_counter (clear_timer name t r) = rn_counter r" "jm_ok (rn_tracked (clear_timer name t r))"
      using ok Some by (simp_all add: clear_timer_def jm.ok_put)
    have "(\<exists>t'. jm_get n (rn_tracked (clear_timer name t r)) = Some t' \<and> tk_timer t' = Some k) \<longleftrightarrow>
        (\<exists>ms. jm_get k (rn_timers (clear_timer name t r)) = Some (n, ms))" for n k
      using timers_iff [OF assms(1), of n k] timers_iff [OF assms(1), of n h] timers_iff [OF assms(1), of name h]
        timers_iff [OF assms(1), of name k] assms(2) Some
      by (auto simp: g tm)
    moreover have "jm_get n (rn_tracked (clear_timer name t r)) = Some t' \<Longrightarrow> tk_rotating t' \<Longrightarrow> tk_timer t' = None" for n t'
      using assms(1) by (auto simp: g timers_ok_def split: if_splits)
    moreover have "jm_get k (rn_timers (clear_timer name t r)) \<noteq> None \<Longrightarrow> k < rn_counter r" for k
      using assms(1) by (auto simp: tm timers_ok_def split: if_splits)
    ultimately show ?thesis by (simp add: timers_ok_def c)
  qed
qed

lemma arm_sel:
  "jm_get n (rn_tracked (arm name t ms r)) = (if n = name then Some (t\<lparr>tk_timer := Some (rn_counter r)\<rparr>) else jm_get n (rn_tracked r))"
  "jm_get h (rn_timers (arm name t ms r)) = (if h = rn_counter r then Some (name, ms) else jm_get h (rn_timers r))"
  "rn_counter (arm name t ms r) = Suc (rn_counter r)" "rn_states (arm name t ms r) = rn_states r"
  by (simp_all add: arm_def jm.get_put)

lemma arm_ok:
  assumes "timers_ok r" "jm_get name (rn_tracked r) = Some u" "tk_timer u = None" "\<not> tk_rotating t"
  shows "timers_ok (arm name t ms r)" "countInFlight (arm name t ms r) \<le> countInFlight r"
proof -
  have ok: "jm_ok (rn_tracked r)" using assms(1) by (simp add: timers_ok_def)
  have "countInFlight (arm name t ms r) + of_bool (tk_rotating u) = countInFlight r"
    using in_flight_set [OF ok, of name "t\<lparr>tk_timer := Some (rn_counter r)\<rparr>"] assms(2,4)
    by (simp add: arm_def countInFlight_in)
  then show "countInFlight (arm name t ms r) \<le> countInFlight r" by linarith
  note fresh = timers_fresh [OF assms(1)]
  have "(\<exists>t'. jm_get n (rn_tracked (arm name t ms r)) = Some t' \<and> tk_timer t' = Some k) \<longleftrightarrow>
      (\<exists>ms'. jm_get k (rn_timers (arm name t ms r)) = Some (n, ms'))" for n k
    using timers_iff [OF assms(1), of n k] timers_iff [OF assms(1), of n "rn_counter r"] timers_iff [OF assms(1), of name k] fresh assms(2,3)
    by (auto simp: arm_sel)
  moreover have "jm_get k (rn_timers (arm name t ms r)) \<noteq> None \<Longrightarrow> k < Suc (rn_counter r)" for k
    using assms(1) by (auto simp: arm_sel timers_ok_def less_Suc_eq split: if_splits)
  moreover have "jm_get n (rn_tracked (arm name t ms r)) = Some t' \<Longrightarrow> tk_rotating t' \<Longrightarrow> tk_timer t' = None" for n t'
    using assms(1,4) by (auto simp: arm_sel timers_ok_def split: if_splits)
  moreover have "jm_ok (rn_tracked (arm name t ms r))" using ok by (simp add: arm_def jm.ok_put)
  ultimately show "timers_ok (arm name t ms r)" by (simp add: timers_ok_def arm_sel)
qed

text \<open>Clearing a connection's timer and arming a new one is what every path that schedules does.\<close>

lemma rearm_ok:
  assumes "timers_ok r" "armed_ok {name} r" "jm_get name (rn_tracked r) = Some t" "\<not> tk_rotating t'"
  shows "timers_ok (arm name t' ms (clear_timer name t r))" "armed_ok {} (arm name t' ms (clear_timer name t r))"
    "countInFlight (arm name t' ms (clear_timer name t r)) \<le> countInFlight r"
proof -
  note cl = clear_timer_ok [OF assms(1,3)]
  have u: "jm_get name (rn_tracked (clear_timer name t r)) = Some (t\<lparr>tk_timer := None\<rparr>)" by (simp add: cl(3))
  show "timers_ok (arm name t' ms (clear_timer name t r))" "countInFlight (arm name t' ms (clear_timer name t r)) \<le> countInFlight r"
    using arm_ok [OF cl(1) u _ assms(4), of ms] by (simp_all add: cl(2))
  show "armed_ok {} (arm name t' ms (clear_timer name t r))"
    using assms(2) by (auto simp: armed_ok_def arm_sel cl(3,4) conn_is_open_def split: if_splits)
qed

lemma schedule_ok:
  assumes "timers_ok r" "armed_ok {name} r"
  shows "timers_ok (scheduleRenewal opts name now random r)" "armed_ok {} (scheduleRenewal opts name now random r)"
    "countInFlight (scheduleRenewal opts name now random r) \<le> countInFlight r"
proof -
  have "armed_ok {} r" if "jm_get name (rn_tracked r) = None"
    using assms(2) that by (simp add: armed_ok_def) (metis option.distinct(1))
  then show "timers_ok (scheduleRenewal opts name now random r)" "armed_ok {} (scheduleRenewal opts name now random r)"
    "countInFlight (scheduleRenewal opts name now random r) \<le> countInFlight r"
    using assms rearm_ok [OF assms] by (simp_all add: scheduleRenewal_def Let_def split: option.split)
qed

lemma armed_weaken: "armed_ok {} r \<Longrightarrow> armed_ok {name} r"
  by (simp add: armed_ok_def)

lemma schedule_inv:
  "timers_ok r \<Longrightarrow> armed_ok {name} r \<Longrightarrow> countInFlight r \<le> ro_maxConcurrent opts \<Longrightarrow>
   rn_inv opts (scheduleRenewal opts name now random r)"
  using schedule_ok [of r name opts now random] by (simp add: rn_inv_def)

text \<open>A connection whose timer just fired.\<close>

lemma fire_ok:
  assumes "timers_ok r" "armed_ok {name} r" "countInFlight r \<le> ro_maxConcurrent opts"
    and t: "jm_get name (rn_tracked r) = Some t" "tk_timer t = None" "\<not> tk_rotating t"
  shows "rn_inv opts (fireRenewal opts name started now random r)"
proof -
  have ok: "jm_ok (rn_tracked r)" using assms(1) by (simp add: timers_ok_def)
  let ?set = "\<lambda>t' x. r\<lparr>rn_tracked := jm_set name t' (rn_tracked r), rn_out := x\<rparr>"
  have set_ok: "timers_ok (?set t' x)" if "tk_timer t' = None" for t' x
  proof -
    have "(\<exists>u. jm_get n (rn_tracked (?set t' x)) = Some u \<and> tk_timer u = Some k) \<longleftrightarrow>
        (\<exists>ms. jm_get k (rn_timers r) = Some (n, ms))" for n k
      using timers_iff [OF assms(1), of n k] t that by (auto simp: jm.get_put)
    moreover have "jm_get n (rn_tracked (?set t' x)) = Some u \<Longrightarrow> tk_rotating u \<Longrightarrow> tk_timer u = None" for n u
      using assms(1) that by (auto simp: jm.get_put timers_ok_def split: if_splits)
    ultimately show ?thesis
      using assms(1) by (simp add: timers_ok_def jm.ok_put)
  qed
  have armed: "armed_ok {name} (?set t' x)" for t' x
    using assms(2) by (auto simp: armed_ok_def jm.get_put conn_is_open_def split: if_splits)
  have cnt: "countInFlight (?set t' x) = countInFlight r + of_bool (tk_rotating t')" for t' x
    using in_flight_set [OF ok, of name t'] t by (simp add: countInFlight_in)
  consider (idle) "\<not> conn_is_open name r" | (full) "conn_is_open name r" "ro_maxConcurrent opts \<le> countInFlight r"
    | (go) "conn_is_open name r" "countInFlight r < ro_maxConcurrent opts" by linarith
  then show ?thesis
  proof cases
    case idle
    let ?t = "t\<lparr>tk_nextRenewalAt := None, tk_rotating := False\<rparr>"
    have f: "fireRenewal opts name started now random r = ?set ?t (rn_out r)"
      using idle t(1) by (simp add: fireRenewal_def)
    have "armed_ok {} (?set ?t (rn_out r))"
      using idle assms(2) by (auto simp: armed_ok_def jm.get_put conn_is_open_def split: if_splits)
    moreover have "timers_ok (?set ?t (rn_out r))" using t(2) by (intro set_ok) simp
    ultimately show ?thesis
      using cnt [where t' = ?t and x = "rn_out r"] assms(3) by (simp add: rn_inv_def f)
  next
    case full
    let ?r = "r\<lparr>rn_out := rn_out r @ [RenewalPostponed name]\<rparr>" and ?t = "t\<lparr>tk_nextRenewalAt := None\<rparr>"
    have "timers_ok ?r" "armed_ok {name} ?r" using assms(1,2) by (simp_all add: timers_ok_def armed_ok_def conn_is_open_def)
    moreover have "clear_timer name t ?r = ?r" using t(2) by (simp add: clear_timer_def)
    ultimately have "timers_ok (arm name ?t ms ?r)" "armed_ok {} (arm name ?t ms ?r)" "countInFlight (arm name ?t ms ?r) \<le> countInFlight r" for ms
      using rearm_ok [of ?r name t ?t ms] t by (simp_all add: countInFlight_def)
    then show ?thesis
      using full t(1) assms(3) by (auto simp: fireRenewal_def rn_inv_def Let_def intro: order_trans)
  next
    case go
    let ?t = "t\<lparr>tk_nextRenewalAt := None, tk_rotating := True\<rparr>" and ?x = "rn_out r @ [RenewalStarted name started]"
    have s: "timers_ok (?set ?t ?x)" using t(2) by (intro set_ok) simp
    have c: "countInFlight (?set ?t ?x) \<le> ro_maxConcurrent opts" using cnt [where t' = ?t and x = ?x] go by simp
    have a: "armed_ok {} (?set ?t ?x)"
      using assms(2) by (auto simp: armed_ok_def jm.get_put conn_is_open_def split: if_splits)
    have "rn_inv opts (scheduleRenewal opts name now random (?set ?t ?x))" by (rule schedule_inv [OF s armed c])
    with s a c go t(1) show ?thesis
      by (cases started) (simp_all add: fireRenewal_def rn_inv_def Let_def)
  qed
qed

lemma timer_ok:
  assumes "rn_inv opts r"
  shows "rn_inv opts (renewal_timer opts h started now random r)"
proof (cases "jm_get h (rn_timers r)")
  case None
  then show ?thesis using assms by (simp add: renewal_timer_def)
next
  case (Some p)
  obtain name ms where p: "p = (name, ms)" by (cases p)
  have ok: "timers_ok r" "armed_ok {name} r" "countInFlight r \<le> ro_maxConcurrent opts"
    using assms by (simp_all add: rn_inv_def armed_weaken)
  obtain t where t: "jm_get name (rn_tracked r) = Some t" "tk_timer t = Some h"
    using timers_iff [OF ok(1), of name h] Some p by auto
  have rot: "\<not> tk_rotating t" using ok(1) t by (auto simp: timers_ok_def)
  note cl = clear_timer_ok [OF ok(1) t(1)]
  let ?r = "clear_timer name t r"
  have "armed_ok {name} ?r" using ok(2) by (auto simp: armed_ok_def cl(3,4) conn_is_open_def split: if_splits)
  then have "rn_inv opts (fireRenewal opts name started now random ?r)"
    by (intro fire_ok [OF cl(1), where t = "t\<lparr>tk_timer := None\<rparr>"]) (use ok(3) rot in \<open>simp_all add: cl(2,3)\<close>)
  moreover have "renewal_timer opts h started now random r = fireRenewal opts name started now random ?r"
    using Some p t by (simp add: renewal_timer_def clear_timer_def Let_def)
  ultimately show ?thesis by simp
qed

lemma untrack_ok:
  assumes "rn_inv opts r"
  shows "rn_inv opts (untrack name r)"
proof (cases "jm_get name (rn_tracked r)")
  case None
  then show ?thesis using assms by (simp add: untrack_def)
next
  case (Some t)
  have ok: "timers_ok r" "armed_ok {} r" "countInFlight r \<le> ro_maxConcurrent opts"
    using assms by (simp_all add: rn_inv_def)
  note cl = clear_timer_ok [OF ok(1) Some]
  let ?c = "clear_timer name t r" let ?r = "?c\<lparr>rn_tracked := jm_del name (rn_tracked ?c)\<rparr>"
  have none: "jm_get h (rn_timers ?c) \<noteq> Some (name, ms)" for h ms
    using timers_iff [OF cl(1), of name h] cl(3) [of name] by auto
  have "timers_ok ?r"
    using cl(1) none by (auto simp: timers_ok_def jm.get_del jm.ok_del split: if_splits)
  moreover have "armed_ok {} ?r"
    using ok(2) by (auto simp: armed_ok_def cl(3,4) jm.get_del conn_is_open_def split: if_splits)
  moreover have "countInFlight ?r \<le> ro_maxConcurrent opts"
    using in_flight_del [of name "rn_tracked ?c"] cl(2) ok(3) by (simp add: countInFlight_in)
  ultimately show ?thesis using Some by (simp add: untrack_def rn_inv_def Let_def)
qed

lemma track_ok:
  assumes "rn_inv opts r"
  shows "rn_inv opts (track opts name now random r)"
proof (cases "jm_get name (rn_tracked r)")
  case (Some t)
  then show ?thesis using assms by (simp add: track_def)
next
  case None
  let ?t = "\<lparr>tk_nextRenewalAt = None, tk_timer = None, tk_rotating = False\<rparr>"
  let ?r = "r\<lparr>rn_tracked := jm_set name ?t (rn_tracked r)\<rparr>"
  have ok: "timers_ok r" "armed_ok {} r" "countInFlight r \<le> ro_maxConcurrent opts"
    using assms by (simp_all add: rn_inv_def)
  have none: "jm_get h (rn_timers r) \<noteq> Some (name, ms)" for h ms
    using timers_iff [OF ok(1), of name h] None by auto
  have t: "timers_ok ?r"
    using ok(1) none by (auto simp: timers_ok_def jm.get_put jm.ok_put split: if_splits)
  have a: "armed_ok {name} ?r" using ok(2) by (auto simp: armed_ok_def jm.get_put conn_is_open_def split: if_splits)
  have "jm_ok (rn_tracked r)" using ok(1) by (simp add: timers_ok_def)
  then have c: "countInFlight ?r \<le> ro_maxConcurrent opts"
    using in_flight_set [of "rn_tracked r" name ?t] None ok(3) by (simp add: countInFlight_in)
  have "rn_inv opts ?r" if "\<not> conn_is_open name ?r"
    using t a c that by (auto simp: rn_inv_def armed_ok_def)
  then show ?thesis
    using None schedule_inv [OF t a c] by (simp add: track_def Let_def)
qed

lemma rn_inv_step: "rn_inv opts r \<Longrightarrow> rn_inv opts (rn_step opts r e)"
proof (cases e)
  case (StateChanged name to now random)
  assume i: "rn_inv opts r"
  let ?r = "r\<lparr>rn_states := jm_set name to (rn_states r)\<rparr>"
  have t: "timers_ok ?r" "countInFlight ?r \<le> ro_maxConcurrent opts" "armed_ok {name} ?r"
    using i by (auto simp: rn_inv_def timers_ok_def countInFlight_def armed_ok_def conn_is_open_def jm.get_put)
  moreover have "armed_ok {} ?r" if "to \<noteq> OPEN"
    using i that by (auto simp: rn_inv_def armed_ok_def conn_is_open_def jm.get_put split: if_splits)
  ultimately show ?thesis using StateChanged schedule_inv [of ?r name opts now random]
    by (cases "to = OPEN") (simp_all add: on_state_def Let_def rn_inv_def)
next
  case (RotationFailedEvent name now)
  assume i: "rn_inv opts r"
  then have t: "timers_ok r" "armed_ok {name} r" "countInFlight r \<le> ro_maxConcurrent opts"
    by (simp_all add: rn_inv_def armed_weaken)
  let ?t = "\<lparr>tk_nextRenewalAt = Some (now + ro_retryMs opts), tk_timer = None, tk_rotating = False\<rparr>"
  show ?thesis
    using RotationFailedEvent i rearm_ok [OF t(1,2), of _ ?t "ro_retryMs opts"] t(3)
    by (auto simp: on_rotation_failed_def rn_inv_def intro: order_trans split: option.split)
next
  case RenewalClose
  have "rn_inv opts r \<Longrightarrow> rn_inv opts (foldl (\<lambda>r name. untrack name r) r ns)" for ns r
    by (induction ns arbitrary: r) (simp_all add: untrack_ok)
  then show "rn_inv opts r \<Longrightarrow> ?thesis" using RenewalClose by (simp add: renewal_close_def)
next
  case (RotatedEvent name now random)
  then show "rn_inv opts r \<Longrightarrow> ?thesis"
    using schedule_inv [of r name opts now random] by (simp add: on_rotated_def rn_inv_def armed_weaken)
qed (simp_all add: track_ok untrack_ok timer_ok)

interpretation rnm: invariant_machine "rn_step opts" "rn_inv opts" "\<lambda>_. True" for opts
  by unfold_locales (rule rn_inv_step)

lemma rn_new: "rn_inv opts new_renewal"
  by (simp add: rn_inv_def timers_ok_def armed_ok_def countInFlight_def new_renewal_def jm_ok_def jm_get_def)

lemma rn_reach: "rn_inv opts (foldl (rn_step opts) new_renewal evs)"
  by (rule rnm.run_inv [OF rn_new]) (simp add: list_all_iff)

section \<open>A rotation that never completes\<close>

fun releases :: "string \<Rightarrow> renewal_event \<Rightarrow> bool" where
  "releases n (Untrack m) \<longleftrightarrow> m = n"
| "releases n (StateChanged m to now random) \<longleftrightarrow> m = n \<and> to = OPEN"
| "releases n (RotatedEvent m now random) \<longleftrightarrow> m = n"
| "releases n (RotationFailedEvent m now) \<longleftrightarrow> m = n"
| "releases n RenewalClose \<longleftrightarrow> True"
| "releases n _ \<longleftrightarrow> False"

lemma tracked_other:
  assumes "n \<noteq> m"
  shows "jm_get n (rn_tracked (clear_timer m t r)) = jm_get n (rn_tracked r)"
    "jm_get n (rn_tracked (arm m t ms r)) = jm_get n (rn_tracked r)"
    "jm_get n (rn_tracked (scheduleRenewal opts m now random r)) = jm_get n (rn_tracked r)"
    "jm_get n (rn_tracked (fireRenewal opts m started now random r)) = jm_get n (rn_tracked r)"
    "jm_get n (rn_tracked (track opts m now random r)) = jm_get n (rn_tracked r)"
    "jm_get n (rn_tracked (untrack m r)) = jm_get n (rn_tracked r)"
    "jm_get n (rn_tracked (on_rotation_failed opts m now r)) = jm_get n (rn_tracked r)"
proof -
  show clear: "jm_get n (rn_tracked (clear_timer m t r)) = jm_get n (rn_tracked r)" for t r
    using assms by (simp add: clear_timer_def jm.get_put split: option.split)
  show arm: "jm_get n (rn_tracked (arm m t ms r)) = jm_get n (rn_tracked r)" for t ms r
    using assms by (simp add: arm_sel)
  show sched: "jm_get n (rn_tracked (scheduleRenewal opts m now random r)) = jm_get n (rn_tracked r)" for r
    by (simp add: scheduleRenewal_def Let_def clear arm split: option.split)
  show "jm_get n (rn_tracked (fireRenewal opts m started now random r)) = jm_get n (rn_tracked r)"
    using assms by (simp add: fireRenewal_def Let_def arm sched jm.get_put split: option.split)
  show "jm_get n (rn_tracked (track opts m now random r)) = jm_get n (rn_tracked r)"
    using assms by (simp add: track_def Let_def sched jm.get_put)
  show "jm_get n (rn_tracked (untrack m r)) = jm_get n (rn_tracked r)"
    using assms by (simp add: untrack_def Let_def clear jm.get_del split: option.split)
  show "jm_get n (rn_tracked (on_rotation_failed opts m now r)) = jm_get n (rn_tracked r)"
    by (simp add: on_rotation_failed_def clear arm split: option.split)
qed

definition stuck_on :: "renewal_options \<Rightarrow> string \<Rightarrow> renewal \<Rightarrow> bool" where
  "stuck_on opts n r \<longleftrightarrow> rn_inv opts r \<and> isRenewing n r"

lemma stuck_step:
  assumes "stuck_on opts n r" "\<not> releases n e"
  shows "stuck_on opts n (rn_step opts r e)"
proof -
  have inv: "rn_inv opts r" using assms(1) by (simp add: stuck_on_def)
  obtain t where t: "jm_get n (rn_tracked r) = Some t" "tk_rotating t"
    using assms(1) by (auto simp: stuck_on_def isRenewing_def split: option.splits)
  have "jm_get n (rn_tracked (rn_step opts r e)) = Some t"
  proof (cases e)
    case (Track m now random)
    with t tracked_other(5) [of n m] show ?thesis by (cases "m = n") (simp_all add: track_def)
  next
    case (StateChanged m to now random)
    with t assms(2) tracked_other(3) [of n m] show ?thesis by (auto simp: on_state_def Let_def)
  next
    case (RenewalTimer h started now random)
    have "m \<noteq> n" if "jm_get h (rn_timers r) = Some (m, ms)" for m ms
    proof
      assume "m = n"
      with timers_iff [of r n h] inv that t have "tk_timer t = Some h" by (auto simp: rn_inv_def)
      with inv t show False by (auto simp: rn_inv_def timers_ok_def)
    qed
    with RenewalTimer t tracked_other(4) [of n] show ?thesis
      by (auto simp: renewal_timer_def Let_def jm.get_put split: option.split prod.split)
  qed (use t assms(2) tracked_other in \<open>auto simp: on_rotated_def\<close>)
  with t rn_inv_step [OF inv] show ?thesis by (simp add: stuck_on_def isRenewing_def)
qed

interpretation blockm: invariant_machine "rn_step opts" "stuck_on opts n" "\<lambda>e. \<not> releases n e" for opts n
  by unfold_locales (rule stuck_step)

lemma one_in_flight:
  assumes "jm_ok m" "in_flight m \<le> 1" "jm_get a m = Some s" "tk_rotating s" "jm_get b m = Some t" "a \<noteq> b"
  shows "\<not> tk_rotating t"
proof
  assume r: "tk_rotating t"
  let ?v = "s\<lparr>tk_rotating := False\<rparr>" and ?w = "t\<lparr>tk_rotating := False\<rparr>"
  have "in_flight (jm_set a ?v m) + 1 = in_flight m"
    using in_flight_set [OF assms(1), of a ?v] assms(3,4) by simp
  moreover have "in_flight (jm_set b ?w (jm_set a ?v m)) + 1 = in_flight (jm_set a ?v m)"
    using in_flight_set [OF jm.ok_put [OF assms(1)], of b ?w a ?v] assms(5,6) r by (simp add: jm.get_put)
  ultimately show False using assms(2) by linarith
qed

section \<open>Properties\<close>


text \<open>With the default cap of one, a rotation that never reports back stops all renewals: as long as that
  connection does not reach OPEN again, whether it went down, was closed or hangs, it counts as in
  flight and no other connection is ever rotated, which lets the server's 24 hour limit cut them.\<close>

theorem stuck_rotation_blocks:
  assumes "ro_maxConcurrent opts = 1" "r = foldl (rn_step opts) new_renewal evs" "isRenewing n r"
    and "\<And>e. e \<in> set evs2 \<Longrightarrow> \<not> releases n e" "m \<noteq> n"
  shows "\<not> isRenewing m (foldl (rn_step opts) r evs2)"
proof -
  let ?r = "foldl (rn_step opts) r evs2"
  have "stuck_on opts n r" using assms(2,3) rn_reach by (simp add: stuck_on_def)
  then have "stuck_on opts n ?r" by (rule blockm.run_inv) (use assms(4) in \<open>simp add: list_all_iff\<close>)
  then obtain s where s: "jm_get n (rn_tracked ?r) = Some s" "tk_rotating s" and ok: "jm_ok (rn_tracked ?r)"
    "in_flight (rn_tracked ?r) \<le> 1"
    using assms(1) by (auto simp: stuck_on_def isRenewing_def rn_inv_def timers_ok_def countInFlight_in split: option.splits)
  show ?thesis
    using one_in_flight [OF ok s _ assms(5) [symmetric]] by (auto simp: isRenewing_def split: option.split)
qed

section \<open>Witnesses\<close>

definition wit_renewal :: renewal_options where
  "wit_renewal = renewal_options_of None None None None"

definition wit_renewal_events :: "renewal_event list" where
  "wit_renewal_events = [Track ''a'' 0 0, StateChanged ''a'' OPEN 0 0, Track ''b'' 0 0, StateChanged ''b'' OPEN 0 (1 / 2),
     RenewalTimer 0 True 82800000 0]"

theorem stuck_rotation_blocks_witness:
  "\<not> isRenewing ''b'' (foldl (rn_step wit_renewal) (foldl (rn_step wit_renewal) new_renewal wit_renewal_events)
     [StateChanged ''a'' CLOSED 82800001 0, RenewalTimer 1 True 83100000 0])"
proof -
  have w: "ro_maxConcurrent wit_renewal = 1" by (simp add: wit_renewal_def renewal_options_of_def)
  have rot: "isRenewing ''a'' (foldl (rn_step wit_renewal) new_renewal wit_renewal_events)" by code_simp
  show ?thesis by (rule stuck_rotation_blocks [OF w refl rot]) auto
qed


end
