(* ===== verification/Income_Feed.thy ===== *)
theory Income_Feed
  imports Risk_Gateway
begin

text \<open>
  \<open>src/risk/RealizedPnlFeed.ts\<close>: the exchange's income ledger, read page by page and recorded once
  into the risk gateway's daily accumulator. The exchange is a function from an end time to a page
  (\<open>page\<close>), documented to honour the end time; the rows of a day come from it. Clocks are arguments;
  within one call they are taken not to cross midnight.
  Lemmas: that the paging ends and what it collects, what is recorded once, and where a day's
  change counts twice.
\<close>

section \<open>Reading the ledger\<close>

record income_row =
  in_tranId :: int
  in_income :: js_number
  in_time :: int
  in_asset :: string

definition utcDayStartMs :: "int \<Rightarrow> int" where
  "utcDayStartMs now = 86400000 * (now div 86400000)"

definition inCurrentDay :: "int \<Rightarrow> int \<Rightarrow> bool" where
  "inCurrentDay now time \<longleftrightarrow> time \<ge> utcDayStartMs now"

text \<open>The loop over one income type: the pages it reads, newest first. It need not end when the exchange
  ignores the end time, so its value is an option.\<close>

partial_function (option) fetch_pages ::
  "(int option \<Rightarrow> income_row list) \<Rightarrow> int \<Rightarrow> int \<Rightarrow> int option \<Rightarrow> income_row list option" where
  "fetch_pages page limit now endTime =
     (let p = page endTime in
      if int (length p) < limit then Some p
      else if p = [] then Some p
      else if \<not> inCurrentDay now (in_time (last p)) then Some p
      else if endTime = Some (in_time (last p)) then Some p
      else Option.bind (fetch_pages page limit now (Some (in_time (last p) - 1))) (\<lambda>rest. Some (p @ rest)))"

fun fetchToday ::
  "(string \<Rightarrow> int option \<Rightarrow> income_row list) \<Rightarrow> int \<Rightarrow> string list \<Rightarrow> int \<Rightarrow> string list \<Rightarrow> income_row list option" where
  "fetchToday page limit assets now [] = Some []"
| "fetchToday page limit assets now (t # ts) =
     Option.bind (fetch_pages (page t) limit now None) (\<lambda>rows.
     Option.bind (fetchToday page limit assets now ts) (\<lambda>rest.
       Some (filter (\<lambda>r. in_asset r \<in> set assets) rows @ rest)))"

section \<open>Recording\<close>

record pnl_feed =
  pf_day :: int
  pf_seen :: "int set"

definition new_RealizedPnlFeed :: "int \<Rightarrow> pnl_feed" where
  "new_RealizedPnlFeed now = \<lparr>pf_day = utcDay now, pf_seen = {}\<rparr>"

definition income_sum :: "income_row list \<Rightarrow> js_number" where
  "income_sum rows = foldl (\<lambda>sum r. jn_add sum (in_income r)) (Fin 0) rows"

definition page_size :: "int option \<Rightarrow> int" where
  "page_size given_size = min (case given_size of None \<Rightarrow> 1000 | Some n \<Rightarrow> n) 1000"

text \<open>The gateway is handed the day and the total, and nothing about failures or the breaker.\<close>

definition seedToday :: "int \<Rightarrow> income_row list \<Rightarrow> pnl_feed \<times> risk_gateway \<Rightarrow> js_number \<times> pnl_feed \<times> risk_gateway" where
  "seedToday now rows fg =
     (let total = income_sum rows
      in (total, (fst fg)\<lparr>pf_seen := pf_seen (fst fg) \<union> in_tranId ` set rows\<rparr>,
          restoreDailyState now \<lparr>ps_day = utcDay now, ps_dailyPnl = JNum total, ps_breaker = None, ps_failures = JUndef\<rparr> (snd fg)))"

definition roll_seen :: "int \<Rightarrow> pnl_feed \<Rightarrow> pnl_feed" where
  "roll_seen now f = (if utcDay now \<noteq> pf_day f then f\<lparr>pf_seen := {}, pf_day := utcDay now\<rparr> else f)"

definition fresh_rows :: "pnl_feed \<Rightarrow> income_row list \<Rightarrow> income_row list" where
  "fresh_rows f rows = filter (\<lambda>r. in_tranId r \<notin> pf_seen f) rows"

definition poll_income :: "int \<Rightarrow> income_row list \<Rightarrow> pnl_feed \<times> risk_gateway \<Rightarrow> js_number \<times> pnl_feed \<times> risk_gateway" where
  "poll_income now rows fg =
     (let f = roll_seen now (fst fg);
          fresh = fresh_rows f rows;
          delta = income_sum fresh
      in (delta, f\<lparr>pf_seen := pf_seen f \<union> in_tranId ` set fresh\<rparr>,
          if delta \<noteq> Fin 0 then recordRealizedPnl now (JNum delta) (snd fg) else snd fg))"

section \<open>Paging\<close>

definition ledger_page :: "income_row list \<Rightarrow> int \<Rightarrow> int option \<Rightarrow> income_row list" where
  "ledger_page L limit e = take (nat limit) (filter (\<lambda>r. case e of None \<Rightarrow> True | Some t \<Rightarrow> in_time r \<le> t) L)"

text \<open>The paging loop returns whenever the exchange honours the end time it is given.\<close>

theorem paging_terminates:
  assumes "\<And>e r. r \<in> set (page (Some e)) \<Longrightarrow> in_time r \<le> e"
  shows "\<exists>rows. fetch_pages page limit now e = Some rows"
proof -
  have bounded: "\<exists>rows. fetch_pages page limit now (Some t) = Some rows" for t
  proof (induction "nat (t - utcDayStartMs now + 1)" arbitrary: t rule: less_induct)
    case less
    show ?case
    proof (cases "page (Some t) = []")
      case True
      then show ?thesis by (subst fetch_pages.simps) (simp add: Let_def)
    next
      case False
      let ?o = "in_time (last (page (Some t)))"
      have le: "?o \<le> t" using assms False by simp
      show ?thesis
      proof (cases "inCurrentDay now ?o \<and> ?o \<noteq> t")
        case True
        then have "nat (?o - 1 - utcDayStartMs now + 1) < nat (t - utcDayStartMs now + 1)"
          using le by (simp add: inCurrentDay_def)
        from less [OF this] show ?thesis by (subst fetch_pages.simps) (auto simp: Let_def)
      next
        case stop: False
        then show ?thesis using False by (subst fetch_pages.simps) (auto simp: Let_def)
      qed
    qed
  qed
  show ?thesis
  proof (cases e)
    case None
    from bounded [of "in_time (last (page None)) - 1"] show ?thesis
      unfolding None by (subst fetch_pages.simps) (auto simp: Let_def)
  qed (use bounded in simp)
qed

lemma filter_below:
  assumes "sorted_wrt (\<lambda>r s. in_time s < in_time r) L" "k < length L"
  shows "filter (\<lambda>r. in_time r \<le> in_time (L ! k) - 1) L = drop (Suc k) L"
  using assms
proof (induction L arbitrary: k)
  case (Cons r L)
  show ?case
  proof (cases k)
    case 0
    then show ?thesis using Cons.prems by (auto intro!: filter_True)
  next
    case (Suc j)
    then have "L ! j \<in> set L" using Cons.prems by simp
    then have "\<not> in_time r < in_time (L ! j)" using Cons.prems by fastforce
    with Suc Cons show ?thesis by simp
  qed
qed simp

text \<open>C31: Against an exchange that lists a day newest first, with no two rows of one millisecond, the loop
  collects exactly the day's ledger, whatever the page size above one.\<close>

theorem paging_complete:
  assumes "sorted_wrt (\<lambda>r s. in_time s < in_time r) L" "\<And>r. r \<in> set L \<Longrightarrow> inCurrentDay now (in_time r)" "1 < limit"
  shows "fetch_pages (ledger_page L limit) limit now None = Some L"
proof -
  let ?F = "\<lambda>e. filter (\<lambda>r. case e of None \<Rightarrow> True | Some t \<Rightarrow> in_time r \<le> t) L"
  have "fetch_pages (ledger_page L limit) limit now e = Some (?F e)"
    if "e = None \<or> (\<exists>k<length L. e = Some (in_time (L ! k) - 1))" for e
    using that
  proof (induction "length (?F e)" arbitrary: e rule: less_induct)
    case less
    let ?p = "ledger_page L limit e" and ?n = "nat limit"
    have p: "?p = take ?n (?F e)" by (simp add: ledger_page_def)
    obtain j where j: "?F e = drop j L"
      using less.prems filter_below [OF assms(1)] by (auto intro: that [of 0])
    show ?case
    proof (cases "int (length ?p) < limit")
      case True
      then have "?p = ?F e" by (simp add: p)
      with True show ?thesis by (subst fetch_pages.simps) (simp add: Let_def)
    next
      case False
      then have len: "?n \<le> length (?F e)" and n: "length ?p = ?n" "1 < ?n" using assms(3) by (simp_all add: p)
      let ?k = "j + ?n - 1"
      have k: "?k < length L" using len j n by simp
      have last: "last ?p = L ! ?k"
      proof -
        have "last ?p = ?p ! (?n - 1)" using n by (simp add: last_conv_nth flip: length_0_conv)
        also have "\<dots> = drop j L ! (?n - 1)" using n by (simp add: p j)
        finally show ?thesis using k n by simp
      qed
      have inday: "inCurrentDay now (in_time (last ?p))" using assms(2) k last by simp
      have rest: "?F (Some (in_time (L ! ?k) - 1)) = drop ?n (?F e)"
        using filter_below [OF assms(1) k] n j by (simp add: add.commute)
      have ne: "e \<noteq> Some (in_time (last ?p))"
      proof
        assume e: "e = Some (in_time (last ?p))"
        have "j < length L" using k n by simp
        then have "L ! j \<in> set (drop j L)" by (metis Cons_nth_drop_Suc list.set_intros(1))
        then have "L ! j \<in> set (?F e)" using j by simp
        then have "in_time (L ! j) \<le> in_time (L ! ?k)" using e last by simp
        moreover have "in_time (L ! ?k) < in_time (L ! j)"
          using sorted_wrt_nth_less [OF assms(1), of j ?k] k n by simp
        ultimately show False by linarith
      qed
      have "length (?F (Some (in_time (L ! ?k) - 1))) < length (?F e)"
        unfolding rest using n len by simp
      from less.hyps [OF this] k have
        "fetch_pages (ledger_page L limit) limit now (Some (in_time (L ! ?k) - 1)) = Some (drop ?n (?F e))"
        unfolding rest [symmetric] by blast
      with False ne inday last n show ?thesis
        by (subst fetch_pages.simps) (auto simp: Let_def p)
    qed
  qed
  from this [of None] show ?thesis by simp
qed

definition honours_end :: "(int option \<Rightarrow> income_row list) \<Rightarrow> bool" where
  "honours_end page \<longleftrightarrow> (\<forall>e. \<forall>r\<in>set (page (Some e)). in_time r \<le> e)"

lemma pages_older:
  "fetch_pages page limit now e = Some rows \<Longrightarrow>
    \<forall>t r. honours_end page \<longrightarrow> e = Some t \<longrightarrow> r \<in> set rows \<longrightarrow> in_time r \<le> t"
proof (erule fetch_pages.raw_induct [rotated], intro allI impI)
  fix f page limit now e rows t r
  assume IH: "\<And>limit now e b y. f limit now e b = Some y \<Longrightarrow>
      \<forall>t r. honours_end limit \<longrightarrow> b = Some t \<longrightarrow> r \<in> set y \<longrightarrow> in_time r \<le> t"
    and body: "(let p = page e in if int (length p) < limit then Some p else if p = [] then Some p
      else if \<not> inCurrentDay now (in_time (last p)) then Some p else if e = Some (in_time (last p)) then Some p
      else Option.bind (f page limit now (Some (in_time (last p) - 1))) (\<lambda>rest. Some (p @ rest))) = Some rows"
    and prems: "honours_end page" "e = Some t" "r \<in> set rows"
  let ?p = "page (Some t)"
  have p: "s \<in> set ?p \<Longrightarrow> in_time s \<le> t" for s using prems(1) by (simp add: honours_end_def)
  note b = body [unfolded prems(2) Let_def]
  show "in_time r \<le> t"
  proof (cases "int (length ?p) < limit \<or> ?p = [] \<or> \<not> inCurrentDay now (in_time (last ?p)) \<or> Some t = Some (in_time (last ?p))")
    case True
    then have "Some ?p = Some rows" using b by (elim disjE) (simp_all only: if_True if_False if_cancel refl simp_thms)
    then show ?thesis using p prems(3) by simp
  next
    case False
    then have "Option.bind (f page limit now (Some (in_time (last ?p) - 1))) (\<lambda>rest. Some (?p @ rest)) = Some rows"
      using b by (simp only: if_False de_Morgan_disj simp_thms)
    then obtain rest where rest: "f page limit now (Some (in_time (last ?p) - 1)) = Some rest" "rows = ?p @ rest"
      by (cases "f page limit now (Some (in_time (last ?p) - 1))") simp_all
    have "in_time (last ?p) \<le> t" using p False by simp
    moreover have "s \<in> set rest \<Longrightarrow> in_time s \<le> in_time (last ?p) - 1" for s
      using IH [OF rest(1)] prems(1) by simp
    ultimately show ?thesis using p [of r] rest(2) prems(3) by fastforce
  qed
qed

text \<open>Rows of one millisecond that a page boundary separates are lost: after a full page the loop asks
  for rows strictly older than the last one it got, so a row of the same time that was not on the page
  is never read, and its loss never reaches the daily accumulator.\<close>

theorem boundary_rows_lost:
  assumes law: "honours_end page"
    and row: "r \<notin> set (page None)" "in_time r = in_time (last (page None))"
    and fetched: "fetch_pages page limit now None = Some rows"
  shows "r \<notin> set rows"
proof -
  have "r \<notin> set rest" if "fetch_pages page limit now (Some (in_time (last (page None)) - 1)) = Some rest" for rest
    using pages_older [OF that] law row(2) by fastforce
  then show ?thesis
    using fetched row(1) by (subst (asm) fetch_pages.simps) (auto simp: Let_def bind_eq_Some_conv split: if_splits)
qed

text \<open>Polling records each row once: after one poll of a day, a later poll of the same day counts exactly
  the rows whose transaction it has not seen, so polling the same ledger again records nothing.\<close>

theorem poll_counts_once:
  assumes "utcDay later = utcDay now"
  shows "let (delta, f, g) = poll_income now rows fg; (delta2, f2, g2) = poll_income later rows2 (f, g) in
    delta2 = income_sum (filter (\<lambda>r. in_tranId r \<notin> in_tranId ` set rows \<union> pf_seen (roll_seen now (fst fg))) rows2) \<and>
    (in_tranId ` set rows2 \<subseteq> in_tranId ` set rows \<longrightarrow> g2 = g)"
proof -
  let ?f = "roll_seen now (fst fg)"
  let ?f1 = "?f\<lparr>pf_seen := pf_seen ?f \<union> in_tranId ` set (fresh_rows ?f rows)\<rparr>"
  have day: "pf_day ?f1 = utcDay now" by (simp add: roll_seen_def)
  then have same: "roll_seen later ?f1 = ?f1" using assms by (simp add: roll_seen_def)
  have seen: "pf_seen ?f1 = in_tranId ` set rows \<union> pf_seen ?f" by (auto simp: fresh_rows_def)
  have fresh: "fresh_rows ?f1 rows2 = filter (\<lambda>r. in_tranId r \<notin> in_tranId ` set rows \<union> pf_seen ?f) rows2"
    by (simp only: fresh_rows_def [of ?f1] seen)
  have "fresh_rows ?f1 rows2 = []" if "in_tranId ` set rows2 \<subseteq> in_tranId ` set rows"
    unfolding fresh using that by (auto simp: filter_empty_conv)
  then show ?thesis
    by (simp add: poll_income_def Let_def same fresh income_sum_def)
qed

text \<open>Seeding does not set the day the seen rows belong to: when the feed was made before midnight and
  seeded after it, the first poll takes the day for changed, forgets what was seeded and records the
  whole day again, so the daily accumulator is twice the ledger's sum.\<close>

theorem seed_counts_twice:
  assumes "pf_day f \<noteq> utcDay now" "utcDay later = utcDay now"
    and "toDecimal (JNum (income_sum rows)) = Some v" "income_sum rows \<noteq> Fin 0"
  shows "let (total, f1, g1) = seedToday now rows (f, g); (delta, f2, g2) = poll_income later rows (f1, g1) in
    total = income_sum rows \<and> rg_dailyPnl g1 = v \<and> delta = total \<and> rg_dailyPnl g2 = dec_add v v"
proof -
  let ?f1 = "f\<lparr>pf_seen := pf_seen f \<union> in_tranId ` set rows\<rparr>"
  obtain g1 where seed: "seedToday now rows (f, g) = (income_sum rows, ?f1, g1)" by (simp add: seedToday_def Let_def)
  then have g1: "rg_dailyPnl g1 = v" "rg_day g1 = utcDay now"
    using assms(3) by (auto simp: seedToday_def restoreDailyState_def Let_def)
  have roll: "roll_seen later ?f1 = ?f1\<lparr>pf_seen := {}, pf_day := utcDay now\<rparr>"
    using assms(1,2) by (simp add: roll_seen_def)
  then have fresh: "fresh_rows (roll_seen later ?f1) rows = rows" by (simp add: fresh_rows_def)
  have "rg_dailyPnl (recordRealizedPnl later (JNum (income_sum rows)) g1) = dec_add v v"
    using g1 assms(2,3) by (simp add: recordRealizedPnl_def rollDayIfNeeded_def Let_def trip_def)
  with fresh assms(4) g1 show ?thesis
    unfolding seed by (simp add: poll_income_def Let_def)
qed

section \<open>Witnesses\<close>

definition wit_row :: "int \<Rightarrow> int \<Rightarrow> income_row" where
  "wit_row rid time = \<lparr>in_tranId = rid, in_income = Fin (- 5), in_time = time, in_asset = ''USDT''\<rparr>"

lemma wit_row_sel [simp]: "in_tranId (wit_row i t) = i" "in_time (wit_row i t) = t" "wit_row i t = wit_row j u \<longleftrightarrow> i = j \<and> t = u"
  by (auto simp: wit_row_def)

lemma honours_ledger: "honours_end (ledger_page L limit)"
  by (auto simp: honours_end_def ledger_page_def dest!: in_set_takeD)

theorem paging_terminates_witness:
  "\<exists>rows. fetch_pages (ledger_page [wit_row 2 20, wit_row 1 10] 2) 2 0 None = Some rows"
  by (rule paging_terminates) (use honours_ledger in \<open>simp add: honours_end_def\<close>)

theorem paging_complete_witness:
  "fetch_pages (ledger_page [wit_row 3 30, wit_row 2 20, wit_row 1 10] 2) 2 40 None =
     Some [wit_row 3 30, wit_row 2 20, wit_row 1 10]"
  by (rule paging_complete) (auto simp: inCurrentDay_def utcDayStartMs_def)

theorem boundary_rows_lost_witness:
  "\<exists>rows. fetch_pages (ledger_page [wit_row 2 10, wit_row 1 10] 1) 1 40 None = Some rows \<and> wit_row 1 10 \<notin> set rows"
proof -
  let ?L = "[wit_row 2 10, wit_row 1 10]"
  have page: "ledger_page ?L 1 None = [wit_row 2 10]" "ledger_page ?L 1 (Some 9) = []"
    by (simp_all add: ledger_page_def)
  have "fetch_pages (ledger_page ?L 1) 1 40 (Some 9) = Some []"
    by (subst fetch_pages.simps) (simp add: page)
  then have f: "fetch_pages (ledger_page ?L 1) 1 40 None = Some [wit_row 2 10]"
    by (subst fetch_pages.simps) (simp add: page inCurrentDay_def utcDayStartMs_def)
  have "wit_row 1 10 \<notin> set [wit_row 2 10]"
    by (rule boundary_rows_lost [OF honours_ledger _ _ f]) (simp_all add: page)
  with f show ?thesis by blast
qed

definition wit_feed :: "pnl_feed \<times> risk_gateway" where
  "wit_feed = (\<lparr>pf_day = 0, pf_seen = {}\<rparr>, wit_gateway)"

theorem poll_counts_once_witness:
  "fst (poll_income 9 [wit_row 1 3] (fst (snd (poll_income 8 [wit_row 1 3] wit_feed)), snd (snd (poll_income 8 [wit_row 1 3] wit_feed))))
     = income_sum []"
  using poll_counts_once [of 9 8 "[wit_row 1 3]" wit_feed "[wit_row 1 3]"]
  by (simp add: utcDay_def split: prod.splits)

theorem seed_counts_twice_witness:
  "\<exists>f1 g1 f2 g2. seedToday 86400001 [wit_row 1 86400000] wit_feed = (Fin (- 5), f1, g1) \<and>
     poll_income 86400002 [wit_row 1 86400000] (f1, g1) = (Fin (- 5), f2, g2)"
proof -
  have s: "income_sum [wit_row 1 86400000] = Fin (- 5)" by code_simp
  have "toDecimal (JNum (Fin (- 5))) \<noteq> None" by code_simp
  then obtain v where v: "toDecimal (JNum (income_sum [wit_row 1 86400000])) = Some v" using s by auto
  have "income_sum [wit_row 1 86400000] \<noteq> Fin 0" using s by simp
  have d: "pf_day \<lparr>pf_day = 0, pf_seen = {}\<rparr> \<noteq> utcDay 86400001" "utcDay 86400002 = utcDay 86400001"
    by (simp_all add: utcDay_def)
  from seed_counts_twice [OF d v \<open>income_sum [wit_row 1 86400000] \<noteq> Fin 0\<close>, of wit_gateway] show ?thesis
    by (auto simp: s wit_feed_def split: prod.splits)
qed

end
