(* ===== verification/Private_Url.thy ===== *)
theory Private_Url
  imports JS_Value
begin

text \<open>
  \<open>src/ws/privateUrl.ts\<close>: the URL of a private user-data stream, built from a base, a listen key and
  event names, and the redaction it goes through before it is published. The regular expressions
  are written out as the scans they stand for: \<open>redact_param\<close> is a global replacement of a query
  value, \<open>redact_path\<close> the first path segment after \<open>/ws/\<close> or \<open>/stream/\<close> that looks like a key.
  Lemmas: what the scans leave alone, and that they do not depend on the key.
\<close>

section \<open>Building\<close>

datatype url_style = Query | Path

definition event_char :: "char \<Rightarrow> bool" where
  "event_char c = (let n = of_char c :: nat in (65 \<le> n \<and> n \<le> 90) \<or> (97 \<le> n \<and> n \<le> 122) \<or>
     (48 \<le> n \<and> n \<le> 57) \<or> c = CHR ''_'' \<or> c = CHR ''-'')"

definition ends_with :: "string \<Rightarrow> string \<Rightarrow> bool" where
  "ends_with s p = starts_with (rev s) (rev p)"

definition strip_base :: "string \<Rightarrow> string" where
  "strip_base baseUrl =
     (let b = rev (dropWhile (\<lambda>c. c = CHR ''/'') (rev baseUrl))
      in if 3 \<le> length b \<and> ends_with (to_lower b) ''/ws'' then take (length b - 3) b else b)"

text \<open>A missing key gives no URL; an event name that is no plain token throws.\<close>

definition buildPrivateStreamUrl ::
  "string \<Rightarrow> string option \<Rightarrow> string list \<Rightarrow> url_style \<Rightarrow> string + string option" where
  "buildPrivateStreamUrl baseUrl listenKey events style =
     (case listenKey of
        None \<Rightarrow> Inr None
      | Some key \<Rightarrow>
          if key = [] then Inr None
          else
            let base = strip_base baseUrl
            in case find (\<lambda>name. name = [] \<or> \<not> list_all event_char name) events of
                 Some name \<Rightarrow> Inl name
               | None \<Rightarrow>
                   let eventsQuery = (if events \<noteq> [] then ''&events='' @ join_with ''/'' events else [])
                   in Inr (Some (case style of
                        Path \<Rightarrow> base @ ''/ws/'' @ encodeURIComponent key @ eventsQuery
                      | Query \<Rightarrow> base @ ''/ws?listenKey='' @ encodeURIComponent key @ eventsQuery)))"

definition userDataEvents :: "string list" where
  "userDataEvents = [''ACCOUNT_UPDATE'', ''ORDER_TRADE_UPDATE'', ''MARGIN_CALL'', ''ACCOUNT_CONFIG_UPDATE'', ''listenKeyExpired'']"

definition isKnownUserDataEvent :: "string \<Rightarrow> bool" where
  "isKnownUserDataEvent name \<longleftrightarrow> name \<in> set userDataEvents"

section \<open>Redaction\<close>

definition starts_ci :: "string \<Rightarrow> string \<Rightarrow> bool" where
  "starts_ci s p = starts_with (to_lower s) (to_lower p)"

function redact_param :: "string \<Rightarrow> string \<Rightarrow> string" where
  "redact_param n [] = []"
| "redact_param n (c # s) =
     (if (c = CHR ''?'' \<or> c = CHR ''&'') \<and> starts_ci s n
      then c # take (length n) s @ ''<redacted>'' @
             redact_param n (dropWhile (\<lambda>x. x \<noteq> CHR ''&'') (drop (length n) s))
      else c # redact_param n s)"
  by pat_completeness auto
termination
proof (relation "measure (\<lambda>(n, s). length s)")
  show "((n, dropWhile (\<lambda>x. x \<noteq> CHR ''&'') (drop (length n) s)), (n, c # s)) \<in> measure (\<lambda>(n, s). length s)"
    for n c and s :: string
    using le_trans [OF length_dropWhile_le, of "drop (length n) s" "length s" "\<lambda>x. x \<noteq> CHR ''&''"] by simp
qed simp_all

definition path_match :: "string \<Rightarrow> string \<Rightarrow> string option" where
  "path_match p s =
     (let r = drop (length p) s
      in if starts_ci s p \<and> 16 \<le> length (takeWhile event_char r) \<and>
            (dropWhile event_char r = [] \<or> hd (dropWhile event_char r) = CHR ''/'')
         then Some (take (length p) s @ ''<redacted>'' @ dropWhile event_char r) else None)"

fun redact_path :: "string \<Rightarrow> string" where
  "redact_path [] = []"
| "redact_path (c # s) =
     (case path_match ''/ws/'' (c # s) of
        Some r \<Rightarrow> r
      | None \<Rightarrow> (case path_match ''/stream/'' (c # s) of Some r \<Rightarrow> r | None \<Rightarrow> c # redact_path s))"

definition redactPrivateUrl :: "string \<Rightarrow> string" where
  "redactPrivateUrl url =
     redact_path (redact_param ''apiKey='' (redact_param ''signature='' (redact_param ''listenKey='' url)))"

definition fingerprintKey :: "string \<Rightarrow> string" where
  "fingerprintKey key =
     (if length key \<le> 8 then ''<'' @ nat_digits (length key) @ '' chars>''
      else take 4 key @ [CHR 0xE2, CHR 0x80, CHR 0xA6] @ drop (length key - 4) key @
           '' ('' @ nat_digits (length key) @ '')'')"

section \<open>What the scans leave alone\<close>

lemma to_lower_append: "to_lower (a @ b) = to_lower a @ to_lower b"
  by (simp add: to_lower_def)

lemma starts_with_take: "length p \<le> n \<Longrightarrow> starts_with (take n s) p = starts_with s p"
  by (induction s p arbitrary: n rule: starts_with.induct) (auto simp: take_Cons split: nat.split)

lemma starts_ci_prefix: "length p \<le> length a \<Longrightarrow> starts_ci (a @ x) p = starts_ci (a @ y) p"
  using starts_with_take [of "to_lower p" "length a" "to_lower a @ to_lower x"]
    starts_with_take [of "to_lower p" "length a" "to_lower a @ to_lower y"]
  by (simp add: starts_ci_def to_lower_append to_lower_def)

lemma dropWhile_amp:
  "CHR ''&'' \<notin> set q \<Longrightarrow> CHR ''&'' \<notin> set k \<Longrightarrow>
    dropWhile (\<lambda>x. x \<noteq> CHR ''&'') (a @ q @ k @ ev) =
     (if CHR ''&'' \<in> set a then dropWhile (\<lambda>x. x \<noteq> CHR ''&'') a @ q @ k @ ev
      else dropWhile (\<lambda>x. x \<noteq> CHR ''&'') ev)"
proof -
  have skip: "dropWhile (\<lambda>x. x \<noteq> CHR ''&'') (xs @ ys) = dropWhile (\<lambda>x. x \<noteq> CHR ''&'') ys"
    if "CHR ''&'' \<notin> set xs" for xs ys
    using that by (induction xs) auto
  have hit: "dropWhile (\<lambda>x. x \<noteq> CHR ''&'') (xs @ ys) = dropWhile (\<lambda>x. x \<noteq> CHR ''&'') xs @ ys"
    if "CHR ''&'' \<in> set xs" for xs ys
    using that by (induction xs) auto
  assume "CHR ''&'' \<notin> set q" "CHR ''&'' \<notin> set k"
  then show ?thesis by (simp add: skip hit)
qed

lemma redact_param_plain:
  "CHR ''?'' \<notin> set a \<Longrightarrow> CHR ''&'' \<notin> set a \<Longrightarrow> redact_param n (a @ s) = a @ redact_param n s"
  by (induction a) auto

text \<open>The value of a redacted parameter is skipped whatever it is, wherever an earlier match started.\<close>

lemma redact_param_hides:
  assumes q: "q = p @ CHR ''?'' # n" "CHR ''?'' \<notin> set p" "CHR ''&'' \<notin> set q"
    and k: "CHR ''&'' \<notin> set k1" "CHR ''&'' \<notin> set k2"
  shows "redact_param n (b @ q @ k1 @ ev) = redact_param n (b @ q @ k2 @ ev)"
proof (induction "length b" arbitrary: b rule: less_induct)
  case less
  show ?case
  proof (cases b)
    case Nil
    have "redact_param n (q @ k @ ev) = p @ CHR ''?'' # n @ ''<redacted>'' @ redact_param n (dropWhile (\<lambda>x. x \<noteq> CHR ''&'') ev)"
      if "CHR ''&'' \<notin> set k" for k
      using q that dropWhile_amp [of "[]" k "[]" ev] by (simp add: redact_param_plain starts_ci_def to_lower_append)
    with k Nil show ?thesis by simp
  next
    case (Cons c b')
    have ci: "starts_ci (b' @ q @ k1 @ ev) n = starts_ci (b' @ q @ k2 @ ev) n"
      using starts_ci_prefix [of n "b' @ q"] q(1) by simp
    have lq: "length n \<le> length q" using q(1) by simp
    then have tk: "take (length n) (b' @ q @ k @ ev) = take (length n) (b' @ q)" for k by simp
    let ?d = "\<lambda>k. redact_param n (dropWhile (\<lambda>x. x \<noteq> CHR ''&'') (drop (length n) (b' @ q @ k @ ev)))"
    have "?d k1 = ?d k2"
    proof (cases "CHR ''&'' \<in> set (drop (length n) b')")
      case True
      then have dr: "drop (length n) (b' @ q @ k @ ev) = drop (length n) b' @ q @ k @ ev" for k
        by (cases "length n \<le> length b'") auto
      have "length (dropWhile (\<lambda>x. x \<noteq> CHR ''&'') (drop (length n) b')) < length b"
        using le_trans [OF length_dropWhile_le, of "drop (length n) b'" "length b'"] Cons by (simp add: le_imp_less_Suc)
      from less [OF this] show ?thesis unfolding dr using True q(3) k by (simp add: dropWhile_amp)
    next
      case False
      have "CHR ''&'' \<notin> set (drop (length n - length b') q)" using q(3) by (auto dest: in_set_dropD)
      with False lq show ?thesis
        using k dropWhile_amp [of "drop (length n - length b') q" _ "drop (length n) b'" ev] by simp
    qed
    moreover have "redact_param n (b' @ q @ k1 @ ev) = redact_param n (b' @ q @ k2 @ ev)" using less Cons by simp
    ultimately show ?thesis using ci tk by (simp only: Cons append_Cons redact_param.simps)
  qed
qed

lemma event_char_plain: "event_char c \<Longrightarrow> c \<notin> {CHR ''?'', CHR ''&'', CHR ''/''} \<and> uri_unreserved c"
  by (auto simp: event_char_def uri_unreserved_def Let_def)

lemma encode_key: "list_all event_char key \<Longrightarrow> encodeURIComponent key = key"
  by (induction key) (auto simp: encodeURIComponent_def dest: event_char_plain)

lemma built:
  assumes "buildPrivateStreamUrl base (Some key) events style = Inr (Some u)"
  shows "u = strip_base base @ (case style of Path \<Rightarrow> ''/ws/'' | Query \<Rightarrow> ''/ws?listenKey='') @ encodeURIComponent key @
    (if events \<noteq> [] then ''&events='' @ join_with ''/'' events else [])"
  using assms by (auto simp: buildPrivateStreamUrl_def Let_def split: if_splits option.splits url_style.split)

section \<open>Properties\<close>

text \<open>C35: The URL published for a query-style stream does not depend on the listen key: whatever the base
  and the events, two keys give the same redacted URL.\<close>

theorem redacted_url_hides_key:
  assumes "buildPrivateStreamUrl base (Some k1) events Query = Inr (Some u1)"
    and "buildPrivateStreamUrl base (Some k2) events Query = Inr (Some u2)"
  shows "redactPrivateUrl u1 = redactPrivateUrl u2"
proof -
  have amp: "CHR ''&'' \<notin> set (encodeURIComponent k)" for k by (rule encodeURIComponent_no_sep) simp
  have "redact_param ''listenKey='' u1 = redact_param ''listenKey='' u2"
    unfolding built [OF assms(1)] built [OF assms(2)] url_style.case
    by (rule redact_param_hides [OF _ _ _ amp amp, of _ "''/ws''"]) simp_all
  then show ?thesis by (simp add: redactPrivateUrl_def)
qed

theorem redacted_url_hides_key_witness:
  "redactPrivateUrl ''wss://f/private/ws?listenKey=ABCD&events=X'' = redactPrivateUrl ''wss://f/private/ws?listenKey=x%2Fy&events=X''"
  by (rule redacted_url_hides_key [of "''wss://f/private/''" "''ABCD''" "[''X'']" _ "''x/y''"]) code_simp+

lemma redact_path_slash:
  "path_match ''/ws/'' (CHR ''/'' # s) = None \<Longrightarrow> path_match ''/stream/'' (CHR ''/'' # s) = None \<Longrightarrow>
    redact_path (CHR ''/'' # s) = CHR ''/'' # redact_path s"
  by simp

lemma starts_ci_Cons: "starts_ci (c # s) (d # p) = (if lower_char c = lower_char d then starts_ci s p else False)"
  by (simp add: starts_ci_def to_lower_def)

lemma lower_slash: "lower_char c = CHR ''/'' \<longleftrightarrow> c = CHR ''/''"
proof
  assume l: "lower_char c = CHR ''/''"
  show "c = CHR ''/''"
  proof (cases "65 \<le> (of_char c :: nat) \<and> (of_char c :: nat) \<le> 90")
    case True
    then have "char_of (of_char c + 32 :: nat) = CHR ''/''" using l by (simp add: lower_char_def Let_def)
    then have "(of_char (char_of (of_char c + 32 :: nat)) :: nat) = of_char (CHR ''/'')" by (rule arg_cong)
    then have "(of_char c + 32 :: nat) mod 256 = 47" by (simp only: of_char_of) simp
    with True show ?thesis by simp
  qed (use l in \<open>auto simp: lower_char_def Let_def\<close>)
qed (simp add: lower_char_def)

lemma no_slash_no_match:
  "CHR ''/'' \<noteq> c \<Longrightarrow> p = CHR ''/'' # p' \<Longrightarrow> path_match p (c # s) = None"
  using lower_slash [of c] by (auto simp: path_match_def starts_ci_def to_lower_def lower_char_def Let_def)

lemma redact_path_other: "CHR ''/'' \<noteq> c \<Longrightarrow> redact_path (c # s) = c # redact_path s"
  by (simp add: no_slash_no_match [OF _ refl])

lemma path_match_miss: "\<not> starts_ci s p \<Longrightarrow> path_match p s = None"
  by (simp add: path_match_def)

lemma lower_amp: "lower_char (CHR ''&'') = CHR ''&''"
  by (simp add: lower_char_def)

lemma key_no_match:
  assumes "CHR ''/'' \<notin> set k" "CHR ''&'' \<notin> lower_char ` set w"
  shows "\<not> starts_ci (k @ CHR ''&'' # s) (w @ CHR ''/'' # r)"
  using assms
proof (induction k arbitrary: w)
  case Nil
  then show ?case using lower_slash [of "CHR ''/''"] by (cases w) (auto simp: starts_ci_Cons lower_amp)
next
  case (Cons c k)
  then show ?case using lower_slash [of c] lower_slash [of "CHR ''/''"] by (cases w) (auto simp: starts_ci_Cons)
qed

lemma redact_path_plain: "CHR ''/'' \<notin> set a \<Longrightarrow> redact_path (a @ s) = a @ redact_path s"
  by (induction a) (simp_all add: no_slash_no_match [OF _ refl])

declare redact_path.simps(2) [simp del]

lemma path_run_ends:
  "list_all event_char k \<Longrightarrow> path_match p (p @ k @ CHR ''&'' # s) = None"
proof -
  assume "list_all event_char k"
  then have "dropWhile event_char (k @ CHR ''&'' # s) = CHR ''&'' # s"
    by (induction k) (simp_all add: event_char_def)
  moreover have "\<not> event_char (CHR ''&'')" by (simp add: event_char_def)
  ultimately show ?thesis by (simp add: path_match_def Let_def del: dropWhile_eq_Nil_conv)
qed

text \<open>A path-style stream with an event list publishes its listen key: the redaction looks for a key
  that ends the URL or is followed by a slash, but the event list follows it directly, so the whole key
  stays in the redacted URL.\<close>

theorem path_events_publish_key:
  assumes "buildPrivateStreamUrl ''wss://fstream.binance.com/private'' (Some key) events Path = Inr (Some u)"
    and "events \<noteq> []" "list_all event_char key"
  shows "has_substr (redactPrivateUrl u) key"
proof -
  let ?base = "''wss://fstream.binance.com/private''"
  have key: "CHR ''?'' \<notin> set key" "CHR ''&'' \<notin> set key" "CHR ''/'' \<notin> set key"
    using assms(3) by (auto simp: list_all_iff dest: event_char_plain)
  have sb: "strip_base ?base = ?base" by code_simp
  have u: "u = (?base @ ''/ws/'' @ key) @ ''&events='' @ join_with ''/'' events"
    using built [OF assms(1)] assms(2) encode_key [OF assms(3)] unfolding sb by simp
  have p: "\<exists>t. redact_param n ((?base @ ''/ws/'' @ key) @ CHR ''&'' # s) = (?base @ ''/ws/'' @ key) @ CHR ''&'' # t"
    for n s using key by (subst redact_param_plain) auto
  have "redact_path (''wss:'' @ CHR ''/'' # [] @ CHR ''/'' # ''fstream.binance.com'' @ CHR ''/'' # ''private'' @ CHR ''/'' # ''ws'' @
      CHR ''/'' # key @ CHR ''&'' # s) =
    ''wss:'' @ CHR ''/'' # [] @ CHR ''/'' # ''fstream.binance.com'' @ CHR ''/'' # ''private'' @ CHR ''/'' # ''ws'' @
      CHR ''/'' # key @ redact_path (CHR ''&'' # s)" for s
  proof -
    have lc: "lower_char (CHR ''/'') = CHR ''/''" "lower_char (CHR ''w'') = CHR ''w''" "lower_char (CHR ''s'') = CHR ''s''"
      "lower_char (CHR ''f'') = CHR ''f''" "lower_char (CHR ''p'') = CHR ''p''"
      by (simp_all add: lower_char_def)
    have seg: "path_match p (CHR ''/'' # CHR ''/'' # t) = None" "path_match p (CHR ''/'' # ''fstream.binance.com'' @ t) = None"
      "path_match p (CHR ''/'' # ''private'' @ t) = None" if "p \<in> {''/ws/'', ''/stream/''}" for p t
      using that by (auto simp: path_match_miss starts_ci_Cons lc)
    have plain: "redact_path (''wss:'' @ t) = ''wss:'' @ redact_path t"
      "redact_path (''fstream.binance.com'' @ t) = ''fstream.binance.com'' @ redact_path t"
      "redact_path (''private'' @ t) = ''private'' @ redact_path t" "redact_path (''ws'' @ t) = ''ws'' @ redact_path t" for t
      by (rule redact_path_plain, simp)+
    have "path_match ''/ws/'' (CHR ''/'' # key @ CHR ''&'' # s) = None"
      "path_match ''/stream/'' (CHR ''/'' # key @ CHR ''&'' # s) = None"
      using key_no_match [OF key(3), of "''ws''"] key_no_match [OF key(3), of "''stream''"]
      by (simp_all add: path_match_miss starts_ci_Cons lower_char_def)
    moreover have "path_match ''/ws/'' (CHR ''/'' # ''ws'' @ CHR ''/'' # key @ CHR ''&'' # s) = None"
      using path_run_ends [OF assms(3), of "''/ws/''"] by simp
    moreover have "path_match ''/stream/'' (CHR ''/'' # ''ws'' @ CHR ''/'' # key @ CHR ''&'' # s) = None"
      by (simp add: path_match_miss starts_ci_Cons lc)
    ultimately show ?thesis
      by (simp only: plain redact_path_plain [OF key(3)] redact_path_slash seg insert_iff simp_thms append_Nil)
  qed
  then have path: "redact_path ((?base @ ''/ws/'' @ key) @ CHR ''&'' # s) = (?base @ ''/ws/'' @ key) @ redact_path (CHR ''&'' # s)" for s
    by simp
  obtain s1 where 1: "redact_param ''listenKey='' u = (?base @ ''/ws/'' @ key) @ CHR ''&'' # s1"
    using p [of "''listenKey=''" "''events='' @ join_with ''/'' events"] u by auto
  obtain s2 where 2: "redact_param ''signature='' ((?base @ ''/ws/'' @ key) @ CHR ''&'' # s1) = (?base @ ''/ws/'' @ key) @ CHR ''&'' # s2"
    using p by blast
  obtain s3 where 3: "redact_param ''apiKey='' ((?base @ ''/ws/'' @ key) @ CHR ''&'' # s2) = (?base @ ''/ws/'' @ key) @ CHR ''&'' # s3"
    using p by blast
  show ?thesis
    unfolding redactPrivateUrl_def 1 2 3 path has_substr_iff
    by (rule exI [of _ "?base @ ''/ws/''"], rule exI [of _ "redact_path (CHR ''&'' # s3)"]) simp
qed

theorem path_events_publish_key_witness:
  "has_substr (redactPrivateUrl ''wss://fstream.binance.com/private/ws/pqia91ma19a5s61cv6a81va65sdf19v8a65a1a5s61cv6a81va65sdf19v8a65a1&events=ORDER_TRADE_UPDATE'')
     ''pqia91ma19a5s61cv6a81va65sdf19v8a65a1a5s61cv6a81va65sdf19v8a65a1''"
  by (rule path_events_publish_key [of _ "[''ORDER_TRADE_UPDATE'']"]) (code_simp, simp, code_simp)

end
