(* ===== verification/User_Session.thy ===== *)
theory User_Session
  imports Ws_Connection Private_Url
begin

text \<open>
  \<open>src/execution/platform/UserStreamSession.ts\<close> in its listen-key mode: the session that owns the key,
  the keep-alive timer and the rotation onto a fresh key, over a connection of \<open>Ws_Connection\<close> whose
  URL is built from the current key by \<open>Private_Url\<close>. Each call of the key API is pending in
  \<open>us_calls\<close> until its answer arrives as an event, so a run is an interleaving of the session's
  methods, the API's answers, the timer and whatever reaches the connection. The session's
  listeners run over what a step of the connection emits. The frame parser is a parameter that gives
  the type of an event, or nothing for a frame it rejects; event names are taken to be plain tokens,
  which the URL builder demands.
  Lemmas: the invariant of the session (one rotation at a time, a live key has a renewal ahead) and
  the terminal close.
\<close>

section \<open>State\<close>

datatype session_state = SIdle | SStarting | SLive | SReconnecting | SClosed

datatype api_call = CStart | CRotate string bool | CKeepAlive

datatype session_output =
    SessionState session_state
  | Dialed string
  | ApiCreate
  | ApiKeepAlive string
  | ApiDelete string
  | Started string
  | KeyRotated string string
  | KeyRotationFailed string
  | Keepalive bool
  | KeyExpired
  | UserData string
  | SessionClosed

record session_options =
  uo_ws :: ws_options
  uo_url :: string
  uo_events :: "string list"
  uo_style :: url_style
  uo_keepAliveFailures :: nat
  uo_reconnectAttempts :: nat
  uo_flapWindow :: int
  uo_flapFailures :: nat
  uo_canDelete :: bool
  uo_eventType :: "string \<Rightarrow> string option"

record user_session =
  us_conn :: ws_conn
  us_state :: session_state
  us_key :: "string option"
  us_keepAliveTimer :: bool
  us_keepAliveFailures :: nat
  us_rotating :: bool
  us_startPromise :: bool
  us_openedAt :: int
  us_frames :: nat
  us_flaps :: nat
  us_calls :: "(nat, api_call) jsmap"
  us_next :: nat
  us_out :: "session_output list"

definition new_UserStreamSession :: user_session where
  "new_UserStreamSession =
     \<lparr>us_conn = new_WsConnection, us_state = SIdle, us_key = None, us_keepAliveTimer = False,
      us_keepAliveFailures = 0, us_rotating = False, us_startPromise = False, us_openedAt = 0,
      us_frames = 0, us_flaps = 0, us_calls = [], us_next = 0, us_out = []\<rparr>"

definition tell :: "session_output \<Rightarrow> user_session \<Rightarrow> user_session" where
  "tell x s = s\<lparr>us_out := us_out s @ [x]\<rparr>"

definition setSessionState :: "session_state \<Rightarrow> user_session \<Rightarrow> user_session" where
  "setSessionState st s =
     (if us_state s = st \<or> us_state s = SClosed then s else tell (SessionState st) (s\<lparr>us_state := st\<rparr>))"

definition begin_call :: "api_call \<Rightarrow> user_session \<Rightarrow> user_session" where
  "begin_call c s = s\<lparr>us_calls := jm_set (us_next s) c (us_calls s), us_next := Suc (us_next s)\<rparr>"

definition dispose :: "session_options \<Rightarrow> string \<Rightarrow> user_session \<Rightarrow> user_session" where
  "dispose opts key s = (if uo_canDelete opts then tell (ApiDelete key) s else s)"

definition session_url :: "session_options \<Rightarrow> user_session \<Rightarrow> string option" where
  "session_url opts s =
     (case buildPrivateStreamUrl (uo_url opts) (us_key s) (uo_events opts) (uo_style opts) of Inl _ \<Rightarrow> None | Inr u \<Rightarrow> u)"

section \<open>Keep-alive and rotation\<close>

definition scheduleNextKeepAlive :: "user_session \<Rightarrow> user_session" where
  "scheduleNextKeepAlive s = (if us_state s = SClosed then s else s\<lparr>us_keepAliveTimer := True\<rparr>)"

definition keepAliveTick :: "user_session \<Rightarrow> user_session" where
  "keepAliveTick s =
     (if us_state s = SClosed then s
      else case us_key s of None \<Rightarrow> s
         | Some key \<Rightarrow> if key = [] then s else begin_call CKeepAlive (tell (ApiKeepAlive key) s))"

text \<open>The synchronous part of \<open>rotateListenKey\<close>; \<open>tick\<close> marks a call the keep-alive tick awaits.\<close>

definition rotateListenKey :: "string \<Rightarrow> bool \<Rightarrow> user_session \<Rightarrow> user_session" where
  "rotateListenKey reason tick s =
     (if us_rotating s \<or> us_state s = SClosed then (if tick then scheduleNextKeepAlive s else s)
      else begin_call (CRotate reason tick) (tell ApiCreate (s\<lparr>us_rotating := True\<rparr>)))"

definition keepAlive_ok :: "user_session \<Rightarrow> user_session" where
  "keepAlive_ok s = scheduleNextKeepAlive (tell (Keepalive True) (s\<lparr>us_keepAliveFailures := 0\<rparr>))"

definition keepAlive_failed :: "session_options \<Rightarrow> user_session \<Rightarrow> user_session" where
  "keepAlive_failed opts s =
     (let s1 = tell (Keepalive False) (s\<lparr>us_keepAliveFailures := Suc (us_keepAliveFailures s)\<rparr>)
      in if uo_keepAliveFailures opts \<le> us_keepAliveFailures s1
         then rotateListenKey ''keep-alive-failure'' True s1 else scheduleNextKeepAlive s1)"

section \<open>Listeners on the connection\<close>

definition on_reconnecting :: "session_options \<Rightarrow> int \<Rightarrow> nat \<Rightarrow> user_session \<Rightarrow> user_session" where
  "on_reconnecting opts now attempt s =
     (let s1 = setSessionState SReconnecting s;
          flapped = (us_frames s1 = 0 \<and> 0 < us_openedAt s1 \<and> now - us_openedAt s1 < uo_flapWindow opts);
          s2 = (if flapped
                then if uo_flapFailures opts \<le> Suc (us_flaps s1)
                     then rotateListenKey ''flapping-connection'' False (s1\<lparr>us_flaps := 0\<rparr>)
                     else s1\<lparr>us_flaps := Suc (us_flaps s1)\<rparr>
                else s1\<lparr>us_flaps := 0\<rparr>)
      in if uo_reconnectAttempts opts \<le> attempt then rotateListenKey ''reconnect-attempt'' False s2 else s2)"

definition handleRawMessage :: "session_options \<Rightarrow> string \<Rightarrow> user_session \<Rightarrow> user_session" where
  "handleRawMessage opts txt s =
     (let s1 = s\<lparr>us_frames := Suc (us_frames s)\<rparr>
      in case uo_eventType opts txt of
           None \<Rightarrow> s1
         | Some t \<Rightarrow>
             let s2 = tell (UserData txt) s1
             in if t = ''listenKeyExpired'' then rotateListenKey ''listenKeyExpired'' False (tell KeyExpired s2) else s2)"

fun on_output :: "session_options \<Rightarrow> int \<Rightarrow> ws_output \<Rightarrow> user_session \<Rightarrow> user_session" where
  "on_output opts now WOpen s = setSessionState SLive (s\<lparr>us_openedAt := now, us_frames := 0\<rparr>)"
| "on_output opts now (WReconnecting attempt delay) s = on_reconnecting opts now attempt s"
| "on_output opts now (WMessage txt) s = handleRawMessage opts txt s"
| "on_output opts now (WClose True) s = (if us_state s = SClosed then s else setSessionState SClosed s)"
| "on_output opts now _ s = s"

text \<open>A step of the connection with the session's URL; a socket that is created is dialed.\<close>

fun with_url :: "string option \<Rightarrow> ws_event \<Rightarrow> ws_event" where
  "with_url url (CallConnect _) = CallConnect url"
| "with_url url (CallReconnect _) = CallReconnect url"
| "with_url url (CallRotate _) = CallRotate url"
| "with_url url (TimerFired h _ now) = TimerFired h url now"
| "with_url url e = e"

definition conn_event :: "session_options \<Rightarrow> int \<Rightarrow> ws_event \<Rightarrow> user_session \<Rightarrow> user_session" where
  "conn_event opts now e s =
     (let url = session_url opts s;
          c = us_conn s;
          c' = ws_step (uo_ws opts) c (with_url url e);
          s1 = s\<lparr>us_conn := c'\<rparr>;
          s2 = (case url of Some u \<Rightarrow> if wc_tokenCounter c < wc_tokenCounter c' then tell (Dialed u) s1 else s1 | None \<Rightarrow> s1)
      in fold (on_output opts now) (drop (length (wc_trace c)) (wc_trace c')) s2)"

section \<open>Methods and answers\<close>

definition us_start :: "user_session \<Rightarrow> user_session" where
  "us_start s =
     (if us_state s = SClosed \<or> us_state s = SLive \<or> us_state s = SReconnecting \<or> us_startPromise s then s
      else begin_call CStart (tell ApiCreate ((setSessionState SStarting s)\<lparr>us_startPromise := True\<rparr>)))"

definition us_close :: "session_options \<Rightarrow> int \<Rightarrow> user_session \<Rightarrow> user_session" where
  "us_close opts now s =
     (if us_state s = SClosed then s
      else
        let s1 = (setSessionState SClosed s)\<lparr>us_keepAliveTimer := False, us_key := None\<rparr>;
            s2 = (case us_key s of None \<Rightarrow> s1 | Some key \<Rightarrow> if key = [] then s1 else dispose opts key s1)
        in conn_event opts now CallClose (tell SessionClosed s2))"

definition start_created :: "session_options \<Rightarrow> int \<Rightarrow> string \<Rightarrow> user_session \<Rightarrow> user_session" where
  "start_created opts now key s =
     (if us_state s = SClosed then dispose opts key (s\<lparr>us_startPromise := False\<rparr>)
      else
        let s1 = conn_event opts now (CallConnect None) (s\<lparr>us_key := Some key, us_keepAliveFailures := 0\<rparr>)
        in (tell (Started key) (scheduleNextKeepAlive s1))\<lparr>us_startPromise := False\<rparr>)"

definition rotate_created :: "session_options \<Rightarrow> int \<Rightarrow> string \<Rightarrow> bool \<Rightarrow> string \<Rightarrow> user_session \<Rightarrow> user_session" where
  "rotate_created opts now reason tick key s =
     (let s1 = (if us_state s = SClosed then dispose opts key s
                else
                  let s0 = tell (KeyRotated reason key) (s\<lparr>us_key := Some key, us_keepAliveFailures := 0\<rparr>)
                  in if wc_state (us_conn s0) \<noteq> CLOSED then conn_event opts now (CallReconnect None) s0 else s0);
          s2 = s1\<lparr>us_rotating := False\<rparr>
      in if tick then scheduleNextKeepAlive s2 else s2)"

definition rotate_failed :: "string \<Rightarrow> bool \<Rightarrow> user_session \<Rightarrow> user_session" where
  "rotate_failed reason tick s =
     (let s1 = (tell (KeyRotationFailed reason) s)\<lparr>us_rotating := False\<rparr>
      in if tick then scheduleNextKeepAlive s1 else s1)"

section \<open>Steps\<close>

datatype session_event =
    CallStart
  | CallSessionClose
  | Conn ws_event
  | Answered nat "string option"
  | KeepAliveTimer

text \<open>An answer is a value (the key, for a creation) or a rejection. \<open>close()\<close> is overridden, so it never
  reaches the connection directly; in this mode no frame is looked up as an acknowledgement.\<close>

fun us_step :: "session_options \<Rightarrow> user_session \<Rightarrow> int \<times> session_event \<Rightarrow> user_session" where
  "us_step opts s (now, CallStart) = us_start s"
| "us_step opts s (now, CallSessionClose) = us_close opts now s"
| "us_step opts s (now, Conn e) =
     (case e of CallClose \<Rightarrow> us_close opts now s | AckFrame v \<Rightarrow> s | _ \<Rightarrow> conn_event opts now e s)"
| "us_step opts s (now, KeepAliveTimer) =
     (if us_keepAliveTimer s then keepAliveTick (s\<lparr>us_keepAliveTimer := False\<rparr>) else s)"
| "us_step opts s (now, Answered i answer) =
     (let s1 = s\<lparr>us_calls := jm_del i (us_calls s)\<rparr>
      in case jm_get i (us_calls s) of
           None \<Rightarrow> s
         | Some CStart \<Rightarrow>
             (case answer of Some key \<Rightarrow> start_created opts now key s1 | None \<Rightarrow> s1\<lparr>us_startPromise := False\<rparr>)
         | Some (CRotate reason tick) \<Rightarrow>
             (case answer of Some key \<Rightarrow> rotate_created opts now reason tick key s1 | None \<Rightarrow> rotate_failed reason tick s1)
         | Some CKeepAlive \<Rightarrow> (case answer of Some _ \<Rightarrow> keepAlive_ok s1 | None \<Rightarrow> keepAlive_failed opts s1))"

section \<open>What a step of the connection emits\<close>

definition extends :: "(ws_output \<Rightarrow> bool) \<Rightarrow> ws_conn \<Rightarrow> ws_conn \<Rightarrow> bool" where
  "extends P c c' \<longleftrightarrow> (\<exists>xs. wc_trace c' = wc_trace c @ xs \<and> list_all P xs)"

lemma extends_drop: "extends P c c' \<Longrightarrow> list_all P (drop (length (wc_trace c)) (wc_trace c'))"
  by (auto simp: extends_def)

lemma extends_same: "wc_trace c' = wc_trace c \<Longrightarrow> extends P c c'"
  by (simp add: extends_def)

lemma extends_trace: "wc_trace c = wc_trace d \<Longrightarrow> extends P c c' = extends P d c'"
  by (simp add: extends_def)

definition open_ok :: "ws_conn \<Rightarrow> bool" where
  "open_ok c \<longleftrightarrow> wc_state c \<noteq> CLOSED \<and> \<not> wc_closedByUser c"

definition stays_open :: "ws_conn \<Rightarrow> ws_conn \<Rightarrow> bool" where
  "stays_open c c' \<longleftrightarrow> open_ok c' \<and> extends (\<lambda>x. x \<noteq> WClose True) c c'"

lemmas open_defs = stays_open_def open_ok_def extends_def ws_frame transition_trace openPrimary_trace

lemma open_connect: "open_ok c \<Longrightarrow> stays_open c (ws_connect url c)"
  by (auto simp: ws_connect_def open_defs)

lemma open_reconnect: "open_ok c \<Longrightarrow> stays_open c (ws_reconnect url c)"
  by (auto simp: ws_reconnect_def Let_def open_defs)

lemma schedule_trace:
  "\<exists>xs. wc_trace (scheduleReconnect opts c) = wc_trace c @ xs \<and> list_all (\<lambda>x. x \<noteq> WClose True) xs"
  by (auto simp: scheduleReconnect_def Let_def ws_frame transition_trace)

lemma schedule_state: "wc_state c \<noteq> CLOSED \<Longrightarrow> wc_state (scheduleReconnect opts c) \<noteq> CLOSED"
  by (auto simp: scheduleReconnect_def Let_def ws_frame)

lemma set_ready_trace: "wc_trace (set_ready t r c) = wc_trace c"
  by (simp add: set_ready_def split: option.split)

lemma open_set_ready: "stays_open (set_ready t r c) c' = stays_open c c'" "open_ok (set_ready t r c) = open_ok c"
  by (simp_all add: stays_open_def extends_def open_ok_def set_ready_trace ws_frame)

lemma open_opened: "open_ok c \<Longrightarrow> stays_open c (socket_opened opts t p now c)"
  by (auto simp: socket_opened_def Let_def open_defs)

lemma open_closed: "open_ok c \<Longrightarrow> stays_open c (socket_closed opts t c)"
  using schedule_trace [of opts "put (WClose False) c"] schedule_state [of "put (WClose False) c" opts]
  by (auto simp: socket_closed_def open_defs)

lemma open_timer: "open_ok c \<Longrightarrow> stays_open c (timer_fired opts h url now c)"
proof -
  assume c: "open_ok c"
  then have "stays_open (put WStale c) (ws_reconnect url (put WStale c))"
    by (intro open_reconnect) (simp add: open_ok_def ws_frame)
  then have stale: "stays_open c (ws_reconnect url (put WStale c))"
    by (auto simp: stays_open_def extends_def ws_frame)
  have "stays_open c c" using c by (simp add: stays_open_def extends_def)
  with c stale show ?thesis
    by (auto simp: timer_fired_def Let_def split: option.split timer_kind.split) (auto simp: open_defs)
qed

lemma open_dispatch: "open_ok c \<Longrightarrow> stays_open c (snd (dispatchAck v c))"
  by (auto simp: dispatchAck_def Let_def open_defs split: js_value.split js_number.split option.split)

lemma open_step:
  assumes "open_ok c" "e \<noteq> CallClose"
  shows "stays_open c (ws_step opts c e)"
proof -
  have same: "stays_open c c" using assms(1) by (simp add: stays_open_def extends_def)
  show ?thesis
  proof (cases e)
    case (SockOpen t now)
    with same assms(1) open_opened [of "set_ready t r c" for r] show ?thesis
      by (auto simp: open_set_ready split: option.split)
  next
    case (SockClose t)
    with same assms(1) open_closed [of "set_ready t r c" for r] show ?thesis
      by (auto simp: open_set_ready split: option.split)
  next
    case (CallRotate url)
    with same assms(1) show ?thesis by (auto simp: rotateNow_def open_defs)
  next
    case (CallRequest m)
    with same assms(1) show ?thesis by (auto simp: ws_request_def Let_def open_defs)
  qed (use assms same in \<open>auto simp: open_connect open_reconnect open_timer open_dispatch split: option.split\<close>,
      auto simp: socket_message_def socket_error_def note_activity_def open_defs)
qed

text \<open>A connection that never had a URL has no sockets and no timers, so nothing reaches it.\<close>

definition virgin :: "ws_conn \<Rightarrow> bool" where
  "virgin c \<longleftrightarrow> wc_state c = IDLE \<and> \<not> wc_closedByUser c \<and> wc_sockets c = [] \<and> wc_timers c = [] \<and> wc_acks c = [] \<and>
     wc_activeSocket c = None \<and> wc_pendingSocket c = None \<and> wc_reconnectTimer c = None \<and> wc_rotationTimer c = None \<and>
     wc_livenessTimer c = None"

lemma virgin_step:
  assumes "virgin c" "e \<noteq> CallClose"
  shows "virgin (ws_step opts c (with_url None e))" "extends (\<lambda>x. x = WNoUrl) c (ws_step opts c (with_url None e))"
    "wc_tokenCounter (ws_step opts c (with_url None e)) = wc_tokenCounter c"
proof -
  have v: "virgin (put WNoUrl c)" "extends (\<lambda>x. x = WNoUrl) c (put WNoUrl c)" "extends (\<lambda>x. x = WNoUrl) c c"
    "ws_reconnect None c = put WNoUrl (c\<lparr>wc_reconnectAttempt := 0, wc_pendingToken := 0, wc_activeToken := 0\<rparr>)"
    "ws_connect None c = put WNoUrl (c\<lparr>wc_reconnectAttempt := 0\<rparr>)"
    using assms(1) by (simp_all add: virgin_def extends_def put_def ws_reconnect_def ws_connect_def openPrimarySocket_def
        clearTimers_def stop_timer_def retireSocket_def)
  have k: "virgin (ws_step opts c (with_url None e)) \<and> extends (\<lambda>x. x = WNoUrl) c (ws_step opts c (with_url None e)) \<and>
    wc_tokenCounter (ws_step opts c (with_url None e)) = wc_tokenCounter c"
    using assms v(3)
    by (cases e) (auto simp: v(4,5) rotateNow_def ws_request_def isOpen_def timer_fired_def dispatchAck_def jm_get_def
        virgin_def extends_def put_def split: js_value.split js_number.split)
  then show "virgin (ws_step opts c (with_url None e))" "extends (\<lambda>x. x = WNoUrl) c (ws_step opts c (with_url None e))"
    "wc_tokenCounter (ws_step opts c (with_url None e)) = wc_tokenCounter c" by simp_all
qed

section \<open>The invariant\<close>

definition pending :: "(api_call \<Rightarrow> bool) \<Rightarrow> user_session \<Rightarrow> nat" where
  "pending P s = length (filter P (map snd (us_calls s)))"

fun is_rotation :: "api_call \<Rightarrow> bool" where
  "is_rotation (CRotate reason tick) = True"
| "is_rotation _ = False"

text \<open>Calls whose answer arms the keep-alive timer again.\<close>

fun renews :: "api_call \<Rightarrow> bool" where
  "renews CKeepAlive = True"
| "renews (CRotate reason tick) = tick"
| "renews CStart = False"

definition calls_ok :: "user_session \<Rightarrow> bool" where
  "calls_ok s \<longleftrightarrow> jm_ok (us_calls s) \<and> (\<forall>i\<in>set (jm_keys (us_calls s)). i < us_next s)"

text \<open>One start and one rotation at a time, and the flags say whether one is in flight.\<close>

definition flags_ok :: "user_session \<Rightarrow> bool" where
  "flags_ok s \<longleftrightarrow> pending is_rotation s = of_bool (us_rotating s) \<and> pending (\<lambda>c. c = CStart) s = of_bool (us_startPromise s)"

lemma count_del:
  "jm_ok m \<Longrightarrow> jm_get k m = Some v \<Longrightarrow>
    length (filter P (map snd m)) = of_bool (P v) + length (filter P (map snd (jm_del k m)))"
proof (induction m)
  case (Cons p m)
  obtain k' v' where p: "p = (k', v')" by (cases p)
  show ?case
  proof (cases "k' = k")
    case True
    with Cons.prems p have "k \<notin> set (map fst m)" "v' = v" by (auto simp: jm_ok_def jm_get_def)
    then have "jm_del k m = m" by (induction m) (auto simp: jm_del_def)
    with True p \<open>v' = v\<close> show ?thesis by (simp add: jm_del_def)
  next
    case False
    with Cons p show ?thesis by (simp add: jm_ok_def jm_get_def jm_del_def)
  qed
qed (simp add: jm_get_def)

lemma tell_sel [simp]:
  "us_conn (tell x s) = us_conn s" "us_state (tell x s) = us_state s" "us_key (tell x s) = us_key s"
  "us_keepAliveTimer (tell x s) = us_keepAliveTimer s" "us_rotating (tell x s) = us_rotating s"
  "us_startPromise (tell x s) = us_startPromise s" "us_calls (tell x s) = us_calls s" "us_next (tell x s) = us_next s"
  "us_frames (tell x s) = us_frames s" "us_openedAt (tell x s) = us_openedAt s" "us_flaps (tell x s) = us_flaps s"
  "us_keepAliveFailures (tell x s) = us_keepAliveFailures s" "us_out (tell x s) = us_out s @ [x]"
  by (simp_all add: tell_def)

lemma setState_sel [simp]:
  "us_conn (setSessionState st s) = us_conn s" "us_key (setSessionState st s) = us_key s"
  "us_keepAliveTimer (setSessionState st s) = us_keepAliveTimer s" "us_rotating (setSessionState st s) = us_rotating s"
  "us_startPromise (setSessionState st s) = us_startPromise s" "us_calls (setSessionState st s) = us_calls s"
  "us_next (setSessionState st s) = us_next s" "us_flaps (setSessionState st s) = us_flaps s"
  "us_state (setSessionState st s) = (if us_state s = SClosed then SClosed else st)"
  by (simp_all add: setSessionState_def)

lemma dispose_sel [simp]:
  "us_conn (dispose opts k s) = us_conn s" "us_state (dispose opts k s) = us_state s" "us_key (dispose opts k s) = us_key s"
  "us_keepAliveTimer (dispose opts k s) = us_keepAliveTimer s" "us_rotating (dispose opts k s) = us_rotating s"
  "us_startPromise (dispose opts k s) = us_startPromise s" "us_calls (dispose opts k s) = us_calls s"
  "us_next (dispose opts k s) = us_next s"
  by (simp_all add: dispose_def)

lemma begin_sel [simp]:
  "us_conn (begin_call x s) = us_conn s" "us_state (begin_call x s) = us_state s" "us_key (begin_call x s) = us_key s"
  "us_keepAliveTimer (begin_call x s) = us_keepAliveTimer s" "us_rotating (begin_call x s) = us_rotating s"
  "us_startPromise (begin_call x s) = us_startPromise s" "us_out (begin_call x s) = us_out s"
  by (simp_all add: begin_call_def)

lemma pending_cong: "us_calls s' = us_calls s \<Longrightarrow> pending P s' = pending P s"
  by (simp add: pending_def)

lemma pending_update [simp]:
  "pending P (s\<lparr>us_rotating := b\<rparr>) = pending P s" "pending P (s\<lparr>us_startPromise := b\<rparr>) = pending P s"
  "pending P (s\<lparr>us_keepAliveTimer := b\<rparr>) = pending P s" "pending P (s\<lparr>us_key := k\<rparr>) = pending P s"
  "pending P (s\<lparr>us_keepAliveFailures := n\<rparr>) = pending P s" "pending P (s\<lparr>us_conn := c\<rparr>) = pending P s"
  by (simp_all add: pending_def)

lemma pending_simps [simp]:
  "pending P (tell x s) = pending P s" "pending P (setSessionState st s) = pending P s"
  "pending P (dispose opts k s) = pending P s"
  by (simp_all add: pending_def)

lemma pending_begin:
  assumes "\<forall>i\<in>set (jm_keys (us_calls s)). i < us_next s"
  shows "pending P (begin_call x s) = pending P s + of_bool (P x)"
    "jm_ok (us_calls s) \<Longrightarrow> jm_ok (us_calls (begin_call x s))"
    "\<forall>i\<in>set (jm_keys (us_calls (begin_call x s))). i < us_next (begin_call x s)"
proof -
  have f: "us_next s \<notin> set (jm_keys (us_calls s))" using assms by blast
  show "pending P (begin_call x s) = pending P s + of_bool (P x)"
    by (simp add: begin_call_def pending_def jm_set_fresh [OF f])
  show "jm_ok (us_calls s) \<Longrightarrow> jm_ok (us_calls (begin_call x s))" by (simp add: begin_call_def jm.ok_put)
  show "\<forall>i\<in>set (jm_keys (us_calls (begin_call x s))). i < us_next (begin_call x s)"
    using assms by (auto simp: begin_call_def jm.keys_put)
qed

text \<open>What a listener leaves alone; it may only start a rotation.\<close>

definition listened :: "user_session \<Rightarrow> user_session \<Rightarrow> bool" where
  "listened s s' \<longleftrightarrow> us_conn s' = us_conn s \<and> us_key s' = us_key s \<and> (us_state s' = SClosed \<longleftrightarrow> us_state s = SClosed) \<and>
     us_keepAliveTimer s' = us_keepAliveTimer s \<and> us_startPromise s' = us_startPromise s \<and> calls_ok s' \<and>
     pending renews s \<le> pending renews s' \<and> pending (\<lambda>c. c = CStart) s' = pending (\<lambda>c. c = CStart) s \<and>
     (if us_rotating s then us_rotating s' \<and> pending is_rotation s' = pending is_rotation s
      else pending is_rotation s' = pending is_rotation s + of_bool (us_rotating s'))"

lemma listened_refl: "calls_ok s \<Longrightarrow> listened s s"
  by (simp add: listened_def)

lemma listened_trans: "listened s t \<Longrightarrow> listened t u \<Longrightarrow> listened s u"
  by (auto simp: listened_def split: if_splits)

lemma listened_rotate: "calls_ok s \<Longrightarrow> listened s (rotateListenKey r False s)"
proof -
  assume c: "calls_ok s"
  let ?t = "tell ApiCreate (s\<lparr>us_rotating := True\<rparr>)"
  have t: "pending P ?t = pending P s" for P by (simp add: pending_def)
  have b: "\<forall>i\<in>set (jm_keys (us_calls ?t)). i < us_next ?t" using c by (simp add: calls_ok_def)
  have "listened s (begin_call (CRotate r False) ?t)" if "\<not> us_rotating s"
    using c that pending_begin(1) [OF b, of _ "CRotate r False"] pending_begin(2,3) [OF b, of "CRotate r False"]
      by (simp add: listened_def calls_ok_def t)
  then show ?thesis using c by (auto simp: rotateListenKey_def listened_refl)
qed

lemma listened_update:
  "calls_ok s \<Longrightarrow> us_conn t = us_conn s \<Longrightarrow> us_key t = us_key s \<Longrightarrow> (us_state t = SClosed \<longleftrightarrow> us_state s = SClosed) \<Longrightarrow>
   us_keepAliveTimer t = us_keepAliveTimer s \<Longrightarrow> us_startPromise t = us_startPromise s \<Longrightarrow> us_calls t = us_calls s \<Longrightarrow>
   us_next t = us_next s \<Longrightarrow> us_rotating t = us_rotating s \<Longrightarrow> listened s t"
  by (simp add: listened_def calls_ok_def pending_def)

lemma listened_output:
  assumes "calls_ok s" "o1 \<noteq> WClose True \<or> us_state s = SClosed"
  shows "listened s (on_output opts now o1 s)"
proof -
  have rot: "listened s (rotateListenKey r False t)" if "listened s t" for r t
    using listened_trans [OF that listened_rotate] that by (simp add: listened_def)
  note upd = listened_update [OF assms(1)]
  have rec_ok: "listened s (on_reconnecting opts now attempt s)" for attempt
  proof -
    have "listened s (setSessionState SReconnecting s\<lparr>us_flaps := n\<rparr>)" for n
      by (auto intro!: upd split: if_splits)
    then show ?thesis by (auto simp: on_reconnecting_def Let_def intro!: rot)
  qed
  have msg: "listened s (handleRawMessage opts m s)" for m
    by (auto simp: handleRawMessage_def Let_def intro!: rot upd split: option.split)
  show ?thesis
  proof (cases o1)
    case WOpen
    then show ?thesis by (auto intro!: upd split: if_splits)
  next
    case (WClose b)
    with assms show ?thesis by (cases b) (auto simp: listened_refl)
  qed (use assms rec_ok msg in \<open>auto simp: listened_refl\<close>)
qed

lemma listened_outputs:
  "calls_ok s \<Longrightarrow> list_all (\<lambda>x. x \<noteq> WClose True) xs \<or> us_state s = SClosed \<Longrightarrow> listened s (fold (on_output opts now) xs s)"
proof (induction xs arbitrary: s)
  case (Cons x xs)
  then have 1: "listened s (on_output opts now x s)" by (intro listened_output) auto
  with Cons have "listened (on_output opts now x s) (fold (on_output opts now) xs (on_output opts now x s))"
    by (intro Cons.IH) (auto simp: listened_def)
  from listened_trans [OF 1 this] show ?case by simp
qed (simp add: listened_refl)

lemma session_url_None: "us_key s = None \<Longrightarrow> session_url opts s = None"
  by (simp add: session_url_def buildPrivateStreamUrl_def)

lemma closed_none_step:
  assumes "ws_inv c" "wc_state c = CLOSED"
  shows "wc_state (ws_step opts c (with_url None e)) = CLOSED"
    "wc_tokenCounter (ws_step opts c (with_url None e)) = wc_tokenCounter c"
    "extends (\<lambda>x. x = WNoUrl) c (ws_step opts c (with_url None e))"
proof -
  have "wc_state (ws_step opts c (with_url None e)) = CLOSED \<and> wc_tokenCounter (ws_step opts c (with_url None e)) = wc_tokenCounter c
    \<and> extends (\<lambda>x. x = WNoUrl) c (ws_step opts c (with_url None e))"
  proof (cases "reopens (with_url None e)")
    case True
    with assms(2) show ?thesis
      by (cases e) (auto simp: ws_connect_def ws_reconnect_def openPrimarySocket_def put_def extends_def)
  next
    case False
    have "shut (wc_trace c) (wc_tokenCounter c) c" using assms by (simp add: shut_def)
    from shut_step [OF this False, of opts] show ?thesis by (simp add: shut_def extends_def)
  qed
  then show "wc_state (ws_step opts c (with_url None e)) = CLOSED"
    "wc_tokenCounter (ws_step opts c (with_url None e)) = wc_tokenCounter c"
    "extends (\<lambda>x. x = WNoUrl) c (ws_step opts c (with_url None e))" by simp_all
qed

abbreviation conn_next :: "session_options \<Rightarrow> ws_event \<Rightarrow> user_session \<Rightarrow> ws_conn" where
  "conn_next opts e s \<equiv> ws_step (uo_ws opts) (us_conn s) (with_url (session_url opts s) e)"

lemma conn_event_listened:
  assumes "calls_ok s" "extends (\<lambda>x. x \<noteq> WClose True) (us_conn s) (conn_next opts e s) \<or> us_state s = SClosed"
  shows "listened (s\<lparr>us_conn := conn_next opts e s\<rparr>) (conn_event opts now e s)"
proof -
  let ?s1 = "s\<lparr>us_conn := conn_next opts e s\<rparr>"
  let ?d = "case session_url opts s of Some u \<Rightarrow> if wc_tokenCounter (us_conn s) < wc_tokenCounter (conn_next opts e s) then tell (Dialed u) ?s1 else ?s1 | None \<Rightarrow> ?s1"
  have "calls_ok ?s1" using assms(1) by (simp add: calls_ok_def)
  then have d: "listened ?s1 ?d" by (auto intro!: listened_update split: option.split)
  then have "listened ?d (conn_event opts now e s)"
    unfolding conn_event_def Let_def
    by (intro listened_outputs) (use assms(2) in \<open>auto simp: listened_def dest: extends_drop\<close>)
  with d show ?thesis by (rule listened_trans)
qed

definition us_inv :: "user_session \<Rightarrow> bool" where
  "us_inv s \<longleftrightarrow> ws_inv (us_conn s) \<and> calls_ok s \<and> flags_ok s \<and> us_key s \<noteq> Some [] \<and>
     (if us_state s = SClosed then us_key s = None \<and> \<not> us_keepAliveTimer s \<and> wc_state (us_conn s) = CLOSED
      else open_ok (us_conn s) \<and>
        (if us_key s = None then virgin (us_conn s) \<and> \<not> us_rotating s \<and> pending renews s = 0
         else us_keepAliveTimer s \<or> 0 < pending renews s))"

text \<open>A step of the connection on a live session, before the timer is looked at.\<close>

lemma conn_event_live:
  assumes "ws_inv (us_conn s)" "calls_ok s" "us_state s \<noteq> SClosed" "open_ok (us_conn s)" "e \<noteq> CallClose"
  shows "ws_inv (us_conn (conn_event opts now e s))" "open_ok (us_conn (conn_event opts now e s))"
    "listened (s\<lparr>us_conn := conn_next opts e s\<rparr>) (conn_event opts now e s)"
proof -
  have "with_url (session_url opts s) e \<noteq> CallClose" using assms(5) by (cases e) auto
  then have so: "stays_open (us_conn s) (conn_next opts e s)" using open_step assms(4) by blast
  then show l: "listened (s\<lparr>us_conn := conn_next opts e s\<rparr>) (conn_event opts now e s)"
    by (intro conn_event_listened assms(2)) (simp add: stays_open_def)
  then show "ws_inv (us_conn (conn_event opts now e s))" "open_ok (us_conn (conn_event opts now e s))"
    using ws_inv_step [OF assms(1)] so by (simp_all add: listened_def stays_open_def)
qed

lemma listened_flags: "listened s s' \<Longrightarrow> flags_ok s \<Longrightarrow> flags_ok s'"
  by (auto simp: listened_def flags_ok_def split: if_splits)

lemma conn_fields [simp]:
  "calls_ok (s\<lparr>us_conn := c\<rparr>) = calls_ok s" "flags_ok (s\<lparr>us_conn := c\<rparr>) = flags_ok s"
  by (simp_all add: calls_ok_def flags_ok_def)

lemma fold_no_url: "list_all (\<lambda>x. x = WNoUrl) xs \<Longrightarrow> fold (on_output opts now) xs s = s"
  by (induction xs) auto

text \<open>Without a key the connection has no URL: nothing is dialed and no listener has anything to do.\<close>

lemma conn_event_no_key:
  assumes "us_key s = None" "extends (\<lambda>x. x = WNoUrl) (us_conn s) (conn_next opts e s)"
  shows "conn_event opts now e s = s\<lparr>us_conn := conn_next opts e s\<rparr>"
  using extends_drop [OF assms(2)] by (simp add: conn_event_def session_url_None assms(1) fold_no_url)

lemma inv_conn:
  assumes "us_inv s" "e \<noteq> CallClose"
  shows "us_inv (conn_event opts now e s)"
proof -
  have w: "ws_inv (us_conn s)" "calls_ok s" using assms(1) by (simp_all add: us_inv_def)
  consider "us_state s = SClosed" | "us_state s \<noteq> SClosed" "us_key s = None" | "us_state s \<noteq> SClosed" "us_key s \<noteq> None" by blast
  then show ?thesis
  proof cases
    case 1
    then have k: "us_key s = None" and c: "wc_state (us_conn s) = CLOSED" using assms(1) by (simp_all add: us_inv_def)
    note n = closed_none_step [OF w(1) c, of "uo_ws opts" e, folded session_url_None [OF k, of opts]]
    show ?thesis
      using assms(1) 1 k n ws_inv_step [OF w(1)]
      by (simp add: conn_event_no_key us_inv_def)
  next
    case 2
    then have v: "virgin (us_conn s)" using assms(1) by (simp add: us_inv_def)
    note n = virgin_step [OF v assms(2), of "uo_ws opts", folded session_url_None [OF 2(2), of opts]]
    from n(1) have "open_ok (conn_next opts e s)" by (simp add: virgin_def open_ok_def)
    with 2 assms(1) n ws_inv_step [OF w(1)] show ?thesis
      by (simp add: conn_event_no_key us_inv_def)
  next
    case 3
    then have "open_ok (us_conn s)" using assms(1) by (simp add: us_inv_def)
    note l = conn_event_live [OF w 3(1) this assms(2), of opts now]
    then show ?thesis using assms(1) 3 listened_flags [OF l(3)] by (auto simp: us_inv_def listened_def)
  qed
qed

lemma us_close_shape:
  assumes "us_inv s" "us_state s \<noteq> SClosed"
  shows "us_inv (us_close opts now s)" "us_state (us_close opts now s) = SClosed" "us_key (us_close opts now s) = None"
    "us_conn (us_close opts now s) = ws_close (us_conn s)"
proof -
  let ?s1 = "(setSessionState SClosed s)\<lparr>us_keepAliveTimer := False, us_key := None\<rparr>"
  define s3 where "s3 = tell SessionClosed (case us_key s of None \<Rightarrow> ?s1 | Some key \<Rightarrow> if key = [] then ?s1 else dispose opts key ?s1)"
  have s3: "us_conn s3 = us_conn s" "us_state s3 = SClosed" "us_key s3 = None" "\<not> us_keepAliveTimer s3"
    "us_calls s3 = us_calls s" "us_next s3 = us_next s" "us_rotating s3 = us_rotating s" "us_startPromise s3 = us_startPromise s"
    by (auto simp: s3_def split: option.split)
  have eq: "us_close opts now s = conn_event opts now CallClose s3"
    using assms(2) by (simp add: us_close_def s3_def Let_def)
  have "calls_ok s3" "flags_ok s3" using assms(1) s3 by (simp_all add: us_inv_def calls_ok_def flags_ok_def pending_def)
  then have l: "listened (s3\<lparr>us_conn := conn_next opts CallClose s3\<rparr>) (us_close opts now s)"
    unfolding eq by (intro conn_event_listened) (simp_all add: s3)
  have "wc_state (conn_next opts CallClose s3) = CLOSED" by (simp add: ws_close_closed)
  moreover have "ws_inv (conn_next opts CallClose s3)" using assms(1) s3(1) by (intro ws_inv_step) (simp add: us_inv_def)
  ultimately show "us_inv (us_close opts now s)" using l s3 listened_flags [OF l] \<open>flags_ok s3\<close>
    by (simp add: us_inv_def listened_def)
  show "us_state (us_close opts now s) = SClosed" "us_key (us_close opts now s) = None"
    "us_conn (us_close opts now s) = ws_close (us_conn s)"
    using l s3 by (simp_all add: listened_def)
qed

lemma inv_close: "us_inv s \<Longrightarrow> us_inv (us_close opts now s)"
  using us_close_shape(1) by (cases "us_state s = SClosed") (simp_all add: us_close_def)

lemma inv_start: "us_inv s \<Longrightarrow> us_inv (us_start s)"
proof -
  assume i: "us_inv s"
  show ?thesis
  proof (cases "us_state s = SClosed \<or> us_state s = SLive \<or> us_state s = SReconnecting \<or> us_startPromise s")
    case True
    then have "us_start s = s" by (simp only: us_start_def if_True)
    with i show ?thesis by simp
  next
    case False
    let ?t = "tell ApiCreate ((setSessionState SStarting s)\<lparr>us_startPromise := True\<rparr>)"
    have t: "us_start s = begin_call CStart ?t" using False by (simp add: us_start_def)
    have "pending P ?t = pending P s" for P by (simp add: pending_def)
    moreover have "\<forall>i\<in>set (jm_keys (us_calls ?t)). i < us_next ?t" using i by (simp add: us_inv_def calls_ok_def)
    ultimately show ?thesis
      using i False unfolding t us_inv_def calls_ok_def flags_ok_def by (simp add: pending_begin)
  qed
qed

text \<open>An answer takes its call out of the table.\<close>

lemma answered_calls:
  assumes "calls_ok s" "jm_get i (us_calls s) = Some c"
  defines "s1 \<equiv> s\<lparr>us_calls := jm_del i (us_calls s)\<rparr>"
  shows "jm_ok (us_calls s1)" "\<forall>i\<in>set (jm_keys (us_calls s1)). i < us_next s1"
    "pending P s = of_bool (P c) + pending P s1"
proof -
  have ok: "jm_ok (us_calls s)" using assms(1) by (simp add: calls_ok_def)
  then show "jm_ok (us_calls s1)" by (simp add: s1_def jm.ok_del)
  show "\<forall>i\<in>set (jm_keys (us_calls s1)). i < us_next s1"
    using assms(1) by (auto simp: s1_def calls_ok_def jm.keys_del)
  show "pending P s = of_bool (P c) + pending P s1"
    using count_del [OF ok assms(2)] by (simp add: s1_def pending_def)
qed

lemma inv_schedule:
  "us_state s \<noteq> SClosed \<Longrightarrow> us_key s \<noteq> None \<Longrightarrow> us_key s \<noteq> Some [] \<Longrightarrow> flags_ok s \<Longrightarrow> ws_inv (us_conn s) \<Longrightarrow> calls_ok s \<Longrightarrow> open_ok (us_conn s) \<Longrightarrow>
    us_inv (scheduleNextKeepAlive s)"
  by (auto simp: us_inv_def scheduleNextKeepAlive_def calls_ok_def flags_ok_def pending_def)

lemma fields_ok [simp]:
  "calls_ok (s\<lparr>us_key := k\<rparr>) = calls_ok s" "calls_ok (s\<lparr>us_keepAliveFailures := n\<rparr>) = calls_ok s"
  "calls_ok (s\<lparr>us_rotating := b\<rparr>) = calls_ok s" "calls_ok (s\<lparr>us_startPromise := b\<rparr>) = calls_ok s" "calls_ok (tell x s) = calls_ok s"
  "calls_ok (dispose opts key s) = calls_ok s" "calls_ok (s\<lparr>us_keepAliveTimer := b\<rparr>) = calls_ok s"
  "flags_ok (s\<lparr>us_key := k\<rparr>) = flags_ok s" "flags_ok (s\<lparr>us_keepAliveFailures := n\<rparr>) = flags_ok s" "flags_ok (tell x s) = flags_ok s"
  "flags_ok (s\<lparr>us_keepAliveTimer := b\<rparr>) = flags_ok s"
  "flags_ok ((tell x s)\<lparr>us_startPromise := b\<rparr>) = flags_ok (s\<lparr>us_startPromise := b\<rparr>)"
  by (simp_all add: calls_ok_def flags_ok_def)

text \<open>The flags with one call of each kind taken out of the table.\<close>

definition flags_but :: "bool \<Rightarrow> bool \<Rightarrow> user_session \<Rightarrow> bool" where
  "flags_but r p s \<longleftrightarrow> pending is_rotation s + of_bool r = of_bool (us_rotating s) \<and>
     pending (\<lambda>c. c = CStart) s + of_bool p = of_bool (us_startPromise s)"

lemma answered:
  assumes "us_inv s" "jm_get i (us_calls s) = Some c"
  defines "s1 \<equiv> s\<lparr>us_calls := jm_del i (us_calls s)\<rparr>"
  shows "calls_ok s1" "flags_but (is_rotation c) (c = CStart) s1" "pending renews s = of_bool (renews c) + pending renews s1"
  using assms(1) answered_calls [of s i c, OF _ assms(2)]
  by (simp_all add: us_inv_def calls_ok_def flags_but_def flags_ok_def s1_def)

lemma listened_but: "listened s s' \<Longrightarrow> flags_but r p s \<Longrightarrow> (r \<longrightarrow> us_rotating s) \<Longrightarrow> flags_but r p s'"
  by (auto simp: listened_def flags_but_def split: if_splits)

lemma flags_rotated: "flags_but True False s \<Longrightarrow> flags_ok (s\<lparr>us_rotating := False\<rparr>)"
  by (cases "us_rotating s") (auto simp: flags_but_def flags_ok_def)

lemma flags_started: "flags_but False True s \<Longrightarrow> flags_ok (s\<lparr>us_startPromise := False\<rparr>)"
  by (cases "us_startPromise s") (auto simp: flags_but_def flags_ok_def)

lemma flags_other: "flags_but False False s = flags_ok s"
  by (simp add: flags_but_def flags_ok_def)

lemma inv_start_answer:
  assumes "us_inv s" "jm_get i (us_calls s) = Some CStart"
  shows "us_inv (s\<lparr>us_calls := jm_del i (us_calls s), us_startPromise := False\<rparr>)"
    "key \<noteq> [] \<Longrightarrow> us_inv (start_created opts now key (s\<lparr>us_calls := jm_del i (us_calls s)\<rparr>))"
proof -
  let ?s1 = "s\<lparr>us_calls := jm_del i (us_calls s)\<rparr>"
  note a = answered [OF assms, simplified]
  have fl: "flags_ok (?s1\<lparr>us_startPromise := False\<rparr>)" by (rule flags_started) (use a(2) in simp)
  show i1: "us_inv (s\<lparr>us_calls := jm_del i (us_calls s), us_startPromise := False\<rparr>)"
    using assms(1) a(1,3) fl by (auto simp: us_inv_def)
  assume key: "key \<noteq> []"
  show "us_inv (start_created opts now key ?s1)"
  proof (cases "us_state s = SClosed")
    case True
    then have "start_created opts now key ?s1 = dispose opts key (?s1\<lparr>us_startPromise := False\<rparr>)" by (simp add: start_created_def)
    moreover have "us_inv (dispose opts key t)" if "us_inv t" for t
      using that by (simp add: us_inv_def flags_ok_def)
    ultimately show ?thesis using i1 by simp
  next
    case False
    let ?s2 = "?s1\<lparr>us_key := Some key, us_keepAliveFailures := 0\<rparr>"
    have o: "ws_inv (us_conn ?s2)" "calls_ok ?s2" "us_state ?s2 \<noteq> SClosed" "open_ok (us_conn ?s2)"
      using assms(1) a(1) False by (simp_all add: us_inv_def)
    let ?s3 = "conn_event opts now (CallConnect None) ?s2"
    have l: "ws_inv (us_conn ?s3)" "open_ok (us_conn ?s3)"
      "listened (?s2\<lparr>us_conn := conn_next opts (CallConnect None) ?s2\<rparr>) ?s3"
      by (rule conn_event_live [OF o], simp)+
    have "flags_but False True (?s2\<lparr>us_conn := conn_next opts (CallConnect None) ?s2\<rparr>)" using a(2) by (simp add: flags_but_def)
    with l(3) have "flags_but False True ?s3" by (rule listened_but) simp
    then have "flags_ok (?s3\<lparr>us_startPromise := False\<rparr>)" by (rule flags_started)
    then have "us_inv (scheduleNextKeepAlive ((tell (Started key) ?s3)\<lparr>us_startPromise := False\<rparr>))"
      using l(1,2) key l(3) False by (intro inv_schedule) (simp_all add: listened_def)
    moreover have "start_created opts now key ?s1 = scheduleNextKeepAlive ((tell (Started key) ?s3)\<lparr>us_startPromise := False\<rparr>)"
      using l(3) False by (auto simp: start_created_def scheduleNextKeepAlive_def listened_def Let_def tell_def)
    ultimately show ?thesis by simp
  qed
qed

lemma schedule_closed [simp]: "us_state s = SClosed \<Longrightarrow> scheduleNextKeepAlive s = s"
  by (simp add: scheduleNextKeepAlive_def)

lemma inv_after_rotation:
  assumes "us_inv s" "jm_get i (us_calls s) = Some (CRotate reason tick)"
    and "us_state t \<noteq> SClosed" "us_key t \<noteq> None" "us_key t \<noteq> Some []" "ws_inv (us_conn t)" "open_ok (us_conn t)" "calls_ok t"
    and "flags_but True False t" "us_keepAliveTimer t = us_keepAliveTimer s" "us_key s \<noteq> None" "us_state s \<noteq> SClosed"
    and "pending renews (s\<lparr>us_calls := jm_del i (us_calls s)\<rparr>) \<le> pending renews t"
  shows "us_inv (if tick then scheduleNextKeepAlive (t\<lparr>us_rotating := False\<rparr>) else t\<lparr>us_rotating := False\<rparr>)"
proof (cases tick)
  case True
  then show ?thesis using flags_rotated [OF assms(9)] assms(3-8) by (simp add: inv_schedule)
next
  case False
  with answered(3) [OF assms(1,2)] assms(1,10-13) have "us_keepAliveTimer t \<or> 0 < pending renews t"
    by (auto simp: us_inv_def)
  with False flags_rotated [OF assms(9)] assms(3-8) show ?thesis by (auto simp: us_inv_def)
qed

lemma inv_rotate_answer:
  assumes "us_inv s" "jm_get i (us_calls s) = Some (CRotate reason tick)"
  shows "us_inv (rotate_failed reason tick (s\<lparr>us_calls := jm_del i (us_calls s)\<rparr>))"
    "key \<noteq> [] \<Longrightarrow> us_inv (rotate_created opts now reason tick key (s\<lparr>us_calls := jm_del i (us_calls s)\<rparr>))"
proof -
  let ?s1 = "s\<lparr>us_calls := jm_del i (us_calls s)\<rparr>"
  note a = answered [OF assms]
  have fl: "flags_but True False ?s1" using a(2) by simp
  then have "us_rotating s" by (cases "us_rotating s") (auto simp: flags_but_def)
  then have k: "us_key s \<noteq> None" if "us_state s \<noteq> SClosed" using assms(1) that by (auto simp: us_inv_def split: if_splits)
  have closed: "us_inv (t\<lparr>us_rotating := False\<rparr>)"
    if "us_state s = SClosed" "t = tell x ?s1 \<or> t = dispose opts key ?s1" for t x
    using that assms(1) a(1) flags_rotated [OF fl] by (auto simp: us_inv_def flags_ok_def)
  show "us_inv (rotate_failed reason tick ?s1)"
  proof (cases "us_state s = SClosed")
    case True
    then show ?thesis using closed [OF True, of "tell (KeyRotationFailed reason) ?s1"]
      by (auto simp: rotate_failed_def Let_def)
  next
    case False
    have "us_inv (if tick then scheduleNextKeepAlive ((tell (KeyRotationFailed reason) ?s1)\<lparr>us_rotating := False\<rparr>)
      else (tell (KeyRotationFailed reason) ?s1)\<lparr>us_rotating := False\<rparr>)"
      by (rule inv_after_rotation [OF assms]) (use assms(1) a(1) fl k False in \<open>auto simp: us_inv_def flags_but_def\<close>)
    then show ?thesis by (simp add: rotate_failed_def Let_def)
  qed
  assume key: "key \<noteq> []"
  show "us_inv (rotate_created opts now reason tick key ?s1)"
  proof (cases "us_state s = SClosed")
    case True
    then show ?thesis using closed [OF True, of "dispose opts key ?s1"]
      by (auto simp: rotate_created_def Let_def)
  next
    case False
    let ?s2 = "tell (KeyRotated reason key) (?s1\<lparr>us_key := Some key, us_keepAliveFailures := 0\<rparr>)"
    let ?s3 = "conn_event opts now (CallReconnect None) ?s2"
    have o: "ws_inv (us_conn ?s2)" "calls_ok ?s2" "us_state ?s2 \<noteq> SClosed" "open_ok (us_conn ?s2)"
      using assms(1) a(1) False by (simp_all add: us_inv_def)
    have l: "ws_inv (us_conn ?s3)" "open_ok (us_conn ?s3)"
      "listened (?s2\<lparr>us_conn := conn_next opts (CallReconnect None) ?s2\<rparr>) ?s3"
      by (rule conn_event_live [OF o], simp)+
    have "flags_but True False (?s2\<lparr>us_conn := conn_next opts (CallReconnect None) ?s2\<rparr>)" using fl by (simp add: flags_but_def)
    with l(3) have "flags_but True False ?s3" by (rule listened_but) (simp add: \<open>us_rotating s\<close>)
    with l key False k have "us_inv (if tick then scheduleNextKeepAlive (?s3\<lparr>us_rotating := False\<rparr>) else ?s3\<lparr>us_rotating := False\<rparr>)"
      by (intro inv_after_rotation [OF assms]) (simp_all add: listened_def)
    moreover have "wc_state (us_conn s) \<noteq> CLOSED" using o(4) by (simp add: open_ok_def)
    ultimately show ?thesis using False by (simp add: rotate_created_def Let_def)
  qed
qed

lemma inv_rotate_tick:
  assumes "calls_ok s" "flags_ok s" "us_state s \<noteq> SClosed" "us_key s \<noteq> None" "us_key s \<noteq> Some []" "ws_inv (us_conn s)" "open_ok (us_conn s)"
  shows "us_inv (rotateListenKey r True s)"
proof (cases "us_rotating s")
  case True
  with assms show ?thesis by (simp add: rotateListenKey_def inv_schedule)
next
  case False
  let ?t = "tell ApiCreate (s\<lparr>us_rotating := True\<rparr>)"
  have b: "\<forall>i\<in>set (jm_keys (us_calls ?t)). i < us_next ?t" using assms(1) by (simp add: calls_ok_def)
  have "us_inv (begin_call (CRotate r True) ?t)"
    using assms False pending_begin(1) [OF b, of _ "CRotate r True"] pending_begin(2,3) [OF b, of "CRotate r True"]
    by (auto simp: us_inv_def calls_ok_def flags_ok_def)
  with False assms(3) show ?thesis by (simp add: rotateListenKey_def)
qed

lemma inv_keepAlive_answer:
  assumes "us_inv s" "jm_get i (us_calls s) = Some CKeepAlive"
  shows "us_inv (keepAlive_ok (s\<lparr>us_calls := jm_del i (us_calls s)\<rparr>))"
    "us_inv (keepAlive_failed opts (s\<lparr>us_calls := jm_del i (us_calls s)\<rparr>))"
proof -
  let ?s1 = "s\<lparr>us_calls := jm_del i (us_calls s)\<rparr>"
  note a = answered [OF assms]
  have fl: "flags_ok ?s1" using a(2) by (simp add: flags_other)
  have k: "us_key s \<noteq> None" if "us_state s \<noteq> SClosed" using that assms(1) a(3) by (auto simp: us_inv_def split: if_splits)
  have t: "us_inv (scheduleNextKeepAlive t) \<and> us_inv (rotateListenKey r True t)"
    if "t = tell (Keepalive b) (?s1\<lparr>us_keepAliveFailures := n\<rparr>)" for t b n r
  proof (cases "us_state s = SClosed")
    case True
    with that assms(1) a(1) fl show ?thesis by (simp add: us_inv_def rotateListenKey_def)
  next
    case False
    with that assms(1) a(1) fl k show ?thesis
      by (intro conjI inv_schedule inv_rotate_tick) (auto simp: us_inv_def)
  qed
  show "us_inv (keepAlive_ok ?s1)" using t by (simp add: keepAlive_ok_def)
  show "us_inv (keepAlive_failed opts ?s1)" using t by (simp add: keepAlive_failed_def Let_def)
qed

lemma inv_tick: "us_inv s \<Longrightarrow> us_keepAliveTimer s \<Longrightarrow> us_inv (keepAliveTick (s\<lparr>us_keepAliveTimer := False\<rparr>))"
proof -
  assume i: "us_inv s" "us_keepAliveTimer s"
  then have open_s: "us_state s \<noteq> SClosed" by (auto simp: us_inv_def)
  show ?thesis
  proof (cases "us_key s")
    case None
    with i open_s show ?thesis by (simp add: keepAliveTick_def us_inv_def)
  next
    case (Some key)
    let ?t = "tell (ApiKeepAlive key) (s\<lparr>us_keepAliveTimer := False\<rparr>)"
    have "key \<noteq> []" using i(1) Some by (simp add: us_inv_def)
    have b: "\<forall>i\<in>set (jm_keys (us_calls ?t)). i < us_next ?t" using i(1) by (simp add: us_inv_def calls_ok_def)
    have "us_inv (begin_call CKeepAlive ?t)"
      using i open_s Some pending_begin(1) [OF b, of _ CKeepAlive] pending_begin(2,3) [OF b, of CKeepAlive]
      by (simp add: us_inv_def calls_ok_def flags_ok_def)
    with Some open_s \<open>key \<noteq> []\<close> show ?thesis by (simp add: keepAliveTick_def)
  qed
qed

text \<open>The API never answers a creation with an empty key.\<close>

fun session_event_ok :: "int \<times> session_event \<Rightarrow> bool" where
  "session_event_ok (now, Answered i (Some key)) \<longleftrightarrow> key \<noteq> []"
| "session_event_ok _ \<longleftrightarrow> True"

lemma us_step_inv: "us_inv s \<Longrightarrow> session_event_ok e \<Longrightarrow> us_inv (us_step opts s e)"
proof -
  assume i: "us_inv s" and ok: "session_event_ok e"
  show ?thesis
  proof (cases "(opts, s, e)" rule: us_step.cases)
    case (3 opts s now e)
    with i show ?thesis by (auto simp: inv_close inv_conn split: ws_event.split)
  next
    case (5 opts s now j answer)
    with i ok show ?thesis
      by (auto simp: Let_def inv_start_answer inv_rotate_answer inv_keepAlive_answer split: option.split api_call.split)
  qed (use i in \<open>auto simp: inv_start inv_close inv_tick\<close>)
qed

lemma us_inv_new: "us_inv new_UserStreamSession"
  by (simp add: us_inv_def new_UserStreamSession_def calls_ok_def flags_ok_def pending_def ws_inv_new virgin_def open_ok_def jm_ok_def
      jm_keys_def) (simp add: new_WsConnection_def)

interpretation usm: invariant_machine "us_step opts" us_inv session_event_ok for opts
  by unfold_locales (rule us_step_inv)

lemma us_reach: "list_all session_event_ok evs \<Longrightarrow> us_inv (foldl (us_step opts) new_UserStreamSession evs)"
  by (rule usm.run_inv [OF us_inv_new])

section \<open>The terminal close\<close>

fun quiet_out :: "session_output \<Rightarrow> bool" where
  "quiet_out ApiCreate = False"
| "quiet_out (ApiKeepAlive k) = False"
| "quiet_out (Dialed u) = False"
| "quiet_out _ = True"

definition sealed :: "session_output list \<Rightarrow> nat \<Rightarrow> user_session \<Rightarrow> bool" where
  "sealed tr n s \<longleftrightarrow> us_inv s \<and> us_state s = SClosed \<and> wc_tokenCounter (us_conn s) = n \<and>
     (\<exists>xs. us_out s = tr @ xs \<and> list_all quiet_out xs)"

lemma sealed_answer:
  assumes "us_state s = SClosed"
  shows "\<exists>xs. us_out (us_step opts s (now, Answered i a)) = us_out s @ xs \<and> list_all quiet_out xs"
    "us_state (us_step opts s (now, Answered i a)) = SClosed" "us_conn (us_step opts s (now, Answered i a)) = us_conn s"
  using assms
  by (auto simp: Let_def start_created_def rotate_created_def rotate_failed_def keepAlive_ok_def keepAlive_failed_def
      rotateListenKey_def dispose_def split: option.split api_call.split)

lemma sealed_step:
  assumes "sealed tr n s" "session_event_ok e"
  shows "sealed tr n (us_step opts s e)"
proof -
  have i: "us_inv s" "us_state s = SClosed" "us_key s = None" "\<not> us_keepAliveTimer s" "wc_state (us_conn s) = CLOSED" "ws_inv (us_conn s)"
    using assms(1) by (simp_all add: sealed_def us_inv_def)
  note n = closed_none_step [OF i(6,5), of "uo_ws opts", folded session_url_None [OF i(3), of opts]]
  have conn: "us_out (conn_event opts now e s) = us_out s" "us_state (conn_event opts now e s) = SClosed"
    "wc_tokenCounter (us_conn (conn_event opts now e s)) = wc_tokenCounter (us_conn s)" for now e
    using conn_event_no_key [OF i(3) n(3)] n(2) i(2) by simp_all
  obtain now x where e: "e = (now, x)" by (cases e)
  have "us_state (us_step opts s e) = SClosed \<and> wc_tokenCounter (us_conn (us_step opts s e)) = wc_tokenCounter (us_conn s) \<and>
    (\<exists>xs. us_out (us_step opts s e) = us_out s @ xs \<and> list_all quiet_out xs)"
  proof (cases x)
    case (Answered j a)
    with e sealed_answer [OF i(2)] show ?thesis by (metis (no_types))
  next
    case (Conn y)
    with e i(2) conn show ?thesis by (auto simp: us_close_def split: ws_event.split)
  qed (use e i in \<open>auto simp: us_start_def us_close_def\<close>)
  with assms(1) us_step_inv [OF i(1) assms(2)] show ?thesis by (auto simp: sealed_def)
qed

interpretation sealm: invariant_machine "us_step opts" "sealed tr n" session_event_ok for opts tr n
  by unfold_locales (rule sealed_step)

lemma closed_outputs:
  "us_state s = SClosed \<Longrightarrow>
    \<exists>xs. us_out (fold (on_output opts now) os s) = us_out s @ xs \<and> list_all quiet_out xs"
proof (induction os arbitrary: s)
  case (Cons x os)
  have "us_state (on_output opts now x s) = SClosed \<and> (\<exists>xs. us_out (on_output opts now x s) = us_out s @ xs \<and> list_all quiet_out xs)"
  proof (cases x)
    case (WClose b)
    with Cons.prems show ?thesis by (cases b) auto
  qed (use Cons.prems in \<open>auto simp: on_reconnecting_def handleRawMessage_def rotateListenKey_def setSessionState_def Let_def
      split: option.split\<close>)
  with Cons.IH [of "on_output opts now x s"] show ?case by force
qed simp

lemma close_seals:
  assumes "us_inv s"
  shows "sealed (us_out s) (wc_tokenCounter (us_conn s)) (us_close opts now s)"
proof (cases "us_state s = SClosed")
  case True
  with assms show ?thesis by (simp add: us_close_def sealed_def)
next
  case False
  let ?s1 = "(setSessionState SClosed s)\<lparr>us_keepAliveTimer := False, us_key := None\<rparr>"
  define s3 where "s3 = tell SessionClosed (case us_key s of None \<Rightarrow> ?s1 | Some key \<Rightarrow> if key = [] then ?s1 else dispose opts key ?s1)"
  have s3: "us_conn s3 = us_conn s" "us_state s3 = SClosed" "us_key s3 = None"
    by (auto simp: s3_def split: option.split)
  have out3: "\<exists>xs. us_out s3 = us_out s @ xs \<and> list_all quiet_out xs"
    using False by (auto simp: s3_def setSessionState_def dispose_def split: option.split)
  have eq: "us_close opts now s = conn_event opts now CallClose s3"
    using False by (simp add: us_close_def s3_def Let_def)
  let ?s4 = "s3\<lparr>us_conn := ws_close (us_conn s)\<rparr>"
  obtain os where fe: "us_close opts now s = fold (on_output opts now) os ?s4"
    unfolding eq conn_event_def Let_def session_url_None [OF s3(3)] by (simp add: s3(1))
  have "\<exists>xs. us_out (us_close opts now s) = us_out ?s4 @ xs \<and> list_all quiet_out xs"
    unfolding fe by (rule closed_outputs) (simp add: s3)
  with out3 have "\<exists>xs. us_out (us_close opts now s) = us_out s @ xs \<and> list_all quiet_out xs" by force
  then show ?thesis using us_close_shape [OF assms False] by (simp add: sealed_def ws_close_def Let_def ws_frame)
qed

lemma close_releases:
  assumes "uo_canDelete opts" "us_state s \<noteq> SClosed" "us_key s = Some key" "key \<noteq> []"
  shows "ApiDelete key \<in> set (us_out (us_close opts now s))"
proof -
  let ?s3 = "tell SessionClosed (dispose opts key ((setSessionState SClosed s)\<lparr>us_keepAliveTimer := False, us_key := None\<rparr>))"
  have k: "us_key ?s3 = None" by simp
  obtain os c where "us_close opts now s = fold (on_output opts now) os (?s3\<lparr>us_conn := c\<rparr>)"
    using assms by (simp add: us_close_def conn_event_def Let_def session_url_None [OF k])
  with closed_outputs [of "?s3\<lparr>us_conn := c\<rparr>" opts now os] assms(1) show ?thesis by (auto simp: dispose_def)
qed

lemma late_key_deleted:
  "uo_canDelete opts \<Longrightarrow> us_state s = SClosed \<Longrightarrow> jm_get i (us_calls s) = Some c \<Longrightarrow> c = CStart \<or> is_rotation c \<Longrightarrow>
    ApiDelete key \<in> set (us_out (us_step opts s (now, Answered i (Some key))))"
  by (cases c) (auto simp: start_created_def rotate_created_def dispose_def Let_def)

section \<open>Properties\<close>


text \<open>Closing a session is final and leaks no key: from any reachable state, after \<open>close()\<close> no key is
  created or kept alive any more and no socket is dialed, whatever answers, frames, timers and calls
  follow, a call to \<open>connect()\<close> or \<open>reconnect()\<close> included; the live key is deleted on the server, and so is
  a key whose creation was still in flight, when it arrives.\<close>

theorem session_close_final:
  assumes "list_all session_event_ok evs" "list_all session_event_ok evs2"
  shows "let s = foldl (us_step opts) new_UserStreamSession evs; c = us_close opts now s; s' = foldl (us_step opts) c evs2 in
    us_state s' = SClosed \<and> us_key s' = None \<and> \<not> us_keepAliveTimer s' \<and> wc_state (us_conn s') = CLOSED \<and>
    list_all quiet_out (drop (length (us_out s)) (us_out s')) \<and>
    (uo_canDelete opts \<longrightarrow>
      (\<forall>key. us_key s = Some key \<longrightarrow> ApiDelete key \<in> set (us_out c)) \<and>
      (\<forall>i key call now2. jm_get i (us_calls s') = Some call \<longrightarrow> call = CStart \<or> is_rotation call \<longrightarrow>
         ApiDelete key \<in> set (us_out (us_step opts s' (now2, Answered i (Some key))))))"
proof -
  let ?s = "foldl (us_step opts) new_UserStreamSession evs"
  let ?c = "us_close opts now ?s"
  let ?s' = "foldl (us_step opts) ?c evs2"
  have i: "us_inv ?s" by (rule us_reach [OF assms(1)])
  have "sealed (us_out ?s) (wc_tokenCounter (us_conn ?s)) ?s'"
    by (rule sealm.run_inv [OF close_seals [OF i] assms(2)])
  then have s: "us_inv ?s'" "us_state ?s' = SClosed" "list_all quiet_out (drop (length (us_out ?s)) (us_out ?s'))"
    by (auto simp: sealed_def)
  have "ApiDelete key \<in> set (us_out ?c)" if "uo_canDelete opts" "us_key ?s = Some key" for key
    using close_releases [of opts ?s key] that i by (auto simp: us_inv_def split: if_splits)
  then show ?thesis using s late_key_deleted by (simp add: Let_def us_inv_def del: us_step.simps)
qed

text \<open>Starting twice orphans a key. \<open>start()\<close> resolves before the socket is open, with the session
  still starting, so a second call in that window creates a second key and only replaces the stored
  one: the session goes live on the first key, which is neither kept alive nor deleted, and the
  keep-alives go to a key no stream uses.\<close>

theorem second_start_orphans_key:
  assumes "k1 \<noteq> []" "k2 \<noteq> []" "k1 \<noteq> k2"
    and "buildPrivateStreamUrl (uo_url opts) (Some k1) (uo_events opts) (uo_style opts) = Inr (Some u1)"
    and "buildPrivateStreamUrl (uo_url opts) (Some k2) (uo_events opts) (uo_style opts) = Inr (Some u2)"
  shows "let s = foldl (us_step opts) new_UserStreamSession
      [(1, CallStart), (2, Answered 0 (Some k1)), (3, CallStart), (4, Answered 1 (Some k2)), (5, Conn (SockOpen 1 5)), (6, KeepAliveTimer)] in
    us_state s = SLive \<and> us_out s = [SessionState SStarting, ApiCreate, Dialed u1, Started k1] @
      [ApiCreate, Started k2, SessionState SLive, ApiKeepAlive k2]"
proof -
  define c1 where "c1 = ws_connect (Some u1) new_WsConnection"
  define c2 where "c2 = ws_step (uo_ws opts) c1 (SockOpen (Suc 0) 5)"
  have c0: "wc_trace new_WsConnection = []" "wc_tokenCounter new_WsConnection = 0" by (simp_all add: new_WsConnection_def)
  have c1: "wc_trace c1 = [WState IDLE CONNECTING]" "wc_tokenCounter c1 = Suc 0" "ws_connect url c1 = c1" for url
    by (simp_all add: c1_def ws_connect_def new_WsConnection_def ws_frame openPrimary_trace)
  have "jm_get (Suc 0) (wc_sockets c1) = Some \<lparr>so_ready = ReadyConnecting, so_attached = True, so_purpose = ForConnect\<rparr>"
    "wc_activeToken c1 = Suc 0" "wc_state c1 = CONNECTING"
    by (simp_all add: c1_def ws_connect_def new_WsConnection_def ws_frame)
  then have c2: "wc_trace c2 = [WState IDLE CONNECTING, WState CONNECTING OPEN, WOpen]" "wc_tokenCounter c2 = Suc 0"
    by (simp_all add: c2_def socket_opened_def authorized_def Let_def ws_frame set_ready_trace transition_trace c1)
  note defs = us_start_def begin_call_def conn_event_def session_url_def tell_def setSessionState_def jm_set_def
    jm_get_def jm_del_def Let_def c0 c1 c2 c1_def [symmetric] c2_def [symmetric]
  show ?thesis
    using assms by (simp add: new_UserStreamSession_def defs start_created_def scheduleNextKeepAlive_def keepAliveTick_def del: ws_step.simps(6))
qed

definition wit_ws :: ws_options where
  "wit_ws = \<lparr>wo_reconnectDelay = 1000, wo_maxReconnectDelay = 30000, wo_rotation = 82800000, wo_stale = 0,
     wo_requestTimeout = 10000, wo_computeDelay = None\<rparr>"

definition wit_session :: session_options where
  "wit_session = \<lparr>uo_ws = wit_ws, uo_url = ''wss://f/private'', uo_events = [], uo_style = Query,
     uo_keepAliveFailures = 3, uo_reconnectAttempts = 6, uo_flapWindow = 10000, uo_flapFailures = 5,
     uo_canDelete = True, uo_eventType = (\<lambda>_. None)\<rparr>"


theorem session_close_final_witness:
  "us_key (foldl (us_step wit_session) (us_close wit_session 3 (foldl (us_step wit_session) new_UserStreamSession
     [(1, CallStart)])) [(4, Answered 0 (Some ''k'')), (5, Conn (CallConnect None))]) = None"
  using session_close_final [of "[(1, CallStart)]" "[(4, Answered 0 (Some ''k'')), (5, Conn (CallConnect None))]" wit_session 3]
  by (simp add: Let_def del: us_step.simps foldl.simps)

theorem second_start_orphans_key_witness:
  "let s = foldl (us_step wit_session) new_UserStreamSession
      [(1, CallStart), (2, Answered 0 (Some ''a'')), (3, CallStart), (4, Answered 1 (Some ''b'')), (5, Conn (SockOpen 1 5)), (6, KeepAliveTimer)] in
    us_state s = SLive \<and> us_out s = [SessionState SStarting, ApiCreate, Dialed ''wss://f/private/ws?listenKey=a'', Started ''a''] @
      [ApiCreate, Started ''b'', SessionState SLive, ApiKeepAlive ''b'']"
proof (rule second_start_orphans_key)
  show "buildPrivateStreamUrl (uo_url wit_session) (Some ''a'') (uo_events wit_session) (uo_style wit_session) =
      Inr (Some ''wss://f/private/ws?listenKey=a'')" by code_simp
  show "buildPrivateStreamUrl (uo_url wit_session) (Some ''b'') (uo_events wit_session) (uo_style wit_session) =
      Inr (Some ''wss://f/private/ws?listenKey=b'')" by code_simp
qed simp_all

end
