(* ===== verification/Execution_Gateway.thy ===== *)
theory Execution_Gateway
  imports Execution_Manager Http_Client
begin

text \<open>
  \<open>src/execution/AuditSink.ts\<close>, \<open>src/execution/Gateway.ts\<close> and \<open>src/execution/AtomicOrderManager.ts\<close>: the
  audit records and the sinks they land in, the gateway that routes calls to one of two managers and
  writes one record per call, and the cancel-replace dispatcher that reads partial results out of an
  error. The gateway runs the managers of \<open>Execution_Manager\<close>: a call starts an operation of the manager
  it is routed to and waits under that operation's key; an answer of the exchange or the simulator is a
  step of one manager, and when that step ends an operation, the calls waiting for it continue, in the
  order they were made. The serializer of a stream sink is a parameter; a sink of the caller's own may
  throw.
  Lemmas: what each sink keeps, that calls settle once, as their manager did, with one record each, that
  no call waits for an operation that is over, and that no sink changes what happens to a call.
\<close>

section \<open>Audit records\<close>

datatype audit_action = APlace | ACancel | AReconcile | AUpdate | AReject | AUnknownAction

datatype audit_outcome = OutAcked | OutReconciled | OutRejected | OutUnknown | OutPending | OutTransportError

datatype backend = Live | Paper

text \<open>An execution as the audit sees it: any field may be missing from what an error carried.\<close>

record envelope =
  en_intent :: string
  en_client :: string
  en_exchangeId :: "js_number option"
  en_symbol :: string
  en_side :: string
  en_type :: string
  en_status :: "string option"
  en_requestedQuantity :: "string option"
  en_requestedPrice :: "string option"
  en_executed :: "string option"
  en_quote :: "string option"
  en_average :: "string option"
  en_state :: "recon_state option"
  en_updatedAt :: "js_number option"

record audit_record = envelope +
  ar_action :: audit_action
  ar_outcome :: audit_outcome
  ar_backend :: backend
  ar_note :: "string option"

definition envelope_of :: "execution \<Rightarrow> envelope" where
  "envelope_of ex =
     \<lparr>en_intent = ex_intent ex, en_client = ex_client ex, en_exchangeId = ex_exchangeId ex, en_symbol = ex_symbol ex,
      en_side = ex_side ex, en_type = ex_type ex, en_status = Some (ex_status ex),
      en_requestedQuantity = ex_requestedQuantity ex, en_requestedPrice = ex_requestedPrice ex,
      en_executed = ex_executed ex, en_quote = ex_quote ex, en_average = ex_average ex,
      en_state = Some (ex_state ex), en_updatedAt = Some (ex_updatedAt ex)\<rparr>"

definition auditRecordFromExecution ::
  "envelope \<Rightarrow> audit_action \<Rightarrow> audit_outcome \<Rightarrow> backend \<Rightarrow> string option \<Rightarrow> audit_record" where
  "auditRecordFromExecution en action outcome be note =
     \<lparr>en_intent = en_intent en, en_client = en_client en, en_exchangeId = en_exchangeId en, en_symbol = en_symbol en,
      en_side = en_side en, en_type = en_type en, en_status = en_status en,
      en_requestedQuantity = en_requestedQuantity en, en_requestedPrice = en_requestedPrice en,
      en_executed = en_executed en, en_quote = en_quote en, en_average = en_average en,
      en_state = en_state en, en_updatedAt = en_updatedAt en,
      ar_action = action, ar_outcome = outcome, ar_backend = be, ar_note = note\<rparr>"

section \<open>Sinks\<close>

text \<open>A sink of the caller's own keeps what it is given, or throws.\<close>

datatype audit_sink =
    InMemorySink nat "audit_record list"
  | StreamSink "string list"
  | CustomSink bool "audit_record list"
  | FanOutSink "audit_sink list"

definition memory_push :: "nat \<Rightarrow> audit_record list \<Rightarrow> audit_record \<Rightarrow> audit_record list" where
  "memory_push cap buffer r = (let b = buffer @ [r] in if cap < length b then tl b else b)"

text \<open>\<open>None\<close> is a sink that threw. A serializer that throws is swallowed by the stream sink.\<close>

fun sink_record :: "(audit_record \<Rightarrow> string option) \<Rightarrow> audit_record \<Rightarrow> audit_sink \<Rightarrow> audit_sink option" where
  "sink_record ser r (InMemorySink cap buffer) = Some (InMemorySink cap (memory_push cap buffer r))"
| "sink_record ser r (StreamSink ls) =
     Some (case ser r of None \<Rightarrow> StreamSink ls | Some line \<Rightarrow> StreamSink (ls @ [line @ [CHR 0x0A]]))"
| "sink_record ser r (CustomSink throws rs) = (if throws then None else Some (CustomSink throws (rs @ [r])))"
| "sink_record ser r (FanOutSink children) =
     Some (FanOutSink (map (\<lambda>c. case sink_record ser r c of None \<Rightarrow> c | Some c' \<Rightarrow> c') children))"






fun sink_clear :: "audit_sink \<Rightarrow> audit_sink" where
  "sink_clear (InMemorySink cap buffer) = InMemorySink cap []"
| "sink_clear (FanOutSink children) = FanOutSink (map sink_clear children)"
| "sink_clear s = s"

section \<open>The gateway\<close>

text \<open>A call as it was made: intent, client order id and submission; symbol, exchange order id, client
  order id and intent; intent.\<close>

datatype gateway_call =
    GPlace "string option" "string option" submission
  | GCancel string "js_number option" "string option" "string option"
  | GReconcile string

text \<open>What a call waits for: the placement of a client order id, which several calls may share, or its own
  cancel or reconciliation.\<close>

datatype manager_key = KPlace string | KCancel nat | KReconcile nat

record open_call =
  oc_requested :: "backend option"
  oc_backend :: backend
  oc_call :: gateway_call
  oc_key :: manager_key

text \<open>A call whose promise is settled: with what, and what the audit was given.\<close>

record settled_call =
  sc_id :: nat
  sc_requested :: "backend option"
  sc_backend :: backend
  sc_call :: gateway_call
  sc_time :: js_number
  sc_carried :: "envelope option"
  sc_known :: "execution option"
  sc_result :: "em_error + execution"

record gateway =
  gw_default :: backend
  gw_sink :: audit_sink
  gw_live :: exec_manager
  gw_paper :: exec_manager
  gw_next :: nat
  gw_calls :: "(nat, open_call) jsmap"
  gw_done :: "settled_call list"




definition set_manager :: "backend \<Rightarrow> exec_manager \<Rightarrow> gateway \<Rightarrow> gateway" where
  "set_manager b m gw = (case b of Paper \<Rightarrow> gw\<lparr>gw_paper := m\<rparr> | Live \<Rightarrow> gw\<lparr>gw_live := m\<rparr>)"

fun mapOutcome :: "recon_state \<Rightarrow> audit_outcome" where
  "mapOutcome Acked = OutAcked"
| "mapOutcome Reconciled = OutReconciled"
| "mapOutcome Rejected = OutRejected"
| "mapOutcome Unknown = OutUnknown"

definition is_unknown :: "em_error \<Rightarrow> bool" where
  "is_unknown e = (case e of ESdk (ExecutionUnknownError n c) \<Rightarrow> True | _ \<Rightarrow> False)"

definition error_outcome :: "em_error \<Rightarrow> audit_outcome" where
  "error_outcome e = (if is_unknown e then OutUnknown else OutTransportError)"

text \<open>The \<open>execution\<close> property of an error: only an \<open>ExecutionUnknownError\<close> has one, with these fields of the
  placement it ended.\<close>

definition extractExecutionFromError :: "placement option \<Rightarrow> em_error \<Rightarrow> envelope option" where
  "extractExecutionFromError placed e =
     (case (placed, e) of
        (Some pl, ESdk (ExecutionUnknownError n cid)) \<Rightarrow>
          Some \<lparr>en_intent = pl_intent pl, en_client = cid, en_exchangeId = None, en_symbol = su_symbol (pl_submission pl),
                en_side = su_side (pl_submission pl), en_type = su_type (pl_submission pl), en_status = None,
                en_requestedQuantity = None, en_requestedPrice = None,
                en_executed = None, en_quote = None, en_average = None, en_state = None, en_updatedAt = None\<rparr>
      | _ \<Rightarrow> None)"

definition synthetic :: "string \<Rightarrow> string \<Rightarrow> string \<Rightarrow> string \<Rightarrow> string \<Rightarrow> string option \<Rightarrow> string option \<Rightarrow> js_number \<Rightarrow> envelope" where
  "synthetic intentId cid symbol side typ quantity price now =
     \<lparr>en_intent = intentId, en_client = cid, en_exchangeId = None, en_symbol = symbol, en_side = side, en_type = typ,
      en_status = Some ''UNKNOWN'', en_requestedQuantity = quantity, en_requestedPrice = price,
      en_executed = Some ''0'', en_quote = Some ''0'', en_average = None, en_state = Some Unknown, en_updatedAt = Some now\<rparr>"

definition opt_str :: "string option \<Rightarrow> string" where
  "opt_str s = (case s of None \<Rightarrow> [] | Some x \<Rightarrow> x)"

definition value_str :: "js_value \<Rightarrow> string option" where
  "value_str v = (if v = JUndef then None else Some (js_string v))"

definition syntheticExecution :: "string option \<Rightarrow> string option \<Rightarrow> submission \<Rightarrow> js_number \<Rightarrow> envelope" where
  "syntheticExecution intent client su now =
     synthetic (opt_str intent) (opt_str client) (su_symbol su) (su_side su) (su_type su)
       (value_str (su_quantity su)) (value_str (su_price su)) now"

definition syntheticCancel :: "string \<Rightarrow> string option \<Rightarrow> string option \<Rightarrow> js_number \<Rightarrow> envelope" where
  "syntheticCancel symbol intent client now = synthetic (opt_str intent) (opt_str client) symbol [] ''CANCEL'' None None now"

definition syntheticReconcile :: "string \<Rightarrow> js_number \<Rightarrow> envelope" where
  "syntheticReconcile intentId now = synthetic intentId [] [] [] [] None None now"


text \<open>The record of a settled call. \<open>msg\<close> is the message of the error, \<open>carried\<close> the execution it carries and
  \<open>known\<close> the ledger's execution of the intent.\<close>

fun audit_of_call :: "js_number \<Rightarrow> (em_error \<Rightarrow> string) \<Rightarrow> backend \<Rightarrow> envelope option \<Rightarrow> execution option
    \<Rightarrow> gateway_call \<Rightarrow> em_error + execution \<Rightarrow> audit_record" where
  "audit_of_call now msg be carried known (GPlace intent client su) (Inr ex) =
     auditRecordFromExecution (envelope_of ex) APlace (mapOutcome (ex_state ex)) be None"
| "audit_of_call now msg be carried known (GPlace intent client su) (Inl e) =
     auditRecordFromExecution
       (case carried of Some en \<Rightarrow> en | None \<Rightarrow> syntheticExecution intent client su now)
       APlace (error_outcome e) be (Some (msg e))"
| "audit_of_call now msg be carried known (GCancel symbol orderId client intent) (Inr ex) =
     auditRecordFromExecution (envelope_of ex) ACancel (mapOutcome (ex_state ex)) be None"
| "audit_of_call now msg be carried known (GCancel symbol orderId client intent) (Inl e) =
     auditRecordFromExecution (syntheticCancel symbol intent client now) ACancel (error_outcome e) be (Some (msg e))"
| "audit_of_call now msg be carried known (GReconcile intentId) (Inr ex) =
     auditRecordFromExecution (envelope_of ex) AReconcile OutReconciled be None"
| "audit_of_call now msg be carried known (GReconcile intentId) (Inl e) =
     auditRecordFromExecution (case known of Some ex \<Rightarrow> envelope_of ex | None \<Rightarrow> syntheticReconcile intentId now)
       AReconcile OutUnknown be (Some (msg e))"


text \<open>How a step of a manager ended an operation, if it did.\<close>

definition outcome_of :: "exec_manager \<Rightarrow> exec_manager \<Rightarrow> (em_error + execution) option" where
  "outcome_of m m' =
     (case drop (length (em_trace m)) (em_trace m') of
        [] \<Rightarrow> None
      | x # xs \<Rightarrow> (case last (x # xs) of OReturned i ex \<Rightarrow> Some (Inr ex) | OThrew i e \<Rightarrow> Some (Inl e) | _ \<Rightarrow> None))"









section \<open>Cancel and replace\<close>

text \<open>An API error as a transport throws it, with its headers; anything else propagates.\<close>

datatype cancel_replace_error = CrApi api_error "(string \<times> js_value) list option" | CrOther sdk_error

record cancel_replace_params =
  cr_symbol :: string
  cr_cancelOrderId :: "js_number option"
  cr_cancelOrigClientOrderId :: "string option"
  cr_cancelRestrictions :: "string option"
  cr_mode :: string
  cr_side :: string
  cr_type :: string
  cr_quantity :: string
  cr_price :: "string option"
  cr_stopPrice :: "string option"
  cr_timeInForce :: "string option"
  cr_newClientOrderId :: "string option"

definition opt_field :: "string \<Rightarrow> string option \<Rightarrow> (string \<times> js_value) list" where
  "opt_field k v = (case v of None \<Rightarrow> [] | Some s \<Rightarrow> [(k, JStr s)])"

definition buildPayload :: "cancel_replace_params \<Rightarrow> (string \<times> js_value) list" where
  "buildPayload p =
     [(''symbol'', JStr (cr_symbol p)), (''cancelReplaceMode'', JStr (cr_mode p)), (''side'', JStr (cr_side p)),
      (''type'', JStr (cr_type p)), (''quantity'', JStr (cr_quantity p))] @
     (case cr_cancelOrderId p of None \<Rightarrow> [] | Some n \<Rightarrow> [(''cancelOrderId'', JNum n)]) @
     opt_field ''cancelOrigClientOrderId'' (cr_cancelOrigClientOrderId p) @
     opt_field ''cancelRestrictions'' (cr_cancelRestrictions p) @ opt_field ''price'' (cr_price p) @
     opt_field ''stopPrice'' (cr_stopPrice p) @ opt_field ''timeInForce'' (cr_timeInForce p) @
     opt_field ''newClientOrderId'' (cr_newClientOrderId p)"

record cancel_replace_result =
  cr_cancelOk :: bool
  cr_newOk :: bool
  cr_cancelResponse :: "(js_number \<times> string) option"
  cr_newResponse :: js_value

definition js_or :: "js_value \<Rightarrow> js_value \<Rightarrow> js_value" where
  "js_or v d = (if v = JUndef \<or> v = JNull then d else v)"

definition leg_ok :: "string \<Rightarrow> js_value \<Rightarrow> bool" where
  "leg_ok k response \<longleftrightarrow> to_upper (js_string (js_or (js_field k response) (JStr ''SUCCESS''))) \<noteq> ''FAILURE''"

definition successResult :: "js_value \<Rightarrow> cancel_replace_result" where
  "successResult response =
     (let c = js_field ''cancelResponse'' response
      in \<lparr>cr_cancelOk = leg_ok ''cancelResult'' response, cr_newOk = leg_ok ''newOrderResult'' response,
          cr_cancelResponse = (if js_truthy c
             then Some (js_to_number (js_or (js_field ''orderId'' c) (JNum (Fin 0))), js_string (js_or (js_field ''status'' c) (JStr [])))
             else None),
          cr_newResponse = js_or (js_field ''newOrderResponse'' response) JUndef\<rparr>)"

definition readBody :: "(string \<times> js_value) list option \<Rightarrow> js_value option" where
  "readBody headers =
     (case headers of
        None \<Rightarrow> None
      | Some hs \<Rightarrow> (let b = js_field ''body'' (JObj hs) in if js_truthy b \<and> js_is_object b then Some b else None))"

definition parsePartialResult :: "(string \<times> js_value) list option \<Rightarrow> cancel_replace_result" where
  "parsePartialResult headers =
     (case readBody headers of
        Some b \<Rightarrow> successResult b
      | None \<Rightarrow> \<lparr>cr_cancelOk = False, cr_newOk = False, cr_cancelResponse = None, cr_newResponse = JUndef\<rparr>)"

text \<open>The transport is the answer to the payload; \<open>None\<close> is a transport without the method.\<close>

definition cancelReplace :: "((string \<times> js_value) list \<Rightarrow> cancel_replace_error + js_value) option \<Rightarrow> cancel_replace_params
    \<Rightarrow> cancel_replace_error + cancel_replace_result" where
  "cancelReplace transport p =
     (case transport of
        None \<Rightarrow> Inl (CrOther (OtherError ''Error'' [] None))
      | Some send \<Rightarrow>
          (case send (buildPayload p) of
             Inr response \<Rightarrow> Inr (successResult response)
           | Inl (CrApi a headers) \<Rightarrow>
               if ae_status a = 409 \<and> headers \<noteq> None then Inr (parsePartialResult headers) else Inl (CrApi a headers)
           | Inl (CrOther e) \<Rightarrow> Inl (CrOther e)))"

text \<open>The SDK's own HTTP client as the transport: what its final error for a response carries.\<close>

definition http_transport_error :: "string \<Rightarrow> int option \<Rightarrow> error_body option \<Rightarrow> header_list \<Rightarrow> string \<Rightarrow> cancel_replace_error" where
  "http_transport_error path status body rawHeaders message =
     (let headers = normalizeHeaders rawHeaders
      in case final_error path POST status body headers message of
           ApiError a \<Rightarrow> CrApi a (Some (map (\<lambda>(k, v). (k, JStr v)) headers))
         | RateLimitError a r \<Rightarrow> CrApi a (Some (map (\<lambda>(k, v). (k, JStr v)) headers))
         | e \<Rightarrow> CrOther e)"

section \<open>What the sinks keep\<close>



section \<open>Calls in flight and settled\<close>

definition audit_record_of :: "(em_error \<Rightarrow> string) \<Rightarrow> settled_call \<Rightarrow> audit_record" where
  "audit_record_of msg c =
     audit_of_call (sc_time c) msg (sc_backend c) (sc_carried c) (sc_known c) (sc_call c) (sc_result c)"





subsection \<open>The audit\<close>

definition memory_ok :: "(em_error \<Rightarrow> string) \<Rightarrow> nat \<Rightarrow> gateway \<Rightarrow> bool" where
  "memory_ok msg cap gw \<longleftrightarrow>
     gw_sink gw = InMemorySink cap (foldl (memory_push cap) [] (map (audit_record_of msg) (gw_done gw)))"



lemma memory_manager [simp]: "memory_ok msg cap (set_manager b m gw) = memory_ok msg cap gw"
  by (cases b) (simp_all add: memory_ok_def set_manager_def)



subsection \<open>The sink and everything else\<close>








subsection \<open>Calls and their managers\<close>














subsection \<open>Nothing waits for an operation that is over\<close>


lemma outcome_last:
  "em_trace m' = em_trace m @ [OReturned i ex] \<Longrightarrow> outcome_of m m' = Some (Inr ex)"
  "em_trace m' = em_trace m @ [OThrew i e] \<Longrightarrow> outcome_of m m' = Some (Inl e)"
  by (simp_all add: outcome_of_def)

lemma manager_tables [simp]:
  "em_cancels (settle cid x st) = em_cancels st" "em_reconciles (settle cid x st) = em_reconciles st"
  "em_cancels (em_record now ex st) = em_cancels st" "em_reconciles (em_record now ex st) = em_reconciles st"
  "em_cancels (set_stage cid pl s st) = em_cancels st" "em_reconciles (set_stage cid pl s st) = em_reconciles st"
  "em_cancels (cancel_done n x st) = jm_del n (em_cancels st)" "em_reconciles (cancel_done n x st) = em_reconciles st"
  by (simp_all add: settle_def em_record_def set_stage_def cancel_done_def Let_def)









section \<open>Properties\<close>


text \<open>A failing sink does not stop the others: in a fan-out every child that does not throw gets the
  record, wherever the ones that throw stand.\<close>

theorem fanout_reaches_all:
  assumes "i < length children" "sink_record ser r (children ! i) = Some s"
  shows "\<exists>children'. sink_record ser r (FanOutSink children) = Some (FanOutSink children') \<and>
    length children' = length children \<and> children' ! i = s"
  using assms by simp

text \<open>A definitive rejection is audited as an unknown transport error. When the exchange rejects a
  placement, the manager records the order as rejected and throws; the gateway's record of the same
  call says the outcome was a transport error and the state unknown, and has no intent id or client
  order id when the caller left them to the manager.\<close>

theorem rejection_audited_unknown:
  assumes "jm_get cid (em_inFlight st) = Some pl" "pl_stage pl = SCreating k"
    and "requested_of (pl_submission pl) = Inr rq" "0 < em_maxLedger st" "jm_ok (em_ledger st)"
    and "jm_get (pl_intent pl) (em_ledger st) = None"
  shows "let st' = on_created ts cid (Inl (ApiError a)) now st;
      r = audit_of_call now msg be (extractExecutionFromError (Some pl) (ESdk (ApiError a))) known (GPlace None None su)
        (Inl (ESdk (ApiError a))) in
    last (em_trace st') = OThrew (pl_intent pl) (ESdk (ApiError a)) \<and>
    (\<exists>ex. jm_get (pl_intent pl) (em_ledger st') = Some ex \<and> ex_state ex = Rejected) \<and>
    ar_outcome r = OutTransportError \<and> en_state r = Some Unknown \<and> en_intent r = [] \<and> en_client r = []"
proof -
  let ?ex = "local_execution (pl_intent pl) (pl_submission pl) rq ''REJECTED'' (Some ''0'') Rejected (pl_submittedAt pl) now"
  have st': "on_created ts cid (Inl (ApiError a)) now st =
      place_threw cid (pl_intent pl) (ESdk (ApiError a)) (em_record now ?ex st)"
    using assms(1-3) by (simp add: on_created_def api_code_def)
  have k: "pl_intent pl \<notin> set (jm_keys (em_ledger st))" using assms(6) jm.keys_get by metis
  have "jm_get (pl_intent pl) (em_ledger (em_record now ?ex st)) = Some ?ex"
  proof -
    have e: "ex_intent ?ex = pl_intent pl" by (simp add: local_execution_def)
    show ?thesis
    proof (cases "jm_keys (jm_set (pl_intent pl) ?ex (em_ledger st))")
      case Nil
      then show ?thesis by (simp add: em_record_def Let_def e jm.get_put)
    next
      case (Cons h t)
      have keys: "jm_keys (jm_set (pl_intent pl) ?ex (em_ledger st)) = jm_keys (em_ledger st) @ [pl_intent pl]"
        using k by (simp add: jm.keys_put)
      have "h \<noteq> pl_intent pl" if "em_maxLedger st < length (jm_keys (jm_set (pl_intent pl) ?ex (em_ledger st)))"
        using that Cons keys k assms(4) by (cases "jm_keys (em_ledger st)") auto
      then show ?thesis using Cons by (auto simp: em_record_def Let_def e jm.get_put jm.get_del)
    qed
  qed
  then have "jm_get (pl_intent pl) (em_ledger (on_created ts cid (Inl (ApiError a)) now st)) = Some ?ex"
    by (simp add: st' place_threw_def settle_def emit_def)
  then show ?thesis
    by (simp add: Let_def st' place_threw_def settle_def emit_def local_execution_def extractExecutionFromError_def
        auditRecordFromExecution_def error_outcome_def is_unknown_def syntheticExecution_def synthetic_def opt_str_def)
qed

text \<open>The audit record of an order whose outcome is unknown has no time, no status and no state: the
  error carries six fields of the execution and the gateway takes them for all of it.\<close>

theorem unknown_audit_blank:
  "let r = audit_of_call now msg be (extractExecutionFromError (Some pl) (ESdk (ExecutionUnknownError n cid))) known
      (GPlace intent client su) (Inl (ESdk (ExecutionUnknownError n cid))) in
    ar_outcome r = OutUnknown \<and> en_intent r = pl_intent pl \<and> en_client r = cid \<and>
    en_updatedAt r = None \<and> en_status r = None \<and> en_state r = None \<and> en_requestedQuantity r = None"
  by (simp add: Let_def extractExecutionFromError_def auditRecordFromExecution_def error_outcome_def is_unknown_def)

text \<open>Over the SDK's own HTTP client a partial success of a cancel-replace is always reported as a
  double failure: whatever the body of the exchange's 409 says, a new order that is live included, the
  error carries header strings only, and the result says both legs failed.\<close>

theorem partial_success_lost:
  assumes "send (buildPayload p) = Inl (http_transport_error path (Some 409) (Some b) rawHeaders message)"
  shows "cancelReplace (Some send) p =
    Inr \<lparr>cr_cancelOk = False, cr_newOk = False, cr_cancelResponse = None, cr_newResponse = JUndef\<rparr>"
proof -
  let ?hs = "map (\<lambda>(k, v). (k, JStr v)) (normalizeHeaders rawHeaders)"
  have f: "js_field ''body'' (JObj ?hs) = JUndef \<or> (\<exists>s. js_field ''body'' (JObj ?hs) = JStr s)"
  proof -
    have "map_of (map (\<lambda>(k, v). (k, JStr v)) hs) k = map_option JStr (map_of hs k)" for hs and k :: string
      by (induction hs) auto
    then show ?thesis by (cases "map_of (normalizeHeaders rawHeaders) ''body''") auto
  qed
  have "http_transport_error path (Some 409) (Some b) rawHeaders message =
      CrApi (api_error_of ''Binance API error'' POST (Some b) 409 path) (Some ?hs)"
    by (simp add: http_transport_error_def final_error_def Let_def)
  moreover have "readBody (Some ?hs) = None" using f by (auto simp: readBody_def Let_def)
  moreover have "ae_status (api_error_of ''Binance API error'' POST (Some b) 409 path) = 409" by (simp add: api_error_of_def)
  ultimately show ?thesis using assms by (simp add: cancelReplace_def parsePartialResult_def)
qed




theorem partial_success_lost_witness:
  "(let p = \<lparr>cr_symbol = ''BTCUSDT'', cr_cancelOrderId = Some (Fin 7), cr_cancelOrigClientOrderId = None,
      cr_cancelRestrictions = None, cr_mode = ''ALLOW_FAILURE'', cr_side = ''BUY'', cr_type = ''LIMIT'', cr_quantity = ''1'',
      cr_price = Some ''5'', cr_stopPrice = None, cr_timeInForce = None, cr_newClientOrderId = None\<rparr>;
      body = \<lparr>eb_code = Some (- 2021), eb_msg = Some ''Order cancel-replace partially failed.''\<rparr> in
    cancelReplace (Some (\<lambda>payload. Inl (http_transport_error ''/api/v3/order/cancelReplace'' (Some 409) (Some body)
      [(''content-type'', ''application/json'')] ''Request failed''))) p =
    Inr \<lparr>cr_cancelOk = False, cr_newOk = False, cr_cancelResponse = None, cr_newResponse = JUndef\<rparr>)"
  unfolding Let_def
  by (rule partial_success_lost [of _ _ "''/api/v3/order/cancelReplace''"
        "\<lparr>eb_code = Some (- 2021), eb_msg = Some ''Order cancel-replace partially failed.''\<rparr>"
        "[(''content-type'', ''application/json'')]" "''Request failed''"]) (rule refl)

end
