(* ===== verification/Ws_Api.thy ===== *)
theory Ws_Api
  imports Retry_Safety
begin

text \<open>
  \<open>src/ws/platform/WsApiClient.ts\<close> with the session of \<open>src/ws/platform/WsSession.ts\<close>: one persistent
  connection on which concurrent calls are told apart by their id, a table of pending calls with a
  timer each, classified failures when the connection drops, reconnection, and \<open>session.logon\<close> before
  the connection is used. A call of \<open>request\<close> is numbered; its promise is settled by an output. A step
  is one event (a call, a socket event, a timer) with the continuations it makes runnable, which the
  language runs before the next event. Sockets are told apart by their generation; \<open>ac_socket\<close> is the
  \<open>readyState\<close> of the current one, which the events drive. The signers and the parser of JSON are
  parameters, uuids come with the events; parameters that JSON cannot hold are left out, and so are
  the observability events.
  Lemmas: the invariant of the tables, and what each call can end with.
\<close>

section \<open>State\<close>

datatype rpc_state =
    RpcIdle | RpcConnecting | RpcAuthenticating | RpcOpen | RpcReady
  | RpcReconnecting | RpcReauthenticating | RpcClosing | RpcClosed | RpcFailed

datatype ready_state = WsConnecting | WsOpen | WsClosing | WsClosed

text \<open>How a promise of \<open>request\<close> ends: a response, an error of the SDK's classes, or a plain \<open>Error\<close>,
  made from an error response (\<open>RpcRefused\<close>) or by the client itself.\<close>

datatype rpc_result = RpcResolved js_value | RpcRefused string | RpcThrew sdk_error | RpcError string

datatype rpc_frame = RpcFrame string string "(string \<times> js_value) list"

datatype rpc_output =
    SocketMade nat
  | FrameSent nat nat rpc_category rpc_state rpc_frame
  | RpcSettled nat rpc_result
  | ReconnectIn int

record rpc_request =
  rq_method :: string
  rq_params :: "(string \<times> js_value) list"
  rq_id :: string
  rq_category :: rpc_category
  rq_signed :: bool
  rq_logon :: bool

record rpc_entry =
  pe_call :: nat
  pe_id :: string
  pe_method :: string
  pe_params :: "(string \<times> js_value) list"
  pe_category :: rpc_category
  pe_generation :: nat
  pe_submittedAt :: int
  pe_sentAt :: "int option"
  pe_logon :: bool

record ws_session =
  se_apiKey :: string
  se_authenticated :: bool
  se_authorizedSince :: "js_value option"
  se_connectedSince :: "js_value option"

record api_options =
  ao_label :: string
  ao_apiKey :: "string option"
  ao_recvWindow :: "js_number option"
  ao_canSign :: bool
  ao_sign :: "string \<Rightarrow> string"
  ao_sessionSign :: "string \<Rightarrow> string option"
  ao_useSessionAuth :: bool
  ao_maxPending :: nat
  ao_delayFor :: "nat \<Rightarrow> int"

record api_client =
  ac_socket :: "ready_state option"
  ac_state :: rpc_state
  ac_closedByUser :: bool
  ac_reconnectAttempt :: nat
  ac_generation :: nat
  ac_everAuthenticated :: bool
  ac_session :: "ws_session option"
  ac_authInFlight :: "(nat \<times> int) option"
  ac_logonResult :: "rpc_result option"
  ac_waiters :: "(nat \<times> rpc_request) list"
  ac_pending :: "(string, rpc_entry) jsmap"
  ac_timers :: "(nat, rpc_entry) jsmap"
  ac_delays :: nat
  ac_next :: nat
  ac_out :: "rpc_output list"

definition new_WsApiClient :: "ws_session option \<Rightarrow> api_client" where
  "new_WsApiClient session =
     \<lparr>ac_socket = None, ac_state = RpcIdle, ac_closedByUser = False, ac_reconnectAttempt = 0, ac_generation = 0,
      ac_everAuthenticated = False, ac_session = session, ac_authInFlight = None, ac_logonResult = None,
      ac_waiters = [], ac_pending = [], ac_timers = [], ac_delays = 0, ac_next = 0, ac_out = []\<rparr>"

definition rpc_state_str :: "rpc_state \<Rightarrow> string" where
  "rpc_state_str s = (case s of RpcIdle \<Rightarrow> ''IDLE'' | RpcConnecting \<Rightarrow> ''CONNECTING'' | RpcAuthenticating \<Rightarrow> ''AUTHENTICATING''
     | RpcOpen \<Rightarrow> ''OPEN'' | RpcReady \<Rightarrow> ''READY'' | RpcReconnecting \<Rightarrow> ''RECONNECTING''
     | RpcReauthenticating \<Rightarrow> ''REAUTHENTICATING'' | RpcClosing \<Rightarrow> ''CLOSING'' | RpcClosed \<Rightarrow> ''CLOSED'' | RpcFailed \<Rightarrow> ''FAILED'')"

definition isDispatchable :: "api_client \<Rightarrow> bool" where
  "isDispatchable c \<longleftrightarrow> (ac_state c = RpcOpen \<or> ac_state c = RpcReady) \<and> ac_socket c = Some WsOpen"

definition rpc_emit :: "rpc_output \<Rightarrow> api_client \<Rightarrow> api_client" where
  "rpc_emit x c = c\<lparr>ac_out := ac_out c @ [x]\<rparr>"

text \<open>A promise is settled; the one of a logon is awaited by the client itself.\<close>

definition settle_rpc :: "nat \<Rightarrow> bool \<Rightarrow> rpc_result \<Rightarrow> api_client \<Rightarrow> api_client" where
  "settle_rpc n logon r c =
     rpc_emit (RpcSettled n r) (if logon then c\<lparr>ac_logonResult := Some r\<rparr> else c)"

section \<open>Signing\<close>

fun str_less :: "string \<Rightarrow> string \<Rightarrow> bool" where
  "str_less s [] = False"
| "str_less [] (c # t) = True"
| "str_less (a # s) (b # t) = (of_char a < (of_char b :: nat) \<or> a = b \<and> str_less s t)"

definition str_cmp :: "string \<Rightarrow> string \<Rightarrow> int" where
  "str_cmp a b = (if str_less a b then - 1 else if str_less b a then 1 else 0)"

definition ws_buildQueryString :: "(string \<times> js_value) list \<Rightarrow> string" where
  "ws_buildQueryString data =
     join_with ''&'' (map (\<lambda>(k, v). k @ ''='' @ encodeURIComponent (js_string v))
       (js_sort (\<lambda>x y. str_cmp (fst x) (fst y)) (filter (\<lambda>(k, v). v \<noteq> JUndef \<and> v \<noteq> JNull) data)))"

definition buildParams :: "api_options \<Rightarrow> int \<Rightarrow> string \<Rightarrow> (string \<times> js_value) list \<Rightarrow> bool \<Rightarrow> string + (string \<times> js_value) list" where
  "buildParams opts now method params signed =
     (if \<not> signed then Inr params
      else case ao_apiKey opts of
        None \<Rightarrow> Inl (''API key and secret (or privateKey) required for signed WS API request: '' @ method)
      | Some key \<Rightarrow>
          if key = [] \<or> \<not> ao_canSign opts
          then Inl (''API key and secret (or privateKey) required for signed WS API request: '' @ method)
          else let p = jm_set ''recvWindow'' (JNum (case ao_recvWindow opts of None \<Rightarrow> Fin 5000 | Some w \<Rightarrow> w))
                     (jm_set ''timestamp'' (JNum (Fin (of_int now))) (jm_set ''apiKey'' (JStr key) params))
               in Inr (jm_set ''signature'' (JStr (ao_sign opts (ws_buildQueryString p))) p))"

section \<open>Calls\<close>

definition stringOrUndefined :: "js_value \<Rightarrow> string option" where
  "stringOrUndefined v = (case v of JStr s \<Rightarrow> if s = [] then None else Some s | _ \<Rightarrow> None)"

text \<open>What a pending call that lost its answer ends with.\<close>

definition lost_result :: "rpc_cause \<Rightarrow> string \<Rightarrow> rpc_entry \<Rightarrow> rpc_result" where
  "lost_result cause context e =
     (if pe_sentAt e \<noteq> None \<and> isOrderWriteCategory (pe_category e) then
        RpcThrew (RpcOutcomeUnknownError
          \<lparr>rm_requestId = pe_id e, rm_method = pe_method e, rm_category = pe_category e,
           rm_clientOrderId = stringOrUndefined (js_field ''newClientOrderId'' (JObj (pe_params e))),
           rm_symbol = stringOrUndefined (js_field ''symbol'' (JObj (pe_params e))),
           rm_connectionGeneration = pe_generation e, rm_submittedAt = pe_submittedAt e, rm_sentAt = pe_sentAt e,
           rm_cause = cause\<rparr>)
      else RpcThrew (NetworkError (pe_method e @ context)))"

definition new_entry :: "int \<Rightarrow> nat \<Rightarrow> rpc_request \<Rightarrow> (string \<times> js_value) list \<Rightarrow> nat \<Rightarrow> rpc_entry" where
  "new_entry now n r params generation =
     \<lparr>pe_call = n, pe_id = rq_id r, pe_method = rq_method r, pe_params = params, pe_category = rq_category r,
      pe_generation = generation, pe_submittedAt = now, pe_sentAt = Some now, pe_logon = rq_logon r\<rparr>"

definition send_frame :: "int \<Rightarrow> nat \<Rightarrow> rpc_request \<Rightarrow> (string \<times> js_value) list \<Rightarrow> api_client \<Rightarrow> api_client" where
  "send_frame now n r params c =
     (if ac_socket c \<noteq> Some WsOpen
      then settle_rpc n (rq_logon r) (RpcThrew (NetworkError (''connection lost before '' @ rq_method r @ '' was sent''))) c
      else let e = new_entry now n r params (ac_generation c)
           in rpc_emit (FrameSent n (ac_generation c) (rq_category r) (ac_state c) (RpcFrame (rq_id r) (rq_method r) params))
                (c\<lparr>ac_pending := jm_set (rq_id r) e (ac_pending c), ac_timers := jm_set n e (ac_timers c)\<rparr>))"

definition session_authorized :: "api_options \<Rightarrow> bool \<Rightarrow> api_client \<Rightarrow> bool" where
  "session_authorized opts signed c \<longleftrightarrow> signed \<and> ao_useSessionAuth opts \<and>
     (case ac_session c of None \<Rightarrow> False | Some s \<Rightarrow> se_authenticated s)"

definition dispatch_rpc :: "api_options \<Rightarrow> int \<Rightarrow> nat \<times> rpc_request \<Rightarrow> api_client \<Rightarrow> api_client" where
  "dispatch_rpc opts now call c =
     (case call of (n, r) \<Rightarrow>
        case (if session_authorized opts (rq_signed r) c then Inr (rq_params r)
              else buildParams opts now (rq_method r) (rq_params r) (rq_signed r)) of
          Inl msg \<Rightarrow> settle_rpc n (rq_logon r) (RpcError msg) c
        | Inr params \<Rightarrow> send_frame now n r params c)"

definition openSocket :: "api_client \<Rightarrow> api_client" where
  "openSocket c = rpc_emit (SocketMade (Suc (ac_generation c)))
     (c\<lparr>ac_socket := Some WsConnecting, ac_generation := Suc (ac_generation c), ac_state := RpcConnecting\<rparr>)"

definition ensureDispatchable :: "api_options \<Rightarrow> int \<Rightarrow> nat \<times> rpc_request \<Rightarrow> api_client \<Rightarrow> api_client" where
  "ensureDispatchable opts now call c =
     (if isDispatchable c then dispatch_rpc opts now call c
      else if ac_closedByUser c \<or> ac_state c = RpcClosed \<or> ac_state c = RpcFailed
      then settle_rpc (fst call) (rq_logon (snd call))
             (RpcError (''client is '' @ rpc_state_str (ac_state c) @ ''; cannot '' @ rq_method (snd call))) c
      else let c1 = (if ac_state c = RpcIdle then openSocket c else c)
           in c1\<lparr>ac_waiters := ac_waiters c1 @ [call]\<rparr>)"

definition sendAndWait :: "api_options \<Rightarrow> int \<Rightarrow> rpc_request \<Rightarrow> api_client \<Rightarrow> api_client" where
  "sendAndWait opts now r c0 =
     (let n = ac_next c0; c = c0\<lparr>ac_next := Suc n\<rparr>
      in if ao_maxPending opts \<le> length (ac_pending c)
         then settle_rpc n (rq_logon r) (RpcError (''pending RPC queue full; refusing '' @ rq_method r)) c
         else if rq_category r = Session \<and> ac_socket c = Some WsOpen then dispatch_rpc opts now (n, r) c
         else ensureDispatchable opts now (n, r) c)"

definition api_request :: "api_options \<Rightarrow> int \<Rightarrow> string \<Rightarrow> string \<Rightarrow> (string \<times> js_value) list \<Rightarrow> bool \<Rightarrow> api_client \<Rightarrow> api_client" where
  "api_request opts now uuid method params signed c =
     sendAndWait opts now
       \<lparr>rq_method = method, rq_params = params,
        rq_id = (case js_field ''id'' (JObj params) of JStr s \<Rightarrow> s | _ \<Rightarrow> uuid),
        rq_category = classifyRpcMethod method, rq_signed = signed, rq_logon = False\<rparr> c"

section \<open>The session\<close>

definition clearSession :: "ws_session \<Rightarrow> ws_session" where
  "clearSession s = s\<lparr>se_authenticated := False, se_authorizedSince := None, se_connectedSince := None\<rparr>"

definition drop_session :: "api_client \<Rightarrow> api_client" where
  "drop_session c = c\<lparr>ac_session := map_option clearSession (ac_session c)\<rparr>"

definition status_ge_400 :: "js_value \<Rightarrow> bool" where
  "status_ge_400 response \<longleftrightarrow> \<not> jn_less (js_to_number (js_field ''status'' response)) (Fin 400) \<and>
     js_to_number (js_field ''status'' response) \<noteq> NaN"

definition js_coalesce :: "js_value \<Rightarrow> js_value \<Rightarrow> js_value" where
  "js_coalesce v d = (if v = JUndef \<or> v = JNull then d else v)"

text \<open>The end of \<open>logon\<close> once its call is settled; an error is its message. \<open>timestamp\<close> is the one signed.\<close>

definition logon_settled :: "js_value \<Rightarrow> rpc_result \<Rightarrow> ws_session \<Rightarrow> (string + unit) \<times> ws_session" where
  "logon_settled timestamp r s =
     (case r of
        RpcThrew e \<Rightarrow> (Inl (err_name e), s)
      | RpcRefused msg \<Rightarrow> (Inl msg, s)
      | RpcError msg \<Rightarrow> (Inl msg, s)
      | RpcResolved response \<Rightarrow>
          if status_ge_400 response then (Inl ''session.logon failed'', s\<lparr>se_authenticated := False\<rparr>)
          else let result = js_coalesce (js_field ''result'' response) (JObj [])
               in (Inr (), s\<lparr>se_authenticated := True,
                            se_authorizedSince := Some (js_coalesce (js_field ''authorizedSince'' result) timestamp),
                            se_connectedSince := Some (js_coalesce (js_field ''connectedSince'' result) timestamp)\<rparr>))"

definition session_status_settled :: "js_value \<Rightarrow> ws_session \<Rightarrow> (string + js_value) \<times> ws_session" where
  "session_status_settled response s =
     (if status_ge_400 response then (Inl ''session.status failed'', s)
      else let result = js_field ''result'' response;
               keep = (\<lambda>k old. if js_truthy (js_field k result) then Some (js_field k result) else old)
           in (Inr (js_coalesce result (JObj [])),
               s\<lparr>se_authenticated := js_truthy (js_field ''apiKey'' result),
                 se_authorizedSince := keep ''authorizedSince'' (se_authorizedSince s),
                 se_connectedSince := keep ''connectedSince'' (se_connectedSince s)\<rparr>))"

text \<open>\<open>None\<close> is null; \<open>response\<close> is what the transport answers when it is asked.\<close>

definition session_logout :: "js_value \<Rightarrow> ws_session \<Rightarrow> js_value option \<times> ws_session" where
  "session_logout response s =
     (if \<not> se_authenticated s then (None, s)
      else let v = js_field ''result'' response
           in (if status_ge_400 response \<or> v = JUndef \<or> v = JNull then None else Some v, clearSession s))"

definition buildAuthenticatedFrame :: "(string \<Rightarrow> string option) \<Rightarrow> int \<Rightarrow> (string \<times> js_value) list \<Rightarrow> ws_session
    \<Rightarrow> ((string \<times> js_value) list \<times> bool) option" where
  "buildAuthenticatedFrame sign now params s =
     (if se_authenticated s then Some (params, False)
      else let p = jm_set ''timestamp'' (JNum (Fin (of_int now))) (jm_set ''apiKey'' (JStr (se_apiKey s)) params)
           in case sign (ws_buildQueryString p) of None \<Rightarrow> None | Some g \<Rightarrow> Some (jm_set ''signature'' (JStr g) p, True))"

section \<open>Failing and resuming\<close>

fun settle_all :: "rpc_cause \<Rightarrow> string \<Rightarrow> rpc_entry list \<Rightarrow> api_client \<Rightarrow> api_client" where
  "settle_all cause context [] c = c"
| "settle_all cause context (e # es) c =
     settle_all cause context es
       (settle_rpc (pe_call e) (pe_logon e) (lost_result cause context e) (c\<lparr>ac_timers := jm_del (pe_call e) (ac_timers c)\<rparr>))"

definition failAllPending :: "string \<Rightarrow> api_client \<Rightarrow> api_client" where
  "failAllPending context c = (settle_all ConnectionDrop context (map snd (ac_pending c)) c)\<lparr>ac_pending := []\<rparr>"

definition failOpenWaiters :: "string \<Rightarrow> api_client \<Rightarrow> api_client" where
  "failOpenWaiters msg c =
     foldl (\<lambda>c (n, r). settle_rpc n (rq_logon r) (RpcError msg) c) (c\<lparr>ac_waiters := []\<rparr>) (ac_waiters c)"

text \<open>The waiters resume behind their \<open>await\<close>, in order, with a usable connection.\<close>

definition resolveOpenWaiters :: "api_options \<Rightarrow> int \<Rightarrow> api_client \<Rightarrow> api_client" where
  "resolveOpenWaiters opts now c =
     foldl (\<lambda>c call. dispatch_rpc opts now call c) (c\<lparr>ac_waiters := []\<rparr>) (ac_waiters c)"

definition scheduleReconnect :: "api_options \<Rightarrow> api_client \<Rightarrow> api_client" where
  "scheduleReconnect opts c =
     (if ac_closedByUser c then c
      else rpc_emit (ReconnectIn (ao_delayFor opts (ac_reconnectAttempt c)))
             (c\<lparr>ac_state := RpcReconnecting, ac_reconnectAttempt := Suc (ac_reconnectAttempt c), ac_delays := Suc (ac_delays c)\<rparr>))"

section \<open>Authentication\<close>

text \<open>\<open>authenticate\<close> up to the answer of the logon; \<open>uuid\<close> is the id of its call.\<close>

definition authenticate :: "api_options \<Rightarrow> int \<Rightarrow> string \<Rightarrow> ws_session \<Rightarrow> api_client \<Rightarrow> api_client" where
  "authenticate opts now uuid s c =
     (if ac_authInFlight c \<noteq> None then c
      else let c1 = c\<lparr>ac_authInFlight := Some (ac_generation c, now)\<rparr>
           in case ao_sessionSign opts (''apiKey='' @ encodeURIComponent (se_apiKey s) @ ''&timestamp='' @ int_str now) of
                None \<Rightarrow> c1\<lparr>ac_logonResult := Some (RpcError ''invalid private key'')\<rparr>
              | Some g \<Rightarrow> sendAndWait opts now
                  \<lparr>rq_method = ''session.logon'',
                   rq_params = [(''apiKey'', JStr (se_apiKey s)), (''timestamp'', JNum (Fin (of_int now))), (''signature'', JStr g)],
                   rq_id = uuid, rq_category = Session, rq_signed = False, rq_logon = True\<rparr> c1)"

definition auth_stale :: "nat \<Rightarrow> api_client \<Rightarrow> bool" where
  "auth_stale g c \<longleftrightarrow> ac_socket c = None \<or> ac_generation c \<noteq> g \<or> ac_closedByUser c"

text \<open>The rest of \<open>authenticate\<close>, run as soon as the logon is settled.\<close>

definition auth_continue :: "api_options \<Rightarrow> int \<Rightarrow> api_client \<Rightarrow> api_client" where
  "auth_continue opts now c =
     (case (ac_authInFlight c, ac_logonResult c, ac_session c) of
        (Some (g, timestamp), Some r, Some s) \<Rightarrow>
          (case logon_settled (JNum (Fin (of_int timestamp))) r s of (res, s1) \<Rightarrow>
             let c1 = c\<lparr>ac_session := Some s1, ac_authInFlight := None, ac_logonResult := None\<rparr>
             in if auth_stale g c1 then c1
                else case res of
                  Inl msg \<Rightarrow> failOpenWaiters (''session authentication failed: '' @ msg)
                      (failAllPending '': session authentication failed'' (c1\<lparr>ac_state := RpcFailed\<rparr>))
                | Inr _ \<Rightarrow> resolveOpenWaiters opts now (c1\<lparr>ac_everAuthenticated := True, ac_state := RpcReady\<rparr>))
      | _ \<Rightarrow> c)"

section \<open>Socket events\<close>

definition on_open :: "api_options \<Rightarrow> int \<Rightarrow> string \<Rightarrow> api_client \<Rightarrow> api_client" where
  "on_open opts now uuid c0 =
     (let c = c0\<lparr>ac_socket := Some WsOpen, ac_reconnectAttempt := 0\<rparr>
      in case ac_session c of
           Some s \<Rightarrow> authenticate opts now uuid s
             (c\<lparr>ac_state := (if ac_everAuthenticated c then RpcReauthenticating else RpcAuthenticating)\<rparr>)
         | None \<Rightarrow> resolveOpenWaiters opts now (c\<lparr>ac_state := RpcOpen\<rparr>))"

text \<open>\<open>None\<close> is text that is not JSON.\<close>

definition handleMessage :: "js_value option \<Rightarrow> api_client \<Rightarrow> api_client" where
  "handleMessage parsed c =
     (case parsed of
        Some (JObj fs) \<Rightarrow>
          if map_of fs ''id'' = None then c
          else let response = JObj fs; id = js_string (js_field ''id'' response)
               in (case jm_get id (ac_pending c) of
                     None \<Rightarrow> c
                   | Some e \<Rightarrow>
                       let c1 = c\<lparr>ac_pending := jm_del id (ac_pending c), ac_timers := jm_del (pe_call e) (ac_timers c)\<rparr>;
                           msg = js_field ''msg'' (js_field ''error'' response)
                       in settle_rpc (pe_call e) (pe_logon e)
                            (if status_ge_400 response
                             then RpcRefused (if msg = JUndef \<or> msg = JNull then ''WS API error'' else js_string msg)
                             else RpcResolved response) c1)
      | _ \<Rightarrow> c)"

definition on_closed :: "api_options \<Rightarrow> api_client \<Rightarrow> api_client" where
  "on_closed opts c0 =
     (let c = drop_session (c0\<lparr>ac_socket := Some WsClosed\<rparr>)
      in if ac_closedByUser c
         then failOpenWaiters ''connection closed'' (failAllPending '': connection closed'' (c\<lparr>ac_state := RpcClosed\<rparr>))
         else scheduleReconnect opts
                (failOpenWaiters ''connection dropped'' (failAllPending '': connection dropped during request'' c)))"

definition api_close :: "api_client \<Rightarrow> api_client" where
  "api_close c =
     (if ac_state c = RpcClosed then c
      else (failOpenWaiters ''client closed'' (failAllPending '': connection closed by user''
              (drop_session (c\<lparr>ac_closedByUser := True, ac_state := RpcClosing\<rparr>))))
           \<lparr>ac_socket := None, ac_state := RpcClosed\<rparr>)"

section \<open>Timers\<close>

definition request_timeout :: "nat \<Rightarrow> api_client \<Rightarrow> api_client" where
  "request_timeout n c =
     (case jm_get n (ac_timers c) of
        None \<Rightarrow> c
      | Some e \<Rightarrow> settle_rpc n (pe_logon e) (lost_result RpcTimeout '' timed out'' e)
          (c\<lparr>ac_pending := jm_del (pe_id e) (ac_pending c), ac_timers := jm_del n (ac_timers c)\<rparr>))"

definition wait_timeout :: "nat \<Rightarrow> api_client \<Rightarrow> api_client" where
  "wait_timeout n c =
     (case map_of (ac_waiters c) n of
        None \<Rightarrow> c
      | Some r \<Rightarrow> settle_rpc n (rq_logon r) (RpcError (''connection not usable (state='' @ rpc_state_str (ac_state c) @ '')''))
          (c\<lparr>ac_waiters := filter (\<lambda>(m, r). m \<noteq> n) (ac_waiters c)\<rparr>))"

definition reconnect_due :: "api_client \<Rightarrow> api_client" where
  "reconnect_due c0 =
     (if ac_delays c0 = 0 then c0
      else let c = c0\<lparr>ac_delays := ac_delays c0 - 1\<rparr>
           in if ac_closedByUser c \<or> ac_state c = RpcClosed \<or> ac_state c = RpcFailed then c else openSocket c)"

section \<open>Steps\<close>

text \<open>Socket events carry the generation of their socket; a socket without listeners, or one that was
  replaced, is not heard. \<open>EvClosing\<close> is the \<open>readyState\<close> of a socket that began to close.\<close>

datatype rpc_event =
    CallRequest string string "(string \<times> js_value) list" bool
  | CallClose
  | EvOpen nat string
  | EvMessage nat "js_value option"
  | EvError nat
  | EvClosing nat
  | EvClosed nat
  | EvRequestTimeout nat
  | EvWaitTimeout nat
  | EvReconnectDue

definition current_socket :: "nat \<Rightarrow> api_client \<Rightarrow> bool" where
  "current_socket g c \<longleftrightarrow> ac_socket c \<noteq> None \<and> ac_generation c = g"

fun rpc_handle :: "api_options \<Rightarrow> int \<Rightarrow> rpc_event \<Rightarrow> api_client \<Rightarrow> api_client" where
  "rpc_handle opts now (CallRequest uuid method params signed) c = api_request opts now uuid method params signed c"
| "rpc_handle opts now CallClose c = api_close c"
| "rpc_handle opts now (EvOpen g uuid) c =
     (if current_socket g c \<and> ac_socket c = Some WsConnecting then on_open opts now uuid c else c)"
| "rpc_handle opts now (EvMessage g parsed) c = (if current_socket g c then handleMessage parsed c else c)"
| "rpc_handle opts now (EvError g) c = c"
| "rpc_handle opts now (EvClosing g) c =
     (if current_socket g c \<and> ac_socket c \<noteq> Some WsClosed then c\<lparr>ac_socket := Some WsClosing\<rparr> else c)"
| "rpc_handle opts now (EvClosed g) c =
     (if current_socket g c \<and> ac_socket c \<noteq> Some WsClosed then on_closed opts c else c)"
| "rpc_handle opts now (EvRequestTimeout n) c = request_timeout n c"
| "rpc_handle opts now (EvWaitTimeout n) c = wait_timeout n c"
| "rpc_handle opts now EvReconnectDue c = reconnect_due c"

definition rpc_step :: "api_options \<Rightarrow> int \<times> rpc_event \<Rightarrow> api_client \<Rightarrow> api_client" where
  "rpc_step opts e c = auth_continue opts (fst e) (rpc_handle opts (fst e) (snd e) c)"

definition rpc_run :: "api_options \<Rightarrow> (int \<times> rpc_event) list \<Rightarrow> api_client \<Rightarrow> api_client" where
  "rpc_run opts es c = foldl (\<lambda>c e. rpc_step opts e c) c es"

section \<open>The invariant of the tables\<close>

fun settled_call :: "rpc_output \<Rightarrow> nat list" where
  "settled_call (RpcSettled n r) = [n]"
| "settled_call _ = []"

fun sent_call :: "rpc_output \<Rightarrow> nat list" where
  "sent_call (FrameSent n g cat st f) = [n]"
| "sent_call _ = []"

definition settled :: "api_client \<Rightarrow> nat list" where
  "settled c = concat (map settled_call (ac_out c))"

definition sent :: "api_client \<Rightarrow> nat list" where
  "sent c = concat (map sent_call (ac_out c))"

text \<open>Every call is in exactly one place: settled, waiting for a connection, sent with a timer, or in the
  continuation that is running (\<open>l\<close>).\<close>

definition places :: "api_client \<Rightarrow> nat list" where
  "places c = settled c @ map fst (ac_waiters c) @ jm_keys (ac_timers c)"

definition places_ok :: "nat list \<Rightarrow> api_client \<Rightarrow> bool" where
  "places_ok l c \<longleftrightarrow> distinct (l @ places c) \<and> set (l @ places c) = {..<ac_next c} \<and>
     distinct (sent c) \<and> set (sent c) \<subseteq> set (settled c) \<union> set (jm_keys (ac_timers c))"

definition tables_ok :: "api_client \<Rightarrow> bool" where
  "tables_ok c \<longleftrightarrow> jm_ok (ac_pending c) \<and> jm_ok (ac_timers c) \<and>
     (\<forall>k e. jm_get k (ac_pending c) = Some e \<longrightarrow> pe_id e = k \<and> jm_get (pe_call e) (ac_timers c) = Some e) \<and>
     (\<forall>n e. jm_get n (ac_timers c) = Some e \<longrightarrow> pe_call e = n \<and> pe_sentAt e \<noteq> None \<and>
        (\<exists>st. FrameSent n (pe_generation e) (pe_category e) st (RpcFrame (pe_id e) (pe_method e) (pe_params e)) \<in> set (ac_out c)))"

text \<open>A settled call that was sent and writes orders was answered, or its outcome is unknown.\<close>

fun honest_end :: "rpc_result \<Rightarrow> bool" where
  "honest_end (RpcResolved v) = True"
| "honest_end (RpcRefused msg) = True"
| "honest_end (RpcThrew (RpcOutcomeUnknownError m)) = True"
| "honest_end _ = False"

definition ends_ok :: "api_client \<Rightarrow> bool" where
  "ends_ok c \<longleftrightarrow> (\<forall>n g cat st f r. FrameSent n g cat st f \<in> set (ac_out c) \<longrightarrow> isOrderWriteCategory cat \<longrightarrow>
     RpcSettled n r \<in> set (ac_out c) \<longrightarrow> honest_end r)"

definition rpc_inv :: "nat list \<Rightarrow> api_client \<Rightarrow> bool" where
  "rpc_inv l c \<longleftrightarrow> places_ok l c \<and> tables_ok c \<and> ends_ok c"

subsection \<open>Settling, sending and waiting\<close>

lemma settle_rpc_sel [simp]:
  "ac_socket (settle_rpc n l r c) = ac_socket c" "ac_state (settle_rpc n l r c) = ac_state c"
  "ac_closedByUser (settle_rpc n l r c) = ac_closedByUser c" "ac_generation (settle_rpc n l r c) = ac_generation c"
  "ac_everAuthenticated (settle_rpc n l r c) = ac_everAuthenticated c" "ac_session (settle_rpc n l r c) = ac_session c"
  "ac_authInFlight (settle_rpc n l r c) = ac_authInFlight c" "ac_waiters (settle_rpc n l r c) = ac_waiters c"
  "ac_pending (settle_rpc n l r c) = ac_pending c" "ac_timers (settle_rpc n l r c) = ac_timers c"
  "ac_delays (settle_rpc n l r c) = ac_delays c" "ac_next (settle_rpc n l r c) = ac_next c"
  "ac_out (settle_rpc n l r c) = ac_out c @ [RpcSettled n r]"
  "ac_reconnectAttempt (settle_rpc n l r c) = ac_reconnectAttempt c"
  by (simp_all add: settle_rpc_def rpc_emit_def)

text \<open>The state changes that move no call.\<close>

lemma rpc_inv_cong:
  assumes "rpc_inv l c" "ac_waiters c' = ac_waiters c" "ac_pending c' = ac_pending c" "ac_timers c' = ac_timers c"
    "ac_next c' = ac_next c" "ac_out c' = ac_out c \<or> (\<exists>g. ac_out c' = ac_out c @ [SocketMade g]) \<or> (\<exists>d. ac_out c' = ac_out c @ [ReconnectIn d])"
  shows "rpc_inv l c'"
proof -
  have "settled c' = settled c" "sent c' = sent c" using assms(6) by (auto simp: settled_def sent_def)
  moreover have "FrameSent n g cat st f \<in> set (ac_out c') \<longleftrightarrow> FrameSent n g cat st f \<in> set (ac_out c)"
    "RpcSettled n r \<in> set (ac_out c') \<longleftrightarrow> RpcSettled n r \<in> set (ac_out c)" for n g cat st f r
    using assms(6) by auto
  ultimately show ?thesis
    using assms(1-5) by (simp add: rpc_inv_def places_ok_def places_def tables_ok_def ends_ok_def)
qed

text \<open>Settling a call that has a place, and leaves it.\<close>

lemma in_concat_sent:
  "n \<in> set (concat (map sent_call xs)) \<longleftrightarrow> (\<exists>g cat st f. FrameSent n g cat st f \<in> set xs)"
proof (induction xs)
  case (Cons x xs)
  then show ?case by (cases x) (simp_all, blast+)
qed simp

lemma in_concat_settled: "n \<in> set (concat (map settled_call xs)) \<longleftrightarrow> (\<exists>r. RpcSettled n r \<in> set xs)"
proof (induction xs)
  case (Cons x xs)
  then show ?case by (cases x) (simp_all, blast)
qed simp

lemma in_sent: "n \<in> set (sent c) \<longleftrightarrow> (\<exists>g cat st f. FrameSent n g cat st f \<in> set (ac_out c))"
  unfolding sent_def by (rule in_concat_sent)

lemma in_settled: "n \<in> set (settled c) \<longleftrightarrow> (\<exists>r. RpcSettled n r \<in> set (ac_out c))"
  unfolding settled_def by (rule in_concat_settled)

text \<open>A call is sent at most once, so its frame is unique.\<close>

lemma sent_frame_unique:
  "distinct (concat (map sent_call xs)) \<Longrightarrow> FrameSent n g cat st f \<in> set xs \<Longrightarrow> FrameSent n g' cat' st' f' \<in> set xs \<Longrightarrow>
    g = g' \<and> cat = cat' \<and> st = st' \<and> f = f'"
proof (induction xs)
  case (Cons x xs)
  have no: "FrameSent n h k s y \<notin> set xs" if "x = FrameSent n h' k' s' y'" for h k s y h' k' s' y'
    using Cons.prems(1) that in_concat_sent [of n xs] by auto
  have d: "distinct (concat (map sent_call xs))" using Cons.prems(1) by simp
  show ?case
  proof (cases "x = FrameSent n g cat st f \<or> x = FrameSent n g' cat' st' f'")
    case True
    with no Cons.prems(2,3) show ?thesis by auto
  next
    case False
    with Cons.IH [OF d] Cons.prems(2,3) show ?thesis by auto
  qed
qed simp

lemma settled_settle [simp]: "settled (settle_rpc n l r c) = settled c @ [n]"
  by (simp add: settled_def)

lemma sent_settle [simp]: "sent (settle_rpc n l r c) = sent c"
  by (simp add: sent_def)

lemma settle_fresh:
  assumes "rpc_inv (n # l) c"
  shows "rpc_inv l (settle_rpc n lo r c)"
proof -
  have p: "places_ok (n # l) c" "tables_ok c" "ends_ok c" using assms by (simp_all add: rpc_inv_def)
  then have un: "n \<notin> set (sent c)" by (auto simp: places_ok_def places_def)
  have "places_ok l (settle_rpc n lo r c)" using p(1) by (auto simp: places_ok_def places_def)
  moreover have "tables_ok (settle_rpc n lo r c)" using p(2) by (auto simp: tables_ok_def)
  moreover have "ends_ok (settle_rpc n lo r c)" using p(3) un by (auto simp: ends_ok_def in_sent)
  ultimately show ?thesis by (simp add: rpc_inv_def)
qed

lemma settle_sent_call:
  assumes inv: "rpc_inv l c" and e: "jm_get n (ac_timers c) = Some e"
    and pend: "jm_ok p" "\<And>k e'. jm_get k p = Some e' \<Longrightarrow> jm_get k (ac_pending c) = Some e' \<and> pe_call e' \<noteq> n"
    and honest: "isOrderWriteCategory (pe_category e) \<Longrightarrow> honest_end r"
  shows "rpc_inv l (settle_rpc n lo r (c\<lparr>ac_pending := p, ac_timers := jm_del n (ac_timers c)\<rparr>))" (is "rpc_inv l ?c")
proof -
  have p: "places_ok l c" "tables_ok c" "ends_ok c" using inv by (simp_all add: rpc_inv_def)
  have n: "n \<in> set (jm_keys (ac_timers c))" using e by (simp add: jm_keys_iff)
  have ns: "n \<notin> set (settled c)" using p(1) n by (auto simp: places_ok_def places_def)
  have pl: "places ?c = settled c @ n # map fst (ac_waiters c) @ removeAll n (jm_keys (ac_timers c))"
    by (simp add: places_def settled_def sent_def jm.keys_del filter_neq_removeAll)
  have s: "settled ?c = settled c @ [n]" "sent ?c = sent c" by (simp_all add: settled_def sent_def)
  have "places_ok l ?c"
    using p(1) n unfolding places_ok_def pl s by (auto simp: places_def jm.keys_del distinct_removeAll)
  moreover have "tables_ok ?c"
    using p(2) pend by (auto simp: tables_ok_def jm.ok_del jm.get_del)
  moreover have "ends_ok ?c"
  proof -
    have u: "cat = pe_category e" if "FrameSent n g cat st f \<in> set (ac_out c)" for g cat st f
    proof -
      obtain st' where "FrameSent n (pe_generation e) (pe_category e) st' (RpcFrame (pe_id e) (pe_method e) (pe_params e)) \<in> set (ac_out c)"
        using p(2) e unfolding tables_ok_def by blast
      with p(1) that show ?thesis unfolding places_ok_def sent_def using sent_frame_unique by blast
    qed
    show ?thesis using p(3) honest u ns by (fastforce simp: ends_ok_def in_settled)
  qed
  ultimately show ?thesis by (simp add: rpc_inv_def)
qed

lemma send_frame_inv:
  assumes "rpc_inv (n # l) c"
  shows "rpc_inv l (send_frame now n r params c)"
proof (cases "ac_socket c = Some WsOpen")
  case True
  let ?c = "send_frame now n r params c" and ?e = "new_entry now n r params (ac_generation c)"
  have p: "places_ok (n # l) c" "tables_ok c" "ends_ok c" using assms by (simp_all add: rpc_inv_def)
  have un: "n \<notin> set (sent c)" "n \<notin> set (settled c)" "jm_get n (ac_timers c) = None" "n < ac_next c"
    using p(1) by (auto simp: places_ok_def places_def jm_keys_iff)
  have o: "ac_out ?c = ac_out c @ [FrameSent n (ac_generation c) (rq_category r) (ac_state c) (RpcFrame (rq_id r) (rq_method r) params)]"
    "ac_waiters ?c = ac_waiters c" "ac_next ?c = ac_next c"
    "ac_pending ?c = jm_set (rq_id r) ?e (ac_pending c)" "ac_timers ?c = jm_set n ?e (ac_timers c)"
    using True by (simp_all add: send_frame_def Let_def rpc_emit_def)
  have s: "settled ?c = settled c" "sent ?c = sent c @ [n]" by (simp_all add: settled_def sent_def o)
  have k: "jm_keys (jm_set n ?e (ac_timers c)) = jm_keys (ac_timers c) @ [n]" using un(3) by (simp add: jm.keys_put jm_keys_iff)
  have "places_ok l ?c" using p(1) un unfolding places_ok_def s places_def o k by auto
  moreover have "tables_ok ?c"
    using p(2) un(3) unfolding tables_ok_def o
    by (auto simp: jm.ok_put jm.get_put new_entry_def)
  moreover have "ends_ok ?c" using p(3) un by (auto simp: ends_ok_def o in_settled in_sent)
  ultimately show ?thesis by (simp add: rpc_inv_def)
next
  case False
  with settle_fresh [OF assms] show ?thesis by (simp add: send_frame_def)
qed

lemma dispatch_inv: "rpc_inv (n # l) c \<Longrightarrow> rpc_inv l (dispatch_rpc opts now (n, r) c)"
  by (simp add: dispatch_rpc_def settle_fresh send_frame_inv split: sum.split)

lemma wait_inv: "rpc_inv (n # l) c \<Longrightarrow> rpc_inv l (c\<lparr>ac_waiters := ac_waiters c @ [(n, r)]\<rparr>)"
  by (auto simp: rpc_inv_def places_ok_def places_def tables_ok_def ends_ok_def settled_def sent_def)

lemma drop_waiters_inv: "rpc_inv l c \<Longrightarrow> rpc_inv (map fst (ac_waiters c) @ l) (c\<lparr>ac_waiters := []\<rparr>)"
  by (auto simp: rpc_inv_def places_ok_def places_def tables_ok_def ends_ok_def settled_def sent_def)

lemma new_call_inv: "rpc_inv l c \<Longrightarrow> rpc_inv (ac_next c # l) (c\<lparr>ac_next := Suc (ac_next c)\<rparr>)"
  by (auto simp: rpc_inv_def places_ok_def places_def tables_ok_def ends_ok_def settled_def sent_def lessThan_Suc)

lemma foldl_fresh_inv:
  assumes "\<And>n l r c. rpc_inv (n # l) c \<Longrightarrow> rpc_inv l (f c (n, r))"
  shows "rpc_inv (map fst ws @ l) c \<Longrightarrow> rpc_inv l (foldl f c ws)"
proof (induction ws arbitrary: c)
  case (Cons w ws)
  then show ?case using assms [of "fst w" "map fst ws @ l" c "snd w"] by simp
qed simp

lemma lost_result_honest:
  "pe_sentAt e \<noteq> None \<Longrightarrow> isOrderWriteCategory (pe_category e) \<Longrightarrow> honest_end (lost_result cause context e)"
  by (simp add: lost_result_def)

lemma no_pending_inv: "rpc_inv l c \<Longrightarrow> rpc_inv l (c\<lparr>ac_pending := []\<rparr>)"
  by (auto simp: rpc_inv_def places_ok_def places_def tables_ok_def ends_ok_def settled_def sent_def jm_ok_def jm_get_def)

lemma settle_all_pending: "(settle_all cause context es c)\<lparr>ac_pending := p\<rparr> = settle_all cause context es (c\<lparr>ac_pending := p\<rparr>)"
proof (induction es arbitrary: c)
  case (Cons e es)
  have "(settle_rpc n lo r (c\<lparr>ac_timers := t\<rparr>))\<lparr>ac_pending := p\<rparr> = settle_rpc n lo r (c\<lparr>ac_pending := p, ac_timers := t\<rparr>)"
    for n lo r t by (simp add: settle_rpc_def rpc_emit_def)
  with Cons show ?case by simp
qed simp

lemma settle_all_inv:
  "rpc_inv l c \<Longrightarrow> ac_pending c = [] \<Longrightarrow> distinct (map pe_call es) \<Longrightarrow>
    (\<And>e. e \<in> set es \<Longrightarrow> jm_get (pe_call e) (ac_timers c) = Some e) \<Longrightarrow> rpc_inv l (settle_all cause context es c)"
proof (induction es arbitrary: c)
  case (Cons e es)
  have e: "jm_get (pe_call e) (ac_timers c) = Some e" using Cons.prems(4) by simp
  have s: "pe_sentAt e \<noteq> None" using Cons.prems(1) e by (simp add: rpc_inv_def tables_ok_def)
  let ?c = "settle_rpc (pe_call e) (pe_logon e) (lost_result cause context e) (c\<lparr>ac_timers := jm_del (pe_call e) (ac_timers c)\<rparr>)"
  have "rpc_inv l (settle_rpc (pe_call e) (pe_logon e) (lost_result cause context e)
      (c\<lparr>ac_pending := [], ac_timers := jm_del (pe_call e) (ac_timers c)\<rparr>))"
    using Cons.prems(1) e by (rule settle_sent_call) (use s in \<open>simp_all add: lost_result_honest jm_ok_def jm_get_def\<close>)
  moreover have "c\<lparr>ac_pending := [], ac_timers := jm_del (pe_call e) (ac_timers c)\<rparr> = c\<lparr>ac_timers := jm_del (pe_call e) (ac_timers c)\<rparr>"
    using Cons.prems(2) by (cases c) simp
  ultimately have "rpc_inv l ?c" by simp
  moreover have "jm_get (pe_call x) (ac_timers ?c) = Some x" if "x \<in> set es" for x
  proof -
    have "pe_call x \<in> set (map pe_call es)" using that by simp
    with Cons.prems(3) have "pe_call x \<noteq> pe_call e" by auto
    then show ?thesis using that Cons.prems(4) [of x] by (simp add: jm.get_del)
  qed
  ultimately show ?case using Cons.IH [of ?c] Cons.prems(2,3) by simp
qed simp

lemma pending_calls_distinct:
  assumes "tables_ok c"
  shows "distinct (map pe_call (map snd (ac_pending c)))" "e \<in> set (map snd (ac_pending c)) \<Longrightarrow> jm_get (pe_call e) (ac_timers c) = Some e"
proof -
  have ok: "jm_ok (ac_pending c)" and at: "\<And>k e. (k, e) \<in> set (ac_pending c) \<Longrightarrow> pe_id e = k \<and> jm_get (pe_call e) (ac_timers c) = Some e"
    using assms jm_get_in [of "ac_pending c"] unfolding tables_ok_def by blast+
  show "e \<in> set (map snd (ac_pending c)) \<Longrightarrow> jm_get (pe_call e) (ac_timers c) = Some e" using at by auto
  have d: "distinct (map fst (ac_pending c))" using ok by (simp add: jm_ok_def)
  have "inj_on (pe_call \<circ> snd) (set (ac_pending c))"
  proof (rule inj_onI)
    fix x y assume x: "x \<in> set (ac_pending c)" and y: "y \<in> set (ac_pending c)" and eq: "(pe_call \<circ> snd) x = (pe_call \<circ> snd) y"
    obtain k e where xe: "x = (k, e)" by (cases x)
    obtain k' e' where ye: "y = (k', e')" by (cases y)
    have "pe_call e = pe_call e'" using eq by (simp add: xe ye)
    with at [OF x [unfolded xe]] at [OF y [unfolded ye]] have "e = e'" by (metis option.inject)
    with at [OF x [unfolded xe]] at [OF y [unfolded ye]] show "x = y" by (simp add: xe ye)
  qed
  then have "distinct (map (pe_call \<circ> snd) (ac_pending c))" using d by (simp add: distinct_map)
  then show "distinct (map pe_call (map snd (ac_pending c)))" by (simp add: o_def)
qed

lemma failAllPending_inv: "rpc_inv l c \<Longrightarrow> rpc_inv l (failAllPending context c)"
  unfolding failAllPending_def settle_all_pending
  by (rule settle_all_inv) (auto simp: rpc_inv_def no_pending_inv [unfolded rpc_inv_def] pending_calls_distinct simp del: map_map)

lemma failOpenWaiters_inv: "rpc_inv l c \<Longrightarrow> rpc_inv l (failOpenWaiters msg c)"
  unfolding failOpenWaiters_def by (rule foldl_fresh_inv) (simp_all add: settle_fresh drop_waiters_inv)

lemma resolveOpenWaiters_inv: "rpc_inv l c \<Longrightarrow> rpc_inv l (resolveOpenWaiters opts now c)"
  unfolding resolveOpenWaiters_def by (rule foldl_fresh_inv) (simp_all add: dispatch_inv drop_waiters_inv)

subsection \<open>One step\<close>

lemma openSocket_inv: "rpc_inv l c \<Longrightarrow> rpc_inv l (openSocket c)"
  by (erule rpc_inv_cong) (simp_all add: openSocket_def rpc_emit_def)

lemma scheduleReconnect_inv: "rpc_inv l c \<Longrightarrow> rpc_inv l (scheduleReconnect opts c)"
  by (erule rpc_inv_cong) (simp_all add: scheduleReconnect_def rpc_emit_def)

lemma drop_session_inv: "rpc_inv l c \<Longrightarrow> rpc_inv l (drop_session c)"
  by (erule rpc_inv_cong) (simp_all add: drop_session_def)

lemma ensureDispatchable_inv: "rpc_inv (n # l) c \<Longrightarrow> rpc_inv l (ensureDispatchable opts now (n, r) c)"
  using wait_inv openSocket_inv
  by (simp add: ensureDispatchable_def Let_def dispatch_inv settle_fresh)

lemma sendAndWait_inv: "rpc_inv l c \<Longrightarrow> rpc_inv l (sendAndWait opts now r c)"
  using new_call_inv [of l c]
  by (simp add: sendAndWait_def Let_def dispatch_inv settle_fresh ensureDispatchable_inv)

lemma authenticate_inv:
  assumes "rpc_inv l c"
  shows "rpc_inv l (authenticate opts now uuid s c)"
proof -
  have "rpc_inv l (c\<lparr>ac_authInFlight := Some (ac_generation c, now)\<rparr>)"
    "rpc_inv l (c\<lparr>ac_authInFlight := Some (ac_generation c, now), ac_logonResult := r\<rparr>)" for r
    using assms by (auto elim: rpc_inv_cong)
  with assms show ?thesis by (simp add: authenticate_def Let_def sendAndWait_inv split: option.split)
qed

lemma auth_continue_inv:
  assumes "rpc_inv l c"
  shows "rpc_inv l (auth_continue opts now c)"
proof -
  have "rpc_inv l (c\<lparr>ac_session := s, ac_authInFlight := None, ac_logonResult := None\<rparr>)"
    "rpc_inv l (c\<lparr>ac_session := s, ac_authInFlight := None, ac_logonResult := None, ac_state := st\<rparr>)"
    "rpc_inv l (c\<lparr>ac_session := s, ac_authInFlight := None, ac_logonResult := None, ac_everAuthenticated := b, ac_state := st\<rparr>)"
    for s st b
    using assms by (auto elim: rpc_inv_cong)
  with assms show ?thesis
    by (simp add: auth_continue_def Let_def failOpenWaiters_inv failAllPending_inv resolveOpenWaiters_inv
        split: option.split prod.split sum.split)
qed

lemma on_open_inv:
  assumes "rpc_inv l c"
  shows "rpc_inv l (on_open opts now uuid c)"
proof -
  have "rpc_inv l (c\<lparr>ac_socket := Some WsOpen, ac_reconnectAttempt := 0, ac_state := st\<rparr>)" for st
    using assms by (auto elim: rpc_inv_cong)
  then show ?thesis by (simp add: on_open_def Let_def authenticate_inv resolveOpenWaiters_inv split: option.split)
qed

lemma handleMessage_inv:
  assumes "rpc_inv l c"
  shows "rpc_inv l (handleMessage parsed c)"
proof -
  have "rpc_inv l (settle_rpc (pe_call e) (pe_logon e) r (c\<lparr>ac_pending := jm_del k (ac_pending c), ac_timers := jm_del (pe_call e) (ac_timers c)\<rparr>))"
    if "jm_get k (ac_pending c) = Some e" "honest_end r" for k e r
  proof (rule settle_sent_call [OF assms])
    have t: "tables_ok c" using assms by (simp add: rpc_inv_def)
    then show "jm_get (pe_call e) (ac_timers c) = Some e" "jm_ok (jm_del k (ac_pending c))" "honest_end r"
      using that by (auto simp: tables_ok_def jm.ok_del)
    fix k' e' assume "jm_get k' (jm_del k (ac_pending c)) = Some e'"
    then have k': "k' \<noteq> k" "jm_get k' (ac_pending c) = Some e'" by (auto simp: jm.get_del split: if_splits)
    then have "pe_call e' \<noteq> pe_call e" using that(1) t unfolding tables_ok_def by (metis option.inject)
    with k' show "jm_get k' (ac_pending c) = Some e' \<and> pe_call e' \<noteq> pe_call e" by simp
  qed
  with assms show ?thesis
    by (auto simp: handleMessage_def Let_def split: option.split js_value.split)
qed

lemma request_timeout_inv:
  assumes "rpc_inv l c"
  shows "rpc_inv l (request_timeout n c)"
proof (cases "jm_get n (ac_timers c)")
  case (Some e)
  have t: "tables_ok c" using assms by (simp add: rpc_inv_def)
  have e: "pe_call e = n" "pe_sentAt e \<noteq> None" using t Some by (auto simp: tables_ok_def)
  have "rpc_inv l (settle_rpc n (pe_logon e) (lost_result RpcTimeout '' timed out'' e)
      (c\<lparr>ac_pending := jm_del (pe_id e) (ac_pending c), ac_timers := jm_del n (ac_timers c)\<rparr>))"
  proof (rule settle_sent_call [OF assms Some])
    show "jm_ok (jm_del (pe_id e) (ac_pending c))" using t by (simp add: tables_ok_def jm.ok_del)
    show "isOrderWriteCategory (pe_category e) \<Longrightarrow> honest_end (lost_result RpcTimeout '' timed out'' e)"
      using e by (simp add: lost_result_honest)
    fix k e' assume "jm_get k (jm_del (pe_id e) (ac_pending c)) = Some e'"
    then have k: "k \<noteq> pe_id e" "jm_get k (ac_pending c) = Some e'" by (auto simp: jm.get_del split: if_splits)
    then have "pe_call e' \<noteq> n" using t Some unfolding tables_ok_def by (metis option.inject)
    with k show "jm_get k (ac_pending c) = Some e' \<and> pe_call e' \<noteq> n" by simp
  qed
  with Some show ?thesis by (simp add: request_timeout_def)
qed (simp add: request_timeout_def assms)

lemma fst_filter_neq: "map fst (filter (\<lambda>(m, r). m \<noteq> n) ws) = removeAll n (map fst ws)"
  by (induction ws) auto

lemma unwait_inv:
  assumes "rpc_inv l c" "map_of (ac_waiters c) n = Some r"
  shows "rpc_inv (n # l) (c\<lparr>ac_waiters := filter (\<lambda>(m, r). m \<noteq> n) (ac_waiters c)\<rparr>)" (is "rpc_inv _ ?c")
proof -
  have p: "places_ok l c" "tables_ok c" "ends_ok c" using assms by (simp_all add: rpc_inv_def)
  have n: "n \<in> fst ` set (ac_waiters c)" using map_of_SomeD [OF assms(2)] by force
  have w: "map fst (ac_waiters ?c) = removeAll n (map fst (ac_waiters c))"
    by (simp add: fst_filter_neq)
  have "places_ok (n # l) ?c"
    using p(1) n unfolding places_ok_def places_def w
    by (auto simp: settled_def sent_def distinct_removeAll)
  moreover have "tables_ok ?c" "ends_ok ?c" using p by (auto simp: tables_ok_def ends_ok_def)
  ultimately show ?thesis by (simp add: rpc_inv_def)
qed

lemma wait_timeout_inv: "rpc_inv l c \<Longrightarrow> rpc_inv l (wait_timeout n c)"
  by (auto simp: wait_timeout_def settle_fresh unwait_inv split: option.split)

lemma socket_state_inv:
  assumes "rpc_inv l c"
  shows "rpc_inv l (c\<lparr>ac_socket := s\<rparr>)" "rpc_inv l (c\<lparr>ac_state := st\<rparr>)" "rpc_inv l (c\<lparr>ac_socket := s, ac_state := st\<rparr>)"
    "rpc_inv l (c\<lparr>ac_closedByUser := b, ac_state := st\<rparr>)" "rpc_inv l (c\<lparr>ac_delays := d\<rparr>)"
  using assms by (auto elim: rpc_inv_cong)

lemmas rpc_inv_intros = socket_state_inv failOpenWaiters_inv failAllPending_inv scheduleReconnect_inv drop_session_inv openSocket_inv

lemma rpc_handle_inv: "rpc_inv l c \<Longrightarrow> rpc_inv l (rpc_handle opts now e c)"
  by (cases e)
    (simp_all add: api_request_def sendAndWait_inv on_open_inv handleMessage_inv request_timeout_inv wait_timeout_inv
      api_close_def on_closed_def reconnect_due_def Let_def rpc_inv_intros)

lemma rpc_step_inv: "rpc_inv l c \<Longrightarrow> rpc_inv l (rpc_step opts e c)"
  by (simp add: rpc_step_def rpc_handle_inv auth_continue_inv)

lemma rpc_inv_new: "rpc_inv [] (new_WsApiClient session)"
  by (simp add: new_WsApiClient_def rpc_inv_def places_ok_def places_def tables_ok_def ends_ok_def settled_def sent_def
      jm_keys_def jm_ok_def jm_get_def)

subsection \<open>The gate before the connection is ready\<close>

text \<open>A logon sent on connection \<open>g\<close> was accepted.\<close>

definition logon_ok :: "nat \<Rightarrow> rpc_output list \<Rightarrow> bool" where
  "logon_ok g out \<longleftrightarrow> (\<exists>m st i p v. FrameSent m g Session st (RpcFrame i ''session.logon'' p) \<in> set out \<and>
     RpcSettled m (RpcResolved v) \<in> set out)"

text \<open>Every frame outside the session's own methods: what came before it has a logon accepted on its
  connection.\<close>

definition frames_gated :: "bool \<Rightarrow> rpc_output list \<Rightarrow> bool" where
  "frames_gated has out \<longleftrightarrow> (\<forall>xs n g cat st f ys. out = xs @ FrameSent n g cat st f # ys \<longrightarrow> cat \<noteq> Session \<longrightarrow>
     (if has then st = RpcReady \<and> logon_ok g xs else st = RpcOpen))"

definition state_gated :: "bool \<Rightarrow> rpc_state \<Rightarrow> nat \<Rightarrow> rpc_result option \<Rightarrow> (nat \<times> int) option \<Rightarrow> rpc_output list \<Rightarrow> bool" where
  "state_gated has st g lr au out \<longleftrightarrow> (st = RpcOpen \<longrightarrow> \<not> has) \<and> (st = RpcReady \<longrightarrow> has \<and> logon_ok g out) \<and>
     (lr \<noteq> None \<longrightarrow> au \<noteq> None) \<and> (au \<noteq> None \<longrightarrow> has) \<and>
     (\<forall>v. lr = Some (RpcResolved v) \<longrightarrow> (\<exists>g t. au = Some (g, t) \<and> logon_ok g out))"

definition logon_gated :: "(nat, rpc_entry) jsmap \<Rightarrow> rpc_result option \<Rightarrow> (nat \<times> int) option \<Rightarrow> bool" where
  "logon_gated ts lr au \<longleftrightarrow> (\<forall>n e. jm_get n ts = Some e \<longrightarrow> pe_logon e \<longrightarrow>
     pe_category e = Session \<and> pe_method e = ''session.logon'' \<and> lr = None \<and> (\<exists>t. au = Some (pe_generation e, t)) \<and>
     (\<forall>n' e'. jm_get n' ts = Some e' \<longrightarrow> pe_logon e' \<longrightarrow> n' = n))"

definition gated :: "bool \<Rightarrow> api_client \<Rightarrow> bool" where
  "gated has c \<longleftrightarrow> (ac_session c \<noteq> None) = has \<and> frames_gated has (ac_out c) \<and>
     state_gated has (ac_state c) (ac_generation c) (ac_logonResult c) (ac_authInFlight c) (ac_out c) \<and>
     logon_gated (ac_timers c) (ac_logonResult c) (ac_authInFlight c) \<and>
     (\<forall>call. call \<in> set (ac_waiters c) \<longrightarrow> \<not> rq_logon (snd call))"

lemma logon_ok_mono: "logon_ok g out \<Longrightarrow> logon_ok g (out @ xs)"
  by (fastforce simp: logon_ok_def)

lemma frames_gated_snoc:
  assumes "frames_gated has out"
    and "\<And>n g cat st f. x = FrameSent n g cat st f \<Longrightarrow> cat \<noteq> Session \<Longrightarrow> if has then st = RpcReady \<and> logon_ok g out else st = RpcOpen"
  shows "frames_gated has (out @ [x])"
  unfolding frames_gated_def
proof (intro allI impI)
  fix xs n g cat st f ys assume e: "out @ [x] = xs @ FrameSent n g cat st f # ys" and k: "cat \<noteq> Session"
  show "if has then st = RpcReady \<and> logon_ok g xs else st = RpcOpen"
  proof (cases ys rule: rev_cases)
    case Nil
    with e have "out = xs" "x = FrameSent n g cat st f" by simp_all
    with assms(2) k show ?thesis by blast
  next
    case (snoc zs z)
    with e have "out = xs @ FrameSent n g cat st f # zs" by simp
    with assms(1) k show ?thesis unfolding frames_gated_def by blast
  qed
qed

lemma frames_gated_settled: "frames_gated has out \<Longrightarrow> frames_gated has (out @ [RpcSettled n r])"
  by (rule frames_gated_snoc) simp_all

lemma state_gated_settled: "state_gated has st g lr au out \<Longrightarrow> state_gated has st g lr au (out @ xs)"
  by (auto simp: state_gated_def intro: logon_ok_mono)

lemma gated_settle:
  assumes "gated has c" "\<not> lo"
  shows "gated has (settle_rpc n lo r c)"
proof -
  have "ac_logonResult (settle_rpc n lo r c) = ac_logonResult c" using assms(2) by (simp add: settle_rpc_def rpc_emit_def)
  with assms show ?thesis by (simp add: gated_def frames_gated_settled state_gated_settled)
qed

text \<open>The logon's own call is settled: no other is under way, and its answer was its own.\<close>

lemma gated_settle_logon:
  assumes "gated has c" "ac_authInFlight c = Some (g, t)" "\<And>n e. jm_get n (ac_timers c) = Some e \<Longrightarrow> \<not> pe_logon e"
    "\<And>v. r = RpcResolved v \<Longrightarrow> \<exists>st i p. FrameSent n g Session st (RpcFrame i ''session.logon'' p) \<in> set (ac_out c)"
  shows "gated has (settle_rpc n True r c)"
proof -
  have l: "ac_logonResult (settle_rpc n True r c) = Some r" by (simp add: settle_rpc_def rpc_emit_def)
  have "logon_ok g (ac_out c @ [RpcSettled n r])" if "r = RpcResolved v" for v
    using assms(4) [OF that] that by (fastforce simp: logon_ok_def)
  moreover have "logon_gated (ac_timers c) (Some r) (Some (g, t))"
    using assms(3) by (auto simp: logon_gated_def)
  ultimately show ?thesis using assms(1,2)
    by (auto simp: gated_def frames_gated_settled state_gated_def l intro: logon_ok_mono)
qed

lemma logon_gated_fewer:
  assumes "logon_gated ts lr au" "\<And>n e. jm_get n ts' = Some e \<Longrightarrow> jm_get n ts = Some e"
  shows "logon_gated ts' lr au"
  using assms unfolding logon_gated_def by meson

lemma gated_entry_settled:
  assumes g: "gated has c" and e: "jm_get n (ac_timers c) = Some e" and sent: "\<And>v. pe_logon e \<Longrightarrow> r = RpcResolved v \<Longrightarrow>
      \<exists>st. FrameSent n (pe_generation e) (pe_category e) st (RpcFrame (pe_id e) (pe_method e) (pe_params e)) \<in> set (ac_out c)"
  shows "gated has (settle_rpc n (pe_logon e) r (c\<lparr>ac_pending := p, ac_timers := jm_del n (ac_timers c)\<rparr>))"
proof -
  let ?c = "c\<lparr>ac_pending := p, ac_timers := jm_del n (ac_timers c)\<rparr>"
  have lg: "logon_gated (ac_timers c) (ac_logonResult c) (ac_authInFlight c)" using g by (simp add: gated_def)
  have "logon_gated (jm_del n (ac_timers c)) (ac_logonResult c) (ac_authInFlight c)"
    by (rule logon_gated_fewer [OF lg]) (simp add: jm.get_del split: if_splits)
  with g have g1: "gated has ?c" by (simp add: gated_def)
  show ?thesis
  proof (cases "pe_logon e")
    case True
    then obtain t where t: "ac_authInFlight c = Some (pe_generation e, t)" "pe_category e = Session" "pe_method e = ''session.logon''"
      "\<forall>m x. jm_get m (ac_timers c) = Some x \<longrightarrow> pe_logon x \<longrightarrow> m = n"
      using lg e unfolding logon_gated_def by blast
    have "gated has (settle_rpc n True r ?c)"
    proof (rule gated_settle_logon [OF g1])
      show "ac_authInFlight ?c = Some (pe_generation e, t)" using t(1) by simp
      show "jm_get m (ac_timers ?c) = Some x \<Longrightarrow> \<not> pe_logon x" for m x
        using t(4) by (auto simp: jm.get_del split: if_splits)
      show "\<exists>st i p. FrameSent n (pe_generation e) Session st (RpcFrame i ''session.logon'' p) \<in> set (ac_out ?c)" if "r = RpcResolved v" for v
        using sent [OF True that] t(2,3) by auto
    qed
    with True show ?thesis by simp
  qed (simp add: gated_settle [OF g1])
qed

definition usable :: "bool \<Rightarrow> api_client \<Rightarrow> bool" where
  "usable has c \<longleftrightarrow> (if has then ac_state c = RpcReady else ac_state c = RpcOpen)"

lemma gated_send:
  assumes g: "gated has c" and u: "rq_category r \<noteq> Session \<Longrightarrow> usable has c"
    and l: "rq_logon r \<Longrightarrow> rq_category r = Session \<and> rq_method r = ''session.logon'' \<and> ac_logonResult c = None \<and>
      ac_socket c = Some WsOpen \<and> (\<exists>t. ac_authInFlight c = Some (ac_generation c, t)) \<and> (\<forall>n e. jm_get n (ac_timers c) = Some e \<longrightarrow> \<not> pe_logon e)"
    and fresh: "jm_get n (ac_timers c) = None"
  shows "gated has (send_frame now n r params c)"
proof (cases "ac_socket c = Some WsOpen")
  case True
  let ?c = "send_frame now n r params c" and ?e = "new_entry now n r params (ac_generation c)"
  let ?x = "FrameSent n (ac_generation c) (rq_category r) (ac_state c) (RpcFrame (rq_id r) (rq_method r) params)"
  have o: "ac_out ?c = ac_out c @ [?x]" "ac_waiters ?c = ac_waiters c" "ac_timers ?c = jm_set n ?e (ac_timers c)"
    "ac_session ?c = ac_session c" "ac_state ?c = ac_state c" "ac_generation ?c = ac_generation c"
    "ac_logonResult ?c = ac_logonResult c" "ac_authInFlight ?c = ac_authInFlight c"
    using True by (simp_all add: send_frame_def Let_def rpc_emit_def)
  have p: "frames_gated has (ac_out c)" "state_gated has (ac_state c) (ac_generation c) (ac_logonResult c) (ac_authInFlight c) (ac_out c)"
    "logon_gated (ac_timers c) (ac_logonResult c) (ac_authInFlight c)"
    using g by (simp_all add: gated_def)
  have f: "frames_gated has (ac_out c @ [?x])"
  proof (rule frames_gated_snoc [OF p(1)])
    fix m h k st y assume x: "?x = FrameSent m h k st y" and "k \<noteq> Session"
    then have "rq_category r \<noteq> Session" by simp
    from u [OF this] have "ac_state c = (if has then RpcReady else RpcOpen)" by (simp add: usable_def split: if_splits)
    moreover have "ac_state c = RpcReady \<Longrightarrow> logon_ok (ac_generation c) (ac_out c)" using p(2) unfolding state_gated_def by blast
    ultimately show "if has then st = RpcReady \<and> logon_ok h (ac_out c) else st = RpcOpen"
      using x by (cases has) simp_all
  qed
  have "logon_gated (jm_set n ?e (ac_timers c)) (ac_logonResult c) (ac_authInFlight c)"
  proof (cases "rq_logon r")
    case True
    with l show ?thesis by (auto simp: logon_gated_def jm.get_put new_entry_def split: if_splits)
  next
    case False
    then have "\<not> pe_logon ?e" by (simp add: new_entry_def)
    with p(3) show ?thesis unfolding logon_gated_def jm.get_put by (metis option.inject)
  qed
  with g f p(2) show ?thesis by (simp add: gated_def o state_gated_settled)
next
  case False
  with l show ?thesis by (auto simp: send_frame_def intro: gated_settle [OF g])
qed

lemma dispatch_keeps [simp]:
  "ac_state (dispatch_rpc opts now call c) = ac_state c" "ac_session (dispatch_rpc opts now call c) = ac_session c"
  "ac_generation (dispatch_rpc opts now call c) = ac_generation c" "ac_socket (dispatch_rpc opts now call c) = ac_socket c"
  "ac_waiters (dispatch_rpc opts now call c) = ac_waiters c" "ac_closedByUser (dispatch_rpc opts now call c) = ac_closedByUser c"
  "ac_authInFlight (dispatch_rpc opts now call c) = ac_authInFlight c" "ac_next (dispatch_rpc opts now call c) = ac_next c"
  by (auto simp: dispatch_rpc_def send_frame_def rpc_emit_def Let_def split: prod.split sum.split)

lemma gated_dispatch:
  assumes "gated has c" "\<not> rq_logon r" "rq_category r \<noteq> Session \<Longrightarrow> usable has c" "jm_get n (ac_timers c) = None"
  shows "gated has (dispatch_rpc opts now (n, r) c)"
proof -
  have "gated has (send_frame now n r params c)" for params
    by (rule gated_send) (use assms in auto)
  then show ?thesis using assms(1,2) by (simp add: dispatch_rpc_def gated_settle split: sum.split)
qed

lemma gated_waiters: "gated has c \<Longrightarrow> call \<in> set (ac_waiters c) \<Longrightarrow> \<not> rq_logon (snd call)"
  unfolding gated_def by blast

lemma gated_drop_waiters: "gated has c \<Longrightarrow> gated has (c\<lparr>ac_waiters := []\<rparr>)"
  by (simp add: gated_def)

lemma gated_failOpenWaiters:
  assumes "gated has c"
  shows "gated has (failOpenWaiters msg c)"
proof -
  have "gated has d \<Longrightarrow> \<forall>call \<in> set ws. \<not> rq_logon (snd call) \<Longrightarrow> gated has (foldl (\<lambda>c (n, r). settle_rpc n (rq_logon r) (RpcError msg) c) d ws)" for d ws
    by (induction ws arbitrary: d) (auto simp: gated_settle)
  with gated_drop_waiters [OF assms] gated_waiters [OF assms] show ?thesis unfolding failOpenWaiters_def by blast
qed

lemma gated_resolveOpenWaiters:
  assumes "gated has c" "usable has c" "rpc_inv [] c"
  shows "gated has (resolveOpenWaiters opts now c)"
proof -
  have "gated has d \<Longrightarrow> usable has d \<Longrightarrow> rpc_inv (map fst ws) d \<Longrightarrow> \<forall>call \<in> set ws. \<not> rq_logon (snd call) \<Longrightarrow>
      gated has (foldl (\<lambda>c call. dispatch_rpc opts now call c) d ws)" for d ws
  proof (induction ws arbitrary: d)
    case (Cons w ws)
    have w: "w = (fst w, snd w)" by simp
    have "jm_get (fst w) (ac_timers d) = None"
      using Cons.prems(3) by (auto simp: rpc_inv_def places_ok_def places_def jm_keys_iff)
    then have "gated has (dispatch_rpc opts now w d)" using Cons.prems by (subst w, intro gated_dispatch) auto
    moreover have "rpc_inv (map fst ws) (dispatch_rpc opts now w d)"
      using Cons.prems(3) by (subst w, intro dispatch_inv) simp
    ultimately show ?case using Cons.IH Cons.prems(2,4) by (simp add: usable_def)
  qed simp
  moreover have "\<forall>call \<in> set (ac_waiters c). \<not> rq_logon (snd call)" using gated_waiters [OF assms(1)] by blast
  ultimately show ?thesis
    using assms drop_waiters_inv [OF assms(3)] by (simp add: resolveOpenWaiters_def gated_drop_waiters usable_def)
qed

lemma gated_settle_all:
  "gated has c \<Longrightarrow> distinct (map pe_call es) \<Longrightarrow> (\<And>e. e \<in> set es \<Longrightarrow> jm_get (pe_call e) (ac_timers c) = Some e) \<Longrightarrow>
    gated has (settle_all cause context es c)"
proof (induction es arbitrary: c)
  case (Cons e es)
  let ?c = "settle_rpc (pe_call e) (pe_logon e) (lost_result cause context e) (c\<lparr>ac_timers := jm_del (pe_call e) (ac_timers c)\<rparr>)"
  have "gated has (settle_rpc (pe_call e) (pe_logon e) (lost_result cause context e)
      (c\<lparr>ac_pending := ac_pending c, ac_timers := jm_del (pe_call e) (ac_timers c)\<rparr>))"
    by (rule gated_entry_settled) (use Cons.prems in \<open>auto simp: lost_result_def split: if_splits\<close>)
  then have "gated has ?c" by simp
  moreover have "jm_get (pe_call x) (ac_timers ?c) = Some x" if "x \<in> set es" for x
  proof -
    have "pe_call x \<in> set (map pe_call es)" using that by simp
    with Cons.prems(2) have "pe_call x \<noteq> pe_call e" by auto
    then show ?thesis using that Cons.prems(3) [of x] by (simp add: jm.get_del)
  qed
  ultimately show ?case using Cons.IH [of ?c] Cons.prems(2) by simp
qed simp

lemma gated_failAllPending:
  assumes "gated has c" "rpc_inv l c"
  shows "gated has (failAllPending context c)"
proof -
  have t: "tables_ok c" using assms(2) by (simp add: rpc_inv_def)
  have "gated has (settle_all ConnectionDrop context (map snd (ac_pending c)) c)"
    by (rule gated_settle_all) (use assms(1) pending_calls_distinct [OF t] in auto)
  then show ?thesis by (simp add: failAllPending_def gated_def)
qed

lemma gated_state: "gated has c \<Longrightarrow> st \<noteq> RpcOpen \<Longrightarrow> st \<noteq> RpcReady \<Longrightarrow> gated has (c\<lparr>ac_state := st\<rparr>)"
  by (simp add: gated_def state_gated_def)

lemma gated_fields:
  "gated has (c\<lparr>ac_socket := s\<rparr>) = gated has c" "gated has (c\<lparr>ac_closedByUser := b\<rparr>) = gated has c"
  "gated has (c\<lparr>ac_reconnectAttempt := k\<rparr>) = gated has c" "gated has (c\<lparr>ac_delays := k\<rparr>) = gated has c"
  "gated has (c\<lparr>ac_next := k\<rparr>) = gated has c" "gated has (c\<lparr>ac_everAuthenticated := b\<rparr>) = gated has c"
  "gated has (drop_session c) = gated has c"
  by (simp_all add: gated_def drop_session_def)

lemma gated_note: "gated has c \<Longrightarrow> (\<And>n g cat st f. x \<noteq> FrameSent n g cat st f) \<Longrightarrow> gated has (rpc_emit x c)"
  using frames_gated_snoc [of has "ac_out c" x] by (simp add: gated_def rpc_emit_def state_gated_settled)

lemma gated_openSocket:
  assumes "gated has c"
  shows "gated has (openSocket c)"
proof -
  have "gated has (c\<lparr>ac_socket := Some WsConnecting, ac_generation := Suc (ac_generation c), ac_state := RpcConnecting\<rparr>)"
    using assms by (simp add: gated_def state_gated_def)
  then show ?thesis unfolding openSocket_def by (rule gated_note) simp
qed

lemma gated_scheduleReconnect:
  assumes "gated has c"
  shows "gated has (scheduleReconnect opts c)"
proof -
  have "gated has (c\<lparr>ac_state := RpcReconnecting, ac_reconnectAttempt := Suc (ac_reconnectAttempt c), ac_delays := Suc (ac_delays c)\<rparr>)"
    using gated_state [OF assms, of RpcReconnecting] by (simp add: gated_def)
  then show ?thesis unfolding scheduleReconnect_def using assms by (auto intro: gated_note)
qed

lemma dispatchable_usable: "gated has c \<Longrightarrow> isDispatchable c \<Longrightarrow> usable has c"
  by (auto simp: isDispatchable_def gated_def state_gated_def usable_def)

lemma gated_ensureDispatchable:
  assumes g: "gated has c" and r: "\<not> rq_logon r" and n: "jm_get n (ac_timers c) = None"
  shows "gated has (ensureDispatchable opts now (n, r) c)"
proof -
  have w: "gated has (d\<lparr>ac_waiters := ac_waiters d @ [(n, r)]\<rparr>)" if "gated has d" for d
    using that r by (auto simp: gated_def)
  show ?thesis
  proof (cases "isDispatchable c")
    case True
    with gated_dispatch [OF g r dispatchable_usable [OF g True] n] show ?thesis by (simp add: ensureDispatchable_def)
  next
    case False
    with w [OF g] w [OF gated_openSocket [OF g]] gated_settle [OF g r] show ?thesis
      by (simp add: ensureDispatchable_def Let_def)
  qed
qed

lemma new_call_fresh: "rpc_inv [] c \<Longrightarrow> jm_get (ac_next c) (ac_timers c) = None"
  by (auto simp: rpc_inv_def places_ok_def places_def jm_keys_iff set_eq_iff)

lemma gated_api_request:
  assumes g: "gated has c" and i: "rpc_inv [] c"
  shows "gated has (api_request opts now uuid method params signed c)"
proof -
  let ?d = "c\<lparr>ac_next := Suc (ac_next c)\<rparr>"
  have d: "gated has ?d" "jm_get (ac_next c) (ac_timers ?d) = None" using g new_call_fresh [OF i] by (simp_all add: gated_fields)
  have "gated has (dispatch_rpc opts now (ac_next c, r) ?d)" if "\<not> rq_logon r" "rq_category r = Session" for r
    by (rule gated_dispatch) (use that d in auto)
  with gated_settle [OF d(1), of False] gated_ensureDispatchable [OF d(1) _ d(2)] show ?thesis
    by (simp add: api_request_def sendAndWait_def Let_def)
qed

lemma gated_authenticate:
  assumes g: "gated has c" and i: "rpc_inv [] c" and s: "ac_socket c = Some WsOpen" "ac_logonResult c = None" "has"
  shows "gated has (authenticate opts now uuid se c)"
proof (cases "ac_authInFlight c")
  case None
  let ?c = "c\<lparr>ac_authInFlight := Some (ac_generation c, now)\<rparr>" and ?n = "ac_next c"
  let ?d = "?c\<lparr>ac_next := Suc ?n\<rparr>"
  have no: "\<not> pe_logon e" if "jm_get n (ac_timers c) = Some e" for n e
    using g None that by (auto simp: gated_def logon_gated_def)
  have gc: "gated has ?c" "gated has ?d"
    using g no s(2,3) by (auto simp: gated_def state_gated_def logon_gated_def)
  have q: "gated has (settle_rpc ?n True (RpcError m) ?d)" for m
    by (rule gated_settle_logon [OF gc(2)]) (use no in auto)
  have e: "gated has (?c\<lparr>ac_logonResult := Some (RpcError m)\<rparr>)" for m
    using gc(1) no by (auto simp: gated_def state_gated_def logon_gated_def)
  have "gated has (send_frame now ?n r p ?d)"
    if "rq_category r = Session" "rq_method r = ''session.logon''" for r p
    by (rule gated_send [OF gc(2)]) (use that s no new_call_fresh [OF i] in auto)
  then have "gated has (dispatch_rpc opts now (?n, r) ?d)"
    if "rq_category r = Session" "rq_method r = ''session.logon''" "\<not> rq_signed r" for r
    using that by (simp add: dispatch_rpc_def session_authorized_def buildParams_def)
  with q e None s show ?thesis
    by (simp add: authenticate_def Let_def sendAndWait_def split: option.split)
qed (simp add: authenticate_def g)

lemma settle_all_keeps:
  "ac_session (settle_all k x es c) = ac_session c" "ac_generation (settle_all k x es c) = ac_generation c"
  "ac_state (settle_all k x es c) = ac_state c" "ac_socket (settle_all k x es c) = ac_socket c"
  "ac_closedByUser (settle_all k x es c) = ac_closedByUser c" "ac_waiters (settle_all k x es c) = ac_waiters c"
  "ac_delays (settle_all k x es c) = ac_delays c" "ac_authInFlight (settle_all k x es c) = ac_authInFlight c"
  by (induction es arbitrary: c) simp_all

lemma fail_keeps [simp]:
  "ac_session (failAllPending x c) = ac_session c" "ac_generation (failAllPending x c) = ac_generation c"
  "ac_state (failAllPending x c) = ac_state c" "ac_socket (failAllPending x c) = ac_socket c"
  "ac_closedByUser (failAllPending x c) = ac_closedByUser c" "ac_waiters (failAllPending x c) = ac_waiters c"
  "ac_delays (failAllPending x c) = ac_delays c" "ac_authInFlight (failAllPending x c) = ac_authInFlight c"
  "ac_pending (failAllPending x c) = []"
  by (simp_all add: failAllPending_def settle_all_keeps)

lemma wait_fail_keeps [simp]:
  "ac_state (failOpenWaiters x c) = ac_state c" "ac_session (failOpenWaiters x c) = ac_session c"
  "ac_generation (failOpenWaiters x c) = ac_generation c" "ac_socket (failOpenWaiters x c) = ac_socket c"
  "ac_closedByUser (failOpenWaiters x c) = ac_closedByUser c" "ac_waiters (failOpenWaiters x c) = []"
  "ac_delays (failOpenWaiters x c) = ac_delays c" "ac_authInFlight (failOpenWaiters x c) = ac_authInFlight c"
  "ac_pending (failOpenWaiters x c) = ac_pending c" "ac_timers (failOpenWaiters x c) = ac_timers c"
proof -
  have "ac_state (foldl f d ws) = ac_state d \<and> ac_session (foldl f d ws) = ac_session d \<and>
      ac_generation (foldl f d ws) = ac_generation d \<and> ac_socket (foldl f d ws) = ac_socket d \<and>
      ac_closedByUser (foldl f d ws) = ac_closedByUser d \<and> ac_waiters (foldl f d ws) = ac_waiters d \<and>
      ac_delays (foldl f d ws) = ac_delays d \<and> ac_authInFlight (foldl f d ws) = ac_authInFlight d \<and>
      ac_pending (foldl f d ws) = ac_pending d \<and> ac_timers (foldl f d ws) = ac_timers d"
    if "f = (\<lambda>c (n, r). settle_rpc n (rq_logon r) (RpcError x) c)" for f d ws
    by (induction ws arbitrary: d) (simp_all add: that split_def)
  from this [OF refl, of "c\<lparr>ac_waiters := []\<rparr>" "ac_waiters c"]
  show "ac_state (failOpenWaiters x c) = ac_state c" "ac_session (failOpenWaiters x c) = ac_session c"
    "ac_generation (failOpenWaiters x c) = ac_generation c" "ac_socket (failOpenWaiters x c) = ac_socket c"
    "ac_closedByUser (failOpenWaiters x c) = ac_closedByUser c" "ac_waiters (failOpenWaiters x c) = []"
    "ac_delays (failOpenWaiters x c) = ac_delays c" "ac_authInFlight (failOpenWaiters x c) = ac_authInFlight c"
    "ac_pending (failOpenWaiters x c) = ac_pending c" "ac_timers (failOpenWaiters x c) = ac_timers c"
    by (simp_all add: failOpenWaiters_def)
qed

lemma logon_settled_accepts: "logon_settled t r s = (Inr u, s1) \<Longrightarrow> \<exists>v. r = RpcResolved v"
  by (cases r) (simp_all add: logon_settled_def)

lemma gated_auth_continue:
  assumes g: "gated has c" and i: "rpc_inv [] c"
  shows "gated has (auth_continue opts now c)"
proof (cases "ac_authInFlight c = None \<or> ac_logonResult c = None \<or> ac_session c = None")
  case True
  then show ?thesis using g by (auto simp: auth_continue_def split: option.split)
next
  case False
  then obtain k t r s where a: "ac_authInFlight c = Some (k, t)" "ac_logonResult c = Some r" "ac_session c = Some s" by auto
  obtain res s1 where ls: "logon_settled (JNum (Fin (of_int t))) r s = (res, s1)" by fastforce
  let ?c = "c\<lparr>ac_session := Some s1, ac_authInFlight := None, ac_logonResult := None\<rparr>"
  have has: "has" using g a(3) by (simp add: gated_def)
  have no: "\<not> pe_logon e" if "jm_get n (ac_timers c) = Some e" for n e
    using g a(2) that by (auto simp: gated_def logon_gated_def)
  have gc: "gated has ?c" using g a no by (auto simp: gated_def state_gated_def logon_gated_def)
  have ic: "rpc_inv [] ?c" "rpc_inv [] (?c\<lparr>ac_state := RpcFailed\<rparr>)"
      "rpc_inv [] (?c\<lparr>ac_everAuthenticated := True, ac_state := RpcReady\<rparr>)"
    using i by (auto elim: rpc_inv_cong)
  have fail: "gated has (failOpenWaiters m (failAllPending x (?c\<lparr>ac_state := RpcFailed\<rparr>)))" for m x
    by (intro gated_failOpenWaiters gated_failAllPending [OF _ ic(2)] gated_state gc) simp_all
  have ok: "gated has (resolveOpenWaiters opts now (?c\<lparr>ac_everAuthenticated := True, ac_state := RpcReady\<rparr>))"
    if "res = Inr u" "\<not> auth_stale k ?c" for u
  proof (rule gated_resolveOpenWaiters [OF _ _ ic(3)])
    have "\<exists>v. r = RpcResolved v" using logon_settled_accepts [of _ r s u s1] ls that(1) by simp
    then obtain v where "r = RpcResolved v" by blast
    then have "logon_ok k (ac_out c)" using g a unfolding gated_def state_gated_def by auto
    moreover have "ac_generation c = k" using that(2) by (simp add: auth_stale_def)
    ultimately show "gated has (?c\<lparr>ac_everAuthenticated := True, ac_state := RpcReady\<rparr>)"
      using gc has by (simp add: gated_def state_gated_def)
    show "usable has (?c\<lparr>ac_everAuthenticated := True, ac_state := RpcReady\<rparr>)" using has by (simp add: usable_def)
  qed
  show ?thesis using gc fail ok by (simp add: auth_continue_def a ls Let_def split: sum.split)
qed

lemma gated_handleMessage:
  assumes g: "gated has c" and i: "rpc_inv [] c"
  shows "gated has (handleMessage parsed c)"
proof -
  have t: "tables_ok c" using i by (simp add: rpc_inv_def)
  have "gated has (settle_rpc (pe_call e) (pe_logon e) r (c\<lparr>ac_pending := p, ac_timers := jm_del (pe_call e) (ac_timers c)\<rparr>))"
    if "jm_get k (ac_pending c) = Some e" for k e r p
    by (rule gated_entry_settled [OF g]) (use t that in \<open>unfold tables_ok_def, blast+\<close>)
  with g show ?thesis by (auto simp: handleMessage_def Let_def split: option.split js_value.split)
qed

lemma gated_request_timeout:
  assumes g: "gated has c"
  shows "gated has (request_timeout n c)"
proof -
  have "gated has (settle_rpc n (pe_logon e) (lost_result k x e) (c\<lparr>ac_pending := p, ac_timers := jm_del n (ac_timers c)\<rparr>))"
    if "jm_get n (ac_timers c) = Some e" for e k x p
    by (rule gated_entry_settled [OF g that]) (simp add: lost_result_def split: if_splits)
  with g show ?thesis by (simp add: request_timeout_def split: option.split)
qed

lemma gated_wait_timeout:
  assumes g: "gated has c"
  shows "gated has (wait_timeout n c)"
proof -
  have "gated has (c\<lparr>ac_waiters := filter P (ac_waiters c)\<rparr>)" for P using g by (auto simp: gated_def)
  moreover have "\<not> rq_logon r" if "map_of (ac_waiters c) n = Some r" for r
    using gated_waiters [OF g map_of_SomeD [OF that]] by simp
  ultimately show ?thesis using g by (simp add: wait_timeout_def gated_settle split: option.split)
qed

lemma gated_on_open:
  assumes g: "gated has c" and i: "rpc_inv [] c" and l: "ac_logonResult c = None"
  shows "gated has (on_open opts now uuid c)"
proof (cases "ac_session c")
  case None
  have "gated has (c\<lparr>ac_socket := Some WsOpen, ac_reconnectAttempt := 0, ac_state := RpcOpen\<rparr>)" (is "gated has ?d")
    using g None by (auto simp: gated_def state_gated_def)
  moreover have "usable has ?d" using g None by (auto simp: usable_def gated_def)
  moreover have "rpc_inv [] ?d" using i by (auto elim: rpc_inv_cong)
  ultimately show ?thesis using None by (simp add: on_open_def Let_def gated_resolveOpenWaiters)
next
  case (Some s)
  have "gated has (authenticate opts now uuid s (c\<lparr>ac_socket := Some WsOpen, ac_reconnectAttempt := 0, ac_state := st\<rparr>))"
    if "st \<noteq> RpcOpen" "st \<noteq> RpcReady" for st
  proof (rule gated_authenticate)
    show "gated has (c\<lparr>ac_socket := Some WsOpen, ac_reconnectAttempt := 0, ac_state := st\<rparr>)"
      using gated_state [OF g that] by (simp add: gated_def)
    show "rpc_inv [] (c\<lparr>ac_socket := Some WsOpen, ac_reconnectAttempt := 0, ac_state := st\<rparr>)"
      using i by (auto elim: rpc_inv_cong)
  qed (use l Some g in \<open>simp_all add: gated_def\<close>)
  with Some show ?thesis by (simp add: on_open_def Let_def)
qed

lemma gated_close:
  assumes g: "gated has c" and i: "rpc_inv [] c" and st: "st \<noteq> RpcOpen" "st \<noteq> RpcReady"
  shows "gated has (failOpenWaiters m (failAllPending x (drop_session (c\<lparr>ac_closedByUser := b, ac_state := st\<rparr>))))"
    "gated has (failOpenWaiters m (failAllPending x ((drop_session (c\<lparr>ac_socket := s\<rparr>))\<lparr>ac_state := st\<rparr>)))"
    "gated has (failOpenWaiters m (failAllPending x (drop_session (c\<lparr>ac_socket := s\<rparr>))))"
proof -
  have i': "rpc_inv [] (drop_session (c\<lparr>ac_closedByUser := b, ac_state := st\<rparr>))"
    "rpc_inv [] ((drop_session (c\<lparr>ac_socket := s\<rparr>))\<lparr>ac_state := st\<rparr>)" "rpc_inv [] (drop_session (c\<lparr>ac_socket := s\<rparr>))"
    using i by (simp_all add: rpc_inv_intros)
  have "gated has (drop_session (c\<lparr>ac_closedByUser := b, ac_state := st\<rparr>))"
    using gated_state [OF g st] by (simp add: gated_def drop_session_def)
  from gated_failOpenWaiters [OF gated_failAllPending [OF this i'(1)]]
  show "gated has (failOpenWaiters m (failAllPending x (drop_session (c\<lparr>ac_closedByUser := b, ac_state := st\<rparr>))))" .
  have "gated has ((drop_session (c\<lparr>ac_socket := s\<rparr>))\<lparr>ac_state := st\<rparr>)"
    by (rule gated_state) (simp_all add: gated_fields g st)
  from gated_failOpenWaiters [OF gated_failAllPending [OF this i'(2)]]
  show "gated has (failOpenWaiters m (failAllPending x ((drop_session (c\<lparr>ac_socket := s\<rparr>))\<lparr>ac_state := st\<rparr>)))" .
  have "gated has (drop_session (c\<lparr>ac_socket := s\<rparr>))" by (simp add: gated_fields g)
  from gated_failOpenWaiters [OF gated_failAllPending [OF this i'(3)]]
  show "gated has (failOpenWaiters m (failAllPending x (drop_session (c\<lparr>ac_socket := s\<rparr>))))" .
qed

lemma gated_final: "gated has c \<Longrightarrow> gated has (c\<lparr>ac_socket := s, ac_state := RpcClosed\<rparr>)"
  by (simp add: gated_def state_gated_def)

lemma gated_handle:
  assumes g: "gated has c" and i: "rpc_inv [] c" and l: "ac_logonResult c = None"
  shows "gated has (rpc_handle opts now e c)"
proof (cases e)
  case CallClose
  then show ?thesis using gated_final [OF gated_close(1) [OF g i, of RpcClosing]] g
    by (simp add: api_close_def)
next
  case (EvClosed k)
  have "gated has (scheduleReconnect opts (failOpenWaiters m (failAllPending x (drop_session (c\<lparr>ac_socket := s\<rparr>)))))" for m x s
    by (rule gated_scheduleReconnect [OF gated_close(3) [OF g i, of RpcClosed]]) simp_all
  with EvClosed gated_close(2) [OF g i, of RpcClosed] g show ?thesis
    by (simp add: on_closed_def Let_def)
next
  case EvReconnectDue
  have "gated has (c\<lparr>ac_delays := k\<rparr>)" "gated has (openSocket (c\<lparr>ac_delays := k\<rparr>))" for k
    using gated_openSocket g by (simp_all add: gated_fields)
  with EvReconnectDue g show ?thesis by (simp add: reconnect_due_def Let_def)
qed (simp_all add: g gated_api_request [OF g i] gated_on_open [OF g i l] gated_handleMessage [OF g i]
      gated_request_timeout [OF g] gated_wait_timeout [OF g] gated_fields)

lemma no_logon_result:
  "\<forall>e \<in> set es. \<not> pe_logon e \<Longrightarrow> ac_logonResult (settle_all k x es c) = ac_logonResult c"
  "\<forall>call \<in> set ws. \<not> rq_logon (snd call) \<Longrightarrow>
    ac_logonResult (foldl (\<lambda>c (n, r). settle_rpc n (rq_logon r) (RpcError m) c) c ws) = ac_logonResult c"
  "\<forall>call \<in> set ws. \<not> rq_logon (snd call) \<Longrightarrow>
    ac_logonResult (foldl (\<lambda>c call. dispatch_rpc opts now call c) c ws) = ac_logonResult c"
proof -
  have s: "ac_logonResult (settle_rpc n False r d) = ac_logonResult d" for n r d
    by (simp add: settle_rpc_def rpc_emit_def)
  show "\<forall>e \<in> set es. \<not> pe_logon e \<Longrightarrow> ac_logonResult (settle_all k x es c) = ac_logonResult c"
    by (induction es arbitrary: c) (simp_all add: s)
  show "\<forall>call \<in> set ws. \<not> rq_logon (snd call) \<Longrightarrow>
      ac_logonResult (foldl (\<lambda>c (n, r). settle_rpc n (rq_logon r) (RpcError m) c) c ws) = ac_logonResult c"
    by (induction ws arbitrary: c) (auto simp: s)
  have "\<not> rq_logon r \<Longrightarrow> ac_logonResult (dispatch_rpc opts now (n, r) d) = ac_logonResult d" for n r d
    by (simp add: dispatch_rpc_def send_frame_def s Let_def rpc_emit_def split: sum.split)
  then show "\<forall>call \<in> set ws. \<not> rq_logon (snd call) \<Longrightarrow>
      ac_logonResult (foldl (\<lambda>c call. dispatch_rpc opts now call c) c ws) = ac_logonResult c"
    by (induction ws arbitrary: c) auto
qed

lemma auth_continue_clears:
  assumes g: "gated has c" and i: "rpc_inv [] c"
  shows "ac_logonResult (auth_continue opts now c) = None"
proof (cases "ac_logonResult c")
  case None
  then show ?thesis by (simp add: auth_continue_def split: option.split)
next
  case (Some r)
  then obtain k t s where a: "ac_authInFlight c = Some (k, t)" "ac_session c = Some s"
    using g by (auto simp: gated_def state_gated_def)
  obtain res s1 where ls: "logon_settled (JNum (Fin (of_int t))) r s = (res, s1)" by fastforce
  have w: "\<forall>call \<in> set (ac_waiters c). \<not> rq_logon (snd call)" using gated_waiters [OF g] by blast
  have "\<not> pe_logon e" if "jm_get n (ac_timers c) = Some e" for n e
    using g Some that by (auto simp: gated_def logon_gated_def)
  moreover have "tables_ok c" using i by (simp add: rpc_inv_def)
  ultimately have p: "\<forall>e \<in> set (map snd (ac_pending c)). \<not> pe_logon e"
    using pending_calls_distinct(2) by blast
  have p': "\<forall>e \<in> snd ` set (ac_pending c). \<not> pe_logon e" using p by simp
  show ?thesis
    by (simp add: auth_continue_def a Some ls Let_def failOpenWaiters_def failAllPending_def resolveOpenWaiters_def
        settle_all_keeps no_logon_result w p' split: sum.split)
qed

definition rpc_safe :: "bool \<Rightarrow> api_client \<Rightarrow> bool" where
  "rpc_safe has c \<longleftrightarrow> rpc_inv [] c \<and> gated has c \<and> ac_logonResult c = None"

lemma rpc_step_safe:
  assumes "rpc_safe has c"
  shows "rpc_safe has (rpc_step opts e c)"
proof -
  have i: "rpc_inv [] (rpc_handle opts (fst e) (snd e) c)" and g: "gated has (rpc_handle opts (fst e) (snd e) c)"
    using assms by (simp_all add: rpc_safe_def rpc_handle_inv gated_handle)
  show ?thesis
    by (simp add: rpc_safe_def rpc_step_def auth_continue_inv [OF i] gated_auth_continue [OF g i] auth_continue_clears [OF g i])
qed

interpretation rpc: invariant_machine "\<lambda>c e. rpc_step opts e c" "rpc_safe has" "\<lambda>_. True" for opts has
  by unfold_locales (rule rpc_step_safe)

lemma rpc_run_safe: "rpc_safe (session \<noteq> None) (rpc_run opts es (new_WsApiClient session))"
proof -
  have "gated (session \<noteq> None) (new_WsApiClient session)"
    by (simp add: gated_def state_gated_def logon_gated_def frames_gated_def new_WsApiClient_def jm_get_def)
  then have "rpc_safe (session \<noteq> None) (new_WsApiClient session)"
    using rpc_inv_new by (simp add: rpc_safe_def) (simp add: new_WsApiClient_def)
  then show ?thesis unfolding rpc_run_def by (rule rpc.run_inv) (simp add: list_all_iff)
qed

section \<open>Properties\<close>

lemma out_grows:
  "set (ac_out c) \<subseteq> set (ac_out (settle_all k x es c))"
  "set (ac_out c) \<subseteq> set (ac_out (foldl (\<lambda>c (n, r). settle_rpc n (rq_logon r) (RpcError m) c) c ws))"
  "set (ac_out c) \<subseteq> set (ac_out (foldl (\<lambda>c call. dispatch_rpc opts now call c) c ws))"
proof -
  show "set (ac_out c) \<subseteq> set (ac_out (settle_all k x es c))"
  proof (induction es arbitrary: c)
    case (Cons e es)
    have "set (ac_out c) \<subseteq> set (ac_out (settle_rpc (pe_call e) (pe_logon e) (lost_result k x e) (c\<lparr>ac_timers := jm_del (pe_call e) (ac_timers c)\<rparr>)))"
      by auto
    also note Cons.IH
    finally show ?case by simp
  qed simp
  show "set (ac_out c) \<subseteq> set (ac_out (foldl (\<lambda>c (n, r). settle_rpc n (rq_logon r) (RpcError m) c) c ws))"
  proof (induction ws arbitrary: c)
    case (Cons w ws)
    have "set (ac_out c) \<subseteq> set (ac_out (settle_rpc (fst w) (rq_logon (snd w)) (RpcError m) c))" by auto
    also note Cons.IH
    finally show ?case by (simp add: split_def)
  qed simp
  have d: "set (ac_out d) \<subseteq> set (ac_out (dispatch_rpc opts now call d))" for call d
    by (auto simp: dispatch_rpc_def send_frame_def Let_def rpc_emit_def split: prod.split sum.split)
  show "set (ac_out c) \<subseteq> set (ac_out (foldl (\<lambda>c call. dispatch_rpc opts now call c) c ws))"
  proof (induction ws arbitrary: c)
    case (Cons w ws)
    note d [of c w]
    also note Cons.IH
    finally show ?case by simp
  qed simp
qed

lemma auth_continue_grows: "set (ac_out c) \<subseteq> set (ac_out (auth_continue opts now c))"
proof -
  have f: "set (ac_out d) \<subseteq> set (ac_out (failOpenWaiters m d))" for m d
    using out_grows(2) [of "d\<lparr>ac_waiters := []\<rparr>"] by (simp add: failOpenWaiters_def)
  have p: "set (ac_out d) \<subseteq> set (ac_out (failAllPending x d))" for x d
    using out_grows(1) [of d] by (simp add: failAllPending_def)
  have r: "set (ac_out d) \<subseteq> set (ac_out (resolveOpenWaiters opts now d))" for d
    using out_grows(3) [of "d\<lparr>ac_waiters := []\<rparr>"] by (simp add: resolveOpenWaiters_def)
  have fp: "set (ac_out d) \<subseteq> set (ac_out (failOpenWaiters m (failAllPending x d)))" for m x d
    using p f by (rule subset_trans)
  define c1 where "c1 s = c\<lparr>ac_session := Some s, ac_authInFlight := None, ac_logonResult := None\<rparr>" for s
  have "set (ac_out c) \<subseteq> set (ac_out (failOpenWaiters m (failAllPending x ((c1 s)\<lparr>ac_state := st\<rparr>))))"
    "set (ac_out c) \<subseteq> set (ac_out (resolveOpenWaiters opts now ((c1 s)\<lparr>ac_everAuthenticated := True, ac_state := st\<rparr>)))"
    "set (ac_out c) \<subseteq> set (ac_out (c1 s))" for m x s st
    using fp [of "(c1 s)\<lparr>ac_state := st\<rparr>" m x] r [of "(c1 s)\<lparr>ac_everAuthenticated := True, ac_state := st\<rparr>"]
    by (simp_all add: c1_def)
  then show ?thesis
    unfolding auth_continue_def c1_def by (auto simp: Let_def split: option.split prod.split sum.split)
qed

lemma step_settles:
  assumes "RpcSettled n r \<in> set (ac_out (rpc_handle opts now e c))"
  shows "n \<in> set (settled (rpc_step opts (now, e) c))"
  using assms auth_continue_grows [of "rpc_handle opts now e c" opts now] by (auto simp: in_settled rpc_step_def)

text \<open>C19: Every call of the WebSocket API ends, and once. In every run no promise is settled twice and no
  frame is sent twice, and a call that is not settled yet is waiting for a connection or for its
  answer under a timer of its own that settles it.\<close>

theorem rpc_settles_once:
  assumes "n < ac_next (rpc_run opts es (new_WsApiClient session))"
  shows "let c = rpc_run opts es (new_WsApiClient session) in
    distinct (settled c) \<and> distinct (sent c) \<and>
    (n \<in> set (settled c) \<or> n \<in> set (settled (rpc_step opts (now, EvWaitTimeout n) c)) \<or>
     n \<in> set (settled (rpc_step opts (now, EvRequestTimeout n) c)))"
proof -
  let ?c = "rpc_run opts es (new_WsApiClient session)"
  have i: "places_ok [] ?c" using rpc_run_safe by (simp add: rpc_safe_def rpc_inv_def)
  have n: "n \<in> set (places ?c)" using assms i by (auto simp: places_ok_def)
  have w: "n \<in> set (settled (rpc_step opts (now, EvWaitTimeout n) ?c))" if n: "n \<in> fst ` set (ac_waiters ?c)"
  proof -
    obtain r where "map_of (ac_waiters ?c) n = Some r" using n by (metis map_of_eq_None_iff option.exhaust)
    then show ?thesis by (intro step_settles) (auto simp: wait_timeout_def)
  qed
  have t: "n \<in> set (settled (rpc_step opts (now, EvRequestTimeout n) ?c))" if n: "n \<in> set (jm_keys (ac_timers ?c))"
  proof -
    obtain e where "jm_get n (ac_timers ?c) = Some e" using n by (auto simp: jm_keys_iff)
    then show ?thesis by (intro step_settles) (auto simp: request_timeout_def)
  qed
  have "distinct (settled ?c)" "distinct (sent ?c)" using i by (auto simp: places_ok_def places_def)
  with n w t show ?thesis by (auto simp: places_def Let_def)
qed

definition wit_rpc :: api_options where
  "wit_rpc = \<lparr>ao_label = ''wsApi'', ao_apiKey = Some ''key'', ao_recvWindow = None, ao_canSign = True, ao_sign = (\<lambda>s. ''sig''),
     ao_sessionSign = (\<lambda>s. Some ''sig''), ao_useSessionAuth = True, ao_maxPending = 500, ao_delayFor = (\<lambda>n. 1000)\<rparr>"

definition wit_session :: ws_session where
  "wit_session = \<lparr>se_apiKey = ''key'', se_authenticated = False, se_authorizedSince = None, se_connectedSince = None\<rparr>"

definition wit_order :: rpc_event where
  "wit_order = CallRequest ''x'' ''order.place'' [(''symbol'', JStr ''BTCUSDT'')] False"

definition ok_answer :: "js_value \<Rightarrow> js_value" where
  "ok_answer r = JObj [(''id'', JStr ''x''), (''status'', JNum (Fin 200)), (''result'', r)]"

theorem rpc_settles_once_witness:
  "let c = rpc_run wit_rpc [(0, wit_order)] (new_WsApiClient None) in
    distinct (settled c) \<and> distinct (sent c) \<and>
    (0 \<in> set (settled c) \<or> 0 \<in> set (settled (rpc_step wit_rpc (9, EvWaitTimeout 0) c)) \<or>
     0 \<in> set (settled (rpc_step wit_rpc (9, EvRequestTimeout 0) c)))"
  by (rule rpc_settles_once) code_simp

text \<open>C17: No order is lost in silence. In every run a call that writes orders and whose frame was sent ends
  with the exchange's answer, positive or negative, or with an unknown outcome to be reconciled;
  never with the network error that stands for a call that may be repeated.\<close>

theorem order_write_outcome:
  assumes "FrameSent n g cat st f \<in> set (ac_out (rpc_run opts es (new_WsApiClient session)))"
    and "isOrderWriteCategory cat"
    and "RpcSettled n r \<in> set (ac_out (rpc_run opts es (new_WsApiClient session)))"
  shows "(\<exists>v. r = RpcResolved v) \<or> (\<exists>msg. r = RpcRefused msg) \<or> (\<exists>m. r = RpcThrew (RpcOutcomeUnknownError m))"
proof -
  have "ends_ok (rpc_run opts es (new_WsApiClient session))" using rpc_run_safe by (simp add: rpc_safe_def rpc_inv_def)
  then have "honest_end r" using assms unfolding ends_ok_def by blast
  then show ?thesis by (cases r rule: honest_end.cases) simp_all
qed

theorem order_write_outcome_witness:
  "let c = rpc_run wit_rpc [(0, wit_order), (1, EvOpen 1 ''u''), (2, EvMessage 1 (Some (ok_answer (JStr ''FILLED''))))] (new_WsApiClient None);
      r = RpcResolved (ok_answer (JStr ''FILLED'')) in
    FrameSent 0 1 WriteOrder RpcOpen (RpcFrame ''x'' ''order.place'' [(''symbol'', JStr ''BTCUSDT'')]) \<in> set (ac_out c) \<and>
    ((\<exists>v. r = RpcResolved v) \<or> (\<exists>msg. r = RpcRefused msg) \<or> (\<exists>m. r = RpcThrew (RpcOutcomeUnknownError m)))"
proof -
  let ?es = "[(0, wit_order), (1, EvOpen 1 ''u''), (2, EvMessage 1 (Some (ok_answer (JStr ''FILLED''))))]"
  let ?r = "RpcResolved (ok_answer (JStr ''FILLED''))"
  have f: "FrameSent 0 1 WriteOrder RpcOpen (RpcFrame ''x'' ''order.place'' [(''symbol'', JStr ''BTCUSDT'')])
      \<in> set (ac_out (rpc_run wit_rpc ?es (new_WsApiClient None)))" by code_simp
  have s: "RpcSettled 0 ?r \<in> set (ac_out (rpc_run wit_rpc ?es (new_WsApiClient None)))" by code_simp
  have "(\<exists>v. ?r = RpcResolved v) \<or> (\<exists>msg. ?r = RpcRefused msg) \<or> (\<exists>m. ?r = RpcThrew (RpcOutcomeUnknownError m))"
    by (rule order_write_outcome [OF f _ s]) code_simp
  with f show ?thesis by (simp only: Let_def)
qed

text \<open>C18: No call but the session's own is sent before the session is accepted on that very connection. In
  every run of a client with a session, when a frame is sent whose method is not one of the session's
  own (those that start with \<open>session.\<close>: logon, status and logout, which the code lets through on any
  open socket), the client is READY, and before that frame a logon was sent on the same connection and
  answered with success.\<close>

theorem session_gates_calls:
  assumes "ac_out (rpc_run opts es (new_WsApiClient (Some se))) = earlier @ FrameSent n g cat st f # later" "cat \<noteq> Session"
  shows "st = RpcReady \<and> (\<exists>m st' i p v.
    FrameSent m g Session st' (RpcFrame i ''session.logon'' p) \<in> set earlier \<and> RpcSettled m (RpcResolved v) \<in> set earlier)"
proof -
  have "frames_gated True (ac_out (rpc_run opts es (new_WsApiClient (Some se))))"
    using rpc_run_safe [of "Some se" opts es] by (simp add: rpc_safe_def gated_def)
  from this [unfolded frames_gated_def, rule_format, OF assms] show ?thesis unfolding logon_ok_def by simp
qed

definition wit_traded :: "rpc_output list" where
  "wit_traded = ac_out (rpc_run wit_rpc
     [(0, wit_order), (1, EvOpen 1 ''u''), (2, EvMessage 1 (Some (JObj [(''id'', JStr ''u''), (''status'', JNum (Fin 200))])))]
     (new_WsApiClient (Some wit_session)))"

theorem session_gates_calls_witness:
  "\<exists>earlier later. wit_traded =
      earlier @ FrameSent 0 1 WriteOrder RpcReady (RpcFrame ''x'' ''order.place'' [(''symbol'', JStr ''BTCUSDT'')]) # later \<and>
    (\<exists>m st' i p v. FrameSent m 1 Session st' (RpcFrame i ''session.logon'' p) \<in> set earlier \<and>
      RpcSettled m (RpcResolved v) \<in> set earlier)"
proof -
  have "FrameSent 0 1 WriteOrder RpcReady (RpcFrame ''x'' ''order.place'' [(''symbol'', JStr ''BTCUSDT'')]) \<in> set wit_traded"
    by code_simp
  then obtain earlier later where s: "wit_traded =
      earlier @ FrameSent 0 1 WriteOrder RpcReady (RpcFrame ''x'' ''order.place'' [(''symbol'', JStr ''BTCUSDT'')]) # later"
    by (meson split_list)
  from session_gates_calls [OF s [unfolded wit_traded_def]] have "\<exists>m st' i p v.
      FrameSent m 1 Session st' (RpcFrame i ''session.logon'' p) \<in> set earlier \<and> RpcSettled m (RpcResolved v) \<in> set earlier"
    by simp
  with s show ?thesis by blast
qed

lemma settle_all_logon:
  assumes "\<forall>e \<in> set es. pe_logon e \<longrightarrow> pe_category e = Session" "\<exists>e \<in> set es. pe_logon e"
  shows "\<exists>m. ac_logonResult (settle_all k x es c) = Some (RpcThrew (NetworkError m))"
  using assms
proof (induction es arbitrary: c)
  case (Cons a es)
  show ?case
  proof (cases "\<exists>e \<in> set es. pe_logon e")
    case True
    then show ?thesis using Cons.IH Cons.prems(1) by auto
  next
    case False
    then have "pe_logon a" using Cons.prems(2) by auto
    with False Cons.prems(1) show ?thesis
      by (simp add: no_logon_result lost_result_def isOrderWriteCategory_def settle_rpc_def rpc_emit_def)
  qed
qed simp

text \<open>A connection that drops while it is authenticating kills the client. The reconnect is scheduled,
  but the logon that the drop failed is taken for a refusal of the credentials, because the dropped
  socket is still the current one: the client is FAILED, the reconnect does nothing when it is due,
  and every later call is refused.\<close>

theorem drop_during_logon_fatal:
  defines "run \<equiv> \<lambda>opts es se. rpc_run opts es (new_WsApiClient (Some se))"
  assumes "ac_authInFlight (run opts es se) = Some (ac_generation (run opts es se), t)"
    and "jm_get k (ac_pending (run opts es se)) = Some e" "pe_logon e"
    and "ac_socket (run opts es se) = Some WsOpen" "\<not> ac_closedByUser (run opts es se)"
  shows "let c1 = rpc_step opts (now, EvClosed (ac_generation (run opts es se))) (run opts es se);
      c2 = rpc_step opts (later, EvReconnectDue) c1 in
    ac_state c1 = RpcFailed \<and> ReconnectIn (ao_delayFor opts (ac_reconnectAttempt (run opts es se))) \<in> set (ac_out c1) \<and>
    ac_state c2 = RpcFailed \<and> ac_socket c2 = Some WsClosed \<and> ac_generation c2 = ac_generation (run opts es se)"
proof -
  let ?c = "run opts es se"
  let ?d = "drop_session (?c\<lparr>ac_socket := Some WsClosed\<rparr>)"
  let ?f = "failOpenWaiters ''connection dropped'' (failAllPending '': connection dropped during request'' ?d)"
  let ?h = "scheduleReconnect opts ?f"
  have s: "rpc_inv [] ?c" "gated True ?c" using rpc_run_safe [of "Some se" opts es] by (simp_all add: rpc_safe_def run_def)
  have t: "tables_ok ?c" using s(1) by (simp add: rpc_inv_def)
  have lc: "pe_category x = Session" if "x \<in> set (map snd (ac_pending ?c))" "pe_logon x" for x
    using pending_calls_distinct(2) [OF t that(1)] s(2) that(2) unfolding gated_def logon_gated_def by blast
  have "(k, e) \<in> set (ac_pending ?c)" using assms(3) by (simp add: jm_get_def map_of_SomeD)
  then have ein: "e \<in> set (map snd (ac_pending ?c))" by force
  obtain m where "ac_logonResult (settle_all ConnectionDrop '': connection dropped during request'' (map snd (ac_pending ?c)) ?d) = Some (RpcThrew (NetworkError m))"
    using settle_all_logon [of "map snd (ac_pending ?c)"] ein assms(4) lc by blast
  moreover have p: "ac_pending ?d = ac_pending ?c" by (simp add: drop_session_def)
  ultimately have lr0: "ac_logonResult (failAllPending '': connection dropped during request'' ?d) = Some (RpcThrew (NetworkError m))"
    by (simp add: failAllPending_def)
  have w: "ac_waiters ?d = ac_waiters ?c" by (simp add: drop_session_def)
  have nl: "\<forall>call \<in> set (ac_waiters ?c). \<not> rq_logon (snd call)" using gated_waiters [OF s(2)] by blast
  have lr: "ac_logonResult ?f = Some (RpcThrew (NetworkError m))"
    using lr0 nl by (simp add: failOpenWaiters_def no_logon_result w)
  have fs: "ac_authInFlight ?f = Some (ac_generation ?c, t)" "ac_generation ?f = ac_generation ?c" "\<not> ac_closedByUser ?f"
      "ac_socket ?f = Some WsClosed" "ac_session ?f \<noteq> None"
    using assms(2,6) s(2) by (simp_all add: drop_session_def gated_def)
  have ra: "ac_reconnectAttempt ?f = ac_reconnectAttempt ?c"
  proof -
    have a: "ac_reconnectAttempt (settle_all q y xs d) = ac_reconnectAttempt d" for q y xs d
      by (induction xs arbitrary: d) simp_all
    have b: "ac_reconnectAttempt (foldl (\<lambda>c (n, r). settle_rpc n (rq_logon r) (RpcError z) c) d ws) = ac_reconnectAttempt d" for z d ws
      by (induction ws arbitrary: d) auto
    show ?thesis by (simp add: failOpenWaiters_def b failAllPending_def a drop_session_def)
  qed
  have h: "ac_authInFlight ?h = Some (ac_generation ?c, t)" "ac_generation ?h = ac_generation ?c" "\<not> ac_closedByUser ?h"
      "ac_socket ?h = Some WsClosed" "ac_session ?h \<noteq> None" "ac_logonResult ?h = Some (RpcThrew (NetworkError m))"
      "ReconnectIn (ao_delayFor opts (ac_reconnectAttempt ?c)) \<in> set (ac_out ?h)"
    using fs lr by (simp_all add: scheduleReconnect_def rpc_emit_def ra)
  obtain ss where ss: "ac_session ?h = Some ss" using h(5) by blast
  let ?c1 = "auth_continue opts now ?h"
  have c1: "rpc_step opts (now, EvClosed (ac_generation ?c)) ?c = ?c1"
    using assms(5,6) by (simp add: rpc_step_def current_socket_def on_closed_def drop_session_def)
  have a: "ac_state ?c1 = RpcFailed" "ac_socket ?c1 = Some WsClosed" "ac_generation ?c1 = ac_generation ?c" "ac_authInFlight ?c1 = None"
    using h(1-4,6) ss by (simp_all add: auth_continue_def logon_settled_def auth_stale_def Let_def)
  have o: "ReconnectIn (ao_delayFor opts (ac_reconnectAttempt ?c)) \<in> set (ac_out ?c1)"
    using h(7) auth_continue_grows by blast
  have c2: "ac_state (rpc_step opts (later, EvReconnectDue) ?c1) = RpcFailed"
      "ac_socket (rpc_step opts (later, EvReconnectDue) ?c1) = Some WsClosed"
      "ac_generation (rpc_step opts (later, EvReconnectDue) ?c1) = ac_generation ?c"
    using a by (simp_all add: rpc_step_def reconnect_due_def auth_continue_def)
  show ?thesis using a o c2 by (simp add: Let_def c1)
qed

theorem drop_during_logon_fatal_witness:
  "let c = rpc_run wit_rpc [(0, wit_order), (1, EvOpen 1 ''u'')] (new_WsApiClient (Some wit_session));
      c1 = rpc_step wit_rpc (5, EvClosed (ac_generation c)) c; c2 = rpc_step wit_rpc (9, EvReconnectDue) c1 in
    ac_state c1 = RpcFailed \<and> ReconnectIn (ao_delayFor wit_rpc (ac_reconnectAttempt c)) \<in> set (ac_out c1) \<and>
    ac_state c2 = RpcFailed \<and> ac_socket c2 = Some WsClosed \<and> ac_generation c2 = ac_generation c"
proof -
  let ?c = "rpc_run wit_rpc [(0, wit_order), (1, EvOpen 1 ''u'')] (new_WsApiClient (Some wit_session))"
  have e: "case jm_get ''u'' (ac_pending ?c) of None \<Rightarrow> False | Some e \<Rightarrow> pe_logon e" by code_simp
  then obtain e where e: "jm_get ''u'' (ac_pending ?c) = Some e" "pe_logon e" by (auto split: option.splits)
  have a: "ac_authInFlight ?c = Some (ac_generation ?c, 1)" by code_simp
  have s: "ac_socket ?c = Some WsOpen" by code_simp
  have b: "\<not> ac_closedByUser ?c" by code_simp
  show ?thesis using drop_during_logon_fatal [OF a e s b] by (simp only: Let_def)
qed

text \<open>A drop of a socket that a failed client left open revives it: FAILED is not final, as the class says.\<close>

theorem failed_client_revives:
  assumes "ac_state c = RpcFailed" "ac_socket c = Some WsOpen" "\<not> ac_closedByUser c" "ac_authInFlight c = None"
  shows "let c1 = rpc_step opts (now, EvClosed (ac_generation c)) c; c2 = rpc_step opts (later, EvReconnectDue) c1 in
    ac_state c1 = RpcReconnecting \<and> ac_state c2 = RpcConnecting \<and> ac_generation c2 = Suc (ac_generation c)"
proof -
  let ?f = "scheduleReconnect opts (failOpenWaiters ''connection dropped'' (failAllPending '': connection dropped during request''
      (drop_session (c\<lparr>ac_socket := Some WsClosed\<rparr>))))"
  have f: "ac_authInFlight ?f = None" "ac_state ?f = RpcReconnecting" "ac_delays ?f = Suc (ac_delays c)"
      "ac_generation ?f = ac_generation c" "\<not> ac_closedByUser ?f"
    using assms by (simp_all add: scheduleReconnect_def rpc_emit_def drop_session_def)
  have "rpc_step opts (now, EvClosed (ac_generation c)) c = ?f"
    using assms f(1) by (simp add: rpc_step_def current_socket_def on_closed_def auth_continue_def drop_session_def)
  with f show ?thesis by (simp add: Let_def rpc_step_def reconnect_due_def openSocket_def rpc_emit_def auth_continue_def)
qed

text \<open>An error as a caller of \<open>request\<close> gets it.\<close>

fun rejection :: "rpc_result \<Rightarrow> sdk_error option" where
  "rejection (RpcResolved v) = None"
| "rejection (RpcThrew e) = Some e"
| "rejection (RpcRefused msg) = Some (OtherError ''Error'' [] None)"
| "rejection (RpcError msg) = Some (OtherError ''Error'' [] None)"

text \<open>The WebSocket API loses the meaning of an error response. An order that the exchange answers with a
  server error is rejected with a plain error, which the retry classifier calls definitive; the same
  status over REST demands reconciliation.\<close>

theorem ws_server_error_definitive:
  assumes "jm_get k (ac_pending c) = Some e" "\<not> pe_logon e" "500 \<le> st" "st < 600" "ae_status a = st"
  shows "let response = JObj [(''id'', JStr k), (''status'', JNum (Fin (of_int st))), (''error'', JObj [(''msg'', JStr msg)])] in
    ac_out (handleMessage (Some response) c) = ac_out c @ [RpcSettled (pe_call e) (RpcRefused msg)] \<and>
    fst (classifyRetrySafety (rejection (RpcRefused msg))) = NeverRetry \<and>
    fst (classifyRetrySafety (Some (ApiError a))) = ReconciliationRequired"
proof -
  have "\<not> (of_int st :: rat) < 400" using assms(3) by linarith
  then have g: "status_ge_400 (JObj [(''id'', JStr k), (''status'', JNum (Fin (of_int st))), (''error'', JObj [(''msg'', JStr msg)])])"
    by (simp add: status_ge_400_def)
  have "fst (classifyApiError a) = ReconciliationRequired" using assms(3-5) by (simp add: classifyApiError_server)
  with assms(1,2) g show ?thesis by (simp add: Let_def handleMessage_def)
qed

text \<open>Two calls with the same id share an answer. The second replaces the first in the table: the answer
  to the first is given to the second, and the answer to the second is dropped as late; the first
  ends by its timer, which forgets nothing it should not here, as an unknown outcome.\<close>

theorem reused_id_crosses:
  "let order = (\<lambda>sy. CallRequest ''u'' ''order.place'' [(''id'', JStr ''x''), (''symbol'', JStr sy)] False);
      c = rpc_run wit_rpc [(0, order ''BTCUSDT''), (1, EvOpen 1 ''u''), (2, order ''ETHUSDT''),
        (3, EvMessage 1 (Some (ok_answer (JStr ''btc'')))),
        (4, EvMessage 1 (Some (ok_answer (JStr ''eth''))))] (new_WsApiClient None) in
    filter (\<lambda>x. settled_call x \<noteq> []) (ac_out c) = [RpcSettled 1 (RpcResolved (ok_answer (JStr ''btc'')))] \<and>
    jm_keys (ac_timers c) = [0]"
  by code_simp

end
