(* ===== verification/JS_Float.thy ===== *)
theory JS_Float
  imports JS_Number
begin

text \<open>
  The rest of JavaScript's arithmetic (division, minimum and maximum, comparison), and the facts about
  rounding that programs rely on: the exponent of a number brackets it, a rounded number is its own
  rounding, adding zero changes nothing, and a positive double never rounds to zero. A value is a
  double when rounding leaves it alone (\<open>is_double\<close>).
\<close>

section \<open>Operations\<close>

text \<open>Division; the modelled code never divides by a computed zero, whose sign would matter.\<close>

fun jn_div :: "js_number \<Rightarrow> js_number \<Rightarrow> js_number" where
  "jn_div NaN y = NaN"
| "jn_div x NaN = NaN"
| "jn_div (Fin x) (Fin y) = (if y = 0 then (if x = 0 then NaN else jn_inf (0 < x)) else js_round (x / y))"
| "jn_div (Fin x) _ = Fin 0"
| "jn_div PosInf (Fin y) = jn_inf (0 \<le> y)"
| "jn_div NegInf (Fin y) = jn_inf (y < 0)"
| "jn_div _ _ = NaN"

definition jn_min :: "js_number \<Rightarrow> js_number \<Rightarrow> js_number" where
  "jn_min x y = (if x = NaN \<or> y = NaN then NaN else if jn_less y x then y else x)"

definition jn_max :: "js_number \<Rightarrow> js_number \<Rightarrow> js_number" where
  "jn_max x y = (if x = NaN \<or> y = NaN then NaN else if jn_less x y then y else x)"

text \<open>\<open>a <= b\<close>, false when one of them is not a number.\<close>

definition jn_le :: "js_number \<Rightarrow> js_number \<Rightarrow> bool" where
  "jn_le x y \<longleftrightarrow> x \<noteq> NaN \<and> y \<noteq> NaN \<and> \<not> jn_less y x"

definition jn_cmp :: "js_number \<Rightarrow> js_number \<Rightarrow> int" where
  "jn_cmp x y = (if jn_less x y then - 1 else if jn_less y x then 1 else 0)"

text \<open>A decimal literal of the source is the double nearest to it.\<close>

definition js_lit :: "rat \<Rightarrow> js_number" where
  "js_lit x = js_round x"

section \<open>Powers and logarithms\<close>

lemma rpow_powi: "rpow b e = of_nat b powi e"
  by (simp add: rpow_def power_int_def inverse_eq_divide power_one_over)

lemma rpow_pos [simp]: "0 < b \<Longrightarrow> 0 < rpow b e"
  by (simp add: rpow_def)

lemma rpow_add: "0 < b \<Longrightarrow> rpow b (e + f) = rpow b e * rpow b f"
  by (simp add: rpow_powi power_int_add)

lemma rpow_mono: "1 < b \<Longrightarrow> e \<le> f \<Longrightarrow> rpow b e \<le> rpow b f"
  by (simp add: rpow_powi power_int_increasing)

lemma rpow_less_imp: "1 < b \<Longrightarrow> rpow b e < rpow b f \<Longrightarrow> e < f"
  using rpow_mono [of b f e] by linarith

lemma rpow_le_imp: "1 < b \<Longrightarrow> rpow b e \<le> rpow b f \<Longrightarrow> e \<le> f"
  using power_int_strict_increasing [of f e "of_nat b :: rat"] by (simp add: rpow_powi) (meson linorder_not_less)

lemma rpow_nat: "rpow b (int n) = of_nat b ^ n"
  by (simp add: rpow_def)

lemma ilog_bounds: "1 < b \<Longrightarrow> 0 < n \<Longrightarrow> b ^ ilog b n \<le> n \<and> n < b ^ Suc (ilog b n)"
proof (induction b n rule: ilog.induct)
  case (1 b n)
  show ?case
  proof (cases "n < b")
    case True
    with 1 show ?thesis by (simp add: ilog.simps)
  next
    case False
    then have d: "0 < n div b" using 1(2) by (simp add: div_greater_zero_iff)
    have i: "ilog b n = Suc (ilog b (n div b))" using False 1(2) by (simp add: ilog.simps [of b n])
    have IH: "b ^ ilog b (n div b) \<le> n div b" "n div b < b ^ Suc (ilog b (n div b))" using 1 False d by simp_all
    have "b ^ Suc (ilog b (n div b)) \<le> b * (n div b)" using IH(1) by simp
    also have "\<dots> \<le> n" by simp
    finally have l: "b ^ ilog b n \<le> n" by (simp add: i)
    have "n < b * Suc (n div b)" using dividend_less_times_div [of b n] 1(2) by simp
    also have "\<dots> \<le> b * b ^ Suc (ilog b (n div b))" using IH(2) by (intro mult_le_mono2) simp
    finally show ?thesis using l by (simp add: i)
  qed
qed

text \<open>The exponent of a positive number brackets it.\<close>

lemma rlog_bounds:
  assumes "1 < b" "0 < x"
  shows "rpow b (rlog b x) \<le> x" "x < rpow b (rlog b x + 1)"
proof -
  obtain p q where pq: "quotient_of x = (p, q)" by fastforce
  have q: "0 < q" and x: "x = of_int p / of_int q" using quotient_of_denom_pos [OF pq] quotient_of_div [OF pq] by simp_all
  then have p: "0 < p" using assms(2) by (simp add: zero_less_divide_iff)
  let ?P = "ilog b (nat p)" and ?Q = "ilog b (nat q)" let ?e = "int ?P - int ?Q"
  have bp: "b ^ ?P \<le> nat p" "nat p < b ^ Suc ?P" and bq: "b ^ ?Q \<le> nat q" "nat q < b ^ Suc ?Q"
    using ilog_bounds [of b] assms(1) p q by simp_all
  have cast: "of_nat (nat p) = (of_int p :: rat)" "of_nat (nat q) = (of_int q :: rat)" using p q by simp_all
  have P: "of_nat b ^ ?P \<le> (of_int p :: rat)" "(of_int p :: rat) < of_nat b ^ Suc ?P"
    and Q: "of_nat b ^ ?Q \<le> (of_int q :: rat)" "(of_int q :: rat) < of_nat b ^ Suc ?Q"
    using bp bq cast by (metis of_nat_le_iff of_nat_less_iff of_nat_power)+
  have pos: "0 < (of_int q :: rat)" "0 < (of_nat b :: rat)" using q assms(1) by simp_all
  have lo: "rpow b (?e - 1) \<le> x"
  proof -
    have "rpow b (?e - 1) * rpow b (int (Suc ?Q)) = rpow b (int ?P)" using assms(1) by (simp flip: rpow_add)
    then have "rpow b (?e - 1) * of_nat b ^ Suc ?Q = of_nat b ^ ?P" by (simp only: rpow_nat)
    moreover have "rpow b (?e - 1) * of_int q \<le> rpow b (?e - 1) * of_nat b ^ Suc ?Q"
      using Q(2) assms(1) by (intro mult_left_mono) (simp_all add: less_imp_le)
    ultimately have "rpow b (?e - 1) * of_int q \<le> of_int p" using P(1) by linarith
    then show ?thesis using pos by (simp add: x pos_le_divide_eq)
  qed
  have up: "x < rpow b (?e + 1)"
  proof -
    have "rpow b (?e + 1) * rpow b (int ?Q) = rpow b (int (Suc ?P))" using assms(1) by (simp add: add.commute flip: rpow_add)
    then have "rpow b (?e + 1) * of_nat b ^ ?Q = of_nat b ^ Suc ?P" by (simp only: rpow_nat)
    moreover have "rpow b (?e + 1) * of_nat b ^ ?Q \<le> rpow b (?e + 1) * of_int q"
      using Q(1) assms(1) by (intro mult_left_mono) (simp_all add: less_imp_le)
    ultimately have "of_int p < rpow b (?e + 1) * of_int q" using P(2) by linarith
    then show ?thesis using pos by (simp add: x pos_divide_less_eq)
  qed
  have r: "rlog b x = (if rpow b ?e \<le> x then ?e else ?e - 1)" by (simp add: rlog_def pq Let_def)
  show "rpow b (rlog b x) \<le> x" using lo by (simp add: r)
  show "x < rpow b (rlog b x + 1)" using up by (simp add: r not_le)
qed

text \<open>Powers are computed on integers, and the overflow of a double is read off its exponent.\<close>

lemma rpow_code [code]: "rpow b e = (if 0 \<le> e then of_int (int b ^ nat e) else 1 / of_int (int b ^ nat (- e)))"
  by (simp add: rpow_def)

lemma js_round_code [code]:
  "js_round x = (if x = 0 then Fin 0
     else let u = rpow 2 (max (rlog 2 \<bar>x\<bar> - 52) (- 1074)); r = of_int (rne (x / u)) * u
          in if r \<noteq> 0 \<and> 1024 \<le> rlog 2 \<bar>r\<bar> then (if 0 < r then PosInf else NegInf) else Fin r)"
proof -
  have "2 ^ 1024 \<le> \<bar>r\<bar> \<longleftrightarrow> r \<noteq> 0 \<and> 1024 \<le> rlog 2 \<bar>r\<bar>" for r
  proof (cases "r = 0")
    case False
    have two: "rpow 2 1024 = 2 ^ 1024" by (simp add: rpow_def)
    show ?thesis
    proof
      assume "2 ^ 1024 \<le> \<bar>r\<bar>"
      then have "rpow 2 1024 < rpow 2 (rlog 2 \<bar>r\<bar> + 1)" using rlog_bounds(2) [of 2 "\<bar>r\<bar>"] False unfolding two by simp
      then have "1024 < rlog 2 \<bar>r\<bar> + 1" by (rule rpow_less_imp [rotated]) simp
      with False show "r \<noteq> 0 \<and> 1024 \<le> rlog 2 \<bar>r\<bar>" by simp
    next
      assume "r \<noteq> 0 \<and> 1024 \<le> rlog 2 \<bar>r\<bar>"
      then have "rpow 2 1024 \<le> rpow 2 (rlog 2 \<bar>r\<bar>)" by (intro rpow_mono) simp_all
      also have "\<dots> \<le> \<bar>r\<bar>" using rlog_bounds(1) [of 2 "\<bar>r\<bar>"] False by simp
      finally show "2 ^ 1024 \<le> \<bar>r\<bar>" unfolding two .
    qed
  qed simp
  then show ?thesis by (simp only: js_round_def Let_def)
qed

section \<open>Rounding\<close>

definition ulp :: "rat \<Rightarrow> rat" where
  "ulp x = rpow 2 (max (rlog 2 \<bar>x\<bar> - 52) (- 1074))"

lemma ulp_pos [simp]: "0 < ulp x"
  by (simp add: ulp_def)

lemma js_round_alt: "x \<noteq> 0 \<Longrightarrow> js_round x =
  (let r = of_int (rne (x / ulp x)) * ulp x in if \<bar>r\<bar> \<ge> 2 ^ 1024 then (if 0 < r then PosInf else NegInf) else Fin r)"
  by (simp add: js_round_def ulp_def Let_def)

lemma js_round_0 [simp]: "js_round 0 = Fin 0"
  by (simp add: js_round_def)

lemma rne_int [simp]: "rne (of_int k) = k"
  by (simp add: rne_def)

lemma rne_near: "\<bar>of_int (rne y) - y\<bar> \<le> 1 / 2"
proof -
  let ?f = "\<lfloor>y\<rfloor>"
  have "of_int ?f \<le> y" "y < of_int ?f + 1" by linarith+
  then show ?thesis by (auto simp: rne_def Let_def abs_le_iff)
qed

lemma rne_ge: "of_int k \<le> y \<Longrightarrow> k \<le> rne y"
proof -
  assume "of_int k \<le> y"
  then have "k \<le> \<lfloor>y\<rfloor>" by (simp add: le_floor_iff)
  then show ?thesis by (simp add: rne_def Let_def)
qed

lemma rne_le: "y \<le> of_int k \<Longrightarrow> rne y \<le> k"
proof -
  assume y: "y \<le> of_int k"
  have f: "\<lfloor>y\<rfloor> \<le> k" using y by linarith
  show ?thesis
  proof (cases "\<lfloor>y\<rfloor> = k")
    case True
    then have "y = of_int k" using y by linarith
    then show ?thesis by simp
  next
    case False
    with f show ?thesis by (simp add: rne_def Let_def)
  qed
qed

text \<open>A positive double or anything at least as large never rounds to zero.\<close>

lemma js_round_positive:
  assumes "rpow 2 (- 1074) \<le> x"
  shows "jn_less (Fin 0) (js_round x)"
proof -
  have "0 < rpow 2 (- 1074)" by (rule rpow_pos) simp
  then have x: "0 < x" using assms by (rule less_le_trans)
  have "ulp x \<le> x"
  proof (cases "rlog 2 \<bar>x\<bar> - 52 \<ge> - 1074")
    case True
    then have "ulp x \<le> rpow 2 (rlog 2 x)" using x by (simp add: ulp_def max_def rpow_mono)
    with rlog_bounds(1) [of 2 x] x show ?thesis by simp
  next
    case False
    with assms show ?thesis by (simp add: ulp_def max_def)
  qed
  then have "1 \<le> x / ulp x" by (simp add: le_divide_eq)
  then have "1 \<le> rne (x / ulp x)" by (intro rne_ge) simp
  then have "0 < of_int (rne (x / ulp x)) * ulp x" by simp
  with x show ?thesis by (simp add: js_round_alt Let_def)
qed

text \<open>A rounded number is its own rounding.\<close>

lemma js_round_grid:
  assumes r: "r = of_int k * rpow 2 j" "r \<noteq> 0" "- 1074 \<le> j" "\<bar>k\<bar> \<le> 2 ^ 53" "\<bar>r\<bar> < 2 ^ 1024"
  shows "js_round r = Fin r"
proof -
  let ?e = "rlog 2 \<bar>r\<bar>"
  have a: "0 < \<bar>r\<bar>" using r(2) by simp
  have rp: "\<bar>rpow 2 j\<bar> = rpow 2 j" by (rule abs_of_pos) (simp add: rpow_pos)
  have "\<bar>r\<bar> \<le> 2 ^ 53 * rpow 2 j"
  proof -
    have "\<bar>r\<bar> = of_int \<bar>k\<bar> * rpow 2 j" by (simp add: r(1) abs_mult rp)
    moreover have "(of_int \<bar>k\<bar> :: rat) \<le> 2 ^ 53" using r(4) by (metis of_int_le_iff of_int_numeral of_int_power)
    ultimately show ?thesis by (simp add: mult_right_mono less_imp_le)
  qed
  also have "\<dots> = rpow 2 (53 + j)" by (simp add: rpow_add) (simp add: rpow_def)
  finally have up: "\<bar>r\<bar> \<le> rpow 2 (53 + j)" .
  have "\<exists>m. r = of_int m * ulp r"
  proof (cases "max (?e - 52) (- 1074) \<le> j")
    case True
    let ?d = "nat (j - max (?e - 52) (- 1074))"
    have "rpow 2 j = rpow 2 (int ?d) * ulp r" using True unfolding ulp_def by (simp flip: rpow_add)
    then have p: "rpow 2 j = 2 ^ ?d * ulp r" unfolding rpow_nat by simp
    have "r = of_int k * rpow 2 j" by (rule r(1))
    also have "\<dots> = of_int k * (2 ^ ?d * ulp r)" by (rule arg_cong [OF p])
    also have "\<dots> = of_int (k * 2 ^ ?d) * ulp r" by simp
    finally show ?thesis by blast
  next
    case False
    then have j: "j < ?e - 52" using r(3) by simp
    have "rpow 2 ?e \<le> rpow 2 (53 + j)" using rlog_bounds(1) [of 2 "\<bar>r\<bar>"] a up by simp
    then have "?e \<le> 53 + j" by (intro rpow_le_imp [of 2]) simp_all
    with j have e: "?e = 53 + j" by simp
    then have eq: "\<bar>r\<bar> = rpow 2 ?e" using rlog_bounds(1) [of 2 "\<bar>r\<bar>"] a up by simp
    have "ulp r = rpow 2 (?e - 52)" using j r(3) by (simp add: ulp_def max_def)
    moreover have "rpow 2 ?e = rpow 2 (int 52) * rpow 2 (?e - 52)" by (simp flip: rpow_add)
    moreover have "rpow 2 (int 52) = 2 ^ 52" by (simp add: rpow_def)
    ultimately have "\<bar>r\<bar> = of_int (2 ^ 52) * ulp r" using eq by simp
    then show ?thesis
    proof (cases "0 < r")
      case True
      with \<open>\<bar>r\<bar> = of_int (2 ^ 52) * ulp r\<close> have "r = of_int (2 ^ 52) * ulp r" by simp
      then show ?thesis by blast
    next
      case False
      with \<open>\<bar>r\<bar> = of_int (2 ^ 52) * ulp r\<close> have "r = of_int (- (2 ^ 52)) * ulp r" by simp
      then show ?thesis by blast
    qed
  qed
  then obtain m where m: "r = of_int m * ulp r" by blast
  then have "r / ulp r = of_int m" by (metis nonzero_eq_divide_eq ulp_pos less_irrefl)
  then show ?thesis using r(2,5) m by (simp add: js_round_alt Let_def)
qed

definition is_double :: "js_number \<Rightarrow> bool" where
  "is_double n \<longleftrightarrow> (\<forall>x. n = Fin x \<longrightarrow> js_round x = Fin x)"

lemma js_round_idem: "js_round x = Fin r \<Longrightarrow> js_round r = Fin r"
proof -
  assume fin: "js_round x = Fin r"
  show ?thesis
  proof (cases "x = 0 \<or> r = 0")
    case True
    with fin show ?thesis by auto
  next
    case False
    then have x: "x \<noteq> 0" "r \<noteq> 0" by simp_all
    let ?j = "max (rlog 2 \<bar>x\<bar> - 52) (- 1074)" and ?k = "rne (x / ulp x)"
    have r: "r = of_int ?k * rpow 2 ?j" and b: "\<bar>r\<bar> < 2 ^ 1024"
      using fin x(1) by (auto simp: js_round_alt Let_def ulp_def split: if_splits)
    have up: "\<bar>x\<bar> < rpow 2 (rlog 2 \<bar>x\<bar> + 1)" using rlog_bounds(2) [of 2 "\<bar>x\<bar>"] x(1) by simp
    have "rpow 2 (rlog 2 \<bar>x\<bar> + 1) \<le> rpow 2 (53 + ?j)" by (rule rpow_mono) simp_all
    also have "\<dots> = 2 ^ 53 * ulp x" unfolding ulp_def by (simp add: rpow_add) (simp add: rpow_def)
    finally have "\<bar>x\<bar> \<le> 2 ^ 53 * ulp x" using up by simp
    then have "x \<le> 2 ^ 53 * ulp x" "- (2 ^ 53) * ulp x \<le> x" by (simp_all add: abs_le_iff)
    then have "x / ulp x \<le> of_int (2 ^ 53)" "of_int (- (2 ^ 53)) \<le> x / ulp x"
      by (simp_all add: pos_divide_le_eq pos_le_divide_eq)
    then have "?k \<le> 2 ^ 53" "- (2 ^ 53) \<le> ?k" by (intro rne_le rne_ge, simp_all)+
    then have "\<bar>?k\<bar> \<le> 2 ^ 53" by simp
    show ?thesis by (rule js_round_grid [OF r x(2) max.cobounded2 \<open>\<bar>?k\<bar> \<le> 2 ^ 53\<close> b])
  qed
qed

lemma is_double_round [simp]: "is_double (js_round x)"
  by (auto simp: is_double_def js_round_idem)

lemma is_double_simps [simp]: "is_double NaN" "is_double PosInf" "is_double NegInf" "is_double (Fin 0)"
  by (simp_all add: is_double_def)

lemma rne_minus: "rne (- y) = - rne y"
proof (cases "of_int \<lfloor>y\<rfloor> = y")
  case True
  then show ?thesis by (metis of_int_minus rne_int)
next
  case False
  then have f: "\<lfloor>- y\<rfloor> = - \<lfloor>y\<rfloor> - 1" by linarith
  then show ?thesis by (auto simp: rne_def Let_def)
qed

lemma js_round_minus: "js_round (- x) = jn_neg (js_round x)"
  by (auto simp: js_round_def Let_def rne_minus)

lemma is_double_neg [simp]: "is_double (jn_neg n) = is_double n"
proof -
  have "jn_neg m = Fin (- x) \<longleftrightarrow> m = Fin x" for m x by (cases m) auto
  then show ?thesis by (cases n) (simp_all add: is_double_def js_round_minus)
qed

lemma is_double_ops [simp]:
  "is_double (jn_add x y)" "is_double (jn_sub x y)" "is_double (jn_mul x y)" "is_double (jn_div x y)"
  "is_double x \<Longrightarrow> is_double y \<Longrightarrow> is_double (jn_min x y)"
  "is_double x \<Longrightarrow> is_double y \<Longrightarrow> is_double (jn_max x y)"
  "is_double (js_lit q)"
proof -
  have a: "is_double (jn_add u v)" for u v
    by (cases "(u, v)" rule: jn_add.cases) simp_all
  show "is_double (jn_add x y)" "is_double (jn_sub x y)" by (simp_all add: a jn_sub_def)
  show "is_double (jn_mul x y)" by (cases "(x, y)" rule: jn_mul.cases) (simp_all add: jn_inf_def)
  show "is_double (jn_div x y)" by (cases "(x, y)" rule: jn_div.cases) (simp_all add: jn_inf_def)
  show "is_double x \<Longrightarrow> is_double y \<Longrightarrow> is_double (jn_min x y)" by (simp add: jn_min_def)
  show "is_double x \<Longrightarrow> is_double y \<Longrightarrow> is_double (jn_max x y)" by (simp add: jn_max_def)
  show "is_double (js_lit q)" by (simp add: js_lit_def)
qed

lemma not_le_zero: "\<not> jn_le x (Fin 0) \<longleftrightarrow> x = NaN \<or> jn_less (Fin 0) x"
  by (auto simp: jn_le_def)

lemma add_zero: "is_double x \<Longrightarrow> jn_add x (Fin 0) = x"
  by (cases x) (simp_all add: is_double_def)

text \<open>Positive doubles are at least the smallest one, so their sum is positive.\<close>

lemma positive_double:
  assumes "is_double (Fin x)" "0 < x"
  shows "rpow 2 (- 1074) \<le> x"
proof -
  have "x = of_int (rne (x / ulp x)) * ulp x"
    using assms by (auto simp: is_double_def js_round_alt Let_def split: if_splits)
  then have "0 < of_int (rne (x / ulp x)) * ulp x" using assms(2) by metis
  then have "1 \<le> rne (x / ulp x)" by (simp add: zero_less_mult_iff less_not_sym [OF ulp_pos])
  then have "ulp x \<le> of_int (rne (x / ulp x)) * ulp x" by simp
  then have "ulp x \<le> x" using \<open>x = of_int (rne (x / ulp x)) * ulp x\<close> by metis
  moreover have "rpow 2 (- 1074) \<le> ulp x" unfolding ulp_def by (rule rpow_mono) simp_all
  ultimately show ?thesis by (rule order_trans [rotated])
qed

lemma add_positive:
  assumes "jn_less (Fin 0) x" "jn_less (Fin 0) y" "is_double y"
  shows "jn_less (Fin 0) (jn_add x y)"
proof (cases x; cases y)
  fix a b assume xy: "x = Fin a" "y = Fin b"
  then have "rpow 2 (- 1074) \<le> b" using assms(2,3) by (intro positive_double) simp_all
  then have "rpow 2 (- 1074) \<le> a + b" using assms(1) xy by simp
  with xy show ?thesis by (simp add: js_round_positive)
qed (use assms in auto)

end
