(* ===== verification/JS_Math.thy ===== *)
theory JS_Math
  imports JS_Value JS_Float Decimal_Arith
begin

text \<open>
  \<open>Math.abs\<close>, \<open>floor\<close>, \<open>ceil\<close> and \<open>round\<close>, and \<open>toFixed\<close>, on the numbers of \<open>JS_Number\<close>. A finite double
  is a rational, so the results are exact; \<open>toFixed\<close> is used with at most 64 digits and does not
  throw. Lemmas: what \<open>toFixed\<close> prints reads back as, and how far rounding moves a
  number.
\<close>

section \<open>Functions\<close>

definition jn_abs :: "js_number \<Rightarrow> js_number" where
  "jn_abs n = (case n of Fin x \<Rightarrow> Fin \<bar>x\<bar> | NegInf \<Rightarrow> PosInf | m \<Rightarrow> m)"

definition jn_floor :: "js_number \<Rightarrow> js_number" where
  "jn_floor n = (case n of Fin x \<Rightarrow> Fin (of_int \<lfloor>x\<rfloor>) | m \<Rightarrow> m)"

definition jn_ceil :: "js_number \<Rightarrow> js_number" where
  "jn_ceil n = (case n of Fin x \<Rightarrow> Fin (of_int \<lceil>x\<rceil>) | m \<Rightarrow> m)"

definition jn_round :: "js_number \<Rightarrow> js_number" where
  "jn_round n = (case n of Fin x \<Rightarrow> Fin (of_int \<lfloor>x + 1 / 2\<rfloor>) | m \<Rightarrow> m)"

text \<open>The digits of \<open>n / 10 ^ d\<close>, and \<open>x.toFixed(d)\<close>: the nearest multiple, the larger one on a tie.\<close>

definition fixed_parts :: "nat \<Rightarrow> nat \<Rightarrow> string \<times> string" where
  "fixed_parts d n = (let ds = pad_start (nat_digits n) (Suc d) (CHR ''0'') in (take (length ds - d) ds, drop (length ds - d) ds))"

definition fixed_digits :: "nat \<Rightarrow> nat \<Rightarrow> string" where
  "fixed_digits d n = (case fixed_parts d n of (i, f) \<Rightarrow> if d = 0 then i else i @ CHR ''.'' # f)"

definition fixed_units :: "nat \<Rightarrow> rat \<Rightarrow> nat" where
  "fixed_units d x = nat \<lfloor>\<bar>x\<bar> * 10 ^ d + 1 / 2\<rfloor>"

fun js_fixed :: "nat \<Rightarrow> js_number \<Rightarrow> string" where
  "js_fixed d (Fin x) =
     (if \<bar>x\<bar> \<ge> 10 ^ 21 then js_num_str (Fin x)
      else (if x < 0 then ''-'' else []) @ fixed_digits d (fixed_units d x))"
| "js_fixed d n = js_num_str n"

section \<open>What is printed reads back\<close>

lemma fixed_parts_digits:
  assumes "fixed_parts d n = (i, f)"
  shows "i \<noteq> []" "list_all is_digit i" "list_all is_digit f" "length f = d" "digits_val (i @ f) = n"
proof -
  let ?ds = "pad_start (nat_digits n) (Suc d) (CHR ''0'')"
  have l: "Suc d \<le> length ?ds" by (simp add: pad_start_def)
  have p: "i = take (length ?ds - d) ?ds" "f = drop (length ?ds - d) ?ds"
    using assms by (auto simp: fixed_parts_def Let_def)
  have all: "list_all is_digit ?ds" by (simp add: pad_start_def list_all_zeros)
  then have "list_all is_digit (i @ f)" unfolding p by simp
  then show "list_all is_digit i" "list_all is_digit f" by simp_all
  from l show "i \<noteq> []" "length f = d" unfolding p by auto
  have "i @ f = ?ds" unfolding p by (rule append_take_drop_id)
  then show "digits_val (i @ f) = n" by (simp add: pad_start_def digits_val_append)
qed

lemma fixed_digits_literal:
  assumes "fixed_parts d n = (i, f)"
  shows "(if neg then ''-'' else []) @ fixed_digits d n = literal neg i f 0"
  using fixed_parts_digits [OF assms] assms by (auto simp: fixed_digits_def literal_def)

lemma str_radix_digits:
  assumes "list_all (\<lambda>c. is_digit c \<or> c = CHR ''.'' \<or> c = CHR ''-'') s"
  shows "str_radix s = None"
proof (cases "length s \<le> 2")
  case False
  then have "s ! 1 \<in> set s" by simp
  then have c: "is_digit (s ! 1) \<or> s ! 1 = CHR ''.'' \<or> s ! 1 = CHR ''-''" using assms by (auto simp: list_all_iff)
  then have low: "to_lower [s ! 1] = [s ! 1]" by (auto simp: to_lower_def lower_char_def is_digit_def)
  have "s ! 1 \<noteq> CHR ''x''" "s ! 1 \<noteq> CHR ''o''" "s ! 1 \<noteq> CHR ''b''" using c by (auto simp: is_digit_def)
  then have "(case [s ! 1] of ''x'' \<Rightarrow> radix_val 16 (drop 2 s) 0 | ''o'' \<Rightarrow> radix_val 8 (drop 2 s) 0
      | ''b'' \<Rightarrow> radix_val 2 (drop 2 s) 0 | _ \<Rightarrow> None) = None"
    by (cases "s ! 1") (auto split: bool.split)
  then show ?thesis unfolding str_radix_def low by simp
qed (simp add: str_radix_def)

lemma literal_number:
  assumes "i \<noteq> []" "list_all is_digit i" "list_all is_digit f"
  shows "string_to_number (literal neg i f 0) =
    js_round ((if neg then - 1 else 1) * (of_nat (digits_val (i @ f)) / 10 ^ length f))"
proof -
  let ?u = "i @ (if f = [] then [] else CHR ''.'' # f)"
  have l: "literal neg i f 0 = (if neg then ''-'' else []) @ ?u" by (simp add: literal_def)
  have radix: "str_radix (literal neg i f 0) = None"
    by (rule str_radix_digits) (use assms in \<open>auto simp: l list_all_iff\<close>)
  have strip: "(if neg \<or> starts_with (literal neg i f 0) ''+'' then tl (literal neg i f 0)
      else literal neg i f 0) = ?u"
    using assms(1,2) unfolding l by (cases i) (auto dest: digit_facts)
  have inf: "?u \<noteq> ''Infinity''" using assms(1,2) by (cases i) (auto simp: is_digit_def)
  have un: "str_unsigned ?u = Some (of_nat (digits_val (i @ f)) / 10 ^ length f)"
    using assms
    by (auto simp: str_unsigned_def str_exponent_def takeWhile_digits dropWhile_digits takeWhile_digits_id dropWhile_digits_id
        digit_e_not rpow_def power_int_minus divide_inverse Let_def)
  have ne: "literal neg i f 0 \<noteq> []" using assms(1) by (simp add: l)
  show ?thesis
    unfolding string_to_number_def Let_def literal_trim [OF assms(2,3)] strip un radix literal_negative [OF assms(1,2)]
    using ne inf by simp
qed

lemma fixed_reads_back:
  assumes "\<bar>x\<bar> < 10 ^ 21"
  shows "string_to_number (js_fixed d (Fin x)) = js_round ((if x < 0 then - 1 else 1) * (of_nat (fixed_units d x) / 10 ^ d))"
proof -
  obtain i f where p: "fixed_parts d (fixed_units d x) = (i, f)" by (cases "fixed_parts d (fixed_units d x)")
  note facts = fixed_parts_digits [OF p]
  have "js_fixed d (Fin x) = literal (x < 0) i f 0"
    using assms fixed_digits_literal [OF p, of "x < 0"] by simp
  then show ?thesis using literal_number [OF facts(1-3), of "x < 0"] facts(4,5) by simp
qed

section \<open>How far rounding moves a number\<close>

lemma rpow_neg: "rpow 2 (- int k) = 1 / 2 ^ k"
  by (simp add: rpow_def power_int_minus divide_inverse)

lemma ulp_near: "\<bar>of_int (rne (x / ulp x)) * ulp x - x\<bar> \<le> ulp x / 2"
proof -
  have u: "ulp x \<noteq> 0" using ulp_pos [of x] by (metis less_irrefl)
  have "of_int (rne (x / ulp x)) * ulp x - x = (of_int (rne (x / ulp x)) - x / ulp x) * ulp x"
    using u by (simp add: left_diff_distrib)
  then have "\<bar>of_int (rne (x / ulp x)) * ulp x - x\<bar> = \<bar>of_int (rne (x / ulp x)) - x / ulp x\<bar> * ulp x"
    by (simp add: abs_mult abs_of_pos [OF ulp_pos])
  also have "\<dots> \<le> 1 / 2 * ulp x" by (rule mult_right_mono [OF rne_near]) (rule less_imp_le [OF ulp_pos])
  finally show ?thesis by simp
qed

lemma js_round_error:
  assumes "js_round x = Fin r" "rpow 2 (- 1022) \<le> \<bar>x\<bar>"
  shows "\<bar>r - x\<bar> \<le> \<bar>x\<bar> / 2 ^ 53"
proof -
  have lo: "0 < rpow 2 (- 1022)" by (rule rpow_pos) simp
  from less_le_trans [OF this assms(2)] have x: "x \<noteq> 0" "0 < \<bar>x\<bar>" by simp_all
  note b = rlog_bounds [of 2 "\<bar>x\<bar>", OF _ x(2)]
  have "rpow 2 (- 1022) < rpow 2 (rlog 2 \<bar>x\<bar> + 1)" using assms(2) b(2) by simp
  then have "- 1022 < rlog 2 \<bar>x\<bar> + 1" by (rule rpow_less_imp [rotated]) simp
  then have u: "ulp x = rpow 2 (rlog 2 \<bar>x\<bar> - 52)" by (simp add: ulp_def)
  have "rpow 2 (rlog 2 \<bar>x\<bar> - 52) * rpow 2 52 = rpow 2 (rlog 2 \<bar>x\<bar>)" by (simp flip: rpow_add)
  then have "ulp x * 2 ^ 52 = rpow 2 (rlog 2 \<bar>x\<bar>)" using rpow_nat [of 2 52] by (simp add: u)
  then have ub: "ulp x \<le> \<bar>x\<bar> / 2 ^ 52" using b(1) by (simp add: pos_le_divide_eq)
  have r: "r = of_int (rne (x / ulp x)) * ulp x"
    using assms(1) x by (auto simp: js_round_alt Let_def split: if_splits)
  have "\<bar>r - x\<bar> \<le> ulp x / 2" unfolding r by (rule ulp_near)
  also have "\<dots> \<le> \<bar>x\<bar> / 2 ^ 53" using ub by simp
  finally show ?thesis .
qed

lemma js_round_finite:
  assumes "\<bar>x\<bar> \<le> 2 ^ 1000"
  shows "\<exists>r. js_round x = Fin r"
proof (cases "x = 0")
  case False
  let ?r = "of_int (rne (x / ulp x)) * ulp x"
  have "ulp x \<le> 2 ^ 1001"
  proof -
    have b: "rpow 2 (rlog 2 \<bar>x\<bar>) \<le> \<bar>x\<bar>" using rlog_bounds(1) [of 2 "\<bar>x\<bar>"] False by simp
    have "rpow 2 (rlog 2 \<bar>x\<bar>) < rpow 2 1001"
    proof -
      have "rpow 2 1001 = 2 ^ 1001" using rpow_nat [of 2 1001] by simp
      moreover have "(2 :: rat) ^ 1000 < 2 ^ 1001" by (rule power_strict_increasing) simp_all
      ultimately show ?thesis using b assms by linarith
    qed
    then have "rlog 2 \<bar>x\<bar> < 1001" by (rule rpow_less_imp [rotated]) simp
    then have "ulp x \<le> rpow 2 1001" unfolding ulp_def by (intro rpow_mono) simp_all
    then show ?thesis using rpow_nat [of 2 1001] by simp
  qed
  then have "\<bar>?r\<bar> \<le> 2 ^ 1000 + 2 ^ 1000"
  proof -
    assume u: "ulp x \<le> 2 ^ 1001"
    have "\<bar>?r\<bar> \<le> \<bar>x\<bar> + \<bar>?r - x\<bar>" by linarith
    also have "\<dots> \<le> 2 ^ 1000 + 2 ^ 1001 / 2" using assms u ulp_near [of x] by linarith
    finally show ?thesis by simp
  qed
  also have "\<dots> < (2 :: rat) ^ 1024"
  proof -
    have "(2 :: rat) ^ 1000 + 2 ^ 1000 = 2 ^ 1001" by simp
    also have "\<dots> < 2 ^ 1024" by (rule power_strict_increasing) simp_all
    finally show ?thesis .
  qed
  finally show ?thesis using False by (simp add: js_round_alt Let_def)
qed simp

text \<open>Without the assumption of a normal number half of the least subnormal is added.\<close>

lemma js_round_error_abs:
  assumes "js_round x = Fin r"
  shows "\<bar>r - x\<bar> \<le> \<bar>x\<bar> / 2 ^ 53 + 1 / 2 ^ 1075"
proof (cases "x = 0")
  case False
  have b: "rpow 2 (rlog 2 \<bar>x\<bar>) \<le> \<bar>x\<bar>" using rlog_bounds(1) [of 2 "\<bar>x\<bar>"] False by simp
  have "rpow 2 (rlog 2 \<bar>x\<bar> - 52) * rpow 2 52 = rpow 2 (rlog 2 \<bar>x\<bar>)" by (simp flip: rpow_add)
  then have "rpow 2 (rlog 2 \<bar>x\<bar> - 52) \<le> \<bar>x\<bar> / 2 ^ 52" using b rpow_nat [of 2 52] by (simp add: pos_le_divide_eq)
  moreover have "rpow 2 (- 1074) = 1 / 2 ^ 1074" using rpow_neg [of 1074] by (simp only: of_nat_numeral)
  ultimately have "ulp x \<le> \<bar>x\<bar> / 2 ^ 52 + 1 / 2 ^ 1074" unfolding ulp_def max_def by auto
  then have "ulp x / 2 \<le> \<bar>x\<bar> / 2 ^ 53 + 1 / 2 ^ 1075" by simp
  moreover have "r = of_int (rne (x / ulp x)) * ulp x"
    using assms False by (auto simp: js_round_alt Let_def split: if_splits)
  ultimately show ?thesis using ulp_near [of x] by linarith
qed (use assms in simp)

lemma js_round_nonneg:
  assumes "js_round x = Fin r" "0 \<le> x"
  shows "0 \<le> r"
proof (cases "x = 0")
  case False
  have "0 \<le> rne (x / ulp x)" by (rule rne_ge) (use assms(2) less_imp_le [OF ulp_pos [of x]] in simp)
  moreover have "r = of_int (rne (x / ulp x)) * ulp x"
    using assms False by (auto simp: js_round_alt Let_def split: if_splits)
  ultimately show ?thesis using less_imp_le [OF ulp_pos [of x]] by simp
qed (use assms in simp)

lemma decimal_normal:
  assumes "1 \<le> n" "d \<le> 100"
  shows "1 / 2 ^ 400 \<le> (of_nat n / 10 ^ d :: rat)"
proof -
  have "(10 :: rat) ^ d \<le> 10 ^ 100" by (rule power_increasing) (use assms(2) in simp_all)
  also have "(10 :: rat) ^ 100 \<le> 16 ^ 100" by (rule power_mono) simp_all
  also have "(16 :: rat) ^ 100 = 2 ^ 400" by (simp flip: power_mult add: power_mult [of 2 4 100])
  finally have "1 / 2 ^ 400 \<le> 1 / (10 ^ d :: rat)"
    by (intro divide_left_mono mult_pos_pos zero_less_power) simp_all
  also have "1 / (10 ^ d :: rat) \<le> of_nat n / 10 ^ d" using assms(1) by (intro divide_right_mono) simp_all
  finally show ?thesis .
qed

lemma js_round_normal:
  assumes "js_round x = Fin r" "1 / 2 ^ 1022 \<le> x"
  shows "\<bar>r - x\<bar> \<le> x / 2 ^ 53"
proof -
  have "rpow 2 (- 1022) = 1 / 2 ^ 1022" using rpow_neg [of 1022] by (simp only: of_nat_numeral)
  moreover have "0 < x" using assms(2) by (rule less_le_trans [rotated]) simp
  ultimately show ?thesis using js_round_error [OF assms(1)] assms(2) by simp
qed

text \<open>A multiple of \<open>1 / 10 ^ d\<close> with fewer than 52 bits is told apart from its neighbours by its double.\<close>

lemma fixed_grid:
  assumes "n < 2 ^ 52" "d \<le> 100" "js_round (of_nat n / 10 ^ d) = Fin y"
  shows "fixed_units d y = n \<and> 0 \<le> y \<and> \<bar>y\<bar> < 10 ^ 21"
proof (cases "n = 0")
  case True
  then show ?thesis using assms(3) by (simp add: fixed_units_def)
next
  case False
  let ?x = "of_nat n / 10 ^ d :: rat" and ?t = "10 ^ d :: rat"
  have t: "0 < ?t" "1 \<le> ?t" by simp_all
  have n: "1 \<le> (of_nat n :: rat)" "(of_nat n :: rat) < 2 ^ 52"
  proof -
    have "of_nat n < (of_nat (2 ^ 52) :: rat)" using assms(1) by (simp only: of_nat_less_iff)
    then show "(of_nat n :: rat) < 2 ^ 52" by simp
  qed (use False in simp)
  have "1 / 2 ^ 400 \<le> ?x" using decimal_normal [of n d] False assms(2) by simp
  moreover have "(1 :: rat) / 2 ^ 1022 \<le> 1 / 2 ^ 400" by simp
  ultimately have err: "\<bar>y - ?x\<bar> \<le> ?x / 2 ^ 53" using js_round_normal [OF assms(3)] by linarith
  have "?x / 2 ^ 53 * ?t = of_nat n / 2 ^ 53" using t by simp
  moreover have "of_nat n / 2 ^ 53 < (1 / 2 :: rat)" using n(2) by simp
  moreover have "\<bar>y * ?t - of_nat n\<bar> = \<bar>y - ?x\<bar> * ?t"
  proof -
    have "y * ?t - of_nat n = (y - ?x) * ?t" using t by (simp add: field_simps)
    then show ?thesis using t by (simp add: abs_mult)
  qed
  ultimately have near: "\<bar>y * ?t - of_nat n\<bar> < 1 / 2"
    using mult_right_mono [OF err, of ?t] t by linarith
  have near': "y * ?t < of_nat n + 1 / 2" "of_nat n - 1 / 2 < y * ?t" using near by linarith+
  then have "0 < y * ?t" using n(1) by linarith
  then have y: "0 < y" using t by (simp add: zero_less_mult_iff)
  have "\<lfloor>y * ?t + 1 / 2\<rfloor> = int n" using near' by (intro floor_unique) simp_all
  then have units: "fixed_units d y = n" using y by (simp add: fixed_units_def)
  have "y \<le> y * ?t" using y t(2) by simp
  then have "y < 2 ^ 52 + 1" using near'(1) n(2) by linarith
  then have "y < 10 ^ 21" by simp
  with units y show ?thesis by simp
qed


text \<open>A whole number of steps, each the double of \<open>m / 10 ^ d\<close>, prints as the exact product.\<close>

lemma grid_product:
  assumes "js_round (of_nat m / 10 ^ d) = Fin t" "d \<le> 100" "k * m < 2 ^ 50"
  shows "\<exists>z. jn_mul (Fin (of_nat k)) (Fin t) = Fin z \<and> fixed_units d z = k * m \<and> 0 \<le> z \<and> \<bar>z\<bar> < 10 ^ 21"
proof (cases "k * m = 0")
  case True
  then have "(of_nat k :: rat) * t = 0" using assms(1) by auto
  then show ?thesis using True by (auto simp: fixed_units_def)
next
  case False
  define s :: rat where "s = of_nat m / 10 ^ d"
  let ?K = "of_nat k :: rat" and ?T = "10 ^ d :: rat"
  have T: "0 < ?T" "1 \<le> ?T" by simp_all
  have K: "1 \<le> ?K" using False by simp
  have s: "1 / 2 ^ 400 \<le> s" unfolding s_def using decimal_normal [of m d] False assms(2) by simp
  moreover have "(1 :: rat) / 2 ^ 1022 \<le> 1 / 2 ^ 400" by simp
  ultimately have te: "\<bar>t - s\<bar> \<le> s / 2 ^ 53" using js_round_normal [OF assms(1) [folded s_def]] by linarith
  have Ks: "?K * s * ?T = of_nat (k * m)" using T by (simp add: s_def)
  have km: "of_nat (k * m) < (2 ^ 50 :: rat)"
  proof -
    have "of_nat (k * m) < (of_nat (2 ^ 50) :: rat)" using assms(3) by (simp only: of_nat_less_iff)
    then show ?thesis by simp
  qed
  have "0 < s" using s by (rule less_le_trans [rotated]) simp
  have Ks_small: "?K * s < 2 ^ 50"
  proof -
    have "?K * s \<le> ?K * s * ?T" using mult_left_mono [OF T(2), of "?K * s"] K \<open>0 < s\<close> by simp
    then show ?thesis using km Ks by linarith
  qed
  have tb: "s / 2 \<le> t" "t \<le> 2 * s" using te \<open>0 < s\<close> unfolding abs_le_iff by simp_all
  have "0 \<le> s / 2" using \<open>0 < s\<close> by simp
  then have "0 \<le> t" using tb(1) by (rule order_trans)
  then have "1 * t \<le> ?K * t" by (rule mult_right_mono [OF K])
  moreover have "?K * t \<le> ?K * (2 * s)" by (rule mult_left_mono [OF tb(2)]) (use K in simp)
  ultimately have Kt: "s / 2 \<le> ?K * t" "?K * t \<le> 2 * (?K * s)" using tb(1) by (simp_all only: mult_1 mult.left_commute)
  have "\<bar>?K * t\<bar> \<le> 2 ^ 1000"
  proof -
    have "\<bar>?K * t\<bar> \<le> 2 * 2 ^ 50" using Kt Ks_small \<open>0 < s\<close> by linarith
    also have "\<dots> \<le> (2 :: rat) ^ 1000" by simp
    finally show ?thesis .
  qed
  then obtain z where z: "js_round (?K * t) = Fin z" using js_round_finite by blast
  have "(1 :: rat) / 2 ^ 1022 \<le> 1 / 2 ^ 400 / 2" by simp
  also have "\<dots> \<le> s / 2" by (rule divide_right_mono [OF s]) simp
  finally have "1 / 2 ^ 1022 \<le> ?K * t" using Kt(1) by (rule order_trans)
  from js_round_normal [OF z this] have ze: "\<bar>z - ?K * t\<bar> \<le> ?K * t / 2 ^ 53" .
  have "\<bar>?K * t - ?K * s\<bar> = ?K * \<bar>t - s\<bar>" by (simp add: abs_mult flip: right_diff_distrib)
  also have "\<dots> \<le> ?K * (s / 2 ^ 53)" by (rule mult_left_mono [OF te]) (use K in simp)
  also have "\<dots> = ?K * s / 2 ^ 53" by simp
  finally have "\<bar>?K * t - ?K * s\<bar> \<le> ?K * s / 9007199254740992" by simp
  moreover have "\<bar>z - ?K * t\<bar> \<le> ?K * t / 9007199254740992" using ze by simp
  ultimately have "\<bar>z - ?K * s\<bar> \<le> 3 * (?K * s / 9007199254740992)" using Kt(2) by linarith
  then have "\<bar>z - ?K * s\<bar> \<le> 3 * (?K * s / 2 ^ 53)" by simp
  then have "\<bar>z - ?K * s\<bar> * ?T \<le> 3 * (?K * s / 2 ^ 53) * ?T" by (rule mult_right_mono) simp
  also have "\<dots> = 3 * of_nat (k * m) / 2 ^ 53" using Ks by (simp add: field_simps)
  also have "\<dots> < 1 / 2" using km by simp
  finally have near: "\<bar>z * ?T - of_nat (k * m)\<bar> < 1 / 2"
    by (simp only: Ks [symmetric] left_diff_distrib [symmetric] abs_mult abs_of_pos [OF T(1)])
  have "1 \<le> k * m" using False by simp
  then have "(1 :: rat) \<le> of_nat (k * m)" by (metis of_nat_1 of_nat_le_iff)
  then have "0 < z * ?T" using near by linarith
  then have z0: "0 < z" using T(1) by (simp add: zero_less_mult_iff)
  have "\<lfloor>z * ?T + 1 / 2\<rfloor> = int (k * m)" using near by (intro floor_unique) linarith+
  then have units: "fixed_units d z = k * m" using z0 by (simp add: fixed_units_def nat_mult_distrib)
  have "z \<le> z * ?T" using z0 T(2) by simp
  then have "z < 2 ^ 50 + 1" using near km by linarith
  then have "z < 10 ^ 21" by simp
  then show ?thesis using z z0 units by auto
qed


text \<open>Dividing by a step, counting whole steps, and rounding to the nearest one.\<close>

lemma step_quotient:
  assumes t: "js_round s = Fin t" and s: "1 / 2 ^ 400 \<le> s" and r: "0 \<le> r" "r \<le> 2 ^ 50 * s"
  shows "\<exists>a. jn_div (Fin r) (Fin t) = Fin a \<and> 0 \<le> a \<and> a \<le> 2 ^ 51 \<and> 0 < t \<and>
    \<bar>a - r / s\<bar> \<le> r / s / 2251799813685248 + 1 / 100000000000000000000"
proof -
  define u h :: rat where "u = 1 / 2 ^ 53" and "h = 1 / 2 ^ 1075"
  have u: "0 < u" "u < 1 / 10 ^ 15" "u = 1 / 9007199254740992" by (simp_all add: u_def)
  have h: "0 < h" "h < 1 / 100000000000000000000" by (simp_all add: h_def)
  have "(1 :: rat) / 2 ^ 1022 \<le> 1 / 2 ^ 400" by simp
  then have te: "\<bar>t - s\<bar> \<le> s * u" using js_round_normal [OF t] s unfolding u_def by simp
  have s0: "0 < s" using s by (rule less_le_trans [rotated]) simp
  have "s * u < s * 1" using s0 u(2) by (intro mult_strict_left_mono) simp_all
  then have t0: "0 < t" using te by linarith
  define R q where "R = r / s" and "q = r / t"
  have R: "0 \<le> R" "R \<le> 2 ^ 50" "r = R * s" using r s0 by (simp_all add: R_def pos_divide_le_eq)
  have q: "0 \<le> q" "q * t = R * s" using R(3) r(1) t0 by (simp_all add: q_def)
  have q_le: "q \<le> R * (1 + 2 * u)"
  proof -
    have "R * s \<le> R * ((1 + 2 * u) * (s * (1 - u)))"
      using u(1,2) R(1) s0 by (intro mult_left_mono) (simp_all add: algebra_simps mult_left_mono)
    also have "\<dots> \<le> R * ((1 + 2 * u) * t)"
    proof -
      have "s * (1 - u) \<le> t" using te by (simp add: abs_le_iff right_diff_distrib)
      then show ?thesis using R(1) u(1) by (intro mult_left_mono) simp_all
    qed
    also have "\<dots> = R * (1 + 2 * u) * t" by (simp only: mult.assoc)
    finally have "q * t \<le> R * (1 + 2 * u) * t" by (simp only: q(2))
    then show ?thesis using t0 by simp
  qed
  have q_ge: "R * (1 - u) \<le> q"
  proof -
    have "R * (1 - u) * t \<le> R * (1 - u) * (s * (1 + u))"
      using te R(1) u(1,2) by (intro mult_left_mono mult_nonneg_nonneg) (simp_all add: abs_le_iff algebra_simps)
    also have "\<dots> = R * s * (1 - u * u)" by (simp add: algebra_simps)
    also have "\<dots> \<le> R * s * 1" using R(1) s0 by (intro mult_left_mono) simp_all
    finally have "R * (1 - u) * t \<le> q * t" by (simp only: q(2) mult_1_right)
    then show ?thesis using t0 by simp
  qed
  have q_small: "q \<le> 2 ^ 50 + 1" using q_le R(1,2) u(3) by simp
  also have "\<dots> \<le> (2 :: rat) ^ 1000" by simp
  finally obtain a where a: "js_round q = Fin a" using js_round_finite [of q] q(1) by auto
  have "\<bar>a - q\<bar> \<le> q * u + h" using js_round_error_abs [OF a] q(1) by (simp add: u_def h_def)
  then have ab: "a \<le> q + q / 9007199254740992 + h" "q \<le> a + q / 9007199254740992 + h"
    unfolding u(3) by (simp_all add: abs_le_iff)
  have qR: "q \<le> R + R / 4503599627370496" "R \<le> q + R / 9007199254740992"
    using q_le q_ge unfolding u(3) by (simp_all add: field_simps)
  have "\<bar>a - R\<bar> \<le> R / 2251799813685248 + 1 / 100000000000000000000"
    using ab qR q(1) R(1) h unfolding abs_le_iff by (simp add: field_simps)
  moreover have "a \<le> 2 ^ 51" using ab(1) q_small h by (simp add: field_simps)
  moreover have "0 \<le> a" by (rule js_round_nonneg [OF a q(1)])
  ultimately show ?thesis using a t0 by (simp add: q_def R_def)
qed

definition whole_steps :: "js_number \<Rightarrow> js_number \<Rightarrow> js_number" where
  "whole_steps x t = jn_floor (jn_add (jn_div x t) (js_lit (1 / 10 ^ 9)))"

lemma nano_double: "\<exists>e. js_lit (1 / 10 ^ 9) = Fin e \<and> 1 / 10 ^ 10 < e \<and> e < 11 / 10 ^ 10"
proof -
  have "\<bar>1 / 10 ^ 9 :: rat\<bar> \<le> 2 ^ 1000" by simp
  then obtain e where e: "js_round (1 / 10 ^ 9) = Fin e" using js_round_finite by blast
  have "\<bar>e - 1 / 10 ^ 9\<bar> \<le> 1 / 10 ^ 9 / 2 ^ 53" by (rule js_round_normal [OF e]) simp
  then show ?thesis using e unfolding js_lit_def abs_le_iff by (intro exI [of _ e]) simp
qed

lemma floor_between:
  assumes "0 \<le> (b :: rat)"
  shows "of_int \<lfloor>b\<rfloor> = (of_nat (nat \<lfloor>b\<rfloor>) :: rat)" "of_nat (nat \<lfloor>b\<rfloor>) \<le> b" "b \<le> of_nat (nat \<lfloor>b\<rfloor>) + 1"
proof -
  show e: "of_int \<lfloor>b\<rfloor> = (of_nat (nat \<lfloor>b\<rfloor>) :: rat)" using assms by simp
  have "of_int \<lfloor>b\<rfloor> \<le> b" "b \<le> of_int \<lfloor>b\<rfloor> + 1" by linarith+
  then show "of_nat (nat \<lfloor>b\<rfloor>) \<le> b" "b \<le> of_nat (nat \<lfloor>b\<rfloor>) + 1" by (simp_all only: e)
qed

lemma whole_steps_bounds:
  assumes t: "js_round s = Fin t" and s: "1 / 2 ^ 400 \<le> s" and r: "0 \<le> r" "r \<le> 2 ^ 50 * s"
  shows "\<exists>k. whole_steps (Fin r) (Fin t) = Fin (of_nat k) \<and>
    of_nat k * s \<le> r + (r / 2 ^ 50 + 2 / 10 ^ 9 * s) \<and> r \<le> (of_nat k + 1) * s * (1 + 1 / 2 ^ 50)"
proof -
  define h R :: rat where "h = 1 / 2 ^ 1075" and "R = r / s"
  have h: "0 < h" "h < 1 / 100000000000000000000" by (simp_all add: h_def)
  have s0: "0 < s" using s by (rule less_le_trans [rotated]) simp
  have R: "0 \<le> R" "r = R * s" using r s0 by (simp_all add: R_def)
  obtain a where a: "jn_div (Fin r) (Fin t) = Fin a" "0 \<le> a" "a \<le> 2 ^ 51" "0 < t"
      "\<bar>a - R\<bar> \<le> R / 2251799813685248 + 1 / 100000000000000000000"
    using step_quotient [OF assms] unfolding R_def by blast
  obtain e where e: "js_lit (1 / 10 ^ 9) = Fin e" "1 / 10 ^ 10 < e" "e < 11 / 10 ^ 10" using nano_double by blast
  have "a + e \<le> 2 ^ 52" using a(3) e(3) by simp
  also have "\<dots> \<le> (2 :: rat) ^ 1000" by simp
  finally obtain b where b: "js_round (a + e) = Fin b" using js_round_finite [of "a + e"] a(2) e(2) by auto
  have "\<bar>b - (a + e)\<bar> \<le> (a + e) / 2 ^ 53 + h" using js_round_error_abs [OF b] a(2) e(2) by (simp add: h_def)
  then have be: "b \<le> (a + e) + (a + e) / 9007199254740992 + h" "a + e \<le> b + (a + e) / 9007199254740992 + h"
    by (simp_all add: abs_le_iff)
  have ab: "a \<le> R + R / 2251799813685248 + 1 / 100000000000000000000" "R \<le> a + R / 2251799813685248 + 1 / 100000000000000000000"
    using a(5) by (simp_all add: abs_le_iff)
  have b0: "0 \<le> b" by (rule js_round_nonneg [OF b]) (use a(2) e(2) in simp)
  have small: "e < 11 / 10000000000" "1 / 10000000000 < e" using e by simp_all
  have upper: "b \<le> R + R / 2 ^ 50 + 2 / 10 ^ 9" using ab be R(1) small h by (simp add: field_simps)
  have lower: "R \<le> b + b / 2 ^ 50" using ab be R(1) small h b0 by (simp add: field_simps)
  define k where "k = nat \<lfloor>b\<rfloor>"
  note kb = floor_between [OF b0, folded k_def]
  have "whole_steps (Fin r) (Fin t) = Fin (of_nat k)" using a(1) b e by (simp add: whole_steps_def jn_floor_def kb(1))
  moreover have "of_nat k * s \<le> r + (r / 2 ^ 50 + 2 / 10 ^ 9 * s)"
  proof -
    have "of_nat k * s \<le> (R + R / 2 ^ 50 + 2 / 10 ^ 9) * s" using kb(2) upper s0 by (intro mult_right_mono) linarith+
    then show ?thesis unfolding R(2) by (simp add: algebra_simps)
  qed
  moreover have "r \<le> (of_nat k + 1) * s * (1 + 1 / 2 ^ 50)"
  proof -
    have "R \<le> (of_nat k + 1) * (1 + 1 / 2 ^ 50)" using lower kb(3) by simp
    then have "R * s \<le> (of_nat k + 1) * (1 + 1 / 2 ^ 50) * s" using s0 by (intro mult_right_mono) simp_all
    then show ?thesis unfolding R(2) by (simp only: mult.commute mult.left_commute)
  qed
  ultimately show ?thesis by blast
qed

lemma nearest_step_bounds:
  assumes t: "js_round s = Fin t" and s: "1 / 2 ^ 400 \<le> s" and r: "0 \<le> r" "r \<le> 2 ^ 50 * s"
  shows "\<exists>k. jn_round (jn_div (Fin r) (Fin t)) = Fin (of_nat k) \<and> \<bar>of_nat k * s - r\<bar> \<le> s / 2 + r / 2 ^ 50 + s / 10 ^ 19"
proof -
  define R :: rat where "R = r / s"
  have s0: "0 < s" using s by (rule less_le_trans [rotated]) simp
  have R: "0 \<le> R" "r = R * s" using r s0 by (simp_all add: R_def)
  obtain a where a: "jn_div (Fin r) (Fin t) = Fin a" "0 \<le> a"
      "\<bar>a - R\<bar> \<le> R / 2251799813685248 + 1 / 100000000000000000000"
    using step_quotient [OF assms] unfolding R_def by blast
  define k where "k = nat \<lfloor>a + 1 / 2\<rfloor>"
  have "0 \<le> a + 1 / 2" using a(2) by simp
  note kb = floor_between [OF this, folded k_def]
  have "\<bar>of_nat k - R\<bar> \<le> 1 / 2 + R / 2 ^ 50 + 1 / 10 ^ 19"
    using a(3) kb(2,3) R(1) unfolding abs_le_iff by (simp add: field_simps)
  then have "\<bar>of_nat k - R\<bar> * s \<le> (1 / 2 + R / 2 ^ 50 + 1 / 10 ^ 19) * s" using s0 by (intro mult_right_mono) simp_all
  moreover have "\<bar>of_nat k - R\<bar> * s = \<bar>of_nat k * s - r\<bar>"
    unfolding R(2) using s0 by (simp only: left_diff_distrib [symmetric] abs_mult abs_of_pos)
  ultimately have "\<bar>of_nat k * s - r\<bar> \<le> s / 2 + r / 2 ^ 50 + s / 10 ^ 19"
    unfolding R(2) by (simp add: algebra_simps)
  moreover have "jn_round (jn_div (Fin r) (Fin t)) = Fin (of_nat k)" using a(1) kb(1) by (simp add: jn_round_def)
  ultimately show ?thesis by blast
qed


section \<open>Rounding keeps the order of non-negative numbers\<close>

lemma js_round_value:
  assumes "js_round x = Fin r"
  shows "r = of_int (rne (x / ulp x)) * ulp x"
proof (cases "x = 0")
  case True
  then show ?thesis using assms rne_int [of 0] by simp
next
  case False
  then show ?thesis using assms by (auto simp: js_round_alt Let_def split: if_splits)
qed

lemma rne_mono:
  assumes "x \<le> y"
  shows "rne x \<le> rne y"
proof (rule ccontr)
  assume "\<not> rne x \<le> rne y"
  then have less: "rne y < rne x" by simp
  define k where "k = rne y"
  have k: "k + 1 \<le> rne x" using less by (simp add: k_def)
  have "of_int k + 1 / 2 \<le> x"
  proof -
    have "(of_int (k + 1) :: rat) \<le> of_int (rne x)" using k by (simp only: of_int_le_iff)
    moreover have "of_int (rne x) - x \<le> 1 / 2" using rne_near [of x] by linarith
    ultimately show ?thesis by simp
  qed
  moreover have "y \<le> of_int k + 1 / 2" using rne_near [of y] unfolding k_def by linarith
  ultimately have "x = y" using assms by simp
  then show False using less by simp
qed

lemma ulp_step:
  assumes "0 < x" "x \<le> y" "ulp x \<noteq> ulp y"
  shows "\<exists>P :: nat. \<exists>Q :: nat. x \<le> of_nat P * ulp x \<and> of_nat P * ulp x = of_nat Q * ulp y \<and> of_nat Q * ulp y \<le> y"
proof -
  note bx = rlog_bounds [of 2 x, OF _ assms(1)] and by' = rlog_bounds [of 2 y, OF _ less_le_trans [OF assms(1,2)]]
  define i j where "i = max (rlog 2 x - 52) (- 1074)" and "j = max (rlog 2 y - 52) (- 1074)"
  have u: "ulp x = rpow 2 i" "ulp y = rpow 2 j" using assms(1,2) by (simp_all add: ulp_def i_def j_def)
  have "rpow 2 (rlog 2 x) < rpow 2 (rlog 2 y + 1)" using bx(1) by'(2) assms(2) by simp
  then have "rlog 2 x < rlog 2 y + 1" by (rule rpow_less_imp [rotated]) simp
  then have "i \<le> j" unfolding i_def j_def by simp
  moreover have "i \<noteq> j" using assms(3) u by auto
  ultimately have "i < j" by simp
  then have j: "j = rlog 2 y - 52" "rlog 2 x + 1 \<le> rlog 2 y" unfolding i_def j_def by (auto simp: max_def split: if_splits)
  let ?e = "rlog 2 y"
  have "rpow 2 ?e = rpow 2 (int (nat (?e - i))) * rpow 2 i" using \<open>i < j\<close> j(1) by (simp flip: rpow_add)
  then have P: "rpow 2 ?e = of_nat (2 ^ nat (?e - i)) * ulp x" unfolding rpow_nat u by simp
  have "rpow 2 ?e = rpow 2 (int 52) * rpow 2 j" using j(1) by (simp flip: rpow_add)
  then have Q: "rpow 2 ?e = of_nat (2 ^ 52) * ulp y" unfolding rpow_nat u by simp
  have "rpow 2 (rlog 2 x + 1) \<le> rpow 2 ?e" using j(2) by (intro rpow_mono) simp_all
  then have "x \<le> rpow 2 ?e" using bx(2) by simp
  moreover have "rpow 2 ?e \<le> y" using by'(1) by simp
  ultimately show ?thesis using P Q by (intro exI [of _ "2 ^ nat (?e - i)"] exI [of _ "2 ^ 52"]) simp
qed

lemma js_round_mono:
  assumes "0 \<le> x" "x \<le> y" "js_round x = Fin a" "js_round y = Fin b"
  shows "a \<le> b"
proof (cases "x = 0")
  case True
  then show ?thesis using assms js_round_nonneg [OF assms(4)] by simp
next
  case False
  then have x: "0 < x" using assms(1) by simp
  note va = js_round_value [OF assms(3)] and vb = js_round_value [OF assms(4)]
  show ?thesis
  proof (cases "ulp x = ulp y")
    case True
    have "x / ulp x \<le> y / ulp x" using assms(2) less_imp_le [OF ulp_pos [of x]] by (rule divide_right_mono)
    then have "rne (x / ulp x) \<le> rne (y / ulp x)" by (rule rne_mono)
    then have "(of_int (rne (x / ulp x)) :: rat) \<le> of_int (rne (y / ulp x))" by (simp only: of_int_le_iff)
    then show ?thesis unfolding va vb True using less_imp_le [OF ulp_pos [of y]] by (metis True mult_right_mono)
  next
    case False
    obtain P Q :: nat where PQ: "x \<le> of_nat P * ulp x" "of_nat P * ulp x = of_nat Q * ulp y" "of_nat Q * ulp y \<le> y"
      using ulp_step [OF x assms(2) False] by blast
    have "rne (x / ulp x) \<le> int P" by (rule rne_le) (use PQ(1) in \<open>simp add: pos_divide_le_eq\<close>)
    then have "(of_int (rne (x / ulp x)) :: rat) \<le> of_int (int P)" by (simp only: of_int_le_iff)
    then have "a \<le> of_nat P * ulp x" unfolding va using less_imp_le [OF ulp_pos [of x]] by (simp add: mult_right_mono)
    moreover have "int Q \<le> rne (y / ulp y)" by (rule rne_ge) (use PQ(3) in \<open>simp add: pos_le_divide_eq\<close>)
    then have "(of_int (int Q) :: rat) \<le> of_int (rne (y / ulp y))" by (simp only: of_int_le_iff)
    then have "of_nat Q * ulp y \<le> b" unfolding vb using less_imp_le [OF ulp_pos [of y]] by (simp add: mult_right_mono)
    ultimately show ?thesis using PQ(2) by simp
  qed
qed

end
