(* ===== verification/Paper_Engine.thy ===== *)
theory Paper_Engine
  imports JS_Value JS_Float
begin

text \<open>
  \<open>src/paper/models.ts\<close> and \<open>src/paper/PaperTradingEngine.ts\<close>: how the simulator prices and sizes
  a fill, and what a fill does to the simulated account. Everything is binary floating point, as in
  the code. An execution model is a datatype with one constructor per class; a ratio, a book or a
  delay the caller supplies is a function in it, and the delay of \<open>LatencyModel\<close> has no effect on the
  quote. An order is one step: the code reads nothing of the account before its last await, so the
  step takes the price it awaited (or the error of the price feed) and the clock as arguments. An update
  of the marks is one step per price that arrives, with orders and other updates in between.
  Lemmas: what each model can quote, that a refused order leaves the account alone, the numbering of
  orders, and how fees enter the account.
\<close>

section \<open>Execution models\<close>

datatype paper_side = PBuy | PSell

datatype paper_type = PMarket | PLimit

record exec_context =
  xc_symbol :: string
  xc_side :: paper_side
  xc_type :: paper_type
  xc_quantity :: js_number
  xc_limitPrice :: "js_number option"
  xc_marketPrice :: js_number

datatype quote_status = QFilled | QPartial | QRejected

record exec_quote =
  xq_fillPrice :: js_number
  xq_filledQuantity :: js_number
  xq_status :: quote_status
  xq_reason :: "string option"

record book_level =
  bl_price :: js_value
  bl_quantity :: js_value

record book_view =
  bv_bids :: "book_level list"
  bv_asks :: "book_level list"

datatype exec_model =
    InstantFillModel
  | SlippageModel js_number exec_model
  | PartialFillModel "exec_context \<Rightarrow> js_number" exec_model
  | OrderBookModel "string \<Rightarrow> book_view option"
  | LatencyModel "exec_context \<Rightarrow> js_number" exec_model
  | CompositeModel "exec_model list"

text \<open>\<open>ctx.limitPrice as number\<close>: a missing one is no number in what follows.\<close>

definition reference_price :: "exec_context \<Rightarrow> js_number" where
  "reference_price ctx =
     (if xc_type ctx = PMarket then xc_marketPrice ctx else case xc_limitPrice ctx of None \<Rightarrow> NaN | Some p \<Rightarrow> p)"

definition default_ratio :: "js_number \<Rightarrow> js_number" where
  "default_ratio random = jn_add (js_lit (6 / 10)) (jn_mul random (js_lit (4 / 10)))"

text \<open>The walk over the levels: remaining quantity, notional and filled quantity.\<close>

fun book_walk :: "(js_number \<times> js_number) list \<Rightarrow> js_number \<times> js_number \<times> js_number \<Rightarrow> js_number \<times> js_number \<times> js_number" where
  "book_walk [] s = s"
| "book_walk ((price, quantity) # levels) (remaining, notional, filled) =
     (if jn_le remaining (Fin 0) then (remaining, notional, filled)
      else let t = jn_min remaining quantity
           in book_walk levels (jn_sub remaining t, jn_add notional (jn_mul t price), jn_add filled t))"

definition book_levels :: "paper_side \<Rightarrow> book_view \<Rightarrow> (js_number \<times> js_number) list" where
  "book_levels side book =
     (let nums = map (\<lambda>l. (js_to_number (bl_price l), js_to_number (bl_quantity l)))
      in if side = PBuy then js_sort (\<lambda>a b. jn_cmp (fst a) (fst b)) (nums (bv_asks book))
         else js_sort (\<lambda>a b. jn_cmp (fst b) (fst a)) (nums (bv_bids book)))"

definition book_quote :: "book_view option \<Rightarrow> exec_context \<Rightarrow> exec_quote" where
  "book_quote book ctx =
     (case book of
        Some b \<Rightarrow>
          if bv_asks b = [] \<or> bv_bids b = []
          then \<lparr>xq_fillPrice = reference_price ctx, xq_filledQuantity = xc_quantity ctx, xq_status = QFilled,
                xq_reason = Some ''no book available; fell back to mark fill''\<rparr>
          else (case book_walk (book_levels (xc_side ctx) b) (xc_quantity ctx, Fin 0, Fin 0) of (remaining, notional, filled) \<Rightarrow>
             if filled = Fin 0
             then \<lparr>xq_fillPrice = xc_marketPrice ctx, xq_filledQuantity = Fin 0, xq_status = QRejected, xq_reason = Some ''empty book side''\<rparr>
             else let vwap = jn_div notional filled;
                      through = (case xc_limitPrice ctx of
                        None \<Rightarrow> None
                      | Some p \<Rightarrow> if xc_type ctx = PLimit \<and> \<not> (if xc_side ctx = PBuy then jn_le vwap p else jn_le p vwap) then Some p else None)
                  in case through of
                       Some p \<Rightarrow> \<lparr>xq_fillPrice = p, xq_filledQuantity = Fin 0, xq_status = QRejected,
                                   xq_reason = Some ''book does not cross limit price''\<rparr>
                     | None \<Rightarrow> \<lparr>xq_fillPrice = vwap, xq_filledQuantity = filled,
                                 xq_status = (if jn_le (xc_quantity ctx) filled then QFilled else QPartial),
                                 xq_reason = (if jn_less filled (xc_quantity ctx) then Some ''book liquidity exhausted'' else None)\<rparr>)
      | None \<Rightarrow> \<lparr>xq_fillPrice = reference_price ctx, xq_filledQuantity = xc_quantity ctx, xq_status = QFilled,
                  xq_reason = Some ''no book available; fell back to mark fill''\<rparr>)"

definition slip :: "js_number \<Rightarrow> exec_context \<Rightarrow> exec_quote \<Rightarrow> exec_quote" where
  "slip bps ctx base =
     base\<lparr>xq_fillPrice := jn_mul (xq_fillPrice base)
            (jn_add (Fin 1) (jn_mul (Fin (if xc_side ctx = PBuy then 1 else - 1)) (jn_div bps (Fin 10000))))\<rparr>"

definition part_fill :: "js_number \<Rightarrow> exec_context \<Rightarrow> exec_quote \<Rightarrow> exec_quote" where
  "part_fill ratio ctx base =
     (let filled = jn_mul (xq_filledQuantity base) (jn_min (Fin 1) (jn_max (Fin 0) ratio))
      in base\<lparr>xq_filledQuantity := filled,
              xq_status := (if jn_le (xc_quantity ctx) filled then QFilled else QPartial),
              xq_reason := (if jn_less filled (xc_quantity ctx) then Some ''liquidity exhausted at fill price'' else None)\<rparr>)"

definition stage_context :: "exec_context \<Rightarrow> exec_quote \<Rightarrow> exec_context" where
  "stage_context ctx current =
     ctx\<lparr>xc_marketPrice := xq_fillPrice current,
         xc_limitPrice := Some (case xc_limitPrice ctx of None \<Rightarrow> xq_fillPrice current | Some p \<Rightarrow> p)\<rparr>"

fun quote :: "exec_model \<Rightarrow> exec_context \<Rightarrow> exec_quote" and
    pipeline :: "exec_model list \<Rightarrow> exec_context \<Rightarrow> exec_quote \<Rightarrow> exec_quote" where
  "quote InstantFillModel ctx =
     \<lparr>xq_fillPrice = reference_price ctx, xq_filledQuantity = xc_quantity ctx, xq_status = QFilled, xq_reason = None\<rparr>"
| "quote (SlippageModel bps inner) ctx = slip bps ctx (quote inner ctx)"
| "quote (PartialFillModel ratio inner) ctx = part_fill (ratio ctx) ctx (quote inner ctx)"
| "quote (OrderBookModel getBook) ctx = book_quote (getBook (xc_symbol ctx)) ctx"
| "quote (LatencyModel delayMs inner) ctx = quote inner ctx"
| "quote (CompositeModel models) ctx =
     pipeline models ctx \<lparr>xq_fillPrice = reference_price ctx, xq_filledQuantity = xc_quantity ctx, xq_status = QFilled, xq_reason = None\<rparr>"
| "pipeline [] ctx current = current"
| "pipeline (m # models) ctx current =
     (let stage = quote m (stage_context ctx current)
      in pipeline models ctx (stage\<lparr>xq_filledQuantity := jn_min (xq_filledQuantity stage) (xc_quantity ctx)\<rparr>))"

section \<open>Fees\<close>

datatype fee_tier = Taker | Maker

datatype fee_model = TakerMakerFeeModel js_number js_number

definition compute_fee :: "fee_model \<Rightarrow> exec_quote \<Rightarrow> exec_context \<Rightarrow> js_number \<times> fee_tier" where
  "compute_fee m q ctx =
     (case m of TakerMakerFeeModel takerBps makerBps \<Rightarrow>
        let tier = (if xc_type ctx = PMarket then Taker else Maker);
            bps = (if tier = Taker then takerBps else makerBps)
        in (jn_mul (jn_mul (xq_fillPrice q) (xq_filledQuantity q)) (jn_div bps (Fin 10000)), tier))"

definition BinanceUsdmFeeModel :: "js_number option \<Rightarrow> js_number option \<Rightarrow> fee_model" where
  "BinanceUsdmFeeModel takerBps makerBps =
     TakerMakerFeeModel (case takerBps of None \<Rightarrow> Fin 5 | Some x \<Rightarrow> x) (case makerBps of None \<Rightarrow> Fin 2 | Some x \<Rightarrow> x)"

section \<open>The account\<close>

datatype position_side = PLong | PShort | PNone

record paper_position =
  pp_symbol :: string
  pp_side :: position_side
  pp_entryPrice :: js_number
  pp_quantity :: js_number
  pp_leverage :: js_number
  pp_margin :: js_number
  pp_unrealizedPnl :: js_number
  pp_openedAt :: js_number

record paper_order =
  po_orderId :: nat
  po_symbol :: string
  po_side :: paper_side
  po_type :: paper_type
  po_quantity :: js_number
  po_price :: js_number
  po_status :: quote_status
  po_filledQuantity :: js_number
  po_avgFillPrice :: js_number
  po_realizedPnl :: js_number
  po_commission :: "js_number option"
  po_createdAt :: js_number

record paper_account =
  pa_balance :: js_number
  pa_availableBalance :: js_number
  pa_totalWalletBalance :: js_number
  pa_realizedPnl :: js_number
  pa_unrealizedPnl :: js_number
  pa_positions :: "(string, paper_position) jsmap"
  pa_orders :: "paper_order list"

record paper_engine =
  pt_account :: paper_account
  pt_executionModel :: exec_model
  pt_feeModel :: "fee_model option"
  pt_orderIdCounter :: nat

definition emptyPosition :: "string \<Rightarrow> paper_position" where
  "emptyPosition symbol =
     \<lparr>pp_symbol = symbol, pp_side = PNone, pp_entryPrice = Fin 0, pp_quantity = Fin 0, pp_leverage = Fin 1,
      pp_margin = Fin 0, pp_unrealizedPnl = Fin 0, pp_openedAt = Fin 0\<rparr>"

definition new_PaperTradingEngine :: "js_number option \<Rightarrow> exec_model option \<Rightarrow> fee_model option \<Rightarrow> paper_engine" where
  "new_PaperTradingEngine initialBalance executionModel feeModel =
     (let b = (case initialBalance of None \<Rightarrow> Fin 10000 | Some x \<Rightarrow> x)
      in \<lparr>pt_account = \<lparr>pa_balance = b, pa_availableBalance = b, pa_totalWalletBalance = b, pa_realizedPnl = Fin 0,
                        pa_unrealizedPnl = Fin 0, pa_positions = [], pa_orders = []\<rparr>,
          pt_executionModel = (case executionModel of None \<Rightarrow> InstantFillModel | Some m \<Rightarrow> m),
          pt_feeModel = feeModel, pt_orderIdCounter = 1000000\<rparr>)"

text \<open>A position is updated with the account it belongs to: a pair goes through the steps of a fill.\<close>

type_synonym fill_state = "paper_position \<times> paper_account"

definition openExposure :: "position_side \<Rightarrow> js_number \<Rightarrow> js_number \<Rightarrow> js_number \<Rightarrow> js_number \<Rightarrow> fill_state \<Rightarrow> fill_state" where
  "openExposure side quantity fillPrice leverage now s =
     (case s of (p, a) \<Rightarrow>
        let previousQty = pp_quantity p; totalQty = jn_add previousQty quantity;
            margin = jn_div (jn_mul quantity fillPrice) leverage
        in (p\<lparr>pp_entryPrice := (if jn_less (Fin 0) totalQty
                 then jn_div (jn_add (jn_mul (pp_entryPrice p) previousQty) (jn_mul fillPrice quantity)) totalQty else fillPrice),
              pp_quantity := totalQty, pp_side := side, pp_leverage := leverage,
              pp_openedAt := (if previousQty = Fin 0 then now else pp_openedAt p),
              pp_margin := jn_add (pp_margin p) margin\<rparr>,
            a\<lparr>pa_availableBalance := jn_sub (pa_availableBalance a) margin\<rparr>))"

definition direction_of :: "position_side \<Rightarrow> js_number" where
  "direction_of side = Fin (if side = PLong then 1 else - 1)"

definition reduceExposure :: "js_number \<Rightarrow> js_number \<Rightarrow> fill_state \<Rightarrow> js_number \<times> fill_state" where
  "reduceExposure closeQty fillPrice s =
     (case s of (p, a) \<Rightarrow>
        let realized = jn_mul (jn_mul (jn_sub fillPrice (pp_entryPrice p)) closeQty) (direction_of (pp_side p));
            released = (if jn_less (Fin 0) (pp_quantity p) then jn_mul (pp_margin p) (jn_div closeQty (pp_quantity p)) else Fin 0);
            margin = jn_sub (pp_margin p) released;
            quantity = jn_sub (pp_quantity p) closeQty;
            available = jn_add (pa_availableBalance a) (jn_add released realized);
            a1 = a\<lparr>pa_balance := jn_add (pa_balance a) realized, pa_realizedPnl := jn_add (pa_realizedPnl a) realized\<rparr>
        in (realized,
            if jn_le quantity (js_lit (1 / 10 ^ 12))
            then (p\<lparr>pp_quantity := Fin 0, pp_side := PNone, pp_entryPrice := Fin 0, pp_unrealizedPnl := Fin 0, pp_margin := Fin 0\<rparr>,
                  a1\<lparr>pa_availableBalance := jn_add available margin\<rparr>)
            else (p\<lparr>pp_quantity := quantity, pp_margin := margin\<rparr>, a1\<lparr>pa_availableBalance := available\<rparr>)))"

definition incoming_side :: "paper_side \<Rightarrow> position_side" where
  "incoming_side side = (if side = PBuy then PLong else PShort)"

definition applyFill :: "paper_side \<Rightarrow> js_number \<Rightarrow> js_number \<Rightarrow> js_number \<Rightarrow> js_number \<Rightarrow> fill_state \<Rightarrow> js_number \<times> fill_state" where
  "applyFill side quantity fillPrice leverage now s =
     (let p = fst s; incoming = incoming_side side
      in if pp_side p = PNone \<or> pp_quantity p = Fin 0 \<or> pp_side p = incoming
         then (Fin 0, openExposure incoming quantity fillPrice leverage now s)
         else let closeQty = jn_min quantity (pp_quantity p);
                  (realized, s1) = reduceExposure closeQty fillPrice s;
                  remainder = jn_sub quantity closeQty
              in (realized, if jn_less (Fin 0) remainder then openExposure incoming remainder fillPrice leverage now s1 else s1))"

definition marked :: "js_number \<Rightarrow> paper_position \<Rightarrow> paper_position" where
  "marked price p =
     p\<lparr>pp_unrealizedPnl := (if pp_side p = PNone \<or> pp_quantity p = Fin 0 then Fin 0
        else jn_mul (jn_mul (jn_sub price (pp_entryPrice p)) (pp_quantity p)) (direction_of (pp_side p)))\<rparr>"

definition markToMarket :: "string \<Rightarrow> js_number \<Rightarrow> paper_account \<Rightarrow> paper_account" where
  "markToMarket symbol price a =
     (case jm_get symbol (pa_positions a) of
        None \<Rightarrow> a | Some p \<Rightarrow> a\<lparr>pa_positions := jm_set symbol (marked price p) (pa_positions a)\<rparr>)"

definition recomputeTotals :: "paper_account \<Rightarrow> paper_account" where
  "recomputeTotals a =
     (let u = foldl (\<lambda>sum p. jn_add sum (pp_unrealizedPnl p)) (Fin 0) (map snd (pa_positions a))
      in a\<lparr>pa_unrealizedPnl := u, pa_totalWalletBalance := jn_add (pa_balance a) u\<rparr>)"

section \<open>Placing an order\<close>

record order_params =
  op_symbol :: string
  op_side :: paper_side
  op_type :: paper_type
  op_quantity :: js_number
  op_price :: "js_number option"
  op_leverage :: "js_number option"

datatype paper_error =
    QuantityNotPositive | BadLeverage | PriceRequired | PriceFeedError string
  | ModelRejected "string option" | ZeroFill | InsufficientBalance js_number js_number

definition order_context :: "order_params \<Rightarrow> js_number \<Rightarrow> exec_context" where
  "order_context ps marketPrice =
     \<lparr>xc_symbol = to_upper (op_symbol ps), xc_side = op_side ps, xc_type = op_type ps, xc_quantity = op_quantity ps,
      xc_limitPrice = (if op_type ps = PLimit then op_price ps else None), xc_marketPrice = marketPrice\<rparr>"

definition order_leverage :: "order_params \<Rightarrow> js_number" where
  "order_leverage ps = (case op_leverage ps of None \<Rightarrow> Fin 1 | Some l \<Rightarrow> l)"

definition validate_order :: "order_params \<Rightarrow> paper_error option" where
  "validate_order ps =
     (if \<not> jn_less (Fin 0) (op_quantity ps) then Some QuantityNotPositive
      else if jn_less (order_leverage ps) (Fin 1) \<or> jn_less (Fin 125) (order_leverage ps) then Some BadLeverage
      else if op_type ps = PLimit \<and> \<not> (case op_price ps of None \<Rightarrow> False | Some p \<Rightarrow> jn_less (Fin 0) p) then Some PriceRequired
      else None)"

definition required_margin :: "paper_position \<Rightarrow> paper_side \<Rightarrow> js_number \<Rightarrow> js_number \<Rightarrow> js_number \<Rightarrow> js_number" where
  "required_margin p side filled fillPrice leverage =
     (let opposing = (side = PSell \<and> pp_side p = PLong) \<or> (side = PBuy \<and> pp_side p = PShort);
          openingQty = (if opposing then jn_max (Fin 0) (jn_sub filled (pp_quantity p)) else filled)
      in jn_div (jn_mul openingQty fillPrice) leverage)"

definition charge_fee :: "js_number \<Rightarrow> paper_account \<Rightarrow> paper_account" where
  "charge_fee commission a =
     a\<lparr>pa_balance := jn_sub (pa_balance a) commission, pa_realizedPnl := jn_sub (pa_realizedPnl a) commission\<rparr>"

text \<open>The account once the fill has a price, a quantity and an affordable margin.\<close>

definition book_fill :: "order_params \<Rightarrow> js_number \<Rightarrow> exec_quote \<Rightarrow> js_number \<Rightarrow> paper_position \<Rightarrow> paper_engine \<Rightarrow> paper_order \<times> paper_engine" where
  "book_fill ps marketPrice q now p e =
     (let ctx = order_context ps marketPrice; symbol = xc_symbol ctx; filled = xq_filledQuantity q; price = xq_fillPrice q;
          (realized, p1, a1) = applyFill (op_side ps) filled price (order_leverage ps) now (p, pt_account e);
          a2 = a1\<lparr>pa_positions := jm_set symbol p1 (pa_positions a1)\<rparr>;
          commission = (case pt_feeModel e of None \<Rightarrow> Fin 0 | Some m \<Rightarrow> fst (compute_fee m q ctx));
          a3 = (if pt_feeModel e = None then a2 else charge_fee commission a2);
          pnl = (if pt_feeModel e = None then realized else jn_sub realized commission);
          a4 = recomputeTotals (markToMarket symbol marketPrice a3);
          order = \<lparr>po_orderId = Suc (pt_orderIdCounter e), po_symbol = symbol, po_side = op_side ps, po_type = op_type ps,
                   po_quantity = op_quantity ps, po_price = price,
                   po_status = (if xq_status q = QFilled then QFilled else QPartial), po_filledQuantity = filled,
                   po_avgFillPrice = price, po_realizedPnl = pnl,
                   po_commission = (if jn_less (Fin 0) commission then Some commission else None), po_createdAt = now\<rparr>
      in (order, e\<lparr>pt_account := a4\<lparr>pa_orders := pa_orders a4 @ [order]\<rparr>, pt_orderIdCounter := Suc (pt_orderIdCounter e)\<rparr>))"

definition positionFor :: "string \<Rightarrow> paper_engine \<Rightarrow> paper_position \<times> paper_engine" where
  "positionFor symbol e =
     (case jm_get symbol (pa_positions (pt_account e)) of
        Some p \<Rightarrow> (p, e)
      | None \<Rightarrow> (emptyPosition symbol,
          e\<lparr>pt_account := (pt_account e)\<lparr>pa_positions := jm_set symbol (emptyPosition symbol) (pa_positions (pt_account e))\<rparr>\<rparr>))"

definition paper_placeOrder :: "string + js_number \<Rightarrow> js_number \<Rightarrow> order_params \<Rightarrow> paper_engine \<Rightarrow> (paper_error + paper_order) \<times> paper_engine" where
  "paper_placeOrder feed now ps e =
     (case validate_order ps of
        Some err \<Rightarrow> (Inl err, e)
      | None \<Rightarrow>
          (case feed of
             Inl msg \<Rightarrow> (Inl (PriceFeedError msg), e)
           | Inr marketPrice \<Rightarrow>
               let q = quote (pt_executionModel e) (order_context ps marketPrice)
               in if xq_status q = QRejected then (Inl (ModelRejected (xq_reason q)), e)
                  else if \<not> jn_less (Fin 0) (xq_filledQuantity q) then (Inl ZeroFill, e)
                  else let (p, e1) = positionFor (to_upper (op_symbol ps)) e;
                           required = required_margin p (op_side ps) (xq_filledQuantity q) (xq_fillPrice q) (order_leverage ps);
                           available = pa_availableBalance (pt_account e1)
                       in if jn_less (jn_add available (js_lit (1 / 10 ^ 9))) required
                          then (Inl (InsufficientBalance required available), e1)
                          else let (order, e2) = book_fill ps marketPrice q now p e1 in (Inr order, e2)))"

text \<open>An update of the marks awaits one price per position that is open when it is called, marks each
  position when its own price arrives, and recomputes the totals once the last has arrived or failed: until then
  the totals lag behind the marks, and whatever runs in between sees that. A symbol whose feed failed
  keeps its mark.\<close>

definition awaited_symbols :: "paper_engine \<Rightarrow> string list" where
  "awaited_symbols e = map pp_symbol (filter (\<lambda>p. pp_side p \<noteq> PNone) (map snd (pa_positions (pt_account e))))"

definition price_arrived :: "string \<Rightarrow> js_number option \<Rightarrow> paper_engine \<Rightarrow> paper_engine" where
  "price_arrived symbol price e =
     (case price of None \<Rightarrow> e | Some x \<Rightarrow> e\<lparr>pt_account := markToMarket symbol x (pt_account e)\<rparr>)"

definition finish_update :: "paper_engine \<Rightarrow> paper_engine" where
  "finish_update e = e\<lparr>pt_account := recomputeTotals (pt_account e)\<rparr>"

text \<open>The whole of it, when nothing runs in between.\<close>

definition updatePositions :: "(string \<Rightarrow> js_number option) \<Rightarrow> paper_engine \<Rightarrow> paper_engine" where
  "updatePositions feed e = finish_update (foldl (\<lambda>e s. price_arrived s (feed s) e) e (awaited_symbols e))"

text \<open>The simulator with the updates in flight, each with the symbols whose price it still awaits.\<close>

record paper_sim =
  ps_engine :: paper_engine
  ps_updates :: "(nat, string list) jsmap"
  ps_nextUpdate :: nat

definition begin_update :: "paper_sim \<Rightarrow> paper_sim" where
  "begin_update s =
     (let symbols = awaited_symbols (ps_engine s); n = ps_nextUpdate s
      in if symbols = [] then s\<lparr>ps_engine := finish_update (ps_engine s), ps_nextUpdate := Suc n\<rparr>
         else s\<lparr>ps_updates := jm_set n symbols (ps_updates s), ps_nextUpdate := Suc n\<rparr>)"

definition update_price :: "nat \<Rightarrow> string \<Rightarrow> js_number option \<Rightarrow> paper_sim \<Rightarrow> paper_sim" where
  "update_price n symbol price s =
     (case jm_get n (ps_updates s) of
        None \<Rightarrow> s
      | Some symbols \<Rightarrow>
          if symbol \<notin> set symbols then s
          else let e = price_arrived symbol price (ps_engine s); rest = remove1 symbol symbols
               in if rest = [] then s\<lparr>ps_engine := finish_update e, ps_updates := jm_del n (ps_updates s)\<rparr>
                  else s\<lparr>ps_engine := e, ps_updates := jm_set n rest (ps_updates s)\<rparr>)"

definition getPosition :: "string \<Rightarrow> paper_engine \<Rightarrow> paper_position option" where
  "getPosition symbol e = jm_get (to_upper symbol) (pa_positions (pt_account e))"

definition getOpenPositions :: "paper_engine \<Rightarrow> paper_position list" where
  "getOpenPositions e = filter (\<lambda>p. pp_side p \<noteq> PNone) (map snd (pa_positions (pt_account e)))"

definition getOrderHistory :: "string option \<Rightarrow> paper_engine \<Rightarrow> paper_order list" where
  "getOrderHistory symbol e =
     (case symbol of
        Some s \<Rightarrow> if s = [] then pa_orders (pt_account e) else filter (\<lambda>x. po_symbol x = to_upper s) (pa_orders (pt_account e))
      | None \<Rightarrow> pa_orders (pt_account e))"

section \<open>The invariant of the account\<close>

lemma book_walk_double: "is_double (snd (snd s)) \<Longrightarrow> is_double (snd (snd (book_walk levels s)))"
  by (induction levels s rule: book_walk.induct) (simp_all add: Let_def)

lemma quote_double:
  "is_double (xc_quantity ctx) \<Longrightarrow> is_double (xq_filledQuantity (quote m ctx))"
  "is_double (xc_quantity ctx) \<Longrightarrow> is_double (xq_filledQuantity current) \<Longrightarrow> is_double (xq_filledQuantity (pipeline ms ctx current))"
proof (induction m ctx and ms ctx current rule: quote_pipeline.induct)
  case (4 getBook ctx)
  show ?case
  proof (cases "getBook (xc_symbol ctx)")
    case (Some b)
    obtain rem notional filled where w: "book_walk (book_levels (xc_side ctx) b) (xc_quantity ctx, Fin 0, Fin 0) = (rem, notional, filled)"
      by (metis prod_cases3)
    have "is_double filled" using book_walk_double [of "(xc_quantity ctx, Fin 0, Fin 0)" "book_levels (xc_side ctx) b"] by (simp add: w)
    with Some 4 show ?thesis by (simp add: book_quote_def w Let_def split: option.split)
  qed (use 4 in \<open>simp add: book_quote_def\<close>)
next
  case (8 m models ctx current)
  then show ?case by (simp add: Let_def stage_context_def)
qed (simp_all add: slip_def part_fill_def Let_def)

definition position_ok :: "paper_position \<Rightarrow> bool" where
  "position_ok p \<longleftrightarrow>
     (if pp_side p = PNone then pp_quantity p = Fin 0 \<and> pp_entryPrice p = Fin 0 \<and> pp_margin p = Fin 0 \<and> pp_unrealizedPnl p = Fin 0
      else \<not> jn_le (pp_quantity p) (Fin 0))"

definition pnl_sum :: "paper_account \<Rightarrow> js_number" where
  "pnl_sum a = foldl (\<lambda>sum p. jn_add sum (pp_unrealizedPnl p)) (Fin 0) (map snd (pa_positions a))"

definition positions_ok :: "(string, paper_position) jsmap \<Rightarrow> bool" where
  "positions_ok m \<longleftrightarrow> jm_ok m \<and> (\<forall>k p. jm_get k m = Some p \<longrightarrow> pp_symbol p = k \<and> position_ok p)"

definition totals_ok :: "paper_account \<Rightarrow> bool" where
  "totals_ok a \<longleftrightarrow> pa_unrealizedPnl a = pnl_sum a \<and> pa_totalWalletBalance a = jn_add (pa_balance a) (pa_unrealizedPnl a)"

definition orders_ok :: "paper_engine \<Rightarrow> bool" where
  "orders_ok e \<longleftrightarrow> map po_orderId (pa_orders (pt_account e)) = [1000001..<Suc (pt_orderIdCounter e)] \<and> 1000000 \<le> pt_orderIdCounter e"

text \<open>What holds at every moment, and what the totals add to it when no mark is ahead of them.\<close>

definition paper_core :: "paper_engine \<Rightarrow> bool" where
  "paper_core e \<longleftrightarrow> positions_ok (pa_positions (pt_account e)) \<and> orders_ok e"

definition paper_inv :: "paper_engine \<Rightarrow> bool" where
  "paper_inv e \<longleftrightarrow> paper_core e \<and> totals_ok (pt_account e)"

lemma foldl_add_double: "is_double z \<Longrightarrow> is_double (foldl (\<lambda>sum p. jn_add sum (f p)) z xs)"
  by (induction xs arbitrary: z) simp_all

lemma position_ok_empty: "position_ok (emptyPosition symbol)" "pp_symbol (emptyPosition symbol) = symbol"
  by (simp_all add: position_ok_def emptyPosition_def)

lemma positions_ok_set: "positions_ok m \<Longrightarrow> position_ok p \<Longrightarrow> pp_symbol p = k \<Longrightarrow> positions_ok (jm_set k p m)"
  by (auto simp: positions_ok_def jm.ok_put jm.get_put)

lemma open_ok:
  assumes "position_ok p" "jn_less (Fin 0) quantity" "is_double quantity" "side \<noteq> PNone"
  shows "position_ok (fst (openExposure side quantity price lev now (p, a)))"
proof -
  have "jn_add (pp_quantity p) quantity = NaN \<or> jn_less (Fin 0) (jn_add (pp_quantity p) quantity)"
  proof (cases "pp_quantity p = NaN")
    case True
    then show ?thesis by (cases quantity) simp_all
  next
    case False
    then consider "pp_quantity p = Fin 0" | "jn_less (Fin 0) (pp_quantity p)"
      using assms(1) by (auto simp: position_ok_def not_le_zero split: if_splits)
    then show ?thesis
    proof cases
      case 1
      have "jn_add (Fin 0) quantity = quantity" using assms(3) by (cases quantity) (simp_all add: is_double_def)
      with 1 assms(2) show ?thesis by simp
    next
      case 2
      then show ?thesis using add_positive assms(2,3) by blast
    qed
  qed
  then show ?thesis using assms(4) by (simp add: openExposure_def Let_def position_ok_def not_le_zero)
qed

lemma open_keeps:
  "pp_symbol (fst (openExposure side quantity price lev now (p, a))) = pp_symbol p"
  "pa_positions (snd (openExposure side quantity price lev now s)) = pa_positions (snd s)"
  "pa_orders (snd (openExposure side quantity price lev now s)) = pa_orders (snd s)"
  "pa_balance (snd (openExposure side quantity price lev now s)) = pa_balance (snd s)"
  by (simp_all add: openExposure_def Let_def split: prod.split)

lemma tiny_positive: "jn_less (Fin 0) (js_lit (1 / 10 ^ 12))"
  unfolding js_lit_def by (rule js_round_positive) (simp add: rpow_def)

lemma le_zero_tiny: "jn_le x (Fin 0) \<Longrightarrow> jn_le x (js_lit (1 / 10 ^ 12))"
  using tiny_positive by (cases x; cases "js_lit (1 / 10 ^ 12)") (auto simp: jn_le_def)

lemma reduce_ok:
  assumes "position_ok p" "pp_side p \<noteq> PNone"
  shows "position_ok (fst (snd (reduceExposure q price (p, a))))"
    and "pp_symbol (fst (snd (reduceExposure q price (p, a)))) = pp_symbol p"
    and "pa_positions (snd (snd (reduceExposure q price (p, a)))) = pa_positions a"
    and "pa_orders (snd (snd (reduceExposure q price (p, a)))) = pa_orders a"
  using assms(2) le_zero_tiny by (auto simp: reduceExposure_def Let_def position_ok_def)

lemma fill_ok:
  assumes "position_ok p" "jn_less (Fin 0) quantity" "is_double quantity"
  shows "position_ok (fst (snd (applyFill side quantity price lev now (p, a))))"
    and "pp_symbol (fst (snd (applyFill side quantity price lev now (p, a)))) = pp_symbol p"
    and "pa_positions (snd (snd (applyFill side quantity price lev now (p, a)))) = pa_positions a"
    and "pa_orders (snd (snd (applyFill side quantity price lev now (p, a)))) = pa_orders a"
proof -
  have i: "incoming_side side \<noteq> PNone" by (simp add: incoming_side_def)
  note op = open_ok [OF assms i]
  let ?c = "jn_min quantity (pp_quantity p)"
  obtain r p1 a1 where r: "reduceExposure ?c price (p, a) = (r, p1, a1)" by (metis prod_cases3)
  have red: "position_ok p1" "pp_symbol p1 = pp_symbol p" "pa_positions a1 = pa_positions a" "pa_orders a1 = pa_orders a"
    if "pp_side p \<noteq> PNone"
    using reduce_ok [OF assms(1) that, of ?c price a] by (simp_all add: r)
  have "is_double (jn_sub quantity ?c)" by simp
  then show "position_ok (fst (snd (applyFill side quantity price lev now (p, a))))"
    and "pp_symbol (fst (snd (applyFill side quantity price lev now (p, a)))) = pp_symbol p"
    and "pa_positions (snd (snd (applyFill side quantity price lev now (p, a)))) = pa_positions a"
    and "pa_orders (snd (snd (applyFill side quantity price lev now (p, a)))) = pa_orders a"
    using op red i by (auto simp: applyFill_def Let_def r open_keeps open_ok)
qed

lemma marked_ok: "position_ok p \<Longrightarrow> position_ok (marked price p)" "pp_symbol (marked price p) = pp_symbol p"
  by (auto simp: position_ok_def marked_def)

lemma mark_ok:
  assumes "positions_ok (pa_positions a)"
  shows "positions_ok (pa_positions (markToMarket symbol price a))"
proof (cases "jm_get symbol (pa_positions a)")
  case (Some p)
  then have "position_ok p" "pp_symbol p = symbol" using assms by (simp_all add: positions_ok_def)
  with Some positions_ok_set [OF assms marked_ok(1)] show ?thesis by (simp add: markToMarket_def marked_ok(2))
qed (simp add: markToMarket_def assms)

lemma mark_keeps [simp]:
  "pa_orders (markToMarket symbol price a) = pa_orders a" "pa_balance (markToMarket symbol price a) = pa_balance a"
  "pa_availableBalance (markToMarket symbol price a) = pa_availableBalance a"
  by (simp_all add: markToMarket_def split: option.split)

lemma recompute_keeps [simp]:
  "pa_orders (recomputeTotals a) = pa_orders a" "pa_positions (recomputeTotals a) = pa_positions a"
  "pa_balance (recomputeTotals a) = pa_balance a" "pa_availableBalance (recomputeTotals a) = pa_availableBalance a"
  by (simp_all add: recomputeTotals_def Let_def)

lemma recompute_ok: "totals_ok (recomputeTotals a)"
  by (simp add: totals_ok_def recomputeTotals_def pnl_sum_def Let_def)

lemma charge_keeps [simp]:
  "pa_orders (charge_fee c a) = pa_orders a" "pa_positions (charge_fee c a) = pa_positions a"
  "pa_availableBalance (charge_fee c a) = pa_availableBalance a" "pa_balance (charge_fee c a) = jn_sub (pa_balance a) c"
  by (simp_all add: charge_fee_def)

lemma positionFor_core:
  assumes "paper_core e" "positionFor symbol e = (p, e1)"
  shows "paper_core e1" "position_ok p" "pp_symbol p = symbol" "pt_executionModel e1 = pt_executionModel e"
proof -
  have pos: "positions_ok (pa_positions (pt_account e))" using assms(1) by (simp add: paper_core_def)
  show "position_ok p" "pp_symbol p = symbol" "pt_executionModel e1 = pt_executionModel e"
    using assms(2) pos by (auto simp: positionFor_def positions_ok_def position_ok_empty split: option.splits)
  show "paper_core e1"
    using assms positions_ok_set [OF pos, of "emptyPosition symbol" symbol]
    by (auto simp: positionFor_def paper_core_def orders_ok_def position_ok_empty split: option.splits)
qed

lemma positionFor_totals:
  assumes "totals_ok (pt_account e)" "positionFor symbol e = (p, e1)"
  shows "totals_ok (pt_account e1)"
proof (cases "jm_get symbol (pa_positions (pt_account e))")
  case None
  let ?m = "jm_set symbol (emptyPosition symbol) (pa_positions (pt_account e))"
  have "?m = pa_positions (pt_account e) @ [(symbol, emptyPosition symbol)]"
    using None by (simp add: jm_set_fresh jm_keys_iff)
  then have "foldl (\<lambda>sum p. jn_add sum (pp_unrealizedPnl p)) (Fin 0) (map snd ?m) = pnl_sum (pt_account e)"
    by (simp add: pnl_sum_def emptyPosition_def add_zero foldl_add_double)
  then have "totals_ok ((pt_account e)\<lparr>pa_positions := ?m\<rparr>)" using assms(1) by (simp add: totals_ok_def pnl_sum_def)
  with None assms(2) show ?thesis by (auto simp: positionFor_def)
qed (use assms in \<open>simp add: positionFor_def\<close>)

lemma book_fill_inv:
  assumes inv: "paper_core e" and p: "position_ok p" "pp_symbol p = to_upper (op_symbol ps)"
    and q: "jn_less (Fin 0) (xq_filledQuantity q)" "is_double (xq_filledQuantity q)"
  shows "paper_inv (snd (book_fill ps marketPrice q now p e))"
proof -
  obtain r p1 a1 where f: "applyFill (op_side ps) (xq_filledQuantity q) (xq_fillPrice q) (order_leverage ps) now (p, pt_account e) = (r, p1, a1)"
    by (metis prod_cases3)
  from fill_ok [OF p(1) q, of "op_side ps" "xq_fillPrice q" "order_leverage ps" now "pt_account e"]
  have p1: "position_ok p1" "pp_symbol p1 = to_upper (op_symbol ps)" "pa_positions a1 = pa_positions (pt_account e)"
    "pa_orders a1 = pa_orders (pt_account e)" using p(2) by (simp_all add: f)
  have "positions_ok (jm_set (to_upper (op_symbol ps)) p1 (pa_positions a1))"
    using inv p1 by (auto simp: paper_core_def intro: positions_ok_set)
  then have po: "positions_ok (pa_positions (markToMarket s m (a1\<lparr>pa_positions := jm_set (to_upper (op_symbol ps)) p1 (pa_positions a1)\<rparr>)))"
    "positions_ok (pa_positions (markToMarket s m (charge_fee c (a1\<lparr>pa_positions := jm_set (to_upper (op_symbol ps)) p1 (pa_positions a1)\<rparr>))))" for s m c
    by (auto intro!: mark_ok)
  have t: "totals_ok ((recomputeTotals a)\<lparr>pa_orders := xs\<rparr>)" for a xs
    using recompute_ok [of a] by (simp add: totals_ok_def pnl_sum_def)
  show ?thesis using inv po t
    by (auto simp: book_fill_def Let_def f order_context_def paper_inv_def paper_core_def orders_ok_def p1)
qed

lemma place_ok:
  assumes inv: "paper_core e" and q: "is_double (op_quantity ps)"
  shows "paper_core (snd (paper_placeOrder feed now ps e))"
    and "totals_ok (pt_account e) \<Longrightarrow> totals_ok (pt_account (snd (paper_placeOrder feed now ps e)))"
proof -
  obtain p e1 where pf: "positionFor (to_upper (op_symbol ps)) e = (p, e1)" by fastforce
  note pi = positionFor_core [OF inv pf] and t = positionFor_totals [OF _ pf]
  have booked: "paper_core e2" "totals_ok (pt_account e2)"
    if "book_fill ps mp (quote m (order_context ps mp)) now p e1 = (od, e2)"
      "jn_less (Fin 0) (xq_filledQuantity (quote m (order_context ps mp)))" for mp m od e2
    using book_fill_inv [OF pi(1-3) that(2), of mp now] quote_double(1) [of "order_context ps mp" m] q that(1)
    by (simp_all add: order_context_def paper_inv_def)
  show "paper_core (snd (paper_placeOrder feed now ps e))"
    using inv pi(1) booked by (auto simp: paper_placeOrder_def Let_def pf split: option.split sum.split prod.split)
  show "totals_ok (pt_account e) \<Longrightarrow> totals_ok (pt_account (snd (paper_placeOrder feed now ps e)))"
    using t booked by (auto simp: paper_placeOrder_def Let_def pf split: option.split sum.split prod.split)
qed

lemma price_arrived_core: "paper_core e \<Longrightarrow> paper_core (price_arrived symbol price e)"
  by (auto simp: price_arrived_def paper_core_def orders_ok_def mark_ok split: option.split)

lemma finish_update_ok [simp]: "paper_core (finish_update e) = paper_core e" "totals_ok (pt_account (finish_update e))"
  by (simp_all add: finish_update_def paper_core_def orders_ok_def recompute_ok)

lemma updatePositions_ok: "paper_core e \<Longrightarrow> paper_inv (updatePositions feed e)"
proof -
  have "paper_core e \<Longrightarrow> paper_core (foldl (\<lambda>e s. price_arrived s (feed s) e) e xs)" for xs
    by (induction xs arbitrary: e) (simp_all add: price_arrived_core)
  then show "paper_core e \<Longrightarrow> paper_inv (updatePositions feed e)" by (simp add: updatePositions_def paper_inv_def)
qed

subsection \<open>Orders and updates that overlap\<close>

datatype paper_op =
  PlaceOp "string + js_number" js_number order_params
| UpdateOp "string \<Rightarrow> js_number option"
| BeginUpdateOp
| PriceOp nat string "js_number option"

fun paper_step :: "paper_sim \<Rightarrow> paper_op \<Rightarrow> paper_sim" where
  "paper_step s (PlaceOp feed now ps) = s\<lparr>ps_engine := snd (paper_placeOrder feed now ps (ps_engine s))\<rparr>"
| "paper_step s (UpdateOp feed) = s\<lparr>ps_engine := updatePositions feed (ps_engine s)\<rparr>"
| "paper_step s BeginUpdateOp = begin_update s"
| "paper_step s (PriceOp n symbol price) = update_price n symbol price s"

fun paper_guard :: "paper_op \<Rightarrow> bool" where
  "paper_guard (PlaceOp feed now ps) = is_double (op_quantity ps)"
| "paper_guard _ = True"

definition new_sim :: "paper_engine \<Rightarrow> paper_sim" where
  "new_sim e = \<lparr>ps_engine = e, ps_updates = [], ps_nextUpdate = 0\<rparr>"

definition sim_inv :: "paper_sim \<Rightarrow> bool" where
  "sim_inv s \<longleftrightarrow> paper_core (ps_engine s) \<and> (ps_updates s = [] \<longrightarrow> totals_ok (pt_account (ps_engine s))) \<and>
     (\<forall>k \<in> set (jm_keys (ps_updates s)). k < ps_nextUpdate s)"

lemma jm_set_nonempty [simp]: "jm_set k v m \<noteq> []"
  by (metis jm.get_put jm_get_def map_of.simps(1) option.distinct(1))

lemma paper_step_inv: "sim_inv s \<Longrightarrow> paper_guard x \<Longrightarrow> sim_inv (paper_step s x)"
proof (cases x)
  case (PlaceOp feed now ps)
  assume "sim_inv s" "paper_guard x"
  with PlaceOp place_ok [of "ps_engine s" ps feed now] show ?thesis by (simp add: sim_inv_def)
next
  case (UpdateOp feed)
  assume "sim_inv s"
  with UpdateOp updatePositions_ok [of "ps_engine s" feed] show ?thesis by (simp add: sim_inv_def paper_inv_def)
next
  case BeginUpdateOp
  assume "sim_inv s"
  with BeginUpdateOp show ?thesis
    by (auto simp: sim_inv_def begin_update_def Let_def jm.keys_put less_Suc_eq)
next
  case (PriceOp n symbol price)
  assume "sim_inv s"
  with PriceOp show ?thesis
    by (auto simp: sim_inv_def update_price_def Let_def jm.keys_put jm.keys_del price_arrived_core jm.keys_get split: option.split)
qed

interpretation paper: invariant_machine paper_step sim_inv paper_guard
  by unfold_locales (rule paper_step_inv)

lemma awaited_distinct:
  assumes "positions_ok (pa_positions (pt_account e))"
  shows "distinct (awaited_symbols e)"
proof -
  have "map (pp_symbol \<circ> snd) m = map fst m" if "positions_ok m" for m
  proof -
    have "pp_symbol p = k" if "(k, p) \<in> set m" for k p
      using that \<open>positions_ok m\<close> by (simp add: positions_ok_def jm_ok_def jm_get_def)
    then show ?thesis by auto
  qed
  from this [OF assms] have "map pp_symbol (map snd (pa_positions (pt_account e))) = map fst (pa_positions (pt_account e))"
    by (simp only: map_map)
  with assms have "distinct (map pp_symbol (map snd (pa_positions (pt_account e))))"
    by (simp only: positions_ok_def jm_ok_def)
  then show ?thesis unfolding awaited_symbols_def by (rule distinct_map_filter)
qed

text \<open>Prices that arrive in order with nothing in between are the update in one go.\<close>

lemma prices_in_order:
  assumes "jm_get n (ps_updates s) = Some symbols" "distinct symbols" "symbols \<noteq> []"
  shows "foldl paper_step s (map (\<lambda>x. PriceOp n x (feed x)) symbols) =
    s\<lparr>ps_engine := finish_update (foldl (\<lambda>e x. price_arrived x (feed x) e) (ps_engine s) symbols), ps_updates := jm_del n (ps_updates s)\<rparr>"
  using assms
proof (induction symbols arbitrary: s)
  case (Cons x xs)
  show ?case
  proof (cases "xs = []")
    case False
    have "jm_del n (jm_set n xs (ps_updates s)) = jm_del n (ps_updates s)"
      by (simp add: jm_set_def jm_del_def delete_update_same)
    with Cons.prems False Cons.IH [of "paper_step s (PriceOp n x (feed x))"] show ?thesis
      by (simp add: update_price_def Let_def jm.get_put)
  qed (use Cons.prems in \<open>simp add: update_price_def\<close>)
qed simp

lemma update_in_one_go:
  assumes "sim_inv s"
  shows "let s' = paper_step s (UpdateOp feed); n = ps_nextUpdate s;
      steps = BeginUpdateOp # map (\<lambda>x. PriceOp n x (feed x)) (awaited_symbols (ps_engine s)) in
    foldl paper_step s steps = s'\<lparr>ps_nextUpdate := Suc n\<rparr>"
proof -
  let ?xs = "awaited_symbols (ps_engine s)" and ?n = "ps_nextUpdate s"
  have fresh: "?n \<notin> set (jm_keys (ps_updates s))" using assms by (auto simp: sim_inv_def)
  then have del: "jm_del ?n (jm_set ?n ?xs (ps_updates s)) = ps_updates s"
    by (simp add: jm_set_def jm_del_def delete_update_same jm_keys_def)
  have "positions_ok (pa_positions (pt_account (ps_engine s)))" using assms by (simp add: sim_inv_def paper_core_def)
  note d = awaited_distinct [OF this]
  show ?thesis
  proof (cases "?xs = []")
    case False
    have "jm_get ?n (ps_updates (begin_update s)) = Some ?xs" using False by (simp add: begin_update_def Let_def jm.get_put)
    from prices_in_order [OF this d False, of feed] show ?thesis
      using False by (simp add: begin_update_def Let_def del updatePositions_def)
  qed (simp add: begin_update_def Let_def updatePositions_def)
qed

lemma new_sim_inv: "is_double b \<Longrightarrow> sim_inv (new_sim (new_PaperTradingEngine (Some b) m f))"
  by (simp add: sim_inv_def new_sim_def new_PaperTradingEngine_def Let_def paper_core_def positions_ok_def jm_ok_def jm_get_def
      totals_ok_def pnl_sum_def orders_ok_def add_zero jm_keys_def)

section \<open>What placing an order returns\<close>

lemma place_refused:
  "paper_placeOrder feed now ps e = (Inl err, e') \<Longrightarrow> e' = e \<or> e' = snd (positionFor (to_upper (op_symbol ps)) e)"
  by (auto simp: paper_placeOrder_def Let_def split: option.splits sum.splits prod.splits if_splits)

lemma positionFor_account [simp]:
  "pa_orders (pt_account (snd (positionFor symbol e))) = pa_orders (pt_account e)"
  "pa_balance (pt_account (snd (positionFor symbol e))) = pa_balance (pt_account e)"
  "pa_availableBalance (pt_account (snd (positionFor symbol e))) = pa_availableBalance (pt_account e)"
  by (simp_all add: positionFor_def split: option.split)

lemma place_booked:
  assumes "paper_placeOrder feed now ps e = (Inr order, e')"
  shows "\<exists>marketPrice q p. feed = Inr marketPrice \<and> q = quote (pt_executionModel e) (order_context ps marketPrice) \<and>
    xq_status q \<noteq> QRejected \<and> jn_less (Fin 0) (xq_filledQuantity q) \<and>
    (order, e') = book_fill ps marketPrice q now p (snd (positionFor (to_upper (op_symbol ps)) e))"
  using assms
  by (auto simp: paper_placeOrder_def Let_def split: option.splits sum.splits prod.splits if_splits) metis

lemma book_fill_order:
  assumes "book_fill ps marketPrice q now p e = (order, e')"
  shows "po_symbol order = to_upper (op_symbol ps)" "po_filledQuantity order = xq_filledQuantity q"
    "po_avgFillPrice order = xq_fillPrice q" "po_createdAt order = now"
    "po_status order = (if xq_status q = QFilled then QFilled else QPartial)"
    "jm_get (to_upper (op_symbol ps)) (pa_positions (pt_account e')) \<noteq> None"
  using assms
  by (auto simp: book_fill_def order_context_def Let_def recomputeTotals_def markToMarket_def charge_fee_def map_laws
      split: prod.splits option.splits if_splits)

section \<open>Properties\<close>

text \<open>C32: The simulated account stays coherent. After any sequence of orders and mark updates, the prices of
  an update arriving one by one and orders and other updates in between, a flat position
  holds no quantity and locks no margin, an open one has a size that is not zero or negative, the orders are
  numbered without gaps from 1000001, and, unless an update still awaits a price, the
  totals are the balance and the sum of the unrealized PnL of all positions.\<close>

theorem paper_account_invariant:
  assumes "is_double b" "list_all paper_guard ops"
  shows "let s = foldl paper_step (new_sim (new_PaperTradingEngine (Some b) m f)) ops; a = pt_account (ps_engine s) in
    (\<forall>k p. jm_get k (pa_positions a) = Some p \<longrightarrow> pp_symbol p = k \<and>
       (if pp_side p = PNone then pp_quantity p = Fin 0 \<and> pp_margin p = Fin 0 \<and> pp_unrealizedPnl p = Fin 0
        else \<not> jn_le (pp_quantity p) (Fin 0))) \<and>
    (ps_updates s = [] \<longrightarrow>
       pa_unrealizedPnl a = foldl jn_add (Fin 0) (map (pp_unrealizedPnl \<circ> snd) (pa_positions a)) \<and>
       pa_totalWalletBalance a = jn_add (pa_balance a) (pa_unrealizedPnl a)) \<and>
    map po_orderId (pa_orders a) = [1000001..<1000001 + length (pa_orders a)]"
proof -
  let ?s = "foldl paper_step (new_sim (new_PaperTradingEngine (Some b) m f)) ops" and ?c = "pt_orderIdCounter"
  let ?e = "ps_engine ?s"
  have i: "sim_inv ?s" by (rule paper.run_inv [OF new_sim_inv [OF assms(1)] assms(2)])
  then have o: "map po_orderId (pa_orders (pt_account ?e)) = [1000001..<Suc (?c ?e)]" "1000000 \<le> ?c ?e"
    by (simp_all add: sim_inv_def paper_core_def orders_ok_def)
  from arg_cong [OF o(1), of length] o(2) have "Suc (?c ?e) = 1000001 + length (pa_orders (pt_account ?e))" by simp
  with o(1) have "map po_orderId (pa_orders (pt_account ?e)) = [1000001..<1000001 + length (pa_orders (pt_account ?e))]" by metis
  with i show ?thesis
    by (simp add: Let_def sim_inv_def paper_core_def positions_ok_def position_ok_def totals_ok_def pnl_sum_def foldl_map o_def)
qed

definition wit_buy :: "js_number \<Rightarrow> order_params" where
  "wit_buy quantity = \<lparr>op_symbol = ''btcusdt'', op_side = PBuy, op_type = PMarket, op_quantity = quantity, op_price = None, op_leverage = None\<rparr>"

definition wit_engine :: paper_engine where
  "wit_engine = \<lparr>pt_account = \<lparr>pa_balance = Fin 8, pa_availableBalance = Fin 8, pa_totalWalletBalance = Fin 8, pa_realizedPnl = Fin 0,
     pa_unrealizedPnl = Fin 0, pa_positions = [], pa_orders = []\<rparr>, pt_executionModel = InstantFillModel, pt_feeModel = None,
     pt_orderIdCounter = 0\<rparr>"

lemma wit_doubles: "is_double (Fin 10000)" "is_double (Fin 2)"
proof -
  have "js_round 10000 = Fin 10000" "js_round 2 = Fin 2" by code_simp+
  then show "is_double (Fin 10000)" "is_double (Fin 2)" by (simp_all add: is_double_def)
qed

theorem paper_account_invariant_witness:
  "let s = foldl paper_step (new_sim (new_PaperTradingEngine (Some (Fin 10000)) None None))
        [PlaceOp (Inr (Fin 100)) (Fin 1) (wit_buy (Fin 2)), BeginUpdateOp, PriceOp 0 ''BTCUSDT'' (Some (Fin 101))];
      a = pt_account (ps_engine s) in
    (\<forall>k p. jm_get k (pa_positions a) = Some p \<longrightarrow> pp_symbol p = k \<and>
       (if pp_side p = PNone then pp_quantity p = Fin 0 \<and> pp_margin p = Fin 0 \<and> pp_unrealizedPnl p = Fin 0
        else \<not> jn_le (pp_quantity p) (Fin 0))) \<and>
    (ps_updates s = [] \<longrightarrow>
       pa_unrealizedPnl a = foldl jn_add (Fin 0) (map (pp_unrealizedPnl \<circ> snd) (pa_positions a)) \<and>
       pa_totalWalletBalance a = jn_add (pa_balance a) (pa_unrealizedPnl a)) \<and>
    map po_orderId (pa_orders a) = [1000001..<1000001 + length (pa_orders a)]"
  by (rule paper_account_invariant) (simp_all add: wit_doubles wit_buy_def)

text \<open>C33: A refused order costs nothing. Whatever refuses it (validation, the price feed, the execution
  model, the margin), the balances, the realized PnL, the open positions, the history and the
  numbering are what they were.\<close>

theorem refused_order_costs_nothing:
  assumes "paper_placeOrder feed now ps e = (Inl err, e')"
  shows "pa_balance (pt_account e') = pa_balance (pt_account e) \<and>
    pa_availableBalance (pt_account e') = pa_availableBalance (pt_account e) \<and>
    pa_totalWalletBalance (pt_account e') = pa_totalWalletBalance (pt_account e) \<and>
    pa_realizedPnl (pt_account e') = pa_realizedPnl (pt_account e) \<and>
    pa_orders (pt_account e') = pa_orders (pt_account e) \<and> pt_orderIdCounter e' = pt_orderIdCounter e \<and>
    getOpenPositions e' = getOpenPositions e"
  using place_refused [OF assms]
  by (auto simp: positionFor_def getOpenPositions_def jm_set_fresh jm_keys_iff emptyPosition_def split: option.split)

theorem refused_order_costs_nothing_witness:
  "let r = paper_placeOrder (Inr (Fin 4)) (Fin 1) (wit_buy (Fin 4)) wit_engine; e' = snd r in
    fst r = Inl (InsufficientBalance (Fin 16) (Fin 8)) \<and>
    pa_balance (pt_account e') = pa_balance (pt_account wit_engine) \<and>
    pa_availableBalance (pt_account e') = pa_availableBalance (pt_account wit_engine) \<and>
    pa_totalWalletBalance (pt_account e') = pa_totalWalletBalance (pt_account wit_engine) \<and>
    pa_realizedPnl (pt_account e') = pa_realizedPnl (pt_account wit_engine) \<and>
    pa_orders (pt_account e') = pa_orders (pt_account wit_engine) \<and> pt_orderIdCounter e' = pt_orderIdCounter wit_engine \<and>
    getOpenPositions e' = getOpenPositions wit_engine"
proof -
  have f: "fst (paper_placeOrder (Inr (Fin 4)) (Fin 1) (wit_buy (Fin 4)) wit_engine) = Inl (InsufficientBalance (Fin 16) (Fin 8))"
    by code_simp
  have "paper_placeOrder (Inr (Fin 4)) (Fin 1) (wit_buy (Fin 4)) wit_engine = (Inl (InsufficientBalance (Fin 16) (Fin 8)),
      snd (paper_placeOrder (Inr (Fin 4)) (Fin 1) (wit_buy (Fin 4)) wit_engine))"
    using f by (simp add: prod_eq_iff)
  from refused_order_costs_nothing [OF this] f show ?thesis by (simp only: Let_def simp_thms)
qed

text \<open>A limit order never fills through its limit on the book. When the book model has both sides and does
  not refuse a limit order, the price of a buy is at most the limit and of a sell at least, and
  something is filled.\<close>

theorem book_respects_limit:
  assumes "getBook (xc_symbol ctx) = Some b" "bv_asks b \<noteq> []" "bv_bids b \<noteq> []"
    and "xc_type ctx = PLimit" "xc_limitPrice ctx = Some p"
    and "xq_status (quote (OrderBookModel getBook) ctx) \<noteq> QRejected"
  shows "let q = quote (OrderBookModel getBook) ctx in
    (if xc_side ctx = PBuy then jn_le (xq_fillPrice q) p else jn_le p (xq_fillPrice q)) \<and> xq_filledQuantity q \<noteq> Fin 0"
proof -
  obtain rem notional filled where w: "book_walk (book_levels (xc_side ctx) b) (xc_quantity ctx, Fin 0, Fin 0) = (rem, notional, filled)"
    by (metis prod_cases3)
  show ?thesis using assms by (simp add: book_quote_def w Let_def split: if_splits)
qed

definition wit_book :: "string \<Rightarrow> book_view option" where
  "wit_book symbol = Some \<lparr>bv_bids = [\<lparr>bl_price = JNum (Fin 99), bl_quantity = JNum (Fin 1)\<rparr>],
     bv_asks = [\<lparr>bl_price = JNum (Fin 102), bl_quantity = JNum (Fin 1)\<rparr>, \<lparr>bl_price = JNum (Fin 100), bl_quantity = JNum (Fin 1)\<rparr>]\<rparr>"

definition wit_limit :: exec_context where
  "wit_limit = \<lparr>xc_symbol = ''BTCUSDT'', xc_side = PBuy, xc_type = PLimit, xc_quantity = Fin 2, xc_limitPrice = Some (Fin 101),
     xc_marketPrice = Fin 100\<rparr>"

theorem book_respects_limit_witness:
  "let q = quote (OrderBookModel wit_book) wit_limit in
    (if xc_side wit_limit = PBuy then jn_le (xq_fillPrice q) (Fin 101) else jn_le (Fin 101) (xq_fillPrice q)) \<and> xq_filledQuantity q \<noteq> Fin 0"
proof -
  have "xq_status (quote (OrderBookModel wit_book) wit_limit) \<noteq> QRejected" by code_simp
  then show ?thesis
    by (intro book_respects_limit [of wit_book wit_limit "the (wit_book ''BTCUSDT'')"]) (simp_all add: wit_book_def wit_limit_def)
qed

text \<open>A commission is not charged to the available balance. Two engines that differ only in their fee
  model end an accepted order with the same available balance and the same positions, while the
  wallet balance of the one with fees is lower by the commission: after the first fee, available is
  no longer the wallet balance less the locked margin, as its documentation says.\<close>

theorem fee_not_in_available:
  assumes "paper_placeOrder (Inr mp) now ps (e\<lparr>pt_feeModel := None\<rparr>) = (Inr o0, e0)"
    and "paper_placeOrder (Inr mp) now ps (e\<lparr>pt_feeModel := Some m\<rparr>) = (Inr o1, e1)"
  shows "let q = quote (pt_executionModel e) (order_context ps mp);
      commission = fst (compute_fee m q (order_context ps mp)) in
    pa_balance (pt_account e1) = jn_sub (pa_balance (pt_account e0)) commission \<and>
    pa_availableBalance (pt_account e1) = pa_availableBalance (pt_account e0) \<and>
    pa_positions (pt_account e1) = pa_positions (pt_account e0)"
proof -
  have mark: "pa_positions (markToMarket s x (charge_fee c a)) = pa_positions (markToMarket s x a)" for s x c a
    by (simp add: markToMarket_def split: option.split)
  let ?q = "quote (pt_executionModel e) (order_context ps mp)"
  obtain p d where pf: "positionFor (to_upper (op_symbol ps)) e = (p, d)" by fastforce
  have pf': "positionFor (to_upper (op_symbol ps)) (e\<lparr>pt_feeModel := x\<rparr>) = (p, d\<lparr>pt_feeModel := x\<rparr>)" for x
    using pf by (auto simp: positionFor_def split: option.splits)
  have e0: "e0 = snd (book_fill ps mp ?q now p (d\<lparr>pt_feeModel := None\<rparr>))"
    using assms(1) by (auto simp: paper_placeOrder_def Let_def pf' split: option.splits prod.splits if_splits)
  have e1: "e1 = snd (book_fill ps mp ?q now p (d\<lparr>pt_feeModel := Some m\<rparr>))"
    using assms(2) by (auto simp: paper_placeOrder_def Let_def pf' split: option.splits prod.splits if_splits)
  show ?thesis unfolding e0 e1
    by (simp add: Let_def book_fill_def mark split: prod.split)
qed

theorem fee_not_in_available_witness:
  "let e0 = snd (paper_placeOrder (Inr (Fin 2)) (Fin 1) (wit_buy (Fin 2)) (wit_engine\<lparr>pt_feeModel := None\<rparr>));
      m = TakerMakerFeeModel (Fin 50) (Fin 20);
      e1 = snd (paper_placeOrder (Inr (Fin 2)) (Fin 1) (wit_buy (Fin 2)) (wit_engine\<lparr>pt_feeModel := Some m\<rparr>));
      q = quote (pt_executionModel wit_engine) (order_context (wit_buy (Fin 2)) (Fin 2));
      commission = fst (compute_fee m q (order_context (wit_buy (Fin 2)) (Fin 2))) in
    jn_less (Fin 0) commission \<and>
    pa_balance (pt_account e1) = jn_sub (pa_balance (pt_account e0)) commission \<and>
    pa_availableBalance (pt_account e1) = pa_availableBalance (pt_account e0) \<and>
    pa_positions (pt_account e1) = pa_positions (pt_account e0)"
proof -
  let ?m = "TakerMakerFeeModel (Fin 50) (Fin 20)" and ?q = "quote (pt_executionModel wit_engine) (order_context (wit_buy (Fin 2)) (Fin 2))"
  let ?r0 = "paper_placeOrder (Inr (Fin 2)) (Fin 1) (wit_buy (Fin 2)) (wit_engine\<lparr>pt_feeModel := None\<rparr>)"
  let ?r1 = "paper_placeOrder (Inr (Fin 2)) (Fin 1) (wit_buy (Fin 2)) (wit_engine\<lparr>pt_feeModel := Some ?m\<rparr>)"
  have c: "jn_less (Fin 0) (fst (compute_fee ?m ?q (order_context (wit_buy (Fin 2)) (Fin 2))))" by code_simp
  have "case fst ?r0 of Inl e \<Rightarrow> False | Inr x \<Rightarrow> True" by code_simp
  then obtain o0 where "?r0 = (Inr o0, snd ?r0)" by (cases "fst ?r0") (simp_all add: prod_eq_iff)
  moreover have "case fst ?r1 of Inl e \<Rightarrow> False | Inr x \<Rightarrow> True" by code_simp
  then obtain o1 where "?r1 = (Inr o1, snd ?r1)" by (cases "fst ?r1") (simp_all add: prod_eq_iff)
  ultimately have "let q = ?q; commission = fst (compute_fee ?m q (order_context (wit_buy (Fin 2)) (Fin 2))) in
    pa_balance (pt_account (snd ?r1)) = jn_sub (pa_balance (pt_account (snd ?r0))) commission \<and>
    pa_availableBalance (pt_account (snd ?r1)) = pa_availableBalance (pt_account (snd ?r0)) \<and>
    pa_positions (pt_account (snd ?r1)) = pa_positions (pt_account (snd ?r0))"
    by (rule fee_not_in_available)
  with c show ?thesis by (simp only: Let_def simp_thms)
qed

text \<open>A pipeline forgets what its earlier stages refused or cut. Whatever the stages before an instant
  fill decided, a rejection or a partial fill included, the composite fills the whole quantity, a
  limit order at its limit price, although the quantity is said only to shrink downstream.\<close>

theorem composite_forgets_stages:
  assumes "xc_quantity ctx \<noteq> NaN"
  shows "let q = quote (CompositeModel (models @ [InstantFillModel])) ctx in
    xq_filledQuantity q = xc_quantity ctx \<and> xq_status q = QFilled \<and>
    (\<forall>p. xc_type ctx = PLimit \<longrightarrow> xc_limitPrice ctx = Some p \<longrightarrow> xq_fillPrice q = p)"
proof -
  have "\<exists>c. pipeline (models @ [InstantFillModel]) ctx current =
      (quote InstantFillModel (stage_context ctx c))\<lparr>xq_filledQuantity := jn_min (xc_quantity ctx) (xc_quantity ctx)\<rparr>" for current
  proof (induction models arbitrary: current)
    case Nil
    then show ?case by (auto simp: Let_def stage_context_def)
  next
    case (Cons m models)
    then show ?case by (simp add: Let_def)
  qed
  then obtain c where "quote (CompositeModel (models @ [InstantFillModel])) ctx =
      (quote InstantFillModel (stage_context ctx c))\<lparr>xq_filledQuantity := jn_min (xc_quantity ctx) (xc_quantity ctx)\<rparr>"
    by (metis quote.simps(6))
  then show ?thesis using assms by (simp add: Let_def stage_context_def reference_price_def jn_min_def)
qed

theorem composite_forgets_stages_witness:
  "let q = quote (CompositeModel ([PartialFillModel (\<lambda>ctx. Fin 0) InstantFillModel] @ [InstantFillModel])) wit_limit in
    xq_filledQuantity q = xc_quantity wit_limit \<and> xq_status q = QFilled \<and>
    (\<forall>p. xc_type wit_limit = PLimit \<longrightarrow> xc_limitPrice wit_limit = Some p \<longrightarrow> xq_fillPrice q = p)"
  by (rule composite_forgets_stages) (simp add: wit_limit_def)

text \<open>Slippage applies to limit orders too: a buy with a limit of 100 fills above it.\<close>

theorem slippage_passes_limit:
  "let ctx = wit_limit\<lparr>xc_limitPrice := Some (Fin 100)\<rparr>; q = quote (SlippageModel (Fin 10) InstantFillModel) ctx in
    xq_status q = QFilled \<and> jn_less (Fin 100) (xq_fillPrice q)"
  by code_simp

end
