(* ===== verification/Paper_Adapter.thy ===== *)
theory Paper_Adapter
  imports Paper_Engine Execution_Adapter User_Session JS_Math
begin

text \<open>
  \<open>src/execution/paper.ts\<close> and \<open>src/execution/platform/PaperSession.ts\<close>: the simulator behind the
  interface of a product adapter, and the session that replays its fills as user-stream frames. The
  adapter keeps the simulator, the raw record of every order by client order id and the registered
  report listeners, in order of registration and without repetition. An order takes the price the
  simulator awaited and the clock as arguments and returns the thrown error or the response, the
  adapter, and the report each listener got. Listeners are numbers; none of those the library
  registers throws. A session is the listener, its state and the pending \<open>waitForOpen\<close> promises.
  Lemmas: what a refused order and a booked one leave behind, that a booked order can be fetched and
  normalizes back to the simulator's figures, and how a session ends.
\<close>

section \<open>Error messages of the simulator\<close>

fun paper_error_message :: "paper_error \<Rightarrow> string" where
  "paper_error_message QuantityNotPositive = ''Quantity must be positive''"
| "paper_error_message BadLeverage = ''Leverage must be 1-125''"
| "paper_error_message PriceRequired = ''Price required for LIMIT orders''"
| "paper_error_message (PriceFeedError msg) = msg"
| "paper_error_message (ModelRejected reason) =
     ''Order rejected by execution model: '' @ (case reason of None \<Rightarrow> ''no fill'' | Some r \<Rightarrow> r)"
| "paper_error_message ZeroFill = ''Execution model produced zero fill quantity''"
| "paper_error_message (InsufficientBalance required available) =
     ''Insufficient balance. Required: '' @ js_fixed 2 required @ '', Available: '' @ js_fixed 2 available"

section \<open>The adapter\<close>

record paper_report = report_shape +
  rp_symbol :: string
  rp_side :: string
  rp_orderType :: string
  rp_originalQty :: string

record paper_adapter =
  pd_engine :: paper_engine
  pd_asset :: "string option"
  pd_orders :: "(string, js_value) jsmap"
  pd_handlers :: "nat list"

definition new_PaperExecutionAdapter :: "paper_engine \<Rightarrow> string option \<Rightarrow> paper_adapter" where
  "new_PaperExecutionAdapter engine asset = \<lparr>pd_engine = engine, pd_asset = asset, pd_orders = [], pd_handlers = []\<rparr>"

definition paper_api_error :: "string \<Rightarrow> int \<Rightarrow> sdk_error" where
  "paper_api_error message code =
     ApiError \<lparr>ae_message = message, ae_code = code, ae_status = 400, ae_endpoint = [], ae_method = []\<rparr>"

text \<open>The checks before the simulator, and the order they let through. A side is BUY or SELL by its
  type, in either case.\<close>

definition paper_params :: "submission \<Rightarrow> sdk_error + order_params" where
  "paper_params su =
     (let type = to_upper (su_type su); quantity = js_to_number (su_quantity su);
          price = (if su_price su = JUndef then None else Some (js_to_number (su_price su)))
      in if su_client su = []
         then Inl (paper_api_error ''Paper execution requires newClientOrderId (the reconciliation key)'' (-1102))
         else if type \<noteq> ''MARKET'' \<and> type \<noteq> ''LIMIT''
         then Inl (paper_api_error (''Paper execution supports MARKET and LIMIT orders (got '' @ type @ '')'') (-1116))
         else if \<not> jn_finite quantity \<or> jn_le quantity (Fin 0)
         then Inl (paper_api_error ''Quantity must be a positive number'' (-1013))
         else if type = ''LIMIT'' \<and> (case price of None \<Rightarrow> True | Some p \<Rightarrow> \<not> jn_finite p \<or> jn_le p (Fin 0))
         then Inl (paper_api_error ''Limit orders require a positive price'' (-1013))
         else Inr \<lparr>op_symbol = su_symbol su, op_side = (if to_upper (su_side su) = ''BUY'' then PBuy else PSell),
                   op_type = (if type = ''LIMIT'' then PLimit else PMarket), op_quantity = quantity,
                   op_price = price, op_leverage = None\<rparr>)"

definition paper_status :: "paper_order \<Rightarrow> string" where
  "paper_status order = (if po_status order = QFilled then ''FILLED'' else ''PARTIALLY_FILLED'')"

definition paper_asset :: "paper_adapter \<Rightarrow> string" where
  "paper_asset a = (case pd_asset a of None \<Rightarrow> ''USDT'' | Some x \<Rightarrow> x)"

definition order_quote :: "paper_order \<Rightarrow> js_number" where
  "order_quote order = jn_mul (po_filledQuantity order) (po_avgFillPrice order)"

definition paper_raw :: "string \<Rightarrow> submission \<Rightarrow> paper_order \<Rightarrow> js_value" where
  "paper_raw asset su order = JObj
     [(''orderId'', JNum (Fin (of_nat (po_orderId order)))), (''clientOrderId'', JStr (su_client su)),
      (''symbol'', JStr (po_symbol order)), (''side'', JStr (su_side su)), (''type'', JStr (to_upper (su_type su))),
      (''status'', JStr (paper_status order)), (''executedQty'', JStr (js_num_str (po_filledQuantity order))),
      (''cumQuote'', JStr (js_num_str (order_quote order))), (''avgPrice'', JStr (js_num_str (po_avgFillPrice order))),
      (''updateTime'', JNum (po_createdAt order)),
      (''fills'', JArr [JObj
         [(''price'', JStr (js_num_str (po_avgFillPrice order))), (''qty'', JStr (js_num_str (po_filledQuantity order))),
          (''commission'', case po_commission order of None \<Rightarrow> JUndef | Some c \<Rightarrow> JStr (js_num_str c)),
          (''commissionAsset'', if po_commission order = None then JUndef else JStr asset)]]),
      (''paper'', JBool True)]"

definition paper_report_of :: "string \<Rightarrow> submission \<Rightarrow> paper_order \<Rightarrow> paper_report" where
  "paper_report_of asset su order =
     \<lparr>rp_client = su_client su, rp_orderId = Some (Fin (of_nat (po_orderId order))), rp_status = paper_status order,
      rp_lastPrice = Some (js_num_str (po_avgFillPrice order)), rp_lastQty = Some (js_num_str (po_filledQuantity order)),
      rp_commission = Some (case po_commission order of None \<Rightarrow> ''0'' | Some c \<Rightarrow> js_num_str c),
      rp_commissionAsset = Some asset, rp_executedQty = Some (js_num_str (po_filledQuantity order)),
      rp_cumQuote = Some (js_num_str (order_quote order)), rp_avgPrice = Some (js_num_str (po_avgFillPrice order)),
      rp_tradeId = None, rp_symbol = po_symbol order, rp_side = to_upper (su_side su),
      rp_orderType = to_upper (su_type su), rp_originalQty = js_num_str (js_to_number (su_quantity su))\<rparr>"

definition pd_createOrder :: "string + js_number \<Rightarrow> js_number \<Rightarrow> submission \<Rightarrow> paper_adapter
    \<Rightarrow> (sdk_error + js_value) \<times> paper_adapter \<times> (nat \<times> paper_report) list" where
  "pd_createOrder feed now su a =
     (case paper_params su of
        Inl e \<Rightarrow> (Inl e, a, [])
      | Inr ps \<Rightarrow>
          (case paper_placeOrder feed now ps (pd_engine a) of
             (Inl err, e) \<Rightarrow> (Inl (paper_api_error (paper_error_message err) (-2019)), a\<lparr>pd_engine := e\<rparr>, [])
           | (Inr order, e) \<Rightarrow>
               let raw = paper_raw (paper_asset a) su order
               in (Inr raw, a\<lparr>pd_engine := e, pd_orders := jm_set (su_client su) raw (pd_orders a)\<rparr>,
                   map (\<lambda>h. (h, paper_report_of (paper_asset a) su order)) (pd_handlers a))))"

definition key_record :: "string \<Rightarrow> string option \<Rightarrow> paper_adapter \<Rightarrow> js_value option" where
  "key_record symbol client a =
     (case jm_get (case client of None \<Rightarrow> [] | Some c \<Rightarrow> c) (pd_orders a) of
        None \<Rightarrow> None
      | Some raw \<Rightarrow> if js_string (js_field ''symbol'' raw) = to_upper symbol then Some raw else None)"

definition pd_fetchOrder :: "string \<Rightarrow> string option \<Rightarrow> paper_adapter \<Rightarrow> sdk_error + js_value" where
  "pd_fetchOrder symbol client a =
     (case key_record symbol client a of
        None \<Rightarrow> Inl (paper_api_error ''Order does not exist'' (-2013)) | Some raw \<Rightarrow> Inr raw)"

definition listOrderRecords :: "paper_adapter \<Rightarrow> js_value list" where
  "listOrderRecords a = map snd (pd_orders a)"

text \<open>Both branches throw the same error.\<close>

definition pd_cancelOrder :: "string \<Rightarrow> string option \<Rightarrow> paper_adapter \<Rightarrow> sdk_error + js_value" where
  "pd_cancelOrder symbol client a =
     (case key_record symbol client a of
        None \<Rightarrow> Inl (paper_api_error ''Unknown order sent'' (-2011))
      | Some raw \<Rightarrow> Inl (paper_api_error ''Unknown order sent'' (-2011)))"

definition str_or :: "string \<Rightarrow> js_value \<Rightarrow> string" where
  "str_or dflt v = (if nullish v then dflt else js_string v)"

definition paper_fill :: "js_value \<Rightarrow> execution_fill" where
  "paper_fill fill =
     \<lparr>fill_price = str_or ''0'' (js_field ''price'' fill), fill_quantity = str_or ''0'' (js_field ''qty'' fill),
      fill_commission = given js_string (js_field ''commission'' fill),
      fill_commissionAsset = given js_string (js_field ''commissionAsset'' fill), fill_tradeId = None\<rparr>"

definition paper_shape :: "js_number \<Rightarrow> shape_fun" where
  "paper_shape now raw = Inr
     \<lparr>os_orderId = given js_to_number (js_field ''orderId'' raw),
      os_clientOrderId = str_or [] (js_field ''clientOrderId'' raw),
      os_symbol = str_or [] (js_field ''symbol'' raw),
      os_side = str_or [] (js_field ''side'' raw),
      os_type = str_or [] (js_field ''type'' raw),
      os_status = str_or [] (js_field ''status'' raw),
      os_executedQty = Some (str_or ''0'' (js_field ''executedQty'' raw)),
      os_cumQuote = Some (str_or ''0'' (js_field ''cumQuote'' raw)),
      os_avgPrice = Some (str_or ''0'' (js_field ''avgPrice'' raw)),
      os_updateTime = (case given js_to_number (js_field ''updateTime'' raw) of None \<Rightarrow> now | Some t \<Rightarrow> t),
      os_fills = (case js_field ''fills'' raw of JArr fills \<Rightarrow> map paper_fill fills | _ \<Rightarrow> [])\<rparr>"

definition pd_onReport :: "nat \<Rightarrow> paper_adapter \<Rightarrow> paper_adapter" where
  "pd_onReport h a = (if h \<in> set (pd_handlers a) then a else a\<lparr>pd_handlers := pd_handlers a @ [h]\<rparr>)"

section \<open>The session\<close>

text \<open>\<open>Number(x.toPrecision(12))\<close> of a finite \<open>x\<close>: twelve significant digits, the larger magnitude on
  a tie, read back as a double.\<close>

definition precision12 :: "rat \<Rightarrow> js_number" where
  "precision12 x =
     (if x = 0 then Fin 0
      else let e = rlog 10 \<bar>x\<bar>; n = \<lfloor>\<bar>x\<bar> * rpow 10 (11 - e) + 1 / 2\<rfloor>; y = of_int n * rpow 10 (e - 11)
           in js_round (if x < 0 then - y else y))"

definition decimalString :: "js_number \<Rightarrow> string" where
  "decimalString v =
     (case v of
        Fin x \<Rightarrow> if jn_is_integer v then js_num_str v else js_num_str (precision12 x)
      | _ \<Rightarrow> ''0'')"

definition or_zero :: "string option \<Rightarrow> string" where
  "or_zero s = (case s of None \<Rightarrow> ''0'' | Some x \<Rightarrow> x)"

definition opt_num :: "js_number option \<Rightarrow> js_value" where
  "opt_num n = (case n of None \<Rightarrow> JUndef | Some i \<Rightarrow> JNum i)"

definition paperOrderTradeUpdateFrame :: "paper_report \<Rightarrow> js_number \<Rightarrow> js_value" where
  "paperOrderTradeUpdateFrame report atMs = JObj
     [(''e'', JStr ''ORDER_TRADE_UPDATE''), (''E'', JNum atMs), (''T'', JNum atMs),
      (''o'', JObj
        [(''s'', JStr (rp_symbol report)), (''c'', JStr (rp_client report)), (''i'', opt_num (rp_orderId report)),
         (''S'', JStr (rp_side report)), (''ot'', JStr (rp_orderType report)), (''o'', JStr (rp_orderType report)),
         (''f'', JStr ''GTC''), (''q'', JStr (rp_originalQty report)), (''p'', JStr ''0''),
         (''ap'', JStr (or_zero (rp_avgPrice report))), (''X'', JStr (rp_status report)), (''x'', JStr ''TRADE''),
         (''z'', JStr (or_zero (rp_executedQty report))), (''L'', JStr (or_zero (rp_lastPrice report))),
         (''l'', JStr (or_zero (rp_lastQty report))), (''n'', JStr (or_zero (rp_commission report))),
         (''N'', JStr (case rp_commissionAsset report of None \<Rightarrow> ''USDT'' | Some x \<Rightarrow> x)),
         (''t'', opt_num (rp_orderId report)), (''T'', JNum atMs), (''ps'', JStr ''BOTH''), (''R'', JBool False),
         (''paper'', JBool True)])]"

definition signed_amount :: "position_side \<Rightarrow> js_number \<Rightarrow> js_number" where
  "signed_amount side quantity = (if side = PShort then jn_neg quantity else quantity)"

definition paperAccountUpdateFrame :: "string \<Rightarrow> paper_position option \<Rightarrow> js_number \<Rightarrow> js_value" where
  "paperAccountUpdateFrame symbol position atMs =
     (let amount = (case position of None \<Rightarrow> Fin 0 | Some p \<Rightarrow> signed_amount (pp_side p) (pp_quantity p));
          entry = (case position of None \<Rightarrow> Fin 0 | Some p \<Rightarrow> pp_entryPrice p);
          pnl = (case position of None \<Rightarrow> Fin 0 | Some p \<Rightarrow> pp_unrealizedPnl p)
      in JObj
        [(''e'', JStr ''ACCOUNT_UPDATE''), (''E'', JNum atMs), (''T'', JNum atMs),
         (''a'', JObj
           [(''m'', JStr ''ORDER''), (''B'', JArr []),
            (''P'', JArr [JObj
              [(''s'', JStr symbol), (''ps'', JStr ''BOTH''), (''pa'', JStr (decimalString amount)),
               (''ep'', JStr (decimalString entry)), (''up'', JStr (decimalString pnl)), (''mt'', JStr ''cross''),
               (''iw'', JStr ''0''), (''paper'', JBool True)]])])])"

datatype open_wait = OWPending | OWResolved | OWClosed | OWClosedBefore

record paper_session =
  pn_listener :: nat
  pn_state :: session_state
  pn_waits :: "open_wait list"

datatype paper_event = PState session_state | PUserData js_value | PClosedByUser | PClose

definition new_PaperSession :: "nat \<Rightarrow> paper_session" where
  "new_PaperSession listener = \<lparr>pn_listener = listener, pn_state = SIdle, pn_waits = []\<rparr>"

text \<open>The pending promises settle on the first event of either kind; the state the event carries is
  not looked at.\<close>

definition settle_waits :: "open_wait \<Rightarrow> paper_session \<Rightarrow> paper_session" where
  "settle_waits w s = s\<lparr>pn_waits := map (\<lambda>x. if x = OWPending then w else x) (pn_waits s)\<rparr>"

definition pn_waitForOpen :: "paper_session \<Rightarrow> paper_session" where
  "pn_waitForOpen s = s\<lparr>pn_waits := pn_waits s @
     [if pn_state s = SLive then OWResolved else if pn_state s = SClosed then OWClosed else OWPending]\<rparr>"

definition pn_start :: "paper_session \<Rightarrow> paper_adapter \<Rightarrow> bool \<times> paper_session \<times> paper_adapter \<times> paper_event list" where
  "pn_start s a =
     (if pn_state s = SClosed then (False, s, a, [])
      else if pn_state s = SLive then (True, s, a, [])
      else (True, settle_waits OWResolved (s\<lparr>pn_state := SLive\<rparr>), pd_onReport (pn_listener s) a, [PState SLive]))"

definition pn_close :: "paper_session \<Rightarrow> paper_session \<times> paper_event list" where
  "pn_close s =
     (if pn_state s = SClosed then (s, [])
      else (settle_waits OWClosedBefore (settle_waits OWResolved (s\<lparr>pn_state := SClosed\<rparr>)),
            [PState SClosed, PClosedByUser, PClose]))"

definition pn_onFill :: "paper_report \<Rightarrow> paper_engine \<Rightarrow> js_number \<Rightarrow> paper_session \<Rightarrow> js_value list" where
  "pn_onFill report engine now s =
     (if pn_state s \<noteq> SLive \<or> rp_symbol report = [] then []
      else [paperOrderTradeUpdateFrame report now,
            paperAccountUpdateFrame (rp_symbol report) (getPosition (rp_symbol report) engine) now])"

section \<open>Numbers as decimal text\<close>

lemma exp_suffix_digits: "exp_suffix_ok (CHR ''e'' # CHR ''-'' # nat_digits n)" "exp_suffix_ok (CHR ''e'' # CHR ''+'' # nat_digits n)"
  by (simp_all add: exp_suffix_ok_def is_exp_mark_def strip_sign_def)

lemma number_regex:
  assumes I: "I \<noteq> []" "list_all is_digit I" and F: "list_all is_digit F" and X: "exp_suffix_ok X"
    and b: "b = I @ (if dot then CHR ''.'' # F else []) @ X"
  shows "decimal_regex b" "decimal_regex (CHR ''-'' # b)"
proof -
  have s: "strip_sign b = b" "strip_sign (CHR ''-'' # b) = b"
    using strip_sign_digits [OF I] by (simp_all add: b) (simp add: strip_sign_def)
  have x: "takeWhile is_digit X = []" "dropWhile is_digit X = X"
    using X by (auto simp: exp_suffix_ok_def is_exp_mark_def is_digit_def split: list.splits)
  have t: "takeWhile is_digit b = I" "dropWhile is_digit b = (if dot then CHR ''.'' # F @ X else X)"
    using I(2) x by (simp_all add: b takeWhile_digits dropWhile_digits digit_e_not)
  have d: "takeWhile is_digit (F @ X) = F" "dropWhile is_digit (F @ X) = X"
    using F x by (simp_all add: takeWhile_digits dropWhile_digits)
  show "decimal_regex b" "decimal_regex (CHR ''-'' # b)"
    using I X d by (auto simp: decimal_regex_def Let_def s t exp_suffix_ok_def is_exp_mark_def split: list.splits)
qed

lemma positive_str_shape:
  "\<exists>I F X dot. I \<noteq> [] \<and> list_all is_digit I \<and> list_all is_digit F \<and> exp_suffix_ok X \<and>
     (\<forall>c \<in> set X. is_digit c \<or> c \<in> set ''e+-'') \<and> positive_str x = I @ (if dot then CHR ''.'' # F else []) @ X"
proof -
  obtain k m e where s0: "shortest_from 16 x 1 = (k, m, e)" by (rule prod_cases3)
  note s = s0 s0 [unfolded One_nat_def]
  let ?s = "nat_digits m" and ?n = "e + 1"
  have ds: "list_all is_digit (take j ?s)" "list_all is_digit (drop j ?s)" for j
    by (auto simp: list_all_iff dest: in_set_takeD in_set_dropD nat_digits_digit)
  have zs: "list_all is_digit (replicate j (CHR ''0''))" for j by (simp add: list_all_iff is_digit_def)
  note facts = ds zs exp_suffix_digits nat_digits_digit
  consider (whole) "int k \<le> ?n" "?n \<le> 21" | (mixed) "\<not> int k \<le> ?n" "0 < ?n" "?n \<le> 21"
    | (small) "\<not> int k \<le> ?n" "- 6 < ?n" "?n \<le> 0" | (sci) "\<not> (0 < ?n \<and> ?n \<le> 21)" "\<not> (- 6 < ?n \<and> ?n \<le> 0)" "\<not> (int k \<le> ?n \<and> ?n \<le> 21)"
    by linarith
  then show ?thesis
  proof cases
    case whole
    show ?thesis
      by (rule exI [of _ "?s @ replicate (nat ?n - k) (CHR ''0'')"], rule exI [of _ "[]"], rule exI [of _ "[]"], rule exI [of _ "False"])
        (use whole facts in \<open>auto simp: positive_str_def s Let_def exp_suffix_ok_def\<close>)
  next
    case mixed
    show ?thesis
      by (rule exI [of _ "take (nat ?n) ?s"], rule exI [of _ "drop (nat ?n) ?s"], rule exI [of _ "[]"], rule exI [of _ "True"])
        (use mixed facts in \<open>auto simp: positive_str_def s Let_def exp_suffix_ok_def\<close>)
  next
    case small
    show ?thesis
      by (rule exI [of _ "''0''"], rule exI [of _ "replicate (nat (- ?n)) (CHR ''0'') @ ?s"], rule exI [of _ "[]"], rule exI [of _ "True"])
        (use small facts in \<open>simp add: positive_str_def s Let_def exp_suffix_ok_def is_digit_def\<close>)
  next
    case sci
    define X where "X = (if e < 0 then ''e-'' @ nat_digits (nat (- e)) else ''e+'' @ nat_digits (nat e))"
    have X: "exp_suffix_ok X" "\<forall>c \<in> set X. is_digit c \<or> c \<in> set ''e+-''"
      using facts by (auto simp: X_def)
    have p: "positive_str x = (if k = 1 then ?s else take 1 ?s @ ''.'' @ drop 1 ?s) @ X"
      using sci by (auto simp: positive_str_def s Let_def X_def)
    show ?thesis
      by (rule exI [of _ "if k = 1 then ?s else take 1 ?s"], rule exI [of _ "drop 1 ?s"], rule exI [of _ X], rule exI [of _ "k \<noteq> 1"])
        (use facts X p in simp)
  qed
qed

text \<open>A finite number always prints as text the decimal reader accepts.\<close>

lemma num_str_parses: "\<exists>d. dec_from (SIn (js_num_str (Fin x))) = Inr d"
proof -
  have parses: "\<exists>d. dec_parse s = Inr d" if "decimal_regex s" "\<forall>c \<in> set s. \<not> is_space c" for s
    using that trim_id [of s] by (simp add: dec_parse_def Let_def split: prod.split)
  have pos: "decimal_regex (positive_str y) \<and> decimal_regex (CHR ''-'' # positive_str y) \<and>
      (\<forall>c \<in> set (positive_str y). \<not> is_space c)" for y
  proof -
    obtain I F X dot where p: "I \<noteq> []" "list_all is_digit I" "list_all is_digit F" "exp_suffix_ok X"
        "\<forall>c \<in> set X. is_digit c \<or> c \<in> set ''e+-''" "positive_str y = I @ (if dot then CHR ''.'' # F else []) @ X"
      using positive_str_shape by metis
    have "\<not> is_space c" if "is_digit c \<or> c \<in> set ''e+-.''" for c
      using that digit_not_space by (auto simp: is_space_def)
    with p show ?thesis using number_regex [OF p(1-4) p(6)] by (auto simp: list_all_iff)
  qed
  show ?thesis
  proof (cases "x = 0")
    case True
    then show ?thesis by (auto intro!: parses simp: is_space_def decimal_regex_def strip_sign_def is_digit_def)
  next
    case False
    have m: "\<not> is_space (CHR ''-'')" by (simp add: is_space_def)
    from False show ?thesis using pos m by (auto intro!: parses)
  qed
qed

section \<open>What an order leaves behind\<close>

lemma createOrder_refused:
  assumes "pd_createOrder feed now su a = (Inl err, a', reports)"
  shows "reports = [] \<and> pd_orders a' = pd_orders a \<and> pd_handlers a' = pd_handlers a \<and> pd_asset a' = pd_asset a \<and>
    (\<exists>sy. pd_engine a' = pd_engine a \<or> pd_engine a' = snd (positionFor sy (pd_engine a))) \<and>
    (\<exists>msg code. err = paper_api_error msg code \<and> code \<in> {-1102, -1116, -1013, -2019})"
proof (cases "paper_params su")
  case (Inl e)
  then show ?thesis using assms by (auto simp: pd_createOrder_def paper_params_def Let_def split: if_splits)
next
  case (Inr ps)
  then show ?thesis using assms place_refused by (fastforce simp: pd_createOrder_def Let_def split: prod.splits sum.splits)
qed

lemma paper_params_symbol: "paper_params su = Inr ps \<Longrightarrow> op_symbol ps = su_symbol su \<and> su_client su \<noteq> [] \<and> op_quantity ps = js_to_number (su_quantity su)"
  by (auto simp: paper_params_def Let_def split: if_splits)

lemma createOrder_booked:
  assumes "pd_createOrder feed now su a = (Inr raw, a', reports)"
  shows "\<exists>ps marketPrice q order. paper_params su = Inr ps \<and> feed = Inr marketPrice \<and>
    q = quote (pt_executionModel (pd_engine a)) (order_context ps marketPrice) \<and>
    po_symbol order = to_upper (su_symbol su) \<and> po_filledQuantity order = xq_filledQuantity q \<and>
    jn_less (Fin 0) (xq_filledQuantity q) \<and> xq_status q \<noteq> QRejected \<and>
    po_avgFillPrice order = xq_fillPrice q \<and> po_createdAt order = now \<and>
    po_status order = (if xq_status q = QFilled then QFilled else QPartial) \<and>
    paper_placeOrder feed now ps (pd_engine a) = (Inr order, pd_engine a') \<and>
    getPosition (su_symbol su) (pd_engine a') \<noteq> None \<and>
    raw = paper_raw (paper_asset a) su order \<and>
    a' = a\<lparr>pd_engine := pd_engine a', pd_orders := jm_set (su_client su) raw (pd_orders a)\<rparr> \<and>
    reports = map (\<lambda>h. (h, paper_report_of (paper_asset a) su order)) (pd_handlers a)"
proof -
  obtain ps order e where p: "paper_params su = Inr ps" "paper_placeOrder feed now ps (pd_engine a) = (Inr order, e)"
    and a': "raw = paper_raw (paper_asset a) su order"
      "a' = a\<lparr>pd_engine := e, pd_orders := jm_set (su_client su) raw (pd_orders a)\<rparr>"
      "reports = map (\<lambda>h. (h, paper_report_of (paper_asset a) su order)) (pd_handlers a)"
    using assms by (auto simp: pd_createOrder_def Let_def split: prod.splits sum.splits)
  from place_booked [OF p(2)] obtain marketPrice q pos where
    q: "feed = Inr marketPrice" "q = quote (pt_executionModel (pd_engine a)) (order_context ps marketPrice)"
      "xq_status q \<noteq> QRejected" "jn_less (Fin 0) (xq_filledQuantity q)"
    and b: "book_fill ps marketPrice q now pos (snd (positionFor (to_upper (op_symbol ps)) (pd_engine a))) = (order, e)"
    by metis
  from book_fill_order [OF b] paper_params_symbol [OF p(1)] p q a' show ?thesis
    by (auto simp: getPosition_def)
qed

section \<open>Properties\<close>

text \<open>A refusal of the simulator is a definitive rejection with no trace. Whatever goes wrong (a
  malformed order, an outage of the price feed, the execution model, the margin), nothing is
  reported, no record is kept, the account is what it was, and the error is one the retry classifier
  calls never to be retried.\<close>

theorem paper_refusal_definitive:
  assumes "pd_createOrder feed now su a = (Inl err, a', reports)"
  shows "reports = [] \<and> pd_orders a' = pd_orders a \<and>
    pa_orders (pt_account (pd_engine a')) = pa_orders (pt_account (pd_engine a)) \<and>
    pa_balance (pt_account (pd_engine a')) = pa_balance (pt_account (pd_engine a)) \<and>
    pa_availableBalance (pt_account (pd_engine a')) = pa_availableBalance (pt_account (pd_engine a)) \<and>
    (\<exists>code msg. classifyRetrySafety (Some err) = (NeverRetry, DefinitiveRejection code msg))"
  using createOrder_refused [OF assms]
  by (auto simp: paper_api_error_def classifyApiError_def isRateLimitError_def)

definition wit_paper_order :: "js_value \<Rightarrow> submission" where
  "wit_paper_order quantity = \<lparr>su_symbol = ''btcusdt'', su_side = ''BUY'', su_type = ''MARKET'', su_quantity = quantity,
     su_price = JUndef, su_client = ''c1''\<rparr>"

definition wit_adapter :: paper_adapter where
  "wit_adapter = pd_onReport 1 (pd_onReport 0 (new_PaperExecutionAdapter wit_engine None))"

lemma wit_outage: "pd_createOrder (Inl ''timeout'') (Fin 1) (wit_paper_order (JStr ''2'')) wit_adapter =
    (Inl (paper_api_error ''timeout'' (-2019)), wit_adapter, [])"
proof -
  have "paper_params (wit_paper_order (JStr ''2'')) =
      Inr \<lparr>op_symbol = ''btcusdt'', op_side = PBuy, op_type = PMarket, op_quantity = Fin 2, op_price = None, op_leverage = None\<rparr>"
    by code_simp
  then show ?thesis
    by (simp add: pd_createOrder_def paper_placeOrder_def validate_order_def order_leverage_def)
qed

theorem paper_refusal_definitive_witness:
  "\<exists>code msg. classifyRetrySafety (Some (paper_api_error ''timeout'' (-2019))) = (NeverRetry, DefinitiveRejection code msg)"
  using paper_refusal_definitive [OF wit_outage] by simp

text \<open>C26: An order the simulator booked can be fetched, and says what the simulator did. The simulator
  filled it with the quantity, price and status of its execution model's quote; the record under its
  client order id is the response, the records of other ids are untouched; reading the record as an
  order gives the simulator's order id, the order's own names, the quote's status, quantity, price and
  their product, with exactly one fill; and every listener, in the order of registration, got one
  report with those same figures.\<close>

theorem paper_order_roundtrip:
  assumes "pd_createOrder feed now su a = (Inr raw, a', reports)"
  shows "\<exists>ps marketPrice q order. paper_params su = Inr ps \<and> feed = Inr marketPrice \<and>
    q = quote (pt_executionModel (pd_engine a)) (order_context ps marketPrice) \<and>
    paper_placeOrder feed now ps (pd_engine a) = (Inr order, pd_engine a') \<and>
    jn_less (Fin 0) (xq_filledQuantity q) \<and> xq_status q \<noteq> QRejected \<and>
    pd_fetchOrder (su_symbol su) (Some (su_client su)) a' = Inr raw \<and>
    (\<forall>sy c. c \<noteq> Some (su_client su) \<longrightarrow> pd_fetchOrder sy c a' = pd_fetchOrder sy c a) \<and>
    (let status = (if xq_status q = QFilled then ''FILLED'' else ''PARTIALLY_FILLED'');
         qty = js_num_str (xq_filledQuantity q); price = js_num_str (xq_fillPrice q);
         cost = js_num_str (jn_mul (xq_filledQuantity q) (xq_fillPrice q));
         orderId = Some (Fin (of_nat (po_orderId order))); asset = paper_asset a
     in paper_shape t raw = Inr
          \<lparr>os_orderId = orderId, os_clientOrderId = su_client su, os_symbol = to_upper (su_symbol su), os_side = su_side su,
           os_type = to_upper (su_type su), os_status = status, os_executedQty = Some qty, os_cumQuote = Some cost,
           os_avgPrice = Some price, os_updateTime = now,
           os_fills = [\<lparr>fill_price = price, fill_quantity = qty, fill_commission = map_option js_num_str (po_commission order),
             fill_commissionAsset = map_option (\<lambda>_. asset) (po_commission order), fill_tradeId = None\<rparr>]\<rparr> \<and>
        reports = map (\<lambda>h. (h,
          \<lparr>rp_client = su_client su, rp_orderId = orderId, rp_status = status, rp_lastPrice = Some price, rp_lastQty = Some qty,
           rp_commission = Some (case po_commission order of None \<Rightarrow> ''0'' | Some c \<Rightarrow> js_num_str c),
           rp_commissionAsset = Some asset, rp_executedQty = Some qty, rp_cumQuote = Some cost, rp_avgPrice = Some price,
           rp_tradeId = None, rp_symbol = to_upper (su_symbol su), rp_side = to_upper (su_side su),
           rp_orderType = to_upper (su_type su), rp_originalQty = js_num_str (js_to_number (su_quantity su))\<rparr>)) (pd_handlers a))"
proof -
  from createOrder_booked [OF assms] obtain ps marketPrice q order where
    o: "paper_params su = Inr ps" "feed = Inr marketPrice"
      "q = quote (pt_executionModel (pd_engine a)) (order_context ps marketPrice)"
      "po_symbol order = to_upper (su_symbol su)" "po_filledQuantity order = xq_filledQuantity q"
      "jn_less (Fin 0) (xq_filledQuantity q)" "xq_status q \<noteq> QRejected"
      "po_avgFillPrice order = xq_fillPrice q" "po_createdAt order = now"
      "po_status order = (if xq_status q = QFilled then QFilled else QPartial)"
      "paper_placeOrder feed now ps (pd_engine a) = (Inr order, pd_engine a')"
      "raw = paper_raw (paper_asset a) su order"
      "a' = a\<lparr>pd_engine := pd_engine a', pd_orders := jm_set (su_client su) raw (pd_orders a)\<rparr>"
      "reports = map (\<lambda>h. (h, paper_report_of (paper_asset a) su order)) (pd_handlers a)"
    by metis
  have named: "su_client su \<noteq> []" using paper_params_symbol [OF o(1)] by simp
  have get: "jm_get c (pd_orders a') = (if c = su_client su then Some raw else jm_get c (pd_orders a))" for c
    by (subst o(13)) (simp add: jm.get_put)
  have "js_field ''symbol'' raw = JStr (to_upper (su_symbol su))" by (simp add: o(4,12) paper_raw_def)
  then have fetched: "pd_fetchOrder (su_symbol su) (Some (su_client su)) a' = Inr raw"
    by (simp add: pd_fetchOrder_def key_record_def get)
  have others: "c \<noteq> Some (su_client su) \<Longrightarrow> pd_fetchOrder sy c a' = pd_fetchOrder sy c a" for sy c
    using named by (auto simp: pd_fetchOrder_def key_record_def get split: option.split)
  have status: "paper_status order = (if xq_status q = QFilled then ''FILLED'' else ''PARTIALLY_FILLED'')"
    using o(10) by (simp add: paper_status_def)
  note figures = o(4,5,8,9) status order_quote_def
  show ?thesis
    by (intro exI [of _ ps] exI [of _ marketPrice] exI [of _ q] exI [of _ order] conjI o(1-3,6,7,11) fetched allI impI others)
      (cases "po_commission order"; simp add: o(12,14) figures paper_report_of_def paper_shape_def paper_raw_def str_or_def
        nullish_def given_def paper_fill_def Let_def)+
qed

definition wit_call :: "(sdk_error + js_value) \<times> paper_adapter \<times> (nat \<times> paper_report) list" where
  "wit_call = pd_createOrder (Inr (Fin 3)) (Fin 1) (wit_paper_order (JStr ''2'')) wit_adapter"

lemma wit_call_booked: "\<exists>raw a' reports. wit_call = (Inr raw, a', reports)"
proof -
  have b: "(case fst wit_call of Inr raw \<Rightarrow> True | Inl e \<Rightarrow> False)" by code_simp
  obtain r a' reports where w: "wit_call = (r, a', reports)" by (rule prod_cases3)
  from b [unfolded w] w show ?thesis by (cases r) auto
qed

theorem paper_order_roundtrip_witness:
  "pd_fetchOrder ''btcusdt'' (Some ''c1'') (fst (snd wit_call)) = fst wit_call \<and>
   pd_fetchOrder ''btcusdt'' (Some ''c2'') (fst (snd wit_call)) = pd_fetchOrder ''btcusdt'' (Some ''c2'') wit_adapter \<and>
   map fst (snd (snd wit_call)) = [0, 1]"
proof -
  obtain raw a' reports where w: "wit_call = (Inr raw, a', reports)" using wit_call_booked by blast
  from paper_order_roundtrip [OF this [unfolded wit_call_def], where t = "Fin 0", unfolded wit_paper_order_def submission.select_convs Let_def]
  have "pd_fetchOrder ''btcusdt'' (Some ''c1'') a' = Inr raw \<and>
      (\<forall>sy c. c \<noteq> Some ''c1'' \<longrightarrow> pd_fetchOrder sy c a' = pd_fetchOrder sy c wit_adapter) \<and>
      map fst reports = pd_handlers wit_adapter"
    by (elim exE conjE, intro conjI) (assumption, assumption, simp add: comp_def)
  then show ?thesis unfolding w by (simp add: wit_adapter_def pd_onReport_def new_PaperExecutionAdapter_def)
qed

text \<open>A closed paper session sends nothing and stays closed, and closing it twice does nothing. But a caller
  waiting for it to open is told it did: the closing announces a state change before the close, and
  the waiter takes any state change for going live, so its promise resolves and the rejection
  written for this case is never used.\<close>

theorem closing_resolves_waiters:
  assumes "pn_state s \<noteq> SLive" "pn_state s \<noteq> SClosed"
  shows "let s' = fst (pn_close (pn_waitForOpen s)) in
    last (pn_waits s') = OWResolved \<and> pn_state s' = SClosed \<and> pn_close s' = (s', []) \<and>
    fst (pn_start s' a) = False \<and> pn_onFill report engine now s' = []"
  using assms by (simp add: Let_def pn_close_def pn_waitForOpen_def settle_waits_def pn_start_def pn_onFill_def)

theorem closing_resolves_waiters_witness:
  "last (pn_waits (fst (pn_close (pn_waitForOpen (new_PaperSession 0))))) = OWResolved"
  using closing_resolves_waiters [of "new_PaperSession 0"] by (simp add: new_PaperSession_def Let_def)

end
