(* ===== verification/Execution_Platform.thy ===== *)
theory Execution_Platform
  imports Paper_Adapter
begin

text \<open>
  \<open>src/execution/platform/Reconciler.ts\<close>, \<open>ExecutionPlatform.ts\<close> and \<open>PaperBackend.ts\<close>: the platform
  that puts a user stream, the order and position trackers and the execution manager together. A
  reconciliation pass takes the answers of the REST calls it makes as arguments and returns what it
  threw or counted, with the trackers. The paper runtime is one record: the adapter with its
  simulator, the simulator in the server seat when it is another one, the manager, the session and
  the trackers. Its listeners are numbers, 0 for the manager and one for each session started.
  Lemmas: what a pass can and cannot change, and that the manager and the trackers agree on an order
  the simulator fills.
\<close>

section \<open>Normalizers\<close>

definition toDecimalString :: "js_value \<Rightarrow> string" where
  "toDecimalString v =
     (if nullish v \<or> v = JStr [] then ''0'' else case v of JNum n \<Rightarrow> decimalString n | _ \<Rightarrow> js_string v)"

definition nonZeroish :: "string \<Rightarrow> string option" where
  "nonZeroish value =
     (let trimmed = trim value
      in if trimmed = [] \<or> trimmed = ''0'' \<or> trimmed = ''0.0'' \<or> trimmed = ''-0'' then None
         else if string_to_number trimmed = Fin 0 then None else Some trimmed)"

definition orderShapeFromUsdmOpenOrder :: "js_number \<Rightarrow> js_value \<Rightarrow> order_shape" where
  "orderShapeFromUsdmOpenOrder now raw =
     \<lparr>os_orderId = js_numOr (js_field ''orderId'' raw),
      os_clientOrderId = str_or [] (js_field ''clientOrderId'' raw),
      os_symbol = str_or [] (js_field ''symbol'' raw),
      os_side = str_or [] (js_field ''side'' raw),
      os_type = str_or [] (js_field ''type'' raw),
      os_status = str_or [] (js_field ''status'' raw),
      os_executedQty = Some (toDecimalString (js_field ''executedQty'' raw)),
      os_cumQuote = Some (toDecimalString (js_field ''cumQuote'' raw)),
      os_avgPrice = Some (toDecimalString (js_field ''avgPrice'' raw)),
      os_updateTime = time_or now (js_field ''updateTime'' raw),
      os_fills = []\<rparr>"

definition positionUpdatesFromPositionRisk :: "js_number \<Rightarrow> js_value \<Rightarrow> position_update list" where
  "positionUpdatesFromPositionRisk fetchedAt raw =
     (case nonempty_string (js_field ''symbol'' raw) of
        None \<Rightarrow> []
      | Some symbol \<Rightarrow>
          [\<lparr>pu_symbol = symbol,
            pu_positionSide = str_or ''BOTH'' (js_field ''positionSide'' raw),
            pu_positionAmount = toDecimalString (js_field ''positionAmt'' raw),
            pu_entryPrice = toDecimalString (js_field ''entryPrice'' raw),
            pu_unrealizedPnl = nonZeroish (toDecimalString (js_field ''unRealizedProfit'' raw)),
            pu_marginType = or_undef (str_or ''cross'' (js_field ''marginType'' raw)),
            pu_isolatedWallet = given toDecimalString (js_field ''isolatedMargin'' raw),
            pu_breakEvenPrice = given toDecimalString (js_field ''breakEvenPrice'' raw),
            pu_updateTime = time_or fetchedAt (js_field ''updateTime'' raw)\<rparr>])"

definition orderShapeFromSpotOpenOrder :: "js_number \<Rightarrow> js_value \<Rightarrow> order_shape" where
  "orderShapeFromSpotOpenOrder now raw =
     \<lparr>os_orderId = js_numOr (js_field ''orderId'' raw),
      os_clientOrderId = str_or [] (js_field ''clientOrderId'' raw),
      os_symbol = str_or [] (js_field ''symbol'' raw),
      os_side = str_or [] (js_field ''side'' raw),
      os_type = str_or [] (js_field ''type'' raw),
      os_status = str_or [] (js_field ''status'' raw),
      os_executedQty = Some (toDecimalString (js_field ''executedQty'' raw)),
      os_cumQuote = Some (toDecimalString (let q = js_field ''cummulativeQuoteQty'' raw
         in if nullish q then js_field ''cumQuote'' raw else q)),
      os_avgPrice = Some [],
      os_updateTime = time_or now (js_field ''updateTime'' raw),
      os_fills = []\<rparr>"

definition paperPositionUpdate :: "js_number \<Rightarrow> paper_position \<Rightarrow> position_update" where
  "paperPositionUpdate fetchedAt p =
     \<lparr>pu_symbol = pp_symbol p, pu_positionSide = ''BOTH'',
      pu_positionAmount = decimalString (signed_amount (pp_side p) (pp_quantity p)),
      pu_entryPrice = decimalString (pp_entryPrice p),
      pu_unrealizedPnl = Some (decimalString (pp_unrealizedPnl p)),
      pu_marginType = Some ''cross'', pu_isolatedWallet = Some ''0'', pu_breakEvenPrice = None,
      pu_updateTime = fetchedAt\<rparr>"

section \<open>The reconciliation pass\<close>

datatype reconcile_error = RcTransport sdk_error | RcDecimal dec_error | RcSymbolsRequired

text \<open>Folding stops where a shape throws; what was folded before stays folded.\<close>

fun fold_shapes :: "order_shape list \<Rightarrow> order_tracker \<Rightarrow> reconcile_error option \<times> order_tracker" where
  "fold_shapes [] t = (None, t)"
| "fold_shapes (sh # shs) t =
     (case ot_applyOrderShape sh t of
        (Some e, t', _) \<Rightarrow> (Some (RcDecimal e), t')
      | (None, t', _) \<Rightarrow> fold_shapes shs t')"

definition wanted :: "string list option \<Rightarrow> position_update \<Rightarrow> bool" where
  "wanted symbols u = (case symbols of None \<Rightarrow> True | Some ss \<Rightarrow> pu_symbol u \<in> set ss)"

definition fold_positions :: "string list option \<Rightarrow> position_update list \<Rightarrow> position_tracker \<Rightarrow> position_tracker \<times> nat" where
  "fold_positions symbols us t =
     (let kept = filter (wanted symbols) us in (foldl (\<lambda>t u. pt_applyUpdate u t) t kept, length kept))"

record summary =
  sm_orders :: nat
  sm_positions :: nat
  sm_fetchedAt :: js_number

type_synonym pass_result = "(reconcile_error + summary) \<times> order_tracker \<times> position_tracker"

definition reconcile_paper :: "paper_adapter \<Rightarrow> paper_engine \<Rightarrow> string list option \<Rightarrow> js_number \<Rightarrow> order_tracker \<Rightarrow> position_tracker \<Rightarrow> pass_result" where
  "reconcile_paper a seat symbols now ot pt =
     (let raws = listOrderRecords a; (thrown, ot') = fold_shapes (map (orderShapeFromUsdmOpenOrder now) raws) ot
      in case thrown of
           Some e \<Rightarrow> (Inl e, ot', pt)
         | None \<Rightarrow>
             let (pt', n) = fold_positions symbols (map (paperPositionUpdate now \<circ> snd) (pa_positions (pt_account seat))) pt
             in (Inr \<lparr>sm_orders = length raws, sm_positions = n, sm_fetchedAt = now\<rparr>, ot', pt'))"

text \<open>The query of the first call: one symbol narrows it, several do not.\<close>

definition usdm_open_orders_query :: "string list option \<Rightarrow> string option" where
  "usdm_open_orders_query symbols = (case symbols of Some [s] \<Rightarrow> Some (to_upper s) | _ \<Rightarrow> None)"

definition reconcile_usdm :: "sdk_error + js_value list \<Rightarrow> sdk_error + js_value list \<Rightarrow> string list option \<Rightarrow> js_number
    \<Rightarrow> order_tracker \<Rightarrow> position_tracker \<Rightarrow> pass_result" where
  "reconcile_usdm openOrders positionRisk symbols now ot pt =
     (case openOrders of
        Inl e \<Rightarrow> (Inl (RcTransport e), ot, pt)
      | Inr raws \<Rightarrow>
          (case fold_shapes (map (orderShapeFromUsdmOpenOrder now) raws) ot of
             (Some e, ot') \<Rightarrow> (Inl e, ot', pt)
           | (None, ot') \<Rightarrow>
               (case positionRisk of
                  Inl e \<Rightarrow> (Inl (RcTransport e), ot', pt)
                | Inr rows \<Rightarrow>
                    let (pt', n) = fold_positions symbols (concat (map (positionUpdatesFromPositionRisk now) rows)) pt
                    in (Inr \<lparr>sm_orders = length raws, sm_positions = n, sm_fetchedAt = now\<rparr>, ot', pt'))))"

definition reconcile_spot :: "sdk_error + js_value list \<Rightarrow> string list option \<Rightarrow> js_number
    \<Rightarrow> order_tracker \<Rightarrow> position_tracker \<Rightarrow> pass_result" where
  "reconcile_spot openOrders symbols now ot pt =
     (if symbols = None \<or> symbols = Some [] then (Inl RcSymbolsRequired, ot, pt)
      else case openOrders of
             Inl e \<Rightarrow> (Inl (RcTransport e), ot, pt)
           | Inr raws \<Rightarrow>
               (case fold_shapes (map (orderShapeFromSpotOpenOrder now) raws) ot of
                  (Some e, ot') \<Rightarrow> (Inl e, ot', pt)
                | (None, ot') \<Rightarrow> (Inr \<lparr>sm_orders = length raws, sm_positions = 0, sm_fetchedAt = now\<rparr>, ot', pt)))"

section \<open>The paper runtime\<close>

record paper_world =
  pw_adapter :: paper_adapter
  pw_seat :: "paper_engine option"
  pw_manager :: exec_manager
  pw_session :: "paper_session option"
  pw_nextListener :: nat
  pw_orders :: order_tracker
  pw_positions :: position_tracker

definition seat_engine :: "paper_world \<Rightarrow> paper_engine" where
  "seat_engine w = (case pw_seat w of None \<Rightarrow> pd_engine (pw_adapter w) | Some e \<Rightarrow> e)"

text \<open>A provided adapter keeps its own simulator, and the one built here takes the seat.\<close>

definition createPaperExecutionPlatform :: "paper_adapter option \<Rightarrow> paper_engine \<Rightarrow> paper_world" where
  "createPaperExecutionPlatform provided engine =
     \<lparr>pw_adapter = pd_onReport 0 (case provided of None \<Rightarrow> new_PaperExecutionAdapter engine None | Some a \<Rightarrow> a),
      pw_seat = (case provided of None \<Rightarrow> None | Some a \<Rightarrow> Some engine),
      pw_manager = new_ExecutionManager (Some ''paper'') None None None,
      pw_session = None, pw_nextListener = 1, pw_orders = new_OrderTracker None, pw_positions = []\<rparr>"

definition startUserSession :: "paper_world \<Rightarrow> paper_world" where
  "startUserSession w =
     (case pw_session w of
        Some s \<Rightarrow> w
      | None \<Rightarrow>
          (case pn_start (new_PaperSession (pw_nextListener w)) (pw_adapter w) of
             (_, s, a, _) \<Rightarrow> w\<lparr>pw_session := Some s, pw_adapter := a, pw_nextListener := Suc (pw_nextListener w)\<rparr>))"

text \<open>Closing through the platform, and closing the session object itself.\<close>

definition platform_close :: "paper_world \<Rightarrow> paper_world" where
  "platform_close w = w\<lparr>pw_session := None\<rparr>"

definition session_close :: "paper_world \<Rightarrow> paper_world" where
  "session_close w = w\<lparr>pw_session := map_option (\<lambda>s. fst (pn_close s)) (pw_session w)\<rparr>"

text \<open>A frame the session emits goes to both trackers. The handler of the order tracker does not throw
  on the frames of a session: what it folds was parsed before.\<close>

definition feed_frame :: "js_number \<Rightarrow> paper_world \<Rightarrow> js_value \<Rightarrow> paper_world" where
  "feed_frame now w event =
     w\<lparr>pw_orders := fst (snd (ot_applyUserEvent now event (pw_orders w))),
       pw_positions := pt_applyUserEvent now event (pw_positions w)\<rparr>"

definition deliver :: "js_number \<Rightarrow> paper_world \<Rightarrow> nat \<times> paper_report \<Rightarrow> paper_world" where
  "deliver now w d =
     (if fst d = 0 then w\<lparr>pw_manager := onExecutionReport (report_shape.truncate (snd d)) now (pw_manager w)\<rparr>
      else case pw_session w of
             None \<Rightarrow> w
           | Some s \<Rightarrow>
               if fst d \<noteq> pn_listener s then w
               else foldl (feed_frame now) w (pn_onFill (snd d) (seat_engine w) now s))"

text \<open>The simulator runs an order the manager sent, and the manager gets the answer.\<close>

definition run_create :: "string + js_number \<Rightarrow> js_number \<Rightarrow> submission \<Rightarrow> paper_world \<Rightarrow> (sdk_error + js_value) \<times> paper_world" where
  "run_create feed now su w =
     (case pd_createOrder feed now su (pw_adapter w) of
        (answer, a, reports) \<Rightarrow> (answer, foldl (deliver now) (w\<lparr>pw_adapter := a\<rparr>) reports))"

definition run_answer :: "string \<Rightarrow> js_number \<Rightarrow> sdk_error + js_value \<Rightarrow> paper_world \<Rightarrow> paper_world" where
  "run_answer cid now answer w = w\<lparr>pw_manager := on_created (paper_shape now) cid answer now (pw_manager w)\<rparr>"

section \<open>What a pass changes\<close>

lemma applyOrderShape_keeps:
  assumes inv: "ot_inv t" and room: "ot_size t < ot_maxRecords t" and c: "os_clientOrderId sh \<noteq> k"
    and r: "ot_applyOrderShape sh t = (err, t', em)"
  shows "ot_inv t' \<and> ot_get k t' = ot_get k t \<and> ot_size t' \<le> Suc (ot_size t) \<and> ot_maxRecords t' = ot_maxRecords t"
proof -
  have inv': "ot_inv t'" using ot_step_inv [OF inv, of "OpShape sh"] r by (simp add: ot_step_def)
  show ?thesis
  proof (cases "orderUpdateFromOrderShape sh")
    case (Inl e)
    then show ?thesis using r inv by (simp add: ot_applyOrderShape_def)
  next
    case (Inr u)
    then have u: "ou_clientOrderId u \<noteq> k" and ap: "ot_applyUpdate u t = (err, t', em)"
      using c r by (auto simp: orderUpdateFromOrderShape_def ot_applyOrderShape_def bindR_Inr_iff)
    show ?thesis
    proof (cases err)
      case None
      note res = applyUpdate_result [OF inv refl ap [unfolded None]]
      have mx: "ot_maxRecords t' = ot_maxRecords t"
        using ap by (auto simp: ot_applyUpdate_def Let_def evictOverflow_def split: if_splits prod.splits option.splits)
      show ?thesis
      proof (cases "ignored u (ot_get (ou_clientOrderId u) t)")
        case True
        with res inv show ?thesis by simp
      next
        case False
        let ?keys = "if ot_get (ou_clientOrderId u) t = None then jm_keys (ot_records t) @ [ou_clientOrderId u] else jm_keys (ot_records t)"
        have len: "length ?keys \<le> ot_maxRecords t" using room by (simp add: ot_size_def)
        from res False len have keys: "jm_keys (ot_records t') = ?keys"
          and get: "\<forall>k \<in> set (jm_keys (ot_records t')). ot_get k t' =
             (if k = ou_clientOrderId u then Some (snd (observe u (ot_get (ou_clientOrderId u) t))) else ot_get k t)"
          by (simp_all add: Let_def)
        have "ot_get k t' = ot_get k t"
        proof (cases "k \<in> set (jm_keys (ot_records t'))")
          case True
          then show ?thesis using get u by auto
        next
          case False
          moreover from False have "k \<notin> set (jm_keys (ot_records t))" unfolding keys by (auto split: if_splits)
          ultimately show ?thesis by (simp add: ot_get_def jm_keys_iff)
        qed
        with inv' mx keys show ?thesis by (simp add: ot_size_def)
      qed
    next
      case (Some e)
      then have "t' = t \<or> (\<exists>r. jm_get (ou_clientOrderId u) (ot_records t) \<noteq> None \<and> t' = t\<lparr>ot_records := jm_set (ou_clientOrderId u) r (ot_records t)\<rparr>)"
        using ap by (auto simp: ot_applyUpdate_def Let_def split: if_splits prod.splits option.splits)
      then show ?thesis using inv' u
        by (auto simp: ot_get_def ot_size_def jm.get_put jm.length_put_present)
    qed
  qed
qed

lemma fold_shapes_keeps:
  "ot_inv t \<Longrightarrow> ot_size t + length shs \<le> ot_maxRecords t \<Longrightarrow> k \<notin> os_clientOrderId ` set shs \<Longrightarrow>
   ot_get k (snd (fold_shapes shs t)) = ot_get k t"
proof (induction shs arbitrary: t)
  case (Cons sh shs)
  obtain err t' em where r: "ot_applyOrderShape sh t = (err, t', em)" by (rule prod_cases3)
  have "ot_inv t' \<and> ot_get k t' = ot_get k t \<and> ot_size t' \<le> Suc (ot_size t) \<and> ot_maxRecords t' = ot_maxRecords t"
    by (rule applyOrderShape_keeps [OF Cons.prems(1) _ _ r]) (use Cons.prems in auto)
  with Cons r show ?case by (auto split: option.split)
qed simp

lemma fold_apply_get:
  "pt_get sy side (foldl (\<lambda>t u. pt_applyUpdate u t) t us) =
     (case filter (\<lambda>u. positionKey (pu_symbol u) (pu_positionSide u) = positionKey sy (case side of None \<Rightarrow> ''BOTH'' | Some s \<Rightarrow> s)) us of
        [] \<Rightarrow> pt_get sy side t | v # vs \<Rightarrow> Some (position_record_of (last (v # vs))))"
proof (induction us arbitrary: t)
  case (Cons u us)
  then show ?case by (auto simp: pt_get_def pt_applyUpdate_def jm.get_put split: list.split)
qed simp

section \<open>Delivering a report\<close>

lemma feed_frame_sel [simp]:
  "pw_adapter (feed_frame now w ev) = pw_adapter w" "pw_seat (feed_frame now w ev) = pw_seat w"
  "pw_manager (feed_frame now w ev) = pw_manager w" "pw_session (feed_frame now w ev) = pw_session w"
  "pw_nextListener (feed_frame now w ev) = pw_nextListener w"
  by (simp_all add: feed_frame_def)

lemma feed_frames_sel [simp]:
  "pw_adapter (foldl (feed_frame now) w evs) = pw_adapter w" "pw_seat (foldl (feed_frame now) w evs) = pw_seat w"
  "pw_manager (foldl (feed_frame now) w evs) = pw_manager w" "pw_session (foldl (feed_frame now) w evs) = pw_session w"
  "pw_nextListener (foldl (feed_frame now) w evs) = pw_nextListener w"
  by (induction evs arbitrary: w) simp_all

lemma deliver_sel [simp]:
  "pw_adapter (deliver now w d) = pw_adapter w" "pw_seat (deliver now w d) = pw_seat w"
  "pw_session (deliver now w d) = pw_session w" "pw_nextListener (deliver now w d) = pw_nextListener w"
  by (simp_all add: deliver_def split: option.split)

lemma delivers_sel [simp]:
  "pw_adapter (foldl (deliver now) w ds) = pw_adapter w" "pw_seat (foldl (deliver now) w ds) = pw_seat w"
  "pw_session (foldl (deliver now) w ds) = pw_session w" "pw_nextListener (foldl (deliver now) w ds) = pw_nextListener w"
  by (induction ds arbitrary: w) simp_all

text \<open>A report of an order the manager does not know yet reaches the trackers only, and once.\<close>

lemma deliver_unheard:
  "pw_session w = Some s \<Longrightarrow> 0 \<notin> set hs \<Longrightarrow> pn_listener s \<notin> set hs \<Longrightarrow>
   foldl (deliver now) w (map (\<lambda>h. (h, rp)) hs) = w"
  by (induction hs arbitrary: w) (auto simp: deliver_def)

lemma deliver_manager:
  "jm_get (rp_client rp) (em_byClient (pw_manager w)) = None \<Longrightarrow> deliver now w (0, rp) = w"
  by (cases rp) (simp add: deliver_def onExecutionReport_def report_shape.truncate_def)

lemma deliver_all:
  "distinct hs \<Longrightarrow> jm_get (rp_client rp) (em_byClient (pw_manager w)) = None \<Longrightarrow> pw_session w = Some s \<Longrightarrow>
   pn_listener s \<noteq> 0 \<Longrightarrow>
   foldl (deliver now) w (map (\<lambda>h. (h, rp)) hs) =
     (if pn_listener s \<in> set hs then foldl (feed_frame now) w (pn_onFill rp (seat_engine w) now s) else w)"
proof (induction hs arbitrary: w)
  case (Cons h hs)
  consider (manager) "h = 0" | (session) "h = pn_listener s" | (other) "h \<noteq> 0" "h \<noteq> pn_listener s" by blast
  then show ?case
  proof cases
    case manager
    then show ?thesis using Cons deliver_manager [of rp w now] by simp
  next
    case session
    have d: "deliver now w (h, rp) = foldl (feed_frame now) w (pn_onFill rp (seat_engine w) now s)"
      using session Cons.prems by (simp add: deliver_def)
    have "foldl (deliver now) (deliver now w (h, rp)) (map (\<lambda>h. (h, rp)) hs) = deliver now w (h, rp)"
      using Cons.IH [of "deliver now w (h, rp)"] Cons.prems session arg_cong [OF d, of pw_manager] by simp
    with d session show ?thesis by simp
  next
    case other
    then have "deliver now w (h, rp) = w" using Cons.prems by (simp add: deliver_def)
    with other Cons show ?thesis by simp
  qed
qed simp

section \<open>Properties\<close>

text \<open>A pass over the REST views only adds. An order the exchange no longer lists as open (it filled or was
  cancelled while the stream was down) keeps the record the tracker had, still open if it was, and a
  position without a row keeps its last amount: the pass closes nothing.\<close>

theorem reconcile_never_closes:
  assumes "reconcile_usdm (Inr raws) (Inr rows) symbols now ot pt = (res, ot', pt')"
    and "ot_inv ot" "ot_size ot + length raws \<le> ot_maxRecords ot"
    and "\<forall>raw \<in> set raws. str_or [] (js_field ''clientOrderId'' raw) \<noteq> k"
    and "\<forall>row \<in> set rows. \<forall>u \<in> set (positionUpdatesFromPositionRisk now row).
           positionKey (pu_symbol u) (pu_positionSide u) \<noteq> positionKey sy side"
  shows "ot_get k ot' = ot_get k ot \<and> pt_get sy (Some side) pt' = pt_get sy (Some side) pt"
proof -
  let ?shs = "map (orderShapeFromUsdmOpenOrder now) raws"
  have "ot_get k (snd (fold_shapes ?shs ot)) = ot_get k ot"
    by (rule fold_shapes_keeps) (use assms in \<open>auto simp: orderShapeFromUsdmOpenOrder_def\<close>)
  moreover have "ot' = snd (fold_shapes ?shs ot)"
    using assms(1) by (auto simp: reconcile_usdm_def Let_def split: prod.splits option.splits)
  moreover have "pt_get sy (Some side) pt' = pt_get sy (Some side) pt"
  proof -
    let ?us = "filter (wanted symbols) (concat (map (positionUpdatesFromPositionRisk now) rows))"
    have "filter (\<lambda>u. positionKey (pu_symbol u) (pu_positionSide u) = positionKey sy side) ?us = []"
      using assms(5) by (auto simp: filter_empty_conv)
    then have "pt_get sy (Some side) (foldl (\<lambda>t u. pt_applyUpdate u t) pt ?us) = pt_get sy (Some side) pt"
      unfolding fold_apply_get by simp
    moreover have "pt' = pt \<or> pt' = foldl (\<lambda>t u. pt_applyUpdate u t) pt ?us"
      using assms(1) by (auto simp: reconcile_usdm_def fold_positions_def Let_def split: prod.splits option.splits)
    ultimately show ?thesis by auto
  qed
  ultimately show ?thesis by simp
qed

text \<open>A symbol given in lower case narrows the order query and silently drops every position. The query
  upper-cases it, the filter of the position rows compares it as it was given.\<close>

theorem lower_case_symbol_drops_positions:
  assumes "to_upper s \<noteq> s" "\<forall>row \<in> set rows. \<forall>sy. js_field ''symbol'' row = JStr sy \<longrightarrow> to_upper sy = sy"
    and "reconcile_usdm (Inr raws) (Inr rows) (Some [s]) now ot pt = (Inr sm, ot', pt')"
  shows "usdm_open_orders_query (Some [s]) = Some (to_upper s) \<and> sm_positions sm = 0 \<and> pt' = pt"
proof -
  have "wanted (Some [s]) u \<Longrightarrow> row \<in> set rows \<Longrightarrow> u \<in> set (positionUpdatesFromPositionRisk now row) \<Longrightarrow> False" for u row
    using assms(1,2) by (auto simp: wanted_def positionUpdatesFromPositionRisk_def nonempty_string_def or_undef_def
        split: option.splits js_value.splits if_splits)
  then have "filter (wanted (Some [s])) (concat (map (positionUpdatesFromPositionRisk now) rows)) = []"
    by (auto simp: filter_empty_conv)
  then show ?thesis using assms(3)
    by (auto simp: reconcile_usdm_def fold_positions_def usdm_open_orders_query_def Let_def split: prod.splits option.splits)
qed

section \<open>The runtime as a state machine\<close>

datatype world_op =
    WStart | WClose | WSessionClose
  | WPlace "string option" string "string option" submission js_number
  | WCreate "string + js_number" js_number submission
  | WAnswer string js_number "sdk_error + js_value"

fun world_step :: "paper_world \<Rightarrow> world_op \<Rightarrow> paper_world" where
  "world_step w WStart = startUserSession w"
| "world_step w WClose = platform_close w"
| "world_step w WSessionClose = session_close w"
| "world_step w (WPlace intent uuid client su now) =
     w\<lparr>pw_manager := placeOrder intent uuid client su now (pw_manager w)\<rparr>"
| "world_step w (WCreate feed now su) = snd (run_create feed now su w)"
| "world_step w (WAnswer cid now answer) = run_answer cid now answer w"

definition world_ok :: "paper_world \<Rightarrow> bool" where
  "world_ok w \<longleftrightarrow> distinct (pd_handlers (pw_adapter w)) \<and> 0 \<in> set (pd_handlers (pw_adapter w)) \<and>
     (\<forall>h \<in> set (pd_handlers (pw_adapter w)). h < pw_nextListener w) \<and> ot_inv (pw_orders w) \<and>
     (case pw_session w of None \<Rightarrow> True
      | Some s \<Rightarrow> pn_listener s \<noteq> 0 \<and> pn_listener s \<in> set (pd_handlers (pw_adapter w)) \<and> pn_state s \<in> {SLive, SClosed})"

lemma feed_frame_ok: "ot_inv (pw_orders w) \<Longrightarrow> ot_inv (pw_orders (feed_frame now w ev))"
  using ot_step_inv [of "pw_orders w" "OpEvent now ev"] by (simp add: feed_frame_def ot_step_def)

lemma feed_frames_ok: "ot_inv (pw_orders w) \<Longrightarrow> ot_inv (pw_orders (foldl (feed_frame now) w evs))"
  by (induction evs arbitrary: w) (simp_all add: feed_frame_ok)

lemma delivers_ok: "ot_inv (pw_orders w) \<Longrightarrow> ot_inv (pw_orders (foldl (deliver now) w ds))"
  by (induction ds arbitrary: w) (simp_all add: deliver_def feed_frames_ok split: option.split)

lemma createOrder_handlers: "pd_handlers (fst (snd (pd_createOrder feed now su a))) = pd_handlers a"
  by (auto simp: pd_createOrder_def Let_def split: sum.split prod.split)

lemma world_step_ok: "world_ok w \<Longrightarrow> world_ok (world_step w x)"
proof (cases x)
  case WStart
  then show "world_ok w \<Longrightarrow> ?thesis"
    by (auto simp: world_ok_def startUserSession_def pn_start_def new_PaperSession_def settle_waits_def pd_onReport_def
        less_Suc_eq split: option.split)
next
  case WClose
  then show "world_ok w \<Longrightarrow> ?thesis" by (simp add: world_ok_def platform_close_def)
next
  case WSessionClose
  then show "world_ok w \<Longrightarrow> ?thesis"
    by (auto simp: world_ok_def session_close_def pn_close_def settle_waits_def split: option.split)
next
  case (WPlace intent uuid client su now)
  then show "world_ok w \<Longrightarrow> ?thesis" by (auto simp: world_ok_def split: option.split)
next
  case (WCreate feed now su)
  obtain r a ds where c: "pd_createOrder feed now su (pw_adapter w) = (r, a, ds)" by (rule prod_cases3)
  then have "pd_handlers a = pd_handlers (pw_adapter w)" using createOrder_handlers [of feed now su "pw_adapter w"] by simp
  with c WCreate show "world_ok w \<Longrightarrow> ?thesis" by (auto simp: world_ok_def run_create_def delivers_ok split: option.split)
next
  case (WAnswer cid now answer)
  then show "world_ok w \<Longrightarrow> ?thesis" by (auto simp: world_ok_def run_answer_def split: option.split)
qed

interpretation paper_world: invariant_machine world_step world_ok "\<lambda>_. True"
  by unfold_locales (rule world_step_ok)

lemma new_world_ok: "pd_handlers a = [] \<Longrightarrow> world_ok (createPaperExecutionPlatform (Some a) engine)"
  "world_ok (createPaperExecutionPlatform None engine)"
  by (auto simp: world_ok_def createPaperExecutionPlatform_def new_PaperExecutionAdapter_def pd_onReport_def new_OrderTracker_inv)

section \<open>A fill in the trackers\<close>

lemma fill_frame_update:
  assumes "rp_client rp \<noteq> []"
  shows "\<exists>u. orderUpdateFromOrderTradeUpdate now (paperOrderTradeUpdateFrame rp now) = Some u \<and>
    ou_clientOrderId u = rp_client rp \<and> ou_status u = rp_status rp \<and> ou_symbol u = rp_symbol rp \<and>
    ou_executedQuantity u = decOf (JStr (or_zero (rp_executedQty rp))) \<and>
    ou_averagePrice u = nonZero (decOf (JStr (or_zero (rp_avgPrice rp)))) \<and> ou_cumulativeQuote u = None \<and>
    ou_exchangeOrderId u = js_numOr (opt_num (rp_orderId rp))"
  using assms
  by (simp add: orderUpdateFromOrderTradeUpdate_def paperOrderTradeUpdateFrame_def nonempty_string_def or_undef_def js_str_def Let_def)

lemma nonZero_parses: "nonZero v = Some s \<Longrightarrow> \<exists>d. dec_from (SIn s) = Inr d"
  by (auto simp: nonZero_def split: option.splits sum.splits if_splits)

lemma new_futures_record:
  assumes "ou_cumulativeQuote u = None" "ou_executedQuantity u = decOf x" "ou_averagePrice u = nonZero y"
  shows "fst (orderRecordFromUpdate u) = None" "or_status (snd (orderRecordFromUpdate u)) = ou_status u"
    "or_executedQuantity (snd (orderRecordFromUpdate u)) = ou_executedQuantity u"
    "or_exchangeOrderId (snd (orderRecordFromUpdate u)) = ou_exchangeOrderId u"
    "or_symbol (snd (orderRecordFromUpdate u)) = ou_symbol u"
proof -
  define r0 where "r0 = \<lparr>or_clientOrderId = ou_clientOrderId u, or_exchangeOrderId = None, or_symbol = ou_symbol u,
        or_side = ou_side u, or_type = ou_type u, or_status = ou_status u,
        or_originalQuantity = ou_originalQuantity u, or_executedQuantity = ou_executedQuantity u,
        or_cumulativeQuote = ou_cumulativeQuote u, or_averagePrice = ou_averagePrice u,
        or_fills = [], or_positionSide = ou_positionSide u, or_reduceOnly = ou_reduceOnly u,
        or_timeInForce = ou_timeInForce u, or_firstSeenAt = ou_updateTime u,
        or_updatedAt = ou_updateTime u\<rparr>"
  have r: "orderRecordFromUpdate u = foldOrderUpdate r0 u" by (simp add: orderRecordFromUpdate_def r0_def)
  have "\<exists>q. fold_quote (fold_fields r0 u) u = Inr q"
  proof (cases "ou_executedQuantity u")
    case None
    then show ?thesis by (simp add: fold_quote_def assms(1) r0_def)
  next
    case (Some ex)
    then obtain d where d: "dec_from (SIn ex) = Inr d" using decOf_parses [of x ex] assms(2) by auto
    show ?thesis
    proof (cases "ou_averagePrice u")
      case None
      then show ?thesis using Some d by (simp add: fold_quote_def assms(1) r0_def)
    next
      case (Some a)
      then obtain p where "dec_from (SIn a) = Inr p" using nonZero_parses [of y a] assms(3) by auto
      then show ?thesis using Some d \<open>ou_executedQuantity u = Some ex\<close> by (simp add: fold_quote_def assms(1) r0_def)
    qed
  qed
  then show "fst (orderRecordFromUpdate u) = None" unfolding r by (auto simp: foldOrderUpdate_def Let_def)
  show "or_status (snd (orderRecordFromUpdate u)) = ou_status u" unfolding r by simp
  show "or_executedQuantity (snd (orderRecordFromUpdate u)) = ou_executedQuantity u"
    unfolding r by (cases "ou_executedQuantity u") (simp_all add: r0_def)
  show "or_exchangeOrderId (snd (orderRecordFromUpdate u)) = ou_exchangeOrderId u"
    unfolding r by (cases "ou_exchangeOrderId u") (simp_all add: r0_def)
  show "or_symbol (snd (orderRecordFromUpdate u)) = ou_symbol u"
    unfolding r by (simp add: foldOrderUpdate_def fold_fields_def r0_def Let_def split: sum.split)
qed

lemma apply_new:
  assumes "ot_inv t" "ot_get (ou_clientOrderId u) t = None" "ou_clientOrderId u \<noteq> []" "0 < ot_maxRecords t"
    and "fst (orderRecordFromUpdate u) = None"
  shows "ot_get (ou_clientOrderId u) (fst (snd (ot_applyUpdate u t))) = Some (snd (orderRecordFromUpdate u))"
proof -
  obtain t' em where ap: "ot_applyUpdate u t = (None, t', em)"
    using assms(2,3,5) by (cases "orderRecordFromUpdate u") (simp add: ot_applyUpdate_def ot_get_def ignored_def observe_def Let_def)
  have ig: "\<not> ignored u None" using assms(3) by (simp add: ignored_def)
  from applyUpdate_result [OF assms(1) refl ap] assms(2) ig
  have k: "jm_keys (ot_records t') = drop (Suc (length (jm_keys (ot_records t))) - ot_maxRecords t) (jm_keys (ot_records t) @ [ou_clientOrderId u])"
    and g: "\<forall>k \<in> set (jm_keys (ot_records t')). ot_get k t' = (if k = ou_clientOrderId u then Some (snd (observe u None)) else ot_get k t)"
    by (simp_all add: Let_def)
  have "ou_clientOrderId u \<in> set (jm_keys (ot_records t'))"
    using assms(4) unfolding k by (simp add: drop_append)
  with g ap show ?thesis by (simp add: observe_def)
qed

section \<open>The manager and the trackers on one fill\<close>

lemma paper_execution:
  assumes d: "dec_from (SIn (js_num_str (po_filledQuantity order))) = Inr d"
    and q: "dec_from (SIn (js_num_str (order_quote order))) = Inr q"
    and p: "dec_from (SIn (js_num_str (po_avgFillPrice order))) = Inr p"
  shows "\<exists>ex. order_execution (paper_shape now) (paper_raw asset su order) intent client (Inr rq) state submittedAt = Inr ex \<and>
    ex_intent ex = intent \<and> ex_status ex = paper_status order \<and> ex_symbol ex = po_symbol order \<and>
    ex_executed ex = Some (dec_to_string d) \<and> ex_exchangeId ex = Some (Fin (of_nat (po_orderId order))) \<and>
    map fill_quantity (ex_fills ex) = [js_num_str (po_filledQuantity order)]"
proof -
  have "\<exists>avg. averagePrice (Some d) (Some q) (Some (js_num_str (po_avgFillPrice order))) = Inr avg"
    using p by (auto simp: averagePrice_def Let_def)
  then obtain avg where a: "averagePrice (Some d) (Some q) (Some (js_num_str (po_avgFillPrice order))) = Inr avg" ..
  show ?thesis
    using d q a
    by (simp add: order_execution_def paper_shape_def paper_raw_def str_or_def nullish_def given_def shape_execution_def
        parse_opt_def paper_fill_def)
qed

lemma order_frame_positions [simp]: "pt_applyUserEvent now (paperOrderTradeUpdateFrame rp at') t = t"
  by (simp add: pt_applyUserEvent_def paperOrderTradeUpdateFrame_def)

lemma account_frame_orders [simp]: "ot_applyUserEvent now (paperAccountUpdateFrame sy p at') t = (None, t, None)"
  by (simp add: ot_applyUserEvent_def paperAccountUpdateFrame_def Let_def)

lemma account_frame_position:
  "sy \<noteq> [] \<Longrightarrow> \<exists>r. pt_get sy None (pt_applyUserEvent now (paperAccountUpdateFrame sy p at') t) = Some r \<and>
     pr_positionAmount r = (case decOf (JStr (decimalString (case p of None \<Rightarrow> Fin 0 | Some x \<Rightarrow> signed_amount (pp_side x) (pp_quantity x))))
        of None \<Rightarrow> ''0'' | Some v \<Rightarrow> v)"
  by (simp add: pt_applyUserEvent_def paperAccountUpdateFrame_def positionUpdatesFromAccountUpdate_def position_entry_def
      nonempty_string_def or_undef_def js_str_def pt_get_def pt_applyUpdate_def jm.get_put position_record_of_def
      List.map_filter_simps Let_def split: option.split)

text \<open>What the two frames of a fill leave in the trackers.\<close>

lemma fill_frames:
  fixes rp :: paper_report
  assumes "pn_state s = SLive" "rp_symbol rp \<noteq> []" "rp_client rp \<noteq> []" "ot_inv (pw_orders w)" "0 < ot_maxRecords (pw_orders w)"
    and "ot_get (rp_client rp) (pw_orders w) = None"
  shows "\<exists>r p. let w' = foldl (feed_frame now) w (pn_onFill rp engine now s) in
    ot_get (rp_client rp) (pw_orders w') = Some r \<and> or_status r = rp_status rp \<and> or_symbol r = rp_symbol rp \<and>
    or_executedQuantity r = decOf (JStr (or_zero (rp_executedQty rp))) \<and>
    or_exchangeOrderId r = js_numOr (opt_num (rp_orderId rp)) \<and>
    pt_get (rp_symbol rp) None (pw_positions w') = Some p \<and>
    pr_positionAmount p = (case decOf (JStr (decimalString (case getPosition (rp_symbol rp) engine of
        None \<Rightarrow> Fin 0 | Some x \<Rightarrow> signed_amount (pp_side x) (pp_quantity x)))) of None \<Rightarrow> ''0'' | Some v \<Rightarrow> v)"
proof -
  obtain u where u: "orderUpdateFromOrderTradeUpdate now (paperOrderTradeUpdateFrame rp now) = Some u"
    "ou_clientOrderId u = rp_client rp" "ou_status u = rp_status rp" "ou_symbol u = rp_symbol rp"
    "ou_executedQuantity u = decOf (JStr (or_zero (rp_executedQty rp)))"
    "ou_averagePrice u = nonZero (decOf (JStr (or_zero (rp_avgPrice rp))))" "ou_cumulativeQuote u = None"
    "ou_exchangeOrderId u = js_numOr (opt_num (rp_orderId rp))"
    using fill_frame_update [OF assms(3)] by metis
  note rec = new_futures_record [OF u(7,5,6)]
  have ev: "ot_applyUserEvent now (paperOrderTradeUpdateFrame rp now) t = ot_applyUpdate u t" for t
    using u(1) by (simp add: ot_applyUserEvent_def) (simp add: paperOrderTradeUpdateFrame_def)
  have "ot_get (ou_clientOrderId u) (fst (snd (ot_applyUpdate u (pw_orders w)))) = Some (snd (orderRecordFromUpdate u))"
    by (rule apply_new) (use assms u rec in simp_all)
  then show ?thesis
    using account_frame_position [OF assms(2), of now "getPosition (rp_symbol rp) engine" now "pw_positions w"] u rec assms(1,2)
    by (auto simp: pn_onFill_def feed_frame_def ev Let_def)
qed

text \<open>An order the simulator books, through the listeners: what the trackers hold afterwards.\<close>

lemma run_create_trackers:
  assumes w: "world_ok w" "pw_session w = Some s" "pn_state s = SLive" "0 < ot_maxRecords (pw_orders w)"
    and a: "paper_params su = Inr ps" "paper_placeOrder feed now ps (pd_engine (pw_adapter w)) = (Inr order, e)"
    and new: "jm_get (su_client su) (em_byClient (pw_manager w)) = None" "ot_get (su_client su) (pw_orders w) = None"
    and sy: "po_symbol order \<noteq> []"
  shows "\<exists>w1 r p. run_create feed now su w = (Inr (paper_raw (paper_asset (pw_adapter w)) su order), w1) \<and>
    pw_manager w1 = pw_manager w \<and> pd_engine (pw_adapter w1) = e \<and>
    ot_get (su_client su) (pw_orders w1) = Some r \<and> or_status r = paper_status order \<and> or_symbol r = po_symbol order \<and>
    or_executedQuantity r = decOf (JStr (js_num_str (po_filledQuantity order))) \<and>
    or_exchangeOrderId r = Some (Fin (of_nat (po_orderId order))) \<and>
    pt_get (po_symbol order) None (pw_positions w1) = Some p \<and>
    pr_positionAmount p = (case decOf (JStr (decimalString (case getPosition (po_symbol order) (seat_engine w1) of
        None \<Rightarrow> Fin 0 | Some x \<Rightarrow> signed_amount (pp_side x) (pp_quantity x)))) of None \<Rightarrow> ''0'' | Some v \<Rightarrow> v)"
proof -
  let ?asset = "paper_asset (pw_adapter w)" and ?hs = "pd_handlers (pw_adapter w)"
  let ?raw = "paper_raw ?asset su order" and ?rp = "paper_report_of ?asset su order"
  define w0 where "w0 = w\<lparr>pw_adapter := (pw_adapter w)\<lparr>pd_engine := e, pd_orders := jm_set (su_client su) ?raw (pd_orders (pw_adapter w))\<rparr>\<rparr>"
  have create: "pd_createOrder feed now su (pw_adapter w) = (Inr ?raw, pw_adapter w0, map (\<lambda>h. (h, ?rp)) ?hs)"
    using a by (simp add: pd_createOrder_def w0_def Let_def)
  have ok: "distinct ?hs" "pn_listener s \<noteq> 0" "pn_listener s \<in> set ?hs" "ot_inv (pw_orders w)"
    using w(1,2) by (simp_all add: world_ok_def)
  have rp: "rp_client ?rp = su_client su" "rp_status ?rp = paper_status order" "rp_symbol ?rp = po_symbol order"
    "or_zero (rp_executedQty ?rp) = js_num_str (po_filledQuantity order)"
    "js_numOr (opt_num (rp_orderId ?rp)) = Some (Fin (of_nat (po_orderId order)))"
    by (simp_all add: paper_report_of_def or_zero_def opt_num_def js_numOr_def jn_finite_def)
  have w0: "pw_session w0 = Some s" "pw_manager w0 = pw_manager w" "pw_orders w0 = pw_orders w" "pd_engine (pw_adapter w0) = e"
    using w by (simp_all add: w0_def)
  let ?evs = "pn_onFill ?rp (seat_engine w0) now s"
  have del: "foldl (deliver now) w0 (map (\<lambda>h. (h, ?rp)) ?hs) = foldl (feed_frame now) w0 ?evs"
    by (subst deliver_all [where s = s]) (use ok new rp w0 in simp_all)
  have run: "run_create feed now su w = (Inr ?raw, foldl (feed_frame now) w0 ?evs)"
    by (simp add: run_create_def create flip: del) (simp add: w0_def)
  have "rp_client ?rp \<noteq> []" using paper_params_symbol [OF a(1)] rp by simp
  from fill_frames [OF w(3) _ this, of w0 now "seat_engine w0", unfolded rp w0, OF sy ok(4) w(4) new(2)]
  have f: "\<exists>r p. let w' = foldl (feed_frame now) w0 ?evs in
    ot_get (su_client su) (pw_orders w') = Some r \<and> or_status r = paper_status order \<and> or_symbol r = po_symbol order \<and>
    or_executedQuantity r = decOf (JStr (js_num_str (po_filledQuantity order))) \<and>
    or_exchangeOrderId r = Some (Fin (of_nat (po_orderId order))) \<and>
    pt_get (po_symbol order) None (pw_positions w') = Some p \<and>
    pr_positionAmount p = (case decOf (JStr (decimalString (case getPosition (po_symbol order) (seat_engine w0) of
        None \<Rightarrow> Fin 0 | Some x \<Rightarrow> signed_amount (pp_side x) (pp_quantity x)))) of None \<Rightarrow> ''0'' | Some v \<Rightarrow> v)" .
  have "seat_engine (foldl (feed_frame now) w0 ?evs) = seat_engine w0" by (simp add: seat_engine_def split: option.split)
  with f run w0 show ?thesis by (simp add: Let_def)
qed

text \<open>Delivering reports leaves the simulators alone, and a booked order leaves a position in the one that
  booked it.\<close>

lemma feed_frames_seat: "pw_seat (foldl (feed_frame now) w evs) = pw_seat w"
  by (induction evs arbitrary: w) (simp_all add: feed_frame_def)

lemma delivers_seat: "pw_seat (foldl (deliver now) w ds) = pw_seat w"
  by (induction ds arbitrary: w) (simp_all add: deliver_def feed_frames_seat split: option.split)

lemma run_create_seat: "pw_seat (snd (run_create feed now su w)) = pw_seat w"
  by (simp add: run_create_def delivers_seat split: prod.split)

lemma place_held:
  assumes "paper_placeOrder feed now ps engine = (Inr order, e)"
  shows "\<exists>held. getPosition (po_symbol order) e = Some held"
proof -
  from place_booked [OF assms] obtain marketPrice q pos where
    b: "book_fill ps marketPrice q now pos (snd (positionFor (to_upper (op_symbol ps)) engine)) = (order, e)"
    by metis
  then have "getPosition (po_symbol order) e \<noteq> None" using book_fill_order [OF b] by (simp add: getPosition_def)
  then show ?thesis by blast
qed

text \<open>C25: The manager and the trackers tell the same story of an order the simulator fills. On a runtime
  that built its own adapter and whose session is live, running an order the manager has in flight
  under new ids, and giving the answer to the manager, leaves (when the figures are finite) an execution and an order record that carry the simulator's status, symbol, order
  id and executed quantity; the execution holds exactly one fill, of that quantity, although the fill
  was both reported and returned; and the tracked position is the one of the simulator that booked the
  order, signed by its side and printed to twelve digits.\<close>

theorem paper_fill_consistent:
  assumes w: "world_ok w" "pw_seat w = None" "pw_session w = Some s" "pn_state s = SLive" "0 < ot_maxRecords (pw_orders w)"
    and a: "paper_params su = Inr ps" "paper_placeOrder feed now ps (pd_engine (pw_adapter w)) = (Inr order, e)"
    and fin: "jn_finite (po_filledQuantity order)" "jn_finite (po_avgFillPrice order)" "jn_finite (order_quote order)"
    and new: "jm_get (su_client su) (em_byClient (pw_manager w)) = None" "ot_get (su_client su) (pw_orders w) = None"
    and sy: "po_symbol order \<noteq> []"
    and m: "jm_get (su_client su) (em_inFlight (pw_manager w)) = Some pl" "pl_stage pl = SCreating k"
      "requested_of (pl_submission pl) = Inr rq" "ledger_ok (pw_manager w)" "0 < em_maxLedger (pw_manager w)"
  shows "let r = run_create feed now su w; w2 = run_answer (su_client su) now (fst r) (snd r);
      status = (if po_status order = QFilled then ''FILLED'' else ''PARTIALLY_FILLED'') in
    \<exists>ex rec pos d held. getExecution (pl_intent pl) (pw_manager w2) = Some ex \<and>
      ot_get (su_client su) (pw_orders w2) = Some rec \<and> pt_get (po_symbol order) None (pw_positions w2) = Some pos \<and>
      dec_from (SIn (js_num_str (po_filledQuantity order))) = Inr d \<and>
      ex_status ex = status \<and> ex_symbol ex = po_symbol order \<and> ex_exchangeId ex = Some (Fin (of_nat (po_orderId order))) \<and>
      or_status rec = status \<and> or_symbol rec = po_symbol order \<and>
      or_exchangeOrderId rec = Some (Fin (of_nat (po_orderId order))) \<and>
      ex_executed ex = Some (dec_to_string d) \<and> or_executedQuantity rec = Some (dec_to_string d) \<and>
      map fill_quantity (ex_fills ex) = [js_num_str (po_filledQuantity order)] \<and>
      pd_engine (pw_adapter w2) = e \<and> getPosition (po_symbol order) e = Some held \<and>
      pr_positionAmount pos = (case decOf (JStr (decimalString (signed_amount (pp_side held) (pp_quantity held)))) of
        None \<Rightarrow> ''0'' | Some v \<Rightarrow> v)"
proof -
  have parses: "\<exists>d. dec_from (SIn (js_num_str n)) = Inr d" if "jn_finite n" for n
    using that num_str_parses by (cases n) (auto simp: jn_finite_def)
  obtain d q p where dec: "dec_from (SIn (js_num_str (po_filledQuantity order))) = Inr d"
      "dec_from (SIn (js_num_str (order_quote order))) = Inr q" "dec_from (SIn (js_num_str (po_avgFillPrice order))) = Inr p"
    using parses [OF fin(1)] parses [OF fin(2)] parses [OF fin(3)] by blast
  let ?raw = "paper_raw (paper_asset (pw_adapter w)) su order"
  obtain w1 rec pos where run: "run_create feed now su w = (Inr ?raw, w1)" "pw_manager w1 = pw_manager w"
    "pd_engine (pw_adapter w1) = e"
    "ot_get (su_client su) (pw_orders w1) = Some rec" "or_status rec = paper_status order" "or_symbol rec = po_symbol order"
    "or_executedQuantity rec = decOf (JStr (js_num_str (po_filledQuantity order)))"
    "or_exchangeOrderId rec = Some (Fin (of_nat (po_orderId order)))" "pt_get (po_symbol order) None (pw_positions w1) = Some pos"
    "pr_positionAmount pos = (case decOf (JStr (decimalString (case getPosition (po_symbol order) (seat_engine w1) of
        None \<Rightarrow> Fin 0 | Some x \<Rightarrow> signed_amount (pp_side x) (pp_quantity x)))) of None \<Rightarrow> ''0'' | Some v \<Rightarrow> v)"
    using run_create_trackers [OF w(1,3-5) a new sy] by blast
  have "pw_seat w1 = None" using run(1) run_create_seat [of feed now su w] w(2) by simp
  then have seat: "seat_engine w1 = e" using run(3) by (simp add: seat_engine_def)
  obtain held where held: "getPosition (po_symbol order) e = Some held"
    using place_held [OF a(2)] by blast
  obtain ex where ex: "order_execution (paper_shape now) ?raw (pl_intent pl)
      (\<lambda>sh. if os_clientOrderId sh = [] then su_client su else os_clientOrderId sh) (Inr rq) Acked (pl_submittedAt pl) = Inr ex"
    "ex_intent ex = pl_intent pl" "ex_status ex = paper_status order" "ex_symbol ex = po_symbol order"
    "ex_executed ex = Some (dec_to_string d)" "ex_exchangeId ex = Some (Fin (of_nat (po_orderId order)))"
    "map fill_quantity (ex_fills ex) = [js_num_str (po_filledQuantity order)]"
    using paper_execution [OF dec, of now "paper_asset (pw_adapter w)" su "pl_intent pl"] by metis
  let ?w2 = "run_answer (su_client su) now (Inr ?raw) w1"
  have man: "pw_manager ?w2 = place_returned (su_client su) now ex (pw_manager w)"
    using m ex(1) run(2) by (simp add: run_answer_def on_created_def)
  have "getExecution (pl_intent pl) (pw_manager ?w2) = Some ex"
    using record_get [OF m(4,5), of ex now] ex(2) unfolding man by (simp add: getExecution_def place_returned_def settle_def emit_def)
  moreover have "pw_orders ?w2 = pw_orders w1" "pw_positions ?w2 = pw_positions w1" "pw_adapter ?w2 = pw_adapter w1"
    by (simp_all add: run_answer_def)
  moreover have "or_executedQuantity rec = Some (dec_to_string d)"
  proof -
    have "dec_parse [] = Inl (InvalidDecimal [])" by (simp add: dec_parse_def decimal_regex_def strip_sign_def trim_def)
    with dec(1) have "js_num_str (po_filledQuantity order) \<noteq> []" by auto
    with run(7) dec(1) show ?thesis by (simp add: decOf_exact)
  qed
  ultimately show ?thesis using run ex held dec(1) unfolding Let_def seat paper_status_def by auto
qed

text \<open>An order of two contracts at a price of three, in flight on a started runtime.\<close>

definition wit_world :: paper_world where
  "wit_world = foldl world_step (createPaperExecutionPlatform None wit_engine)
     [WStart, WPlace (Some ''i'') ''u'' (Some ''c1'') (wit_paper_order (JStr ''2'')) (Fin 1)]"

definition wit_params :: order_params where
  "wit_params = \<lparr>op_symbol = ''btcusdt'', op_side = PBuy, op_type = PMarket, op_quantity = Fin 2, op_price = None, op_leverage = None\<rparr>"

lemma wit_world_value:
  "wit_world = \<lparr>pw_adapter = \<lparr>pd_engine = wit_engine, pd_asset = None, pd_orders = [], pd_handlers = [0, 1]\<rparr>, pw_seat = None,
     pw_manager = placeOrder (Some ''i'') ''u'' (Some ''c1'') (wit_paper_order (JStr ''2'')) (Fin 1)
       (new_ExecutionManager (Some ''paper'') None None None),
     pw_session = Some \<lparr>pn_listener = 1, pn_state = SLive, pn_waits = []\<rparr>, pw_nextListener = 2,
     pw_orders = new_OrderTracker None, pw_positions = []\<rparr>"
  by (simp add: wit_world_def createPaperExecutionPlatform_def new_PaperExecutionAdapter_def pd_onReport_def startUserSession_def
      pn_start_def new_PaperSession_def settle_waits_def)

lemma wit_world_manager:
  "pw_manager wit_world = \<lparr>em_prefix = ''paper'', em_maxAttempts = 3, em_maxLedger = 1000, em_risk = None, em_ledger = [], em_byClient = [],
     em_inFlight = [(''c1'', \<lparr>pl_intent = ''i'', pl_submission = wit_paper_order (JStr ''2''), pl_submittedAt = Fin 1, pl_stage = SCreating 0\<rparr>)],
     em_cancels = [], em_reconciles = [], em_trace = [OCreate ''c1'' (wit_paper_order (JStr ''2''))]\<rparr>"
  by (simp add: wit_world_value placeOrder_def new_ExecutionManager_def create_def emit_def set_stage_def jm_get_def jm_set_def wit_paper_order_def Let_def)

lemma wit_order:
  "\<exists>order e. paper_placeOrder (Inr (Fin 3)) (Fin 1) wit_params wit_engine = (Inr order, e) \<and>
     po_filledQuantity order = Fin 2 \<and> po_avgFillPrice order = Fin 3 \<and> po_symbol order = ''BTCUSDT''"
proof -
  have "case fst (paper_placeOrder (Inr (Fin 3)) (Fin 1) wit_params wit_engine) of Inl e \<Rightarrow> False
      | Inr order \<Rightarrow> po_filledQuantity order = Fin 2 \<and> po_avgFillPrice order = Fin 3 \<and> po_symbol order = ''BTCUSDT''"
    by code_simp
  then show ?thesis
    by (cases "paper_placeOrder (Inr (Fin 3)) (Fin 1) wit_params wit_engine") (auto split: sum.splits)
qed

theorem paper_fill_consistent_witness:
  "\<exists>ex rec. let r = run_create (Inr (Fin 3)) (Fin 1) (wit_paper_order (JStr ''2'')) wit_world; w2 = run_answer ''c1'' (Fin 1) (fst r) (snd r) in
     getExecution ''i'' (pw_manager w2) = Some ex \<and> ot_get ''c1'' (pw_orders w2) = Some rec \<and> ex_symbol ex = ''BTCUSDT'' \<and> or_symbol rec = ''BTCUSDT'' \<and>
     map fill_quantity (ex_fills ex) = [js_num_str (Fin 2)]"
proof -
  have ok: "world_ok wit_world"
    unfolding wit_world_def by (rule paper_world.run_inv [OF new_world_ok(2)]) simp
  obtain order e where o: "paper_placeOrder (Inr (Fin 3)) (Fin 1) wit_params wit_engine = (Inr order, e)"
     "po_filledQuantity order = Fin 2" "po_avgFillPrice order = Fin 3" "po_symbol order = ''BTCUSDT''"
    using wit_order by blast
  have ps: "paper_params (wit_paper_order (JStr ''2'')) = Inr wit_params" by code_simp
  have rq: "\<exists>rq. requested_of (wit_paper_order (JStr ''2'')) = Inr rq"
    using dec_parse_literal [of "''2''" "[]" False 0]
    by (simp add: requested_of_def decimalOrNull_def wit_paper_order_def literal_def is_digit_def)
  then obtain rq where rq: "requested_of (wit_paper_order (JStr ''2'')) = Inr rq" ..
  have fin: "jn_finite (order_quote order)"
  proof -
    have "jn_finite (jn_mul (Fin 2) (Fin 3))" by code_simp
    then show ?thesis by (simp add: order_quote_def o)
  qed
  let ?pl = "\<lparr>pl_intent = ''i'', pl_submission = wit_paper_order (JStr ''2''), pl_submittedAt = Fin 1, pl_stage = SCreating 0\<rparr>"
  have c: "su_client (wit_paper_order (JStr ''2'')) = ''c1''" by (simp add: wit_paper_order_def)
  have s: "pw_session wit_world = Some \<lparr>pn_listener = 1, pn_state = SLive, pn_waits = []\<rparr>" "0 < ot_maxRecords (pw_orders wit_world)"
    "ot_get ''c1'' (pw_orders wit_world) = None" "pd_engine (pw_adapter wit_world) = wit_engine"
    by (simp_all add: wit_world_value new_OrderTracker_def ot_get_def jm_get_def)
  have m: "jm_get ''c1'' (em_byClient (pw_manager wit_world)) = None" "jm_get ''c1'' (em_inFlight (pw_manager wit_world)) = Some ?pl"
    "ledger_ok (pw_manager wit_world)" "0 < em_maxLedger (pw_manager wit_world)"
    by (simp_all add: wit_world_manager jm_get_def ledger_ok_def jm_ok_def jm_keys_def)
  have rq': "requested_of (pl_submission ?pl) = Inr rq" "pl_stage ?pl = SCreating 0" by (simp_all add: rq)
  have f: "jn_finite (po_filledQuantity order)" "jn_finite (po_avgFillPrice order)" "po_symbol order \<noteq> []"
    by (simp_all add: o jn_finite_def)
  have seat: "pw_seat wit_world = None" by (simp add: wit_world_value)
  from paper_fill_consistent [OF ok seat s(1) _ s(2) ps o(1) [folded s(4)] f(1,2) fin _ _ f(3) _ rq'(2) rq'(1) m(3,4), unfolded c, OF _ m(1) s(3) m(2)]
  show ?thesis unfolding Let_def o by auto
qed

text \<open>A provided adapter keeps its own simulator. The factory then seats another, empty one, so on the runtime
  it returns a filled order is tracked while the position it made is reported as zero, whatever the
  adapter's simulator holds.\<close>

theorem provided_adapter_reports_flat:
  assumes w: "world_ok w" "pw_session w = Some s" "pn_state s = SLive" "0 < ot_maxRecords (pw_orders w)"
    and seat: "pw_seat w = pw_seat (createPaperExecutionPlatform (Some a) (new_PaperTradingEngine b mdl fee))"
    and placed: "paper_params su = Inr ps" "paper_placeOrder feed now ps (pd_engine (pw_adapter w)) = (Inr order, e)"
    and new: "jm_get (su_client su) (em_byClient (pw_manager w)) = None" "ot_get (su_client su) (pw_orders w) = None"
    and sy: "po_symbol order \<noteq> []"
  shows "let w1 = snd (run_create feed now su w) in
    ot_get (su_client su) (pw_orders w1) \<noteq> None \<and>
    map_option pr_positionAmount (pt_get (po_symbol order) None (pw_positions w1)) = Some ''0'' \<and>
    getPosition (po_symbol order) (pd_engine (pw_adapter w1)) \<noteq> None"
proof -
  let ?w1 = "snd (run_create feed now su w)" and ?a = "snd (pd_createOrder feed now su (pw_adapter w))"
  have eng: "seat_engine ?w1 = new_PaperTradingEngine b mdl fee"
    using seat by (simp add: seat_engine_def run_create_def createPaperExecutionPlatform_def split: prod.split)
  then have none: "getPosition (po_symbol order) (seat_engine ?w1) = None"
    by (simp add: getPosition_def new_PaperTradingEngine_def Let_def jm_get_def)
  have zero: "decimalString (Fin 0) = ''0''" by (simp add: decimalString_def jn_is_integer_def)
  have dz: "decOf (JStr ''0'') = Some ''0''"
    using dec_parse_literal [of "''0''" "[]" False 0] by (simp add: decOf_exact literal_def is_digit_def shift10_def digit_val_def) code_simp
  obtain w1 r p where t: "run_create feed now su w = (Inr (paper_raw (paper_asset (pw_adapter w)) su order), w1)"
    "pd_engine (pw_adapter w1) = e" "ot_get (su_client su) (pw_orders w1) = Some r"
    "pt_get (po_symbol order) None (pw_positions w1) = Some p"
    "pr_positionAmount p = (case decOf (JStr (decimalString (case getPosition (po_symbol order) (seat_engine w1) of
        None \<Rightarrow> Fin 0 | Some x \<Rightarrow> signed_amount (pp_side x) (pp_quantity x)))) of None \<Rightarrow> ''0'' | Some v \<Rightarrow> v)"
    using run_create_trackers [OF w placed new sy] by blast
  from place_held [OF placed(2)] have "getPosition (po_symbol order) e \<noteq> None" by blast
  with t none zero dz show ?thesis by (simp add: Let_def)
qed

text \<open>A session closed on its own object is never replaced. The platform still holds it, so starting again
  returns the closed session, and no later fill reaches the trackers.\<close>

theorem closed_session_blocks_restart:
  assumes "world_ok w" "pw_session w = Some s" "jm_get (su_client su) (em_byClient (pw_manager w)) = None"
  shows "let w' = startUserSession (session_close w); w1 = snd (run_create feed now su w') in
    map_option pn_state (pw_session w') = Some SClosed \<and>
    pw_orders w1 = pw_orders w \<and> pw_positions w1 = pw_positions w"
proof -
  let ?s = "fst (pn_close s)" and ?w = "startUserSession (session_close w)"
  have st: "pn_state ?s = SClosed" "pn_listener ?s = pn_listener s" by (simp_all add: pn_close_def settle_waits_def)
  have w': "?w = w\<lparr>pw_session := Some ?s\<rparr>"
    using assms(2) by (simp add: startUserSession_def session_close_def)
  obtain r a ds where c: "pd_createOrder feed now su (pw_adapter w) = (r, a, ds)" by (rule prod_cases3)
  have ds: "ds = [] \<or> (\<exists>order. ds = map (\<lambda>h. (h, paper_report_of (paper_asset (pw_adapter w)) su order)) (pd_handlers (pw_adapter w)))"
    using c by (auto simp: pd_createOrder_def Let_def split: sum.splits prod.splits)
  have ok: "distinct (pd_handlers (pw_adapter w))" "pn_listener s \<noteq> 0"
    using assms(1,2) by (simp_all add: world_ok_def)
  let ?w1 = "?w\<lparr>pw_adapter := a\<rparr>"
  have "foldl (deliver now) ?w1 ds = ?w1"
  proof (cases "ds = []")
    case False
    with ds obtain order where o: "ds = map (\<lambda>h. (h, paper_report_of (paper_asset (pw_adapter w)) su order)) (pd_handlers (pw_adapter w))" by blast
    show ?thesis unfolding o
      by (subst deliver_all [where s = ?s]) (use ok st assms(3) in \<open>simp_all add: w' paper_report_of_def pn_onFill_def\<close>)
  qed simp
  then show ?thesis using c st by (simp add: Let_def run_create_def w')
qed

end
