(* ===== verification/Futures_Ops.thy ===== *)
theory Futures_Ops
  imports JS_Math Retry_Safety
begin

text \<open>
  \<open>src/types/filters.types.ts\<close> and \<open>src/resources/FuturesOps.ts\<close>: the trading rules of a symbol, rounding
  to its tick and step, and the composite operations over the futures endpoints. The endpoints are
  arguments: those that read are functions to an error or an answer, \<open>createOrder\<close> is a function on
  an exchange of any type. \<open>10 ** -n\<close>, which the language leaves to the implementation, is an argument
  of the rules. An operation returns the thrown error or its result, the rules cache or the exchange,
  and where orders are sent, the requests in the order they are made. Fields of an exchange payload
  are values as they came. Lemmas: a step given in decimals, that the quantity or price sent is a
  whole number of steps, and what sizing, closing and a bracket send.
\<close>

section \<open>Decimals and steps\<close>

fun scan_zeros :: "string \<Rightarrow> nat \<Rightarrow> nat \<Rightarrow> nat" where
  "scan_zeros s stop 0 = 0"
| "scan_zeros s stop (Suc n) = (if stop < Suc n \<and> s ! n = CHR ''0'' then scan_zeros s stop n else Suc n)"

text \<open>The trimmed text, cut to 64 characters, is scanned from its end.\<close>

definition text_decimals :: "string \<Rightarrow> nat" where
  "text_decimals t =
     (let i = length (takeWhile (\<lambda>c. c \<noteq> CHR ''.'') t)
      in if i = length t then 0 else scan_zeros t (i + 1) (length t) - (i + 1))"

definition stepDecimals :: "js_value \<Rightarrow> nat" where
  "stepDecimals step =
     (let t = (case step of JNum n \<Rightarrow> js_fixed 12 n | _ \<Rightarrow> trim (js_string step))
      in text_decimals (if length t > 64 then trim (take 64 t) else t))"

definition formatToDecimals :: "js_number \<Rightarrow> nat \<Rightarrow> string" where
  "formatToDecimals x decimals = js_fixed decimals x"

definition floorToStep :: "js_number \<Rightarrow> js_number \<Rightarrow> nat \<Rightarrow> js_number" where
  "floorToStep x step decimals =
     (if \<not> jn_less (Fin 0) step then x
      else string_to_number (js_fixed decimals (jn_mul (jn_floor (jn_add (jn_div x step) (js_lit (1 / 10 ^ 9)))) step)))"

definition roundToStep :: "js_number \<Rightarrow> js_number \<Rightarrow> nat \<Rightarrow> js_number" where
  "roundToStep x step decimals =
     (if \<not> jn_less (Fin 0) step then x
      else string_to_number (js_fixed decimals (jn_mul (jn_round (jn_div x step)) step)))"

section \<open>Trading rules\<close>

record symbol_rules =
  sr_symbol :: js_value
  sr_status :: js_value
  sr_base :: js_value
  sr_quote :: js_value
  sr_tickSize :: js_number
  sr_tickDecimals :: nat
  sr_stepSize :: js_number
  sr_stepDecimals :: nat
  sr_minQty :: js_number
  sr_maxQty :: js_number
  sr_marketStepSize :: js_number
  sr_marketStepDecimals :: nat
  sr_marketMinQty :: js_number
  sr_marketMaxQty :: js_number
  sr_minNotional :: js_number

definition filtersOf :: "js_value \<Rightarrow> js_value list" where
  "filtersOf symbol = (case js_field ''filters'' symbol of JArr vs \<Rightarrow> vs | _ \<Rightarrow> [])"

text \<open>An absent filter reads as \<open>undefined\<close> in every field, as optional chaining does.\<close>

definition filterOf :: "js_value \<Rightarrow> string \<Rightarrow> js_value" where
  "filterOf symbol filterType =
     (case find (\<lambda>f. js_field ''filterType'' f = JStr filterType) (filtersOf symbol) of None \<Rightarrow> JUndef | Some f \<Rightarrow> f)"

definition num_of :: "js_value \<Rightarrow> js_number \<Rightarrow> js_number" where
  "num_of v fallback = (let n = js_to_number v in if jn_finite n then n else fallback)"

definition nullish :: "js_value \<Rightarrow> js_value \<Rightarrow> js_value" where
  "nullish v w = (if v = JUndef \<or> v = JNull then w else v)"

definition symbolRulesFrom :: "(js_number \<Rightarrow> js_number) \<Rightarrow> js_value \<Rightarrow> symbol_rules" where
  "symbolRulesFrom pow10 symbol =
     (let price = filterOf symbol ''PRICE_FILTER''; lot = filterOf symbol ''LOT_SIZE'';
          marketLot = filterOf symbol ''MARKET_LOT_SIZE''; notional = filterOf symbol ''MIN_NOTIONAL'';
          tickRaw = nullish (js_field ''tickSize'' price)
            (JNum (pow10 (jn_neg (num_of (js_field ''pricePrecision'' symbol) (Fin 2)))));
          stepRaw = nullish (js_field ''stepSize'' lot)
            (JNum (pow10 (jn_neg (num_of (js_field ''quantityPrecision'' symbol) (Fin 3)))));
          marketRaw = nullish (js_field ''stepSize'' marketLot) stepRaw;
          minQty = num_of (js_field ''minQty'' lot) (Fin 0); maxQty = num_of (js_field ''maxQty'' lot) PosInf
      in \<lparr>sr_symbol = js_field ''symbol'' symbol, sr_status = js_field ''status'' symbol,
          sr_base = js_field ''baseAsset'' symbol, sr_quote = js_field ''quoteAsset'' symbol,
          sr_tickSize = num_of tickRaw (js_lit (1 / 100)), sr_tickDecimals = stepDecimals tickRaw,
          sr_stepSize = num_of stepRaw (js_lit (1 / 1000)), sr_stepDecimals = stepDecimals stepRaw,
          sr_minQty = minQty, sr_maxQty = maxQty,
          sr_marketStepSize = num_of marketRaw (js_lit (1 / 1000)), sr_marketStepDecimals = stepDecimals marketRaw,
          sr_marketMinQty = num_of (js_field ''minQty'' marketLot) minQty,
          sr_marketMaxQty = num_of (js_field ''maxQty'' marketLot) maxQty,
          sr_minNotional = num_of (js_field ''notional'' notional) (Fin 0)\<rparr>)"

text \<open>The cache keeps a rule and the clock at which it was stored.\<close>

type_synonym rules_cache = "(string, symbol_rules \<times> int) jsmap"

definition RULES_TTL_MS :: int where
  "RULES_TTL_MS = 60000"

definition cached_rules :: "int \<Rightarrow> bool \<Rightarrow> string \<Rightarrow> rules_cache \<Rightarrow> symbol_rules option" where
  "cached_rules now refresh symbol cache =
     (case jm_get (to_upper symbol) cache of
        None \<Rightarrow> None
      | Some (rules, stored) \<Rightarrow> if \<not> refresh \<and> now - stored < RULES_TTL_MS then Some rules else None)"

definition symbolRules :: "(js_number \<Rightarrow> js_number) \<Rightarrow> (string \<Rightarrow> sdk_error + js_value) \<Rightarrow> int \<Rightarrow> int \<Rightarrow> bool \<Rightarrow> string
    \<Rightarrow> rules_cache \<Rightarrow> (sdk_error + symbol_rules) \<times> rules_cache" where
  "symbolRules pow10 instrumentDetails now later refresh symbol cache =
     (case cached_rules now refresh symbol cache of
        Some rules \<Rightarrow> (Inr rules, cache)
      | None \<Rightarrow>
          (case instrumentDetails (to_upper symbol) of
             Inl e \<Rightarrow> (Inl e, cache)
           | Inr details \<Rightarrow>
               let rules = symbolRulesFrom pow10 details
               in (Inr rules, jm_set (to_upper symbol) (rules, later) cache)))"

definition step_of :: "bool \<Rightarrow> symbol_rules \<Rightarrow> js_number \<times> nat" where
  "step_of market rules =
     (if market then (sr_marketStepSize rules, sr_marketStepDecimals rules) else (sr_stepSize rules, sr_stepDecimals rules))"

definition tick_str :: "symbol_rules \<Rightarrow> js_number \<Rightarrow> string" where
  "tick_str rules p = formatToDecimals (roundToStep p (sr_tickSize rules) (sr_tickDecimals rules)) (sr_tickDecimals rules)"

definition quantize :: "symbol_rules \<Rightarrow> js_number option \<Rightarrow> js_number option \<Rightarrow> bool \<Rightarrow> string option \<times> string option" where
  "quantize rules price quantity market =
     (case step_of market rules of (step, dp) \<Rightarrow>
        (map_option (tick_str rules) price, map_option (\<lambda>q. formatToDecimals (floorToStep q step dp) dp) quantity))"

section \<open>Sizing\<close>

datatype ops_error = OpsThrown string | OpsFailed sdk_error

record size_params =
  sp_symbol :: string
  sp_side :: string
  sp_stopPrice :: js_number
  sp_entryPrice :: "js_number option"
  sp_riskAmount :: "js_number option"
  sp_riskPct :: "js_number option"
  sp_leverage :: "js_number option"
  sp_marketOrder :: bool

record position_sizing =
  sz_ok :: bool
  sz_reasons :: "string list"
  sz_symbol :: string
  sz_side :: string
  sz_entryPrice :: js_number
  sz_stopPrice :: js_number
  sz_riskPerUnit :: js_number
  sz_riskAmount :: js_number
  sz_rawQuantity :: js_number
  sz_quantity :: js_number
  sz_quantityStr :: string
  sz_notional :: js_number
  sz_minNotional :: js_number
  sz_leverage :: js_number
  sz_requiredMargin :: js_number
  sz_availableBalance :: "js_number option"
  sz_rules :: symbol_rules

text \<open>A reason for each failed check, in the order of the code; \<open>floored\<close> is the quantity before it is
  clamped.\<close>

definition size_reasons :: "size_params \<Rightarrow> symbol_rules \<Rightarrow> js_number \<Rightarrow> js_number option \<Rightarrow> js_number \<Rightarrow> js_number \<times> js_number
    \<Rightarrow> js_number \<Rightarrow> js_number \<Rightarrow> js_number \<Rightarrow> js_number \<Rightarrow> string list" where
  "size_reasons ps rules entry available riskPerUnit bounds floored quantity notional margin =
     (if (if sp_side ps = ''BUY'' then jn_less (sp_stopPrice ps) entry else jn_less entry (sp_stopPrice ps)) then []
      else [''stopPrice '' @ js_num_str (sp_stopPrice ps) @ '' is on the wrong side of entry '' @ js_num_str entry
        @ '' for a '' @ sp_side ps]) @
     (if jn_le riskPerUnit (Fin 0) then [''stopPrice equals entryPrice, risk per unit is zero''] else []) @
     (if jn_less (snd bounds) floored
      then [''quantity '' @ js_num_str floored @ '' exceeds maxQty '' @ js_num_str (snd bounds) @ '', clamped''] else []) @
     (if jn_less quantity (fst bounds)
      then [''quantity '' @ js_num_str quantity @ '' is below minQty '' @ js_num_str (fst bounds) @ '' for this symbol''] else []) @
     (if jn_less (Fin 0) (sr_minNotional rules) \<and> jn_less notional (sr_minNotional rules)
      then [''notional '' @ js_fixed 2 notional @ '' is below the '' @ js_num_str (sr_minNotional rules) @ '' minimum; ''
        @ ''raising risk or widening the stop is required (this tool will not increase risk for you)''] else []) @
     (if sr_status rules \<noteq> JStr ''TRADING''
      then [''symbol status is '' @ js_string (sr_status rules) @ '', not TRADING''] else []) @
     (case available of None \<Rightarrow> [] | Some b \<Rightarrow>
        if jn_less b margin then [''required margin '' @ js_fixed 2 margin @ '' exceeds available balance '' @ js_fixed 2 b] else [])"

definition qty_bounds :: "bool \<Rightarrow> symbol_rules \<Rightarrow> js_number \<times> js_number" where
  "qty_bounds market rules =
     (if market then (sr_marketMinQty rules, sr_marketMaxQty rules) else (sr_minQty rules, sr_maxQty rules))"

text \<open>The part of \<open>sizePosition\<close> after the awaited entry price and balance.\<close>

definition size_with :: "size_params \<Rightarrow> symbol_rules \<Rightarrow> js_number \<Rightarrow> js_number option \<Rightarrow> js_number \<Rightarrow> position_sizing" where
  "size_with ps rules entry available riskAmount =
     (let riskPerUnit = jn_abs (jn_sub entry (sp_stopPrice ps));
          step = fst (step_of (sp_marketOrder ps) rules); dp = snd (step_of (sp_marketOrder ps) rules);
          bounds = qty_bounds (sp_marketOrder ps) rules;
          raw = (if jn_less (Fin 0) riskPerUnit then jn_div riskAmount riskPerUnit else Fin 0);
          floored = floorToStep raw step dp;
          quantity = (if jn_less (snd bounds) floored then floorToStep (snd bounds) step dp else floored);
          notional = jn_mul quantity entry;
          leverage = (case sp_leverage ps of None \<Rightarrow> Fin 1 | Some l \<Rightarrow> l);
          margin = jn_div notional leverage;
          reasons = size_reasons ps rules entry available riskPerUnit bounds floored quantity notional margin
      in \<lparr>sz_ok = (reasons = [] \<and> jn_less (Fin 0) quantity), sz_reasons = reasons, sz_symbol = to_upper (sp_symbol ps),
          sz_side = sp_side ps, sz_entryPrice = entry, sz_stopPrice = sp_stopPrice ps, sz_riskPerUnit = riskPerUnit,
          sz_riskAmount = riskAmount, sz_rawQuantity = raw, sz_quantity = quantity,
          sz_quantityStr = formatToDecimals quantity dp, sz_notional = notional, sz_minNotional = sr_minNotional rules,
          sz_leverage = leverage, sz_requiredMargin = margin, sz_availableBalance = available, sz_rules = rules\<rparr>)"

definition awaited :: "sdk_error + 'a \<Rightarrow> ops_error + 'a" where
  "awaited r = (case r of Inl e \<Rightarrow> Inl (OpsFailed e) | Inr x \<Rightarrow> Inr x)"

text \<open>The available balance of the quote asset, zero when it is not listed, and the amount at risk.\<close>

definition risk_of :: "size_params \<Rightarrow> (sdk_error + (string \<times> js_number) list) \<Rightarrow> symbol_rules
    \<Rightarrow> ops_error + (js_number option \<times> js_number)" where
  "risk_of ps balances rules =
     (case sp_riskPct ps of
        None \<Rightarrow> Inr (None, case sp_riskAmount ps of None \<Rightarrow> Fin 0 | Some r \<Rightarrow> r)
      | Some pct \<Rightarrow> bindR (awaited balances) (\<lambda>bs.
          let b = (case find (\<lambda>x. JStr (fst x) = sr_quote rules) bs of None \<Rightarrow> Fin 0 | Some x \<Rightarrow> snd x)
          in Inr (Some b, jn_mul b (jn_div pct (Fin 100)))))"

definition sizePosition :: "(rules_cache \<Rightarrow> (sdk_error + symbol_rules) \<times> rules_cache) \<Rightarrow> (string \<Rightarrow> sdk_error + js_number)
    \<Rightarrow> (sdk_error + (string \<times> js_number) list) \<Rightarrow> size_params \<Rightarrow> rules_cache \<Rightarrow> (ops_error + position_sizing) \<times> rules_cache" where
  "sizePosition load markPrice balances ps cache =
     (if (sp_riskAmount ps = None) = (sp_riskPct ps = None)
      then (Inl (OpsThrown ''Provide exactly one of riskAmount or riskPct''), cache)
      else case load cache of (answer, cache') \<Rightarrow>
        (bindR (awaited answer) (\<lambda>rules.
           bindR (case sp_entryPrice ps of Some p \<Rightarrow> Inr p | None \<Rightarrow> awaited (markPrice (to_upper (sp_symbol ps)))) (\<lambda>entry.
             bindR (risk_of ps balances rules) (\<lambda>(available, riskAmount).
               Inr (size_with ps rules entry available riskAmount)))), cache'))"

section \<open>Closing a position\<close>

record position_risk =
  pr_symbol :: string
  pr_positionSide :: string
  pr_positionAmt :: js_number
  pr_notional :: js_number
  pr_unRealizedProfit :: js_number

type_synonym order_request = "(string \<times> js_value) list"

text \<open>An exchange takes the fields of an order.\<close>

type_synonym 'w exchange = "order_request \<Rightarrow> 'w \<Rightarrow> (sdk_error + js_value) \<times> 'w"

record close_params =
  cp_symbol :: string
  cp_positionSide :: "string option"
  cp_portion :: "js_number option"
  cp_dryRun :: bool

record close_outcome =
  co_closed :: bool
  co_reason :: "string option"
  co_position :: "position_risk option"
  co_order :: "js_value option"
  co_request :: "order_request option"

definition refused_close :: "string \<Rightarrow> position_risk option \<Rightarrow> close_outcome" where
  "refused_close reason position =
     \<lparr>co_closed = False, co_reason = Some reason, co_position = position, co_order = None, co_request = None\<rparr>"

definition open_rows :: "string option \<Rightarrow> position_risk list \<Rightarrow> position_risk list" where
  "open_rows side positions =
     filter (\<lambda>p. pr_positionAmt p \<noteq> Fin 0 \<and> (side = None \<or> side = Some (pr_positionSide p))) positions"

definition close_request :: "string \<Rightarrow> position_risk \<Rightarrow> js_number \<Rightarrow> nat \<Rightarrow> order_request" where
  "close_request symbol position quantity dp =
     [(''symbol'', JStr symbol), (''side'', JStr (if jn_less (Fin 0) (pr_positionAmt position) then ''SELL'' else ''BUY'')),
      (''type'', JStr ''MARKET''), (''quantity'', JStr (formatToDecimals quantity dp)),
      (if pr_positionSide position \<noteq> ''BOTH'' then (''positionSide'', JStr (pr_positionSide position))
       else (''reduceOnly'', JBool True))]"

text \<open>What is decided before the order goes out: an outcome, or the position and the request.\<close>

definition close_plan :: "close_params \<Rightarrow> position_risk \<Rightarrow> symbol_rules \<Rightarrow> close_outcome + order_request" where
  "close_plan ps position rules =
     (let portion = (case cp_portion ps of None \<Rightarrow> Fin 1 | Some p \<Rightarrow> p);
          quantity = floorToStep (jn_mul (jn_abs (pr_positionAmt position)) portion)
            (sr_marketStepSize rules) (sr_marketStepDecimals rules);
          request = close_request (to_upper (cp_symbol ps)) position quantity (sr_marketStepDecimals rules)
      in if jn_le quantity (Fin 0)
         then Inl (refused_close ''closing quantity rounds to zero at this symbol step size'' (Some position))
         else if cp_dryRun ps then Inl ((refused_close ''dryRun'' (Some position))\<lparr>co_request := Some request\<rparr>)
         else Inr request)"

definition closePosition :: "(rules_cache \<Rightarrow> (sdk_error + symbol_rules) \<times> rules_cache) \<Rightarrow> (string \<Rightarrow> sdk_error + position_risk list)
    \<Rightarrow> 'w exchange \<Rightarrow> close_params \<Rightarrow> rules_cache \<Rightarrow> 'w \<Rightarrow> (ops_error + close_outcome) \<times> rules_cache \<times> 'w \<times> order_request list" where
  "closePosition load positionRisk createOrder ps cache w =
     (let symbol = to_upper (cp_symbol ps); portion = (case cp_portion ps of None \<Rightarrow> Fin 1 | Some p \<Rightarrow> p)
      in if \<not> (jn_less (Fin 0) portion \<and> jn_le portion (Fin 1))
         then (Inl (OpsThrown ''portion must be within (0, 1]''), cache, w, [])
         else case positionRisk symbol of
           Inl e \<Rightarrow> (Inl (OpsFailed e), cache, w, [])
         | Inr positions \<Rightarrow>
             (case open_rows (cp_positionSide ps) positions of
                [] \<Rightarrow> (Inr (refused_close (''no open position on '' @ symbol) None), cache, w, [])
              | [position] \<Rightarrow>
                  (case load cache of
                     (Inl e, cache') \<Rightarrow> (Inl (OpsFailed e), cache', w, [])
                   | (Inr rules, cache') \<Rightarrow>
                       (case close_plan ps position rules of
                          Inl outcome \<Rightarrow> (Inr outcome, cache', w, [])
                        | Inr request \<Rightarrow>
                            (case createOrder request w of
                               (Inl e, w') \<Rightarrow> (Inl (OpsFailed e), cache', w', [request])
                             | (Inr order, w') \<Rightarrow>
                                 (Inr \<lparr>co_closed = True, co_reason = None, co_position = Some position,
                                       co_order = Some order, co_request = Some request\<rparr>, cache', w', [request]))))
              | rows \<Rightarrow> (Inr (refused_close (int_str (int (length rows)) @ '' positions open on '' @ symbol
                           @ '' (hedge mode); pass positionSide to pick one'') None), cache, w, [])))"

section \<open>A bracket\<close>

record bracket_params =
  bp_symbol :: string
  bp_side :: string
  bp_quantity :: js_value
  bp_entryPrice :: "js_number option"
  bp_stopLossPrice :: js_number
  bp_takeProfitPrice :: "js_number option"
  bp_positionSide :: "string option"
  bp_workingType :: "string option"

record bracket_outcome =
  bo_quantity :: string
  bo_entry :: js_value
  bo_stopLoss :: "sdk_error + js_value"
  bo_takeProfit :: "(sdk_error + js_value) option"
  bo_complete :: bool

definition bracket_quantity :: "bracket_params \<Rightarrow> symbol_rules \<Rightarrow> string" where
  "bracket_quantity ps rules =
     formatToDecimals (floorToStep (js_to_number (bp_quantity ps)) (sr_stepSize rules) (sr_stepDecimals rules)) (sr_stepDecimals rules)"

definition bracket_hedged :: "bracket_params \<Rightarrow> bool" where
  "bracket_hedged ps \<longleftrightarrow> bp_positionSide ps \<noteq> None \<and> bp_positionSide ps \<noteq> Some ''BOTH''"

definition side_field :: "bracket_params \<Rightarrow> order_request" where
  "side_field ps = (case bp_positionSide ps of None \<Rightarrow> [] | Some s \<Rightarrow> [(''positionSide'', JStr s)])"

definition entry_request :: "bracket_params \<Rightarrow> symbol_rules \<Rightarrow> order_request" where
  "entry_request ps rules =
     [(''symbol'', JStr (to_upper (bp_symbol ps))), (''side'', JStr (bp_side ps)),
      (''type'', JStr (if bp_entryPrice ps = None then ''MARKET'' else ''LIMIT'')), (''quantity'', JStr (bracket_quantity ps rules))]
     @ (case bp_entryPrice ps of None \<Rightarrow> [] | Some p \<Rightarrow> [(''price'', JStr (tick_str rules p)), (''timeInForce'', JStr ''GTC'')])
     @ (if bracket_hedged ps then side_field ps else [])"

definition leg_request :: "bracket_params \<Rightarrow> symbol_rules \<Rightarrow> string \<Rightarrow> js_number \<Rightarrow> order_request" where
  "leg_request ps rules type trigger =
     [(''symbol'', JStr (to_upper (bp_symbol ps))), (''side'', JStr (if bp_side ps = ''BUY'' then ''SELL'' else ''BUY'')),
      (''type'', JStr type), (''quantity'', JStr (bracket_quantity ps rules)), (''stopPrice'', JStr (tick_str rules trigger)),
      (''workingType'', JStr (case bp_workingType ps of None \<Rightarrow> ''MARK_PRICE'' | Some t \<Rightarrow> t))]
     @ (if bracket_hedged ps then side_field ps else [(''reduceOnly'', JBool True)])"

definition bracket_legs :: "bracket_params \<Rightarrow> symbol_rules \<Rightarrow> order_request list" where
  "bracket_legs ps rules =
     leg_request ps rules ''STOP_MARKET'' (bp_stopLossPrice ps)
     # (case bp_takeProfitPrice ps of None \<Rightarrow> [] | Some p \<Rightarrow> [leg_request ps rules ''TAKE_PROFIT_MARKET'' p])"

text \<open>The legs are started in order; each settles on its own.\<close>

fun send_all :: "'w exchange \<Rightarrow> order_request list \<Rightarrow> 'w \<Rightarrow> (sdk_error + js_value) list \<times> 'w" where
  "send_all createOrder [] w = ([], w)"
| "send_all createOrder (r # rs) w =
     (case createOrder r w of (answer, w') \<Rightarrow> case send_all createOrder rs w' of (answers, w'') \<Rightarrow> (answer # answers, w''))"

definition bracket_report :: "bracket_params \<Rightarrow> symbol_rules \<Rightarrow> js_value \<Rightarrow> (sdk_error + js_value) list \<Rightarrow> bracket_outcome" where
  "bracket_report ps rules entry answers =
     \<lparr>bo_quantity = bracket_quantity ps rules, bo_entry = entry, bo_stopLoss = hd answers,
      bo_takeProfit = (case tl answers of [] \<Rightarrow> None | r # _ \<Rightarrow> Some r),
      bo_complete = (length (filter (\<lambda>r. okR r = None) answers) = 0)\<rparr>"

definition placeBracketOrder :: "(rules_cache \<Rightarrow> (sdk_error + symbol_rules) \<times> rules_cache) \<Rightarrow> 'w exchange \<Rightarrow> bracket_params
    \<Rightarrow> rules_cache \<Rightarrow> 'w \<Rightarrow> (ops_error + bracket_outcome) \<times> rules_cache \<times> 'w \<times> order_request list" where
  "placeBracketOrder load createOrder ps cache w =
     (case load cache of
        (Inl e, cache') \<Rightarrow> (Inl (OpsFailed e), cache', w, [])
      | (Inr rules, cache') \<Rightarrow>
          if jn_le (string_to_number (bracket_quantity ps rules)) (Fin 0)
          then (Inl (OpsThrown ''quantity rounds to zero at this symbol step size''), cache', w, [])
          else (case createOrder (entry_request ps rules) w of
                  (Inl e, w') \<Rightarrow> (Inl (OpsFailed e), cache', w', [entry_request ps rules])
                | (Inr entry, w') \<Rightarrow>
                    (case send_all createOrder (bracket_legs ps rules) w' of (answers, w'') \<Rightarrow>
                       (Inr (bracket_report ps rules entry answers), cache', w'', entry_request ps rules # bracket_legs ps rules))))"

section \<open>Account overview\<close>

record account_totals =
  tt_count :: nat
  tt_pnl :: js_number
  tt_notional :: js_number

text \<open>Balances are an asset and its balance; a rejected feed keeps its error.\<close>

definition account_overview :: "sdk_error + (string \<times> js_number) list \<Rightarrow> sdk_error + position_risk list \<Rightarrow> sdk_error + js_value list
    \<Rightarrow> (sdk_error + (string \<times> js_number) list) \<times> (sdk_error + position_risk list) \<times> (sdk_error + js_value list) \<times> account_totals option" where
  "account_overview balances positions openOrders =
     (let rows = mapR (filter (\<lambda>p. pr_positionAmt p \<noteq> Fin 0)) positions
      in (mapR (filter (\<lambda>b. snd b \<noteq> Fin 0)) balances, rows, openOrders,
          case rows of Inl _ \<Rightarrow> None | Inr ps \<Rightarrow> Some
            \<lparr>tt_count = length ps, tt_pnl = foldl (\<lambda>sum p. jn_add sum (pr_unRealizedProfit p)) (Fin 0) ps,
             tt_notional = foldl (\<lambda>sum p. jn_add sum (jn_abs (pr_notional p))) (Fin 0) ps\<rparr>))"

section \<open>Market snapshot\<close>

text \<open>\<open>String(reason)\<close> of a rejection is an argument.\<close>

definition settled_value :: "(sdk_error \<Rightarrow> string) \<Rightarrow> sdk_error + js_value \<Rightarrow> js_value" where
  "settled_value text r = (case r of Inl e \<Rightarrow> JObj [(''error'', JStr (text e))] | Inr v \<Rightarrow> v)"

definition marketSnapshot :: "(sdk_error \<Rightarrow> string) \<Rightarrow> string \<Rightarrow> js_number \<Rightarrow> sdk_error + js_value \<Rightarrow> sdk_error + js_value
    \<Rightarrow> sdk_error + js_value \<Rightarrow> sdk_error + js_value \<Rightarrow> js_value" where
  "marketSnapshot text symbol now ticker premium openInterest longShort = JObj
     [(''symbol'', JStr (to_upper symbol)), (''asOf'', JNum now), (''ticker24hr'', settled_value text ticker),
      (''markPrice'', settled_value text premium), (''openInterest'', settled_value text openInterest),
      (''longShortAccountRatio'', settled_value text longShort)]"

section \<open>A step as the exchange prints it\<close>

lemma scan_zeros_prefix: "n \<le> length s \<Longrightarrow> scan_zeros (s @ t) stop n = scan_zeros s stop n"
  by (induction n) (simp_all add: nth_append)

lemma scan_zeros_pad:
  assumes "stop \<le> length s" "s \<noteq> []" "last s \<noteq> CHR ''0''"
  shows "scan_zeros (s @ replicate z (CHR ''0'')) stop (length s + z) = length s"
proof (induction z)
  case 0
  obtain n where n: "length s = Suc n" using assms(2) by (cases s) auto
  then have "s ! n \<noteq> CHR ''0''" using assms(2,3) by (simp add: last_conv_nth)
  then show ?case using n by simp
next
  case (Suc z)
  have e: "s @ replicate (Suc z) (CHR ''0'') = (s @ replicate z (CHR ''0'')) @ [CHR ''0'']"
    by (simp add: replicate_append_same)
  have "scan_zeros ((s @ replicate z (CHR ''0'')) @ [CHR ''0'']) stop (length s + z) = length s"
    using scan_zeros_prefix [of "length s + z" "s @ replicate z (CHR ''0'')"] Suc by simp
  then show ?case unfolding e using assms(1) by (simp add: nth_append)
qed

lemma text_decimals_literal:
  assumes "list_all is_digit i" "f = [] \<or> last f \<noteq> CHR ''0''"
  shows "text_decimals (i @ CHR ''.'' # f @ replicate z (CHR ''0'')) = length f"
proof -
  have no_dot: "\<forall>c \<in> set i. c \<noteq> CHR ''.''" using assms(1) by (auto simp: list_all_iff is_digit_def)
  then have pos: "length (takeWhile (\<lambda>c. c \<noteq> CHR ''.'') (i @ CHR ''.'' # f @ replicate z (CHR ''0''))) = length i"
    by (simp add: takeWhile_append2)
  have "scan_zeros ((i @ CHR ''.'' # f) @ replicate z (CHR ''0'')) (Suc (length i)) (length (i @ CHR ''.'' # f) + z)
      = length (i @ CHR ''.'' # f)"
    by (rule scan_zeros_pad) (use assms(2) in auto)
  then show ?thesis unfolding text_decimals_def Let_def pos by (simp del: scan_zeros.simps add: add.assoc)
qed

lemma text_decimals_whole: "list_all is_digit i \<Longrightarrow> text_decimals i = 0"
proof -
  assume "list_all is_digit i"
  then have "takeWhile (\<lambda>c. c \<noteq> CHR ''.'') i = i" by (auto simp: takeWhile_eq_all_conv list_all_iff is_digit_def)
  then show ?thesis by (simp only: text_decimals_def Let_def refl if_True)
qed

text \<open>\<open>i.f\<close> with \<open>z\<close> zeros behind, as in a filter of the exchange; a whole number may do without the point.\<close>

definition step_text :: "string \<Rightarrow> string \<Rightarrow> nat \<Rightarrow> string" where
  "step_text i f z = (if f = [] \<and> z = 0 then i else i @ CHR ''.'' # f @ replicate z (CHR ''0''))"

lemma step_text_literal: "step_text i f z = literal False i (f @ replicate z (CHR ''0'')) 0"
  by (auto simp add: step_text_def literal_def)

lemma step_text_rules:
  assumes "i \<noteq> []" "list_all is_digit i" "list_all is_digit f" "f = [] \<or> last f \<noteq> CHR ''0''" "length (step_text i f z) \<le> 64"
    "digits_val (i @ f) < 2 ^ 52"
  shows "stepDecimals (JStr (step_text i f z)) = length f"
    "num_of (JStr (step_text i f z)) fb = js_round (of_nat (digits_val (i @ f)) / 10 ^ length f)"
proof -
  have d: "list_all is_digit (f @ replicate z (CHR ''0''))" using assms(3) by (simp add: list_all_zeros)
  have "trim (step_text i f z) = step_text i f z"
    unfolding step_text_literal by (rule literal_trim [OF assms(2) d])
  then show "stepDecimals (JStr (step_text i f z)) = length f"
    using assms(5) text_decimals_literal [OF assms(2,4), of z] text_decimals_whole [OF assms(2)]
    by (auto simp add: stepDecimals_def step_text_def)
  have "string_to_number (step_text i f z) = js_round (of_nat (digits_val (i @ f)) / 10 ^ length f)"
    unfolding step_text_literal literal_number [OF assms(1,2) d]
    by (simp add: digits_val_append power_add flip: append_assoc)
  moreover have "\<bar>of_nat (digits_val (i @ f)) / 10 ^ length f :: rat\<bar> \<le> 2 ^ 1000"
  proof -
    have "(of_nat (digits_val (i @ f)) :: rat) \<le> of_nat (2 ^ 52)" using assms(6) by (simp only: of_nat_le_iff less_imp_le)
    moreover have "of_nat (digits_val (i @ f)) / 10 ^ length f \<le> (of_nat (digits_val (i @ f)) / 1 :: rat)"
      by (rule divide_left_mono) simp_all
    ultimately have "of_nat (digits_val (i @ f)) / 10 ^ length f \<le> (2 ^ 52 :: rat)" by simp
    also have "\<dots> \<le> (2 :: rat) ^ 1000" by simp
    finally show ?thesis by simp
  qed
  then obtain t where "js_round (of_nat (digits_val (i @ f)) / 10 ^ length f) = Fin t" using js_round_finite by blast
  ultimately show "num_of (JStr (step_text i f z)) fb = js_round (of_nat (digits_val (i @ f)) / 10 ^ length f)"
    by (simp add: num_of_def jn_finite_def Let_def)
qed


section \<open>What is sent is a whole number of steps\<close>

text \<open>The side conditions under which a double holds the product: a step \<open>m / 10 ^ d\<close>, and fewer than
  48 bits of last decimals.\<close>

definition exact_step :: "nat \<Rightarrow> nat \<Rightarrow> rat \<Rightarrow> rat \<Rightarrow> bool" where
  "exact_step m d t r \<longleftrightarrow> 0 < m \<and> d \<le> 64 \<and> js_round (of_nat m / 10 ^ d) = Fin t \<and> 0 \<le> r \<and> r * 10 ^ d \<le> 2 ^ 48"

lemma exact_step_facts:
  assumes "exact_step m d t r"
  shows "1 / 2 ^ 400 \<le> (of_nat m / 10 ^ d :: rat)" "r \<le> 2 ^ 50 * (of_nat m / 10 ^ d)" "0 \<le> r" "0 < t"
    "js_round (of_nat m / 10 ^ d) = Fin t"
proof -
  have m: "1 \<le> m" "d \<le> 100" using assms by (simp_all add: exact_step_def)
  then show s: "1 / 2 ^ 400 \<le> (of_nat m / 10 ^ d :: rat)" by (rule decimal_normal)
  show "0 \<le> r" "js_round (of_nat m / 10 ^ d) = Fin t" using assms by (simp_all add: exact_step_def)
  have "(1 :: rat) \<le> of_nat m" using m by simp
  then have "r * 10 ^ d \<le> 2 ^ 50 * of_nat m" using assms by (simp add: exact_step_def)
  then show r: "r \<le> 2 ^ 50 * (of_nat m / 10 ^ d)" by (simp add: pos_le_divide_eq)
  show "0 < t" using step_quotient [OF _ s \<open>0 \<le> r\<close> r, of t] assms by (auto simp: exact_step_def)
qed

lemma few_units:
  assumes "exact_step m d t r" "of_nat k * (of_nat m / 10 ^ d) \<le> r + (r / 2 ^ 50 + of_nat m / 10 ^ d * c)" "c < 2 / 3"
  shows "k * m < 2 ^ 50"
proof (cases "k = 0")
  case False
  let ?N = "of_nat (k * m) :: rat"
  have T: "0 < (10 ^ d :: rat)" by simp
  have r: "0 \<le> r" "r * 10 ^ d \<le> 2 ^ 48" using assms(1) by (simp_all add: exact_step_def)
  have "?N = of_nat k * (of_nat m / 10 ^ d) * 10 ^ d" by simp
  also have "\<dots> \<le> (r + (r / 2 ^ 50 + of_nat m / 10 ^ d * c)) * 10 ^ d" by (rule mult_right_mono [OF assms(2)]) simp
  also have "\<dots> = r * 10 ^ d * (1 + 1 / 2 ^ 50) + of_nat m * c" by (simp add: field_simps)
  also have "\<dots> \<le> 2 ^ 48 * (1 + 1 / 2 ^ 50) + ?N * (2 / 3)"
  proof (intro add_mono)
    show "r * 10 ^ d * (1 + 1 / 2 ^ 50) \<le> 2 ^ 48 * (1 + 1 / 2 ^ 50)" by (rule mult_right_mono [OF r(2)]) simp
    have "m \<le> k * m" using False by simp
    then have "of_nat m \<le> ?N" by (simp only: of_nat_le_iff)
    then have "of_nat m * (2 / 3) \<le> ?N * (2 / 3)" by (rule mult_right_mono) simp
    moreover have "of_nat m * c \<le> of_nat m * (2 / 3)" by (rule mult_left_mono) (use assms(3) in simp_all)
    ultimately show "of_nat m * c \<le> ?N * (2 / 3)" by (rule order_trans [rotated])
  qed
  finally have "?N < 2 ^ 50" by simp
  then have "?N < of_nat (2 ^ 50)" by simp
  then show ?thesis by (simp only: of_nat_less_iff)
qed simp


text \<open>A whole number of steps prints and reads back exactly.\<close>

lemma whole_steps_exact:
  assumes "exact_step m d t r" "k * m < 2 ^ 50"
  shows "string_to_number (js_fixed d (jn_mul (Fin (of_nat k)) (Fin t))) = js_round (of_nat (k * m) / 10 ^ d)"
    "js_fixed d (js_round (of_nat (k * m) / 10 ^ d)) = fixed_digits d (k * m)"
proof -
  have d: "d \<le> 100" using assms(1) by (simp add: exact_step_def)
  obtain z where z: "jn_mul (Fin (of_nat k)) (Fin t) = Fin z" "fixed_units d z = k * m" "0 \<le> z" "\<bar>z\<bar> < 10 ^ 21"
    using grid_product [OF exact_step_facts(5) [OF assms(1)] d assms(2)] by blast
  then show "string_to_number (js_fixed d (jn_mul (Fin (of_nat k)) (Fin t))) = js_round (of_nat (k * m) / 10 ^ d)"
    using fixed_reads_back [OF z(4), of d] by simp
  have "\<bar>of_nat (k * m) / 10 ^ d :: rat\<bar> \<le> 2 ^ 1000"
  proof -
    have "of_nat (k * m) / 10 ^ d \<le> (of_nat (k * m) / 1 :: rat)" by (rule divide_left_mono) simp_all
    moreover have "of_nat (k * m) \<le> (of_nat (2 ^ 50) :: rat)" using assms(2) by (simp only: of_nat_le_iff less_imp_le)
    ultimately have "of_nat (k * m) / 10 ^ d \<le> (2 ^ 50 :: rat)" by simp
    also have "\<dots> \<le> (2 :: rat) ^ 1000" by simp
    finally show ?thesis by simp
  qed
  then obtain y where y: "js_round (of_nat (k * m) / 10 ^ d) = Fin y" using js_round_finite by blast
  have "k * m < 2 ^ 52" using assms(2) by simp
  from fixed_grid [OF this d y] have "fixed_units d y = k * m" "0 \<le> y" "\<bar>y\<bar> < 10 ^ 21" by blast+
  then show "js_fixed d (js_round (of_nat (k * m) / 10 ^ d)) = fixed_digits d (k * m)" unfolding y by simp
qed

lemma floorToStep_exact:
  assumes "exact_step m d t r"
  shows "\<exists>k. floorToStep (Fin r) (Fin t) d = js_round (of_nat (k * m) / 10 ^ d) \<and>
    formatToDecimals (floorToStep (Fin r) (Fin t) d) d = fixed_digits d (k * m) \<and>
    of_nat (k * m) / 10 ^ d \<le> r + (r / 2 ^ 50 + 2 / 10 ^ 9 * (of_nat m / 10 ^ d)) \<and>
    r \<le> of_nat ((k + 1) * m) / 10 ^ d * (1 + 1 / 2 ^ 50)"
proof -
  note f = exact_step_facts [OF assms]
  obtain k where k: "whole_steps (Fin r) (Fin t) = Fin (of_nat k)"
      "of_nat k * (of_nat m / 10 ^ d) \<le> r + (r / 2 ^ 50 + 2 / 10 ^ 9 * (of_nat m / 10 ^ d))"
      "r \<le> (of_nat k + 1) * (of_nat m / 10 ^ d) * (1 + 1 / 2 ^ 50)"
    using whole_steps_bounds [OF f(5,1,3,2)] by blast
  have "k * m < 2 ^ 50" by (rule few_units [OF assms, of k "2 / 10 ^ 9"]) (use k(2) in \<open>simp_all add: mult.commute\<close>)
  note exact = whole_steps_exact [OF assms this]
  have q: "floorToStep (Fin r) (Fin t) d = js_round (of_nat (k * m) / 10 ^ d)"
    using exact(1) f(4) k(1) by (simp add: floorToStep_def whole_steps_def)
  moreover have "r \<le> of_nat ((k + 1) * m) / 10 ^ d * (1 + 1 / 2 ^ 50)" using k(3) by (simp add: algebra_simps)
  ultimately show ?thesis using exact(2) k(2) by (intro exI [of _ k]) (simp add: formatToDecimals_def)
qed

lemma roundToStep_exact:
  assumes "exact_step m d t r"
  shows "\<exists>k. roundToStep (Fin r) (Fin t) d = js_round (of_nat (k * m) / 10 ^ d) \<and>
    formatToDecimals (roundToStep (Fin r) (Fin t) d) d = fixed_digits d (k * m) \<and>
    \<bar>of_nat (k * m) / 10 ^ d - r\<bar> \<le> (of_nat m / 10 ^ d) / 2 + r / 2 ^ 50 + (of_nat m / 10 ^ d) / 10 ^ 19"
proof -
  note f = exact_step_facts [OF assms]
  obtain k where k: "jn_round (jn_div (Fin r) (Fin t)) = Fin (of_nat k)"
      "\<bar>of_nat k * (of_nat m / 10 ^ d) - r\<bar> \<le> (of_nat m / 10 ^ d) / 2 + r / 2 ^ 50 + (of_nat m / 10 ^ d) / 10 ^ 19"
    using nearest_step_bounds [OF f(5,1,3,2)] by blast
  define s :: rat where "s = of_nat m / 10 ^ d"
  have "of_nat k * s - r \<le> s / 2 + r / 2 ^ 50 + s / 10 ^ 19" using k(2) unfolding s_def abs_le_iff by blast
  then have "of_nat k * s \<le> r + (r / 2 ^ 50 + s * (1 / 2 + 1 / 10 ^ 19))" by (simp add: algebra_simps)
  then have "k * m < 2 ^ 50" unfolding s_def by (rule few_units [OF assms]) simp
  note exact = whole_steps_exact [OF assms this]
  have q: "roundToStep (Fin r) (Fin t) d = js_round (of_nat (k * m) / 10 ^ d)"
    using exact(1) f(4) k(1) by (simp add: roundToStep_def)
  then show ?thesis using exact(2) k(2) by (intro exI [of _ k]) (simp add: formatToDecimals_def)
qed


section \<open>Properties of the rules\<close>

definition decimal_step :: "string \<Rightarrow> string \<Rightarrow> nat \<Rightarrow> bool" where
  "decimal_step i f z \<longleftrightarrow> i \<noteq> [] \<and> list_all is_digit i \<and> list_all is_digit f \<and> (f = [] \<or> last f \<noteq> CHR ''0'') \<and>
     length (step_text i f z) \<le> 64 \<and> 0 < digits_val (i @ f) \<and> digits_val (i @ f) < 2 ^ 52"

lemma decimal_step_exact:
  assumes "decimal_step i f z" "0 \<le> r" "r * 10 ^ length f \<le> 2 ^ 48"
  shows "\<exists>t. num_of (JStr (step_text i f z)) fb = Fin t \<and> stepDecimals (JStr (step_text i f z)) = length f \<and>
    exact_step (digits_val (i @ f)) (length f) t r"
proof -
  have st: "i \<noteq> []" "list_all is_digit i" "list_all is_digit f" "f = [] \<or> last f \<noteq> CHR ''0''"
      "length (step_text i f z) \<le> 64" "0 < digits_val (i @ f)" "digits_val (i @ f) < 2 ^ 52"
    using assms(1) by (simp_all add: decimal_step_def)
  note rules = step_text_rules [OF st(1-5,7)]
  have "length f \<le> 64" using st(5) by (auto simp add: step_text_def split: if_splits)
  moreover obtain t where t: "js_round (of_nat (digits_val (i @ f)) / 10 ^ length f) = Fin t"
  proof -
    have "jn_finite (num_of (JStr (step_text i f z)) (Fin 0))" by (simp add: num_of_def Let_def jn_finite_def)
    then show ?thesis using rules(2) [of "Fin 0"] that by (auto simp: jn_finite_def split: js_number.splits)
  qed
  ultimately show ?thesis using rules st(6) assms(2,3) by (simp add: exact_step_def)
qed

text \<open>The step published for an order: a market order's is the market filter's, unless that has none.\<close>

definition published_step :: "bool \<Rightarrow> js_value \<Rightarrow> js_value" where
  "published_step market symbol =
     (let lot = js_field ''stepSize'' (filterOf symbol ''LOT_SIZE'')
      in if market then nullish (js_field ''stepSize'' (filterOf symbol ''MARKET_LOT_SIZE'')) lot else lot)"

lemma published_step_rules:
  assumes "published_step market symbol = JStr w"
  shows "step_of market (symbolRulesFrom pow10 symbol) = (num_of (JStr w) (js_lit (1 / 1000)), stepDecimals (JStr w))"
  using assms
  by (auto simp: published_step_def step_of_def symbolRulesFrom_def Let_def nullish_def split: if_splits)

text \<open>C13: when the exchange publishes tick and step as decimals or whole numbers, the price and quantity
  of \<open>quantize\<close>, for a market order or a resting one, are printed as exact whole multiples of them. This
  is for quantities of at most 2^48 units of the step's last digit and prices of at most 2^48 units of
  the tick's. The quantity exceeds the requested one by at most a 2^50th part of it plus two billionths
  of a step, and one more step would reach the requested quantity up to a 2^50th part; the price is
  within half a tick of the requested one, up to a 2^50th part of the price and a 10^19th of a tick, so
  that a price about half way between two ticks may go to either.\<close>

theorem quantized_order_on_grid:
  assumes "published_step market symbol = JStr (step_text i f z)" "decimal_step i f z"
    "js_field ''tickSize'' (filterOf symbol ''PRICE_FILTER'') = JStr (step_text ip fp zp)" "decimal_step ip fp zp"
    "0 \<le> r" "r * 10 ^ length f \<le> 2 ^ 48" "0 \<le> p" "p * 10 ^ length fp \<le> 2 ^ 48"
    "step = of_nat (digits_val (i @ f)) / 10 ^ length f" "tick = of_nat (digits_val (ip @ fp)) / 10 ^ length fp"
  shows "\<exists>k n. quantize (symbolRulesFrom pow10 symbol) (Some (Fin p)) (Some (Fin r)) market
      = (Some (fixed_digits (length fp) (n * digits_val (ip @ fp))), Some (fixed_digits (length f) (k * digits_val (i @ f)))) \<and>
    of_nat k * step \<le> r + (r / 2 ^ 50 + 2 / 10 ^ 9 * step) \<and> r \<le> (of_nat k + 1) * step * (1 + 1 / 2 ^ 50) \<and>
    \<bar>of_nat n * tick - p\<bar> \<le> tick / 2 + p / 2 ^ 50 + tick / 10 ^ 19"
proof -
  obtain t where t: "num_of (JStr (step_text i f z)) (js_lit (1 / 1000)) = Fin t"
      "stepDecimals (JStr (step_text i f z)) = length f" "exact_step (digits_val (i @ f)) (length f) t r"
    using decimal_step_exact [OF assms(2,5,6)] by blast
  obtain u where u: "num_of (JStr (step_text ip fp zp)) (js_lit (1 / 100)) = Fin u"
      "stepDecimals (JStr (step_text ip fp zp)) = length fp" "exact_step (digits_val (ip @ fp)) (length fp) u p"
    using decimal_step_exact [OF assms(4,7,8)] by blast
  have rules: "step_of market (symbolRulesFrom pow10 symbol) = (Fin t, length f)"
      "sr_tickSize (symbolRulesFrom pow10 symbol) = Fin u" "sr_tickDecimals (symbolRulesFrom pow10 symbol) = length fp"
    using published_step_rules [OF assms(1)] assms(3) t u by (simp_all add: symbolRulesFrom_def Let_def nullish_def)
  obtain k where k: "formatToDecimals (floorToStep (Fin r) (Fin t) (length f)) (length f) = fixed_digits (length f) (k * digits_val (i @ f))"
      "of_nat (k * digits_val (i @ f)) / 10 ^ length f \<le> r + (r / 2 ^ 50 + 2 / 10 ^ 9 * step)"
      "r \<le> of_nat ((k + 1) * digits_val (i @ f)) / 10 ^ length f * (1 + 1 / 2 ^ 50)"
    using floorToStep_exact [OF t(3)] unfolding assms(9) by blast
  obtain n where n: "formatToDecimals (roundToStep (Fin p) (Fin u) (length fp)) (length fp) = fixed_digits (length fp) (n * digits_val (ip @ fp))"
      "\<bar>of_nat (n * digits_val (ip @ fp)) / 10 ^ length fp - p\<bar> \<le> tick / 2 + p / 2 ^ 50 + tick / 10 ^ 19"
    using roundToStep_exact [OF u(3)] unfolding assms(10) by blast
  have "of_nat k * step = of_nat (k * digits_val (i @ f)) / 10 ^ length f"
      "(of_nat k + 1) * step = of_nat ((k + 1) * digits_val (i @ f)) / 10 ^ length f"
      "of_nat n * tick = of_nat (n * digits_val (ip @ fp)) / 10 ^ length fp"
    unfolding assms(9,10) by (simp_all add: algebra_simps add_divide_distrib)
  then show ?thesis using k n rules by (intro exI [of _ k] exI [of _ n]) (simp add: quantize_def tick_str_def)
qed


definition btc_info :: js_value where
  "btc_info = JObj [(''symbol'', JStr ''BTCUSDT''), (''status'', JStr ''TRADING''), (''quoteAsset'', JStr ''USDT''),
     (''filters'', JArr
       [JObj [(''filterType'', JStr ''PRICE_FILTER''), (''tickSize'', JStr ''0.10'')],
        JObj [(''filterType'', JStr ''LOT_SIZE''), (''stepSize'', JStr ''0.00100000''), (''minQty'', JStr ''0.001''), (''maxQty'', JStr ''1000'')],
        JObj [(''filterType'', JStr ''MARKET_LOT_SIZE''), (''stepSize'', JStr ''0.01''), (''minQty'', JStr ''0.01''), (''maxQty'', JStr ''120'')],
        JObj [(''filterType'', JStr ''MIN_NOTIONAL''), (''notional'', JStr ''100'')]])]"

lemma quantized_order_on_grid_witness:
  "\<exists>k n. quantize (symbolRulesFrom (\<lambda>x. x) btc_info) (Some (Fin (6412346 / 100))) (Some (Fin (12345 / 10000))) True
      = (Some (fixed_digits 1 (n * 1)), Some (fixed_digits 2 (k * 1))) \<and>
    of_nat k * (1 / 100 :: rat) \<le> 12345 / 10000 + (12345 / 10000 / 2 ^ 50 + 2 / 10 ^ 9 * (1 / 100)) \<and>
    12345 / 10000 \<le> (of_nat k + 1) * (1 / 100 :: rat) * (1 + 1 / 2 ^ 50) \<and>
    \<bar>of_nat n * (1 / 10 :: rat) - 6412346 / 100\<bar> \<le> (1 / 10) / 2 + 6412346 / 100 / 2 ^ 50 + (1 / 10) / 10 ^ 19"
proof -
  have d: "decimal_step ''0'' ''01'' 0" "decimal_step ''0'' ''1'' 1"
    by (simp_all add: decimal_step_def step_text_def is_digit_def digit_val_def digits_val_def)
  have f: "published_step True btc_info = JStr (step_text ''0'' ''01'' 0)"
      "js_field ''tickSize'' (filterOf btc_info ''PRICE_FILTER'') = JStr (step_text ''0'' ''1'' 1)"
    by (simp_all add: published_step_def nullish_def btc_info_def filterOf_def filtersOf_def step_text_def numeral_eq_Suc)
  have v: "digits_val (''0'' @ ''01'') = 1" "digits_val (''0'' @ ''1'') = 1" "length ''01'' = 2" "length ''1'' = 1"
    by (simp_all add: digits_val_def digit_val_def)
  show ?thesis
    by (rule quantized_order_on_grid [OF f(1) d(1) f(2) d(2), unfolded v]) simp_all
qed

text \<open>Within the lifetime of a cache entry every spelling of the symbol gets the rules that were
  fetched, without a call, and a failed fetch leaves the cache as it was.\<close>

theorem rules_served_from_cache:
  assumes "symbolRules pow10 details now later refresh symbol cache = (answer, cache')"
  shows "case answer of Inl e \<Rightarrow> cache' = cache
    | Inr rules \<Rightarrow> refresh \<or> cached_rules now False symbol cache = None \<longrightarrow> to_upper other = to_upper symbol \<longrightarrow> now' < later + RULES_TTL_MS \<longrightarrow>
        symbolRules pow10 details' now' later' False other cache' = (Inr rules, cache')"
  using assms
  by (auto simp: symbolRules_def cached_rules_def Let_def map_laws split: option.splits prod.splits sum.splits if_splits)


section \<open>Properties of sizing\<close>

lemma size_with_fields [simp]:
  "sz_symbol (size_with ps rules e b r) = to_upper (sp_symbol ps)" "sz_side (size_with ps rules e b r) = sp_side ps"
  "sz_rules (size_with ps rules e b r) = rules" "sz_entryPrice (size_with ps rules e b r) = e"
  "sz_stopPrice (size_with ps rules e b r) = sp_stopPrice ps"
  "sz_availableBalance (size_with ps rules e b r) = b" "sz_riskAmount (size_with ps rules e b r) = r"
  "sz_riskPerUnit (size_with ps rules e b r) = jn_abs (jn_sub e (sp_stopPrice ps))"
  "sz_notional (size_with ps rules e b r) = jn_mul (sz_quantity (size_with ps rules e b r)) e"
  "sz_quantityStr (size_with ps rules e b r)
     = formatToDecimals (sz_quantity (size_with ps rules e b r)) (snd (step_of (sp_marketOrder ps) rules))"
  by (simp_all only: size_with_def Let_def position_sizing.simps)

lemma no_reasons:
  "size_reasons ps rules e b u bounds fl q n m = [] \<longleftrightarrow>
     (if sp_side ps = ''BUY'' then jn_less (sp_stopPrice ps) e else jn_less e (sp_stopPrice ps)) \<and> \<not> jn_le u (Fin 0) \<and>
     \<not> jn_less (snd bounds) fl \<and> \<not> jn_less q (fst bounds) \<and>
     \<not> (jn_less (Fin 0) (sr_minNotional rules) \<and> jn_less n (sr_minNotional rules)) \<and> sr_status rules = JStr ''TRADING'' \<and>
     (\<forall>c. b = Some c \<longrightarrow> \<not> jn_less c m)"
  unfolding size_reasons_def append_is_Nil_conv by (auto split: option.splits)

text \<open>An accepted sizing is not clamped.\<close>

lemma size_with_ok:
  assumes "sz_ok (size_with ps rules e b r)"
  shows "sz_reasons (size_with ps rules e b r) = []" "jn_less (Fin 0) (sz_quantity (size_with ps rules e b r))"
    "if sp_side ps = ''BUY'' then jn_less (sp_stopPrice ps) e else jn_less e (sp_stopPrice ps)"
    "\<not> jn_less (sz_quantity (size_with ps rules e b r)) (fst (qty_bounds (sp_marketOrder ps) rules))"
    "\<not> jn_less (snd (qty_bounds (sp_marketOrder ps) rules)) (sz_quantity (size_with ps rules e b r))"
    "\<not> (jn_less (Fin 0) (sr_minNotional rules) \<and> jn_less (jn_mul (sz_quantity (size_with ps rules e b r)) e) (sr_minNotional rules))"
    "sr_status rules = JStr ''TRADING''" "\<forall>c. b = Some c \<longrightarrow> \<not> jn_less c (sz_requiredMargin (size_with ps rules e b r))"
    "\<not> jn_le (jn_abs (jn_sub e (sp_stopPrice ps))) (Fin 0)"
    "sz_quantity (size_with ps rules e b r)
       = floorToStep (if jn_less (Fin 0) (jn_abs (jn_sub e (sp_stopPrice ps))) then jn_div r (jn_abs (jn_sub e (sp_stopPrice ps))) else Fin 0)
           (fst (step_of (sp_marketOrder ps) rules)) (snd (step_of (sp_marketOrder ps) rules))"
proof -
  let ?z = "size_with ps rules e b r" and ?u = "jn_abs (jn_sub e (sp_stopPrice ps))"
  let ?fl = "floorToStep (if jn_less (Fin 0) ?u then jn_div r ?u else Fin 0)
    (fst (step_of (sp_marketOrder ps) rules)) (snd (step_of (sp_marketOrder ps) rules))"
  have q: "sz_quantity ?z = (if jn_less (snd (qty_bounds (sp_marketOrder ps) rules)) ?fl
      then floorToStep (snd (qty_bounds (sp_marketOrder ps) rules)) (fst (step_of (sp_marketOrder ps) rules))
        (snd (step_of (sp_marketOrder ps) rules)) else ?fl)"
    by (simp only: size_with_def Let_def position_sizing.simps)
  have reasons: "sz_reasons ?z = size_reasons ps rules e b ?u (qty_bounds (sp_marketOrder ps) rules) ?fl (sz_quantity ?z)
      (jn_mul (sz_quantity ?z) e) (sz_requiredMargin ?z)"
    by (simp only: size_with_def Let_def position_sizing.simps)
  have "sz_ok ?z = (sz_reasons ?z = [] \<and> jn_less (Fin 0) (sz_quantity ?z))"
    by (simp only: size_with_def Let_def position_sizing.simps)
  with assms show ok: "sz_reasons ?z = []" "jn_less (Fin 0) (sz_quantity ?z)" by blast+
  note facts = ok(1) [unfolded reasons no_reasons]
  then show qf: "sz_quantity ?z = ?fl" unfolding q by simp
  from facts show "if sp_side ps = ''BUY'' then jn_less (sp_stopPrice ps) e else jn_less e (sp_stopPrice ps)"
    "\<not> jn_less (sz_quantity ?z) (fst (qty_bounds (sp_marketOrder ps) rules))"
    "\<not> (jn_less (Fin 0) (sr_minNotional rules) \<and> jn_less (jn_mul (sz_quantity ?z) e) (sr_minNotional rules))"
    "sr_status rules = JStr ''TRADING''" "\<forall>c. b = Some c \<longrightarrow> \<not> jn_less c (sz_requiredMargin ?z)" "\<not> jn_le ?u (Fin 0)"
    by blast+
  from facts show "\<not> jn_less (snd (qty_bounds (sp_marketOrder ps) rules)) (sz_quantity ?z)" unfolding qf by blast
qed

lemma sizePosition_cases:
  assumes "sizePosition load mark balances ps cache = (Inr z, cache')"
  shows "\<exists>rules e b r. load cache = (Inr rules, cache') \<and> z = size_with ps rules e b r \<and> risk_of ps balances rules = Inr (b, r)"
  using assms
  by (auto simp: sizePosition_def bindR_Inr_iff awaited_def split: if_splits prod.splits sum.splits option.splits)


text \<open>C28: an accepted sizing has its stop on the losing side of the entry, a positive quantity within the
  lot bounds of the order's kind, a notional above the minimum, a trading symbol and a margin within the
  balance it looked at. When the exchange publishes the step as a decimal and the risk per unit and the
  amount at risk divide to a finite quantity of fewer than 48 bits of steps, the string to send is an
  exact whole number of steps and risks no more than the amount, up to two billionths of a step.\<close>

theorem accepted_sizing_meets_rules:
  assumes "sizePosition load mark balances ps cache = (Inr z, cache')" "sz_ok z"
    "step_of (sp_marketOrder ps) (sz_rules z) = (Fin t, d)" "bounds = qty_bounds (sp_marketOrder ps) (sz_rules z)"
  shows "sz_reasons z = [] \<and> jn_less (Fin 0) (sz_quantity z) \<and> sr_status (sz_rules z) = JStr ''TRADING'' \<and>
    (if sp_side ps = ''BUY'' then jn_less (sz_stopPrice z) (sz_entryPrice z) else jn_less (sz_entryPrice z) (sz_stopPrice z)) \<and>
    \<not> jn_less (sz_quantity z) (fst bounds) \<and> \<not> jn_less (snd bounds) (sz_quantity z) \<and>
    \<not> (jn_less (Fin 0) (sr_minNotional (sz_rules z)) \<and> jn_less (sz_notional z) (sr_minNotional (sz_rules z))) \<and>
    (\<forall>b. sz_availableBalance z = Some b \<longrightarrow> \<not> jn_less b (sz_requiredMargin z)) \<and>
    (\<forall>m raw. jn_div (sz_riskAmount z) (sz_riskPerUnit z) = Fin raw \<longrightarrow> exact_step m d t raw \<longrightarrow>
       (\<exists>k. sz_quantityStr z = fixed_digits d (k * m) \<and> sz_quantity z = js_round (of_nat (k * m) / 10 ^ d) \<and>
          of_nat (k * m) / 10 ^ d \<le> raw + (raw / 2 ^ 50 + 2 / 10 ^ 9 * (of_nat m / 10 ^ d))))"
proof -
  obtain rules e b r where z: "z = size_with ps rules e b r" using sizePosition_cases [OF assms(1)] by blast
  note ok = size_with_ok [OF assms(2) [unfolded z]]
  have st: "step_of (sp_marketOrder ps) rules = (Fin t, d)" using assms(3) by (simp add: z)
  have "\<exists>k. sz_quantityStr z = fixed_digits d (k * m) \<and> sz_quantity z = js_round (of_nat (k * m) / 10 ^ d) \<and>
      of_nat (k * m) / 10 ^ d \<le> raw + (raw / 2 ^ 50 + 2 / 10 ^ 9 * (of_nat m / 10 ^ d))"
    if raw: "jn_div (sz_riskAmount z) (sz_riskPerUnit z) = Fin raw" and ex: "exact_step m d t raw" for m raw
  proof -
    have "jn_less (Fin 0) (sz_riskPerUnit z)"
      using ok(9) raw unfolding z by (cases r) (auto simp: jn_le_def)
    then have "sz_quantity z = floorToStep (Fin raw) (Fin t) d" using ok(10) raw by (simp add: z st)
    then show ?thesis using floorToStep_exact [OF ex] by (auto simp: z st)
  qed
  then show ?thesis using ok unfolding assms(4) by (simp add: z)
qed

text \<open>With an amount at risk the leverage decides neither the quantity nor whether it is accepted.\<close>

theorem leverage_does_not_size:
  assumes "sp_riskAmount ps = Some a" "sp_riskPct ps = None"
  shows "mapR (\<lambda>z. (sz_ok z, sz_quantityStr z)) (fst (sizePosition load mark balances (ps\<lparr>sp_leverage := l\<rparr>) cache))
    = mapR (\<lambda>z. (sz_ok z, sz_quantityStr z)) (fst (sizePosition load mark balances ps cache))"
proof -
  have eq: "sz_quantity (size_with (ps\<lparr>sp_leverage := l\<rparr>) rules e None r) = sz_quantity (size_with ps rules e None r)"
    "sz_ok (size_with (ps\<lparr>sp_leverage := l\<rparr>) rules e None r) = sz_ok (size_with ps rules e None r)" for rules e r
  proof -
    have fields: "sp_marketOrder (ps\<lparr>sp_leverage := l\<rparr>) = sp_marketOrder ps" "sp_side (ps\<lparr>sp_leverage := l\<rparr>) = sp_side ps"
      "sp_stopPrice (ps\<lparr>sp_leverage := l\<rparr>) = sp_stopPrice ps" by simp_all
    show "sz_quantity (size_with (ps\<lparr>sp_leverage := l\<rparr>) rules e None r) = sz_quantity (size_with ps rules e None r)"
      by (simp only: size_with_def Let_def position_sizing.simps fields)
    show "sz_ok (size_with (ps\<lparr>sp_leverage := l\<rparr>) rules e None r) = sz_ok (size_with ps rules e None r)"
      unfolding size_with_def Let_def position_sizing.simps fields no_reasons by simp
  qed
  have risk: "risk_of (ps\<lparr>sp_leverage := l\<rparr>) balances rules = Inr (None, a)" "risk_of ps balances rules = Inr (None, a)" for rules
    using assms by (simp_all add: risk_of_def)
  obtain answer cache' where load: "load cache = (answer, cache')" by (cases "load cache")
  have same: "mapR h (bindR x f) = mapR h (bindR x g)" if "\<And>y. mapR h (f y) = mapR h (g y)" for h :: "position_sizing \<Rightarrow> bool \<times> string" and x :: "ops_error + 'x" and f g
    using that by (cases x) auto
  show ?thesis
    by (cases "sp_entryPrice ps") (simp_all add: sizePosition_def assms load risk, (intro same, simp add: eq)+)
qed


section \<open>Properties of the orders that are sent\<close>

lemma close_request_fields [simp]:
  "map_of (close_request s p q dp) ''side'' = Some (JStr (if jn_less (Fin 0) (pr_positionAmt p) then ''SELL'' else ''BUY''))"
  "map_of (close_request s p q dp) ''symbol'' = Some (JStr s)"
  "map_of (close_request s p q dp) ''type'' = Some (JStr ''MARKET'')"
  "map_of (close_request s p q dp) ''quantity'' = Some (JStr (formatToDecimals q dp))"
  "map_of (close_request s p q dp) ''positionSide'' = (if pr_positionSide p = ''BOTH'' then None else Some (JStr (pr_positionSide p)))"
  "map_of (close_request s p q dp) ''reduceOnly'' = (if pr_positionSide p = ''BOTH'' then Some (JBool True) else None)"
  by (simp_all add: close_request_def)

lemma close_plan_cases:
  "close_plan ps p rules = Inl out \<Longrightarrow> \<not> co_closed out"
  "close_plan ps p rules = Inr req \<Longrightarrow> \<exists>q dp. req = close_request (to_upper (cp_symbol ps)) p q dp"
  by (auto simp: close_plan_def refused_close_def Let_def split: if_splits)

lemma refused_close_open [simp]: "\<not> co_closed (refused_close reason p)"
  by (simp add: refused_close_def)

lemma closePosition_cases:
  assumes "closePosition load risk createOrder ps cache w = (answer, cache', w', sent)"
  shows "(sent = [] \<and> w' = w \<and> (\<forall>out. answer = Inr out \<longrightarrow> \<not> co_closed out)) \<or>
    (\<exists>positions p rules req order.
       risk (to_upper (cp_symbol ps)) = Inr positions \<and> open_rows (cp_positionSide ps) positions = [p] \<and> load cache = (Inr rules, cache') \<and>
       close_plan ps p rules = Inr req \<and> sent = [req] \<and> createOrder req w = (order, w') \<and>
       (case order of Inl e \<Rightarrow> answer = Inl (OpsFailed e) | Inr x \<Rightarrow> \<exists>out. answer = Inr out \<and> co_closed out \<and> co_order out = Some x))"
proof -
  have closed: "\<not> co_closed out" if "close_plan ps p rules = Inl out" for p rules out by (rule close_plan_cases(1) [OF that])
  show ?thesis
    using assms unfolding closePosition_def Let_def
    by (simp split: if_splits sum.splits list.splits prod.splits; (auto dest: closed; fail | fastforce))
qed

text \<open>Closing sends at most one order, for the one open row that matches; it is a market order on the
  side against the position, names the position side exactly in hedge mode and is marked reduce-only
  exactly in one-way mode; \<open>closed\<close> is reported exactly when the exchange accepted it.\<close>

theorem close_sends_one_reducing_order:
  assumes "closePosition load risk createOrder ps cache w = (answer, cache', w', sent)"
  shows "(sent = [] \<and> w' = w \<and> (\<forall>out. answer = Inr out \<longrightarrow> \<not> co_closed out)) \<or>
    (\<exists>positions p rules req.
       risk (to_upper (cp_symbol ps)) = Inr positions \<and> open_rows (cp_positionSide ps) positions = [p] \<and> load cache = (Inr rules, cache') \<and>
       sent = [req] \<and> map_of req ''type'' = Some (JStr ''MARKET'') \<and>
       map_of req ''side'' = Some (JStr (if jn_less (Fin 0) (pr_positionAmt p) then ''SELL'' else ''BUY'')) \<and>
       map_of req ''reduceOnly'' = (if pr_positionSide p = ''BOTH'' then Some (JBool True) else None) \<and>
       map_of req ''positionSide'' = (if pr_positionSide p = ''BOTH'' then None else Some (JStr (pr_positionSide p))) \<and>
       (case createOrder req w of
          (Inl e, v) \<Rightarrow> w' = v \<and> answer = Inl (OpsFailed e)
        | (Inr order, v) \<Rightarrow> w' = v \<and> (\<exists>out. answer = Inr out \<and> co_closed out \<and> co_order out = Some order)))"
proof (cases "sent = []")
  case True
  then show ?thesis using closePosition_cases [OF assms] by auto
next
  case False
  then obtain positions p rules req order where *:
      "risk (to_upper (cp_symbol ps)) = Inr positions" "open_rows (cp_positionSide ps) positions = [p]" "load cache = (Inr rules, cache')"
      "close_plan ps p rules = Inr req" "sent = [req]" "createOrder req w = (order, w')"
      "case order of Inl e \<Rightarrow> answer = Inl (OpsFailed e) | Inr x \<Rightarrow> \<exists>out. answer = Inr out \<and> co_closed out \<and> co_order out = Some x"
    using closePosition_cases [OF assms] by blast
  obtain q dp where req: "req = close_request (to_upper (cp_symbol ps)) p q dp" using close_plan_cases(2) [OF *(4)] by blast
  have "case createOrder req w of
          (Inl e, v) \<Rightarrow> w' = v \<and> answer = Inl (OpsFailed e)
        | (Inr order, v) \<Rightarrow> w' = v \<and> (\<exists>out. answer = Inr out \<and> co_closed out \<and> co_order out = Some order)"
    using *(6,7) by (auto split: sum.splits)
  then show ?thesis
    using * by (intro disjI2 exI [of _ positions] exI [of _ p] exI [of _ rules] exI [of _ req] conjI) (simp_all add: req)
qed

lemma send_all_length: "send_all ex rs w = (answers, w') \<Longrightarrow> length answers = length rs"
  by (induction rs arbitrary: w answers) (auto split: prod.splits)

text \<open>A bracket sends nothing, or only an entry that was refused, or the entry and after its
  acceptance the stop and, when asked for, the target: all against the entry, of its quantity, and
  complete exactly when the exchange accepted every leg.\<close>

theorem bracket_protects_accepted_entry:
  assumes "placeBracketOrder load createOrder ps cache w = (answer, cache', w', sent)"
  shows "(sent = [] \<and> w' = w \<and> (\<exists>e. answer = Inl e)) \<or>
    (\<exists>rules v. load cache = (Inr rules, cache') \<and>
       ((\<exists>e. createOrder (entry_request ps rules) w = (Inl e, w') \<and> answer = Inl (OpsFailed e) \<and> sent = [entry_request ps rules]) \<or>
        (\<exists>entry answers out. createOrder (entry_request ps rules) w = (Inr entry, v) \<and>
           send_all createOrder (bracket_legs ps rules) v = (answers, w') \<and> sent = entry_request ps rules # bracket_legs ps rules \<and>
           answer = Inr out \<and> (bo_complete out \<longleftrightarrow> (\<forall>r \<in> set answers. okR r \<noteq> None)) \<and>
           (\<forall>leg \<in> set (bracket_legs ps rules). map_of leg ''quantity'' = map_of (entry_request ps rules) ''quantity'' \<and>
              map_of leg ''side'' = Some (JStr (if bp_side ps = ''BUY'' then ''SELL'' else ''BUY'')) \<and>
              (map_of leg ''reduceOnly'' = Some (JBool True) \<longleftrightarrow> \<not> bracket_hedged ps)))))"
proof -
  have leg: "map_of (leg_request ps rules ty p) ''quantity'' = Some (JStr (bracket_quantity ps rules))"
    "map_of (leg_request ps rules ty p) ''side'' = Some (JStr (if bp_side ps = ''BUY'' then ''SELL'' else ''BUY''))"
    "map_of (leg_request ps rules ty p) ''reduceOnly'' = Some (JBool True) \<longleftrightarrow> \<not> bracket_hedged ps" for rules ty p
    by (auto simp: leg_request_def side_field_def bracket_hedged_def split: option.splits)
  have entry: "map_of (entry_request ps rules) ''quantity'' = Some (JStr (bracket_quantity ps rules))" for rules
    by (simp add: entry_request_def)
  have "\<forall>l \<in> set (bracket_legs ps rules). map_of l ''quantity'' = map_of (entry_request ps rules) ''quantity'' \<and>
      map_of l ''side'' = Some (JStr (if bp_side ps = ''BUY'' then ''SELL'' else ''BUY'')) \<and>
      (map_of l ''reduceOnly'' = Some (JBool True) \<longleftrightarrow> \<not> bracket_hedged ps)" for rules
    by (auto simp: bracket_legs_def leg entry split: option.splits)
  moreover have "bo_complete (bracket_report ps rules e answers) \<longleftrightarrow> (\<forall>r \<in> set answers. okR r \<noteq> None)" for rules e answers
    by (auto simp: bracket_report_def filter_empty_conv)
  ultimately show ?thesis
    using assms by (simp add: placeBracketOrder_def split: prod.splits sum.splits if_splits) blast+
qed



section \<open>Examples\<close>

definition btc_rules :: symbol_rules where
  "btc_rules = \<lparr>sr_symbol = JStr ''BTCUSDT'', sr_status = JStr ''TRADING'', sr_base = JUndef, sr_quote = JStr ''USDT'',
     sr_tickSize = js_lit (1 / 10), sr_tickDecimals = 1, sr_stepSize = js_lit (1 / 1000), sr_stepDecimals = 3,
     sr_minQty = js_lit (1 / 1000), sr_maxQty = Fin 1000, sr_marketStepSize = js_lit (1 / 100), sr_marketStepDecimals = 2,
     sr_marketMinQty = js_lit (1 / 100), sr_marketMaxQty = Fin 120, sr_minNotional = Fin 100\<rparr>"

definition long_sizing :: "js_number \<Rightarrow> size_params" where
  "long_sizing risk = \<lparr>sp_symbol = ''btcusdt'', sp_side = ''BUY'', sp_stopPrice = Fin 63000, sp_entryPrice = Some (Fin 64000),
     sp_riskAmount = Some risk, sp_riskPct = None, sp_leverage = Some (Fin 20), sp_marketOrder = True\<rparr>"

lemma long_sizing_result:
  "sizePosition (\<lambda>c. (Inr btc_rules, c)) mark balances (long_sizing a) cache
     = (Inr (size_with (long_sizing a) btc_rules (Fin 64000) None a), cache)"
  by (simp add: sizePosition_def long_sizing_def risk_of_def awaited_def)

definition sized_long :: position_sizing where
  "sized_long = size_with (long_sizing (Fin 25)) btc_rules (Fin 64000) None (Fin 25)"

lemma sized_long_ok: "sz_ok sized_long" "sz_quantityStr sized_long = ''0.02''"
  by code_simp+

lemma accepted_sizing_meets_rules_witness:
  "jn_less (Fin 0) (sz_quantity sized_long) \<and> sr_status btc_rules = JStr ''TRADING'' \<and>
    \<not> jn_less (sz_quantity sized_long) (sr_marketMinQty btc_rules) \<and> \<not> jn_less (sr_marketMaxQty btc_rules) (sz_quantity sized_long) \<and>
    sz_quantityStr sized_long = ''0.02''"
proof -
  have r: "sizePosition (\<lambda>c. (Inr btc_rules, c)) (\<lambda>s. Inl (NetworkError [])) (Inr []) (long_sizing (Fin 25)) [] = (Inr sized_long, [])"
    unfolding sized_long_def by (rule long_sizing_result)
  obtain t where t: "js_lit (1 / 100) = Fin t"
    using js_round_finite [of "1 / 100"] by (auto simp: js_lit_def)
  have rules: "sz_rules sized_long = btc_rules" by (simp add: sized_long_def)
  have st: "step_of (sp_marketOrder (long_sizing (Fin 25))) (sz_rules sized_long) = (Fin t, 2)"
    unfolding rules by (simp add: step_of_def long_sizing_def btc_rules_def t)
  have b: "qty_bounds (sp_marketOrder (long_sizing (Fin 25))) btc_rules = (sr_marketMinQty btc_rules, sr_marketMaxQty btc_rules)"
    by (simp add: qty_bounds_def long_sizing_def)
  show ?thesis
    using accepted_sizing_meets_rules [OF r sized_long_ok(1) st refl] sized_long_ok(2) unfolding rules b by simp
qed

text \<open>An amount at risk that is not a number is refused without a reason, although every unmet constraint
  is to be reported.\<close>

lemma refused_without_reason:
  "mapR (\<lambda>z. (sz_ok z, sz_reasons z)) (fst (sizePosition (\<lambda>c. (Inr btc_rules, c)) (\<lambda>s. Inl (NetworkError [])) (Inr []) (long_sizing NaN) []))
     = Inr (False, [])"
  by code_simp

text \<open>A market entry of a bracket is rounded to the step of limit orders: with a market step of 0.01 the
  exchange is sent 0.015.\<close>

lemma market_bracket_uses_limit_step:
  "entry_request \<lparr>bp_symbol = ''BTCUSDT'', bp_side = ''BUY'', bp_quantity = JNum (js_lit (15 / 1000)), bp_entryPrice = None,
       bp_stopLossPrice = Fin 63000, bp_takeProfitPrice = None, bp_positionSide = None, bp_workingType = None\<rparr> btc_rules
     = [(''symbol'', JStr ''BTCUSDT''), (''side'', JStr ''BUY''), (''type'', JStr ''MARKET''), (''quantity'', JStr ''0.015'')]"
  "sr_marketStepSize btc_rules = js_lit (1 / 100)"
  by code_simp+

text \<open>Two open rows on one symbol, as in hedge mode, are left open without an error.\<close>

lemma hedged_close_does_nothing:
  assumes "risk (to_upper (cp_symbol ps)) = Inr positions" "1 < length (open_rows (cp_positionSide ps) positions)"
    "cp_portion ps = None"
  shows "\<exists>out. closePosition load risk createOrder ps cache w = (Inr out, cache, w, []) \<and> \<not> co_closed out"
proof (cases "open_rows (cp_positionSide ps) positions" rule: remdups_adj.cases)
  case (3 x y xs)
  then show ?thesis using assms by (simp add: closePosition_def jn_le_def)
qed (use assms in auto)


text \<open>A short position of two units in one-way mode, closed in full on an exchange that records what it
  accepts.\<close>

definition btc_short :: position_risk where
  "btc_short = \<lparr>pr_symbol = ''BTCUSDT'', pr_positionSide = ''BOTH'', pr_positionAmt = Fin (- 2), pr_notional = Fin (- 126000),
     pr_unRealizedProfit = Fin 20\<rparr>"

definition close_btc :: close_params where
  "close_btc = \<lparr>cp_symbol = ''btcusdt'', cp_positionSide = None, cp_portion = None, cp_dryRun = False\<rparr>"

lemma close_btc_plan: "close_plan close_btc btc_short btc_rules = Inr (close_request ''BTCUSDT'' btc_short (Fin 2) 2)"
  by code_simp

lemma close_sends_one_reducing_order_witness:
  "\<exists>out req. closePosition (\<lambda>c. (Inr btc_rules, c)) (\<lambda>s. Inr [btc_short]) (\<lambda>req w. (Inr JUndef, w @ [req])) close_btc [] []
       = (Inr out, [], [req], [req]) \<and> co_closed out \<and>
     map_of req ''side'' = Some (JStr ''BUY'') \<and> map_of req ''reduceOnly'' = Some (JBool True)"
proof -
  have rows: "open_rows (cp_positionSide close_btc) [btc_short] = [btc_short]"
    by (simp add: open_rows_def close_btc_def btc_short_def)
  let ?req = "close_request ''BTCUSDT'' btc_short (Fin 2) 2"
  obtain out where run: "closePosition (\<lambda>c. (Inr btc_rules, c)) (\<lambda>s. Inr [btc_short]) (\<lambda>req w. (Inr JUndef, w @ [req])) close_btc [] []
      = (Inr out, [], [?req], [?req])"
    using rows close_btc_plan by (simp add: closePosition_def close_btc_def jn_le_def)
  show ?thesis
    using close_sends_one_reducing_order [OF run] run by (auto simp: rows btc_short_def)
qed

end
