(* ===== verification/Agent_Signals.thy ===== *)
theory Agent_Signals
  imports JS_Math
begin

text \<open>
  \<open>src/agent/indicators.ts\<close>, \<open>regime.ts\<close>, \<open>signals.ts\<close> and \<open>exits.ts\<close> with the profile of \<open>config.ts\<close>: indicators
  on bars, the regime classifier, the confluence scorer and the accounting of exits, in binary floating
  point. A series is a list; the fetched series of a function are its arguments. \<open>Math.sqrt\<close> and
  squaring, which the language leaves to the implementation, are arguments. Lemmas: the range of the
  percentile and when the crowd gates can fire, what the classifier and the scorer return, and that
  exits never close more than remains.
\<close>

section \<open>Indicators\<close>

record bar =
  b_openTime :: js_number
  b_open :: js_number
  b_high :: js_number
  b_low :: js_number
  b_close :: js_number
  b_volume :: js_number
  b_quoteAssetVolume :: js_number
  b_takerBuyBaseVolume :: js_number
  b_closeTime :: "js_number option"

fun ema_from :: "js_number \<Rightarrow> js_number \<Rightarrow> js_number list \<Rightarrow> js_number list" where
  "ema_from k prev [] = []"
| "ema_from k prev (v # vs) =
     (let x = jn_add (jn_mul v k) (jn_mul prev (jn_sub (Fin 1) k)) in x # ema_from k x vs)"

fun ema :: "js_number list \<Rightarrow> js_number \<Rightarrow> js_number list" where
  "ema [] period = []"
| "ema (v # vs) period = v # ema_from (jn_div (Fin 2) (jn_add period (Fin 1))) v vs"

definition true_range :: "bar \<Rightarrow> bar \<Rightarrow> js_number" where
  "true_range p b =
     jn_max (jn_max (jn_sub (b_high b) (b_low b)) (jn_abs (jn_sub (b_high b) (b_close p)))) (jn_abs (jn_sub (b_low b) (b_close p)))"

definition num :: "nat \<Rightarrow> js_number" where
  "num n = js_round (of_nat n)"

definition atr :: "bar list \<Rightarrow> nat \<Rightarrow> js_number" where
  "atr bars period =
     (case bars of [] \<Rightarrow> Fin 0
      | [b] \<Rightarrow> jn_sub (b_high b) (b_low b)
      | _ \<Rightarrow>
          let ranges = map (\<lambda>i. true_range (bars ! (i - 1)) (bars ! i)) [max 1 (length bars - period)..<length bars]
          in if 0 < length ranges then jn_div (foldl jn_add (Fin 0) ranges) (num (length ranges)) else Fin 0)"

text \<open>\<open>===\<close> is false on \<open>NaN\<close>.\<close>

definition below_count :: "js_number \<Rightarrow> js_number list \<Rightarrow> nat" where
  "below_count current history = length (filter (\<lambda>h. jn_less h current) history)"

definition tie_count :: "js_number \<Rightarrow> js_number list \<Rightarrow> nat" where
  "tie_count current history = length (filter (\<lambda>h. h \<noteq> NaN \<and> h = current) history)"

definition percentile :: "js_number \<Rightarrow> js_number list \<Rightarrow> js_number" where
  "percentile current history =
     (if history = [] then js_lit (1 / 2)
      else jn_div (jn_add (num (below_count current history)) (jn_mul (js_lit (1 / 2)) (num (tie_count current history))))
             (num (length history)))"

definition closedBars :: "bar list \<Rightarrow> js_number \<Rightarrow> bar list" where
  "closedBars bars now =
     (if bars = [] then bars
      else case b_closeTime (last bars) of None \<Rightarrow> bars | Some t \<Rightarrow> if jn_le t now then bars else butlast bars)"

definition vwap_sums :: "bar list \<Rightarrow> js_number \<Rightarrow> js_number \<times> js_number" where
  "vwap_sums bars since =
     foldl (\<lambda>(pv, v) b.
         if jn_less (b_openTime b) since then (pv, v)
         else (jn_add pv (jn_mul (jn_div (jn_add (jn_add (b_high b) (b_low b)) (b_close b)) (Fin 3)) (b_volume b)), jn_add v (b_volume b)))
       (Fin 0, Fin 0) bars"

definition sessionVwap :: "bar list \<Rightarrow> js_number \<Rightarrow> js_number" where
  "sessionVwap bars since =
     (case vwap_sums bars since of (pv, v) \<Rightarrow>
        if jn_less (Fin 0) v then jn_div pv v else if bars = [] then Fin 0 else b_close (last bars))"

text \<open>\<open>slice(-n)\<close> is the whole list for \<open>n = 0\<close>.\<close>

definition slice_last :: "nat \<Rightarrow> 'a list \<Rightarrow> 'a list" where
  "slice_last n xs = (if n = 0 then xs else drop (length xs - n) xs)"

definition takerRatio :: "bar list \<Rightarrow> nat \<Rightarrow> js_number" where
  "takerRatio bars lookback =
     (let recent = slice_last lookback bars;
          buy = foldl (\<lambda>s b. jn_add s (b_takerBuyBaseVolume b)) (Fin 0) recent;
          tot = foldl (\<lambda>s b. jn_add s (b_volume b)) (Fin 0) recent;
          sell = jn_sub tot buy
      in if jn_less (Fin 0) sell then jn_div buy sell else Fin 1)"

section \<open>Regime\<close>

datatype regime = TREND_UP | TREND_DOWN | RANGE | SQUEEZE | CHAOS

record regime_inputs =
  ri_e20 :: js_number
  ri_e50 :: js_number
  ri_atrPct :: js_number
  ri_fundingZ :: js_number
  ri_oiSlope :: js_number

definition classifyFromInputs :: "regime_inputs \<Rightarrow> regime" where
  "classifyFromInputs i =
     (if jn_le (js_lit (85 / 100)) (ri_atrPct i) \<or> jn_le (Fin 2) (jn_abs (ri_fundingZ i)) then CHAOS
      else if jn_le (ri_atrPct i) (js_lit (2 / 10)) then SQUEEZE
      else
        let trend = jn_le (js_lit (4 / 10)) (ri_atrPct i) \<and> jn_le (js_lit (- 1 / 100)) (ri_oiSlope i)
        in if trend \<and> jn_less (ri_e50 i) (ri_e20 i) \<and> jn_less (ri_fundingZ i) (Fin 2) then TREND_UP
           else if trend \<and> jn_less (ri_e20 i) (ri_e50 i) \<and> jn_less (Fin (- 2)) (ri_fundingZ i) then TREND_DOWN
           else if jn_le (ri_atrPct i) (js_lit (6 / 10)) \<and> jn_le (jn_abs (ri_oiSlope i)) (js_lit (2 / 100)) then RANGE
           else CHAOS)"

text \<open>The ATR of every fifth window of 15 bars that ends at least one window before the end.\<close>

function atr_windows :: "bar list \<Rightarrow> nat \<Rightarrow> js_number list" where
  "atr_windows bars i =
     (if i + 30 \<le> length bars then atr (take 15 (drop i bars)) 15 # atr_windows bars (i + 5) else [])"
  by auto
termination by (relation "measure (\<lambda>(bars, i). length bars - i)") auto

declare atr_windows.simps [simp del]

definition atr_percentile :: "bar list \<Rightarrow> js_number" where
  "atr_percentile bars = percentile (atr (slice_last 15 bars) 15) (atr_windows bars 0)"

definition js_mean :: "js_number list \<Rightarrow> js_number" where
  "js_mean xs = jn_div (foldl jn_add (Fin 0) xs) (num (length xs))"

definition funding_z :: "(js_number \<Rightarrow> js_number) \<Rightarrow> (js_number \<Rightarrow> js_number) \<Rightarrow> js_number list \<Rightarrow> js_number" where
  "funding_z square sqroot fr =
     (if fr = [] then Fin 0
      else let mean = js_mean fr; variance = js_mean (map (\<lambda>b. square (jn_sub b mean)) fr); sd = sqroot variance
           in if jn_less (Fin 0) sd then jn_div (jn_sub (last fr) mean) sd else Fin 0)"

definition oi_slope :: "js_number list \<Rightarrow> js_number" where
  "oi_slope oi =
     (if 2 \<le> length oi \<and> jn_less (Fin 0) (hd oi) then jn_div (jn_sub (last oi) (hd oi)) (hd oi) else Fin 0)"

text \<open>300 bars of 15 minutes, the funding rates and the open-interest values.\<close>

definition classifyRegime :: "(js_number \<Rightarrow> js_number) \<Rightarrow> (js_number \<Rightarrow> js_number) \<Rightarrow> bar list \<Rightarrow> js_number list \<Rightarrow> js_number list \<Rightarrow> regime" where
  "classifyRegime square sqroot bars funding oi =
     (if length bars < 20 then CHAOS
      else classifyFromInputs
        \<lparr>ri_e20 = last (ema (map b_close bars) (Fin 20)), ri_e50 = last (ema (map b_close bars) (Fin 50)),
         ri_atrPct = atr_percentile bars, ri_fundingZ = funding_z square sqroot funding, ri_oiSlope = oi_slope oi\<rparr>)"

section \<open>Signals\<close>

datatype dir = LONG | SHORT
datatype signal_setup = CONTINUATION | SWEEP_FADE

record signal =
  sg_direction :: dir
  sg_setup :: signal_setup
  sg_score :: nat
  sg_vetoes :: "string list"
  sg_entryHint :: js_number
  sg_stopHint :: js_number

record signal_inputs =
  si_regime :: regime
  si_close :: js_number
  si_a5 :: js_number
  si_e20up :: bool
  si_vwap :: js_number
  si_imbalance :: js_number
  si_taker :: js_number
  si_oiRise :: bool
  si_avgFunding :: js_number
  si_posPct :: js_number
  si_lastLow :: js_number
  si_lastHigh :: js_number

definition signal_dir :: "signal_inputs \<Rightarrow> dir option" where
  "signal_dir i =
     (case si_regime i of TREND_UP \<Rightarrow> Some LONG | TREND_DOWN \<Rightarrow> Some SHORT
      | _ \<Rightarrow> if jn_le (js_lit (9 / 10)) (si_posPct i) then Some SHORT
             else if jn_le (si_posPct i) (js_lit (1 / 10)) then Some LONG else None)"

text \<open>The reading of one side: above for a long, below for a short.\<close>

definition with_side :: "bool \<Rightarrow> bool \<Rightarrow> bool \<Rightarrow> bool" where
  "with_side long up down \<longleftrightarrow> (long \<and> up) \<or> (\<not> long \<and> down)"

definition book_for :: "bool \<Rightarrow> signal_inputs \<Rightarrow> bool" where
  "book_for long i \<longleftrightarrow>
     with_side long (jn_le (js_lit (15 / 10)) (si_imbalance i)) (jn_le (si_imbalance i) (jn_div (Fin 1) (js_lit (15 / 10))))"

definition signal_score :: "bool \<Rightarrow> signal_inputs \<Rightarrow> nat" where
  "signal_score long i =
     (if with_side long (si_e20up i) (\<not> si_e20up i) then 20 else 0) +
     (if with_side long (jn_less (si_vwap i) (si_close i)) (jn_less (si_close i) (si_vwap i)) then 15 else 0) +
     (if book_for long i then 10 else 0) +
     (if with_side long (jn_le (js_lit (115 / 100)) (si_taker i)) (jn_le (si_taker i) (js_lit (87 / 100))) then 15 else 0) +
     (if si_oiRise i then 15 else 0) +
     (if jn_less (jn_abs (si_avgFunding i)) (js_lit (5 / 10000)) then 10 else 0) +
     (if with_side long (jn_le (si_posPct i) (js_lit (1 / 10))) (jn_le (js_lit (9 / 10)) (si_posPct i)) then 10 else 0)"

definition signal_vetoes :: "bool \<Rightarrow> signal_inputs \<Rightarrow> string list" where
  "signal_vetoes long i = (if \<not> book_for long i \<and> book_for (\<not> long) i then [''BOOK_IMBALANCE_OPPOSITE''] else [])"

definition scoreFromInputs :: "signal_inputs \<Rightarrow> signal option" where
  "scoreFromInputs i =
     (case signal_dir i of None \<Rightarrow> None
      | Some d \<Rightarrow>
          let long = (d = LONG);
              stop = (if long then jn_sub (si_lastLow i) (jn_mul (js_lit (1 / 10)) (si_a5 i))
                      else jn_add (si_lastHigh i) (jn_mul (js_lit (1 / 10)) (si_a5 i)))
          in if jn_less (jn_mul (js_lit (12 / 10)) (si_a5 i)) (jn_abs (jn_sub (si_close i) stop)) then None
             else Some \<lparr>sg_direction = d, sg_setup = (if si_regime i = RANGE then SWEEP_FADE else CONTINUATION),
                        sg_score = signal_score long i, sg_vetoes = signal_vetoes long i,
                        sg_entryHint = si_close i, sg_stopHint = stop\<rparr>)"

text \<open>How many 5-minute bars are fetched, and the signal from what was fetched: quantities of the book's
  levels, open interest, position ratios and funding rates.\<close>

definition bars_limit :: "js_number \<Rightarrow> js_number \<Rightarrow> js_number" where
  "bars_limit now dayStart =
     (let since = jn_max (Fin 0) (jn_ceil (jn_div (jn_sub now dayStart) (Fin 300000)))
      in jn_min (Fin 288) (jn_max (Fin 60) (jn_add since (Fin 8))))"

record symbol_data =
  sd_bars5 :: "bar list"
  sd_bars15 :: "bar list"
  sd_bidQtys :: "js_number list"
  sd_askQtys :: "js_number list"
  sd_openInterest :: "js_number list"
  sd_topRatios :: "js_number list"
  sd_funding :: "js_number list"

definition scoreSymbol :: "regime \<Rightarrow> js_number \<Rightarrow> js_number \<Rightarrow> symbol_data \<Rightarrow> signal option" where
  "scoreSymbol regime dayStart now sd =
     (let bars5 = closedBars (sd_bars5 sd) now; bars15 = closedBars (sd_bars15 sd) now
      in if bars5 = [] \<or> bars15 = [] then None
         else
           let c15 = map b_close bars15;
               bidQty = foldl jn_add (Fin 0) (sd_bidQtys sd); askQty = foldl jn_add (Fin 0) (sd_askQtys sd);
               oi = sd_openInterest sd; ratios = sd_topRatios sd; fr = sd_funding sd
           in scoreFromInputs
             \<lparr>si_regime = regime, si_close = b_close (last bars5), si_a5 = atr bars5 14,
              si_e20up = jn_less (last (ema c15 (Fin 50))) (last (ema c15 (Fin 20))),
              si_vwap = sessionVwap bars5 dayStart,
              si_imbalance = (if jn_less (Fin 0) askQty then jn_div bidQty askQty else Fin 1),
              si_taker = takerRatio bars5 3,
              si_oiRise = (2 \<le> length oi \<and> jn_less (hd oi) (last oi)),
              si_avgFunding = (if fr = [] then Fin 0 else js_mean fr),
              si_posPct = (if ratios = [] then js_lit (1 / 2) else percentile (last ratios) ratios),
              si_lastLow = b_low (last bars5), si_lastHigh = b_high (last bars5)\<rparr>)"

section \<open>Profile and exits\<close>

record agent_profile =
  ag_scanIntervalMs :: js_number
  ag_cycleIntervalMs :: js_number
  ag_watchlistSize :: nat
  ag_minQuoteVolume24h :: js_number
  ag_minOpenInterestUsd :: js_number
  ag_maxSpreadBps :: js_number
  ag_confluenceEntry :: nat
  ag_confluenceSwing :: nat
  ag_riskPerTradePct :: js_number
  ag_riskPerTradePctHighConviction :: js_number
  ag_maxLeverage :: js_number
  ag_maxIntradayPositions :: nat
  ag_maxSwingPositions :: nat
  ag_maxPerCluster :: nat
  ag_deadmanMs :: js_number
  ag_trailCallbackPct :: js_number
  ag_trailCallbackWidePct :: js_number
  ag_timeStopHours :: js_number

definition DEFAULT_PROFILE :: agent_profile where
  "DEFAULT_PROFILE =
     \<lparr>ag_scanIntervalMs = Fin 900000, ag_cycleIntervalMs = Fin 30000, ag_watchlistSize = 50, ag_minQuoteVolume24h = Fin 50000000,
      ag_minOpenInterestUsd = Fin 20000000, ag_maxSpreadBps = Fin 5, ag_confluenceEntry = 70, ag_confluenceSwing = 80,
      ag_riskPerTradePct = js_lit (25 / 10), ag_riskPerTradePctHighConviction = Fin 3, ag_maxLeverage = Fin 20,
      ag_maxIntradayPositions = 4, ag_maxSwingPositions = 2, ag_maxPerCluster = 2, ag_deadmanMs = Fin 300000,
      ag_trailCallbackPct = Fin 1, ag_trailCallbackWidePct = js_lit (15 / 10), ag_timeStopHours = Fin 4\<rparr>"

record managed_position =
  mp_symbol :: string
  mp_side :: dir
  mp_quantity :: string
  mp_remaining :: js_number
  mp_openedAt :: js_number
  mp_stopPrice :: js_number
  mp_tp1Price :: js_number
  mp_tp2Price :: js_number
  mp_tp1Done :: bool
  mp_tp2Done :: bool
  mp_highWater :: js_number

datatype exit_reason = ExStop | ExTimeStop | ExTrail | ExTp1 | ExTp2

record exit_decision =
  xd_reason :: exit_reason
  xd_quantity :: js_number
  xd_terminal :: bool

definition updateHighWater :: "js_number \<Rightarrow> managed_position \<Rightarrow> managed_position" where
  "updateHighWater price pos =
     pos\<lparr>mp_highWater := (if mp_side pos = LONG then jn_max (mp_highWater pos) price else jn_min (mp_highWater pos) price)\<rparr>"

definition nextExitAction :: "js_number \<Rightarrow> js_number \<Rightarrow> agent_profile \<Rightarrow> managed_position \<Rightarrow> exit_decision option" where
  "nextExitAction price now profile pos =
     (let long = (mp_side pos = LONG); original = string_to_number (mp_quantity pos);
          callback = jn_div (ag_trailCallbackPct profile) (Fin 100)
      in if (if long then jn_le price (mp_stopPrice pos) else jn_le (mp_stopPrice pos) price)
         then Some \<lparr>xd_reason = ExStop, xd_quantity = mp_remaining pos, xd_terminal = True\<rparr>
         else if jn_less (jn_mul (ag_timeStopHours profile) (Fin 3600000)) (jn_sub now (mp_openedAt pos))
         then Some \<lparr>xd_reason = ExTimeStop, xd_quantity = mp_remaining pos, xd_terminal = True\<rparr>
         else if \<not> mp_tp1Done pos \<and> (if long then jn_le (mp_tp1Price pos) price else jn_le price (mp_tp1Price pos))
         then Some \<lparr>xd_reason = ExTp1, xd_quantity = jn_min (jn_mul original (js_lit (4 / 10))) (mp_remaining pos), xd_terminal = False\<rparr>
         else if \<not> mp_tp2Done pos \<and> (if long then jn_le (mp_tp2Price pos) price else jn_le price (mp_tp2Price pos))
         then Some \<lparr>xd_reason = ExTp2, xd_quantity = jn_min (jn_mul original (js_lit (3 / 10))) (mp_remaining pos), xd_terminal = False\<rparr>
         else if mp_tp2Done pos \<and>
           (if long then jn_le price (jn_mul (mp_highWater pos) (jn_sub (Fin 1) callback))
            else jn_le (jn_mul (mp_highWater pos) (jn_add (Fin 1) callback)) price)
         then Some \<lparr>xd_reason = ExTrail, xd_quantity = mp_remaining pos, xd_terminal = True\<rparr>
         else None)"

definition applyExit :: "exit_decision \<Rightarrow> managed_position \<Rightarrow> managed_position" where
  "applyExit d pos =
     (let r = jn_sub (mp_remaining pos) (xd_quantity d)
      in pos\<lparr>mp_remaining := (if jn_le r (js_lit (1 / 10 ^ 12)) then Fin 0 else r),
             mp_tp1Done := (mp_tp1Done pos \<or> xd_reason d = ExTp1), mp_tp2Done := (mp_tp2Done pos \<or> xd_reason d = ExTp2)\<rparr>)"


section \<open>Properties of the indicators\<close>

lemma rpow_minus_one: "rpow 2 (- 1) = 1 / 2"
  by (simp add: rpow_def)

lemma halves_exact:
  assumes "k \<le> 2 ^ 53"
  shows "js_round (of_nat k / 2) = Fin (of_nat k / 2)"
proof (cases "k = 0")
  case False
  have r: "of_nat k / 2 = of_int (int k) * rpow 2 (- 1)" by (simp add: rpow_minus_one)
  have "(of_nat k :: rat) \<le> of_nat (2 ^ 53)" using assms by (simp only: of_nat_le_iff)
  then have b: "of_nat k / 2 < (2 ^ 1024 :: rat)"
  proof -
    assume "(of_nat k :: rat) \<le> of_nat (2 ^ 53)"
    then have "of_nat k / 2 < (2 ^ 60 :: rat)" by simp
    also have "(2 ^ 60 :: rat) < 2 ^ 1024" by (rule power_strict_increasing) simp_all
    finally show ?thesis .
  qed
  have "int k \<le> int (2 ^ 53)" using assms by (simp only: of_nat_le_iff)
  then have "\<bar>int k\<bar> \<le> 2 ^ 53" by simp
  then show ?thesis using False b by (intro js_round_grid [OF r]) simp_all
qed simp

lemma num_exact: "n \<le> 2 ^ 52 \<Longrightarrow> num n = Fin (of_nat n)"
  using halves_exact [of "2 * n"] by (simp add: num_def)

lemma jn_less_irrefl [simp]: "\<not> jn_less x x"
  by (cases x) auto

lemma ranks_le: "below_count c h + tie_count c h \<le> length h"
proof -
  have "below_count c h + tie_count c h = length (filter (\<lambda>x. jn_less x c \<or> x \<noteq> NaN \<and> x = c) h)"
    unfolding below_count_def tie_count_def by (induction h) auto
  then show ?thesis by simp
qed

text \<open>The percentile is the double nearest to the midrank and lies in the unit interval.\<close>

theorem percentile_midrank:
  assumes "history \<noteq> []" "length history \<le> 2 ^ 51"
  shows "percentile c history = js_round ((of_nat (below_count c history) + of_nat (tie_count c history) / 2) / of_nat (length history)) \<and>
    (\<exists>p. percentile c history = Fin p \<and> 0 \<le> p \<and> p \<le> 1)"
proof -
  let ?b = "below_count c history" and ?t = "tie_count c history" and ?n = "length history"
  have le: "?b + ?t \<le> ?n" by (rule ranks_le)
  have n: "num ?b = Fin (of_nat ?b)" "num ?t = Fin (of_nat ?t)" "num ?n = Fin (of_nat ?n)" "0 < ?n"
    using le assms by (auto intro!: num_exact)
  have h: "js_lit (1 / 2) = Fin (1 / 2)" using halves_exact [of 1] by (simp add: js_lit_def)
  have t: "js_round (of_nat ?t / 2) = Fin (of_nat ?t / 2)" by (rule halves_exact) (use le assms(2) in simp)
  have s: "js_round (of_nat ?b + of_nat ?t / 2) = Fin (of_nat ?b + of_nat ?t / 2)"
    using halves_exact [of "2 * ?b + ?t"] le assms(2) by (simp add: add_divide_distrib)
  have p: "percentile c history = js_round ((of_nat ?b + of_nat ?t / 2) / of_nat ?n)"
    using assms(1) n h t s by (simp add: percentile_def)
  define x :: rat where "x = (of_nat ?b + of_nat ?t / 2) / of_nat ?n"
  have "(of_nat ?b :: rat) + of_nat ?t \<le> of_nat ?n" using le by (simp flip: of_nat_add)
  then have x: "0 \<le> x" "x \<le> 1" unfolding x_def using n(4) by (simp_all add: pos_divide_le_eq)
  have "x \<le> 2 ^ 1000" using x(2) by simp
  then obtain y where y: "js_round x = Fin y" using js_round_finite [of x] x(1) by auto
  have one: "js_round 1 = Fin 1" using halves_exact [of 2] by simp
  show ?thesis
    using p y js_round_nonneg [OF y x(1)] js_round_mono [OF x y one] unfolding x_def by simp
qed

text \<open>With five or more observations, the strict minimum of the history passes the lower crowd gate.\<close>

theorem crowd_gate_reachable:
  assumes "c \<in> set history" "c \<noteq> NaN" "distinct history" "\<forall>h \<in> set history. h = c \<or> jn_less c h" "5 \<le> length history" "length history \<le> 2 ^ 51"
  shows "jn_le (percentile c history) (js_lit (1 / 10))"
proof -
  have asym: "\<not> jn_less h c" if "jn_less c h" for h using that by (cases "(c, h)" rule: jn_less.cases) auto
  then have "filter (\<lambda>h. jn_less h c) history = []" using assms(4) by (auto simp: filter_empty_conv)
  then have b: "below_count c history = 0" by (simp add: below_count_def)
  have "tie_count c history = length (filter (\<lambda>h. h = c) history)"
    using assms(2) by (auto simp: tie_count_def intro!: arg_cong [where f = length] filter_cong)
  also have "filter (\<lambda>h. h = c) history = [c]" using assms(1,3) by (induction history) (auto simp: filter_empty_conv)
  finally have t: "tie_count c history = 1" by simp
  have ne: "history \<noteq> []" using assms(1) by auto
  define x :: rat where "x = 1 / 2 / of_nat (length history)"
  have "(5 :: rat) \<le> of_nat (length history)" using assms(5) by (metis of_nat_le_iff of_nat_numeral)
  then have x: "0 \<le> x" "x \<le> 1 / 10" unfolding x_def by (simp_all add: divide_le_eq)
  have p: "percentile c history = js_round x"
    using percentile_midrank [OF ne assms(6), of c] b t by (simp add: x_def)
  obtain y where y: "percentile c history = Fin y" using percentile_midrank [OF ne assms(6)] by blast
  have "(1 / 10 :: rat) \<le> 2 ^ 1000" by simp
  then obtain z where z: "js_round (1 / 10) = Fin z" using js_round_finite [of "1 / 10"] by auto
  have "y \<le> z" by (rule js_round_mono [OF x y [unfolded p] z])
  then show ?thesis using y z by (simp add: js_lit_def jn_le_def)
qed


section \<open>Properties of the exits\<close>

text \<open>Rounding a number between zero and a double stays between them.\<close>

lemma js_round_between:
  assumes "0 \<le> x" "x \<le> r" "js_round r = Fin r" "r \<le> 2 ^ 1000"
  shows "\<exists>y. js_round x = Fin y \<and> 0 \<le> y \<and> y \<le> r \<and> js_round y = Fin y \<and> \<bar>y - x\<bar> \<le> r / 2 ^ 53 + 1 / 2 ^ 1075"
proof -
  obtain y where y: "js_round x = Fin y" using js_round_finite [of x] assms by auto
  have "\<bar>y - x\<bar> \<le> x / 2 ^ 53 + 1 / 2 ^ 1075" using js_round_error_abs [OF y] assms(1) by simp
  also have "\<dots> \<le> r / 2 ^ 53 + 1 / 2 ^ 1075" using assms(2) by (simp add: divide_right_mono)
  finally show ?thesis
    using y js_round_nonneg [OF y assms(1)] js_round_mono [OF assms(1,2) y assms(3)] js_round_idem [OF y] by blast
qed

definition position_ok :: "rat \<Rightarrow> managed_position \<Rightarrow> bool" where
  "position_ok n pos \<longleftrightarrow> string_to_number (mp_quantity pos) = Fin n \<and> 0 \<le> n \<and> n \<le> 2 ^ 1000 \<and> js_round n = Fin n \<and>
     (\<exists>r. mp_remaining pos = Fin r \<and> 0 \<le> r \<and> r \<le> n \<and> js_round r = Fin r)"

definition done_count :: "managed_position \<Rightarrow> nat" where
  "done_count pos = (if mp_tp1Done pos then 1 else 0) + (if mp_tp2Done pos then 1 else 0)"

fun fin_val :: "js_number \<Rightarrow> rat" where
  "fin_val (Fin x) = x"
| "fin_val n = 0"

text \<open>What one decision takes: \<open>slack\<close> is the error of one subtraction.\<close>

definition exit_slack :: "rat \<Rightarrow> rat" where
  "exit_slack n = n / 2 ^ 53 + 1 / 2 ^ 1075"

lemma exit_decision_shape:
  assumes "nextExitAction price now profile pos = Some d"
  shows "(xd_terminal d \<and> xd_quantity d = mp_remaining pos \<and> xd_reason d \<notin> {ExTp1, ExTp2}) \<or>
    (\<not> xd_terminal d \<and> (\<exists>c \<in> {3 / 10, 4 / 10}. xd_quantity d = jn_min (jn_mul (string_to_number (mp_quantity pos)) (js_lit c)) (mp_remaining pos)) \<and>
       (xd_reason d = ExTp1 \<and> \<not> mp_tp1Done pos \<or> xd_reason d = ExTp2 \<and> \<not> mp_tp2Done pos))"
  using assms unfolding nextExitAction_def Let_def by (auto split: if_splits)

lemma fraction_nonneg:
  assumes "0 \<le> n" "0 \<le> c" "c \<le> 1" "n \<le> 2 ^ 1000" "js_round n = Fin n"
  shows "\<exists>a. jn_mul (Fin n) (js_lit c) = Fin a \<and> 0 \<le> a"
proof -
  have one: "js_round (1 :: rat) = Fin 1" using halves_exact [of 2] by simp
  obtain l where l: "js_round c = Fin l" "0 \<le> l" "l \<le> 1" using js_round_between [OF assms(2,3) one] by auto
  have "n * l \<le> n * 1" by (rule mult_left_mono [OF l(3) assms(1)])
  then obtain a where "js_round (n * l) = Fin a" "0 \<le> a"
    using js_round_between [of "n * l" n] assms l(2) by auto
  then show ?thesis using l(1) by (simp add: js_lit_def)
qed

lemma exit_step:
  assumes "position_ok n pos" "nextExitAction price now profile pos = Some d"
  shows "position_ok n (applyExit d pos) \<and> 0 \<le> fin_val (xd_quantity d) \<and> fin_val (xd_quantity d) \<le> fin_val (mp_remaining pos) \<and>
    xd_quantity d = Fin (fin_val (xd_quantity d)) \<and> (xd_terminal d \<longrightarrow> mp_remaining (applyExit d pos) = Fin 0) \<and>
    fin_val (xd_quantity d) + fin_val (mp_remaining (applyExit d pos)) + of_nat (done_count pos) * exit_slack n
      \<le> fin_val (mp_remaining pos) + of_nat (done_count (applyExit d pos)) * exit_slack n"
proof -
  obtain r where ok: "string_to_number (mp_quantity pos) = Fin n" "0 \<le> n" "n \<le> 2 ^ 1000" "js_round n = Fin n"
      "mp_remaining pos = Fin r" "0 \<le> r" "r \<le> n" "js_round r = Fin r"
    using assms(1) by (auto simp: position_ok_def)
  have slack: "0 \<le> exit_slack n" using ok(2) by (simp add: exit_slack_def)
  have lit: "jn_le (Fin 0) (js_lit (1 / 10 ^ 12))"
  proof -
    have "\<bar>1 / 10 ^ 12 :: rat\<bar> \<le> 2 ^ 1000" by simp
    then obtain e where "js_round (1 / 10 ^ 12) = Fin e" using js_round_finite by blast
    then show ?thesis using js_round_nonneg [of "1 / 10 ^ 12" e] by (simp add: js_lit_def jn_le_def)
  qed
  obtain q where q: "xd_quantity d = Fin q" "0 \<le> q" "q \<le> r"
  proof (cases "xd_terminal d")
    case True
    then have "xd_quantity d = Fin r" using exit_decision_shape [OF assms(2)] ok(5) by auto
    then show ?thesis using that ok(6) by simp
  next
    case False
    then obtain c where c: "c \<in> {3 / 10, 4 / 10 :: rat}" "xd_quantity d = jn_min (jn_mul (Fin n) (js_lit c)) (Fin r)"
      using exit_decision_shape [OF assms(2)] unfolding ok(1,5) by blast
    then have "0 \<le> c" "c \<le> 1" by auto
    then obtain a where "jn_mul (Fin n) (js_lit c) = Fin a" "0 \<le> a" using fraction_nonneg [OF ok(2) _ _ ok(3,4)] by blast
    then show ?thesis using that c(2) ok(6) by (auto simp: jn_min_def split: if_splits)
  qed
  obtain y where y: "js_round (r - q) = Fin y" "0 \<le> y" "y \<le> r" "js_round y = Fin y" "\<bar>y - (r - q)\<bar> \<le> r / 2 ^ 53 + 1 / 2 ^ 1075"
    using js_round_between [of "r - q" r] q ok(3,6-8) by auto
  have rem: "mp_remaining (applyExit d pos) = (if jn_le (Fin y) (js_lit (1 / 10 ^ 12)) then Fin 0 else Fin y)"
    using q(1) ok(5) y(1) by (simp add: applyExit_def jn_sub_def Let_def)
  have rem_le: "fin_val (mp_remaining (applyExit d pos)) \<le> y" using y(2) by (simp add: rem)
  have q0: "mp_quantity (applyExit d pos) = mp_quantity pos" by (simp add: applyExit_def Let_def)
  have pos: "position_ok n (applyExit d pos)" using rem y ok q0 by (auto simp: position_ok_def)
  show ?thesis
  proof (cases "xd_terminal d")
    case True
    then have "q = r" "xd_reason d \<notin> {ExTp1, ExTp2}" using exit_decision_shape [OF assms(2)] ok(5) q(1) by auto
    then have z: "mp_remaining (applyExit d pos) = Fin 0" "done_count (applyExit d pos) = done_count pos"
      using y(1) rem lit by (auto simp: done_count_def applyExit_def Let_def)
    show ?thesis using pos q ok(5) \<open>q = r\<close> z by simp
  next
    case False
    then have "done_count (applyExit d pos) = Suc (done_count pos)"
      using exit_decision_shape [OF assms(2)] by (auto simp: done_count_def applyExit_def Let_def)
    moreover have "r / 2 ^ 53 \<le> n / 2 ^ 53" using ok(7) by (rule divide_right_mono) simp
    then have "q + y \<le> r + exit_slack n" using y(5) unfolding exit_slack_def abs_le_iff by linarith
    ultimately show ?thesis using False pos q ok(5) rem_le by (simp add: algebra_simps)
  qed
qed

text \<open>A session loop: at each observed price and time the extremum is folded in and, if an exit is due
  and fills, it is booked.\<close>

definition exit_tick :: "agent_profile \<Rightarrow> js_number \<times> js_number \<Rightarrow> managed_position \<Rightarrow> managed_position \<times> exit_decision list" where
  "exit_tick profile tick pos =
     (let p = updateHighWater (fst tick) pos
      in case nextExitAction (fst tick) (snd tick) profile p of None \<Rightarrow> (p, []) | Some d \<Rightarrow> (applyExit d p, [d]))"

fun run_exits :: "agent_profile \<Rightarrow> (js_number \<times> js_number) list \<Rightarrow> managed_position \<Rightarrow> managed_position \<times> exit_decision list" where
  "run_exits profile [] pos = (pos, [])"
| "run_exits profile (t # ts) pos =
     (case exit_tick profile t pos of (p, ds) \<Rightarrow> case run_exits profile ts p of (p', es) \<Rightarrow> (p', ds @ es))"

definition closed_total :: "exit_decision list \<Rightarrow> rat" where
  "closed_total ds = sum_list (map (\<lambda>d. fin_val (xd_quantity d)) ds)"

lemma high_water_frame [simp]:
  "position_ok n (updateHighWater p pos) = position_ok n pos" "done_count (updateHighWater p pos) = done_count pos"
  "mp_remaining (updateHighWater p pos) = mp_remaining pos"
  by (simp_all add: updateHighWater_def position_ok_def done_count_def)

lemma run_exits_bound:
  assumes "position_ok n pos" "run_exits profile ticks pos = (pos', ds)"
  shows "position_ok n pos' \<and> (\<forall>d \<in> set ds. \<exists>q. xd_quantity d = Fin q \<and> 0 \<le> q \<and> q \<le> fin_val (mp_remaining pos)) \<and>
    fin_val (mp_remaining pos') \<le> fin_val (mp_remaining pos) \<and>
    closed_total ds + fin_val (mp_remaining pos') + of_nat (done_count pos) * exit_slack n
      \<le> fin_val (mp_remaining pos) + of_nat (done_count pos') * exit_slack n"
  using assms
proof (induction ticks arbitrary: pos ds)
  case Nil
  then show ?case by (simp add: closed_total_def)
next
  case (Cons t ts)
  obtain p d1 d2 where steps: "exit_tick profile t pos = (p, d1)" "run_exits profile ts p = (pos', d2)" "ds = d1 @ d2"
    using Cons.prems(2) by (auto split: prod.splits)
  show ?case
  proof (cases "nextExitAction (fst t) (snd t) profile (updateHighWater (fst t) pos)")
    case None
    then have p: "p = updateHighWater (fst t) pos" "d1 = []" using steps(1) by (simp_all add: exit_tick_def)
    then show ?thesis using Cons.IH [of p d2] Cons.prems(1) steps(2,3) by simp
  next
    case (Some d)
    then have p: "p = applyExit d (updateHighWater (fst t) pos)" "d1 = [d]" using steps(1) by (simp_all add: exit_tick_def)
    have ok: "position_ok n (updateHighWater (fst t) pos)" using Cons.prems(1) by simp
    note e = exit_step [OF ok Some, folded p(1), simplified]
    have le: "fin_val (mp_remaining p) \<le> fin_val (mp_remaining pos)"
    proof -
      obtain r where "mp_remaining pos = Fin r" "0 \<le> r" "r \<le> n" "js_round r = Fin r" "n \<le> 2 ^ 1000"
        using Cons.prems(1) by (auto simp: position_ok_def)
      moreover obtain q where "xd_quantity d = Fin q" "0 \<le> q" "q \<le> r" using e \<open>mp_remaining pos = Fin r\<close> by auto
      moreover obtain y where "js_round (r - q) = Fin y" "0 \<le> y" "y \<le> r" using js_round_between [of "r - q" r] calculation by auto
      ultimately show ?thesis by (auto simp: p(1) applyExit_def jn_sub_def Let_def)
    qed
    have ih: "position_ok n pos' \<and> (\<forall>x \<in> set d2. \<exists>q. xd_quantity x = Fin q \<and> 0 \<le> q \<and> q \<le> fin_val (mp_remaining p)) \<and>
        fin_val (mp_remaining pos') \<le> fin_val (mp_remaining p) \<and>
        closed_total d2 + fin_val (mp_remaining pos') + of_nat (done_count p) * exit_slack n
          \<le> fin_val (mp_remaining p) + of_nat (done_count pos') * exit_slack n"
      by (rule Cons.IH) (use e steps(2) in auto)
    have ct: "closed_total ds = fin_val (xd_quantity d) + closed_total d2" by (simp add: steps(3) p(2) closed_total_def)
    have dq: "\<exists>q. xd_quantity d = Fin q \<and> 0 \<le> q \<and> q \<le> fin_val (mp_remaining pos)" using e by blast
    have all: "\<forall>x \<in> set ds. \<exists>q. xd_quantity x = Fin q \<and> 0 \<le> q \<and> q \<le> fin_val (mp_remaining pos)"
      using dq ih le unfolding steps(3) p(2) by fastforce
    show ?thesis using ih e le all ct by auto
  qed
qed


text \<open>C27: whatever prices and times a managed position sees, the exits it books never close more than the
  entry, up to two roundings of a double, each at most what remained; a terminal exit leaves exactly
  nothing, so no sequence of take-profits and stops flips the position.\<close>

theorem exits_never_overclose:
  assumes "string_to_number (mp_quantity pos) = Fin n" "mp_remaining pos = Fin n" "0 \<le> n" "n \<le> 2 ^ 1000" "js_round n = Fin n"
    "\<not> mp_tp1Done pos" "\<not> mp_tp2Done pos" "run_exits profile ticks pos = (pos', ds)"
  shows "closed_total ds \<le> n + 2 * (n / 2 ^ 53 + 1 / 2 ^ 1075) \<and>
    (\<forall>d \<in> set ds. \<exists>q. xd_quantity d = Fin q \<and> 0 \<le> q \<and> q \<le> n) \<and>
    (\<exists>r. mp_remaining pos' = Fin r \<and> 0 \<le> r \<and> r \<le> n) \<and>
    (\<forall>price now d. nextExitAction price now profile pos' = Some d \<longrightarrow> xd_terminal d \<longrightarrow> mp_remaining (applyExit d pos') = Fin 0)"
proof -
  have ok: "position_ok n pos" using assms(1-5) by (simp add: position_ok_def)
  have c0: "done_count pos = 0" using assms(6,7) by (simp add: done_count_def)
  note b = run_exits_bound [OF ok assms(8), unfolded assms(2) c0, simplified]
  have p: "position_ok n pos'" using b by blast
  then obtain r where r: "mp_remaining pos' = Fin r" "0 \<le> r" "r \<le> n" by (auto simp: position_ok_def)
  have slack: "0 \<le> exit_slack n" using assms(3) by (simp add: exit_slack_def)
  have "of_nat (done_count pos') * exit_slack n \<le> 2 * exit_slack n"
    by (rule mult_right_mono [OF _ slack]) (simp add: done_count_def)
  then have "closed_total ds \<le> n + 2 * exit_slack n" using b r by auto
  moreover have "mp_remaining (applyExit d pos') = Fin 0" if "nextExitAction price now profile pos' = Some d" "xd_terminal d" for price now d
    using exit_step [OF p that(1)] that(2) by blast
  ultimately show ?thesis using b r unfolding exit_slack_def by blast
qed

text \<open>A long of 1 that meets both targets and then the trailing stop: 0.4, 0.3 and the rest.\<close>

definition exit_example :: managed_position where
  "exit_example = \<lparr>mp_symbol = ''BTCUSDT'', mp_side = LONG, mp_quantity = ''1'', mp_remaining = Fin 1, mp_openedAt = Fin 0,
     mp_stopPrice = Fin 90, mp_tp1Price = Fin 110, mp_tp2Price = Fin 120, mp_tp1Done = False, mp_tp2Done = False, mp_highWater = Fin 100\<rparr>"

lemma exits_never_overclose_witness:
  "closed_total (snd (run_exits DEFAULT_PROFILE [(Fin 125, Fin 1), (Fin 125, Fin 2), (Fin 123, Fin 3)] exit_example))
     \<le> 1 + 2 * (1 / 2 ^ 53 + 1 / 2 ^ 1075) \<and>
   length (snd (run_exits DEFAULT_PROFILE [(Fin 125, Fin 1), (Fin 125, Fin 2), (Fin 123, Fin 3)] exit_example)) = 3"
proof -
  let ?run = "run_exits DEFAULT_PROFILE [(Fin 125, Fin 1), (Fin 125, Fin 2), (Fin 123, Fin 3)] exit_example"
  have h: "string_to_number (mp_quantity exit_example) = Fin 1" "js_round (1 :: rat) = Fin 1" by code_simp+
  have "closed_total (snd ?run) \<le> 1 + 2 * (1 / 2 ^ 53 + 1 / 2 ^ 1075)"
    using exits_never_overclose [OF h(1) _ _ _ h(2), of DEFAULT_PROFILE "[(Fin 125, Fin 1), (Fin 125, Fin 2), (Fin 123, Fin 3)]" "fst ?run" "snd ?run"]
    by (simp add: exit_example_def del: run_exits.simps)
  moreover have "length (snd ?run) = 3" by code_simp
  ultimately show ?thesis by blast
qed

section \<open>Properties of the classifier and the scorer\<close>

text \<open>A trend is only reported with averages in order, volatility between the 40th and the 85th
  percentile, open interest not falling by more than one percent and funding within two deviations; a
  range only with quiet open interest.\<close>

theorem classifier_evidence:
  shows "case classifyFromInputs i of
      TREND_UP \<Rightarrow> jn_less (ri_e50 i) (ri_e20 i) \<and> jn_le (js_lit (4 / 10)) (ri_atrPct i) \<and> \<not> jn_le (js_lit (85 / 100)) (ri_atrPct i) \<and>
        jn_le (js_lit (- 1 / 100)) (ri_oiSlope i) \<and> jn_less (ri_fundingZ i) (Fin 2) \<and> jn_less (Fin (- 2)) (ri_fundingZ i)
    | TREND_DOWN \<Rightarrow> jn_less (ri_e20 i) (ri_e50 i) \<and> jn_le (js_lit (4 / 10)) (ri_atrPct i) \<and> \<not> jn_le (js_lit (85 / 100)) (ri_atrPct i) \<and>
        jn_le (js_lit (- 1 / 100)) (ri_oiSlope i) \<and> jn_less (ri_fundingZ i) (Fin 2) \<and> jn_less (Fin (- 2)) (ri_fundingZ i)
    | RANGE \<Rightarrow> jn_le (ri_atrPct i) (js_lit (6 / 10)) \<and> \<not> jn_le (ri_atrPct i) (js_lit (2 / 10)) \<and> jn_le (jn_abs (ri_oiSlope i)) (js_lit (2 / 100))
    | SQUEEZE \<Rightarrow> jn_le (ri_atrPct i) (js_lit (2 / 10)) \<and> \<not> jn_le (Fin 2) (jn_abs (ri_fundingZ i))
    | CHAOS \<Rightarrow> True"
proof -
  have "jn_less z (Fin 2) \<and> jn_less (Fin (- 2)) z" if "\<not> jn_le (Fin 2) (jn_abs z)" "z \<noteq> NaN" for z
    using that by (cases z) (auto simp: jn_le_def jn_abs_def)
  then have z: "jn_less z (Fin 2) \<and> jn_less (Fin (- 2)) z" if "\<not> jn_le (Fin 2) (jn_abs z)" "jn_less z (Fin 2) \<or> jn_less (Fin (- 2)) z" for z
    using that by (cases "z = NaN") auto
  show ?thesis
    using z [of "ri_fundingZ i"] by (simp add: classifyFromInputs_def Let_def) blast
qed

lemma unreadable_rank_is_chaos: "ri_atrPct i = NaN \<Longrightarrow> classifyFromInputs i = CHAOS"
  by (simp add: classifyFromInputs_def jn_le_def Let_def)

text \<open>An unreadable funding score is not refused.\<close>

lemma unreadable_funding_is_range:
  "classifyFromInputs \<lparr>ri_e20 = Fin 1, ri_e50 = Fin 1, ri_atrPct = Fin (1 / 2), ri_fundingZ = NaN, ri_oiSlope = Fin 0\<rparr> = RANGE"
  by code_simp

text \<open>A signal scores at most 95, at most 85 when it is vetoed, follows the trend when there is one
  and the crowd's extreme otherwise, and its stop is within 1.2 average ranges of the entry.\<close>

theorem signal_within_matrix:
  assumes "scoreFromInputs i = Some s"
  shows "sg_score s \<le> 95 \<and> (sg_vetoes s \<noteq> [] \<longrightarrow> sg_score s \<le> 85) \<and> 5 dvd sg_score s \<and>
    (si_regime i = TREND_UP \<longrightarrow> sg_direction s = LONG) \<and> (si_regime i = TREND_DOWN \<longrightarrow> sg_direction s = SHORT) \<and>
    (si_regime i \<notin> {TREND_UP, TREND_DOWN} \<longrightarrow>
       (if sg_direction s = SHORT then jn_le (js_lit (9 / 10)) (si_posPct i) else jn_le (si_posPct i) (js_lit (1 / 10)))) \<and>
    \<not> jn_less (jn_mul (js_lit (12 / 10)) (si_a5 i)) (jn_abs (jn_sub (sg_entryHint s) (sg_stopHint s)))"
proof -
  obtain d where d: "signal_dir i = Some d" using assms by (auto simp: scoreFromInputs_def split: option.splits)
  have s: "sg_direction s = d" "sg_score s = signal_score (d = LONG) i" "sg_vetoes s = signal_vetoes (d = LONG) i"
      "\<not> jn_less (jn_mul (js_lit (12 / 10)) (si_a5 i)) (jn_abs (jn_sub (sg_entryHint s) (sg_stopHint s)))"
    using assms d by (auto simp: scoreFromInputs_def Let_def split: if_splits)
  have "signal_score l i \<le> 95 \<and> (\<not> book_for l i \<longrightarrow> signal_score l i \<le> 85) \<and> 5 dvd signal_score l i" for l
    unfolding signal_score_def by (auto intro!: dvd_add)
  moreover have "signal_vetoes l i \<noteq> [] \<longrightarrow> \<not> book_for l i" for l by (simp add: signal_vetoes_def)
  ultimately show ?thesis
    using d s by (auto simp: signal_dir_def split: regime.splits if_splits)
qed

text \<open>A veto does not zero the score, and an extreme of the crowd gives a continuation outside a range.\<close>

lemma vetoed_signal_keeps_score:
  "map_option (\<lambda>s. (sg_score s, sg_vetoes s, sg_setup s)) (scoreFromInputs
     \<lparr>si_regime = CHAOS, si_close = Fin 100, si_a5 = Fin 2, si_e20up = True, si_vwap = Fin 99, si_imbalance = Fin (1 / 2), si_taker = Fin 2,
      si_oiRise = True, si_avgFunding = Fin 0, si_posPct = Fin 0, si_lastLow = Fin 99, si_lastHigh = Fin 101\<rparr>)
   = Some (85, [''BOOK_IMBALANCE_OPPOSITE''], CONTINUATION)"
  by code_simp

end
