(* ===== verification/Agent_Execution.thy ===== *)
theory Agent_Execution
  imports Agent_Signals Futures_Ops Risk_Gateway
begin

text \<open>
  \<open>src/agent/execute.ts\<close>, \<open>scanner.ts\<close>, \<open>reconcile.ts\<close> and the watchlist parts of \<open>config.ts\<close>: entering a
  position with its protective package, flattening, the scanner's gates and the snapshot of open
  exposure. The endpoints and the execution gateway are fields of an environment over a world of any
  type; sizing, closing and the symbol rules are the definitions of \<open>Futures_Ops\<close>. A step returns the
  thrown error or its value, and the state: the world, the two rule caches and the calls that changed
  the account, oldest first, each with whether it was accepted. Lemmas: what a returned entry has
  placed, which failures leave a position standing, that a tripped breaker stops the flattening too,
  and what the watchlist and its fence let through.
\<close>

section \<open>Ticks and steps\<close>

record tick_rules =
  tk_tickSize :: js_number
  tk_tickDecimals :: nat
  tk_stepSize :: js_number
  tk_stepDecimals :: nat

definition decimalsOf :: "string \<Rightarrow> nat" where
  "decimalsOf step =
     (let i = length (takeWhile (\<lambda>c. c \<noteq> CHR ''.'') step) in if i = length step then 0 else length step - i - 1)"

definition formatPrice :: "js_number \<Rightarrow> tick_rules \<Rightarrow> string" where
  "formatPrice price rules =
     js_fixed (tk_tickDecimals rules) (jn_mul (jn_round (jn_div price (tk_tickSize rules))) (tk_tickSize rules))"

definition formatQty :: "js_number \<Rightarrow> tick_rules \<Rightarrow> string" where
  "formatQty qty rules =
     js_fixed (tk_stepDecimals rules)
       (jn_mul (jn_floor (jn_add (jn_div qty (tk_stepSize rules)) (js_lit (1 / 10 ^ 9)))) (tk_stepSize rules))"

type_synonym tick_cache = "(string, tick_rules) jsmap"

datatype agent_error = AgThrown string | AgFailed ops_error

definition tick_rules_of :: "string \<Rightarrow> js_value list \<Rightarrow> agent_error + tick_rules" where
  "tick_rules_of key symbols =
     (let entry = (case find (\<lambda>s. js_field ''symbol'' s = JStr key) symbols of None \<Rightarrow> JUndef | Some s \<Rightarrow> s);
          tick = js_field ''tickSize'' (filterOf entry ''PRICE_FILTER''); step = js_field ''stepSize'' (filterOf entry ''LOT_SIZE'')
      in if \<not> js_truthy tick \<or> \<not> js_truthy step then Inl (AgThrown (''no PRICE_FILTER/LOT_SIZE rules for '' @ key))
         else Inr \<lparr>tk_tickSize = js_to_number tick, tk_tickDecimals = decimalsOf (js_str tick),
                   tk_stepSize = js_to_number step, tk_stepDecimals = decimalsOf (js_str step)\<rparr>)"

definition load_rules :: "sdk_error + js_value list \<Rightarrow> string \<Rightarrow> tick_cache \<Rightarrow> (agent_error + tick_rules) \<times> tick_cache" where
  "load_rules exchangeInfo symbol cache =
     (case jm_get (to_upper symbol) cache of
        Some rules \<Rightarrow> (Inr rules, cache)
      | None \<Rightarrow>
          (case exchangeInfo of
             Inl e \<Rightarrow> (Inl (AgFailed (OpsFailed e)), cache)
           | Inr symbols \<Rightarrow>
               (case tick_rules_of (to_upper symbol) symbols of
                  Inl e \<Rightarrow> (Inl e, cache)
                | Inr rules \<Rightarrow> (Inr rules, jm_set (to_upper symbol) rules cache))))"

section \<open>Steps on an account\<close>

record fill =
  fl_executedQuantity :: string
  fl_averagePrice :: "string option"
  fl_clientOrderId :: string

datatype agent_call = Placed order_request bool | Closed string "bool option" | CancelledAll string bool

record 'w agent_state =
  as_world :: 'w
  as_ops :: rules_cache
  as_rules :: tick_cache
  as_calls :: "agent_call list"

text \<open>\<open>ae_assert\<close> is the policy's notional check of a market order, absent without a policy; a paper
  position is its side and quantity; \<open>ae_text\<close> is \<open>String(err)\<close>.\<close>

record 'w agent_env =
  ae_paper :: bool
  ae_load :: "string \<Rightarrow> rules_cache \<Rightarrow> (sdk_error + symbol_rules) \<times> rules_cache"
  ae_mark :: "string \<Rightarrow> sdk_error + js_number"
  ae_exchangeInfo :: "sdk_error + js_value list"
  ae_bookTicker :: "string \<Rightarrow> sdk_error + (js_number \<times> js_number)"
  ae_assert :: "(string \<Rightarrow> string \<Rightarrow> js_number \<Rightarrow> agent_error option) option"
  ae_place :: "order_request \<Rightarrow> 'w \<Rightarrow> (sdk_error + fill) \<times> 'w"
  ae_positionRisk :: "string \<Rightarrow> 'w \<Rightarrow> sdk_error + position_risk list"
  ae_createOrder :: "'w exchange"
  ae_cancelAll :: "string \<Rightarrow> 'w \<Rightarrow> (sdk_error + unit) \<times> 'w"
  ae_paperPosition :: "string \<Rightarrow> 'w \<Rightarrow> (string \<times> js_number) option"
  ae_text :: "agent_error \<Rightarrow> string"

type_synonym ('w, 'a) act = "'w agent_state \<Rightarrow> (agent_error + 'a) \<times> 'w agent_state"

definition retA :: "'a \<Rightarrow> ('w, 'a) act" where
  "retA x s = (Inr x, s)"

definition throwA :: "agent_error \<Rightarrow> ('w, 'a) act" where
  "throwA e s = (Inl e, s)"

definition bindA :: "('w, 'a) act \<Rightarrow> ('a \<Rightarrow> ('w, 'b) act) \<Rightarrow> ('w, 'b) act" where
  "bindA m f s = (case m s of (Inl e, s') \<Rightarrow> (Inl e, s') | (Inr x, s') \<Rightarrow> f x s')"

definition catchA :: "('w, 'a) act \<Rightarrow> (agent_error \<Rightarrow> ('w, 'a) act) \<Rightarrow> ('w, 'a) act" where
  "catchA m h s = (case m s of (Inl e, s') \<Rightarrow> h e s' | (Inr x, s') \<Rightarrow> (Inr x, s'))"

definition placeA :: "'w agent_env \<Rightarrow> order_request \<Rightarrow> ('w, fill) act" where
  "placeA env req s =
     (case ae_place env req (as_world s) of (r, w) \<Rightarrow>
        (case r of Inl e \<Rightarrow> Inl (AgFailed (OpsFailed e)) | Inr x \<Rightarrow> Inr x,
         s\<lparr>as_world := w, as_calls := as_calls s @ [Placed req (okR r \<noteq> None)]\<rparr>))"

definition rulesA :: "'w agent_env \<Rightarrow> string \<Rightarrow> ('w, tick_rules) act" where
  "rulesA env symbol s =
     (case load_rules (ae_exchangeInfo env) symbol (as_rules s) of (r, c) \<Rightarrow> (r, s\<lparr>as_rules := c\<rparr>))"

definition sizeA :: "'w agent_env \<Rightarrow> size_params \<Rightarrow> ('w, position_sizing) act" where
  "sizeA env ps s =
     (case sizePosition (ae_load env (sp_symbol ps)) (ae_mark env) (Inr []) ps (as_ops s) of (r, c) \<Rightarrow>
        (case r of Inl e \<Rightarrow> Inl (AgFailed e) | Inr x \<Rightarrow> Inr x, s\<lparr>as_ops := c\<rparr>))"

text \<open>\<open>ops.closePosition\<close> of the whole position, and \<open>cancelAllOpenOrders\<close>.\<close>

definition closeA :: "'w agent_env \<Rightarrow> string \<Rightarrow> ('w, bool) act" where
  "closeA env symbol s =
     (case closePosition (ae_load env symbol) (\<lambda>x. ae_positionRisk env x (as_world s)) (ae_createOrder env)
             \<lparr>cp_symbol = symbol, cp_positionSide = None, cp_portion = None, cp_dryRun = False\<rparr> (as_ops s) (as_world s) of
        (r, c, w, sent) \<Rightarrow>
          (case r of Inl e \<Rightarrow> Inl (AgFailed e) | Inr out \<Rightarrow> Inr (co_closed out),
           s\<lparr>as_world := w, as_ops := c, as_calls := as_calls s @ [Closed symbol (map_option co_closed (okR r))]\<rparr>))"

definition cancelAllA :: "'w agent_env \<Rightarrow> string \<Rightarrow> ('w, unit) act" where
  "cancelAllA env symbol s =
     (case ae_cancelAll env symbol (as_world s) of (r, w) \<Rightarrow>
        (case r of Inl e \<Rightarrow> Inl (AgFailed (OpsFailed e)) | Inr x \<Rightarrow> Inr x,
         s\<lparr>as_world := w, as_calls := as_calls s @ [CancelledAll symbol (okR r \<noteq> None)]\<rparr>))"

section \<open>Flattening\<close>

definition flatten_request :: "string \<Rightarrow> string \<Rightarrow> string \<Rightarrow> js_number \<Rightarrow> order_request" where
  "flatten_request stamp symbol side qty =
     [(''symbol'', JStr symbol), (''side'', JStr (if side = ''LONG'' then ''SELL'' else ''BUY'')), (''type'', JStr ''MARKET''),
      (''quantity'', JNum qty), (''intentId'', JStr (''flatten-'' @ symbol @ ''-'' @ stamp))]"

definition flatten_symbol :: "'w agent_env \<Rightarrow> string \<Rightarrow> string \<Rightarrow> ('w, unit) act" where
  "flatten_symbol env stamp symbol s =
     (if ae_paper env
      then (case ae_paperPosition env symbol (as_world s) of
              None \<Rightarrow> retA () s
            | Some (side, qty) \<Rightarrow>
                if side \<noteq> ''NONE'' \<and> jn_less (Fin 0) qty
                then bindA (placeA env (flatten_request stamp symbol side qty)) (\<lambda>_. retA ()) s
                else retA () s)
      else bindA (closeA env symbol) (\<lambda>_. cancelAllA env symbol) s)"

fun emergencyFlatten :: "'w agent_env \<Rightarrow> string \<Rightarrow> string list \<Rightarrow> ('w, unit) act" where
  "emergencyFlatten env stamp [] s = retA () s"
| "emergencyFlatten env stamp (x # xs) s = bindA (flatten_symbol env stamp x) (\<lambda>_. emergencyFlatten env stamp xs) s"

section \<open>Entry\<close>

datatype leg_status = LegPlaced | PaperUnsimulated | LegFailed string

record entry_result =
  en_symbol :: string
  en_side :: dir
  en_quantity :: string
  en_entryPrice :: js_number
  en_stopPrice :: js_number
  en_tp1Price :: js_number
  en_tp2Price :: js_number
  en_trailActivation :: js_number
  en_clientOrderId :: string
  en_stopLoss :: leg_status
  en_tp1 :: leg_status
  en_tp2 :: leg_status
  en_trail :: leg_status

definition entry_side :: "dir \<Rightarrow> string" where
  "entry_side d = (if d = LONG then ''BUY'' else ''SELL'')"

definition exit_side :: "dir \<Rightarrow> string" where
  "exit_side d = (if d = LONG then ''SELL'' else ''BUY'')"

definition market_entry :: "string \<Rightarrow> string \<Rightarrow> dir \<Rightarrow> string \<Rightarrow> order_request" where
  "market_entry stamp symbol d qty =
     [(''symbol'', JStr symbol), (''side'', JStr (entry_side d)), (''type'', JStr ''MARKET''), (''quantity'', JStr qty),
      (''intentId'', JStr (''entry-'' @ symbol @ ''-'' @ stamp))]"

definition stop_request :: "string \<Rightarrow> string \<Rightarrow> dir \<Rightarrow> tick_rules \<Rightarrow> js_number \<Rightarrow> order_request" where
  "stop_request stamp symbol d r stop =
     [(''symbol'', JStr symbol), (''side'', JStr (exit_side d)), (''type'', JStr ''STOP_MARKET''), (''stopPrice'', JStr (formatPrice stop r)),
      (''closePosition'', JBool True), (''workingType'', JStr ''MARK_PRICE''), (''intentId'', JStr (''sl-'' @ symbol @ ''-'' @ stamp))]"

definition ladder_request :: "string \<Rightarrow> string \<Rightarrow> string \<Rightarrow> dir \<Rightarrow> tick_rules \<Rightarrow> string \<Rightarrow> js_number \<Rightarrow> order_request" where
  "ladder_request label stamp symbol d r qty price =
     [(''symbol'', JStr symbol), (''side'', JStr (exit_side d)), (''type'', JStr ''LIMIT''), (''quantity'', JStr qty),
      (''price'', JStr (formatPrice price r)), (''timeInForce'', JStr ''GTC''), (''reduceOnly'', JBool True),
      (''intentId'', JStr (label @ ''-'' @ symbol @ ''-'' @ stamp))]"

definition trail_request :: "string \<Rightarrow> string \<Rightarrow> dir \<Rightarrow> tick_rules \<Rightarrow> js_number \<Rightarrow> js_number \<Rightarrow> order_request" where
  "trail_request stamp symbol d r activation callback =
     [(''symbol'', JStr symbol), (''side'', JStr (exit_side d)), (''type'', JStr ''TRAILING_STOP_MARKET''),
      (''activationPrice'', JStr (formatPrice activation r)), (''callbackRate'', JNum callback), (''closePosition'', JBool True),
      (''workingType'', JStr ''MARK_PRICE''), (''intentId'', JStr (''trail-'' @ symbol @ ''-'' @ stamp))]"

definition try_leg :: "'w agent_env \<Rightarrow> order_request \<Rightarrow> ('w, leg_status) act" where
  "try_leg env req =
     (if ae_paper env then retA PaperUnsimulated
      else catchA (bindA (placeA env req) (\<lambda>_. retA LegPlaced)) (\<lambda>e. retA (LegFailed (''FAILED: '' @ ae_text env e))))"

definition ladder_leg :: "'w agent_env \<Rightarrow> string \<Rightarrow> string \<Rightarrow> string \<Rightarrow> dir \<Rightarrow> tick_rules \<Rightarrow> js_number \<Rightarrow> js_number \<Rightarrow> js_number
    \<Rightarrow> ('w, leg_status) act" where
  "ladder_leg env label stamp symbol d r nQty fraction price =
     (let legQty = formatQty (jn_mul nQty fraction) r
      in if \<not> ae_paper env \<and> jn_le (string_to_number legQty) (Fin 0)
         then retA (LegFailed ''FAILED: ladder quantity rounds to zero'')
         else try_leg env (ladder_request label stamp symbol d r legQty price))"

text \<open>The hard stop: its failure flattens the position and is thrown.\<close>

definition hard_stop :: "'w agent_env \<Rightarrow> string \<Rightarrow> string \<Rightarrow> dir \<Rightarrow> tick_rules \<Rightarrow> js_number \<Rightarrow> ('w, leg_status) act" where
  "hard_stop env stamp symbol d r stop =
     (if ae_paper env then retA PaperUnsimulated
      else catchA (bindA (placeA env (stop_request stamp symbol d r stop)) (\<lambda>_. retA LegPlaced))
        (\<lambda>e. bindA (emergencyFlatten env stamp [symbol])
           (\<lambda>_. throwA (AgThrown (''hard stop rejected for '' @ symbol @ ''; position flattened. cause: '' @ ae_text env e)))))"

definition level :: "dir \<Rightarrow> js_number \<Rightarrow> js_number \<Rightarrow> js_number" where
  "level d entry gap = (if d = LONG then jn_add entry gap else jn_sub entry gap)"

definition protect :: "'w agent_env \<Rightarrow> agent_profile \<Rightarrow> string \<Rightarrow> string \<Rightarrow> signal \<Rightarrow> string \<Rightarrow> fill \<Rightarrow> js_number \<Rightarrow> ('w, entry_result) act" where
  "protect env profile stamp symbol sig qty entry entryPrice =
     bindA (rulesA env symbol) (\<lambda>r.
       let d = sg_direction sig; risk = jn_abs (jn_sub entryPrice (sg_stopHint sig));
           tp1Price = level d entryPrice risk; tp2Price = level d entryPrice (jn_mul (Fin 2) risk);
           activation = level d entryPrice (jn_mul (js_lit (25 / 10)) risk); nQty = string_to_number qty
       in if \<not> jn_less (Fin 0) risk
          then bindA (emergencyFlatten env stamp [symbol])
            (\<lambda>_. throwA (AgThrown (''zero-risk geometry on '' @ symbol @ '': entry '' @ js_num_str entryPrice @ '', stop '' @ js_num_str (sg_stopHint sig))))
          else bindA (hard_stop env stamp symbol d r (sg_stopHint sig)) (\<lambda>stopLoss.
            bindA (ladder_leg env ''tp1'' stamp symbol d r nQty (js_lit (4 / 10)) tp1Price) (\<lambda>tp1.
            bindA (ladder_leg env ''tp2'' stamp symbol d r nQty (js_lit (3 / 10)) tp2Price) (\<lambda>tp2.
            bindA (try_leg env (trail_request stamp symbol d r activation (ag_trailCallbackPct profile))) (\<lambda>trail.
              retA \<lparr>en_symbol = symbol, en_side = d, en_quantity = qty, en_entryPrice = entryPrice, en_stopPrice = sg_stopHint sig,
                    en_tp1Price = tp1Price, en_tp2Price = tp2Price, en_trailActivation = activation,
                    en_clientOrderId = fl_clientOrderId entry, en_stopLoss = stopLoss, en_tp1 = tp1, en_tp2 = tp2, en_trail = trail\<rparr>)))))"

definition entry_price :: "fill \<Rightarrow> js_number \<Rightarrow> js_number" where
  "entry_price entry hint =
     (case fl_averagePrice entry of
        None \<Rightarrow> hint
      | Some p \<Rightarrow> if jn_less (Fin 0) (string_to_number (fl_executedQuantity entry)) \<and> jn_less (Fin 0) (string_to_number p)
                  then string_to_number p else hint)"

text \<open>The policy's check of the price-less market order against the worse side of the book.\<close>

definition validate_notional :: "'w agent_env \<Rightarrow> string \<Rightarrow> string \<Rightarrow> ('w, unit) act" where
  "validate_notional env symbol qty =
     (case ae_assert env of
        None \<Rightarrow> retA ()
      | Some chk \<Rightarrow>
          (case ae_bookTicker env symbol of
             Inl e \<Rightarrow> throwA (AgFailed (OpsFailed e))
           | Inr (bid, ask) \<Rightarrow> (case chk symbol qty (jn_max bid ask) of None \<Rightarrow> retA () | Some e \<Rightarrow> throwA e)))"

definition entry_params :: "agent_profile \<Rightarrow> string \<Rightarrow> signal \<Rightarrow> js_number \<Rightarrow> size_params" where
  "entry_params profile symbol sig equity =
     (let pct = (if 85 \<le> sg_score sig then ag_riskPerTradePctHighConviction profile else ag_riskPerTradePct profile)
      in \<lparr>sp_symbol = symbol, sp_side = entry_side (sg_direction sig), sp_stopPrice = sg_stopHint sig, sp_entryPrice = None,
          sp_riskAmount = Some (jn_div (jn_mul equity pct) (Fin 100)), sp_riskPct = None,
          sp_leverage = Some (ag_maxLeverage profile), sp_marketOrder = True\<rparr>)"

definition executeEntry :: "'w agent_env \<Rightarrow> agent_profile \<Rightarrow> string \<Rightarrow> string \<Rightarrow> signal \<Rightarrow> js_number \<Rightarrow> ('w, entry_result option) act" where
  "executeEntry env profile stamp symbol sig equity =
     (if sg_vetoes sig \<noteq> [] then retA None
      else bindA (sizeA env (entry_params profile symbol sig equity)) (\<lambda>sizing.
        if \<not> sz_ok sizing \<or> jn_le (string_to_number (sz_quantityStr sizing)) (Fin 0) then retA None
        else bindA (validate_notional env symbol (sz_quantityStr sizing)) (\<lambda>_.
          bindA (placeA env (market_entry stamp symbol (sg_direction sig) (sz_quantityStr sizing))) (\<lambda>entry.
            bindA (protect env profile stamp symbol sig (sz_quantityStr sizing) entry (entry_price entry (sz_entryPrice sizing)))
              (\<lambda>res. retA (Some res))))))"

definition toManagedPosition :: "js_number \<Rightarrow> entry_result \<Rightarrow> managed_position" where
  "toManagedPosition now res =
     \<lparr>mp_symbol = en_symbol res, mp_side = en_side res, mp_quantity = en_quantity res,
      mp_remaining = string_to_number (en_quantity res), mp_openedAt = now, mp_stopPrice = en_stopPrice res,
      mp_tp1Price = en_tp1Price res, mp_tp2Price = en_tp2Price res, mp_tp1Done = False, mp_tp2Done = False,
      mp_highWater = en_entryPrice res\<rparr>"


section \<open>Session helpers\<close>

text \<open>Leverage and the deadman switch are set on the live exchange only; \<open>refreshDeadman\<close> stops at the
  first symbol that is refused.\<close>

definition applyLeverage :: "(string \<Rightarrow> js_number \<Rightarrow> 'w \<Rightarrow> (sdk_error + unit) \<times> 'w) \<Rightarrow> string \<Rightarrow> js_number \<Rightarrow> bool \<Rightarrow> 'w
    \<Rightarrow> (sdk_error + unit) \<times> 'w" where
  "applyLeverage setLeverage symbol leverage paper w = (if paper then (Inr (), w) else setLeverage symbol leverage w)"

fun deadman_all :: "(string \<Rightarrow> 'w \<Rightarrow> (sdk_error + unit) \<times> 'w) \<Rightarrow> string list \<Rightarrow> 'w \<Rightarrow> (sdk_error + unit) \<times> 'w" where
  "deadman_all countdown [] w = (Inr (), w)"
| "deadman_all countdown (s # ss) w =
     (case countdown s w of (Inl e, w') \<Rightarrow> (Inl e, w') | (Inr _, w') \<Rightarrow> deadman_all countdown ss w')"

definition refreshDeadman :: "(string \<Rightarrow> js_number \<Rightarrow> 'w \<Rightarrow> (sdk_error + unit) \<times> 'w) \<Rightarrow> string list \<Rightarrow> agent_profile \<Rightarrow> bool \<Rightarrow> 'w
    \<Rightarrow> (sdk_error + unit) \<times> 'w" where
  "refreshDeadman setCountdown symbols profile paper w =
     (if paper then (Inr (), w) else deadman_all (\<lambda>s. setCountdown s (ag_deadmanMs profile)) symbols w)"

text \<open>Balances are an asset and its balance.\<close>

definition currentEquity :: "js_number option \<Rightarrow> sdk_error + (string \<times> js_number) list \<Rightarrow> sdk_error + js_number" where
  "currentEquity paperBalance balances =
     (case paperBalance of
        Some b \<Rightarrow> Inr b
      | None \<Rightarrow> mapR (\<lambda>bs. case find (\<lambda>b. fst b = ''USDT'') bs of
            Some b \<Rightarrow> snd b | None \<Rightarrow> if bs = [] then Fin 0 else snd (last bs)) balances)"

section \<open>Clusters and the fence\<close>

definition CLUSTERS :: "(string \<times> string list) list" where
  "CLUSTERS =
     [(''BTC-BETA'', [''BTCUSDT'', ''ETHUSDT'', ''BNBUSDT'']),
      (''L1'', [''SOLUSDT'', ''AVAXUSDT'', ''SUIUSDT'', ''APTUSDT'', ''NEARUSDT'']),
      (''MEME'', [''DOGEUSDT'', ''SHIBUSDT'', ''PEPEUSDT'', ''WIFUSDT'']),
      (''AI'', [''TAOUSDT'', ''FETUSDT'', ''RNDRUSDT'', ''ARKMUSDT''])]"

definition clusterOf :: "string \<Rightarrow> string" where
  "clusterOf symbol = (case find (\<lambda>c. symbol \<in> set (snd c)) CLUSTERS of None \<Rightarrow> ''OTHER'' | Some c \<Rightarrow> fst c)"

definition safetyOptions :: "agent_profile \<Rightarrow> string list \<Rightarrow> policy_options \<times> risk_options" where
  "safetyOptions profile watchlist =
     (\<lparr>po_dryRun = False, po_readOnly = False, po_allowedSymbols = Some watchlist, po_maxNotional = Some (Fin 25000),
       po_referenceTtl = None, po_allowWithdrawals = Some False, po_allowTransfers = None, po_blockedPaths = []\<rparr>,
      \<lparr>ko_maxLeverage = Some (ag_maxLeverage profile), ko_maxOpenNotional = Some (Fin 24000), ko_maxPositionNotional = Some (Fin 30000),
       ko_maxDailyLoss = Some (Fin 1000), ko_maxConsecutiveFailures = Some (Fin 5)\<rparr>)"

section \<open>Scanner\<close>

record watchlist_candidate =
  wl_symbol :: string
  wl_cluster :: string
  wl_quoteVolume :: js_number
  wl_spreadBps :: js_number
  wl_oiUsd :: js_number

text \<open>The ranking map, the subscription flag and how many message listeners are registered.\<close>

record scanner =
  sn_profile :: agent_profile
  sn_tickers :: "(string, js_number) jsmap"
  sn_subscribed :: bool
  sn_listeners :: nat

definition new_WatchlistScanner :: "agent_profile option \<Rightarrow> scanner" where
  "new_WatchlistScanner profile =
     \<lparr>sn_profile = (case profile of None \<Rightarrow> DEFAULT_PROFILE | Some p \<Rightarrow> p), sn_tickers = [], sn_subscribed = False, sn_listeners = 0\<rparr>"

text \<open>The result of the subscription is awaited after the listener is added.\<close>

definition scanner_start :: "sdk_error + unit \<Rightarrow> scanner \<Rightarrow> (sdk_error + unit) \<times> scanner" where
  "scanner_start subscribed sc =
     (if sn_subscribed sc then (Inr (), sc)
      else let sc1 = sc\<lparr>sn_listeners := Suc (sn_listeners sc)\<rparr>
           in case subscribed of Inl e \<Rightarrow> (Inl e, sc1) | Inr _ \<Rightarrow> (Inr (), sc1\<lparr>sn_subscribed := True\<rparr>))"

text \<open>Whether an unsubscription is sent.\<close>

definition scanner_stop :: "scanner \<Rightarrow> bool \<times> scanner" where
  "scanner_stop sc = (if sn_subscribed sc then (True, sc\<lparr>sn_subscribed := False\<rparr>) else (False, sc))"

definition ingest_ticker :: "scanner \<Rightarrow> string \<times> js_number \<Rightarrow> scanner" where
  "ingest_ticker sc t =
     (if \<not> jn_le (Fin 0) (snd t) then sc else sc\<lparr>sn_tickers := jm_set (fst t) (snd t) (sn_tickers sc)\<rparr>)"

definition ingestTickers :: "(string \<times> js_number) list \<Rightarrow> scanner \<Rightarrow> scanner" where
  "ingestTickers ts sc = foldl ingest_ticker sc ts"

text \<open>A frame reaches every listener; each ingests it when it is of the ticker array.\<close>

definition scanner_message :: "string \<Rightarrow> (string \<times> js_number) list \<Rightarrow> scanner \<Rightarrow> scanner" where
  "scanner_message stream ts sc =
     (if stream \<noteq> ''!ticker@arr'' then sc else ((ingestTickers ts) ^^ sn_listeners sc) sc)"

definition volume_cmp :: "string \<times> js_number \<Rightarrow> string \<times> js_number \<Rightarrow> int" where
  "volume_cmp a b =
     (let d = jn_sub (snd b) (snd a) in if jn_less (Fin 0) d then 1 else if jn_less d (Fin 0) then - 1 else 0)"

definition perpetual :: "js_value \<Rightarrow> bool" where
  "perpetual s \<longleftrightarrow> js_field ''contractType'' s = JStr ''PERPETUAL'' \<and> js_field ''status'' s = JStr ''TRADING''"

definition topByVolume :: "js_value list \<Rightarrow> scanner \<Rightarrow> (string \<times> js_number) list" where
  "topByVolume symbols sc =
     (let perp = map (js_field ''symbol'') (filter perpetual symbols)
      in take (ag_watchlistSize (sn_profile sc)) (js_sort volume_cmp (filter (\<lambda>t. JStr (fst t) \<in> set perp) (sn_tickers sc))))"

text \<open>The gates of one symbol over its best bid and ask and its open interest.\<close>

definition gate :: "agent_profile \<Rightarrow> string \<times> js_number \<Rightarrow> js_number \<times> js_number \<Rightarrow> js_number \<Rightarrow> watchlist_candidate option" where
  "gate profile t book oi =
     (let mid = jn_div (jn_add (fst book) (snd book)) (Fin 2);
          spread = (if jn_less (Fin 0) mid then jn_mul (jn_div (jn_sub (snd book) (fst book)) mid) (Fin 10000) else PosInf);
          usd = jn_mul oi mid
      in if jn_le (ag_minQuoteVolume24h profile) (snd t) \<and> jn_le spread (ag_maxSpreadBps profile) \<and> jn_le (ag_minOpenInterestUsd profile) usd
         then Some \<lparr>wl_symbol = fst t, wl_cluster = clusterOf (fst t), wl_quoteVolume = snd t, wl_spreadBps = spread, wl_oiUsd = usd\<rparr>
         else None)"

definition eligibleWatchlist :: "sdk_error + js_value list \<Rightarrow> (string \<Rightarrow> sdk_error + (js_number \<times> js_number)) \<Rightarrow> (string \<Rightarrow> sdk_error + js_number)
    \<Rightarrow> scanner \<Rightarrow> sdk_error + watchlist_candidate list" where
  "eligibleWatchlist exchangeInfo book openInterest sc =
     mapR (\<lambda>symbols. List.map_filter (\<lambda>t. case (book (fst t), openInterest (fst t)) of
            (Inr b, Inr oi) \<Rightarrow> gate (sn_profile sc) t b oi | _ \<Rightarrow> None) (topByVolume symbols sc)) exchangeInfo"

section \<open>Reconciliation\<close>

text \<open>A later row of a symbol replaces an earlier one.\<close>

definition live_notional :: "position_risk list \<Rightarrow> (string, js_number) jsmap" where
  "live_notional rows =
     foldl (\<lambda>m p. if pr_positionAmt p = Fin 0 then m else jm_set (pr_symbol p) (jn_abs (pr_notional p)) m) [] rows"

text \<open>A simulated position is its symbol, quantity and entry price.\<close>

definition paper_notional :: "(string \<times> js_number \<times> js_number) list \<Rightarrow> (string, js_number) jsmap" where
  "paper_notional rows = foldl (\<lambda>m (s, q, p). jm_set s (jn_mul (jn_abs q) p) m) [] rows"

definition untracked :: "string set \<Rightarrow> (string, js_number) jsmap \<Rightarrow> string list" where
  "untracked tracked m = filter (\<lambda>s. s \<notin> tracked) (jm_keys m)"

definition reconcilePositions :: "(string \<times> js_number \<times> js_number) list option \<Rightarrow> sdk_error + position_risk list \<Rightarrow> string set
    \<Rightarrow> sdk_error + ((string, js_number) jsmap \<times> string list)" where
  "reconcilePositions paper risks tracked =
     (case paper of
        Some rows \<Rightarrow> Inr (paper_notional rows, untracked tracked (paper_notional rows))
      | None \<Rightarrow> mapR (\<lambda>rows. (live_notional rows, untracked tracked (live_notional rows))) risks)"


section \<open>The two step formats agree\<close>

lemma product_digits:
  assumes "exact_step m d t r" "k * m < 2 ^ 50"
  shows "js_fixed d (jn_mul (Fin (of_nat k)) (Fin t)) = fixed_digits d (k * m)"
proof -
  have "d \<le> 100" using assms(1) by (simp add: exact_step_def)
  then obtain z where z: "jn_mul (Fin (of_nat k)) (Fin t) = Fin z" "fixed_units d z = k * m" "0 \<le> z" "\<bar>z\<bar> < 10 ^ 21"
    using grid_product [OF exact_step_facts(5) [OF assms(1)] _ assms(2)] by blast
  then show ?thesis unfolding z(1) by simp
qed

text \<open>The agent's own formatting of a quantity agrees with the flooring of \<open>FuturesOps\<close>, which goes
  through a number and back, and so prints a whole number of steps.\<close>

theorem formatQty_is_floorToStep:
  assumes "exact_step m d t r" "tk_stepSize rules = Fin t" "tk_stepDecimals rules = d"
  shows "formatQty (Fin r) rules = formatToDecimals (floorToStep (Fin r) (Fin t) d) d"
proof -
  note f = exact_step_facts [OF assms(1)]
  obtain k where k: "whole_steps (Fin r) (Fin t) = Fin (of_nat k)"
      "of_nat k * (of_nat m / 10 ^ d) \<le> r + (r / 2 ^ 50 + 2 / 10 ^ 9 * (of_nat m / 10 ^ d))"
    using whole_steps_bounds [OF f(5,1,3,2)] by blast
  have small: "k * m < 2 ^ 50" by (rule few_units [OF assms(1), of k "2 / 10 ^ 9"]) (use k(2) in \<open>simp_all add: mult.commute\<close>)
  have "floorToStep (Fin r) (Fin t) d = js_round (of_nat (k * m) / 10 ^ d)"
    using whole_steps_exact(1) [OF assms(1) small] f(4) k(1) by (simp add: floorToStep_def whole_steps_def)
  then show ?thesis
    using whole_steps_exact(2) [OF assms(1) small] product_digits [OF assms(1) small] k(1) assms(2,3)
    by (simp add: formatQty_def formatToDecimals_def whole_steps_def)
qed

section \<open>What the orders of an entry must say\<close>






section \<open>Calls of the steps\<close>

lemma bindA_Inr: "bindA m f s = (Inr y, s') \<longleftrightarrow> (\<exists>x s1. m s = (Inr x, s1) \<and> f x s1 = (Inr y, s'))"
  by (auto simp: bindA_def split: prod.splits sum.splits)

lemma bindA_Inl: "bindA m f s = (Inl e, s') \<longleftrightarrow> m s = (Inl e, s') \<or> (\<exists>x s1. m s = (Inr x, s1) \<and> f x s1 = (Inl e, s'))"
  by (auto simp: bindA_def split: prod.splits sum.splits)

lemma retA_iff [simp]: "retA x s = (r, s') \<longleftrightarrow> r = Inr x \<and> s' = s"
  by (auto simp: retA_def)

lemma throwA_iff [simp]: "throwA e s = (r, s') \<longleftrightarrow> r = Inl e \<and> s' = s"
  by (auto simp: throwA_def)

lemma placeA_calls:
  "placeA env req s = (Inr x, s') \<Longrightarrow> as_calls s' = as_calls s @ [Placed req True]"
  "placeA env req s = (Inl e, s') \<Longrightarrow> as_calls s' = as_calls s @ [Placed req False]"
  by (auto simp: placeA_def split: prod.splits sum.splits)

lemma quiet_calls:
  "rulesA env symbol s = (r, s') \<Longrightarrow> as_calls s' = as_calls s"
  "sizeA env ps s = (z, s') \<Longrightarrow> as_calls s' = as_calls s"
  "validate_notional env symbol qty s = (v, s') \<Longrightarrow> s' = s"
  by (auto simp: rulesA_def sizeA_def validate_notional_def split: prod.splits option.splits sum.splits)

lemma frames:
  "sizeA env ps s = (z, s1) \<Longrightarrow> as_world s1 = as_world s \<and> as_rules s1 = as_rules s"
  "placeA env req s = (p, s1) \<Longrightarrow> as_rules s1 = as_rules s"
  "rulesA env symbol s = (x, s1) \<Longrightarrow> fst (load_rules (ae_exchangeInfo env) symbol (as_rules s)) = x"
  "placeA env req s = (Inr f, s1) \<Longrightarrow> fst (ae_place env req (as_world s)) = Inr f"
  by (auto simp: sizeA_def placeA_def rulesA_def split: prod.splits sum.splits)



lemma paper_legs:
  assumes "ae_paper env"
  shows "try_leg env req = retA PaperUnsimulated" "ladder_leg env label stamp symbol d r q c price = retA PaperUnsimulated"
    "hard_stop env stamp symbol d r stop = retA PaperUnsimulated"
  using assms by (simp_all add: try_leg_def ladder_leg_def hard_stop_def Let_def)






section \<open>Properties of an entry\<close>

lemma sized_calls:
  assumes "executeEntry env profile stamp symbol sig equity s = (r, s')"
  shows "(as_calls s' = as_calls s \<and> (\<forall>res. r \<noteq> Inr (Some res))) \<or>
    (\<exists>sizing s1 p s2. sg_vetoes sig = [] \<and> sizeA env (entry_params profile symbol sig equity) s = (Inr sizing, s1) \<and> sz_ok sizing \<and>
       as_calls s1 = as_calls s \<and> as_world s1 = as_world s \<and> as_rules s1 = as_rules s \<and> placeA env (market_entry stamp symbol (sg_direction sig) (sz_quantityStr sizing)) s1 = (p, s2) \<and>
       (case p of Inl e \<Rightarrow> r = Inl e \<and> s' = s2
        | Inr entry \<Rightarrow> protect env profile stamp symbol sig (sz_quantityStr sizing) entry (entry_price entry (sz_entryPrice sizing)) s2
            = (case r of Inl e \<Rightarrow> Inl e | Inr res \<Rightarrow> Inr (the res), s') \<and> (\<forall>x. r = Inr x \<longrightarrow> x \<noteq> None)))"
proof (cases "sg_vetoes sig = []")
  case False
  then show ?thesis using assms by (simp add: executeEntry_def)
next
  case True
  obtain z s1 where z: "sizeA env (entry_params profile symbol sig equity) s = (z, s1)" by fastforce
  note c1 = quiet_calls(2) [OF z] and fr = frames(1) [OF z]
  show ?thesis
  proof (cases z)
    case (Inl e)
    then show ?thesis using assms True z c1 by (auto simp: executeEntry_def bindA_def)
  next
    case (Inr sizing)
    obtain v s1' where v: "validate_notional env symbol (sz_quantityStr sizing) s1 = (v, s1')" by fastforce
    note c2 = quiet_calls(3) [OF v]
    show ?thesis
    proof (cases "\<not> sz_ok sizing \<or> jn_le (string_to_number (sz_quantityStr sizing)) (Fin 0)")
      case True
      then show ?thesis using assms \<open>sg_vetoes sig = []\<close> z Inr c1 by (auto simp: executeEntry_def bindA_def)
    next
      case False
      show ?thesis
      proof (cases v)
        case (Inl e)
        then show ?thesis using assms True z Inr False v c1 c2 by (auto simp: executeEntry_def bindA_def)
      next
        case v': (Inr u)
        obtain p s2 where p: "placeA env (market_entry stamp symbol (sg_direction sig) (sz_quantityStr sizing)) s1 = (p, s2)" by fastforce
        have "case p of Inl e \<Rightarrow> r = Inl e \<and> s' = s2
          | Inr entry \<Rightarrow> protect env profile stamp symbol sig (sz_quantityStr sizing) entry (entry_price entry (sz_entryPrice sizing)) s2
              = (case r of Inl e \<Rightarrow> Inl e | Inr res \<Rightarrow> Inr (the res), s') \<and> (\<forall>x. r = Inr x \<longrightarrow> x \<noteq> None)"
          using assms True z Inr False v v' c2 p
          by (auto simp: executeEntry_def bindA_def split: sum.splits prod.splits)
        then show ?thesis using True z Inr False c1 fr p by blast
      qed
    qed
  qed
qed





text \<open>The simulator rests no protective orders: a simulated entry sends the market order alone and reports
  every leg as not simulated.\<close>

lemma paper_entry_sends_one_order:
  assumes "ae_paper env" "executeEntry env profile stamp symbol sig equity s = (Inr (Some res), s')"
  shows "as_calls s' = as_calls s @ [Placed (market_entry stamp symbol (sg_direction sig) (en_quantity res)) True] \<and>
    en_stopLoss res = PaperUnsimulated \<and> en_tp1 res = PaperUnsimulated \<and> en_tp2 res = PaperUnsimulated \<and> en_trail res = PaperUnsimulated"
  using sized_calls [OF assms(2)]
proof (elim disjE exE conjE)
  fix sizing s1 p s2
  let ?q = "sz_quantityStr sizing"
  assume c: "as_calls s1 = as_calls s" and p: "placeA env (market_entry stamp symbol (sg_direction sig) ?q) s1 = (p, s2)"
    and k: "case p of Inl e \<Rightarrow> Inr (Some res) = Inl e \<and> s' = s2
      | Inr entry \<Rightarrow> protect env profile stamp symbol sig ?q entry (entry_price entry (sz_entryPrice sizing)) s2
          = (case Inr (Some res) of Inl e \<Rightarrow> Inl e | Inr res \<Rightarrow> Inr (the res), s') \<and> (\<forall>x. Inr (Some res) = Inr x \<longrightarrow> x \<noteq> None)"
  obtain entry where e: "p = Inr entry" using k by (cases p) auto
  have "protect env profile stamp symbol sig ?q entry (entry_price entry (sz_entryPrice sizing)) s2 = (Inr res, s')" using k e by simp
  then obtain r s3 where r: "rulesA env symbol s2 = (Inr r, s3)" "s' = s3" "en_quantity res = ?q"
      "en_stopLoss res = PaperUnsimulated" "en_tp1 res = PaperUnsimulated" "en_tp2 res = PaperUnsimulated" "en_trail res = PaperUnsimulated"
    by (auto simp: protect_def bindA_Inr paper_legs [OF assms(1)] Let_def split: if_splits)
  show ?thesis using placeA_calls(1) [OF p [unfolded e]] quiet_calls(1) [OF r(1)] r c by simp
qed auto

section \<open>The guarded exchange\<close>

text \<open>An order of the HTTP client passes the policy before it is sent.\<close>

definition guarded :: "int \<Rightarrow> 'w exchange \<Rightarrow> (risk_gateway \<times> 'w) exchange" where
  "guarded now createOrder req gw =
     (case rg_check now POST ''/fapi/v1/order'' (JObj req) (fst gw) of
        (Some e, g) \<Rightarrow> (Inl (OtherError ''PolicyViolationError'' [] None), (g, snd gw))
      | (None, g) \<Rightarrow> (case createOrder req (snd gw) of (r, w) \<Rightarrow> (r, (g, w))))"

text \<open>C29: with the breaker tripped, flattening through the guarded client is refused by that breaker: the
  exchange is not touched, the error is thrown at the first open position, its resting orders are not
  cancelled and the remaining symbols are not looked at.\<close>

theorem tripped_breaker_blocks_flatten:
  assumes "\<not> ae_paper env" "ae_createOrder env = guarded now createOrder" "as_world s = (g, w)"
    "br_tripped (rg_breaker g)" "utcDay now = rg_day g"
    "ae_positionRisk env (to_upper symbol) (g, w) = Inr positions" "open_rows None positions = [p]"
    "ae_load env symbol (as_ops s) = (Inr rules, cache)"
    "close_plan \<lparr>cp_symbol = symbol, cp_positionSide = None, cp_portion = None, cp_dryRun = False\<rparr> p rules = Inr req"
  shows "\<exists>e s'. emergencyFlatten env stamp (symbol # others) s = (Inl e, s') \<and> as_world s' = (g, w) \<and>
    as_calls s' = as_calls s @ [Closed symbol None]"
proof -
  have "rg_check now POST ''/fapi/v1/order'' (JObj req) g = (Some (RPolicy (PolicyViolation CircuitBreaker POST ''/fapi/v1/order'')), g)"
    by (rule tripped_denies [OF assms(4,5)]) simp
  then have refused: "ae_createOrder env req (g, w) = (Inl (OtherError ''PolicyViolationError'' [] None), (g, w))"
    by (simp add: assms(2) guarded_def)
  have "closeA env symbol s = (Inl (AgFailed (OpsFailed (OtherError ''PolicyViolationError'' [] None))),
      s\<lparr>as_world := (g, w), as_ops := cache, as_calls := as_calls s @ [Closed symbol None]\<rparr>)"
    using assms(3,6-9) refused by (simp add: closeA_def closePosition_def jn_le_def)
  then show ?thesis using assms(1) by (simp add: flatten_symbol_def bindA_def)
qed

text \<open>A position held in both directions is not closed, yet the error of a refused stop calls it
  flattened.\<close>

theorem hedged_position_called_flattened:
  assumes "\<not> ae_paper env" "placeA env (stop_request stamp symbol d r stop) s = (Inl e, s1)"
    "ae_positionRisk env (to_upper symbol) (as_world s1) = Inr positions" "1 < length (open_rows None positions)"
    "ae_cancelAll env symbol (as_world s1) = (Inr (), w)"
  shows "\<exists>s'. hard_stop env stamp symbol d r stop s
      = (Inl (AgThrown (''hard stop rejected for '' @ symbol @ ''; position flattened. cause: '' @ ae_text env e)), s') \<and>
    as_calls s' = as_calls s1 @ [Closed symbol (Some False), CancelledAll symbol True]"
proof -
  let ?ps = "\<lparr>cp_symbol = symbol, cp_positionSide = None, cp_portion = None, cp_dryRun = False\<rparr>"
  obtain out where out: "closePosition (ae_load env symbol) (\<lambda>x. ae_positionRisk env x (as_world s1)) (ae_createOrder env) ?ps
      (as_ops s1) (as_world s1) = (Inr out, as_ops s1, as_world s1, [])" "\<not> co_closed out"
    using hedged_close_does_nothing [of "\<lambda>x. ae_positionRisk env x (as_world s1)" ?ps positions "ae_load env symbol" "ae_createOrder env" "as_ops s1" "as_world s1"]
      assms(3,4) by auto
  show ?thesis
    using assms(1,2,5) out
    by (simp add: hard_stop_def catchA_def bindA_def throwA_def flatten_symbol_def closeA_def cancelAllA_def retA_def)
qed

section \<open>Properties of the watchlist and its fence\<close>

lemma policy_without_symbol:
  assumes "tp_allowed p = Some A" "method \<noteq> GET" "js_field ''symbol'' params = JStr s" "s \<noteq> []" "to_upper s \<notin> A"
  shows "fst (tp_check now method path params p) \<noteq> None"
  using assms by (simp add: tp_check_def checkSymbol_def split: option.splits)

text \<open>The fence of a session lets no state-changing request through for a symbol outside the watchlist,
  so with an empty watchlist for no symbol at all, and no withdrawal.\<close>

theorem fence_admits_watchlist_only:
  assumes "safetyOptions profile watchlist = (popts, kopts)" "method \<noteq> GET"
    "rg_check now method path params (new_RiskGateway t popts kopts) = (None, g)"
  shows "(case js_field ''symbol'' params of JStr s \<Rightarrow> s \<noteq> [] \<longrightarrow> to_upper s \<in> set (map to_upper watchlist) | _ \<Rightarrow> True) \<and>
    \<not> includesFragment path WITHDRAW_FRAGMENTS"
proof -
  let ?g = "rollDayIfNeeded now (new_RiskGateway t popts kopts)"
  have pol: "rg_policy ?g = new_TradingPolicy popts"
    by (simp add: rollDayIfNeeded_def resetDaily_def untripped_def new_RiskGateway_def Let_def)
  have opts: "po_allowedSymbols popts = Some watchlist" "po_allowWithdrawals popts = Some False" "po_blockedPaths popts = []"
    using assms(1) by (auto simp: safetyOptions_def)
  have pass: "fst (tp_check now method path params (new_TradingPolicy popts)) = None"
    using assms(2,3) by (auto simp: rg_check_def Let_def pol split: if_splits option.splits prod.splits)
  have "path_rule path popts = None" using pass assms(2) by (auto simp: tp_check_def new_TradingPolicy_def split: option.splits)
  then have "\<not> includesFragment path WITHDRAW_FRAGMENTS" using opts by (auto simp: path_rule_def split: if_splits)
  moreover have "to_upper s \<in> set (map to_upper watchlist)" if "js_field ''symbol'' params = JStr s" "s \<noteq> []" for s
    using policy_without_symbol [OF _ assms(2) that, of "new_TradingPolicy popts" "set (map to_upper watchlist)" now path] pass opts
    by (auto simp: new_TradingPolicy_def)
  ultimately show ?thesis by (auto split: js_value.splits)
qed

lemma candidate_gates:
  assumes "gate profile t book oi = Some c"
  shows "wl_symbol c = fst t \<and> wl_quoteVolume c = snd t \<and> wl_cluster c = clusterOf (fst t) \<and>
    jn_le (ag_minQuoteVolume24h profile) (wl_quoteVolume c) \<and> jn_le (wl_spreadBps c) (ag_maxSpreadBps profile) \<and>
    jn_le (ag_minOpenInterestUsd profile) (wl_oiUsd c)"
  using assms by (auto simp: gate_def Let_def split: if_splits)

text \<open>The watchlist is no longer than the profile's size, and every candidate is a ticker of the
  ranking, listed as a trading perpetual, that clears the volume, spread and open-interest floors.\<close>

theorem watchlist_clears_gates:
  assumes "eligibleWatchlist exchangeInfo book openInterest sc = Inr watch"
  shows "length watch \<le> ag_watchlistSize (sn_profile sc) \<and>
    (\<forall>c \<in> set watch. (wl_symbol c, wl_quoteVolume c) \<in> set (sn_tickers sc) \<and> wl_cluster c = clusterOf (wl_symbol c) \<and>
       (\<exists>symbols s. exchangeInfo = Inr symbols \<and> s \<in> set symbols \<and> perpetual s \<and> js_field ''symbol'' s = JStr (wl_symbol c)) \<and>
       jn_le (ag_minQuoteVolume24h (sn_profile sc)) (wl_quoteVolume c) \<and> jn_le (wl_spreadBps c) (ag_maxSpreadBps (sn_profile sc)) \<and>
       jn_le (ag_minOpenInterestUsd (sn_profile sc)) (wl_oiUsd c))"
proof -
  obtain symbols where info: "exchangeInfo = Inr symbols" using assms by (cases exchangeInfo) (auto simp: eligibleWatchlist_def)
  define f where "f t = (case (book (fst t), openInterest (fst t)) of (Inr b, Inr oi) \<Rightarrow> gate (sn_profile sc) t b oi | _ \<Rightarrow> None)" for t
  have w: "watch = List.map_filter f (topByVolume symbols sc)"
    using assms info unfolding eligibleWatchlist_def f_def [abs_def] by simp
  have "length (topByVolume symbols sc) \<le> ag_watchlistSize (sn_profile sc)" by (simp add: topByVolume_def Let_def)
  then have "length watch \<le> ag_watchlistSize (sn_profile sc)" unfolding w using length_map_filter [of f] order_trans by blast
  moreover have "(wl_symbol c, wl_quoteVolume c) \<in> set (sn_tickers sc) \<and> wl_cluster c = clusterOf (wl_symbol c) \<and>
      (\<exists>s \<in> set symbols. perpetual s \<and> js_field ''symbol'' s = JStr (wl_symbol c)) \<and>
      jn_le (ag_minQuoteVolume24h (sn_profile sc)) (wl_quoteVolume c) \<and> jn_le (wl_spreadBps c) (ag_maxSpreadBps (sn_profile sc)) \<and>
      jn_le (ag_minOpenInterestUsd (sn_profile sc)) (wl_oiUsd c)" if cw: "c \<in> set watch" for c
  proof -
    obtain t where t: "t \<in> set (topByVolume symbols sc)" "f t = Some c" using cw unfolding w set_map_filter by blast
    then obtain b oi where "gate (sn_profile sc) t b oi = Some c" by (auto simp: f_def split: sum.splits)
    note g = candidate_gates [OF this]
    have "t \<in> set (sn_tickers sc)" "\<exists>s \<in> set symbols. perpetual s \<and> js_field ''symbol'' s = JStr (fst t)"
      using in_set_takeD [OF t(1) [unfolded topByVolume_def Let_def]] by auto
    then show ?thesis using g by (cases t) auto
  qed
  ultimately show ?thesis using info by blast
qed

text \<open>Stopping leaves the message listener in place and starting again adds another, and so does every
  subscription that fails.\<close>

theorem restart_doubles_listener:
  shows "sn_listeners (snd (scanner_start (Inr ()) (snd (scanner_stop (snd (scanner_start (Inr ()) (new_WatchlistScanner p))))))) = 2"
    and "sn_listeners (snd (scanner_start r (snd (scanner_start (Inl e) (new_WatchlistScanner p))))) = 2"
  by (simp_all add: scanner_start_def scanner_stop_def new_WatchlistScanner_def Let_def split: sum.split)

section \<open>Properties of the snapshot\<close>

lemma live_notional_get:
  "jm_get s (live_notional rows) =
     (case filter (\<lambda>p. pr_positionAmt p \<noteq> Fin 0 \<and> pr_symbol p = s) rows of [] \<Rightarrow> None | ps \<Rightarrow> Some (jn_abs (pr_notional (last ps))))"
proof (induction rows rule: rev_induct)
  case Nil
  then show ?case by (simp add: live_notional_def jm_get_def)
next
  case (snoc p rows)
  have step: "live_notional (rows @ [p])
      = (if pr_positionAmt p = Fin 0 then live_notional rows else jm_set (pr_symbol p) (jn_abs (pr_notional p)) (live_notional rows))"
    by (simp add: live_notional_def)
  show ?case using snoc by (auto simp: step map_laws split: list.splits)
qed

text \<open>The snapshot holds every symbol with an open row, at the size of its last row, and names exactly
  those of them that are not tracked.\<close>

theorem snapshot_names_exposure:
  assumes "reconcilePositions None (Inr rows) tracked = Inr (notional, names)"
  shows "(jm_get s notional \<noteq> None \<longleftrightarrow> (\<exists>p \<in> set rows. pr_positionAmt p \<noteq> Fin 0 \<and> pr_symbol p = s)) \<and>
    (s \<in> set names \<longleftrightarrow> s \<notin> tracked \<and> (\<exists>p \<in> set rows. pr_positionAmt p \<noteq> Fin 0 \<and> pr_symbol p = s))"
proof -
  have n: "notional = live_notional rows" "names = untracked tracked (live_notional rows)"
    using assms by (auto simp: reconcilePositions_def)
  have "jm_get s (live_notional rows) \<noteq> None \<longleftrightarrow> (\<exists>p \<in> set rows. pr_positionAmt p \<noteq> Fin 0 \<and> pr_symbol p = s)"
    unfolding live_notional_get by (auto simp: filter_empty_conv split: list.splits) (metis (mono_tags, lifting) filter_eq_Cons_iff in_set_conv_decomp)
  then show ?thesis unfolding n by (auto simp: untracked_def jm_keys_iff)
qed

text \<open>The two rows of a hedged symbol are not added up.\<close>

lemma hedge_rows_overwritten:
  "live_notional
     [\<lparr>pr_symbol = ''BTCUSDT'', pr_positionSide = ''LONG'', pr_positionAmt = Fin 1, pr_notional = Fin 60000, pr_unRealizedProfit = Fin 0\<rparr>,
      \<lparr>pr_symbol = ''BTCUSDT'', pr_positionSide = ''SHORT'', pr_positionAmt = Fin (- 1), pr_notional = Fin (- 100), pr_unRealizedProfit = Fin 0\<rparr>]
   = [(''BTCUSDT'', Fin 100)]"
  by (simp add: live_notional_def jm_set_def jn_abs_def)


section \<open>Examples\<close>

text \<open>An exchange that accepts everything; the mark price is 64000 and the stop 63000.\<close>

definition demo_env :: "bool \<Rightarrow> unit agent_env" where
  "demo_env rulesKnown = \<lparr>ae_paper = False, ae_load = (\<lambda>s c. (Inr btc_rules, c)), ae_mark = (\<lambda>s. Inr (Fin 64000)),
     ae_exchangeInfo = (if rulesKnown then Inr [btc_info] else Inl (NetworkError [])), ae_bookTicker = (\<lambda>s. Inl (NetworkError [])),
     ae_assert = None, ae_place = (\<lambda>req w. (Inr \<lparr>fl_executedQuantity = ''0.02'', fl_averagePrice = None, fl_clientOrderId = ''c1''\<rparr>, w)),
     ae_positionRisk = (\<lambda>s w. Inr []), ae_createOrder = (\<lambda>req w. (Inr JNull, w)), ae_cancelAll = (\<lambda>s w. (Inr (), w)),
     ae_paperPosition = (\<lambda>s w. None), ae_text = (\<lambda>e. [])\<rparr>"

definition demo_state :: "unit agent_state" where
  "demo_state = \<lparr>as_world = (), as_ops = [], as_rules = [], as_calls = []\<rparr>"

definition demo_signal :: signal where
  "demo_signal = \<lparr>sg_direction = LONG, sg_setup = CONTINUATION, sg_score = 70, sg_vetoes = [], sg_entryHint = Fin 64000, sg_stopHint = Fin 63000\<rparr>"

definition demo_params :: size_params where
  "demo_params = entry_params DEFAULT_PROFILE ''BTCUSDT'' demo_signal (Fin 1000)"

definition demo_sizing :: position_sizing where
  "demo_sizing = size_with demo_params btc_rules (Fin 64000) None (Fin 25)"

lemma demo_risk: "sp_riskAmount demo_params = Some (Fin 25)"
  by code_simp

lemma demo_sized: "sizeA (demo_env k) demo_params demo_state = (Inr demo_sizing, demo_state)"
proof -
  have p: "sp_entryPrice demo_params = None" "sp_riskPct demo_params = None"
    by (simp_all add: demo_params_def entry_params_def Let_def)
  show ?thesis
    by (simp add: sizeA_def sizePosition_def risk_of_def awaited_def demo_env_def demo_state_def demo_sizing_def p demo_risk)
qed

lemma demo_accepted:
  "sz_ok demo_sizing" "sz_quantityStr demo_sizing = ''0.02''" "\<not> jn_le (string_to_number ''0.02'') (Fin 0)"
  "jn_less (Fin 0) (jn_abs (jn_sub (Fin 64000) (Fin 63000)))"
  by code_simp+



text \<open>Without rules for the symbol the accepted entry is left without a stop and nothing is flattened.\<close>

theorem rules_failure_leaves_position:
  "\<exists>e s'. executeEntry (demo_env False) DEFAULT_PROFILE ''k'' ''BTCUSDT'' demo_signal (Fin 1000) demo_state = (Inl e, s') \<and>
     as_calls s' = [Placed (market_entry ''k'' ''BTCUSDT'' LONG ''0.02'') True]"
proof -
  have sig: "sg_vetoes demo_signal = []" "sg_direction demo_signal = LONG" by (simp_all add: demo_signal_def)
  have env: "ae_exchangeInfo (demo_env False) = Inl (NetworkError [])" "ae_assert (demo_env False) = None"
      "ae_place (demo_env False) = (\<lambda>req w. (Inr \<lparr>fl_executedQuantity = ''0.02'', fl_averagePrice = None, fl_clientOrderId = ''c1''\<rparr>, w))"
      "as_rules demo_state = []" "as_calls demo_state = []"
    by (simp_all add: demo_env_def demo_state_def)
  show ?thesis
    by (simp add: executeEntry_def bindA_def demo_sized [unfolded demo_params_def] demo_accepted validate_notional_def retA_def
        protect_def rulesA_def load_rules_def placeA_def sig env jm_get_def)
qed


text \<open>A gateway whose breaker has tripped, around an exchange that would accept the order, and a short
  position to flatten.\<close>

definition flatten_env :: "(risk_gateway \<times> unit) agent_env" where
  "flatten_env = \<lparr>ae_paper = False, ae_load = (\<lambda>s c. (Inr btc_rules, c)), ae_mark = (\<lambda>s. Inr (Fin 64000)),
     ae_exchangeInfo = Inr [btc_info], ae_bookTicker = (\<lambda>s. Inl (NetworkError [])),
     ae_assert = None, ae_place = (\<lambda>req w. (Inl (NetworkError []), w)),
     ae_positionRisk = (\<lambda>s w. Inr [btc_short]), ae_createOrder = guarded 0 (\<lambda>req w. (Inr JNull, w)), ae_cancelAll = (\<lambda>s w. (Inr (), w)),
     ae_paperPosition = (\<lambda>s w. None), ae_text = (\<lambda>e. [])\<rparr>"

lemma tripped_breaker_blocks_flatten_witness:
  "\<exists>e s'. emergencyFlatten flatten_env ''k'' [''btcusdt'', ''ethusdt'']
       \<lparr>as_world = (wit_tripped, ()), as_ops = [], as_rules = [], as_calls = []\<rparr> = (Inl e, s') \<and>
     as_world s' = (wit_tripped, ()) \<and> as_calls s' = [Closed ''btcusdt'' None]"
proof -
  have g: "br_tripped (rg_breaker wit_tripped)" "utcDay 0 = rg_day wit_tripped"
    by (simp_all add: wit_tripped_def wit_gateway_def new_RiskGateway_def utcDay_def)
  have env: "\<not> ae_paper flatten_env" "ae_createOrder flatten_env = guarded 0 (\<lambda>req w. (Inr JNull, w))"
      "ae_positionRisk flatten_env (to_upper ''btcusdt'') (wit_tripped, ()) = Inr [btc_short]"
      "ae_load flatten_env ''btcusdt'' [] = (Inr btc_rules, [])"
    by (simp_all add: flatten_env_def)
  have rows: "open_rows None [btc_short] = [btc_short]" by (simp add: open_rows_def btc_short_def)
  show ?thesis
    using tripped_breaker_blocks_flatten [of flatten_env 0 _ "\<lparr>as_world = (wit_tripped, ()), as_ops = [], as_rules = [], as_calls = []\<rparr>",
      OF env(1,2) _ g env(3) rows _ close_btc_plan [unfolded close_btc_def]] env(4)
    by simp
qed

end
