(* ===== verification/Exec_Transports.thy ===== *)
theory Exec_Transports
  imports Paper_Adapter Futures_Ops
begin

text \<open>
  \<open>src/execution/ITransport.ts\<close> and \<open>Transports.ts\<close>: the narrow place-and-cancel interface, its live
  implementation over a trading resource and the one over the simulator. The resource is an argument:
  its two calls take the fields of the request and a world. A call returns the error thrown or the
  result, and the world or the simulator. Lemmas: what the live transport sends and how it classifies a
  failure, and what the simulated one books.
\<close>

section \<open>Interface\<close>

record placement_params =
  pm_symbol :: string
  pm_side :: string
  pm_type :: string
  pm_quantity :: string
  pm_price :: "string option"
  pm_stopPrice :: "string option"
  pm_timeInForce :: "string option"
  pm_newClientOrderId :: "string option"
  pm_quoteOrderQty :: "string option"
  pm_selfTradePreventionMode :: "string option"
  pm_trailingDelta :: "string option"
  pm_icebergQty :: "string option"

record placement_result =
  px_orderId :: js_number
  px_clientOrderId :: string
  px_symbol :: string
  px_status :: string
  px_executedQty :: string
  px_cummulativeQuoteQty :: string
  px_avgPrice :: "string option"
  px_orderListId :: "js_number option"
  px_isReduced :: "bool option"

text \<open>An order id is a number or a string.\<close>

record cancel_result =
  cx_orderId :: js_value
  cx_clientOrderId :: "string option"
  cx_symbol :: string
  cx_status :: string

record transport_label =
  tl_label :: string
  tl_product :: string

definition new_LiveBinanceTransport :: "string option \<Rightarrow> string option \<Rightarrow> transport_label" where
  "new_LiveBinanceTransport product label =
     (let p = (case product of None \<Rightarrow> ''usdm'' | Some x \<Rightarrow> x)
      in \<lparr>tl_label = (case label of None \<Rightarrow> ''live:'' @ p | Some l \<Rightarrow> l), tl_product = p\<rparr>)"

section \<open>Live transport\<close>

definition opt_field :: "string \<Rightarrow> string option \<Rightarrow> order_request" where
  "opt_field k v = (case v of None \<Rightarrow> [] | Some s \<Rightarrow> [(k, JStr s)])"

definition live_submission :: "placement_params \<Rightarrow> order_request" where
  "live_submission ps =
     [(''symbol'', JStr (pm_symbol ps)), (''side'', JStr (pm_side ps)), (''type'', JStr (pm_type ps)),
      (''quantity'', JStr (pm_quantity ps)), (''newOrderRespType'', JStr ''RESULT'')]
     @ opt_field ''price'' (pm_price ps) @ opt_field ''stopPrice'' (pm_stopPrice ps)
     @ opt_field ''timeInForce'' (pm_timeInForce ps) @ opt_field ''newClientOrderId'' (pm_newClientOrderId ps)
     @ opt_field ''quoteOrderQty'' (pm_quoteOrderQty ps) @ opt_field ''selfTradePreventionMode'' (pm_selfTradePreventionMode ps)
     @ opt_field ''trailingDelta'' (pm_trailingDelta ps) @ opt_field ''icebergQty'' (pm_icebergQty ps)"

definition id_or_zero :: "js_value \<Rightarrow> js_number" where
  "id_or_zero v = (if v = JUndef then Fin 0 else js_to_number v)"

definition normalizeResult :: "js_value \<Rightarrow> placement_params \<Rightarrow> placement_result" where
  "normalizeResult raw ps =
     \<lparr>px_orderId = id_or_zero (js_field ''orderId'' raw),
      px_clientOrderId = js_string (nullish (js_field ''clientOrderId'' raw)
        (JStr (case pm_newClientOrderId ps of None \<Rightarrow> [] | Some c \<Rightarrow> c))),
      px_symbol = js_string (nullish (js_field ''symbol'' raw) (JStr (pm_symbol ps))),
      px_status = js_string (nullish (js_field ''status'' raw) (JStr ''NEW'')),
      px_executedQty = js_string (nullish (js_field ''executedQty'' raw) (JStr ''0'')),
      px_cummulativeQuoteQty =
        js_string (nullish (js_field ''cummulativeQuoteQty'' raw) (nullish (js_field ''cumQuote'' raw) (JStr ''0''))),
      px_avgPrice = (let v = js_field ''avgPrice'' raw in if v \<noteq> JUndef \<and> js_string v \<noteq> [] then Some (js_string v) else None),
      px_orderListId = (let v = js_field ''orderListId'' raw in if v \<noteq> JUndef then Some (js_to_number v) else None),
      px_isReduced = (case js_field ''isReduced'' raw of JBool b \<Rightarrow> Some b | _ \<Rightarrow> None)\<rparr>"

definition normalizeCancelResult :: "js_value \<Rightarrow> string \<Rightarrow> cancel_result" where
  "normalizeCancelResult raw symbol =
     \<lparr>cx_orderId = JNum (id_or_zero (js_field ''orderId'' raw)),
      cx_clientOrderId = (let v = js_field ''clientOrderId'' raw in if v \<noteq> JUndef then Some (js_string v) else None),
      cx_symbol = js_string (nullish (js_field ''symbol'' raw) (JStr symbol)), cx_status = ''CANCELED''\<rparr>"

definition classifyForUnknown :: "sdk_error \<Rightarrow> placement_params \<Rightarrow> sdk_error option" where
  "classifyForUnknown err ps =
     (let unknown = UnknownExecutionError (case pm_newClientOrderId ps of None \<Rightarrow> [] | Some c \<Rightarrow> c) (pm_symbol ps)
      in if is_unknown_execution err then Some err
         else case err_status err of
                Some status \<Rightarrow> if 500 \<le> status \<and> status < 600 then Some unknown else None
              | None \<Rightarrow>
                  if err_name err = ''TimeoutError'' \<or> err_code err \<in> {''ECONNRESET'', ''ETIMEDOUT'', ''EPIPE''} \<or> err_name err = ''NetworkError''
                  then Some unknown else None)"

definition wrapUnknown :: "sdk_error \<Rightarrow> placement_params \<Rightarrow> sdk_error" where
  "wrapUnknown err ps = (case classifyForUnknown err ps of None \<Rightarrow> err | Some e \<Rightarrow> e)"

definition live_placeOrder :: "'w exchange \<Rightarrow> placement_params \<Rightarrow> 'w \<Rightarrow> (sdk_error + placement_result) \<times> 'w" where
  "live_placeOrder createOrder ps w =
     (case createOrder (live_submission ps) w of
        (Inl err, w') \<Rightarrow> (Inl (wrapUnknown err ps), w')
      | (Inr raw, w') \<Rightarrow> (Inr (normalizeResult raw ps), w'))"

text \<open>The resource's \<open>cancelOrder\<close> takes the symbol, a numeric order id and a client order id.\<close>

definition definitive_cancel :: "sdk_error \<Rightarrow> bool" where
  "definitive_cancel err =
     (case err of ApiError e \<Rightarrow> ae_code e = -2011 \<or> ae_code e = -2013
      | RateLimitError e _ \<Rightarrow> ae_code e = -2011 \<or> ae_code e = -2013 | _ \<Rightarrow> False)"

definition live_cancelOrder :: "(string \<Rightarrow> js_number option \<Rightarrow> string option \<Rightarrow> 'w \<Rightarrow> (sdk_error + js_value) \<times> 'w)
    \<Rightarrow> string \<Rightarrow> js_value \<Rightarrow> string option \<Rightarrow> 'w \<Rightarrow> (sdk_error + cancel_result) \<times> 'w" where
  "live_cancelOrder cancel symbol orderId orig w =
     (case cancel symbol (case orderId of JNum n \<Rightarrow> Some n | _ \<Rightarrow> None) orig w of
        (Inl err, w') \<Rightarrow>
          (if definitive_cancel err
           then Inr \<lparr>cx_orderId = orderId, cx_clientOrderId = None, cx_symbol = symbol, cx_status = ''CANCELED''\<rparr>
           else Inl err, w')
      | (Inr raw, w') \<Rightarrow> (Inr (normalizeCancelResult raw symbol), w'))"

section \<open>Simulated transport\<close>

definition broker_params :: "placement_params \<Rightarrow> order_params" where
  "broker_params ps =
     \<lparr>op_symbol = pm_symbol ps, op_side = (if pm_side ps = ''BUY'' then PBuy else PSell),
      op_type = (if to_upper (pm_type ps) = ''MARKET'' then PMarket else PLimit),
      op_quantity = string_to_number (pm_quantity ps), op_price = map_option string_to_number (pm_price ps), op_leverage = None\<rparr>"

definition broker_result :: "string \<Rightarrow> paper_order \<Rightarrow> placement_result" where
  "broker_result client order =
     \<lparr>px_orderId = Fin (of_nat (po_orderId order)), px_clientOrderId = client, px_symbol = po_symbol order,
      px_status = paper_status order, px_executedQty = js_num_str (po_filledQuantity order),
      px_cummulativeQuoteQty = js_num_str (order_quote order), px_avgPrice = Some (js_num_str (po_avgFillPrice order)),
      px_orderListId = None, px_isReduced = None\<rparr>"

definition broker_placeOrder :: "string + js_number \<Rightarrow> js_number \<Rightarrow> placement_params \<Rightarrow> paper_engine
    \<Rightarrow> (sdk_error + placement_result) \<times> paper_engine" where
  "broker_placeOrder feed now ps engine =
     (case pm_newClientOrderId ps of
        None \<Rightarrow> (Inl (paper_api_error ''PaperBrokerTransport requires newClientOrderId (the reconciliation key)'' (-1102)), engine)
      | Some client \<Rightarrow>
          if client = []
          then (Inl (paper_api_error ''PaperBrokerTransport requires newClientOrderId (the reconciliation key)'' (-1102)), engine)
          else (case paper_placeOrder feed now (broker_params ps) engine of
                  (Inl err, e) \<Rightarrow> (Inl (paper_api_error (paper_error_message err) (-2019)), e)
                | (Inr order, e) \<Rightarrow> (Inr (broker_result client order), e)))"

definition broker_cancelOrder :: "string \<Rightarrow> js_value \<Rightarrow> sdk_error" where
  "broker_cancelOrder symbol orderId =
     paper_api_error (''PaperBrokerTransport.cancelOrder('' @ symbol @ '', '' @ js_string orderId
       @ ''): simulator fills instantly, no resting order to cancel'') (-2011)"

section \<open>Properties\<close>

text \<open>C30: the recogniser of unknown outcomes that the transport carries agrees with the one the library
  exports, on every error.\<close>

theorem unknown_recognisers_agree:
  "classifyForUnknown err ps
     = classifyUnknownExecution (Some err) (case pm_newClientOrderId ps of None \<Rightarrow> [] | Some c \<Rightarrow> c) (pm_symbol ps)"
  by (auto simp: classifyForUnknown_def classifyUnknownExecution_def Let_def split: option.splits)

text \<open>A placement sends one request; its failure is thrown as an unknown execution under its own client
  order id and symbol exactly when the status is a server error or, without a status, the failure is one
  of the network's, and unchanged otherwise.\<close>

theorem live_failure_classified:
  assumes "createOrder (live_submission ps) w = (Inl err, w')" "\<not> is_unknown_execution err"
  shows "live_placeOrder createOrder ps w =
    (Inl (if (case err_status err of Some st \<Rightarrow> 500 \<le> st \<and> st < 600
            | None \<Rightarrow> err_name err \<in> {''TimeoutError'', ''NetworkError''} \<or> err_code err \<in> {''ECONNRESET'', ''ETIMEDOUT'', ''EPIPE''})
          then UnknownExecutionError (case pm_newClientOrderId ps of None \<Rightarrow> [] | Some c \<Rightarrow> c) (pm_symbol ps) else err), w')"
  using assms
  by (auto simp: live_placeOrder_def wrapUnknown_def classifyForUnknown_def Let_def split: option.splits)

lemma live_failure_classified_witness:
  "live_placeOrder (\<lambda>req w. (Inl (NetworkError ''ECONNRESET''), w @ [req]))
       \<lparr>pm_symbol = ''BTCUSDT'', pm_side = ''BUY'', pm_type = ''MARKET'', pm_quantity = ''1'', pm_price = None, pm_stopPrice = None,
        pm_timeInForce = None, pm_newClientOrderId = Some ''c1'', pm_quoteOrderQty = None, pm_selfTradePreventionMode = None,
        pm_trailingDelta = None, pm_icebergQty = None\<rparr> []
     = (Inl (UnknownExecutionError ''c1'' ''BTCUSDT''),
        [[(''symbol'', JStr ''BTCUSDT''), (''side'', JStr ''BUY''), (''type'', JStr ''MARKET''), (''quantity'', JStr ''1''),
          (''newOrderRespType'', JStr ''RESULT''), (''newClientOrderId'', JStr ''c1'')]])"
  by (subst live_failure_classified [where err = "NetworkError ''ECONNRESET''"])
    (simp_all add: live_submission_def opt_field_def is_unknown_execution_def)

text \<open>A limit order without a time in force is sent without one.\<close>

lemma time_in_force_not_defaulted: "pm_timeInForce ps = None \<Longrightarrow> map_of (live_submission ps) ''timeInForce'' = None"
  by (auto simp: live_submission_def opt_field_def map_of_eq_None_iff split: option.splits)

text \<open>A stop order is filled by the simulator at once, as a limit order; its trigger is not looked at.\<close>

theorem stop_order_fills_at_once:
  assumes "to_upper t \<noteq> ''MARKET''"
  shows "broker_placeOrder feed now (ps\<lparr>pm_type := t, pm_stopPrice := trigger\<rparr>) engine
    = broker_placeOrder feed now (ps\<lparr>pm_type := ''LIMIT''\<rparr>) engine"
proof -
  have "to_upper ''LIMIT'' = ''LIMIT''" by code_simp
  then have same: "broker_params (ps\<lparr>pm_type := t, pm_stopPrice := trigger\<rparr>) = broker_params (ps\<lparr>pm_type := ''LIMIT''\<rparr>)"
    using assms by (simp add: broker_params_def)
  show ?thesis unfolding broker_placeOrder_def same by simp
qed

text \<open>A cancel that the exchange refuses as unknown, which it does for a filled order too, is reported as
  canceled; and an order id given as a string is not sent.\<close>

theorem refused_cancel_reported_canceled:
  assumes "cancel symbol (case orderId of JNum n \<Rightarrow> Some n | _ \<Rightarrow> None) orig w = (Inl (ApiError e), w')" "ae_code e = -2011"
  shows "\<exists>out. live_cancelOrder cancel symbol orderId orig w = (Inr out, w') \<and> cx_status out = ''CANCELED''"
  using assms by (simp add: live_cancelOrder_def definitive_cancel_def)

lemma string_order_id_dropped:
  "live_cancelOrder cancel symbol (JStr i) orig w = live_cancelOrder cancel symbol (JStr j) orig w \<or>
   fst (live_cancelOrder cancel symbol (JStr i) orig w) = Inr \<lparr>cx_orderId = JStr i, cx_clientOrderId = None, cx_symbol = symbol, cx_status = ''CANCELED''\<rparr>"
  by (auto simp: live_cancelOrder_def split: prod.splits sum.splits)

text \<open>A refused simulated order changes no balance; an accepted one reports what the simulator booked
  under the caller's id.\<close>

theorem broker_reports_booked_order:
  assumes "broker_placeOrder feed now ps engine = (answer, engine')"
  shows "(\<exists>e. answer = Inl e \<and> (engine' = engine \<or> engine' = snd (positionFor (to_upper (pm_symbol ps)) engine))) \<or>
    (\<exists>client order. pm_newClientOrderId ps = Some client \<and> client \<noteq> [] \<and> answer = Inr (broker_result client order) \<and>
       paper_placeOrder feed now (broker_params ps) engine = (Inr order, engine'))"
proof -
  have "op_symbol (broker_params ps) = pm_symbol ps" by (simp add: broker_params_def)
  then have refused: "e' = engine \<or> e' = snd (positionFor (to_upper (pm_symbol ps)) engine)"
    if "paper_placeOrder feed now (broker_params ps) engine = (Inl err, e')" for err e'
    using place_refused [OF that] by simp
  show ?thesis
    using assms refused by (auto simp: broker_placeOrder_def split: option.splits if_splits sum.splits prod.splits)
qed

end
