(* ===== verification/Json_Lossless.thy ===== *)
theory Json_Lossless
  imports JS_Math
begin

text \<open>
  \<open>src/core/json.ts\<close>: the pre-pass that quotes integers no double holds before \<open>JSON.parse\<close> reads the
  text, and the walk that turns long integer strings back into numbers. \<open>JSON.parse\<close> is written out as
  a recursive descent over the characters; \<open>None\<close> is the syntax error it throws, which also stands for
  an escape of a character above 255. Lemmas: objects of integers are read without loss, arrays are
  not, and the walk back changes no value.
\<close>

section \<open>JSON.parse\<close>

definition json_ws :: "char \<Rightarrow> bool" where
  "json_ws c \<longleftrightarrow> (of_char c :: nat) \<in> {9, 10, 13, 32}"

definition json_escape :: "char \<Rightarrow> char option" where
  "json_escape e = map_of [(CHR 0x22, CHR 0x22), (CHR 0x5C, CHR 0x5C), (CHR ''/'', CHR ''/''), (CHR ''b'', CHR 0x08),
     (CHR ''f'', CHR 0x0C), (CHR ''n'', CHR 0x0A), (CHR ''r'', CHR 0x0D), (CHR ''t'', CHR 0x09)] e"

text \<open>The rest of a string after its opening quote, and what follows the closing one.\<close>

fun json_chars :: "string \<Rightarrow> (string \<times> string) option" where
  "json_chars [] = None"
| "json_chars (c # s) =
     (if c = CHR 0x22 then Some ([], s)
      else if c = CHR 0x5C then
        (case s of
           [] \<Rightarrow> None
         | e # t \<Rightarrow>
             (case json_escape e of
                Some x \<Rightarrow> map_option (apfst ((#) x)) (json_chars t)
              | None \<Rightarrow>
                  if e = CHR ''u'' then
                    (case t of
                       h1 # h2 # h3 # h4 # u \<Rightarrow>
                         (case radix_val 16 [h1, h2, h3, h4] 0 of
                            Some n \<Rightarrow> if n < 256 then map_option (apfst ((#) (char_of n))) (json_chars u) else None
                          | None \<Rightarrow> None)
                     | _ \<Rightarrow> None)
                  else None))
      else if (of_char c :: nat) < 32 then None
      else map_option (apfst ((#) c)) (json_chars s))"

text \<open>A number: its text by the grammar of JSON, and what follows.\<close>

definition json_number :: "string \<Rightarrow> (js_value \<times> string) option" where
  "json_number s =
     (let sign = (if starts_with s ''-'' then ''-'' else []); u = drop (length sign) s;
          i = (if starts_with u ''0'' then ''0'' else takeWhile is_digit u); r = drop (length i) u;
          f = (if starts_with r ''.'' then CHR ''.'' # takeWhile is_digit (tl r) else []); w = drop (length f) r;
          m = (case w of c # t \<Rightarrow> if c = CHR ''e'' \<or> c = CHR ''E''
                 then c # (case t of d # _ \<Rightarrow> if d = CHR ''+'' \<or> d = CHR ''-'' then [d] else [] | [] \<Rightarrow> []) else [] | [] \<Rightarrow> []);
          e = (if m = [] then [] else m @ takeWhile is_digit (drop (length m) w))
      in if i = [] \<or> length f = 1 \<or> m \<noteq> [] \<and> length e = length m then None
         else Some (JNum (string_to_number (sign @ i @ f @ e)), drop (length e) w))"

text \<open>The length tests only make the recursion visibly end: what is left is always shorter.\<close>

function json_value :: "string \<Rightarrow> (js_value \<times> string) option"
  and json_items :: "string \<Rightarrow> (js_value list \<times> string) option"
  and json_members :: "string \<Rightarrow> ((string \<times> js_value) list \<times> string) option" where
  "json_value s =
     (case dropWhile json_ws s of
        [] \<Rightarrow> None
      | c # t \<Rightarrow>
          if c = CHR ''{'' then
            (if starts_with (dropWhile json_ws t) ''}'' then Some (JObj [], tl (dropWhile json_ws t))
             else map_option (apfst (\<lambda>ms. JObj (foldl (\<lambda>m (k, v). jm_set k v m) [] ms))) (json_members t))
          else if c = CHR ''['' then
            (if starts_with (dropWhile json_ws t) '']'' then Some (JArr [], tl (dropWhile json_ws t))
             else map_option (apfst JArr) (json_items t))
          else if c = CHR 0x22 then map_option (apfst JStr) (json_chars t)
          else if starts_with (c # t) ''true'' then Some (JBool True, drop 4 (c # t))
          else if starts_with (c # t) ''false'' then Some (JBool False, drop 5 (c # t))
          else if starts_with (c # t) ''null'' then Some (JNull, drop 4 (c # t))
          else json_number (c # t))"
| "json_items s =
     (case json_value s of
        None \<Rightarrow> None
      | Some (v, r) \<Rightarrow>
          (case dropWhile json_ws r of
             [] \<Rightarrow> None
           | c # u \<Rightarrow>
               if c = CHR '','' \<and> length u < length s then map_option (apfst ((#) v)) (json_items u)
               else if c = CHR '']'' then Some ([v], u) else None))"
| "json_members s =
     (case dropWhile json_ws s of
        [] \<Rightarrow> None
      | q # t \<Rightarrow>
          if q \<noteq> CHR 0x22 then None
          else case json_chars t of
            None \<Rightarrow> None
          | Some (k, r) \<Rightarrow>
              (case dropWhile json_ws r of
                 [] \<Rightarrow> None
               | c # u \<Rightarrow>
                   if c \<noteq> CHR '':'' \<or> \<not> length u < length s then None
                   else case json_value u of
                     None \<Rightarrow> None
                   | Some (v, w) \<Rightarrow>
                       (case dropWhile json_ws w of
                          [] \<Rightarrow> None
                        | d # x \<Rightarrow>
                            if d = CHR '','' \<and> length x < length s then map_option (apfst ((#) (k, v))) (json_members x)
                            else if d = CHR ''}'' then Some ([(k, v)], x) else None)))"
  by pat_completeness auto
termination
proof (relation "measure (\<lambda>x. case x of Inl s \<Rightarrow> 2 * length s | Inr (Inl s) \<Rightarrow> 2 * length s + 1 | Inr (Inr s) \<Rightarrow> 2 * length s)")
  have shorter: "length t < length s" if "dropWhile json_ws s = c # t" for c t and s :: string
    using that length_dropWhile_le [of json_ws s] by simp
  show "(Inr (Inr t), Inl s) \<in> measure (\<lambda>x. case x of Inl s \<Rightarrow> 2 * length s | Inr (Inl s) \<Rightarrow> 2 * length s + 1 | Inr (Inr s) \<Rightarrow> 2 * length s)"
    if "dropWhile json_ws s = c # t" for s c t using shorter [OF that] by simp
  show "(Inr (Inl t), Inl s) \<in> measure (\<lambda>x. case x of Inl s \<Rightarrow> 2 * length s | Inr (Inl s) \<Rightarrow> 2 * length s + 1 | Inr (Inr s) \<Rightarrow> 2 * length s)"
    if "dropWhile json_ws s = c # t" for s c t using shorter [OF that] by simp
qed simp_all

definition json_parse :: "string \<Rightarrow> js_value option" where
  "json_parse s = (case json_value s of
     Some (v, r) \<Rightarrow> if dropWhile json_ws r = [] then Some v else None
   | None \<Rightarrow> None)"

section \<open>The pre-pass\<close>

definition MAX_SAFE :: int where
  "MAX_SAFE = 9007199254740991"

text \<open>One match of the pattern at the head of the text: the opening, the literal, the closing and the
  rest. Every part is as long as it can be, and no shorter choice would match.\<close>

definition match_large :: "string \<Rightarrow> (string \<times> string \<times> string \<times> string) option" where
  "match_large s =
     (case s of
        [] \<Rightarrow> None
      | c # t \<Rightarrow>
          let ws = takeWhile is_space t; t1 = dropWhile is_space t;
              sign = (if starts_with t1 ''-'' then ''-'' else []); t2 = drop (length sign) t1;
              ds = takeWhile is_digit t2; t3 = dropWhile is_digit t2;
              ws' = takeWhile is_space t3; t4 = dropWhile is_space t3
          in if c \<in> {CHR '':'', CHR '','', CHR ''[''} \<and> 16 \<le> length ds
             then (case t4 of
                     d # r \<Rightarrow> if d \<in> {CHR ''}'', CHR '','', CHR '']''} then Some (c # ws, sign @ ds, ws' @ [d], r) else None
                   | [] \<Rightarrow> None)
             else None)"

definition bigint_of :: "string \<Rightarrow> int" where
  "bigint_of s = (if starts_with s ''-'' then - int (digits_val (tl s)) else int (digits_val s))"

definition quote_large :: "string \<Rightarrow> string" where
  "quote_large d = (if - MAX_SAFE \<le> bigint_of d \<and> bigint_of d \<le> MAX_SAFE then d else CHR 0x22 # d @ [CHR 0x22])"

lemma match_large_shorter:
  assumes "match_large s = Some (p, d, t, r)"
  shows "length r < length s"
proof (cases s)
  case Nil
  then show ?thesis using assms by (simp add: match_large_def)
next
  case (Cons c s')
  define k where "k = length (if starts_with (dropWhile is_space s') ''-'' then ''-'' else [])"
  define x where "x = dropWhile is_space (dropWhile is_digit (drop k (dropWhile is_space s')))"
  have "(if c \<in> {CHR '':'', CHR '','', CHR ''[''} \<and> 16 \<le> length (takeWhile is_digit (drop k (dropWhile is_space s')))
      then (case x of d # r \<Rightarrow> if d \<in> {CHR ''}'', CHR '','', CHR '']''}
        then Some (c # takeWhile is_space s', (if starts_with (dropWhile is_space s') ''-'' then ''-'' else [])
          @ takeWhile is_digit (drop k (dropWhile is_space s')),
          takeWhile is_space (dropWhile is_digit (drop k (dropWhile is_space s'))) @ [d], r) else None | [] \<Rightarrow> None) else None)
    = Some (p, d, t, r)"
    using assms unfolding Cons match_large_def Let_def list.case k_def x_def .
  then have "\<exists>e. x = e # r" by (cases x; cases "hd x \<in> {CHR ''}'', CHR '','', CHR '']''}") (simp_all only: list.case list.sel if_True if_False if_cancel option.distinct option.inject prod.inject split: if_split_asm, blast+)
  then obtain e where "dropWhile is_space (dropWhile is_digit (drop k (dropWhile is_space s'))) = e # r" unfolding x_def by blast
  then have "length (e # r) \<le> length s'"
    using length_dropWhile_le [of is_space "dropWhile is_digit (drop k (dropWhile is_space s'))"]
      length_dropWhile_le [of is_digit "drop k (dropWhile is_space s')"] length_dropWhile_le [of is_space s'] by simp
  then show ?thesis unfolding Cons by simp
qed

function patch_large :: "string \<Rightarrow> string" where
  "patch_large s =
     (case s of
        [] \<Rightarrow> []
      | c # t \<Rightarrow>
          (case match_large s of
             Some (p, d, e, r) \<Rightarrow> p @ quote_large d @ e @ patch_large r
           | None \<Rightarrow> c # patch_large t))"
  by pat_completeness auto
termination
  by (relation "measure length") (auto dest: match_large_shorter)

declare patch_large.simps [simp del] json_value.simps [simp del] json_items.simps [simp del] json_members.simps [simp del]

definition parseJsonLossless :: "string \<Rightarrow> js_value option" where
  "parseJsonLossless text = json_parse (patch_large text)"

section \<open>Back to numbers\<close>

definition long_integer :: "string \<Rightarrow> bool" where
  "long_integer s = (let d = (if starts_with s ''-'' then tl s else s) in 16 \<le> length d \<and> list_all is_digit d)"

definition is_safe_integer :: "js_number \<Rightarrow> bool" where
  "is_safe_integer n = (case n of Fin r \<Rightarrow> jn_is_integer n \<and> \<bar>r\<bar> \<le> of_int MAX_SAFE | _ \<Rightarrow> False)"

primrec normalizeIntStrings :: "js_value \<Rightarrow> js_value" where
  "normalizeIntStrings JUndef = JUndef"
| "normalizeIntStrings JNull = JNull"
| "normalizeIntStrings (JBool b) = JBool b"
| "normalizeIntStrings (JNum n) = JNum n"
| "normalizeIntStrings (JBig i) = JBig i"
| "normalizeIntStrings (JStr s) =
     (if long_integer s \<and> is_safe_integer (string_to_number s) then JNum (string_to_number s) else JStr s)"
| "normalizeIntStrings (JArr vs) = JArr (map normalizeIntStrings vs)"
| "normalizeIntStrings (JObj fs) = JObj (map (map_prod id normalizeIntStrings) fs)"

section \<open>Texts of integers\<close>

definition long_int :: "int \<Rightarrow> bool" where
  "long_int n \<longleftrightarrow> 16 \<le> length (nat_digits (nat \<bar>n\<bar>))"

definition quoted :: "int \<Rightarrow> string" where
  "quoted n = (if \<bar>n\<bar> \<le> MAX_SAFE then int_str n else CHR 0x22 # int_str n @ [CHR 0x22])"

definition plain :: "string \<Rightarrow> bool" where
  "plain s \<longleftrightarrow> list_all (\<lambda>c. c \<notin> {CHR '':'', CHR '','', CHR ''['', CHR 0x22, CHR 0x5C} \<and> 32 \<le> (of_char c :: nat)) s"

lemma int_str_parts: "int_str n = (if n < 0 then ''-'' else []) @ nat_digits (nat \<bar>n\<bar>)"
  by (simp add: int_str_def)

lemma nat_digits_all: "list_all is_digit (nat_digits n)"
  by (auto simp: list_all_iff nat_digits_digit)

lemma nat_digits_starts: "\<not> starts_with (nat_digits n @ r) ''-''" "\<not> starts_with (nat_digits n @ r) ''+''"
  using nat_digits_all [of n] nat_digits_nonempty [of n] by (cases "nat_digits n"; auto dest: digit_facts)+

lemma bigint_int_str: "bigint_of (int_str n) = n"
  using nat_digits_starts(1) [of "nat n" "[]"] by (simp add: bigint_of_def int_str_def)

lemma quote_large_int: "quote_large (int_str n) = quoted n"
  by (auto simp: quote_large_def quoted_def bigint_int_str abs_le_iff)

lemma large_is_long: "\<not> \<bar>n\<bar> \<le> MAX_SAFE \<Longrightarrow> long_int n"
proof (rule ccontr)
  assume a: "\<not> \<bar>n\<bar> \<le> MAX_SAFE" "\<not> long_int n"
  let ?ds = "nat_digits (nat \<bar>n\<bar>)"
  have "digits_val ?ds < 10 ^ length ?ds" by (rule digits_val_less) (simp add: nat_digits_digit)
  also have "(10 :: nat) ^ length ?ds \<le> 10 ^ 15" using a(2) by (intro power_increasing) (simp_all add: long_int_def)
  finally have "nat \<bar>n\<bar> < 1000000000000000" by simp
  then show False using a(1) unfolding MAX_SAFE_def by linarith
qed

lemma int_str_no_space: "dropWhile is_space (int_str n @ r) = int_str n @ r" "takeWhile is_space (int_str n @ r) = []"
    "dropWhile json_ws (int_str n @ r) = int_str n @ r"
  using nat_digits_all [of "nat \<bar>n\<bar>"] nat_digits_nonempty [of "nat \<bar>n\<bar>"]
  by (cases "nat_digits (nat \<bar>n\<bar>)"; auto simp: int_str_parts is_space_def json_ws_def is_digit_def)+

lemma match_large_int:
  assumes "c \<in> {CHR '':'', CHR '','', CHR ''[''}" "e \<in> {CHR ''}'', CHR '','', CHR '']''}"
  shows "match_large (c # int_str n @ e # r) = (if long_int n then Some ([c], int_str n, [e], r) else None)"
proof -
  let ?ds = "nat_digits (nat \<bar>n\<bar>)" and ?s = "if n < 0 then ''-'' else []"
  have e: "\<not> is_digit e" "\<not> is_space e" using assms(2) by (auto simp: is_digit_def is_space_def)
  have sign: "(if starts_with (int_str n @ e # r) ''-'' then ''-'' else []) = ?s"
    using nat_digits_starts(1) [of "nat n" "e # r"] by (simp add: int_str_parts)
  have drop: "drop (length ?s) (int_str n @ e # r) = ?ds @ e # r" by (simp add: int_str_parts)
  have tw: "takeWhile is_digit (?ds @ e # r) = ?ds" "dropWhile is_digit (?ds @ e # r) = e # r"
      "takeWhile is_space (e # r) = []" "dropWhile is_space (e # r) = e # r"
    using e by (simp_all add: takeWhile_digits dropWhile_digits nat_digits_all)
  show ?thesis
    unfolding match_large_def Let_def list.case int_str_no_space sign drop tw
    using assms by (simp only: long_int_def int_str_parts simp_thms if_True append_Nil list.case)
qed

lemma patch_Nil [simp]: "patch_large [] = []"
  by (simp add: patch_large.simps)

lemma match_large_other: "c \<notin> {CHR '':'', CHR '','', CHR ''[''} \<Longrightarrow> match_large (c # s) = None"
  by (auto simp: match_large_def Let_def)

lemma patch_other: "c \<notin> {CHR '':'', CHR '','', CHR ''[''} \<Longrightarrow> patch_large (c # s) = c # patch_large s"
  using match_large_other [of c s] by (subst patch_large.simps) simp

lemma patch_others: "list_all (\<lambda>c. c \<notin> {CHR '':'', CHR '','', CHR ''[''}) k \<Longrightarrow> patch_large (k @ s) = k @ patch_large s"
  by (induction k) (simp_all add: patch_other)

lemma patch_int_str: "patch_large (int_str n @ s) = int_str n @ patch_large s"
  using nat_digits_all [of "nat \<bar>n\<bar>"]
  by (intro patch_others) (auto simp: int_str_parts list_all_iff is_digit_def)

text \<open>After a long literal its closing character is part of the match, after a short one it is not.\<close>

lemma patch_at_int:
  assumes "c \<in> {CHR '':'', CHR '','', CHR ''[''}" "e \<in> {CHR ''}'', CHR '','', CHR '']''}"
  shows "patch_large (c # int_str n @ e # r) = c # quoted n @ (if long_int n then e # patch_large r else patch_large (e # r))"
proof (cases "long_int n")
  case True
  then show ?thesis using match_large_int [OF assms] by (subst patch_large.simps) (simp add: quote_large_int)
next
  case False
  then have "quoted n = int_str n" using large_is_long [of n] by (auto simp: quoted_def)
  then show ?thesis using match_large_int [OF assms] False by (subst patch_large.simps) (simp add: patch_int_str)
qed

lemma patch_before_string: "patch_large (CHR '','' # CHR 0x22 # s) = CHR '','' # CHR 0x22 # patch_large s"
proof -
  have "match_large (CHR '','' # CHR 0x22 # s) = None" by (simp add: match_large_def Let_def is_space_def is_digit_def)
  then have "patch_large (CHR '','' # CHR 0x22 # s) = CHR '','' # patch_large (CHR 0x22 # s)"
    by (subst patch_large.simps) simp
  then show ?thesis by (simp add: patch_other)
qed

section \<open>Objects are read without loss\<close>

definition member_text :: "(int \<Rightarrow> string) \<Rightarrow> string \<times> int \<Rightarrow> string" where
  "member_text show kn = CHR 0x22 # fst kn @ CHR 0x22 # CHR '':'' # show (snd kn)"

definition object_text :: "(int \<Rightarrow> string) \<Rightarrow> (string \<times> int) list \<Rightarrow> string" where
  "object_text show ms = CHR ''{'' # join_with '','' (map (member_text show) ms) @ ''}''"

definition array_text :: "string list \<Rightarrow> string" where
  "array_text items = CHR ''['' # join_with '','' items @ '']''"

lemma patch_member:
  assumes "plain k" "e \<in> {CHR ''}'', CHR '','', CHR '']''}"
  shows "patch_large (member_text int_str (k, n) @ e # r)
    = member_text quoted (k, n) @ (if long_int n then e # patch_large r else patch_large (e # r))"
proof -
  have k: "list_all (\<lambda>c. c \<notin> {CHR '':'', CHR '','', CHR ''[''}) k" using assms(1) by (auto simp: plain_def list_all_iff)
  have "patch_large (CHR 0x22 # k @ CHR 0x22 # CHR '':'' # int_str n @ e # r)
    = CHR 0x22 # k @ CHR 0x22 # patch_large (CHR '':'' # int_str n @ e # r)"
    using k by (simp add: patch_other patch_others)
  then show ?thesis using patch_at_int [OF _ assms(2), of "CHR '':''" n r] by (simp add: member_text_def)
qed

lemma members_text_head:
  assumes "ms \<noteq> []"
  shows "\<exists>s. join_with '','' (map (member_text show) ms) @ r = CHR 0x22 # s"
proof (cases ms)
  case (Cons m ms')
  then show ?thesis by (cases ms') (simp_all add: member_text_def)
qed (use assms in simp)

lemma patch_members:
  "list_all (plain \<circ> fst) ms \<Longrightarrow> ms \<noteq> [] \<Longrightarrow>
   patch_large (join_with '','' (map (member_text int_str) ms) @ ''}'') = join_with '','' (map (member_text quoted) ms) @ ''}''"
proof (induction ms rule: induct_list012)
  case (2 m)
  then show ?case using patch_member [of "fst m" "CHR ''}''" "snd m" "[]"] by (simp add: patch_other)
next
  case (3 m m' ms)
  define rest where "rest = join_with '','' (map (member_text int_str) (m' # ms)) @ ''}''"
  obtain s where s: "rest = CHR 0x22 # s"
    unfolding rest_def using members_text_head [of "m' # ms" int_str "''}''"] by auto
  have comma: "patch_large (CHR '','' # rest) = CHR '','' # patch_large rest"
    unfolding s patch_before_string by (simp add: patch_other)
  have "patch_large (member_text int_str m @ CHR '','' # rest) = member_text quoted m @ CHR '','' # patch_large rest"
    using patch_member [of "fst m" "CHR '',''" "snd m" rest] 3(3) comma by simp
  moreover have "patch_large rest = join_with '','' (map (member_text quoted) (m' # ms)) @ ''}''"
    unfolding rest_def by (rule 3(2)) (use 3(3) in simp_all)
  ultimately show ?case by (simp add: rest_def)
qed simp

lemma patch_object: "list_all (plain \<circ> fst) ms \<Longrightarrow> patch_large (object_text int_str ms) = object_text quoted ms"
  using patch_members [of ms] by (cases "ms = []") (simp_all add: object_text_def patch_other)

definition read_int :: "int \<Rightarrow> js_value" where
  "read_int n = (if \<bar>n\<bar> \<le> MAX_SAFE then JNum (Fin (of_int n)) else JStr (int_str n))"

lemma string_to_number_int: "string_to_number (int_str n) = js_round (of_int n)"
proof -
  have "int_str n = literal (n < 0) (nat_digits (nat \<bar>n\<bar>)) [] 0" by (simp add: int_str_parts literal_def)
  then show ?thesis using literal_number [of "nat_digits (nat \<bar>n\<bar>)" "[]" "n < 0"] by (simp add: nat_digits_all)
qed

lemma js_round_safe: "\<bar>n\<bar> \<le> 2 ^ 53 \<Longrightarrow> js_round (of_int n) = Fin (of_int n)"
  using js_round_grid [of "of_int n" n 0] by (cases "n = 0") (auto simp: rpow_def abs_if split: if_splits)

lemma digit_char_zero: "d < 10 \<Longrightarrow> digit_char d = CHR ''0'' \<longleftrightarrow> d = 0"
proof -
  assume d: "d < 10"
  have z: "digit_char 0 = CHR ''0''" "digit_val (CHR ''0'') = 0" by code_simp+
  then show ?thesis using digit_val_digit_char [OF d] by auto
qed

lemma nat_digits_zero: "starts_with (nat_digits n @ r) ''0'' \<longleftrightarrow> n = 0"
proof (induction n arbitrary: r rule: nat_digits.induct)
  case (1 n)
  show ?case
  proof (cases "n < 10")
    case True
    then show ?thesis by (subst nat_digits.simps) (simp add: digit_char_zero)
  next
    case False
    then show ?thesis using 1 [OF False, of "digit_char (n mod 10) # r"] by (subst nat_digits.simps) simp
  qed
qed

lemma json_number_int:
  assumes "e \<in> {CHR ''}'', CHR '','', CHR '']''}"
  shows "json_number (int_str n @ e # r) = Some (JNum (js_round (of_int n)), e # r)"
proof -
  let ?ds = "nat_digits (nat \<bar>n\<bar>)"
  have e: "\<not> is_digit e" using assms by (auto simp: is_digit_def)
  have "takeWhile is_digit (?ds @ e # r) = ?ds" using e by (simp add: takeWhile_digits nat_digits_all)
  moreover have "?ds = ''0''" if "nat \<bar>n\<bar> = 0" unfolding that by (subst nat_digits.simps) (simp add: digit_char_zero)
  ultimately have i: "(if starts_with (?ds @ e # r) ''0'' then ''0'' else takeWhile is_digit (?ds @ e # r)) = ?ds"
    unfolding nat_digits_zero by simp
  have rest: "\<not> starts_with (e # r) ''.''" "e \<noteq> CHR ''e''" "e \<noteq> CHR ''E''" using assms by auto
  have sign: "(if starts_with (int_str n @ e # r) ''-'' then ''-'' else []) = (if n < 0 then ''-'' else [])"
    using nat_digits_starts(1) [of "nat n" "e # r"] by (simp add: int_str_parts)
  have drop: "drop (length (if n < 0 then ''-'' else [])) (int_str n @ e # r) = ?ds @ e # r" by (simp add: int_str_parts)
  show ?thesis
    using rest unfolding json_number_def Let_def sign drop i
    by (simp add: string_to_number_int [unfolded int_str_parts])
qed

lemma int_str_head: "\<exists>c s. int_str n @ r = c # s \<and> (is_digit c \<or> c = CHR ''-'')"
  using nat_digits_all [of "nat \<bar>n\<bar>"] nat_digits_nonempty [of "nat \<bar>n\<bar>"]
  by (cases "nat_digits (nat \<bar>n\<bar>)") (auto simp: int_str_parts)

lemma json_value_int:
  assumes "e \<in> {CHR ''}'', CHR '','', CHR '']''}"
  shows "json_value (int_str n @ e # r) = Some (JNum (js_round (of_int n)), e # r)"
proof -
  obtain c s where c: "int_str n @ e # r = c # s" "is_digit c \<or> c = CHR ''-''" using int_str_head by blast
  have w: "dropWhile json_ws (int_str n @ e # r) = c # s" unfolding int_str_no_space(3) by (rule c(1))
  have "c \<noteq> CHR ''{''" "c \<noteq> CHR ''[''" "c \<noteq> CHR 0x22" "c \<noteq> CHR ''t''" "c \<noteq> CHR ''f''" "c \<noteq> CHR ''n''"
    using c(2) by (auto simp: is_digit_def)
  then show ?thesis
    using json_number_int [OF assms, of n r] w by (subst json_value.simps) (simp add: c(1))
qed

definition unescaped :: "string \<Rightarrow> bool" where
  "unescaped s \<longleftrightarrow> list_all (\<lambda>c. c \<noteq> CHR 0x22 \<and> c \<noteq> CHR 0x5C \<and> 32 \<le> (of_char c :: nat)) s"

lemma json_chars_unescaped: "unescaped s \<Longrightarrow> json_chars (s @ CHR 0x22 # r) = Some (s, r)"
  by (induction s) (auto simp: unescaped_def)

lemma plain_unescaped: "plain s \<Longrightarrow> unescaped s"
  by (auto simp: plain_def unescaped_def list_all_iff)

lemmas json_chars_plain = json_chars_unescaped [OF plain_unescaped]

lemma int_str_plain: "plain (int_str n)"
  using nat_digits_all [of "nat \<bar>n\<bar>"] by (auto simp: plain_def int_str_parts list_all_iff is_digit_def)

lemma json_value_quoted: "json_value (CHR 0x22 # int_str n @ CHR 0x22 # r) = Some (JStr (int_str n), r)"
  by (subst json_value.simps) (simp add: json_ws_def json_chars_plain int_str_plain)

lemma json_value_shown:
  assumes "e \<in> {CHR ''}'', CHR '','', CHR '']''}"
  shows "json_value (quoted n @ e # r) = Some (read_int n, e # r)"
proof (cases "\<bar>n\<bar> \<le> MAX_SAFE")
  case True
  then have "js_round (of_int n) = Fin (of_int n)" by (intro js_round_safe) (simp add: MAX_SAFE_def)
  then show ?thesis using True json_value_int [OF assms, of n r] by (simp add: quoted_def read_int_def)
qed (simp add: quoted_def read_int_def json_value_quoted)

lemma json_member:
  assumes "plain (fst m)" "e \<in> {CHR ''}'', CHR '',''}"
  shows "json_members (member_text quoted m @ e # x) =
    (if e = CHR '','' then map_option (apfst ((#) (apsnd read_int m))) (json_members x) else Some ([apsnd read_int m], x))"
proof -
  let ?u = "quoted (snd m) @ e # x"
  have v: "json_value ?u = Some (read_int (snd m), e # x)" by (rule json_value_shown) (use assms(2) in auto)
  have s: "json_chars (fst m @ CHR 0x22 # CHR '':'' # ?u) = Some (fst m, CHR '':'' # ?u)" by (rule json_chars_plain [OF assms(1)])
  have ws: "\<not> json_ws e" "\<not> json_ws (CHR '':'')" "\<not> json_ws (CHR 0x22)" using assms(2) by (auto simp: json_ws_def)
  show ?thesis
    using assms(2) by (subst json_members.simps) (auto simp: member_text_def ws s v apsnd_def map_prod_def split_beta)
qed

lemma json_members_shown:
  "list_all (plain \<circ> fst) ms \<Longrightarrow> ms \<noteq> [] \<Longrightarrow>
   json_members (join_with '','' (map (member_text quoted) ms) @ ''}'') = Some (map (apsnd read_int) ms, [])"
proof (induction ms rule: induct_list012)
  case (2 m)
  then show ?case using json_member [of m "CHR ''}''" "[]"] by simp
next
  case (3 m m' ms)
  then show ?case
    using json_member [of m "CHR '',''" "join_with '','' (map (member_text quoted) (m' # ms)) @ ''}''"] by simp
qed simp

lemma foldl_jm_set:
  "distinct (map fst (m @ ms)) \<Longrightarrow> foldl (\<lambda>m (k, v). jm_set k v m) m ms = m @ ms"
proof (induction ms arbitrary: m)
  case (Cons kv ms)
  obtain k v where kv: "kv = (k, v)" by (cases kv)
  have "jm_set k v m = m @ [(k, v)]" by (rule jm_set_fresh) (use Cons.prems in \<open>auto simp: kv jm_keys_def\<close>)
  then show ?case using Cons.IH [of "m @ [(k, v)]"] Cons.prems by (simp add: kv)
qed simp

text \<open>C39: in an object of integers every member is read exactly: as a number when its absolute value is at most
  2^53 - 1, and as its decimal text beyond that (where a double may still hold it, as it does 2^53). The
  object is written as \<open>JSON.stringify\<close> writes it, without white space, and its keys are distinct
  and plain: no quote, backslash or control character, and none of \<open>:\<close>, \<open>,\<close> and \<open>[\<close>, after which the code looks
  for a long literal, inside strings too.\<close>

theorem object_read_without_loss:
  assumes "list_all (plain \<circ> fst) ms" "distinct (map fst ms)"
  shows "parseJsonLossless (object_text int_str ms) = Some (JObj (map (apsnd read_int) ms))"
proof (cases "ms = []")
  case True
  then show ?thesis
    by (simp add: parseJsonLossless_def json_parse_def object_text_def patch_other json_value.simps [of "CHR ''{'' # _"] json_ws_def)
next
  case False
  let ?body = "join_with '','' (map (member_text quoted) ms) @ ''}''"
  have "\<exists>s. ?body = CHR 0x22 # s" using members_text_head [OF False] .
  then have start: "\<not> starts_with (dropWhile json_ws ?body) ''}''" by (auto simp: json_ws_def)
  have "map fst (map (apsnd read_int) ms) = map fst ms" by simp
  then have all: "foldl (\<lambda>m (k, v). jm_set k v m) [] (map (apsnd read_int) ms) = map (apsnd read_int) ms"
    using foldl_jm_set [of "[]" "map (apsnd read_int) ms"] assms(2) by (simp del: map_map)
  have "json_value (CHR ''{'' # ?body) = Some (JObj (map (apsnd read_int) ms), [])"
    using start json_members_shown [OF assms(1) False] all by (subst json_value.simps) (simp add: json_ws_def)
  then show ?thesis unfolding parseJsonLossless_def patch_object [OF assms(1)] json_parse_def by (simp add: object_text_def)
qed

section \<open>Arrays are not\<close>

text \<open>What the pre-pass makes of the elements: a long literal takes the comma behind it into its match,
  so the next literal has no opening left and is passed over.\<close>

fun shield :: "int list \<Rightarrow> (int \<times> bool) list" where
  "shield [] = []"
| "shield (n # ns) = (n, True) # (if long_int n then (case ns of [] \<Rightarrow> [] | m # ms \<Rightarrow> (m, False) # shield ms) else shield ns)"

definition shown :: "int \<times> bool \<Rightarrow> string" where
  "shown nb = (if snd nb then quoted (fst nb) else int_str (fst nb))"

definition read_shown :: "int \<times> bool \<Rightarrow> js_value" where
  "read_shown nb = (if snd nb then read_int (fst nb) else JNum (js_round (of_int (fst nb))))"

definition rest_text :: "('a \<Rightarrow> string) \<Rightarrow> 'a list \<Rightarrow> string" where
  "rest_text show xs = concat (map (\<lambda>x. CHR '','' # show x) xs) @ '']''"

lemma rest_text_simps [simp]: "rest_text show [] = '']''" "rest_text show (x # xs) = CHR '','' # show x @ rest_text show xs"
  by (simp_all add: rest_text_def)

lemma rest_text_head: "\<exists>e r. rest_text show xs = e # r \<and> e \<in> {CHR ''}'', CHR '','', CHR '']''}"
  by (cases xs) simp_all

lemma array_text_rest: "array_text (map show (x # xs)) = CHR ''['' # show x @ rest_text show xs"
proof -
  have "join_with '','' (map show (x # xs)) @ '']'' = show x @ rest_text show xs"
    by (induction xs arbitrary: x) simp_all
  then show ?thesis by (simp add: array_text_def)
qed

lemma patch_items:
  assumes "c \<in> {CHR '':'', CHR '','', CHR ''[''}"
  shows "patch_large (c # int_str n @ rest_text int_str ns) = c # shown (n, True) @ rest_text shown (tl (shield (n # ns)))"
  using assms
proof (induction "n # ns" arbitrary: c n ns rule: shield.induct)
  case (2 n ns)
  obtain e r where er: "rest_text int_str ns = e # r" "e \<in> {CHR ''}'', CHR '','', CHR '']''}" using rest_text_head by blast
  note step = patch_at_int [OF 2(3) er(2), of n r, folded er(1)]
  show ?case
  proof (cases "long_int n")
    case True
    show ?thesis
    proof (cases ns)
      case Nil
      then show ?thesis using step True er(1) by (simp add: shown_def)
    next
      case (Cons m ms)
      have "patch_large (rest_text int_str ms) = rest_text shown (shield ms)"
      proof (cases ms)
        case (Cons l ls)
        then show ?thesis using 2(1) [OF True, of m l ls "CHR '',''"] \<open>ns = m # ms\<close> by (simp add: shown_def split: if_splits list.splits)
      qed (simp add: patch_other)
      then show ?thesis using step True er(1) Cons by (auto simp: shown_def patch_int_str)
    qed
  next
    case False
    have "patch_large (rest_text int_str ns) = rest_text shown (shield ns)"
    proof (cases ns)
      case (Cons m ms)
      then show ?thesis using 2(2) [OF False, of m ms "CHR '',''"] Cons by (simp add: shown_def split: if_splits list.splits)
    qed (simp add: patch_other)
    then show ?thesis using step False er(1) by (simp add: shown_def)
  qed
qed

lemma json_value_item:
  assumes "e \<in> {CHR ''}'', CHR '','', CHR '']''}"
  shows "json_value (shown nb @ e # r) = Some (read_shown nb, e # r)"
  using json_value_shown [OF assms] json_value_int [OF assms] by (simp add: shown_def read_shown_def)

lemma json_items_shown: "json_items (shown nb @ rest_text shown nbs) = Some (map read_shown (nb # nbs), [])"
proof (induction nbs arbitrary: nb)
  case Nil
  then show ?case using json_value_item [of "CHR '']''" nb "[]"] by (subst json_items.simps) (simp add: json_ws_def)
next
  case (Cons nb' nbs)
  then show ?case
    using json_value_item [of "CHR '',''" nb "shown nb' @ rest_text shown nbs"] by (subst json_items.simps) (simp add: json_ws_def)
qed

text \<open>In an array of integers a literal of sixteen digits or more hides the one behind it: that one is
  read as a double, rounded when it is too large, whatever the array.\<close>

theorem array_read_with_loss:
  "parseJsonLossless (array_text (map int_str ns)) = Some (JArr (map read_shown (shield ns)))"
proof (cases ns)
  case Nil
  then show ?thesis
    by (simp add: parseJsonLossless_def json_parse_def array_text_def patch_large.simps [of "''[]''"] patch_other match_large_def
        json_value.simps [of "''[]''"] json_ws_def is_digit_def is_space_def)
next
  case (Cons n ms)
  have patch: "patch_large (array_text (map int_str ns)) = CHR ''['' # shown (n, True) @ rest_text shown (tl (shield ns))"
    unfolding Cons array_text_rest by (rule patch_items) simp
  have all: "shield ns = (n, True) # tl (shield ns)" unfolding Cons by simp
  have "\<exists>c s. shown (n, True) @ rest_text shown (tl (shield ns)) = c # s \<and> (is_digit c \<or> c = CHR ''-'' \<or> c = CHR 0x22)"
    using int_str_head [of n "rest_text shown (tl (shield ns))"] by (cases "\<bar>n\<bar> \<le> MAX_SAFE") (auto simp: shown_def quoted_def)
  then obtain c s where c: "shown (n, True) @ rest_text shown (tl (shield ns)) = c # s" "is_digit c \<or> c = CHR ''-'' \<or> c = CHR 0x22"
    by blast
  have "\<not> json_ws c" "c \<noteq> CHR '']''" using c(2) by (auto simp: is_digit_def json_ws_def)
  then have "json_value (CHR ''['' # c # s) = map_option (apfst JArr) (json_items (c # s))"
    by (subst json_value.simps) (simp add: json_ws_def)
  then show ?thesis
    unfolding parseJsonLossless_def patch json_parse_def using json_items_shown [of "(n, True)" "tl (shield ns)"] all
    by (simp add: c(1))
qed

section \<open>Back to numbers\<close>

lemma large_stays_large:
  assumes "MAX_SAFE < n" "js_round (of_int n) = Fin r"
  shows "of_int MAX_SAFE < r"
proof -
  have "js_round (of_int (2 ^ 53)) = Fin (of_int (2 ^ 53))" by (rule js_round_safe) simp
  then have "of_int (2 ^ 53) \<le> r"
    by (rule js_round_mono [OF _ _ _ assms(2), rotated -1]) (use assms(1) in \<open>simp_all add: MAX_SAFE_def\<close>)
  then show ?thesis by (simp add: MAX_SAFE_def)
qed

lemma safe_integer_round: "is_safe_integer (js_round (of_int n)) \<longleftrightarrow> \<bar>n\<bar> \<le> MAX_SAFE"
proof (cases "\<bar>n\<bar> \<le> MAX_SAFE")
  case True
  then have "js_round (of_int n) = Fin (of_int n)" by (intro js_round_safe) (simp add: MAX_SAFE_def)
  then show ?thesis using True by (simp add: is_safe_integer_def jn_is_integer_def flip: of_int_abs)
next
  case False
  have large: "\<not> is_safe_integer (js_round (of_int m))" if "MAX_SAFE < m" for m
    using large_stays_large [OF that] by (auto simp: is_safe_integer_def split: js_number.splits)
  have neg: "is_safe_integer (jn_neg x) = is_safe_integer x" for x
    by (cases x) (auto simp: is_safe_integer_def jn_is_integer_def floor_minus split: if_splits)
  show ?thesis
  proof (cases "0 \<le> n")
    case True
    then show ?thesis using large [of n] False by simp
  next
    case n: False
    then have "\<not> is_safe_integer (js_round (of_int (- n)))" using False by (intro large) simp
    then have "\<not> is_safe_integer (js_round (of_int n))" using js_round_minus [of "of_int n"] neg by simp
    then show ?thesis using False by simp
  qed
qed

lemma long_integer_int_str: "long_integer (int_str n) \<longleftrightarrow> long_int n"
  using nat_digits_starts(1) [of "nat n" "[]"] by (auto simp: long_integer_def long_int_def int_str_def nat_digits_all)

text \<open>The walk back turns the decimal text of an integer into the number exactly when it is long and a
  double holds it; so whatever the pre-pass quoted stays a string.\<close>

theorem walk_back_is_exact:
  "normalizeIntStrings (JStr (int_str n)) =
     (if long_int n \<and> \<bar>n\<bar> \<le> MAX_SAFE then JNum (Fin (of_int n)) else JStr (int_str n))"
  using js_round_safe [of n] by (auto simp: long_integer_int_str string_to_number_int safe_integer_round MAX_SAFE_def)

theorem walk_back_idempotent: "normalizeIntStrings (normalizeIntStrings v) = normalizeIntStrings v"
  by (induction v) auto

section \<open>Examples\<close>

text \<open>A text that quotes a long literal is rewritten inside the quotes, and is no JSON any more.\<close>

theorem string_content_rewritten:
  assumes "\<not> \<bar>n\<bar> \<le> MAX_SAFE"
  shows "json_parse (''['' @ CHR 0x22 # ''id,'' @ int_str n @ '',ok'' @ CHR 0x22 # '']'') = Some (JArr [JStr (''id,'' @ int_str n @ '',ok'')])"
    and "parseJsonLossless (''['' @ CHR 0x22 # ''id,'' @ int_str n @ '',ok'' @ CHR 0x22 # '']'') = None"
proof -
  let ?s = "''id,'' @ int_str n @ '',ok''"
  have "unescaped ?s" using plain_unescaped [OF int_str_plain] by (simp add: unescaped_def)
  then have c: "json_chars (?s @ CHR 0x22 # '']'') = Some (?s, '']'')" by (rule json_chars_unescaped)
  have v: "json_value (CHR 0x22 # ?s @ CHR 0x22 # '']'') = Some (JStr ?s, '']'')"
    using c by (subst json_value.simps) (simp add: json_ws_def)
  have i: "json_items (CHR 0x22 # ?s @ CHR 0x22 # '']'') = Some ([JStr ?s], [])"
    by (subst json_items.simps) (simp only: v, simp add: json_ws_def)
  have "json_value (''['' @ CHR 0x22 # ?s @ CHR 0x22 # '']'') = Some (JArr [JStr ?s], [])"
    using i by (subst json_value.simps) (simp add: json_ws_def)
  then show "json_parse (''['' @ CHR 0x22 # ''id,'' @ int_str n @ '',ok'' @ CHR 0x22 # '']'') = Some (JArr [JStr ?s])"
    by (simp add: json_parse_def)
  let ?t = "CHR '','' # ''ok'' @ CHR 0x22 # '']''"
  have m: "match_large (CHR ''['' # CHR 0x22 # r) = None" for r by (simp add: match_large_def Let_def is_space_def is_digit_def)
  have q: "quoted n = CHR 0x22 # int_str n @ [CHR 0x22]" using assms by (simp add: quoted_def)
  have "patch_large (CHR '','' # int_str n @ ?t) = CHR '','' # quoted n @ CHR '','' # patch_large (''ok'' @ CHR 0x22 # '']'')"
    using patch_at_int [of "CHR '',''" "CHR '',''" n] large_is_long [OF assms] by simp
  then have p: "patch_large (''['' @ CHR 0x22 # ''id,'' @ int_str n @ '',ok'' @ CHR 0x22 # '']'')
      = ''['' @ CHR 0x22 # ''id,'' @ CHR 0x22 # int_str n @ CHR 0x22 # '',ok'' @ CHR 0x22 # '']''"
    by (simp add: patch_large.simps [of "CHR ''['' # _"] m patch_other q)
  let ?w = "int_str n @ CHR 0x22 # '',ok'' @ CHR 0x22 # '']''"
  have c': "json_chars (''id,'' @ CHR 0x22 # ?w) = Some (''id,'', ?w)" by (rule json_chars_unescaped) (simp add: unescaped_def)
  have v': "json_value (CHR 0x22 # ''id,'' @ CHR 0x22 # ?w) = Some (JStr ''id,'', ?w)"
    using c' by (subst json_value.simps) (simp add: json_ws_def)
  obtain d x where d: "?w = d # x" "is_digit d \<or> d = CHR ''-''" using int_str_head by blast
  have dn: "\<not> json_ws d" "d \<noteq> CHR '',''" "d \<noteq> CHR '']''" using d(2) by (auto simp: is_digit_def json_ws_def)
  then have "dropWhile json_ws ?w = d # x" unfolding d(1) by simp
  then have "json_items (CHR 0x22 # ''id,'' @ CHR 0x22 # ?w) = None"
    by (subst json_items.simps) (simp only: v' option.case prod.case list.case dn simp_thms if_False)
  then have "json_value (''['' @ CHR 0x22 # ''id,'' @ CHR 0x22 # ?w) = None"
    by (subst json_value.simps) (simp add: json_ws_def)
  then show "parseJsonLossless (''['' @ CHR 0x22 # ''id,'' @ int_str n @ '',ok'' @ CHR 0x22 # '']'') = None"
    unfolding parseJsonLossless_def p by (simp add: json_parse_def)
qed


lemma object_read_without_loss_witness:
  "parseJsonLossless (object_text int_str [(''orderId'', 9007199254740993), (''count'', 5)])
     = Some (JObj [(''orderId'', JStr (int_str 9007199254740993)), (''count'', JNum (Fin 5))])"
  using object_read_without_loss [of "[(''orderId'', 9007199254740993), (''count'', 5)]"]
  by (simp add: plain_def read_int_def MAX_SAFE_def)

text \<open>Two neighbours that no double holds: the first is kept as text, the second is read as another number.\<close>

lemma array_neighbour_rounded:
  "parseJsonLossless (array_text (map int_str [10000000000000001, 10000000000000003]))
     = Some (JArr [JStr (int_str 10000000000000001), JNum (Fin 10000000000000004)])"
proof -
  have l: "long_int 10000000000000001" by (rule large_is_long) (simp add: MAX_SAFE_def)
  have "js_round 10000000000000003 = Fin 10000000000000004" by code_simp
  then show ?thesis
    unfolding array_read_with_loss by (simp add: l read_shown_def read_int_def MAX_SAFE_def)
qed

end
