(* ===== verification/Event_Bus.thy ===== *)
theory Event_Bus
  imports JS_Value
begin

text \<open>
  \<open>src/core/events.ts\<close>: the tree of event buses. Buses are numbered in the order of their creation, the
  root first; a bus knows its parent, its children by scope and its registry. A listener is a number;
  the wrapper that \<open>once\<close> makes is a listener of its own, numbered by the caller. Listeners record what
  they are given, in the trace that \<open>emit\<close> returns; one that throws is swallowed by the code and changes
  nothing here. Lemmas: which listener hears what, the numbering of events, the history, and the
  severity of the forwarded ones.
\<close>

record sdk_event =
  ev_ts :: int
  ev_seq :: nat
  ev_scope :: string
  ev_name :: string
  ev_payload :: "(string \<times> js_value) list"

text \<open>\<open>OnceL w l\<close> is the wrapper \<open>w\<close> around \<open>l\<close>.\<close>

datatype listener = Listener nat | OnceL nat nat

record bus =
  bu_scope :: string
  bu_parent :: "nat option"
  bu_children :: "(string, nat) jsmap"
  bu_exact :: "(string, listener list) jsmap"
  bu_prefix :: "(string, listener list) jsmap"
  bu_wildcard :: "listener list"
  bu_history :: "sdk_event list"
  bu_seq :: nat
  bu_historySize :: int

type_synonym bus_tree = "bus list"

definition new_EventBus :: "string \<Rightarrow> nat option \<Rightarrow> int \<Rightarrow> bus" where
  "new_EventBus scope parent historySize =
     \<lparr>bu_scope = scope, bu_parent = parent, bu_children = [], bu_exact = [], bu_prefix = [], bu_wildcard = [],
      bu_history = [], bu_seq = 0, bu_historySize = historySize\<rparr>"

section \<open>Subscribing\<close>

definition set_add :: "'a \<Rightarrow> 'a list \<Rightarrow> 'a list" where
  "set_add x xs = (if x \<in> set xs then xs else xs @ [x])"

definition ends_with_dot :: "string \<Rightarrow> bool" where
  "ends_with_dot f \<longleftrightarrow> f \<noteq> [] \<and> last f = CHR ''.''"

definition entries :: "string \<Rightarrow> (string, listener list) jsmap \<Rightarrow> listener list" where
  "entries f m = (case jm_get f m of None \<Rightarrow> [] | Some ls \<Rightarrow> ls)"

definition on_bus :: "string \<Rightarrow> listener \<Rightarrow> bus \<Rightarrow> bus" where
  "on_bus f l b =
     (if f = ''*'' \<or> f = [] then b\<lparr>bu_wildcard := set_add l (bu_wildcard b)\<rparr>
      else if ends_with_dot f then b\<lparr>bu_prefix := jm_set f (set_add l (entries f (bu_prefix b))) (bu_prefix b)\<rparr>
      else b\<lparr>bu_exact := jm_set f (set_add l (entries f (bu_exact b))) (bu_exact b)\<rparr>)"

definition drop_entry :: "string \<Rightarrow> listener \<Rightarrow> (string, listener list) jsmap \<Rightarrow> (string, listener list) jsmap" where
  "drop_entry f l m = (case jm_get f m of None \<Rightarrow> m | Some ls \<Rightarrow> jm_set f (removeAll l ls) m)"

definition off_bus :: "string \<Rightarrow> listener \<Rightarrow> bus \<Rightarrow> bus" where
  "off_bus f l b =
     (if f = ''*'' \<or> f = [] then b\<lparr>bu_wildcard := removeAll l (bu_wildcard b)\<rparr>
      else if ends_with_dot f then b\<lparr>bu_prefix := drop_entry f l (bu_prefix b)\<rparr>
      else b\<lparr>bu_exact := drop_entry f l (bu_exact b)\<rparr>)"

section \<open>Publishing\<close>

text \<open>What one bus delivers of an event, in order, with the filter each listener was found under.\<close>

definition matching :: "string \<Rightarrow> bus \<Rightarrow> (string \<times> listener) list" where
  "matching name b =
     map (Pair name) (entries name (bu_exact b)) @
     concat (map (\<lambda>(p, ls). if starts_with name p then map (Pair p) ls else []) (bu_prefix b)) @
     map (Pair ''*'') (bu_wildcard b)"

definition inner :: "listener \<Rightarrow> nat" where
  "inner l = (case l of Listener n \<Rightarrow> n | OnceL w n \<Rightarrow> n)"

text \<open>A wrapper takes itself off before it passes the event on.\<close>

definition deliver_to :: "bus \<Rightarrow> (string \<times> listener) list \<Rightarrow> bus" where
  "deliver_to b found = foldl (\<lambda>b (f, l). case l of Listener n \<Rightarrow> b | OnceL w n \<Rightarrow> off_bus f l b) b found"

text \<open>The bus and its ancestors. Parents are older than their children, which the test makes visible.\<close>

function publish :: "nat \<Rightarrow> sdk_event \<Rightarrow> bus_tree \<Rightarrow> bus_tree \<times> (nat \<times> sdk_event) list" where
  "publish i e t =
     (let found = matching (ev_name e) (t ! i); t1 = t[i := deliver_to (t ! i) found];
          heard = map (\<lambda>(f, l). (inner l, e)) found
      in case bu_parent (t ! i) of
           None \<Rightarrow> (t1, heard)
         | Some p \<Rightarrow> if p < i then (case publish p e t1 of (t2, later) \<Rightarrow> (t2, heard @ later)) else (t1, heard))"
  by pat_completeness auto
termination
  by (relation "measure fst") simp_all

declare publish.simps [simp del]

definition root_of :: "nat \<Rightarrow> bus_tree \<Rightarrow> nat" where
  "root_of i t = (case bu_parent (t ! i) of None \<Rightarrow> i | Some p \<Rightarrow> p)"

definition push_history :: "int \<Rightarrow> sdk_event list \<Rightarrow> sdk_event \<Rightarrow> sdk_event list" where
  "push_history n h e = (if 0 < n then (let h' = h @ [e] in if n < int (length h') then tl h' else h') else h)"

definition new_event :: "nat \<Rightarrow> int \<Rightarrow> string \<Rightarrow> (string \<times> js_value) list \<Rightarrow> bus_tree \<Rightarrow> sdk_event" where
  "new_event i now name payload t =
     \<lparr>ev_ts = now, ev_seq = Suc (bu_seq (t ! root_of i t)), ev_scope = bu_scope (t ! i), ev_name = name, ev_payload = payload\<rparr>"

definition emit :: "nat \<Rightarrow> int \<Rightarrow> string \<Rightarrow> (string \<times> js_value) list \<Rightarrow> bus_tree \<Rightarrow> bus_tree \<times> (nat \<times> sdk_event) list" where
  "emit i now name payload t =
     (let r = root_of i t; root = t ! r; e = new_event i now name payload t
      in publish i e
           (t[r := root\<lparr>bu_seq := ev_seq e, bu_history := push_history (bu_historySize root) (bu_history root) e\<rparr>]))"

section \<open>Scopes and history\<close>

definition scoped :: "string \<Rightarrow> nat \<Rightarrow> bus_tree \<Rightarrow> nat \<times> bus_tree" where
  "scoped scope i t =
     (case jm_get scope (bu_children (t ! i)) of
        Some c \<Rightarrow> (c, t)
      | None \<Rightarrow>
          (length t, t[i := (t ! i)\<lparr>bu_children := jm_set scope (length t) (bu_children (t ! i))\<rparr>]
             @ [new_EventBus scope (Some i) (bu_historySize (t ! i))]))"

definition history :: "nat \<Rightarrow> bus_tree \<Rightarrow> sdk_event list" where
  "history i t = bu_history (t ! root_of i t)"

definition clearHistory :: "nat \<Rightarrow> bus_tree \<Rightarrow> bus_tree" where
  "clearHistory i t = (let r = root_of i t in t[r := (t ! r)\<lparr>bu_history := []\<rparr>])"

section \<open>Forwarding to a logger\<close>

datatype severity = LogInfo | LogWarn | LogError

definition event_tail :: "string \<Rightarrow> string" where
  "event_tail name = rev (takeWhile (\<lambda>c. c \<noteq> CHR ''.'') (rev name))"

definition severity_of :: "string \<Rightarrow> severity" where
  "severity_of name =
     (let t = event_tail name
      in if t \<in> {''error'', ''denied'', ''failed''} then LogError
         else if t \<in> {''warn'', ''reconnecting'', ''stale'', ''desync''} then LogWarn else LogInfo)"

definition log_line :: "sdk_event \<Rightarrow> severity \<times> string" where
  "log_line e = (severity_of (ev_name e), ''[binance-sdk] '' @ ev_scope e @ '' '' @ ev_name e)"

section \<open>A registry is a set of subscriptions\<close>

definition norm_filter :: "string \<Rightarrow> string" where
  "norm_filter f = (if f = [] then ''*'' else f)"

definition filter_matches :: "string \<Rightarrow> string \<Rightarrow> bool" where
  "filter_matches f name \<longleftrightarrow> f = ''*'' \<or> f \<noteq> [] \<and> (if ends_with_dot f then starts_with name f else f = name)"

definition subs :: "bus \<Rightarrow> (string \<times> listener) set" where
  "subs b = Pair ''*'' ` set (bu_wildcard b) \<union> {(f, l). l \<in> set (entries f (bu_prefix b))} \<union> {(f, l). l \<in> set (entries f (bu_exact b))}"

definition registry_ok :: "(string \<Rightarrow> bool) \<Rightarrow> (string, listener list) jsmap \<Rightarrow> bool" where
  "registry_ok P m \<longleftrightarrow> jm_ok m \<and> (\<forall>f. entries f m \<noteq> [] \<longrightarrow> P f) \<and> (\<forall>f. distinct (entries f m))"

definition exact_name :: "string \<Rightarrow> bool" where
  "exact_name f \<longleftrightarrow> f \<noteq> [] \<and> f \<noteq> ''*'' \<and> \<not> ends_with_dot f"

definition bus_ok :: "bus \<Rightarrow> bool" where
  "bus_ok b \<longleftrightarrow> distinct (bu_wildcard b) \<and> registry_ok ends_with_dot (bu_prefix b) \<and> registry_ok exact_name (bu_exact b)"

lemma star_no_dot [simp]: "\<not> ends_with_dot ''*''" "\<not> ends_with_dot []"
  by (simp_all add: ends_with_dot_def)

lemma entries_set [simp]: "entries f (jm_set g v m) = (if f = g then v else entries f m)"
  by (simp add: entries_def jm.get_put)

lemma entries_drop [simp]: "entries f (drop_entry g l m) = (if f = g then removeAll l (entries f m) else entries f m)"
  by (auto simp: drop_entry_def entries_def jm.get_put split: option.split)

lemma set_set_add [simp]: "set (set_add x xs) = insert x (set xs)" "distinct xs \<Longrightarrow> distinct (set_add x xs)"
  by (auto simp: set_add_def)

lemma jm_ok_drop [simp]: "jm_ok m \<Longrightarrow> jm_ok (drop_entry f l m)"
  by (simp add: drop_entry_def jm.ok_put split: option.split)

lemma registry_ok_add: "registry_ok P m \<Longrightarrow> P f \<Longrightarrow> registry_ok P (jm_set f (set_add l (entries f m)) m)"
  by (auto simp: registry_ok_def jm.ok_put)

lemma registry_ok_drop: "registry_ok P m \<Longrightarrow> registry_ok P (drop_entry f l m)"
  unfolding registry_ok_def
proof (intro conjI allI impI)
  fix g assume m: "jm_ok m \<and> (\<forall>f. entries f m \<noteq> [] \<longrightarrow> P f) \<and> (\<forall>f. distinct (entries f m))"
  show "jm_ok (drop_entry f l m)" "distinct (entries g (drop_entry f l m))" using m by (simp_all add: distinct_removeAll)
  show "P g" if "entries g (drop_entry f l m) \<noteq> []"
    using m that by (cases "entries g m = []") (auto split: if_splits)
qed

lemma new_bus_ok [simp]: "bus_ok (new_EventBus s p n)" "subs (new_EventBus s p n) = {}"
  by (auto simp: bus_ok_def registry_ok_def new_EventBus_def subs_def entries_def jm_get_def jm_ok_def)

lemma on_bus_ok: "bus_ok b \<Longrightarrow> bus_ok (on_bus f l b)"
  by (auto simp: bus_ok_def on_bus_def exact_name_def intro: registry_ok_add)

lemma off_bus_ok: "bus_ok b \<Longrightarrow> bus_ok (off_bus f l b)"
  by (auto simp: bus_ok_def off_bus_def distinct_removeAll intro: registry_ok_drop)

lemma subs_on: "subs (on_bus f l b) = insert (norm_filter f, l) (subs b)"
  by (auto simp: subs_def on_bus_def norm_filter_def split: if_splits)

lemma registry_empty: "registry_ok P m \<Longrightarrow> \<not> P f \<Longrightarrow> entries f m = []"
  by (auto simp: registry_ok_def)

lemma subs_off:
  assumes "bus_ok b"
  shows "subs (off_bus f l b) = subs b - {(norm_filter f, l)}"
proof -
  have e: "entries ''*'' (bu_prefix b) = []" "entries ''*'' (bu_exact b) = []"
      "ends_with_dot f \<Longrightarrow> entries f (bu_exact b) = []" "\<not> ends_with_dot f \<Longrightarrow> entries f (bu_prefix b) = []"
    using assms by (auto simp: bus_ok_def exact_name_def intro: registry_empty)
  show ?thesis using e by (auto simp: subs_def off_bus_def norm_filter_def split: if_splits)
qed

lemma prefix_found:
  assumes "jm_ok m"
  shows "set (concat (map (\<lambda>(p, ls). if starts_with name p then map (Pair p) ls else []) m))
    = {(f, l). l \<in> set (entries f m) \<and> starts_with name f}" (is "set (concat (map ?g m)) = _")
proof -
  have "l \<in> set (entries f m) \<longleftrightarrow> (\<exists>ls. (f, ls) \<in> set m \<and> l \<in> set ls)" for f l
  proof (cases "map_of m f")
    case None
    then have "f \<notin> fst ` set m" by (simp add: map_of_eq_None_iff)
    then show ?thesis using None by (force simp: entries_def jm_get_def)
  next
    case (Some ls)
    then have "(f, ls') \<in> set m \<longleftrightarrow> ls' = ls" for ls'
      using assms by (metis jm_ok_def map_of_SomeD map_of_is_SomeI option.inject)
    then show ?thesis using Some by (simp add: entries_def jm_get_def)
  qed
  then have "{(f, l). l \<in> set (entries f m) \<and> starts_with name f}
      = (\<Union>(p, ls) \<in> set m. if starts_with name p then Pair p ` set ls else {})"
    by (auto split: if_splits)
  moreover have "set (concat (map ?g m)) = (\<Union>(p, ls) \<in> set m. if starts_with name p then Pair p ` set ls else {})"
    by (simp add: split_beta if_distrib [of set] cong: if_cong)
  ultimately show ?thesis by simp
qed

lemma prefix_distinct:
  assumes "jm_ok m" "\<forall>f. distinct (entries f m)"
  shows "distinct (concat (map (\<lambda>(p, ls). if starts_with name p then map (Pair p) ls else []) m))"
  using assms
proof (induction m)
  case (Cons kv m)
  obtain p ls where kv: "kv = (p, ls)" by (cases kv)
  have p: "p \<notin> fst ` set m" "jm_ok m" using Cons.prems(1) by (auto simp: kv jm_ok_def)
  have "entries f m = (if f = p then [] else entries f (kv # m))" for f
    using p(1) by (auto simp: kv entries_def jm_get_def split: option.split dest: map_of_SomeD) (force dest: map_of_SomeD)
  then have "\<forall>f. distinct (entries f m)" using Cons.prems(2) by auto
  note IH = Cons.IH [OF p(2) this]
  have "distinct ls" using Cons.prems(2) by (auto simp: kv entries_def jm_get_def dest: spec [of _ p])
  then show ?case using IH p(1) by (auto simp: kv distinct_map inj_on_def split: if_splits) force+
qed simp

lemma matching_found:
  assumes "bus_ok b"
  shows "set (matching name b) = {(f, l) \<in> subs b. filter_matches f name}" and "distinct (matching name b)"
proof -
  have ok: "registry_ok ends_with_dot (bu_prefix b)" "registry_ok exact_name (bu_exact b)" "distinct (bu_wildcard b)"
    using assms by (simp_all add: bus_ok_def)
  note pf = prefix_found [of "bu_prefix b" name]
  have jm: "jm_ok (bu_prefix b)" "\<forall>f. distinct (entries f (bu_prefix b))" "distinct (entries name (bu_exact b))"
    using ok(1,2) by (simp_all add: registry_ok_def)
  have dot: "l \<in> set (entries f (bu_prefix b)) \<Longrightarrow> ends_with_dot f" for f l using registry_empty [OF ok(1), of f] by fastforce
  have ex: "l \<in> set (entries f (bu_exact b)) \<Longrightarrow> exact_name f" for f l using registry_empty [OF ok(2), of f] by fastforce
  have star: "entries ''*'' (bu_prefix b) = []" "entries ''*'' (bu_exact b) = []"
    using ok(1,2) by (auto simp: exact_name_def intro: registry_empty)
  show "set (matching name b) = {(f, l) \<in> subs b. filter_matches f name}"
    using dot ex star
    unfolding matching_def set_append pf [OF jm(1)]
    by (auto simp: subs_def filter_matches_def exact_name_def) (auto simp: ends_with_dot_def)
  show "distinct (matching name b)"
    unfolding matching_def distinct_append pf [OF jm(1)] set_append
    using jm(3) ok(3) prefix_distinct [OF jm(1,2), of name] dot ex star
    by (auto simp: distinct_map inj_on_def exact_name_def)
qed

datatype sub_op = SubOn string listener | SubOff string listener

primrec sub_step :: "bus \<Rightarrow> sub_op \<Rightarrow> bus" where
  "sub_step b (SubOn f l) = on_bus f l b"
| "sub_step b (SubOff f l) = off_bus f l b"

primrec sub_spec :: "(string \<times> listener) set \<Rightarrow> sub_op \<Rightarrow> (string \<times> listener) set" where
  "sub_spec S (SubOn f l) = insert (norm_filter f, l) S"
| "sub_spec S (SubOff f l) = S - {(norm_filter f, l)}"

lemma sub_steps: "bus_ok b \<Longrightarrow> bus_ok (foldl sub_step b ops) \<and> subs (foldl sub_step b ops) = foldl sub_spec (subs b) ops"
proof (induction ops arbitrary: b)
  case (Cons op ops)
  have "bus_ok (sub_step b op) \<and> subs (sub_step b op) = sub_spec (subs b) op"
    using Cons.prems by (cases op) (simp_all add: on_bus_ok off_bus_ok subs_on subs_off)
  then show ?case using Cons.IH [of "sub_step b op"] by simp
qed simp

text \<open>C40: after any subscriptions and cancellations, a bus delivers an event exactly once per subscription that
  is in force and whose filter matches its name: a registry behaves as the set of its subscriptions.\<close>

theorem subscriptions_refine_set:
  "set (matching name (foldl sub_step (new_EventBus scope parent n) ops)) = {(f, l) \<in> foldl sub_spec {} ops. filter_matches f name} \<and>
   distinct (matching name (foldl sub_step (new_EventBus scope parent n) ops))"
  using sub_steps [of "new_EventBus scope parent n" ops] matching_found [of "foldl sub_step (new_EventBus scope parent n) ops" name]
  by simp

lemma deliver_once:
  "bus_ok b \<Longrightarrow> \<forall>(f, l) \<in> set found. f \<noteq> [] \<Longrightarrow>
   bus_ok (deliver_to b found) \<and> subs (deliver_to b found) = subs b - {(f, l) \<in> set found. \<exists>w n. l = OnceL w n}"
proof (induction found arbitrary: b)
  case (Cons fl found)
  obtain f l where fl: "fl = (f, l)" by (cases fl)
  show ?case
  proof (cases l)
    case (Listener n)
    then show ?thesis using Cons by (auto simp: deliver_to_def fl)
  next
    case (OnceL w n)
    have "f \<noteq> []" using Cons.prems(2) fl by simp
    then show ?thesis
      using Cons.IH [of "off_bus f l b"] Cons.prems OnceL by (auto simp: deliver_to_def fl off_bus_ok subs_off norm_filter_def)
  qed
qed (simp add: deliver_to_def)

section \<open>Numbering and history\<close>

lemma off_bus_fields [simp]:
  "bu_parent (off_bus f l b) = bu_parent b" "bu_seq (off_bus f l b) = bu_seq b" "bu_history (off_bus f l b) = bu_history b"
  "bu_historySize (off_bus f l b) = bu_historySize b" "bu_scope (off_bus f l b) = bu_scope b" "bu_children (off_bus f l b) = bu_children b"
  by (simp_all add: off_bus_def)

lemma on_bus_fields [simp]:
  "bu_parent (on_bus f l b) = bu_parent b" "bu_seq (on_bus f l b) = bu_seq b" "bu_history (on_bus f l b) = bu_history b"
  "bu_historySize (on_bus f l b) = bu_historySize b"
  by (simp_all add: on_bus_def)

lemma deliver_fields [simp]:
  "bu_parent (deliver_to b found) = bu_parent b" "bu_seq (deliver_to b found) = bu_seq b"
  "bu_history (deliver_to b found) = bu_history b" "bu_historySize (deliver_to b found) = bu_historySize b"
  unfolding deliver_to_def by (induction found arbitrary: b) (auto split: listener.splits)

definition same_core :: "bus \<Rightarrow> bus \<Rightarrow> bool" where
  "same_core a b \<longleftrightarrow> bu_parent a = bu_parent b \<and> bu_seq a = bu_seq b \<and> bu_history a = bu_history b \<and> bu_historySize a = bu_historySize b"

lemma publish_core:
  "publish i e t = (t', heard) \<Longrightarrow> length t' = length t \<and> list_all2 same_core t' t"
proof (induction i e t arbitrary: t' heard rule: publish.induct)
  case (1 i e t)
  let ?t1 = "t[i := deliver_to (t ! i) (matching (ev_name e) (t ! i))]"
  have one: "list_all2 same_core ?t1 t"
    by (cases "i < length t") (auto simp: list_all2_conv_all_nth same_core_def nth_list_update list_update_beyond)
  show ?case
  proof (cases "bu_parent (t ! i)")
    case None
    then show ?thesis using "1.prems" one by (auto simp: publish.simps [of i] Let_def)
  next
    case (Some p)
    show ?thesis
    proof (cases "p < i")
      case True
      obtain t2 later where p: "publish p e ?t1 = (t2, later)" by (cases "publish p e ?t1")
      then have "t' = t2" using "1.prems" Some True by (simp add: publish.simps [of i] Let_def)
      moreover have "length t2 = length ?t1 \<and> list_all2 same_core t2 ?t1" using "1.IH" [OF refl refl refl Some True p] .
      moreover have "same_core a c" if "same_core a b" "same_core b c" for a b c using that by (simp add: same_core_def)
      ultimately show ?thesis using one list_all2_trans [of same_core same_core same_core t2 ?t1 t] by auto
    next
      case False
      then show ?thesis using "1.prems" Some one by (auto simp: publish.simps [of i] Let_def)
    qed
  qed
qed

lemma publish_event: "publish i e t = (t', heard) \<Longrightarrow> (l, e') \<in> set heard \<Longrightarrow> e' = e"
proof (induction i e t arbitrary: t' heard rule: publish.induct)
  case (1 i e t)
  let ?t1 = "t[i := deliver_to (t ! i) (matching (ev_name e) (t ! i))]"
  show ?case
  proof (cases "\<exists>p. bu_parent (t ! i) = Some p \<and> p < i")
    case True
    then obtain p where p: "bu_parent (t ! i) = Some p" "p < i" by blast
    obtain t2 later where r: "publish p e ?t1 = (t2, later)" by (cases "publish p e ?t1")
    have "(l, e') \<in> set later \<or> e' = e" using "1.prems" p r by (auto simp: publish.simps [of i] Let_def)
    then show ?thesis using "1.IH" [OF refl refl refl p r] by blast
  next
    case False
    then show ?thesis using "1.prems" by (auto simp: publish.simps [of i] Let_def split: option.splits)
  qed
qed

text \<open>A root with its direct children.\<close>

definition flat_tree :: "bus_tree \<Rightarrow> bool" where
  "flat_tree t \<longleftrightarrow> t \<noteq> [] \<and> (\<forall>i < length t. bu_parent (t ! i) = (if i = 0 then None else Some 0))"

datatype bus_op =
    OnOp nat string listener
  | OffOp nat string listener
  | EmitOp nat int string "(string \<times> js_value) list"
  | ScopedOp string nat

definition bus_apply :: "bus_op \<Rightarrow> bus_tree \<Rightarrow> bus_tree \<times> (nat \<times> sdk_event) list" where
  "bus_apply op t = (case op of
     OnOp i f l \<Rightarrow> (t[i := on_bus f l (t ! i)], [])
   | OffOp i f l \<Rightarrow> (t[i := off_bus f l (t ! i)], [])
   | EmitOp i now name payload \<Rightarrow> emit i now name payload t
   | ScopedOp scope i \<Rightarrow> (snd (scoped scope i t), []))"

text \<open>The operations refer to buses that exist, and scopes are taken of the root only.\<close>

fun flat_ops :: "bus_op list \<Rightarrow> bus_tree \<Rightarrow> bool" where
  "flat_ops [] t = True"
| "flat_ops (op # ops) t =
     ((case op of OnOp i f l \<Rightarrow> i < length t | OffOp i f l \<Rightarrow> i < length t | EmitOp i now name payload \<Rightarrow> i < length t
        | ScopedOp scope i \<Rightarrow> i = 0) \<and> flat_ops ops (fst (bus_apply op t)))"

text \<open>The events that a run publishes, and what its listeners hear.\<close>

fun run_events :: "bus_op list \<Rightarrow> bus_tree \<Rightarrow> sdk_event list" where
  "run_events [] t = []"
| "run_events (op # ops) t =
     (case op of EmitOp i now name payload \<Rightarrow> [new_event i now name payload t] | _ \<Rightarrow> []) @ run_events ops (fst (bus_apply op t))"

fun run_heard :: "bus_op list \<Rightarrow> bus_tree \<Rightarrow> (nat \<times> sdk_event) list" where
  "run_heard [] t = []"
| "run_heard (op # ops) t = snd (bus_apply op t) @ run_heard ops (fst (bus_apply op t))"

definition run_tree :: "bus_op list \<Rightarrow> bus_tree \<Rightarrow> bus_tree" where
  "run_tree ops t = foldl (\<lambda>t op. fst (bus_apply op t)) t ops"

interpretation history: capped_buffer n "push_history (int n)" for n
proof unfold_locales
  fix xs :: "sdk_event list" and e assume a: "length xs \<le> n"
  show "push_history (int n) xs e = drop (length xs + 1 - n) (xs @ [e])"
  proof (cases "n = 0")
    case True
    then show ?thesis using a by (simp add: push_history_def)
  next
    case False
    then show ?thesis using a by (cases "length xs = n") (simp_all add: push_history_def Let_def drop_Suc Suc_diff_le del: drop_append tl_append2)
  qed
qed

lemma emit_core:
  assumes "flat_tree t" "i < length t"
  shows "flat_tree (fst (emit i now name payload t))" "bu_seq (fst (emit i now name payload t) ! 0) = Suc (bu_seq (t ! 0))"
    "bu_history (fst (emit i now name payload t) ! 0) = push_history (bu_historySize (t ! 0)) (bu_history (t ! 0)) (new_event i now name payload t)"
    "bu_historySize (fst (emit i now name payload t) ! 0) = bu_historySize (t ! 0)"
    "ev_seq (new_event i now name payload t) = Suc (bu_seq (t ! 0))"
    "length (fst (emit i now name payload t)) = length t"
    "(l, e) \<in> set (snd (emit i now name payload t)) \<Longrightarrow> e = new_event i now name payload t"
proof -
  have r: "root_of i t = 0" using assms by (auto simp: root_of_def flat_tree_def)
  let ?e = "new_event i now name payload t"
  show seq: "ev_seq ?e = Suc (bu_seq (t ! 0))" by (simp add: new_event_def r)
  let ?t1 = "t[0 := (t ! 0)\<lparr>bu_seq := ev_seq ?e, bu_history := push_history (bu_historySize (t ! 0)) (bu_history (t ! 0)) ?e\<rparr>]"
  obtain t2 heard where p: "publish i ?e ?t1 = (t2, heard)" by (cases "publish i ?e ?t1")
  have em: "emit i now name payload t = (t2, heard)" using p by (simp add: emit_def r Let_def)
  have t0: "t \<noteq> []" using assms(1) by (simp add: flat_tree_def)
  have c: "length t2 = length t" "\<forall>j < length t. same_core (t2 ! j) (?t1 ! j)"
    using publish_core [OF p] by (auto simp: list_all2_conv_all_nth)
  show "length (fst (emit i now name payload t)) = length t" using c(1) by (simp add: em)
  show "bu_seq (fst (emit i now name payload t) ! 0) = Suc (bu_seq (t ! 0))"
    "bu_history (fst (emit i now name payload t) ! 0) = push_history (bu_historySize (t ! 0)) (bu_history (t ! 0)) ?e"
    "bu_historySize (fst (emit i now name payload t) ! 0) = bu_historySize (t ! 0)"
    using c(2) t0 seq by (auto simp: em same_core_def)
  have "bu_parent (?t1 ! j) = bu_parent (t ! j)" if "j < length t" for j using that by (cases "j = 0") simp_all
  then have par: "bu_parent (t2 ! j) = bu_parent (t ! j)" if "j < length t" for j using that c(2) by (simp add: same_core_def)
  have "t2 \<noteq> []" using c(1) t0 by fastforce
  then show "flat_tree (fst (emit i now name payload t))"
    unfolding em fst_conv flat_tree_def c(1) using par assms(1) [unfolded flat_tree_def] by simp
  show "e = ?e" if "(l, e) \<in> set (snd (emit i now name payload t))"
    using publish_event [OF p] that by (simp add: em)
qed

lemma scoped_core:
  assumes "flat_tree t"
  shows "flat_tree (snd (scoped s 0 t))" "bu_seq (snd (scoped s 0 t) ! 0) = bu_seq (t ! 0)"
    "bu_history (snd (scoped s 0 t) ! 0) = bu_history (t ! 0)" "bu_historySize (snd (scoped s 0 t) ! 0) = bu_historySize (t ! 0)"
  using assms by (auto simp: scoped_def flat_tree_def nth_append nth_list_update new_EventBus_def less_Suc_eq split: option.split)

lemma resub_core:
  assumes "flat_tree t" "i < length t" "bu_parent b = bu_parent (t ! i)" "bu_seq b = bu_seq (t ! i)"
    "bu_history b = bu_history (t ! i)" "bu_historySize b = bu_historySize (t ! i)"
  shows "flat_tree (t[i := b])" "bu_seq (t[i := b] ! 0) = bu_seq (t ! 0)" "bu_history (t[i := b] ! 0) = bu_history (t ! 0)"
    "bu_historySize (t[i := b] ! 0) = bu_historySize (t ! 0)"
  using assms by (auto simp: flat_tree_def nth_list_update)

text \<open>On a root and its direct scopes, events are numbered without gaps or repetitions across all of them,
  whatever is subscribed meanwhile; listeners hear only these events; and the root's history is the
  most recent ones, as many as it was made for.\<close>

theorem one_counter_per_root:
  assumes "flat_tree t" "flat_ops ops t" "bu_historySize (t ! 0) = int n" "length (bu_history (t ! 0)) \<le> n"
  shows "map ev_seq (run_events ops t) = [Suc (bu_seq (t ! 0)) ..< Suc (bu_seq (t ! 0)) + length (run_events ops t)] \<and>
    snd ` set (run_heard ops t) \<subseteq> set (run_events ops t) \<and>
    bu_history (run_tree ops t ! 0) =
      (let all = bu_history (t ! 0) @ run_events ops t in drop (length all - n) all)"
  using assms
proof (induction ops arbitrary: t)
  case Nil
  then show ?case by (simp add: run_tree_def)
next
  case (Cons op ops)
  let ?t1 = "fst (bus_apply op t)"
  have quiet: "?case" if "flat_tree ?t1" "bu_seq (?t1 ! 0) = bu_seq (t ! 0)" "bu_history (?t1 ! 0) = bu_history (t ! 0)"
      "bu_historySize (?t1 ! 0) = bu_historySize (t ! 0)" "snd (bus_apply op t) = []" "\<And>i now name payload. op \<noteq> EmitOp i now name payload"
  proof -
    have "run_events (op # ops) t = run_events ops ?t1" "run_heard (op # ops) t = run_heard ops ?t1"
        "run_tree (op # ops) t = run_tree ops ?t1"
      using that(5,6) by (cases op; simp add: run_tree_def)+
    then show ?thesis using Cons.IH [OF that(1)] Cons.prems that(2-4) by simp
  qed
  show ?case
  proof (cases op)
    case (OnOp i f l)
    then show ?thesis using quiet resub_core [OF Cons.prems(1), of i "on_bus f l (t ! i)"] Cons.prems(2) by (simp add: bus_apply_def)
  next
    case (OffOp i f l)
    then show ?thesis using quiet resub_core [OF Cons.prems(1), of i "off_bus f l (t ! i)"] Cons.prems(2) by (simp add: bus_apply_def)
  next
    case (ScopedOp s i)
    then show ?thesis using quiet scoped_core [OF Cons.prems(1)] Cons.prems(2) by (simp add: bus_apply_def)
  next
    case (EmitOp i now name payload)
    let ?e = "new_event i now name payload t"
    have t1: "?t1 = fst (emit i now name payload t)" "snd (bus_apply op t) = snd (emit i now name payload t)" by (simp_all add: EmitOp bus_apply_def)
    have i: "i < length t" using Cons.prems(2) by (simp add: EmitOp)
    note core = emit_core [OF Cons.prems(1) i, where now = now and name = name and payload = payload, folded t1]
    have hist: "bu_history (?t1 ! 0) = push_history (int n) (bu_history (t ! 0)) ?e" using core(3) Cons.prems(3) by simp
    have bounded: "length (bu_history (?t1 ! 0)) \<le> n" unfolding hist by (rule history.push_bounded [OF Cons.prems(4)])
    have IH: "map ev_seq (run_events ops ?t1) = [Suc (bu_seq (?t1 ! 0)) ..< Suc (bu_seq (?t1 ! 0)) + length (run_events ops ?t1)]"
        "snd ` set (run_heard ops ?t1) \<subseteq> set (run_events ops ?t1)"
        "bu_history (run_tree ops ?t1 ! 0) = (let all = bu_history (?t1 ! 0) @ run_events ops ?t1 in drop (length all - n) all)"
      using Cons.IH [OF core(1)] Cons.prems(2,3) core(4) bounded by simp_all
    have ev: "run_events (op # ops) t = ?e # run_events ops ?t1" by (simp add: EmitOp)
    have "foldl (push_history (int n)) (bu_history (t ! 0)) (?e # run_events ops ?t1)
        = foldl (push_history (int n)) (bu_history (?t1 ! 0)) (run_events ops ?t1)" by (simp add: hist)
    then have "bu_history (run_tree (op # ops) t ! 0) = (let all = bu_history (t ! 0) @ run_events (op # ops) t in drop (length all - n) all)"
      using IH(3) history.push_all [OF Cons.prems(4), of "?e # run_events ops ?t1"] history.push_all [OF bounded, of "run_events ops ?t1"]
      unfolding ev by (simp add: run_tree_def Let_def)
    moreover have "snd ` set (run_heard (op # ops) t) \<subseteq> set (run_events (op # ops) t)"
      using IH(2) core(7) unfolding ev by (auto simp: t1)
    moreover have "map ev_seq (run_events (op # ops) t) = [Suc (bu_seq (t ! 0)) ..< Suc (bu_seq (t ! 0)) + length (run_events (op # ops) t)]"
      unfolding ev using IH(1) core(2,5) by (simp add: upt_conv_Cons del: upt_Suc)
    ultimately show ?thesis by blast
  qed
qed

text \<open>A scope of a scope has a counter and a history of its own: the root's listeners hear two different
  events with one number, and the root's history misses the second.\<close>

definition nested_tree :: bus_tree where
  "nested_tree = fst (bus_apply (OnOp 0 ''*'' (Listener 7))
     (snd (scoped ''http'' 1 (snd (scoped ''bot'' 0 [new_EventBus [] None 10])))))"

theorem nested_scope_repeats_number:
  "map (\<lambda>(l, e). (l, ev_seq e, ev_scope e)) (run_heard [EmitOp 1 5 ''start'' [], EmitOp 2 6 ''http.request'' []] nested_tree)
     = [(7, 1, ''bot''), (7, 1, ''http'')] \<and>
   map ev_name (history 0 (run_tree [EmitOp 1 5 ''start'' [], EmitOp 2 6 ''http.request'' []] nested_tree)) = [''start'']"
  by code_simp

lemma one_counter_per_root_witness:
  "map ev_seq (run_events [OnOp 0 ''ws.'' (Listener 7), ScopedOp ''ws'' 0, EmitOp 1 5 ''ws.state'' [], EmitOp 0 6 ''ready'' []]
     [new_EventBus [] None 1]) = [1, 2]"
proof -
  let ?ops = "[OnOp 0 ''ws.'' (Listener 7), ScopedOp ''ws'' 0, EmitOp 1 5 ''ws.state'' [], EmitOp 0 6 ''ready'' []]"
  have f: "flat_tree [new_EventBus [] None 1]" by (simp add: flat_tree_def new_EventBus_def)
  have o: "flat_ops ?ops [new_EventBus [] None 1]" by code_simp
  have "length (run_events ?ops [new_EventBus [] None 1]) = 2" by simp
  then show ?thesis
    using one_counter_per_root [OF f o, of 1] by (simp add: new_EventBus_def upt_rec)
qed

text \<open>A wrapper made by \<open>once\<close> is heard by the first event it matches and is off the bus afterwards; no
  other subscription is touched.\<close>

theorem once_is_heard_once:
  assumes "bus_ok b" "f \<noteq> []" "filter_matches f name"
  shows "(f, OnceL w n) \<in> set (matching name (on_bus f (OnceL w n) b)) \<and>
    (let b' = deliver_to (on_bus f (OnceL w n) b) (matching name (on_bus f (OnceL w n) b))
     in (f, OnceL w n) \<notin> subs b' \<and> {(g, Listener m) |g m. (g, Listener m) \<in> subs b'} = {(g, Listener m) |g m. (g, Listener m) \<in> subs b})"
proof -
  let ?b = "on_bus f (OnceL w n) b"
  have ok: "bus_ok ?b" by (rule on_bus_ok [OF assms(1)])
  have here: "(f, OnceL w n) \<in> set (matching name ?b)"
    using assms(2,3) by (simp add: matching_found [OF ok] subs_on norm_filter_def)
  have "\<forall>(g, l) \<in> set (matching name ?b). g \<noteq> []" by (auto simp: matching_found [OF ok] filter_matches_def)
  then have "subs (deliver_to ?b (matching name ?b)) = subs ?b - {(g, l) \<in> set (matching name ?b). \<exists>w n. l = OnceL w n}"
    using deliver_once [OF ok] by blast
  then show ?thesis using here by (auto simp: Let_def subs_on)
qed

end
