(* ===== verification/Client_Context.thy ===== *)
theory Client_Context
  imports Http_Client Risk_Gateway
begin

text \<open>
  What a client is made of before it talks: \<open>client/endpoints.ts\<close> (the hosts of an environment),
  \<open>core/credentials.ts\<close>, \<open>core/context.ts\<close> (one HTTP client per host and the clock sync), the user-stream
  and closing methods of \<open>client/BinanceClient.ts\<close>, and the mode of the command line server in
  \<open>mcp/mode.ts\<close>. A URL or another option that was not given is \<open>None\<close>. Lemmas: which endpoints leave the
  live exchange, that the server's default mode lets no mutating request through, that each host has
  one client, and what closing does to streams.
\<close>

section \<open>Environments\<close>

datatype environment = EnvLive | EnvTestnet | EnvDemo

record env_options =
  eo_testnet :: bool
  eo_demo :: bool
  eo_apiBase :: "string option"
  eo_wsBase :: "string option"
  eo_wsMarketPublicBase :: "string option"
  eo_wsUserBase :: "string option"
  eo_wsPrivateBase :: "string option"
  eo_wsApiBase :: "string option"
  eo_dapiBase :: "string option"
  eo_wsSpotApiBase :: "string option"
  eo_wsDapiBase :: "string option"
  eo_wsDapiMarketPublicBase :: "string option"
  eo_wsDapiApiBase :: "string option"

record endpoints =
  en_restRoot :: string
  en_restFapi :: string
  en_restFuturesData :: string
  en_restSpot :: string
  en_restApiRoot :: string
  en_restDapiRoot :: string
  en_restDapi :: string
  en_restEapi :: string
  en_restPapi :: string
  en_restBapi :: string
  en_wsMarket :: string
  en_wsMarketPublic :: string
  en_wsPrivate :: string
  en_wsUser :: string
  en_wsApi :: string
  en_wsSpotMarket :: string
  en_wsSpotUser :: string
  en_wsSpotApi :: string
  en_wsDapiMarket :: string
  en_wsDapiMarketPublic :: string
  en_wsDapiUser :: string
  en_wsDapiApi :: string
  en_wsOptionsMarket :: string
  en_wsOptionsUser :: string
  en_wsPortfolioMarginUser :: string

definition or_else :: "'a option \<Rightarrow> 'a \<Rightarrow> 'a" where
  "or_else x d = (case x of None \<Rightarrow> d | Some v \<Rightarrow> v)"

text \<open>\<open>s.replace(/\/market(\/|$)/, '/public$1')\<close>: the first occurrence that ends a path segment.\<close>

fun market_to_public :: "string \<Rightarrow> string" where
  "market_to_public [] = []"
| "market_to_public (c # s) =
     (if starts_with (c # s) ''/market'' \<and> (drop 7 (c # s) = [] \<or> starts_with (drop 7 (c # s)) ''/'')
      then ''/public'' @ drop 7 (c # s) else c # market_to_public s)"

definition env_of :: "env_options \<Rightarrow> environment" where
  "env_of opts = (if eo_demo opts then EnvDemo else if eo_testnet opts then EnvTestnet else EnvLive)"

definition resolveEnvironment :: "env_options \<Rightarrow> environment \<times> endpoints" where
  "resolveEnvironment opts =
     (let env = env_of opts;
          by_env = (\<lambda>demo testnet live. case env of EnvDemo \<Rightarrow> demo | EnvTestnet \<Rightarrow> testnet | EnvLive \<Rightarrow> live);
          restHost = or_else (eo_apiBase opts)
            (by_env ''https://demo-fapi.binance.com'' ''https://testnet.binancefuture.com'' ''https://fapi.binance.com'');
          wsFuturesRoot = by_env ''wss://demo-fstream.binance.com'' ''wss://fstream.binancefuture.com'' ''wss://fstream.binance.com'';
          wsMarketHost = or_else (eo_wsBase opts) (wsFuturesRoot @ ''/market/stream'');
          wsMarketPublicHost = or_else (eo_wsMarketPublicBase opts)
            (case eo_wsBase opts of
               Some b \<Rightarrow> if b \<noteq> [] then market_to_public b else wsFuturesRoot @ ''/public/stream''
             | None \<Rightarrow> wsFuturesRoot @ ''/public/stream'');
          wsPrivateHost = or_else (eo_wsUserBase opts) (or_else (eo_wsPrivateBase opts)
            (by_env ''wss://demo-fstream.binance.com/private'' ''wss://fstream.binancefuture.com/private''
              ''wss://fstream.binance.com/private''));
          wsApiHost = or_else (eo_wsApiBase opts)
            (by_env ''wss://demo-fapi.binance.com/ws-fapi/v1'' ''wss://testnet.binancefuture.com/ws-fapi/v1''
              ''wss://ws-fapi.binance.com/ws-fapi/v1'');
          restSpotHost = or_else (eo_apiBase opts)
            (if env = EnvTestnet then ''https://testnet.binance.vision'' else ''https://api.binance.com'');
          wsSpotMarketHost = or_else (eo_wsBase opts)
            (if env = EnvTestnet then ''wss://testnet.binance.vision/stream'' else ''wss://stream.binance.com:9443/stream'');
          wsSpotUserHost = or_else (eo_wsUserBase opts)
            (if env = EnvTestnet then ''wss://testnet.binance.vision/ws'' else ''wss://stream.binance.com:9443/ws'');
          restDapiHost = or_else (eo_dapiBase opts)
            (if env = EnvTestnet \<or> env = EnvDemo then ''https://testnet.binancefuture.com'' else ''https://dapi.binance.com'');
          wsSpotApiHost = or_else (eo_wsSpotApiBase opts)
            (if env = EnvTestnet then ''wss://testnet.binance.vision/ws-api/v3'' else ''wss://ws-api.binance.com:443/ws-api/v3'');
          wsDapiHost = or_else (eo_wsDapiBase opts)
            (if env = EnvTestnet \<or> env = EnvDemo then ''wss://dstream.binancefuture.com'' else ''wss://dstream.binance.com'');
          wsDapiMarketPublicHost = or_else (eo_wsDapiMarketPublicBase opts)
            (if env = EnvTestnet \<or> env = EnvDemo then ''wss://dstream.binancefuture.com/public/stream''
             else ''wss://dstream.binance.com/public/stream'');
          wsDapiApiHost = or_else (eo_wsDapiApiBase opts)
            (if env = EnvTestnet \<or> env = EnvDemo then ''wss://testnet.binancefuture.com/ws-dapi/v1''
             else ''wss://ws-dapi.binance.com/ws-dapi/v1'')
      in (env,
          \<lparr>en_restRoot = restHost, en_restFapi = restHost @ ''/fapi/v1'', en_restFuturesData = restHost @ ''/futures/data'',
           en_restSpot = restSpotHost @ ''/api/v3'', en_restApiRoot = restSpotHost, en_restDapiRoot = restDapiHost,
           en_restDapi = restDapiHost @ ''/dapi/v1'', en_restEapi = ''https://eapi.binance.com/eapi/v1'',
           en_restPapi = ''https://papi.binance.com/papi/v1'', en_restBapi = ''https://www.binance.com'',
           en_wsMarket = wsMarketHost, en_wsMarketPublic = wsMarketPublicHost, en_wsPrivate = wsPrivateHost, en_wsUser = wsPrivateHost,
           en_wsApi = wsApiHost, en_wsSpotMarket = wsSpotMarketHost, en_wsSpotUser = wsSpotUserHost, en_wsSpotApi = wsSpotApiHost,
           en_wsDapiMarket = wsDapiHost @ ''/market/stream'', en_wsDapiMarketPublic = wsDapiMarketPublicHost,
           en_wsDapiUser = wsDapiHost @ ''/public/ws'', en_wsDapiApi = wsDapiApiHost,
           en_wsOptionsMarket = ''wss://nbstream.binance.com/eoptions/stream'',
           en_wsOptionsUser = ''wss://nbstream.binance.com/eoptions/ws'',
           en_wsPortfolioMarginUser = ''wss://fstream.binance.com/pm/ws''\<rparr>))"

section \<open>Credentials\<close>

record credentials =
  cr_apiKey :: "string option"
  cr_apiSecret :: "string option"
  cr_privateKey :: "string option"
  cr_algorithm :: signature_algorithm

definition new_Credentials :: "string option \<Rightarrow> string option \<Rightarrow> string option \<Rightarrow> signature_algorithm option \<Rightarrow> credentials" where
  "new_Credentials key secret private alg =
     \<lparr>cr_apiKey = key, cr_apiSecret = secret, cr_privateKey = private,
      cr_algorithm = or_else alg (if private \<noteq> None then ED25519 else HMAC)\<rparr>"

definition given :: "string option \<Rightarrow> bool" where
  "given x \<longleftrightarrow> x \<noteq> None \<and> x \<noteq> Some []"

definition canSign :: "credentials \<Rightarrow> bool" where
  "canSign c = (if cr_algorithm c = HMAC then given (cr_apiKey c) \<and> given (cr_apiSecret c) else given (cr_apiKey c) \<and> given (cr_privateKey c))"

definition hasApiKey :: "credentials \<Rightarrow> bool" where
  "hasApiKey c = given (cr_apiKey c)"

definition algorithm_name :: "signature_algorithm \<Rightarrow> string" where
  "algorithm_name a = (case a of HMAC \<Rightarrow> ''hmac'' | ED25519 \<Rightarrow> ''ed25519'' | RSA \<Rightarrow> ''rsa'')"

definition last4 :: "string \<Rightarrow> string" where
  "last4 s = drop (length s - 4) s"

definition describe_credentials :: "credentials \<Rightarrow> string" where
  "describe_credentials c =
     (if \<not> hasApiKey c then ''public (no credentials)''
      else algorithm_name (cr_algorithm c) @ '' key ****'' @ last4 (the (cr_apiKey c)) @ (if canSign c then [] else '' (unsigned)''))"

section \<open>One HTTP client per host\<close>

datatype rest_host = FapiRoot | Fapi | Spot | ApiRoot | DapiRoot | Dapi | Eapi | EapiRoot | Papi | PapiRoot | Bapi

definition HOST_URL :: "rest_host \<Rightarrow> endpoints \<Rightarrow> string" where
  "HOST_URL h e = (case h of
     FapiRoot \<Rightarrow> en_restRoot e | Fapi \<Rightarrow> en_restFapi e | Spot \<Rightarrow> en_restSpot e | ApiRoot \<Rightarrow> en_restApiRoot e
   | DapiRoot \<Rightarrow> en_restDapiRoot e | Dapi \<Rightarrow> en_restDapi e | Eapi \<Rightarrow> en_restEapi e | EapiRoot \<Rightarrow> ''https://eapi.binance.com''
   | Papi \<Rightarrow> en_restPapi e | PapiRoot \<Rightarrow> ''https://papi.binance.com'' | Bapi \<Rightarrow> en_restBapi e)"

text \<open>A constructed client: its identity, its base URL and its clock offset.\<close>

record host_client =
  hc_id :: nat
  hc_baseURL :: string
  hc_offset :: int

record core_context =
  cc_env :: environment
  cc_endpoints :: endpoints
  cc_policy :: "risk_gateway option"
  cc_http :: "(rest_host, host_client) jsmap"
  cc_next :: nat

definition new_CoreContext :: "int \<Rightarrow> env_options \<Rightarrow> (policy_options \<times> risk_options) option \<Rightarrow> core_context" where
  "new_CoreContext now opts safety =
     \<lparr>cc_env = fst (resolveEnvironment opts), cc_endpoints = snd (resolveEnvironment opts),
      cc_policy = map_option (\<lambda>(p, k). new_RiskGateway now p k) safety, cc_http = [], cc_next = 0\<rparr>"

definition http :: "rest_host \<Rightarrow> core_context \<Rightarrow> host_client \<times> core_context" where
  "http h c =
     (case jm_get h (cc_http c) of
        Some client \<Rightarrow> (client, c)
      | None \<Rightarrow>
          (let client = \<lparr>hc_id = cc_next c, hc_baseURL = HOST_URL h (cc_endpoints c), hc_offset = 0\<rparr>
           in (client, c\<lparr>cc_http := jm_set h client (cc_http c), cc_next := Suc (cc_next c)\<rparr>)))"

text \<open>What each host answers to the time request, as the difference to the local clock.\<close>

definition sync_host :: "rest_host \<Rightarrow> int option \<Rightarrow> core_context \<Rightarrow> core_context" where
  "sync_host h answer c =
     (case http h c of (client, c1) \<Rightarrow>
        (case answer of None \<Rightarrow> c1 | Some d \<Rightarrow> c1\<lparr>cc_http := jm_set h (client\<lparr>hc_offset := d\<rparr>) (cc_http c1)\<rparr>))"

definition syncTime :: "(rest_host \<Rightarrow> int option) \<Rightarrow> core_context \<Rightarrow> core_context" where
  "syncTime answer c = foldl (\<lambda>c h. sync_host h (answer h) c) c [FapiRoot, Spot, DapiRoot, ApiRoot]"

section \<open>Pairs\<close>

definition PAIR_TARGETS :: "string list" where
  "PAIR_TARGETS = [''USDT'', ''USDC'', ''BUSD'', ''BTC'', ''ETH'', ''BNB'']"

definition buildPair :: "string \<Rightarrow> string \<Rightarrow> string" where
  "buildPair base target = to_upper (base @ target)"

definition pair_char :: "char \<Rightarrow> bool" where
  "pair_char c \<longleftrightarrow> is_digit c \<or> 65 \<le> (of_char c :: nat) \<and> (of_char c :: nat) \<le> 90"

definition ends_with :: "string \<Rightarrow> string \<Rightarrow> bool" where
  "ends_with s t \<longleftrightarrow> starts_with (rev s) (rev t)"

text \<open>No target ends another, so at most one of them ends the pair and the longest base is the only one.\<close>

definition parsePair :: "string \<Rightarrow> (string \<times> string) option" where
  "parsePair pair =
     (case filter (\<lambda>t. length t < length pair \<and> ends_with pair t \<and> list_all pair_char (take (length pair - length t) pair)) PAIR_TARGETS of
        [] \<Rightarrow> None
      | t # _ \<Rightarrow> Some (take (length pair - length t) pair, t))"

section \<open>Listen-key streams of the facade\<close>

datatype stream_call = CreateKey | KeepAliveKey | CloseKey | ConnectWs | CloseWs

record key_stream =
  ks_listenKey :: "string option"
  ks_interval :: "nat option"
  ks_timers :: "nat list"
  ks_next :: nat
  ks_calls :: "stream_call list"

definition new_key_stream :: key_stream where
  "new_key_stream = \<lparr>ks_listenKey = None, ks_interval = None, ks_timers = [], ks_next = 0, ks_calls = []\<rparr>"

text \<open>A start up to its await, and after the answer; the four products have the same code.\<close>

definition stream_start :: "key_stream \<Rightarrow> key_stream" where
  "stream_start s = s\<lparr>ks_calls := ks_calls s @ [CreateKey]\<rparr>"

definition stream_started :: "string option \<Rightarrow> key_stream \<Rightarrow> key_stream" where
  "stream_started answer s =
     (case answer of
        None \<Rightarrow> s
      | Some key \<Rightarrow> s\<lparr>ks_listenKey := Some key, ks_timers := ks_timers s @ [ks_next s], ks_interval := Some (ks_next s),
          ks_next := Suc (ks_next s), ks_calls := ks_calls s @ [ConnectWs]\<rparr>)"

definition stream_tick :: "nat \<Rightarrow> key_stream \<Rightarrow> key_stream" where
  "stream_tick h s = (if h \<in> set (ks_timers s) then s\<lparr>ks_calls := ks_calls s @ [KeepAliveKey]\<rparr> else s)"

definition stream_close :: "key_stream \<Rightarrow> key_stream" where
  "stream_close s =
     s\<lparr>ks_timers := (case ks_interval s of Some h \<Rightarrow> removeAll h (ks_timers s) | None \<Rightarrow> ks_timers s), ks_interval := None,
       ks_calls := ks_calls s @ [CloseWs, CloseKey], ks_listenKey := None\<rparr>"

text \<open>What \<open>closeAllWebSockets\<close> does to each product: its socket first, then its user stream.\<close>

definition close_all_stream :: "key_stream \<Rightarrow> key_stream" where
  "close_all_stream s = stream_close (s\<lparr>ks_calls := ks_calls s @ [CloseWs]\<rparr>)"

section \<open>The mode of the command line server\<close>

datatype mcp_backend = McpLive | McpPaper

type_synonym process_env = "string \<Rightarrow> string option"

definition resolveMcpMode :: "process_env \<Rightarrow> mcp_backend \<times> bool" where
  "resolveMcpMode env = (if env ''BINANCE_MCP_LIVE'' = Some ''1'' then (McpLive, False) else (McpPaper, True))"

definition no_options :: env_options where
  "no_options = \<lparr>eo_testnet = False, eo_demo = False, eo_apiBase = None, eo_wsBase = None, eo_wsMarketPublicBase = None,
     eo_wsUserBase = None, eo_wsPrivateBase = None, eo_wsApiBase = None, eo_dapiBase = None, eo_wsSpotApiBase = None,
     eo_wsDapiBase = None, eo_wsDapiMarketPublicBase = None, eo_wsDapiApiBase = None\<rparr>"

definition read_only_safety :: "policy_options \<times> risk_options" where
  "read_only_safety =
     (\<lparr>po_dryRun = False, po_readOnly = True, po_allowedSymbols = None, po_maxNotional = None, po_referenceTtl = None,
       po_allowWithdrawals = None, po_allowTransfers = None, po_blockedPaths = []\<rparr>,
      \<lparr>ko_maxLeverage = None, ko_maxOpenNotional = None, ko_maxPositionNotional = None, ko_maxDailyLoss = None,
       ko_maxConsecutiveFailures = None\<rparr>)"

definition env_testnet :: "process_env \<Rightarrow> bool" where
  "env_testnet env \<longleftrightarrow> env ''BINANCE_TESTNET'' = Some ''true'' \<or> env ''BINANCE_ENV'' = Some ''testnet''"

definition mcpClientFromEnv :: "int \<Rightarrow> process_env \<Rightarrow> core_context" where
  "mcpClientFromEnv now env =
     new_CoreContext now (no_options\<lparr>eo_testnet := env_testnet env, eo_demo := env ''BINANCE_ENV'' = Some ''demo''\<rparr>)
       (if snd (resolveMcpMode env) then Some read_only_safety else None)"

definition banner_environment :: "process_env \<Rightarrow> string" where
  "banner_environment env = (if env_testnet env then ''testnet'' else ''mainnet'')"

text \<open>The dash of the live line is one character of the code beyond 255 and written as a hyphen.\<close>

definition mcpModeBanner :: "mcp_backend \<times> bool \<Rightarrow> process_env \<Rightarrow> string list" where
  "mcpModeBanner mode env =
     [''binance-sdk MCP: execution backend='' @ (case fst mode of McpPaper \<Rightarrow> ''PAPER'' | McpLive \<Rightarrow> ''LIVE'')
        @ (case fst mode of McpPaper \<Rightarrow> '' (default; set BINANCE_MCP_LIVE=1 for live execution)''
           | McpLive \<Rightarrow> '' (LIVE - real orders, real funds)''),
      ''binance-sdk MCP: read-only fence='' @ (if snd mode then ''ON (mutating requests refused)'' else ''OFF (live opted in)''),
      ''binance-sdk MCP: environment='' @ banner_environment env]"

section \<open>Which endpoints leave the live exchange\<close>

text \<open>Hosts of the production exchange; the sandboxes are the demo hosts, \<open>binancefuture.com\<close> and
  \<open>binance.vision\<close>.\<close>

definition live_url :: "string \<Rightarrow> bool" where
  "live_url u \<longleftrightarrow> has_substr u ''binance.com'' \<and> \<not> has_substr u ''//demo-''"

definition named_urls :: "endpoints \<Rightarrow> (string \<times> string) list" where
  "named_urls e =
     [(''restRoot'', en_restRoot e), (''restFapi'', en_restFapi e), (''restFuturesData'', en_restFuturesData e),
      (''restSpot'', en_restSpot e), (''restApiRoot'', en_restApiRoot e), (''restDapiRoot'', en_restDapiRoot e),
      (''restDapi'', en_restDapi e), (''restEapi'', en_restEapi e), (''restPapi'', en_restPapi e), (''restBapi'', en_restBapi e),
      (''wsMarket'', en_wsMarket e), (''wsMarketPublic'', en_wsMarketPublic e), (''wsPrivate'', en_wsPrivate e),
      (''wsUser'', en_wsUser e), (''wsApi'', en_wsApi e), (''wsSpotMarket'', en_wsSpotMarket e), (''wsSpotUser'', en_wsSpotUser e),
      (''wsSpotApi'', en_wsSpotApi e), (''wsDapiMarket'', en_wsDapiMarket e), (''wsDapiMarketPublic'', en_wsDapiMarketPublic e),
      (''wsDapiUser'', en_wsDapiUser e), (''wsDapiApi'', en_wsDapiApi e), (''wsOptionsMarket'', en_wsOptionsMarket e),
      (''wsOptionsUser'', en_wsOptionsUser e), (''wsPortfolioMarginUser'', en_wsPortfolioMarginUser e)]"

definition live_names :: "env_options \<Rightarrow> string list" where
  "live_names opts = map fst (filter (\<lambda>(n, u). live_url u) (named_urls (snd (resolveEnvironment opts))))"

text \<open>Without overrides, the test network keeps every product off the live exchange but options, portfolio
  margin and alpha. Demo mode also leaves spot on it: its REST hosts, its streams and its WebSocket API.\<close>

theorem sandbox_leaves_live_hosts:
  "live_names (no_options\<lparr>eo_testnet := True\<rparr>)
     = [''restEapi'', ''restPapi'', ''restBapi'', ''wsOptionsMarket'', ''wsOptionsUser'', ''wsPortfolioMarginUser'']"
  "live_names (no_options\<lparr>eo_demo := True\<rparr>)
     = [''restSpot'', ''restApiRoot'', ''restEapi'', ''restPapi'', ''restBapi'', ''wsSpotMarket'', ''wsSpotUser'', ''wsSpotApi'',
        ''wsOptionsMarket'', ''wsOptionsUser'', ''wsPortfolioMarginUser'']"
  by code_simp+

text \<open>One base override serves futures and spot alike.\<close>

theorem api_base_shared:
  assumes "eo_apiBase opts = Some b"
  shows "en_restRoot (snd (resolveEnvironment opts)) = b \<and> en_restApiRoot (snd (resolveEnvironment opts)) = b"
  using assms by (simp add: resolveEnvironment_def Let_def or_else_def)

section \<open>The read-only fence\<close>

definition read_only :: "risk_gateway \<Rightarrow> bool" where
  "read_only g \<longleftrightarrow> po_readOnly (tp_options (rg_policy g))"

lemma roll_policy [simp]: "rg_policy (rollDayIfNeeded now g) = rg_policy g"
  by (simp add: rollDayIfNeeded_def resetDaily_def resetBreaker_def Let_def)

lemma read_only_check:
  assumes "read_only g"
  shows "rg_policy (snd (rg_check now m path params g)) = rg_policy g"
    and "m \<noteq> GET \<Longrightarrow> \<exists>r. fst (rg_check now m path params g) = Some (RPolicy (PolicyViolation r m path))"
proof -
  have "\<exists>r. path_rule path (tp_options (rg_policy g)) = Some r" using assms by (simp add: read_only_def path_rule_def)
  then obtain r where r: "path_rule path (tp_options (rg_policy g)) = Some r" by blast
  have tp: "tp_check now m path params (rg_policy g) = (if m = GET then (None, rg_policy g) else (Some (PolicyViolation r m path), rg_policy g))"
    by (simp add: tp_check_def r)
  show "rg_policy (snd (rg_check now m path params g)) = rg_policy g" using tp by (simp add: rg_check_def Let_def)
  show "\<exists>r. fst (rg_check now m path params g) = Some (RPolicy (PolicyViolation r m path))" if "m \<noteq> GET"
    using tp that by (simp add: rg_check_def Let_def)
qed

lemma read_only_step:
  assumes "read_only g"
  shows "read_only (rg_step g op)"
proof (cases op)
  case (KCheck now m path params)
  then show ?thesis using read_only_check(1) [OF assms] assms by (simp add: read_only_def)
qed (use assms in \<open>auto simp: read_only_def registerOpenOrder_def releaseOpenOrder_def recordRealizedPnl_def trip_def recordFailure_def
      recordSuccess_def restoreDailyState_def recordPositionNotional_def riskStatus_def resetBreaker_def Let_def
      split: option.splits if_splits prod.splits\<close>)

text \<open>C11: unless the environment opts into live execution, the client of the command line server is
  built with a policy, and that policy refuses every mutating request, on every path and with any
  parameters, whatever was asked and fed before.\<close>

theorem default_mode_fences_every_order:
  assumes "env ''BINANCE_MCP_LIVE'' \<noteq> Some ''1''"
  shows "\<exists>g. cc_policy (mcpClientFromEnv started env) = Some g \<and>
    (\<forall>ops now m path params. m \<noteq> GET \<longrightarrow>
      (\<exists>r. fst (rg_check now m path params (foldl rg_step g ops)) = Some (RPolicy (PolicyViolation r m path))))"
proof -
  define g where "g = new_RiskGateway started (fst read_only_safety) (snd read_only_safety)"
  have attached: "cc_policy (mcpClientFromEnv started env) = Some g"
    using assms by (simp add: g_def mcpClientFromEnv_def resolveMcpMode_def new_CoreContext_def split_beta)
  have "read_only g" by (simp add: g_def read_only_def new_RiskGateway_def new_TradingPolicy_def read_only_safety_def)
  then have "read_only (foldl rg_step g ops)" for ops
    by (induction ops arbitrary: g) (simp_all add: read_only_step)
  then show ?thesis using attached read_only_check(2) by blast
qed

theorem default_mode_fences_every_order_witness:
  "\<exists>g r. cc_policy (mcpClientFromEnv 0 Map.empty) = Some g \<and>
     fst (rg_check 5 POST ''/fapi/v1/order'' (JObj []) (foldl rg_step g [KReset, KSuccess]))
       = Some (RPolicy (PolicyViolation r POST ''/fapi/v1/order''))"
proof -
  have "(Map.empty :: process_env) ''BINANCE_MCP_LIVE'' \<noteq> Some ''1''" by simp
  from default_mode_fences_every_order [OF this, of 0] show ?thesis by blast
qed

text \<open>In live mode the client has no policy at all; and the banner calls a demo client mainnet.\<close>

theorem live_mode_has_no_policy:
  "env ''BINANCE_MCP_LIVE'' = Some ''1'' \<Longrightarrow> cc_policy (mcpClientFromEnv started env) = None"
  by (simp add: mcpClientFromEnv_def resolveMcpMode_def new_CoreContext_def)

theorem banner_calls_demo_mainnet:
  "cc_env (mcpClientFromEnv started [''BINANCE_ENV'' \<mapsto> ''demo'']) = EnvDemo \<and>
   banner_environment [''BINANCE_ENV'' \<mapsto> ''demo''] = ''mainnet''"
  by (simp add: mcpClientFromEnv_def new_CoreContext_def resolveEnvironment_def env_of_def no_options_def env_testnet_def
      banner_environment_def Let_def)

section \<open>One client per host\<close>

definition context_ok :: "core_context \<Rightarrow> bool" where
  "context_ok c \<longleftrightarrow> (\<forall>h k. jm_get h (cc_http c) = Some k \<longrightarrow> hc_id k < cc_next c \<and> hc_baseURL k = HOST_URL h (cc_endpoints c)) \<and>
     (\<forall>h h' k k'. jm_get h (cc_http c) = Some k \<longrightarrow> jm_get h' (cc_http c) = Some k' \<longrightarrow> hc_id k = hc_id k' \<longrightarrow> h = h')"

datatype context_op = AccessHttp rest_host | SyncHost rest_host "int option"

definition context_step :: "core_context \<Rightarrow> context_op \<Rightarrow> core_context" where
  "context_step c op = (case op of AccessHttp h \<Rightarrow> snd (http h c) | SyncHost h answer \<Rightarrow> sync_host h answer c)"

lemma http_known: "jm_get h (cc_http c) = Some k \<Longrightarrow> http h c = (k, c)"
  by (simp add: http_def)

lemma http_ok:
  assumes "context_ok c"
  shows "context_ok (snd (http h c))"
proof (cases "jm_get h (cc_http c)")
  case None
  have "hc_id k \<noteq> cc_next c" if "jm_get h' (cc_http c) = Some k" for h' k
    using assms that unfolding context_ok_def by (metis less_irrefl)
  then show ?thesis using assms None
    by (auto simp: context_ok_def http_def Let_def map_laws less_SucI split: if_splits) (metis+)
qed (use assms in \<open>simp add: http_known\<close>)

lemma http_get: "jm_get h (cc_http (snd (http h c))) = Some (fst (http h c))"
  by (simp add: http_def Let_def map_laws split: option.split)

lemma http_keeps: "jm_get h' (cc_http c) = Some k \<Longrightarrow> jm_get h' (cc_http (snd (http h c))) = Some k"
  by (auto simp: http_def Let_def map_laws split: option.split)

lemma http_endpoints [simp]: "cc_endpoints (snd (http h c)) = cc_endpoints c"
  by (simp add: http_def Let_def split: option.split)

lemma sync_host_alt:
  "sync_host h answer c = (case answer of None \<Rightarrow> snd (http h c)
     | Some d \<Rightarrow> (snd (http h c))\<lparr>cc_http := jm_set h ((fst (http h c))\<lparr>hc_offset := d\<rparr>) (cc_http (snd (http h c)))\<rparr>)"
  by (simp add: sync_host_def split_beta split: option.split)

lemma sync_ok: "context_ok c \<Longrightarrow> context_ok (sync_host h answer c)"
  using http_ok [of c h] http_get [of h c]
  by (auto simp: sync_host_alt context_ok_def map_laws split: option.splits if_splits)

lemma step_keeps_id:
  "jm_get h (cc_http c) = Some k \<Longrightarrow> \<exists>k'. jm_get h (cc_http (context_step c op)) = Some k' \<and> hc_id k' = hc_id k"
  using http_keeps [of h c k] http_get by (cases op) (auto simp: context_step_def sync_host_alt map_laws http_known split: option.splits)

lemma steps_keep_id:
  "jm_get h (cc_http c) = Some k \<Longrightarrow> \<exists>k'. jm_get h (cc_http (foldl context_step c ops)) = Some k' \<and> hc_id k' = hc_id k"
proof (induction ops arbitrary: c k)
  case (Cons op ops)
  obtain k1 where "jm_get h (cc_http (context_step c op)) = Some k1" "hc_id k1 = hc_id k" using step_keeps_id [OF Cons.prems] by blast
  then show ?case using Cons.IH [of "context_step c op" k1] by auto
qed simp

lemma steps_ok: "context_ok c \<Longrightarrow> context_ok (foldl context_step c ops)"
  by (induction ops arbitrary: c) (auto simp: context_step_def http_ok sync_ok split: context_op.split)

text \<open>Every access to a host, whatever was accessed and synchronised in between, returns the client that the
  first access built for it, with the host's own base URL; different hosts have different clients.\<close>

theorem one_client_per_host:
  "let c = foldl context_step (new_CoreContext now opts safety) ops; c' = foldl context_step (snd (http h c)) ops'
   in hc_id (fst (http h c')) = hc_id (fst (http h c)) \<and>
      hc_baseURL (fst (http h c)) = HOST_URL h (cc_endpoints c) \<and>
      (\<forall>h'. hc_id (fst (http h' c')) = hc_id (fst (http h c')) \<longrightarrow> h' = h)"
proof -
  define c where "c = foldl context_step (new_CoreContext now opts safety) ops"
  define c' where "c' = foldl context_step (snd (http h c)) ops'"
  have "context_ok (new_CoreContext now opts safety)" by (simp add: context_ok_def new_CoreContext_def jm_get_def)
  then have ok: "context_ok c" unfolding c_def by (rule steps_ok)
  have ok': "context_ok c'" unfolding c'_def by (intro steps_ok http_ok ok)
  obtain k where k: "jm_get h (cc_http c') = Some k" "hc_id k = hc_id (fst (http h c))"
    using steps_keep_id [OF http_get, of h c ops'] unfolding c'_def by blast
  then have same: "hc_id (fst (http h c')) = hc_id (fst (http h c))" by (simp add: http_def)
  have url: "hc_baseURL (fst (http h c)) = HOST_URL h (cc_endpoints c)"
    using http_ok [OF ok, of h] http_get [of h c] by (simp add: context_ok_def)
  have "h' = h" if "hc_id (fst (http h' c')) = hc_id (fst (http h c'))" for h'
  proof -
    have "jm_get h (cc_http (snd (http h' c'))) = Some k" by (rule http_keeps [OF k(1)])
    moreover have "hc_id k = hc_id (fst (http h c'))" using k(1) by (simp add: http_def)
    ultimately show ?thesis using http_ok [OF ok', of h'] http_get [of h' c'] that unfolding context_ok_def by metis
  qed
  then show ?thesis using same url unfolding c_def [symmetric] Let_def c'_def [symmetric] by blast
qed

text \<open>The clock sync reaches four clients; those of the other hosts, portfolio margin and options among them,
  keep the offset they had.\<close>

theorem sync_misses_hosts:
  assumes "h \<notin> {FapiRoot, Spot, DapiRoot, ApiRoot}"
  shows "jm_get h (cc_http (syncTime answer c)) = jm_get h (cc_http c)"
proof -
  have "jm_get h (cc_http (sync_host h' a c)) = jm_get h (cc_http c)" if "h \<noteq> h'" for h' a c
    using that by (auto simp: sync_host_alt http_def Let_def map_laws split: option.splits)
  then show ?thesis using assms by (simp add: syncTime_def)
qed

section \<open>Pairs are read back\<close>

lemma pair_ends_with: "ends_with s t \<longleftrightarrow> (\<exists>r. s = r @ t)"
  unfolding ends_with_def starts_with_iff by (metis rev_append rev_rev_ident)

theorem pair_roundtrip:
  assumes "base \<noteq> []" "list_all pair_char (to_upper base)" "to_upper target \<in> set PAIR_TARGETS"
  shows "parsePair (buildPair base target) = Some (to_upper base, to_upper target)"
proof -
  let ?b = "to_upper base" and ?t = "to_upper target"
  have p: "buildPair base target = ?b @ ?t" by (simp add: buildPair_def to_upper_def)
  have b: "?b \<noteq> []" using assms(1) by (simp add: to_upper_def)
  have unique: "\<forall>u \<in> set PAIR_TARGETS. \<forall>v \<in> set PAIR_TARGETS. u \<noteq> v \<longrightarrow> \<not> ends_with u v" by code_simp
  have only: "u = ?t" if u: "u \<in> set PAIR_TARGETS" "ends_with (?b @ ?t) u" for u
  proof -
    obtain r where "?b @ ?t = r @ u" using u(2) pair_ends_with by blast
    then have "ends_with u ?t \<or> ends_with ?t u" unfolding pair_ends_with append_eq_append_conv2 by metis
    then show ?thesis using unique u(1) assms(3) by metis
  qed
  let ?P = "\<lambda>t. length t < length (?b @ ?t) \<and> ends_with (?b @ ?t) t \<and> list_all pair_char (take (length (?b @ ?t) - length t) (?b @ ?t))"
  have "?P ?t" using b assms(2) by (auto simp: pair_ends_with)
  then have "?t \<in> set (filter ?P PAIR_TARGETS)" using assms(3) by simp
  moreover have "\<forall>u \<in> set (filter ?P PAIR_TARGETS). u = ?t" using only by auto
  moreover have "\<exists>us. xs = x # us" if "x \<in> set xs" "\<forall>u \<in> set xs. u = x" for x :: string and xs using that by (cases xs) auto
  ultimately obtain us where "filter ?P PAIR_TARGETS = ?t # us" by blast
  then show ?thesis unfolding parsePair_def p by simp
qed

theorem pair_roundtrip_witness: "parsePair (buildPair ''sol'' ''usdt'') = Some (''SOL'', ''USDT'')"
proof -
  have "to_upper ''sol'' = ''SOL''" "to_upper ''usdt'' = ''USDT''" "list_all pair_char ''SOL''" "''USDT'' \<in> set PAIR_TARGETS" by code_simp+
  then show ?thesis using pair_roundtrip [of "''sol''" "''usdt''"] by simp
qed

section \<open>Streams and closing\<close>

definition stream_ok :: "key_stream \<Rightarrow> bool" where
  "stream_ok s \<longleftrightarrow> distinct (ks_timers s) \<and> (\<forall>h \<in> set (ks_timers s). h < ks_next s) \<and>
     (\<forall>h. ks_interval s = Some h \<longrightarrow> h \<in> set (ks_timers s))"

lemma stream_ok_steps [simp]:
  "stream_ok new_key_stream" "stream_ok s \<Longrightarrow> stream_ok (stream_start s)" "stream_ok s \<Longrightarrow> stream_ok (stream_started a s)"
  "stream_ok s \<Longrightarrow> stream_ok (stream_tick h s)" "stream_ok s \<Longrightarrow> stream_ok (stream_close s)"
  by (auto simp: stream_ok_def new_key_stream_def stream_start_def stream_started_def stream_tick_def stream_close_def distinct_removeAll
      split: option.splits)

text \<open>A stream started twice keeps its first keep-alive timer past its closing, and that timer goes on
  renewing the key.\<close>

theorem second_start_leaks_timer:
  assumes "stream_ok s" "ks_interval s = Some h"
  shows "let s' = stream_close (stream_started (Some key) (stream_start s))
    in h \<in> set (ks_timers s') \<and> ks_calls (stream_tick h s') = ks_calls s' @ [KeepAliveKey]"
  using assms by (auto simp: stream_ok_def stream_close_def stream_started_def stream_start_def stream_tick_def Let_def)

text \<open>A start whose key arrives after the closing connects all the same.\<close>

theorem late_key_reopens_stream:
  "let s' = stream_started (Some key) (stream_close (stream_start s)) in last (ks_calls s') = ConnectWs \<and> ks_listenKey s' = Some key"
  by (simp add: stream_started_def stream_close_def stream_start_def)

text \<open>Closing everything asks the exchange to delete the listen key of streams that were never started.\<close>

theorem close_all_deletes_foreign_keys:
  "ks_calls (close_all_stream new_key_stream) = [CloseWs, CloseWs, CloseKey]"
  by (simp add: close_all_stream_def stream_close_def new_key_stream_def)

text \<open>Starts and closes in turn leave no timer behind.\<close>

theorem paired_starts_leave_no_timer:
  "ks_timers (((\<lambda>s. stream_close (stream_started (Some key) (stream_start s))) ^^ n) new_key_stream) = []"
proof -
  have "stream_ok (((\<lambda>s. stream_close (stream_started (Some key) (stream_start s))) ^^ n) new_key_stream) \<and>
      ks_timers (((\<lambda>s. stream_close (stream_started (Some key) (stream_start s))) ^^ n) new_key_stream) = [] \<and>
      ks_interval (((\<lambda>s. stream_close (stream_started (Some key) (stream_start s))) ^^ n) new_key_stream) = None"
    by (induction n) (simp_all add: new_key_stream_def, simp_all add: stream_ok_def stream_close_def stream_started_def stream_start_def)
  then show ?thesis by blast
qed

section \<open>Secrets\<close>

text \<open>A description shows nothing of the credentials but the last four characters of the key: two clients
  that agree on those, on the algorithm and on what is present are described alike.\<close>

theorem description_hides_secrets:
  assumes "cr_algorithm c = cr_algorithm d" "hasApiKey c = hasApiKey d" "canSign c = canSign d"
    "last4 (the (cr_apiKey c)) = last4 (the (cr_apiKey d))"
  shows "describe_credentials c = describe_credentials d"
  using assms by (simp add: describe_credentials_def)

end
