(* ===== verification/Legacy_Engine.thy ===== *)
theory Legacy_Engine
  imports Order_Book
begin

text \<open>
  \<open>src/state/OrderBookEngine.ts\<close>: the earlier manager of local books over one market socket. Books are
  objects that a pending snapshot holds on to, so they live in a store and the map holds their
  addresses. What an \<open>await\<close> leaves behind is a pending task; an event settles one task or delivers a
  call or a frame, and the code runs up to its next \<open>await\<close>. Published events are left out. Lemmas: one
  recovery per symbol at a time, no desynchronisation unanswered, and what a slow snapshot does.
\<close>

section \<open>State\<close>

text \<open>A subscription request; the delay before a recovery; a snapshot request for a book, made by a
  recovery or by \<open>subscribe\<close>.\<close>

datatype lg_task = LgSub string | LgDelay string | LgFetch string nat bool

record legacy_engine =
  lg_store :: "order_book list"
  lg_books :: "(string, nat) jsmap"
  lg_resyncing :: "string list"
  lg_tasks :: "lg_task list"
  lg_attached :: bool
  lg_speed :: string

record legacy_frame =
  lf_e :: string
  lf_s :: "string option"
  lf_diff :: diff_input

definition new_OrderBookEngine :: "string option \<Rightarrow> legacy_engine" where
  "new_OrderBookEngine speed =
     \<lparr>lg_store = [], lg_books = [], lg_resyncing = [], lg_tasks = [], lg_attached = True,
      lg_speed = (case speed of None \<Rightarrow> ''100ms'' | Some v \<Rightarrow> v)\<rparr>"

section \<open>Operations\<close>

definition lg_spawn :: "lg_task \<Rightarrow> legacy_engine \<Rightarrow> legacy_engine" where
  "lg_spawn t g = g\<lparr>lg_tasks := lg_tasks g @ [t]\<rparr>"

definition lg_stream :: "string \<Rightarrow> legacy_engine \<Rightarrow> string" where
  "lg_stream upper g = to_lower upper @ ''@depth@'' @ lg_speed g"

definition lg_subscribe :: "string \<Rightarrow> legacy_engine \<Rightarrow> legacy_engine" where
  "lg_subscribe symbol g =
     (let upper = to_upper symbol;
          g1 = (if jm_get upper (lg_books g) \<noteq> None then g
                else g\<lparr>lg_books := jm_set upper (length (lg_store g)) (lg_books g), lg_store := lg_store g @ [new_OrderBook upper]\<rparr>)
      in lg_spawn (LgSub upper) g1)"

definition lg_done :: "bool \<Rightarrow> string \<Rightarrow> legacy_engine \<Rightarrow> legacy_engine" where
  "lg_done recovery symbol g = (if recovery then g\<lparr>lg_resyncing := removeAll symbol (lg_resyncing g)\<rparr> else g)"

text \<open>\<open>resync\<close> up to its request.\<close>

definition lg_resync :: "bool \<Rightarrow> string \<Rightarrow> legacy_engine \<Rightarrow> legacy_engine" where
  "lg_resync recovery symbol g =
     (case jm_get symbol (lg_books g) of
        None \<Rightarrow> lg_done recovery symbol g
      | Some i \<Rightarrow> lg_spawn (LgFetch symbol i recovery) g)"

definition lg_subscribed :: "bool \<Rightarrow> string \<Rightarrow> legacy_engine \<Rightarrow> legacy_engine" where
  "lg_subscribed ok upper g =
     (if \<not> ok then g
      else case jm_get upper (lg_books g) of
             Some i \<Rightarrow> if isSynced (lg_store g ! i) then g else lg_resync False upper g
           | None \<Rightarrow> lg_resync False upper g)"

text \<open>The answer to a snapshot request; an error of the request or of a level is caught.\<close>

definition lg_fetched :: "string \<Rightarrow> nat \<Rightarrow> bool \<Rightarrow> snapshot_input option \<Rightarrow> legacy_engine \<Rightarrow> legacy_engine" where
  "lg_fetched symbol i recovery answer g =
     lg_done recovery symbol
       (case answer of None \<Rightarrow> g | Some sn \<Rightarrow> g\<lparr>lg_store := (lg_store g)[i := snd (applySnapshot (lg_store g ! i) sn)]\<rparr>)"

definition lg_scheduleResync :: "string \<Rightarrow> legacy_engine \<Rightarrow> legacy_engine" where
  "lg_scheduleResync symbol g =
     (if symbol \<in> set (lg_resyncing g) then g
      else lg_spawn (LgDelay symbol) (g\<lparr>lg_resyncing := lg_resyncing g @ [symbol]\<rparr>))"

definition lg_symbol :: "string \<Rightarrow> legacy_frame \<Rightarrow> string" where
  "lg_symbol stream f = to_upper (case lf_s f of Some s \<Rightarrow> s | None \<Rightarrow> takeWhile (\<lambda>c. c \<noteq> CHR ''@'') stream)"

text \<open>A level that cannot be parsed makes the handler throw.\<close>

definition lg_message :: "string \<Rightarrow> legacy_frame option \<Rightarrow> legacy_engine \<Rightarrow> dec_error option \<times> legacy_engine" where
  "lg_message stream frame g =
     (case frame of
        None \<Rightarrow> (None, g)
      | Some f \<Rightarrow>
          if \<not> lg_attached g \<or> \<not> has_substr stream ''@depth'' \<or> lf_e f \<noteq> ''depthUpdate'' then (None, g)
          else case jm_get (lg_symbol stream f) (lg_books g) of
                 None \<Rightarrow> (None, g)
               | Some i \<Rightarrow>
                   (case applyDiff (lg_store g ! i) (lf_diff f) of
                      (r, b) \<Rightarrow>
                        let g1 = g\<lparr>lg_store := (lg_store g)[i := b]\<rparr>
                        in case r of
                             Inl e \<Rightarrow> (Some e, g1)
                           | Inr True \<Rightarrow> (None, g1)
                           | Inr False \<Rightarrow> (None, lg_scheduleResync (lg_symbol stream f) g1)))"

definition lg_unsubscribe :: "string \<Rightarrow> legacy_engine \<Rightarrow> legacy_engine" where
  "lg_unsubscribe symbol g = g\<lparr>lg_books := jm_del (to_upper symbol) (lg_books g)\<rparr>"

definition lg_destroy :: "legacy_engine \<Rightarrow> legacy_engine" where
  "lg_destroy g = g\<lparr>lg_attached := False, lg_books := []\<rparr>"

section \<open>Runs\<close>

datatype lg_event =
    EvSubscribe string
  | EvUnsubscribe string
  | EvMessage string "legacy_frame option"
  | EvDestroy
  | EvSubSettled string bool
  | EvTimer string
  | EvFetched string nat bool "snapshot_input option"

text \<open>An answer or a timer is an event only while its task is pending.\<close>

definition lg_settle :: "lg_task \<Rightarrow> (legacy_engine \<Rightarrow> legacy_engine) \<Rightarrow> legacy_engine \<Rightarrow> legacy_engine" where
  "lg_settle t k g = (if t \<in> set (lg_tasks g) then k (g\<lparr>lg_tasks := remove1 t (lg_tasks g)\<rparr>) else g)"

definition lg_step :: "legacy_engine \<Rightarrow> lg_event \<Rightarrow> legacy_engine" where
  "lg_step g ev = (case ev of
     EvSubscribe s \<Rightarrow> lg_subscribe s g
   | EvUnsubscribe s \<Rightarrow> lg_unsubscribe s g
   | EvMessage stream f \<Rightarrow> snd (lg_message stream f g)
   | EvDestroy \<Rightarrow> lg_destroy g
   | EvSubSettled s ok \<Rightarrow> lg_settle (LgSub s) (lg_subscribed ok s) g
   | EvTimer s \<Rightarrow> lg_settle (LgDelay s) (lg_resync True s) g
   | EvFetched s i r answer \<Rightarrow> lg_settle (LgFetch s i r) (lg_fetched s i r answer) g)"

section \<open>Properties\<close>

definition recovers :: "string \<Rightarrow> lg_task \<Rightarrow> bool" where
  "recovers s t = (case t of LgSub x \<Rightarrow> False | LgDelay x \<Rightarrow> x = s | LgFetch x i r \<Rightarrow> x = s \<and> r)"

definition recoveries :: "string \<Rightarrow> legacy_engine \<Rightarrow> nat" where
  "recoveries s g = length (filter (recovers s) (lg_tasks g))"

definition fetch_address :: "lg_task \<Rightarrow> nat option" where
  "fetch_address t = (case t of LgFetch x i r \<Rightarrow> Some i | _ \<Rightarrow> None)"

definition legacy_ok :: "legacy_engine \<Rightarrow> bool" where
  "legacy_ok g \<longleftrightarrow> (\<forall>s. recoveries s g = (if s \<in> set (lg_resyncing g) then 1 else 0)) \<and>
     (\<forall>s i. jm_get s (lg_books g) = Some i \<longrightarrow> i < length (lg_store g)) \<and>
     (\<forall>t \<in> set (lg_tasks g). \<forall>i. fetch_address t = Some i \<longrightarrow> i < length (lg_store g))"

lemma recoveries_simps [simp]:
  "recoveries s (lg_spawn t g) = recoveries s g + (if recovers s t then 1 else 0)"
  "recoveries s (g\<lparr>lg_store := st\<rparr>) = recoveries s g" "recoveries s (g\<lparr>lg_books := bs\<rparr>) = recoveries s g"
  "recoveries s (g\<lparr>lg_resyncing := rs\<rparr>) = recoveries s g"
  by (simp_all add: recoveries_def lg_spawn_def)

lemma spawn_fields [simp]:
  "lg_store (lg_spawn t g) = lg_store g" "lg_books (lg_spawn t g) = lg_books g" "lg_resyncing (lg_spawn t g) = lg_resyncing g"
  "lg_tasks (lg_spawn t g) = lg_tasks g @ [t]"
  by (simp_all add: lg_spawn_def)

lemma recoveries_settled:
  "t \<in> set (lg_tasks g) \<Longrightarrow> recoveries s g = recoveries s (g\<lparr>lg_tasks := remove1 t (lg_tasks g)\<rparr>) + (if recovers s t then 1 else 0)"
proof -
  assume t: "t \<in> set (lg_tasks g)"
  have "0 < length (filter (recovers s) (lg_tasks g))" if "recovers s t" using t that by (auto simp: length_greater_0_conv filter_empty_conv)
  then show ?thesis using t by (auto simp: recoveries_def filter_remove1 length_remove1)
qed

lemma removed_recoveries:
  assumes "legacy_ok g" "t \<in> set (lg_tasks g)"
  shows "recoveries s (g\<lparr>lg_tasks := remove1 t (lg_tasks g)\<rparr>) = (if s \<in> set (lg_resyncing g) \<and> \<not> recovers s t then 1 else 0)"
  using recoveries_settled [OF assms(2), of s] assms(1) by (auto simp: legacy_ok_def split: if_splits)

lemma recovering_marked: "legacy_ok g \<Longrightarrow> t \<in> set (lg_tasks g) \<Longrightarrow> recovers s t \<Longrightarrow> s \<in> set (lg_resyncing g)"
  using recoveries_settled [of t g s] by (auto simp: legacy_ok_def split: if_splits)

lemma scheduled_ok: "legacy_ok g \<Longrightarrow> legacy_ok (lg_scheduleResync s g)"
  by (auto simp: legacy_ok_def lg_scheduleResync_def recovers_def fetch_address_def)

lemma store_ok: "legacy_ok g \<Longrightarrow> legacy_ok (g\<lparr>lg_store := (lg_store g)[i := b]\<rparr>)"
  by (simp add: legacy_ok_def)

lemma lg_step_ok:
  assumes "legacy_ok g"
  shows "legacy_ok (lg_step g ev)"
proof (cases ev)
  case (EvSubscribe s)
  then show ?thesis
    using assms by (fastforce simp: lg_step_def lg_subscribe_def legacy_ok_def recovers_def fetch_address_def Let_def map_laws less_SucI split: if_splits)
next
  case (EvMessage stream f)
  then show ?thesis
    using assms by (auto simp: lg_step_def lg_message_def Let_def scheduled_ok store_ok split: option.split prod.split sum.split bool.split)
next
  case (EvSubSettled s ok)
  then show ?thesis
    using assms removed_recoveries [OF assms, of "LgSub s"]
    by (auto simp: lg_step_def lg_settle_def lg_subscribed_def lg_resync_def lg_done_def legacy_ok_def recovers_def fetch_address_def
        dest: notin_set_remove1 split: option.split)
next
  case (EvTimer s)
  then show ?thesis
    using assms removed_recoveries [OF assms, of "LgDelay s"] recovering_marked [OF assms, of "LgDelay s" s]
    by (auto simp: lg_step_def lg_settle_def lg_resync_def lg_done_def legacy_ok_def recovers_def fetch_address_def
        dest: notin_set_remove1 split: option.split if_splits)
next
  case (EvFetched s i r answer)
  then show ?thesis
    using assms removed_recoveries [OF assms, of "LgFetch s i r"] recovering_marked [OF assms, of "LgFetch s i r" s]
    by (auto simp: lg_step_def lg_settle_def lg_fetched_def lg_done_def legacy_ok_def recovers_def fetch_address_def
        dest: notin_set_remove1 split: option.split if_splits)
next
  case (EvUnsubscribe s)
  then show ?thesis
    using assms by (auto simp: lg_step_def lg_unsubscribe_def legacy_ok_def map_laws split: if_splits)
next
  case EvDestroy
  then show ?thesis
    using assms by (auto simp: lg_step_def lg_destroy_def legacy_ok_def recoveries_def jm_get_def)
qed

text \<open>Whatever the order of calls, frames, timers and answers, a symbol is marked as recovering exactly while
  one recovery of it is pending, and every address points into the store.\<close>

theorem one_recovery_at_a_time: "legacy_ok (foldl lg_step (new_OrderBookEngine speed) evs)"
proof -
  have "legacy_ok (new_OrderBookEngine speed)" by (simp add: legacy_ok_def new_OrderBookEngine_def recoveries_def jm_get_def)
  then show ?thesis by (induction evs arbitrary: speed rule: rev_induct) (simp_all add: lg_step_ok)
qed

text \<open>A diff that its book refuses is answered: one recovery of the symbol is pending afterwards.\<close>

theorem refused_diff_recovers:
  assumes "legacy_ok g" "lg_attached g" "has_substr stream ''@depth''" "lf_e f = ''depthUpdate''"
    and "jm_get (lg_symbol stream f) (lg_books g) = Some i" "fst (applyDiff (lg_store g ! i) (lf_diff f)) = Inr False"
  shows "recoveries (lg_symbol stream f) (snd (lg_message stream (Some f) g)) = 1"
proof -
  let ?g = "g\<lparr>lg_store := (lg_store g)[i := snd (applyDiff (lg_store g ! i) (lf_diff f))]\<rparr>"
  have "snd (lg_message stream (Some f) g) = lg_scheduleResync (lg_symbol stream f) ?g"
    using assms(2-) by (cases "applyDiff (lg_store g ! i) (lf_diff f)") (simp add: lg_message_def Let_def)
  moreover have "legacy_ok (lg_scheduleResync (lg_symbol stream f) ?g)" by (intro scheduled_ok store_ok assms)
  moreover have "lg_symbol stream f \<in> set (lg_resyncing (lg_scheduleResync (lg_symbol stream f) ?g))"
    by (simp add: lg_scheduleResync_def)
  ultimately show ?thesis by (simp add: legacy_ok_def)
qed

text \<open>A recovery whose request fails is over: the book stays as it is and nothing is pending for its symbol
  until another frame is refused.\<close>

theorem failed_recovery_gives_up:
  assumes "legacy_ok g" "LgFetch s i True \<in> set (lg_tasks g)"
  shows "let g' = lg_step g (EvFetched s i True None) in lg_store g' = lg_store g \<and> recoveries s g' = 0"
  using removed_recoveries [OF assms, of s] assms(2)
  by (simp add: lg_step_def lg_settle_def lg_fetched_def lg_done_def recovers_def)

text \<open>A snapshot is seeded whatever the book has reached meanwhile: one that is older than the book takes it
  back, and the next diff of the stream, which names the number the book had reached, is refused.\<close>

theorem late_snapshot_rewinds:
  assumes "LgFetch s i r \<in> set (lg_tasks g)" "i < length (lg_store g)" "fst (applySnapshot (lg_store g ! i) sn) = None"
    and "ob_last (lg_store g ! i) = Some n" "sn_lastUpdateId sn < n" "d_pu d = Some n"
  shows "let b = lg_store (lg_step g (EvFetched s i r (Some sn))) ! i
    in ob_last b = Some (sn_lastUpdateId sn) \<and> isSynced b \<and> fst (applyDiff b d) = Inr False"
proof -
  obtain b where b: "applySnapshot (lg_store g ! i) sn = (None, b)" using assms(3) by (cases "applySnapshot (lg_store g ! i) sn") auto
  have "lg_store (lg_step g (EvFetched s i r (Some sn))) ! i = b"
    using assms(1,2) b by (simp add: lg_step_def lg_settle_def lg_fetched_def lg_done_def)
  then show ?thesis using applySnapshot_seed [OF b] assms(5,6) by (simp add: applyDiff_gap is_gap_def isSynced_def)
qed

text \<open>A snapshot asked for before a symbol was unsubscribed and subscribed again goes to the old book.\<close>

theorem orphaned_snapshot_elsewhere:
  "j \<noteq> i \<Longrightarrow> lg_store (lg_step g (EvFetched s i r answer)) ! j = lg_store g ! j"
  by (auto simp: lg_step_def lg_settle_def lg_fetched_def lg_done_def split: option.split)

end
