(* ===== verification/Spec2Isabelle.thy ===== *)
theory Spec2Isabelle
  imports Decimal_Arith Decimal_Value Order_Book Managed_Book Book_Engine Order_Tracker Rate_Limit
    Retry_Safety Trading_Policy Http_Client Risk_Gateway Execution_Manager Execution_Adapter
    Ws_Connection Ws_Streams Ws_Pool Ws_Renewal Income_Feed Private_Url User_Session Execution_Gateway
    Ws_Api JS_Float JS_Math Paper_Engine Paper_Adapter Execution_Platform Futures_Ops Agent_Signals
    Agent_Execution Exec_Transports Json_Lossless Event_Bus Client_Context Legacy_Engine
begin

text \<open>
  A model of the Binance SDK (\<open>src/src\<close>, TypeScript) and its correctness.

  \<^bold>\<open>The program.\<close> The SDK talks to an exchange over REST and WebSockets. Its own logic is in five
  layers, a simulator and an agent, modelled bottom up, one theory per part.
  \<^item> Numbers. Prices and quantities are exact decimals, a \<open>bigint\<close> scaled by \<open>10^18\<close>
    (\<open>core/decimal.ts\<close>): theory \<open>Decimal_Arith\<close>. JavaScript's own numbers, strings, maps and untyped
    values are in \<open>JS_Prelude\<close>, \<open>JS_Number\<close> and \<open>JS_Value\<close>, its rounding functions and printing to a
    fixed number of digits in \<open>JS_Math\<close>; \<open>Decimal_Value\<close> reads decimals out of untyped values.
    \<open>core/json.ts\<close> reads a payload without losing the digits of long integers (\<open>Json_Lossless\<close>).
  \<^item> Market state. \<open>state/OrderBook.ts\<close> keeps two sorted sides and a sequence number
    (\<open>Order_Book\<close>); \<open>ManagedBook.ts\<close> gives it a lifecycle and a buffer of early diffs
    (\<open>Managed_Book\<close>); \<open>BookEngine.ts\<close> drives one book per symbol with snapshots and resyncs
    (\<open>Book_Engine\<close>), and the earlier \<open>OrderBookEngine.ts\<close> without a buffer (\<open>Legacy_Engine\<close>).
  \<^item> Requests. \<open>client/HttpClient.ts\<close> builds, signs, sends and retries requests (\<open>Http_Client\<close>),
    after the policy hook: \<open>TradingPolicy.ts\<close> (\<open>Trading_Policy\<close>) or its stateful extension
    \<open>risk/RiskGateway.ts\<close> (\<open>Risk_Gateway\<close>). The throttle and the reconnect delays are in
    \<open>Rate_Limit\<close>, the error classes and what they mean for a retry in \<open>Retry_Safety\<close>. What a client is
    made of before it talks is in \<open>Client_Context\<close>: the hosts of an environment
    (\<open>client/endpoints.ts\<close>), credentials, one HTTP client per host (\<open>core/context.ts\<close>), the listen-key
    streams of the facade and the mode of the command line server (\<open>mcp/mode.ts\<close>). \<open>core/events.ts\<close>, the
    tree of event buses, is in \<open>Event_Bus\<close>.
  \<^item> Orders. \<open>execution/platform\<close> normalizes user-stream frames and REST views and folds them into
    one record per order and position (\<open>Order_Tracker\<close>); \<open>execution/ExecutionManager.ts\<close> places
    orders idempotently and reconciles ambiguous outcomes (\<open>Execution_Manager\<close>), telling the risk
    gateway about exposure and failures. \<open>execution/adapter.ts\<close> turns the exchange's responses and
    frames into what the manager records (\<open>Execution_Adapter\<close>), and \<open>risk/RealizedPnlFeed.ts\<close> pages
    through the income ledger to feed the loss limit (\<open>Income_Feed\<close>). \<open>execution/Gateway.ts\<close> routes
    calls to a live or a paper manager and writes an audit record of each; over two of those managers, with
    its sinks and the cancel-replace dispatcher, it is in \<open>Execution_Gateway\<close>. The narrower transports of
    \<open>execution/Transports.ts\<close> are in \<open>Exec_Transports\<close>.
  \<^item> Paper trading. \<open>src/paper\<close> fills orders against a simulated account in binary floating point
    (\<open>Paper_Engine\<close>, over the facts about rounding in \<open>JS_Float\<close>). \<open>execution/paper.ts\<close> puts it behind
    the interface of a product adapter and \<open>PaperSession.ts\<close> replays its fills as user-stream frames
    (\<open>Paper_Adapter\<close>); \<open>Execution_Platform\<close> has the REST reconciliation pass (\<open>Reconciler.ts\<close>) and the
    runtime in which the simulator, the manager, the session and the trackers meet.
  \<^item> Strategies. \<open>resources/FuturesOps.ts\<close> composes endpoints: the rounding of orders to the exchange's
    filters, sizing by risk, closing, brackets and overviews (\<open>Futures_Ops\<close>). On top of it the agent
    (\<open>src/agent\<close>) computes indicators, a market regime, a scored signal and the exits of a position
    (\<open>Agent_Signals\<close>), and scans for symbols, enters with protective orders, flattens and reconciles
    (\<open>Agent_Execution\<close>).
  \<^item> Streams. \<open>ws/WsConnection.ts\<close> keeps one socket alive through rotations, drops and silence, and
    owns the table of control requests (\<open>Ws_Connection\<close>). \<open>ws/BaseWS.ts\<close> keeps the server's
    subscriptions equal to the desired ones (\<open>Ws_Streams\<close>). \<open>ws/platform\<close> shares connections between
    subscriptions under the exchange's limits (\<open>Ws_Pool\<close>), rotates them before the server's 24 hour
    cut and watches their silence (\<open>Ws_Renewal\<close>). \<open>ws/privateUrl.ts\<close> writes and redacts the URLs of
    private streams (\<open>Private_Url\<close>), and \<open>execution/platform/UserStreamSession.ts\<close> keeps the listen
    key of one alive (\<open>User_Session\<close>). \<open>ws/platform/WsApiClient.ts\<close> multiplexes calls over one
    authenticated connection (\<open>Ws_Api\<close>).

  \<^bold>\<open>How code becomes definitions.\<close> A class is a record, a method a function from the state to the
  state and the result, named after it. A thrown error is the left of a sum. A \<open>Map\<close> is an
  association list in insertion order under the laws of the locale \<open>ordered_map\<close>. An asynchronous
  method is cut at its awaits: the state remembers where each call stands, and a step function
  over events (calls, answers, timers, frames) runs the code from one await to the next, so that a
  list of events is an interleaving. Clocks, random numbers, sockets, the HTTP library and the
  cryptographic library are arguments, as are the square root and the power of ten that the language
  leaves to the platform's approximation, the endpoints that the operations for strategies await, and the
  exchange's side of a stream connection. Characters are code units up to 255.

  \<^bold>\<open>Interfaces.\<close> The locales are \<open>ordered_map\<close>, \<open>capped_buffer\<close> and \<open>invariant_machine\<close> in the
  prelude, \<open>sequenced_book\<close> between the managed book and the book it wraps, and
  \<open>exposure_budget\<close> between the execution manager and the risk gateway. Each is interpreted on the
  model of the code that provides it.

  \<^bold>\<open>What is shown.\<close> Printing and reading of decimals, rounding bounds and digits; that applying a
  diff is the update of a finite map and skips no sequence number, gaps desynchronise, a snapshot
  replays the buffered tail, and an engine schedules the repair of every gap; that an order leaves
  the client at most once, or twice on proof of absence, that every placement settles within
  \<open>4 * n + 2\<close> awaited answers for \<open>n\<close> reconciliation attempts, that a terminal order never changes and
  known quantities stay known; that the breaker latches, the loss limit has always tripped it,
  and what passes the policy is inside its fences; bounds of backoffs; that a retired socket is never
  heard again, every control request is settled once, closing is final, the pool keeps the
  exchange's limits, a resynchronisation repairs the subscriptions when the exchange carries its requests
  out, renewals are capped and never
  forgotten; that paging reads the whole ledger and polling counts each row once; that a redacted
  URL shows nothing of the key, a session rotates its key once at a time and stays closed, and every
  call of the gateway ends as its manager's operation did and leaves one audit record, whatever the sink
  does; that every call of the WebSocket API is settled once, a sent order never ends as a plain network
  error, and no call but those of the session is sent before the logon of its connection was accepted; that
  the simulated account stays coherent while prices arrive between orders and a
  refused order costs nothing, that an order the simulator booked can be fetched, and that on the paper
  runtime the manager and the trackers agree on it; that quantities and prices for the exchange are exact
  multiples of its step and tick, an accepted sizing meets every filter, an entry of the agent is
  on the signal's side and is returned only with its stop on the other side accepted, and its exits never close more than was opened; that the server's default
  mode refuses every mutating request, an object of integers is read without loss, each host has one
  client, and a bus delivers an event once per subscription in force. Some theorems state what
  the code does where a comment says otherwise, or where two parts disagree: a leading-point
  literal, a stale diff after an interruption, a failed resync, batch orders, cancel-and-replace,
  a server error on placement, the exposure of immediate fills and reconciled orders, a drop during
  a rotation, a failed resynchronisation, a late acknowledgement, a rotation that hangs, a seed after
  midnight, fills that the acknowledgement and the stream both report, a flattening that its own breaker
  refuses, a bracket's market entry on the step of limit orders, long integers next to each other in an
  array, numbering under nested scopes, the spot hosts of demo mode, and a snapshot that comes late.

  \<^bold>\<open>Bounds.\<close> No fuel is used: loops are structural, or recursive with a measure (the binary search
  by the width of its interval, the retry loop by the attempts left). The paging loop of the income
  feed depends on the exchange and may not end: it is a partial function, and \<open>paging_terminates\<close>
  shows that it returns whenever the exchange honours the end time it is asked for.

  \<^bold>\<open>Not modelled.\<close> The wiring of the WebSocket platform and the namespaces of the facade hand work
  to the parts above. The generated schemas, the endpoint tables and the
  one-line wrappers of the HTTP client have no logic of their own; sockets and files are
  effects outside the model.
\<close>

end
